(* ===== verification/Conf_Prelude.thy ===== *)
theory Conf_Prelude
  imports Main "HOL-Library.Word" "HOL-Library.Monad_Syntax"
begin

text \<open>
  Shared vocabulary of the development: the C integer types as words, the byte order of the
  network, the wrap-around comparison of RTP sequence numbers and timestamps, and the generic
  lemmas on lists and options that the component theories use. The collections \<open>c_defs\<close>
  (unfolding of the small C helpers) and \<open>wrap\<close> (facts on wrap-around comparison) are
  filled here and in the components.
\<close>

unbundle bit_operations_syntax

named_theorems c_defs
named_theorems wrap

type_synonym u8 = "8 word"
type_synonym u16 = "16 word"
type_synonym u32 = "32 word"
type_synonym u64 = "64 word"
type_synonym bytes = "u8 list"

text \<open>Division of C \<open>int\<close> values truncates toward zero.\<close>

definition c_div :: "int \<Rightarrow> int \<Rightarrow> int" where
  "c_div a b = sgn a * sgn b * (\<bar>a\<bar> div \<bar>b\<bar>)"

lemma c_div_nonneg: "0 \<le> a \<Longrightarrow> 0 < b \<Longrightarrow> c_div a b = a div b"
  by (cases "a = 0") (simp_all add: c_div_def)

section \<open>Network byte order\<close>

text \<open>A 16-bit or 32-bit field in network (big-endian) order, and its bytes.\<close>

definition be16 :: "u8 \<Rightarrow> u8 \<Rightarrow> u16" where
  "be16 a b = push_bit 8 (ucast a) OR ucast b"

definition be16_bytes :: "u16 \<Rightarrow> bytes" where
  "be16_bytes w = [ucast (drop_bit 8 w), ucast w]"

definition be32 :: "u8 \<Rightarrow> u8 \<Rightarrow> u8 \<Rightarrow> u8 \<Rightarrow> u32" where
  "be32 a b c d = push_bit 24 (ucast a) OR push_bit 16 (ucast b) OR push_bit 8 (ucast c) OR ucast d"

definition be32_bytes :: "u32 \<Rightarrow> bytes" where
  "be32_bytes w = [ucast (drop_bit 24 w), ucast (drop_bit 16 w), ucast (drop_bit 8 w), ucast w]"

lemma be16_of_bytes [simp]: "be16 (ucast (drop_bit 8 w)) (ucast w) = w"
  unfolding be16_def
  by (rule bit_word_eqI)
     (auto simp: bit_simps)

lemma be16_fst [simp]: "ucast (drop_bit 8 (be16 a b)) = a"
  unfolding be16_def
  by (rule bit_word_eqI) (auto simp: bit_simps dest: bit_imp_le_length)

lemma be16_snd [simp]: "ucast (be16 a b) = b"
  unfolding be16_def
  by (rule bit_word_eqI) (auto simp: bit_simps)

lemma be32_of_bytes [simp]:
  "be32 (ucast (drop_bit 24 w)) (ucast (drop_bit 16 w)) (ucast (drop_bit 8 w)) (ucast w) = w"
proof (rule bit_word_eqI)
  fix n assume "n < LENGTH(32)"
  then show "bit (be32 (ucast (drop_bit 24 w)) (ucast (drop_bit 16 w)) (ucast (drop_bit 8 w)) (ucast w)) n
      = bit w n"
    by (cases "n < 8"; cases "n < 16"; cases "n < 24") (auto simp: be32_def bit_simps)
qed

lemma be32_nth:
  "ucast (drop_bit 24 (be32 a b c d)) = a" "ucast (drop_bit 16 (be32 a b c d)) = b"
  "ucast (drop_bit 8 (be32 a b c d)) = c" "ucast (be32 a b c d) = d"
  by (rule bit_word_eqI, auto simp: be32_def bit_simps dest: bit_imp_le_length)+

declare be32_nth [simp]

lemma length_be16_bytes [simp]: "length (be16_bytes w) = 2"
  by (simp add: be16_bytes_def)

lemma length_be32_bytes [simp]: "length (be32_bytes w) = 4"
  by (simp add: be32_bytes_def)

section \<open>Reading a buffer\<close>

text \<open>\<open>byte_at\<close> is a read with its bounds check; \<open>read16\<close> and \<open>read32\<close> are \<open>ntohs\<close> and \<open>ntohl\<close> of the word at an
  offset that the caller has checked.\<close>

definition byte_at :: "bytes \<Rightarrow> nat \<Rightarrow> u8 option" where
  "byte_at bs i = (if i < length bs then Some (bs ! i) else None)"

definition read16 :: "bytes \<Rightarrow> nat \<Rightarrow> u16" where
  "read16 bs i = be16 (bs ! i) (bs ! (i + 1))"

definition read32 :: "bytes \<Rightarrow> nat \<Rightarrow> u32" where
  "read32 bs i = be32 (bs ! i) (bs ! (i + 1)) (bs ! (i + 2)) (bs ! (i + 3))"

lemma read16_at: "length p = i \<Longrightarrow> read16 (p @ be16_bytes w @ r) i = w"
  by (auto simp: read16_def be16_bytes_def nth_append)

lemma read32_at: "length p = i \<Longrightarrow> read32 (p @ be32_bytes w @ r) i = w"
  by (auto simp: read32_def be32_bytes_def nth_append)

end
