(* ===== verification/Str_Utils.thy ===== *)
theory Str_Utils
  imports Conf_Prelude
begin

text \<open>
  The message blocks of \<open>ortp/src/str_utils.c\<close>: an explicit store of \<open>mblk_t\<close> and
  \<open>dblk_t\<close> structures, with the reference count of every data block. A pointer is an address
  or NULL (\<open>None\<close>); reading through NULL or through a pointer to freed memory, and writing past
  \<open>db_lim\<close>, make the operation return \<open>None\<close>, so a theorem that an operation returns
  \<open>Some\<close> says that it has no such fault. \<open>b_rptr\<close> and \<open>b_wptr\<close> are absolute
  addresses, as in the code: the padding that \<open>appendb\<close> computes depends on them.
  \<open>ortp_malloc\<close> never returns an address twice and aligns to 16 bytes.
\<close>

section \<open>The store\<close>

type_synonym addr = nat

record mblk_t =
  b_prev :: "addr option"
  b_next :: "addr option"
  b_cont :: "addr option"
  b_datap :: "addr option"
  b_rptr :: nat
  b_wptr :: nat
  reserved1 :: u32
  reserved2 :: u32
  recv_addr :: bytes

record dblk_t =
  db_base :: nat
  db_buf :: bytes
  db_freefn :: "nat option"
  db_ref :: int

record heap =
  mblks :: "addr \<rightharpoonup> mblk_t"
  dblks :: "addr \<rightharpoonup> dblk_t"
  brk :: addr
  freefn_calls :: "(nat \<times> nat) list"

definition db_lim :: "dblk_t \<Rightarrow> nat" where
  "db_lim db = db_base db + length (db_buf db)"

definition empty_heap :: heap where
  "empty_heap = \<lparr>mblks = Map.empty, dblks = Map.empty, brk = 16, freefn_calls = []\<rparr>"

definition ortp_malloc :: "nat \<Rightarrow> heap \<Rightarrow> addr \<times> heap" where
  "ortp_malloc n h = (brk h, h\<lparr>brk := brk h + 16 * (n div 16 + 1)\<rparr>)"

definition sizeof_dblk :: nat where "sizeof_dblk = 32"
definition sizeof_mblk :: nat where "sizeof_mblk = 80"

definition upd_m :: "addr \<Rightarrow> (mblk_t \<Rightarrow> mblk_t) \<Rightarrow> heap \<Rightarrow> heap option" where
  "upd_m a f h = (case mblks h a of None \<Rightarrow> None
     | Some m \<Rightarrow> Some (h\<lparr>mblks := (mblks h)(a \<mapsto> f m)\<rparr>))"

definition free_m :: "addr \<Rightarrow> heap \<Rightarrow> heap" where
  "free_m a h = h\<lparr>mblks := (mblks h)(a := None)\<rparr>"

section \<open>Blocks\<close>

definition mblk_init :: mblk_t where
  "mblk_init = \<lparr>b_prev = None, b_next = None, b_cont = None, b_datap = None, b_rptr = 0,
     b_wptr = 0, reserved1 = 0, reserved2 = 0, recv_addr = []\<rparr>"

definition mblk_meta_copy :: "mblk_t \<Rightarrow> mblk_t \<Rightarrow> mblk_t" where
  "mblk_meta_copy source dest = dest\<lparr>reserved1 := reserved1 source, reserved2 := reserved2 source\<rparr>"

definition datab_alloc :: "nat \<Rightarrow> heap \<Rightarrow> addr \<times> heap" where
  "datab_alloc sz h =
    (let (db, h1) = ortp_malloc (sizeof_dblk + sz) h
     in (db, h1\<lparr>dblks := (dblks h1)(db \<mapsto> \<lparr>db_base = db + sizeof_dblk, db_buf = replicate sz 0,
                                        db_freefn = None, db_ref = 1\<rparr>)\<rparr>))"

definition datab_ref :: "addr \<Rightarrow> heap \<Rightarrow> heap option" where
  "datab_ref d h = (case dblks h d of None \<Rightarrow> None
     | Some db \<Rightarrow> Some (h\<lparr>dblks := (dblks h)(d \<mapsto> db\<lparr>db_ref := db_ref db + 1\<rparr>)\<rparr>))"

definition datab_unref :: "addr \<Rightarrow> heap \<Rightarrow> heap option" where
  "datab_unref d h = (case dblks h d of None \<Rightarrow> None
     | Some db \<Rightarrow>
        if db_ref db - 1 = 0
        then Some (h\<lparr>dblks := (dblks h)(d := None),
                     freefn_calls := (case db_freefn db of None \<Rightarrow> freefn_calls h
                                      | Some f \<Rightarrow> freefn_calls h @ [(f, db_base db)])\<rparr>)
        else Some (h\<lparr>dblks := (dblks h)(d \<mapsto> db\<lparr>db_ref := db_ref db - 1\<rparr>)\<rparr>))"

definition allocb :: "nat \<Rightarrow> heap \<Rightarrow> addr \<times> heap" where
  "allocb sz h =
    (let (mp, h1) = ortp_malloc sizeof_mblk h;
         (d, h2) = datab_alloc sz h1;
         base = d + sizeof_dblk
     in (mp, h2\<lparr>mblks := (mblks h2)(mp \<mapsto> mblk_init\<lparr>b_datap := Some d, b_rptr := base, b_wptr := base\<rparr>)\<rparr>))"

definition esballoc :: "nat \<Rightarrow> bytes \<Rightarrow> nat option \<Rightarrow> heap \<Rightarrow> addr \<times> heap" where
  "esballoc base buf freefn h =
    (let (mp, h1) = ortp_malloc sizeof_mblk h;
         (d, h2) = ortp_malloc sizeof_dblk h1
     in (mp, h2\<lparr>dblks := (dblks h2)(d \<mapsto> \<lparr>db_base = base, db_buf = buf, db_freefn = freefn, db_ref = 1\<rparr>),
                mblks := (mblks h2)(mp \<mapsto> mblk_init\<lparr>b_datap := Some d, b_rptr := base, b_wptr := base\<rparr>)\<rparr>))"

definition freeb :: "addr \<Rightarrow> heap \<Rightarrow> heap option" where
  "freeb mp h = (case mblks h mp of None \<Rightarrow> None
     | Some m \<Rightarrow> (case b_datap m of None \<Rightarrow> Some h
         | Some d \<Rightarrow> (case dblks h d of None \<Rightarrow> None
             | Some db \<Rightarrow> if db_base db = 0 then Some h
                          else map_option (free_m mp) (datab_unref d h))))"

partial_function (option) freemsg :: "addr option \<Rightarrow> heap \<Rightarrow> heap option" where
  "freemsg mp h = (case mp of None \<Rightarrow> Some h
     | Some a \<Rightarrow> (case mblks h a of None \<Rightarrow> None
         | Some m \<Rightarrow> Option.bind (freeb a h) (\<lambda>h'. freemsg (b_cont m) h')))"

definition dupb :: "addr \<Rightarrow> heap \<Rightarrow> (addr option \<times> heap) option" where
  "dupb mp h = (case mblks h mp of None \<Rightarrow> None
     | Some m \<Rightarrow> (case b_datap m of None \<Rightarrow> Some (None, h)
         | Some d \<Rightarrow> (case dblks h d of None \<Rightarrow> None
             | Some db \<Rightarrow>
                if db_base db = 0 then Some (None, h)
                else do {
                  h1 \<leftarrow> datab_ref d h;
                  let (newm, h2) = ortp_malloc sizeof_mblk h1;
                  let nm = (mblk_meta_copy m mblk_init)\<lparr>b_datap := Some d, b_rptr := b_rptr m, b_wptr := b_wptr m\<rparr>;
                  Some (Some newm, h2\<lparr>mblks := (mblks h2)(newm \<mapsto> nm)\<rparr>)
                })))"

partial_function (option) dupmsg_loop :: "addr \<Rightarrow> addr option \<Rightarrow> heap \<Rightarrow> heap option" where
  "dupmsg_loop prev m h = (case m of None \<Rightarrow> Some h
     | Some a \<Rightarrow> (case mblks h a of None \<Rightarrow> None
         | Some mb \<Rightarrow> Option.bind (dupb a h) (\<lambda>(mp, h1).
             Option.bind (upd_m prev (b_cont_update (\<lambda>_. mp)) h1) (\<lambda>h2.
               (case mp of None \<Rightarrow> (if b_cont mb = None then Some h2 else None)
                | Some p \<Rightarrow> dupmsg_loop p (b_cont mb) h2)))))"

definition dupmsg :: "addr \<Rightarrow> heap \<Rightarrow> (addr option \<times> heap) option" where
  "dupmsg m h = do {
     (newm, h1) \<leftarrow> dupb m h;
     mb \<leftarrow> mblks h1 m;
     (case newm of
        None \<Rightarrow> if b_cont mb = None then Some (None, h1) else None
      | Some p \<Rightarrow> do { h2 \<leftarrow> dupmsg_loop p (b_cont mb) h1; Some (Some p, h2) }) }"

text \<open>The bytes between \<open>b_rptr\<close> and \<open>b_wptr\<close>; \<open>None\<close> where the pointers leave the data block.\<close>

definition block_bytes :: "heap \<Rightarrow> mblk_t \<Rightarrow> bytes option" where
  "block_bytes h m = (case b_datap m of None \<Rightarrow> None
     | Some d \<Rightarrow> (case dblks h d of None \<Rightarrow> None
         | Some db \<Rightarrow> if db_base db \<le> b_rptr m \<and> b_rptr m \<le> b_wptr m \<and> b_wptr m \<le> db_lim db
             then Some (take (b_wptr m - b_rptr m) (drop (b_rptr m - db_base db) (db_buf db)))
             else None))"

partial_function (option) msgdsize_loop :: "heap \<Rightarrow> addr option \<Rightarrow> int \<Rightarrow> int option" where
  "msgdsize_loop h mp msgsize = (case mp of None \<Rightarrow> Some msgsize
     | Some a \<Rightarrow> (case mblks h a of None \<Rightarrow> None
         | Some m \<Rightarrow> msgdsize_loop h (b_cont m) (msgsize + (int (b_wptr m) - int (b_rptr m)))))"

definition msgdsize :: "addr option \<Rightarrow> heap \<Rightarrow> int option" where
  "msgdsize mp h = msgdsize_loop h mp 0"

text \<open>\<open>memcpy\<close> into a data block at an absolute address.\<close>

definition write_db :: "addr \<Rightarrow> nat \<Rightarrow> bytes \<Rightarrow> heap \<Rightarrow> heap option" where
  "write_db d p bs h = (case dblks h d of None \<Rightarrow> None
     | Some db \<Rightarrow> if db_base db \<le> p \<and> p + length bs \<le> db_lim db
        then Some (h\<lparr>dblks := (dblks h)(d \<mapsto> db\<lparr>db_buf :=
               take (p - db_base db) (db_buf db) @ bs @ drop (p - db_base db + length bs) (db_buf db)\<rparr>)\<rparr>)
        else None)"

partial_function (option) pullup_copy :: "heap \<Rightarrow> nat \<Rightarrow> addr option \<Rightarrow> bytes \<Rightarrow> bytes option" where
  "pullup_copy h len mp acc =
    (if length acc < len
     then (case mp of None \<Rightarrow> Some acc
       | Some a \<Rightarrow> (case mblks h a of None \<Rightarrow> None
         | Some m \<Rightarrow> (case block_bytes h m of None \<Rightarrow> None
           | Some bs \<Rightarrow>
              if length bs \<le> len - length acc then pullup_copy h len (b_cont m) (acc @ bs)
              else pullup_copy h len mp (acc @ take (len - length acc) bs))))
     else Some acc)"

definition msgpullup :: "addr \<Rightarrow> int \<Rightarrow> heap \<Rightarrow> heap option" where
  "msgpullup mp len h = do {
     m \<leftarrow> mblks h mp;
     if b_cont m = None \<and> len = -1 then Some h
     else do {
       n \<leftarrow> (if len = -1 then msgdsize (Some mp) h else Some len);
       let (db, h1) = datab_alloc (nat n) h;
       bs \<leftarrow> pullup_copy h1 (nat n) (Some mp) [];
       h2 \<leftarrow> write_db db (db + sizeof_dblk) bs h1;
       h3 \<leftarrow> freemsg (b_cont m) h2;
       h4 \<leftarrow> upd_m mp (b_cont_update (\<lambda>_. None)) h3;
       d \<leftarrow> b_datap m;
       h5 \<leftarrow> datab_unref d h4;
       upd_m mp (\<lambda>x. x\<lparr>b_datap := Some db, b_rptr := db + sizeof_dblk,
                      b_wptr := db + sizeof_dblk + length bs\<rparr>) h5 } }"

definition copyb :: "addr \<Rightarrow> heap \<Rightarrow> (addr \<times> heap) option" where
  "copyb mp h = do {
     m \<leftarrow> mblks h mp;
     bs \<leftarrow> block_bytes h m;
     let (newm, h1) = allocb (length bs) h;
     nm \<leftarrow> mblks h1 newm;
     d \<leftarrow> b_datap nm;
     h2 \<leftarrow> write_db d (b_wptr nm) bs h1;
     h3 \<leftarrow> upd_m newm (\<lambda>x. x\<lparr>b_wptr := b_wptr x + length bs, recv_addr := recv_addr m\<rparr>) h2;
     Some (newm, h3) }"

partial_function (option) copymsg_loop :: "addr \<Rightarrow> addr option \<Rightarrow> heap \<Rightarrow> heap option" where
  "copymsg_loop m mp h = (case mp of None \<Rightarrow> Some h
     | Some a \<Rightarrow> (case mblks h a of None \<Rightarrow> None
         | Some mb \<Rightarrow> Option.bind (copyb a h) (\<lambda>(c, h1).
             Option.bind (upd_m m (b_cont_update (\<lambda>_. Some c)) h1) (\<lambda>h2.
               copymsg_loop c (b_cont mb) h2))))"

definition copymsg :: "addr \<Rightarrow> heap \<Rightarrow> (addr \<times> heap) option" where
  "copymsg mp h = do {
     (newm, h1) \<leftarrow> copyb mp h;
     mb \<leftarrow> mblks h1 mp;
     h2 \<leftarrow> copymsg_loop newm (b_cont mb) h1;
     Some (newm, h2) }"

definition pad_count :: "nat \<Rightarrow> bool \<Rightarrow> nat" where
  "pad_count p pad = (if pad then (4 - p mod 4) mod 4 else 0)"

definition appendb :: "addr \<Rightarrow> bytes \<Rightarrow> bool \<Rightarrow> heap \<Rightarrow> (addr \<times> heap) option" where
  "appendb mp data pad h = do {
     m \<leftarrow> mblks h mp;
     d \<leftarrow> b_datap m;
     db \<leftarrow> dblks h d;
     let sz = length data;
     let padcnt = pad_count (b_wptr m + sz) pad;
     (mp1, h1) \<leftarrow> (if b_wptr m + sz + padcnt > db_lim db
        then (let plen = db_lim db - db_base db; (c, h') = allocb (max plen sz) h
              in do { h'' \<leftarrow> upd_m mp (b_cont_update (\<lambda>_. Some c)) h'; Some (c, h'') })
        else Some (mp, h));
     m1 \<leftarrow> mblks h1 mp1;
     d1 \<leftarrow> b_datap m1;
     h2 \<leftarrow> write_db d1 (b_wptr m1) (data @ replicate padcnt 0) h1;
     h3 \<leftarrow> upd_m mp1 (b_wptr_update (\<lambda>w. w + sz + padcnt)) h2;
     Some (mp1, h3) }"

partial_function (option) last_block :: "heap \<Rightarrow> addr \<Rightarrow> addr option" where
  "last_block h mp = (case mblks h mp of None \<Rightarrow> None
     | Some m \<Rightarrow> (case b_cont m of None \<Rightarrow> Some mp | Some c \<Rightarrow> last_block h c))"

definition msgappend :: "addr \<Rightarrow> bytes \<Rightarrow> bool \<Rightarrow> heap \<Rightarrow> heap option" where
  "msgappend mp data pad h = do {
     l \<leftarrow> last_block h mp;
     (mp1, h1) \<leftarrow> appendb l data pad h;
     Some h1 }"

definition concatb :: "addr \<Rightarrow> addr \<Rightarrow> heap \<Rightarrow> (addr \<times> heap) option" where
  "concatb mp newm h = do {
     l \<leftarrow> last_block h mp;
     h1 \<leftarrow> upd_m l (b_cont_update (\<lambda>_. Some newm)) h;
     e \<leftarrow> last_block h1 newm;
     Some (e, h1) }"

end
