(* ===== verification/Str_Utils_Inv.thy ===== *)
theory Str_Utils_Inv
  imports Str_Utils
begin

text \<open>
  The reference-count invariant of the message blocks and what every operation of
  \<open>str_utils.c\<close> keeps of it. The parameter \<open>E\<close> of \<open>heap_inv\<close> counts the references a
  running operation holds in its local variables; between operations it is zero (\<open>heap_ok\<close>).
\<close>

section \<open>The invariant\<close>

definition refs :: "heap \<Rightarrow> addr \<Rightarrow> addr set" where
  "refs h d = {a. \<exists>m. mblks h a = Some m \<and> b_datap m = Some d}"

definition ptrs_ok :: "heap \<Rightarrow> mblk_t \<Rightarrow> bool" where
  "ptrs_ok h m = (case b_datap m of None \<Rightarrow> True
     | Some d \<Rightarrow> (case dblks h d of None \<Rightarrow> False
         | Some db \<Rightarrow> db_base db \<le> b_rptr m \<and> b_rptr m \<le> b_wptr m \<and> b_wptr m \<le> db_lim db))"

definition heap_inv :: "(addr \<Rightarrow> nat) \<Rightarrow> heap \<Rightarrow> bool" where
  "heap_inv E h \<longleftrightarrow> finite (dom (mblks h))
     \<and> (\<forall>a m. mblks h a = Some m \<longrightarrow> a < brk h \<and> ptrs_ok h m)
     \<and> (\<forall>d db. dblks h d = Some db \<longrightarrow> d < brk h \<and> db_base db \<noteq> 0
            \<and> db_ref db = int (card (refs h d) + E d) \<and> 0 < card (refs h d) + E d)
     \<and> (\<forall>d. 0 < E d \<longrightarrow> d \<in> dom (dblks h))"

definition heap_ok :: "heap \<Rightarrow> bool" where
  "heap_ok h \<longleftrightarrow> heap_inv (\<lambda>_. 0) h"

lemma heap_invI:
  assumes "finite (dom (mblks h))"
    and "\<And>a m. mblks h a = Some m \<Longrightarrow> a < brk h \<and> ptrs_ok h m"
    and "\<And>d db. dblks h d = Some db \<Longrightarrow> d < brk h \<and> db_base db \<noteq> 0
            \<and> db_ref db = int (card (refs h d) + E d) \<and> 0 < card (refs h d) + E d"
    and "\<And>d. 0 < E d \<Longrightarrow> d \<in> dom (dblks h)"
  shows "heap_inv E h"
  using assms unfolding heap_inv_def by blast

lemma heap_invD:
  assumes "heap_inv E h"
  shows heap_inv_finite: "finite (dom (mblks h))"
    and heap_inv_m: "mblks h a = Some m \<Longrightarrow> a < brk h \<and> ptrs_ok h m"
    and heap_inv_d: "dblks h d = Some db \<Longrightarrow> d < brk h \<and> db_base db \<noteq> 0
            \<and> db_ref db = int (card (refs h d) + E d) \<and> 0 < card (refs h d) + E d"
    and heap_inv_E: "0 < E d \<Longrightarrow> d \<in> dom (dblks h)"
  using assms by (simp_all add: heap_inv_def)

lemma finite_refs: "finite (dom (mblks h)) \<Longrightarrow> finite (refs h d)"
  by (rule finite_subset [of _ "dom (mblks h)"]) (auto simp: refs_def)

lemma ptrs_ok_datap:
  "ptrs_ok h m \<Longrightarrow> b_datap m = Some d \<Longrightarrow>
     \<exists>db. dblks h d = Some db \<and> db_base db \<le> b_rptr m \<and> b_rptr m \<le> b_wptr m \<and> b_wptr m \<le> db_lim db"
  by (auto simp: ptrs_ok_def split: option.splits)

lemma heap_inv_datap:
  "heap_inv E h \<Longrightarrow> mblks h a = Some m \<Longrightarrow> b_datap m = Some d \<Longrightarrow> \<exists>db. dblks h d = Some db \<and> db_base db \<noteq> 0"
  by (meson heap_inv_m heap_inv_d ptrs_ok_datap)

lemma empty_heap_ok: "heap_ok empty_heap"
  by (auto simp: heap_ok_def empty_heap_def heap_inv_def)

section \<open>What changes between two stores\<close>

definition data_ext :: "heap \<Rightarrow> heap \<Rightarrow> bool" where
  "data_ext h h' \<longleftrightarrow> brk h \<le> brk h' \<and> (\<forall>d < brk h. \<forall>db'. dblks h' d = Some db' \<longrightarrow>
     (\<exists>db. dblks h d = Some db \<and> db_base db' = db_base db \<and> db_buf db' = db_buf db))"

definition mframe :: "addr set \<Rightarrow> heap \<Rightarrow> heap \<Rightarrow> bool" where
  "mframe A h h' \<longleftrightarrow> (\<forall>a < brk h. a \<notin> A \<longrightarrow> mblks h' a = mblks h a)"

lemma data_ext_refl [simp]: "data_ext h h"
  by (auto simp: data_ext_def)

lemma data_ext_trans: "data_ext h h1 \<Longrightarrow> data_ext h1 h2 \<Longrightarrow> data_ext h h2"
proof -
  assume 1: "data_ext h h1" and 2: "data_ext h1 h2"
  have "\<exists>db. dblks h d = Some db \<and> db_base db' = db_base db \<and> db_buf db' = db_buf db"
    if "d < brk h" "dblks h2 d = Some db'" for d db'
  proof -
    from that 1 have "d < brk h1" by (simp add: data_ext_def)
    with 2 that(2) obtain db1 where "dblks h1 d = Some db1" "db_base db' = db_base db1" "db_buf db' = db_buf db1"
      by (auto simp: data_ext_def)
    with 1 that(1) show ?thesis by (auto simp: data_ext_def)
  qed
  with 1 2 show ?thesis by (auto simp: data_ext_def)
qed

lemma mframe_refl [simp]: "mframe A h h"
  by (simp add: mframe_def)

lemma mframe_trans:
  "mframe A h h1 \<Longrightarrow> mframe B h1 h2 \<Longrightarrow> brk h \<le> brk h1 \<Longrightarrow> A \<subseteq> C \<Longrightarrow> B \<subseteq> C \<Longrightarrow> mframe C h h2"
  unfolding mframe_def by (metis less_le_trans subsetD)

lemma data_ext_brk: "data_ext h h' \<Longrightarrow> brk h \<le> brk h'"
  by (simp add: data_ext_def)

lemma block_bytes_frame:
  assumes "data_ext h h'" "heap_inv E h" "heap_inv E' h'" "mblks h a = Some m" "mblks h' a = Some m'"
    "b_datap m' = b_datap m" "b_rptr m' = b_rptr m" "b_wptr m' = b_wptr m"
  shows "block_bytes h' m' = block_bytes h m"
proof (cases "b_datap m")
  case None
  with assms show ?thesis by (simp add: block_bytes_def)
next
  case (Some d)
  obtain db' where db': "dblks h' d = Some db'"
    using heap_inv_datap [OF assms(3,5)] Some assms(6) by auto
  have "d < brk h"
    using heap_inv_datap [OF assms(2,4) Some] heap_inv_d [OF assms(2)] by auto
  with assms(1) db' obtain db where "dblks h d = Some db" "db_base db' = db_base db" "db_buf db' = db_buf db"
    unfolding data_ext_def by blast
  with db' Some assms(6-8) show ?thesis by (simp add: block_bytes_def db_lim_def)
qed

lemma block_bytes_Some:
  assumes "heap_inv E h" "mblks h a = Some m" "b_datap m = Some d"
  shows "\<exists>bs. block_bytes h m = Some bs \<and> length bs = b_wptr m - b_rptr m"
proof -
  have "ptrs_ok h m" using heap_inv_m [OF assms(1,2)] by simp
  from ptrs_ok_datap [OF this assms(3)] show ?thesis
    by (auto simp: block_bytes_def assms(3) db_lim_def)
qed

section \<open>Primitive steps\<close>

lemma refs_mblks_cong: "mblks h' = mblks h \<Longrightarrow> refs h' = refs h"
  by (auto simp: refs_def fun_eq_iff)

lemma ptrs_ok_dblks_cong: "dblks h' = dblks h \<Longrightarrow> ptrs_ok h' = ptrs_ok h"
  by (simp add: ptrs_ok_def fun_eq_iff cong: option.case_cong)

lemma malloc_inv:
  assumes "heap_inv E h" "ortp_malloc n h = (a, h1)"
  shows "heap_inv E h1 \<and> a \<notin> dom (mblks h1) \<and> a \<notin> dom (dblks h1) \<and> a < brk h1 \<and> a = brk h
     \<and> mblks h1 = mblks h \<and> dblks h1 = dblks h \<and> data_ext h h1 \<and> 0 < brk h1 - a"
proof -
  have h1: "h1 = h\<lparr>brk := brk h + 16 * (n div 16 + 1)\<rparr>" and a: "a = brk h"
    using assms(2) by (auto simp: ortp_malloc_def)
  have r: "refs h1 = refs h" by (rule refs_mblks_cong) (simp add: h1)
  have p: "ptrs_ok h1 = ptrs_ok h" by (rule ptrs_ok_dblks_cong) (simp add: h1)
  have "a \<notin> dom (mblks h)" "a \<notin> dom (dblks h)"
    using heap_inv_m [OF assms(1), of a] heap_inv_d [OF assms(1), of a] by (auto simp: a)
  moreover have "heap_inv E h1"
    using assms(1) unfolding heap_inv_def r p by (auto simp: h1 intro: trans_less_add1)
  ultimately show ?thesis by (auto simp: h1 a data_ext_def)
qed

lemma new_d_inv:
  assumes inv: "heap_inv E h" and d: "d \<notin> dom (dblks h)" "d < brk h" "db_base db \<noteq> 0" "db_ref db = 1"
    and h': "h' = h\<lparr>dblks := (dblks h)(d \<mapsto> db)\<rparr>"
  shows "heap_inv (E(d := 1)) h' \<and> E d = 0"
proof -
  have E: "E d = 0" using heap_inv_E [OF inv, of d] d(1) by auto
  have r: "refs h' = refs h" by (rule refs_mblks_cong) (simp add: h')
  have none: "refs h d = {}"
    using heap_inv_datap [OF inv] d(1) by (force simp: refs_def)
  have p: "ptrs_ok h m \<Longrightarrow> ptrs_ok h' m" for m
    using d(1) by (auto simp: ptrs_ok_def h' split: option.splits)
  have "heap_inv (E(d := 1)) h'"
  proof (rule heap_invI)
    show "finite (dom (mblks h'))" using heap_inv_finite [OF inv] by (simp add: h')
  next
    fix a m assume "mblks h' a = Some m"
    then show "a < brk h' \<and> ptrs_ok h' m" using heap_inv_m [OF inv] p by (simp add: h')
  next
    fix x y assume "dblks h' x = Some y"
    then show "x < brk h' \<and> db_base y \<noteq> 0 \<and> db_ref y = int (card (refs h' x) + (E(d := 1)) x)
        \<and> 0 < card (refs h' x) + (E(d := 1)) x"
      using heap_inv_d [OF inv, of x y] none d unfolding r by (cases "x = d") (auto simp: h')
  next
    fix x assume "0 < (E(d := 1)) x"
    then show "x \<in> dom (dblks h')" using heap_inv_E [OF inv, of x] by (cases "x = d") (auto simp: h')
  qed
  with E show ?thesis by simp
qed

lemma datab_alloc_inv:
  assumes inv: "heap_inv E h" and al: "datab_alloc n h = (d, h')"
  shows "heap_inv (E(d := 1)) h' \<and> E d = 0 \<and> data_ext h h' \<and> mblks h' = mblks h \<and> d = brk h \<and> d < brk h'
     \<and> dblks h' = (dblks h)(d \<mapsto> \<lparr>db_base = d + sizeof_dblk, db_buf = replicate n 0,
                               db_freefn = None, db_ref = 1\<rparr>)"
proof -
  obtain h1 where m: "ortp_malloc (sizeof_dblk + n) h = (d, h1)"
    and h': "h' = h1\<lparr>dblks := (dblks h1)(d \<mapsto> \<lparr>db_base = d + sizeof_dblk, db_buf = replicate n 0,
                               db_freefn = None, db_ref = 1\<rparr>)\<rparr>"
    using al by (auto simp: datab_alloc_def split: prod.splits)
  note mi = malloc_inv [OF inv m]
  have "heap_inv (E(d := 1)) h' \<and> E d = 0"
    by (rule new_d_inv [OF _ _ _ _ _ h']) (use mi in \<open>auto simp: sizeof_dblk_def\<close>)
  with mi show ?thesis by (auto simp: h' data_ext_def)
qed

lemma datab_ref_inv:
  assumes inv: "heap_inv E h" and d: "d \<in> dom (dblks h)"
  shows "\<exists>h'. datab_ref d h = Some h' \<and> heap_inv (E(d := E d + 1)) h' \<and> data_ext h h'
     \<and> mblks h' = mblks h \<and> brk h' = brk h"
proof -
  obtain db where db: "dblks h d = Some db" using d by auto
  let ?h = "h\<lparr>dblks := (dblks h)(d \<mapsto> db\<lparr>db_ref := db_ref db + 1\<rparr>)\<rparr>"
  have r: "refs ?h = refs h" by (rule refs_mblks_cong) simp
  have p: "ptrs_ok ?h m = ptrs_ok h m" for m
    using db by (auto simp: ptrs_ok_def db_lim_def split: option.splits)
  have "heap_inv (E(d := E d + 1)) ?h"
    using inv db unfolding heap_inv_def r p by auto
  then show ?thesis using db by (auto simp: datab_ref_def data_ext_def)
qed

lemma datab_unref_inv:
  assumes inv: "heap_inv E h" and E: "0 < E d"
  shows "\<exists>h'. datab_unref d h = Some h' \<and> heap_inv (E(d := E d - 1)) h' \<and> data_ext h h'
     \<and> mblks h' = mblks h \<and> brk h' = brk h"
proof -
  obtain db where db: "dblks h d = Some db" using heap_inv_E [OF inv E] by auto
  have rf: "db_ref db = int (card (refs h d) + E d)" using heap_inv_d [OF inv db] by simp
  show ?thesis
  proof (cases "db_ref db - 1 = 0")
    case True
    then have e: "card (refs h d) = 0" "E d = 1" using rf E by auto
    then have none: "refs h d = {}" using finite_refs [OF heap_inv_finite [OF inv]] by simp
    let ?h = "h\<lparr>dblks := (dblks h)(d := None), freefn_calls := (case db_freefn db of None \<Rightarrow> freefn_calls h
                                      | Some f \<Rightarrow> freefn_calls h @ [(f, db_base db)])\<rparr>"
    have r: "refs ?h = refs h" by (rule refs_mblks_cong) simp
    have p: "ptrs_ok ?h m" if "mblks h a = Some m" for a m
      using heap_inv_m [OF inv that] none that by (auto simp: ptrs_ok_def refs_def split: option.splits)
    have "heap_inv (E(d := E d - 1)) ?h"
      using inv e p unfolding heap_inv_def r by (auto split: if_splits)
    then show ?thesis using db True by (auto simp: datab_unref_def data_ext_def)
  next
    case False
    let ?h = "h\<lparr>dblks := (dblks h)(d \<mapsto> db\<lparr>db_ref := db_ref db - 1\<rparr>)\<rparr>"
    have r: "refs ?h = refs h" by (rule refs_mblks_cong) simp
    have p: "ptrs_ok ?h m = ptrs_ok h m" for m
      using db by (auto simp: ptrs_ok_def db_lim_def split: option.splits)
    have "heap_inv (E(d := E d - 1)) ?h"
      using inv db rf E False unfolding heap_inv_def r p by auto
    then show ?thesis using db False by (auto simp: datab_unref_def data_ext_def)
  qed
qed

lemma new_m_inv:
  assumes inv: "heap_inv E h" and E: "0 < E d" and a: "a \<notin> dom (mblks h)" "a < brk h"
    and m: "b_datap m = Some d" "ptrs_ok h m"
  shows "heap_inv (E(d := E d - 1)) (h\<lparr>mblks := (mblks h)(a \<mapsto> m)\<rparr>)"
proof -
  let ?h = "h\<lparr>mblks := (mblks h)(a \<mapsto> m)\<rparr>"
  have p: "ptrs_ok ?h = ptrs_ok h" by (rule ptrs_ok_dblks_cong) simp
  have rd: "refs ?h d = insert a (refs h d)" using m by (auto simp: refs_def)
  have ro: "refs ?h x = refs h x" if "x \<noteq> d" for x using m(1) that a(1) by (auto simp: refs_def split: if_splits)
  have card: "card (refs ?h d) = Suc (card (refs h d))"
    unfolding rd using a(1) finite_refs [OF heap_inv_finite [OF inv]] by (subst card_insert_disjoint) (auto simp: refs_def)
  show ?thesis
  proof (rule heap_invI)
    show "finite (dom (mblks ?h))" using heap_inv_finite [OF inv] by simp
  next
    fix b x assume "mblks ?h b = Some x"
    then show "b < brk ?h \<and> ptrs_ok ?h x" unfolding p using heap_inv_m [OF inv] a m by (auto split: if_splits)
  next
    fix x y assume "dblks ?h x = Some y"
    then have y: "dblks h x = Some y" by simp
    show "x < brk ?h \<and> db_base y \<noteq> 0 \<and> db_ref y = int (card (refs ?h x) + (E(d := E d - 1)) x)
        \<and> 0 < card (refs ?h x) + (E(d := E d - 1)) x"
    proof (cases "x = d")
      case True
      then show ?thesis using heap_inv_d [OF inv y] card E by simp
    next
      case False
      then show ?thesis using heap_inv_d [OF inv y] ro by simp
    qed
  next
    fix x assume "0 < (E(d := E d - 1)) x"
    then show "x \<in> dom (dblks ?h)" using heap_inv_E [OF inv, of x] by (auto split: if_splits)
  qed
qed

lemma free_m_inv:
  assumes inv: "heap_inv E h" and m: "mblks h a = Some m" "b_datap m = Some d"
  shows "heap_inv (E(d := E d + 1)) (free_m a h)"
proof -
  let ?h = "free_m a h"
  have p: "ptrs_ok ?h = ptrs_ok h" by (rule ptrs_ok_dblks_cong) (simp add: free_m_def)
  have rd: "refs h d = insert a (refs ?h d)" "a \<notin> refs ?h d" using m by (auto simp: refs_def free_m_def)
  have ro: "refs ?h x = refs h x" if "x \<noteq> d" for x using m that by (auto simp: refs_def free_m_def)
  have card: "card (refs h d) = Suc (card (refs ?h d))"
    using rd finite_refs [OF heap_inv_finite [OF inv]] by (metis card_insert_disjoint finite_insert)
  show ?thesis
  proof (rule heap_invI)
    show "finite (dom (mblks ?h))" using heap_inv_finite [OF inv] by (simp add: free_m_def)
  next
    fix b x assume "mblks ?h b = Some x"
    then show "b < brk ?h \<and> ptrs_ok ?h x" unfolding p using heap_inv_m [OF inv] by (auto simp: free_m_def split: if_splits)
  next
    fix x y assume "dblks ?h x = Some y"
    then have y: "dblks h x = Some y" by (simp add: free_m_def)
    show "x < brk ?h \<and> db_base y \<noteq> 0 \<and> db_ref y = int (card (refs ?h x) + (E(d := E d + 1)) x)
        \<and> 0 < card (refs ?h x) + (E(d := E d + 1)) x"
    proof (cases "x = d")
      case True
      then show ?thesis using heap_inv_d [OF inv y] card by (simp add: free_m_def)
    next
      case False
      then show ?thesis using heap_inv_d [OF inv y] ro by (simp add: free_m_def)
    qed
  next
    fix x assume "0 < (E(d := E d + 1)) x"
    then show "x \<in> dom (dblks ?h)"
      using heap_inv_E [OF inv, of x] heap_inv_datap [OF inv m] by (auto simp: free_m_def split: if_splits)
  qed
qed

text \<open>A store into a field other than the data pointers keeps the invariant.\<close>

lemma upd_m_inv:
  assumes inv: "heap_inv E h" and m: "mblks h a = Some m" "b_datap (f m) = b_datap m" "ptrs_ok h (f m)"
  shows "\<exists>h'. upd_m a f h = Some h' \<and> h' = h\<lparr>mblks := (mblks h)(a \<mapsto> f m)\<rparr> \<and> heap_inv E h'"
proof -
  let ?h = "h\<lparr>mblks := (mblks h)(a \<mapsto> f m)\<rparr>"
  have p: "ptrs_ok ?h = ptrs_ok h" by (rule ptrs_ok_dblks_cong) simp
  have r: "refs ?h = refs h" using m by (auto simp: refs_def fun_eq_iff)
  have "heap_inv E ?h"
    using inv m unfolding heap_inv_def p r by auto
  then show ?thesis using m by (auto simp: upd_m_def)
qed

lemma write_db_inv:
  assumes inv: "heap_inv E h" and db: "dblks h d = Some db" "db_base db \<le> p" "p + length bs \<le> db_lim db"
  shows "\<exists>h'. write_db d p bs h = Some h' \<and> heap_inv E h' \<and> mblks h' = mblks h \<and> brk h' = brk h
     \<and> dblks h' = (dblks h)(d \<mapsto> db\<lparr>db_buf := take (p - db_base db) (db_buf db) @ bs
                              @ drop (p - db_base db + length bs) (db_buf db)\<rparr>)"
proof -
  let ?db = "db\<lparr>db_buf := take (p - db_base db) (db_buf db) @ bs @ drop (p - db_base db + length bs) (db_buf db)\<rparr>"
  let ?h = "h\<lparr>dblks := (dblks h)(d \<mapsto> ?db)\<rparr>"
  have l: "db_lim ?db = db_lim db" "db_base ?db = db_base db" "db_ref ?db = db_ref db"
    using db by (auto simp: db_lim_def)
  have r: "refs ?h = refs h" by (rule refs_mblks_cong) simp
  have pp: "ptrs_ok ?h m = ptrs_ok h m" for m
    using db l by (auto simp: ptrs_ok_def split: option.splits)
  have "heap_inv E ?h"
    using inv db(1) l unfolding heap_inv_def r pp by auto
  then show ?thesis using db by (auto simp: write_db_def)
qed

section \<open>Allocation, release and duplication of one block\<close>

lemma allocb_inv:
  assumes inv: "heap_inv E h" and al: "allocb n h = (mp, h')"
  shows "\<exists>d. heap_inv E h' \<and> data_ext h h' \<and> mp = brk h \<and> d \<notin> dom (dblks h) \<and> brk h \<le> d \<and> mp < brk h'
     \<and> mblks h' = (mblks h)(mp \<mapsto> mblk_init\<lparr>b_datap := Some d, b_rptr := d + sizeof_dblk, b_wptr := d + sizeof_dblk\<rparr>)
     \<and> dblks h' = (dblks h)(d \<mapsto> \<lparr>db_base = d + sizeof_dblk, db_buf = replicate n 0, db_freefn = None, db_ref = 1\<rparr>)"
proof -
  obtain h1 d h2 where m: "ortp_malloc sizeof_mblk h = (mp, h1)" and d: "datab_alloc n h1 = (d, h2)"
    and h': "h' = h2\<lparr>mblks := (mblks h2)(mp \<mapsto> mblk_init\<lparr>b_datap := Some d, b_rptr := d + sizeof_dblk,
                 b_wptr := d + sizeof_dblk\<rparr>)\<rparr>"
    using al by (auto simp: allocb_def Let_def split: prod.splits)
  note mi = malloc_inv [OF inv m]
  then have i1: "heap_inv E h1" by simp
  note di = datab_alloc_inv [OF i1 d]
  have "heap_inv ((E(d := 1))(d := (E(d := 1)) d - 1)) h'"
    unfolding h' by (rule new_m_inv) (use mi di in \<open>auto simp: ptrs_ok_def mblk_init_def db_lim_def\<close>)
  moreover have "(E(d := 1))(d := (E(d := 1)) d - 1) = E" using di by auto
  moreover have "data_ext h h'"
    using mi di data_ext_trans [of h h1 h2] by (auto simp: h' data_ext_def)
  moreover have "d \<notin> dom (dblks h)" using mi di heap_inv_d [OF i1, of d] by auto
  ultimately show ?thesis using mi di by (auto simp: h')
qed

lemma free_m_unref_commute: "map_option (free_m a) (datab_unref d h) = datab_unref d (free_m a h)"
  by (simp add: datab_unref_def free_m_def split: option.splits)

lemma freeb_inv:
  assumes inv: "heap_inv E h" and m: "mblks h a = Some m" "b_datap m = Some d"
  shows "\<exists>h'. freeb a h = Some h' \<and> heap_inv E h' \<and> data_ext h h' \<and> mblks h' = (mblks h)(a := None) \<and> brk h' = brk h"
proof -
  obtain db where db: "dblks h d = Some db" "db_base db \<noteq> 0" using heap_inv_datap [OF inv m] by auto
  have i1: "heap_inv (E(d := E d + 1)) (free_m a h)" by (rule free_m_inv [OF inv m])
  from datab_unref_inv [OF i1, of d] obtain h' where
    h': "datab_unref d (free_m a h) = Some h'" "heap_inv E h'" "data_ext (free_m a h) h'"
      "mblks h' = mblks (free_m a h)" "brk h' = brk (free_m a h)" by auto
  then have "freeb a h = Some h'" using m db by (simp add: freeb_def free_m_unref_commute)
  with h' show ?thesis by (auto simp: free_m_def data_ext_def)
qed

text \<open>The data block disappears exactly when its last reference does.\<close>

lemma freeb_data:
  assumes inv: "heap_ok h" and m: "mblks h a = Some m" "b_datap m = Some d" and f: "freeb a h = Some h'"
  shows "d \<in> dom (dblks h') \<longleftrightarrow> refs h d \<noteq> {a}"
proof -
  have i: "heap_inv (\<lambda>_. 0) h" using inv by (simp add: heap_ok_def)
  from freeb_inv [OF i m] f have i': "heap_inv (\<lambda>_. 0) h'" and mb: "mblks h' = (mblks h)(a := None)" by auto
  obtain db where db: "dblks h d = Some db" "db_base db \<noteq> 0" using heap_inv_datap [OF i m] by auto
  have rf: "db_ref db = int (card (refs h d))" using heap_inv_d [OF i db(1)] by simp
  have fin: "finite (refs h d)" by (rule finite_refs [OF heap_inv_finite [OF i]])
  have mem: "a \<in> refs h d" using m by (auto simp: refs_def)
  have one: "card (refs h d) = 1 \<longleftrightarrow> refs h d = {a}" using mem by (auto simp: card_1_singleton_iff)
  from f m db have "map_option (free_m a) (datab_unref d h) = Some h'" by (simp add: freeb_def)
  then show ?thesis using db rf one by (auto simp: datab_unref_def free_m_def split: if_splits)
qed

lemma dupb_inv:
  assumes inv: "heap_inv E h" and m: "mblks h a = Some m" "b_datap m = Some d"
  shows "\<exists>p h'. dupb a h = Some (Some p, h') \<and> heap_inv E h' \<and> data_ext h h' \<and> p = brk h \<and> p < brk h'
     \<and> mblks h' = (mblks h)(p \<mapsto> mblk_init\<lparr>reserved1 := reserved1 m, reserved2 := reserved2 m,
          b_datap := Some d, b_rptr := b_rptr m, b_wptr := b_wptr m\<rparr>)"
proof -
  obtain db where db: "dblks h d = Some db" "db_base db \<noteq> 0" using heap_inv_datap [OF inv m] by auto
  from datab_ref_inv [OF inv, of d] db obtain h1 where
    h1: "datab_ref d h = Some h1" "heap_inv (E(d := E d + 1)) h1" "data_ext h h1" "mblks h1 = mblks h" "brk h1 = brk h"
    by auto
  obtain p h2 where p: "ortp_malloc sizeof_mblk h1 = (p, h2)" by (cases "ortp_malloc sizeof_mblk h1")
  note mi = malloc_inv [OF h1(2) p]
  let ?m = "mblk_init\<lparr>reserved1 := reserved1 m, reserved2 := reserved2 m,
          b_datap := Some d, b_rptr := b_rptr m, b_wptr := b_wptr m\<rparr>"
  let ?h = "h2\<lparr>mblks := (mblks h2)(p \<mapsto> ?m)\<rparr>"
  have mm: "mblks h2 a = Some m" using mi h1(4) m(1) by simp
  have "ptrs_ok h2 m" using mi mm heap_inv_m by blast
  then have pk: "ptrs_ok h2 ?m" using m(2) by (simp add: ptrs_ok_def split: option.splits)
  have "heap_inv ((E(d := E d + 1))(d := (E(d := E d + 1)) d - 1)) ?h"
    by (rule new_m_inv) (use mi pk in auto)
  then have "heap_inv E ?h" by simp
  moreover have "data_ext h ?h" using mi h1(3) data_ext_trans [of h h1 h2] by (auto simp: data_ext_def)
  moreover have "dupb a h = Some (Some p, ?h)"
    using m db h1(1) p by (simp add: dupb_def mblk_meta_copy_def)
  ultimately show ?thesis using mi h1 by auto
qed

section \<open>Chains of blocks\<close>

text \<open>The blocks that \<open>b_cont\<close> links from a pointer to NULL.\<close>

fun chain :: "heap \<Rightarrow> addr option \<Rightarrow> addr list \<Rightarrow> bool" where
  "chain h None [] = True"
| "chain h (Some a) (x # xs) =
     (a = x \<and> (case mblks h a of None \<Rightarrow> False | Some m \<Rightarrow> b_datap m \<noteq> None \<and> chain h (b_cont m) xs))"
| "chain h _ _ = False"

definition bytes_at :: "heap \<Rightarrow> addr \<Rightarrow> bytes" where
  "bytes_at h a = (case mblks h a of None \<Rightarrow> [] | Some m \<Rightarrow> (case block_bytes h m of None \<Rightarrow> [] | Some bs \<Rightarrow> bs))"

definition msg_bytes :: "heap \<Rightarrow> addr list \<Rightarrow> bytes" where
  "msg_bytes h xs = concat (map (bytes_at h) xs)"

lemma chain_Nil [simp]: "chain h p [] \<longleftrightarrow> p = None"
  by (cases p) auto

lemma chain_Cons:
  "chain h p (x # xs) \<longleftrightarrow> p = Some x \<and> (\<exists>m. mblks h x = Some m \<and> b_datap m \<noteq> None \<and> chain h (b_cont m) xs)"
  by (cases p) (auto split: option.splits)

lemma chain_unique: "chain h p xs \<Longrightarrow> chain h p ys \<Longrightarrow> xs = ys"
proof (induction xs arbitrary: p ys)
  case Nil
  then show ?case by (cases ys) (auto simp: chain_Cons)
next
  case (Cons x xs)
  then obtain m where m: "p = Some x" "mblks h x = Some m" "chain h (b_cont m) xs" by (auto simp: chain_Cons)
  with Cons.prems(2) obtain zs where "ys = x # zs" "chain h (b_cont m) zs" by (cases ys) (auto simp: chain_Cons)
  with Cons.IH [OF m(3)] show ?case by simp
qed

lemma chain_append: "chain h p (xs @ y # ys) \<Longrightarrow> chain h (Some y) (y # ys)"
  by (induction xs arbitrary: p) (auto simp: chain_Cons)

lemma chain_distinct: "chain h p xs \<Longrightarrow> distinct xs"
proof (induction xs arbitrary: p)
  case (Cons x xs)
  then obtain m :: mblk_t where m: "p = Some x" "chain h (b_cont m) xs" by (auto simp: chain_Cons)
  have "x \<notin> set xs"
  proof
    assume "x \<in> set xs"
    then obtain us vs where xs: "xs = us @ x # vs" by (meson split_list)
    with m(2) have "chain h (Some x) (x # vs)" by (auto dest: chain_append)
    with Cons.prems m(1) have "x # xs = x # vs" by (blast dest: chain_unique)
    then have "length xs = length vs" by simp
    with xs show False by simp
  qed
  with Cons m show ?case by auto
qed simp

lemma chain_frame: "chain h p xs \<Longrightarrow> (\<And>a. a \<in> set xs \<Longrightarrow> mblks h' a = mblks h a) \<Longrightarrow> chain h' p xs"
  by (induction xs arbitrary: p) (auto simp: chain_Cons)

lemma chain_dom: "chain h p xs \<Longrightarrow> a \<in> set xs \<Longrightarrow> \<exists>m d. mblks h a = Some m \<and> b_datap m = Some d"
  by (induction xs arbitrary: p) (auto simp: chain_Cons)

declare chain.simps [simp del]

lemma bytes_at_frame:
  assumes "data_ext h h'" "heap_inv E h" "heap_inv E' h'" "mblks h' a = mblks h a"
  shows "bytes_at h' a = bytes_at h a"
  using assms block_bytes_frame [OF assms(1-3)]
  by (cases "mblks h a") (auto simp: bytes_at_def)

lemma msg_bytes_frame:
  assumes "data_ext h h'" "heap_inv E h" "heap_inv E' h'" "\<And>a. a \<in> set xs \<Longrightarrow> mblks h' a = mblks h a"
  shows "msg_bytes h' xs = msg_bytes h xs"
  using bytes_at_frame [OF assms(1-3)] assms(4) unfolding msg_bytes_def by (metis map_eq_conv)

lemma freemsg_inv:
  assumes "heap_inv E h" "chain h p xs"
  shows "\<exists>h'. freemsg p h = Some h' \<and> heap_inv E h' \<and> data_ext h h' \<and> brk h' = brk h
     \<and> mblks h' = (mblks h) |` (- set xs)"
  using assms
proof (induction xs arbitrary: p h)
  case Nil
  then show ?case by (auto simp: freemsg.simps)
next
  case (Cons x xs)
  then obtain m where p: "p = Some x" and m: "mblks h x = Some m" and c: "chain h (b_cont m) xs"
    by (auto simp: chain_Cons)
  obtain d where d: "b_datap m = Some d" using chain_dom [OF Cons.prems(2), of x] m by auto
  obtain h1 where h1: "freeb x h = Some h1" "heap_inv E h1" "data_ext h h1" "mblks h1 = (mblks h)(x := None)" "brk h1 = brk h"
    using freeb_inv [OF Cons.prems(1) m d] by auto
  have "x \<notin> set xs" using chain_distinct [OF Cons.prems(2)] by simp
  then have "chain h1 (b_cont m) xs" using c by (auto intro: chain_frame simp: h1(4))
  from Cons.IH [OF h1(2) this] obtain h' where
    h': "freemsg (b_cont m) h1 = Some h'" "heap_inv E h'" "data_ext h1 h'" "brk h' = brk h1"
      "mblks h' = (mblks h1) |` (- set xs)" by auto
  have "mblks h' = (mblks h) |` (- set (x # xs))"
    by (auto simp: h'(5) h1(4) restrict_map_def)
  moreover have "freemsg p h = Some h'" using p m h1(1) h'(1) by (subst freemsg.simps) simp
  moreover have "data_ext h h'" using h1(3) h'(3) by (rule data_ext_trans)
  ultimately show ?case using h' h1 by auto
qed

section \<open>Operations on whole messages\<close>

lemma bytes_at_length:
  assumes "heap_inv E h" "mblks h a = Some m" "b_datap m = Some d"
  shows "b_rptr m \<le> b_wptr m \<and> length (bytes_at h a) = b_wptr m - b_rptr m \<and> block_bytes h m = Some (bytes_at h a)"
proof -
  have "b_rptr m \<le> b_wptr m" using heap_inv_m [OF assms(1,2)] ptrs_ok_datap [OF _ assms(3)] by blast
  moreover obtain bs where "block_bytes h m = Some bs" "length bs = b_wptr m - b_rptr m"
    using block_bytes_Some [OF assms] by auto
  ultimately show ?thesis using assms(2) by (simp add: bytes_at_def)
qed

lemma msg_bytes_Cons [simp]: "msg_bytes h (x # xs) = bytes_at h x @ msg_bytes h xs"
  and msg_bytes_Nil [simp]: "msg_bytes h [] = []"
  and msg_bytes_append [simp]: "msg_bytes h (xs @ ys) = msg_bytes h xs @ msg_bytes h ys"
  by (simp_all add: msg_bytes_def)

lemma msgdsize_loop_ok:
  assumes "heap_inv E h" "chain h p xs"
  shows "msgdsize_loop h p n = Some (n + int (length (msg_bytes h xs)))"
  using assms(2)
proof (induction xs arbitrary: p n)
  case Nil
  then show ?case by (simp add: msgdsize_loop.simps)
next
  case (Cons x xs)
  then obtain m d where m: "p = Some x" "mblks h x = Some m" "b_datap m = Some d" "chain h (b_cont m) xs"
    by (auto simp: chain_Cons)
  have "b_rptr m \<le> b_wptr m" "length (bytes_at h x) = b_wptr m - b_rptr m"
    using bytes_at_length [OF assms(1) m(2,3)] by auto
  then show ?case
    by (subst msgdsize_loop.simps) (simp add: m(1,2) Cons.IH [OF m(4)] of_nat_diff)
qed

lemma msgdsize_ok: "heap_inv E h \<Longrightarrow> chain h p xs \<Longrightarrow> msgdsize p h = Some (int (length (msg_bytes h xs)))"
  by (simp add: msgdsize_def msgdsize_loop_ok)

lemma heap_inv_lt: "heap_inv E h \<Longrightarrow> mblks h a = Some m \<Longrightarrow> a < brk h"
  by (blast dest: heap_inv_m)


lemma block_bytes_cong:
  "b_datap m' = b_datap m \<Longrightarrow> b_rptr m' = b_rptr m \<Longrightarrow> b_wptr m' = b_wptr m \<Longrightarrow> block_bytes h m' = block_bytes h m"
  by (simp add: block_bytes_def cong: option.case_cong if_cong)

lemma ptrs_ok_cong:
  "b_datap m' = b_datap m \<Longrightarrow> b_rptr m' = b_rptr m \<Longrightarrow> b_wptr m' = b_wptr m \<Longrightarrow> ptrs_ok h m' = ptrs_ok h m"
  by (simp add: ptrs_ok_def cong: option.case_cong)

lemma link_cont:
  assumes inv: "heap_inv E h" and m: "mblks h a = Some m" "b_datap m = Some d"
  shows "\<exists>h'. upd_m a (b_cont_update (\<lambda>_. c)) h = Some h' \<and> heap_inv E h' \<and> data_ext h h' \<and> brk h' = brk h
    \<and> mblks h' = (mblks h)(a \<mapsto> m\<lparr>b_cont := c\<rparr>) \<and> bytes_at h' = bytes_at h"
proof -
  have pk: "ptrs_ok h (m\<lparr>b_cont := c\<rparr>)"
    using heap_inv_m [OF inv m(1)] ptrs_ok_cong [of "m\<lparr>b_cont := c\<rparr>" m] by simp
  from upd_m_inv [OF inv m(1), where f = "b_cont_update (\<lambda>_. c)"] pk obtain h' where
    h': "upd_m a (b_cont_update (\<lambda>_. c)) h = Some h'" "h' = h\<lparr>mblks := (mblks h)(a \<mapsto> m\<lparr>b_cont := c\<rparr>)\<rparr>"
      "heap_inv E h'" by auto
  have "data_ext h h'" by (simp add: h'(2) data_ext_def)
  moreover have "block_bytes h' = block_bytes h" by (simp add: h'(2) block_bytes_def fun_eq_iff cong: option.case_cong)
  then have "bytes_at h' = bytes_at h"
    using block_bytes_cong [of "m\<lparr>b_cont := c\<rparr>" m] m(1) by (simp add: bytes_at_def h'(2) fun_eq_iff cong: option.case_cong)
  ultimately show ?thesis using h' by auto
qed

text \<open>\<open>q\<close> is a new block, not yet linked to another one, with the bytes of block \<open>a\<close>.\<close>

definition block_copy :: "heap \<Rightarrow> addr \<Rightarrow> addr \<Rightarrow> heap \<Rightarrow> bool" where
  "block_copy h a q h' \<longleftrightarrow> data_ext h h' \<and> mframe {} h h' \<and> brk h \<le> q \<and> q < brk h' \<and> bytes_at h' q = bytes_at h a
     \<and> (\<exists>m d. mblks h' q = Some m \<and> b_datap m = Some d \<and> b_cont m = None)"

text \<open>
  What \<open>dupmsg\<close> and \<open>copymsg\<close> share: each walks a message, copies its blocks one by one
  with \<open>cp\<close> and links each copy behind the last one. The laws are the code's loop and the
  contract of \<open>cp\<close>.
\<close>

locale msg_copier =
  fixes cp :: "addr \<Rightarrow> heap \<Rightarrow> (addr \<times> heap) option"
    and loop :: "addr \<Rightarrow> addr option \<Rightarrow> heap \<Rightarrow> heap option"
  assumes cp_ok: "heap_inv E h \<Longrightarrow> mblks h a = Some m \<Longrightarrow> b_datap m = Some d \<Longrightarrow>
       \<exists>q h'. cp a h = Some (q, h') \<and> heap_inv E h' \<and> block_copy h a q h'"
    and loop_None: "loop prev None h = Some h"
    and loop_Some: "mblks h a = Some m \<Longrightarrow> cp a h = Some (q, h1) \<Longrightarrow>
       upd_m prev (b_cont_update (\<lambda>_. Some q)) h1 = Some h2 \<Longrightarrow> loop prev (Some a) h = loop q (b_cont m) h2"
begin

lemma loop_ok:
  assumes "heap_inv E h" "chain h p xs" "mblks h prev = Some pm" "b_datap pm = Some pd" "b_cont pm = None" "prev \<notin> set xs"
  shows "\<exists>h' ys. loop prev p h = Some h' \<and> heap_inv E h' \<and> data_ext h h'
    \<and> chain h' (Some prev) (prev # ys) \<and> msg_bytes h' ys = msg_bytes h xs \<and> length ys = length xs
    \<and> mframe {prev} h h' \<and> (\<forall>y \<in> set ys. brk h \<le> y) \<and> bytes_at h' prev = bytes_at h prev"
  using assms
proof (induction xs arbitrary: p h prev pm pd)
  case Nil
  then show ?case by (auto simp: loop_None chain_Cons)
next
  case (Cons x xs)
  then obtain m d where m: "p = Some x" "mblks h x = Some m" "b_datap m = Some d" "chain h (b_cont m) xs"
    by (auto simp: chain_Cons)
  have prev: "prev < brk h" using heap_inv_lt [OF Cons.prems(1,3)] .
  have lt: "z < brk h \<and> z \<noteq> prev" if "z \<in> set xs" for z
    using chain_dom [OF m(4) that] heap_inv_lt [OF Cons.prems(1)] Cons.prems(6) that by auto
  obtain q h1 qm qd where q: "cp x h = Some (q, h1)" "heap_inv E h1" "data_ext h h1" "mframe {} h h1" "brk h \<le> q"
      "q < brk h1" "bytes_at h1 q = bytes_at h x" "mblks h1 q = Some qm" "b_datap qm = Some qd" "b_cont qm = None"
    using cp_ok [OF Cons.prems(1) m(2,3)] unfolding block_copy_def by blast
  have pm1: "mblks h1 prev = Some pm" using Cons.prems(3) q(4) prev by (simp add: mframe_def)
  obtain h2 where h2: "upd_m prev (b_cont_update (\<lambda>_. Some q)) h1 = Some h2" "heap_inv E h2" "data_ext h1 h2" "brk h2 = brk h1"
     "mblks h2 = (mblks h1)(prev \<mapsto> pm\<lparr>b_cont := Some q\<rparr>)" "bytes_at h2 = bytes_at h1"
    using link_cont [OF q(2) pm1 Cons.prems(4)] by blast
  have qm2: "mblks h2 q = Some qm" using q(5,8) prev by (simp add: h2(5))
  have old: "mblks h2 a = mblks h a" if "a < brk h" "a \<noteq> prev" for a using that q(4) by (simp add: h2(5) mframe_def)
  have c2: "chain h2 (b_cont m) xs" by (rule chain_frame [OF m(4)]) (use old lt in auto)
  have qx: "q \<notin> set xs" using lt q(5) by fastforce
  obtain h' ys where IH: "loop q (b_cont m) h2 = Some h'" "heap_inv E h'" "data_ext h2 h'"
    "chain h' (Some q) (q # ys)" "msg_bytes h' ys = msg_bytes h2 xs" "length ys = length xs"
    "mframe {q} h2 h'" "\<forall>y \<in> set ys. brk h2 \<le> y" "bytes_at h' q = bytes_at h2 q"
    using Cons.IH [OF h2(2) c2 qm2 q(9,10) qx] by blast
  have dx: "data_ext h h2" using q(3) h2(3) by (rule data_ext_trans)
  have keep: "mblks h' a = mblks h2 a" if "a < brk h" for a
    using IH(7) that q(5) data_ext_brk [OF dx] by (simp add: mframe_def)
  have bxs: "msg_bytes h2 xs = msg_bytes h xs"
    by (rule msg_bytes_frame [OF dx Cons.prems(1) h2(2)]) (use old lt in auto)
  have "bytes_at h' prev = bytes_at h2 prev" using keep [OF prev] by (rule bytes_at_frame [OF IH(3) h2(2) IH(2)])
  also have "\<dots> = bytes_at h prev" unfolding h2(6)
    using pm1 Cons.prems(3) by (intro bytes_at_frame [OF q(3) Cons.prems(1) q(2)]) simp
  finally have bprev: "bytes_at h' prev = bytes_at h prev" .
  have "loop prev p h = Some h'" using loop_Some [OF m(2) q(1) h2(1)] IH(1) m(1) by simp
  moreover have "chain h' (Some prev) (prev # q # ys)"
    using keep [OF prev] IH(4) Cons.prems(4) by (subst chain_Cons) (simp add: h2(5))
  moreover have "mframe {prev} h h'" using keep old by (auto simp: mframe_def)
  moreover have "\<forall>y \<in> set (q # ys). brk h \<le> y" using IH(8) q(5) data_ext_brk [OF dx] by auto
  ultimately show ?case
    using IH q(7) bxs bprev data_ext_trans [OF dx IH(3)] h2(6) by (intro exI [of _ h'] exI [of _ "q # ys"]) auto
qed

lemma copy_ok:
  assumes inv: "heap_inv E h" and c: "chain h (Some a) xs"
  shows "\<exists>m q h1 h' ys. cp a h = Some (q, h1) \<and> mblks h1 a = Some m \<and> loop q (b_cont m) h1 = Some h' \<and> heap_inv E h'
     \<and> data_ext h h' \<and> chain h' (Some q) ys \<and> msg_bytes h' ys = msg_bytes h xs \<and> length ys = length xs
     \<and> mframe {} h h' \<and> (\<forall>y \<in> set ys. brk h \<le> y)"
proof -
  obtain zs m d where m: "xs = a # zs" "mblks h a = Some m" "b_datap m = Some d" "chain h (b_cont m) zs"
    using c by (cases xs) (auto simp: chain_Cons)
  have a: "a < brk h" by (rule heap_inv_lt [OF inv m(2)])
  obtain q h1 qm qd where q: "cp a h = Some (q, h1)" "heap_inv E h1" "data_ext h h1" "mframe {} h h1" "brk h \<le> q"
      "q < brk h1" "bytes_at h1 q = bytes_at h a" "mblks h1 q = Some qm" "b_datap qm = Some qd" "b_cont qm = None"
    using cp_ok [OF inv m(2,3)] unfolding block_copy_def by blast
  have lt: "z < brk h" if "z \<in> set zs" for z
    using chain_dom [OF m(4) that] heap_inv_lt [OF inv] by blast
  have keep: "mblks h1 z = mblks h z" if "z < brk h" for z using q(4) that by (simp add: mframe_def)
  have c1: "chain h1 (b_cont m) zs" by (rule chain_frame [OF m(4)]) (use lt keep in auto)
  have "q \<notin> set zs" using lt q(5) by fastforce
  from loop_ok [OF q(2) c1 q(8,9,10) this] obtain h' ys where IH: "loop q (b_cont m) h1 = Some h'" "heap_inv E h'"
    "data_ext h1 h'" "chain h' (Some q) (q # ys)" "msg_bytes h' ys = msg_bytes h1 zs" "length ys = length zs"
    "mframe {q} h1 h'" "\<forall>y \<in> set ys. brk h1 \<le> y" "bytes_at h' q = bytes_at h1 q" by blast
  have "msg_bytes h1 zs = msg_bytes h zs"
    by (rule msg_bytes_frame [OF q(3) inv q(2)]) (use lt keep in auto)
  moreover have "mframe {} h h'" using IH(7) q(5,6) keep data_ext_brk [OF q(3)] by (auto simp: mframe_def)
  ultimately show ?thesis
    using IH q data_ext_trans [OF q(3) IH(3)] m keep [OF a] data_ext_brk [OF q(3)]
    by (intro exI [of _ m] exI [of _ q] exI [of _ h1] exI [of _ h'] exI [of _ "q # ys"]) auto
qed

end

text \<open>\<open>dupb\<close> shares the data block, \<open>copyb\<close> copies it.\<close>

lemma dupb_copy:
  assumes inv: "heap_inv E h" and m: "mblks h a = Some m" "b_datap m = Some d"
  shows "\<exists>q h'. dupb a h = Some (Some q, h') \<and> heap_inv E h' \<and> block_copy h a q h'"
proof -
  let ?qm = "mblk_init\<lparr>reserved1 := reserved1 m, reserved2 := reserved2 m,
          b_datap := Some d, b_rptr := b_rptr m, b_wptr := b_wptr m\<rparr>"
  obtain q h1 where q: "dupb a h = Some (Some q, h1)" "heap_inv E h1" "data_ext h h1" "q = brk h" "q < brk h1"
     "mblks h1 = (mblks h)(q \<mapsto> ?qm)"
    using dupb_inv [OF inv m] by blast
  have am: "mblks h1 a = Some m" using m(1) q(4,6) heap_inv_lt [OF inv m(1)] by simp
  have "bytes_at h1 q = bytes_at h1 a"
    using am q(6) m(2) block_bytes_cong [of ?qm m h1] by (simp add: bytes_at_def)
  also have "\<dots> = bytes_at h a" using am m(1) by (intro bytes_at_frame [OF q(3) inv q(2)]) simp
  finally show ?thesis using q by (auto simp: block_copy_def mframe_def mblk_init_def)
qed

lemma copyb_copy:
  assumes inv: "heap_inv E h" and m: "mblks h a = Some m" "b_datap m = Some d"
  shows "\<exists>q h'. copyb a h = Some (q, h') \<and> heap_inv E h' \<and> block_copy h a q h'"
proof -
  let ?bs = "bytes_at h a"
  have bb: "block_bytes h m = Some ?bs" using bytes_at_length [OF inv m] by simp
  obtain q h1 where al: "allocb (length ?bs) h = (q, h1)" by (cases "allocb (length ?bs) h")
  let ?b = "\<lambda>d. d + sizeof_dblk"
  obtain e where e: "heap_inv E h1" "data_ext h h1" "q = brk h" "e \<notin> dom (dblks h)" "brk h \<le> e" "q < brk h1"
     "mblks h1 = (mblks h)(q \<mapsto> mblk_init\<lparr>b_datap := Some e, b_rptr := ?b e, b_wptr := ?b e\<rparr>)"
     "dblks h1 = (dblks h)(e \<mapsto> \<lparr>db_base = ?b e, db_buf = replicate (length ?bs) 0, db_freefn = None, db_ref = 1\<rparr>)"
    using allocb_inv [OF inv al] by blast
  let ?db = "\<lparr>db_base = ?b e, db_buf = ?bs, db_freefn = None, db_ref = 1\<rparr>"
  have "dblks h1 e = Some \<lparr>db_base = ?b e, db_buf = replicate (length ?bs) 0, db_freefn = None, db_ref = 1\<rparr>" by (simp add: e(8))
  from write_db_inv [OF e(1) this, of "?b e" ?bs] obtain h2 where
    h2: "write_db e (?b e) ?bs h1 = Some h2" "heap_inv E h2" "mblks h2 = mblks h1" "brk h2 = brk h1"
      "dblks h2 = (dblks h1)(e \<mapsto> ?db)" by (auto simp: db_lim_def)
  let ?f = "\<lambda>x. x\<lparr>b_wptr := b_wptr x + length ?bs, recv_addr := recv_addr m\<rparr>"
  obtain nm where nm: "mblks h1 q = Some nm" "nm = mblk_init\<lparr>b_datap := Some e, b_rptr := ?b e, b_wptr := ?b e\<rparr>"
    by (simp add: e(7))
  have pk: "ptrs_ok h2 (?f nm)" by (simp add: nm(2) ptrs_ok_def h2(5) db_lim_def)
  from upd_m_inv [OF h2(2), of q nm ?f] pk nm h2(3) obtain h3 where
    h3: "upd_m q ?f h2 = Some h3" "h3 = h2\<lparr>mblks := (mblks h2)(q \<mapsto> ?f nm)\<rparr>" "heap_inv E h3" by auto
  have "copyb a h = Some (q, h3)"
    using m bb al nm h2(1) h3(1) by (simp add: copyb_def)
  moreover have "data_ext h h3" using e(2,5) by (auto simp: h3(2) h2 data_ext_def)
  moreover have "bytes_at h3 q = ?bs"
    by (simp add: bytes_at_def h3(2) nm(2) block_bytes_def h2(5) db_lim_def)
  ultimately show ?thesis using h3(3) e(3,6,7) h2(3,4)
    by (auto simp: block_copy_def mframe_def h3(2) nm(2) mblk_init_def)
qed

interpretation dup: msg_copier
  "\<lambda>a h. Option.bind (dupb a h) (\<lambda>(q, h1). map_option (\<lambda>q. (q, h1)) q)" dupmsg_loop
proof (unfold_locales, goal_cases)
  case 1 then show ?case using dupb_copy by fastforce
next
  case 2 show ?case by (simp add: dupmsg_loop.simps)
next
  case 3 then show ?case by (subst dupmsg_loop.simps) (auto split: Option.bind_splits)
qed

interpretation cpy: msg_copier copyb copymsg_loop
proof (unfold_locales, goal_cases)
  case 1 then show ?case by (rule copyb_copy)
next
  case 2 show ?case by (simp add: copymsg_loop.simps)
next
  case 3 then show ?case by (subst copymsg_loop.simps) simp
qed

lemma dupmsg_ok:
  assumes "heap_inv E h" "chain h (Some a) xs"
  shows "\<exists>q h' ys. dupmsg a h = Some (Some q, h') \<and> heap_inv E h' \<and> data_ext h h' \<and> chain h' (Some q) ys
     \<and> msg_bytes h' ys = msg_bytes h xs \<and> length ys = length xs \<and> mframe {} h h' \<and> (\<forall>y \<in> set ys. brk h \<le> y)"
proof -
  from dup.copy_ok [OF assms] obtain m q h1 h' ys where
    d: "Option.bind (dupb a h) (\<lambda>(q, h1). map_option (\<lambda>q. (q, h1)) q) = Some (q, h1)" "mblks h1 a = Some m"
      "dupmsg_loop q (b_cont m) h1 = Some h'" and r: "heap_inv E h'" "data_ext h h'" "chain h' (Some q) ys"
      "msg_bytes h' ys = msg_bytes h xs" "length ys = length xs" "mframe {} h h'" "\<forall>y \<in> set ys. brk h \<le> y" by blast
  from d(1) have "dupb a h = Some (Some q, h1)" by (auto split: Option.bind_splits)
  with d(2,3) have "dupmsg a h = Some (Some q, h')" by (simp add: dupmsg_def)
  with r show ?thesis by blast
qed

lemma copymsg_ok:
  assumes "heap_inv E h" "chain h (Some a) xs"
  shows "\<exists>q h' ys. copymsg a h = Some (q, h') \<and> heap_inv E h' \<and> data_ext h h' \<and> chain h' (Some q) ys
     \<and> msg_bytes h' ys = msg_bytes h xs \<and> length ys = length xs \<and> mframe {} h h' \<and> (\<forall>y \<in> set ys. brk h \<le> y)"
proof -
  from cpy.copy_ok [OF assms] obtain m q h1 h' ys where
    d: "copyb a h = Some (q, h1)" "mblks h1 a = Some m"
      "copymsg_loop q (b_cont m) h1 = Some h'" and r: "heap_inv E h'" "data_ext h h'" "chain h' (Some q) ys"
      "msg_bytes h' ys = msg_bytes h xs" "length ys = length xs" "mframe {} h h'" "\<forall>y \<in> set ys. brk h \<le> y" by blast
  from d have "copymsg a h = Some (q, h')" by (simp add: copymsg_def)
  with r show ?thesis by blast
qed

lemma pullup_copy_ok:
  assumes "heap_inv E h" "chain h p xs" "length acc + length (msg_bytes h xs) \<le> n"
  shows "pullup_copy h n p acc = Some (acc @ msg_bytes h xs)"
  using assms(2,3)
proof (induction xs arbitrary: p acc)
  case Nil
  then show ?case by (simp add: pullup_copy.simps)
next
  case (Cons x xs)
  then obtain m d where m: "p = Some x" "mblks h x = Some m" "b_datap m = Some d" "chain h (b_cont m) xs"
    by (auto simp: chain_Cons)
  have bb: "block_bytes h m = Some (bytes_at h x)" using bytes_at_length [OF assms(1) m(2,3)] by simp
  show ?case
  proof (cases "length acc < n")
    case True
    then show ?thesis
      using Cons.prems m bb Cons.IH [OF m(4), of "acc @ bytes_at h x"]
      by (subst pullup_copy.simps) (auto simp: add.assoc)
  next
    case False
    with Cons.prems(2) have "length (bytes_at h x) + length (msg_bytes h xs) = 0"
      unfolding msg_bytes_Cons length_append by linarith
    with False show ?thesis by (subst pullup_copy.simps) simp
  qed
qed

lemma retarget_inv:
  assumes inv: "heap_inv E h" and m: "mblks h a = Some m" "b_datap m = Some d" and E: "0 < E e" "e \<noteq> d"
    and m': "b_datap m' = Some e" "ptrs_ok h m'"
  shows "heap_inv (E(e := E e - 1, d := E d + 1)) (h\<lparr>mblks := (mblks h)(a \<mapsto> m')\<rparr>)"
proof -
  have a: "a < brk h" by (rule heap_inv_lt [OF inv m(1)])
  have 1: "heap_inv (E(d := E d + 1)) (free_m a h)" by (rule free_m_inv [OF inv m])
  have p: "ptrs_ok (free_m a h) m'" using m'(2) ptrs_ok_dblks_cong [of "free_m a h" h] by (simp add: free_m_def)
  have "heap_inv ((E(d := E d + 1))(e := (E(d := E d + 1)) e - 1)) ((free_m a h)\<lparr>mblks := (mblks (free_m a h))(a \<mapsto> m')\<rparr>)"
    by (rule new_m_inv [OF 1]) (use E a m' p in \<open>auto simp: free_m_def\<close>)
  moreover have "(free_m a h)\<lparr>mblks := (mblks (free_m a h))(a \<mapsto> m')\<rparr> = h\<lparr>mblks := (mblks h)(a \<mapsto> m')\<rparr>"
    by (simp add: free_m_def)
  ultimately show ?thesis using E by (simp add: fun_upd_twist)
qed

text \<open>
  \<open>msgpullup (mp, -1)\<close> leaves one block that holds the bytes of the whole message and
  releases the other blocks.
\<close>

lemma msgpullup_ok:
  assumes inv: "heap_inv E h" and c: "chain h (Some a) xs"
  shows "\<exists>h'. msgpullup a (-1) h = Some h' \<and> heap_inv E h' \<and> chain h' (Some a) [a] \<and> bytes_at h' a = msg_bytes h xs
     \<and> (\<forall>b < brk h. b \<notin> set xs \<longrightarrow> mblks h' b = mblks h b \<and> bytes_at h' b = bytes_at h b)"
proof -
  obtain zs m d where m: "xs = a # zs" "mblks h a = Some m" "b_datap m = Some d" "chain h (b_cont m) zs"
    using c by (cases xs) (auto simp: chain_Cons)
  show ?thesis
  proof (cases "b_cont m = None")
    case True
    then have "zs = []" using m(4) by (cases zs) (auto simp: chain_Cons)
    with True m inv show ?thesis by (auto simp: msgpullup_def chain_Cons)
  next
    case False
    let ?bs = "msg_bytes h xs" let ?n = "length ?bs"
    obtain e h1 where al: "datab_alloc ?n h = (e, h1)" by (cases "datab_alloc ?n h")
    note di = datab_alloc_inv [OF inv al]
    let ?db = "\<lparr>db_base = e + sizeof_dblk, db_buf = replicate ?n 0, db_freefn = None, db_ref = 1\<rparr>"
    let ?db' = "\<lparr>db_base = e + sizeof_dblk, db_buf = ?bs, db_freefn = None, db_ref = 1\<rparr>"
    have i1: "heap_inv (E(e := 1)) h1" and mb1: "mblks h1 = mblks h" using di by auto
    have c1: "chain h1 (Some a) xs" by (rule chain_frame [OF c]) (simp add: mb1)
    have b1: "msg_bytes h1 xs = ?bs" using di by (intro msg_bytes_frame [OF _ inv i1]) auto
    have cp: "pullup_copy h1 ?n (Some a) [] = Some ?bs" using pullup_copy_ok [OF i1 c1, of "[]" ?n] b1 by simp
    have dbe: "dblks h1 e = Some ?db" using di by simp
    obtain h2 where h2: "write_db e (e + sizeof_dblk) ?bs h1 = Some h2" "heap_inv (E(e := 1)) h2" "mblks h2 = mblks h1"
       "brk h2 = brk h1" "dblks h2 = (dblks h1)(e \<mapsto> ?db')"
      using write_db_inv [OF i1 dbe, of "e + sizeof_dblk" ?bs] by (auto simp: db_lim_def)
    have ed: "e \<noteq> d" using di heap_inv_datap [OF inv m(2,3)] heap_inv_d [OF inv] by auto
    have lt: "z < brk h" if "z \<in> set xs" for z using chain_dom [OF c that] heap_inv_lt [OF inv] by blast
    have c2: "chain h2 (b_cont m) zs" by (rule chain_frame [OF m(4)]) (simp add: h2(3) mb1)
    obtain h3 where h3: "freemsg (b_cont m) h2 = Some h3" "heap_inv (E(e := 1)) h3" "data_ext h2 h3" "brk h3 = brk h2"
       "mblks h3 = (mblks h2) |` (- set zs)"
      using freemsg_inv [OF h2(2) c2] by blast
    have az: "a \<notin> set zs" using chain_distinct [OF c] m(1) by simp
    then have m3: "mblks h3 a = Some m" using m(2) by (simp add: h3(5) h2(3) mb1)
    obtain h4 where h4: "upd_m a (b_cont_update (\<lambda>_. None)) h3 = Some h4" "heap_inv (E(e := 1)) h4" "data_ext h3 h4"
       "brk h4 = brk h3" "mblks h4 = (mblks h3)(a \<mapsto> m\<lparr>b_cont := None\<rparr>)"
      using link_cont [OF h3(2) m3 m(3)] by blast
    have m4: "mblks h4 a = Some (m\<lparr>b_cont := None\<rparr>)" by (simp add: h4(5))
    let ?m' = "m\<lparr>b_cont := None, b_datap := Some e, b_rptr := e + sizeof_dblk, b_wptr := e + sizeof_dblk + ?n\<rparr>"
    have x24: "data_ext h2 h4" using h3(3) h4(3) by (rule data_ext_trans)
    have "e \<in> dom (dblks h4)" using heap_inv_E [OF h4(2), of e] by simp
    then obtain db4 where db4: "dblks h4 e = Some db4" by auto
    then have db4': "db_base db4 = e + sizeof_dblk" "db_buf db4 = ?bs"
      using x24 di h2(4,5) by (auto simp: data_ext_def)
    let ?h5 = "h4\<lparr>mblks := (mblks h4)(a \<mapsto> ?m')\<rparr>"
    have "heap_inv ((E(e := 1))(e := (E(e := 1)) e - 1, d := (E(e := 1)) d + 1)) ?h5"
      by (rule retarget_inv [OF h4(2) m4])
         (use m(3) ed db4 db4' in \<open>auto simp: ptrs_ok_def db_lim_def\<close>)
    moreover have "(E(e := 1))(e := (E(e := 1)) e - 1, d := (E(e := 1)) d + 1) = E(d := E d + 1)"
      using di ed by auto
    ultimately have i5: "heap_inv (E(d := E d + 1)) ?h5" by metis
    obtain h6 where h6: "datab_unref d ?h5 = Some h6" "heap_inv E h6" "data_ext ?h5 h6" "mblks h6 = mblks ?h5" "brk h6 = brk ?h5"
      using datab_unref_inv [OF i5, of d] by auto
    have comm: "Option.bind (datab_unref d h4) (upd_m a (\<lambda>x. x\<lparr>b_datap := Some e, b_rptr := e + sizeof_dblk,
                      b_wptr := e + sizeof_dblk + ?n\<rparr>)) = datab_unref d ?h5"
      using m4 by (auto simp: datab_unref_def upd_m_def split: option.splits)
    obtain y where y: "b_cont m = Some y" using False by auto
    have "msgpullup a (-1) h = Some h6"
      using m(2,3) y al cp h2(1) h3(1) h4(1) h6(1) comm msgdsize_ok [OF inv c]
      by (simp add: msgpullup_def)
    moreover have m6: "mblks h6 a = Some ?m'" by (simp add: h6(4))
    moreover have "chain h6 (Some a) [a]" using m6 by (simp add: chain_Cons)
    moreover have "bytes_at h6 a = ?bs"
    proof -
      have "bytes_at ?h5 a = ?bs" using db4 db4' by (simp add: bytes_at_def block_bytes_def db_lim_def)
      moreover have "bytes_at h6 a = bytes_at ?h5 a"
        using m6 by (intro bytes_at_frame [OF h6(3) i5 h6(2)]) simp
      ultimately show ?thesis by simp
    qed
    moreover have "mblks h6 b = mblks h b \<and> bytes_at h6 b = bytes_at h b" if "b < brk h" "b \<notin> set xs" for b
    proof -
      have mb: "mblks h6 b = mblks h b" using that m(1) by (simp add: h6(4) h4(5) h3(5) h2(3) mb1)
      have "data_ext h h2" using di h2(4,5) by (auto simp: data_ext_def)
      moreover have "data_ext h4 ?h5" by (simp add: data_ext_def)
      ultimately have "data_ext h h6" using x24 h6(3) by (meson data_ext_trans)
      then show ?thesis using mb bytes_at_frame [OF _ inv h6(2)] by simp
    qed
    ultimately show ?thesis using h6(2) by blast
  qed
qed

lemma last_block_ok: "chain h (Some a) xs \<Longrightarrow> last_block h a = Some (last xs)"
proof (induction xs arbitrary: a)
  case (Cons x xs)
  then obtain m where m: "a = x" "mblks h x = Some m" "chain h (b_cont m) xs" by (auto simp: chain_Cons)
  show ?case
  proof (cases "b_cont m")
    case None
    with m show ?thesis by (subst last_block.simps) (cases xs, auto simp: chain_Cons)
  next
    case (Some c)
    with m Cons.IH [of c] show ?thesis by (subst last_block.simps) (cases xs, auto)
  qed
qed simp

lemma chain_link:
  "chain h p (xs @ [l]) \<Longrightarrow> mblks h l = Some m \<Longrightarrow> b_datap m \<noteq> None \<Longrightarrow> l \<notin> set xs \<Longrightarrow> chain h' q ys \<Longrightarrow>
   (\<And>b. b \<in> set xs \<Longrightarrow> mblks h' b = mblks h b) \<Longrightarrow> mblks h' l = Some (m\<lparr>b_cont := q\<rparr>) \<Longrightarrow> chain h' p (xs @ l # ys)"
  by (induction xs arbitrary: p) (auto simp: chain_Cons)

lemma concatb_ok:
  assumes inv: "heap_inv E h" and c: "chain h (Some a) xs" "chain h (Some b) ys" and dj: "set xs \<inter> set ys = {}"
  shows "\<exists>h'. concatb a b h = Some (last ys, h') \<and> heap_inv E h' \<and> chain h' (Some a) (xs @ ys)
     \<and> msg_bytes h' (xs @ ys) = msg_bytes h xs @ msg_bytes h ys \<and> mframe {last xs} h h'"
proof -
  obtain us l where xs: "xs = us @ [l]" using c(1) by (cases xs rule: rev_cases) auto
  obtain m d where m: "mblks h l = Some m" "b_datap m = Some d" using chain_dom [OF c(1), of l] xs by auto
  obtain h' where h': "upd_m l (b_cont_update (\<lambda>_. Some b)) h = Some h'" "heap_inv E h'" "data_ext h h'" "brk h' = brk h"
       "mblks h' = (mblks h)(l \<mapsto> m\<lparr>b_cont := Some b\<rparr>)" "bytes_at h' = bytes_at h"
      using link_cont [OF inv m] by blast
  have ul: "l \<notin> set us" using chain_distinct [OF c(1)] xs by simp
  have cy: "chain h' (Some b) ys" by (rule chain_frame [OF c(2)]) (use dj xs in \<open>auto simp: h'(5)\<close>)
  have c1: "chain h (Some a) (us @ [l])" using c(1) xs by simp
  have "chain h' (Some a) (us @ l # ys)"
    by (rule chain_link [OF c1 m(1) _ ul cy]) (use m(2) ul in \<open>auto simp: h'(5)\<close>)
  moreover have "concatb a b h = Some (last ys, h')"
    using last_block_ok [OF c(1)] last_block_ok [OF cy] h'(1) by (simp add: concatb_def xs)
  ultimately show ?thesis using h'(2,5,6) by (auto simp: xs msg_bytes_def mframe_def)
qed


section \<open>Appending to a block\<close>

lemma take_drop_patch:
  assumes "r \<le> w" "w + length bs \<le> length buf"
  shows "take (w + length bs - r) (drop r (take w buf @ bs @ drop (w + length bs) buf)) = take (w - r) (drop r buf) @ bs"
proof -
  have "drop r (take w buf @ bs @ drop (w + length bs) buf) = drop r (take w buf) @ bs @ drop (w + length bs) buf"
    using assms by simp
  moreover have "length (drop r (take w buf)) = w - r" using assms by simp
  moreover have "w + length bs - r = (w - r) + length bs" using assms by simp
  ultimately show ?thesis by (simp add: drop_take)
qed

definition append_fits :: "mblk_t \<Rightarrow> dblk_t \<Rightarrow> bytes \<Rightarrow> bool \<Rightarrow> bool" where
  "append_fits m db data pad \<longleftrightarrow>
     b_wptr m + length data + pad_count (b_wptr m + length data) pad \<le> db_lim db"

lemma write_extend:
  assumes inv: "heap_inv E h" and m: "mblks h a = Some m" "b_datap m = Some d" "dblks h d = Some db"
    and fit: "b_wptr m + length bs \<le> db_lim db"
  shows "\<exists>h2 h3. write_db d (b_wptr m) bs h = Some h2 \<and> upd_m a (b_wptr_update (\<lambda>w. w + length bs)) h2 = Some h3
     \<and> heap_inv E h3 \<and> mblks h3 = (mblks h)(a \<mapsto> m\<lparr>b_wptr := b_wptr m + length bs\<rparr>) \<and> brk h3 = brk h
     \<and> bytes_at h3 a = bytes_at h a @ bs \<and> (\<forall>e. e \<noteq> d \<longrightarrow> dblks h3 e = dblks h e)"
proof -
  have pk: "db_base db \<le> b_rptr m" "b_rptr m \<le> b_wptr m" "b_wptr m \<le> db_lim db"
    using heap_inv_m [OF inv m(1)] ptrs_ok_datap [of h m d] m by auto
  let ?db = "db\<lparr>db_buf := take (b_wptr m - db_base db) (db_buf db) @ bs @ drop (b_wptr m - db_base db + length bs) (db_buf db)\<rparr>"
  obtain h2 where h2: "write_db d (b_wptr m) bs h = Some h2" "heap_inv E h2" "mblks h2 = mblks h" "brk h2 = brk h"
      "dblks h2 = (dblks h)(d \<mapsto> ?db)"
    using write_db_inv [OF inv m(3), of "b_wptr m" bs] pk fit by auto
  let ?m = "m\<lparr>b_wptr := b_wptr m + length bs\<rparr>"
  have lim: "db_lim ?db = db_lim db" using pk fit by (auto simp: db_lim_def)
  have up: "b_wptr_update (\<lambda>w. w + length bs) m = ?m" by (cases m) simp
  have "ptrs_ok h2 ?m" using m(2) h2(5) pk fit lim by (simp add: ptrs_ok_def)
  then have pk2: "ptrs_ok h2 (b_wptr_update (\<lambda>w. w + length bs) m)" by (simp only: up)
  have m2: "mblks h2 a = Some m" using m(1) h2(3) by simp
  have dp: "b_datap (b_wptr_update (\<lambda>w. w + length bs) m) = b_datap m" by simp
  obtain h3 where
    h3: "upd_m a (b_wptr_update (\<lambda>w. w + length bs)) h2 = Some h3" "heap_inv E h3" "h3 = h2\<lparr>mblks := (mblks h2)(a \<mapsto> ?m)\<rparr>"
    using upd_m_inv [OF h2(2) m2, of "b_wptr_update (\<lambda>w. w + length bs)", OF dp pk2] unfolding up by blast
  have "bytes_at h a = take (b_wptr m - b_rptr m) (drop (b_rptr m - db_base db) (db_buf db))"
    using m pk by (simp add: bytes_at_def block_bytes_def)
  moreover have "bytes_at h3 a = take (b_wptr m + length bs - b_rptr m) (drop (b_rptr m - db_base db) (db_buf ?db))"
    using m(2) h2(5) pk fit lim by (simp add: bytes_at_def h3(3) block_bytes_def)
  moreover have "take (b_wptr m + length bs - b_rptr m) (drop (b_rptr m - db_base db) (db_buf ?db))
      = take (b_wptr m - b_rptr m) (drop (b_rptr m - db_base db) (db_buf db)) @ bs"
  proof -
    obtain r w where "b_rptr m = db_base db + r" "b_wptr m = db_base db + w"
      using pk by (metis le_iff_add le_trans)
    then show ?thesis using pk fit take_drop_patch [of r w bs "db_buf db"] by (simp add: db_lim_def add.assoc)
  qed
  ultimately have b: "bytes_at h3 a = bytes_at h a @ bs" by simp
  have "mblks h3 = (mblks h)(a \<mapsto> ?m)" "brk h3 = brk h" "\<forall>e. e \<noteq> d \<longrightarrow> dblks h3 e = dblks h e"
    by (simp_all add: h3(3) h2(3-5))
  with b h2(1) h3(1,2) show ?thesis by blast
qed

lemma appendb_fits_ok:
  assumes inv: "heap_inv E h" and m: "mblks h a = Some m" "b_datap m = Some d" "dblks h d = Some db"
    and fit: "append_fits m db data pad"
  shows "\<exists>h'. appendb a data pad h = Some (a, h') \<and> heap_inv E h'
     \<and> bytes_at h' a = bytes_at h a @ data @ replicate (pad_count (b_wptr m + length data) pad) 0
     \<and> (\<forall>b m'. b \<noteq> a \<longrightarrow> mblks h b = Some m' \<longrightarrow> b_datap m' \<noteq> Some d \<longrightarrow> mblks h' b = Some m' \<and> bytes_at h' b = bytes_at h b)"
proof -
  let ?bs = "data @ replicate (pad_count (b_wptr m + length data) pad) 0"
  have "b_wptr m + length ?bs \<le> db_lim db" using fit by (simp add: append_fits_def)
  from write_extend [OF inv m this] obtain h2 h3 where
    w: "write_db d (b_wptr m) ?bs h = Some h2" "upd_m a (b_wptr_update (\<lambda>w. w + length ?bs)) h2 = Some h3" "heap_inv E h3"
      "mblks h3 = (mblks h)(a \<mapsto> m\<lparr>b_wptr := b_wptr m + length ?bs\<rparr>)" "bytes_at h3 a = bytes_at h a @ ?bs"
      "\<forall>e. e \<noteq> d \<longrightarrow> dblks h3 e = dblks h e" by blast
  have "appendb a data pad h = Some (a, h3)"
    using m fit w(1,2) by (simp add: appendb_def append_fits_def add.assoc)
  moreover have "bytes_at h3 b = bytes_at h b" if "b \<noteq> a" "mblks h b = Some m'" "b_datap m' \<noteq> Some d" for b m'
    using that w(4,6) by (cases "b_datap m'") (auto simp: bytes_at_def block_bytes_def)
  ultimately show ?thesis using w by auto
qed

text \<open>
  When the block is full a new block of \<open>MAX (plen, size)\<close> bytes is linked behind it. The padding
  was not counted in that size: the write stays inside the new block exactly when there is room
  for data and padding together.
\<close>

lemma appendb_new_block:
  assumes inv: "heap_inv E h" and m: "mblks h a = Some m" "b_datap m = Some d" "dblks h d = Some db"
    and nofit: "\<not> append_fits m db data pad"
  shows "(appendb a data pad h \<noteq> None) =
     (length data + pad_count (b_wptr m + length data) pad \<le> max (length (db_buf db)) (length data))"
proof -
  let ?k = "pad_count (b_wptr m + length data) pad"
  let ?n = "max (length (db_buf db)) (length data)"
  let ?bs = "data @ replicate ?k 0"
  obtain c h1 where al: "allocb ?n h = (c, h1)" by (cases "allocb ?n h")
  obtain e where e: "heap_inv E h1" "c = brk h"
     "mblks h1 = (mblks h)(c \<mapsto> mblk_init\<lparr>b_datap := Some e, b_rptr := e + sizeof_dblk, b_wptr := e + sizeof_dblk\<rparr>)"
     "dblks h1 = (dblks h)(e \<mapsto> \<lparr>db_base = e + sizeof_dblk, db_buf = replicate ?n 0, db_freefn = None, db_ref = 1\<rparr>)"
    using allocb_inv [OF inv al] by blast
  have a: "a \<noteq> c" using heap_inv_lt [OF inv m(1)] e(2) by simp
  have m1: "mblks h1 a = Some m" using m(1) a by (simp add: e(3))
  let ?h2 = "h1\<lparr>mblks := (mblks h1)(a \<mapsto> m\<lparr>b_cont := Some c\<rparr>)\<rparr>"
  have u: "upd_m a (b_cont_update (\<lambda>_. Some c)) h1 = Some ?h2" using m1 by (simp add: upd_m_def)
  have c2: "mblks ?h2 c = Some (mblk_init\<lparr>b_datap := Some e, b_rptr := e + sizeof_dblk, b_wptr := e + sizeof_dblk\<rparr>)"
    using a by (simp add: e(3))
  have ap: "appendb a data pad h = Option.bind (write_db e (e + sizeof_dblk) ?bs ?h2)
      (\<lambda>h2. Option.bind (upd_m c (b_wptr_update (\<lambda>w. w + length data + ?k)) h2) (\<lambda>h3. Some (c, h3)))"
    using m nofit al u c2 by (simp add: appendb_def append_fits_def db_lim_def Let_def)
  have fits: "write_db e (e + sizeof_dblk) ?bs ?h2 \<noteq> None \<longleftrightarrow> length ?bs \<le> ?n"
    by (simp add: write_db_def e(4) db_lim_def)
  show ?thesis
  proof (cases "write_db e (e + sizeof_dblk) ?bs ?h2")
    case None
    with fits show ?thesis unfolding ap by simp
  next
    case (Some h2)
    then have "mblks h2 c = mblks ?h2 c" by (auto simp: write_db_def split: option.splits if_splits)
    then have "\<exists>h3. upd_m c (b_wptr_update (\<lambda>w. w + length data + ?k)) h2 = Some h3" using c2 by (simp add: upd_m_def)
    with Some fits show ?thesis unfolding ap by auto
  qed
qed

end
