(* ===== verification/Str_Queue.thy ===== *)
theory Str_Queue
  imports Str_Utils_Inv
begin

text \<open>
  The circular doubly linked queues of \<open>str_utils.c\<close> (\<open>queue_t\<close>, with the stopper block
  \<open>_q_stopper\<close> inside the store) and the block allocator built on them. \<open>is_queue h q xs\<close> says
  that the links from the stopper and back run through the messages \<open>xs\<close>; every operation is
  shown to implement the list operation of its name and to keep the reference counts.
\<close>

section \<open>Operations\<close>

record queue_t =
  q_stopper :: addr
  q_mcount :: int

definition qinit :: "addr \<Rightarrow> heap \<Rightarrow> queue_t \<times> heap" where
  "qinit stopper h =
    (\<lparr>q_stopper = stopper, q_mcount = 0\<rparr>,
     h\<lparr>mblks := (mblks h)(stopper \<mapsto> mblk_init\<lparr>b_next := Some stopper, b_prev := Some stopper\<rparr>)\<rparr>)"

definition set_next :: "addr option \<Rightarrow> addr option \<Rightarrow> heap \<Rightarrow> heap option" where
  "set_next p v h = Option.bind p (\<lambda>a. upd_m a (b_next_update (\<lambda>_. v)) h)"

definition set_prev :: "addr option \<Rightarrow> addr option \<Rightarrow> heap \<Rightarrow> heap option" where
  "set_prev p v h = Option.bind p (\<lambda>a. upd_m a (b_prev_update (\<lambda>_. v)) h)"

definition qempty :: "queue_t \<Rightarrow> heap \<Rightarrow> bool option" where
  "qempty q h = map_option (\<lambda>s. b_next s = Some (q_stopper q)) (mblks h (q_stopper q))"

definition putq :: "addr \<Rightarrow> queue_t \<times> heap \<Rightarrow> (queue_t \<times> heap) option" where
  "putq mp = (\<lambda>(q, h). do {
     s \<leftarrow> mblks h (q_stopper q);
     h1 \<leftarrow> set_next (b_prev s) (Some mp) h;
     s1 \<leftarrow> mblks h1 (q_stopper q);
     h2 \<leftarrow> set_prev (Some mp) (b_prev s1) h1;
     h3 \<leftarrow> set_next (Some mp) (Some (q_stopper q)) h2;
     h4 \<leftarrow> set_prev (Some (q_stopper q)) (Some mp) h3;
     Some (q\<lparr>q_mcount := q_mcount q + 1\<rparr>, h4) })"

definition getq :: "queue_t \<times> heap \<Rightarrow> (addr option \<times> queue_t \<times> heap) option" where
  "getq = (\<lambda>(q, h). do {
     s \<leftarrow> mblks h (q_stopper q);
     tmp \<leftarrow> b_next s;
     if tmp = q_stopper q then Some (None, q, h)
     else do {
       t \<leftarrow> mblks h tmp;
       h1 \<leftarrow> set_next (Some (q_stopper q)) (b_next t) h;
       t1 \<leftarrow> mblks h1 tmp;
       h2 \<leftarrow> set_prev (b_next t1) (Some (q_stopper q)) h1;
       h3 \<leftarrow> set_prev (Some tmp) None h2;
       h4 \<leftarrow> set_next (Some tmp) None h3;
       Some (Some tmp, q\<lparr>q_mcount := q_mcount q - 1\<rparr>, h4) } })"

definition peekq :: "queue_t \<times> heap \<Rightarrow> (addr option) option" where
  "peekq = (\<lambda>(q, h). do {
     s \<leftarrow> mblks h (q_stopper q);
     tmp \<leftarrow> b_next s;
     Some (if tmp = q_stopper q then None else Some tmp) })"

definition insq :: "addr option \<Rightarrow> addr \<Rightarrow> queue_t \<times> heap \<Rightarrow> (queue_t \<times> heap) option" where
  "insq emp mp = (\<lambda>(q, h). (case emp of None \<Rightarrow> putq mp (q, h)
     | Some e \<Rightarrow> do {
         em \<leftarrow> mblks h e;
         h1 \<leftarrow> set_next (b_prev em) (Some mp) h;
         em1 \<leftarrow> mblks h1 e;
         h2 \<leftarrow> set_prev (Some mp) (b_prev em1) h1;
         h3 \<leftarrow> set_prev (Some e) (Some mp) h2;
         h4 \<leftarrow> set_next (Some mp) (Some e) h3;
         Some (q\<lparr>q_mcount := q_mcount q + 1\<rparr>, h4) }))"

definition remq :: "addr \<Rightarrow> queue_t \<times> heap \<Rightarrow> (queue_t \<times> heap) option" where
  "remq mp = (\<lambda>(q, h). do {
     m \<leftarrow> mblks h mp;
     h1 \<leftarrow> set_next (b_prev m) (b_next m) h;
     m1 \<leftarrow> mblks h1 mp;
     h2 \<leftarrow> set_prev (b_next m1) (b_prev m1) h1;
     h3 \<leftarrow> set_next (Some mp) None h2;
     h4 \<leftarrow> set_prev (Some mp) None h3;
     Some (q\<lparr>q_mcount := q_mcount q - 1\<rparr>, h4) })"

partial_function (option) flushq :: "queue_t \<times> heap \<Rightarrow> (queue_t \<times> heap) option" where
  "flushq qh = Option.bind (getq qh) (\<lambda>(mp, q, h). (case mp of None \<Rightarrow> Some (q, h)
     | Some a \<Rightarrow> Option.bind (freemsg (Some a) h) (\<lambda>h'. flushq (q, h'))))"

text \<open>The allocator reuses a block of its queue when no message refers to its data any more.\<close>

partial_function (option) find_unused :: "heap \<Rightarrow> addr \<Rightarrow> nat \<Rightarrow> addr \<Rightarrow> (addr option) option" where
  "find_unused h stopper sz m =
    (if m = stopper then Some None
     else Option.bind (mblks h m) (\<lambda>mb. Option.bind (b_datap mb) (\<lambda>d. Option.bind (dblks h d) (\<lambda>db.
       (if db_ref db = 1 \<and> sz \<le> db_lim db - db_base db then Some (Some m)
        else Option.bind (b_next mb) (\<lambda>n. find_unused h stopper sz n))))))"

definition msgb_allocator_init :: "addr \<Rightarrow> heap \<Rightarrow> queue_t \<times> heap" where
  "msgb_allocator_init stopper h = qinit stopper h"

definition msgb_allocator_alloc :: "nat \<Rightarrow> queue_t \<times> heap \<Rightarrow> (addr option \<times> queue_t \<times> heap) option" where
  "msgb_allocator_alloc sz = (\<lambda>(q, h). do {
     s \<leftarrow> mblks h (q_stopper q);
     b \<leftarrow> b_next s;
     found \<leftarrow> find_unused h (q_stopper q) sz b;
     (case found of
        Some m \<Rightarrow> do { (r, h1) \<leftarrow> dupb m h; Some (r, q, h1) }
      | None \<Rightarrow> do {
          let (m, h1) = allocb sz h;
          (q2, h2) \<leftarrow> putq m (q, h1);
          (r, h3) \<leftarrow> dupb m h2;
          Some (r, q2, h3) }) })"

definition msgb_allocator_uninit :: "queue_t \<times> heap \<Rightarrow> (queue_t \<times> heap) option" where
  "msgb_allocator_uninit qh = flushq qh"

section \<open>Doubly linked segments\<close>

definition nxt :: "heap \<Rightarrow> addr \<Rightarrow> addr option" where
  "nxt h a = Option.bind (mblks h a) b_next"

definition prv :: "heap \<Rightarrow> addr \<Rightarrow> addr option" where
  "prv h a = Option.bind (mblks h a) b_prev"

fun dll :: "heap \<Rightarrow> addr \<Rightarrow> addr list \<Rightarrow> addr \<Rightarrow> bool" where
  "dll h a [] b = (nxt h a = Some b \<and> prv h b = Some a)"
| "dll h a (x # xs) b = (nxt h a = Some x \<and> prv h x = Some a \<and> dll h x xs b)"

definition is_queue :: "heap \<Rightarrow> queue_t \<Rightarrow> addr list \<Rightarrow> bool" where
  "is_queue h q xs \<longleftrightarrow> dll h (q_stopper q) xs (q_stopper q) \<and> distinct (q_stopper q # xs) \<and> q_mcount q = int (length xs)"

text \<open>Two stores that differ in link fields only.\<close>

definition strip_links :: "mblk_t \<Rightarrow> mblk_t" where
  "strip_links m = m\<lparr>b_next := None, b_prev := None\<rparr>"

definition same_but_links :: "heap \<Rightarrow> heap \<Rightarrow> bool" where
  "same_but_links h h' \<longleftrightarrow> dblks h' = dblks h \<and> brk h' = brk h \<and> freefn_calls h' = freefn_calls h
     \<and> (\<forall>a. map_option strip_links (mblks h' a) = map_option strip_links (mblks h a))"

lemma same_but_links_refl [simp]: "same_but_links h h"
  by (simp add: same_but_links_def)

lemma same_but_links_trans: "same_but_links h h1 \<Longrightarrow> same_but_links h1 h2 \<Longrightarrow> same_but_links h h2"
  by (simp add: same_but_links_def)

lemma set_next_ok:
  "mblks h a \<noteq> None \<Longrightarrow> \<exists>h'. set_next (Some a) v h = Some h' \<and> nxt h' = (nxt h)(a := v) \<and> prv h' = prv h
     \<and> same_but_links h h' \<and> dom (mblks h') = dom (mblks h)"
  by (auto simp: set_next_def upd_m_def nxt_def prv_def same_but_links_def strip_links_def fun_eq_iff)

lemma set_prev_ok:
  "mblks h a \<noteq> None \<Longrightarrow> \<exists>h'. set_prev (Some a) v h = Some h' \<and> prv h' = (prv h)(a := v) \<and> nxt h' = nxt h
     \<and> same_but_links h h' \<and> dom (mblks h') = dom (mblks h)"
  by (auto simp: set_prev_def upd_m_def nxt_def prv_def same_but_links_def strip_links_def fun_eq_iff)

lemma same_but_links_m:
  assumes "same_but_links h h'" "mblks h' a = Some m'"
  shows "\<exists>m. mblks h a = Some m \<and> b_cont m' = b_cont m \<and> b_datap m' = b_datap m \<and> b_rptr m' = b_rptr m
     \<and> b_wptr m' = b_wptr m \<and> reserved1 m' = reserved1 m \<and> reserved2 m' = reserved2 m"
proof -
  have "map_option strip_links (mblks h' a) = map_option strip_links (mblks h a)"
    using assms(1) unfolding same_but_links_def by blast
  with assms(2) obtain m where m: "mblks h a = Some m" "strip_links m' = strip_links m" by (cases "mblks h a") auto
  from m(2) have "b_cont (strip_links m') = b_cont (strip_links m)" "b_datap (strip_links m') = b_datap (strip_links m)"
    "b_rptr (strip_links m') = b_rptr (strip_links m)" "b_wptr (strip_links m') = b_wptr (strip_links m)"
    "reserved1 (strip_links m') = reserved1 (strip_links m)" "reserved2 (strip_links m') = reserved2 (strip_links m)" by simp_all
  then have "b_cont m' = b_cont m \<and> b_datap m' = b_datap m \<and> b_rptr m' = b_rptr m
     \<and> b_wptr m' = b_wptr m \<and> reserved1 m' = reserved1 m \<and> reserved2 m' = reserved2 m" by (simp add: strip_links_def)
  with m(1) show ?thesis by simp
qed

lemma same_but_links_sym: "same_but_links h h' \<Longrightarrow> same_but_links h' h"
  by (simp add: same_but_links_def)

lemma same_but_links_dom: "same_but_links h h' \<Longrightarrow> dom (mblks h') = dom (mblks h)"
  by (force simp: same_but_links_def dom_def map_option_case split: option.splits)

lemma same_but_links_refs: "same_but_links h h' \<Longrightarrow> refs h' d = refs h d"
  using same_but_links_m [of h h'] same_but_links_m [of h' h] same_but_links_sym by (fastforce simp: refs_def)

lemma same_but_links_inv:
  assumes "heap_inv E h" "same_but_links h h'"
  shows "heap_inv E h'"
proof (rule heap_invI)
  have eq: "dblks h' = dblks h" "brk h' = brk h" using assms(2) by (auto simp: same_but_links_def)
  show "finite (dom (mblks h'))" using heap_inv_finite [OF assms(1)] same_but_links_dom [OF assms(2)] by simp
  fix a m assume "mblks h' a = Some m"
  then obtain m0 where "mblks h a = Some m0" "b_datap m = b_datap m0" "b_rptr m = b_rptr m0" "b_wptr m = b_wptr m0"
    using same_but_links_m [OF assms(2)] by blast
  then show "a < brk h' \<and> ptrs_ok h' m"
    using heap_inv_m [OF assms(1)] eq ptrs_ok_cong [of m m0] ptrs_ok_dblks_cong [OF eq(1)] by simp
next
  have eq: "dblks h' = dblks h" "brk h' = brk h" using assms(2) by (auto simp: same_but_links_def)
  fix d db assume "dblks h' d = Some db"
  then show "d < brk h' \<and> db_base db \<noteq> 0 \<and> db_ref db = int (card (refs h' d) + E d) \<and> 0 < card (refs h' d) + E d"
    using heap_inv_d [OF assms(1)] eq same_but_links_refs [OF assms(2)] by simp
next
  fix d assume "0 < E d"
  then show "d \<in> dom (dblks h')" using heap_inv_E [OF assms(1)] assms(2) by (simp add: same_but_links_def)
qed

lemma same_but_links_chain: "same_but_links h h' \<Longrightarrow> chain h p xs \<Longrightarrow> chain h' p xs"
proof (induction xs arbitrary: p)
  case (Cons x xs)
  then obtain m where m: "p = Some x" "mblks h x = Some m" "b_datap m \<noteq> None" "chain h (b_cont m) xs"
    by (auto simp: chain_Cons)
  with same_but_links_m [OF same_but_links_sym [OF Cons.prems(1)] m(2)] Cons.IH [OF Cons.prems(1) m(4)]
  show ?case by (auto simp: chain_Cons)
qed simp

lemma same_but_links_bytes: "same_but_links h h' \<Longrightarrow> bytes_at h' a = bytes_at h a"
proof (cases "mblks h' a")
  case None
  assume "same_but_links h h'"
  with None have "mblks h a = None" using same_but_links_dom by blast
  with None show ?thesis by (simp add: bytes_at_def)
next
  case (Some m')
  assume s: "same_but_links h h'"
  from same_but_links_m [OF s Some] obtain m where m: "mblks h a = Some m" "b_datap m' = b_datap m" "b_rptr m' = b_rptr m" "b_wptr m' = b_wptr m"
    by blast
  have "block_bytes h' m' = block_bytes h m'" using s unfolding same_but_links_def block_bytes_def by metis
  also have "\<dots> = block_bytes h m" by (rule block_bytes_cong) (use m in auto)
  finally show ?thesis using Some m(1) by (simp add: bytes_at_def)
qed

lemma dll_append: "dll h a (xs @ x # ys) b \<longleftrightarrow> dll h a xs x \<and> dll h x ys b"
  by (induction xs arbitrary: a) auto

lemma dll_frame:
  "dll h a xs b \<Longrightarrow> (\<And>x. x \<in> insert a (set xs) \<Longrightarrow> nxt h' x = nxt h x) \<Longrightarrow>
   (\<And>x. x \<in> insert b (set xs) \<Longrightarrow> prv h' x = prv h x) \<Longrightarrow> dll h' a xs b"
  by (induction xs arbitrary: a) auto

lemma dll_dom: "dll h a xs b \<Longrightarrow> x \<in> insert a (insert b (set xs)) \<Longrightarrow> mblks h x \<noteq> None"
  by (induction xs arbitrary: a) (auto simp: nxt_def prv_def bind_eq_Some_conv)


lemma links_commute: "(m :: mblk_t)\<lparr>b_next := u, b_prev := v\<rparr> = m\<lparr>b_prev := v, b_next := u\<rparr>"
  by (cases m) simp

lemma dll_ins:
  assumes "dll h a us e" "x \<notin> insert a (set us)" "x \<noteq> e" "distinct (a # us)" "e \<notin> set us"
    and "nxt h' = (nxt h)(last (a # us) := Some x, x := Some e)"
    and "prv h' = (prv h)(x := Some (last (a # us)), e := Some x)"
  shows "dll h' a (us @ [x]) e"
  using assms by (induction us arbitrary: a) (auto split: if_splits)

lemma dll_del:
  assumes "dll h a us x" "x \<notin> insert a (set us)" "x \<noteq> e" "distinct (a # us)" "e \<notin> set us"
    and "nxt h' = (nxt h)(last (a # us) := Some e, x := None)"
    and "prv h' = (prv h)(e := Some (last (a # us)), x := None)"
  shows "dll h' a us e"
  using assms by (induction us arbitrary: a) (auto split: if_splits)

lemma dll_last: "dll h a us e \<Longrightarrow> prv h e = Some (last (a # us))"
  by (induction us arbitrary: a) auto

lemma dll_first: "dll h a us e \<Longrightarrow> nxt h a = Some (hd (us @ [e]))"
  by (cases us) auto

lemma nxtD: "mblks h a = Some m \<Longrightarrow> b_next m = nxt h a"
  and prvD: "mblks h a = Some m \<Longrightarrow> b_prev m = prv h a"
  by (simp_all add: nxt_def prv_def)

section \<open>The operations implement list operations\<close>

text \<open>Linking \<open>mp\<close> in front of \<open>e\<close>, which \<open>p\<close> precedes: the four stores of \<open>putq\<close> and \<open>insq\<close>.\<close>

lemma ins_stores:
  assumes d: "mblks h e \<noteq> None" "mblks h p \<noteq> None" "mblks h mp \<noteq> None" and p: "prv h e = Some p" "mp \<noteq> e"
  shows "\<exists>h4. insq (Some e) mp (q, h) = Some (q\<lparr>q_mcount := q_mcount q + 1\<rparr>, h4)
     \<and> (e = q_stopper q \<longrightarrow> putq mp (q, h) = Some (q\<lparr>q_mcount := q_mcount q + 1\<rparr>, h4)) \<and> same_but_links h h4
     \<and> nxt h4 = (nxt h)(p := Some mp, mp := Some e) \<and> prv h4 = (prv h)(mp := Some p, e := Some mp)"
proof -
  obtain em where em: "mblks h e = Some em" using d(1) by auto
  obtain h1 where h1: "set_next (Some p) (Some mp) h = Some h1" "nxt h1 = (nxt h)(p := Some mp)" "prv h1 = prv h"
     "same_but_links h h1" "dom (mblks h1) = dom (mblks h)" using set_next_ok [OF d(2)] by blast
  obtain em1 where em1: "mblks h1 e = Some em1" using d(1) h1(5) by blast
  have "mblks h1 mp \<noteq> None" using d(3) h1(5) by blast
  then obtain h2 where h2: "set_prev (Some mp) (Some p) h1 = Some h2" "prv h2 = (prv h1)(mp := Some p)" "nxt h2 = nxt h1"
     "same_but_links h1 h2" "dom (mblks h2) = dom (mblks h1)" using set_prev_ok by blast
  have "mblks h2 e \<noteq> None" using d(1) h1(5) h2(5) by blast
  then obtain h3 where h3: "set_prev (Some e) (Some mp) h2 = Some h3" "prv h3 = (prv h2)(e := Some mp)" "nxt h3 = nxt h2"
     "same_but_links h2 h3" "dom (mblks h3) = dom (mblks h2)" using set_prev_ok by blast
  have "mblks h3 mp \<noteq> None" using d(3) h1(5) h2(5) h3(5) by blast
  then obtain h4 where h4: "set_next (Some mp) (Some e) h3 = Some h4" "nxt h4 = (nxt h3)(mp := Some e)" "prv h4 = prv h3"
     "same_but_links h3 h4" "dom (mblks h4) = dom (mblks h3)" using set_next_ok by blast
  have "insq (Some e) mp (q, h) = Some (q\<lparr>q_mcount := q_mcount q + 1\<rparr>, h4)"
    using em em1 h1 h2(1) h3(1) h4(1) p by (simp add: insq_def prvD)
  moreover have "putq mp (q, h) = Some (q\<lparr>q_mcount := q_mcount q + 1\<rparr>, h4)" if "e = q_stopper q"
  proof -
    have "Option.bind (set_next (Some mp) (Some e) h2) (set_prev (Some e) (Some mp)) = Some h4"
    proof -
      have "Option.bind (set_next (Some mp) (Some e) h2) (set_prev (Some e) (Some mp))
          = Option.bind (set_prev (Some e) (Some mp) h2) (set_next (Some mp) (Some e))"
        using p(2) by (auto simp: set_next_def set_prev_def upd_m_def fun_upd_twist split: option.splits)
      then show ?thesis using h3(1) h4(1) by simp
    qed
    then show ?thesis using em em1 h1 h2(1) p that
      by (auto simp: putq_def prvD bind_eq_Some_conv)
  qed
  moreover have "same_but_links h h4" using h1(4) h2(4) h3(4) h4(4) by (meson same_but_links_trans)
  ultimately show ?thesis using h1 h2 h3 h4 by auto
qed

lemma putq_ok:
  assumes q: "is_queue h q xs" and mp: "mblks h mp \<noteq> None" "mp \<notin> set xs" "mp \<noteq> q_stopper q"
  shows "\<exists>h'. putq mp (q, h) = Some (q\<lparr>q_mcount := q_mcount q + 1\<rparr>, h') \<and> same_but_links h h'
     \<and> is_queue h' (q\<lparr>q_mcount := q_mcount q + 1\<rparr>) (xs @ [mp])"
proof -
  let ?s = "q_stopper q" let ?p = "last (?s # xs)"
  have d: "dll h ?s xs ?s" "distinct (?s # xs)" using q by (auto simp: is_queue_def)
  have "?p \<in> set (?s # xs)" by (rule last_in_set) simp
  then have "mblks h ?s \<noteq> None" "mblks h ?p \<noteq> None" using dll_dom [OF d(1)] by auto
  from ins_stores [OF this mp(1) dll_last [OF d(1)], of q] mp(3) obtain h4 where
    h4: "putq mp (q, h) = Some (q\<lparr>q_mcount := q_mcount q + 1\<rparr>, h4)" "same_but_links h h4"
      "nxt h4 = (nxt h)(?p := Some mp, mp := Some ?s)" "prv h4 = (prv h)(mp := Some ?p, ?s := Some mp)" by blast
  have "dll h4 ?s (xs @ [mp]) ?s"
    by (rule dll_ins [OF d(1) _ _ d(2) _ h4(3,4)]) (use mp d(2) in auto)
  with h4 show ?thesis using q mp by (auto simp: is_queue_def)
qed

lemma insq_ok:
  assumes q: "is_queue h q (us @ e # vs)" and mp: "mblks h mp \<noteq> None" "mp \<notin> set (us @ e # vs)" "mp \<noteq> q_stopper q"
  shows "\<exists>h'. insq (Some e) mp (q, h) = Some (q\<lparr>q_mcount := q_mcount q + 1\<rparr>, h') \<and> same_but_links h h'
     \<and> is_queue h' (q\<lparr>q_mcount := q_mcount q + 1\<rparr>) (us @ mp # e # vs)"
proof -
  let ?s = "q_stopper q" let ?p = "last (?s # us)"
  have d: "dll h ?s us e" "dll h e vs ?s" "distinct (?s # us @ e # vs)" using q by (auto simp: is_queue_def dll_append)
  have p: "?p \<in> set (?s # us)" by (rule last_in_set) simp
  then have dm: "mblks h e \<noteq> None" "mblks h ?p \<noteq> None" using dll_dom [OF d(1)] by auto
  from ins_stores [OF dm mp(1) dll_last [OF d(1)], of q] mp(2) obtain h4 where
    h4: "insq (Some e) mp (q, h) = Some (q\<lparr>q_mcount := q_mcount q + 1\<rparr>, h4)" "same_but_links h h4"
      "nxt h4 = (nxt h)(?p := Some mp, mp := Some e)" "prv h4 = (prv h)(mp := Some ?p, e := Some mp)" by auto
  have "dll h4 ?s (us @ [mp]) e"
    by (rule dll_ins [OF d(1) _ _ _ _ h4(3,4)]) (use mp d(3) in auto)
  then have "dll h4 ?s us mp \<and> nxt h4 mp = Some e \<and> prv h4 e = Some mp" by (simp add: dll_append)
  moreover have "dll h4 e vs ?s"
    by (rule dll_frame [OF d(2)]) (use mp d(3) p in \<open>auto simp: h4(3,4)\<close>)
  ultimately have "dll h4 ?s (us @ mp # e # vs) ?s" by (simp add: dll_append)
  with h4 show ?thesis using q mp by (auto simp: is_queue_def)
qed


text \<open>Unlinking \<open>x\<close>, which stands between \<open>p\<close> and \<open>e\<close>.\<close>

lemma del_stores:
  assumes d: "mblks h x \<noteq> None" "mblks h p \<noteq> None" "mblks h e \<noteq> None"
    and l: "prv h x = Some p" "nxt h x = Some e" "p \<noteq> x" "e \<noteq> x"
  shows "\<exists>h4. remq x (q, h) = Some (q\<lparr>q_mcount := q_mcount q - 1\<rparr>, h4) \<and> same_but_links h h4
     \<and> nxt h4 = (nxt h)(p := Some e, x := None) \<and> prv h4 = (prv h)(e := Some p, x := None)"
proof -
  obtain xm where xm: "mblks h x = Some xm" using d(1) by auto
  obtain h1 where h1: "set_next (Some p) (Some e) h = Some h1" "nxt h1 = (nxt h)(p := Some e)" "prv h1 = prv h"
     "same_but_links h h1" "dom (mblks h1) = dom (mblks h)" using set_next_ok [OF d(2)] by blast
  obtain xm1 where xm1: "mblks h1 x = Some xm1" using d(1) h1(5) by blast
  have "mblks h1 e \<noteq> None" using d(3) h1(5) by blast
  then obtain h2 where h2: "set_prev (Some e) (Some p) h1 = Some h2" "prv h2 = (prv h1)(e := Some p)" "nxt h2 = nxt h1"
     "same_but_links h1 h2" "dom (mblks h2) = dom (mblks h1)" using set_prev_ok by blast
  have "mblks h2 x \<noteq> None" using d(1) h1(5) h2(5) by blast
  then obtain h3 where h3: "set_next (Some x) None h2 = Some h3" "nxt h3 = (nxt h2)(x := None)" "prv h3 = prv h2"
     "same_but_links h2 h3" "dom (mblks h3) = dom (mblks h2)" using set_next_ok by blast
  have "mblks h3 x \<noteq> None" using d(1) h1(5) h2(5) h3(5) by blast
  then obtain h4 where h4: "set_prev (Some x) None h3 = Some h4" "prv h4 = (prv h3)(x := None)" "nxt h4 = nxt h3"
     "same_but_links h3 h4" "dom (mblks h4) = dom (mblks h3)" using set_prev_ok by blast
  have "remq x (q, h) = Some (q\<lparr>q_mcount := q_mcount q - 1\<rparr>, h4)"
    using xm xm1 h1 h2(1) h3(1) h4(1) l by (simp add: remq_def prvD nxtD)
  moreover have "same_but_links h h4" using h1(4) h2(4) h3(4) h4(4) by (meson same_but_links_trans)
  ultimately show ?thesis using h1 h2 h3 h4 by auto
qed

lemma remq_ok:
  assumes q: "is_queue h q (us @ x # vs)"
  shows "\<exists>h'. remq x (q, h) = Some (q\<lparr>q_mcount := q_mcount q - 1\<rparr>, h') \<and> same_but_links h h'
     \<and> is_queue h' (q\<lparr>q_mcount := q_mcount q - 1\<rparr>) (us @ vs) \<and> nxt h' x = None \<and> prv h' x = None"
proof -
  let ?s = "q_stopper q" let ?p = "last (?s # us)" let ?e = "hd (vs @ [?s])"
  have d: "dll h ?s us x" "dll h x vs ?s" "distinct (?s # us @ x # vs)" using q by (auto simp: is_queue_def dll_append)
  have p: "?p \<in> set (?s # us)" by (rule last_in_set) simp
  have e: "?e \<in> set (vs @ [?s])" by (rule hd_in_set) simp
  have dm: "mblks h x \<noteq> None" "mblks h ?p \<noteq> None" "mblks h ?e \<noteq> None"
    using dll_dom [OF d(1), of x] dll_dom [OF d(1), of ?p] dll_dom [OF d(2), of ?e] p e by auto
  have ne: "?p \<noteq> x" "?e \<noteq> x" using p e d(3) by auto
  from del_stores [OF dm dll_last [OF d(1)] dll_first [OF d(2)] ne, of q] obtain h4 where
    h4: "remq x (q, h) = Some (q\<lparr>q_mcount := q_mcount q - 1\<rparr>, h4)" "same_but_links h h4"
      "nxt h4 = (nxt h)(?p := Some ?e, x := None)" "prv h4 = (prv h)(?e := Some ?p, x := None)" by blast
  have l: "dll h4 ?s us ?e"
    by (rule dll_del [OF d(1) _ _ _ _ h4(3,4)]) (use e ne d(3) in auto)
  have "dll h4 ?s (us @ vs) ?s"
  proof (cases vs)
    case Nil
    with l show ?thesis by simp
  next
    case (Cons y ys)
    have "dll h4 y ys ?s"
    proof (rule dll_frame [of h])
      show "dll h y ys ?s" using d(2) Cons by simp
    qed (use d(3) Cons p in \<open>auto simp: h4(3,4)\<close>)
    with l Cons show ?thesis by (simp add: dll_append)
  qed
  with h4 show ?thesis using q by (auto simp: is_queue_def)
qed

lemma getq_ok:
  assumes q: "is_queue h q xs"
  shows "\<exists>q' h'. getq (q, h) = Some (if xs = [] then None else Some (hd xs), q', h') \<and> same_but_links h h'
     \<and> is_queue h' q' (tl xs) \<and> q_stopper q' = q_stopper q \<and> (xs \<noteq> [] \<longrightarrow> nxt h' (hd xs) = None \<and> prv h' (hd xs) = None)"
proof -
  let ?s = "q_stopper q"
  have d: "dll h ?s xs ?s" "distinct (?s # xs)" using q by (auto simp: is_queue_def)
  obtain sm where sm: "mblks h ?s = Some sm" using dll_dom [OF d(1), of ?s] by auto
  show ?thesis
  proof (cases xs)
    case Nil
    then show ?thesis using sm q d(1) by (auto simp: getq_def nxtD)
  next
    case (Cons x vs)
    let ?e = "hd (vs @ [?s])"
    have lx: "nxt h ?s = Some x" "prv h x = Some ?s" "nxt h x = Some ?e"
      using d(1) Cons dll_first [of h x vs ?s] by auto
    have q': "is_queue h q ([] @ x # vs)" using q Cons by simp
    from remq_ok [OF q'] obtain h' where
      h': "remq x (q, h) = Some (q\<lparr>q_mcount := q_mcount q - 1\<rparr>, h')" "same_but_links h h'"
        "is_queue h' (q\<lparr>q_mcount := q_mcount q - 1\<rparr>) vs" "nxt h' x = None" "prv h' x = None" by auto
    have xs: "x \<noteq> ?s" "?e \<noteq> x" using d(2) Cons by (cases vs; auto)+
    have comm: "Option.bind (set_next (Some x) None h2) (set_prev (Some x) None)
        = Option.bind (set_prev (Some x) None h2) (set_next (Some x) None)" for h2
      by (auto simp: set_next_def set_prev_def upd_m_def links_commute split: option.splits)
    have "getq (q, h) = map_option (\<lambda>(q', h'). (Some x, q', h')) (remq x (q, h))"
    proof -
      obtain xm where xm: "mblks h x = Some xm" using dll_dom [OF d(1), of x] Cons by auto
      have "\<exists>h1. set_next (Some ?s) (Some ?e) h = Some h1 \<and> nxt h1 = (nxt h)(?s := Some ?e) \<and> prv h1 = prv h
         \<and> dom (mblks h1) = dom (mblks h)" using set_next_ok [of h ?s] sm by auto
      then obtain h1 where h1: "set_next (Some ?s) (Some ?e) h = Some h1" "nxt h1 = (nxt h)(?s := Some ?e)" "prv h1 = prv h"
         "dom (mblks h1) = dom (mblks h)" by blast
      obtain xm1 where xm1: "mblks h1 x = Some xm1" using xm h1(4) by blast
      have e2: "b_next xm1 = Some ?e" "b_prev xm1 = Some ?s"
        using nxtD [OF xm1] prvD [OF xm1] h1(2,3) lx xs by auto
      have e1: "b_next sm = Some x" "b_next xm = Some ?e" "b_prev xm = Some ?s"
        using nxtD [OF sm] nxtD [OF xm] prvD [OF xm] lx by auto
      show ?thesis
      proof (cases "set_prev (Some ?e) (Some ?s) h1")
        case None
        then show ?thesis using sm xm xm1 h1(1) e1 e2 xs by (simp add: getq_def remq_def)
      next
        case (Some h2)
        then show ?thesis using sm xm xm1 h1(1) e1 e2 xs comm [of h2]
          by (auto simp: getq_def remq_def split: Option.bind_splits)
      qed
    qed
    with h' Cons show ?thesis by simp
  qed
qed

lemma peekq_ok: "is_queue h q xs \<Longrightarrow> peekq (q, h) = Some (if xs = [] then None else Some (hd xs))"
proof -
  assume q: "is_queue h q xs"
  let ?s = "q_stopper q"
  have d: "dll h ?s xs ?s" "distinct (?s # xs)" using q by (auto simp: is_queue_def)
  obtain sm where sm: "mblks h ?s = Some sm" using dll_dom [OF d(1), of ?s] by auto
  then show ?thesis using d dll_first [OF d(1)] nxtD [OF sm] by (cases xs) (auto simp: peekq_def)
qed


section \<open>Flushing\<close>

text \<open>The queued messages and the blocks each of them owns.\<close>

definition queued_msgs :: "heap \<Rightarrow> queue_t \<Rightarrow> addr list \<Rightarrow> addr list list \<Rightarrow> bool" where
  "queued_msgs h q xs cs \<longleftrightarrow> is_queue h q xs \<and> list_all2 (\<lambda>x c. chain h (Some x) c) xs cs
     \<and> distinct (q_stopper q # concat cs)"

lemma is_queue_frame:
  assumes "is_queue h q xs" "\<And>x. x \<in> insert (q_stopper q) (set xs) \<Longrightarrow> mblks h' x = mblks h x"
  shows "is_queue h' q xs"
  using assms dll_frame [of h "q_stopper q" xs "q_stopper q" h'] by (auto simp: is_queue_def nxt_def prv_def)

lemma chain_hd: "chain h (Some x) c \<Longrightarrow> x \<in> set c"
  by (cases c) (auto simp: chain_Cons)

lemma msgs_mem: "list_all2 (\<lambda>x c. chain h (Some x) c) xs cs \<Longrightarrow> x \<in> set xs \<Longrightarrow> x \<in> set (concat cs)"
  by (induction rule: list_all2_induct) (auto dest: chain_hd)

lemma msgs_frame:
  "list_all2 (\<lambda>x c. chain h (Some x) c) xs cs \<Longrightarrow> (\<And>a. a \<in> set (concat cs) \<Longrightarrow> mblks h' a = mblks h a) \<Longrightarrow>
   list_all2 (\<lambda>x c. chain h' (Some x) c) xs cs"
  by (induction rule: list_all2_induct) (auto intro: chain_frame)

lemma flushq_ok:
  assumes "heap_inv E h" "queued_msgs h q xs cs"
  shows "\<exists>q' h'. flushq (q, h) = Some (q', h') \<and> heap_inv E h' \<and> is_queue h' q' [] \<and> q_stopper q' = q_stopper q
     \<and> dom (mblks h') = dom (mblks h) - set (concat cs)"
  using assms
proof (induction xs arbitrary: q h cs)
  case Nil
  then have "is_queue h q []" "cs = []" by (auto simp: queued_msgs_def)
  with Nil getq_ok [OF this(1)] obtain q' h' where
    "getq (q, h) = Some (None, q', h')" "same_but_links h h'" "is_queue h' q' []" "q_stopper q' = q_stopper q" by auto
  with Nil \<open>cs = []\<close> same_but_links_inv same_but_links_dom show ?case
    by (subst flushq.simps) auto
next
  case (Cons x xs)
  then obtain c ds where cs: "cs = c # ds" and ch: "chain h (Some x) c" and ms: "list_all2 (\<lambda>x c. chain h (Some x) c) xs ds"
    and q: "is_queue h q (x # xs)" and di: "distinct (q_stopper q # c @ concat ds)"
    by (auto simp: queued_msgs_def list_all2_Cons1)
  from getq_ok [OF q] obtain q1 h1 where
    g: "getq (q, h) = Some (Some x, q1, h1)" "same_but_links h h1" "is_queue h1 q1 xs" "q_stopper q1 = q_stopper q" by auto
  have i1: "heap_inv E h1" by (rule same_but_links_inv [OF Cons.prems(1) g(2)])
  have ch1: "chain h1 (Some x) c" by (rule same_but_links_chain [OF g(2) ch])
  have ms1: "list_all2 (\<lambda>x c. chain h1 (Some x) c) xs ds"
    by (rule list_all2_mono [OF ms]) (rule same_but_links_chain [OF g(2)])
  from freemsg_inv [OF i1 ch1] obtain h2 where
    f: "freemsg (Some x) h1 = Some h2" "heap_inv E h2" "mblks h2 = (mblks h1) |` (- set c)" by blast
  have fr: "mblks h2 a = mblks h1 a" if "a \<notin> set c" for a using that by (simp add: f(3))
  have "x \<notin> set c" if "x \<in> set xs" for x using msgs_mem [OF ms that] di by auto
  then have "is_queue h2 q1 xs"
    by (intro is_queue_frame [OF g(3)]) (use di g(4) fr in auto)
  moreover have "list_all2 (\<lambda>x c. chain h2 (Some x) c) xs ds"
    by (rule msgs_frame [OF ms1]) (use di fr in auto)
  ultimately have "queued_msgs h2 q1 xs ds" using di g(4) by (auto simp: queued_msgs_def)
  from Cons.IH [OF f(2) this] obtain q' h' where
    r: "flushq (q1, h2) = Some (q', h')" "heap_inv E h'" "is_queue h' q' []" "q_stopper q' = q_stopper q1"
      "dom (mblks h') = dom (mblks h2) - set (concat ds)" by blast
  have "flushq (q, h) = Some (q', h')" using g(1) f(1) r(1) by (subst flushq.simps) simp
  moreover have "dom (mblks h') = dom (mblks h) - set (concat cs)"
    using r(5) f(3) same_but_links_dom [OF g(2)] cs by auto
  ultimately show ?case using r g(4) by auto
qed

section \<open>The allocator\<close>

lemma sole_ref: "card (refs h d) = 1 \<Longrightarrow> mblks h m = Some mb \<Longrightarrow> b_datap mb = Some d \<Longrightarrow> refs h d = {m}"
proof -
  assume "card (refs h d) = 1" "mblks h m = Some mb" "b_datap mb = Some d"
  moreover from this have "m \<in> refs h d" by (auto simp: refs_def)
  ultimately show ?thesis by (auto simp: card_1_singleton_iff)
qed

lemma find_unused_ok:
  assumes inv: "heap_inv E h" and "dll h a ys s" "s \<notin> set ys" "\<forall>y \<in> set ys. \<forall>m. mblks h y = Some m \<longrightarrow> b_datap m \<noteq> None"
  shows "\<exists>r. find_unused h s sz (hd (ys @ [s])) = Some r
     \<and> (\<forall>m. r = Some m \<longrightarrow> m \<in> set ys \<and> (\<exists>mb d db. mblks h m = Some mb \<and> b_datap mb = Some d \<and> dblks h d = Some db
           \<and> db_ref db = 1 \<and> sz \<le> length (db_buf db)))"
  using assms(2-)
proof (induction ys arbitrary: a)
  case Nil
  then show ?case by (subst find_unused.simps) simp
next
  case (Cons y ys)
  obtain m where m: "mblks h y = Some m" using dll_dom [OF Cons.prems(1), of y] by auto
  then obtain d where d: "b_datap m = Some d" using Cons.prems(3) by auto
  obtain db where db: "dblks h d = Some db" using heap_inv_datap [OF inv m d] by auto
  have l: "dll h y ys s" "y \<noteq> s" using Cons.prems by auto
  have n: "b_next m = Some (hd (ys @ [s]))" using dll_first [OF l(1)] nxtD [OF m] by simp
  have "\<exists>r. find_unused h s sz (hd (ys @ [s])) = Some r
     \<and> (\<forall>m. r = Some m \<longrightarrow> m \<in> set ys \<and> (\<exists>mb d db. mblks h m = Some mb \<and> b_datap mb = Some d \<and> dblks h d = Some db
           \<and> db_ref db = 1 \<and> sz \<le> length (db_buf db)))"
    by (rule Cons.IH [OF l(1)]) (use Cons.prems in auto)
  then show ?case using m d db n l(2) by (subst find_unused.simps) (auto simp: db_lim_def)
qed

text \<open>
  A block handed out by the allocator shares its data with the allocator's own queue entry only:
  never with another message that is still in use.
\<close>

definition owned_with :: "heap \<Rightarrow> addr \<Rightarrow> addr \<Rightarrow> nat \<Rightarrow> bool" where
  "owned_with h m r sz \<longleftrightarrow> (\<exists>mb d db. mblks h r = Some mb \<and> b_datap mb = Some d \<and> dblks h d = Some db
     \<and> refs h d = {m, r} \<and> sz \<le> length (db_buf db))"

lemma dupb_owned:
  assumes inv: "heap_inv E h" and m: "mblks h m = Some mb" "b_datap mb = Some d" "dblks h d = Some db"
    and sole: "refs h d = {m}" and sz: "sz \<le> length (db_buf db)"
  shows "\<exists>r h'. dupb m h = Some (Some r, h') \<and> heap_inv E h' \<and> owned_with h' m r sz \<and> r = brk h \<and> mframe {} h h'"
proof -
  obtain r h' where r: "dupb m h = Some (Some r, h')" "heap_inv E h'" "data_ext h h'" "r = brk h"
     "mblks h' = (mblks h)(r \<mapsto> mblk_init\<lparr>reserved1 := reserved1 mb, reserved2 := reserved2 mb,
          b_datap := Some d, b_rptr := b_rptr mb, b_wptr := b_wptr mb\<rparr>)"
    using dupb_inv [OF inv m(1,2)] by blast
  have "r \<noteq> m" using heap_inv_lt [OF inv m(1)] r(4) by simp
  have "refs h' d = insert r (refs h d)" using heap_inv_lt [OF inv, of r] r(4) by (auto simp: refs_def r(5))
  moreover obtain db' where "dblks h' d = Some db'" "db_buf db' = db_buf db"
  proof -
    obtain db' where db': "dblks h' d = Some db'"
      using heap_inv_datap [OF r(2) _ m(2), of m] m(1) \<open>r \<noteq> m\<close> by (auto simp: r(5))
    have "d < brk h" using heap_inv_d [OF inv m(3)] by simp
    with r(3) db' m(3) that show ?thesis by (fastforce simp: data_ext_def)
  qed
  ultimately show ?thesis using r sole sz by (auto simp: owned_with_def r(5) mframe_def)
qed

lemma msgb_allocator_alloc_ok:
  assumes inv: "heap_inv (\<lambda>_. 0) h" and q: "is_queue h q xs"
    and dat: "\<forall>y \<in> set xs. \<forall>m. mblks h y = Some m \<longrightarrow> b_datap m \<noteq> None"
  shows "\<exists>r q' h' xs' m. msgb_allocator_alloc sz (q, h) = Some (Some r, q', h') \<and> heap_inv (\<lambda>_. 0) h' \<and> is_queue h' q' xs'
     \<and> m \<in> set xs' \<and> owned_with h' m r sz \<and> (xs' = xs \<or> xs' = xs @ [m])"
proof -
  let ?s = "q_stopper q"
  have d: "dll h ?s xs ?s" "?s \<notin> set xs" using q by (auto simp: is_queue_def)
  obtain sm where sm: "mblks h ?s = Some sm" using dll_dom [OF d(1), of ?s] by auto
  have n: "b_next sm = Some (hd (xs @ [?s]))" using dll_first [OF d(1)] nxtD [OF sm] by simp
  have lt: "x < brk h" if "x \<in> insert ?s (set xs)" for x using dll_dom [OF d(1), of x] that heap_inv_lt [OF inv] by blast
  obtain f where f: "find_unused h ?s sz (hd (xs @ [?s])) = Some f" and
    fs: "\<forall>m. f = Some m \<longrightarrow> m \<in> set xs \<and> (\<exists>mb d db. mblks h m = Some mb \<and> b_datap mb = Some d \<and> dblks h d = Some db
           \<and> db_ref db = 1 \<and> sz \<le> length (db_buf db))" using find_unused_ok [OF inv d dat] by blast
  show ?thesis
  proof (cases f)
    case (Some m)
    with fs obtain mb d db where m: "m \<in> set xs" "mblks h m = Some mb" "b_datap mb = Some d" "dblks h d = Some db"
       "db_ref db = 1" "sz \<le> length (db_buf db)" by auto
    have "card (refs h d) = 1" using heap_inv_d [OF inv m(4)] m(5) by simp
    then have "refs h d = {m}" using m(2,3) by (rule sole_ref)
    from dupb_owned [OF inv m(2-4) this m(6)] obtain r h' where
      r: "dupb m h = Some (Some r, h')" "heap_inv (\<lambda>_. 0) h'" "owned_with h' m r sz" "mframe {} h h'" by blast
    have "is_queue h' q xs" by (rule is_queue_frame [OF q]) (use lt r(4) in \<open>auto simp: mframe_def\<close>)
    moreover have "msgb_allocator_alloc sz (q, h) = Some (Some r, q, h')"
      using sm n f Some r(1) by (simp add: msgb_allocator_alloc_def)
    ultimately show ?thesis using m(1) r(2,3) by blast
  next
    case None
    obtain m h1 where al: "allocb sz h = (m, h1)" by (cases "allocb sz h")
    obtain e where e: "heap_inv (\<lambda>_. 0) h1" "m = brk h"
     "mblks h1 = (mblks h)(m \<mapsto> mblk_init\<lparr>b_datap := Some e, b_rptr := e + sizeof_dblk, b_wptr := e + sizeof_dblk\<rparr>)"
     "dblks h1 = (dblks h)(e \<mapsto> \<lparr>db_base = e + sizeof_dblk, db_buf = replicate sz 0, db_freefn = None, db_ref = 1\<rparr>)"
      using allocb_inv [OF inv al] by blast
    have q1: "is_queue h1 q xs" by (rule is_queue_frame [OF q]) (use lt e(2) in \<open>fastforce simp: e(3)\<close>)
    let ?q = "q\<lparr>q_mcount := q_mcount q + 1\<rparr>"
    have "mblks h1 m \<noteq> None" "m \<notin> set xs" "m \<noteq> ?s" using lt e(2) by (auto simp: e(3))
    from putq_ok [OF q1 this] obtain h2 where
      h2: "putq m (q, h1) = Some (?q, h2)" "same_but_links h1 h2" "is_queue h2 ?q (xs @ [m])" by blast
    have i2: "heap_inv (\<lambda>_. 0) h2" by (rule same_but_links_inv [OF e(1) h2(2)])
    obtain mb where mb: "mblks h2 m = Some mb" "b_datap mb = Some e"
      using same_but_links_m [OF same_but_links_sym [OF h2(2)], of m] by (auto simp: e(3))
    have db: "dblks h2 e = Some \<lparr>db_base = e + sizeof_dblk, db_buf = replicate sz 0, db_freefn = None, db_ref = 1\<rparr>"
      using h2(2) by (simp add: same_but_links_def e(4))
    have "card (refs h2 e) = 1" using heap_inv_d [OF i2 db] by simp
    then have "refs h2 e = {m}" using mb by (rule sole_ref)
    from dupb_owned [OF i2 mb db this, of sz] obtain r h' where
      r: "dupb m h2 = Some (Some r, h')" "heap_inv (\<lambda>_. 0) h'" "owned_with h' m r sz" "mframe {} h2 h'" by auto
    have "is_queue h' ?q (xs @ [m])"
    proof (rule is_queue_frame [OF h2(3)])
      fix x assume "x \<in> insert (q_stopper ?q) (set (xs @ [m]))"
      then have "mblks h2 x \<noteq> None" using h2(3) dll_dom [of h2 ?s "xs @ [m]" ?s x] by (simp add: is_queue_def)
      then show "mblks h' x = mblks h2 x" using r(4) heap_inv_lt [OF i2, of x] by (auto simp: mframe_def)
    qed
    moreover have "msgb_allocator_alloc sz (q, h) = Some (Some r, ?q, h')"
      using sm n f None al h2(1) r(1) by (simp add: msgb_allocator_alloc_def)
    ultimately show ?thesis using r(2,3) by (intro exI [of _ r] exI [of _ ?q] exI [of _ h'] exI [of _ "xs @ [m]"] exI [of _ m]) auto
  qed
qed

section \<open>The queue as a FIFO interface\<close>

text \<open>
  What the clients of a queue rely on: \<open>rep s xs\<close> relates a state to the list of its elements
  and \<open>fresh s a\<close> says that \<open>a\<close> may be put. A run of puts followed by as many gets returns
  the elements in the order in which they were put.
\<close>

fun put_all :: "('a \<Rightarrow> 's \<Rightarrow> 's option) \<Rightarrow> 'a list \<Rightarrow> 's \<Rightarrow> 's option" where
  "put_all put [] s = Some s"
| "put_all put (a # as) s = Option.bind (put a s) (put_all put as)"

fun get_n :: "('s \<Rightarrow> ('a option \<times> 's) option) \<Rightarrow> nat \<Rightarrow> 's \<Rightarrow> ('a option list \<times> 's) option" where
  "get_n get 0 s = Some ([], s)"
| "get_n get (Suc n) s = Option.bind (get s) (\<lambda>(a, s1). map_option (\<lambda>(as, s2). (a # as, s2)) (get_n get n s1))"

locale fifo =
  fixes rep :: "'s \<Rightarrow> 'a list \<Rightarrow> bool"
    and fresh :: "'s \<Rightarrow> 'a \<Rightarrow> bool"
    and put :: "'a \<Rightarrow> 's \<Rightarrow> 's option"
    and get :: "'s \<Rightarrow> ('a option \<times> 's) option"
  assumes put_law: "rep s xs \<Longrightarrow> fresh s a \<Longrightarrow> a \<notin> set xs \<Longrightarrow>
       \<exists>s'. put a s = Some s' \<and> rep s' (xs @ [a]) \<and> (\<forall>b. fresh s b \<longrightarrow> fresh s' b)"
    and get_law: "rep s xs \<Longrightarrow>
       \<exists>s'. get s = Some (if xs = [] then None else Some (hd xs), s') \<and> rep s' (tl xs)"
begin

lemma put_all_rep:
  "rep s xs \<Longrightarrow> \<forall>a \<in> set as. fresh s a \<Longrightarrow> distinct (xs @ as) \<Longrightarrow> \<exists>s'. put_all put as s = Some s' \<and> rep s' (xs @ as)"
proof (induction as arbitrary: s xs)
  case (Cons a as)
  from put_law [OF Cons.prems(1), of a] Cons.prems(2,3) obtain s1 where
    "put a s = Some s1" "rep s1 (xs @ [a])" "\<forall>b. fresh s b \<longrightarrow> fresh s1 b" by auto
  with Cons.IH [of s1 "xs @ [a]"] Cons.prems(2,3) show ?case by auto
qed simp

lemma get_n_rep: "rep s (xs @ ys) \<Longrightarrow> \<exists>s'. get_n get (length xs) s = Some (map Some xs, s') \<and> rep s' ys"
proof (induction xs arbitrary: s)
  case (Cons x xs)
  from get_law [OF Cons.prems] obtain s1 where "get s = Some (Some x, s1)" "rep s1 (xs @ ys)" by auto
  with Cons.IH [of s1] show ?case by auto
qed simp

lemma fifo_order:
  assumes "rep s []" "\<forall>a \<in> set as. fresh s a" "distinct as"
  shows "\<exists>s1 s2. put_all put as s = Some s1 \<and> get_n get (length as) s1 = Some (map Some as, s2) \<and> rep s2 []"
  using put_all_rep [OF assms(1,2)] get_n_rep [of _ as "[]"] assms(3) by fastforce

end

interpretation strq: fifo
  "\<lambda>(q, h) xs. is_queue h q xs" "\<lambda>(q, h) a. mblks h a \<noteq> None \<and> a \<noteq> q_stopper q" putq getq
proof (unfold_locales, goal_cases)
  case (1 s xs a)
  obtain q h where s: "s = (q, h)" by (cases s)
  from putq_ok [of h q xs a] 1 obtain h' where
    h': "putq a s = Some (q\<lparr>q_mcount := q_mcount q + 1\<rparr>, h')" "same_but_links h h'"
      "is_queue h' (q\<lparr>q_mcount := q_mcount q + 1\<rparr>) (xs @ [a])" by (auto simp: s)
  have "mblks h' b \<noteq> None" if "mblks h b \<noteq> None" for b
    using that same_but_links_dom [OF h'(2)] by blast
  with h' show ?case by (auto simp: s)
next
  case (2 s xs)
  then show ?case using getq_ok [of "snd s" "fst s" xs] by (cases s) fastforce
qed

end
