(* ===== verification/Msg_Properties.thy ===== *)
theory Msg_Properties
  imports Str_Queue
begin

text \<open>
  The properties of the message blocks and of the queues that the rest of the library rests on,
  stated over the operations of \<open>Str_Utils\<close> and \<open>Str_Queue\<close>, each with an instance on a small store.
\<close>

section \<open>A small store\<close>

text \<open>A message of two blocks at 16 and 160, three and one bytes long, and an empty queue whose stopper is at 304.\<close>

definition demo_heap :: heap where
  "demo_heap = \<lparr>mblks = [16 \<mapsto> mblk_init\<lparr>b_cont := Some 160, b_datap := Some 96, b_rptr := 128, b_wptr := 131\<rparr>,
       160 \<mapsto> mblk_init\<lparr>b_datap := Some 240, b_rptr := 272, b_wptr := 273\<rparr>,
       304 \<mapsto> mblk_init\<lparr>b_next := Some 304, b_prev := Some 304\<rparr>],
     dblks = [96 \<mapsto> \<lparr>db_base = 128, db_buf = [1, 2, 3, 0], db_freefn = None, db_ref = 1\<rparr>,
       240 \<mapsto> \<lparr>db_base = 272, db_buf = [4, 0], db_freefn = None, db_ref = 1\<rparr>],
     brk = 400, freefn_calls = []\<rparr>"

definition demo_queue :: queue_t where
  "demo_queue = \<lparr>q_stopper = 304, q_mcount = 0\<rparr>"

lemma demo_refs: "refs demo_heap 96 = {16}" "refs demo_heap 240 = {160}"
  by (auto simp: refs_def demo_heap_def mblk_init_def split: if_splits)

lemma demo_heap_ok: "heap_ok demo_heap"
  unfolding heap_ok_def
proof (rule heap_invI)
  show "finite (dom (mblks demo_heap))" by (simp add: demo_heap_def)
  show "a < brk demo_heap \<and> ptrs_ok demo_heap m" if "mblks demo_heap a = Some m" for a m
    using that by (auto simp: demo_heap_def ptrs_ok_def db_lim_def mblk_init_def split: if_splits)
  show "d < brk demo_heap \<and> db_base db \<noteq> 0 \<and> db_ref db = int (card (refs demo_heap d) + 0) \<and> 0 < card (refs demo_heap d) + 0"
    if "dblks demo_heap d = Some db" for d db
  proof -
    have "d = 96 \<or> d = 240" using that by (auto simp: demo_heap_def split: if_splits)
    then show ?thesis using that by (elim disjE) (auto simp: demo_refs, auto simp: demo_heap_def)
  qed
qed simp

lemma demo_chain: "chain demo_heap (Some 16) [16, 160]" "chain demo_heap (Some 160) [160]"
  by (simp_all add: chain_Cons demo_heap_def mblk_init_def)

lemma demo_bytes: "msg_bytes demo_heap [16, 160] = [1, 2, 3, 4]"
  by (simp add: msg_bytes_def bytes_at_def block_bytes_def demo_heap_def mblk_init_def db_lim_def)

lemma demo_is_queue: "is_queue demo_heap demo_queue []"
  by (simp add: is_queue_def nxt_def prv_def demo_heap_def demo_queue_def mblk_init_def)

section \<open>Messages\<close>

text \<open>C22: freeing a message of a consistent store never touches freed memory, terminates, removes
  exactly the blocks of the message and leaves every reference count right, so a data block
  shared with another message survives.\<close>

theorem freemsg_frees_the_chain:
  assumes "heap_ok h" and "chain h p xs"
  shows "\<exists>h'. freemsg p h = Some h' \<and> heap_ok h' \<and> mblks h' = (mblks h) |` (- set xs) \<and> data_ext h h'"
  using freemsg_inv [OF assms(1) [unfolded heap_ok_def] assms(2)] by (auto simp: heap_ok_def)

theorem freemsg_frees_the_chain_witness:
  "\<exists>h'. freemsg (Some 16) demo_heap = Some h' \<and> heap_ok h' \<and> mblks h' = (mblks demo_heap) |` (- set [16, 160])
     \<and> data_ext demo_heap h'"
  by (rule freemsg_frees_the_chain [OF demo_heap_ok demo_chain(1)])

text \<open>\<open>dupmsg\<close> makes a second chain of the same length over the same data, and \<open>copymsg\<close> one over fresh data:
  both terminate without a fault on every consistent store, the new message has the bytes of the old one, its blocks
  are fresh, and the old message keeps its blocks and its bytes.\<close>

theorem message_duplicates:
  assumes "heap_ok h" and "chain h (Some a) xs"
  shows "(\<exists>q h' ys. dupmsg a h = Some (Some q, h') \<and> heap_ok h' \<and> chain h' (Some q) ys \<and> length ys = length xs
            \<and> msg_bytes h' ys = msg_bytes h xs \<and> mframe {} h h' \<and> data_ext h h' \<and> (\<forall>y \<in> set ys. brk h \<le> y))
    \<and> (\<exists>q h' ys. copymsg a h = Some (q, h') \<and> heap_ok h' \<and> chain h' (Some q) ys \<and> length ys = length xs
            \<and> msg_bytes h' ys = msg_bytes h xs \<and> mframe {} h h' \<and> data_ext h h' \<and> (\<forall>y \<in> set ys. brk h \<le> y))"
proof
  have inv: "heap_inv (\<lambda>_. 0) h" using assms(1) by (simp add: heap_ok_def)
  show "\<exists>q h' ys. dupmsg a h = Some (Some q, h') \<and> heap_ok h' \<and> chain h' (Some q) ys \<and> length ys = length xs
            \<and> msg_bytes h' ys = msg_bytes h xs \<and> mframe {} h h' \<and> data_ext h h' \<and> (\<forall>y \<in> set ys. brk h \<le> y)"
    using dupmsg_ok [OF inv assms(2)] unfolding heap_ok_def by blast
  show "\<exists>q h' ys. copymsg a h = Some (q, h') \<and> heap_ok h' \<and> chain h' (Some q) ys \<and> length ys = length xs
            \<and> msg_bytes h' ys = msg_bytes h xs \<and> mframe {} h h' \<and> data_ext h h' \<and> (\<forall>y \<in> set ys. brk h \<le> y)"
    using copymsg_ok [OF inv assms(2)] unfolding heap_ok_def by blast
qed

theorem message_duplicates_witness:
  "\<exists>q h' ys. copymsg 16 demo_heap = Some (q, h') \<and> heap_ok h' \<and> chain h' (Some q) ys \<and> msg_bytes h' ys = [1, 2, 3, 4]"
  using message_duplicates [OF demo_heap_ok demo_chain(1)] unfolding demo_bytes by blast

text \<open>Pulling up a whole message (\<open>msgpullup\<close> with length -1, the use of every caller in the
  library) leaves one block that holds the bytes of the chain in order, frees the other blocks, and
  changes no other message.\<close>

theorem msgpullup_keeps_the_bytes:
  assumes "heap_ok h" and "chain h (Some a) xs"
  shows "\<exists>h'. msgpullup a (-1) h = Some h' \<and> heap_ok h' \<and> chain h' (Some a) [a] \<and> bytes_at h' a = msg_bytes h xs
     \<and> (\<forall>b < brk h. b \<notin> set xs \<longrightarrow> mblks h' b = mblks h b \<and> bytes_at h' b = bytes_at h b)"
  using msgpullup_ok [OF assms(1) [unfolded heap_ok_def] assms(2)] unfolding heap_ok_def by blast

theorem msgpullup_keeps_the_bytes_witness:
  "\<exists>h'. msgpullup 16 (-1) demo_heap = Some h' \<and> heap_ok h' \<and> chain h' (Some 16) [16] \<and> bytes_at h' 16 = [1, 2, 3, 4]"
  using msgpullup_keeps_the_bytes [OF demo_heap_ok demo_chain(1)] unfolding demo_bytes by blast

text \<open>When the data and the padding do not fit in the block, \<open>appendb\<close> allocates a block for
  the data alone: the call stays inside the new block exactly when data and padding fit in the larger of the
  old block's size and the data's size; otherwise the padding is written behind the end of the block.\<close>

theorem appendb_overflows_by_the_padding:
  assumes "heap_ok h" and "mblks h a = Some m" and "b_datap m = Some d" and "dblks h d = Some db"
    and "\<not> append_fits m db data pad"
  shows "(appendb a data pad h \<noteq> None) =
     (length data + pad_count (b_wptr m + length data) pad \<le> max (length (db_buf db)) (length data))"
  using assms by (intro appendb_new_block) (simp_all add: heap_ok_def)

theorem appendb_overflows_by_the_padding_witness:
  "appendb 160 [7, 7] True demo_heap = None"
proof -
  let ?m = "mblk_init\<lparr>b_datap := Some 240, b_rptr := 272, b_wptr := 273\<rparr>"
  let ?db = "\<lparr>db_base = 272, db_buf = [4, 0], db_freefn = None, db_ref = 1\<rparr>"
  have "\<not> append_fits ?m ?db [7, 7] True" by (simp add: append_fits_def db_lim_def pad_count_def)
  then have "(appendb 160 [7, 7] True demo_heap \<noteq> None) =
     (length [7 :: u8, 7] + pad_count (b_wptr ?m + length [7 :: u8, 7]) True \<le> max (length (db_buf ?db)) (length [7 :: u8, 7]))"
    by (intro appendb_overflows_by_the_padding [OF demo_heap_ok, where d = 240]) (simp_all add: demo_heap_def)
  then show ?thesis by (cases "appendb 160 [7, 7] True demo_heap") (simp_all add: pad_count_def)
qed

section \<open>Queues\<close>

text \<open>C23: a run of \<open>putq\<close> on an empty queue followed by as many \<open>getq\<close> returns the messages in the order
  in which they were put, and the queue is empty again, with its count at zero and its links closed.\<close>

theorem putq_getq_in_order:
  assumes "is_queue h q []" and "\<forall>a \<in> set as. mblks h a \<noteq> None \<and> a \<noteq> q_stopper q" and "distinct as"
  shows "\<exists>s1 q2 h2. put_all putq as (q, h) = Some s1 \<and> get_n getq (length as) s1 = Some (map Some as, (q2, h2))
     \<and> is_queue h2 q2 []"
proof -
  have "\<exists>s1 s2. put_all putq as (q, h) = Some s1 \<and> get_n getq (length as) s1 = Some (map Some as, s2)
      \<and> (case s2 of (q, h) \<Rightarrow> is_queue h q [])"
    using strq.fifo_order [of "(q, h)" as] assms by auto
  then show ?thesis by (auto split: prod.splits)
qed

theorem putq_getq_in_order_witness:
  "\<exists>s1 q2 h2. put_all putq [160, 16] (demo_queue, demo_heap) = Some s1
     \<and> get_n getq 2 s1 = Some ([Some 160, Some 16], (q2, h2)) \<and> is_queue h2 q2 []"
proof -
  have "\<forall>a \<in> set [160, 16]. mblks demo_heap a \<noteq> None \<and> a \<noteq> q_stopper demo_queue"
    by (simp add: demo_heap_def demo_queue_def)
  from putq_getq_in_order [OF demo_is_queue this] show ?thesis by (simp add: numeral_2_eq_2)
qed

text \<open>Flushing a queue of messages frees every block of every message in it and nothing else.\<close>

theorem flushq_frees_the_messages:
  assumes "heap_ok h" and "queued_msgs h q xs cs"
  shows "\<exists>q' h'. flushq (q, h) = Some (q', h') \<and> heap_ok h' \<and> is_queue h' q' []
     \<and> dom (mblks h') = dom (mblks h) - set (concat cs)"
  using flushq_ok [OF assms(1) [unfolded heap_ok_def] assms(2)] unfolding heap_ok_def by blast

lemma demo_queued:
  "\<exists>q h. heap_ok h \<and> queued_msgs h q [16] [[16, 160]] \<and> mblks h 160 \<noteq> None"
proof -
  obtain h' where p: "putq 16 (demo_queue, demo_heap) = Some (demo_queue\<lparr>q_mcount := q_mcount demo_queue + 1\<rparr>, h')"
    "same_but_links demo_heap h'" "is_queue h' (demo_queue\<lparr>q_mcount := q_mcount demo_queue + 1\<rparr>) ([] @ [16])"
    using putq_ok [OF demo_is_queue, of 16] by (auto simp: demo_heap_def demo_queue_def)
  have "chain h' (Some 16) [16, 160]" by (rule same_but_links_chain [OF p(2) demo_chain(1)])
  moreover have "heap_ok h'" using same_but_links_inv [OF _ p(2)] demo_heap_ok unfolding heap_ok_def by blast
  moreover have "mblks h' 160 \<noteq> None" using same_but_links_dom [OF p(2)] by (auto simp: demo_heap_def)
  ultimately show ?thesis using p(3)
    by (intro exI [of _ "demo_queue\<lparr>q_mcount := q_mcount demo_queue + 1\<rparr>"] exI [of _ h'])
      (simp add: queued_msgs_def demo_queue_def)
qed

theorem flushq_frees_the_messages_witness:
  "\<exists>q h q' h'. heap_ok h \<and> mblks h 160 \<noteq> None \<and> flushq (q, h) = Some (q', h') \<and> mblks h' 160 = None"
proof -
  obtain q h where q: "heap_ok h" "queued_msgs h q [16] [[16, 160]]" "mblks h 160 \<noteq> None" using demo_queued by blast
  from flushq_frees_the_messages [OF q(1,2)] obtain q' h' where
    f: "flushq (q, h) = Some (q', h')" "dom (mblks h') = dom (mblks h) - set (concat [[16, 160]])" by blast
  have "160 \<notin> dom (mblks h')" using f(2) by simp
  then have "mblks h' 160 = None" by (simp add: domIff)
  with q f(1) show ?thesis by blast
qed

text \<open>The block allocator always returns a block with room for the requested size whose data
  block has two references only, the one of the caller and the one of the pool: no message handed out
  before still uses it.\<close>

theorem msgb_allocator_hands_out_unused:
  assumes "heap_ok h" and "is_queue h q xs" and "\<forall>y \<in> set xs. \<forall>m. mblks h y = Some m \<longrightarrow> b_datap m \<noteq> None"
  shows "\<exists>r q' h' xs' m. msgb_allocator_alloc sz (q, h) = Some (Some r, q', h') \<and> heap_ok h' \<and> is_queue h' q' xs'
     \<and> m \<in> set xs' \<and> owned_with h' m r sz \<and> (xs' = xs \<or> xs' = xs @ [m])"
  using msgb_allocator_alloc_ok [OF assms(1) [unfolded heap_ok_def] assms(2,3), of sz] unfolding heap_ok_def .

theorem msgb_allocator_hands_out_unused_witness:
  "\<exists>r q' h' xs' m. msgb_allocator_alloc 1500 (demo_queue, demo_heap) = Some (Some r, q', h') \<and> heap_ok h'
     \<and> is_queue h' q' xs' \<and> m \<in> set xs' \<and> owned_with h' m r 1500 \<and> (xs' = [] \<or> xs' = [] @ [m])"
  by (rule msgb_allocator_hands_out_unused [OF demo_heap_ok demo_is_queue]) simp

end
