(* ===== verification/Rtp_Profile.thy ===== *)
theory Rtp_Profile
  imports Conf_Prelude
begin

text \<open>
  Payload types and RTP profiles (\<open>ortp/src/payloadtype.c\<close>, \<open>ortp/src/rtpprofile.c\<close>): the table
  of 128 payload types, the searches by MIME type and by \<open>rtpmap\<close> line, and the \<open>rtpmap\<close> and
  \<open>fmtp\<close> strings. A NULL string or table entry is \<open>None\<close>; a search that would compare a NULL
  MIME type (undefined in C) returns \<open>None\<close>.
\<close>

section \<open>C strings and numbers\<close>

definition tolower :: "char \<Rightarrow> char" where
  "tolower c = (let n = of_char c :: nat in if 65 \<le> n \<and> n \<le> 90 then char_of (n + 32) else c)"

definition strcasecmp_eq :: "string \<Rightarrow> string \<Rightarrow> bool" where
  "strcasecmp_eq s t \<longleftrightarrow> map tolower s = map tolower t"

definition digit_char :: "nat \<Rightarrow> char" where
  "digit_char d = char_of (48 + d)"

fun show_nat :: "nat \<Rightarrow> string" where
  "show_nat n = (if n < 10 then [digit_char n] else show_nat (n div 10) @ [digit_char (n mod 10)])"

declare show_nat.simps [simp del]

definition show_int :: "int \<Rightarrow> string" where
  "show_int i = (if i < 0 then CHR ''-'' # show_nat (nat (- i)) else show_nat (nat i))"

definition is_digit :: "char \<Rightarrow> bool" where
  "is_digit c \<longleftrightarrow> 48 \<le> (of_char c :: nat) \<and> (of_char c :: nat) \<le> 57"

fun read_digits :: "nat \<Rightarrow> string \<Rightarrow> nat" where
  "read_digits acc [] = acc"
| "read_digits acc (c # cs) = (if is_digit c then read_digits (10 * acc + (of_char c - 48)) cs else acc)"

definition is_space :: "char \<Rightarrow> bool" where
  "is_space c \<longleftrightarrow> of_char c \<in> {9, 10, 11, 12, 13, 32 :: nat}"

definition atoi :: "string \<Rightarrow> int" where
  "atoi s = (case dropWhile is_space s of [] \<Rightarrow> 0
     | c # cs \<Rightarrow> if c = CHR ''-'' then - int (read_digits 0 cs)
                 else if c = CHR ''+'' then int (read_digits 0 cs)
                 else int (read_digits 0 (c # cs)))"

text \<open>\<open>strchr\<close> and \<open>strstr\<close> return the suffix of the string that starts at the match.\<close>

definition strchr :: "string \<Rightarrow> char \<Rightarrow> string option" where
  "strchr s c = (case dropWhile (\<lambda>x. x \<noteq> c) s of [] \<Rightarrow> None | t \<Rightarrow> Some t)"

fun strstr :: "string \<Rightarrow> string \<Rightarrow> string option" where
  "strstr [] p = (if p = [] then Some [] else None)"
| "strstr (c # s) p = (if take (length p) (c # s) = p then Some (c # s) else strstr s p)"

section \<open>Payload types\<close>

record PayloadType =
  pt_type :: int
  clock_rate :: int
  bits_per_sample :: int
  zero_pattern :: "bytes option"
  pattern_length :: int
  normal_bitrate :: int
  mime_type :: "string option"
  channels :: int
  recv_fmtp :: "string option"
  send_fmtp :: "string option"
  pt_flags :: u32
  user_data :: "nat option"

definition PAYLOAD_TYPE_ALLOCATED :: u32 where "PAYLOAD_TYPE_ALLOCATED = 1"
definition PAYLOAD_AUDIO_CONTINUOUS :: int where "PAYLOAD_AUDIO_CONTINUOUS = 0"
definition PAYLOAD_AUDIO_PACKETIZED :: int where "PAYLOAD_AUDIO_PACKETIZED = 1"
definition PAYLOAD_VIDEO :: int where "PAYLOAD_VIDEO = 2"
definition PAYLOAD_OTHER :: int where "PAYLOAD_OTHER = 3"
definition PAYLOAD_TEXT :: int where "PAYLOAD_TEXT = 4"

definition payload_type_get_rtpmap :: "PayloadType \<Rightarrow> string option" where
  "payload_type_get_rtpmap pt = (case mime_type pt of None \<Rightarrow> None
     | Some mime \<Rightarrow>
        let len = length mime + 15;
            s = (if 0 < channels pt
                 then mime @ ''/'' @ show_int (clock_rate pt) @ ''/'' @ show_int (channels pt)
                 else mime @ ''/'' @ show_int (clock_rate pt))
        in Some (take (len - 1) s))"

definition payload_type_new :: PayloadType where
  "payload_type_new = \<lparr>pt_type = 0, clock_rate = 0, bits_per_sample = 0, zero_pattern = None, pattern_length = 0,
     normal_bitrate = 0, mime_type = None, channels = 0, recv_fmtp = None, send_fmtp = None,
     pt_flags = 0 OR PAYLOAD_TYPE_ALLOCATED, user_data = None\<rparr>"

definition payload_type_clone :: "PayloadType \<Rightarrow> PayloadType" where
  "payload_type_clone payload = payload\<lparr>pt_flags := pt_flags payload OR PAYLOAD_TYPE_ALLOCATED\<rparr>"

definition canWrite :: "PayloadType \<Rightarrow> bool" where
  "canWrite pt = (pt_flags pt AND PAYLOAD_TYPE_ALLOCATED \<noteq> 0)"

definition payload_type_set_recv_fmtp :: "PayloadType \<Rightarrow> string option \<Rightarrow> PayloadType" where
  "payload_type_set_recv_fmtp pt fmtp = (if canWrite pt then pt\<lparr>recv_fmtp := fmtp\<rparr> else pt)"

definition payload_type_set_send_fmtp :: "PayloadType \<Rightarrow> string option \<Rightarrow> PayloadType" where
  "payload_type_set_send_fmtp pt fmtp = (if canWrite pt then pt\<lparr>send_fmtp := fmtp\<rparr> else pt)"

definition payload_type_append_recv_fmtp :: "PayloadType \<Rightarrow> string \<Rightarrow> PayloadType" where
  "payload_type_append_recv_fmtp pt fmtp = (if canWrite pt
     then (case recv_fmtp pt of None \<Rightarrow> pt\<lparr>recv_fmtp := Some fmtp\<rparr>
           | Some old \<Rightarrow> pt\<lparr>recv_fmtp := Some (old @ '';'' @ fmtp)\<rparr>)
     else pt)"

definition payload_type_append_send_fmtp :: "PayloadType \<Rightarrow> string \<Rightarrow> PayloadType" where
  "payload_type_append_send_fmtp pt fmtp = (if canWrite pt
     then (case send_fmtp pt of None \<Rightarrow> pt\<lparr>send_fmtp := Some fmtp\<rparr>
           | Some old \<Rightarrow> pt\<lparr>send_fmtp := Some (old @ '';'' @ fmtp)\<rparr>)
     else pt)"

text \<open>
  The result buffer of \<open>result_len\<close> bytes is returned as the C string it holds; with a buffer of no bytes
  \<open>result_len-1\<close> wraps around and a match is written behind the buffer, which is \<open>None\<close>.
\<close>

definition fmtp_get_value :: "string \<Rightarrow> string \<Rightarrow> nat \<Rightarrow> (bool \<times> string) option" where
  "fmtp_get_value fmtp param_name result_len =
    (case strstr fmtp param_name of
       None \<Rightarrow> Some (False, [])
     | Some pos \<Rightarrow>
        (case strchr pos (CHR ''='') of
           None \<Rightarrow> Some (False, [])
         | Some equal \<Rightarrow>
            if result_len = 0 then None
            else let value = takeWhile (\<lambda>c. c \<noteq> CHR '';'') (tl equal);
                     copied = min (result_len - 1) (length value)
                 in Some (True, take copied value)))"

section \<open>Profiles\<close>

definition RTP_PROFILE_MAX_PAYLOADS :: nat where "RTP_PROFILE_MAX_PAYLOADS = 128"

record RtpProfile =
  prof_name :: string
  payload :: "PayloadType option list"

definition rtp_profile_get_payload :: "RtpProfile \<Rightarrow> int \<Rightarrow> PayloadType option" where
  "rtp_profile_get_payload prof idx =
    (if idx < 0 \<or> int RTP_PROFILE_MAX_PAYLOADS \<le> idx then None else payload prof ! nat idx)"

text \<open>The loops over the table: the first index whose entry satisfies the test, or -1.\<close>

fun search_payload :: "(PayloadType \<Rightarrow> bool option) \<Rightarrow> nat \<Rightarrow> PayloadType option list \<Rightarrow> int option" where
  "search_payload test i [] = Some (-1)"
| "search_payload test i (None # ps) = search_payload test (Suc i) ps"
| "search_payload test i (Some pt # ps) = (case test pt of None \<Rightarrow> None
     | Some True \<Rightarrow> Some (int i) | Some False \<Rightarrow> search_payload test (Suc i) ps)"

definition rtp_profile_get_payload_number_from_mime :: "RtpProfile \<Rightarrow> string \<Rightarrow> int option" where
  "rtp_profile_get_payload_number_from_mime prof mime =
     search_payload (\<lambda>pt. map_option (\<lambda>m. strcasecmp_eq m mime) (mime_type pt)) 0
       (take RTP_PROFILE_MAX_PAYLOADS (payload prof))"

definition rtp_profile_find_payload_number :: "RtpProfile \<Rightarrow> string \<Rightarrow> int \<Rightarrow> int \<Rightarrow> int option" where
  "rtp_profile_find_payload_number prof mime rate chans =
     search_payload (\<lambda>pt. map_option (\<lambda>m. strcasecmp_eq m mime \<and> clock_rate pt = rate
          \<and> (channels pt = chans \<or> chans \<le> 0 \<or> channels pt \<le> 0)) (mime_type pt)) 0
       (take RTP_PROFILE_MAX_PAYLOADS (payload prof))"

text \<open>Splitting \<open>subtype/rate/channels\<close>; an empty part after a slash counts as absent.\<close>

definition split_slash :: "string \<Rightarrow> string \<times> string option" where
  "split_slash s = (let t = dropWhile (\<lambda>c. c \<noteq> CHR ''/'') s
     in if 1 < length t then (takeWhile (\<lambda>c. c \<noteq> CHR ''/'') s, Some (tl t)) else (s, None))"

definition rtp_profile_get_payload_number_from_rtpmap :: "RtpProfile \<Rightarrow> string \<Rightarrow> int option" where
  "rtp_profile_get_payload_number_from_rtpmap prof rtpmap =
    (let (subtype, rate_str) = split_slash rtpmap;
         chan_str = (case rate_str of None \<Rightarrow> None | Some r \<Rightarrow> snd (split_slash r));
         rate = (case rate_str of None \<Rightarrow> 8000 | Some r \<Rightarrow> atoi (fst (split_slash r)));
         chans = (case chan_str of None \<Rightarrow> -1 | Some c \<Rightarrow> atoi c)
     in rtp_profile_find_payload_number prof subtype rate chans)"

definition rtp_profile_find_payload :: "RtpProfile \<Rightarrow> string \<Rightarrow> int \<Rightarrow> int \<Rightarrow> PayloadType option option" where
  "rtp_profile_find_payload prof mime rate chans =
     map_option (\<lambda>i. if 0 \<le> i then rtp_profile_get_payload prof i else None)
       (rtp_profile_find_payload_number prof mime rate chans)"

definition rtp_profile_get_payload_from_mime :: "RtpProfile \<Rightarrow> string \<Rightarrow> PayloadType option option" where
  "rtp_profile_get_payload_from_mime prof mime =
     map_option (\<lambda>pt. if pt = -1 then None else rtp_profile_get_payload prof pt)
       (rtp_profile_get_payload_number_from_mime prof mime)"

definition rtp_profile_get_payload_from_rtpmap :: "RtpProfile \<Rightarrow> string \<Rightarrow> PayloadType option option" where
  "rtp_profile_get_payload_from_rtpmap prof rtpmap =
     map_option (\<lambda>pt. if pt = -1 then None else rtp_profile_get_payload prof pt)
       (rtp_profile_get_payload_number_from_rtpmap prof rtpmap)"

definition rtp_profile_move_payload :: "RtpProfile \<Rightarrow> int \<Rightarrow> int \<Rightarrow> RtpProfile option" where
  "rtp_profile_move_payload prof oldpos newpos =
    (if 0 \<le> oldpos \<and> oldpos < int RTP_PROFILE_MAX_PAYLOADS \<and> 0 \<le> newpos \<and> newpos < int RTP_PROFILE_MAX_PAYLOADS
     then Some (prof\<lparr>payload := (payload prof)[nat newpos := payload prof ! nat oldpos, nat oldpos := None]\<rparr>)
     else None)"

definition rtp_profile_new :: "string \<Rightarrow> RtpProfile" where
  "rtp_profile_new name = \<lparr>prof_name = name, payload = replicate RTP_PROFILE_MAX_PAYLOADS None\<rparr>"

definition rtp_profile_set_payload :: "RtpProfile \<Rightarrow> int \<Rightarrow> PayloadType option \<Rightarrow> RtpProfile" where
  "rtp_profile_set_payload prof idx pt =
    (if idx < 0 \<or> int RTP_PROFILE_MAX_PAYLOADS \<le> idx then prof
     else prof\<lparr>payload := (payload prof)[nat idx := pt]\<rparr>)"

definition rtp_profile_clear_all :: "RtpProfile \<Rightarrow> RtpProfile" where
  "rtp_profile_clear_all prof = prof\<lparr>payload := map (\<lambda>_. None) (payload prof)\<rparr>"

definition rtp_profile_set_name :: "RtpProfile \<Rightarrow> string \<Rightarrow> RtpProfile" where
  "rtp_profile_set_name prof name = prof\<lparr>prof_name := name\<rparr>"

fun clone_loop :: "(PayloadType \<Rightarrow> PayloadType) \<Rightarrow> RtpProfile \<Rightarrow> nat list \<Rightarrow> RtpProfile \<Rightarrow> RtpProfile" where
  "clone_loop f prof [] newprof = newprof"
| "clone_loop f prof (i # is) newprof =
     (case rtp_profile_get_payload prof (int i) of
        None \<Rightarrow> clone_loop f prof is newprof
      | Some pt \<Rightarrow> clone_loop f prof is (rtp_profile_set_payload newprof (int i) (Some (f pt))))"

definition rtp_profile_clone :: "RtpProfile \<Rightarrow> RtpProfile" where
  "rtp_profile_clone prof = clone_loop (\<lambda>pt. pt) prof [0..<RTP_PROFILE_MAX_PAYLOADS] (rtp_profile_new (prof_name prof))"

definition rtp_profile_clone_full :: "RtpProfile \<Rightarrow> RtpProfile" where
  "rtp_profile_clone_full prof =
     clone_loop payload_type_clone prof [0..<RTP_PROFILE_MAX_PAYLOADS] (rtp_profile_new (prof_name prof))"

text \<open>The payload types that \<open>rtp_profile_destroy\<close> frees with the profile: those that were allocated.\<close>

definition rtp_profile_destroy :: "RtpProfile \<Rightarrow> PayloadType list" where
  "rtp_profile_destroy prof = filter (\<lambda>pt. pt_flags pt AND PAYLOAD_TYPE_ALLOCATED \<noteq> 0)
     (concat (map (\<lambda>i. case rtp_profile_get_payload prof (int i) of None \<Rightarrow> [] | Some pt \<Rightarrow> [pt])
        [0..<RTP_PROFILE_MAX_PAYLOADS]))"

section \<open>Lemmas\<close>

definition profile_ok :: "RtpProfile \<Rightarrow> bool" where
  "profile_ok prof \<longleftrightarrow> length (payload prof) = RTP_PROFILE_MAX_PAYLOADS"

lemma profile_ok_ops [simp]:
  "profile_ok (rtp_profile_new name)"
  "profile_ok prof \<Longrightarrow> profile_ok (rtp_profile_set_payload prof i pt)"
  "profile_ok prof \<Longrightarrow> profile_ok (rtp_profile_clear_all prof)"
  "profile_ok prof \<Longrightarrow> profile_ok (rtp_profile_set_name prof name)"
  by (simp_all add: profile_ok_def rtp_profile_new_def rtp_profile_set_payload_def rtp_profile_clear_all_def
      rtp_profile_set_name_def)

lemma get_set_payload:
  "profile_ok prof \<Longrightarrow> rtp_profile_get_payload (rtp_profile_set_payload prof i pt) j =
     (if i = j \<and> 0 \<le> i \<and> i < 128 then pt else rtp_profile_get_payload prof j)"
  by (auto simp: profile_ok_def rtp_profile_get_payload_def rtp_profile_set_payload_def
      RTP_PROFILE_MAX_PAYLOADS_def nth_list_update nat_eq_iff2)

lemma clone_loop_ok: "profile_ok new \<Longrightarrow> profile_ok (clone_loop f prof is new)"
  by (induction f prof "is" new rule: clone_loop.induct) (auto split: option.splits)

lemma clone_loop_get:
  "profile_ok new \<Longrightarrow> distinct is \<Longrightarrow> \<forall>i \<in> set is. i < 128 \<Longrightarrow>
   rtp_profile_get_payload (clone_loop f prof is new) j =
     (if 0 \<le> j \<and> nat j \<in> set is \<and> rtp_profile_get_payload prof j \<noteq> None
      then map_option f (rtp_profile_get_payload prof j) else rtp_profile_get_payload new j)"
proof (induction "is" arbitrary: new)
  case (Cons i "is")
  have IH: "rtp_profile_get_payload (clone_loop f prof is n) j =
     (if 0 \<le> j \<and> nat j \<in> set is \<and> rtp_profile_get_payload prof j \<noteq> None
      then map_option f (rtp_profile_get_payload prof j) else rtp_profile_get_payload n j)"
    if "profile_ok n" for n using Cons that by simp
  show ?case
  proof (cases "rtp_profile_get_payload prof (int i)")
    case None
    then show ?thesis using IH [OF Cons.prems(1)] by auto
  next
    case (Some pt)
    then show ?thesis
      using IH [OF profile_ok_ops(2) [OF Cons.prems(1)]] Cons.prems
      by (auto simp: get_set_payload)
  qed
qed simp

text \<open>\<open>hit\<close>: entry \<open>k\<close> is the first one of the table that passes the test.\<close>

definition hit :: "(PayloadType \<Rightarrow> bool option) \<Rightarrow> PayloadType option list \<Rightarrow> nat \<Rightarrow> bool" where
  "hit test ps k \<longleftrightarrow> k < length ps \<and> (\<exists>pt. ps ! k = Some pt \<and> test pt = Some True)
     \<and> (\<forall>l < k. \<forall>p. ps ! l = Some p \<longrightarrow> test p = Some False)"

lemma hit_Suc: "(\<And>p. x = Some p \<Longrightarrow> test p = Some False) \<Longrightarrow> hit test ps k \<Longrightarrow> hit test (x # ps) (Suc k)"
  by (auto simp: hit_def less_Suc_eq_0_disj)

lemma search_payload_total:
  assumes "\<forall>pt. Some pt \<in> set ps \<longrightarrow> test pt \<noteq> None"
  shows "search_payload test i ps = Some (-1) \<and> (\<forall>pt. Some pt \<in> set ps \<longrightarrow> test pt = Some False)
    \<or> (\<exists>k. search_payload test i ps = Some (int (i + k)) \<and> hit test ps k)"
  using assms
proof (induction ps arbitrary: i)
  case (Cons x ps)
  show ?case
  proof (cases x)
    case None
    with Cons.IH [of "Suc i"] Cons.prems show ?thesis
      by (auto dest: hit_Suc [of None, rotated] intro: exI [of _ "Suc _"])
  next
    case (Some pt)
    with Cons.prems obtain b where b: "test pt = Some b" by auto
    show ?thesis
    proof (cases b)
      case True
      then show ?thesis using Some b by (intro disjI2 exI [of _ 0]) (simp add: hit_def)
    next
      case False
      with Some b Cons.IH [of "Suc i"] Cons.prems show ?thesis
        by (auto dest: hit_Suc [of "Some pt", rotated] intro: exI [of _ "Suc _"])
    qed
  qed
qed simp

lemma search_payload_hit:
  assumes "\<forall>pt. Some pt \<in> set ps \<longrightarrow> test pt \<noteq> None" "i < length ps" "ps ! i = Some pt" "test pt = Some True"
  shows "\<exists>k \<le> i. search_payload test 0 ps = Some (int k) \<and> hit test ps k"
proof -
  have "Some pt \<in> set ps" using assms(2,3) by (metis nth_mem)
  with search_payload_total [OF assms(1), of 0] assms(4) obtain k where
    k: "search_payload test 0 ps = Some (int k)" "hit test ps k" by auto
  have "k \<le> i" using k(2) assms(3,4) unfolding hit_def by (metis not_le_imp_less option.inject)
  with k show ?thesis by blast
qed

subsection \<open>Decimal numbers\<close>

lemma digit_char_props:
  "d < 10 \<Longrightarrow> is_digit (digit_char d)" "d < 10 \<Longrightarrow> of_char (digit_char d) = 48 + d"
  by (simp_all add: is_digit_def digit_char_def)

lemma read_digits_show: "read_digits acc (show_nat n @ r) = read_digits (acc * 10 ^ length (show_nat n) + n) r"
proof (induction n arbitrary: acc r rule: show_nat.induct)
  case (1 n)
  show ?case
  proof (cases "n < 10")
    case True
    then show ?thesis by (subst (1 2) show_nat.simps) (simp add: digit_char_props algebra_simps)
  next
    case False
    have e: "show_nat n = show_nat (n div 10) @ [digit_char (n mod 10)]"
      using False by (subst show_nat.simps) simp
    have "read_digits acc (show_nat n @ r)
        = read_digits (acc * 10 ^ length (show_nat (n div 10)) + n div 10) (digit_char (n mod 10) # r)"
      unfolding e using "1.IH" [OF False, of acc "digit_char (n mod 10) # r"] by simp
    also have "\<dots> = read_digits (acc * 10 ^ length (show_nat n) + n) r"
      by (simp add: digit_char_props e algebra_simps)
    finally show ?thesis .
  qed
qed

lemma show_nat_digits: "c \<in> set (show_nat n) \<Longrightarrow> is_digit c"
proof (induction n rule: show_nat.induct)
  case (1 n)
  then show ?case
    using show_nat.simps [of n] by (cases "n < 10") (auto simp: digit_char_props)
qed

lemma digit_not: "is_digit c \<Longrightarrow> c \<noteq> CHR ''/'' \<and> c \<noteq> CHR ''-'' \<and> c \<noteq> CHR ''+'' \<and> \<not> is_space c"
  by (auto simp: is_digit_def is_space_def)

lemma show_nat_ne: "show_nat n \<noteq> []"
  by (subst show_nat.simps) simp

lemma atoi_show_int: "0 \<le> i \<Longrightarrow> atoi (show_int i) = i"
proof -
  assume i: "0 \<le> i"
  obtain c cs where s: "show_nat (nat i) = c # cs" using show_nat_ne by (meson list.exhaust)
  have "is_digit c" using show_nat_digits [of c "nat i"] s by simp
  moreover have "read_digits 0 (c # cs) = nat i" using read_digits_show [of 0 "nat i" "[]"] s by simp
  ultimately show ?thesis using i s digit_not [of c] by (simp add: atoi_def show_int_def)
qed

lemma split_slash_at:
  "CHR ''/'' \<notin> set s \<Longrightarrow> t \<noteq> [] \<Longrightarrow> split_slash (s @ CHR ''/'' # t) = (s, Some t)"
  "CHR ''/'' \<notin> set s \<Longrightarrow> split_slash s = (s, None)"
proof -
  show "CHR ''/'' \<notin> set s \<Longrightarrow> t \<noteq> [] \<Longrightarrow> split_slash (s @ CHR ''/'' # t) = (s, Some t)"
    by (induction s) (auto simp: split_slash_def Let_def split: if_splits)
  assume "CHR ''/'' \<notin> set s"
  then show "split_slash s = (s, None)" by (induction s) (auto simp: split_slash_def Let_def)
qed

lemma show_int_props: "0 \<le> i \<Longrightarrow> CHR ''/'' \<notin> set (show_int i) \<and> show_int i \<noteq> []"
  using show_nat_digits digit_not show_nat_ne by (auto simp: show_int_def)

lemma rtpmap_parse:
  assumes "CHR ''/'' \<notin> set mime" "0 \<le> rate"
  shows "rtp_profile_get_payload_number_from_rtpmap prof (mime @ ''/'' @ show_int rate)
      = rtp_profile_find_payload_number prof mime rate (-1)"
    and "0 \<le> ch \<Longrightarrow> rtp_profile_get_payload_number_from_rtpmap prof (mime @ ''/'' @ show_int rate @ ''/'' @ show_int ch)
      = rtp_profile_find_payload_number prof mime rate ch"
  using assms show_int_props [of rate] show_int_props [of ch]
  by (simp_all add: rtp_profile_get_payload_number_from_rtpmap_def split_slash_at atoi_show_int)


lemma rtpmap_found:
  assumes "profile_ok prof" "i < 128" "payload prof ! i = Some pt" "mime_type pt = Some mime"
    and "CHR ''/'' \<notin> set mime" "0 \<le> clock_rate pt"
    and "\<forall>p. Some p \<in> set (payload prof) \<longrightarrow> mime_type p \<noteq> None"
    and "length (show_int (clock_rate pt)) + length (show_int (channels pt)) \<le> 12"
  shows "\<exists>line k p m. payload_type_get_rtpmap pt = Some line
     \<and> rtp_profile_get_payload_number_from_rtpmap prof line = Some (int k) \<and> k \<le> i
     \<and> rtp_profile_get_payload prof (int k) = Some p \<and> mime_type p = Some m
     \<and> strcasecmp_eq m mime \<and> clock_rate p = clock_rate pt
     \<and> (channels p = channels pt \<or> channels pt \<le> 0 \<or> channels p \<le> 0)"
proof -
  let ?ch = "if 0 < channels pt then channels pt else -1"
  let ?line = "if 0 < channels pt then mime @ ''/'' @ show_int (clock_rate pt) @ ''/'' @ show_int (channels pt)
                 else mime @ ''/'' @ show_int (clock_rate pt)"
  have line: "payload_type_get_rtpmap pt = Some ?line"
    using assms(4,8) by (auto simp: payload_type_get_rtpmap_def Let_def)
  let ?test = "\<lambda>p. map_option (\<lambda>m. strcasecmp_eq m mime \<and> clock_rate p = clock_rate pt
          \<and> (channels p = ?ch \<or> ?ch \<le> 0 \<or> channels p \<le> 0)) (mime_type p)"
  have len: "length (payload prof) = 128" using assms(1) by (simp add: profile_ok_def RTP_PROFILE_MAX_PAYLOADS_def)
  have parse: "rtp_profile_get_payload_number_from_rtpmap prof ?line = search_payload ?test 0 (payload prof)"
    using rtpmap_parse [OF assms(5,6)] len
    by (auto simp: rtp_profile_find_payload_number_def RTP_PROFILE_MAX_PAYLOADS_def)
  have "?test pt = Some True" using assms(4) by (simp add: strcasecmp_eq_def)
  with search_payload_hit [of "payload prof" ?test i pt] assms(2,3,7) len obtain k where
    k: "k \<le> i" "search_payload ?test 0 (payload prof) = Some (int k)" "hit ?test (payload prof) k" by auto
  then obtain p m where p: "payload prof ! k = Some p" "mime_type p = Some m" "strcasecmp_eq m mime"
     "clock_rate p = clock_rate pt" "channels p = ?ch \<or> ?ch \<le> 0 \<or> channels p \<le> 0"
    by (auto simp: hit_def)
  have "rtp_profile_get_payload prof (int k) = Some p"
    using p(1) k(1) assms(2) by (simp add: rtp_profile_get_payload_def RTP_PROFILE_MAX_PAYLOADS_def)
  moreover have "channels p = channels pt \<or> channels pt \<le> 0 \<or> channels p \<le> 0"
    using p(5) by (auto split: if_splits)
  moreover have "rtp_profile_get_payload_number_from_rtpmap prof ?line = Some (int k)"
    using parse k(2) by (simp only:)
  ultimately show ?thesis using line k(1) p(2-4) by blast
qed

section \<open>Properties\<close>

text \<open>
  The rtpmap line that \<open>payload_type_get_rtpmap\<close> prints for a payload type of the profile is
  found again by \<open>rtp_profile_get_payload_number_from_rtpmap\<close>: the search returns the lowest table
  index that holds a payload type with the same MIME type (up to case), clock rate and channels.
\<close>

theorem rtpmap_roundtrip:
  assumes "profile_ok prof" "i < 128" "payload prof ! i = Some pt" "mime_type pt = Some mime"
    and "CHR ''/'' \<notin> set mime" "0 \<le> clock_rate pt"
    and "\<forall>p. Some p \<in> set (payload prof) \<longrightarrow> mime_type p \<noteq> None"
    and "length (show_int (clock_rate pt)) + length (show_int (channels pt)) \<le> 12"
  shows "\<exists>line k p m. payload_type_get_rtpmap pt = Some line
     \<and> rtp_profile_get_payload_number_from_rtpmap prof line = Some (int k) \<and> k \<le> i
     \<and> rtp_profile_get_payload prof (int k) = Some p \<and> mime_type p = Some m
     \<and> strcasecmp_eq m mime \<and> clock_rate p = clock_rate pt
     \<and> (channels p = channels pt \<or> channels pt \<le> 0 \<or> channels p \<le> 0)"
  by (rule rtpmap_found [OF assms])

definition pcmu_example :: PayloadType where
  "pcmu_example = payload_type_new\<lparr>mime_type := Some ''PCMU'', clock_rate := 8000, channels := 1\<rparr>"

theorem rtpmap_roundtrip_witness:
  "\<exists>line k p m. payload_type_get_rtpmap pcmu_example = Some line
     \<and> rtp_profile_get_payload_number_from_rtpmap
         (rtp_profile_set_payload (rtp_profile_new ''av'') 3 (Some pcmu_example)) line = Some (int k) \<and> k \<le> 3
     \<and> rtp_profile_get_payload (rtp_profile_set_payload (rtp_profile_new ''av'') 3 (Some pcmu_example)) (int k) = Some p
     \<and> mime_type p = Some m \<and> strcasecmp_eq m ''PCMU'' \<and> clock_rate p = clock_rate pcmu_example
     \<and> (channels p = channels pcmu_example \<or> channels pcmu_example \<le> 0 \<or> channels p \<le> 0)"
proof (rule rtpmap_roundtrip)
  let ?p = "rtp_profile_set_payload (rtp_profile_new ''av'') 3 (Some pcmu_example)"
  show "payload ?p ! 3 = Some pcmu_example"
    by (simp add: rtp_profile_set_payload_def rtp_profile_new_def RTP_PROFILE_MAX_PAYLOADS_def)
  have "set (payload ?p) \<subseteq> {None, Some pcmu_example}"
    using set_update_subset_insert [of "replicate 128 None" 3 "Some pcmu_example"]
    by (auto simp: rtp_profile_set_payload_def rtp_profile_new_def RTP_PROFILE_MAX_PAYLOADS_def)
  then show "\<forall>p. Some p \<in> set (payload ?p) \<longrightarrow> mime_type p \<noteq> None" by (auto simp: pcmu_example_def)
  show "length (show_int (clock_rate pcmu_example)) + length (show_int (channels pcmu_example)) \<le> 12"
    by (simp add: pcmu_example_def show_int_def show_nat.simps)
qed (simp_all add: pcmu_example_def payload_type_new_def)

text \<open>
  A full clone of a profile has, at every payload number, a clone of the payload type of the
  original, marked as allocated so that its parameters may be changed, and nothing elsewhere.
\<close>

theorem clone_full_payloads:
  "rtp_profile_get_payload (rtp_profile_clone_full prof) j
     = map_option payload_type_clone (rtp_profile_get_payload prof j)"
proof -
  have "rtp_profile_get_payload (rtp_profile_clone_full prof) j =
     (if 0 \<le> j \<and> nat j \<in> set [0..<128] \<and> rtp_profile_get_payload prof j \<noteq> None
      then map_option payload_type_clone (rtp_profile_get_payload prof j)
      else rtp_profile_get_payload (rtp_profile_new (prof_name prof)) j)"
    unfolding rtp_profile_clone_full_def RTP_PROFILE_MAX_PAYLOADS_def by (rule clone_loop_get) auto
  then show ?thesis
    by (auto simp: rtp_profile_get_payload_def rtp_profile_new_def RTP_PROFILE_MAX_PAYLOADS_def)
qed

text \<open>
  \<open>fmtp_get_value\<close> looks for the parameter name anywhere in the line, so it returns the value of
  another parameter whose name ends with the one asked for.
\<close>

theorem fmtp_get_value_matches_suffix:
  "fmtp_get_value ''packetization-mode=1;mode=30'' ''mode'' 10 = Some (True, ''1'')"
  by (simp add: fmtp_get_value_def strchr_def)

end
