(* ===== verification/Av_Profile.thy ===== *)
theory Av_Profile
  imports Rtp_Profile
begin

text \<open>
  The payload types that \<open>ortp/src/avprofile.c\<close> defines statically and the AV profile (RFC 3551) that
  \<open>av_profile_init\<close> builds from them. A tagged field that the initialiser leaves out is zero or NULL.
\<close>

section \<open>Payload types\<close>

definition payload_type_pcmu8000 :: PayloadType where
  "payload_type_pcmu8000 = \<lparr>pt_type = PAYLOAD_AUDIO_CONTINUOUS, clock_rate = 8000, bits_per_sample = 8,
     zero_pattern = Some [127], pattern_length = 1, normal_bitrate = 64000,
     mime_type = Some ''PCMU'', channels = 1, recv_fmtp = None, send_fmtp = None, pt_flags = 0, user_data = None\<rparr>"

definition payload_type_pcma8000 :: PayloadType where
  "payload_type_pcma8000 = \<lparr>pt_type = PAYLOAD_AUDIO_CONTINUOUS, clock_rate = 8000, bits_per_sample = 8,
     zero_pattern = Some [0xD5], pattern_length = 1, normal_bitrate = 64000,
     mime_type = Some ''PCMA'', channels = 1, recv_fmtp = None, send_fmtp = None, pt_flags = 0, user_data = None\<rparr>"

definition payload_type_pcm8000 :: PayloadType where
  "payload_type_pcm8000 = \<lparr>pt_type = PAYLOAD_AUDIO_CONTINUOUS, clock_rate = 8000, bits_per_sample = 16,
     zero_pattern = Some [0, 0, 0, 0], pattern_length = 1, normal_bitrate = 128000,
     mime_type = Some ''PCM'', channels = 1, recv_fmtp = None, send_fmtp = None, pt_flags = 0, user_data = None\<rparr>"

definition payload_type_l16_mono :: PayloadType where
  "payload_type_l16_mono = \<lparr>pt_type = PAYLOAD_AUDIO_CONTINUOUS, clock_rate = 44100, bits_per_sample = 16,
     zero_pattern = Some [0, 0, 0, 0], pattern_length = 2, normal_bitrate = 705600,
     mime_type = Some ''L16'', channels = 1, recv_fmtp = None, send_fmtp = None, pt_flags = 0, user_data = None\<rparr>"

definition payload_type_l16_stereo :: PayloadType where
  "payload_type_l16_stereo = \<lparr>pt_type = PAYLOAD_AUDIO_CONTINUOUS, clock_rate = 44100, bits_per_sample = 32,
     zero_pattern = Some [0, 0, 0, 0], pattern_length = 4, normal_bitrate = 1411200,
     mime_type = Some ''L16'', channels = 2, recv_fmtp = None, send_fmtp = None, pt_flags = 0, user_data = None\<rparr>"

definition payload_type_lpc1016 :: PayloadType where
  "payload_type_lpc1016 = \<lparr>pt_type = PAYLOAD_AUDIO_PACKETIZED, clock_rate = 8000, bits_per_sample = 0,
     zero_pattern = None, pattern_length = 0, normal_bitrate = 2400,
     mime_type = Some ''1016'', channels = 1, recv_fmtp = None, send_fmtp = None, pt_flags = 0, user_data = None\<rparr>"

definition payload_type_gsm :: PayloadType where
  "payload_type_gsm = \<lparr>pt_type = PAYLOAD_AUDIO_PACKETIZED, clock_rate = 8000, bits_per_sample = 0,
     zero_pattern = None, pattern_length = 0, normal_bitrate = 13500,
     mime_type = Some ''GSM'', channels = 1, recv_fmtp = None, send_fmtp = None, pt_flags = 0, user_data = None\<rparr>"

definition payload_type_lpc :: PayloadType where
  "payload_type_lpc = \<lparr>pt_type = PAYLOAD_AUDIO_PACKETIZED, clock_rate = 8000, bits_per_sample = 0,
     zero_pattern = None, pattern_length = 0, normal_bitrate = 5600,
     mime_type = Some ''LPC'', channels = 1, recv_fmtp = None, send_fmtp = None, pt_flags = 0, user_data = None\<rparr>"

definition payload_type_g7231 :: PayloadType where
  "payload_type_g7231 = \<lparr>pt_type = PAYLOAD_AUDIO_PACKETIZED, clock_rate = 8000, bits_per_sample = 0,
     zero_pattern = None, pattern_length = 0, normal_bitrate = 6300,
     mime_type = Some ''G723'', channels = 1, recv_fmtp = None, send_fmtp = None, pt_flags = 0, user_data = None\<rparr>"

definition payload_type_g729 :: PayloadType where
  "payload_type_g729 = \<lparr>pt_type = PAYLOAD_AUDIO_PACKETIZED, clock_rate = 8000, bits_per_sample = 0,
     zero_pattern = None, pattern_length = 0, normal_bitrate = 8000,
     mime_type = Some ''G729'', channels = 1, recv_fmtp = None, send_fmtp = None, pt_flags = 0, user_data = None\<rparr>"

definition payload_type_g7221 :: PayloadType where
  "payload_type_g7221 = \<lparr>pt_type = PAYLOAD_AUDIO_PACKETIZED, clock_rate = 16000, bits_per_sample = 0,
     zero_pattern = None, pattern_length = 0, normal_bitrate = 24000,
     mime_type = Some ''G7221'', channels = 1, recv_fmtp = None, send_fmtp = None, pt_flags = 0, user_data = None\<rparr>"

definition payload_type_g726_40 :: PayloadType where
  "payload_type_g726_40 = \<lparr>pt_type = PAYLOAD_AUDIO_PACKETIZED, clock_rate = 8000, bits_per_sample = 0,
     zero_pattern = None, pattern_length = 0, normal_bitrate = 8000,
     mime_type = Some ''G726-40'', channels = 1, recv_fmtp = None, send_fmtp = None, pt_flags = 0, user_data = None\<rparr>"

definition payload_type_g726_32 :: PayloadType where
  "payload_type_g726_32 = \<lparr>pt_type = PAYLOAD_AUDIO_PACKETIZED, clock_rate = 8000, bits_per_sample = 0,
     zero_pattern = None, pattern_length = 0, normal_bitrate = 8000,
     mime_type = Some ''G726-32'', channels = 1, recv_fmtp = None, send_fmtp = None, pt_flags = 0, user_data = None\<rparr>"

definition payload_type_g726_24 :: PayloadType where
  "payload_type_g726_24 = \<lparr>pt_type = PAYLOAD_AUDIO_PACKETIZED, clock_rate = 8000, bits_per_sample = 0,
     zero_pattern = None, pattern_length = 0, normal_bitrate = 8000,
     mime_type = Some ''G726-24'', channels = 1, recv_fmtp = None, send_fmtp = None, pt_flags = 0, user_data = None\<rparr>"

definition payload_type_g726_16 :: PayloadType where
  "payload_type_g726_16 = \<lparr>pt_type = PAYLOAD_AUDIO_PACKETIZED, clock_rate = 8000, bits_per_sample = 0,
     zero_pattern = None, pattern_length = 0, normal_bitrate = 8000,
     mime_type = Some ''G726-16'', channels = 1, recv_fmtp = None, send_fmtp = None, pt_flags = 0, user_data = None\<rparr>"

definition payload_type_aal2_g726_40 :: PayloadType where
  "payload_type_aal2_g726_40 = \<lparr>pt_type = PAYLOAD_AUDIO_PACKETIZED, clock_rate = 8000, bits_per_sample = 0,
     zero_pattern = None, pattern_length = 0, normal_bitrate = 8000,
     mime_type = Some ''AAL2-G726-40'', channels = 1, recv_fmtp = None, send_fmtp = None, pt_flags = 0, user_data = None\<rparr>"

definition payload_type_aal2_g726_32 :: PayloadType where
  "payload_type_aal2_g726_32 = \<lparr>pt_type = PAYLOAD_AUDIO_PACKETIZED, clock_rate = 8000, bits_per_sample = 0,
     zero_pattern = None, pattern_length = 0, normal_bitrate = 8000,
     mime_type = Some ''AAL2-G726-32'', channels = 1, recv_fmtp = None, send_fmtp = None, pt_flags = 0, user_data = None\<rparr>"

definition payload_type_aal2_g726_24 :: PayloadType where
  "payload_type_aal2_g726_24 = \<lparr>pt_type = PAYLOAD_AUDIO_PACKETIZED, clock_rate = 8000, bits_per_sample = 0,
     zero_pattern = None, pattern_length = 0, normal_bitrate = 8000,
     mime_type = Some ''AAL2-G726-24'', channels = 1, recv_fmtp = None, send_fmtp = None, pt_flags = 0, user_data = None\<rparr>"

definition payload_type_aal2_g726_16 :: PayloadType where
  "payload_type_aal2_g726_16 = \<lparr>pt_type = PAYLOAD_AUDIO_PACKETIZED, clock_rate = 8000, bits_per_sample = 0,
     zero_pattern = None, pattern_length = 0, normal_bitrate = 8000,
     mime_type = Some ''AAL2-G726-16'', channels = 1, recv_fmtp = None, send_fmtp = None, pt_flags = 0, user_data = None\<rparr>"

definition payload_type_mpv :: PayloadType where
  "payload_type_mpv = \<lparr>pt_type = PAYLOAD_VIDEO, clock_rate = 90000, bits_per_sample = 0,
     zero_pattern = None, pattern_length = 0, normal_bitrate = 256000,
     mime_type = Some ''MPV'', channels = 0, recv_fmtp = None, send_fmtp = None, pt_flags = 0, user_data = None\<rparr>"

definition payload_type_h261 :: PayloadType where
  "payload_type_h261 = \<lparr>pt_type = PAYLOAD_VIDEO, clock_rate = 90000, bits_per_sample = 0,
     zero_pattern = None, pattern_length = 0, normal_bitrate = 0,
     mime_type = Some ''H261'', channels = 0, recv_fmtp = None, send_fmtp = None, pt_flags = 0, user_data = None\<rparr>"

definition payload_type_h263 :: PayloadType where
  "payload_type_h263 = \<lparr>pt_type = PAYLOAD_VIDEO, clock_rate = 90000, bits_per_sample = 0,
     zero_pattern = None, pattern_length = 0, normal_bitrate = 256000,
     mime_type = Some ''H263'', channels = 0, recv_fmtp = None, send_fmtp = None, pt_flags = 0, user_data = None\<rparr>"

definition payload_type_truespeech :: PayloadType where
  "payload_type_truespeech = \<lparr>pt_type = PAYLOAD_AUDIO_PACKETIZED, clock_rate = 8000, bits_per_sample = 0,
     zero_pattern = None, pattern_length = 0, normal_bitrate = 8536,
     mime_type = Some ''TSP0'', channels = 0, recv_fmtp = None, send_fmtp = None, pt_flags = 0, user_data = None\<rparr>"

definition payload_type_lpc1015 :: PayloadType where
  "payload_type_lpc1015 = \<lparr>pt_type = PAYLOAD_AUDIO_PACKETIZED, clock_rate = 8000, bits_per_sample = 0,
     zero_pattern = None, pattern_length = 0, normal_bitrate = 2400,
     mime_type = Some ''1015'', channels = 1, recv_fmtp = None, send_fmtp = None, pt_flags = 0, user_data = None\<rparr>"

definition payload_type_speex_nb :: PayloadType where
  "payload_type_speex_nb = \<lparr>pt_type = PAYLOAD_AUDIO_PACKETIZED, clock_rate = 8000, bits_per_sample = 0,
     zero_pattern = None, pattern_length = 0, normal_bitrate = 8000,
     mime_type = Some ''speex'', channels = 1, recv_fmtp = None, send_fmtp = None, pt_flags = 0, user_data = None\<rparr>"

definition payload_type_speex_wb :: PayloadType where
  "payload_type_speex_wb = \<lparr>pt_type = PAYLOAD_AUDIO_PACKETIZED, clock_rate = 16000, bits_per_sample = 0,
     zero_pattern = None, pattern_length = 0, normal_bitrate = 28000,
     mime_type = Some ''speex'', channels = 1, recv_fmtp = None, send_fmtp = None, pt_flags = 0, user_data = None\<rparr>"

definition payload_type_speex_uwb :: PayloadType where
  "payload_type_speex_uwb = \<lparr>pt_type = PAYLOAD_AUDIO_PACKETIZED, clock_rate = 32000, bits_per_sample = 0,
     zero_pattern = None, pattern_length = 0, normal_bitrate = 28000,
     mime_type = Some ''speex'', channels = 1, recv_fmtp = None, send_fmtp = None, pt_flags = 0, user_data = None\<rparr>"

definition payload_type_ilbc :: PayloadType where
  "payload_type_ilbc = \<lparr>pt_type = PAYLOAD_AUDIO_PACKETIZED, clock_rate = 8000, bits_per_sample = 0,
     zero_pattern = None, pattern_length = 0, normal_bitrate = 13300,
     mime_type = Some ''iLBC'', channels = 1, recv_fmtp = None, send_fmtp = None, pt_flags = 0, user_data = None\<rparr>"

definition payload_type_amr :: PayloadType where
  "payload_type_amr = \<lparr>pt_type = PAYLOAD_AUDIO_PACKETIZED, clock_rate = 8000, bits_per_sample = 0,
     zero_pattern = None, pattern_length = 0, normal_bitrate = 12200,
     mime_type = Some ''AMR'', channels = 1, recv_fmtp = None, send_fmtp = None, pt_flags = 0, user_data = None\<rparr>"

definition payload_type_amrwb :: PayloadType where
  "payload_type_amrwb = \<lparr>pt_type = PAYLOAD_AUDIO_PACKETIZED, clock_rate = 16000, bits_per_sample = 0,
     zero_pattern = None, pattern_length = 0, normal_bitrate = 23850,
     mime_type = Some ''AMR-WB'', channels = 1, recv_fmtp = None, send_fmtp = None, pt_flags = 0, user_data = None\<rparr>"

definition payload_type_mp4v :: PayloadType where
  "payload_type_mp4v = \<lparr>pt_type = PAYLOAD_VIDEO, clock_rate = 90000, bits_per_sample = 0,
     zero_pattern = None, pattern_length = 0, normal_bitrate = 0,
     mime_type = Some ''MP4V-ES'', channels = 0, recv_fmtp = None, send_fmtp = None, pt_flags = 0, user_data = None\<rparr>"

definition payload_type_evrc0 :: PayloadType where
  "payload_type_evrc0 = \<lparr>pt_type = PAYLOAD_AUDIO_PACKETIZED, clock_rate = 8000, bits_per_sample = 0,
     zero_pattern = None, pattern_length = 0, normal_bitrate = 0,
     mime_type = Some ''EVRC0'', channels = 1, recv_fmtp = None, send_fmtp = None, pt_flags = 0, user_data = None\<rparr>"

definition payload_type_evrcb0 :: PayloadType where
  "payload_type_evrcb0 = \<lparr>pt_type = PAYLOAD_AUDIO_PACKETIZED, clock_rate = 8000, bits_per_sample = 0,
     zero_pattern = None, pattern_length = 0, normal_bitrate = 0,
     mime_type = Some ''EVRCB0'', channels = 1, recv_fmtp = None, send_fmtp = None, pt_flags = 0, user_data = None\<rparr>"

definition payload_type_h263_1998 :: PayloadType where
  "payload_type_h263_1998 = \<lparr>pt_type = PAYLOAD_VIDEO, clock_rate = 90000, bits_per_sample = 0,
     zero_pattern = None, pattern_length = 0, normal_bitrate = 256000,
     mime_type = Some ''H263-1998'', channels = 0, recv_fmtp = None, send_fmtp = None, pt_flags = 0, user_data = None\<rparr>"

definition payload_type_h263_2000 :: PayloadType where
  "payload_type_h263_2000 = \<lparr>pt_type = PAYLOAD_VIDEO, clock_rate = 90000, bits_per_sample = 0,
     zero_pattern = None, pattern_length = 0, normal_bitrate = 0,
     mime_type = Some ''H263-2000'', channels = 0, recv_fmtp = None, send_fmtp = None, pt_flags = 0, user_data = None\<rparr>"

definition payload_type_theora :: PayloadType where
  "payload_type_theora = \<lparr>pt_type = PAYLOAD_VIDEO, clock_rate = 90000, bits_per_sample = 0,
     zero_pattern = None, pattern_length = 0, normal_bitrate = 256000,
     mime_type = Some ''theora'', channels = 0, recv_fmtp = None, send_fmtp = None, pt_flags = 0, user_data = None\<rparr>"

definition payload_type_h264 :: PayloadType where
  "payload_type_h264 = \<lparr>pt_type = PAYLOAD_VIDEO, clock_rate = 90000, bits_per_sample = 0,
     zero_pattern = None, pattern_length = 0, normal_bitrate = 256000,
     mime_type = Some ''H264'', channels = 0, recv_fmtp = None, send_fmtp = None, pt_flags = 0, user_data = None\<rparr>"

definition payload_type_x_snow :: PayloadType where
  "payload_type_x_snow = \<lparr>pt_type = PAYLOAD_VIDEO, clock_rate = 90000, bits_per_sample = 0,
     zero_pattern = None, pattern_length = 0, normal_bitrate = 256000,
     mime_type = Some ''x-snow'', channels = 0, recv_fmtp = None, send_fmtp = None, pt_flags = 0, user_data = None\<rparr>"

definition payload_type_jpeg :: PayloadType where
  "payload_type_jpeg = \<lparr>pt_type = PAYLOAD_VIDEO, clock_rate = 90000, bits_per_sample = 0,
     zero_pattern = None, pattern_length = 0, normal_bitrate = 256000,
     mime_type = Some ''JPEG'', channels = 0, recv_fmtp = None, send_fmtp = None, pt_flags = 0, user_data = None\<rparr>"

definition payload_type_vp8 :: PayloadType where
  "payload_type_vp8 = \<lparr>pt_type = PAYLOAD_VIDEO, clock_rate = 90000, bits_per_sample = 0,
     zero_pattern = None, pattern_length = 0, normal_bitrate = 256000,
     mime_type = Some ''VP8'', channels = 0, recv_fmtp = None, send_fmtp = None, pt_flags = 0, user_data = None\<rparr>"

definition payload_type_t140 :: PayloadType where
  "payload_type_t140 = \<lparr>pt_type = PAYLOAD_TEXT, clock_rate = 1000, bits_per_sample = 0,
     zero_pattern = None, pattern_length = 0, normal_bitrate = 0,
     mime_type = Some ''t140'', channels = 0, recv_fmtp = None, send_fmtp = None, pt_flags = 0, user_data = None\<rparr>"

definition payload_type_t140_red :: PayloadType where
  "payload_type_t140_red = \<lparr>pt_type = PAYLOAD_TEXT, clock_rate = 1000, bits_per_sample = 0,
     zero_pattern = None, pattern_length = 0, normal_bitrate = 0,
     mime_type = Some ''red'', channels = 0, recv_fmtp = None, send_fmtp = None, pt_flags = 0, user_data = None\<rparr>"

definition payload_type_x_udpftp :: PayloadType where
  "payload_type_x_udpftp = \<lparr>pt_type = PAYLOAD_AUDIO_PACKETIZED, clock_rate = 1000, bits_per_sample = 0,
     zero_pattern = None, pattern_length = 0, normal_bitrate = 0,
     mime_type = Some ''x-udpftp'', channels = 0, recv_fmtp = None, send_fmtp = None, pt_flags = 0, user_data = None\<rparr>"

definition payload_type_g722 :: PayloadType where
  "payload_type_g722 = \<lparr>pt_type = PAYLOAD_AUDIO_PACKETIZED, clock_rate = 8000, bits_per_sample = 0,
     zero_pattern = None, pattern_length = 0, normal_bitrate = 64000,
     mime_type = Some ''G722'', channels = 1, recv_fmtp = None, send_fmtp = None, pt_flags = 0, user_data = None\<rparr>"

definition payload_type_silk_nb :: PayloadType where
  "payload_type_silk_nb = \<lparr>pt_type = PAYLOAD_AUDIO_PACKETIZED, clock_rate = 8000, bits_per_sample = 0,
     zero_pattern = None, pattern_length = 0, normal_bitrate = 10000,
     mime_type = Some ''SILK'', channels = 1, recv_fmtp = None, send_fmtp = None, pt_flags = 0, user_data = None\<rparr>"

definition payload_type_silk_mb :: PayloadType where
  "payload_type_silk_mb = \<lparr>pt_type = PAYLOAD_AUDIO_PACKETIZED, clock_rate = 12000, bits_per_sample = 0,
     zero_pattern = None, pattern_length = 0, normal_bitrate = 15000,
     mime_type = Some ''SILK'', channels = 1, recv_fmtp = None, send_fmtp = None, pt_flags = 0, user_data = None\<rparr>"

definition payload_type_silk_wb :: PayloadType where
  "payload_type_silk_wb = \<lparr>pt_type = PAYLOAD_AUDIO_PACKETIZED, clock_rate = 16000, bits_per_sample = 0,
     zero_pattern = None, pattern_length = 0, normal_bitrate = 20000,
     mime_type = Some ''SILK'', channels = 1, recv_fmtp = None, send_fmtp = None, pt_flags = 0, user_data = None\<rparr>"

definition payload_type_silk_swb :: PayloadType where
  "payload_type_silk_swb = \<lparr>pt_type = PAYLOAD_AUDIO_PACKETIZED, clock_rate = 24000, bits_per_sample = 0,
     zero_pattern = None, pattern_length = 0, normal_bitrate = 30000,
     mime_type = Some ''SILK'', channels = 1, recv_fmtp = None, send_fmtp = None, pt_flags = 0, user_data = None\<rparr>"

section \<open>The profile\<close>

definition av_profile_init :: "RtpProfile \<Rightarrow> RtpProfile" where
  "av_profile_init profile =
    (let p = (rtp_profile_clear_all profile)\<lparr>prof_name := ''AV profile''\<rparr>;
         p = rtp_profile_set_payload p 0 (Some payload_type_pcmu8000);
         p = rtp_profile_set_payload p 1 (Some payload_type_lpc1016);
         p = rtp_profile_set_payload p 3 (Some payload_type_gsm);
         p = rtp_profile_set_payload p 7 (Some payload_type_lpc);
         p = rtp_profile_set_payload p 4 (Some payload_type_g7231);
         p = rtp_profile_set_payload p 8 (Some payload_type_pcma8000);
         p = rtp_profile_set_payload p 9 (Some payload_type_g722);
         p = rtp_profile_set_payload p 10 (Some payload_type_l16_stereo);
         p = rtp_profile_set_payload p 11 (Some payload_type_l16_mono);
         p = rtp_profile_set_payload p 18 (Some payload_type_g729);
         p = rtp_profile_set_payload p 31 (Some payload_type_h261);
         p = rtp_profile_set_payload p 32 (Some payload_type_mpv);
         p = rtp_profile_set_payload p 34 (Some payload_type_h263)
     in p)"

text \<open>The static assignments of RFC 3551, tables 4 and 5, that the profile supports.\<close>

definition av_table :: "(int \<times> PayloadType) list" where
  "av_table = [(0, payload_type_pcmu8000), (1, payload_type_lpc1016), (3, payload_type_gsm), (7, payload_type_lpc), (4, payload_type_g7231), (8, payload_type_pcma8000), (9, payload_type_g722), (10, payload_type_l16_stereo), (11, payload_type_l16_mono), (18, payload_type_g729), (31, payload_type_h261), (32, payload_type_mpv), (34, payload_type_h263)]"

lemma clear_all_get: "profile_ok prof \<Longrightarrow> rtp_profile_get_payload ((rtp_profile_clear_all prof)\<lparr>prof_name := n\<rparr>) j = None"
  by (auto simp: rtp_profile_get_payload_def rtp_profile_clear_all_def profile_ok_def)

lemma rename_ok [simp]: "profile_ok (prof\<lparr>prof_name := n\<rparr>) = profile_ok prof"
  by (simp add: profile_ok_def)

lemma av_profile_init_ok: "profile_ok prof \<Longrightarrow> profile_ok (av_profile_init prof)"
  by (simp add: av_profile_init_def)

lemma av_profile_init_get:
  "profile_ok prof \<Longrightarrow> rtp_profile_get_payload (av_profile_init prof) j = map_of av_table j"
  by (simp add: av_profile_init_def av_table_def get_set_payload clear_all_get)

text \<open>The test that the search by \<open>rtpmap\<close> applies, for the line printed for \<open>pt\<close>.\<close>

definition same_codec :: "PayloadType \<Rightarrow> PayloadType \<Rightarrow> bool" where
  "same_codec pt p \<longleftrightarrow> (case (mime_type pt, mime_type p) of (Some a, Some b) \<Rightarrow> strcasecmp_eq b a | _ \<Rightarrow> False)
     \<and> clock_rate p = clock_rate pt \<and> (channels p = channels pt \<or> channels pt \<le> 0 \<or> channels p \<le> 0)"

lemmas av_table_simps = av_table_def payload_type_pcmu8000_def payload_type_lpc1016_def payload_type_gsm_def payload_type_lpc_def payload_type_g7231_def payload_type_pcma8000_def payload_type_g722_def payload_type_l16_stereo_def payload_type_l16_mono_def payload_type_g729_def payload_type_h261_def payload_type_mpv_def payload_type_h263_def

lemma av_table_mime: "(i, pt) \<in> set av_table \<Longrightarrow> \<exists>m. mime_type pt = Some m \<and> CHR ''/'' \<notin> set m"
  by (auto simp: av_table_simps)

lemma show_nat_length: "n < 10 ^ k \<Longrightarrow> 0 < k \<Longrightarrow> length (show_nat n) \<le> k"
proof (induction k arbitrary: n)
  case (Suc k)
  then have "length (show_nat (n div 10)) \<le> k" if "\<not> n < 10"
    using that by (cases k) (auto simp: less_mult_imp_div_less)
  then show ?case by (subst show_nat.simps) auto
qed simp

lemma av_table_lines:
  "(i, pt) \<in> set av_table \<Longrightarrow> 0 \<le> i \<and> i < 128 \<and> 0 \<le> clock_rate pt
     \<and> length (show_int (clock_rate pt)) + length (show_int (channels pt)) \<le> 12"
proof -
  assume t: "(i, pt) \<in> set av_table"
  then have b: "0 \<le> i" "i < 128" "0 \<le> clock_rate pt" "clock_rate pt < 100000" "0 \<le> channels pt" "channels pt < 10"
    by (auto simp: av_table_simps)
  then have "length (show_nat (nat (clock_rate pt))) \<le> 5" "length (show_nat (nat (channels pt))) \<le> 1"
    by (auto intro!: show_nat_length)
  with b show ?thesis by (simp add: show_int_def)
qed

lemma av_table_distinct: "map_of av_table i = Some p \<longleftrightarrow> (i, p) \<in> set av_table"
  by (rule map_of_eq_Some_iff) (simp add: av_table_def)

lemma av_table_separates:
  "list_all (\<lambda>(i, pt). list_all (\<lambda>(k, p). same_codec pt p \<longrightarrow> k = i) av_table) av_table"
  by (simp add: av_table_simps same_codec_def strcasecmp_eq_def tolower_def Let_def char_of_eq_iff)

section \<open>Properties\<close>

text \<open>The AV profile holds exactly the static payload types of its table, and the \<open>rtpmap\<close> line
  printed for each of them leads back to its own number: no earlier entry of the profile answers to it, so the mono
  and the stereo L16 are told apart.\<close>

theorem av_profile_rtpmap:
  assumes "profile_ok prof" and "(i, pt) \<in> set av_table"
  shows "rtp_profile_get_payload (av_profile_init prof) i = Some pt
    \<and> (\<exists>line. payload_type_get_rtpmap pt = Some line
         \<and> rtp_profile_get_payload_number_from_rtpmap (av_profile_init prof) line = Some i)"
proof
  let ?p = "av_profile_init prof"
  have ok: "profile_ok ?p" by (rule av_profile_init_ok [OF assms(1)])
  then have len: "length (payload ?p) = 128" by (simp add: profile_ok_def RTP_PROFILE_MAX_PAYLOADS_def)
  have get: "rtp_profile_get_payload ?p j = Some p \<longleftrightarrow> (j, p) \<in> set av_table" for j p
    using av_profile_init_get [OF assms(1), of j] av_table_distinct by simp
  have nth: "payload ?p ! k = Some p \<longleftrightarrow> (int k, p) \<in> set av_table" if "k < 128" for k p
    using get [of "int k" p] that by (simp add: rtp_profile_get_payload_def RTP_PROFILE_MAX_PAYLOADS_def)
  have line: "0 \<le> i" "i < 128" "0 \<le> clock_rate pt"
     "length (show_int (clock_rate pt)) + length (show_int (channels pt)) \<le> 12"
    using av_table_lines [OF assms(2)] by auto
  obtain mime where m: "mime_type pt = Some mime" "CHR ''/'' \<notin> set mime" using av_table_mime [OF assms(2)] by auto
  show "rtp_profile_get_payload ?p i = Some pt" using get assms(2) by simp
  have "\<forall>p. Some p \<in> set (payload ?p) \<longrightarrow> mime_type p \<noteq> None"
    using nth av_table_mime len by (fastforce simp: in_set_conv_nth)
  moreover have n: "nat i < 128" "payload ?p ! nat i = Some pt" using line nth [of "nat i" pt] assms(2) by auto
  ultimately obtain line k p mm where k: "payload_type_get_rtpmap pt = Some line"
     "rtp_profile_get_payload_number_from_rtpmap ?p line = Some (int k)" "k \<le> nat i"
     "rtp_profile_get_payload ?p (int k) = Some p" "mime_type p = Some mm" "strcasecmp_eq mm mime"
     "clock_rate p = clock_rate pt" "channels p = channels pt \<or> channels pt \<le> 0 \<or> channels p \<le> 0"
    using rtpmap_found [OF ok, of "nat i" pt mime] line m n by blast
  have "same_codec pt p" using k m by (simp add: same_codec_def)
  with av_table_separates assms(2) get [of "int k" p] k(4) have "int k = i" by (fastforce simp: list_all_iff)
  with k(1,2) show "\<exists>line. payload_type_get_rtpmap pt = Some line
         \<and> rtp_profile_get_payload_number_from_rtpmap ?p line = Some i" by auto
qed

theorem av_profile_rtpmap_witness:
  "rtp_profile_get_payload (av_profile_init (rtp_profile_new ''x'')) 10 = Some payload_type_l16_stereo
    \<and> (\<exists>line. payload_type_get_rtpmap payload_type_l16_stereo = Some line
         \<and> rtp_profile_get_payload_number_from_rtpmap (av_profile_init (rtp_profile_new ''x'')) line = Some 10)"
  by (rule av_profile_rtpmap) (simp_all add: av_table_def)

end
