(* ===== verification/Rtp_Queue.thy ===== *)
theory Rtp_Queue
  imports Conf_Prelude
begin

text \<open>
  The jitter buffer queue of \<open>ortp/src/rtpsession.c\<close>: \<open>rtp_putq\<close> inserts a packet by sequence
  number, walking from the newest packet back; \<open>rtp_getq\<close> and \<open>rtp_getq_permissive\<close> take the
  packet that is due at a timestamp. A queue is the list of its packets, oldest first (the links
  behind it are verified in \<open>Str_Queue\<close>), and a packet is its header, in host byte order, and the
  bytes behind the header.
\<close>

section \<open>Packets\<close>

record rtp_header =
  version :: u8
  padbit :: bool
  extbit :: bool
  cc :: nat
  markbit :: bool
  paytype :: nat
  seq_number :: u16
  timestamp :: u32
  ssrc :: u32
  csrc :: "u32 list"

record rtp_mblk =
  rtp :: rtp_header
  body :: bytes

definition RTP_FIXED_HEADER_SIZE :: nat where "RTP_FIXED_HEADER_SIZE = 12"

definition RTP_TIMESTAMP_IS_NEWER_THAN :: "u32 \<Rightarrow> u32 \<Rightarrow> bool" where
  "RTP_TIMESTAMP_IS_NEWER_THAN ts1 ts2 \<longleftrightarrow> ts1 - ts2 < 0x80000000"

definition RTP_TIMESTAMP_IS_STRICTLY_NEWER_THAN :: "u32 \<Rightarrow> u32 \<Rightarrow> bool" where
  "RTP_TIMESTAMP_IS_STRICTLY_NEWER_THAN ts1 ts2 \<longleftrightarrow> ts1 - ts2 < 0x80000000 \<and> ts1 \<noteq> ts2"

definition RTP_SEQ_IS_GREATER :: "u16 \<Rightarrow> u16 \<Rightarrow> bool" where
  "RTP_SEQ_IS_GREATER seq1 seq2 \<longleftrightarrow> seq1 - seq2 < 0x8000"

section \<open>Insertion\<close>

text \<open>The walk from the last packet to the first; the packets already passed are in \<open>after\<close>.\<close>

fun rtp_putq_scan :: "rtp_mblk \<Rightarrow> rtp_mblk list \<Rightarrow> rtp_mblk list \<Rightarrow> rtp_mblk list" where
  "rtp_putq_scan mp [] after = mp # after"
| "rtp_putq_scan mp (tmp # r) after =
     (if seq_number (rtp mp) = seq_number (rtp tmp) then rev (tmp # r) @ after
      else if RTP_SEQ_IS_GREATER (seq_number (rtp mp)) (seq_number (rtp tmp)) then rev (tmp # r) @ mp # after
      else rtp_putq_scan mp r (tmp # after))"

definition rtp_putq :: "rtp_mblk list \<Rightarrow> rtp_mblk \<Rightarrow> rtp_mblk list" where
  "rtp_putq q mp = (if q = [] then [mp] else rtp_putq_scan mp (rev q) [])"

section \<open>Removal\<close>

fun rtp_getq_loop :: "u32 \<Rightarrow> rtp_mblk option \<Rightarrow> nat \<Rightarrow> rtp_mblk list \<Rightarrow> rtp_mblk option \<times> nat \<times> rtp_mblk list" where
  "rtp_getq_loop ts ret rejected [] = (ret, rejected, [])"
| "rtp_getq_loop ts ret rejected (tmp # q) =
     (if RTP_TIMESTAMP_IS_NEWER_THAN ts (timestamp (rtp tmp)) then
        (case ret of
           None \<Rightarrow> rtp_getq_loop ts (Some tmp) rejected q
         | Some old \<Rightarrow>
            if timestamp (rtp tmp) = timestamp (rtp old) then (ret, rejected, tmp # q)
            else rtp_getq_loop ts (Some tmp) (rejected + 1) q)
      else (ret, rejected, tmp # q))"

definition rtp_getq :: "rtp_mblk list \<Rightarrow> u32 \<Rightarrow> rtp_mblk option \<times> nat \<times> rtp_mblk list" where
  "rtp_getq q ts = (if q = [] then (None, 0, q) else rtp_getq_loop ts None 0 q)"

definition rtp_getq_permissive :: "rtp_mblk list \<Rightarrow> u32 \<Rightarrow> rtp_mblk option \<times> nat \<times> rtp_mblk list" where
  "rtp_getq_permissive q ts = (case q of [] \<Rightarrow> (None, 0, [])
     | tmp # r \<Rightarrow> if RTP_TIMESTAMP_IS_NEWER_THAN ts (timestamp (rtp tmp)) then (Some tmp, 0, r) else (None, 0, q))"

text \<open>\<open>rtp_session_pick_with_cseq\<close>: the queued packet with a sequence number.\<close>

definition rtp_session_pick_with_cseq :: "rtp_mblk list \<Rightarrow> u16 \<Rightarrow> rtp_mblk option" where
  "rtp_session_pick_with_cseq q sequence_number = find (\<lambda>mb. seq_number (rtp mb) = sequence_number) q"

section \<open>Sequence numbers in a window\<close>

text \<open>
  Sequence numbers compare in a circle. They order like integers when all of them lie in the half
  circle that starts at some base: \<open>seq_key\<close> is the distance from that base.
\<close>

definition seq_key :: "u16 \<Rightarrow> rtp_mblk \<Rightarrow> nat" where
  "seq_key base m = unat (seq_number (rtp m) - base)"

definition seq_window :: "u16 \<Rightarrow> rtp_mblk list \<Rightarrow> bool" where
  "seq_window base q \<longleftrightarrow> (\<forall>m \<in> set q. seq_key base m < 2 ^ 15)"

lemma seq_key_eq [wrap]: "seq_key base a = seq_key base b \<longleftrightarrow> seq_number (rtp a) = seq_number (rtp b)"
  by (simp add: seq_key_def word_unat_eq_iff [symmetric])

lemma half_circle_sub:
  fixes x y :: u16
  assumes "unat x < 2 ^ 15" "unat y < 2 ^ 15"
  shows "x - y < 0x8000 \<longleftrightarrow> unat y \<le> unat x"
proof (cases "unat y \<le> unat x")
  case True
  then have "unat (x - y) = unat x - unat y" by (simp add: unat_sub word_le_nat_alt)
  with True assms show ?thesis by (simp add: word_less_nat_alt)
next
  case False
  then have "unat (x - y) = 2 ^ 16 + unat x - unat y"
    using unat_sub_if' [of x y] by (simp add: word_le_nat_alt)
  with False assms show ?thesis by (simp add: word_less_nat_alt)
qed

lemma half_circle_less:
  fixes a b base :: u16
  assumes "unat (a - base) < 2 ^ 15" "unat (b - base) < 2 ^ 15"
  shows "a - b < 0x8000 \<longleftrightarrow> unat (b - base) \<le> unat (a - base)"
  using half_circle_sub [OF assms] by simp

lemma seq_greater_key [wrap]:
  "seq_key base a < 2 ^ 15 \<Longrightarrow> seq_key base b < 2 ^ 15 \<Longrightarrow>
   RTP_SEQ_IS_GREATER (seq_number (rtp a)) (seq_number (rtp b)) \<longleftrightarrow> seq_key base b \<le> seq_key base a"
  unfolding seq_key_def RTP_SEQ_IS_GREATER_def by (rule half_circle_less)

lemma seq_window_simps [simp]:
  "seq_window base []" "seq_window base (m # q) \<longleftrightarrow> seq_key base m < 2 ^ 15 \<and> seq_window base q"
  "seq_window base (q @ r) \<longleftrightarrow> seq_window base q \<and> seq_window base r" "seq_window base (rev q) \<longleftrightarrow> seq_window base q"
  by (auto simp: seq_window_def)

text \<open>The reference: insertion by key, unless the sequence number is already queued.\<close>

fun ins_by_key :: "('a \<Rightarrow> nat) \<Rightarrow> 'a \<Rightarrow> 'a list \<Rightarrow> 'a list" where
  "ins_by_key f x [] = [x]"
| "ins_by_key f x (y # ys) = (if f x < f y then x # y # ys else if f x = f y then y # ys else y # ins_by_key f x ys)"

lemma ins_by_key_append:
  "sorted_wrt (<) (map f (xs @ ys)) \<Longrightarrow> \<forall>y \<in> set ys. f x < f y \<Longrightarrow> \<forall>z \<in> set xs. f z < f x \<Longrightarrow>
   ins_by_key f x (xs @ ys) = xs @ x # ys"
  by (induction xs) (cases ys; auto)+

lemma ins_by_key_present: "sorted_wrt (<) (map f xs) \<Longrightarrow> f x \<in> f ` set xs \<Longrightarrow> ins_by_key f x xs = xs"
  by (induction xs) (auto, (metis image_iff less_asym)?)

lemma rtp_putq_scan_ins:
  assumes "seq_window base (mp # r @ after)" "sorted_wrt (<) (map (seq_key base) (rev r @ after))"
    "\<forall>a \<in> set after. seq_key base mp < seq_key base a"
  shows "rtp_putq_scan mp r after = ins_by_key (seq_key base) mp (rev r @ after)"
  using assms
proof (induction r arbitrary: after)
  case Nil
  then show ?case using ins_by_key_append [of "seq_key base" "[]" after mp] by simp
next
  case (Cons tmp r)
  let ?k = "seq_key base"
  have w: "?k mp < 2 ^ 15" "?k tmp < 2 ^ 15" using Cons.prems(1) by auto
  have s: "sorted_wrt (<) (map ?k (rev (tmp # r) @ after))" using Cons.prems(2) .
  have below: "?k z \<le> ?k tmp" if "z \<in> set (rev (tmp # r))" for z
    using s that by (auto simp: sorted_wrt_append)
  consider "?k mp = ?k tmp" | "?k tmp < ?k mp" | "?k mp < ?k tmp" by linarith
  then show ?case
  proof cases
    case 1
    then have "ins_by_key ?k mp (rev (tmp # r) @ after) = rev (tmp # r) @ after"
      by (intro ins_by_key_present [OF s]) auto
    with 1 show ?thesis by (simp add: seq_key_eq)
  next
    case 2
    then have "ins_by_key ?k mp (rev (tmp # r) @ after) = rev (tmp # r) @ mp # after"
      using below Cons.prems(3) by (intro ins_by_key_append [OF s]) fastforce+
    moreover have "seq_number (rtp mp) \<noteq> seq_number (rtp tmp)" using 2 seq_key_eq [of base mp tmp] by auto
    moreover have "RTP_SEQ_IS_GREATER (seq_number (rtp mp)) (seq_number (rtp tmp))"
      using 2 seq_greater_key [OF w] by simp
    ultimately show ?thesis by simp
  next
    case 3
    have "rtp_putq_scan mp r (tmp # after) = ins_by_key ?k mp (rev r @ tmp # after)"
      by (rule Cons.IH) (use Cons.prems 3 in auto)
    moreover have "seq_number (rtp mp) \<noteq> seq_number (rtp tmp)" using 3 seq_key_eq [of base mp tmp] by auto
    moreover have "\<not> RTP_SEQ_IS_GREATER (seq_number (rtp mp)) (seq_number (rtp tmp))"
      using 3 seq_greater_key [OF w] by simp
    ultimately show ?thesis by simp
  qed
qed

lemma rtp_putq_ins:
  assumes "seq_window base (mp # q)" "sorted_wrt (<) (map (seq_key base) q)"
  shows "rtp_putq q mp = ins_by_key (seq_key base) mp q"
  using rtp_putq_scan_ins [of base mp "rev q" "[]"] assms by (cases "q = []") (auto simp: rtp_putq_def)

lemma ins_by_key_set: "set (ins_by_key f x xs) \<subseteq> insert x (set xs)" "set xs \<subseteq> set (ins_by_key f x xs)"
  by (induction xs) auto

lemma ins_by_key_sorted: "sorted_wrt (<) (map f xs) \<Longrightarrow> sorted_wrt (<) (map f (ins_by_key f x xs))"
proof (induction xs)
  case (Cons y ys)
  have "z = x \<or> z \<in> set ys" if "z \<in> set (ins_by_key f x ys)" for z
    using ins_by_key_set(1) [of f x ys] that by blast
  with Cons show ?case by fastforce
qed simp

text \<open>Without any assumption on the sequence numbers: the packet is added once or dropped.\<close>

lemma rtp_putq_scan_length:
  "length (rtp_putq_scan mp r after) = length r + length after + 1 \<and> set (rtp_putq_scan mp r after) = insert mp (set r \<union> set after)
   \<or> rtp_putq_scan mp r after = rev r @ after \<and> (\<exists>m \<in> set r. seq_number (rtp m) = seq_number (rtp mp))"
  by (induction mp r after rule: rtp_putq_scan.induct) auto

lemma rtp_putq_cases:
  "length (rtp_putq q mp) = length q + 1 \<and> set (rtp_putq q mp) = insert mp (set q)
   \<or> rtp_putq q mp = q \<and> (\<exists>m \<in> set q. seq_number (rtp m) = seq_number (rtp mp))"
  using rtp_putq_scan_length [of mp "rev q" "[]"] by (auto simp: rtp_putq_def)

section \<open>What \<open>rtp_getq\<close> takes\<close>

definition due :: "u32 \<Rightarrow> rtp_mblk \<Rightarrow> bool" where
  "due ts m \<longleftrightarrow> RTP_TIMESTAMP_IS_NEWER_THAN ts (timestamp (rtp m))"

text \<open>
  The packets that one call consumes: a run of due packets in which no two neighbours have the
  same timestamp, as long as possible.
\<close>

fun due_run :: "u32 \<Rightarrow> rtp_mblk list \<Rightarrow> rtp_mblk list" where
  "due_run ts [] = []"
| "due_run ts [m] = (if due ts m then [m] else [])"
| "due_run ts (m # n # q) = (if due ts m
     then (if due ts n \<and> timestamp (rtp n) \<noteq> timestamp (rtp m) then m # due_run ts (n # q) else [m])
     else [])"

lemma due_run_Nil: "due_run ts q = [] \<longleftrightarrow> q = [] \<or> \<not> due ts (hd q)"
  by (cases "(ts, q)" rule: due_run.cases) auto

lemma rtp_getq_loop_Some:
  "rtp_getq_loop ts (Some old) k q =
    (let r = (if q \<noteq> [] \<and> timestamp (rtp (hd q)) \<noteq> timestamp (rtp old) then due_run ts q else [])
     in (Some (last (old # r)), k + length r, drop (length r) q))"
proof (induction q arbitrary: old k)
  case (Cons m q)
  show ?case
  proof (cases "due ts m \<and> timestamp (rtp m) \<noteq> timestamp (rtp old)")
    case True
    then show ?thesis using Cons.IH [of m "k + 1"] due_run_Nil [of ts q]
      by (cases q) (auto simp: due_def Let_def)
  next
    case False
    then show ?thesis by (cases q) (auto simp: due_def Let_def)
  qed
qed simp

lemma due_run_prefix: "\<exists>r. q = due_run ts q @ r"
  by (induction ts q rule: due_run.induct) auto

lemma due_run_due: "m \<in> set (due_run ts q) \<Longrightarrow> due ts m"
  by (induction ts q rule: due_run.induct) (auto split: if_splits)

lemma rtp_getq_eq:
  "rtp_getq q ts = (let r = due_run ts q in
     (if r = [] then None else Some (last r), length r - 1, drop (length r) q))"
proof (cases q)
  case (Cons m n)
  show ?thesis
  proof (cases "due ts m")
    case True
    then show ?thesis using rtp_getq_loop_Some [of ts m 0 n] Cons due_run_Nil [of ts n]
      by (cases n) (auto simp: rtp_getq_def due_def Let_def)
  next
    case False
    then show ?thesis using Cons by (cases n) (auto simp: rtp_getq_def due_def)
  qed
qed (simp add: rtp_getq_def)

lemma due_run_maximal:
  "q = due_run ts q @ rest \<Longrightarrow> rest = [] \<or> \<not> due ts (hd rest)
     \<or> due_run ts q \<noteq> [] \<and> timestamp (rtp (hd rest)) = timestamp (rtp (last (due_run ts q)))"
proof (induction ts q arbitrary: rest rule: due_run.induct)
  case (3 ts m n q)
  then show ?case using due_run_Nil [of ts "n # q"] by (auto split: if_splits)
qed (auto split: if_splits)

section \<open>Properties\<close>

text \<open>C2: while the sequence numbers in flight span less than half the circle, inserting a packet from
  the tail of the jitter buffer, as \<open>rtp_putq\<close> does, equals inserting it into the list sorted by distance from
  the base; the queue stays strictly sorted, so a duplicate is dropped and 65535 is followed by 0.\<close>

theorem rtp_putq_sorts:
  assumes "seq_window base (mp # q)" and "sorted_wrt (<) (map (seq_key base) q)"
  shows "rtp_putq q mp = ins_by_key (seq_key base) mp q \<and> sorted_wrt (<) (map (seq_key base) (rtp_putq q mp))
    \<and> seq_window base (rtp_putq q mp) \<and> seq_number (rtp mp) \<in> (\<lambda>m. seq_number (rtp m)) ` set (rtp_putq q mp)"
proof -
  have e: "rtp_putq q mp = ins_by_key (seq_key base) mp q" by (rule rtp_putq_ins [OF assms])
  have "seq_window base (rtp_putq q mp)"
    using assms(1) ins_by_key_set(1) [of "seq_key base" mp q] unfolding e seq_window_def by auto
  moreover have "seq_number (rtp mp) \<in> (\<lambda>m. seq_number (rtp m)) ` set (rtp_putq q mp)"
    using rtp_putq_cases [of q mp] by (metis image_eqI insertI1)
  ultimately show ?thesis using ins_by_key_sorted [OF assms(2), of mp] by (simp add: e)
qed

definition demo_packet :: "u16 \<Rightarrow> u32 \<Rightarrow> rtp_mblk" where
  "demo_packet s t = \<lparr>rtp = \<lparr>version = 2, padbit = False, extbit = False, cc = 0, markbit = False, paytype = 0,
     seq_number = s, timestamp = t, ssrc = 1, csrc = []\<rparr>, body = [1, 2]\<rparr>"

theorem rtp_putq_sorts_witness:
  "rtp_putq [demo_packet 65534 0, demo_packet 0 320] (demo_packet 65535 160)
     = [demo_packet 65534 0, demo_packet 65535 160, demo_packet 0 320]"
  using rtp_putq_sorts [of 65530 "demo_packet 65535 160" "[demo_packet 65534 0, demo_packet 0 320]"]
  by (simp add: demo_packet_def seq_key_def)

text \<open>\<open>rtp_getq\<close> takes a prefix of the queue: every packet in it is due, its last packet
  is returned, the others are counted as rejected, and nothing else is lost. It stops at the first packet that is
  not due or that has the timestamp of the packet before it.\<close>

theorem rtp_getq_takes_prefix:
  "\<exists>taken rest. q = taken @ rest \<and> (\<forall>m \<in> set taken. due ts m)
     \<and> rtp_getq q ts = (if taken = [] then None else Some (last taken), length taken - 1, rest)
     \<and> (rest = [] \<or> \<not> due ts (hd rest) \<or> taken \<noteq> [] \<and> timestamp (rtp (hd rest)) = timestamp (rtp (last taken)))"
proof -
  obtain rest where r: "q = due_run ts q @ rest" using due_run_prefix by blast
  have "rtp_getq q ts = (if due_run ts q = [] then None else Some (last (due_run ts q)), length (due_run ts q) - 1, rest)"
    unfolding rtp_getq_eq Let_def by (subst (4) r) simp
  with r due_run_due due_run_maximal [OF r] show ?thesis by blast
qed

theorem rtp_getq_takes_prefix_witness:
  "rtp_getq [demo_packet 1 0, demo_packet 2 160, demo_packet 3 320] 200
     = (Some (demo_packet 2 160), 1, [demo_packet 3 320]) \<and>
   (\<exists>taken rest. [demo_packet 1 0, demo_packet 2 160, demo_packet 3 320] = taken @ rest
     \<and> (\<forall>m \<in> set taken. due 200 m)
     \<and> rtp_getq [demo_packet 1 0, demo_packet 2 160, demo_packet 3 320] 200
        = (if taken = [] then None else Some (last taken), length taken - 1, rest)
     \<and> (rest = [] \<or> \<not> due 200 (hd rest) \<or> taken \<noteq> [] \<and> timestamp (rtp (hd rest)) = timestamp (rtp (last taken))))"
  by (rule conjI [OF _ rtp_getq_takes_prefix])
    (simp add: rtp_getq_def demo_packet_def RTP_TIMESTAMP_IS_NEWER_THAN_def)

text \<open>A frame sent in two packets with one timestamp holds \<open>rtp_getq\<close> back: it returns the
  first of them although a newer packet is due as well.\<close>

lemma rtp_getq_returns_older:
  "rtp_getq [demo_packet 1 0, demo_packet 2 0, demo_packet 3 160] 200
     = (Some (demo_packet 1 0), 0, [demo_packet 2 0, demo_packet 3 160]) \<and> due 200 (demo_packet 3 160)"
  by (simp add: rtp_getq_def due_def demo_packet_def RTP_TIMESTAMP_IS_NEWER_THAN_def)

end
