(* ===== verification/Ms_Queue.thy ===== *)
theory Ms_Queue
  imports Conf_Prelude
begin

text \<open>
  Messages as values, the queues between filters and the bufferizer of
  \<open>mediastreamer2/src/base/msqueue.c\<close>. A message is the list of its blocks (the chain through \<open>b_cont\<close>,
  each block being the bytes from \<open>b_rptr\<close> to \<open>b_wptr\<close>) with the two reserved words that carry the
  timestamp and the flags; that the linked blocks behave like this is shown in \<open>Str_Utils_Inv\<close>.
\<close>

section \<open>Messages\<close>

record msg =
  m_blocks :: "bytes list"
  m_res1 :: u32
  m_res2 :: u32

definition msg_of :: "bytes \<Rightarrow> msg" where
  "msg_of bs = \<lparr>m_blocks = [bs], m_res1 = 0, m_res2 = 0\<rparr>"

definition msg_data :: "msg \<Rightarrow> bytes" where
  "msg_data m = concat (m_blocks m)"

text \<open>\<open>b_wptr - b_rptr\<close> is the size of the first block, \<open>msgdsize\<close> that of the chain.\<close>

definition first_block :: "msg \<Rightarrow> bytes" where
  "first_block m = hd (m_blocks m)"

definition msg_size :: "msg \<Rightarrow> int" where
  "msg_size m = int (length (msg_data m))"

definition msg_concat :: "msg \<Rightarrow> msg \<Rightarrow> msg" where
  "msg_concat m l = m\<lparr>m_blocks := m_blocks m @ m_blocks l\<rparr>"

definition msg_pullup :: "msg \<Rightarrow> msg" where
  "msg_pullup m = m\<lparr>m_blocks := [msg_data m]\<rparr>"

definition mblk_set_flag :: "msg \<Rightarrow> nat \<Rightarrow> bool \<Rightarrow> msg" where
  "mblk_set_flag m pos bitval = m\<lparr>m_res2 := (m_res2 m AND NOT (push_bit pos 1)) OR push_bit pos (of_bool bitval)\<rparr>"

definition mblk_set_timestamp_info :: "msg \<Rightarrow> u32 \<Rightarrow> msg" where
  "mblk_set_timestamp_info m ts = m\<lparr>m_res1 := ts\<rparr>"

definition mblk_get_timestamp_info :: "msg \<Rightarrow> u32" where
  "mblk_get_timestamp_info m = m_res1 m"

definition mblk_set_marker_info :: "msg \<Rightarrow> bool \<Rightarrow> msg" where
  "mblk_set_marker_info m bitval = mblk_set_flag m 0 bitval"

definition mblk_get_marker_info :: "msg \<Rightarrow> bool" where
  "mblk_get_marker_info m \<longleftrightarrow> m_res2 m AND 1 \<noteq> 0"

definition mblk_set_precious_flag :: "msg \<Rightarrow> bool \<Rightarrow> msg" where
  "mblk_set_precious_flag m bitval = mblk_set_flag m 1 bitval"

definition mblk_get_precious_flag :: "msg \<Rightarrow> u32" where
  "mblk_get_precious_flag m = drop_bit 1 (m_res2 m) AND 1"

definition mblk_set_plc_flag :: "msg \<Rightarrow> bool \<Rightarrow> msg" where
  "mblk_set_plc_flag m bitval = mblk_set_flag m 2 bitval"

definition mblk_get_plc_flag :: "msg \<Rightarrow> u32" where
  "mblk_get_plc_flag m = drop_bit 1 (m_res2 m) AND 2"

definition mblk_set_cseq :: "msg \<Rightarrow> u32 \<Rightarrow> msg" where
  "mblk_set_cseq m v = m\<lparr>m_res2 := m_res2 m OR push_bit 16 (v AND 0xFFFF)\<rparr>"

definition mblk_get_cseq :: "msg \<Rightarrow> u32" where
  "mblk_get_cseq m = drop_bit 16 (m_res2 m)"

section \<open>Queues between filters\<close>

record MSCPoint =
  cp_filter :: "nat option"
  cp_pin :: int

record MSQueue =
  ms_q :: "msg list"
  ms_prev :: MSCPoint
  ms_next :: MSCPoint

definition ms_queue_new :: "nat option \<Rightarrow> int \<Rightarrow> nat option \<Rightarrow> int \<Rightarrow> MSQueue" where
  "ms_queue_new f1 pin1 f2 pin2 = \<lparr>ms_q = [], ms_prev = \<lparr>cp_filter = f1, cp_pin = pin1\<rparr>, ms_next = \<lparr>cp_filter = f2, cp_pin = pin2\<rparr>\<rparr>"

definition ms_queue_init :: MSQueue where
  "ms_queue_init = \<lparr>ms_q = [], ms_prev = \<lparr>cp_filter = None, cp_pin = 0\<rparr>, ms_next = \<lparr>cp_filter = None, cp_pin = 0\<rparr>\<rparr>"

definition ms_queue_get :: "MSQueue \<Rightarrow> msg option \<times> MSQueue" where
  "ms_queue_get q = (case ms_q q of [] \<Rightarrow> (None, q) | m # r \<Rightarrow> (Some m, q\<lparr>ms_q := r\<rparr>))"

definition ms_queue_put :: "MSQueue \<Rightarrow> msg \<Rightarrow> MSQueue" where
  "ms_queue_put q m = q\<lparr>ms_q := ms_q q @ [m]\<rparr>"

definition ms_queue_empty :: "MSQueue \<Rightarrow> bool" where
  "ms_queue_empty q \<longleftrightarrow> ms_q q = []"

definition ms_queue_peek_last :: "MSQueue \<Rightarrow> msg option" where
  "ms_queue_peek_last q = (if ms_q q = [] then None else Some (last (ms_q q)))"

definition ms_queue_flush :: "MSQueue \<Rightarrow> MSQueue" where
  "ms_queue_flush q = q\<lparr>ms_q := []\<rparr>"

section \<open>The bufferizer\<close>

record MSBufferizer =
  buf_q :: "msg list"
  buf_size :: int

definition ms_bufferizer_init :: MSBufferizer where
  "ms_bufferizer_init = \<lparr>buf_q = [], buf_size = 0\<rparr>"

definition ms_bufferizer_put :: "MSBufferizer \<Rightarrow> msg \<Rightarrow> MSBufferizer" where
  "ms_bufferizer_put obj m = obj\<lparr>buf_size := buf_size obj + msg_size m, buf_q := buf_q obj @ [m]\<rparr>"

definition ms_bufferizer_put_from_queue :: "MSBufferizer \<Rightarrow> MSQueue \<Rightarrow> MSBufferizer \<times> MSQueue" where
  "ms_bufferizer_put_from_queue obj q = (foldl ms_bufferizer_put obj (ms_q q), q\<lparr>ms_q := []\<rparr>)"

text \<open>
  The copying loop: \<open>cur\<close> is the block of the first message that the pointer \<open>m\<close> is at and \<open>acc\<close>
  holds the \<open>sz\<close> bytes copied so far. Reading through the NULL that \<open>peekq\<close> returns on an empty queue, and not
  ending, are \<open>None\<close>.
\<close>

partial_function (option) ms_bufferizer_read_loop :: "nat \<Rightarrow> msg list \<Rightarrow> nat \<Rightarrow> bytes \<Rightarrow> (bytes \<times> msg list) option" where
  "ms_bufferizer_read_loop datalen q cur acc =
    (if length acc < datalen
     then (case q of [] \<Rightarrow> None
       | m # r \<Rightarrow>
          let b = m_blocks m ! cur;
              cplen = min (length b) (datalen - length acc);
              b' = drop cplen b;
              m' = m\<lparr>m_blocks := (m_blocks m)[cur := b']\<rparr>
          in if b' = []
             then (if Suc cur < length (m_blocks m)
                   then ms_bufferizer_read_loop datalen (m' # r) (Suc cur) (acc @ take cplen b)
                   else ms_bufferizer_read_loop datalen r 0 (acc @ take cplen b))
             else ms_bufferizer_read_loop datalen (m' # r) cur (acc @ take cplen b))
     else Some (acc, q))"

text \<open>The bytes read and the number returned.\<close>

definition ms_bufferizer_read :: "MSBufferizer \<Rightarrow> int \<Rightarrow> (bytes \<times> int \<times> MSBufferizer) option" where
  "ms_bufferizer_read obj datalen =
    (if datalen \<le> buf_size obj
     then map_option (\<lambda>(data, q). (data, datalen, obj\<lparr>buf_q := q, buf_size := buf_size obj - datalen\<rparr>))
            (ms_bufferizer_read_loop (nat datalen) (buf_q obj) 0 [])
     else Some ([], 0, obj))"

definition ms_bufferizer_skip_bytes :: "MSBufferizer \<Rightarrow> int \<Rightarrow> MSBufferizer option" where
  "ms_bufferizer_skip_bytes obj n = map_option (\<lambda>(_, _, o'). o') (ms_bufferizer_read obj n)"

definition ms_bufferizer_flush :: "MSBufferizer \<Rightarrow> MSBufferizer" where
  "ms_bufferizer_flush obj = obj\<lparr>buf_size := 0, buf_q := []\<rparr>"

definition ms_bufferizer_uninit :: "MSBufferizer \<Rightarrow> MSBufferizer" where
  "ms_bufferizer_uninit obj = obj\<lparr>buf_q := []\<rparr>"

section \<open>Flags\<close>

lemma mblk_info [simp]:
  "mblk_get_timestamp_info (mblk_set_marker_info m b) = mblk_get_timestamp_info m"
  "mblk_get_timestamp_info (mblk_set_timestamp_info m ts) = ts"
  "mblk_get_marker_info (mblk_set_timestamp_info m ts) = mblk_get_marker_info m"
  "m_blocks (mblk_set_marker_info m b) = m_blocks m" "m_blocks (mblk_set_timestamp_info m ts) = m_blocks m"
  by (simp_all add: mblk_get_timestamp_info_def mblk_set_marker_info_def mblk_set_flag_def
      mblk_set_timestamp_info_def mblk_get_marker_info_def)

lemma and_1_bit: "(w :: u32) AND 1 \<noteq> 0 \<longleftrightarrow> bit w 0"
  by (simp add: and_one_eq bit_0 odd_iff_mod_2_eq_one even_iff_mod_2_eq_zero)

lemma mblk_marker [simp]: "mblk_get_marker_info (mblk_set_marker_info m b) = b"
  unfolding mblk_get_marker_info_def and_1_bit by (simp add: mblk_set_marker_info_def mblk_set_flag_def bit_simps)

section \<open>The stream in the bufferizer\<close>

definition stream :: "msg list \<Rightarrow> bytes" where
  "stream q = concat (map msg_data q)"

definition buf_ok :: "MSBufferizer \<Rightarrow> bool" where
  "buf_ok obj \<longleftrightarrow> buf_size obj = int (length (stream (buf_q obj))) \<and> (\<forall>m \<in> set (buf_q obj). m_blocks m \<noteq> [])"

lemma stream_simps [simp]: "stream [] = []" "stream (m # q) = msg_data m @ stream q" "stream (q @ r) = stream q @ stream r"
  by (simp_all add: stream_def)

lemma buf_ok_ops [simp]:
  "buf_ok ms_bufferizer_init" "buf_ok (ms_bufferizer_flush obj)"
  "buf_ok obj \<Longrightarrow> m_blocks m \<noteq> [] \<Longrightarrow> buf_ok (ms_bufferizer_put obj m)"
  by (auto simp: buf_ok_def ms_bufferizer_init_def ms_bufferizer_flush_def ms_bufferizer_put_def msg_size_def)

text \<open>The blocks before \<open>cur\<close> are used up, so the data that is left starts at block \<open>cur\<close>.\<close>

definition cur_data :: "nat \<Rightarrow> msg list \<Rightarrow> bytes" where
  "cur_data cur q = (case q of [] \<Rightarrow> [] | m # r \<Rightarrow> concat (drop cur (m_blocks m)) @ stream r)"

lemma cur_data_0: "cur_data 0 q = stream q"
  by (cases q) (simp_all add: cur_data_def msg_data_def)

definition cur_ok :: "nat \<Rightarrow> msg list \<Rightarrow> bool" where
  "cur_ok cur q \<longleftrightarrow> (\<forall>m \<in> set q. m_blocks m \<noteq> [])
     \<and> (q = [] \<and> cur = 0 \<or> q \<noteq> [] \<and> cur < length (m_blocks (hd q)) \<and> concat (take cur (m_blocks (hd q))) = [])"

lemma cur_ok_stream: "cur_ok cur q \<Longrightarrow> stream q = cur_data cur q"
proof (cases q)
  case (Cons m r)
  assume "cur_ok cur q"
  then have "concat (take cur (m_blocks m)) = []" by (simp only: cur_ok_def Cons list.sel) auto
  then have "msg_data m = concat (drop cur (m_blocks m))"
    unfolding msg_data_def by (subst append_take_drop_id [of cur, symmetric], subst concat_append) simp
  then show ?thesis by (simp add: cur_data_def Cons)
qed (simp add: cur_data_def)

lemma concat_update_block:
  "cur < length bs \<Longrightarrow> concat (drop cur (bs[cur := b])) = b @ concat (drop (Suc cur) bs)"
  "cur < length bs \<Longrightarrow> concat (drop cur bs) = bs ! cur @ concat (drop (Suc cur) bs)"
  "cur < length bs \<Longrightarrow> concat (take (Suc cur) (bs[cur := b])) = concat (take cur bs) @ b"
  by (simp_all add: Cons_nth_drop_Suc [symmetric] take_Suc_conv_app_nth)

definition blocks_left :: "nat \<Rightarrow> msg list \<Rightarrow> nat" where
  "blocks_left cur q = (\<Sum>m \<leftarrow> q. length (m_blocks m)) - cur"

lemma read_loop_ok:
  assumes "cur_ok cur q" "datalen - length acc \<le> length (cur_data cur q)" "length acc \<le> datalen"
  shows "\<exists>q' cur'. ms_bufferizer_read_loop datalen q cur acc = Some (acc @ take (datalen - length acc) (cur_data cur q), q')
     \<and> cur_ok cur' q' \<and> cur_data cur' q' = drop (datalen - length acc) (cur_data cur q)"
  using assms
proof (induction "blocks_left cur q" arbitrary: cur q acc rule: less_induct)
  case less
  show ?case
  proof (cases "length acc < datalen")
    case False
    then show ?thesis using less.prems by (subst ms_bufferizer_read_loop.simps) auto
  next
    case True
    then obtain m r where q: "q = m # r" using less.prems(1,2) by (cases q) (auto simp: cur_data_def)
    let ?b = "m_blocks m ! cur" and ?n = "datalen - length acc"
    let ?m = "m\<lparr>m_blocks := (m_blocks m)[cur := drop (min (length ?b) ?n) ?b]\<rparr>"
    have c: "cur < length (m_blocks m)" "concat (take cur (m_blocks m)) = []" "\<forall>m \<in> set r. m_blocks m \<noteq> []" "m_blocks m \<noteq> []"
      using less.prems(1) by (auto simp: cur_ok_def q)
    have d: "cur_data cur q = ?b @ concat (drop (Suc cur) (m_blocks m)) @ stream r"
      using c(1) by (simp add: cur_data_def q concat_update_block(2))
    show ?thesis
    proof (cases "length ?b \<le> ?n")
      case b: True
      define cur1 q1 where "cur1 = (if Suc cur < length (m_blocks m) then Suc cur else 0)"
        and "q1 = (if Suc cur < length (m_blocks m) then ?m # r else r)"
      have step: "ms_bufferizer_read_loop datalen q cur acc = ms_bufferizer_read_loop datalen q1 cur1 (acc @ ?b)"
        using True b by (subst ms_bufferizer_read_loop.simps) (simp add: q q1_def cur1_def Let_def)
      have ok: "cur_ok cur1 q1"
        using c b by (cases r) (auto simp: cur_ok_def q1_def cur1_def concat_update_block(3) simp del: concat_eq_Nil_conv)
      have e: "cur_data cur1 q1 = concat (drop (Suc cur) (m_blocks m)) @ stream r"
        using c(1) by (cases r) (auto simp: q1_def cur1_def cur_data_def drop_update_cancel msg_data_def)
      have lt: "blocks_left cur1 q1 < blocks_left cur q"
        using c(1) by (auto simp: blocks_left_def q q1_def cur1_def)
      have "\<exists>q' cur'. ms_bufferizer_read_loop datalen q1 cur1 (acc @ ?b)
            = Some ((acc @ ?b) @ take (datalen - length (acc @ ?b)) (cur_data cur1 q1), q')
         \<and> cur_ok cur' q' \<and> cur_data cur' q' = drop (datalen - length (acc @ ?b)) (cur_data cur1 q1)"
        by (rule less.hyps [OF lt ok]) (use less.prems(2,3) b d e in auto)
      then show ?thesis unfolding step using b by (simp add: d e)
    next
      case b: False
      have "ms_bufferizer_read_loop datalen q cur acc = ms_bufferizer_read_loop datalen (?m # r) cur (acc @ take ?n ?b)"
        using True b by (subst ms_bufferizer_read_loop.simps) (simp add: q Let_def)
      also have "\<dots> = Some (acc @ take ?n ?b, ?m # r)"
        using b True by (subst ms_bufferizer_read_loop.simps) simp
      finally have "ms_bufferizer_read_loop datalen q cur acc = Some (acc @ take ?n (cur_data cur q), ?m # r)"
        using b by (simp add: d)
      moreover have "cur_ok cur (?m # r)" using c by (auto simp: cur_ok_def)
      moreover have "cur_data cur (?m # r) = drop ?n (cur_data cur q)"
        using b c(1) by (simp add: d) (simp add: cur_data_def concat_update_block(1))
      ultimately show ?thesis by blast
    qed
  qed
qed

lemma bufferizer_read_ok:
  assumes "buf_ok obj" "0 \<le> datalen" "datalen \<le> buf_size obj"
  shows "\<exists>obj'. ms_bufferizer_read obj datalen = Some (take (nat datalen) (stream (buf_q obj)), datalen, obj')
     \<and> buf_ok obj' \<and> stream (buf_q obj') = drop (nat datalen) (stream (buf_q obj))"
proof -
  have c: "cur_ok 0 (buf_q obj)" using assms(1) by (cases "buf_q obj") (auto simp: cur_ok_def buf_ok_def)
  have "nat datalen - length ([] :: bytes) \<le> length (cur_data 0 (buf_q obj))"
    using assms by (simp add: cur_data_0 buf_ok_def)
  from read_loop_ok [OF c this] obtain q' cur' where
    r: "ms_bufferizer_read_loop (nat datalen) (buf_q obj) 0 [] = Some (take (nat datalen) (stream (buf_q obj)), q')"
       "cur_ok cur' q'" "cur_data cur' q' = drop (nat datalen) (stream (buf_q obj))"
    by (auto simp: cur_data_0)
  have s: "stream q' = drop (nat datalen) (stream (buf_q obj))" using r(3) cur_ok_stream [OF r(2)] by simp
  then have "buf_ok (obj\<lparr>buf_q := q', buf_size := buf_size obj - datalen\<rparr>)"
    using assms r(2) by (auto simp: buf_ok_def cur_ok_def)
  with r(1) s assms show ?thesis by (simp add: ms_bufferizer_read_def)
qed

section \<open>Cutting the stream into frames\<close>

text \<open>What the encoders do with a bufferizer: put what arrives, read frames of a fixed size.\<close>

fun read_frames :: "('s \<Rightarrow> int \<Rightarrow> (bytes \<times> int \<times> 's) option) \<Rightarrow> int \<Rightarrow> nat \<Rightarrow> 's \<Rightarrow> (bytes list \<times> 's) option" where
  "read_frames rd n 0 s = Some ([], s)"
| "read_frames rd n (Suc k) s = Option.bind (rd s n) (\<lambda>(data, _, s1).
     map_option (\<lambda>(fs, s2). (data # fs, s2)) (read_frames rd n k s1))"

locale byte_pipe =
  fixes content :: "'s \<Rightarrow> bytes"
    and ok :: "'s \<Rightarrow> bool"
    and put :: "'s \<Rightarrow> msg \<Rightarrow> 's"
    and rd :: "'s \<Rightarrow> int \<Rightarrow> (bytes \<times> int \<times> 's) option"
  assumes put_law: "ok s \<Longrightarrow> m_blocks m \<noteq> [] \<Longrightarrow> ok (put s m) \<and> content (put s m) = content s @ msg_data m"
    and read_law: "ok s \<Longrightarrow> 0 \<le> n \<Longrightarrow> n \<le> int (length (content s)) \<Longrightarrow>
       \<exists>s'. rd s n = Some (take (nat n) (content s), n, s') \<and> ok s' \<and> content s' = drop (nat n) (content s)"
begin

lemma put_all_law:
  "ok s \<Longrightarrow> \<forall>m \<in> set ms. m_blocks m \<noteq> [] \<Longrightarrow> ok (foldl put s ms) \<and> content (foldl put s ms) = content s @ stream ms"
  by (induction ms arbitrary: s) (auto simp: put_law)

lemma read_frames_law:
  "ok s \<Longrightarrow> k * n \<le> length (content s) \<Longrightarrow>
   \<exists>fs s'. read_frames rd (int n) k s = Some (fs, s') \<and> concat fs = take (k * n) (content s) \<and> length fs = k
     \<and> (\<forall>f \<in> set fs. length f = n) \<and> ok s' \<and> content s' = drop (k * n) (content s)"
proof (induction k arbitrary: s)
  case (Suc k)
  have n: "n \<le> length (content s)" "k * n \<le> length (content s) - n" using Suc.prems(2) by auto
  from read_law [OF Suc.prems(1), of "int n"] n obtain s1 where
    s1: "rd s (int n) = Some (take n (content s), int n, s1)" "ok s1" "content s1 = drop n (content s)" by auto
  from Suc.IH [OF s1(2)] n(2) s1(3) obtain fs s' where
    f: "read_frames rd (int n) k s1 = Some (fs, s')" "concat fs = take (k * n) (content s1)" "length fs = k"
       "\<forall>f \<in> set fs. length f = n" "ok s'" "content s' = drop (k * n) (content s1)" by auto
  have "take n (content s) @ take (k * n) (drop n (content s)) = take (n + k * n) (content s)" by (simp add: take_add)
  with s1 f n(1) show ?case by (intro exI [of _ "take n (content s) # fs"] exI [of _ s']) (auto simp: add.commute)
qed simp

end

interpretation bufferizer: byte_pipe "\<lambda>b. stream (buf_q b)" buf_ok ms_bufferizer_put ms_bufferizer_read
proof
  show "buf_ok (ms_bufferizer_put s m) \<and> stream (buf_q (ms_bufferizer_put s m)) = stream (buf_q s) @ msg_data m"
    if "buf_ok s" "m_blocks m \<noteq> []" for s m
    using that by (simp add: ms_bufferizer_put_def [of s m] buf_ok_def msg_size_def)
  show "\<exists>s'. ms_bufferizer_read s n = Some (take (nat n) (stream (buf_q s)), n, s') \<and> buf_ok s'
      \<and> stream (buf_q s') = drop (nat n) (stream (buf_q s))"
    if "buf_ok s" "0 \<le> n" "n \<le> int (length (stream (buf_q s)))" for s n
    using bufferizer_read_ok [of s n] that by (simp add: buf_ok_def)
qed

section \<open>Properties\<close>

text \<open>C20: whatever messages are put into a bufferizer, in whatever blocks, reading it in frames of \<open>n\<close> bytes
  returns the stream of their bytes cut at multiples of \<open>n\<close>, without a fault and without losing or repeating a byte, and
  leaves the rest in place with the size field exact.\<close>

theorem bufferizer_cuts_the_stream:
  assumes "buf_ok obj" and "\<forall>m \<in> set ms. m_blocks m \<noteq> []"
    and "k * n \<le> length (stream (buf_q obj)) + length (stream ms)"
  shows "\<exists>fs obj'. read_frames ms_bufferizer_read (int n) k (fst (ms_bufferizer_put_from_queue obj (ms_queue_init\<lparr>ms_q := ms\<rparr>)))
        = Some (fs, obj')
     \<and> concat fs = take (k * n) (stream (buf_q obj) @ stream ms) \<and> length fs = k \<and> (\<forall>f \<in> set fs. length f = n)
     \<and> buf_ok obj' \<and> stream (buf_q obj') = drop (k * n) (stream (buf_q obj) @ stream ms)
     \<and> buf_size obj' = int (length (stream (buf_q obj)) + length (stream ms) - k * n)"
proof -
  let ?b = "foldl ms_bufferizer_put obj ms"
  have p: "buf_ok ?b \<and> stream (buf_q ?b) = stream (buf_q obj) @ stream ms"
    by (rule bufferizer.put_all_law [OF assms(1,2)])
  have "\<exists>fs s'. read_frames ms_bufferizer_read (int n) k ?b = Some (fs, s') \<and> concat fs = take (k * n) (stream (buf_q ?b)) \<and> length fs = k
     \<and> (\<forall>f \<in> set fs. length f = n) \<and> buf_ok s' \<and> stream (buf_q s') = drop (k * n) (stream (buf_q ?b))"
    by (rule bufferizer.read_frames_law) (use p assms(3) in auto)
  then obtain fs s' where f: "read_frames ms_bufferizer_read (int n) k ?b = Some (fs, s')"
     "concat fs = take (k * n) (stream (buf_q ?b))" "length fs = k" "\<forall>f \<in> set fs. length f = n" "buf_ok s'"
     "stream (buf_q s') = drop (k * n) (stream (buf_q ?b))" by blast
  have "buf_size s' = int (length (stream (buf_q obj)) + length (stream ms) - k * n)"
    using f(5,6) p by (simp add: buf_ok_def)
  with f p show ?thesis by (auto simp: ms_bufferizer_put_from_queue_def)
qed

theorem bufferizer_cuts_the_stream_witness:
  "\<exists>fs obj'. read_frames ms_bufferizer_read (int 2) 2 (fst (ms_bufferizer_put_from_queue ms_bufferizer_init
        (ms_queue_init\<lparr>ms_q := [msg_of [1, 2, 3], msg_of [4, 5]]\<rparr>))) = Some (fs, obj')
     \<and> concat fs = [1, 2, 3, 4] \<and> stream (buf_q obj') = [5] \<and> buf_size obj' = 1"
  using bufferizer_cuts_the_stream [of ms_bufferizer_init "[msg_of [1, 2, 3], msg_of [4, 5]]" 2 2]
  by (simp add: msg_of_def msg_data_def) (simp add: ms_bufferizer_init_def, blast)

end
