(* ===== verification/Rfc3984.thy ===== *)
theory Rfc3984
  imports Ms_Queue
begin

text \<open>
  H.264 packetisation of \<open>mediastreamer2/src/voip/rfc3984.c\<close>: NAL units go into RTP payloads as single packets,
  aggregated (STAP-A) or fragmented (FU-A), and back. Reading behind the end of a message is \<open>None\<close>, and so is a
  fragmentation loop that does not end. A NAL unit comes from the encoder in one block.
\<close>

section \<open>NAL headers\<close>

definition TYPE_FU_A :: u8 where "TYPE_FU_A = 28"
definition TYPE_STAP_A :: u8 where "TYPE_STAP_A = 24"

definition nal_header_init :: "u8 \<Rightarrow> u8 \<Rightarrow> u8" where
  "nal_header_init nri type = push_bit 5 (nri AND 3) OR (type AND 31)"

definition nal_header_get_type :: "u8 \<Rightarrow> u8" where
  "nal_header_get_type h = h AND 31"

definition nal_header_get_nri :: "u8 \<Rightarrow> u8" where
  "nal_header_get_nri h = drop_bit 5 h AND 3"

section \<open>The context\<close>

record Rfc3984Context =
  rfc_q :: "msg list"
  rfc_m :: "msg option"
  maxsz :: int
  last_ts :: u32
  rfc_mode :: u8
  stap_a_allowed :: bool

definition rfc3984_init :: "int \<Rightarrow> Rfc3984Context" where
  "rfc3984_init payload_max_size = \<lparr>rfc_q = [], rfc_m = None, maxsz = payload_max_size, last_ts = 0x943FEA43,
     rfc_mode = 0, stap_a_allowed = False\<rparr>"

definition rfc3984_set_max_payload_size :: "Rfc3984Context \<Rightarrow> int \<Rightarrow> Rfc3984Context" where
  "rfc3984_set_max_payload_size ctx sz = ctx\<lparr>maxsz := sz\<rparr>"

definition rfc3984_set_mode :: "Rfc3984Context \<Rightarrow> int \<Rightarrow> Rfc3984Context" where
  "rfc3984_set_mode ctx mode = ctx\<lparr>rfc_mode := word_of_int mode\<rparr>"

definition rfc3984_enable_stap_a :: "Rfc3984Context \<Rightarrow> bool \<Rightarrow> Rfc3984Context" where
  "rfc3984_enable_stap_a ctx yesno = ctx\<lparr>stap_a_allowed := yesno\<rparr>"

definition rfc3984_uninit :: "Rfc3984Context \<Rightarrow> Rfc3984Context" where
  "rfc3984_uninit ctx = ctx\<lparr>rfc_q := [], rfc_m := None\<rparr>"

section \<open>Packing\<close>

definition send_packet :: "msg list \<Rightarrow> u32 \<Rightarrow> msg \<Rightarrow> bool \<Rightarrow> msg list" where
  "send_packet rtpq ts m marker = rtpq @ [mblk_set_marker_info (mblk_set_timestamp_info m ts) marker]"

definition put_nal_size :: "int \<Rightarrow> bytes" where
  "put_nal_size sz = be16_bytes (word_of_int sz)"

definition prepend_stapa :: "msg \<Rightarrow> msg option" where
  "prepend_stapa m = do {
     h \<leftarrow> byte_at (first_block m) 0;
     let hm = msg_of (nal_header_init (nal_header_get_nri h) TYPE_STAP_A # put_nal_size (msg_size m));
     Some (msg_concat hm m) }"

definition concat_nalus :: "msg \<Rightarrow> msg \<Rightarrow> msg option" where
  "concat_nalus m1 m2 = do {
     h \<leftarrow> byte_at (first_block m1) 0;
     m1' \<leftarrow> (if nal_header_get_type h \<noteq> TYPE_STAP_A then prepend_stapa m1 else Some m1);
     let l = msg_concat (msg_of (put_nal_size (msg_size m2))) m2;
     Some (msg_concat m1' l) }"

definition fu_header_byte :: "bool \<Rightarrow> bool \<Rightarrow> u8 \<Rightarrow> u8" where
  "fu_header_byte start end type = push_bit 7 (of_bool start) OR push_bit 6 (of_bool end) OR type"

definition prepend_fu_indicator_and_header :: "msg \<Rightarrow> u8 \<Rightarrow> bool \<Rightarrow> bool \<Rightarrow> u8 \<Rightarrow> msg" where
  "prepend_fu_indicator_and_header m indicator start end type =
     msg_concat (msg_of [indicator, fu_header_byte start end type])
       (if start then m\<lparr>m_blocks := tl (first_block m) # tl (m_blocks m)\<rparr> else m)"

partial_function (option) frag_loop :: "int \<Rightarrow> u8 \<Rightarrow> u8 \<Rightarrow> u32 \<Rightarrow> msg \<Rightarrow> bool \<Rightarrow> msg list \<Rightarrow> (msg \<times> msg list) option" where
  "frag_loop payload_max_size fu_indicator type ts nalu start rtpq =
    (if payload_max_size < int (length (first_block nalu))
     then if payload_max_size < 0 then None
       else let n = nat payload_max_size;
                m = nalu\<lparr>m_blocks := [take n (first_block nalu)]\<rparr>;
                nalu' = nalu\<lparr>m_blocks := drop n (first_block nalu) # tl (m_blocks nalu)\<rparr>
            in frag_loop payload_max_size fu_indicator type ts nalu' False
                 (send_packet rtpq ts (prepend_fu_indicator_and_header m fu_indicator start False type) False)
     else Some (nalu, rtpq))"

definition frag_nalu_and_send :: "msg list \<Rightarrow> u32 \<Rightarrow> msg \<Rightarrow> bool \<Rightarrow> int \<Rightarrow> msg list option" where
  "frag_nalu_and_send rtpq ts nalu marker maxsize = do {
     h \<leftarrow> byte_at (first_block nalu) 0;
     let payload_max_size = maxsize - 2;
     let type = nal_header_get_type h;
     let fu_indicator = nal_header_init (nal_header_get_nri h) TYPE_FU_A;
     (rest, rtpq') \<leftarrow> frag_loop payload_max_size fu_indicator type ts nalu True rtpq;
     Some (send_packet rtpq' ts (prepend_fu_indicator_and_header rest fu_indicator False True type) marker) }"

fun rfc3984_pack_mode_0 :: "Rfc3984Context \<Rightarrow> msg list \<Rightarrow> msg list \<Rightarrow> u32 \<Rightarrow> msg list" where
  "rfc3984_pack_mode_0 ctx [] rtpq ts = rtpq"
| "rfc3984_pack_mode_0 ctx (m # naluq) rtpq ts = rfc3984_pack_mode_0 ctx naluq (send_packet rtpq ts m (naluq = [])) ts"

text \<open>A NAL unit that is not aggregated: a single packet, or fragments.\<close>

definition send_single_or_fua :: "Rfc3984Context \<Rightarrow> u32 \<Rightarrow> msg \<Rightarrow> bool \<Rightarrow> msg list \<Rightarrow> msg list option" where
  "send_single_or_fua ctx ts m end rtpq =
    (if maxsz ctx < int (length (first_block m)) then frag_nalu_and_send rtpq ts m end (maxsz ctx)
     else Some (send_packet rtpq ts m end))"

fun pack_mode_1_loop :: "Rfc3984Context \<Rightarrow> u32 \<Rightarrow> msg list \<Rightarrow> msg option \<Rightarrow> int \<Rightarrow> msg list \<Rightarrow> msg list option" where
  "pack_mode_1_loop ctx ts [] prevm prevsz rtpq = (case prevm of None \<Rightarrow> Some rtpq | Some p \<Rightarrow> Some (send_packet rtpq ts p True))"
| "pack_mode_1_loop ctx ts (m # naluq) prevm prevsz rtpq =
    (let end = (naluq = []); sz = int (length (first_block m)) in
     if stap_a_allowed ctx then
       (case prevm of
          Some p \<Rightarrow>
            if prevsz + sz < maxsz ctx - 2
            then Option.bind (concat_nalus p m) (\<lambda>p'. pack_mode_1_loop ctx ts naluq (Some p') (prevsz + (sz + 2)) rtpq)
            else let rtpq' = send_packet rtpq ts p False in
              if sz < c_div (maxsz ctx) 2 then pack_mode_1_loop ctx ts naluq (Some m) (sz + 3) rtpq'
              else Option.bind (send_single_or_fua ctx ts m end rtpq') (\<lambda>r. pack_mode_1_loop ctx ts naluq None 0 r)
        | None \<Rightarrow>
            if sz < c_div (maxsz ctx) 2 then pack_mode_1_loop ctx ts naluq (Some m) (sz + 3) rtpq
            else Option.bind (send_single_or_fua ctx ts m end rtpq) (\<lambda>r. pack_mode_1_loop ctx ts naluq None prevsz r))
     else Option.bind (send_single_or_fua ctx ts m end rtpq) (\<lambda>r. pack_mode_1_loop ctx ts naluq prevm prevsz r))"

definition rfc3984_pack_mode_1 :: "Rfc3984Context \<Rightarrow> msg list \<Rightarrow> msg list \<Rightarrow> u32 \<Rightarrow> msg list option" where
  "rfc3984_pack_mode_1 ctx naluq rtpq ts = pack_mode_1_loop ctx ts naluq None 0 rtpq"

text \<open>The NAL queue that is left and the packets; a bad mode leaves both as they are.\<close>

definition rfc3984_pack :: "Rfc3984Context \<Rightarrow> msg list \<Rightarrow> msg list \<Rightarrow> u32 \<Rightarrow> (msg list \<times> msg list) option" where
  "rfc3984_pack ctx naluq rtpq ts =
    (if rfc_mode ctx = 0 then Some ([], rfc3984_pack_mode_0 ctx naluq rtpq ts)
     else if rfc_mode ctx = 1 then map_option (\<lambda>r. ([], r)) (rfc3984_pack_mode_1 ctx naluq rtpq ts)
     else Some (naluq, rtpq))"

section \<open>Unpacking\<close>

definition aggregate_fua :: "Rfc3984Context \<Rightarrow> msg \<Rightarrow> (msg option \<times> Rfc3984Context) option" where
  "aggregate_fua ctx im = do {
     let b = first_block im;
     fu_header \<leftarrow> byte_at b 1;
     ind \<leftarrow> byte_at b 0;
     let type = nal_header_get_type fu_header;
     let start = bit fu_header 7;
     let end = bit fu_header 6;
     let m' = (if start
               then Some (im\<lparr>m_blocks := (nal_header_init (nal_header_get_nri ind) type # drop 2 b) # tl (m_blocks im)\<rparr>)
               else (case rfc_m ctx of
                   Some m \<Rightarrow> Some (msg_concat m (im\<lparr>m_blocks := drop 2 b # tl (m_blocks im)\<rparr>))
                 | None \<Rightarrow> None));
     Some (case (end, m') of
        (True, Some m) \<Rightarrow> (Some (msg_pullup m), ctx\<lparr>rfc_m := None\<rparr>)
      | _ \<Rightarrow> (None, ctx\<lparr>rfc_m := m'\<rparr>)) }"

text \<open>
  The loop that splits a STAP-A packet, from behind its header to \<open>b_wptr\<close>: the NAL units it puts.
  \<open>p[1]\<close> is read before any check, so a single byte left over is read behind the end.
\<close>

fun stap_a_split :: "bytes \<Rightarrow> bytes list option" where
  "stap_a_split [] = Some []"
| "stap_a_split [a] = None"
| "stap_a_split (a # b # rest) =
    (let sz = unat (be16 a b) in
     if length rest < sz then Some []
     else map_option (\<lambda>nals. take sz rest # nals) (stap_a_split (drop sz rest)))"

definition rfc3984_unpack :: "Rfc3984Context \<Rightarrow> msg \<Rightarrow> msg list \<Rightarrow> (Rfc3984Context \<times> msg list) option" where
  "rfc3984_unpack ctx im out = do {
     h \<leftarrow> byte_at (first_block im) 0;
     let type = nal_header_get_type h;
     let marker = mblk_get_marker_info im;
     let ts = mblk_get_timestamp_info im;
     let (ctx1, out1) = (if last_ts ctx \<noteq> ts
        then (if rfc_m ctx = None then (ctx\<lparr>last_ts := ts, rfc_q := []\<rparr>, out @ rfc_q ctx) else (ctx\<lparr>last_ts := ts\<rparr>, out))
        else (ctx, out));
     let im1 = (if tl (m_blocks im) \<noteq> [] then msg_pullup im else im);
     ctx2 \<leftarrow> (if type = TYPE_STAP_A
        then map_option (\<lambda>nals. ctx1\<lparr>rfc_q := rfc_q ctx1 @ map (\<lambda>nal. im1\<lparr>m_blocks := [nal]\<rparr>) nals\<rparr>)
               (stap_a_split (tl (first_block im1)))
        else if type = TYPE_FU_A
        then map_option (\<lambda>(om, c). case om of None \<Rightarrow> c | Some o' \<Rightarrow> c\<lparr>rfc_q := rfc_q c @ [o']\<rparr>) (aggregate_fua ctx1 im1)
        else Some (ctx1\<lparr>rfc_m := None, rfc_q := rfc_q ctx1 @ [im1]\<rparr>));
     Some (if marker then (ctx2\<lparr>last_ts := ts, rfc_q := []\<rparr>, out1 @ rfc_q ctx2) else (ctx2, out1)) }"

fun rfc3984_unpack_all :: "Rfc3984Context \<Rightarrow> msg list \<Rightarrow> msg list \<Rightarrow> (Rfc3984Context \<times> msg list) option" where
  "rfc3984_unpack_all ctx [] out = Some (ctx, out)"
| "rfc3984_unpack_all ctx (im # ims) out = Option.bind (rfc3984_unpack ctx im out) (\<lambda>(c, o'). rfc3984_unpack_all c ims o')"

section \<open>Header bytes\<close>

lemma u8_mask5: "bit (w AND (31 :: u8)) n \<longleftrightarrow> bit w n \<and> n < 5"
proof -
  have "(31 :: u8) = mask 5" by (simp add: mask_eq_exp_minus_1)
  then show ?thesis by (simp only: bit_and_iff bit_mask_iff) (auto dest: bit_imp_le_length)
qed

lemma u8_mask2: "bit (w AND (3 :: u8)) n \<longleftrightarrow> bit w n \<and> n < 2"
proof -
  have "(3 :: u8) = mask 2" by (simp add: mask_eq_exp_minus_1)
  then show ?thesis by (simp only: bit_and_iff bit_mask_iff) (auto dest: bit_imp_le_length)
qed

lemma nal_type_init [simp]: "nal_header_get_type (nal_header_init nri t) = t AND 31"
  unfolding nal_header_get_type_def nal_header_init_def
  by (rule bit_word_eqI) (simp only: u8_mask5 u8_mask2 bit_or_iff bit_push_bit_iff, auto)

lemma nal_nri_init [simp]: "nal_header_get_nri (nal_header_init nri t) = nri AND 3"
  unfolding nal_header_get_nri_def nal_header_init_def
  by (rule bit_word_eqI) (simp only: u8_mask5 u8_mask2 bit_or_iff bit_push_bit_iff bit_drop_bit_eq comp_def, auto)

lemma nal_header_rebuild: "\<not> bit h 7 \<Longrightarrow> nal_header_init (nal_header_get_nri h AND 3) (nal_header_get_type h AND 31) = h"
proof (rule bit_word_eqI)
  fix n assume h: "\<not> bit h 7" and "n < LENGTH(8)"
  then have "n < 5 \<or> n = 5 \<or> n = 6 \<or> n = 7" by (simp, linarith)
  with h show "bit (nal_header_init (nal_header_get_nri h AND 3) (nal_header_get_type h AND 31)) n = bit h n"
    unfolding nal_header_init_def nal_header_get_nri_def nal_header_get_type_def
    by (simp only: u8_mask5 u8_mask2 bit_or_iff bit_push_bit_iff bit_drop_bit_eq comp_def) auto
qed

lemma fu_header_bits:
  "bit (fu_header_byte s e (t AND 31)) 7 = s" "bit (fu_header_byte s e (t AND 31)) 6 = e"
  "nal_header_get_type (fu_header_byte s e (t AND 31)) = t AND 31"
proof -
  show "bit (fu_header_byte s e (t AND 31)) 7 = s" "bit (fu_header_byte s e (t AND 31)) 6 = e"
    by (simp_all add: fu_header_byte_def bit_or_iff bit_push_bit_iff u8_mask5 bit_simps)
  show "nal_header_get_type (fu_header_byte s e (t AND 31)) = t AND 31"
    unfolding nal_header_get_type_def fu_header_byte_def
    by (rule bit_word_eqI) (auto simp: u8_mask5 bit_or_iff bit_push_bit_iff)
qed

section \<open>Packets that deliver NAL units\<close>

definition nal_ok :: "bytes \<Rightarrow> bool" where
  "nal_ok n \<longleftrightarrow> n \<noteq> [] \<and> \<not> bit (hd n) 7 \<and> nal_header_get_type (hd n) \<notin> {TYPE_STAP_A, TYPE_FU_A}"

definition unpacks :: "u32 \<Rightarrow> msg list \<Rightarrow> bytes list \<Rightarrow> bool \<Rightarrow> bool" where
  "unpacks ts pk ns mk \<longleftrightarrow> (\<forall>ctx out. rfc_m ctx = None \<longrightarrow> last_ts ctx = ts \<longrightarrow>
     (\<exists>ctx' out'. rfc3984_unpack_all ctx pk out = Some (ctx', out') \<and> rfc_m ctx' = None \<and> last_ts ctx' = ts
        \<and> (if mk then rfc_q ctx' = [] \<and> map msg_data out' = map msg_data out @ map msg_data (rfc_q ctx) @ ns
           else out' = out \<and> map msg_data (rfc_q ctx') = map msg_data (rfc_q ctx) @ ns)))"

definition sent :: "u32 \<Rightarrow> int \<Rightarrow> msg list \<Rightarrow> bool \<Rightarrow> bool" where
  "sent ts mx pk mk \<longleftrightarrow> pk \<noteq> [] \<and> (\<forall>p \<in> set pk. msg_size p \<le> mx \<and> mblk_get_timestamp_info p = ts)
     \<and> map mblk_get_marker_info pk = replicate (length pk - 1) False @ [mk]"

definition packed :: "u32 \<Rightarrow> int \<Rightarrow> msg list \<Rightarrow> bytes list \<Rightarrow> bool \<Rightarrow> bool" where
  "packed ts mx pk ns mk \<longleftrightarrow> sent ts mx pk mk \<and> unpacks ts pk ns mk"

lemma unpack_all_append:
  "rfc3984_unpack_all ctx (p @ r) out = Option.bind (rfc3984_unpack_all ctx p out) (\<lambda>(c, o'). rfc3984_unpack_all c r o')"
  by (induction p arbitrary: ctx out) (auto simp: bind_eq_Some_conv split: bind_splits)

lemma sent_append: "sent ts mx p False \<Longrightarrow> sent ts mx r mk \<Longrightarrow> sent ts mx (p @ r) mk"
proof -
  assume p: "sent ts mx p False" and r: "sent ts mx r mk"
  then obtain k l where k: "length p = Suc k" and l: "length r = Suc l" by (metis sent_def length_0_conv not0_implies_Suc)
  have "map mblk_get_marker_info (p @ r) = (replicate k False @ [False]) @ replicate l False @ [mk]"
    using p r k l by (simp add: sent_def)
  also have "\<dots> = replicate (length (p @ r) - 1) False @ [mk]"
    using k l by (simp add: replicate_add replicate_append_same)
  finally show ?thesis using p r by (auto simp: sent_def)
qed

lemma unpacks_append: "unpacks ts p ns False \<Longrightarrow> unpacks ts r ms mk \<Longrightarrow> unpacks ts (p @ r) (ns @ ms) mk"
proof -
  assume p: "unpacks ts p ns False" and r: "unpacks ts r ms mk"
  have "\<exists>ctx' out'. rfc3984_unpack_all ctx (p @ r) out = Some (ctx', out') \<and> rfc_m ctx' = None \<and> last_ts ctx' = ts
        \<and> (if mk then rfc_q ctx' = [] \<and> map msg_data out' = map msg_data out @ map msg_data (rfc_q ctx) @ ns @ ms
           else out' = out \<and> map msg_data (rfc_q ctx') = map msg_data (rfc_q ctx) @ ns @ ms)"
    if c: "rfc_m ctx = None" "last_ts ctx = ts" for ctx out
  proof -
    obtain c1 where c1: "rfc3984_unpack_all ctx p out = Some (c1, out)" "rfc_m c1 = None" "last_ts c1 = ts"
      "map msg_data (rfc_q c1) = map msg_data (rfc_q ctx) @ ns" using p c by (auto simp: unpacks_def)
    obtain c2 o2 where c2: "rfc3984_unpack_all c1 r out = Some (c2, o2)" "rfc_m c2 = None" "last_ts c2 = ts"
      "if mk then rfc_q c2 = [] \<and> map msg_data o2 = map msg_data out @ map msg_data (rfc_q c1) @ ms
           else o2 = out \<and> map msg_data (rfc_q c2) = map msg_data (rfc_q c1) @ ms"
      using r c1(2,3) unfolding unpacks_def by blast
    show ?thesis using c1 c2 by (cases mk) (auto simp: unpack_all_append)
  qed
  then show ?thesis by (simp add: unpacks_def)
qed

lemma packed_append: "packed ts mx p ns False \<Longrightarrow> packed ts mx r ms mk \<Longrightarrow> packed ts mx (p @ r) (ns @ ms) mk"
  by (simp add: packed_def sent_append unpacks_append)

text \<open>The two branches of the receiver that take one packet each.\<close>

lemma pullup_im: "m_blocks im \<noteq> [] \<Longrightarrow> m_blocks (if tl (m_blocks im) \<noteq> [] then msg_pullup im else im) = [msg_data im]"
  by (cases "m_blocks im") (auto simp: msg_pullup_def msg_data_def)

lemma first_byte_data: "m_blocks m \<noteq> [] \<Longrightarrow> byte_at (first_block m) 0 = Some h \<Longrightarrow> \<exists>t. msg_data m = h # t"
  by (cases "m_blocks m"; cases "first_block m") (auto simp: byte_at_def first_block_def msg_data_def split: if_splits)

lemma unpacks_single:
  assumes "m_blocks p \<noteq> []" "byte_at (first_block p) 0 = Some h" "nal_header_get_type h \<notin> {TYPE_STAP_A, TYPE_FU_A}"
    "mblk_get_timestamp_info p = ts" "mblk_get_marker_info p = mk"
  shows "unpacks ts [p] [msg_data p] mk"
  using assms pullup_im [OF assms(1)]
  by (auto simp: unpacks_def rfc3984_unpack_def msg_data_def [of "if _ then _ else _"]) (auto simp: msg_data_def msg_pullup_def)

lemma unpacks_stap:
  assumes "m_blocks p \<noteq> []" "byte_at (first_block p) 0 = Some h" "nal_header_get_type h = TYPE_STAP_A"
    "mblk_get_timestamp_info p = ts" "mblk_get_marker_info p = mk" "stap_a_split (tl (msg_data p)) = Some ns"
  shows "unpacks ts [p] ns mk"
proof -
  let ?im = "if tl (m_blocks p) \<noteq> [] then msg_pullup p else p"
  have fb: "first_block ?im = msg_data p" using pullup_im [OF assms(1)] by (simp add: first_block_def)
  have md: "map msg_data (map (\<lambda>nal. ?im\<lparr>m_blocks := [nal]\<rparr>) ns) = ns" by (simp add: comp_def msg_data_def)
  have "\<exists>ctx' out'. rfc3984_unpack_all ctx [p] out = Some (ctx', out') \<and> rfc_m ctx' = None \<and> last_ts ctx' = ts
        \<and> (if mk then rfc_q ctx' = [] \<and> map msg_data out' = map msg_data out @ map msg_data (rfc_q ctx) @ ns
           else out' = out \<and> map msg_data (rfc_q ctx') = map msg_data (rfc_q ctx) @ ns)"
    if "rfc_m ctx = None" "last_ts ctx = ts" for ctx out
    using that assms md unfolding rfc3984_unpack_all.simps rfc3984_unpack_def
    by (cases mk) (simp_all add: fb [simplified] Let_def comp_def)
  then show ?thesis by (simp add: unpacks_def)
qed

section \<open>Aggregates\<close>

definition stap_bytes :: "bytes list \<Rightarrow> bytes" where
  "stap_bytes ns = concat (map (\<lambda>n. put_nal_size (int (length n)) @ n) ns)"

lemma stap_bytes_simps [simp]:
  "stap_bytes [] = []" "stap_bytes (n # ns) = put_nal_size (int (length n)) @ n @ stap_bytes ns"
  "stap_bytes (ns @ ms) = stap_bytes ns @ stap_bytes ms"
  by (simp_all add: stap_bytes_def)

lemma stap_a_split_bytes: "\<forall>n \<in> set ns. length n < 65536 \<Longrightarrow> stap_a_split (stap_bytes ns) = Some ns"
proof (induction ns)
  case (Cons n ns)
  have "unat (word_of_int (int (length n)) :: u16) = length n" using Cons.prems by (simp add: unat_of_nat)
  with Cons show ?case by (simp add: put_nal_size_def be16_bytes_def)
qed simp

text \<open>What the packer holds back: one NAL unit, or an aggregate of several.\<close>

definition prev_ok :: "int \<Rightarrow> msg \<Rightarrow> int \<Rightarrow> bytes list \<Rightarrow> bool" where
  "prev_ok mx p psz ns \<longleftrightarrow> (\<forall>n \<in> set ns. int (length n) < mx)
     \<and> ((\<exists>n. ns = [n] \<and> m_blocks p = [n] \<and> nal_ok n \<and> psz = int (length n) + 3)
        \<or> (\<exists>h t r. m_blocks p = (h # t) # r \<and> nal_header_get_type h = TYPE_STAP_A \<and> msg_data p = h # stap_bytes ns
             \<and> psz = msg_size p \<and> psz \<le> mx))"

lemma send_packet_append: "send_packet rtpq ts m mk = rtpq @ send_packet [] ts m mk"
  by (simp add: send_packet_def)

lemma sent_one: "msg_size p \<le> mx \<Longrightarrow> sent ts mx (send_packet [] ts p mk) mk"
  by (simp add: sent_def send_packet_def msg_size_def msg_data_def)

lemma send_packet_view:
  "\<exists>q. send_packet [] ts p mk = [q] \<and> m_blocks q = m_blocks p \<and> mblk_get_timestamp_info q = ts \<and> mblk_get_marker_info q = mk"
  by (simp add: send_packet_def)

lemma packed_single:
  assumes "m_blocks p = [n]" "nal_ok n" "int (length n) \<le> mx"
  shows "packed ts mx (send_packet [] ts p mk) [n] mk"
proof -
  obtain q where q: "send_packet [] ts p mk = [q]" "m_blocks q = m_blocks p" "mblk_get_timestamp_info q = ts"
    "mblk_get_marker_info q = mk" using send_packet_view by blast
  have "unpacks ts [q] [msg_data q] mk"
    by (rule unpacks_single [of _ "hd n"]) (use q assms in \<open>auto simp: nal_ok_def byte_at_def first_block_def hd_conv_nth\<close>)
  moreover have "sent ts mx [q] mk" using sent_one [of p mx ts mk] assms by (simp add: q(1) msg_size_def msg_data_def)
  ultimately show ?thesis by (simp add: packed_def q(1) msg_data_def [of q] q(2) assms(1))
qed

lemma packed_prev:
  assumes "prev_ok mx p psz ns" "mx \<le> 65535"
  shows "packed ts mx (send_packet [] ts p mk) ns mk"
proof -
  have len: "\<forall>n \<in> set ns. int (length n) < mx" using assms(1) by (simp add: prev_ok_def)
  from assms(1) consider (one) n where "ns = [n]" "m_blocks p = [n]" "nal_ok n"
    | (many) h t r where "m_blocks p = (h # t) # r" "nal_header_get_type h = TYPE_STAP_A" "msg_data p = h # stap_bytes ns"
        "msg_size p \<le> mx" unfolding prev_ok_def by auto
  then show ?thesis
  proof cases
    case one
    then show ?thesis using packed_single [of p n mx ts mk] len by auto
  next
    case many
    obtain q where q: "send_packet [] ts p mk = [q]" "m_blocks q = m_blocks p" "mblk_get_timestamp_info q = ts"
      "mblk_get_marker_info q = mk" using send_packet_view by blast
    have d: "msg_data q = h # stap_bytes ns" using q(2) many(3) by (simp add: msg_data_def)
    have "stap_a_split (stap_bytes ns) = Some ns" by (rule stap_a_split_bytes) (use len assms(2) in fastforce)
    then have "unpacks ts [q] ns mk"
      by (intro unpacks_stap [of _ h]) (use q many d in \<open>auto simp: byte_at_def first_block_def\<close>)
    with sent_one [OF many(4), of ts mk] show ?thesis by (simp add: packed_def q(1))
  qed
qed

lemma concat_nalus_prev:
  assumes p: "prev_ok mx p psz ns" and m: "m_blocks m = [n]" and fit: "psz + int (length n) < mx - 2"
  shows "\<exists>p'. concat_nalus p m = Some p' \<and> prev_ok mx p' (psz + (int (length n) + 2)) (ns @ [n])"
proof -
  have len: "\<forall>n \<in> set ns. int (length n) < mx" using p by (simp add: prev_ok_def)
  have n: "int (length n) < mx" using p fit by (auto simp: prev_ok_def msg_size_def)
  from p consider (one) k where "ns = [k]" "m_blocks p = [k]" "nal_ok k" "psz = int (length k) + 3"
    | (many) h t r where "m_blocks p = (h # t) # r" "nal_header_get_type h = TYPE_STAP_A" "msg_data p = h # stap_bytes ns"
        "psz = msg_size p" unfolding prev_ok_def by auto
  then show ?thesis
  proof cases
    case one
    then obtain b bs where k: "k = b # bs" by (cases k) (auto simp: nal_ok_def)
    have b: "nal_header_get_type b \<noteq> TYPE_STAP_A" using one(3) by (simp add: nal_ok_def k)
    then show ?thesis using one m len n fit
      by (simp add: concat_nalus_def prepend_stapa_def byte_at_def first_block_def k msg_concat_def msg_of_def prev_ok_def
          msg_size_def msg_data_def TYPE_STAP_A_def put_nal_size_def)
  next
    case many
    then have "stap_bytes ns = t @ concat r" by (simp add: msg_data_def)
    then show ?thesis using many m len n fit
      by (simp add: concat_nalus_def byte_at_def first_block_def msg_concat_def msg_of_def prev_ok_def
          msg_size_def msg_data_def put_nal_size_def)
  qed
qed

section \<open>Fragments\<close>

text \<open>A fragment on the wire: indicator, FU header, payload; how the receiver takes it.\<close>

definition fragment :: "u32 \<Rightarrow> u8 \<Rightarrow> u8 \<Rightarrow> bool \<Rightarrow> bool \<Rightarrow> bool \<Rightarrow> bytes \<Rightarrow> msg \<Rightarrow> bool" where
  "fragment ts nri t start end mk d q \<longleftrightarrow> m_blocks q = [[nal_header_init nri TYPE_FU_A, fu_header_byte start end (t AND 31)], d]
     \<and> mblk_get_timestamp_info q = ts \<and> mblk_get_marker_info q = mk"

lemma unpack_fragment_start:
  assumes "fragment ts nri t True False False d q" "last_ts ctx = ts"
  shows "\<exists>m. rfc3984_unpack ctx q out = Some (ctx\<lparr>rfc_m := Some m\<rparr>, out) \<and> msg_data m = nal_header_init (nri AND 3) (t AND 31) # d"
  using assms by (intro exI [of _ "q\<lparr>m_blocks := [nal_header_init (nri AND 3) (t AND 31) # d]\<rparr>"]) (simp add: fragment_def rfc3984_unpack_def aggregate_fua_def byte_at_def first_block_def msg_pullup_def
      msg_data_def fu_header_bits TYPE_FU_A_def TYPE_STAP_A_def)

lemma unpack_fragment_middle:
  assumes "fragment ts nri t False False False d q" "last_ts ctx = ts" "rfc_m ctx = Some m"
  shows "\<exists>m'. rfc3984_unpack ctx q out = Some (ctx\<lparr>rfc_m := Some m'\<rparr>, out) \<and> msg_data m' = msg_data m @ d"
  using assms by (intro exI [of _ "m\<lparr>m_blocks := m_blocks m @ [d]\<rparr>"]) (simp add: fragment_def rfc3984_unpack_def aggregate_fua_def byte_at_def first_block_def msg_pullup_def
      msg_data_def msg_concat_def fu_header_bits TYPE_FU_A_def TYPE_STAP_A_def)

lemma unpack_fragment_end:
  assumes "fragment ts nri t False True mk d q" "last_ts ctx = ts" "rfc_m ctx = Some m"
  shows "\<exists>m'. rfc3984_unpack ctx q out = Some (if mk then (ctx\<lparr>rfc_m := None, rfc_q := []\<rparr>, out @ rfc_q ctx @ [m'])
       else (ctx\<lparr>rfc_m := None, rfc_q := rfc_q ctx @ [m']\<rparr>, out)) \<and> msg_data m' = msg_data m @ d"
  using assms by (intro exI [of _ "m\<lparr>m_blocks := [concat (m_blocks m) @ d]\<rparr>"]) (simp add: fragment_def rfc3984_unpack_def aggregate_fua_def byte_at_def first_block_def msg_pullup_def
      msg_data_def msg_concat_def fu_header_bits TYPE_FU_A_def TYPE_STAP_A_def)

lemma send_fragment:
  assumes "m_blocks m = [b]"
  shows "\<exists>q. send_packet rtpq ts (prepend_fu_indicator_and_header m (nal_header_init nri TYPE_FU_A) start end (t AND 31)) mk = rtpq @ [q]
    \<and> fragment ts nri t start end mk (if start then tl b else b) q"
  using assms by (simp add: send_packet_def fragment_def prepend_fu_indicator_and_header_def msg_concat_def msg_of_def first_block_def)

lemma fragment_sent:
  "fragment ts nri t start end mk d q \<Longrightarrow> int (length d) + 2 \<le> mx \<Longrightarrow> sent ts mx [q] mk"
  by (simp add: fragment_def sent_def msg_size_def msg_data_def)

text \<open>The loop after the first fragment: it ends, and what it sends carries the bytes in order.\<close>

lemma frag_loop_middle:
  assumes "0 < mp" "m_blocks nalu = [b]" "b \<noteq> []"
  shows "\<exists>rest c pk. frag_loop mp (nal_header_init nri TYPE_FU_A) (t AND 31) ts nalu False rtpq = Some (rest, rtpq @ pk)
     \<and> m_blocks rest = [c] \<and> int (length c) \<le> mp \<and> (pk = [] \<or> sent ts (mp + 2) pk False)
     \<and> (\<forall>ctx m out. rfc_m ctx = Some m \<longrightarrow> last_ts ctx = ts \<longrightarrow>
          (\<exists>m'. rfc3984_unpack_all ctx pk out = Some (ctx\<lparr>rfc_m := Some m'\<rparr>, out) \<and> msg_data m' @ c = msg_data m @ b))"
  using assms(2,3)
proof (induction "length b" arbitrary: b nalu rtpq rule: less_induct)
  case less
  show ?case
  proof (cases "mp < int (length b)")
    case False
    then have "frag_loop mp (nal_header_init nri TYPE_FU_A) (t AND 31) ts nalu False rtpq = Some (nalu, rtpq @ [])"
      using less.prems by (subst frag_loop.simps) (simp add: first_block_def)
    moreover have "\<exists>m'. rfc3984_unpack_all ctx [] out = Some (ctx\<lparr>rfc_m := Some m'\<rparr>, out) \<and> msg_data m' @ b = msg_data m @ b"
      if "rfc_m ctx = Some m" for ctx m out
      using that by (intro exI [of _ m]) (cases ctx, simp)
    ultimately show ?thesis using False less.prems by (intro exI [of _ nalu] exI [of _ b] exI [of _ "[]"]) auto
  next
    case True
    let ?n = "nat mp" let ?nalu = "nalu\<lparr>m_blocks := drop ?n b # tl (m_blocks nalu)\<rparr>"
    let ?m = "nalu\<lparr>m_blocks := [take ?n b]\<rparr>"
    obtain q where q: "send_packet rtpq ts (prepend_fu_indicator_and_header ?m (nal_header_init nri TYPE_FU_A) False False (t AND 31)) False
        = rtpq @ [q]" "fragment ts nri t False False False (take ?n b) q"
      using send_fragment [of ?m "take ?n b" rtpq ts nri False False t False] by auto
    have step: "frag_loop mp (nal_header_init nri TYPE_FU_A) (t AND 31) ts nalu False rtpq
        = frag_loop mp (nal_header_init nri TYPE_FU_A) (t AND 31) ts ?nalu False (rtpq @ [q])"
      using True assms(1) less.prems q(1) by (subst frag_loop.simps) (simp add: first_block_def Let_def)
    have "length (drop ?n b) < length b" "m_blocks ?nalu = [drop ?n b]" "drop ?n b \<noteq> []"
      using True assms(1) less.prems by auto
    from less.hyps [OF this] obtain rest c pk where
      r: "frag_loop mp (nal_header_init nri TYPE_FU_A) (t AND 31) ts ?nalu False (rtpq @ [q]) = Some (rest, (rtpq @ [q]) @ pk)"
        "m_blocks rest = [c]" "int (length c) \<le> mp" "pk = [] \<or> sent ts (mp + 2) pk False"
        "\<forall>ctx m out. rfc_m ctx = Some m \<longrightarrow> last_ts ctx = ts \<longrightarrow>
          (\<exists>m'. rfc3984_unpack_all ctx pk out = Some (ctx\<lparr>rfc_m := Some m'\<rparr>, out) \<and> msg_data m' @ c = msg_data m @ drop ?n b)"
      by blast
    have s: "sent ts (mp + 2) [q] False" by (rule fragment_sent [OF q(2)]) (use assms(1) in auto)
    have "\<exists>m'. rfc3984_unpack_all ctx (q # pk) out = Some (ctx\<lparr>rfc_m := Some m'\<rparr>, out) \<and> msg_data m' @ c = msg_data m @ b"
      if c: "rfc_m ctx = Some m" "last_ts ctx = ts" for ctx m out
    proof -
      obtain m1 where m1: "rfc3984_unpack ctx q out = Some (ctx\<lparr>rfc_m := Some m1\<rparr>, out)" "msg_data m1 = msg_data m @ take ?n b"
        using unpack_fragment_middle [OF q(2) c(2,1)] by blast
      with r(5) [rule_format, of "ctx\<lparr>rfc_m := Some m1\<rparr>" m1 out] c(2) show ?thesis by auto
    qed
    moreover have "sent ts (mp + 2) (q # pk) False" using s r(4) sent_append [of ts "mp + 2" "[q]" pk False] by auto
    ultimately show ?thesis using r(1-3) by (intro exI [of _ rest] exI [of _ c] exI [of _ "q # pk"]) (auto simp: step)
  qed
qed

lemma rfc_m_None: "rfc_m ctx = None \<Longrightarrow> ctx\<lparr>rfc_m := None\<rparr> = ctx"
  by (cases ctx) simp

lemma frag_nalu_ok:
  assumes m: "m_blocks m = [n]" and n: "nal_ok n" and mx: "3 \<le> mx" "mx < int (length n)"
  shows "\<exists>pk. frag_nalu_and_send rtpq ts m mk mx = Some (rtpq @ pk) \<and> packed ts mx pk [n] mk"
proof -
  obtain h t where nt: "n = h # t" using n by (cases n) (auto simp: nal_ok_def)
  let ?nri = "nal_header_get_nri h" and ?t = "nal_header_get_type h" and ?k = "nat (mx - 2)"
  let ?m = "m\<lparr>m_blocks := [take ?k n]\<rparr>" and ?nalu = "m\<lparr>m_blocks := drop ?k n # tl (m_blocks m)\<rparr>"
  let ?ind = "nal_header_init ?nri TYPE_FU_A"
  have t31: "?t AND 31 = ?t" "?nri AND 3 = ?nri" by (simp_all add: nal_header_get_type_def nal_header_get_nri_def and.assoc)
  have hdr: "nal_header_init ?nri ?t = h" using nal_header_rebuild [of h] n t31 by (simp add: nal_ok_def nt)
  obtain q where q: "send_packet rtpq ts (prepend_fu_indicator_and_header ?m ?ind True False ?t) False = rtpq @ [q]"
      "fragment ts ?nri ?t True False False (tl (take ?k n)) q"
    using send_fragment [of ?m "take ?k n" rtpq ts ?nri True False ?t False] by (auto simp: t31)
  have step: "frag_loop (mx - 2) ?ind ?t ts m True rtpq = frag_loop (mx - 2) ?ind ?t ts ?nalu False (rtpq @ [q])"
    using m mx q(1) by (subst frag_loop.simps) (simp add: first_block_def Let_def)
  have "0 < mx - 2" "m_blocks ?nalu = [drop ?k n]" "drop ?k n \<noteq> []" using m mx by auto
  from frag_loop_middle [OF this, of ?nri ?t ts "rtpq @ [q]"] obtain rest c pk where
    r: "frag_loop (mx - 2) ?ind ?t ts ?nalu False (rtpq @ [q]) = Some (rest, (rtpq @ [q]) @ pk)"
       "m_blocks rest = [c]" "int (length c) \<le> mx - 2" "pk = [] \<or> sent ts mx pk False"
       "\<forall>ctx m out. rfc_m ctx = Some m \<longrightarrow> last_ts ctx = ts \<longrightarrow>
          (\<exists>m'. rfc3984_unpack_all ctx pk out = Some (ctx\<lparr>rfc_m := Some m'\<rparr>, out) \<and> msg_data m' @ c = msg_data m @ drop ?k n)"
    by (auto simp: t31)
  obtain e where e: "send_packet ((rtpq @ [q]) @ pk) ts (prepend_fu_indicator_and_header rest ?ind False True ?t) mk
      = ((rtpq @ [q]) @ pk) @ [e]" "fragment ts ?nri ?t False True mk c e"
    using send_fragment [OF r(2), of "(rtpq @ [q]) @ pk" ts ?nri False True ?t mk] by (auto simp: t31)
  have b: "byte_at (first_block m) 0 = Some h" using m by (simp add: byte_at_def first_block_def nt)
  have "frag_nalu_and_send rtpq ts m mk mx = Some (rtpq @ q # pk @ [e])"
    using b step r(1) e(1) by (simp add: frag_nalu_and_send_def)
  moreover have "sent ts mx (([q] @ pk) @ [e]) mk"
  proof (rule sent_append)
    have "sent ts mx [q] False" by (rule fragment_sent [OF q(2)]) (use mx in auto)
    then show "sent ts mx ([q] @ pk) False" using r(4) sent_append [of ts mx "[q]" pk False] by auto
    show "sent ts mx [e] mk" by (rule fragment_sent [OF e(2)]) (use r(3) in auto)
  qed
  moreover have "unpacks ts (q # pk @ [e]) [n] mk"
    unfolding unpacks_def
  proof (intro allI impI)
    fix ctx :: Rfc3984Context and out assume c0: "rfc_m ctx = None" "last_ts ctx = ts"
    obtain m1 where m1: "rfc3984_unpack ctx q out = Some (ctx\<lparr>rfc_m := Some m1\<rparr>, out)"
        "msg_data m1 = h # tl (take ?k n)" using unpack_fragment_start [OF q(2) c0(2)] by (auto simp: t31 hdr)
    have "msg_data m1 = take ?k n" using m1(2) mx by (simp add: nt take_Cons')
    with r(5) [rule_format, of "ctx\<lparr>rfc_m := Some m1\<rparr>" m1 out] c0(2) obtain m2 where
      m2: "rfc3984_unpack_all (ctx\<lparr>rfc_m := Some m1\<rparr>) pk out = Some (ctx\<lparr>rfc_m := Some m2\<rparr>, out)" "msg_data m2 @ c = n"
      by auto
    obtain m3 where m3: "rfc3984_unpack (ctx\<lparr>rfc_m := Some m2\<rparr>) e out = Some
        (if mk then (ctx\<lparr>rfc_m := None, rfc_q := []\<rparr>, out @ rfc_q ctx @ [m3])
         else (ctx\<lparr>rfc_m := None, rfc_q := rfc_q ctx @ [m3]\<rparr>, out))" "msg_data m3 = n"
      using unpack_fragment_end [OF e(2), of "ctx\<lparr>rfc_m := Some m2\<rparr>" m2 out] c0(2) m2(2) by (cases mk) auto
    show "\<exists>ctx' out'. rfc3984_unpack_all ctx (q # pk @ [e]) out = Some (ctx', out') \<and> rfc_m ctx' = None \<and> last_ts ctx' = ts
        \<and> (if mk then rfc_q ctx' = [] \<and> map msg_data out' = map msg_data out @ map msg_data (rfc_q ctx) @ [n]
           else out' = out \<and> map msg_data (rfc_q ctx') = map msg_data (rfc_q ctx) @ [n])"
      using m1(1) m2(1) m3 c0 by (cases mk) (simp_all add: unpack_all_append)
  qed
  ultimately show ?thesis by (intro exI [of _ "q # pk @ [e]"]) (simp add: packed_def)
qed

lemma send_single_or_fua_ok:
  assumes "m_blocks m = [n]" "nal_ok n" "3 \<le> maxsz ctx"
  shows "\<exists>pk. send_single_or_fua ctx ts m mk rtpq = Some (rtpq @ pk) \<and> packed ts (maxsz ctx) pk [n] mk"
proof (cases "maxsz ctx < int (length n)")
  case True
  with frag_nalu_ok [OF assms(1-3) True, of rtpq ts mk] assms(1) show ?thesis by (simp add: send_single_or_fua_def first_block_def)
next
  case False
  with packed_single [OF assms(1,2), of "maxsz ctx" ts mk] assms(1) show ?thesis
    using send_packet_append [of rtpq ts m mk] by (auto simp: send_single_or_fua_def first_block_def)
qed

section \<open>The packing loop\<close>

lemma prev_ok_start:
  "m_blocks m = [n] \<Longrightarrow> nal_ok n \<Longrightarrow> int (length n) < mx \<Longrightarrow> prev_ok mx m (int (length n) + 3) [n]"
  by (simp add: prev_ok_def)

lemma pack_mode_1_loop_ok:
  assumes "\<forall>m \<in> set ms. \<exists>n. m_blocks m = [n] \<and> nal_ok n" "3 \<le> maxsz ctx" "maxsz ctx \<le> 65535"
    and "case prevm of None \<Rightarrow> ns = [] \<and> ms \<noteq> [] | Some p \<Rightarrow> stap_a_allowed ctx \<and> prev_ok (maxsz ctx) p psz ns"
  shows "\<exists>pk. pack_mode_1_loop ctx ts ms prevm psz rtpq = Some (rtpq @ pk)
     \<and> packed ts (maxsz ctx) pk (ns @ map msg_data ms) True"
  using assms(1,4)
proof (induction ms arbitrary: prevm psz ns rtpq)
  case Nil
  then obtain p where "prevm = Some p" "prev_ok (maxsz ctx) p psz ns" by (auto split: option.splits)
  with packed_prev [OF this(2) assms(3), of ts True] show ?case using send_packet_append [of rtpq ts p True] by auto
next
  case (Cons m ms)
  let ?mx = "maxsz ctx"
  obtain n where n: "m_blocks m = [n]" "nal_ok n" "msg_data m = n" "first_block m = n"
    using Cons.prems(1) by (auto simp: msg_data_def first_block_def)
  have half: "int (length n) < c_div ?mx 2 \<Longrightarrow> int (length n) < ?mx" using assms(2) by (simp add: c_div_nonneg)
  have aggr: "\<exists>pk. pack_mode_1_loop ctx ts ms (Some m) (int (length n) + 3) r = Some (r @ pk)
       \<and> packed ts ?mx pk (n # map msg_data ms) True" if "stap_a_allowed ctx" "int (length n) < c_div ?mx 2" for r
    using Cons.IH [where prevm = "Some m" and psz = "int (length n) + 3" and ns = "[n]" and rtpq = r] Cons.prems(1) that half prev_ok_start [OF n(1,2)] by auto
  have alone: "\<exists>pk. Option.bind (send_single_or_fua ctx ts m (ms = []) r) (\<lambda>r. pack_mode_1_loop ctx ts ms None z r) = Some (r @ pk)
       \<and> packed ts ?mx pk (n # map msg_data ms) True" for r z
  proof -
    obtain pk where pk: "send_single_or_fua ctx ts m (ms = []) r = Some (r @ pk)" "packed ts ?mx pk [n] (ms = [])"
      using send_single_or_fua_ok [OF n(1,2) assms(2), of ts "ms = []" r] by blast
    show ?thesis
    proof (cases "ms = []")
      case True
      then show ?thesis using pk by simp
    next
      case False
      obtain pk' where "pack_mode_1_loop ctx ts ms None z (r @ pk) = Some ((r @ pk) @ pk')"
          "packed ts ?mx pk' ([] @ map msg_data ms) True" using Cons.IH [where prevm = None and ns = "[]" and psz = z and rtpq = "r @ pk"] Cons.prems(1) False by auto
      then show ?thesis using pk False packed_append [of ts ?mx pk "[n]" pk' "map msg_data ms" True]
        by (intro exI [of _ "pk @ pk'"]) simp
    qed
  qed
  show ?case
  proof (cases prevm)
    case None
    then show ?thesis using Cons.prems(2) aggr [of rtpq] alone [of rtpq psz] by (simp add: n Let_def)
  next
    case (Some p)
    then have p: "stap_a_allowed ctx" "prev_ok ?mx p psz ns" using Cons.prems(2) by auto
    show ?thesis
    proof (cases "psz + int (length n) < ?mx - 2")
      case True
      obtain p' where "concat_nalus p m = Some p'" "prev_ok ?mx p' (psz + (int (length n) + 2)) (ns @ [n])"
        using concat_nalus_prev [OF p(2) n(1) True] by blast
      then show ?thesis using Cons.IH [where prevm = "Some p'" and psz = "psz + (int (length n) + 2)" and ns = "ns @ [n]" and rtpq = rtpq] Cons.prems(1) p(1) True Some
        by (simp add: n Let_def)
    next
      case False
      let ?s = "send_packet [] ts p False"
      have s: "packed ts ?mx ?s ns False" by (rule packed_prev [OF p(2) assms(3)])
      have sp: "send_packet rtpq ts p False = rtpq @ ?s" by (rule send_packet_append)
      have "\<exists>pk. (if int (length n) < c_div ?mx 2 then pack_mode_1_loop ctx ts ms (Some m) (int (length n) + 3) (rtpq @ ?s)
           else Option.bind (send_single_or_fua ctx ts m (ms = []) (rtpq @ ?s)) (\<lambda>r. pack_mode_1_loop ctx ts ms None 0 r))
           = Some ((rtpq @ ?s) @ pk) \<and> packed ts ?mx pk (n # map msg_data ms) True"
        using aggr [OF p(1), of "rtpq @ ?s"] alone [of "rtpq @ ?s" 0] by simp
      then obtain pk where pk: "pack_mode_1_loop ctx ts (m # ms) prevm psz rtpq = Some ((rtpq @ ?s) @ pk)"
          "packed ts ?mx pk (n # map msg_data ms) True" using p(1) False Some by (auto simp: n Let_def sp)
      with packed_append [OF s pk(2)] show ?thesis by (intro exI [of _ "?s @ pk"]) (simp add: n(3))
    qed
  qed
qed

lemma unpack_new_ts:
  assumes "rfc_m ctx = None" "rfc_q ctx = []"
  shows "rfc3984_unpack ctx p out = rfc3984_unpack (ctx\<lparr>last_ts := mblk_get_timestamp_info p\<rparr>) p out"
  using assms by (cases ctx) (simp add: rfc3984_unpack_def Let_def)

lemma unpack_all_new_ts:
  assumes "rfc_m ctx = None" "rfc_q ctx = []" "pk \<noteq> []" "\<forall>p \<in> set pk. mblk_get_timestamp_info p = ts"
  shows "rfc3984_unpack_all ctx pk out = rfc3984_unpack_all (ctx\<lparr>last_ts := ts\<rparr>) pk out"
  using assms unpack_new_ts [OF assms(1,2)] by (cases pk) auto

lemma frag_loop_stuck: "frag_loop 0 i t ts nalu start rtpq = Some r \<Longrightarrow> first_block nalu = []"
proof -
  have "mp = 0 \<longrightarrow> first_block nalu = []" if "frag_loop mp i t ts nalu start rtpq = Some r" for mp
    using that
  proof (induction rule: frag_loop.raw_induct [rotated, consumes 1])
    case (1 loop mp i t ts nalu start rtpq r)
    show ?case
    proof
      assume "mp = 0"
      show "first_block nalu = []"
      proof (rule ccontr)
        assume "first_block nalu \<noteq> []"
        with 1(2) \<open>mp = 0\<close> obtain nalu' rtpq' where "loop mp i t ts nalu' False rtpq' = Some r" "first_block nalu' = first_block nalu"
          by (auto simp: Let_def first_block_def)
        with 1(1) \<open>mp = 0\<close> \<open>first_block nalu \<noteq> []\<close> show False by fastforce
      qed
    qed
  qed
  then show "frag_loop 0 i t ts nalu start rtpq = Some r \<Longrightarrow> first_block nalu = []" by blast
qed

section \<open>Properties\<close>

text \<open>C1: packetisation mode 1 round trip. For every payload size from 3 to 65535 bytes and every queue of NAL units (one
  block each, forbidden bit clear, not themselves of type 24 or 28), with or without aggregation, packing ends, every
  packet has the frame's timestamp and fits the payload size, the marker is on the last packet only, and a receiver that
  has nothing pending outputs exactly the NAL units, in order, and has nothing pending again.\<close>

theorem rfc3984_roundtrip:
  assumes "rfc_mode tx = 1" and "3 \<le> maxsz tx" and "maxsz tx \<le> 65535" and "nals \<noteq> []"
    and "\<forall>m \<in> set nals. \<exists>n. m_blocks m = [n] \<and> nal_ok n" and "rfc_q rx = []" and "rfc_m rx = None"
  shows "\<exists>pk rx' out. rfc3984_pack tx nals [] ts = Some ([], pk)
     \<and> (\<forall>p \<in> set pk. msg_size p \<le> maxsz tx \<and> mblk_get_timestamp_info p = ts)
     \<and> map mblk_get_marker_info pk = replicate (length pk - 1) False @ [True]
     \<and> rfc3984_unpack_all rx pk [] = Some (rx', out) \<and> map msg_data out = map msg_data nals
     \<and> rfc_q rx' = [] \<and> rfc_m rx' = None"
proof -
  have "\<exists>pk. pack_mode_1_loop tx ts nals None 0 [] = Some ([] @ pk) \<and> packed ts (maxsz tx) pk ([] @ map msg_data nals) True"
    by (rule pack_mode_1_loop_ok) (use assms in auto)
  then obtain pk where pk: "pack_mode_1_loop tx ts nals None 0 [] = Some pk" "sent ts (maxsz tx) pk True"
     "unpacks ts pk (map msg_data nals) True" by (auto simp: packed_def)
  have "\<exists>rx' out. rfc3984_unpack_all (rx\<lparr>last_ts := ts\<rparr>) pk [] = Some (rx', out) \<and> map msg_data out = map msg_data nals
     \<and> rfc_q rx' = [] \<and> rfc_m rx' = None"
    using pk(3) [unfolded unpacks_def, rule_format, of "rx\<lparr>last_ts := ts\<rparr>" "[]"] assms(6,7) by auto
  moreover have "rfc3984_unpack_all rx pk [] = rfc3984_unpack_all (rx\<lparr>last_ts := ts\<rparr>) pk []"
    by (rule unpack_all_new_ts) (use assms(6,7) pk(2) in \<open>auto simp: sent_def\<close>)
  ultimately show ?thesis using pk(1,2) assms(1) by (auto simp: rfc3984_pack_def rfc3984_pack_mode_1_def sent_def)
qed

theorem rfc3984_roundtrip_witness:
  "\<exists>pk rx' out. rfc3984_pack (rfc3984_enable_stap_a (rfc3984_set_mode (rfc3984_init 10) 1) True)
        [msg_of [0x67, 1], msg_of [0x68, 2], msg_of (0x65 # replicate 30 9)] [] 90000 = Some ([], pk)
     \<and> (\<forall>p \<in> set pk. msg_size p \<le> 10 \<and> mblk_get_timestamp_info p = 90000)
     \<and> map mblk_get_marker_info pk = replicate (length pk - 1) False @ [True]
     \<and> rfc3984_unpack_all (rfc3984_init 10) pk [] = Some (rx', out)
     \<and> map msg_data out = [[0x67, 1], [0x68, 2], 0x65 # replicate 30 9] \<and> rfc_q rx' = [] \<and> rfc_m rx' = None"
proof -
  let ?tx = "rfc3984_enable_stap_a (rfc3984_set_mode (rfc3984_init 10) 1) True"
  let ?nals = "[msg_of [0x67, 1], msg_of [0x68, 2], msg_of (0x65 # replicate 30 9)]"
  have "rfc_mode ?tx = 1" "maxsz ?tx = 10" by (simp_all add: rfc3984_enable_stap_a_def rfc3984_set_mode_def rfc3984_init_def)
  moreover have "\<forall>m \<in> set ?nals. \<exists>n. m_blocks m = [n] \<and> nal_ok n"
    by (simp add: msg_of_def nal_ok_def nal_header_get_type_def TYPE_STAP_A_def TYPE_FU_A_def)
  ultimately show ?thesis using rfc3984_roundtrip [of ?tx ?nals "rfc3984_init 10" 90000]
    by (simp add: rfc3984_init_def [of 10] msg_of_def msg_data_def)
qed

text \<open>The fragmentation loop advances by two bytes less than the payload size, so with a size of 2 it never ends
  on a NAL unit that does not fit, and with a smaller one it leaves the buffer: no result in either case.\<close>

theorem frag_needs_three_bytes:
  assumes "maxsize \<le> 2" and "2 < length n" and "m_blocks nalu = [n]"
  shows "frag_nalu_and_send rtpq ts nalu marker maxsize = None"
proof -
  have "frag_loop (maxsize - 2) i t ts nalu True rtpq = None" for i t
  proof (cases "maxsize = 2")
    case True
    then show ?thesis using frag_loop_stuck [of i t ts nalu True rtpq] assms(2,3)
      by (cases "frag_loop 0 i t ts nalu True rtpq") (auto simp: first_block_def)
  next
    case False
    then show ?thesis using assms by (subst frag_loop.simps) (simp add: first_block_def)
  qed
  then show ?thesis by (auto simp: frag_nalu_and_send_def Let_def split: bind_splits)
qed

theorem frag_needs_three_bytes_witness:
  "frag_nalu_and_send [] 0 (msg_of [0x65, 1, 2]) True 2 = None"
  by (rule frag_needs_three_bytes [of _ "[0x65, 1, 2]"]) (simp_all add: msg_of_def)

text \<open>The receiver trusts the packet's length: a one-byte FU-A packet, and a STAP-A packet with one byte behind its
  last NAL unit, make it read behind the end of the message.\<close>

theorem unpack_reads_past_the_end:
  assumes "\<forall>n \<in> set ns. length n < 65536" and "nal_header_get_type h = TYPE_STAP_A" and "nal_header_get_type g = TYPE_FU_A"
  shows "rfc3984_unpack ctx (msg_of [g]) out = None
     \<and> rfc3984_unpack ctx (msg_of (h # stap_bytes ns @ [b])) out = None"
proof
  show "rfc3984_unpack ctx (msg_of [g]) out = None"
    using assms(3) by (simp add: rfc3984_unpack_def msg_of_def first_block_def byte_at_def aggregate_fua_def TYPE_STAP_A_def TYPE_FU_A_def Let_def)
  have "stap_a_split (stap_bytes ns @ [b]) = None" using assms(1)
  proof (induction ns)
    case (Cons n ns)
    have "unat (word_of_int (int (length n)) :: u16) = length n" using Cons.prems by (simp add: unat_of_nat)
    with Cons show ?case by (simp add: put_nal_size_def be16_bytes_def)
  qed simp
  then show "rfc3984_unpack ctx (msg_of (h # stap_bytes ns @ [b])) out = None"
    using assms(2) by (simp add: rfc3984_unpack_def msg_of_def first_block_def byte_at_def Let_def)
qed

theorem unpack_reads_past_the_end_witness:
  "rfc3984_unpack (rfc3984_init 1400) (msg_of [0x7C]) [] = None
     \<and> rfc3984_unpack (rfc3984_init 1400) (msg_of (0x78 # stap_bytes [[0x67, 1]] @ [0])) [] = None"
  by (rule unpack_reads_past_the_end) (simp_all add: nal_header_get_type_def TYPE_STAP_A_def TYPE_FU_A_def)

end
