(* ===== verification/C_Float.thy ===== *)
theory C_Float
  imports Conf_Prelude Complex_Main "HOL-Library.Log_Nat"
begin

text \<open>
  The floating-point arithmetic that the C code uses, over the rational numbers: \<open>fround p\<close> rounds to \<open>p\<close> binary
  digits, to nearest with ties to even, as IEEE 754 does (\<open>p = 24\<close> for \<open>float\<close>, 53 for \<open>double\<close>). Overflow,
  denormals and not-a-number are outside the model: the values of the code stay far from them.
\<close>

definition rne :: "rat \<Rightarrow> int" where
  "rne x = (let f = \<lfloor>x\<rfloor>; d = x - of_int f
     in if d < 1 / 2 then f else if 1 / 2 < d then f + 1 else if even f then f else f + 1)"

definition elog :: "rat \<Rightarrow> int" where
  "elog x = (let (a, b) = quotient_of x; k = bitlen a - bitlen b in if 2 powi k \<le> x then k else k - 1)"

definition fround :: "nat \<Rightarrow> rat \<Rightarrow> rat" where
  "fround p x = (if x = 0 then 0
     else let u = 2 powi (elog \<bar>x\<bar> - int p + 1) in sgn x * of_int (rne (\<bar>x\<bar> / u)) * u)"

definition f32 :: "rat \<Rightarrow> rat" where "f32 = fround 24"
definition f64 :: "rat \<Rightarrow> rat" where "f64 = fround 53"

text \<open>Conversion to an integer type truncates toward zero; to \<open>int\<close> it keeps 32 bits.\<close>

definition trunc :: "rat \<Rightarrow> int" where
  "trunc x = (if 0 \<le> x then \<lfloor>x\<rfloor> else \<lceil>x\<rceil>)"

definition s32 :: "int \<Rightarrow> int" where
  "s32 i = (i + 2 ^ 31) mod 2 ^ 32 - 2 ^ 31"

lemma s32_id: "- (2 ^ 31) \<le> i \<Longrightarrow> i < 2 ^ 31 \<Longrightarrow> s32 i = i"
  by (simp add: s32_def)

lemma s32_bounds: "- (2 ^ 31) \<le> s32 i \<and> s32 i < 2 ^ 31"
  using pos_mod_bound [of "2 ^ 32" "i + 2 ^ 31"] pos_mod_sign [of "2 ^ 32" "i + 2 ^ 31"] by (simp add: s32_def)

section \<open>Rounding is monotone\<close>

lemma rne_bounds: "\<lfloor>x\<rfloor> \<le> rne x" "rne x \<le> \<lfloor>x\<rfloor> + 1"
  by (simp_all add: rne_def Let_def)

lemma rne_of_int [simp]: "rne (of_int i) = i"
  by (simp add: rne_def)

lemma rne_mono: "x \<le> y \<Longrightarrow> rne x \<le> rne y"
proof -
  assume xy: "x \<le> y"
  show ?thesis
  proof (cases "\<lfloor>x\<rfloor> = \<lfloor>y\<rfloor>")
    case True
    with xy show ?thesis by (auto simp: rne_def Let_def)
  next
    case False
    with floor_mono [OF xy] have "\<lfloor>x\<rfloor> + 1 \<le> \<lfloor>y\<rfloor>" by simp
    with rne_bounds [of x] rne_bounds [of y] show ?thesis by linarith
  qed
qed

lemma bitlen_powi: "0 < a \<Longrightarrow> (2 :: rat) powi (bitlen a - 1) \<le> of_int a \<and> of_int a < (2 :: rat) powi bitlen a"
proof -
  assume a: "0 < a"
  have n: "0 < bitlen a" using a bitlen_eq_zero_iff [of a] bitlen_nonneg [of a] by linarith
  have "2 ^ nat (bitlen a - 1) \<le> a" "a < 2 ^ nat (bitlen a)" using bitlen_bounds [OF a] by auto
  then have "(of_int (2 ^ nat (bitlen a - 1)) :: rat) \<le> of_int a" "(of_int a :: rat) < of_int (2 ^ nat (bitlen a))"
    by (simp_all only: of_int_le_iff of_int_less_iff)
  with n show ?thesis by (simp add: power_int_def)
qed

lemma elog_bounds:
  assumes "0 < x"
  shows "(2 :: rat) powi elog x \<le> x \<and> x < 2 powi (elog x + 1)"
proof -
  obtain a b where q: "quotient_of x = (a, b)" by (cases "quotient_of x")
  have b: "0 < b" and x: "x = of_int a / of_int b" using q quotient_of_denom_pos quotient_of_div by blast+
  have a: "0 < a" using assms b by (simp add: x zero_less_divide_iff)
  let ?k = "bitlen a - bitlen b"
  note A = bitlen_powi [OF a] and B = bitlen_powi [OF b]
  have "x < 2 powi (?k + 1)"
  proof -
    have "x < 2 powi bitlen a / 2 powi (bitlen b - 1)"
      unfolding x using A B b by (intro frac_less) (auto simp: a less_imp_le)
    also have "\<dots> = 2 powi (?k + 1)" by (simp add: power_int_diff [symmetric] algebra_simps)
    finally show ?thesis .
  qed
  moreover have "2 powi (?k - 1) \<le> x"
  proof -
    have "2 powi (?k - 1) = (2 :: rat) powi (bitlen a - 1) / 2 powi bitlen b" by (simp add: power_int_diff [symmetric] algebra_simps)
    also have "\<dots> \<le> x" unfolding x using A B a b by (intro frac_le) auto
    finally show ?thesis .
  qed
  ultimately show ?thesis by (auto simp: elog_def q Let_def)
qed

lemma fround_0 [simp]: "fround p 0 = 0"
  by (simp add: fround_def)

lemma fround_neg: "fround p (- x) = - fround p x"
  by (simp add: fround_def Let_def)

definition ulp :: "nat \<Rightarrow> rat \<Rightarrow> rat" where
  "ulp p x = 2 powi (elog x - int p + 1)"

lemma ulp_pos: "0 < ulp p x"
  by (simp add: ulp_def)

lemma fround_pos: "0 < x \<Longrightarrow> fround p x = of_int (rne (x / ulp p x)) * ulp p x"
  by (simp add: fround_def ulp_def Let_def)

lemma powi2_add: "(2 :: rat) powi a * 2 powi b = 2 powi (a + b)"
  by (simp add: power_int_add)

lemma fround_binade:
  assumes "0 < x" "0 < p"
  shows "2 powi elog x \<le> fround p x \<and> fround p x \<le> 2 powi (elog x + 1)"
proof -
  let ?u = "ulp p x"
  have "2 powi elog x = (2 :: rat) powi int (p - 1) * ?u" "2 powi (elog x + 1) = (2 :: rat) powi int p * ?u"
    unfolding ulp_def powi2_add using assms(2) by (simp_all add: of_nat_diff algebra_simps)
  then have e: "2 powi elog x = of_int (2 ^ (p - 1)) * ?u" "2 powi (elog x + 1) = of_int (2 ^ p) * ?u"
    by (simp_all add: power_int_of_nat)
  have "of_int (2 ^ (p - 1)) \<le> x / ?u" "x / ?u \<le> of_int (2 ^ p)"
    using elog_bounds [OF assms(1)] ulp_pos [of p x] unfolding e by (simp_all add: field_simps)
  then have "2 ^ (p - 1) \<le> rne (x / ?u)" "rne (x / ?u) \<le> 2 ^ p"
    using rne_mono [of "of_int (2 ^ (p - 1))" "x / ?u"] rne_mono [of "x / ?u" "of_int (2 ^ p)"] by (simp_all only: rne_of_int)
  then have "of_int (2 ^ (p - 1)) \<le> (of_int (rne (x / ?u)) :: rat)" "(of_int (rne (x / ?u)) :: rat) \<le> of_int (2 ^ p)"
    by (simp_all only: of_int_le_iff)
  then show ?thesis unfolding e fround_pos [OF assms(1)] using ulp_pos [of p x] by (simp add: mult_right_mono)
qed

lemma elog_mono: "0 < x \<Longrightarrow> x \<le> y \<Longrightarrow> elog x \<le> elog y"
proof (rule ccontr)
  assume "0 < x" "x \<le> y" "\<not> elog x \<le> elog y"
  then have "(2 :: rat) powi (elog y + 1) \<le> 2 powi elog x" by (intro power_int_increasing) auto
  also have "\<dots> \<le> x" using elog_bounds \<open>0 < x\<close> by blast
  finally show False using elog_bounds [of y] \<open>0 < x\<close> \<open>x \<le> y\<close> by auto
qed

lemma fround_mono_pos: "0 < p \<Longrightarrow> 0 < x \<Longrightarrow> x \<le> y \<Longrightarrow> fround p x \<le> fround p y"
proof -
  assume p: "0 < p" and x: "0 < x" and xy: "x \<le> y"
  have y: "0 < y" using x xy by simp
  show ?thesis
  proof (cases "elog x = elog y")
    case True
    then have u: "ulp p x = ulp p y" by (simp add: ulp_def)
    have "rne (x / ulp p y) \<le> rne (y / ulp p y)" using xy ulp_pos [of p y] by (intro rne_mono divide_right_mono) auto
    then show ?thesis using ulp_pos [of p y] by (simp add: fround_pos [OF x] fround_pos [OF y] u mult_right_mono)
  next
    case False
    then have "(2 :: rat) powi (elog x + 1) \<le> 2 powi elog y" using elog_mono [OF x xy] by (intro power_int_increasing) auto
    with fround_binade [OF x p] fround_binade [OF y p] show ?thesis by linarith
  qed
qed

lemma fround_nonneg: "0 < p \<Longrightarrow> 0 \<le> x \<Longrightarrow> 0 \<le> fround p x"
proof (cases "x = 0")
  case False
  assume "0 < p" "0 \<le> x"
  moreover have "(0 :: rat) < 2 powi elog x" by simp
  ultimately show ?thesis using fround_binade [of x p] False by linarith
qed simp

lemma fround_mono: "0 < p \<Longrightarrow> x \<le> y \<Longrightarrow> fround p x \<le> fround p y"
proof -
  assume p: "0 < p" and xy: "x \<le> y"
  consider "0 < x" | "x \<le> 0" "0 \<le> y" | "y < 0" by linarith
  then show ?thesis
  proof cases
    case 1
    then show ?thesis using fround_mono_pos p xy by blast
  next
    case 2
    then have "fround p x \<le> 0" using fround_nonneg [OF p, of "- x"] by (simp add: fround_neg)
    with fround_nonneg [OF p, of y] 2 show ?thesis by linarith
  next
    case 3
    then show ?thesis using fround_mono_pos [OF p, of "- y" "- x"] xy by (simp add: fround_neg)
  qed
qed

lemma fround_nat: "n < 2 ^ p \<Longrightarrow> fround p (of_int (int n)) = of_int (int n)"
proof (cases "n = 0")
  case False
  assume n: "n < 2 ^ p"
  let ?x = "of_int (int n) :: rat"
  have x: "0 < ?x" using False by simp
  have "(2 :: rat) powi elog ?x < 2 powi int p"
  proof -
    have "int n < 2 ^ p" using n by (metis of_nat_less_iff of_nat_numeral of_nat_power)
    then have "?x < of_int (2 ^ p)" by (simp only: of_int_less_iff)
    also have "of_int (2 ^ p) = (2 :: rat) powi int p" by (simp add: power_int_of_nat)
    finally have "?x < 2 powi int p" .
    with elog_bounds [OF x] show ?thesis by (meson order.strict_trans1)
  qed
  then have "elog ?x < int p" using power_int_increasing [of "int p" "elog ?x" "2 :: rat"] by (meson leD leI one_le_numeral)
  then have k: "elog ?x - int p + 1 = - int (nat (int p - 1 - elog ?x))" by simp
  define k where "k = nat (int p - 1 - elog ?x)"
  have u: "ulp p ?x = inverse (2 ^ k)" unfolding ulp_def k power_int_minus k_def [symmetric] by (simp add: power_int_of_nat)
  have "?x / ulp p ?x = of_int (int n * 2 ^ k)" unfolding u by (simp add: field_simps)
  then have "rne (?x / ulp p ?x) = int n * 2 ^ k" by (simp only: rne_of_int)
  then show ?thesis unfolding fround_pos [OF x] by (simp only: u) (simp add: field_simps)
qed simp

lemma fround_int: "\<bar>i\<bar> < 2 ^ p \<Longrightarrow> fround p (of_int i) = of_int i"
proof (cases "0 \<le> i")
  case True
  assume "\<bar>i\<bar> < 2 ^ p"
  then show ?thesis using True fround_nat [of "nat i" p] by (simp add: nat_less_iff)
next
  case False
  assume "\<bar>i\<bar> < 2 ^ p"
  then show ?thesis using False fround_nat [of "nat (- i)" p] fround_neg [of p "of_int i"] by (simp add: nat_less_iff)
qed

lemma f32_facts: "f32 0 = 0" "x \<le> y \<Longrightarrow> f32 x \<le> f32 y" "0 \<le> x \<Longrightarrow> 0 \<le> f32 x" "\<bar>i\<bar> < 2 ^ 24 \<Longrightarrow> f32 (of_int i) = of_int i"
  unfolding f32_def by (simp_all add: fround_mono fround_nonneg fround_int)

lemma f64_facts: "f64 0 = 0" "x \<le> y \<Longrightarrow> f64 x \<le> f64 y" "0 \<le> x \<Longrightarrow> 0 \<le> f64 x" "\<bar>i\<bar> < 2 ^ 53 \<Longrightarrow> f64 (of_int i) = of_int i"
  unfolding f64_def by (simp_all add: fround_mono fround_nonneg fround_int)

lemma trunc_of_int [simp]: "trunc (of_int i) = i"
  by (simp add: trunc_def)

lemma trunc_mono: "x \<le> y \<Longrightarrow> trunc x \<le> trunc y"
  by (auto simp: trunc_def floor_mono ceiling_mono) (meson ceiling_le_zero dual_order.trans less_imp_le not_le zero_le_floor)

section \<open>Scaling and errors\<close>

lemma elog_unique: "0 < x \<Longrightarrow> 2 powi k \<le> x \<Longrightarrow> x < 2 powi (k + 1) \<Longrightarrow> elog x = k"
proof -
  assume x: "0 < x" "2 powi k \<le> x" "x < 2 powi (k + 1)"
  have "(2 :: rat) powi k < 2 powi (elog x + 1)" "(2 :: rat) powi elog x < 2 powi (k + 1)"
    using elog_bounds [OF x(1)] x by (meson order.strict_trans1 order.strict_trans2)+
  moreover have "(2 :: rat) powi (elog x + 1) \<le> 2 powi k" if "elog x < k" using that by (intro power_int_increasing) auto
  moreover have "(2 :: rat) powi (k + 1) \<le> 2 powi elog x" if "k < elog x" using that by (intro power_int_increasing) auto
  ultimately show ?thesis by (metis linorder_less_linear leD)
qed

lemma fround_scale: "fround p (x * 2 powi k) = fround p x * 2 powi k"
proof -
  have pos: "fround p (x * 2 powi k) = fround p x * 2 powi k" if x: "0 < x" for x
  proof -
    have "elog (x * 2 powi k) = elog x + k"
    proof (rule elog_unique)
      show "2 powi (elog x + k) \<le> x * 2 powi k" using elog_bounds [OF x] by (simp add: power_int_add)
      have "x * 2 powi k < 2 powi (elog x + 1) * 2 powi k" using elog_bounds [OF x] by simp
      then show "x * 2 powi k < 2 powi (elog x + k + 1)" unfolding powi2_add by (simp add: algebra_simps)
    qed (use x in simp)
    then have u: "ulp p (x * 2 powi k) = ulp p x * 2 powi k" unfolding ulp_def powi2_add by (simp add: algebra_simps)
    show ?thesis using x by (simp add: fround_pos u)
  qed
  consider "x = 0" | "0 < x" | "0 < - x" by linarith
  then show ?thesis
  proof cases
    case 3
    then show ?thesis using pos [of "- x"] by (simp add: fround_neg)
  qed (simp_all add: pos)
qed

text \<open>A number of at most \<open>p\<close> binary digits behind the point is not rounded.\<close>

lemma fround_dyadic: "\<bar>i\<bar> < 2 ^ p \<Longrightarrow> fround p (of_int i / 2 ^ k) = of_int i / 2 ^ k"
  using fround_scale [of p "of_int i" "- int k"] by (simp add: fround_int power_int_minus power_int_of_nat divide_inverse)

lemma rne_error: "\<bar>of_int (rne x) - x\<bar> \<le> 1 / 2"
proof -
  have "0 \<le> x - of_int \<lfloor>x\<rfloor>" "x - of_int \<lfloor>x\<rfloor> < 1" by linarith+
  then show ?thesis by (auto simp: rne_def Let_def)
qed

text \<open>The relative error of a rounding.\<close>

lemma fround_error: "0 < p \<Longrightarrow> \<bar>fround p x - x\<bar> \<le> \<bar>x\<bar> / 2 ^ p"
proof -
  assume p: "0 < p"
  have pos: "\<bar>fround p x - x\<bar> \<le> x / 2 ^ p" if x: "0 < x" for x
  proof -
    let ?u = "ulp p x"
    have u: "0 < ?u" by (rule ulp_pos)
    have "fround p x - x = (of_int (rne (x / ?u)) - x / ?u) * ?u" using u by (simp add: fround_pos [OF x] field_simps)
    then have "\<bar>fround p x - x\<bar> = \<bar>of_int (rne (x / ?u)) - x / ?u\<bar> * ?u" using u by (simp add: abs_mult)
    also have "\<dots> \<le> 1 / 2 * ?u" using rne_error [of "x / ?u"] u by (intro mult_right_mono) auto
    also have "\<dots> = 2 powi (elog x - int p)" unfolding ulp_def by (simp add: power_int_add power_int_diff)
    also have "\<dots> = 2 powi elog x / 2 ^ p" by (simp add: power_int_diff power_int_of_nat)
    also have "\<dots> \<le> x / 2 ^ p" using elog_bounds [OF x] by (intro divide_right_mono) auto
    finally show ?thesis .
  qed
  consider "x = 0" | "0 < x" | "0 < - x" by linarith
  then show ?thesis
  proof cases
    case 3
    then show ?thesis using pos [of "- x"] by (simp add: fround_neg)
  qed (use pos in auto)
qed

lemma f32_error: "\<bar>f32 x - x\<bar> \<le> \<bar>x\<bar> / 2 ^ 24" and f64_error: "\<bar>f64 x - x\<bar> \<le> \<bar>x\<bar> / 2 ^ 53"
  unfolding f32_def f64_def by (rule fround_error; simp)+

section \<open>Conversions between numbers\<close>

text \<open>
  A floating-point value that does not fit into \<open>int\<close> is converted to the least \<open>int\<close>, as the conversion instruction of x86
  processors does (C leaves the result undefined). Sums and products of 64-bit integers wrap around.
\<close>

definition cast_int :: "rat \<Rightarrow> int" where
  "cast_int x = (if - (2 ^ 31) \<le> trunc x \<and> trunc x < 2 ^ 31 then trunc x else - (2 ^ 31))"

definition s64 :: "int \<Rightarrow> int" where
  "s64 i = (i + 2 ^ 63) mod 2 ^ 64 - 2 ^ 63"

lemma cast_int_bounds: "- (2 ^ 31) \<le> cast_int x" "cast_int x < 2 ^ 31"
  by (simp_all add: cast_int_def)

lemma cast_int_of_int: "- (2 ^ 31) \<le> i \<Longrightarrow> i < 2 ^ 31 \<Longrightarrow> cast_int (of_int i) = i"
  by (simp add: cast_int_def)

lemma cast_int_in: "- (2 ^ 31) \<le> x \<Longrightarrow> x < 2 ^ 31 \<Longrightarrow> cast_int x = trunc x"
proof -
  assume x: "- (2 ^ 31) \<le> x" "x < 2 ^ 31"
  have "- (2 ^ 31) \<le> trunc x" using trunc_mono [of "of_int (- (2 ^ 31))" x] x(1) unfolding trunc_of_int by simp
  moreover have "trunc x < 2 ^ 31" using x(2) by (auto simp: trunc_def floor_less_iff ceiling_less_zero)
  ultimately show ?thesis by (simp add: cast_int_def)
qed

lemma s32_congruent: "s32 i mod 2 ^ 32 = i mod 2 ^ 32"
  by (simp add: s32_def mod_diff_left_eq)

lemma s32_cong: "i mod 2 ^ 32 = j mod 2 ^ 32 \<Longrightarrow> s32 i = s32 j"
  unfolding s32_def by (metis mod_add_left_eq)

lemma s32_add: "s32 (s32 i + j) = s32 (i + j)" and s32_diff: "s32 (s32 i - j) = s32 (i - j)"
  by (rule s32_cong, metis s32_congruent mod_add_left_eq mod_diff_left_eq)+

end
