(* ===== verification/Jitter_Ctl.thy ===== *)
theory Jitter_Ctl
  imports Rtp_Queue Rtp_Profile C_Float
begin

text \<open>
  The jitter buffer control of \<open>ortp/src/jitterctl.c\<close>: the clock drift between sender and receiver (\<open>slide\<close>), the
  average lateness (\<open>jitter\<close>), the interarrival jitter of RFC 3550 and the size of the buffer that follows from them.
  The averages are \<open>float\<close> and \<open>double\<close> values with every rounding of the C expressions written out. A value that
  does not fit into \<open>int\<close> becomes the least \<open>int\<close>, as on x86 (\<open>cast_int\<close>).
\<close>

section \<open>State\<close>

record JitterControl =
  jc_count :: u32
  jitt_comp :: int
  jitt_comp_ts :: int
  adapt_jitt_comp_ts :: int
  slide :: int
  prev_slide :: int
  jitter :: rat
  olddiff :: int
  inter_jitter :: rat
  corrective_step :: int
  corrective_slide :: int
  cum_jitter_buffer_size :: u64
  cum_jitter_buffer_count :: u32
  jc_clock_rate :: int
  adaptive :: bool
  enabled :: bool

definition JC_BETA :: rat where "JC_BETA = f64 (1 / 100)"
definition JC_GAMMA :: rat where "JC_GAMMA = JC_BETA"

section \<open>Operations\<close>

definition jitter_control_set_payload :: "JitterControl \<Rightarrow> PayloadType \<Rightarrow> JitterControl" where
  "jitter_control_set_payload ctl pt =
    (let ts = cast_int (f64 (f64 (of_int (jitt_comp ctl) / 1000) * of_int (clock_rate pt)))
     in ctl\<lparr>jitt_comp_ts := ts,
            corrective_step := cast_int (f64 (f64 (1 / 100) * f32 (of_int (clock_rate pt)))),
            adapt_jitt_comp_ts := ts,
            jc_clock_rate := clock_rate pt\<rparr>)"

definition jitter_control_init :: "JitterControl \<Rightarrow> int \<Rightarrow> PayloadType option \<Rightarrow> JitterControl" where
  "jitter_control_init ctl base_jiitt_time pl =
    (let c1 = ctl\<lparr>jc_count := 0, slide := 0, prev_slide := 0, jitter := 0, inter_jitter := 0,
                  cum_jitter_buffer_count := 0, cum_jitter_buffer_size := 0\<rparr>;
         c2 = (if base_jiitt_time \<noteq> -1 then c1\<lparr>jitt_comp := base_jiitt_time\<rparr> else c1);
         c3 = c2\<lparr>jc_clock_rate := 8000\<rparr>;
         c4 = (case pl of None \<Rightarrow> c3 | Some pt \<Rightarrow> jitter_control_set_payload c3 pt)
     in c4\<lparr>adapt_jitt_comp_ts := jitt_comp_ts c4, corrective_slide := 0\<rparr>)"

definition jitter_control_enable_adaptive :: "JitterControl \<Rightarrow> bool \<Rightarrow> JitterControl" where
  "jitter_control_enable_adaptive ctl val = ctl\<lparr>adaptive := val\<rparr>"

definition jitter_control_update_corrective_slide :: "JitterControl \<Rightarrow> JitterControl" where
  "jitter_control_update_corrective_slide ctl =
    (let tmp = s32 (s32 (slide ctl) - prev_slide ctl)
     in if corrective_step ctl < tmp
        then ctl\<lparr>corrective_slide := s32 (corrective_slide ctl + corrective_step ctl), prev_slide := slide ctl + corrective_step ctl\<rparr>
        else if tmp < - corrective_step ctl
        then ctl\<lparr>corrective_slide := s32 (corrective_slide ctl - corrective_step ctl), prev_slide := slide ctl - corrective_step ctl\<rparr>
        else ctl)"

definition jitter_control_update_size :: "JitterControl \<Rightarrow> rtp_mblk list \<Rightarrow> JitterControl" where
  "jitter_control_update_size ctl q = (if q = [] then ctl
     else ctl\<lparr>cum_jitter_buffer_count := cum_jitter_buffer_count ctl + 1,
              cum_jitter_buffer_size := cum_jitter_buffer_size ctl + ucast (timestamp (rtp (last q)) - timestamp (rtp (hd q)))\<rparr>)"

text \<open>The two running averages: lateness of late packets, and difference of consecutive transit times.\<close>

definition late_average :: "rat \<Rightarrow> rat \<Rightarrow> rat" where
  "late_average j gap0 = (let gap = (if gap0 < 0 then - gap0 else 0)
     in f32 (f64 (f64 (j * f64 (1 - JC_GAMMA)) + f64 (gap * JC_GAMMA))))"

definition transit_average :: "rat \<Rightarrow> int \<Rightarrow> rat" where
  "transit_average ij d = f32 (f64 (ij + f64 (f32 (f32 (of_int (s32 \<bar>d\<bar>)) - ij) * (1 / 16))))"

definition jitter_control_new_packet :: "JitterControl \<Rightarrow> u32 \<Rightarrow> u32 \<Rightarrow> JitterControl" where
  "jitter_control_new_packet ctl packet_ts cur_str_ts =
    (let diff = uint packet_ts - uint cur_str_ts;
         (ctl1, sl) = (if jc_count ctl = 0
            then (ctl\<lparr>slide := diff, prev_slide := diff, olddiff := s32 diff, jitter := 0\<rparr>, f64 (of_int diff))
            else (ctl, f64 (f64 (f64 (of_int (slide ctl)) * f64 (1 - JC_BETA)) + f64 (f64 (of_int diff) * JC_BETA))));
         gap0 = f64 (f64 (of_int diff) - sl);
         jit = late_average (jitter ctl1) gap0;
         ij = transit_average (inter_jitter ctl1) (s32 (diff - olddiff ctl1));
         ctl2 = ctl1\<lparr>jitter := jit, inter_jitter := ij, olddiff := s32 diff, jc_count := jc_count ctl1 + 1\<rparr>
     in if adaptive ctl2
        then let ctl3 = (if jc_count ctl2 mod 50 = 0
               then ctl2\<lparr>adapt_jitt_comp_ts :=
                  cast_int (if f32 (of_int (jitt_comp_ts ctl2)) > f32 (2 * jitter ctl2) then f32 (of_int (jitt_comp_ts ctl2))
                         else f32 (2 * jitter ctl2))\<rparr>
               else ctl2)
             in ctl3\<lparr>slide := trunc sl\<rparr>
        else ctl2)"

definition jitter_control_compute_mean_size :: "JitterControl \<Rightarrow> rat \<times> JitterControl" where
  "jitter_control_compute_mean_size ctl = (if cum_jitter_buffer_count ctl \<noteq> 0
     then let tmp = f64 (f64 (of_int (uint (cum_jitter_buffer_size ctl))) / of_int (uint (cum_jitter_buffer_count ctl)))
          in (f32 (f64 (f64 (1000 * f32 tmp) / f32 (of_int (jc_clock_rate ctl)))),
              ctl\<lparr>cum_jitter_buffer_size := 0, cum_jitter_buffer_count := 0\<rparr>)
     else (0, ctl))"

definition jitter_control_get_compensated_timestamp :: "JitterControl \<Rightarrow> u32 \<Rightarrow> u32" where
  "jitter_control_get_compensated_timestamp obj user_ts = word_of_int (uint user_ts + slide obj - adapt_jitt_comp_ts obj)"

section \<open>Averages\<close>

lemma fround_le_double: "0 < p \<Longrightarrow> 0 \<le> x \<Longrightarrow> fround p x \<le> 2 * x"
proof (cases "x = 0")
  case False
  assume p: "0 < p" and x: "0 \<le> x"
  then have x: "0 < x" using False by simp
  have "fround p x \<le> 2 powi (elog x + 1)" using fround_binade [OF x p] by simp
  also have "\<dots> = 2 * 2 powi elog x" by (simp add: power_int_add)
  also have "\<dots> \<le> 2 * x" using elog_bounds [OF x] by simp
  finally show ?thesis .
qed simp

lemma weight_bounds: "0 \<le> JC_BETA" "0 \<le> f64 (1 - JC_BETA)"
proof -
  show "0 \<le> JC_BETA" by (simp add: JC_BETA_def f64_facts)
  have "f64 (1 / 100) \<le> f64 (of_int 1)" by (rule f64_facts) simp
  also have "f64 (of_int 1) = of_int 1" by (rule f64_facts) simp
  finally show "0 \<le> f64 (1 - JC_BETA)" by (intro f64_facts) (simp add: JC_BETA_def)
qed

lemma late_average_nonneg: "0 \<le> j \<Longrightarrow> 0 \<le> late_average j gap0"
  unfolding late_average_def Let_def JC_GAMMA_def
  by (intro f32_facts f64_facts add_nonneg_nonneg mult_nonneg_nonneg weight_bounds) (simp_all add: weight_bounds)

lemma inter_jitter_nonneg:
  assumes "0 \<le> ij" "0 \<le> a"
  shows "0 \<le> f32 (f64 (ij + f64 (f32 (a - ij) * (1 / 16))))"
proof -
  have "f32 (- ij) \<le> f32 (a - ij)" using assms by (intro f32_facts) simp
  moreover have "f32 ij \<le> 2 * ij" unfolding f32_def using assms by (intro fround_le_double) auto
  ultimately have "- (2 * ij) \<le> f32 (a - ij)" by (simp add: f32_def fround_neg)
  then have "f64 (- (2 * ij) * (1 / 16)) \<le> f64 (f32 (a - ij) * (1 / 16))" by (intro f64_facts) simp
  moreover have "f64 (2 * ij * (1 / 16)) \<le> 2 * (2 * ij * (1 / 16))" unfolding f64_def using assms by (intro fround_le_double) auto
  moreover have "f64 (- (2 * ij) * (1 / 16)) = - f64 (2 * ij * (1 / 16))" unfolding f64_def by (subst fround_neg [symmetric]) simp
  ultimately have "0 \<le> ij + f64 (f32 (a - ij) * (1 / 16))" using assms by linarith
  then show ?thesis by (intro f32_facts f64_facts)
qed

lemma new_packet_fields:
  fixes ctl packet_ts cur_str_ts
  defines "c \<equiv> jitter_control_new_packet ctl packet_ts cur_str_ts"
  shows "jitt_comp_ts c = jitt_comp_ts ctl" "adaptive c = adaptive ctl" "jc_count c = jc_count ctl + 1"
    and "adapt_jitt_comp_ts c = (if adaptive ctl \<and> jc_count c mod 50 = 0
       then cast_int (if f32 (of_int (jitt_comp_ts ctl)) > f32 (2 * jitter c) then f32 (of_int (jitt_comp_ts ctl)) else f32 (2 * jitter c))
       else adapt_jitt_comp_ts ctl)"
  unfolding c_def jitter_control_new_packet_def Let_def by (simp_all split: prod.splits)

lemma new_packet_averages:
  "\<exists>g. jitter (jitter_control_new_packet ctl packet_ts cur_str_ts) = late_average (if jc_count ctl = 0 then 0 else jitter ctl) g"
  "inter_jitter (jitter_control_new_packet ctl packet_ts cur_str_ts) = transit_average (inter_jitter ctl)
     (s32 (uint packet_ts - uint cur_str_ts - (if jc_count ctl = 0 then s32 (uint packet_ts - uint cur_str_ts) else olddiff ctl)))"
  unfolding jitter_control_new_packet_def Let_def by (auto split: prod.splits if_splits)

lemma transit_average_nonneg: "0 \<le> ij \<Longrightarrow> - (2 ^ 31) < d \<Longrightarrow> d < 2 ^ 31 \<Longrightarrow> 0 \<le> transit_average ij d"
proof -
  assume ij: "0 \<le> ij" and d: "- (2 ^ 31) < d" "d < 2 ^ 31"
  have "s32 \<bar>d\<bar> = \<bar>d\<bar>" using d by (intro s32_id) auto
  then have "0 \<le> f32 (of_int (s32 \<bar>d\<bar>))" by (intro f32_facts) simp
  from inter_jitter_nonneg [OF ij this] show ?thesis by (simp add: transit_average_def)
qed

section \<open>Invariant\<close>

text \<open>
  The code subtracts timestamps as 64-bit integers. While the differences stay below \<open>2 ^ 28\<close> (more than nine hours at
  8000 Hz) the average lateness is bounded, so that its conversion to \<open>int\<close> does not overflow.
\<close>

definition jc_inv :: "JitterControl \<Rightarrow> bool" where
  "jc_inv ctl \<longleftrightarrow> \<bar>jitt_comp_ts ctl\<bar> < 2 ^ 24 \<and> jitt_comp_ts ctl \<le> adapt_jitt_comp_ts ctl \<and> 0 \<le> jitter ctl \<and> jitter ctl \<le> 2 ^ 29 + 2 ^ 24
     \<and> 0 \<le> inter_jitter ctl \<and> \<bar>slide ctl\<bar> \<le> 2 ^ 28 \<and> \<bar>olddiff ctl\<bar> \<le> 2 ^ 28"

definition in_step :: "u32 \<times> u32 \<Rightarrow> bool" where
  "in_step = (\<lambda>(packet_ts, cur_str_ts). \<bar>uint packet_ts - uint cur_str_ts\<bar> \<le> 2 ^ 28)"

lemma f64_le: "\<bar>x\<bar> \<le> b \<Longrightarrow> \<bar>f64 x\<bar> \<le> b * (1 + 1 / 2 ^ 53)"
proof -
  assume "\<bar>x\<bar> \<le> b"
  then have "\<bar>x\<bar> * (1 + 1 / 2 ^ 53) \<le> b * (1 + 1 / 2 ^ 53)" by (intro mult_right_mono) auto
  moreover have "\<bar>f64 x\<bar> \<le> \<bar>f64 x - x\<bar> + \<bar>x\<bar>" by (rule order_trans [OF _ abs_triangle_ineq]) simp
  moreover have "\<bar>x\<bar> * (1 + 1 / 2 ^ 53) = \<bar>x\<bar> / 2 ^ 53 + \<bar>x\<bar>" by (simp add: distrib_left)
  ultimately show ?thesis using f64_error [of x] by linarith
qed

lemma f32_le: "\<bar>x\<bar> \<le> b \<Longrightarrow> \<bar>f32 x\<bar> \<le> b * (1 + 1 / 2 ^ 24)"
proof -
  assume "\<bar>x\<bar> \<le> b"
  then have "\<bar>x\<bar> * (1 + 1 / 2 ^ 24) \<le> b * (1 + 1 / 2 ^ 24)" by (intro mult_right_mono) auto
  moreover have "\<bar>f32 x\<bar> \<le> \<bar>f32 x - x\<bar> + \<bar>x\<bar>" by (rule order_trans [OF _ abs_triangle_ineq]) simp
  moreover have "\<bar>x\<bar> * (1 + 1 / 2 ^ 24) = \<bar>x\<bar> / 2 ^ 24 + \<bar>x\<bar>" by (simp add: distrib_left)
  ultimately show ?thesis using f32_error [of x] by linarith
qed

lemma weights: "1 / 200 \<le> JC_BETA" "JC_BETA \<le> 1 / 50" "0 \<le> f64 (1 - JC_BETA)" "f64 (1 - JC_BETA) \<le> (1 - JC_BETA) * (1 + 1 / 2 ^ 53)"
proof -
  have "\<bar>JC_BETA - 1 / 100\<bar> \<le> 1 / 100 / 2 ^ 53" using f64_error [of "1 / 100"] by (simp add: JC_BETA_def)
  then have "\<bar>JC_BETA - 1 / 100\<bar> \<le> 1 / 1000" by (rule order_trans) simp
  then have "JC_BETA - 1 / 100 \<le> 1 / 1000" "- (JC_BETA - 1 / 100) \<le> 1 / 1000" by (simp_all only: abs_le_iff)
  then show b: "1 / 200 \<le> JC_BETA" "JC_BETA \<le> 1 / 50" by linarith+
  then show "0 \<le> f64 (1 - JC_BETA)" by (intro f64_facts) simp
  show "f64 (1 - JC_BETA) \<le> (1 - JC_BETA) * (1 + 1 / 2 ^ 53)" using f64_le [of "1 - JC_BETA" "1 - JC_BETA"] b by simp
qed

lemma weighted:
  assumes "\<bar>a\<bar> \<le> A" "\<bar>g\<bar> \<le> G"
  shows "\<bar>f64 (a * f64 (1 - JC_BETA)) + f64 (g * JC_BETA)\<bar>
    \<le> (A * (1 - JC_BETA) * (1 + 1 / 2 ^ 53) + G * JC_BETA) * (1 + 1 / 2 ^ 53)"
proof -
  have "0 \<le> A" using assms(1) by linarith
  have "\<bar>a * f64 (1 - JC_BETA)\<bar> \<le> A * ((1 - JC_BETA) * (1 + 1 / 2 ^ 53))"
    unfolding abs_mult using assms(1) weights(3,4) \<open>0 \<le> A\<close> by (intro mult_mono) auto
  then have "\<bar>f64 (a * f64 (1 - JC_BETA))\<bar> \<le> A * ((1 - JC_BETA) * (1 + 1 / 2 ^ 53)) * (1 + 1 / 2 ^ 53)" by (rule f64_le)
  moreover have "\<bar>g * JC_BETA\<bar> \<le> G * JC_BETA"
    unfolding abs_mult using assms(2) weights(1) by (intro mult_mono) auto
  then have "\<bar>f64 (g * JC_BETA)\<bar> \<le> G * JC_BETA * (1 + 1 / 2 ^ 53)" by (rule f64_le)
  ultimately have "\<bar>f64 (a * f64 (1 - JC_BETA)) + f64 (g * JC_BETA)\<bar>
      \<le> A * ((1 - JC_BETA) * (1 + 1 / 2 ^ 53)) * (1 + 1 / 2 ^ 53) + G * JC_BETA * (1 + 1 / 2 ^ 53)"
    by (rule order_trans [OF abs_triangle_ineq add_mono])
  also have "\<dots> = (A * (1 - JC_BETA) * (1 + 1 / 2 ^ 53) + G * JC_BETA) * (1 + 1 / 2 ^ 53)"
    by (simp only: distrib_right mult.assoc)
  finally show ?thesis .
qed

lemma slide_bound:
  assumes "\<bar>sl\<bar> \<le> 2 ^ 28" "\<bar>df\<bar> \<le> 2 ^ 28"
  shows "\<bar>f64 (f64 (f64 (of_int sl) * f64 (1 - JC_BETA)) + f64 (f64 (of_int df) * JC_BETA))\<bar> \<le> 2 ^ 28 + 1 / 4"
proof -
  have e: "f64 (of_int sl) = of_int sl" "f64 (of_int df) = of_int df" using assms by (auto intro!: f64_facts(4))
  have b: "\<bar>of_int sl :: rat\<bar> \<le> 2 ^ 28" "\<bar>of_int df :: rat\<bar> \<le> 2 ^ 28"
    using assms by (metis of_int_abs of_int_le_iff of_int_numeral of_int_power)+
  let ?x = "f64 (of_int sl * f64 (1 - JC_BETA)) + f64 (of_int df * JC_BETA)"
  have "\<bar>?x\<bar> \<le> (2 ^ 28 * (1 - JC_BETA) * (1 + 1 / 2 ^ 53) + 2 ^ 28 * JC_BETA) * (1 + 1 / 2 ^ 53)" by (rule weighted [OF b])
  also have "\<dots> \<le> 2 ^ 28 + 1 / 8" using weights(1,2) by (simp add: field_simps)
  finally have "\<bar>f64 ?x\<bar> \<le> (2 ^ 28 + 1 / 8) * (1 + 1 / 2 ^ 53)" by (rule f64_le)
  also have "\<dots> \<le> 2 ^ 28 + 1 / 4" by simp
  finally show ?thesis unfolding e .
qed

lemma late_average_bound:
  assumes "0 \<le> j" "j \<le> 2 ^ 29 + 2 ^ 24" "\<bar>g\<bar> \<le> 2 ^ 29 + 1"
  shows "late_average j g \<le> 2 ^ 29 + 2 ^ 24"
proof -
  define gap where "gap = (if g < 0 then - g else 0)"
  have gap: "\<bar>gap\<bar> \<le> 2 ^ 29 + 1" and j: "\<bar>j\<bar> \<le> 2 ^ 29 + 2 ^ 24" using assms by (auto simp: gap_def)
  let ?x = "f64 (j * f64 (1 - JC_BETA)) + f64 (gap * JC_BETA)"
  have "\<bar>?x\<bar> \<le> ((2 ^ 29 + 2 ^ 24) * (1 - JC_BETA) * (1 + 1 / 2 ^ 53) + (2 ^ 29 + 1) * JC_BETA) * (1 + 1 / 2 ^ 53)" by (rule weighted [OF j gap])
  also have "\<dots> \<le> 2 ^ 29 + 2 ^ 24 - 1000" using weights(1,2) by (simp add: field_simps)
  finally have "\<bar>f64 ?x\<bar> \<le> (2 ^ 29 + 2 ^ 24 - 1000) * (1 + 1 / 2 ^ 53)" by (rule f64_le)
  from f32_le [OF this] have "\<bar>f32 (f64 ?x)\<bar> \<le> 2 ^ 29 + 2 ^ 24" by simp
  then show ?thesis by (simp add: late_average_def JC_GAMMA_def flip: gap_def)
qed

lemma new_packet_slide: 
  "slide (jitter_control_new_packet ctl p t) = (let diff = uint p - uint t; sl0 = (if jc_count ctl = 0 then diff else slide ctl) in
     if adaptive ctl then trunc (if jc_count ctl = 0 then f64 (of_int diff)
        else f64 (f64 (f64 (of_int (slide ctl)) * f64 (1 - JC_BETA)) + f64 (f64 (of_int diff) * JC_BETA)))
     else sl0)"
  "olddiff (jitter_control_new_packet ctl p t) = s32 (uint p - uint t)"
  "jitter (jitter_control_new_packet ctl p t) = late_average (if jc_count ctl = 0 then 0 else jitter ctl)
     (f64 (f64 (of_int (uint p - uint t)) - (if jc_count ctl = 0 then f64 (of_int (uint p - uint t))
        else f64 (f64 (f64 (of_int (slide ctl)) * f64 (1 - JC_BETA)) + f64 (f64 (of_int (uint p - uint t)) * JC_BETA)))))"
  by (simp_all add: jitter_control_new_packet_def Let_def)

lemma new_packet_inv:
  assumes inv: "jc_inv ctl" and d: "in_step (p, t)"
  shows "jc_inv (jitter_control_new_packet ctl p t)"
proof -
  define diff where "diff = uint p - uint t"
  define sl where "sl = (if jc_count ctl = 0 then f64 (of_int diff)
        else f64 (f64 (f64 (of_int (slide ctl)) * f64 (1 - JC_BETA)) + f64 (f64 (of_int diff) * JC_BETA)))"
  let ?c = "jitter_control_new_packet ctl p t" and ?n = "f32 (of_int (jitt_comp_ts ctl)) :: rat"
  have diff: "\<bar>diff\<bar> \<le> 2 ^ 28" using d by (simp add: in_step_def diff_def)
  have fd: "f64 (of_int diff) = of_int diff" using diff by (intro f64_facts) simp
  have rd: "\<bar>of_int diff :: rat\<bar> \<le> 2 ^ 28" using diff by (metis of_int_abs of_int_le_iff of_int_numeral of_int_power)
  have sl: "\<bar>sl\<bar> \<le> 2 ^ 28 + 1 / 4"
    using slide_bound [of "slide ctl" diff] inv diff rd by (auto simp: sl_def fd jc_inv_def)
  have "\<bar>of_int diff - sl\<bar> \<le> 2 ^ 29 + 1 / 4"
    using sl rd order_trans [OF abs_triangle_ineq4 add_mono [OF rd sl]] by simp
  from f64_le [OF this] have gap: "\<bar>f64 (of_int diff - sl)\<bar> \<le> 2 ^ 29 + 1" by simp
  have j: "jitter ?c = late_average (if jc_count ctl = 0 then 0 else jitter ctl) (f64 (of_int diff - sl))"
    unfolding new_packet_slide(3) diff_def [symmetric] sl_def fd ..
  then have j0: "0 \<le> jitter ?c" and jb: "jitter ?c \<le> 2 ^ 29 + 2 ^ 24"
    using inv late_average_nonneg [of "if jc_count ctl = 0 then 0 else jitter ctl" "f64 (of_int diff - sl)"]
      late_average_bound [of "if jc_count ctl = 0 then 0 else jitter ctl" "f64 (of_int diff - sl)"] gap
    by (auto simp: jc_inv_def)
  have "trunc sl \<le> 2 ^ 28" "- (2 ^ 28) \<le> trunc sl"
    using sl unfolding trunc_def by (auto simp: abs_le_iff floor_le_iff le_floor_iff ceiling_le_iff le_ceiling_iff)
  then have s: "\<bar>slide ?c\<bar> \<le> 2 ^ 28" using diff inv by (auto simp: new_packet_slide Let_def jc_inv_def simp flip: diff_def sl_def)
  have od: "olddiff ?c = diff" using diff s32_id [of diff] by (simp add: new_packet_slide flip: diff_def)
  let ?d = "s32 (diff - (if jc_count ctl = 0 then s32 diff else olddiff ctl))"
  have "?d = diff - (if jc_count ctl = 0 then diff else olddiff ctl)" using diff inv s32_id [of diff] by (auto simp: jc_inv_def intro!: s32_id)
  then have dd: "- (2 ^ 31) < ?d" "?d < 2 ^ 31" using diff inv by (auto simp: jc_inv_def)
  have ij: "0 \<le> inter_jitter ?c"
    unfolding new_packet_averages(2) diff_def [symmetric] using transit_average_nonneg [OF _ dd, of "inter_jitter ctl"] inv by (simp add: jc_inv_def)
  have n: "?n = of_int (jitt_comp_ts ctl)" using inv by (intro f32_facts) (simp add: jc_inv_def)
  let ?m = "if ?n > f32 (2 * jitter ?c) then ?n else f32 (2 * jitter ?c)"
  have "\<bar>2 * jitter ?c\<bar> \<le> 2 ^ 30 + 2 ^ 25" using j0 jb by simp
  from f32_le [OF this] have "\<bar>f32 (2 * jitter ?c)\<bar> < 2 ^ 31" by simp
  moreover have "\<bar>?n\<bar> < 2 ^ 31"
  proof -
    have "\<bar>jitt_comp_ts ctl\<bar> < 2 ^ 31" using inv by (simp add: jc_inv_def)
    then show ?thesis unfolding n by (metis of_int_abs of_int_less_iff of_int_numeral of_int_power)
  qed
  ultimately have "cast_int ?m = trunc ?m" by (intro cast_int_in) auto
  moreover have "jitt_comp_ts ctl = trunc ?n" by (simp add: n)
  moreover have "trunc ?n \<le> trunc ?m" by (rule trunc_mono) simp
  ultimately have "jitt_comp_ts ctl \<le> cast_int ?m" by simp
  then have "jitt_comp_ts ctl \<le> adapt_jitt_comp_ts ?c" using inv by (auto simp: new_packet_fields(4) jc_inv_def)
  then show ?thesis using inv j0 jb s od diff ij by (simp add: jc_inv_def new_packet_fields)
qed

section \<open>Property\<close>


definition demo_jitter :: JitterControl where
  "demo_jitter = \<lparr>jc_count = 49, jitt_comp = 80, jitt_comp_ts = 640, adapt_jitt_comp_ts = 640, slide = 0, prev_slide = 0, jitter = 0,
     olddiff = 0, inter_jitter = 0, corrective_step = 80, corrective_slide = 0, cum_jitter_buffer_size = 0,
     cum_jitter_buffer_count = 0, jc_clock_rate = 8000, adaptive = True, enabled = True\<rparr>"


end
