(* ===== verification/Rtp_Session.thy ===== *)
theory Rtp_Session
  imports Jitter_Ctl
begin

text \<open>
  The session object of oRTP (\<open>ortp/include/ortp/rtpsession.h\<close>, \<open>ortp/src/rtpsession.c\<close>): its state, split like the C
  structure into the sending side, the receiving side and the counters, and the operations that configure it. Callbacks
  of the application and events put on its event queues are recorded in \<open>events\<close>, in order, and the packets handed to
  the transport in \<open>rtp_sent\<close> and \<open>rtcp_sent\<close>. Sockets, locks and the clock are outside: addresses, received packets and
  the time of day are arguments.
\<close>

section \<open>State\<close>

record rtp_stats =
  st_packet_sent :: u64
  st_sent :: u64
  st_recv :: u64
  st_hw_recv :: u64
  st_packet_recv :: u64
  st_outoftime :: u64
  st_cum_packet_loss :: u64
  st_bad :: u64
  st_discarded :: u64
  st_sent_rtcp_packets :: u64

record jitter_stats =
  js_jitter :: u32
  js_max_jitter :: u32
  js_sum_jitter :: u64
  js_max_jitter_ts :: u64
  js_jitter_buffer_size_ms :: rat

type_synonym timeval = "int \<times> int"

record WaitPoint =
  wp_time :: u32
  wp_wakeup :: bool

text \<open>The anonymous structure of \<open>snd\<close> and \<open>rcv\<close>.\<close>

record SessionDir =
  dir_profile :: RtpProfile
  dir_pt :: int
  dir_ssrc :: u32
  dir_wp :: WaitPoint
  telephone_events_pt :: int

text \<open>\<open>RtpStream\<close>, in three parts: what sending uses, what receiving uses, and the rest.\<close>

record SndState =
  snd_time_offset :: u32
  snd_ts_offset :: u32
  snd_rand_offset :: u32
  snd_last_ts :: u32
  snd_seq :: u16
  last_rtcp_packet_count :: u32
  sent_payload_bytes :: u32
  send_errno :: int

record RcvState =
  rcv_time_offset :: u32
  rcv_ts_offset :: u32
  rcv_query_ts_offset :: u32
  rcv_last_ts :: u32
  rcv_last_app_ts :: u32
  rcv_last_ret_ts :: u32
  hwrcv_extseq :: u32
  hwrcv_seq_at_last_SR :: u32
  hwrcv_since_last_SR :: u32
  last_rcv_SR_ts :: u32
  last_rcv_SR_time :: timeval
  recv_errno :: int

record RtpStream =
  rtp_socket :: int
  rtp_tr :: bool
  sockfamily6 :: bool
  max_rq_size :: int
  time_jump :: int
  ts_jump :: u32
  rq :: "rtp_mblk list"
  tev_rq :: "rtp_mblk list"
  rem_addr :: bytes
  jittctl :: JitterControl
  sstate :: SndState
  rstate :: RcvState
  sent_bytes :: u32
  send_bw_start :: timeval
  recv_bytes :: u32
  recv_bw_start :: timeval
  stats :: rtp_stats
  ssrc_changed_thres :: int
  jstats :: jitter_stats

record RtcpStream =
  rtcp_socket :: int
  rtcp_tr :: bool
  rtcp_rem_addr :: bytes
  rtcp_interval :: int
  last_rtcp_report_snt_r :: u32
  last_rtcp_report_snt_s :: u32
  rtcp_report_snt_interval_r :: u32
  rtcp_report_snt_interval_s :: u32
  rtcp_enabled :: bool

datatype session_event =
    Ssrc_changed
  | Payload_type_changed
  | Timestamp_jump u32
  | Stun_packet bytes bytes
  | Telephone_event_packet rtp_mblk
  | Telephone_event u8
  | Tev_dispatched rtp_mblk u8
  | Rtcp_packet_emitted bytes
  | Rtcp_packet_received bytes
  | Rtcp_bye bytes
  | Rtcp_stun_packet bytes bytes
  | Network_error string

record NetworkSimulatorCtx =
  sim_max_bandwidth :: rat
  sim_loss_rate :: rat
  bit_budget :: int
  sim_qsize :: int
  sim_q :: "bytes list"
  last_check :: timeval

record RtpSession =
  snd_dir :: SessionDir
  rcv_dir :: SessionDir
  inc_ssrc_candidate :: u32
  inc_same_ssrc_count :: int
  hw_recv_pt :: int
  eventqs :: nat
  events :: "session_event list"
  rstream :: RtpStream
  rtcp :: RtcpStream
  session_mode :: int
  flags :: u32
  last_recv_time :: timeval
  symmetric_rtp :: bool
  permissive :: bool
  use_connect :: bool
  ssrc_set :: bool
  sd :: "bytes option"
  contributing_sources :: "bytes list"
  lost_packets_test_vector :: u32
  interarrival_jitter_test_vector :: u32
  delay_test_vector :: u32
  rtt :: rat
  pending :: "bytes option"
  current_tev :: "rtp_mblk option"
  rtp_sent :: "bytes list"
  rtcp_sent :: "bytes list"
  net_sim_ctx :: "NetworkSimulatorCtx option"
  w_session_bit :: bool
  r_session_bit :: bool

section \<open>Flags\<close>

definition RTP_SESSION_RECV_SYNC :: u32 where "RTP_SESSION_RECV_SYNC = 1"
definition RTP_SESSION_FIRST_PACKET_DELIVERED :: u32 where "RTP_SESSION_FIRST_PACKET_DELIVERED = 2"
definition RTP_SESSION_SCHEDULED :: u32 where "RTP_SESSION_SCHEDULED = 4"
definition RTP_SESSION_BLOCKING_MODE :: u32 where "RTP_SESSION_BLOCKING_MODE = 8"
definition RTP_SESSION_RECV_NOT_STARTED :: u32 where "RTP_SESSION_RECV_NOT_STARTED = 16"
definition RTP_SESSION_SEND_NOT_STARTED :: u32 where "RTP_SESSION_SEND_NOT_STARTED = 32"
definition RTP_SOCKET_CONNECTED :: u32 where "RTP_SOCKET_CONNECTED = 256"
definition RTCP_SOCKET_CONNECTED :: u32 where "RTCP_SOCKET_CONNECTED = 512"
definition RTP_SESSION_USING_TRANSPORT :: u32 where "RTP_SESSION_USING_TRANSPORT = 1024"
definition RTCP_OVERRIDE_LOST_PACKETS :: u32 where "RTCP_OVERRIDE_LOST_PACKETS = of_bool ((1 :: int) < 11)"
definition RTCP_OVERRIDE_JITTER :: u32 where "RTCP_OVERRIDE_JITTER = 4096"
definition RTCP_OVERRIDE_DELAY :: u32 where "RTCP_OVERRIDE_DELAY = 8192"

definition rtp_session_set_flag :: "RtpSession \<Rightarrow> u32 \<Rightarrow> RtpSession" where
  "rtp_session_set_flag session flag = session\<lparr>flags := flags session OR flag\<rparr>"

definition rtp_session_unset_flag :: "RtpSession \<Rightarrow> u32 \<Rightarrow> RtpSession" where
  "rtp_session_unset_flag session flag = session\<lparr>flags := flags session AND NOT flag\<rparr>"

definition has_flag :: "RtpSession \<Rightarrow> u32 \<Rightarrow> bool" where
  "has_flag session flag \<longleftrightarrow> flags session AND flag \<noteq> 0"

definition emit :: "RtpSession \<Rightarrow> session_event \<Rightarrow> RtpSession" where
  "emit session ev = session\<lparr>events := events session @ [ev]\<rparr>"

section \<open>Wait points\<close>

definition wait_point_init :: WaitPoint where
  "wait_point_init = \<lparr>wp_time = 0, wp_wakeup = False\<rparr>"

definition wait_point_wakeup_at :: "WaitPoint \<Rightarrow> u32 \<Rightarrow> WaitPoint" where
  "wait_point_wakeup_at wp t = wp\<lparr>wp_time := t, wp_wakeup := True\<rparr>"

definition wait_point_check :: "WaitPoint \<Rightarrow> u32 \<Rightarrow> bool \<times> WaitPoint" where
  "wait_point_check wp t = (if wp_wakeup wp \<and> RTP_TIMESTAMP_IS_NEWER_THAN t (wp_time wp)
     then (True, wp\<lparr>wp_wakeup := False\<rparr>) else (False, wp))"

section \<open>Time and timestamps\<close>

definition rtp_session_time_to_ts :: "RtpSession \<Rightarrow> int \<Rightarrow> u32" where
  "rtp_session_time_to_ts session millisecs =
    (case rtp_profile_get_payload (dir_profile (snd_dir session)) (dir_pt (snd_dir session)) of
       None \<Rightarrow> 0
     | Some pl \<Rightarrow> word_of_int (trunc (f64 (of_int (clock_rate pl) * f32 (f32 (of_int millisecs) / 1000)))))"

definition rtp_session_ts_to_time :: "RtpSession \<Rightarrow> u32 \<Rightarrow> u32" where
  "rtp_session_ts_to_time session ts =
    (case rtp_profile_get_payload (dir_profile (snd_dir session)) (dir_pt (snd_dir session)) of
       None \<Rightarrow> 0
     | Some pl \<Rightarrow> word_of_int (trunc (f64 (1000 * f64 (of_int (uint ts) / of_int (clock_rate pl))))))"

definition rtp_session_set_time_jump_limit :: "RtpSession \<Rightarrow> int \<Rightarrow> RtpSession" where
  "rtp_session_set_time_jump_limit session milisecs =
    (let s1 = session\<lparr>rstream := (rstream session)\<lparr>time_jump := milisecs\<rparr>\<rparr>;
         ts = rtp_session_time_to_ts s1 milisecs
     in s1\<lparr>rstream := (rstream s1)\<lparr>ts_jump := (if ts = 0 then 0x80000000 else ts)\<rparr>\<rparr>)"

definition rtp_session_set_rtcp_report_interval :: "RtpSession \<Rightarrow> int \<Rightarrow> RtpSession" where
  "rtp_session_set_rtcp_report_interval session value_ms =
    (let recvpt = dir_pt (rcv_dir session); sendpt = dir_pt (snd_dir session);
         s1 = (if recvpt \<noteq> -1 then
                 (case rtp_profile_get_payload (dir_profile (rcv_dir session)) recvpt of None \<Rightarrow> session
                  | Some pt \<Rightarrow> session\<lparr>rtcp := (rtcp session)\<lparr>rtcp_report_snt_interval_r := word_of_int (c_div (s32 (value_ms * clock_rate pt)) 1000)\<rparr>\<rparr>)
               else session);
         s2 = (if sendpt \<noteq> -1 then
                 (case rtp_profile_get_payload (dir_profile (snd_dir session)) sendpt of None \<Rightarrow> s1
                  | Some pt \<Rightarrow> s1\<lparr>rtcp := (rtcp s1)\<lparr>rtcp_report_snt_interval_s := word_of_int (c_div (s32 (value_ms * clock_rate pt)) 1000)\<rparr>\<rparr>)
               else s1)
     in s2\<lparr>rtcp := (rtcp s2)\<lparr>rtcp_interval := value_ms\<rparr>\<rparr>)"

section \<open>Payload types\<close>

definition payload_type_changed :: "RtpSession \<Rightarrow> PayloadType \<Rightarrow> RtpSession" where
  "payload_type_changed session pt =
    (let s1 = session\<lparr>rstream := (rstream session)\<lparr>jittctl := jitter_control_set_payload (jittctl (rstream session)) pt\<rparr>\<rparr>;
         s2 = rtp_session_set_time_jump_limit s1 (time_jump (rstream s1));
         s3 = rtp_session_set_rtcp_report_interval s2 (rtcp_interval (rtcp s2))
     in s3\<lparr>permissive := (pt_type pt = PAYLOAD_VIDEO)\<rparr>)"

definition rtp_session_update_payload_type :: "RtpSession \<Rightarrow> int \<Rightarrow> RtpSession" where
  "rtp_session_update_payload_type session pt =
    (case rtp_profile_get_payload (dir_profile (rcv_dir session)) pt of
       None \<Rightarrow> session
     | Some p \<Rightarrow> payload_type_changed (session\<lparr>hw_recv_pt := pt\<rparr>) p)"

definition rtp_session_set_send_payload_type :: "RtpSession \<Rightarrow> int \<Rightarrow> RtpSession" where
  "rtp_session_set_send_payload_type session pt = session\<lparr>snd_dir := (snd_dir session)\<lparr>dir_pt := pt\<rparr>\<rparr>"

definition rtp_session_set_recv_payload_type :: "RtpSession \<Rightarrow> int \<Rightarrow> RtpSession" where
  "rtp_session_set_recv_payload_type session pt =
    (let s1 = session\<lparr>rcv_dir := (rcv_dir session)\<lparr>dir_pt := pt\<rparr>, hw_recv_pt := pt\<rparr>
     in case rtp_profile_get_payload (dir_profile (rcv_dir s1)) pt of None \<Rightarrow> s1 | Some p \<Rightarrow> payload_type_changed s1 p)"

definition rtp_session_set_payload_type :: "RtpSession \<Rightarrow> int \<Rightarrow> RtpSession" where
  "rtp_session_set_payload_type session pt = rtp_session_set_recv_payload_type (rtp_session_set_send_payload_type session pt) pt"

definition payload_type_changed_notify :: "RtpSession \<Rightarrow> int \<Rightarrow> RtpSession" where
  "payload_type_changed_notify session pt =
    (case rtp_profile_get_payload (dir_profile (rcv_dir session)) pt of
       None \<Rightarrow> session
     | Some _ \<Rightarrow> emit (session\<lparr>rcv_dir := (rcv_dir session)\<lparr>dir_pt := pt\<rparr>\<rparr>) Payload_type_changed)"

section \<open>Jitter buffer parameters\<close>

record JBParameters =
  min_size :: int
  nom_size :: int
  max_size :: int
  jb_adaptive :: bool
  max_packets :: int

definition rtp_session_set_jitter_compensation :: "RtpSession \<Rightarrow> int \<Rightarrow> RtpSession" where
  "rtp_session_set_jitter_compensation session milisec =
    (let pl = (if dir_pt (rcv_dir session) \<noteq> -1
               then rtp_profile_get_payload (dir_profile (rcv_dir session)) (dir_pt (rcv_dir session)) else None)
     in session\<lparr>rstream := (rstream session)\<lparr>jittctl := jitter_control_init (jittctl (rstream session)) milisec pl\<rparr>\<rparr>)"

definition rtp_session_enable_adaptive_jitter_compensation :: "RtpSession \<Rightarrow> bool \<Rightarrow> RtpSession" where
  "rtp_session_enable_adaptive_jitter_compensation session val =
     session\<lparr>rstream := (rstream session)\<lparr>jittctl := jitter_control_enable_adaptive (jittctl (rstream session)) val\<rparr>\<rparr>"

definition rtp_session_enable_jitter_buffer :: "RtpSession \<Rightarrow> bool \<Rightarrow> RtpSession" where
  "rtp_session_enable_jitter_buffer session en =
     session\<lparr>rstream := (rstream session)\<lparr>jittctl := (jittctl (rstream session))\<lparr>enabled := en\<rparr>\<rparr>,
             flags := flags session OR RTP_SESSION_RECV_SYNC\<rparr>"

definition rtp_session_set_jitter_buffer_params :: "RtpSession \<Rightarrow> JBParameters \<Rightarrow> RtpSession" where
  "rtp_session_set_jitter_buffer_params session par =
    (let s1 = rtp_session_set_jitter_compensation session (nom_size par);
         s2 = rtp_session_enable_adaptive_jitter_compensation s1 (jb_adaptive par)
     in s2\<lparr>rstream := (rstream s2)\<lparr>max_rq_size := max_packets par\<rparr>\<rparr>)"

definition rtp_session_get_jitter_buffer_params :: "RtpSession \<Rightarrow> JBParameters" where
  "rtp_session_get_jitter_buffer_params session =
    (let nom = jitt_comp (jittctl (rstream session))
     in \<lparr>min_size = nom, nom_size = nom, max_size = -1, jb_adaptive = adaptive (jittctl (rstream session)),
         max_packets = max_rq_size (rstream session)\<rparr>)"

section \<open>Resynchronisation and reset\<close>

definition rtp_stats_reset :: rtp_stats where
  "rtp_stats_reset = \<lparr>st_packet_sent = 0, st_sent = 0, st_recv = 0, st_hw_recv = 0, st_packet_recv = 0, st_outoftime = 0,
     st_cum_packet_loss = 0, st_bad = 0, st_discarded = 0, st_sent_rtcp_packets = 0\<rparr>"

definition rtp_session_resync :: "RtpSession \<Rightarrow> RtpSession" where
  "rtp_session_resync session =
    (let s1 = session\<lparr>rstream := (rstream session)\<lparr>rq := []\<rparr>\<rparr>;
         s2 = rtp_session_set_flag s1 RTP_SESSION_RECV_SYNC;
         s3 = rtp_session_unset_flag s2 RTP_SESSION_FIRST_PACKET_DELIVERED
     in s3\<lparr>rstream := (rstream s3)\<lparr>jittctl := jitter_control_init (jittctl (rstream s3)) (-1) None\<rparr>\<rparr>)"

definition rtp_session_clear_send_error_code :: "RtpSession \<Rightarrow> RtpSession" where
  "rtp_session_clear_send_error_code session =
     session\<lparr>rstream := (rstream session)\<lparr>sstate := (sstate (rstream session))\<lparr>send_errno := 0\<rparr>\<rparr>\<rparr>"

definition rtp_session_clear_recv_error_code :: "RtpSession \<Rightarrow> RtpSession" where
  "rtp_session_clear_recv_error_code session =
     session\<lparr>rstream := (rstream session)\<lparr>sstate := (sstate (rstream session))\<lparr>send_errno := 0\<rparr>\<rparr>\<rparr>"

definition rtp_session_reset :: "RtpSession \<Rightarrow> RtpSession" where
  "rtp_session_reset session =
    (let s1 = rtp_session_set_flag (rtp_session_set_flag session RTP_SESSION_RECV_NOT_STARTED) RTP_SESSION_SEND_NOT_STARTED;
         st = rstream s1;
         s2 = s1\<lparr>rstream := st\<lparr>
           sstate := (sstate st)\<lparr>snd_time_offset := 0, snd_ts_offset := 0, snd_rand_offset := 0, snd_last_ts := 0, snd_seq := 0,
             sent_payload_bytes := 0\<rparr>,
           rstate := (rstate st)\<lparr>rcv_time_offset := 0, rcv_ts_offset := 0, rcv_query_ts_offset := 0, rcv_last_ts := 0,
             rcv_last_app_ts := 0, hwrcv_extseq := 0, hwrcv_since_last_SR := 0\<rparr>\<rparr>\<rparr>;
         s3 = rtp_session_clear_recv_error_code (rtp_session_clear_send_error_code s2);
         s4 = s3\<lparr>rstream := (rstream s3)\<lparr>stats := rtp_stats_reset\<rparr>\<rparr>;
         s5 = rtp_session_resync s4
     in s5\<lparr>ssrc_set := False\<rparr>)"

definition rtp_session_set_ssrc_changed_threshold :: "RtpSession \<Rightarrow> int \<Rightarrow> RtpSession" where
  "rtp_session_set_ssrc_changed_threshold session numpackets =
     session\<lparr>rstream := (rstream session)\<lparr>ssrc_changed_thres := numpackets\<rparr>\<rparr>"

definition rtp_session_set_seq_number :: "RtpSession \<Rightarrow> u16 \<Rightarrow> RtpSession" where
  "rtp_session_set_seq_number session s = session\<lparr>rstream := (rstream session)\<lparr>sstate := (sstate (rstream session))\<lparr>snd_seq := s\<rparr>\<rparr>\<rparr>"

definition rtp_session_set_ssrc :: "RtpSession \<Rightarrow> u32 \<Rightarrow> RtpSession" where
  "rtp_session_set_ssrc session s = session\<lparr>snd_dir := (snd_dir session)\<lparr>dir_ssrc := s\<rparr>\<rparr>"

definition rtp_session_set_symmetric_rtp :: "RtpSession \<Rightarrow> bool \<Rightarrow> RtpSession" where
  "rtp_session_set_symmetric_rtp session yesno = session\<lparr>symmetric_rtp := yesno\<rparr>"

definition rtp_session_set_connected_mode :: "RtpSession \<Rightarrow> bool \<Rightarrow> RtpSession" where
  "rtp_session_set_connected_mode session yesno = session\<lparr>use_connect := yesno\<rparr>"

definition rtp_session_make_time_distorsion :: "RtpSession \<Rightarrow> int \<Rightarrow> RtpSession" where
  "rtp_session_make_time_distorsion session milisec =
     session\<lparr>rstream := (rstream session)\<lparr>sstate := (sstate (rstream session))\<lparr>
       snd_time_offset := snd_time_offset (sstate (rstream session)) + word_of_int milisec\<rparr>\<rparr>\<rparr>"

end
