(* ===== verification/Rtp_Parse.thy ===== *)
theory Rtp_Parse
  imports Rtp_Session
begin

text \<open>
  Reception of an RTP datagram (\<open>ortp/src/rtpparse.c\<close>): the checks, the lock on one SSRC, the extended sequence
  number, the jitter statistics and the insertion into the bounded jitter buffer. The global statistics
  \<open>ortp_global_stats\<close> are threaded next to the session. The loop that trims the queue does not end when the limit is
  negative; the result is then \<open>None\<close>.
\<close>

section \<open>The header on the wire\<close>

text \<open>The bit fields of \<open>rtp_header_t\<close> and the conversion of its words to host order.\<close>

definition rtp_header_of :: "bytes \<Rightarrow> rtp_header" where
  "rtp_header_of bs = \<lparr>
     version = drop_bit 6 (bs ! 0), padbit = bit (bs ! 0) 5, extbit = bit (bs ! 0) 4, cc = unat (bs ! 0 AND 15),
     markbit = bit (bs ! 1) 7, paytype = unat (bs ! 1 AND 127),
     seq_number = read16 bs 2, timestamp = read32 bs 4, ssrc = read32 bs 8,
     csrc = map (\<lambda>i. read32 bs (12 + 4 * i)) [0..<unat (bs ! 0 AND 15)]\<rparr>"

definition rtp_mblk_of :: "bytes \<Rightarrow> rtp_mblk" where
  "rtp_mblk_of bs = \<lparr>rtp = rtp_header_of bs, body = drop (RTP_FIXED_HEADER_SIZE + 4 * unat (bs ! 0 AND 15)) bs\<rparr>"

section \<open>The bounded queue\<close>

partial_function (option) queue_trim :: "int \<Rightarrow> rtp_mblk list \<Rightarrow> nat \<Rightarrow> (rtp_mblk list \<times> nat) option" where
  "queue_trim maxrqsz q discarded =
    (if maxrqsz < int (length q) then queue_trim maxrqsz (tl q) (discarded + 1) else Some (q, discarded))"

definition queue_packet :: "rtp_mblk list \<Rightarrow> int \<Rightarrow> rtp_mblk \<Rightarrow> (bool \<times> nat \<times> rtp_mblk list) option" where
  "queue_packet q maxrqsz mp =
    (if body mp = [] then Some (False, 1, q)
     else map_option (\<lambda>(q', d). (True, d, q')) (queue_trim maxrqsz (rtp_putq q mp) 0))"

section \<open>Steps of \<open>rtp_session_rtp_parse\<close>\<close>

type_synonym pstate = "rtp_stats \<times> RtpSession"

definition on_stats :: "(rtp_stats \<Rightarrow> rtp_stats) \<Rightarrow> pstate \<Rightarrow> pstate" where
  "on_stats f = (\<lambda>(g, s). (f g, s\<lparr>rstream := (rstream s)\<lparr>stats := f (stats (rstream s))\<rparr>\<rparr>))"

definition count_bad :: "rtp_stats \<Rightarrow> rtp_stats" where
  "count_bad st = st\<lparr>st_bad := st_bad st + 1\<rparr>"

definition count_received :: "u64 \<Rightarrow> rtp_stats \<Rightarrow> rtp_stats" where
  "count_received n st = st\<lparr>st_packet_recv := st_packet_recv st + 1, st_hw_recv := st_hw_recv st + n\<rparr>"

definition count_discarded :: "nat \<Rightarrow> rtp_stats \<Rightarrow> rtp_stats" where
  "count_discarded n st = st\<lparr>st_discarded := st_discarded st + of_nat n\<rparr>"

definition count_outoftime :: "rtp_stats \<Rightarrow> rtp_stats" where
  "count_outoftime st = st\<lparr>st_outoftime := st_outoftime st + 1\<rparr>"

text \<open>Symmetric RTP: the sender's address becomes the destination.\<close>

definition store_sender :: "bytes \<Rightarrow> RtpSession \<Rightarrow> RtpSession" where
  "store_sender addr s = (if \<not> use_connect s \<and> 0 < rtp_socket (rstream s) \<and> symmetric_rtp s
     then s\<lparr>rstream := (rstream s)\<lparr>rem_addr := addr\<rparr>\<rparr> else s)"

text \<open>The lock on one SSRC: the flag tells whether the packet is accepted.\<close>

definition ssrc_check :: "rtp_header \<Rightarrow> bytes \<Rightarrow> RtpSession \<Rightarrow> bool \<times> RtpSession" where
  "ssrc_check h addr s =
    (if ssrc_set s then
       if dir_ssrc (rcv_dir s) \<noteq> ssrc h then
         let s1 = (if inc_ssrc_candidate s = ssrc h
                   then s\<lparr>inc_same_ssrc_count := inc_same_ssrc_count s + 1\<rparr>
                   else s\<lparr>inc_same_ssrc_count := 0, inc_ssrc_candidate := ssrc h\<rparr>)
         in if ssrc_changed_thres (rstream s1) \<le> inc_same_ssrc_count s1
            then let s2 = store_sender addr s1;
                     s3 = s2\<lparr>rstream := (rstream s2)\<lparr>rstate := (rstate (rstream s2))\<lparr>rcv_last_ts := timestamp h\<rparr>\<rparr>,
                             rcv_dir := (rcv_dir s2)\<lparr>dir_ssrc := ssrc h\<rparr>\<rparr>
                 in (True, emit s3 Ssrc_changed)
            else (False, s1)
       else (True, s\<lparr>inc_same_ssrc_count := 0\<rparr>)
     else (True, store_sender addr (s\<lparr>ssrc_set := True, rcv_dir := (rcv_dir s)\<lparr>dir_ssrc := ssrc h\<rparr>\<rparr>)))"

text \<open>The extended sequence number, its low and high half in one word.\<close>

definition update_extseq :: "u32 \<Rightarrow> u16 \<Rightarrow> u32" where
  "update_extseq ext sq =
    (let lo = ucast ext :: u16; hi = ucast (drop_bit 16 ext) :: u16
     in if lo < sq then push_bit 16 (ucast hi) OR ucast sq
        else if sq < 200 \<and> lo > 65336 then push_bit 16 (ucast (hi + 1)) OR ucast sq
        else ext)"

definition seq_check :: "rtp_header \<Rightarrow> RtpSession \<Rightarrow> RtpSession" where
  "seq_check h s =
    (let r = rstate (rstream s);
         r1 = r\<lparr>hwrcv_extseq := update_extseq (hwrcv_extseq r) (seq_number h)\<rparr>;
         r2 = (if st_packet_recv (stats (rstream s)) = 1 then r1\<lparr>hwrcv_seq_at_last_SR := ucast (seq_number h)\<rparr> else r1)
     in s\<lparr>rstream := (rstream s)\<lparr>rstate := r2\<rparr>\<rparr>)"

text \<open>A telephone event goes to its own queue.\<close>

definition queue_tev :: "rtp_mblk \<Rightarrow> pstate \<Rightarrow> pstate option" where
  "queue_tev mp = (\<lambda>(g, s).
     map_option (\<lambda>(_, d, q). on_stats (count_discarded d) (g, s\<lparr>rstream := (rstream s)\<lparr>tev_rq := q\<rparr>\<rparr>))
       (queue_packet (tev_rq (rstream s)) (max_rq_size (rstream s)) mp))"

text \<open>Timestamps that jump: the callback is called; a packet older than the last one delivered is refused.\<close>

definition jump_check :: "rtp_header \<Rightarrow> RtpSession \<Rightarrow> bool \<times> RtpSession" where
  "jump_check h s =
    (let last = rcv_last_ts (rstate (rstream s)); jump = ts_jump (rstream s)
     in if has_flag s RTP_SESSION_FIRST_PACKET_DELIVERED then
          if RTP_TIMESTAMP_IS_NEWER_THAN (timestamp h) (last + jump) then (True, emit s (Timestamp_jump (timestamp h)))
          else if RTP_TIMESTAMP_IS_STRICTLY_NEWER_THAN last (timestamp h) then
            (False, if RTP_TIMESTAMP_IS_STRICTLY_NEWER_THAN last (timestamp h + jump)
                    then emit s (Timestamp_jump (timestamp h)) else s)
          else (True, s)
        else (True, s))"

definition queue_media :: "rtp_mblk \<Rightarrow> u32 \<Rightarrow> pstate \<Rightarrow> pstate option" where
  "queue_media mp local_str_ts = (\<lambda>(g, s).
    let h = rtp mp;
        s1 = (if hw_recv_pt s \<noteq> int (paytype h) then rtp_session_update_payload_type s (int (paytype h)) else s);
        s2 = s1\<lparr>rstream := (rstream s1)\<lparr>jittctl := jitter_control_new_packet (jittctl (rstream s1)) (timestamp h) local_str_ts\<rparr>\<rparr>;
        (ok, s3) = jump_check h s2
    in if \<not> ok then Some (on_stats count_outoftime (g, s3))
       else map_option (\<lambda>(queued, d, q).
              let st = (rstream s3)\<lparr>rq := q\<rparr>;
                  st' = (if queued then st\<lparr>jittctl := jitter_control_update_size (jittctl st) q\<rparr> else st)
              in on_stats (count_discarded d) (g, s3\<lparr>rstream := st'\<rparr>))
            (queue_packet (rq (rstream s3)) (max_rq_size (rstream s3)) mp))"

definition rtp_session_rtp_parse :: "timeval \<Rightarrow> bytes \<Rightarrow> u32 \<Rightarrow> bytes \<Rightarrow> pstate \<Rightarrow> pstate option" where
  "rtp_session_rtp_parse now mp local_str_ts addr = (\<lambda>(g, s).
    let msgsize = length mp in
    if msgsize < RTP_FIXED_HEADER_SIZE then Some (on_stats count_bad (g, s))
    else let h = rtp_header_of mp in
    if version h \<noteq> 2 then
      (if unat (read16 mp 2) + 20 = msgsize \<and> eventqs s \<noteq> 0
       then Some (g, emit s (Stun_packet mp addr))
       else Some (on_stats count_bad (g, s)))
    else
      let (g1, s1) = on_stats (count_received (of_nat msgsize)) (g, s);
          s2 = s1\<lparr>rstream := (rstream s1)\<lparr>rstate := (rstate (rstream s1))\<lparr>hwrcv_since_last_SR := hwrcv_since_last_SR (rstate (rstream s1)) + 1\<rparr>\<rparr>\<rparr>
      in if cc h * 4 > msgsize - RTP_FIXED_HEADER_SIZE then Some (on_stats count_bad (g1, s2))
         else
           let s3 = s2\<lparr>last_recv_time := now\<rparr>;
               (ok, s4) = ssrc_check h addr s3
           in if \<not> ok then Some (on_stats count_bad (g1, s4))
              else
                let s5 = seq_check h s4 in
                if int (paytype h) = telephone_events_pt (rcv_dir s5) then queue_tev (rtp_mblk_of mp) (g1, s5)
                else queue_media (rtp_mblk_of mp) local_str_ts (g1, s5))"

section \<open>The bounded queue keeps its bound and its order\<close>

lemma queue_trim_ok:
  "0 \<le> mx \<Longrightarrow> queue_trim mx q d = Some (drop (length q - nat mx) q, d + (length q - nat mx))"
proof (induction "length q" arbitrary: q d)
  case 0
  then show ?case by (subst queue_trim.simps) simp
next
  case (Suc n)
  show ?case
  proof (cases "mx < int (length q)")
    case True
    obtain a r where q: "q = a # r" using Suc(2) by (cases q) auto
    have "queue_trim mx q d = queue_trim mx r (d + 1)" using True by (subst queue_trim.simps) (simp add: q)
    also have "\<dots> = Some (drop (length r - nat mx) r, d + 1 + (length r - nat mx))" using Suc.hyps(1) [of r "d + 1"] Suc.hyps(2) Suc.prems by (simp add: q)
    also have "\<dots> = Some (drop (length q - nat mx) q, d + (length q - nat mx))"
      using True Suc.prems by (simp add: q Suc_diff_le nat_le_iff)
    finally show ?thesis .
  next
    case False
    then show ?thesis using Suc.prems by (subst queue_trim.simps) (simp add: nat_le_iff)
  qed
qed

lemma queue_trim_diverges: "mx < 0 \<Longrightarrow> queue_trim mx q d = None"
proof -
  assume mx: "mx < 0"
  have "m \<ge> 0" if "queue_trim m q d = Some r" for m r
    using that by (induction rule: queue_trim.raw_induct [rotated, consumes 1]) (auto split: if_splits)
  with mx show ?thesis by (cases "queue_trim mx q d") force+
qed

section \<open>What a datagram changes\<close>

fun is_stun :: "session_event \<Rightarrow> bool" where
  "is_stun (Stun_packet _ _) = True"
| "is_stun _ = False"

text \<open>The part of the session that says where packets are.\<close>

definition view :: "RtpSession \<Rightarrow> rtp_mblk list \<times> rtp_mblk list \<times> rtp_stats \<times> nat \<times> int" where
  "view s = (rq (rstream s), tev_rq (rstream s), stats (rstream s), length (filter is_stun (events s)), max_rq_size (rstream s))"

lemma view_steps [simp]:
  "view (s\<lparr>last_recv_time := t\<rparr>) = view s" "view (s\<lparr>hw_recv_pt := i\<rparr>) = view s" "view (s\<lparr>permissive := b\<rparr>) = view s"
  "view (s\<lparr>rtcp := rc\<rparr>) = view s" "view (s\<lparr>rcv_dir := d\<rparr>) = view s" "view (s\<lparr>inc_same_ssrc_count := i\<rparr>) = view s"
  "view (s\<lparr>inc_ssrc_candidate := u\<rparr>) = view s" "view (s\<lparr>ssrc_set := b\<rparr>) = view s"
  "\<not> is_stun e \<Longrightarrow> view (emit s e) = view s"
  by (simp_all add: view_def emit_def)

lemma view_stream [simp]:
  "view (s\<lparr>rstream := (rstream s)\<lparr>rstate := r\<rparr>\<rparr>) = view s" "view (s\<lparr>rstream := (rstream s)\<lparr>jittctl := j\<rparr>\<rparr>) = view s"
  "view (s\<lparr>rstream := (rstream s)\<lparr>time_jump := t\<rparr>\<rparr>) = view s" "view (s\<lparr>rstream := (rstream s)\<lparr>ts_jump := u\<rparr>\<rparr>) = view s"
  "view (s\<lparr>rstream := (rstream s)\<lparr>rem_addr := a\<rparr>\<rparr>) = view s"
  by (simp_all add: view_def)

lemma view_store_sender [simp]: "view (store_sender addr s) = view s"
  by (simp add: store_sender_def)

lemma view_ssrc_check: "ssrc_check h addr s = (ok, s') \<Longrightarrow> view s' = view s"
  by (auto simp: ssrc_check_def Let_def split: if_splits)

lemma view_seq_check [simp]: "view (seq_check h s) = view s"
  by (simp add: seq_check_def Let_def)

lemma view_jump_check: "jump_check h s = (ok, s') \<Longrightarrow> view s' = view s"
  by (auto simp: jump_check_def Let_def split: if_splits)

lemma view_set_time_jump [simp]: "view (rtp_session_set_time_jump_limit s ms) = view s"
  by (simp add: rtp_session_set_time_jump_limit_def Let_def view_def)

lemma view_set_interval [simp]: "view (rtp_session_set_rtcp_report_interval s ms) = view s"
  by (simp add: rtp_session_set_rtcp_report_interval_def Let_def split: option.splits)

lemma view_payload_type_changed [simp]: "view (payload_type_changed s pt) = view s"
  by (simp add: payload_type_changed_def Let_def)

lemma view_update_payload_type [simp]: "view (rtp_session_update_payload_type s i) = view s"
  by (simp add: rtp_session_update_payload_type_def split: option.splits)

lemma view_on_stats: "view (snd (on_stats f (g, s))) = (let (q, t, st, n, m) = view s in (q, t, f st, n, m))"
  by (simp add: on_stats_def view_def)

text \<open>The outcomes: refused (counted once), a STUN event, or in one of the queues.\<close>

definition outcome :: "rtp_mblk \<Rightarrow> RtpSession \<Rightarrow> RtpSession \<Rightarrow> bool" where
  "outcome m s s' \<longleftrightarrow> (\<exists>q t st n mx q' t' st' n'. view s = (q, t, st, n, mx) \<and> view s' = (q', t', st', n', mx)
     \<and> (q' = q \<and> t' = t \<and> (n' = n + 1 \<and> st' = st
            \<or> n' = n \<and> (\<exists>a b c. st_bad st' = st_bad st + a \<and> st_outoftime st' = st_outoftime st + b
                 \<and> st_discarded st' = st_discarded st + c \<and> a + b + c = 1))
        \<or> n' = n \<and> st_bad st' = st_bad st \<and> st_outoftime st' = st_outoftime st
            \<and> (t' = t \<and> q' = drop (length (rtp_putq q m) - nat mx) (rtp_putq q m)
                 \<and> st_discarded st' = st_discarded st + of_nat (length (rtp_putq q m) - nat mx)
               \<or> q' = q \<and> t' = drop (length (rtp_putq t m) - nat mx) (rtp_putq t m)
                 \<and> st_discarded st' = st_discarded st + of_nat (length (rtp_putq t m) - nat mx))))"

lemma queue_packet_ok:
  "0 \<le> mx \<Longrightarrow> queue_packet q mx m = Some (if body m = [] then (False, 1, q)
     else (True, length (rtp_putq q m) - nat mx, drop (length (rtp_putq q m) - nat mx) (rtp_putq q m)))"
  by (simp add: queue_packet_def queue_trim_ok)

lemma queue_tev_outcome:
  assumes "0 \<le> max_rq_size (rstream s)" "view s = (q, t, st1, n, mx)" "view s0 = (q, t, st, n, mx)"
    and "st_bad st1 = st_bad st" "st_outoftime st1 = st_outoftime st" "st_discarded st1 = st_discarded st"
  shows "\<exists>g' s'. queue_tev m (g, s) = Some (g', s') \<and> outcome m s0 s'"
proof -
  have mx: "max_rq_size (rstream s) = mx" "tev_rq (rstream s) = t" "0 \<le> mx" using assms(1,2) by (auto simp: view_def)
  show ?thesis
  proof (cases "body m = []")
    case True
    let ?s = "snd (on_stats (count_discarded 1) (g, s\<lparr>rstream := (rstream s)\<lparr>tev_rq := t\<rparr>\<rparr>))"
    have "view ?s = (q, t, count_discarded 1 st1, n, mx)" using assms(2) by (simp add: view_def on_stats_def)
    then have "outcome m s0 ?s" using assms(3-6) unfolding outcome_def
      by (intro exI [of _ q] exI [of _ t] exI [of _ st] exI [of _ n] exI [of _ mx] exI [of _ "count_discarded 1 st1"])
        (auto simp: count_discarded_def)
    then show ?thesis using True mx by (cases "on_stats (count_discarded 1) (g, s\<lparr>rstream := (rstream s)\<lparr>tev_rq := t\<rparr>\<rparr>)")
      (simp add: queue_tev_def queue_packet_ok)
  next
    case False
    let ?d = "length (rtp_putq t m) - nat mx"
    let ?r = "on_stats (count_discarded ?d) (g, s\<lparr>rstream := (rstream s)\<lparr>tev_rq := drop ?d (rtp_putq t m)\<rparr>\<rparr>)"
    have "view (snd ?r) = (q, drop ?d (rtp_putq t m), count_discarded ?d st1, n, mx)" using assms(2) by (simp add: view_def on_stats_def)
    then have "outcome m s0 (snd ?r)" using assms(3-6) unfolding outcome_def by (auto simp: count_discarded_def)
    then show ?thesis using False mx by (cases ?r) (simp add: queue_tev_def queue_packet_ok)
  qed
qed

lemma queue_media_outcome:
  assumes "0 \<le> max_rq_size (rstream s)" "view s = (q, t, st1, n, mx)" "view s0 = (q, t, st, n, mx)"
    and "st_bad st1 = st_bad st" "st_outoftime st1 = st_outoftime st" "st_discarded st1 = st_discarded st"
  shows "\<exists>g' s'. queue_media m ts (g, s) = Some (g', s') \<and> outcome m s0 s'"
proof -
  define s1 where "s1 = (if hw_recv_pt s \<noteq> int (paytype (rtp m)) then rtp_session_update_payload_type s (int (paytype (rtp m))) else s)"
  define s2 where "s2 = s1\<lparr>rstream := (rstream s1)\<lparr>jittctl := jitter_control_new_packet (jittctl (rstream s1)) (timestamp (rtp m)) ts\<rparr>\<rparr>"
  obtain ok s3 where s3: "jump_check (rtp m) s2 = (ok, s3)" by (cases "jump_check (rtp m) s2")
  have "view s3 = view s" using view_jump_check [OF s3] by (simp add: s2_def s1_def)
  then have v: "view s3 = (q, t, st1, n, mx)" using assms(2) by simp
  have mx: "max_rq_size (rstream s3) = mx" "rq (rstream s3) = q" "0 \<le> mx" using v assms(1,2) by (auto simp: view_def)
  have unf: "queue_media m ts (g, s) = (if \<not> ok then Some (on_stats count_outoftime (g, s3))
       else map_option (\<lambda>(queued, d, q).
              let st = (rstream s3)\<lparr>rq := q\<rparr>;
                  st' = (if queued then st\<lparr>jittctl := jitter_control_update_size (jittctl st) q\<rparr> else st)
              in on_stats (count_discarded d) (g, s3\<lparr>rstream := st'\<rparr>))
            (queue_packet (rq (rstream s3)) (max_rq_size (rstream s3)) m))"
    using s3 by (simp add: queue_media_def s1_def s2_def Let_def)
  show ?thesis
  proof (cases ok)
    case False
    let ?r = "on_stats count_outoftime (g, s3)"
    have "view (snd ?r) = (q, t, count_outoftime st1, n, mx)" using v by (simp add: view_def on_stats_def)
    then have "outcome m s0 (snd ?r)" using assms(3-6) unfolding outcome_def
      by (intro exI [of _ q] exI [of _ t] exI [of _ st] exI [of _ n] exI [of _ mx] exI [of _ "count_outoftime st1"])
        (auto simp: count_outoftime_def)
    then show ?thesis using False by (cases ?r) (simp add: unf)
  next
    case ok: True
    show ?thesis
    proof (cases "body m = []")
      case True
      let ?r = "on_stats (count_discarded 1) (g, s3\<lparr>rstream := (rstream s3)\<lparr>rq := q\<rparr>\<rparr>)"
      have "view (snd ?r) = (q, t, count_discarded 1 st1, n, mx)" using v by (simp add: view_def on_stats_def)
      then have "outcome m s0 (snd ?r)" using assms(3-6) unfolding outcome_def
        by (intro exI [of _ q] exI [of _ t] exI [of _ st] exI [of _ n] exI [of _ mx] exI [of _ "count_discarded 1 st1"])
          (auto simp: count_discarded_def)
      then show ?thesis using True ok mx by (cases ?r) (simp add: unf queue_packet_ok Let_def)
    next
      case False
      let ?d = "length (rtp_putq q m) - nat mx" and ?q = "rtp_putq q m"
      let ?r = "on_stats (count_discarded ?d) (g, s3\<lparr>rstream := (rstream s3)\<lparr>rq := drop ?d ?q,
          jittctl := jitter_control_update_size (jittctl (rstream s3)) (drop ?d ?q)\<rparr>\<rparr>)"
      have "view (snd ?r) = (drop ?d ?q, t, count_discarded ?d st1, n, mx)" using v by (simp add: view_def on_stats_def)
      then have "outcome m s0 (snd ?r)" using assms(3-6) unfolding outcome_def by (auto simp: count_discarded_def)
      then show ?thesis using False ok mx by (cases ?r) (simp add: unf queue_packet_ok Let_def)
    qed
  qed
qed

lemma bad_outcome:
  assumes "view s1 = (q, t, st1, n, mx)" "view s0 = (q, t, st, n, mx)"
    and "st_bad st1 = st_bad st" "st_outoftime st1 = st_outoftime st" "st_discarded st1 = st_discarded st"
  shows "outcome m s0 (snd (on_stats count_bad (g, s1)))"
proof -
  have "view (snd (on_stats count_bad (g, s1))) = (q, t, count_bad st1, n, mx)" using assms(1) by (simp add: view_def on_stats_def)
  then show ?thesis using assms(2-5) unfolding outcome_def
    by (intro exI [of _ q] exI [of _ t] exI [of _ st] exI [of _ n] exI [of _ mx] exI [of _ "count_bad st1"])
      (auto simp: count_bad_def)
qed

lemma rtp_parse_outcome:
  assumes "0 \<le> max_rq_size (rstream s)"
  shows "\<exists>g' s'. rtp_session_rtp_parse now mp ts addr (g, s) = Some (g', s') \<and> outcome (rtp_mblk_of mp) s s'"
proof -
  let ?m = "rtp_mblk_of mp" and ?h = "rtp_header_of mp"
  obtain q t st n mx where v: "view s = (q, t, st, n, mx)" by (cases "view s")
  have bad: "outcome ?m s (snd (on_stats count_bad (g, s)))" by (rule bad_outcome [OF v v]) simp_all
  define s1 where "s1 = snd (on_stats (count_received (of_nat (length mp))) (g, s))"
  define g1 where "g1 = fst (on_stats (count_received (of_nat (length mp))) (g, s))"
  define s2 where "s2 = s1\<lparr>rstream := (rstream s1)\<lparr>rstate := (rstate (rstream s1))\<lparr>hwrcv_since_last_SR := hwrcv_since_last_SR (rstate (rstream s1)) + 1\<rparr>\<rparr>\<rparr>"
  let ?st = "count_received (of_nat (length mp)) st"
  have "view s1 = (q, t, ?st, n, mx)" using v by (simp add: s1_def view_def on_stats_def)
  then have v2: "view s2 = (q, t, ?st, n, mx)" by (simp add: s2_def)
  obtain ok s4 where s4: "ssrc_check ?h addr (s2\<lparr>last_recv_time := now\<rparr>) = (ok, s4)"
    by (cases "ssrc_check ?h addr (s2\<lparr>last_recv_time := now\<rparr>)")
  have v4: "view s4 = (q, t, ?st, n, mx)" using view_ssrc_check [OF s4] v2 by simp
  have cnt: "st_bad ?st = st_bad st" "st_outoftime ?st = st_outoftime st" "st_discarded ?st = st_discarded st"
    by (simp_all add: count_received_def)
  have mx: "0 \<le> max_rq_size (rstream (seq_check ?h s4))" using assms v v4 view_seq_check [of ?h s4] by (simp add: view_def)
  have v5: "view (seq_check ?h s4) = (q, t, ?st, n, mx)" using v4 by simp
  note outs = bad_outcome [OF v2 v cnt, of ?m g1] bad_outcome [OF v4 v cnt, of ?m g1]
    queue_tev_outcome [OF mx v5 v cnt, of ?m g1] queue_media_outcome [OF mx v5 v cnt, of ?m ts g1]
  have unf: "rtp_session_rtp_parse now mp ts addr (g, s) =
    (if length mp < RTP_FIXED_HEADER_SIZE then Some (on_stats count_bad (g, s))
     else if version ?h \<noteq> 2 then
      (if unat (read16 mp 2) + 20 = length mp \<and> eventqs s \<noteq> 0 then Some (g, emit s (Stun_packet mp addr))
       else Some (on_stats count_bad (g, s)))
     else if cc ?h * 4 > length mp - RTP_FIXED_HEADER_SIZE then Some (on_stats count_bad (g1, s2))
     else if \<not> ok then Some (on_stats count_bad (g1, s4))
     else if int (paytype ?h) = telephone_events_pt (rcv_dir (seq_check ?h s4)) then queue_tev ?m (g1, seq_check ?h s4)
     else queue_media ?m ts (g1, seq_check ?h s4))"
    using s4 by (simp add: rtp_session_rtp_parse_def s1_def g1_def s2_def Let_def split_beta)
  have stun: "outcome ?m s (emit s (Stun_packet mp addr))"
    using v unfolding outcome_def by (auto simp: view_def emit_def)
  show ?thesis unfolding unf using bad outs stun by (auto simp: prod_eq_iff intro: exI)
qed

definition accounted :: "RtpSession \<Rightarrow> u64" where
  "accounted s = of_nat (length (rq (rstream s)) + length (tev_rq (rstream s)) + length (filter is_stun (events s)))
     + st_bad (stats (rstream s)) + st_outoftime (stats (rstream s)) + st_discarded (stats (rstream s))"

lemma accounted_view:
  "view s = (q, t, st, n, mx) \<Longrightarrow> accounted s = of_nat (length q + length t + n) + st_bad st + st_outoftime st + st_discarded st"
  by (auto simp: view_def accounted_def)

lemma trimmed_length: "of_nat (length (drop (length p - k) p)) + of_nat (length p - k) = (of_nat (length p) :: u64)"
proof -
  have "length (drop (length p - k) p) + (length p - k) = length p" by simp
  then show ?thesis by (metis of_nat_add)
qed

lemma outcome_accounted:
  assumes "outcome m s s'"
  shows "accounted s' = accounted s + 1
     \<or> accounted s' = accounted s \<and> (\<exists>p \<in> set (rq (rstream s)) \<union> set (tev_rq (rstream s)). seq_number (rtp p) = seq_number (rtp m))"
proof -
  obtain q t st n mx q' t' st' n' where v: "view s = (q, t, st, n, mx)" "view s' = (q', t', st', n', mx)" and
    o: "q' = q \<and> t' = t \<and> (n' = n + 1 \<and> st' = st
            \<or> n' = n \<and> (\<exists>a b c. st_bad st' = st_bad st + a \<and> st_outoftime st' = st_outoftime st + b
                 \<and> st_discarded st' = st_discarded st + c \<and> a + b + c = 1))
        \<or> n' = n \<and> st_bad st' = st_bad st \<and> st_outoftime st' = st_outoftime st
            \<and> (t' = t \<and> q' = drop (length (rtp_putq q m) - nat mx) (rtp_putq q m)
                 \<and> st_discarded st' = st_discarded st + of_nat (length (rtp_putq q m) - nat mx)
               \<or> q' = q \<and> t' = drop (length (rtp_putq t m) - nat mx) (rtp_putq t m)
                 \<and> st_discarded st' = st_discarded st + of_nat (length (rtp_putq t m) - nat mx))"
    using assms unfolding outcome_def by blast
  note acc = accounted_view [OF v(1)] accounted_view [OF v(2)]
  have qt: "rq (rstream s) = q" "tev_rq (rstream s) = t" using v(1) by (auto simp: view_def)
  have put: "length (rtp_putq p m) = length p + 1 \<or> rtp_putq p m = p \<and> (\<exists>x \<in> set p. seq_number (rtp x) = seq_number (rtp m))" for p
    using rtp_putq_cases [of p m] by blast
  from o consider (stun) "q' = q" "t' = t" "n' = n + 1" "st' = st"
    | (cnt) a b c where "q' = q" "t' = t" "n' = n" "st_bad st' = st_bad st + a" "st_outoftime st' = st_outoftime st + b"
        "st_discarded st' = st_discarded st + c" "a + b + c = 1"
    | (media) "n' = n" "st_bad st' = st_bad st" "st_outoftime st' = st_outoftime st" "t' = t"
        "q' = drop (length (rtp_putq q m) - nat mx) (rtp_putq q m)" "st_discarded st' = st_discarded st + of_nat (length (rtp_putq q m) - nat mx)"
    | (tev) "n' = n" "st_bad st' = st_bad st" "st_outoftime st' = st_outoftime st" "q' = q"
        "t' = drop (length (rtp_putq t m) - nat mx) (rtp_putq t m)" "st_discarded st' = st_discarded st + of_nat (length (rtp_putq t m) - nat mx)"
    by blast
  then show ?thesis
  proof cases
    case stun
    then show ?thesis by (simp add: acc)
  next
    case cnt
    have "st_bad st + a + (st_outoftime st + b) + (st_discarded st + c) = st_bad st + st_outoftime st + st_discarded st + (a + b + c)" by simp
    with cnt show ?thesis by (simp add: acc)
  next
    case media
    have "accounted s' = of_nat (length (rtp_putq q m)) + of_nat (length t + n) + st_bad st + st_outoftime st + st_discarded st"
      using trimmed_length [of "rtp_putq q m" "nat mx"] unfolding acc(2) media by (simp add: algebra_simps)
    with put [of q] show ?thesis by (auto simp: acc(1) qt)
  next
    case tev
    have "accounted s' = of_nat (length (rtp_putq t m)) + of_nat (length q + n) + st_bad st + st_outoftime st + st_discarded st"
      using trimmed_length [of "rtp_putq t m" "nat mx"] unfolding acc(2) tev by (simp add: algebra_simps)
    with put [of t] show ?thesis by (auto simp: acc(1) qt)
  qed
qed

lemma outcome_queue:
  assumes "outcome m s s'"
  shows "rq (rstream s') = rq (rstream s)
    \<or> rq (rstream s') = drop (length (rtp_putq (rq (rstream s)) m) - nat (max_rq_size (rstream s))) (rtp_putq (rq (rstream s)) m)"
    "max_rq_size (rstream s') = max_rq_size (rstream s)"
  using assms by (auto simp: outcome_def view_def)

section \<open>The lock on one source\<close>

definition ssrc_run :: "rtp_header \<Rightarrow> bytes \<Rightarrow> nat \<Rightarrow> RtpSession \<Rightarrow> RtpSession" where
  "ssrc_run h addr k s = ((\<lambda>s. snd (ssrc_check h addr s)) ^^ k) s"

lemma ssrc_run_waiting:
  assumes "ssrc_set s" "dir_ssrc (rcv_dir s) \<noteq> ssrc h" "inc_ssrc_candidate s \<noteq> ssrc h" "0 < ssrc_changed_thres (rstream s)"
    and "0 < k" "int k \<le> ssrc_changed_thres (rstream s)"
  shows "ssrc_run h addr k s = s\<lparr>inc_same_ssrc_count := int k - 1, inc_ssrc_candidate := ssrc h\<rparr>"
  using assms(5,6)
proof (induction k)
  case (Suc k)
  show ?case
  proof (cases "k = 0")
    case True
    then show ?thesis using assms by (simp add: ssrc_run_def ssrc_check_def Let_def)
  next
    case False
    then have "ssrc_run h addr k s = s\<lparr>inc_same_ssrc_count := int k - 1, inc_ssrc_candidate := ssrc h\<rparr>" using Suc by simp
    then show ?thesis using assms Suc.prems by (simp add: ssrc_run_def ssrc_check_def Let_def)
  qed
qed simp

section \<open>Extended sequence numbers\<close>

lemma ext_halves: "push_bit 16 (ucast (hi :: u16)) OR ucast (lo :: u16) = (of_nat (65536 * unat hi + unat lo) :: u32)"
proof -
  have "push_bit 16 (ucast hi :: u32) OR ucast lo = push_bit 16 (ucast hi) + ucast lo"
    by (rule disjunctive_add [symmetric]) (auto simp: bit_simps dest: bit_imp_le_length)
  also have "\<dots> = of_nat (65536 * unat hi + unat lo)"
    by (simp add: push_bit_eq_mult)
  finally show ?thesis .
qed

lemma ext_parts:
  assumes "x < 2 ^ 32"
  shows "unat (ucast (of_nat x :: u32) :: u16) = x mod 65536" "unat (ucast (drop_bit 16 (of_nat x :: u32)) :: u16) = x div 65536"
proof -
  have u: "unat (of_nat x :: u32) = x" using assms by (simp add: unat_of_nat)
  show "unat (ucast (of_nat x :: u32) :: u16) = x mod 65536" by (simp add: unsigned_ucast_eq take_bit_eq_mod u)
  have "unat (drop_bit 16 (of_nat x :: u32)) = drop_bit 16 (unat (of_nat x :: u32))" by (rule unat_drop_bit_eq)
  then have "unat (drop_bit 16 (of_nat x :: u32)) = x div 65536" unfolding u by (simp add: drop_bit_eq_div)
  moreover have "x div 65536 < 65536" using assms by (simp add: less_mult_imp_div_less)
  ultimately show "unat (ucast (drop_bit 16 (of_nat x :: u32)) :: u16) = x div 65536"
    by (simp add: unsigned_ucast_eq take_bit_eq_mod)
qed

text \<open>A packet that follows: later in the same cycle, or early in the next one while the last was at the end of its own.\<close>

definition seq_follows :: "nat \<Rightarrow> nat \<Rightarrow> bool" where
  "seq_follows x y \<longleftrightarrow> x < y \<and> y < 2 ^ 32
     \<and> (x div 65536 = y div 65536 \<or> y div 65536 = x div 65536 + 1 \<and> 65336 < x mod 65536 \<and> y mod 65536 < 200)"

lemma update_extseq_follows:
  assumes "seq_follows x y"
  shows "update_extseq (of_nat x) (of_nat y) = of_nat y"
proof -
  have b: "x < 2 ^ 32" "y < 2 ^ 32" using assms by (auto simp: seq_follows_def)
  let ?lo = "ucast (of_nat x :: u32) :: u16" and ?hi = "ucast (drop_bit 16 (of_nat x :: u32)) :: u16" and ?sq = "of_nat y :: u16"
  have u: "unat ?lo = x mod 65536" "unat ?hi = x div 65536" "unat ?sq = y mod 65536"
    using ext_parts [OF b(1)] by (simp_all add: unat_of_nat)
  have dm: "65536 * (z div 65536) + z mod 65536 = z" for z :: nat by simp
  show ?thesis
  proof (cases "x div 65536 = y div 65536")
    case True
    have "x < y" using assms by (simp add: seq_follows_def)
    then have "x mod 65536 < y mod 65536" using True dm [of x] dm [of y] by linarith
    then have "?lo < ?sq" by (simp add: word_less_nat_alt u)
    then have "update_extseq (of_nat x) (of_nat y) = of_nat (65536 * unat ?hi + unat ?sq)"
      unfolding update_extseq_def Let_def by (simp only: if_True ext_halves)
    then show ?thesis using True dm [of y] by (simp only: u)
  next
    case False
    then have w: "y div 65536 = x div 65536 + 1" "65336 < x mod 65536" "y mod 65536 < 200" using assms by (auto simp: seq_follows_def)
    have "\<not> ?lo < ?sq" "?sq < 200" "?lo > 65336" using w by (simp_all add: word_less_nat_alt u)
    then have e: "update_extseq (of_nat x) (of_nat y) = of_nat (65536 * unat (?hi + 1) + unat ?sq)"
      unfolding update_extseq_def Let_def by (simp only: if_True if_False ext_halves simp_thms)
    have "y div 65536 < 65536" using b(2) by (simp add: less_mult_imp_div_less)
    then have "x div 65536 + 1 < 65536" using w(1) by simp
    then have "unat (?hi + 1) = x div 65536 + 1" using u(2) by (simp add: unat_word_ariths)
    then show ?thesis using e w(1) dm [of y] by (simp only: u)
  qed
qed

section \<open>Properties\<close>

text \<open>C12: only duplicates are lost without trace. With a non-negative queue limit the handler always returns, and the number of
  packets in the two queues, plus the packets counted as bad, out of time or discarded, plus the STUN events, grows by exactly
  one; it stays the same only for a duplicate of a queued packet, which is dropped silently.\<close>

theorem rtp_parse_accounts_for_every_datagram:
  assumes "0 \<le> max_rq_size (rstream s)"
  shows "\<exists>g' s'. rtp_session_rtp_parse now mp ts addr (g, s) = Some (g', s')
     \<and> (accounted s' = accounted s + 1
        \<or> accounted s' = accounted s \<and> (\<exists>p \<in> set (rq (rstream s)) \<union> set (tev_rq (rstream s)).
             seq_number (rtp p) = seq_number (rtp (rtp_mblk_of mp))))"
  using rtp_parse_outcome [OF assms, of now mp ts addr g] outcome_accounted by blast

definition demo_dir :: SessionDir where
  "demo_dir = \<lparr>dir_profile = rtp_profile_new ''demo'', dir_pt = 0, dir_ssrc = 7, dir_wp = wait_point_init, telephone_events_pt = -1\<rparr>"

definition demo_session :: RtpSession where
  "demo_session = \<lparr>snd_dir = demo_dir, rcv_dir = demo_dir, inc_ssrc_candidate = 0, inc_same_ssrc_count = 0, hw_recv_pt = 0,
     eventqs = 0, events = [], rstream = \<lparr>rtp_socket = 5, rtp_tr = False, sockfamily6 = False, max_rq_size = 100, time_jump = 5000, ts_jump = 40000, rq = [], tev_rq = [],
       rem_addr = [], jittctl = demo_jitter,
       sstate = \<lparr>snd_time_offset = 0, snd_ts_offset = 0, snd_rand_offset = 0, snd_last_ts = 0, snd_seq = 0,
         last_rtcp_packet_count = 0, sent_payload_bytes = 0, send_errno = 0\<rparr>,
       rstate = \<lparr>rcv_time_offset = 0, rcv_ts_offset = 0, rcv_query_ts_offset = 0, rcv_last_ts = 0, rcv_last_app_ts = 0,
         rcv_last_ret_ts = 0, hwrcv_extseq = 0, hwrcv_seq_at_last_SR = 0, hwrcv_since_last_SR = 0, last_rcv_SR_ts = 0,
         last_rcv_SR_time = (0, 0), recv_errno = 0\<rparr>,
       sent_bytes = 0, send_bw_start = (0, 0), recv_bytes = 0, recv_bw_start = (0, 0), stats = rtp_stats_reset, ssrc_changed_thres = 2,
       jstats = \<lparr>js_jitter = 0, js_max_jitter = 0, js_sum_jitter = 0, js_max_jitter_ts = 0, js_jitter_buffer_size_ms = 0\<rparr>\<rparr>,
     rtcp = \<lparr>rtcp_socket = 6, rtcp_tr = False, rtcp_rem_addr = [1], rtcp_interval = 5000, last_rtcp_report_snt_r = 0, last_rtcp_report_snt_s = 0, rtcp_report_snt_interval_r = 0,
       rtcp_report_snt_interval_s = 0, rtcp_enabled = True\<rparr>,
     session_mode = 0, flags = 0, last_recv_time = (0, 0), symmetric_rtp = False, permissive = False, use_connect = False, ssrc_set = True,
     sd = None, contributing_sources = [], lost_packets_test_vector = 0, interarrival_jitter_test_vector = 0, delay_test_vector = 0,
     rtt = 0, pending = None, current_tev = None, rtp_sent = [], rtcp_sent = [],
     net_sim_ctx = None, w_session_bit = False, r_session_bit = False\<rparr>"

definition demo_datagram :: bytes where
  "demo_datagram = [0x80, 0, 0, 1, 0, 0, 0, 160, 0, 0, 0, 7, 1, 2, 3, 4]"

lemma demo_session_facts:
  "max_rq_size (rstream demo_session) = 100" "rq (rstream demo_session) = []" "tev_rq (rstream demo_session) = []"
  "ssrc_changed_thres (rstream demo_session) = 2" "ssrc_set demo_session" "dir_ssrc (rcv_dir demo_session) = 7"
  "inc_ssrc_candidate demo_session = 0" "accounted demo_session = 0"
  by (simp_all add: demo_session_def demo_dir_def accounted_def rtp_stats_reset_def)

theorem rtp_parse_accounts_for_every_datagram_witness:
  "\<exists>g' s'. rtp_session_rtp_parse (0, 0) demo_datagram 0 [] (rtp_stats_reset, demo_session) = Some (g', s')
     \<and> accounted s' = 1"
  using rtp_parse_accounts_for_every_datagram [of demo_session "(0, 0)" demo_datagram 0 "[]" rtp_stats_reset]
  by (auto simp: demo_session_facts)

text \<open>The jitter buffer stays within its limit and strictly ordered by sequence number: whatever datagram arrives,
  if the queue is within the limit and sorted and the new packet's sequence number lies in the same half circle, the queue
  is within the limit and sorted afterwards.\<close>

theorem rtp_parse_keeps_queue_sorted:
  assumes "0 \<le> max_rq_size (rstream s)" and "int (length (rq (rstream s))) \<le> max_rq_size (rstream s)"
    and "seq_window base (rtp_mblk_of mp # rq (rstream s))" and "sorted_wrt (<) (map (seq_key base) (rq (rstream s)))"
    and "rtp_session_rtp_parse now mp ts addr (g, s) = Some (g', s')"
  shows "int (length (rq (rstream s'))) \<le> max_rq_size (rstream s') \<and> sorted_wrt (<) (map (seq_key base) (rq (rstream s')))
    \<and> set (rq (rstream s')) \<subseteq> insert (rtp_mblk_of mp) (set (rq (rstream s)))"
proof -
  let ?m = "rtp_mblk_of mp" and ?q = "rq (rstream s)" let ?p = "rtp_putq ?q ?m"
  have o: "outcome ?m s s'" using rtp_parse_outcome [OF assms(1), of now mp ts addr g] assms(5) by auto
  have e: "?p = ins_by_key (seq_key base) ?m ?q" by (rule rtp_putq_ins [OF assms(3,4)])
  have p: "sorted_wrt (<) (map (seq_key base) ?p)" unfolding e by (rule ins_by_key_sorted [OF assms(4)])
  have sub: "set ?p \<subseteq> insert ?m (set ?q)" unfolding e by (rule ins_by_key_set)
  have mx: "max_rq_size (rstream s') = max_rq_size (rstream s)" by (rule outcome_queue(2) [OF o])
  from outcome_queue(1) [OF o] show ?thesis
  proof
    assume "rq (rstream s') = ?q"
    then show ?thesis using assms(2,4) mx by auto
  next
    let ?d = "length ?p - nat (max_rq_size (rstream s))"
    assume d: "rq (rstream s') = drop ?d ?p"
    have "sorted_wrt (<) (map (seq_key base) (drop ?d ?p))" using p sorted_wrt_drop by (metis drop_map)
    moreover have "set (drop ?d ?p) \<subseteq> insert ?m (set ?q)" using sub set_drop_subset by fast
    moreover have "int (length (drop ?d ?p)) \<le> max_rq_size (rstream s)" using assms(1) by simp
    ultimately show ?thesis by (simp add: d mx)
  qed
qed

theorem rtp_parse_keeps_queue_sorted_witness:
  "\<exists>g' s'. rtp_session_rtp_parse (0, 0) demo_datagram 0 [] (rtp_stats_reset, demo_session) = Some (g', s')
     \<and> int (length (rq (rstream s'))) \<le> max_rq_size (rstream s') \<and> set (rq (rstream s')) \<subseteq> {rtp_mblk_of demo_datagram}"
proof -
  obtain g' s' where p: "rtp_session_rtp_parse (0, 0) demo_datagram 0 [] (rtp_stats_reset, demo_session) = Some (g', s')"
    using rtp_parse_outcome [of demo_session "(0, 0)" demo_datagram 0 "[]" rtp_stats_reset] by (auto simp: demo_session_facts)
  have "seq_window 0 [rtp_mblk_of demo_datagram]"
    by (simp add: seq_key_def rtp_mblk_of_def rtp_header_of_def demo_datagram_def read16_def be16_def)
  with rtp_parse_keeps_queue_sorted [OF _ _ _ _ p, of 0] p show ?thesis by (auto simp: demo_session_facts)
qed

text \<open>A session locked on one source follows another one only when it insists: the first \<open>ssrc_changed_thres\<close> packets in a
  row from a new SSRC are refused and change neither the source nor the queues, and the next one is accepted, makes its
  SSRC the current one and reports the change.\<close>

theorem ssrc_lock_changes_after_threshold:
  assumes "ssrc_set s" and "dir_ssrc (rcv_dir s) \<noteq> ssrc h" and "inc_ssrc_candidate s \<noteq> ssrc h"
    and "0 < ssrc_changed_thres (rstream s)"
  shows "(\<forall>k < nat (ssrc_changed_thres (rstream s)). \<not> fst (ssrc_check h addr (ssrc_run h addr k s))
            \<and> dir_ssrc (rcv_dir (ssrc_run h addr (Suc k) s)) = dir_ssrc (rcv_dir s)
            \<and> rstream (ssrc_run h addr (Suc k) s) = rstream s)
    \<and> fst (ssrc_check h addr (ssrc_run h addr (nat (ssrc_changed_thres (rstream s))) s))
    \<and> dir_ssrc (rcv_dir (ssrc_run h addr (Suc (nat (ssrc_changed_thres (rstream s)))) s)) = ssrc h
    \<and> last (events (ssrc_run h addr (Suc (nat (ssrc_changed_thres (rstream s)))) s)) = Ssrc_changed"
proof -
  let ?t = "nat (ssrc_changed_thres (rstream s))"
  have run: "ssrc_run h addr k s = s\<lparr>inc_same_ssrc_count := int k - 1, inc_ssrc_candidate := ssrc h\<rparr>" if "0 < k" "k \<le> ?t" for k
    by (rule ssrc_run_waiting [OF assms]) (use that assms(4) in auto)
  have suc: "ssrc_run h addr (Suc k) s = snd (ssrc_check h addr (ssrc_run h addr k s))" for k by (simp add: ssrc_run_def)
  have refuse: "\<not> fst (ssrc_check h addr (ssrc_run h addr k s))" if "k < ?t" for k
  proof (cases "k = 0")
    case True
    then show ?thesis using assms by (simp add: ssrc_run_def ssrc_check_def Let_def)
  next
    case False
    then show ?thesis using run [of k] that assms by (simp add: ssrc_check_def Let_def)
  qed
  have final: "ssrc_run h addr ?t s = s\<lparr>inc_same_ssrc_count := int ?t - 1, inc_ssrc_candidate := ssrc h\<rparr>"
    using run [of ?t] assms(4) by simp
  have st: "rcv_dir (store_sender addr x) = rcv_dir x" for x by (simp add: store_sender_def)
  show ?thesis using refuse run assms(2,4) unfolding suc [of ?t] final
    by (auto simp: ssrc_check_def assms Let_def emit_def st)
qed

theorem ssrc_lock_changes_after_threshold_witness:
  "dir_ssrc (rcv_dir (ssrc_run (rtp_header_of demo_datagram\<lparr>ssrc := 9\<rparr>) [] (Suc 1) demo_session)) = 7
   \<and> dir_ssrc (rcv_dir (ssrc_run (rtp_header_of demo_datagram\<lparr>ssrc := 9\<rparr>) [] (Suc 2) demo_session)) = 9"
proof -
  let ?h = "rtp_header_of demo_datagram\<lparr>ssrc := 9\<rparr>"
  have "ssrc ?h = 9" by simp
  then have "dir_ssrc (rcv_dir demo_session) \<noteq> ssrc ?h" "inc_ssrc_candidate demo_session \<noteq> ssrc ?h"
    unfolding demo_session_facts by simp_all
  note t = ssrc_lock_changes_after_threshold [OF demo_session_facts(5) this, of "[]", unfolded demo_session_facts]
  have "(1 :: nat) < nat 2" "(0 :: int) < 2" by simp_all
  with t show ?thesis by simp
qed

text \<open>The extended sequence number follows an incoming stream through the wrap-around of the 16-bit field, as long as
  the last packet before the wrap is among the last 200 numbers of its cycle and the first one after it among the first
  200; but a packet from before the wrap that arrives after it is taken for a later one and moves the counter ahead by
  almost a cycle.\<close>

theorem extseq_follows_the_stream:
  assumes "seq_follows x y" and "k < 65336" and "65336 < j" and "j < 65536" and "c < 65535"
  shows "update_extseq (of_nat x) (of_nat y) = of_nat y
    \<and> update_extseq (of_nat (65536 * (c + 1) + k)) (of_nat (65536 * c + j)) = of_nat (65536 * (c + 1) + j)"
proof
  show "update_extseq (of_nat x) (of_nat y) = of_nat y" by (rule update_extseq_follows [OF assms(1)])
  have "seq_follows (65536 * (c + 1) + k) (65536 * (c + 1) + j)" proof -
    have "(65536 * (c + 1) + i) div 65536 = c + 1" if "i < 65536" for i
      using that div_mult_self4 [of 65536 "c + 1" i] by (simp only: div_less)
    then have "(65536 * (c + 1) + k) div 65536 = (65536 * (c + 1) + j) div 65536" using assms(2,4) by (simp only:)
    then show ?thesis using assms(2-5) by (simp add: seq_follows_def)
  qed
  from update_extseq_follows [OF this]
  have "update_extseq (of_nat (65536 * (c + 1) + k)) (of_nat (65536 * (c + 1) + j)) = of_nat (65536 * (c + 1) + j)" .
  moreover have "(of_nat (65536 * (c + 1) + j) :: u16) = of_nat (65536 * c + j)"
  proof -
    have "(of_nat 65536 :: u16) = 0" by (simp add: of_nat_eq_0_iff)
    then have "(of_nat (65536 + (65536 * c + j)) :: u16) = of_nat (65536 * c + j)" by (simp only: of_nat_add add_0)
    then show ?thesis by (simp add: algebra_simps)
  qed
  ultimately show "update_extseq (of_nat (65536 * (c + 1) + k)) (of_nat (65536 * c + j)) = of_nat (65536 * (c + 1) + j)" by (simp only:)
qed

theorem extseq_follows_the_stream_witness:
  "update_extseq (of_nat 65535) (of_nat 65538) = of_nat 65538
   \<and> update_extseq (of_nat (65536 * (0 + 1) + 5)) (of_nat (65536 * 0 + 65530)) = of_nat (65536 * (0 + 1) + 65530)"
  by (rule extseq_follows_the_stream) (simp_all add: seq_follows_def)

end
