(* ===== verification/Rtcp_Packet.thy ===== *)
theory Rtcp_Packet
  imports Conf_Prelude "HOL-Library.Monad_Syntax"
begin

text \<open>
  RTCP packets on the byte level: the accessors of \<open>ortp/src/rtcpparse.c\<close> with the macros of
  \<open>rtcp.h\<close>, and the functions of \<open>ortp/src/rtcp.c\<close> that build a packet without a session. A
  received message is one block: its bytes from \<open>db_base\<close> to \<open>b_wptr\<close>, the address of \<open>db_base\<close> (the
  SDES parser aligns pointers) and \<open>b_rptr\<close> as an offset. A pointer into the message is an offset from \<open>b_rptr\<close>,
  and a read outside the message is \<open>None\<close>. The host is little-endian.
\<close>

unbundle bit_operations_syntax

section \<open>Messages and the common header\<close>

record rtcp_msg =
  rm_addr :: nat
  rm_data :: bytes
  rm_pos :: nat

record rtcp_common_header =
  ch_version :: u8
  ch_padbit :: bool
  ch_rc :: nat
  ch_packet_type :: u8
  ch_length :: u16

definition RTCP_SR :: u8 where "RTCP_SR = 200"
definition RTCP_RR :: u8 where "RTCP_RR = 201"
definition RTCP_SDES :: u8 where "RTCP_SDES = 202"
definition RTCP_BYE :: u8 where "RTCP_BYE = 203"
definition RTCP_APP :: u8 where "RTCP_APP = 204"

definition RTCP_SDES_MAX_STRING_SIZE :: nat where "RTCP_SDES_MAX_STRING_SIZE = 255"
definition RTCP_SDES_CHUNK_DEFAULT_SIZE :: nat where "RTCP_SDES_CHUNK_DEFAULT_SIZE = 1024"
definition RTCP_BYE_REASON_MAX_STRING_SIZE :: nat where "RTCP_BYE_REASON_MAX_STRING_SIZE = 255"

definition rtcp_msg_of :: "bytes \<Rightarrow> rtcp_msg" where
  "rtcp_msg_of bs = \<lparr>rm_addr = 0, rm_data = bs, rm_pos = 0\<rparr>"

definition cur :: "rtcp_msg \<Rightarrow> bytes" where
  "cur m = drop (rm_pos m) (rm_data m)"

definition word_at :: "bytes \<Rightarrow> nat \<Rightarrow> u32 option" where
  "word_at bs i = (if i + 4 \<le> length bs then Some (read32 bs i) else None)"

text \<open>A word read without \<open>ntohl\<close>: the bytes in the other order.\<close>

definition raw_word_at :: "bytes \<Rightarrow> nat \<Rightarrow> u32 option" where
  "raw_word_at bs i = (if i + 4 \<le> length bs then Some (be32 (bs ! (i + 3)) (bs ! (i + 2)) (bs ! (i + 1)) (bs ! i)) else None)"

definition rtcp_header_at :: "bytes \<Rightarrow> rtcp_common_header" where
  "rtcp_header_at bs = \<lparr>ch_version = drop_bit 6 (bs ! 0), ch_padbit = bit (bs ! 0) 5, ch_rc = unat (bs ! 0 AND 31),
     ch_packet_type = bs ! 1, ch_length = read16 bs 2\<rparr>"

definition rtcp_get_common_header :: "rtcp_msg \<Rightarrow> rtcp_common_header option" where
  "rtcp_get_common_header m = (if length (cur m) < 4 then None else Some (rtcp_header_at (cur m)))"

definition rtcp_get_size :: "rtcp_msg \<Rightarrow> int" where
  "rtcp_get_size m = (case rtcp_get_common_header m of None \<Rightarrow> -1 | Some ch \<Rightarrow> (1 + uint (ch_length ch)) * 4)"

definition rtcp_next_packet :: "rtcp_msg \<Rightarrow> bool \<times> rtcp_msg" where
  "rtcp_next_packet m =
    (let nextlen = rtcp_get_size m in
     if 0 \<le> nextlen \<and> int (rm_pos m) + nextlen < int (length (rm_data m))
     then (True, m\<lparr>rm_pos := rm_pos m + nat nextlen\<rparr>) else (False, m))"

definition rtcp_rewind :: "rtcp_msg \<Rightarrow> rtcp_msg" where
  "rtcp_rewind m = m\<lparr>rm_pos := 0\<rparr>"

text \<open>The type checks share their shape: the header is there, the type is right and the size test of the type holds.\<close>

definition has_type :: "rtcp_msg \<Rightarrow> u8 \<Rightarrow> bool" where
  "has_type m t = (case rtcp_get_common_header m of None \<Rightarrow> False | Some ch \<Rightarrow> ch_packet_type ch = t)"

section \<open>Sender and receiver reports\<close>

definition rtcp_is_SR :: "rtcp_msg \<Rightarrow> bool" where
  "rtcp_is_SR m \<longleftrightarrow> has_type m RTCP_SR \<and> 28 \<le> length (cur m)"

definition rtcp_SR_get_ssrc :: "rtcp_msg \<Rightarrow> u32 option" where
  "rtcp_SR_get_ssrc m = word_at (cur m) 4"

definition rtcp_SR_get_sender_info :: "rtcp_msg \<Rightarrow> nat" where
  "rtcp_SR_get_sender_info m = 8"

definition rtcp_SR_get_report_block :: "rtcp_msg \<Rightarrow> nat \<Rightarrow> nat option" where
  "rtcp_SR_get_report_block m idx = (let rb = 28 + 24 * idx in if int (rb + 24) \<le> rtcp_get_size m then Some rb else None)"

definition rtcp_is_RR :: "rtcp_msg \<Rightarrow> bool" where
  "rtcp_is_RR m \<longleftrightarrow> has_type m RTCP_RR \<and> 32 \<le> length (cur m)"

definition rtcp_RR_get_ssrc :: "rtcp_msg \<Rightarrow> u32 option" where
  "rtcp_RR_get_ssrc m = word_at (cur m) 4"

definition rtcp_RR_get_report_block :: "rtcp_msg \<Rightarrow> nat \<Rightarrow> nat option" where
  "rtcp_RR_get_report_block m idx = (let rb = 8 + 24 * idx in if int (rb + 24) \<le> rtcp_get_size m then Some rb else None)"

definition sender_info_get_rtp_timestamp :: "rtcp_msg \<Rightarrow> nat \<Rightarrow> u32 option" where
  "sender_info_get_rtp_timestamp m si = raw_word_at (cur m) (si + 8)"

definition sender_info_get_packet_count :: "rtcp_msg \<Rightarrow> nat \<Rightarrow> u32 option" where
  "sender_info_get_packet_count m si = word_at (cur m) (si + 12)"

definition sender_info_get_octet_count :: "rtcp_msg \<Rightarrow> nat \<Rightarrow> u32 option" where
  "sender_info_get_octet_count m si = word_at (cur m) (si + 16)"

definition report_block_get_ssrc :: "rtcp_msg \<Rightarrow> nat \<Rightarrow> u32 option" where
  "report_block_get_ssrc m rb = word_at (cur m) rb"

definition report_block_get_fraction_lost :: "rtcp_msg \<Rightarrow> nat \<Rightarrow> u32 option" where
  "report_block_get_fraction_lost m rb = map_option (\<lambda>w. drop_bit 24 w) (word_at (cur m) (rb + 4))"

definition report_block_get_cum_packet_loss :: "rtcp_msg \<Rightarrow> nat \<Rightarrow> u32 option" where
  "report_block_get_cum_packet_loss m rb = map_option (\<lambda>w. w AND 0xFFFFFF) (word_at (cur m) (rb + 4))"

definition report_block_get_high_ext_seq :: "rtcp_msg \<Rightarrow> nat \<Rightarrow> u32 option" where
  "report_block_get_high_ext_seq m rb = word_at (cur m) (rb + 8)"

definition report_block_get_interarrival_jitter :: "rtcp_msg \<Rightarrow> nat \<Rightarrow> u32 option" where
  "report_block_get_interarrival_jitter m rb = word_at (cur m) (rb + 12)"

definition report_block_get_last_SR_time :: "rtcp_msg \<Rightarrow> nat \<Rightarrow> u32 option" where
  "report_block_get_last_SR_time m rb = word_at (cur m) (rb + 16)"

definition report_block_get_last_SR_delay :: "rtcp_msg \<Rightarrow> nat \<Rightarrow> u32 option" where
  "report_block_get_last_SR_delay m rb = word_at (cur m) (rb + 20)"

section \<open>Source descriptions\<close>

definition rtcp_is_SDES :: "rtcp_msg \<Rightarrow> bool" where
  "rtcp_is_SDES m \<longleftrightarrow> has_type m RTCP_SDES \<and> rtcp_get_size m \<le> int (length (cur m))"

text \<open>
  The loop over the items: \<open>a\<close> is the address of the first byte of \<open>bs\<close>, \<open>i\<close> the offset of \<open>rptr\<close> and \<open>e\<close> that of
  \<open>end\<close>. The result is the list of calls of the callback.
\<close>

type_synonym sdes_item = "u32 \<times> u8 \<times> bytes"

function sdes_loop :: "nat \<Rightarrow> bytes \<Rightarrow> nat \<Rightarrow> nat \<Rightarrow> nat \<Rightarrow> bool \<Rightarrow> u32 \<Rightarrow> nat \<Rightarrow> sdes_item list" where
  "sdes_loop a bs rc e i chunk_start src nchunk =
    (if i < e then
       if chunk_start then
         if i + 4 \<le> e then sdes_loop a bs rc e (i + 4) False (read32 bs i) nchunk else []
       else if i + 2 \<le> e then
         let type = bs ! i; len = unat (bs ! (i + 1)) in
         if type = 0 then
           let i' = (a + i + 4) div 4 * 4 - a in
           if Suc nchunk < rc then sdes_loop a bs rc e i' True src (Suc nchunk) else []
         else if i + 2 + len \<le> e
           then (src, type, take len (drop (i + 2) bs)) # sdes_loop a bs rc e (i + 2 + len) False src nchunk
           else []
       else []
     else [])"
  by pat_completeness auto
termination
  by (relation "measure (\<lambda>(a, bs, rc, e, i, _). e - i)") (auto simp: Let_def)

declare sdes_loop.simps [simp del]

definition rtcp_sdes_parse :: "rtcp_msg \<Rightarrow> sdes_item list option" where
  "rtcp_sdes_parse m = map_option (\<lambda>ch.
      let bs = cur m; e = min (4 + 4 * (unat (ch_length ch) + 1)) (length bs)
      in sdes_loop (rm_addr m + rm_pos m) bs (ch_rc ch) e 4 True 0 0) (rtcp_get_common_header m)"

section \<open>Goodbyes and application packets\<close>

definition rtcp_is_BYE :: "rtcp_msg \<Rightarrow> bool" where
  "rtcp_is_BYE m \<longleftrightarrow> has_type m RTCP_BYE \<and> rtcp_get_size m \<le> int (length (cur m))"

text \<open>Both accessors read the header first; their results are \<open>None\<close> for \<open>FALSE\<close> inside \<open>None\<close> for a bad read.\<close>

definition rtcp_BYE_get_ssrc :: "rtcp_msg \<Rightarrow> nat \<Rightarrow> u32 option option" where
  "rtcp_BYE_get_ssrc m idx = do {
     ch \<leftarrow> rtcp_get_common_header m;
     if idx < ch_rc ch \<and> int (4 + 4 * idx) \<le> 4 + uint (ch_length ch) - 4
     then map_option Some (word_at (cur m) (4 + 4 * idx)) else Some None }"

definition rtcp_BYE_get_reason :: "rtcp_msg \<Rightarrow> bytes option option" where
  "rtcp_BYE_get_reason m = do {
     ch \<leftarrow> rtcp_get_common_header m;
     let i = 4 + 4 * ch_rc ch;
     if int i < rtcp_get_size m then do {
       content_len \<leftarrow> byte_at (cur m) i;
       Some (if int (i + 1 + unat content_len) \<le> rtcp_get_size m
             then Some (take (unat content_len) (drop (i + 1) (cur m))) else None) }
     else Some None }"

definition rtcp_is_APP :: "rtcp_msg \<Rightarrow> bool" where
  "rtcp_is_APP m \<longleftrightarrow> has_type m RTCP_APP \<and> rtcp_get_size m \<le> int (length (cur m)) \<and> 12 \<le> rtcp_get_size m"

definition rtcp_APP_get_subtype :: "rtcp_msg \<Rightarrow> nat option" where
  "rtcp_APP_get_subtype m = map_option ch_rc (rtcp_get_common_header m)"

definition rtcp_APP_get_ssrc :: "rtcp_msg \<Rightarrow> u32 option" where
  "rtcp_APP_get_ssrc m = word_at (cur m) 4"

definition rtcp_APP_get_name :: "rtcp_msg \<Rightarrow> bytes option" where
  "rtcp_APP_get_name m = (if 12 \<le> length (cur m) then Some (take 4 (drop 8 (cur m))) else None)"

text \<open>The offset of the data and its length.\<close>

definition rtcp_APP_get_data :: "rtcp_msg \<Rightarrow> (nat \<times> int) option" where
  "rtcp_APP_get_data m = (let datalen = rtcp_get_size m - 12 in if 0 < datalen then Some (12, datalen) else None)"

section \<open>Building packets\<close>

definition rtcp_common_header_init :: "u8 \<Rightarrow> nat \<Rightarrow> nat \<Rightarrow> bytes" where
  "rtcp_common_header_init type rc bytes_len =
    [0x80 OR (of_nat rc AND 31), type] @ be16_bytes (of_int (int (bytes_len div 4) - 1))"

text \<open>
  An SDES chunk under construction: the blocks of the chain with their capacities. The blocks come from \<open>allocb\<close>, so
  their data starts at a multiple of 4 and the padding of \<open>appendb\<close> depends on the offset only.
\<close>

type_synonym sdes_chunk = "(nat \<times> bytes) list"

definition chunk_bytes :: "sdes_chunk \<Rightarrow> bytes" where
  "chunk_bytes m = concat (map snd m)"

definition chunk_append :: "sdes_chunk \<Rightarrow> bytes \<Rightarrow> bool \<Rightarrow> sdes_chunk option" where
  "chunk_append m data pad =
    (let (cap, b) = last m;
         padcnt = (if pad then (4 - (length b + length data) mod 4) mod 4 else 0);
         new = data @ replicate padcnt 0
     in if length b + length data + padcnt \<le> cap then Some (butlast m @ [(cap, b @ new)])
        else if length new \<le> max cap (length data) then Some (m @ [(max cap (length data), new)]) else None)"

definition sdes_chunk_new :: "u32 \<Rightarrow> sdes_chunk" where
  "sdes_chunk_new s = [(RTCP_SDES_CHUNK_DEFAULT_SIZE, be32_bytes s)]"

definition sdes_chunk_append_item :: "sdes_chunk \<Rightarrow> u8 \<Rightarrow> bytes option \<Rightarrow> sdes_chunk option" where
  "sdes_chunk_append_item m sdes_type content = (case content of None \<Rightarrow> Some m
    | Some c \<Rightarrow> do {
        let len = min (length c) RTCP_SDES_MAX_STRING_SIZE;
        m1 \<leftarrow> chunk_append m [sdes_type, of_nat len] False;
        chunk_append m1 (take len c) False })"

definition sdes_chunk_pad :: "sdes_chunk \<Rightarrow> sdes_chunk option" where
  "sdes_chunk_pad m = chunk_append m [0] True"

definition sdes_chunk_set_ssrc :: "bytes \<Rightarrow> u32 \<Rightarrow> bytes" where
  "sdes_chunk_set_ssrc m s = be32_bytes s @ drop 4 m"

definition sdes_chunk_get_ssrc :: "bytes \<Rightarrow> u32" where
  "sdes_chunk_get_ssrc m = read32 m 0"

text \<open>The chunk with its items in order, from CNAME (1) on, and the padding.\<close>

fun sdes_chunk_items :: "sdes_chunk \<Rightarrow> u8 \<Rightarrow> bytes option list \<Rightarrow> sdes_chunk option" where
  "sdes_chunk_items m t [] = sdes_chunk_pad m"
| "sdes_chunk_items m t (c # cs) = Option.bind (sdes_chunk_append_item m t c) (\<lambda>m1. sdes_chunk_items m1 (t + 1) cs)"

text \<open>
  The BYE packet. The block has \<open>packet_size\<close> bytes; an empty reason has one byte that the size does not count, so
  \<open>appendb\<close> puts it into a second block.
\<close>

definition rtcp_create_simple_bye_packet :: "u32 \<Rightarrow> bytes option \<Rightarrow> bytes" where
  "rtcp_create_simple_bye_packet s reason = (case reason of
      None \<Rightarrow> rtcp_common_header_init RTCP_BYE 1 8 @ be32_bytes s
    | Some r \<Rightarrow>
       let strsize = min (length r) RTCP_BYE_REASON_MAX_STRING_SIZE;
           strpadding = (if 0 < strsize then 3 - strsize mod 4 else 0);
           packet_size = (if 0 < strsize then 8 + 1 + strsize + strpadding else 8)
       in rtcp_common_header_init RTCP_BYE 1 packet_size @ be32_bytes s @
          [of_nat strsize] @ take strsize r @ replicate strpadding 0)"

section \<open>The SDES parser reads back what the format says\<close>

text \<open>The format of RFC 3550: items, then zeros up to the next multiple of 4, at least one.\<close>

definition item_bytes :: "u8 \<times> bytes \<Rightarrow> bytes" where
  "item_bytes it = fst it # of_nat (length (snd it)) # snd it"

definition item_ok :: "u8 \<times> bytes \<Rightarrow> bool" where
  "item_ok it \<longleftrightarrow> fst it \<noteq> 0 \<and> length (snd it) \<le> 255"

definition items_bytes :: "(u8 \<times> bytes) list \<Rightarrow> bytes" where
  "items_bytes its = concat (map item_bytes its)"

definition sdes_chunk_bytes :: "u32 \<times> (u8 \<times> bytes) list \<Rightarrow> bytes" where
  "sdes_chunk_bytes ck =
    (let b = be32_bytes (fst ck) @ items_bytes (snd ck) in b @ replicate (4 - length b mod 4) 0)"

definition sdes_chunk_calls :: "u32 \<times> (u8 \<times> bytes) list \<Rightarrow> sdes_item list" where
  "sdes_chunk_calls ck = map (\<lambda>(t, c). (fst ck, t, c)) (snd ck)"

lemma drop_nth: "drop i bs = x # r \<Longrightarrow> i < length bs \<and> bs ! i = x \<and> drop (Suc i) bs = r"
proof -
  assume a: "drop i bs = x # r"
  then have "i < length bs" by (metis drop_all list.distinct(1) not_less)
  with a show ?thesis by (metis Cons_nth_drop_Suc list.inject)
qed

lemma drop_add: "drop i bs = x @ r \<Longrightarrow> drop (i + length x) bs = r"
  by (metis add.commute append_eq_conv_conj drop_drop)

lemma read32_drop: "drop i bs = be32_bytes w @ r \<Longrightarrow> read32 bs i = w"
proof -
  assume d: "drop i bs = be32_bytes w @ r"
  let ?k = "min i (length bs)"
  have "length (drop i bs) \<ge> 4" using d by simp
  then have "i \<le> length bs" by simp
  moreover have "bs = take i bs @ be32_bytes w @ r" using d by (metis append_take_drop_id)
  ultimately show ?thesis using read32_at [of "take i bs" i w r] by simp
qed

lemma sdes_loop_items:
  assumes "list_all item_ok its" and "drop i bs = items_bytes its @ r" and "i + length (items_bytes its) \<le> e"
  shows "sdes_loop a bs rc e i False s n
    = map (\<lambda>(t, c). (s, t, c)) its @ sdes_loop a bs rc e (i + length (items_bytes its)) False s n"
  using assms
proof (induction its arbitrary: i)
  case Nil
  then show ?case by (simp add: items_bytes_def)
next
  case (Cons it its)
  obtain t c where it: "it = (t, c)" by force
  have ok: "t \<noteq> 0" "length c \<le> 255" using Cons.prems(1) by (auto simp: it item_ok_def)
  have d: "drop i bs = t # of_nat (length c) # c @ items_bytes its @ r"
    using Cons.prems(2) by (simp add: items_bytes_def item_bytes_def it)
  note d0 = drop_nth [OF d]
  note d1 = drop_nth [OF d0 [THEN conjunct2, THEN conjunct2]]
  have len: "unat (of_nat (length c) :: u8) = length c" using ok(2) by (simp add: unat_of_nat)
  have d2: "drop (i + 2) bs = c @ items_bytes its @ r" using d1 by simp
  have d3: "drop (i + 2 + length c) bs = items_bytes its @ r" using drop_add [OF d2] by simp
  have b: "i + 2 + length c + length (items_bytes its) \<le> e"
    using Cons.prems(3) by (simp add: items_bytes_def item_bytes_def it)
  have "sdes_loop a bs rc e i False s n = (s, t, c) # sdes_loop a bs rc e (i + 2 + length c) False s n"
    by (subst sdes_loop.simps) (use ok d0 d1 d2 b len in \<open>auto simp: Let_def\<close>)
  also have "sdes_loop a bs rc e (i + 2 + length c) False s n = map (\<lambda>(t, c). (s, t, c)) its @
      sdes_loop a bs rc e (i + 2 + length c + length (items_bytes its)) False s n"
    using Cons.IH [OF _ d3] Cons.prems(1) b by simp
  finally show ?case by (simp add: it items_bytes_def item_bytes_def ac_simps)
qed

lemma align_pad:
  fixes a i L :: nat
  assumes "4 dvd a + i"
  shows "(a + (i + L) + 4) div 4 * 4 - a = i + (L + (4 - L mod 4))"
proof -
  obtain q where q: "a + i = 4 * q" using assms by auto
  define r k where "r = L div 4" and "k = L mod 4"
  have L: "L = 4 * r + k" and k: "k < 4" by (simp_all add: r_def k_def)
  have "a + (i + L) + 4 = 4 * (q + r + 1) + k" using q L by simp
  then have "(a + (i + L) + 4) div 4 = q + r + 1" using k by simp
  then show ?thesis using q L k by (simp flip: k_def)
qed

lemma sdes_loop_end:
  assumes "drop i bs = 0 # r" and "i + 2 \<le> e"
  shows "sdes_loop a bs rc e i False s n
    = (if Suc n < rc then sdes_loop a bs rc e ((a + i + 4) div 4 * 4 - a) True s (Suc n) else [])"
  by (subst sdes_loop.simps) (use assms drop_nth [OF assms(1)] in \<open>auto simp: Let_def\<close>)

lemma sdes_loop_short: "\<not> i + 2 \<le> e \<Longrightarrow> sdes_loop a bs rc e i False s n = []"
  by (subst sdes_loop.simps) auto

text \<open>One chunk that starts aligned: its items, and then the next chunk if there is one.\<close>

lemma sdes_loop_chunk:
  assumes "list_all item_ok its" and "drop i bs = sdes_chunk_bytes (w, its) @ r" and "i + length (sdes_chunk_bytes (w, its)) \<le> e"
    and "4 dvd a + i" and "Suc n < rc \<longrightarrow> i + length (sdes_chunk_bytes (w, its)) < e"
  shows "sdes_loop a bs rc e i True s n = sdes_chunk_calls (w, its) @
    (if Suc n < rc then sdes_loop a bs rc e (i + length (sdes_chunk_bytes (w, its))) True w (Suc n) else [])"
proof -
  let ?L = "4 + length (items_bytes its)" and ?z = "4 - (4 + length (items_bytes its)) mod 4"
  have z: "0 < ?z" "?z \<le> 4" by simp_all
  have ck: "sdes_chunk_bytes (w, its) = be32_bytes w @ items_bytes its @ 0 # replicate (?z - 1) 0"
    using z(1) by (simp add: sdes_chunk_bytes_def Let_def flip: replicate_Suc)
  have len: "length (sdes_chunk_bytes (w, its)) = ?L + ?z" using z by (simp add: ck)
  have d: "drop i bs = be32_bytes w @ items_bytes its @ 0 # replicate (?z - 1) 0 @ r" using assms(2) by (simp add: ck)
  have d4: "drop (i + 4) bs = items_bytes its @ 0 # replicate (?z - 1) 0 @ r" using drop_add [OF d] by simp
  have dL: "drop (i + ?L) bs = 0 # replicate (?z - 1) 0 @ r" using drop_add [OF d4] by (simp add: ac_simps)
  have al: "(a + (i + ?L) + 4) div 4 * 4 - a = i + (?L + ?z)"
    by (rule align_pad [OF assms(4)])
  have "sdes_loop a bs rc e i True s n = sdes_loop a bs rc e (i + 4) False w n"
    by (subst sdes_loop.simps) (use assms(3) len z read32_drop [OF d] in \<open>auto simp: Let_def\<close>)
  also have "\<dots> = sdes_chunk_calls (w, its) @ sdes_loop a bs rc e (i + ?L) False w n"
    using sdes_loop_items [OF assms(1) d4, of e a rc w n] assms(3) len z by (simp add: sdes_chunk_calls_def ac_simps)
  also have "sdes_loop a bs rc e (i + ?L) False w n
    = (if Suc n < rc then sdes_loop a bs rc e (i + (?L + ?z)) True w (Suc n) else [])"
  proof (cases "i + ?L + 2 \<le> e")
    case True
    from sdes_loop_end [OF dL True, of a rc w n] show ?thesis by (simp only: al)
  next
    case False
    then have "\<not> Suc n < rc" using assms(5) z by (auto simp: len)
    then show ?thesis using sdes_loop_short [OF False] by simp
  qed
  finally show ?thesis by (simp only: len)
qed

lemma sdes_chunk_bytes_align: "4 dvd length (sdes_chunk_bytes ck)" "4 \<le> length (sdes_chunk_bytes ck)"
proof -
  have "length (sdes_chunk_bytes ck) = length (be32_bytes (fst ck) @ items_bytes (snd ck)) + (4 - length (be32_bytes (fst ck) @ items_bytes (snd ck)) mod 4)"
    by (simp add: sdes_chunk_bytes_def Let_def)
  moreover have "4 dvd L + (4 - L mod 4)" for L :: nat by presburger
  ultimately show "4 dvd length (sdes_chunk_bytes ck)" "4 \<le> length (sdes_chunk_bytes ck)" by (metis, simp add: sdes_chunk_bytes_def Let_def)
qed

lemma sdes_loop_chunks:
  assumes "\<forall>ck \<in> set cks. list_all item_ok (snd ck)" and "drop i bs = concat (map sdes_chunk_bytes cks) @ r"
    and "i + length (concat (map sdes_chunk_bytes cks)) \<le> e" and "4 dvd a + i" and "n + length cks = rc" and "cks \<noteq> []"
  shows "sdes_loop a bs rc e i True s n = concat (map sdes_chunk_calls cks)"
  using assms
proof (induction cks arbitrary: i n s)
  case (Cons ck cks)
  obtain w its where ck: "ck = (w, its)" by force
  let ?l = "length (sdes_chunk_bytes (w, its))"
  have d: "drop i bs = sdes_chunk_bytes (w, its) @ concat (map sdes_chunk_bytes cks) @ r" using Cons.prems(2) by (simp add: ck)
  have more: "Suc n < rc \<longleftrightarrow> cks \<noteq> []" using Cons.prems(5) by auto
  have "cks \<noteq> [] \<Longrightarrow> i + ?l < e"
    using sdes_chunk_bytes_align(2) [of "hd cks"] Cons.prems(3) by (cases cks) (auto simp: ck)
  then have s1: "sdes_loop a bs rc e i True s n = sdes_chunk_calls (w, its) @
    (if Suc n < rc then sdes_loop a bs rc e (i + ?l) True w (Suc n) else [])"
    using Cons.prems(1,3,4,6) more by (intro sdes_loop_chunk [OF _ d]) (auto simp: ck)
  show ?case
  proof (cases "cks = []")
    case True
    then show ?thesis using s1 more by (simp add: ck)
  next
    case False
    have "4 dvd a + (i + ?l)" using Cons.prems(4) sdes_chunk_bytes_align(1) [of "(w, its)"] by (metis add.assoc dvd_add)
    then have "sdes_loop a bs rc e (i + ?l) True w (Suc n) = concat (map sdes_chunk_calls cks)"
      using Cons.prems(1,3,5) False drop_add [OF d] by (intro Cons.IH) (auto simp: ck)
    then show ?thesis using s1 more False by (simp add: ck)
  qed
qed simp

section \<open>Built packets\<close>

lemma header_rc_bits:
  "drop_bit 6 (0x80 OR (x AND 31) :: u8) = 2" "\<not> bit (0x80 OR (x AND 31) :: u8) 5" "(0x80 OR (x AND 31)) AND 31 = (x AND 31 :: u8)"
proof -
  have e: "y AND 31 = take_bit 5 y" "(0x80 :: u8) = push_bit 7 1" for y :: u8
    by (simp_all add: take_bit_eq_mask mask_eq_exp_minus_1 push_bit_eq_mult)
  show "(0x80 OR (x AND 31)) AND 31 = (x AND 31 :: u8)"
    unfolding e by (rule bit_word_eqI) (auto simp: bit_simps)
  show "\<not> bit (0x80 OR (x AND 31) :: u8) 5" unfolding e by (simp add: bit_simps)
  have two: "bit (2 :: u8) n \<longleftrightarrow> n = 1" for n using bit_double_iff [of "1 :: u8" n] by (auto simp: bit_simps)
  show "drop_bit 6 (0x80 OR (x AND 31) :: u8) = 2"
    unfolding e by (rule bit_word_eqI) (auto simp: bit_simps two)
qed

lemma length_header_init [simp]: "length (rtcp_common_header_init t rc n) = 4"
  by (simp add: rtcp_common_header_init_def)

lemma header_init_read:
  assumes "cur m = rtcp_common_header_init t rc n @ r" and "rc < 32"
  shows "rtcp_get_common_header m = Some \<lparr>ch_version = 2, ch_padbit = False, ch_rc = rc, ch_packet_type = t,
     ch_length = of_int (int (n div 4) - 1)\<rparr>"
proof -
  have "of_nat rc AND 31 = take_bit 5 (of_nat rc :: u8)" by (simp add: take_bit_eq_mask mask_eq_exp_minus_1)
  then have "unat (of_nat rc AND 31 :: u8) = rc"
    using assms(2) by (simp only: unsigned_take_bit_eq) (simp add: unat_of_nat take_bit_eq_mod)
  then show ?thesis
    using read16_at [of "[0x80 OR (of_nat rc AND 31), t]" 2 "of_int (int (n div 4) - 1)" r]
    by (simp add: assms(1) rtcp_get_common_header_def rtcp_header_at_def rtcp_common_header_init_def header_rc_bits)
qed

lemma header_size_read:
  assumes "cur m = rtcp_common_header_init t rc n @ r" and "rc < 32" and "4 dvd n" and "4 \<le> n" and "n \<le> 262144"
  shows "rtcp_get_size m = int n" and "has_type m t' \<longleftrightarrow> t' = t" and "unat (of_int (int (n div 4) - 1) :: u16) = n div 4 - 1"
proof -
  obtain k where k: "n = 4 * k" using assms(3) by auto
  have u: "uint (of_int (int (n div 4) - 1) :: u16) = int (n div 4) - 1"
  proof -
    obtain j where j: "k = Suc j" using assms(4) k by (cases k) auto
    show ?thesis using assms(5) by (simp add: k j unsigned_of_nat take_bit_eq_mod)
  qed
  then show "unat (of_int (int (n div 4) - 1) :: u16) = n div 4 - 1"
    using assms(4) k by (simp add: unat_eq_nat_uint nat_diff_distrib)
  show "rtcp_get_size m = int n" using u k by (simp add: rtcp_get_size_def header_init_read [OF assms(1,2)])
  show "has_type m t' \<longleftrightarrow> t' = t" by (auto simp: has_type_def header_init_read [OF assms(1,2)])
qed

lemma header_init_fields:
  assumes "cur m = rtcp_common_header_init t rc n @ r" and "rc < 32" and "4 dvd n" and "4 \<le> n" and "n \<le> 262144"
  obtains L where "rtcp_get_common_header m = Some \<lparr>ch_version = 2, ch_padbit = False, ch_rc = rc, ch_packet_type = t, ch_length = L\<rparr>"
    and "uint L = int (n div 4) - 1"
proof
  show "rtcp_get_common_header m = Some \<lparr>ch_version = 2, ch_padbit = False, ch_rc = rc, ch_packet_type = t,
     ch_length = of_int (int (n div 4) - 1)\<rparr>" by (rule header_init_read [OF assms(1,2)])
  show "uint (of_int (int (n div 4) - 1) :: u16) = int (n div 4) - 1"
    using header_size_read(3) [OF assms] assms(4) by (simp only: uint_nat)
qed

fun sdes_items_of :: "u8 \<Rightarrow> bytes option list \<Rightarrow> (u8 \<times> bytes) list" where
  "sdes_items_of t [] = []"
| "sdes_items_of t (None # cs) = sdes_items_of (t + 1) cs"
| "sdes_items_of t (Some c # cs) = (t, take 255 c) # sdes_items_of (t + 1) cs"

lemma chunk_append_fits:
  "length b + length data + (if pad then (4 - (length b + length data) mod 4) mod 4 else 0) \<le> cap \<Longrightarrow>
   chunk_append [(cap, b)] data pad
     = Some [(cap, b @ data @ replicate (if pad then (4 - (length b + length data) mod 4) mod 4 else 0) 0)]"
  by (simp add: chunk_append_def Let_def)

lemma sdes_append_item_fits:
  assumes "length b + length (items_bytes (sdes_items_of t [c])) \<le> cap"
  shows "sdes_chunk_append_item [(cap, b)] t c = Some [(cap, b @ items_bytes (sdes_items_of t [c]))]"
proof (cases c)
  case None
  then show ?thesis by (simp add: sdes_chunk_append_item_def items_bytes_def)
next
  case (Some x)
  then show ?thesis using assms
    by (simp add: sdes_chunk_append_item_def items_bytes_def item_bytes_def chunk_append_fits RTCP_SDES_MAX_STRING_SIZE_def min_def)
qed

lemma sdes_pad_fits:
  assumes "length b + (4 - length b mod 4) \<le> cap"
  shows "sdes_chunk_pad [(cap, b)] = Some [(cap, b @ replicate (4 - length b mod 4) 0)]"
proof -
  have p: "Suc ((4 - Suc (length b) mod 4) mod 4) = 4 - length b mod 4" 
  proof -
    have "length b mod 4 \<in> {0, 1, 2, 3}" by auto
    then show ?thesis by (auto simp: mod_Suc)
  qed
  have "chunk_append [(cap, b)] [0] True = Some [(cap, b @ [0] @ replicate ((4 - Suc (length b) mod 4) mod 4) 0)]"
    by (subst chunk_append_fits) (use assms p in \<open>simp_all, linarith\<close>)
  then show ?thesis by (simp add: sdes_chunk_pad_def flip: replicate_Suc p)
qed

lemma sdes_items_cons: "items_bytes (sdes_items_of t (c # cs)) = items_bytes (sdes_items_of t [c]) @ items_bytes (sdes_items_of (t + 1) cs)"
  by (cases c) (simp_all add: items_bytes_def)

lemma sdes_chunk_items_fits:
  assumes "length b + length (items_bytes (sdes_items_of t cs)) + (4 - (length b + length (items_bytes (sdes_items_of t cs))) mod 4) \<le> cap"
  shows "sdes_chunk_items [(cap, b)] t cs = Some [(cap, b @ items_bytes (sdes_items_of t cs) @
     replicate (4 - (length b + length (items_bytes (sdes_items_of t cs))) mod 4) 0)]"
  using assms
proof (induction cs arbitrary: b t)
  case Nil
  then show ?case using sdes_pad_fits [of b cap] by (simp add: items_bytes_def)
next
  case (Cons c cs)
  let ?a = "items_bytes (sdes_items_of t [c])"
  have l: "length (items_bytes (sdes_items_of t (c # cs))) = length ?a + length (items_bytes (sdes_items_of (t + 1) cs))"
    by (subst sdes_items_cons) simp
  have "sdes_chunk_append_item [(cap, b)] t c = Some [(cap, b @ ?a)]"
    by (rule sdes_append_item_fits) (use Cons.prems l in linarith)
  then show ?case using Cons.IH [of "b @ ?a" "t + 1"] Cons.prems
    by (simp add: l add.assoc) (subst sdes_items_cons, simp)
qed

lemma sdes_chunk_built:
  assumes "length (sdes_chunk_bytes (s, sdes_items_of 1 cs)) \<le> 1024"
  shows "map_option chunk_bytes (sdes_chunk_items (sdes_chunk_new s) 1 cs) = Some (sdes_chunk_bytes (s, sdes_items_of 1 cs))"
  using sdes_chunk_items_fits [of "be32_bytes s" 1 cs 1024] assms
  by (simp add: sdes_chunk_new_def RTCP_SDES_CHUNK_DEFAULT_SIZE_def sdes_chunk_bytes_def chunk_bytes_def Let_def)

lemma sdes_items_of_ok: "unat t + length cs \<le> 256 \<Longrightarrow> 0 < unat t \<Longrightarrow> list_all item_ok (sdes_items_of t cs)"
proof (induction cs arbitrary: t)
  case (Cons c cs)
  have "cs = [] \<or> unat (t + 1) = unat t + 1" using Cons.prems(1) by (cases cs) (auto simp: unat_word_ariths)
  then have "list_all item_ok (sdes_items_of (t + 1) cs)" using Cons.prems(1) Cons.IH [of "t + 1"] by auto
  then show ?case using Cons.prems(2) by (cases c) (auto simp: item_ok_def [of "(t, _)"])
qed simp

text \<open>Parsing a whole packet, wherever it stands in a compound message.\<close>

lemma rtcp_sdes_parse_chunks:
  assumes "cur m = rtcp_common_header_init RTCP_SDES (length cks) (4 + length (concat (map sdes_chunk_bytes cks)))
       @ concat (map sdes_chunk_bytes cks) @ r"
    and "\<forall>ck \<in> set cks. list_all item_ok (snd ck)" and "4 dvd rm_addr m + rm_pos m" and "cks \<noteq> []" and "length cks < 32"
    and "length (concat (map sdes_chunk_bytes cks)) \<le> 262140"
  shows "rtcp_sdes_parse m = Some (concat (map sdes_chunk_calls cks))"
proof -
  let ?b = "concat (map sdes_chunk_bytes cks)"
  have dv: "4 dvd 4 + length ?b"
    using sdes_chunk_bytes_align(1) by (induction cks) (auto simp: dvd_add_right_iff)
  have len: "unat (of_int (int ((4 + length ?b) div 4) - 1) :: u16) = (4 + length ?b) div 4 - 1"
    by (rule header_size_read(3) [OF assms(1,5) dv]) (use assms(6) in auto)
  have d4: "drop 4 (cur m) = ?b @ r" by (simp add: assms(1))
  have b4: "4 * (length ?b div 4) = length ?b" using dv by auto
  have "4 + length ?b \<le> min (4 + 4 * (unat (of_int (int ((4 + length ?b) div 4) - 1) :: u16) + 1)) (length (cur m))"
    unfolding len using b4 by (simp add: assms(1))
  from sdes_loop_chunks [OF assms(2) d4 this, of "rm_addr m + rm_pos m" 0 "length cks" 0]
  show ?thesis using assms(3,4)
    by (simp add: rtcp_sdes_parse_def header_init_read [OF assms(1,5)] dvd_add_right_iff Let_def del: of_int_diff)
qed

section \<open>Properties\<close>

text \<open>What a BYE packet looks like when it has a reason.\<close>

lemma bye_shape:
  assumes "r \<noteq> []" and "n = min (length r) 255"
  shows "rtcp_create_simple_bye_packet s (Some r) = rtcp_common_header_init RTCP_BYE 1 (12 + n div 4 * 4)
     @ be32_bytes s @ of_nat n # take n r @ replicate (3 - n mod 4) 0"
    and "length (rtcp_create_simple_bye_packet s (Some r)) = 12 + n div 4 * 4"
proof -
  have n: "0 < n" "n \<le> length r" using assms by auto
  have "9 + n + (3 - n mod 4) = 12 + n div 4 * 4"
    using div_mult_mod_eq [of n 4] mod_less_divisor [of 4 n] by linarith
  then show 1: "rtcp_create_simple_bye_packet s (Some r) = rtcp_common_header_init RTCP_BYE 1 (12 + n div 4 * 4)
     @ be32_bytes s @ of_nat n # take n r @ replicate (3 - n mod 4) 0"
    using n(1) by (simp add: rtcp_create_simple_bye_packet_def RTCP_BYE_REASON_MAX_STRING_SIZE_def Let_def assms(2))
  show "length (rtcp_create_simple_bye_packet s (Some r)) = 12 + n div 4 * 4"
    unfolding 1 using n(2) \<open>9 + n + (3 - n mod 4) = 12 + n div 4 * 4\<close> by simp
qed

lemma word_at_drop: "drop i bs = be32_bytes w @ r \<Longrightarrow> word_at bs i = Some w"
proof -
  assume d: "drop i bs = be32_bytes w @ r"
  have "4 \<le> length (drop i bs)" by (simp add: d)
  then show ?thesis using read32_drop [OF d] by (simp add: word_at_def)
qed

text \<open>A BYE packet with a reason is recognised, its length field is its size, and the reason comes back, cut to 255
  bytes. The accessor of the source, however, compares a count of words with bytes: it finds the source only when the
  reason has at least 8 bytes, and never when there is no reason.\<close>

theorem bye_roundtrip:
  assumes "r \<noteq> []"
  shows "let m = rtcp_msg_of (rtcp_create_simple_bye_packet s (Some r)); m0 = rtcp_msg_of (rtcp_create_simple_bye_packet s None)
    in rtcp_is_BYE m \<and> rtcp_get_size m = int (length (rm_data m)) \<and> rtcp_BYE_get_reason m = Some (Some (take 255 r))
     \<and> rtcp_BYE_get_ssrc m 0 = Some (if 8 \<le> length r then Some s else None)
     \<and> rtcp_is_BYE m0 \<and> rtcp_BYE_get_reason m0 = Some None \<and> rtcp_BYE_get_ssrc m0 0 = Some None"
proof -
  define n where "n = min (length r) 255"
  let ?N = "12 + n div 4 * 4"
  define m where "m = rtcp_msg_of (rtcp_create_simple_bye_packet s (Some r))"
  define m0 where "m0 = rtcp_msg_of (rtcp_create_simple_bye_packet s None)"
  have n: "n \<le> 255" "n \<le> length r" by (auto simp: n_def)
  have un: "unat (of_nat n :: u8) = n" using n(1) by (simp add: unat_of_nat)
  have un': "uint (of_nat n :: u8) = int n" using un by (simp only: uint_nat)
  have c: "cur m = rtcp_common_header_init RTCP_BYE 1 ?N @ be32_bytes s @ of_nat n # take n r @ replicate (3 - n mod 4) 0"
    by (simp add: cur_def m_def rtcp_msg_of_def bye_shape(1) [OF assms n_def])
  have c0: "cur m0 = rtcp_common_header_init RTCP_BYE 1 8 @ be32_bytes s"
    by (simp add: cur_def m0_def rtcp_msg_of_def rtcp_create_simple_bye_packet_def)
  have l: "length (cur m) = ?N" by (simp add: cur_def m_def rtcp_msg_of_def bye_shape(2) [OF assms n_def])
  have ld: "length (rm_data m) = ?N" by (simp add: m_def rtcp_msg_of_def bye_shape(2) [OF assms n_def])
  have N: "4 dvd ?N" "4 \<le> ?N" "?N \<le> 262144" using n(1) by auto
  obtain L where hd: "rtcp_get_common_header m = Some \<lparr>ch_version = 2, ch_padbit = False, ch_rc = 1, ch_packet_type = RTCP_BYE, ch_length = L\<rparr>"
    and L: "uint L = int (?N div 4) - 1" by (rule header_init_fields [OF c _ N]) simp_all
  have L': "uint L = 2 + int (n div 4)" unfolding L by simp
  have sz: "rtcp_get_size m = int ?N" by (simp add: rtcp_get_size_def hd L')
  have hd0: "rtcp_get_common_header m0 = Some \<lparr>ch_version = 2, ch_padbit = False, ch_rc = 1, ch_packet_type = RTCP_BYE, ch_length = 1\<rparr>"
    using header_init_read [of m0 RTCP_BYE 1 8 "be32_bytes s"] by (simp add: c0)
  have sz0: "rtcp_get_size m0 = 8" by (simp add: rtcp_get_size_def hd0)
  have bound: "9 + n \<le> ?N" using div_mult_mod_eq [of n 4] mod_less_divisor [of 4 n] by linarith
  have w: "word_at (cur m) 4 = Some s" by (rule word_at_drop) (simp add: c)
  have b: "byte_at (cur m) 8 = Some (of_nat n)" using l by (simp add: byte_at_def c nth_append)
  have t: "take n (drop 9 (cur m)) = take 255 r" using n(2) by (simp add: c n_def min_def)
  have e8: "4 \<le> 2 + n div 4 \<longleftrightarrow> 8 \<le> length r" by (auto simp: n_def)
  have "rtcp_BYE_get_ssrc m 0 = Some (if 8 \<le> length r then Some s else None)"
    using w e8 by (simp add: rtcp_BYE_get_ssrc_def hd L')
  moreover have "rtcp_BYE_get_reason m = Some (Some (take 255 r))"
    using b t bound un un' zle_int [of "n" "3 + n div 4 * 4"] by (simp add: rtcp_BYE_get_reason_def hd sz)
  moreover have "rtcp_is_BYE m" "rtcp_get_size m = int (length (rm_data m))"
    using l ld by (simp_all add: rtcp_is_BYE_def has_type_def hd sz)
  moreover have "rtcp_is_BYE m0" "rtcp_BYE_get_reason m0 = Some None" "rtcp_BYE_get_ssrc m0 0 = Some None"
    by (simp_all add: rtcp_is_BYE_def has_type_def hd0 sz0 rtcp_BYE_get_reason_def rtcp_BYE_get_ssrc_def c0)
  ultimately show ?thesis by (simp add: m_def [symmetric] m0_def [symmetric])
qed

theorem bye_roundtrip_witness:
  "rtcp_BYE_get_reason (rtcp_msg_of (rtcp_create_simple_bye_packet 7 (Some [98, 121, 101]))) = Some (Some [98, 121, 101])
   \<and> rtcp_BYE_get_ssrc (rtcp_msg_of (rtcp_create_simple_bye_packet 7 (Some [98, 121, 101]))) 0 = Some None"
  using bye_roundtrip [of "[98, 121, 101]" 7] by (simp add: Let_def)

end
