(* ===== verification/Rtcp_Session.thy ===== *)
theory Rtcp_Session
  imports Rtp_Parse Rtcp_Packet
begin

text \<open>
  RTCP in a session: the reports, source descriptions and goodbyes of \<open>ortp/src/rtcp.c\<close> and the reception of RTCP
  messages in \<open>ortp/src/rtpsession_inet.c\<close>. The time of day is the argument \<open>now\<close> (it does not advance during one
  call) and the transport is the function \<open>net\<close>, the number that \<open>sendto\<close> returns for a message; what was handed to it
  is recorded in \<open>rtcp_sent\<close>. A crash of the C code is \<open>None\<close>. C strings are the bytes before their terminator.
\<close>

unbundle bit_operations_syntax

section \<open>Source descriptions\<close>

definition rtp_session_set_source_description ::
    "RtpSession \<Rightarrow> bytes option \<Rightarrow> bytes option \<Rightarrow> bytes option \<Rightarrow> bytes option \<Rightarrow> bytes option \<Rightarrow> bytes option \<Rightarrow> bytes option
     \<Rightarrow> RtpSession option" where
  "rtp_session_set_source_description session cname name email phone loc tool note = do {
     let cname' = (case cname of None \<Rightarrow> Some (map (of_nat \<circ> of_char) ''Unknown'') | Some c \<Rightarrow> Some c);
     chunk \<leftarrow> sdes_chunk_items (sdes_chunk_new (dir_ssrc (snd_dir session))) 1 [cname', name, email, phone, loc, tool, note];
     Some (session\<lparr>sd := Some (chunk_bytes chunk)\<rparr>) }"

text \<open>The default name is computed and then not used.\<close>

definition rtp_session_add_contributing_source ::
    "RtpSession \<Rightarrow> u32 \<Rightarrow> bytes option \<Rightarrow> bytes option \<Rightarrow> bytes option \<Rightarrow> bytes option \<Rightarrow> bytes option \<Rightarrow> bytes option \<Rightarrow> bytes option
     \<Rightarrow> RtpSession option" where
  "rtp_session_add_contributing_source session cs cname name email phone loc tool note = do {
     chunk \<leftarrow> sdes_chunk_items (sdes_chunk_new cs) 1 [cname, name, email, phone, loc, tool, note];
     Some (session\<lparr>contributing_sources := contributing_sources session @ [chunk_bytes chunk]\<rparr>) }"

text \<open>
  The loop over the contributing sources steps with \<open>qnext(q, mp)\<close>, where \<open>mp\<close> is the new header block and not the
  current chunk: its \<open>b_next\<close> is NULL, and the next turn dereferences it. So the packet can be made only without
  contributing sources.
\<close>

definition rtp_session_create_rtcp_sdes_packet :: "RtpSession \<Rightarrow> (bytes \<times> RtpSession) option" where
  "rtp_session_create_rtcp_sdes_packet session = do {
     d \<leftarrow> sd session;
     let d' = sdes_chunk_set_ssrc d (dir_ssrc (snd_dir session));
     if contributing_sources session = []
     then Some (rtcp_common_header_init RTCP_SDES 1 (4 + length d') @ d', session\<lparr>sd := Some d'\<rparr>)
     else None }"

section \<open>Reports\<close>

definition ortp_timeval_to_ntp :: "timeval \<Rightarrow> u64" where
  "ortp_timeval_to_ntp tv =
    (let msw = word_of_int (fst tv + 0x83AA7E80) :: u64;
         lsw = word_of_int (trunc (f64 (f64 (of_int (snd tv) * 2 ^ 32) * f64 (1 / 1000000)))) :: u32
     in push_bit 32 msw OR ucast lsw)"

definition sender_info_init :: "timeval \<Rightarrow> RtpSession \<Rightarrow> bytes \<times> RtpSession" where
  "sender_info_init now session =
    (let ntp = ortp_timeval_to_ntp now; st = rstream session; ss = sstate st
     in (be32_bytes (ucast (drop_bit 32 ntp)) @ be32_bytes (ucast ntp) @ be32_bytes (snd_last_ts ss)
           @ be32_bytes (ucast (st_packet_sent (stats st))) @ be32_bytes (sent_payload_bytes ss),
         session\<lparr>rstream := st\<lparr>sstate := ss\<lparr>last_rtcp_packet_count := ucast (st_packet_sent (stats st))\<rparr>\<rparr>\<rparr>))"

text \<open>The losses since the last report: \<open>packet_loss\<close>, the new cumulative count and \<open>loss_fraction\<close>.\<close>

definition report_losses :: "RtpSession \<Rightarrow> u64 \<times> u32" where
  "report_losses session =
    (let st = rstream session; rs = rstate st; cum = st_cum_packet_loss (stats st); since = hwrcv_since_last_SR rs
     in if since = 0 then (cum, 0)
        else let over = has_flag session RTCP_OVERRIDE_LOST_PACKETS;
                 pl = (if over then sint (lost_packets_test_vector session)
                       else sint ((hwrcv_extseq rs - hwrcv_seq_at_last_SR rs) - since));
                 packet_loss = (if pl < 0 then 0 else pl)
             in (if over then word_of_int packet_loss else cum + word_of_int packet_loss,
                 word_of_int (s32 (256 * packet_loss)) div since))"

definition delay_since_last_sr :: "timeval \<Rightarrow> timeval \<Rightarrow> u32" where
  "delay_since_last_sr now lst = (if fst lst = 0 then 0
     else word_of_int (trunc (f64 (f64 (of_int (fst now - fst lst) + f64 (of_int (snd now - snd lst) * f64 (1 / 1000000))) * 65536))))"

definition overridden_lsr :: "timeval \<Rightarrow> u32 \<Rightarrow> u32" where
  "overridden_lsr lst delay =
    (let t = f64 (f64 (of_int (fst lst) + f64 (of_int (snd lst) * f64 (1 / 1000000))) - f64 (of_int (uint delay) / 1000));
         t' = f64 (65536 * f64 (t + 2208988800))
     in word_of_int (trunc t'))"

definition report_block_init :: "timeval \<Rightarrow> RtpSession \<Rightarrow> bytes \<times> RtpSession" where
  "report_block_init now session =
    (let st = rstream session; rs = rstate st; (cum, frac) = report_losses session;
         dlsr = delay_since_last_sr now (last_rcv_SR_time rs);
         fl_cnpl = push_bit 24 (frac AND 0xFF) OR (ucast cum AND 0xFFFFFF);
         jit = (if has_flag session RTCP_OVERRIDE_JITTER then interarrival_jitter_test_vector session
                else word_of_int (trunc (inter_jitter (jittctl st))));
         lsr = (if has_flag session RTCP_OVERRIDE_DELAY then overridden_lsr (last_rcv_SR_time rs) (delay_test_vector session)
                else last_rcv_SR_ts rs)
     in (be32_bytes (dir_ssrc (rcv_dir session)) @ be32_bytes fl_cnpl @ be32_bytes (hwrcv_extseq rs) @ be32_bytes jit
           @ be32_bytes lsr @ be32_bytes dlsr,
         session\<lparr>rstream := st\<lparr>stats := (stats st)\<lparr>st_cum_packet_loss := cum\<rparr>,
           rstate := rs\<lparr>hwrcv_since_last_SR := 0, hwrcv_seq_at_last_SR := hwrcv_extseq rs\<rparr>\<rparr>\<rparr>))"

definition extended_statistics :: "timeval \<Rightarrow> RtpSession \<Rightarrow> RtpSession" where
  "extended_statistics now session =
    (let st = rstream session; js = jstats st; jit = word_of_int (trunc (inter_jitter (jittctl st))) :: u32;
         js1 = js\<lparr>js_sum_jitter := js_sum_jitter js + ucast jit, js_jitter := jit\<rparr>;
         js2 = (if js_max_jitter js1 < jit
                then js1\<lparr>js_max_jitter := jit, js_max_jitter_ts := word_of_int (fst now * 1000 + c_div (snd now) 1000)\<rparr> else js1);
         (mean, ctl) = jitter_control_compute_mean_size (jittctl st)
     in session\<lparr>rstream := st\<lparr>stats := (stats st)\<lparr>st_sent_rtcp_packets := st_sent_rtcp_packets (stats st) + 1\<rparr>,
          jittctl := ctl, jstats := js2\<lparr>js_jitter_buffer_size_ms := mean\<rparr>\<rparr>\<rparr>)"

definition rtcp_sr_init :: "timeval \<Rightarrow> RtpSession \<Rightarrow> nat \<Rightarrow> bytes \<times> RtpSession" where
  "rtcp_sr_init now session sz =
    (let rr = 0 < st_packet_recv (stats (rstream session)); sr_size = (if rr then 52 else 28)
     in if sz < sr_size then ([], session)
        else let (si, s1) = sender_info_init now session;
                 (rb, s2) = (if rr then let (b, s') = report_block_init now s1 in (b, extended_statistics now s') else ([], s1))
             in (rtcp_common_header_init RTCP_SR (of_bool rr) sr_size @ be32_bytes (dir_ssrc (snd_dir session)) @ si @ rb, s2))"

definition rtcp_rr_init :: "timeval \<Rightarrow> RtpSession \<Rightarrow> nat \<Rightarrow> bytes \<times> RtpSession" where
  "rtcp_rr_init now session sz =
    (if sz < 32 then ([], session)
     else let (rb, s1) = report_block_init now session
          in (rtcp_common_header_init RTCP_RR 1 32 @ be32_bytes (dir_ssrc (snd_dir session)) @ rb, extended_statistics now s1))"

definition rtcp_app_init :: "RtpSession \<Rightarrow> u8 \<Rightarrow> bytes \<Rightarrow> nat \<Rightarrow> bytes" where
  "rtcp_app_init session subtype name sz =
    (if sz < 12 then []
     else rtcp_common_header_init RTCP_APP (unat subtype) sz @ be32_bytes (dir_ssrc (snd_dir session))
          @ take 4 name @ replicate (4 - length name) 0)"

text \<open>A report and, when there is a source description, an SDES packet behind it.\<close>

definition with_sdes :: "bytes \<times> RtpSession \<Rightarrow> (bytes \<times> RtpSession) option" where
  "with_sdes ms = (let (m, s) = ms in
     if sd s = None then Some (m, s) else map_option (\<lambda>(d, s'). (m @ d, s')) (rtp_session_create_rtcp_sdes_packet s))"

definition make_rr :: "timeval \<Rightarrow> RtpSession \<Rightarrow> (bytes \<times> RtpSession) option" where
  "make_rr now session = with_sdes (rtcp_rr_init now session 32)"

definition make_sr :: "timeval \<Rightarrow> RtpSession \<Rightarrow> (bytes \<times> RtpSession) option" where
  "make_sr now session = with_sdes (rtcp_sr_init now session 52)"

section \<open>Sending\<close>

definition using_rtcp_transport :: "RtpSession \<Rightarrow> bool" where
  "using_rtcp_transport session \<longleftrightarrow> has_flag session RTP_SESSION_USING_TRANSPORT \<and> rtcp_tr (rtcp session)"

definition rtp_session_rtcp_send :: "(bytes \<Rightarrow> int) \<Rightarrow> RtpSession \<Rightarrow> bytes \<Rightarrow> int \<times> RtpSession" where
  "rtp_session_rtcp_send net session m =
    (let r = rtcp session; connected = has_flag session RTCP_SOCKET_CONNECTED
     in if rtcp_enabled r \<and> ((rtcp_socket r \<noteq> -1 \<and> (rtcp_rem_addr r \<noteq> [] \<or> connected)) \<or> using_rtcp_transport session)
        then let s1 = session\<lparr>rtcp_sent := rtcp_sent session @ [m]\<rparr>
             in (net m, if net m < 0 then emit s1 (Network_error ''Error sending RTCP packet'') else s1)
        else (0, session))"

definition notify_sent_rtcp :: "RtpSession \<Rightarrow> bytes \<Rightarrow> RtpSession" where
  "notify_sent_rtcp session m = (if eventqs session \<noteq> 0 then emit session (Rtcp_packet_emitted m) else session)"

definition rtcp_report_due :: "RtpSession \<Rightarrow> bool" where
  "rtcp_report_due session \<longleftrightarrow>
     rtcp_report_snt_interval_r (rtcp session) < rcv_last_app_ts (rstate (rstream session)) - last_rtcp_report_snt_r (rtcp session)
   \<or> rtcp_report_snt_interval_s (rtcp session) < snd_last_ts (sstate (rstream session)) - last_rtcp_report_snt_s (rtcp session)"

definition rtcp_report_sent :: "RtpSession \<Rightarrow> RtpSession" where
  "rtcp_report_sent session = session\<lparr>rtcp := (rtcp session)\<lparr>last_rtcp_report_snt_r := rcv_last_app_ts (rstate (rstream session)),
     last_rtcp_report_snt_s := snd_last_ts (sstate (rstream session))\<rparr>\<rparr>"

definition rtp_session_rtcp_process_send :: "(bytes \<Rightarrow> int) \<Rightarrow> timeval \<Rightarrow> RtpSession \<Rightarrow> RtpSession option" where
  "rtp_session_rtcp_process_send net now session =
    (if rtcp_report_due session
     then do { (m, s1) \<leftarrow> make_sr now (rtcp_report_sent session);
               Some (snd (rtp_session_rtcp_send net (notify_sent_rtcp s1 m) m)) }
     else Some session)"

definition rtp_session_rtcp_process_recv :: "(bytes \<Rightarrow> int) \<Rightarrow> timeval \<Rightarrow> RtpSession \<Rightarrow> RtpSession option" where
  "rtp_session_rtcp_process_recv net now session =
    (if rtcp_report_due session
     then do {
       let s0 = rtcp_report_sent session;
       let st = rstream s0;
       (om, s1) \<leftarrow>
         (if ucast (last_rtcp_packet_count (sstate st)) < st_packet_sent (stats st)
          then map_option (\<lambda>(m, s'). (Some m, s'\<lparr>rstream := (rstream s')\<lparr>sstate := (sstate (rstream s'))\<lparr>last_rtcp_packet_count :=
                 ucast (st_packet_sent (stats (rstream s')))\<rparr>\<rparr>\<rparr>)) (make_sr now s0)
          else if 0 < st_packet_recv (stats st) then map_option (\<lambda>(m, s'). (Some m, s')) (make_rr now s0)
          else Some (None, s0));
       Some (case om of None \<Rightarrow> s1 | Some m \<Rightarrow> snd (rtp_session_rtcp_send net (notify_sent_rtcp s1 m) m)) }
     else Some session)"

definition rtp_session_send_rtcp_APP :: "(bytes \<Rightarrow> int) \<Rightarrow> RtpSession \<Rightarrow> u8 \<Rightarrow> bytes \<Rightarrow> bytes \<Rightarrow> RtpSession" where
  "rtp_session_send_rtcp_APP net session subtype name data =
     snd (rtp_session_rtcp_send net session (rtcp_app_init session subtype name (length data + 12) @ data))"

definition rtp_session_bye :: "(bytes \<Rightarrow> int) \<Rightarrow> timeval \<Rightarrow> RtpSession \<Rightarrow> bytes option \<Rightarrow> (int \<times> RtpSession) option" where
  "rtp_session_bye net now session reason = do {
     let bye = rtcp_create_simple_bye_packet (dir_ssrc (snd_dir session)) reason;
     let st = stats (rstream session);
     (cm, s1) \<leftarrow>
       (if 0 < st_packet_sent st
        then (let (sr, s') = rtcp_sr_init now session 52
              in map_option (\<lambda>(d, s''). (sr @ d @ bye, s'')) (rtp_session_create_rtcp_sdes_packet s'))
        else if 0 < st_packet_recv st then (let (rr, s') = rtcp_rr_init now session 32 in Some (rr @ bye, s'))
        else Some (bye, session));
     Some (rtp_session_rtcp_send net s1 cm) }"

fun remove_chunk :: "u32 \<Rightarrow> bytes list \<Rightarrow> bytes list" where
  "remove_chunk s [] = []"
| "remove_chunk s (c # cs) = (if sdes_chunk_get_ssrc c = s then cs else c # remove_chunk s cs)"

definition rtp_session_remove_contributing_sources :: "(bytes \<Rightarrow> int) \<Rightarrow> RtpSession \<Rightarrow> u32 \<Rightarrow> RtpSession" where
  "rtp_session_remove_contributing_sources net session s =
     snd (rtp_session_rtcp_send net (session\<lparr>contributing_sources := remove_chunk s (contributing_sources session)\<rparr>)
       (rtcp_create_simple_bye_packet s None))"

section \<open>Test vectors\<close>

definition rtp_session_rtcp_set_lost_packet_value :: "RtpSession \<Rightarrow> u32 \<Rightarrow> RtpSession" where
  "rtp_session_rtcp_set_lost_packet_value s v = s\<lparr>lost_packets_test_vector := v, flags := flags s OR RTCP_OVERRIDE_LOST_PACKETS\<rparr>"

definition rtp_session_rtcp_set_jitter_value :: "RtpSession \<Rightarrow> u32 \<Rightarrow> RtpSession" where
  "rtp_session_rtcp_set_jitter_value s v = s\<lparr>interarrival_jitter_test_vector := v, flags := flags s OR RTCP_OVERRIDE_JITTER\<rparr>"

definition rtp_session_rtcp_set_delay_value :: "RtpSession \<Rightarrow> u32 \<Rightarrow> RtpSession" where
  "rtp_session_rtcp_set_delay_value s v = s\<lparr>delay_test_vector := v, flags := flags s OR RTCP_OVERRIDE_DELAY\<rparr>"

section \<open>Receiving\<close>

definition rtp_session_notify_inc_rtcp :: "RtpSession \<Rightarrow> rtcp_msg \<Rightarrow> RtpSession" where
  "rtp_session_notify_inc_rtcp session m = (if eventqs session \<noteq> 0 then emit session (Rtcp_packet_received (cur m)) else session)"

definition compute_rtt :: "RtpSession \<Rightarrow> timeval \<Rightarrow> rtcp_msg \<Rightarrow> nat \<Rightarrow> RtpSession option" where
  "compute_rtt session now m rb = do {
     let approx_ntp = (ucast (drop_bit 16 (ortp_timeval_to_ntp now)) :: u32);
     last_sr_time \<leftarrow> report_block_get_last_SR_time m rb;
     sr_delay \<leftarrow> report_block_get_last_SR_delay m rb;
     Some (if last_sr_time \<noteq> 0 \<and> sr_delay \<noteq> 0
       then let frac = f64 (f64 (of_int (uint (approx_ntp - last_sr_time - sr_delay))) / 65536);
                frac' = (case net_sim_ctx session of None \<Rightarrow> frac
                   | Some sim \<Rightarrow> if 0 < sim_max_bandwidth sim
                        then f64 (frac + f64 (of_int (sim_qsize sim) / sim_max_bandwidth sim)) else frac)
            in session\<lparr>rtt := f32 frac'\<rparr>
       else session) }"

definition set_last_SR :: "RtpSession \<Rightarrow> u32 \<Rightarrow> timeval \<Rightarrow> RtpSession" where
  "set_last_SR s ts t = s\<lparr>rstream := (rstream s)\<lparr>rstate := (rstate (rstream s))\<lparr>last_rcv_SR_ts := ts, last_rcv_SR_time := t\<rparr>\<rparr>\<rparr>"

definition rtt_from_block :: "RtpSession \<Rightarrow> timeval \<Rightarrow> rtcp_msg \<Rightarrow> nat option \<Rightarrow> (bool \<times> RtpSession) option" where
  "rtt_from_block s now m orb = (case orb of None \<Rightarrow> Some (False, s) | Some rb \<Rightarrow> map_option (Pair False) (compute_rtt s now m rb))"

text \<open>
  One packet of a compound message. \<open>first\<close> is the message at its first packet: the pointer \<open>rtcp\<close>, from which the sender
  report is read, is never advanced. The flag of the result says that the function returns at once.
\<close>

definition process_one_rtcp :: "rtcp_msg \<Rightarrow> timeval \<Rightarrow> RtpSession \<Rightarrow> rtcp_msg \<Rightarrow> (bool \<times> RtpSession) option" where
  "process_one_rtcp first now session block =
    (if rtcp_is_SR block then do {
       let s1 = set_last_SR session 0 (0, 0);
       src \<leftarrow> word_at (cur first) 4;
       ch \<leftarrow> rtcp_get_common_header first;
       if src \<noteq> dir_ssrc (rcv_dir session) then Some (True, s1)
       else if length (cur first) < 4 + 4 + 20 + 24 * ch_rc ch then Some (True, s1)
       else do {
         msw \<leftarrow> word_at (cur first) 8;
         lsw \<leftarrow> word_at (cur first) 12;
         rtt_from_block (set_last_SR s1 (push_bit 16 msw OR drop_bit 16 lsw) now) now block (rtcp_SR_get_report_block block 0) } }
     else if rtcp_is_RR block then rtt_from_block session now block (rtcp_RR_get_report_block block 0)
     else Some (False, session))"

lemma next_packet_progress: "rtcp_next_packet b = (True, b1) \<Longrightarrow> length (rm_data b1) - rm_pos b1 < length (rm_data b) - rm_pos b"
proof -
  assume a: "rtcp_next_packet b = (True, b1)"
  obtain k where k: "rtcp_get_size b = -1 \<or> rtcp_get_size b = 4 + int k"
    by (cases "rtcp_get_common_header b") (auto simp: rtcp_get_size_def intro: that [of "nat (uint _ * 4)"])
  with a show ?thesis by (auto simp: rtcp_next_packet_def Let_def nat_add_distrib split: if_splits)
qed

function process_rtcp_loop :: "rtcp_msg \<Rightarrow> timeval \<Rightarrow> RtpSession \<Rightarrow> rtcp_msg \<Rightarrow> (RtpSession \<times> rtcp_msg) option" where
  "process_rtcp_loop first now session block = (case process_one_rtcp first now session block of
      None \<Rightarrow> None
    | Some (stop, s1) \<Rightarrow>
        if stop then Some (s1, block)
        else (case rtcp_next_packet block of (found, b1) \<Rightarrow>
           if found then process_rtcp_loop first now s1 b1 else Some (s1, rtcp_rewind b1)))"
  by pat_completeness auto

termination
  by (relation "measure (\<lambda>(f, n, s, b). length (rm_data b) - rm_pos b)") (auto dest: next_packet_progress [OF sym])

declare process_rtcp_loop.simps [simp del]

text \<open>The number returned, the session, and the message with its read pointer.\<close>

definition process_rtcp_packet :: "RtpSession \<Rightarrow> timeval \<Rightarrow> rtcp_msg \<Rightarrow> bytes \<Rightarrow> (int \<times> RtpSession \<times> rtcp_msg) option" where
  "process_rtcp_packet session now block addr =
    (case rtcp_get_common_header block of None \<Rightarrow> Some (0, session, block)
     | Some ch \<Rightarrow>
        if ch_version ch \<noteq> 2
        then if uint (read16 (cur block) 2) + 20 = int (length (cur block)) \<and> eventqs session \<noteq> 0
             then Some (-1, emit session (Rtcp_stun_packet (cur block) addr), block)
             else Some (0, session, block)
        else map_option (Pair 0) (process_rtcp_loop block now session block))"

text \<open>
  One turn of the loop of \<open>rtp_session_rtcp_recv\<close>, for a message of positive size that came from \<open>addr\<close>; \<open>conn\<close> is what
  \<open>try_connect\<close> returns.
\<close>

definition rtcp_recv_one :: "bool \<Rightarrow> timeval \<Rightarrow> RtpSession \<Rightarrow> bytes \<Rightarrow> bytes \<Rightarrow> RtpSession option" where
  "rtcp_recv_one conn now session msg addr = do {
     let sock_connected = has_flag session RTCP_SOCKET_CONNECTED;
     (r, s1, m) \<leftarrow> process_rtcp_packet session now (rtcp_msg_of msg) addr;
     let s2 = (if 0 \<le> r then rtp_session_notify_inc_rtcp s1 m else s1);
     Some (if symmetric_rtp s2 \<and> \<not> sock_connected
       then let s3 = s2\<lparr>rtcp := (rtcp s2)\<lparr>rtcp_rem_addr := addr\<rparr>\<rparr>
            in if use_connect s3 \<and> conn then s3\<lparr>flags := flags s3 OR RTCP_SOCKET_CONNECTED\<rparr> else s3
       else s2) }"

text \<open>
  The messages that wait at the socket are read until it would block or returns 0 bytes, where \<open>err\<close> is \<open>None\<close>, or fails with
  an error number.
\<close>

fun rtcp_recv_loop :: "bool \<Rightarrow> int option \<Rightarrow> timeval \<Rightarrow> RtpSession \<Rightarrow> (bytes \<times> bytes) list \<Rightarrow> RtpSession option" where
  "rtcp_recv_loop conn err now session [] = Some (case err of None \<Rightarrow> session
     | Some errnum \<Rightarrow> let s1 = emit session (Network_error ''Error receiving RTCP packet'')
         in s1\<lparr>rstream := (rstream s1)\<lparr>rstate := (rstate (rstream s1))\<lparr>recv_errno := errnum\<rparr>\<rparr>\<rparr>)"
| "rtcp_recv_loop conn err now session ((msg, addr) # rest) =
     (if msg = [] then Some session
      else Option.bind (rtcp_recv_one conn now session msg addr) (\<lambda>s1. rtcp_recv_loop conn err now s1 rest))"

definition rtp_session_rtcp_recv :: "bool \<Rightarrow> int option \<Rightarrow> timeval \<Rightarrow> RtpSession \<Rightarrow> (bytes \<times> bytes) list \<Rightarrow> RtpSession option" where
  "rtp_session_rtcp_recv conn err now session waiting =
    (if rtcp_socket (rtcp session) = -1 \<and> \<not> using_rtcp_transport session then Some session
     else rtcp_recv_loop conn err now session waiting)"

section \<open>What a report says\<close>

definition ntp_mid :: "timeval \<Rightarrow> u32" where
  "ntp_mid t = ucast (drop_bit 16 (ortp_timeval_to_ntp t))"

lemma ntp_mid_halves: "push_bit 16 (ucast (drop_bit 32 w) :: u32) OR drop_bit 16 (ucast (w :: u64)) = ucast (drop_bit 16 w)"
  by (rule bit_word_eqI) (auto simp: bit_simps)

text \<open>The words of a report block.\<close>

definition block_words :: "timeval \<Rightarrow> RtpSession \<Rightarrow> u32 list" where
  "block_words now s = (let st = rstream s; rs = rstate st in
     [dir_ssrc (rcv_dir s), push_bit 24 (snd (report_losses s) AND 0xFF) OR (ucast (fst (report_losses s)) AND 0xFFFFFF),
      hwrcv_extseq rs,
      if has_flag s RTCP_OVERRIDE_JITTER then interarrival_jitter_test_vector s else word_of_int (trunc (inter_jitter (jittctl st))),
      if has_flag s RTCP_OVERRIDE_DELAY then overridden_lsr (last_rcv_SR_time rs) (delay_test_vector s) else last_rcv_SR_ts rs,
      delay_since_last_sr now (last_rcv_SR_time rs)])"

definition words_bytes :: "u32 list \<Rightarrow> bytes" where
  "words_bytes ws = concat (map be32_bytes ws)"

lemma words_bytes_length [simp]: "length (words_bytes ws) = 4 * length ws"
  by (induction ws) (auto simp: words_bytes_def)

lemma words_bytes_drop: "k \<le> length ws \<Longrightarrow> drop (4 * k) (words_bytes ws) = words_bytes (drop k ws)"
proof (induction ws arbitrary: k)
  case (Cons w ws)
  then show ?case by (cases k) (auto simp: words_bytes_def)
qed (simp add: words_bytes_def)

lemma word_at_words: "drop i bs = words_bytes ws @ r \<Longrightarrow> k < length ws \<Longrightarrow> word_at bs (i + 4 * k) = Some (ws ! k)"
proof -
  assume d: "drop i bs = words_bytes ws @ r" and k: "k < length ws"
  have "drop (i + 4 * k) bs = drop (4 * k) (drop i bs)" by (simp add: add.commute)
  also have "\<dots> = be32_bytes (ws ! k) @ words_bytes (drop (Suc k) ws) @ r"
    using k words_bytes_drop [of k ws] by (simp add: d) (simp add: words_bytes_def flip: Cons_nth_drop_Suc)
  finally show ?thesis by (rule word_at_drop)
qed

lemma report_block_words: "fst (report_block_init now s) = words_bytes (block_words now s)"
  by (simp add: report_block_init_def block_words_def words_bytes_def Let_def split_beta)

definition sender_words :: "timeval \<Rightarrow> RtpSession \<Rightarrow> u32 list" where
  "sender_words now s = [ucast (drop_bit 32 (ortp_timeval_to_ntp now)), ucast (ortp_timeval_to_ntp now),
     snd_last_ts (sstate (rstream s)), ucast (st_packet_sent (stats (rstream s))), sent_payload_bytes (sstate (rstream s))]"

lemma sender_info_words: "fst (sender_info_init now s) = words_bytes (sender_words now s)"
  by (simp add: sender_info_init_def sender_words_def words_bytes_def Let_def)

text \<open>Making a sender info block does not change what the report block says.\<close>

lemma block_words_after_sender_info: "block_words now (snd (sender_info_init now s)) = block_words now s"
  by (simp add: sender_info_init_def block_words_def report_losses_def has_flag_def Let_def)

definition received_any :: "RtpSession \<Rightarrow> bool" where
  "received_any s \<longleftrightarrow> 0 < st_packet_recv (stats (rstream s))"

lemma sr_bytes:
  "fst (rtcp_sr_init now s 52) = rtcp_common_header_init RTCP_SR (of_bool (received_any s)) (if received_any s then 52 else 28)
     @ words_bytes (dir_ssrc (snd_dir s) # sender_words now s @ (if received_any s then block_words now s else []))"
proof -
  have w: "words_bytes (a # xs) = be32_bytes a @ words_bytes xs" "words_bytes (xs @ ys) = words_bytes xs @ words_bytes ys" for a xs ys
    by (simp_all add: words_bytes_def)
  show ?thesis using block_words_after_sender_info [of now s]
    by (simp add: rtcp_sr_init_def received_any_def Let_def split_beta sender_info_words report_block_words w) (simp add: words_bytes_def)
qed

lemma rr_bytes:
  "fst (rtcp_rr_init now s 32) = rtcp_common_header_init RTCP_RR 1 32 @ words_bytes (dir_ssrc (snd_dir s) # block_words now s)"
  by (simp add: rtcp_rr_init_def split_beta report_block_words words_bytes_def Let_def)

section \<open>Compound messages\<close>

text \<open>What can stand behind a report: nothing, or one SDES packet.\<close>

definition tail_ok :: "bytes \<Rightarrow> bool" where
  "tail_ok t \<longleftrightarrow> t = [] \<or> (\<exists>d. t = rtcp_common_header_init RTCP_SDES 1 (4 + length d) @ d \<and> 4 dvd length d \<and> length d \<le> 262140)"

definition sd_ok :: "RtpSession \<Rightarrow> bool" where
  "sd_ok s \<longleftrightarrow> contributing_sources s = [] \<and> (\<forall>d. sd s = Some d \<longrightarrow> 4 dvd length d \<and> 4 \<le> length d \<and> length d \<le> 262140)"

lemma with_sdes_ok:
  assumes "sd_ok s"
  obtains t s' where "with_sdes (m, s) = Some (m @ t, s')" and "tail_ok t"
    and "s' = s \<or> (\<exists>d. s' = s\<lparr>sd := Some d\<rparr>)"
proof (cases "sd s")
  case None
  then have "with_sdes (m, s) = Some (m @ [], s)" by (simp add: with_sdes_def)
  moreover have "tail_ok []" by (simp add: tail_ok_def)
  ultimately show ?thesis by (rule that) (rule disjI1, rule refl)
next
  case (Some d)
  let ?d = "sdes_chunk_set_ssrc d (dir_ssrc (snd_dir s))"
  let ?t = "rtcp_common_header_init RTCP_SDES 1 (4 + length ?d) @ ?d"
  have l: "length ?d = length d" using assms Some by (auto simp: sd_ok_def sdes_chunk_set_ssrc_def)
  have "with_sdes (m, s) = Some (m @ ?t, s\<lparr>sd := Some ?d\<rparr>)"
    using assms Some by (simp add: with_sdes_def rtp_session_create_rtcp_sdes_packet_def sd_ok_def Let_def)
  moreover have "tail_ok ?t" unfolding tail_ok_def by (rule disjI2, rule exI [of _ ?d]) (use assms Some l in \<open>simp add: sd_ok_def\<close>)
  ultimately show ?thesis by (rule that) (rule disjI2, rule exI, rule refl)
qed

text \<open>A report changes counters only.\<close>

definition outside_stream :: "RtpSession \<Rightarrow> RtpSession \<Rightarrow> bool" where
  "outside_stream s s' \<longleftrightarrow> (\<exists>st. s' = s\<lparr>rstream := st\<rparr>)"

lemma outside_stream_trans: "outside_stream a b \<Longrightarrow> outside_stream b c \<Longrightarrow> outside_stream a c"
  by (auto simp: outside_stream_def)

lemma outside_stream_steps:
  "outside_stream s (snd (sender_info_init now s))" "outside_stream s (snd (report_block_init now s))"
  "outside_stream s (extended_statistics now s)"
  unfolding outside_stream_def sender_info_init_def report_block_init_def extended_statistics_def Let_def split_beta snd_conv
  by (rule exI, rule refl)+

lemma outside_stream_sr: "outside_stream s (snd (rtcp_sr_init now s 52))"
proof -
  have "outside_stream s (extended_statistics now (snd (report_block_init now (snd (sender_info_init now s)))))"
    by (rule outside_stream_trans [OF outside_stream_trans]) (rule outside_stream_steps)+
  then show ?thesis using outside_stream_steps(1) by (simp add: rtcp_sr_init_def Let_def split_beta)
qed

lemma outside_stream_rr: "outside_stream s (snd (rtcp_rr_init now s 32))"
proof -
  have "outside_stream s (extended_statistics now (snd (report_block_init now s)))"
    by (rule outside_stream_trans) (rule outside_stream_steps)+
  then show ?thesis by (simp add: rtcp_rr_init_def split_beta)
qed

lemma sd_ok_outside: "outside_stream s s' \<Longrightarrow> sd_ok s' = sd_ok s"
  by (auto simp: outside_stream_def sd_ok_def)

lemma loop_tail:
  assumes "cur b = rtcp_common_header_init RTCP_SDES 1 (4 + length d) @ d" and "4 dvd length d" and "length d \<le> 262140"
    and "rm_pos b \<le> length (rm_data b)"
  shows "process_rtcp_loop f now s b = Some (s, rtcp_rewind b)"
proof -
  have sz: "rtcp_get_size b = int (4 + length d)"
    and ty: "has_type b t \<longleftrightarrow> t = RTCP_SDES" for t
    using header_size_read(1,2) [of b RTCP_SDES 1 "4 + length d" d] assms by (simp_all add: dvd_add_right_iff)
  have "rm_pos b + (4 + length d) = length (rm_data b)"
    using arg_cong [OF assms(1), of length] assms(4) by (simp add: cur_def)
  then have "rtcp_next_packet b = (False, b)" by (auto simp: rtcp_next_packet_def sz)
  moreover have "process_one_rtcp f now s b = Some (False, s)"
    by (simp add: process_one_rtcp_def rtcp_is_SR_def rtcp_is_RR_def ty RTCP_SDES_def RTCP_SR_def RTCP_RR_def)
  ultimately show ?thesis by (subst process_rtcp_loop.simps) simp
qed

text \<open>A report that is followed by such a tail: what the first packet does is what the message does.\<close>

lemma loop_report:
  assumes "n = length rep" and "rep = rtcp_common_header_init t rc n @ bd" and "rc < 32" and "4 dvd n" and "4 \<le> n" and "n \<le> 262144"
    and "tail_ok tail" and "process_one_rtcp (rtcp_msg_of (rep @ tail)) now s (rtcp_msg_of (rep @ tail)) = Some (False, s')"
  shows "process_rtcp_packet s now (rtcp_msg_of (rep @ tail)) addr = Some (0, s', rtcp_msg_of (rep @ tail))"
proof -
  let ?m = "rtcp_msg_of (rep @ tail)"
  have c: "cur ?m = rtcp_common_header_init t rc n @ bd @ tail" by (simp add: cur_def rtcp_msg_of_def assms(2))
  have sz: "rtcp_get_size ?m = int n" by (rule header_size_read(1) [OF c assms(3-6)])
  have v: "rtcp_get_common_header ?m = Some ch \<Longrightarrow> ch_version ch = 2" for ch by (auto simp: header_init_read [OF c assms(3)])
  have np: "rtcp_next_packet ?m = (tail \<noteq> [], if tail \<noteq> [] then ?m\<lparr>rm_pos := n\<rparr> else ?m)"
    unfolding rtcp_next_packet_def sz Let_def by (auto simp: rtcp_msg_of_def assms(1))
  have "process_rtcp_loop ?m now s ?m = Some (s', ?m)"
  proof (cases "tail = []")
    case True
    then show ?thesis using assms(8) np by (subst process_rtcp_loop.simps) (simp add: rtcp_rewind_def rtcp_msg_of_def)
  next
    case False
    then obtain d where d: "tail = rtcp_common_header_init RTCP_SDES 1 (4 + length d) @ d" "4 dvd length d" "length d \<le> 262140"
      using assms(7) by (auto simp: tail_ok_def)
    have "process_rtcp_loop ?m now s' (?m\<lparr>rm_pos := n\<rparr>) = Some (s', rtcp_rewind (?m\<lparr>rm_pos := n\<rparr>))"
      by (rule loop_tail [OF _ d(2,3)]) (simp_all add: cur_def rtcp_msg_of_def assms(1) d(1))
    then show ?thesis using assms(8) np False by (subst process_rtcp_loop.simps) (simp add: rtcp_rewind_def rtcp_msg_of_def)
  qed
  then show ?thesis using header_init_read [OF c assms(3)] by (simp add: process_rtcp_packet_def)
qed

section \<open>Reading a report\<close>

definition swap32 :: "u32 \<Rightarrow> u32" where
  "swap32 w = be32 (ucast w) (ucast (drop_bit 8 w)) (ucast (drop_bit 16 w)) (ucast (drop_bit 24 w))"

lemma raw_word_at_drop:
  assumes "drop i bs = be32_bytes w @ r"
  shows "raw_word_at bs i = Some (swap32 w)"
proof -
  have l: "i + 4 \<le> length bs" using arg_cong [OF assms, of length] by (cases "i \<le> length bs") auto
  have "bs ! (i + k) = (be32_bytes w @ r) ! k" if "k < 4" for k
    using l that by (simp flip: assms)
  from this [of 0] this [of 1] this [of 2] this [of 3] show ?thesis
    using l by (simp add: raw_word_at_def swap32_def be32_bytes_def)
qed

lemma fl_cnpl_parts:
  "drop_bit 24 (push_bit 24 (f AND 0xFF) OR (c AND 0xFFFFFF)) = (f AND 0xFF :: u32)"
  "(push_bit 24 (f AND 0xFF) OR (c AND 0xFFFFFF)) AND 0xFFFFFF = (c AND 0xFFFFFF :: u32)"
proof -
  have e: "x AND 0xFF = take_bit 8 x" "x AND 0xFFFFFF = take_bit 24 x" for x :: u32
    by (simp_all add: take_bit_eq_mask mask_eq_exp_minus_1)
  show "drop_bit 24 (push_bit 24 (f AND 0xFF) OR (c AND 0xFFFFFF)) = (f AND 0xFF :: u32)"
    "(push_bit 24 (f AND 0xFF) OR (c AND 0xFFFFFF)) AND 0xFFFFFF = (c AND 0xFFFFFF :: u32)"
    unfolding e by (rule bit_word_eqI; auto simp: bit_simps)+
qed

lemma make_sr_shape:
  assumes "sd_ok s"
  obtains t s' where "make_sr now s = Some (fst (rtcp_sr_init now s 52) @ t, s')" and "tail_ok t"
proof -
  have "sd_ok (snd (rtcp_sr_init now s 52))" using assms sd_ok_outside [OF outside_stream_sr] by blast
  from with_sdes_ok [OF this, of "fst (rtcp_sr_init now s 52)"] show ?thesis
    by (metis that make_sr_def prod.collapse)
qed

lemma make_rr_shape:
  assumes "sd_ok s"
  obtains t s' where "make_rr now s = Some (fst (rtcp_rr_init now s 32) @ t, s')" and "tail_ok t"
proof -
  have "sd_ok (snd (rtcp_rr_init now s 32))" using assms sd_ok_outside [OF outside_stream_rr] by blast
  from with_sdes_ok [OF this, of "fst (rtcp_rr_init now s 32)"] show ?thesis
    by (metis that make_rr_def prod.collapse)
qed

text \<open>The message that holds a sender report, as the accessors see it.\<close>

lemma sr_fields:
  fixes s :: RtpSession and tail :: bytes and now :: timeval
  defines "m \<equiv> rtcp_msg_of (fst (rtcp_sr_init now s 52) @ tail)"
  shows "rtcp_is_SR m" and "rtcp_SR_get_ssrc m = Some (dir_ssrc (snd_dir s))"
    and "k < 5 \<Longrightarrow> word_at (cur m) (8 + 4 * k) = Some (sender_words now s ! k)"
    and "raw_word_at (cur m) 16 = Some (swap32 (snd_last_ts (sstate (rstream s))))"
    and "rtcp_SR_get_report_block m 0 = (if received_any s then Some 28 else None)"
    and "received_any s \<Longrightarrow> k < 6 \<Longrightarrow> word_at (cur m) (28 + 4 * k) = Some (block_words now s ! k)"
    and "28 + 24 * (if received_any s then 1 else 0) \<le> length (cur m)"
proof -
  let ?n = "if received_any s then 52 else 28 :: nat"
  have c: "cur m = rtcp_common_header_init RTCP_SR (of_bool (received_any s)) ?n
     @ words_bytes (dir_ssrc (snd_dir s) # sender_words now s @ (if received_any s then block_words now s else [])) @ tail"
    by (simp add: m_def cur_def rtcp_msg_of_def sr_bytes)
  have bw: "length (sender_words now s) = 5" "length (block_words now s) = 6" by (simp_all add: sender_words_def block_words_def Let_def)
  have sz: "rtcp_get_size m = int ?n" and ty: "has_type m RTCP_SR"
    using header_size_read(1,2) [OF c] by simp_all
  show "28 + 24 * (if received_any s then 1 else 0) \<le> length (cur m)" by (simp add: c bw)
  then show "rtcp_is_SR m" using ty by (simp add: rtcp_is_SR_def split: if_splits)
  show "rtcp_SR_get_report_block m 0 = (if received_any s then Some 28 else None)" by (simp add: rtcp_SR_get_report_block_def sz)
  have d: "drop 4 (cur m) = words_bytes (dir_ssrc (snd_dir s) # sender_words now s @ (if received_any s then block_words now s else [])) @ tail"
    by (simp add: c)
  note w = word_at_words [OF d]
  show "rtcp_SR_get_ssrc m = Some (dir_ssrc (snd_dir s))" using w [of 0] by (simp add: rtcp_SR_get_ssrc_def)
  show "word_at (cur m) (8 + 4 * k) = Some (sender_words now s ! k)" if "k < 5"
    using w [of "Suc k"] that by (simp add: bw nth_append)
  show "word_at (cur m) (28 + 4 * k) = Some (block_words now s ! k)" if "received_any s" "k < 6"
    using w [of "6 + k"] that by (simp add: bw nth_append)
  have "drop 16 (cur m) = be32_bytes (snd_last_ts (sstate (rstream s))) @ drop 20 (cur m)"
    by (simp add: c words_bytes_def sender_words_def)
  then show "raw_word_at (cur m) 16 = Some (swap32 (snd_last_ts (sstate (rstream s))))" by (rule raw_word_at_drop)
qed

lemma rr_fields:
  fixes s :: RtpSession and tail :: bytes and now :: timeval
  defines "m \<equiv> rtcp_msg_of (fst (rtcp_rr_init now s 32) @ tail)"
  shows "rtcp_is_RR m" and "\<not> rtcp_is_SR m" and "rtcp_RR_get_report_block m 0 = Some 8"
    and "k < 6 \<Longrightarrow> word_at (cur m) (8 + 4 * k) = Some (block_words now s ! k)"
proof -
  have c: "cur m = rtcp_common_header_init RTCP_RR 1 32 @ words_bytes (dir_ssrc (snd_dir s) # block_words now s) @ tail"
    by (simp add: m_def cur_def rtcp_msg_of_def rr_bytes)
  have bw: "length (block_words now s) = 6" by (simp add: block_words_def Let_def)
  have sz: "rtcp_get_size m = 32" and ty: "has_type m t \<longleftrightarrow> t = RTCP_RR" for t
    using header_size_read(1,2) [OF c] by simp_all
  show "rtcp_is_RR m" using ty by (simp add: rtcp_is_RR_def c bw)
  show "\<not> rtcp_is_SR m" by (simp add: rtcp_is_SR_def ty RTCP_RR_def RTCP_SR_def)
  show "rtcp_RR_get_report_block m 0 = Some 8" by (simp add: rtcp_RR_get_report_block_def sz)
  have d: "drop 4 (cur m) = words_bytes (dir_ssrc (snd_dir s) # block_words now s) @ tail" by (simp add: c)
  show "word_at (cur m) (8 + 4 * k) = Some (block_words now s ! k)" if "k < 6"
    using word_at_words [OF d, of "Suc k"] that by (simp add: bw)
qed

section \<open>The round trip of a report\<close>

lemma compute_rtt_ok:
  assumes "word_at (cur m) (rb + 16) = Some l" and "word_at (cur m) (rb + 20) = Some d"
  shows "\<exists>r. compute_rtt s now m rb = Some (s\<lparr>rtt := r\<rparr>)"
proof (cases "l \<noteq> 0 \<and> d \<noteq> 0")
  case True
  then show ?thesis using assms
    by (simp add: compute_rtt_def report_block_get_last_SR_time_def report_block_get_last_SR_delay_def Let_def) (rule exI, rule refl)
next
  case False
  then have "compute_rtt s now m rb = Some (s\<lparr>rtt := rtt s\<rparr>)" using assms
    by (auto simp: compute_rtt_def report_block_get_last_SR_time_def report_block_get_last_SR_delay_def Let_def)
  then show ?thesis by blast
qed

lemma compute_rtt_value:
  assumes "word_at (cur m) (rb + 16) = Some l" and "word_at (cur m) (rb + 20) = Some d" and "l \<noteq> 0" and "d \<noteq> 0" and "net_sim_ctx s = None"
  shows "compute_rtt s now m rb = Some (s\<lparr>rtt := f32 (f64 (f64 (of_int (uint (ntp_mid now - l - d))) / 65536))\<rparr>)"
  using assms by (simp add: compute_rtt_def report_block_get_last_SR_time_def report_block_get_last_SR_delay_def ntp_mid_def Let_def)

lemma receive_sr:
  assumes "sd_ok a" and "make_sr t0 a = Some (sr, a')" and "dir_ssrc (rcv_dir b) = dir_ssrc (snd_dir a)"
  shows "\<exists>r. process_rtcp_packet b t1 (rtcp_msg_of sr) addr = Some (0, (set_last_SR b (ntp_mid t0) t1)\<lparr>rtt := r\<rparr>, rtcp_msg_of sr)"
proof -
  obtain t where t: "sr = fst (rtcp_sr_init t0 a 52) @ t" "tail_ok t"
    using make_sr_shape [OF assms(1), of t0] assms(2) by (metis option.inject prod.inject)
  let ?m = "rtcp_msg_of (fst (rtcp_sr_init t0 a 52) @ t)"
  note f = sr_fields [where now = t0 and s = a and tail = t]
  let ?n = "if received_any a then 52 else 28 :: nat"
  have c: "cur ?m = rtcp_common_header_init RTCP_SR (of_bool (received_any a)) ?n
     @ words_bytes (dir_ssrc (snd_dir a) # sender_words t0 a @ (if received_any a then block_words t0 a else [])) @ t"
    by (simp add: cur_def rtcp_msg_of_def sr_bytes)
  have msw: "word_at (cur ?m) 8 = Some (ucast (drop_bit 32 (ortp_timeval_to_ntp t0)))"
    and lsw: "word_at (cur ?m) 12 = Some (ucast (ortp_timeval_to_ntp t0))"
    using f(3) [of 0] f(3) [of 1] by (simp_all add: sender_words_def)
  have ch: "rtcp_get_common_header ?m = Some ch \<Longrightarrow> ch_rc ch = of_bool (received_any a)" for ch
    using header_init_read [OF c] by auto
  let ?s = "set_last_SR b (ntp_mid t0) t1"
  have set2: "set_last_SR (set_last_SR b x y) u v = set_last_SR b u v" for x y u v by (simp add: set_last_SR_def)
  have "\<exists>r. rtt_from_block ?s t1 ?m (rtcp_SR_get_report_block ?m 0) = Some (False, ?s\<lparr>rtt := r\<rparr>)"
  proof (cases "received_any a")
    case True
    have "\<exists>r. compute_rtt ?s t1 ?m 28 = Some (?s\<lparr>rtt := r\<rparr>)"
      by (rule compute_rtt_ok) (use f(6) [OF True, of 4] f(6) [OF True, of 5] in simp_all)
    then show ?thesis using f(5) True by (auto simp: rtt_from_block_def)
  next
    case False
    have "?s = ?s\<lparr>rtt := rtt ?s\<rparr>" by simp
    then show ?thesis using f(5) False by (metis (no_types) option.case(1) rtt_from_block_def)
  qed
  then obtain r where r: "rtt_from_block ?s t1 ?m (rtcp_SR_get_report_block ?m 0) = Some (False, ?s\<lparr>rtt := r\<rparr>)" by blast
  have one: "process_one_rtcp ?m t1 b ?m = Some (False, ?s\<lparr>rtt := r\<rparr>)"
    using f(1,2,7) r msw lsw header_init_read [OF c] assms(3)
    by (cases "received_any a")
      (simp_all add: process_one_rtcp_def rtcp_SR_get_ssrc_def ntp_mid_def ntp_mid_halves set2 Let_def)
  have "process_rtcp_packet b t1 ?m addr = Some (0, ?s\<lparr>rtt := r\<rparr>, ?m)"
    by (rule loop_report [OF _ sr_bytes]) (use one t(2) in \<open>auto simp: sr_bytes sender_words_def block_words_def Let_def\<close>)
  then show ?thesis using t(1) by blast
qed

lemma receive_rr:
  assumes "sd_ok b" and "make_rr t2 b = Some (rr, b')" and "\<not> has_flag b RTCP_OVERRIDE_DELAY" and "net_sim_ctx a = None"
    and "last_rcv_SR_ts (rstate (rstream b)) = l" and "l \<noteq> 0" and "d = delay_since_last_sr t2 (last_rcv_SR_time (rstate (rstream b)))" and "d \<noteq> 0"
  shows "process_rtcp_packet a t3 (rtcp_msg_of rr) addr
     = Some (0, a\<lparr>rtt := f32 (f64 (f64 (of_int (uint (ntp_mid t3 - l - d))) / 65536))\<rparr>, rtcp_msg_of rr)"
proof -
  obtain t where t: "rr = fst (rtcp_rr_init t2 b 32) @ t" "tail_ok t"
    using make_rr_shape [OF assms(1), of t2] assms(2) by (metis option.inject prod.inject)
  let ?m = "rtcp_msg_of (fst (rtcp_rr_init t2 b 32) @ t)"
  note f = rr_fields [where now = t2 and s = b and tail = t]
  let ?a = "a\<lparr>rtt := f32 (f64 (f64 (of_int (uint (ntp_mid t3 - l - d))) / 65536))\<rparr>"
  have "compute_rtt a t3 ?m 8 = Some ?a"
    by (rule compute_rtt_value) (use f(4) [of 4] f(4) [of 5] assms(3-8) in \<open>simp_all add: block_words_def Let_def\<close>)
  then have one: "process_one_rtcp ?m t3 a ?m = Some (False, ?a)"
    using f(1-3) by (simp add: process_one_rtcp_def rtt_from_block_def)
  have "process_rtcp_packet a t3 ?m addr = Some (0, ?a, ?m)"
    by (rule loop_report [OF _ rr_bytes]) (use one t(2) in \<open>auto simp: rr_bytes block_words_def Let_def\<close>)
  then show ?thesis using t(1) by simp
qed

section \<open>Properties\<close>

text \<open>C28: what a session puts into a sender report is what the accessors of a receiver read from it: source, counts and,
  exactly when packets were received, a report block with the loss counts, the highest sequence number, the interarrival jitter,
  the time of the last sender report and the delay since (or the values set for tests). Only the RTP timestamp accessor lacks the byte order conversion and returns the
  timestamp with its bytes swapped.\<close>

theorem sender_report_roundtrip:
  assumes "sd_ok s"
  shows "\<exists>bs s'. make_sr now s = Some (bs, s') \<and>
    (let m = rtcp_msg_of bs; si = rtcp_SR_get_sender_info m; st = rstream s
     in rtcp_is_SR m \<and> rtcp_SR_get_ssrc m = Some (dir_ssrc (snd_dir s))
      \<and> sender_info_get_packet_count m si = Some (ucast (st_packet_sent (stats st)))
      \<and> sender_info_get_octet_count m si = Some (sent_payload_bytes (sstate st))
      \<and> sender_info_get_rtp_timestamp m si = Some (swap32 (snd_last_ts (sstate st)))
      \<and> (case rtcp_SR_get_report_block m 0 of
           None \<Rightarrow> st_packet_recv (stats st) = 0
         | Some rb \<Rightarrow> st_packet_recv (stats st) \<noteq> 0
             \<and> report_block_get_ssrc m rb = Some (dir_ssrc (rcv_dir s))
             \<and> report_block_get_fraction_lost m rb = Some (snd (report_losses s) AND 0xFF)
             \<and> report_block_get_cum_packet_loss m rb = Some (ucast (fst (report_losses s)) AND 0xFFFFFF)
             \<and> report_block_get_high_ext_seq m rb = Some (hwrcv_extseq (rstate st))
             \<and> report_block_get_interarrival_jitter m rb = Some (if has_flag s RTCP_OVERRIDE_JITTER then interarrival_jitter_test_vector s
                  else word_of_int (trunc (inter_jitter (jittctl st))))
             \<and> report_block_get_last_SR_time m rb = Some (if has_flag s RTCP_OVERRIDE_DELAY
                  then overridden_lsr (last_rcv_SR_time (rstate st)) (delay_test_vector s) else last_rcv_SR_ts (rstate st))
             \<and> report_block_get_last_SR_delay m rb = Some (delay_since_last_sr now (last_rcv_SR_time (rstate st)))))"
proof -
  obtain t s' where t: "make_sr now s = Some (fst (rtcp_sr_init now s 52) @ t, s')" using make_sr_shape [OF assms] by blast
  let ?m = "rtcp_msg_of (fst (rtcp_sr_init now s 52) @ t)"
  note f = sr_fields [where now = now and s = s and tail = t]
  have si: "word_at (cur ?m) 20 = Some (ucast (st_packet_sent (stats (rstream s))))"
    "word_at (cur ?m) 24 = Some (sent_payload_bytes (sstate (rstream s)))"
    using f(3) [of 3] f(3) [of 4] by (simp_all add: sender_words_def)
  have rb: "word_at (cur ?m) 28 = Some (block_words now s ! 0)"
    "word_at (cur ?m) 36 = Some (block_words now s ! 2)" "word_at (cur ?m) 40 = Some (block_words now s ! 3)"
    "word_at (cur ?m) 44 = Some (block_words now s ! 4)" "word_at (cur ?m) 48 = Some (block_words now s ! 5)" if "received_any s"
    using f(6) [OF that, of 0] f(6) [OF that, of 2] f(6) [OF that, of 3] f(6) [OF that, of 4] f(6) [OF that, of 5] by simp_all
  have b1: "block_words now s ! 1 = push_bit 24 (snd (report_losses s) AND 0xFF) OR (ucast (fst (report_losses s)) AND 0xFFFFFF)"
    unfolding block_words_def Let_def One_nat_def nth_Cons_Suc nth_Cons_0 by (rule refl)
  have w1: "word_at (cur ?m) (28 + 4) = Some (block_words now s ! 1)" if "received_any s" using f(6) [OF that, of 1] by simp
  have lost: "report_block_get_fraction_lost ?m 28 = Some (snd (report_losses s) AND 0xFF)"
    "report_block_get_cum_packet_loss ?m 28 = Some (ucast (fst (report_losses s)) AND 0xFFFFFF)" if "received_any s"
    unfolding report_block_get_fraction_lost_def report_block_get_cum_packet_loss_def w1 [OF that] option.map b1 fl_cnpl_parts by (rule refl)+
  have recv: "received_any s \<longleftrightarrow> st_packet_recv (stats (rstream s)) \<noteq> 0" by (simp add: received_any_def word_gt_0)
  show ?thesis
    by (intro exI [of _ "fst (rtcp_sr_init now s 52) @ t"] exI [of _ s'] conjI t)
      (use f(1,2,4,5) si rb lost recv in \<open>auto simp: Let_def rtcp_SR_get_sender_info_def sender_info_get_packet_count_def
        sender_info_get_octet_count_def sender_info_get_rtp_timestamp_def report_block_get_ssrc_def
        report_block_get_high_ext_seq_def report_block_get_interarrival_jitter_def report_block_get_last_SR_time_def
        report_block_get_last_SR_delay_def block_words_def\<close>)
qed

text \<open>C14: the round trip time. Session \<open>a\<close> sends a sender report at \<open>t0\<close> that \<open>b\<close> receives at \<open>t1\<close>; \<open>b\<close> answers with a
  receiver report at \<open>t2\<close> that a session receives at \<open>t3\<close>. No step fails, and the round trip time is then the time between
  \<open>t0\<close> and \<open>t3\<close> less the delay in \<open>b\<close>, in units of 1/65536 seconds, with the arithmetic of 32-bit words.\<close>

theorem round_trip_time_measured:
  assumes "sd_ok a" and "sd_ok b" and "dir_ssrc (rcv_dir b) = dir_ssrc (snd_dir a)" and "\<not> has_flag b RTCP_OVERRIDE_DELAY"
    and "net_sim_ctx c = None" and "ntp_mid t0 \<noteq> 0" and "delay_since_last_sr t2 t1 \<noteq> 0"
  shows "\<exists>sr a' b' rr b'' c'. make_sr t0 a = Some (sr, a')
     \<and> process_rtcp_packet b t1 (rtcp_msg_of sr) addr = Some (0, b', rtcp_msg_of sr)
     \<and> make_rr t2 b' = Some (rr, b'')
     \<and> process_rtcp_packet c t3 (rtcp_msg_of rr) addr' = Some (0, c', rtcp_msg_of rr)
     \<and> rtt c' = f32 (f64 (f64 (of_int (uint (ntp_mid t3 - ntp_mid t0 - delay_since_last_sr t2 t1))) / 65536))"
proof -
  obtain sr a' where sr: "make_sr t0 a = Some (sr, a')" using make_sr_shape [OF assms(1)] by blast
  from receive_sr [OF assms(1) sr assms(3)] obtain r where
    b: "process_rtcp_packet b t1 (rtcp_msg_of sr) addr = Some (0, (set_last_SR b (ntp_mid t0) t1)\<lparr>rtt := r\<rparr>, rtcp_msg_of sr)" by blast
  let ?b = "(set_last_SR b (ntp_mid t0) t1)\<lparr>rtt := r\<rparr>"
  have ok: "sd_ok ?b" "\<not> has_flag ?b RTCP_OVERRIDE_DELAY" "last_rcv_SR_ts (rstate (rstream ?b)) = ntp_mid t0"
    "last_rcv_SR_time (rstate (rstream ?b)) = t1"
    using assms(2,4) by (simp_all add: sd_ok_def has_flag_def set_last_SR_def)
  obtain rr b'' where rr: "make_rr t2 ?b = Some (rr, b'')" using make_rr_shape [OF ok(1)] by blast
  show ?thesis
    using sr b rr receive_rr [OF ok(1) rr ok(2) assms(5) ok(3) assms(6), of "delay_since_last_sr t2 t1" t3 addr'] ok(4) assms(7)
    by fastforce
qed

lemma demo_sd_ok: "sd_ok demo_session"
  by (simp add: sd_ok_def demo_session_def)

theorem sender_report_roundtrip_witness:
  "\<exists>bs s'. make_sr (1000, 0) demo_session = Some (bs, s') \<and> rtcp_is_SR (rtcp_msg_of bs) \<and> rtcp_SR_get_ssrc (rtcp_msg_of bs) = Some 7"
  using sender_report_roundtrip [OF demo_sd_ok, of "(1000, 0)"] by (auto simp: Let_def demo_session_def demo_dir_def)

theorem round_trip_time_measured_witness:
  "\<exists>sr a' b' rr b'' c'. make_sr (1000, 0) demo_session = Some (sr, a')
     \<and> process_rtcp_packet demo_session (10, 0) (rtcp_msg_of sr) [] = Some (0, b', rtcp_msg_of sr)
     \<and> make_rr (11, 0) b' = Some (rr, b'')
     \<and> process_rtcp_packet demo_session (1002, 0) (rtcp_msg_of rr) [] = Some (0, c', rtcp_msg_of rr)
     \<and> rtt c' = 1"
proof -
  have z: "f64 0 = 0" "f64 1 = 1" "f64 65536 = 65536" "f32 1 = 1"
    using f64_facts(1) f64_facts(4) [of 1] f64_facts(4) [of 65536] f32_facts(4) [of 1] by simp_all
  have n: "ntp_mid (x, 0) = ucast (drop_bit 16 (push_bit 32 (word_of_int (x + 0x83AA7E80)) :: u64))" for x
    by (simp add: ntp_mid_def ortp_timeval_to_ntp_def z trunc_def)
  have d: "delay_since_last_sr (11, 0) (10, 0) = 65536" by (simp add: delay_since_last_sr_def z trunc_def)
  have "ntp_mid (1000, 0) \<noteq> 0" "uint (ntp_mid (1002, 0) - ntp_mid (1000, 0) - 65536) = 65536"
    by (simp_all add: n)
  then show ?thesis
    using round_trip_time_measured [OF demo_sd_ok demo_sd_ok, of demo_session "(1000, 0)" "(11, 0)" "(10, 0)" "[]" "(1002, 0)" "[]"]
    by (simp add: d z) (simp add: demo_session_def demo_dir_def has_flag_def)
qed

text \<open>A source description of a session, as long as it fits the first block of the chunk, is parsed back item by item:
  the names given, each cut to 255 bytes, with their types and the source of the session, wherever the packet stands in
  an aligned compound message and whatever follows.\<close>

theorem source_description_roundtrip:
  assumes "contributing_sources s = []"
    and "its = sdes_items_of 1 [Some cname, name, email, phone, loc, tool, note]"
    and "length (sdes_chunk_bytes (dir_ssrc (snd_dir s), its)) \<le> 1024"
    and "4 dvd a + length pre"
  shows "\<exists>s1 p s2. rtp_session_set_source_description s (Some cname) name email phone loc tool note = Some s1
    \<and> rtp_session_create_rtcp_sdes_packet s1 = Some (p, s2)
    \<and> rtcp_is_SDES \<lparr>rm_addr = a, rm_data = pre @ p @ r, rm_pos = length pre\<rparr>
    \<and> rtcp_sdes_parse \<lparr>rm_addr = a, rm_data = pre @ p @ r, rm_pos = length pre\<rparr>
        = Some (map (\<lambda>(t, c). (dir_ssrc (snd_dir s), t, c)) its)"
proof -
  let ?src = "dir_ssrc (snd_dir s)" and ?cs = "[Some cname, name, email, phone, loc, tool, note]"
  let ?d = "sdes_chunk_bytes (?src, its)"
  obtain ck where ck: "sdes_chunk_items (sdes_chunk_new ?src) 1 ?cs = Some ck" "chunk_bytes ck = ?d"
    using sdes_chunk_built [of ?src ?cs] assms(2,3) by auto
  have set: "rtp_session_set_source_description s (Some cname) name email phone loc tool note = Some (s\<lparr>sd := Some ?d\<rparr>)"
    by (simp only: rtp_session_set_source_description_def Let_def option.case ck(1) bind.bind_lunit ck(2))
  have d4: "sdes_chunk_set_ssrc ?d ?src = ?d" by (simp add: sdes_chunk_set_ssrc_def sdes_chunk_bytes_def Let_def)
  let ?p = "rtcp_common_header_init RTCP_SDES 1 (4 + length ?d) @ ?d"
  have mk: "rtp_session_create_rtcp_sdes_packet (s\<lparr>sd := Some ?d\<rparr>) = Some (?p, s\<lparr>sd := Some ?d\<rparr>)"
    using assms(1) by (simp add: rtp_session_create_rtcp_sdes_packet_def d4 Let_def)
  let ?m = "\<lparr>rm_addr = a, rm_data = pre @ ?p @ r, rm_pos = length pre\<rparr>"
  have "rtcp_is_SDES ?m \<and> rtcp_sdes_parse ?m = Some (map (\<lambda>(t, c). (?src, t, c)) its)"
  proof
    have c: "cur ?m = ?p @ r" by (simp add: cur_def)
    have "list_all item_ok its" unfolding assms(2) by (rule sdes_items_of_ok) simp_all
    then show "rtcp_sdes_parse ?m = Some (map (\<lambda>(t, c). (?src, t, c)) its)"
      using rtcp_sdes_parse_chunks [of ?m "[(?src, its)]" r] c assms(3,4) by (simp add: sdes_chunk_calls_def)
    have c': "cur ?m = rtcp_common_header_init RTCP_SDES 1 (4 + length ?d) @ ?d @ r" using c by simp
    have "rtcp_get_size ?m = int (4 + length ?d)" "has_type ?m RTCP_SDES"
      using header_size_read(1,2) [OF c'] sdes_chunk_bytes_align(1) [of "(?src, its)"] assms(3) by (simp_all add: dvd_add_right_iff)
    moreover have "length (cur ?m) = 4 + length ?d + length r" by (simp add: cur_def)
    ultimately show "rtcp_is_SDES ?m" by (simp add: rtcp_is_SDES_def)
  qed
  with set mk show ?thesis by blast
qed

theorem source_description_roundtrip_witness:
  "\<exists>s1 p s2. rtp_session_set_source_description demo_session (Some [97, 64, 98]) None None None None (Some [111]) None = Some s1
    \<and> rtp_session_create_rtcp_sdes_packet s1 = Some (p, s2)
    \<and> rtcp_sdes_parse \<lparr>rm_addr = 8, rm_data = p @ [1], rm_pos = 0\<rparr> = Some [(7, 1, [97, 64, 98]), (7, 6, [111])]"
proof -
  have "length (sdes_chunk_bytes (dir_ssrc (snd_dir demo_session), sdes_items_of 1 [Some [97, 64, 98], None, None, None, None, Some [111], None])) \<le> 1024"
    by (simp add: sdes_chunk_bytes_def items_bytes_def item_bytes_def Let_def)
  from source_description_roundtrip [OF _ refl this, of 8 "[]" "[1]"]
  show ?thesis by (auto simp: demo_session_def demo_dir_def)
qed

text \<open>The losses of a report. When \<open>E\<close> packets were expected since the last report and \<open>R\<close> of them arrived, the
  cumulative count grows by \<open>E - R\<close>, but the fraction is taken of the packets received and then cut to 8 bits: it is
  \<open>256 (E - R) / R mod 256\<close>, so that the loss of every second packet is reported as no loss.\<close>

theorem fraction_lost_is_of_received:
  assumes "hwrcv_since_last_SR (rstate (rstream s)) = of_nat R" and "0 < R" and "R \<le> E" and "E < 2 ^ 23"
    and "hwrcv_extseq (rstate (rstream s)) - hwrcv_seq_at_last_SR (rstate (rstream s)) = of_nat E"
    and "\<not> has_flag s RTCP_OVERRIDE_LOST_PACKETS"
  shows "fst (report_losses s) = st_cum_packet_loss (stats (rstream s)) + of_nat (E - R)
    \<and> unat (snd (report_losses s) AND 0xFF) = 256 * (E - R) div R mod 256
    \<and> (E = 2 * R \<longrightarrow> snd (report_losses s) AND 0xFF = 0)"
proof -
  define n where "n = E - R"
  have n: "n < 2 ^ 23" and R: "R < 2 ^ 23" and E: "E = n + R" using assms(3,4) by (simp_all add: n_def)
  have un: "unat (of_nat k :: u32) = k" if "k < 2 ^ 32" for k using that by (simp add: unat_of_nat take_bit_nat_eq_self)
  have uR: "unat (of_nat R :: u32) = R" by (rule un) (use R in simp)
  then have R0: "(of_nat R :: u32) \<noteq> 0" using assms(2) by (metis neq0_conv unat_0)
  have "(of_nat E :: u32) - of_nat R = of_nat n" by (simp add: E)
  moreover have "sint (of_nat n :: u32) = int n" using n by (simp add: signed_of_nat signed_take_bit_int_eq_self)
  ultimately have pl: "sint ((of_nat E :: u32) - of_nat R) = int n" by simp
  have s32: "s32 (256 * int n) = int (256 * n)" using s32_id [of "256 * int n"] n by simp
  have "report_losses s = (st_cum_packet_loss (stats (rstream s)) + word_of_int (int n), word_of_int (s32 (256 * int n)) div of_nat R)"
    unfolding report_losses_def Let_def assms(1,5) pl using R0 assms(6) by simp
  then have l: "report_losses s = (st_cum_packet_loss (stats (rstream s)) + of_nat n, of_nat (256 * n) div of_nat R)"
    unfolding s32 of_int_of_nat_eq .
  have u: "unat (of_nat (256 * n) :: u32) = 256 * n" by (rule un) (use n in simp)
  have "snd (report_losses s) AND 0xFF = take_bit 8 (snd (report_losses s))"
    by (simp add: take_bit_eq_mask mask_eq_exp_minus_1)
  then have b: "unat (snd (report_losses s) AND 0xFF) = 256 * n div R mod 256"
    unfolding l snd_conv by (simp only: unsigned_take_bit_eq unat_div u uR) (simp add: take_bit_eq_mod)
  have "snd (report_losses s) AND 0xFF = 0" if "E = 2 * R"
  proof -
    have "n = R" using E that by simp
    then have "unat (snd (report_losses s) AND 0xFF) = 0" using b assms(2) by simp
    then show ?thesis by (metis unat_eq_zero)
  qed
  then show ?thesis using b l by (simp add: n_def)
qed

theorem fraction_lost_is_of_received_witness:
  "let s = demo_session\<lparr>rstream := (rstream demo_session)\<lparr>rstate := (rstate (rstream demo_session))\<lparr>
       hwrcv_extseq := 200, hwrcv_since_last_SR := 100\<rparr>\<rparr>\<rparr>
   in fst (report_losses s) = 100 \<and> snd (report_losses s) AND 0xFF = 0"
proof -
  let ?s = "demo_session\<lparr>rstream := (rstream demo_session)\<lparr>rstate := (rstate (rstream demo_session))\<lparr>
       hwrcv_extseq := 200, hwrcv_since_last_SR := 100\<rparr>\<rparr>\<rparr>"
  have f: "hwrcv_since_last_SR (rstate (rstream ?s)) = of_nat 100"
    "hwrcv_extseq (rstate (rstream ?s)) - hwrcv_seq_at_last_SR (rstate (rstream ?s)) = of_nat 200"
    "\<not> has_flag ?s RTCP_OVERRIDE_LOST_PACKETS" "st_cum_packet_loss (stats (rstream ?s)) = 0"
    by (simp_all add: demo_session_def has_flag_def rtp_stats_reset_def)
  show ?thesis using fraction_lost_is_of_received [OF f(1) _ _ _ f(2,3)] f(4) by (simp add: Let_def)
qed

lemma one_rtcp_safe:
  assumes "rtcp_get_size b \<le> int (length (cur b))" and "28 \<le> length (cur f) \<or> \<not> rtcp_is_SR b"
  shows "process_one_rtcp f now s b \<noteq> None"
proof -
  have rtt: "rtt_from_block s' now b orb \<noteq> None" if "\<And>rb. orb = Some rb \<Longrightarrow> rb + 24 \<le> length (cur b)" for s' orb
  proof (cases orb)
    case (Some rb)
    have "\<exists>r. compute_rtt s' now b rb = Some (s'\<lparr>rtt := r\<rparr>)"
      by (rule compute_rtt_ok) (use that [OF Some] in \<open>simp_all add: word_at_def\<close>)
    then show ?thesis by (auto simp: rtt_from_block_def Some)
  qed (simp add: rtt_from_block_def)
  have "rb + 24 \<le> length (cur b)" if "rtcp_SR_get_report_block b 0 = Some rb \<or> rtcp_RR_get_report_block b 0 = Some rb" for rb
    using that assms(1) by (auto simp: rtcp_SR_get_report_block_def rtcp_RR_get_report_block_def Let_def split: if_splits)
  then have "rtt_from_block s' now b (rtcp_SR_get_report_block b 0) \<noteq> None \<and> rtt_from_block s' now b (rtcp_RR_get_report_block b 0) \<noteq> None" for s'
    by (intro conjI rtt) simp_all
  then show ?thesis using assms(2)
    by (auto simp: process_one_rtcp_def word_at_def rtcp_get_common_header_def Let_def)
qed

definition skip_packets :: "nat \<Rightarrow> rtcp_msg \<Rightarrow> rtcp_msg" where
  "skip_packets k b = ((\<lambda>b. snd (rtcp_next_packet b)) ^^ k) b"

lemma skip_packets_Suc: "skip_packets (Suc k) b = skip_packets k (snd (rtcp_next_packet b))"
  using funpow_swap1 [of "\<lambda>b. snd (rtcp_next_packet b)" k b] by (simp add: skip_packets_def)

lemma next_packet_cur: "rtcp_next_packet b = (x, b1) \<Longrightarrow> length (cur b1) \<le> length (cur b)"
  by (auto simp: rtcp_next_packet_def cur_def Let_def split: if_splits)

lemma rtcp_loop_safe:
  assumes "\<And>k. rtcp_get_size (skip_packets k b) \<le> int (length (cur (skip_packets k b)))" and "length (cur b) \<le> length (cur f)"
  shows "process_rtcp_loop f now s b \<noteq> None"
  using assms
proof (induction f now s b rule: process_rtcp_loop.induct)
  case (1 f now s b)
  have "rtcp_get_size b \<le> int (length (cur b))" using "1.prems"(1) [of 0] by (simp add: skip_packets_def)
  then have "process_one_rtcp f now s b \<noteq> None"
    by (rule one_rtcp_safe) (use "1.prems"(2) in \<open>auto simp: rtcp_is_SR_def\<close>)
  then obtain stop s1 where one: "process_one_rtcp f now s b = Some (stop, s1)" by auto
  obtain fd b1 where np: "rtcp_next_packet b = (fd, b1)" by force
  show ?case
  proof (cases "\<not> stop \<and> fd")
    case True
    have "process_rtcp_loop f now s1 b1 \<noteq> None"
    proof (rule "1.IH" [OF one refl _ np [symmetric]])
      show "\<not> stop" "fd" using True by simp_all
      show "rtcp_get_size (skip_packets k b1) \<le> int (length (cur (skip_packets k b1)))" for k
        using "1.prems"(1) [of "Suc k"] by (simp add: skip_packets_Suc np)
      show "length (cur b1) \<le> length (cur f)" using next_packet_cur [OF np] "1.prems"(2) by simp
    qed
    then show ?thesis using True by (subst process_rtcp_loop.simps) (simp add: one np)
  next
    case False
    then show ?thesis by (subst process_rtcp_loop.simps) (auto simp: one np)
  qed
qed

text \<open>A sender report block is looked for as far as the length field of the packet says, not as far as the message goes:
  a 28-byte sender report without report blocks whose length field claims at least one makes the receiver read behind
  the end of the message. When no packet of the message claims more than the message has, the receiver never does.\<close>

theorem rtcp_reception_trusts_the_length_field:
  assumes "\<And>k. rtcp_get_size (skip_packets k (rtcp_msg_of bs)) \<le> int (length (cur (skip_packets k (rtcp_msg_of bs))))"
    and "4 dvd n" and "52 \<le> n" and "n \<le> 262144"
  shows "process_rtcp_packet s now (rtcp_msg_of bs) addr \<noteq> None
    \<and> process_rtcp_packet s now (rtcp_msg_of (rtcp_common_header_init RTCP_SR 0 n @ be32_bytes (dir_ssrc (rcv_dir s)) @ replicate 20 0)) addr = None"
proof
  have "process_rtcp_loop (rtcp_msg_of bs) now s (rtcp_msg_of bs) \<noteq> None" by (rule rtcp_loop_safe) (use assms(1) in auto)
  then show "process_rtcp_packet s now (rtcp_msg_of bs) addr \<noteq> None"
    by (auto simp: process_rtcp_packet_def split: option.splits)
  let ?m = "rtcp_msg_of (rtcp_common_header_init RTCP_SR 0 n @ be32_bytes (dir_ssrc (rcv_dir s)) @ replicate 20 0)"
  have c: "cur ?m = rtcp_common_header_init RTCP_SR 0 n @ be32_bytes (dir_ssrc (rcv_dir s)) @ replicate 20 0"
    by (simp add: cur_def rtcp_msg_of_def)
  have l: "length (cur ?m) = 28" by (simp add: c)
  have sz: "rtcp_get_size ?m = int n" "has_type ?m RTCP_SR"
    using header_size_read(1,2) [OF c _ assms(2)] assms(3,4) by simp_all
  note h = header_init_read [OF c, simplified]
  have w: "word_at (cur ?m) 4 = Some (dir_ssrc (rcv_dir s))" by (rule word_at_drop) (simp add: c)
  have rb: "rtcp_SR_get_report_block ?m 0 = Some 28" using assms(3) by (simp add: rtcp_SR_get_report_block_def sz(1))
  have rtt: "compute_rtt s' now ?m 28 = None" for s'
    by (simp add: compute_rtt_def report_block_get_last_SR_time_def word_at_def l Let_def)
  have "\<exists>x. word_at (cur ?m) 8 = Some x" "\<exists>x. word_at (cur ?m) 12 = Some x" using l by (simp_all add: word_at_def)
  then have "process_one_rtcp ?m now s ?m = None"
    using w h l sz(2) by (auto simp: process_one_rtcp_def rtcp_is_SR_def rb rtt_from_block_def rtt Let_def)
  then show "process_rtcp_packet s now ?m addr = None"
    by (simp add: process_rtcp_packet_def h process_rtcp_loop.simps)
qed

theorem rtcp_reception_trusts_the_length_field_witness:
  "process_rtcp_packet demo_session (5, 0) (rtcp_msg_of (rtcp_common_header_init RTCP_RR 0 8 @ [0, 0, 0, 9])) [] \<noteq> None
   \<and> process_rtcp_packet demo_session (5, 0) (rtcp_msg_of (rtcp_common_header_init RTCP_SR 0 52 @ be32_bytes 7 @ replicate 20 0)) [] = None"
proof -
  let ?m = "rtcp_msg_of (rtcp_common_header_init RTCP_RR 0 8 @ [0, 0, 0, 9])"
  have c: "cur ?m = rtcp_common_header_init RTCP_RR 0 8 @ [0, 0, 0, 9]" by (simp add: cur_def rtcp_msg_of_def)
  have sz: "rtcp_get_size ?m = 8" using header_size_read(1) [OF c] by simp
  have "rtcp_next_packet ?m = (False, ?m)" unfolding rtcp_next_packet_def sz Let_def by (simp add: rtcp_msg_of_def)
  then have "skip_packets k ?m = ?m" for k by (induction k) (simp_all add: skip_packets_def)
  then show ?thesis
    using rtcp_reception_trusts_the_length_field [of "rtcp_common_header_init RTCP_RR 0 8 @ [0, 0, 0, 9]" 52 demo_session "(5, 0)" "[]"] sz c
    by (simp add: demo_session_facts)
qed

end
