(* ===== verification/Net_Sim.thy ===== *)
theory Net_Sim
  imports Rtp_Parse
begin

text \<open>
  The network simulator of \<open>ortp/src/netsim.c\<close>: packets wait in a queue until the simulated bandwidth lets them pass, the
  oldest are dropped when more than a second of bandwidth is waiting, and a share of the packets is lost. A message is
  its bytes, the time of day and the random number are arguments, and the loop that drops packets is \<open>None\<close> when it does
  not end.
\<close>

section \<open>Definitions\<close>

definition simulator_ctx_new :: NetworkSimulatorCtx where
  "simulator_ctx_new = \<lparr>sim_max_bandwidth = 0, sim_loss_rate = 0, bit_budget = 0, sim_qsize = 0, sim_q = [], last_check = (0, 0)\<rparr>"

text \<open>The parameters are the flag \<open>enabled\<close>, the bandwidth and the loss rate.\<close>

definition rtp_session_enable_network_simulation :: "RtpSession \<Rightarrow> bool \<times> rat \<times> rat \<Rightarrow> RtpSession" where
  "rtp_session_enable_network_simulation session params =
    (let (en, bw, loss) = params in
     if en then session\<lparr>net_sim_ctx := Some ((case net_sim_ctx session of None \<Rightarrow> simulator_ctx_new | Some sim \<Rightarrow> sim)
        \<lparr>sim_max_bandwidth := bw, sim_loss_rate := loss\<rparr>)\<rparr>
     else session\<lparr>net_sim_ctx := None\<rparr>)"

definition elapsed_us :: "timeval \<Rightarrow> timeval \<Rightarrow> int" where
  "elapsed_us tv1 tv2 = (fst tv2 - fst tv1) * 1000000 + (snd tv2 - snd tv1)"

definition ip_overhead :: "RtpSession \<Rightarrow> nat" where
  "ip_overhead session = (if sockfamily6 (rstream session) then 48 else 28)"

definition packet_bits :: "nat \<Rightarrow> bytes \<Rightarrow> int" where
  "packet_bits overhead m = int ((length m + overhead) * 8)"

partial_function (option) flow_control :: "nat \<Rightarrow> NetworkSimulatorCtx \<Rightarrow> NetworkSimulatorCtx option" where
  "flow_control overhead sim =
    (if sim_max_bandwidth sim \<le> f32 (of_int (sim_qsize sim))
     then (case sim_q sim of
         [] \<Rightarrow> flow_control overhead sim
       | m # q \<Rightarrow> flow_control overhead (sim\<lparr>sim_q := q, sim_qsize := s32 (sim_qsize sim - packet_bits overhead m)\<rparr>))
     else Some sim)"

definition simulate_bandwidth_limit :: "timeval \<Rightarrow> nat \<Rightarrow> NetworkSimulatorCtx \<Rightarrow> bytes option \<Rightarrow> (bytes option \<times> NetworkSimulatorCtx) option" where
  "simulate_bandwidth_limit current overhead sim input = do {
     let sim1 = (if fst (last_check sim) = 0 then sim\<lparr>last_check := current, bit_budget := 0\<rparr> else sim);
     let elapsed = elapsed_us (last_check sim1) current;
     let sim2 = sim1\<lparr>bit_budget := s32 (bit_budget sim1 + c_div (s64 (elapsed * trunc (sim_max_bandwidth sim1))) 1000000), last_check := current\<rparr>;
     let sim3 = (case input of None \<Rightarrow> sim2
        | Some m \<Rightarrow> sim2\<lparr>sim_q := sim_q sim2 @ [m], sim_qsize := s32 (sim_qsize sim2 + packet_bits overhead m)\<rparr>);
     sim4 \<leftarrow> flow_control overhead sim3;
     let (out, sim5) = (if 0 \<le> bit_budget sim4
        then (case sim_q sim4 of [] \<Rightarrow> (None, sim4)
              | m # q \<Rightarrow> (Some m, sim4\<lparr>sim_q := q, bit_budget := s32 (bit_budget sim4 - packet_bits overhead m),
                                         sim_qsize := s32 (sim_qsize sim4 - packet_bits overhead m)\<rparr>))
        else (None, sim4));
     Some (out, if out = None \<and> input = None \<and> 0 \<le> bit_budget sim5
                then sim5\<lparr>last_check := (0, snd (last_check sim5))\<rparr> else sim5) }"

definition simulate_loss_rate :: "nat \<Rightarrow> bytes option \<Rightarrow> int \<Rightarrow> bytes option" where
  "simulate_loss_rate rand input rate = (if rate \<le> int (rand mod 101) then input else None)"

definition rtp_session_network_simulate ::
    "timeval \<Rightarrow> nat \<Rightarrow> RtpSession \<Rightarrow> bytes option \<Rightarrow> (bytes option \<times> RtpSession) option" where
  "rtp_session_network_simulate now rand session input = do {
     sim \<leftarrow> net_sim_ctx session;
     let om = (if 0 < sim_loss_rate sim then simulate_loss_rate rand input (cast_int (sim_loss_rate sim)) else None);
     if 0 < sim_max_bandwidth sim
     then map_option (\<lambda>(out, sim'). (out, session\<lparr>net_sim_ctx := Some sim'\<rparr>))
            (simulate_bandwidth_limit now (ip_overhead session) sim input)
     else Some (om, session) }"

section \<open>The queue and its size\<close>

definition queue_bits :: "nat \<Rightarrow> bytes list \<Rightarrow> int" where
  "queue_bits overhead q = sum_list (map (packet_bits overhead) q)"

definition sim_inv :: "nat \<Rightarrow> NetworkSimulatorCtx \<Rightarrow> bool" where
  "sim_inv overhead sim \<longleftrightarrow> sim_qsize sim = s32 (queue_bits overhead (sim_q sim))"

text \<open>The bandwidths and queues for which the counter cannot wrap around.\<close>

definition sim_small :: "nat \<Rightarrow> NetworkSimulatorCtx \<Rightarrow> bool" where
  "sim_small overhead sim \<longleftrightarrow> sim_max_bandwidth sim \<le> 2 ^ 30 \<and> queue_bits overhead (sim_q sim) < 2 ^ 30"

lemma queue_bits_simps [simp]:
  "queue_bits ov [] = 0" "queue_bits ov (m # q) = packet_bits ov m + queue_bits ov q"
  "queue_bits ov (q @ r) = queue_bits ov q + queue_bits ov r"
  by (simp_all add: queue_bits_def)

lemma queue_bits_nonneg: "0 \<le> queue_bits ov q"
  unfolding queue_bits_def packet_bits_def by (rule sum_list_nonneg) auto

lemma queue_bits_drop: "queue_bits ov (drop k q) \<le> queue_bits ov q"
  using queue_bits_simps(3) [of ov "take k q" "drop k q"] queue_bits_nonneg [of ov "take k q"] by simp

text \<open>Dropping ends, because an empty queue has size 0, and takes packets from the front only.\<close>

lemma flow_control_ok:
  assumes "sim_inv ov sim" and "0 < sim_max_bandwidth sim"
  shows "\<exists>k. flow_control ov sim = Some (sim\<lparr>sim_q := drop k (sim_q sim), sim_qsize := s32 (queue_bits ov (drop k (sim_q sim)))\<rparr>)
    \<and> f32 (of_int (s32 (queue_bits ov (drop k (sim_q sim))))) < sim_max_bandwidth sim
    \<and> (\<forall>j < k. sim_max_bandwidth sim \<le> f32 (of_int (s32 (queue_bits ov (drop j (sim_q sim))))))"
  using assms
proof (induction "sim_q sim" arbitrary: sim)
  case Nil
  then have "flow_control ov sim = Some sim" "sim_qsize sim = 0"
    by (simp_all add: flow_control.simps sim_inv_def f32_facts(1) s32_def flip: Nil(1))
  then show ?case using Nil by (intro exI [of _ 0]) (auto simp: f32_facts(1) s32_def)
next
  case (Cons m q)
  show ?case
  proof (cases "sim_max_bandwidth sim \<le> f32 (of_int (sim_qsize sim))")
    case False
    then have "flow_control ov sim = Some sim" by (simp add: flow_control.simps)
    then show ?thesis using False Cons.prems(1) by (intro exI [of _ 0]) (simp add: sim_inv_def not_le)
  next
    case True
    let ?s = "sim\<lparr>sim_q := q, sim_qsize := s32 (sim_qsize sim - packet_bits ov m)\<rparr>"
    have s: "flow_control ov sim = flow_control ov ?s" using True Cons(2) by (subst flow_control.simps) (simp flip: Cons(2))
    have inv: "sim_inv ov ?s" using Cons.prems(1) by (simp add: sim_inv_def s32_diff flip: Cons(2))
    obtain k where k: "flow_control ov ?s = Some (?s\<lparr>sim_q := drop k q, sim_qsize := s32 (queue_bits ov (drop k q))\<rparr>)"
        "f32 (of_int (s32 (queue_bits ov (drop k q)))) < sim_max_bandwidth sim"
        "\<forall>j < k. sim_max_bandwidth sim \<le> f32 (of_int (s32 (queue_bits ov (drop j q))))"
      using Cons(1) [of ?s, OF _ inv] Cons.prems(2) by auto
    show ?thesis
    proof (intro exI [of _ "Suc k"] conjI allI impI)
      show "flow_control ov sim = Some (sim\<lparr>sim_q := drop (Suc k) (sim_q sim), sim_qsize := s32 (queue_bits ov (drop (Suc k) (sim_q sim)))\<rparr>)"
        using s k(1) by (simp flip: Cons(2))
      show "f32 (of_int (s32 (queue_bits ov (drop (Suc k) (sim_q sim))))) < sim_max_bandwidth sim" using k(2) by (simp flip: Cons(2))
      show "sim_max_bandwidth sim \<le> f32 (of_int (s32 (queue_bits ov (drop j (sim_q sim)))))" if "j < Suc k" for j
        using that k(3) True Cons.prems(1) by (cases j) (auto simp: sim_inv_def simp flip: Cons(2))
    qed
  qed
qed

lemma simulate_bandwidth_ok:
  fixes ov :: nat and sim :: NetworkSimulatorCtx and input :: "bytes option"
  assumes "sim_inv ov sim" and "0 < sim_max_bandwidth sim"
  defines "given \<equiv> sim_q sim @ (case input of None \<Rightarrow> [] | Some m \<Rightarrow> [m])"
  shows "\<exists>out sim' k. simulate_bandwidth_limit now ov sim input = Some (out, sim') \<and> sim_inv ov sim'
    \<and> sim_max_bandwidth sim' = sim_max_bandwidth sim
    \<and> drop k given = (case out of None \<Rightarrow> [] | Some m \<Rightarrow> [m]) @ sim_q sim'
    \<and> f32 (of_int (s32 (queue_bits ov (drop k given)))) < sim_max_bandwidth sim
    \<and> (\<forall>j < k. sim_max_bandwidth sim \<le> f32 (of_int (s32 (queue_bits ov (drop j given)))))"
proof -
  define sim1 where "sim1 = (if fst (last_check sim) = 0 then sim\<lparr>last_check := now, bit_budget := 0\<rparr> else sim)"
  define sim2 where "sim2 = sim1\<lparr>bit_budget := s32 (bit_budget sim1 + c_div (s64 (elapsed_us (last_check sim1) now * trunc (sim_max_bandwidth sim1))) 1000000), last_check := now\<rparr>"
  define sim3 where "sim3 = (case input of None \<Rightarrow> sim2
        | Some m \<Rightarrow> sim2\<lparr>sim_q := sim_q sim2 @ [m], sim_qsize := s32 (sim_qsize sim2 + packet_bits ov m)\<rparr>)"
  have q3: "sim_q sim3 = given" "sim_max_bandwidth sim3 = sim_max_bandwidth sim" "sim_inv ov sim3"
    using assms(1) by (auto simp: sim3_def sim2_def sim1_def sim_inv_def given_def s32_add split: option.splits)
  obtain k where k: "flow_control ov sim3 = Some (sim3\<lparr>sim_q := drop k given, sim_qsize := s32 (queue_bits ov (drop k given))\<rparr>)"
      "f32 (of_int (s32 (queue_bits ov (drop k given)))) < sim_max_bandwidth sim"
      "\<forall>j < k. sim_max_bandwidth sim \<le> f32 (of_int (s32 (queue_bits ov (drop j given))))"
    using flow_control_ok [OF q3(3)] assms(2) by (auto simp: q3(1,2))
  let ?s4 = "sim3\<lparr>sim_q := drop k given, sim_qsize := s32 (queue_bits ov (drop k given))\<rparr>"
  define r where "r = (if 0 \<le> bit_budget ?s4
        then (case sim_q ?s4 of [] \<Rightarrow> (None, ?s4)
              | m # q \<Rightarrow> (Some m, ?s4\<lparr>sim_q := q, bit_budget := s32 (bit_budget ?s4 - packet_bits ov m),
                                         sim_qsize := s32 (sim_qsize ?s4 - packet_bits ov m)\<rparr>))
        else (None, ?s4))"
  have r: "drop k given = (case fst r of None \<Rightarrow> [] | Some m \<Rightarrow> [m]) @ sim_q (snd r)" "sim_inv ov (snd r)"
      "sim_max_bandwidth (snd r) = sim_max_bandwidth sim"
    by (auto simp: r_def sim_inv_def q3(2) s32_diff split: list.splits)
  define sim' where "sim' = (if fst r = None \<and> input = None \<and> 0 \<le> bit_budget (snd r)
                then (snd r)\<lparr>last_check := (0, snd (last_check (snd r)))\<rparr> else snd r)"
  have "simulate_bandwidth_limit now ov sim input = Some (fst r, sim')"
    unfolding simulate_bandwidth_limit_def Let_def sim1_def [symmetric] sim2_def [symmetric] sim3_def [symmetric] k(1) bind.bind_lunit
      r_def [symmetric] split_beta sim'_def [symmetric] by (rule refl)
  moreover have "sim_inv ov sim'" "sim_q sim' = sim_q (snd r)" "sim_max_bandwidth sim' = sim_max_bandwidth sim"
    using r(2,3) by (auto simp: sim'_def sim_inv_def)
  ultimately show ?thesis using r(1) k(2,3) by metis
qed

text \<open>With a bandwidth of at most \<open>2 ^ 30\<close> bits the sizes stay in \<open>int\<close>, and the counter is exact.\<close>

lemma sim_small_exact: "sim_inv ov sim \<Longrightarrow> sim_small ov sim \<Longrightarrow> sim_qsize sim = queue_bits ov (sim_q sim)"
  using queue_bits_nonneg [of ov "sim_q sim"] s32_id [of "queue_bits ov (sim_q sim)"] by (simp add: sim_inv_def sim_small_def)

lemma below_bandwidth:
  assumes "f32 (of_int (s32 b)) < w" "w \<le> 2 ^ 30" "0 \<le> b" "b < 2 ^ 31"
  shows "b < 2 ^ 30"
proof (rule ccontr)
  assume "\<not> b < 2 ^ 30"
  then have "(of_int (2 ^ 30) :: rat) \<le> of_int b" by (simp only: of_int_le_iff not_less)
  then have "f32 (of_int (2 ^ 30)) \<le> f32 (of_int b)" by (intro f32_facts(2))
  moreover have "f32 (of_int (2 ^ 30)) = of_int (2 ^ 30)"
    using fround_scale [of 24 "of_int 1" 30] fround_int [of 1 24] by (simp add: f32_def power_int_of_nat [of _ 30, simplified])
  moreover have "s32 b = b" using assms(3,4) by (intro s32_id) auto
  ultimately show False using assms(1,2) by simp
qed

section \<open>Properties\<close>

text \<open>C25: with a bandwidth set, a call of the simulator ends and conserves packets: what waited, followed by the input, is the
  oldest packets, dropped, then the output, if any, then what waits now. Packets leave in the order they came, none is duplicated,
  and each drop found the counter at the bandwidth or above. The counter is the number of bits waiting, kept as an \<open>int\<close> that wraps
  around; with a bandwidth of at most \<open>2 ^ 30\<close> bits per second and datagrams of at most 65535 bytes it is exactly that number, which
  stays below \<open>2 ^ 30\<close>.\<close>

theorem network_simulator_conserves_packets:
  assumes "sim_inv ov sim" and "0 < sim_max_bandwidth sim"
  shows "\<exists>out sim' dropped. simulate_bandwidth_limit now ov sim input = Some (out, sim') \<and> sim_inv ov sim'
    \<and> sim_q sim @ (case input of None \<Rightarrow> [] | Some m \<Rightarrow> [m]) = dropped @ (case out of None \<Rightarrow> [] | Some m \<Rightarrow> [m]) @ sim_q sim'
    \<and> (\<forall>us vs. dropped = us @ vs \<and> vs \<noteq> [] \<longrightarrow> sim_max_bandwidth sim \<le>
          f32 (of_int (s32 (queue_bits ov (vs @ (case out of None \<Rightarrow> [] | Some m \<Rightarrow> [m]) @ sim_q sim')))))
    \<and> (sim_small ov sim \<and> ov \<le> 48 \<and> (\<forall>m. input = Some m \<longrightarrow> length m \<le> 65535) \<longrightarrow>
          sim_small ov sim' \<and> sim_qsize sim' = queue_bits ov (sim_q sim'))"
proof -
  define given where "given = sim_q sim @ (case input of None \<Rightarrow> [] | Some m \<Rightarrow> [m])"
  obtain out sim' k where r: "simulate_bandwidth_limit now ov sim input = Some (out, sim')" "sim_inv ov sim'"
      "sim_max_bandwidth sim' = sim_max_bandwidth sim" "drop k given = (case out of None \<Rightarrow> [] | Some m \<Rightarrow> [m]) @ sim_q sim'"
      "f32 (of_int (s32 (queue_bits ov (drop k given)))) < sim_max_bandwidth sim"
      "\<forall>j < k. sim_max_bandwidth sim \<le> f32 (of_int (s32 (queue_bits ov (drop j given))))"
    using simulate_bandwidth_ok [OF assms, of now input] unfolding given_def by blast
  have split: "given = take k given @ (case out of None \<Rightarrow> [] | Some m \<Rightarrow> [m]) @ sim_q sim'"
    unfolding r(4) [symmetric] by simp
  have drops: "sim_max_bandwidth sim \<le> f32 (of_int (s32 (queue_bits ov (vs @ (case out of None \<Rightarrow> [] | Some m \<Rightarrow> [m]) @ sim_q sim'))))"
    if "take k given = us @ vs" "vs \<noteq> []" for us vs
  proof -
    have "length us < k" using that by (metis add.commute append_eq_conv_conj length_append length_greater_0_conv length_take less_add_same_cancel2 min_less_iff_conj)
    moreover have "drop (length us) given = vs @ (case out of None \<Rightarrow> [] | Some m \<Rightarrow> [m]) @ sim_q sim'"
      using split that(1) by (metis append.assoc append_eq_conv_conj)
    ultimately show ?thesis using r(6) by metis
  qed
  have small: "sim_small ov sim'" if "sim_small ov sim" "ov \<le> 48" "\<forall>m. input = Some m \<longrightarrow> length m \<le> 65535"
  proof -
    have "queue_bits ov (case input of None \<Rightarrow> [] | Some m \<Rightarrow> [m]) \<le> (65535 + 48) * 8"
      using that(2,3) by (cases input) (auto simp: packet_bits_def)
    then have "queue_bits ov given < 2 ^ 31" using that(1) by (simp add: given_def sim_small_def)
    then have "queue_bits ov (drop k given) < 2 ^ 31" using queue_bits_drop [of ov k given] by linarith
    then have "queue_bits ov (drop k given) < 2 ^ 30"
      using that(1) by (intro below_bandwidth [OF r(5) _ queue_bits_nonneg]) (simp_all add: sim_small_def)
    then show ?thesis using that(1) r(3,4) queue_bits_nonneg [of ov "case out of None \<Rightarrow> [] | Some m \<Rightarrow> [m]"]
      by (simp add: sim_small_def)
  qed
  show ?thesis
    using r(1,2) split drops small sim_small_exact [OF r(2)] unfolding given_def [symmetric]
    by (intro exI [of _ out] exI [of _ sim'] exI [of _ "take k given"]) blast
qed

definition demo_sim :: NetworkSimulatorCtx where
  "demo_sim = simulator_ctx_new\<lparr>sim_max_bandwidth := 512000\<rparr>"

theorem network_simulator_conserves_packets_witness:
  "\<exists>out sim' dropped. simulate_bandwidth_limit (1, 0) 28 demo_sim (Some [1, 2]) = Some (out, sim') \<and> sim_qsize sim' = queue_bits 28 (sim_q sim')
    \<and> [[1, 2]] = dropped @ (case out of None \<Rightarrow> [] | Some m \<Rightarrow> [m]) @ sim_q sim'"
proof -
  have d: "sim_inv 28 demo_sim" "0 < sim_max_bandwidth demo_sim" "sim_small 28 demo_sim" "sim_q demo_sim = []"
    by (simp_all add: demo_sim_def simulator_ctx_new_def sim_inv_def sim_small_def s32_def)
  from network_simulator_conserves_packets [OF d(1,2), of "(1, 0)" "Some [1, 2]"] d(3)
  show ?thesis unfolding d(4) by auto
qed

text \<open>The two simulations do not combine. With a bandwidth the packet that the loss simulation kept or dropped is
  replaced by the output of the bandwidth simulation, which is given every packet: no packet is lost, whatever the loss
  rate. With neither a bandwidth nor a loss rate every packet is lost, and with a loss rate of 100 one random number in
  101 still lets the packet pass.\<close>

theorem network_simulator_loss_is_ignored:
  assumes "net_sim_ctx session = Some sim"
  shows "(0 < sim_max_bandwidth sim \<longrightarrow> map_option fst (rtp_session_network_simulate now rand session input)
           = map_option fst (simulate_bandwidth_limit now (ip_overhead session) sim input))
    \<and> (sim_max_bandwidth sim = 0 \<longrightarrow> sim_loss_rate sim = 0 \<longrightarrow> rtp_session_network_simulate now rand session input = Some (None, session))
    \<and> (sim_max_bandwidth sim = 0 \<longrightarrow> sim_loss_rate sim = 100 \<longrightarrow> rand mod 101 = 100 \<longrightarrow>
         rtp_session_network_simulate now rand session input = Some (input, session))"
  using assms by (auto simp: rtp_session_network_simulate_def simulate_loss_rate_def option.map_comp split_beta' comp_def Let_def cast_int_def trunc_def)

theorem network_simulator_loss_is_ignored_witness:
  "let s = rtp_session_enable_network_simulation demo_session (True, 0, 100) in rtp_session_network_simulate (1, 0) 100 s (Some [1]) = Some (Some [1], s)"
proof -
  let ?s = "rtp_session_enable_network_simulation demo_session (True, 0, 100)"
  have "net_sim_ctx ?s = Some (simulator_ctx_new\<lparr>sim_max_bandwidth := 0, sim_loss_rate := 100\<rparr>)"
    by (simp add: rtp_session_enable_network_simulation_def demo_session_def)
  from network_simulator_loss_is_ignored [OF this, of "(1, 0)" 100 "Some [1]"] show ?thesis by (simp add: Let_def)
qed

end
