(* ===== verification/Rtp_Api.thy ===== *)
theory Rtp_Api
  imports Rtp_Parse
begin

text \<open>
  RTP packets as the application sees them: the wire format, the header API of \<open>ortp/src/rtpsession.c\<close> (contributing
  sources, payload, extension header) and the telephone events of \<open>ortp/src/telephonyevents.c\<close>. A packet is its header in
  host order and the bytes behind the header and the contributing sources.
\<close>

unbundle bit_operations_syntax

section \<open>The wire format\<close>

definition rtp_bytes :: "rtp_mblk \<Rightarrow> bytes" where
  "rtp_bytes m = (let h = rtp m in
     [push_bit 6 (version h) OR push_bit 5 (of_bool (padbit h)) OR push_bit 4 (of_bool (extbit h)) OR (of_nat (cc h) AND 15),
      push_bit 7 (of_bool (markbit h)) OR (of_nat (paytype h) AND 127)]
     @ be16_bytes (seq_number h) @ be32_bytes (timestamp h) @ be32_bytes (ssrc h) @ concat (map be32_bytes (csrc h)) @ body m)"

definition rtp_mblk_ok :: "rtp_mblk \<Rightarrow> bool" where
  "rtp_mblk_ok m \<longleftrightarrow> version (rtp m) = 2 \<and> cc (rtp m) = length (csrc (rtp m)) \<and> cc (rtp m) < 16 \<and> paytype (rtp m) < 128"

section \<open>The packet API\<close>

text \<open>\<open>csrc\<close> has room for 16 words, the last of which the 4-bit counter cannot count.\<close>

definition rtp_add_csrc :: "rtp_mblk \<Rightarrow> u32 \<Rightarrow> rtp_mblk" where
  "rtp_add_csrc mp c = (let h = rtp mp in mp\<lparr>rtp := h\<lparr>csrc := take (cc h) (csrc h) @ [c], cc := (cc h + 1) mod 16\<rparr>\<rparr>)"

text \<open>The profile, the offset of the extension behind the header, and its size in bytes.\<close>

definition rtp_get_extheader :: "rtp_mblk \<Rightarrow> (u16 \<times> nat \<times> nat) option" where
  "rtp_get_extheader packet =
    (if extbit (rtp packet) then
       if 4 \<le> length (body packet) then
         let h = read32 (body packet) 0; sz = unat (h AND 0xFFFF) * 4
         in if length (body packet) < 4 + sz then None else Some (ucast (drop_bit 16 h), 4, sz)
       else None
     else None)"

definition rtp_get_payload :: "rtp_mblk \<Rightarrow> bytes" where
  "rtp_get_payload packet = (case rtp_get_extheader packet of None \<Rightarrow> body packet | Some (_, _, sz) \<Rightarrow> drop (4 + sz) (body packet))"

section \<open>Telephone events\<close>

record telephone_event =
  tev_event :: u8
  tev_volume :: u8
  tev_R :: bool
  tev_E :: bool
  tev_duration :: u16

definition tev_bytes :: "telephone_event \<Rightarrow> bytes" where
  "tev_bytes t = [tev_event t, push_bit 7 (of_bool (tev_E t)) OR push_bit 6 (of_bool (tev_R t)) OR (tev_volume t AND 63)]
     @ be16_bytes (tev_duration t)"

definition tev_of :: "bytes \<Rightarrow> nat \<Rightarrow> telephone_event" where
  "tev_of bs i = \<lparr>tev_event = bs ! i, tev_volume = bs ! (i + 1) AND 63, tev_R = bit (bs ! (i + 1)) 6, tev_E = bit (bs ! (i + 1)) 7,
     tev_duration = read16 bs (i + 2)\<rparr>"

definition tevs_of :: "bytes \<Rightarrow> telephone_event list" where
  "tevs_of bs = map (\<lambda>i. tev_of bs (4 * i)) [0..<length bs div 4]"

definition telephone_event_mime :: string where
  "telephone_event_mime = ''telephone-event''"

text \<open>The functions that look the payload type up return the number for sending, the last one too.\<close>

definition rtp_session_telephone_events_supported :: "RtpSession \<Rightarrow> (int \<times> RtpSession) option" where
  "rtp_session_telephone_events_supported session = do {
     spt \<leftarrow> rtp_profile_get_payload_number_from_mime (dir_profile (snd_dir session)) telephone_event_mime;
     rpt \<leftarrow> rtp_profile_get_payload_number_from_mime (dir_profile (rcv_dir session)) telephone_event_mime;
     let s1 = session\<lparr>snd_dir := (snd_dir session)\<lparr>telephone_events_pt := spt\<rparr>,
                      rcv_dir := (rcv_dir session)\<lparr>telephone_events_pt := rpt\<rparr>\<rparr>;
     Some (telephone_events_pt (snd_dir s1), s1) }"

definition rtp_session_send_telephone_events_supported :: "RtpSession \<Rightarrow> (int \<times> RtpSession) option" where
  "rtp_session_send_telephone_events_supported session = do {
     spt \<leftarrow> rtp_profile_get_payload_number_from_mime (dir_profile (snd_dir session)) telephone_event_mime;
     let s1 = session\<lparr>snd_dir := (snd_dir session)\<lparr>telephone_events_pt := spt\<rparr>\<rparr>;
     Some (telephone_events_pt (snd_dir s1), s1) }"

definition rtp_session_recv_telephone_events_supported :: "RtpSession \<Rightarrow> (int \<times> RtpSession) option" where
  "rtp_session_recv_telephone_events_supported session = do {
     rpt \<leftarrow> rtp_profile_get_payload_number_from_mime (dir_profile (rcv_dir session)) telephone_event_mime;
     let s1 = session\<lparr>rcv_dir := (rcv_dir session)\<lparr>telephone_events_pt := rpt\<rparr>\<rparr>;
     Some (telephone_events_pt (snd_dir s1), s1) }"

text \<open>The sequence number and the timestamp are set when the packet is sent.\<close>

definition rtp_session_create_telephone_event_packet :: "RtpSession \<Rightarrow> bool \<Rightarrow> rtp_mblk option" where
  "rtp_session_create_telephone_event_packet session start =
    (if telephone_events_pt (snd_dir session) = -1 then None
     else Some \<lparr>rtp = \<lparr>version = 2, padbit = False, extbit = False, cc = 0, markbit = start,
       paytype = nat (telephone_events_pt (snd_dir session) mod 128), seq_number = 0, timestamp = 0, ssrc = dir_ssrc (snd_dir session),
       csrc = []\<rparr>, body = []\<rparr>)"

definition rtp_session_add_telephone_event :: "rtp_mblk \<Rightarrow> u8 \<Rightarrow> bool \<Rightarrow> u8 \<Rightarrow> u16 \<Rightarrow> rtp_mblk" where
  "rtp_session_add_telephone_event packet event e volume duration =
     packet\<lparr>body := body packet @ tev_bytes \<lparr>tev_event = event, tev_volume = volume, tev_R = False, tev_E = e, tev_duration = duration\<rparr>\<rparr>"

text \<open>The events of a packet, with their durations in host order.\<close>

definition rtp_session_read_telephone_event :: "RtpSession \<Rightarrow> rtp_mblk \<Rightarrow> telephone_event list" where
  "rtp_session_read_telephone_event session packet =
    (if int (paytype (rtp packet)) \<noteq> telephone_events_pt (rcv_dir session) then [] else tevs_of (rtp_get_payload packet))"

definition notify_tev :: "RtpSession \<Rightarrow> telephone_event \<Rightarrow> RtpSession" where
  "notify_tev session ev =
    (let s1 = emit session (Telephone_event (tev_event ev))
     in case current_tev s1 of Some c \<Rightarrow> if eventqs s1 \<noteq> 0 then emit s1 (Tev_dispatched c (tev_event ev)) else s1
        | None \<Rightarrow> s1)"

definition notify_events_ended :: "RtpSession \<Rightarrow> telephone_event list \<Rightarrow> RtpSession" where
  "notify_events_ended session evs = foldl (\<lambda>s ev. if tev_E ev then notify_tev s ev else s) session evs"

text \<open>Setting the end bit of event \<open>i\<close> in a stored packet.\<close>

definition set_tev_E :: "rtp_mblk \<Rightarrow> nat \<Rightarrow> rtp_mblk" where
  "set_tev_E m i = (let p = length (body m) - length (rtp_get_payload m) + 4 * i + 1
     in m\<lparr>body := (body m)[p := body m ! p OR 0x80]\<rparr>)"

fun tev_loop :: "telephone_event list \<Rightarrow> telephone_event list \<Rightarrow> nat \<Rightarrow> RtpSession \<Rightarrow> RtpSession" where
  "tev_loop (e # es) (b # bs) i session =
    (let s1 = (if tev_E e \<and> \<not> tev_E b
               then notify_tev (session\<lparr>current_tev := map_option (\<lambda>m. set_tev_E m i) (current_tev session)\<rparr>) e else session)
     in tev_loop es bs (Suc i) s1)"
| "tev_loop _ _ i session = session"

definition rtp_session_check_telephone_events :: "RtpSession \<Rightarrow> rtp_mblk \<Rightarrow> RtpSession" where
  "rtp_session_check_telephone_events session m0 =
    (let evs = tevs_of (rtp_get_payload m0);
         s1 = (if markbit (rtp m0) then notify_events_ended (session\<lparr>current_tev := Some m0\<rparr>) evs else session)
     in case current_tev s1 of
          Some c \<Rightarrow> if timestamp (rtp c) = timestamp (rtp m0) then tev_loop evs (tevs_of (rtp_get_payload c)) 0 s1
                    else notify_events_ended (s1\<lparr>current_tev := Some m0\<rparr>) evs
        | None \<Rightarrow> notify_events_ended (s1\<lparr>current_tev := Some m0\<rparr>) evs)"

section \<open>The wire format is read back\<close>

lemma header_bits:
  fixes c p :: u8
  shows "drop_bit 6 (push_bit 6 2 OR push_bit 5 (of_bool pd) OR push_bit 4 (of_bool x) OR (c AND 15)) = (2 :: u8)"
    and "bit (push_bit 6 2 OR push_bit 5 (of_bool pd) OR push_bit 4 (of_bool x) OR (c AND 15) :: u8) 5 = pd"
    and "bit (push_bit 6 2 OR push_bit 5 (of_bool pd) OR push_bit 4 (of_bool x) OR (c AND 15) :: u8) 4 = x"
    and "(push_bit 6 2 OR push_bit 5 (of_bool pd) OR push_bit 4 (of_bool x) OR (c AND 15)) AND 15 = (c AND 15 :: u8)"
    and "bit (push_bit 7 (of_bool mk) OR (p AND 127) :: u8) 7 = mk"
    and "(push_bit 7 (of_bool mk) OR (p AND 127)) AND 127 = (p AND 127 :: u8)"
proof -
  have e: "y AND 15 = take_bit 4 y" "y AND 127 = take_bit 7 y" for y :: u8
    by (simp_all add: take_bit_eq_mask mask_eq_exp_minus_1)
  have two: "bit (2 :: u8) n \<longleftrightarrow> n = 1" for n using bit_double_iff [of "1 :: u8" n] by (auto simp: bit_simps)
  show "drop_bit 6 (push_bit 6 2 OR push_bit 5 (of_bool pd) OR push_bit 4 (of_bool x) OR (c AND 15)) = (2 :: u8)"
    unfolding e by (rule bit_word_eqI) (auto simp: bit_simps two)
  show "bit (push_bit 6 2 OR push_bit 5 (of_bool pd) OR push_bit 4 (of_bool x) OR (c AND 15) :: u8) 5 = pd"
    "bit (push_bit 6 2 OR push_bit 5 (of_bool pd) OR push_bit 4 (of_bool x) OR (c AND 15) :: u8) 4 = x"
    "bit (push_bit 7 (of_bool mk) OR (p AND 127) :: u8) 7 = mk"
    unfolding e by (auto simp: bit_simps two)
  show "(push_bit 6 2 OR push_bit 5 (of_bool pd) OR push_bit 4 (of_bool x) OR (c AND 15)) AND 15 = (c AND 15 :: u8)"
    "(push_bit 7 (of_bool mk) OR (p AND 127)) AND 127 = (p AND 127 :: u8)"
    unfolding e by (rule bit_word_eqI; auto simp: bit_simps two)+
qed

lemma unat_low_bits: "k < 16 \<Longrightarrow> unat (of_nat k AND 15 :: u8) = k" "k < 128 \<Longrightarrow> unat (of_nat k AND 127 :: u8) = k"
proof -
  have e: "y AND 15 = take_bit 4 y" "y AND 127 = take_bit 7 y" for y :: u8
    by (simp_all add: take_bit_eq_mask mask_eq_exp_minus_1)
  show "k < 16 \<Longrightarrow> unat (of_nat k AND 15 :: u8) = k" "k < 128 \<Longrightarrow> unat (of_nat k AND 127 :: u8) = k"
    by (simp only: e unsigned_take_bit_eq, simp add: unat_of_nat take_bit_eq_mod)+
qed

lemma read32_words: "k < length ws \<Longrightarrow> read32 (p @ concat (map be32_bytes ws) @ r) (length p + 4 * k) = ws ! k"
proof (induction ws arbitrary: p k)
  case (Cons w ws)
  show ?case
  proof (cases k)
    case 0
    then show ?thesis using read32_at [of p "length p" w "concat (map be32_bytes ws) @ r"] by simp
  next
    case (Suc j)
    then show ?thesis using Cons.IH [of j "p @ be32_bytes w"] Cons.prems by (simp add: ac_simps)
  qed
qed simp

lemma concat_words_length: "length (concat (map be32_bytes ws)) = 4 * length ws"
  by (induction ws) auto

lemma rtp_bytes_read:
  assumes "rtp_mblk_ok m"
  shows "rtp_mblk_of (rtp_bytes m) = m" and "12 + 4 * cc (rtp m) \<le> length (rtp_bytes m)"
proof -
  obtain h bd where m: "m = \<lparr>rtp = h, body = bd\<rparr>" by (cases m)
  have ok: "version h = 2" "cc h = length (csrc h)" "cc h < 16" "paytype h < 128" using assms by (auto simp: rtp_mblk_ok_def m)
  let ?b0 = "push_bit 6 2 OR push_bit 5 (of_bool (padbit h)) OR push_bit 4 (of_bool (extbit h)) OR (of_nat (cc h) AND 15) :: u8"
  let ?b1 = "push_bit 7 (of_bool (markbit h)) OR (of_nat (paytype h) AND 127) :: u8"
  have bs: "rtp_bytes m = [?b0, ?b1] @ be16_bytes (seq_number h) @ be32_bytes (timestamp h) @ be32_bytes (ssrc h)
     @ concat (map be32_bytes (csrc h)) @ bd"
    by (simp only: rtp_bytes_def m rtp_mblk.simps Let_def ok(1))
  have n: "rtp_bytes m ! 0 = ?b0" "rtp_bytes m ! 1 = ?b1" unfolding bs by (simp_all only: append_Cons nth_Cons_0 nth_Cons_Suc One_nat_def)
  have r: "read16 (rtp_bytes m) 2 = seq_number h" "read32 (rtp_bytes m) 4 = timestamp h" "read32 (rtp_bytes m) 8 = ssrc h"
    unfolding bs using read16_at [of "[?b0, ?b1]" 2] read32_at [of "[?b0, ?b1] @ be16_bytes (seq_number h)" 4]
      read32_at [of "[?b0, ?b1] @ be16_bytes (seq_number h) @ be32_bytes (timestamp h)" 8] by simp_all
  have c: "map (\<lambda>i. read32 (rtp_bytes m) (12 + 4 * i)) [0..<cc h] = csrc h"
    unfolding bs using read32_words [of _ "csrc h" "[?b0, ?b1] @ be16_bytes (seq_number h) @ be32_bytes (timestamp h) @ be32_bytes (ssrc h)" bd]
    by (intro nth_equalityI) (simp_all add: ok(2))
  have d: "drop (12 + 4 * cc h) (rtp_bytes m) = bd"
  proof -
    define P where "P = [?b0, ?b1] @ be16_bytes (seq_number h) @ be32_bytes (timestamp h) @ be32_bytes (ssrc h) @ concat (map be32_bytes (csrc h))"
    have "length P = 12 + 4 * cc h" unfolding P_def by (simp add: ok(2) concat_words_length)
    moreover have "rtp_bytes m = P @ bd" unfolding P_def bs by (simp only: append_assoc)
    ultimately show ?thesis by simp
  qed
  show "rtp_mblk_of (rtp_bytes m) = m"
    unfolding rtp_mblk_of_def rtp_header_of_def n header_bits unat_low_bits(1) [OF ok(3)] unat_low_bits(2) [OF ok(4)] r c RTP_FIXED_HEADER_SIZE_def d
    by (cases h) (use ok in \<open>simp add: m\<close>)
  show "12 + 4 * cc (rtp m) \<le> length (rtp_bytes m)" unfolding bs by (simp add: m ok(2) concat_words_length)
qed

section \<open>One event per packet\<close>

text \<open>A packet that holds the single event \<open>e\<close>, without extension.\<close>

definition tev_packet :: "u8 \<Rightarrow> u32 \<Rightarrow> rtp_mblk \<Rightarrow> bool" where
  "tev_packet e t p \<longleftrightarrow> timestamp (rtp p) = t \<and> \<not> extbit (rtp p) \<and> length (body p) = 4 \<and> body p ! 0 = e"

definition tev_ended :: "rtp_mblk \<Rightarrow> bool" where
  "tev_ended p = bit (body p ! 1) 7"

definition tev_count :: "u8 \<Rightarrow> RtpSession \<Rightarrow> nat" where
  "tev_count e s = length (filter (\<lambda>ev. ev = Telephone_event e) (events s))"

lemma tev_packet_events: "tev_packet e t p \<Longrightarrow> tevs_of (rtp_get_payload p) = [tev_of (body p) 0]"
  by (simp add: tev_packet_def rtp_get_payload_def rtp_get_extheader_def tevs_of_def)

lemma tev_packet_fields: "tev_packet e t p \<Longrightarrow> tev_E (tev_of (body p) 0) = tev_ended p \<and> tev_event (tev_of (body p) 0) = e"
  by (simp add: tev_packet_def tev_ended_def tev_of_def)

lemma notify_tev_effect:
  "current_tev (notify_tev s ev) = current_tev s" "tev_count e (notify_tev s ev) = tev_count e s + of_bool (tev_event ev = e)"
  by (auto simp: notify_tev_def emit_def tev_count_def Let_def split: option.splits)

lemma notify_ended_effect:
  "tev_packet e t p \<Longrightarrow> current_tev (notify_events_ended s [tev_of (body p) 0]) = current_tev s
     \<and> tev_count e (notify_events_ended s [tev_of (body p) 0]) = tev_count e s + of_bool (tev_ended p)"
  using tev_packet_fields [of e t p] by (simp add: notify_events_ended_def notify_tev_effect)

lemma set_tev_E_packet:
  assumes "tev_packet e t c"
  shows "tev_packet e t (set_tev_E c 0)" and "tev_ended (set_tev_E c 0)"
proof -
  have "rtp_get_payload c = body c" using assms by (simp add: tev_packet_def rtp_get_payload_def rtp_get_extheader_def)
  moreover have "bit (x OR 0x80 :: u8) 7" for x by (simp add: bit_simps)
  ultimately show "tev_packet e t (set_tev_E c 0)" "tev_ended (set_tev_E c 0)"
    using assms by (auto simp: tev_packet_def tev_ended_def set_tev_E_def Let_def)
qed

text \<open>What is known after some packets of the event: the stored packet says whether its end was reported.\<close>

definition tev_tracks :: "u8 \<Rightarrow> u32 \<Rightarrow> nat \<Rightarrow> RtpSession \<Rightarrow> bool" where
  "tev_tracks e t n s \<longleftrightarrow> (\<exists>c. current_tev s = Some c \<and> tev_packet e t c \<and> tev_count e s = n + of_bool (tev_ended c))"

lemma tev_ended_tracks: "tev_tracks e t n s \<Longrightarrow> \<exists>c. current_tev s = Some c \<and> tev_count e s = n + of_bool (tev_ended c)"
  by (auto simp: tev_tracks_def)

lemma tev_count_current [simp]: "tev_count e (s\<lparr>current_tev := c\<rparr>) = tev_count e s"
  by (simp add: tev_count_def)

lemma check_first:
  assumes "tev_packet e t p" and "markbit (rtp p) \<or> (\<forall>c. current_tev s = Some c \<longrightarrow> timestamp (rtp c) \<noteq> t)" and "tev_count e s = n"
  shows "tev_tracks e t n (rtp_session_check_telephone_events s p)
    \<and> map_option tev_ended (current_tev (rtp_session_check_telephone_events s p)) = Some (tev_ended p)"
proof -
  note ev = tev_packet_events [OF assms(1)] and nf = notify_ended_effect [OF assms(1), of "s\<lparr>current_tev := Some p\<rparr>"]
  let ?s = "notify_events_ended (s\<lparr>current_tev := Some p\<rparr>) [tev_of (body p) 0]"
  have cur: "current_tev ?s = Some p" "tev_count e ?s = n + of_bool (tev_ended p)" using nf assms(3) by simp_all
  have "rtp_session_check_telephone_events s p = ?s"
  proof (cases "markbit (rtp p)")
    case True
    then show ?thesis by (simp add: rtp_session_check_telephone_events_def ev cur(1) Let_def)
  next
    case False
    then show ?thesis using assms(1,2)
      by (auto simp: rtp_session_check_telephone_events_def ev Let_def tev_packet_def split: option.splits)
  qed
  then show ?thesis using cur assms(1) by (auto simp: tev_tracks_def)
qed

lemma check_next:
  assumes "tev_packet e t p" and "\<not> markbit (rtp p)" and "tev_tracks e t n s"
  shows "tev_tracks e t n (rtp_session_check_telephone_events s p)
    \<and> map_option tev_ended (current_tev (rtp_session_check_telephone_events s p))
      = map_option (\<lambda>c. tev_ended c \<or> tev_ended p) (current_tev s)"
proof -
  obtain c where c: "current_tev s = Some c" "tev_packet e t c" "tev_count e s = n + of_bool (tev_ended c)"
    using assms(3) by (auto simp: tev_tracks_def)
  note ev = tev_packet_events [OF assms(1)] tev_packet_events [OF c(2)]
  note fp = tev_packet_fields [OF assms(1)] and fc = tev_packet_fields [OF c(2)]
  have r: "rtp_session_check_telephone_events s p = (if tev_ended p \<and> \<not> tev_ended c
      then notify_tev (s\<lparr>current_tev := Some (set_tev_E c 0)\<rparr>) (tev_of (body p) 0) else s)"
    using assms(1,2) c fp fc by (simp add: rtp_session_check_telephone_events_def ev tev_packet_def Let_def)
  show ?thesis
  proof (cases "tev_ended p \<and> \<not> tev_ended c")
    case True
    then show ?thesis using r c set_tev_E_packet [OF c(2)] fp by (simp add: tev_tracks_def notify_tev_effect)
  next
    case False
    then show ?thesis using r c assms(3) by auto
  qed
qed

lemma check_rest:
  assumes "\<forall>p \<in> set ps. tev_packet e t p \<and> \<not> markbit (rtp p)" and "tev_tracks e t n s"
  shows "tev_count e (foldl rtp_session_check_telephone_events s ps)
    = n + of_bool ((\<exists>c. current_tev s = Some c \<and> tev_ended c) \<or> (\<exists>p \<in> set ps. tev_ended p))"
  using assms
proof (induction ps arbitrary: s)
  case Nil
  then show ?case by (auto simp: tev_tracks_def)
next
  case (Cons p ps)
  obtain c where c: "current_tev s = Some c" using Cons.prems(2) by (auto simp: tev_tracks_def)
  let ?s = "rtp_session_check_telephone_events s p"
  have n: "tev_tracks e t n ?s" "map_option tev_ended (current_tev ?s) = map_option (\<lambda>c. tev_ended c \<or> tev_ended p) (current_tev s)"
    using check_next [of e t p n s] Cons.prems by auto
  have "(\<exists>c'. current_tev ?s = Some c' \<and> tev_ended c') \<longleftrightarrow> tev_ended c \<or> tev_ended p" using n(2) c by (cases "current_tev ?s") auto
  then show ?case using Cons.IH [OF _ n(1)] Cons.prems(1) c by auto
qed

section \<open>Two half words\<close>

lemma be16_pair: "be16_bytes a @ be16_bytes b = be32_bytes (push_bit 16 (ucast a) OR ucast b)"
proof -
  let ?w = "push_bit 16 (ucast a) OR ucast b :: u32"
  have "ucast (drop_bit 24 ?w) = (ucast (drop_bit 8 a) :: u8)" "ucast (drop_bit 16 ?w) = (ucast a :: u8)"
    "ucast (drop_bit 8 ?w) = (ucast (drop_bit 8 b) :: u8)" "ucast ?w = (ucast b :: u8)"
    by (rule bit_word_eqI; auto simp: bit_simps dest: bit_imp_le_length)+
  then show ?thesis unfolding be16_bytes_def be32_bytes_def by (simp only: append_Cons append_Nil)
qed

lemma half_words:
  "(push_bit 16 (ucast a) OR ucast b) AND 0xFFFF = (ucast (b :: u16) :: u32)"
  "ucast (drop_bit 16 (push_bit 16 (ucast a) OR ucast (b :: u16) :: u32)) = (a :: u16)"
proof -
  have e: "x AND 0xFFFF = take_bit 16 x" for x :: u32 by (simp add: take_bit_eq_mask mask_eq_exp_minus_1)
  show "(push_bit 16 (ucast a) OR ucast b) AND 0xFFFF = (ucast (b :: u16) :: u32)"
    unfolding e by (rule bit_word_eqI) (auto simp: bit_simps dest: bit_imp_le_length)
  show "ucast (drop_bit 16 (push_bit 16 (ucast a) OR ucast (b :: u16) :: u32)) = (a :: u16)"
    by (rule bit_word_eqI) (auto simp: bit_simps dest: bit_imp_le_length)
qed

section \<open>Properties\<close>

text \<open>The packets of one telephone event. Whatever packets of it arrive (at least one, the first of them the marked one or
  belonging to no event seen before), in whatever number, repeated or with losses, the application is told of the event
  exactly once if one of them has the end bit, and not at all otherwise.\<close>

theorem telephone_event_reported_once:
  assumes "\<forall>q \<in> set (p # ps). tev_packet e t q" and "\<forall>q \<in> set ps. \<not> markbit (rtp q)"
    and "markbit (rtp p) \<or> (\<forall>c. current_tev s = Some c \<longrightarrow> timestamp (rtp c) \<noteq> t)"
  shows "tev_count e (foldl rtp_session_check_telephone_events s (p # ps)) = tev_count e s + of_bool (\<exists>q \<in> set (p # ps). tev_ended q)"
proof -
  have f: "tev_tracks e t (tev_count e s) (rtp_session_check_telephone_events s p)"
    "map_option tev_ended (current_tev (rtp_session_check_telephone_events s p)) = Some (tev_ended p)"
    using check_first [OF _ assms(3) refl, of e] assms(1) by auto
  have "(\<exists>c. current_tev (rtp_session_check_telephone_events s p) = Some c \<and> tev_ended c) \<longleftrightarrow> tev_ended p"
    using f(2) by (cases "current_tev (rtp_session_check_telephone_events s p)") auto
  then show ?thesis using check_rest [OF _ f(1), of ps] assms(1,2) by auto
qed

definition demo_tev :: "bool \<Rightarrow> bool \<Rightarrow> rtp_mblk" where
  "demo_tev start e = rtp_session_add_telephone_event (the (rtp_session_create_telephone_event_packet
     (demo_session\<lparr>snd_dir := demo_dir\<lparr>telephone_events_pt := 101\<rparr>\<rparr>) start)) 5 e 10 160"

theorem telephone_event_reported_once_witness:
  "tev_count 5 (foldl rtp_session_check_telephone_events demo_session [demo_tev True False, demo_tev False True, demo_tev False True, demo_tev False True]) = 1"
proof -
  have p: "tev_packet 5 0 (demo_tev a b)" "markbit (rtp (demo_tev a b)) = a" "tev_ended (demo_tev a b) = b" for a b
    by (cases b; simp add: demo_tev_def tev_packet_def tev_ended_def rtp_session_create_telephone_event_packet_def
        rtp_session_add_telephone_event_def tev_bytes_def be16_bytes_def)+
  have "tev_count 5 demo_session = 0" by (simp add: tev_count_def demo_session_def)
  then show ?thesis
    using telephone_event_reported_once [of "demo_tev True False" "[demo_tev False True, demo_tev False True, demo_tev False True]" 5 0 demo_session] p
    by simp
qed

text \<open>A packet on the wire is read back: header fields, contributing sources and what follows. When the extension bit is
  set and the extension announces exactly the words that follow, the payload is what stands behind the extension.\<close>

theorem rtp_packet_roundtrip:
  assumes "rtp_mblk_ok m" and "extbit (rtp m)" and "length ext < 65536"
    and "body m = be16_bytes prof @ be16_bytes (of_nat (length ext)) @ concat (map be32_bytes ext) @ payl"
  shows "rtp_mblk_of (rtp_bytes m) = m \<and> rtp_get_extheader m = Some (prof, 4, 4 * length ext) \<and> rtp_get_payload m = payl"
proof -
  let ?n = "of_nat (length ext) :: u16"
  have b: "body m = be32_bytes (push_bit 16 (ucast prof) OR ucast ?n) @ concat (map be32_bytes ext) @ payl"
    unfolding assms(4) be16_pair [symmetric] append_assoc ..
  have w: "read32 (body m) 0 = push_bit 16 (ucast prof) OR ucast ?n" unfolding b by (rule read32_at [OF list.size(3), unfolded append_Nil])
  have n: "unat (ucast ?n :: u32) = length ext" using assms(3) by (simp add: unsigned_ucast_eq unat_of_nat take_bit_nat_eq_self)
  have l: "length (body m) = 4 + 4 * length ext + length payl" by (simp add: b concat_words_length)
  have x: "rtp_get_extheader m = Some (prof, 4, 4 * length ext)"
    unfolding rtp_get_extheader_def w Let_def half_words n using assms(2) l by simp
  have "drop (4 + 4 * length ext) (body m) = payl" unfolding b by (simp add: concat_words_length)
  then show ?thesis using rtp_bytes_read(1) [OF assms(1)] x by (simp add: rtp_get_payload_def)
qed

theorem rtp_packet_roundtrip_witness:
  "rtp_get_payload \<lparr>rtp = \<lparr>version = 2, padbit = False, extbit = True, cc = 1, markbit = True, paytype = 96, seq_number = 7, timestamp = 160,
      ssrc = 1, csrc = [9]\<rparr>, body = be16_bytes 0xBEDE @ be16_bytes (of_nat (length [1 :: u32])) @ concat (map be32_bytes [1]) @ [4, 5]\<rparr> = [4, 5]"
  using rtp_packet_roundtrip [of "\<lparr>rtp = \<lparr>version = 2, padbit = False, extbit = True, cc = 1, markbit = True, paytype = 96, seq_number = 7,
      timestamp = 160, ssrc = 1, csrc = [9]\<rparr>, body = be16_bytes 0xBEDE @ be16_bytes (of_nat (length [1 :: u32])) @ concat (map be32_bytes [1]) @ [4, 5]\<rparr>"
      "[1]" "0xBEDE" "[4, 5]"]
  by (simp add: rtp_mblk_ok_def)

end
