(* ===== verification/Rtp_Io.thy ===== *)
theory Rtp_Io
  imports Rtcp_Session Net_Sim Rtp_Api Av_Profile
begin

text \<open>
  Sending and receiving in a session: \<open>rtp_session_init\<close>, \<open>rtp_session_sendm_with_ts\<close>, \<open>rtp_session_recvm_with_ts\<close> and what
  they call in \<open>ortp/src/rtpsession.c\<close> and \<open>ortp/src/rtpsession_inet.c\<close>, and the sending of DTMF digits in
  \<open>ortp/src/telephonyevents.c\<close>. What lies outside a call is an environment: the time of day, the time of the scheduler,
  the results of \<open>sendto\<close>, \<open>connect\<close> and \<open>errno\<close>, whether the sockets fail once they are empty, and the datagrams waiting at the two sockets, each with its sender and
  the random number that the network simulator would draw for it. The session's bits in the scheduler's masks are in the
  session. A call that crashes or does not end is \<open>None\<close>.
\<close>

unbundle bit_operations_syntax

section \<open>The environment of a call\<close>

record Env =
  env_now :: timeval
  env_sched :: u32
  env_rtp_net :: "bytes \<Rightarrow> int"
  env_rtcp_net :: "bytes \<Rightarrow> int"
  env_errno :: int
  env_connect :: bool
  env_recv_fails :: bool
  env_rtcp_err :: "int option"
  env_rtp_in :: "(bytes \<times> bytes \<times> nat) list"
  env_rtcp_in :: "(bytes \<times> bytes) list"
  env_rand :: nat

text \<open>The environment once everything that waited has been read.\<close>

definition drained :: "Env \<Rightarrow> Env" where
  "drained env = env\<lparr>env_rtp_in := [], env_rtcp_in := []\<rparr>"

section \<open>Creation\<close>

definition RTP_SESSION_RECVONLY :: int where "RTP_SESSION_RECVONLY = 0"
definition RTP_SESSION_SENDONLY :: int where "RTP_SESSION_SENDONLY = 1"
definition RTP_SESSION_SENDRECV :: int where "RTP_SESSION_SENDRECV = 2"

text \<open>The session that \<open>memset\<close> leaves, with the profile it is given next.\<close>

definition zero_session :: "RtpProfile \<Rightarrow> RtpSession" where
  "zero_session prof = (let d = \<lparr>dir_profile = prof, dir_pt = 0, dir_ssrc = 0, dir_wp = wait_point_init, telephone_events_pt = 0\<rparr> in
    \<lparr>snd_dir = d, rcv_dir = d, inc_ssrc_candidate = 0, inc_same_ssrc_count = 0, hw_recv_pt = 0, eventqs = 0, events = [],
     rstream = \<lparr>rtp_socket = 0, rtp_tr = False, sockfamily6 = False, max_rq_size = 0, time_jump = 0, ts_jump = 0, rq = [], tev_rq = [],
       rem_addr = [],
       jittctl = \<lparr>jc_count = 0, jitt_comp = 0, jitt_comp_ts = 0, adapt_jitt_comp_ts = 0, slide = 0, prev_slide = 0, jitter = 0,
         olddiff = 0, inter_jitter = 0, corrective_step = 0, corrective_slide = 0, cum_jitter_buffer_size = 0,
         cum_jitter_buffer_count = 0, jc_clock_rate = 0, adaptive = False, enabled = False\<rparr>,
       sstate = \<lparr>snd_time_offset = 0, snd_ts_offset = 0, snd_rand_offset = 0, snd_last_ts = 0, snd_seq = 0,
         last_rtcp_packet_count = 0, sent_payload_bytes = 0, send_errno = 0\<rparr>,
       rstate = \<lparr>rcv_time_offset = 0, rcv_ts_offset = 0, rcv_query_ts_offset = 0, rcv_last_ts = 0, rcv_last_app_ts = 0,
         rcv_last_ret_ts = 0, hwrcv_extseq = 0, hwrcv_seq_at_last_SR = 0, hwrcv_since_last_SR = 0, last_rcv_SR_ts = 0,
         last_rcv_SR_time = (0, 0), recv_errno = 0\<rparr>,
       sent_bytes = 0, send_bw_start = (0, 0), recv_bytes = 0, recv_bw_start = (0, 0), stats = rtp_stats_reset, ssrc_changed_thres = 0,
       jstats = \<lparr>js_jitter = 0, js_max_jitter = 0, js_sum_jitter = 0, js_max_jitter_ts = 0, js_jitter_buffer_size_ms = 0\<rparr>\<rparr>,
     rtcp = \<lparr>rtcp_socket = 0, rtcp_tr = False, rtcp_rem_addr = [], rtcp_interval = 0, last_rtcp_report_snt_r = 0,
       last_rtcp_report_snt_s = 0, rtcp_report_snt_interval_r = 0, rtcp_report_snt_interval_s = 0, rtcp_enabled = False\<rparr>,
     session_mode = 0, flags = 0, last_recv_time = (0, 0), symmetric_rtp = False, permissive = False, use_connect = False, ssrc_set = False,
     sd = None, contributing_sources = [], lost_packets_test_vector = 0, interarrival_jitter_test_vector = 0, delay_test_vector = 0,
     rtt = 0, pending = None, current_tev = None, rtp_sent = [], rtcp_sent = [], net_sim_ctx = None,
     w_session_bit = False, r_session_bit = False\<rparr>)"

definition rtp_session_set_profile :: "RtpSession \<Rightarrow> RtpProfile \<Rightarrow> RtpSession option" where
  "rtp_session_set_profile session profile = map_option snd (rtp_session_telephone_events_supported
     (session\<lparr>snd_dir := (snd_dir session)\<lparr>dir_profile := profile\<rparr>, rcv_dir := (rcv_dir session)\<lparr>dir_profile := profile\<rparr>\<rparr>))"

definition rtp_session_set_send_profile :: "RtpSession \<Rightarrow> RtpProfile \<Rightarrow> RtpSession option" where
  "rtp_session_set_send_profile session profile = map_option snd (rtp_session_send_telephone_events_supported
     (session\<lparr>snd_dir := (snd_dir session)\<lparr>dir_profile := profile\<rparr>\<rparr>))"

definition rtp_session_set_recv_profile :: "RtpSession \<Rightarrow> RtpProfile \<Rightarrow> RtpSession option" where
  "rtp_session_set_recv_profile session profile = map_option snd (rtp_session_recv_telephone_events_supported
     (session\<lparr>rcv_dir := (rcv_dir session)\<lparr>dir_profile := profile\<rparr>\<rparr>))"

definition rtp_session_enable_rtcp :: "RtpSession \<Rightarrow> bool \<Rightarrow> RtpSession" where
  "rtp_session_enable_rtcp session yesno = session\<lparr>rtcp := (rtcp session)\<lparr>rtcp_enabled := yesno\<rparr>\<rparr>"

text \<open>\<open>rnd\<close> is the random source number, \<open>tool\<close> the string with the version of the library, \<open>prof\<close> the global
  \<open>av_profile\<close>.\<close>

definition rtp_session_init :: "u32 \<Rightarrow> bytes \<Rightarrow> RtpProfile \<Rightarrow> int \<Rightarrow> RtpSession option" where
  "rtp_session_init rnd tool prof mode = do {
     let s0 = (zero_session prof)\<lparr>session_mode := mode\<rparr>;
     let s1 = (if mode = RTP_SESSION_RECVONLY \<or> mode = RTP_SESSION_SENDRECV
        then rtp_session_set_flag (rtp_session_set_flag s0 RTP_SESSION_RECV_SYNC) RTP_SESSION_RECV_NOT_STARTED else s0);
     s2 \<leftarrow> (if mode = RTP_SESSION_SENDONLY \<or> mode = RTP_SESSION_SENDRECV
        then let s' = rtp_session_set_flag s1 RTP_SESSION_SEND_NOT_STARTED
             in rtp_session_set_source_description (s'\<lparr>snd_dir := (snd_dir s')\<lparr>dir_ssrc := rnd\<rparr>\<rparr>)
                  (Some (map (of_nat \<circ> of_char) ''unknown@unknown'')) None None None None (Some tool) None
        else Some s1);
     let s3 = s2\<lparr>snd_dir := (snd_dir s2)\<lparr>telephone_events_pt := -1\<rparr>, rcv_dir := (rcv_dir s2)\<lparr>telephone_events_pt := -1\<rparr>\<rparr>;
     s4 \<leftarrow> rtp_session_set_profile s3 prof;
     let s5 = s4\<lparr>rstream := (rstream s4)\<lparr>rtp_socket := -1, ssrc_changed_thres := 50\<rparr>, rtcp := (rtcp s4)\<lparr>rtcp_socket := -1\<rparr>\<rparr>;
     let s6 = rtp_session_set_recv_payload_type (rtp_session_set_send_payload_type s5 0) (-1);
     let s7 = rtp_session_set_jitter_buffer_params (rtp_session_enable_jitter_buffer s6 True)
                \<lparr>min_size = 80, nom_size = 80, max_size = -1, jb_adaptive = True, max_packets = 100\<rparr>;
     let s8 = rtp_session_set_time_jump_limit s7 5000;
     let s9 = rtp_session_set_rtcp_report_interval (rtp_session_enable_rtcp s8 True) 5000;
     Some (s9\<lparr>symmetric_rtp := False, permissive := False\<rparr>) }"

section \<open>Bandwidth\<close>

definition update_sent_bytes :: "timeval \<Rightarrow> RtpSession \<Rightarrow> int \<Rightarrow> RtpSession" where
  "update_sent_bytes now s nbytes =
    (let st = rstream s;
         st1 = (if sent_bytes st = 0 then st\<lparr>send_bw_start := now\<rparr> else st)
     in s\<lparr>rstream := st1\<lparr>sent_bytes := sent_bytes st1 + word_of_int (nbytes + int (ip_overhead s))\<rparr>\<rparr>)"

definition update_recv_bytes :: "timeval \<Rightarrow> RtpSession \<Rightarrow> int \<Rightarrow> RtpSession" where
  "update_recv_bytes now s nbytes =
    (let st = rstream s;
         st1 = (if recv_bytes st = 0 then st\<lparr>recv_bw_start := now\<rparr> else st)
     in s\<lparr>rstream := st1\<lparr>recv_bytes := recv_bytes st1 + word_of_int (nbytes + int (ip_overhead s))\<rparr>\<rparr>)"

definition compute_bw :: "timeval \<Rightarrow> timeval \<Rightarrow> u32 \<Rightarrow> rat" where
  "compute_bw current orig n =
    (if n = 0 then 0
     else let time = f32 (f64 (f32 (of_int (fst current - fst orig)) + f64 (f32 (of_int (snd current - snd orig)) * f64 (1 / 1000000))))
          in f32 (f64 (f32 (f32 (of_int (uint n)) * 8) / f64 (time + f64 (1 / 1000)))))"

definition rtp_session_compute_recv_bandwidth :: "timeval \<Rightarrow> RtpSession \<Rightarrow> rat \<times> RtpSession" where
  "rtp_session_compute_recv_bandwidth now s =
    (compute_bw now (recv_bw_start (rstream s)) (recv_bytes (rstream s)), s\<lparr>rstream := (rstream s)\<lparr>recv_bytes := 0\<rparr>\<rparr>)"

definition rtp_session_compute_send_bandwidth :: "timeval \<Rightarrow> RtpSession \<Rightarrow> rat \<times> RtpSession" where
  "rtp_session_compute_send_bandwidth now s =
    (compute_bw now (send_bw_start (rstream s)) (sent_bytes (rstream s)), s\<lparr>rstream := (rstream s)\<lparr>sent_bytes := 0\<rparr>\<rparr>)"

section \<open>Sending\<close>

definition rtp_header_init_from_session :: "RtpSession \<Rightarrow> rtp_header" where
  "rtp_header_init_from_session session = \<lparr>version = 2, padbit = False, extbit = False, cc = 0, markbit = False,
     paytype = nat (dir_pt (snd_dir session) mod 128), seq_number = snd_seq (sstate (rstream session)), timestamp = 0,
     ssrc = dir_ssrc (snd_dir session), csrc = []\<rparr>"

text \<open>\<open>extra\<close> is what the new block holds in the part of the header behind the fixed 12 bytes.\<close>

definition rtp_session_create_packet :: "RtpSession \<Rightarrow> bytes \<Rightarrow> bytes \<Rightarrow> rtp_mblk" where
  "rtp_session_create_packet session extra data = \<lparr>rtp = rtp_header_init_from_session session, body = extra @ data\<rparr>"

definition rtp_session_create_packet_with_data :: "RtpSession \<Rightarrow> bytes \<Rightarrow> rtp_mblk" where
  "rtp_session_create_packet_with_data session data = \<lparr>rtp = rtp_header_init_from_session session, body = data\<rparr>"

definition rtp_msgdsize :: "rtp_mblk \<Rightarrow> nat" where
  "rtp_msgdsize m = 12 + 4 * cc (rtp m) + length (body m)"

definition rtp_session_rtp_send :: "Env \<Rightarrow> RtpSession \<Rightarrow> rtp_mblk \<Rightarrow> int \<times> RtpSession" where
  "rtp_session_rtp_send env session m =
    (let wire = rtp_bytes m; error = env_rtp_net env wire; s1 = session\<lparr>rtp_sent := rtp_sent session @ [wire]\<rparr>
     in if error < 0
        then let s2 = emit s1 (Network_error ''Error sending RTP packet'')
             in (error, s2\<lparr>rstream := (rstream s2)\<lparr>sstate := (sstate (rstream s2))\<lparr>send_errno := env_errno env\<rparr>\<rparr>\<rparr>)
        else (error, update_sent_bytes (env_now env) s1 error))"

text \<open>The first packet of the session fixes the offsets.\<close>

definition send_start :: "Env \<Rightarrow> u32 \<Rightarrow> RtpSession \<Rightarrow> RtpSession" where
  "send_start env send_ts session =
    (if has_flag session RTP_SESSION_SEND_NOT_STARTED
     then let s1 = session\<lparr>rstream := (rstream session)\<lparr>sstate := (sstate (rstream session))\<lparr>snd_ts_offset := send_ts\<rparr>\<rparr>\<rparr>;
              s2 = (if has_flag s1 RTP_SESSION_RECV_NOT_STARTED \<or> session_mode s1 = RTP_SESSION_SENDONLY
                    then s1\<lparr>last_recv_time := env_now env\<rparr> else s1);
              s3 = (if has_flag s2 RTP_SESSION_SCHEDULED
                    then s2\<lparr>rstream := (rstream s2)\<lparr>sstate := (sstate (rstream s2))\<lparr>snd_time_offset := env_sched env\<rparr>\<rparr>\<rparr> else s2)
          in rtp_session_unset_flag s3 RTP_SESSION_SEND_NOT_STARTED
     else session)"

text \<open>In scheduled mode: whether the caller has to wait, or \<open>select\<close> can return at once.\<close>

definition send_schedule :: "Env \<Rightarrow> u32 \<Rightarrow> RtpSession \<Rightarrow> RtpSession" where
  "send_schedule env send_ts session =
    (if has_flag session RTP_SESSION_SCHEDULED
     then let ss = sstate (rstream session);
              packet_time = rtp_session_ts_to_time session (send_ts - snd_ts_offset ss) + snd_time_offset ss
          in if RTP_TIMESTAMP_IS_STRICTLY_NEWER_THAN packet_time (env_sched env)
             then session\<lparr>snd_dir := (snd_dir session)\<lparr>dir_wp := wait_point_wakeup_at (dir_wp (snd_dir session)) packet_time\<rparr>,
                          w_session_bit := False\<rparr>
             else session\<lparr>w_session_bit := True\<rparr>
     else session)"

definition count_sent :: "nat \<Rightarrow> rtp_stats \<Rightarrow> rtp_stats" where
  "count_sent n st = st\<lparr>st_sent := st_sent st + of_nat n, st_packet_sent := st_packet_sent st + 1\<rparr>"

text \<open>The packet with its timestamp and sequence number, and the session that has counted it.\<close>

definition send_stamp :: "u32 \<Rightarrow> rtp_mblk \<Rightarrow> pstate \<Rightarrow> rtp_mblk \<times> pstate" where
  "send_stamp packet_ts mp = (\<lambda>(g, s).
     let ss = sstate (rstream s);
         tev = telephone_events_pt (snd_dir s) = int (paytype (rtp mp));
         h = (rtp mp)\<lparr>timestamp := packet_ts\<rparr>;
         h1 = (if tev then h\<lparr>seq_number := snd_seq ss\<rparr> else h);
         ss1 = ss\<lparr>snd_seq := (if tev then snd_seq ss + 1 else seq_number h + 1), snd_last_ts := packet_ts,
                  sent_payload_bytes := sent_payload_bytes ss + of_nat (rtp_msgdsize mp) - 12\<rparr>
     in (mp\<lparr>rtp := h1\<rparr>, on_stats (count_sent (rtp_msgdsize mp)) (g, s\<lparr>rstream := (rstream s)\<lparr>sstate := ss1\<rparr>\<rparr>)))"

definition rtp_session_sendm_with_ts_aux :: "Env \<Rightarrow> rtp_mblk option \<Rightarrow> u32 \<Rightarrow> u32 \<Rightarrow> pstate \<Rightarrow> (int \<times> pstate) option" where
  "rtp_session_sendm_with_ts_aux env omp packet_ts send_ts = (\<lambda>(g, s).
     let s1 = send_schedule env send_ts (send_start env send_ts s)
     in case omp of
          None \<Rightarrow> Some (0, g, s1\<lparr>rstream := (rstream s1)\<lparr>sstate := (sstate (rstream s1))\<lparr>snd_last_ts := packet_ts\<rparr>\<rparr>\<rparr>)
        | Some mp \<Rightarrow>
            let (mp1, g2, s2) = send_stamp packet_ts mp (g, s1);
                (error, s3) = rtp_session_rtp_send env s2 mp1
            in do {
              s4 \<leftarrow> rtp_session_rtcp_process_send (env_rtcp_net env) (env_now env) s3;
              s5 \<leftarrow> (if session_mode s4 = RTP_SESSION_SENDONLY
                     then rtp_session_rtcp_recv (env_connect env) (env_rtcp_err env) (env_now env) s4 (env_rtcp_in env) else Some s4);
              Some (error, g2, s5) })"

definition rtp_session_sendm_with_ts :: "Env \<Rightarrow> rtp_mblk option \<Rightarrow> u32 \<Rightarrow> pstate \<Rightarrow> (int \<times> pstate) option" where
  "rtp_session_sendm_with_ts env packet ts = rtp_session_sendm_with_ts_aux env packet ts ts"

definition rtp_session_send_with_ts :: "Env \<Rightarrow> bytes \<Rightarrow> u32 \<Rightarrow> pstate \<Rightarrow> (int \<times> pstate) option" where
  "rtp_session_send_with_ts env buffer userts = (\<lambda>(g, s).
     rtp_session_sendm_with_ts env (Some (rtp_session_create_packet s [] buffer)) userts (g, s))"

section \<open>Receiving\<close>

definition using_rtp_transport :: "RtpSession \<Rightarrow> bool" where
  "using_rtp_transport session \<longleftrightarrow> has_flag session RTP_SESSION_USING_TRANSPORT \<and> rtp_tr (rstream session)"

definition recv_parse :: "timeval \<Rightarrow> u32 \<Rightarrow> bytes \<Rightarrow> bytes \<Rightarrow> pstate \<Rightarrow> pstate option" where
  "recv_parse now user_ts addr m = (\<lambda>(g, s). rtp_session_rtp_parse now m user_ts addr (g, update_recv_bytes now s (int (length m))))"

text \<open>A datagram through the network simulator, when there is one, into the parser.\<close>

definition recv_simulated :: "timeval \<Rightarrow> nat \<Rightarrow> u32 \<Rightarrow> bytes \<Rightarrow> bytes option \<Rightarrow> pstate \<Rightarrow> pstate option" where
  "recv_simulated now rnd user_ts addr input = (\<lambda>(g, s). do {
     (om, s1) \<leftarrow> rtp_session_network_simulate now rnd s input;
     case om of None \<Rightarrow> Some (g, s1) | Some m \<Rightarrow> recv_parse now user_ts addr m (g, s1) })"

definition rtp_recv_one :: "Env \<Rightarrow> u32 \<Rightarrow> bytes \<times> bytes \<times> nat \<Rightarrow> pstate \<Rightarrow> pstate option" where
  "rtp_recv_one env user_ts dgram = (\<lambda>(g, s).
     let (d, addr, rnd) = dgram;
         s1 = (if use_connect s \<and> symmetric_rtp s \<and> \<not> has_flag s RTP_SOCKET_CONNECTED
               then let s' = s\<lparr>rstream := (rstream s)\<lparr>rem_addr := addr\<rparr>\<rparr>
                    in if env_connect env then s'\<lparr>flags := flags s' OR RTP_SOCKET_CONNECTED\<rparr> else s'
               else s)
     in if net_sim_ctx s1 = None then recv_parse (env_now env) user_ts addr d (g, s1)
        else recv_simulated (env_now env) rnd user_ts addr (Some d) (g, s1))"

text \<open>When the socket would block, or returns 0 bytes, one packet is taken from the network simulator.\<close>

definition rtp_recv_drain :: "Env \<Rightarrow> u32 \<Rightarrow> pstate \<Rightarrow> pstate option" where
  "rtp_recv_drain env user_ts = (\<lambda>(g, s).
     if net_sim_ctx s = None then Some (g, s)
     else recv_simulated (env_now env) (env_rand env) user_ts (rem_addr (rstream s)) None (g, s))"

fun rtp_recv_loop :: "Env \<Rightarrow> u32 \<Rightarrow> (bytes \<times> bytes \<times> nat) list \<Rightarrow> pstate \<Rightarrow> pstate option" where
  "rtp_recv_loop env user_ts [] (g, s) =
    (if env_recv_fails env then Some (g, emit s (Network_error ''Error receiving RTP packet'')) else rtp_recv_drain env user_ts (g, s))"
| "rtp_recv_loop env user_ts (d # ds) (g, s) =
    (if fst d = [] then rtp_recv_drain env user_ts (g, s)
     else Option.bind (rtp_recv_one env user_ts d (g, s)) (rtp_recv_loop env user_ts ds))"

definition rtp_session_rtp_recv :: "Env \<Rightarrow> u32 \<Rightarrow> pstate \<Rightarrow> pstate option" where
  "rtp_session_rtp_recv env user_ts = (\<lambda>(g, s).
     if rtp_socket (rstream s) = -1 \<and> \<not> using_rtp_transport s then Some (g, s)
     else rtp_recv_loop env user_ts (env_rtp_in env) (g, s))"

text \<open>The steps of \<open>rtp_session_recvm_with_ts\<close>. The first call fixes the offsets; a repeated call for one timestamp does not
  read the sockets again.\<close>

definition recv_start :: "Env \<Rightarrow> u32 \<Rightarrow> RtpSession \<Rightarrow> bool \<times> RtpSession" where
  "recv_start env user_ts session =
    (let rs = rstate (rstream session);
         (rd, s1) = (if has_flag session RTP_SESSION_RECV_NOT_STARTED
           then let s1 = session\<lparr>rstream := (rstream session)\<lparr>rstate := rs\<lparr>rcv_query_ts_offset := user_ts\<rparr>\<rparr>\<rparr>;
                    s2 = (if has_flag s1 RTP_SESSION_SEND_NOT_STARTED \<or> session_mode s1 = RTP_SESSION_RECVONLY
                          then s1\<lparr>last_recv_time := env_now env\<rparr> else s1);
                    s3 = (if has_flag s2 RTP_SESSION_SCHEDULED
                          then s2\<lparr>rstream := (rstream s2)\<lparr>rstate := (rstate (rstream s2))\<lparr>rcv_time_offset := env_sched env\<rparr>\<rparr>\<rparr> else s2)
                in (True, rtp_session_unset_flag s3 RTP_SESSION_RECV_NOT_STARTED)
           else (user_ts \<noteq> rcv_last_app_ts rs, session))
     in (rd, s1\<lparr>rstream := (rstream s1)\<lparr>rstate := (rstate (rstream s1))\<lparr>rcv_last_app_ts := user_ts\<rparr>\<rparr>\<rparr>))"

definition count_recv :: "nat \<Rightarrow> rtp_stats \<Rightarrow> rtp_stats" where
  "count_recv n st = st\<lparr>st_recv := st_recv st + of_nat n\<rparr>"

definition recv_tev :: "pstate \<Rightarrow> pstate" where
  "recv_tev = (\<lambda>(g, s). case tev_rq (rstream s) of [] \<Rightarrow> (g, s)
     | mp # q \<Rightarrow>
        let (g1, s1) = on_stats (count_recv (rtp_msgdsize mp)) (g, s\<lparr>rstream := (rstream s)\<lparr>tev_rq := q\<rparr>\<rparr>)
        in (g1, rtp_session_check_telephone_events (emit s1 (Telephone_event_packet mp)) mp))"

text \<open>While the session synchronises on the incoming stream: \<open>None\<close> when there is no packet yet.\<close>

definition recv_sync :: "u32 \<Rightarrow> RtpSession \<Rightarrow> RtpSession option" where
  "recv_sync user_ts s =
    (if has_flag s RTP_SESSION_RECV_SYNC
     then (case rq (rstream s) of [] \<Rightarrow> None
       | m # _ \<Rightarrow>
          let s1 = s\<lparr>rstream := (rstream s)\<lparr>rstate := (rstate (rstream s))\<lparr>rcv_ts_offset := timestamp (rtp m), rcv_last_ret_ts := user_ts\<rparr>\<rparr>,
                     rcv_dir := (rcv_dir s)\<lparr>dir_ssrc := ssrc (rtp m)\<rparr>\<rparr>
          in Some (rtp_session_unset_flag s1 RTP_SESSION_RECV_SYNC))
     else Some s)"

definition count_late :: "nat \<Rightarrow> rtp_stats \<Rightarrow> rtp_stats" where
  "count_late n st = st\<lparr>st_outoftime := st_outoftime st + of_nat n\<rparr>"

definition recv_get :: "u32 \<Rightarrow> pstate \<Rightarrow> rtp_mblk option \<times> pstate" where
  "recv_get user_ts = (\<lambda>(g, s).
     let st = rstream s;
         ts = jitter_control_get_compensated_timestamp (jittctl st) user_ts;
         (mp, rejected, q) =
           (if enabled (jittctl st) then if permissive s then rtp_getq_permissive (rq st) ts else rtp_getq (rq st) ts
            else (case rq st of [] \<Rightarrow> (None, 0, []) | m # r \<Rightarrow> (Some m, 0, r)))
     in (mp, on_stats (count_late rejected) (g, s\<lparr>rstream := st\<lparr>rq := q\<rparr>\<rparr>)))"

definition recv_deliver :: "rtp_mblk \<Rightarrow> pstate \<Rightarrow> rtp_mblk \<times> pstate" where
  "recv_deliver mp = (\<lambda>(g, s).
     let packet_ts = timestamp (rtp mp);
         (g1, s1) = on_stats (count_recv (rtp_msgdsize mp)) (g, s);
         s2 = (if dir_pt (rcv_dir s1) \<noteq> int (paytype (rtp mp)) then payload_type_changed_notify s1 (int (paytype (rtp mp))) else s1);
         st = rstream s2;
         (mp1, st1) =
           (if adaptive (jittctl st)
            then let jc = (if packet_ts \<noteq> rcv_last_ts (rstate st) then jitter_control_update_corrective_slide (jittctl st) else jittctl st)
                 in (mp\<lparr>rtp := (rtp mp)\<lparr>timestamp := packet_ts + word_of_int (corrective_slide jc)\<rparr>\<rparr>, st\<lparr>jittctl := jc\<rparr>)
            else (mp, st));
         s3 = s2\<lparr>rstream := st1\<lparr>rstate := (rstate st1)\<lparr>rcv_last_ts := packet_ts\<rparr>\<rparr>\<rparr>
     in (mp1, g1, if has_flag s3 RTP_SESSION_FIRST_PACKET_DELIVERED then s3
                  else rtp_session_set_flag s3 RTP_SESSION_FIRST_PACKET_DELIVERED))"

definition recv_schedule :: "Env \<Rightarrow> u32 \<Rightarrow> RtpSession \<Rightarrow> RtpSession" where
  "recv_schedule env user_ts session =
    (if has_flag session RTP_SESSION_SCHEDULED
     then let rs = rstate (rstream session);
              packet_time = rtp_session_ts_to_time session (user_ts - rcv_query_ts_offset rs) + rcv_time_offset rs
          in if RTP_TIMESTAMP_IS_STRICTLY_NEWER_THAN packet_time (env_sched env)
             then session\<lparr>rcv_dir := (rcv_dir session)\<lparr>dir_wp := wait_point_wakeup_at (dir_wp (rcv_dir session)) packet_time\<rparr>,
                          r_session_bit := False\<rparr>
             else session\<lparr>r_session_bit := True\<rparr>
     else session)"

definition recv_sockets :: "Env \<Rightarrow> u32 \<Rightarrow> pstate \<Rightarrow> pstate option" where
  "recv_sockets env user_ts = (\<lambda>(g, s). do {
     (g1, s1) \<leftarrow> rtp_session_rtp_recv env user_ts (g, s);
     s2 \<leftarrow> rtp_session_rtcp_recv (env_connect env) (env_rtcp_err env) (env_now env) s1 (env_rtcp_in env);
     Some (g1, s2) })"

text \<open>The media packet of one call, behind the sockets and the telephone events.\<close>

definition recv_media :: "u32 \<Rightarrow> pstate \<Rightarrow> rtp_mblk option \<times> pstate" where
  "recv_media user_ts = (\<lambda>(g, s). case recv_sync user_ts s of
       None \<Rightarrow> (None, g, s)
     | Some s1 \<Rightarrow> (case recv_get user_ts (g, s1) of
           (None, p) \<Rightarrow> (None, p)
         | (Some mp, p) \<Rightarrow> let (mp1, p1) = recv_deliver mp p in (Some mp1, p1)))"

definition rtp_session_recvm_with_ts :: "Env \<Rightarrow> u32 \<Rightarrow> pstate \<Rightarrow> (rtp_mblk option \<times> pstate) option" where
  "rtp_session_recvm_with_ts env user_ts = (\<lambda>(g, s). do {
     let (read_socket, s1) = recv_start env user_ts s;
     p2 \<leftarrow> (if read_socket then recv_sockets env user_ts (g, s1) else Some (g, s1));
     let (mp, g3, s3) = recv_media user_ts (recv_tev p2);
     s4 \<leftarrow> rtp_session_rtcp_process_recv (env_rtcp_net env) (env_now env) s3;
     Some (mp, g3, recv_schedule env user_ts s4) })"

text \<open>The bytes written to a buffer of \<open>len\<close> bytes, \<open>have_more\<close>, and the session. The sockets are read by the first call.\<close>

partial_function (option) recv_with_ts_loop ::
    "Env \<Rightarrow> nat \<Rightarrow> u32 \<Rightarrow> bytes \<Rightarrow> pstate \<Rightarrow> (bytes \<times> bool \<times> pstate) option" where
  "recv_with_ts_loop env len ts buf p =
    (case pending (snd p) of
       Some m \<Rightarrow>
         (if length m \<le> len then recv_with_ts_loop env (len - length m) ts (buf @ m) (fst p, (snd p)\<lparr>pending := None\<rparr>)
          else Some (buf @ take len m, True, fst p, (snd p)\<lparr>pending := Some (drop len m)\<rparr>))
     | None \<Rightarrow> (case rtp_session_recvm_with_ts env ts p of
           None \<Rightarrow> None
         | Some (None, p1) \<Rightarrow> Some (buf, False, p1)
         | Some (Some mp, p1) \<Rightarrow>
             let m = rtp_get_payload mp in
             if length m \<le> len then recv_with_ts_loop (drained env) (len - length m) ts (buf @ m) p1
             else Some (buf @ take len m, True, fst p1, (snd p1)\<lparr>pending := Some (drop len m)\<rparr>)))"

definition rtp_session_recv_with_ts :: "Env \<Rightarrow> nat \<Rightarrow> u32 \<Rightarrow> pstate \<Rightarrow> (bytes \<times> bool \<times> pstate) option" where
  "rtp_session_recv_with_ts env len ts p = recv_with_ts_loop env len ts [] p"

definition rtp_session_get_current_send_ts :: "Env \<Rightarrow> RtpSession \<Rightarrow> u32" where
  "rtp_session_get_current_send_ts env session =
    (case rtp_profile_get_payload (dir_profile (snd_dir session)) (dir_pt (snd_dir session)) of
       None \<Rightarrow> 0
     | Some pl \<Rightarrow> if \<not> has_flag session RTP_SESSION_SCHEDULED then 0
         else word_of_int (trunc (f64 (f64 (of_int (uint (env_sched env - snd_time_offset (sstate (rstream session)))) * of_int (clock_rate pl)) / 1000)))
              + snd_ts_offset (sstate (rstream session)))"

definition rtp_session_get_current_recv_ts :: "Env \<Rightarrow> RtpSession \<Rightarrow> u32" where
  "rtp_session_get_current_recv_ts env session =
    (case rtp_profile_get_payload (dir_profile (rcv_dir session)) (dir_pt (rcv_dir session)) of
       None \<Rightarrow> 0
     | Some pl \<Rightarrow> if \<not> has_flag session RTP_SESSION_SCHEDULED then 0
         else word_of_int (trunc (f64 (f64 (of_int (uint (env_sched env - rcv_time_offset (rstate (rstream session)))) * of_int (clock_rate pl)) / 1000)))
              + rcv_ts_offset (rstate (rstream session)))"

text \<open>What the scheduler does with a session at a tick.\<close>

definition rtp_session_process :: "RtpSession \<Rightarrow> u32 \<Rightarrow> RtpSession" where
  "rtp_session_process session t =
    (let (w, wp) = wait_point_check (dir_wp (snd_dir session)) t;
         s1 = session\<lparr>snd_dir := (snd_dir session)\<lparr>dir_wp := wp\<rparr>, w_session_bit := w_session_bit session \<or> w\<rparr>;
         (r, rp) = wait_point_check (dir_wp (rcv_dir s1)) t
     in s1\<lparr>rcv_dir := (rcv_dir s1)\<lparr>dir_wp := rp\<rparr>, r_session_bit := r_session_bit s1 \<or> r\<rparr>)"

section \<open>DTMF digits\<close>

definition tev_type_of :: "char \<Rightarrow> u8 option" where
  "tev_type_of dtmf =
    (if dtmf = CHR ''1'' then Some 1 else if dtmf = CHR ''2'' then Some 2 else if dtmf = CHR ''3'' then Some 3
     else if dtmf = CHR ''4'' then Some 4 else if dtmf = CHR ''5'' then Some 5 else if dtmf = CHR ''6'' then Some 6
     else if dtmf = CHR ''7'' then Some 7 else if dtmf = CHR ''8'' then Some 8 else if dtmf = CHR ''9'' then Some 9
     else if dtmf = CHR ''*'' then Some 10 else if dtmf = CHR ''0'' then Some 0 else if dtmf = CHR 0x23 then Some 11
     else if dtmf = CHR ''A'' \<or> dtmf = CHR ''a'' then Some 12 else if dtmf = CHR ''B'' \<or> dtmf = CHR ''b'' then Some 13
     else if dtmf = CHR ''C'' \<or> dtmf = CHR ''c'' then Some 14 else if dtmf = CHR ''D'' \<or> dtmf = CHR ''d'' then Some 15
     else if dtmf = CHR 0x21 then Some 16 else None)"

definition back_one :: "pstate \<Rightarrow> pstate" where
  "back_one = (\<lambda>(g, s). (g, s\<lparr>rstream := (rstream s)\<lparr>sstate := (sstate (rstream s))\<lparr>snd_seq := snd_seq (sstate (rstream s)) - 1\<rparr>\<rparr>\<rparr>))"

definition rtp_session_send_dtmf2 :: "Env \<Rightarrow> char \<Rightarrow> u32 \<Rightarrow> int \<Rightarrow> pstate \<Rightarrow> (int \<times> pstate) option" where
  "rtp_session_send_dtmf2 env dtmf userts duration = (\<lambda>(g, s).
     let tier = c_div duration 3 in
     case tev_type_of dtmf of None \<Rightarrow> Some (-1, g, s)
     | Some tev \<Rightarrow>
        (case (rtp_session_create_telephone_event_packet s True, rtp_session_create_telephone_event_packet s False) of
           (Some p1, Some p2) \<Rightarrow>
             let m1 = rtp_session_add_telephone_event p1 tev False 10 (word_of_int tier);
                 m2 = rtp_session_add_telephone_event p2 tev False 10 (word_of_int (tier + tier));
                 m3 = rtp_session_add_telephone_event p2 tev True 10 (word_of_int duration);
                 env' = drained env
             in do {
               (_, q1) \<leftarrow> rtp_session_sendm_with_ts env (Some m1) userts (g, s);
               (_, q2) \<leftarrow> rtp_session_sendm_with_ts env' (Some m2) userts q1;
               (_, q3) \<leftarrow> rtp_session_sendm_with_ts env' (Some m3) userts q2;
               (_, q4) \<leftarrow> rtp_session_sendm_with_ts env' (Some m3) userts (back_one q3);
               (_, q5) \<leftarrow> rtp_session_sendm_with_ts env' (Some m3) userts (back_one q4);
               Some (0, q5) }
         | _ \<Rightarrow> Some (-1, g, s)))"

definition rtp_session_send_dtmf :: "Env \<Rightarrow> char \<Rightarrow> u32 \<Rightarrow> pstate \<Rightarrow> (int \<times> pstate) option" where
  "rtp_session_send_dtmf env dtmf userts = rtp_session_send_dtmf2 env dtmf userts 480"

section \<open>What sending changes\<close>

text \<open>The part of a session that decides what the next packet looks like, and what was sent.\<close>

definition sview :: "RtpSession \<Rightarrow> u16 \<times> (u32 \<times> int \<times> int) \<times> bytes list \<times> int \<times> bool" where
  "sview s = (snd_seq (sstate (rstream s)), (dir_ssrc (snd_dir s), dir_pt (snd_dir s), telephone_events_pt (snd_dir s)),
     rtp_sent s, session_mode s, sd_ok s)"

lemma sd_ok_simps [simp]:
  "sd_ok (s\<lparr>rstream := a\<rparr>) = sd_ok s" "sd_ok (s\<lparr>events := b\<rparr>) = sd_ok s" "sd_ok (s\<lparr>flags := c\<rparr>) = sd_ok s" "sd_ok (s\<lparr>snd_dir := d\<rparr>) = sd_ok s"
  "sd_ok (s\<lparr>rcv_dir := d\<rparr>) = sd_ok s" "sd_ok (s\<lparr>rtcp := r\<rparr>) = sd_ok s" "sd_ok (s\<lparr>rtp_sent := x\<rparr>) = sd_ok s" "sd_ok (s\<lparr>rtcp_sent := y\<rparr>) = sd_ok s"
  "sd_ok (s\<lparr>last_recv_time := t\<rparr>) = sd_ok s" "sd_ok (s\<lparr>w_session_bit := w\<rparr>) = sd_ok s" "sd_ok (s\<lparr>r_session_bit := w\<rparr>) = sd_ok s"
  by (simp_all add: sd_ok_def)

lemma sview_steps:
  "sview (emit s e) = sview s" "sview (rtp_session_unset_flag s f) = sview s" "sview (update_sent_bytes now s n) = sview s"
  "sview (rtcp_report_sent s) = sview s" "sview (notify_sent_rtcp s m) = sview s" "sview (snd (rtp_session_rtcp_send net s m)) = sview s"
  by (simp_all add: sview_def emit_def rtp_session_unset_flag_def update_sent_bytes_def rtcp_report_sent_def notify_sent_rtcp_def
      rtp_session_rtcp_send_def Let_def)

lemma sview_send_start: "sview (send_start env ts s) = sview s"
  by (simp add: sview_def send_start_def rtp_session_unset_flag_def Let_def)

lemma sview_send_schedule: "sview (send_schedule env ts s) = sview s"
  by (simp add: sview_def send_schedule_def Let_def)

lemma sview_report_steps:
  "sview (snd (sender_info_init now s)) = sview s" "sview (snd (report_block_init now s)) = sview s" "sview (extended_statistics now s) = sview s"
  by (simp_all add: sview_def sender_info_init_def report_block_init_def extended_statistics_def Let_def split_beta)

lemma sview_sr: "sview (snd (rtcp_sr_init now s 52)) = sview s"
  by (simp add: rtcp_sr_init_def Let_def split_beta sview_report_steps)

lemma with_sdes_sview:
  assumes "sd_ok s"
  shows "\<exists>t s'. with_sdes (m, s) = Some (m @ t, s') \<and> sview s' = sview s"
proof (cases "sd s")
  case None
  then show ?thesis by (simp add: with_sdes_def)
next
  case (Some d)
  let ?d = "sdes_chunk_set_ssrc d (dir_ssrc (snd_dir s))"
  have l: "length ?d = length d" using assms Some by (auto simp: sd_ok_def sdes_chunk_set_ssrc_def)
  have "sview (s\<lparr>sd := Some ?d\<rparr>) = sview s" using assms Some l by (simp add: sview_def sd_ok_def)
  then show ?thesis using assms Some
    by (simp add: with_sdes_def rtp_session_create_rtcp_sdes_packet_def Let_def) (simp add: sd_ok_def)
qed

lemma make_sr_sview: "sd_ok s \<Longrightarrow> \<exists>m s'. make_sr now s = Some (m, s') \<and> sview s' = sview s"
proof -
  assume "sd_ok s"
  then have "sd_ok (snd (rtcp_sr_init now s 52))" using sd_ok_outside [OF outside_stream_sr] by blast
  from with_sdes_sview [OF this, of "fst (rtcp_sr_init now s 52)"] show ?thesis by (auto simp: make_sr_def sview_sr)
qed

lemma process_send_sview: "sd_ok s \<Longrightarrow> \<exists>s'. rtp_session_rtcp_process_send net now s = Some s' \<and> sview s' = sview s"
proof -
  assume "sd_ok s"
  then have "sd_ok (rtcp_report_sent s)" by (simp add: rtcp_report_sent_def)
  from make_sr_sview [OF this, of now] show ?thesis
    by (auto simp: rtp_session_rtcp_process_send_def sview_steps)
qed

lemma rtp_send_sview:
  "sview (snd (rtp_session_rtp_send env s m)) = (case sview s of (q, ids, w, md, ok) \<Rightarrow> (q, ids, w @ [rtp_bytes m], md, ok))"
  by (simp add: rtp_session_rtp_send_def Let_def) (simp add: sview_def emit_def update_sent_bytes_def Let_def)

text \<open>The packet as it leaves: its timestamp, and for telephone events the next sequence number.\<close>

definition stamped :: "u32 \<Rightarrow> RtpSession \<Rightarrow> rtp_mblk \<Rightarrow> rtp_mblk" where
  "stamped ts s mp = mp\<lparr>rtp := (rtp mp)\<lparr>timestamp := ts,
     seq_number := (if telephone_events_pt (snd_dir s) = int (paytype (rtp mp)) then snd_seq (sstate (rstream s)) else seq_number (rtp mp))\<rparr>\<rparr>"

lemma stamped_cong: "sview s = sview s' \<Longrightarrow> stamped ts s mp = stamped ts s' mp"
  by (simp add: stamped_def sview_def)

lemma send_stamp_sview:
  "fst (send_stamp ts mp (g, s)) = stamped ts s mp"
  "sview (snd (snd (send_stamp ts mp (g, s)))) = (case sview s of (q, r) \<Rightarrow> (seq_number (rtp (stamped ts s mp)) + 1, r))"
  by (simp_all add: send_stamp_def stamped_def sview_def on_stats_def Let_def)

lemma sendm_ok:
  assumes "sview s = (q, ids, w, md, True)" and "md \<noteq> RTP_SESSION_SENDONLY"
  shows "\<exists>e g' s'. rtp_session_sendm_with_ts env (Some mp) ts (g, s) = Some (e, g', s')
    \<and> sview s' = (seq_number (rtp (stamped ts s mp)) + 1, ids, w @ [rtp_bytes (stamped ts s mp)], md, True)"
proof -
  define s1 where "s1 = send_schedule env ts (send_start env ts s)"
  have v1: "sview s1 = sview s" by (simp add: s1_def sview_send_start sview_send_schedule)
  obtain mp1 g2 s2 where st: "send_stamp ts mp (g, s1) = (mp1, g2, s2)" by (metis prod_cases3)
  have mp1: "mp1 = stamped ts s mp" using send_stamp_sview(1) [of ts mp g s1] st stamped_cong [OF v1] by simp
  have v2: "sview s2 = (seq_number (rtp (stamped ts s mp)) + 1, ids, w, md, True)"
    using send_stamp_sview(2) [of ts mp g s1] st v1 assms(1) stamped_cong [OF v1, of ts mp] by simp
  obtain e s3 where sd: "rtp_session_rtp_send env s2 mp1 = (e, s3)" by force
  have v3: "sview s3 = (seq_number (rtp (stamped ts s mp)) + 1, ids, w @ [rtp_bytes (stamped ts s mp)], md, True)"
    using rtp_send_sview [of env s2 mp1] sd v2 by (simp add: mp1)
  have "sd_ok s3" using v3 by (simp add: sview_def)
  then obtain s4 where s4: "rtp_session_rtcp_process_send (env_rtcp_net env) (env_now env) s3 = Some s4" "sview s4 = sview s3"
    using process_send_sview by blast
  have "session_mode s4 = md" using s4(2) v3 by (simp add: sview_def)
  then have "rtp_session_sendm_with_ts env (Some mp) ts (g, s) = Some (e, g2, s4)"
    using assms(2) st sd s4(1) by (simp add: rtp_session_sendm_with_ts_def rtp_session_sendm_with_ts_aux_def Let_def flip: s1_def)
  then show ?thesis using s4(2) v3 by auto
qed

section \<open>A stream of packets\<close>

fun send_all :: "Env \<Rightarrow> (bytes \<times> u32) list \<Rightarrow> pstate \<Rightarrow> pstate option" where
  "send_all env [] p = Some p"
| "send_all env ((b, ts) # ds) p = Option.bind (rtp_session_send_with_ts env b ts p) (\<lambda>(_, p1). send_all env ds p1)"

text \<open>The packet that carries \<open>b\<close>, as the \<open>k\<close>-th of a stream.\<close>

definition stream_packet :: "RtpSession \<Rightarrow> nat \<Rightarrow> bytes \<times> u32 \<Rightarrow> rtp_mblk" where
  "stream_packet s k d = \<lparr>rtp = \<lparr>version = 2, padbit = False, extbit = False, cc = 0, markbit = False,
     paytype = nat (dir_pt (snd_dir s) mod 128), seq_number = snd_seq (sstate (rstream s)) + of_nat k, timestamp = snd d,
     ssrc = dir_ssrc (snd_dir s), csrc = []\<rparr>, body = fst d\<rparr>"

lemma stamped_stream: "stamped ts s (rtp_session_create_packet s [] b) = stream_packet s 0 (b, ts)"
  by (simp add: stamped_def rtp_session_create_packet_def rtp_header_init_from_session_def stream_packet_def)

lemma stream_packet_shift:
  "sview s' = (snd_seq (sstate (rstream s)) + 1, fst (snd (sview s)), w) \<Longrightarrow> stream_packet s' k d = stream_packet s (Suc k) d"
  by (simp add: stream_packet_def sview_def)

lemma enumerate_shift: "enumerate (Suc n) xs = map (\<lambda>(k, x). (Suc k, x)) (enumerate n xs)"
  by (induction xs arbitrary: n) auto

lemma send_all_ok:
  assumes "sview s = (q, ids, w, md, True)" and "md \<noteq> RTP_SESSION_SENDONLY"
  shows "\<exists>g' s'. send_all env ds (g, s) = Some (g', s') \<and> sview s' = (q + of_nat (length ds), ids,
      w @ map (\<lambda>(k, d). rtp_bytes (stream_packet s k d)) (enumerate 0 ds), md, True)"
  using assms
proof (induction ds arbitrary: g s q w)
  case Nil
  then show ?case by simp
next
  case (Cons d ds)
  obtain b ts where d: "d = (b, ts)" by force
  obtain e g1 s1 where s1: "rtp_session_sendm_with_ts env (Some (rtp_session_create_packet s [] b)) ts (g, s) = Some (e, g1, s1)"
      "sview s1 = (q + 1, ids, w @ [rtp_bytes (stream_packet s 0 d)], md, True)"
    using sendm_ok [OF Cons.prems, of env "rtp_session_create_packet s [] b" ts g] Cons.prems(1)
    by (auto simp: stamped_stream d sview_def stream_packet_def)
  have sh: "stream_packet s1 k x = stream_packet s (Suc k) x" for k x
    by (rule stream_packet_shift [where w = "(w @ [rtp_bytes (stream_packet s 0 d)], md, True)"]) (use s1(2) Cons.prems(1) in \<open>auto simp: sview_def\<close>)
  have en: "enumerate (Suc 0) ds = map (\<lambda>(k, x). (Suc k, x)) (enumerate 0 ds)"
    by (rule enumerate_shift)
  obtain g' s' where r: "send_all env ds (g1, s1) = Some (g', s')" "sview s' = (q + 1 + of_nat (length ds), ids,
      (w @ [rtp_bytes (stream_packet s 0 d)]) @ map (\<lambda>(k, x). rtp_bytes (stream_packet s1 k x)) (enumerate 0 ds), md, True)"
    using Cons.IH [OF s1(2) Cons.prems(2), of g1] by blast
  then show ?case using s1(1) by (simp add: d rtp_session_send_with_ts_def en sh comp_def case_prod_unfold)
qed

lemma stream_packet_ok: "rtp_mblk_ok (stream_packet s k d)"
proof -
  have "nat (dir_pt (snd_dir s) mod 128) < 128" by simp
  then show ?thesis by (simp add: rtp_mblk_ok_def stream_packet_def)
qed

text \<open>C18: sending buffers one after another never fails in the library, puts one RTP packet per buffer on the wire, in order, and
  each of these reads back as version 2 with the session's source and payload type, the buffer and its timestamp, and a
  sequence number one above its predecessor's modulo 65536; the next number follows the last packet.\<close>

theorem sent_stream_on_the_wire:
  assumes "session_mode s \<noteq> RTP_SESSION_SENDONLY" and "sd_ok s"
  shows "\<exists>g' s'. send_all env ds (g, s) = Some (g', s')
    \<and> snd_seq (sstate (rstream s')) = snd_seq (sstate (rstream s)) + of_nat (length ds)
    \<and> (\<exists>ws. rtp_sent s' = rtp_sent s @ ws \<and> map rtp_mblk_of ws = map (\<lambda>(k, d). stream_packet s k d) (enumerate 0 ds))"
proof -
  define ws where "ws = map (\<lambda>(k, d). rtp_bytes (stream_packet s k d)) (enumerate 0 ds)"
  have "map rtp_mblk_of ws = map (\<lambda>(k, d). stream_packet s k d) (enumerate 0 ds)"
    by (simp add: ws_def comp_def case_prod_unfold rtp_bytes_read(1) [OF stream_packet_ok])
  then show ?thesis
    using send_all_ok [of s _ _ "rtp_sent s" "session_mode s" env ds g, OF _ assms(1)] assms(2)
    by (force simp: sview_def simp flip: ws_def)
qed

definition demo_env :: Env where
  "demo_env = \<lparr>env_now = (10, 0), env_sched = 0, env_rtp_net = (\<lambda>m. int (length m)), env_rtcp_net = (\<lambda>m. int (length m)), env_errno = 0,
     env_connect = True, env_recv_fails = False, env_rtcp_err = None, env_rtp_in = [], env_rtcp_in = [], env_rand = 0\<rparr>"

definition demo_sender :: RtpSession where
  "demo_sender = demo_session\<lparr>session_mode := RTP_SESSION_SENDRECV, snd_dir := demo_dir\<lparr>telephone_events_pt := 101\<rparr>\<rparr>"

lemma demo_sender_ok: "session_mode demo_sender \<noteq> RTP_SESSION_SENDONLY" "sd_ok demo_sender" "rtp_sent demo_sender = []"
    "snd_seq (sstate (rstream demo_sender)) = 0" "telephone_events_pt (snd_dir demo_sender) = 101"
  by (simp_all add: demo_sender_def demo_session_def sd_ok_def RTP_SESSION_SENDONLY_def RTP_SESSION_SENDRECV_def)

theorem sent_stream_on_the_wire_witness:
  "\<exists>g' s'. send_all demo_env [([1, 2], 160), ([3], 320)] (rtp_stats_reset, demo_sender) = Some (g', s')
    \<and> snd_seq (sstate (rstream s')) = 2 \<and> map (seq_number \<circ> rtp \<circ> rtp_mblk_of) (rtp_sent s') = [0, 1]
    \<and> map (body \<circ> rtp_mblk_of) (rtp_sent s') = [[1, 2], [3]]"
proof -
  obtain g' s' ws where r: "send_all demo_env [([1, 2], 160), ([3], 320)] (rtp_stats_reset, demo_sender) = Some (g', s')"
      "snd_seq (sstate (rstream s')) = 2" "rtp_sent s' = ws"
      "map rtp_mblk_of ws = map (\<lambda>(k, d). stream_packet demo_sender k d) (enumerate 0 [([1, 2], 160), ([3], 320)])"
    using sent_stream_on_the_wire [of demo_sender demo_env "[([1, 2], 160), ([3], 320)]" rtp_stats_reset] demo_sender_ok
    by auto
  have "map (seq_number \<circ> rtp) (map rtp_mblk_of ws) = [0, 1]" "map body (map rtp_mblk_of ws) = [[1, 2], [3]]"
    unfolding r(4) by (simp_all add: stream_packet_def demo_sender_ok)
  then show ?thesis using r(1,2) unfolding r(3) [symmetric] map_map comp_assoc by (intro exI conjI)
qed

section \<open>DTMF digits\<close>

text \<open>A packet of a DTMF digit as it leaves.\<close>

definition dtmf_packet :: "RtpSession \<Rightarrow> u8 \<Rightarrow> u32 \<Rightarrow> bool \<Rightarrow> bool \<Rightarrow> u16 \<Rightarrow> u16 \<Rightarrow> rtp_mblk" where
  "dtmf_packet s tev ts start e duration q = \<lparr>rtp = \<lparr>version = 2, padbit = False, extbit = False, cc = 0, markbit = start,
     paytype = nat (telephone_events_pt (snd_dir s)), seq_number = q, timestamp = ts, ssrc = dir_ssrc (snd_dir s), csrc = []\<rparr>,
     body = tev_bytes \<lparr>tev_event = tev, tev_volume = 10, tev_R = False, tev_E = e, tev_duration = duration\<rparr>\<rparr>"

lemma back_one_sview: "sview s = (q, r) \<Longrightarrow> \<exists>s'. back_one (g, s) = (g, s') \<and> sview s' = (q - 1, r)"
  by (auto simp: back_one_def sview_def)

lemma dtmf_sent:
  assumes "sview s' = (q, ids, w, md, True)" and "md \<noteq> RTP_SESSION_SENDONLY" and "fst (snd (sview s)) = ids"
    and "rtp_session_create_telephone_event_packet s start = Some p"
    and pt: "0 \<le> telephone_events_pt (snd_dir s)" "telephone_events_pt (snd_dir s) < 128"
  shows "\<exists>e' g' s''. rtp_session_sendm_with_ts env (Some (rtp_session_add_telephone_event p tev e 10 dur)) ts (g, s') = Some (e', g', s'')
    \<and> sview s'' = (q + 1, ids, w @ [rtp_bytes (dtmf_packet s tev ts start e dur q)], md, True)"
proof -
  have pt': "telephone_events_pt (snd_dir s') = telephone_events_pt (snd_dir s)" and q: "snd_seq (sstate (rstream s')) = q"
    using assms(1,3) by (auto simp: sview_def)
  have "telephone_events_pt (snd_dir s) mod 128 = telephone_events_pt (snd_dir s)" using pt by simp
  then have "stamped ts s' (rtp_session_add_telephone_event p tev e 10 dur) = dtmf_packet s tev ts start e dur q"
    using assms(4) pt by (auto simp: stamped_def rtp_session_add_telephone_event_def rtp_session_create_telephone_event_packet_def
        dtmf_packet_def pt' q split: if_splits)
  moreover have "seq_number (rtp (dtmf_packet s tev ts start e dur q)) = q" by (simp add: dtmf_packet_def)
  ultimately show ?thesis using sendm_ok [OF assms(1,2), of env "rtp_session_add_telephone_event p tev e 10 dur" ts g] by simp
qed

lemma send_dtmf2_ok:
  assumes "session_mode s \<noteq> RTP_SESSION_SENDONLY" and "sd_ok s" and "tev_type_of c = Some tev"
    and "0 \<le> telephone_events_pt (snd_dir s)" and "telephone_events_pt (snd_dir s) < 128" and "q = snd_seq (sstate (rstream s))"
  shows "\<exists>g' s' d1 d2 d3. rtp_session_send_dtmf2 env c ts duration (g, s) = Some (0, g', s') \<and> snd_seq (sstate (rstream s')) = q + 3
    \<and> rtp_sent s' = rtp_sent s @ map rtp_bytes [dtmf_packet s tev ts True False d1 q, dtmf_packet s tev ts False False d2 (q + 1),
        dtmf_packet s tev ts False True d3 (q + 2), dtmf_packet s tev ts False True d3 (q + 2), dtmf_packet s tev ts False True d3 (q + 2)]"
proof -
  define ids w md where "ids = fst (snd (sview s))" and "w = rtp_sent s" and "md = session_mode s"
  have v: "sview s = (q, ids, w, md, True)" and md: "md \<noteq> RTP_SESSION_SENDONLY" and i: "fst (snd (sview s)) = ids"
    using assms(1,2,6) by (simp_all add: sview_def ids_def w_def md_def)
  obtain p1 p2 where p: "rtp_session_create_telephone_event_packet s True = Some p1"
      "rtp_session_create_telephone_event_packet s False = Some p2"
    using assms(4) by (simp add: rtp_session_create_telephone_event_packet_def)
  let ?e = "drained env" and ?d1 = "word_of_int (c_div duration 3) :: u16"
    and ?d2 = "word_of_int (c_div duration 3 + c_div duration 3) :: u16" and ?d3 = "word_of_int duration :: u16"
  note snt = dtmf_sent [OF _ md i _ assms(4,5)]
  obtain e1 g1 s1 where s1: "rtp_session_sendm_with_ts env (Some (rtp_session_add_telephone_event p1 tev False 10 ?d1)) ts (g, s) = Some (e1, g1, s1)"
      "sview s1 = (q + 1, ids, w @ [rtp_bytes (dtmf_packet s tev ts True False ?d1 q)], md, True)" using snt [OF v p(1)] by blast
  obtain e2 g2 s2 where s2: "rtp_session_sendm_with_ts ?e (Some (rtp_session_add_telephone_event p2 tev False 10 ?d2)) ts (g1, s1) = Some (e2, g2, s2)"
      and v2: "sview s2 = (q + 1 + 1, ids, (w @ [rtp_bytes (dtmf_packet s tev ts True False ?d1 q)]) @ [rtp_bytes (dtmf_packet s tev ts False False ?d2 (q + 1))], md, True)"
    using snt [OF s1(2) p(2)] by blast
  define w2 where "w2 = w @ map rtp_bytes [dtmf_packet s tev ts True False ?d1 q, dtmf_packet s tev ts False False ?d2 (q + 1)]"
  have v2': "sview s2 = (q + 2, ids, w2, md, True)" using v2 by (simp add: w2_def)
  let ?p3 = "rtp_bytes (dtmf_packet s tev ts False True ?d3 (q + 2))" and ?m3 = "rtp_session_add_telephone_event p2 tev True 10 ?d3"
  have again: "\<exists>e' g'' x'. rtp_session_sendm_with_ts ?e (Some ?m3) ts (back_one (g', x)) = Some (e', g'', x') \<and> sview x' = (q + 2 + 1, ids, wx @ [?p3], md, True)"
    if x: "sview x = (q + 2 + 1, ids, wx, md, True)" for x wx g'
  proof -
    obtain y where y: "back_one (g', x) = (g', y)" "sview y = (q + 2 + 1 - 1, ids, wx, md, True)" using back_one_sview [OF x] by blast
    then have "sview y = (q + 2, ids, wx, md, True)" by simp
    from snt [OF this p(2)] show ?thesis unfolding y(1) .
  qed
  obtain e3 g3 s3 where s3: "rtp_session_sendm_with_ts ?e (Some ?m3) ts (g2, s2) = Some (e3, g3, s3)" "sview s3 = (q + 2 + 1, ids, w2 @ [?p3], md, True)"
    using snt [OF v2' p(2)] by blast
  obtain e4 g4 s4 where s4: "rtp_session_sendm_with_ts ?e (Some ?m3) ts (back_one (g3, s3)) = Some (e4, g4, s4)"
      "sview s4 = (q + 2 + 1, ids, (w2 @ [?p3]) @ [?p3], md, True)" using again [OF s3(2)] by blast
  obtain e5 g5 s5 where s5: "rtp_session_sendm_with_ts ?e (Some ?m3) ts (back_one (g4, s4)) = Some (e5, g5, s5)"
      "sview s5 = (q + 2 + 1, ids, ((w2 @ [?p3]) @ [?p3]) @ [?p3], md, True)" using again [OF s4(2)] by blast
  have "rtp_session_send_dtmf2 env c ts duration (g, s) = Some (0, g5, s5)"
    unfolding rtp_session_send_dtmf2_def Let_def split assms(3) option.case p s1(1) bind.bind_lunit s2 s3(1) s4(1) s5(1) by (rule refl)
  moreover have "snd_seq (sstate (rstream s5)) = q + 3" "rtp_sent s5 = ((w2 @ [?p3]) @ [?p3]) @ [?p3]" using s5(2) by (simp_all add: sview_def)
  ultimately show ?thesis unfolding w2_def w_def by (intro exI [of _ g5] exI [of _ s5] exI [of _ ?d1] exI [of _ ?d2] exI [of _ ?d3]) simp
qed

lemma dtmf_packet_tev:
  "tev_packet tev ts (dtmf_packet s tev ts a e d q)" "markbit (rtp (dtmf_packet s tev ts a e d q)) = a"
  "tev_ended (dtmf_packet s tev ts a e d q) = e" "seq_number (rtp (dtmf_packet s tev ts a e d q)) = q"
  by (cases e; simp add: dtmf_packet_def tev_packet_def tev_ended_def tev_bytes_def be16_bytes_def)+

lemma dtmf_packet_ok: "telephone_events_pt (snd_dir s) < 128 \<Longrightarrow> rtp_mblk_ok (dtmf_packet s tev ts a e d q)"
  by (simp add: rtp_mblk_ok_def dtmf_packet_def)

text \<open>C19: a DTMF digit leaves as five packets: start, continuation, and the end three times under one sequence number. A
  receiver that reads all of them from the wire tells its application of the digit exactly once.\<close>

theorem dtmf_digit_reported_once:
  assumes "session_mode s \<noteq> RTP_SESSION_SENDONLY" and "sd_ok s" and "tev_type_of c = Some tev"
    and "0 \<le> telephone_events_pt (snd_dir s)" and "telephone_events_pt (snd_dir s) < 128" and "q = snd_seq (sstate (rstream s))"
  shows "\<exists>g' s' ws. rtp_session_send_dtmf2 env c ts duration (g, s) = Some (0, g', s') \<and> rtp_sent s' = rtp_sent s @ ws
    \<and> map (seq_number \<circ> rtp \<circ> rtp_mblk_of) ws = [q, q + 1, q + 2, q + 2, q + 2] \<and> snd_seq (sstate (rstream s')) = q + 3
    \<and> tev_count tev (foldl rtp_session_check_telephone_events r (map rtp_mblk_of ws)) = tev_count tev r + 1"
proof -
  obtain g' s' d1 d2 d3 where r: "rtp_session_send_dtmf2 env c ts duration (g, s) = Some (0, g', s')" "snd_seq (sstate (rstream s')) = q + 3"
    "rtp_sent s' = rtp_sent s @ map rtp_bytes [dtmf_packet s tev ts True False d1 q, dtmf_packet s tev ts False False d2 (q + 1),
        dtmf_packet s tev ts False True d3 (q + 2), dtmf_packet s tev ts False True d3 (q + 2), dtmf_packet s tev ts False True d3 (q + 2)]"
    using send_dtmf2_ok [OF assms, of env ts duration g] by blast
  note rd = rtp_bytes_read(1) [OF dtmf_packet_ok [OF assms(5)]]
  define p where "p = dtmf_packet s tev ts True False d1 q"
  define ps where "ps = [dtmf_packet s tev ts False False d2 (q + 1), dtmf_packet s tev ts False True d3 (q + 2),
     dtmf_packet s tev ts False True d3 (q + 2), dtmf_packet s tev ts False True d3 (q + 2)]"
  have ws: "map rtp_mblk_of (map rtp_bytes (p # ps)) = p # ps" by (simp add: p_def ps_def rd)
  have f: "tev_tracks tev ts (tev_count tev r) (rtp_session_check_telephone_events r p)"
    "map_option tev_ended (current_tev (rtp_session_check_telephone_events r p)) = Some False"
    using check_first [of tev ts p r, OF _ _ refl] by (simp_all add: p_def dtmf_packet_tev)
  have "tev_count tev (foldl rtp_session_check_telephone_events r (p # ps)) = tev_count tev r + 1"
    using check_rest [OF _ f(1), of ps] by (simp add: ps_def dtmf_packet_tev)
  moreover have "map (seq_number \<circ> rtp) (p # ps) = [q, q + 1, q + 2, q + 2, q + 2]" by (simp add: p_def ps_def dtmf_packet_tev)
  ultimately show ?thesis
    using r by (intro exI [of _ g'] exI [of _ s'] exI [of _ "map rtp_bytes (p # ps)"]) (simp add: p_def ps_def rd comp_assoc del: foldl.simps)
qed

theorem dtmf_digit_reported_once_witness:
  "\<exists>g' s' ws. rtp_session_send_dtmf2 demo_env (CHR 0x23) 1600 480 (rtp_stats_reset, demo_sender) = Some (0, g', s')
    \<and> tev_count 11 (foldl rtp_session_check_telephone_events demo_session (map rtp_mblk_of (rtp_sent s'))) = 1"
proof -
  have "tev_count 11 demo_session = 0" by (simp add: tev_count_def demo_session_def)
  then show ?thesis
    using dtmf_digit_reported_once [of demo_sender "CHR 0x23" 11 0 demo_env 1600 480 rtp_stats_reset demo_session] demo_sender_ok
    by (auto simp: tev_type_of_def)
qed

section \<open>Delivery\<close>

text \<open>One step takes a prefix of the jitter buffer and delivers its last packet, with a corrected timestamp.\<close>

definition corrected :: "rtp_mblk \<Rightarrow> u32 \<Rightarrow> rtp_mblk" where
  "corrected m t = m\<lparr>rtp := (rtp m)\<lparr>timestamp := t\<rparr>\<rparr>"

definition late :: "RtpSession \<Rightarrow> u64" where
  "late s = st_outoftime (stats (rstream s))"

lemma getq_prefix: "\<exists>pre post. q = pre @ post \<and> rtp_getq q ts = (if pre = [] then None else Some (last pre), length pre - 1, post)"
proof -
  obtain rest where r: "q = due_run ts q @ rest" using due_run_prefix by blast
  have "rtp_getq q ts = (if due_run ts q = [] then None else Some (last (due_run ts q)), length (due_run ts q) - 1, rest)"
    unfolding rtp_getq_eq Let_def by (subst (4) r) simp
  with r show ?thesis by blast
qed

lemma getq_permissive_prefix:
  "\<exists>pre post. q = pre @ post \<and> rtp_getq_permissive q ts = (if pre = [] then None else Some (last pre), length pre - 1, post)"
  by (cases q) (auto simp: rtp_getq_permissive_def intro: exI [of _ "[_]"])

lemma recv_sync_queue: "recv_sync ts s = Some s' \<Longrightarrow> rq (rstream s') = rq (rstream s) \<and> late s' = late s"
  by (auto simp: recv_sync_def late_def rtp_session_unset_flag_def Let_def split: if_splits list.splits)

lemma recv_get_prefix:
  assumes "recv_get ts (g, s) = (r, g', s')"
  shows "\<exists>pre. rq (rstream s) = pre @ rq (rstream s') \<and> r = (if pre = [] then None else Some (last pre))
    \<and> late s' = late s + of_nat (length pre - 1)"
proof -
  let ?q = "rq (rstream s)" and ?ts = "jitter_control_get_compensated_timestamp (jittctl (rstream s)) ts"
  let ?r = "if enabled (jittctl (rstream s)) then if permissive s then rtp_getq_permissive ?q ?ts else rtp_getq ?q ?ts
            else (case ?q of [] \<Rightarrow> (None, 0, []) | m # r \<Rightarrow> (Some m, 0, r))"
  have "\<exists>pre post. ?q = pre @ post \<and> ?r = (if pre = [] then None else Some (last pre), length pre - 1, post)"
    using getq_prefix [of ?q ?ts] getq_permissive_prefix [of ?q ?ts] by (cases ?q) (auto intro: exI [of _ "[_]"])
  then obtain pre post where p: "?q = pre @ post" "?r = (if pre = [] then None else Some (last pre), length pre - 1, post)" by blast
  have "rq (rstream s') = post" "r = (if pre = [] then None else Some (last pre))" "late s' = late s + of_nat (length pre - 1)"
    using assms unfolding recv_get_def Let_def split p(2) by (auto simp: on_stats_def late_def count_late_def)
  then show ?thesis using p(1) by blast
qed

lemma notify_rstream [simp]: "rstream (payload_type_changed_notify s pt) = rstream s"
  by (simp add: payload_type_changed_notify_def emit_def split: option.splits)

lemma recv_deliver_packet:
  assumes "recv_deliver m (g, s) = (mp, g', s')"
  shows "\<exists>t. mp = corrected m t" "rq (rstream s') = rq (rstream s)" "late s' = late s"
proof -
  have "fst (recv_deliver m (g, s)) = m \<or> (\<exists>t. fst (recv_deliver m (g, s)) = corrected m t)"
    by (auto simp: recv_deliver_def corrected_def Let_def split_beta)
  moreover have "m = corrected m (timestamp (rtp m))" by (simp add: corrected_def)
  ultimately show "\<exists>t. mp = corrected m t" using assms by (metis fst_conv)
  have "rq (rstream (snd (snd (recv_deliver m (g, s))))) = rq (rstream s)" "late (snd (snd (recv_deliver m (g, s)))) = late s"
    by (simp_all add: recv_deliver_def Let_def on_stats_def late_def count_recv_def rtp_session_set_flag_def split_beta)
  then show "rq (rstream s') = rq (rstream s)" "late s' = late s" using assms by simp_all
qed

lemma recv_media_prefix:
  assumes "recv_media ts (g, s) = (r, g', s')"
  shows "\<exists>pre. rq (rstream s) = pre @ rq (rstream s') \<and> late s' = late s + of_nat (length pre - 1)
    \<and> (case r of None \<Rightarrow> pre = [] | Some mp \<Rightarrow> pre \<noteq> [] \<and> (\<exists>t. mp = corrected (last pre) t))"
proof (cases "recv_sync ts s")
  case None
  then show ?thesis using assms by (simp add: recv_media_def)
next
  case (Some s1)
  obtain r1 g2 s2 where g: "recv_get ts (g, s1) = (r1, g2, s2)" by (metis prod_cases3)
  obtain pre where pre: "rq (rstream s1) = pre @ rq (rstream s2)" "r1 = (if pre = [] then None else Some (last pre))"
      "late s2 = late s1 + of_nat (length pre - 1)" using recv_get_prefix [OF g] by blast
  note q = recv_sync_queue [OF Some]
  show ?thesis
  proof (cases "pre = []")
    case True
    then have "r = None" "s' = s2" using assms Some g pre(2) by (simp_all add: recv_media_def)
    then show ?thesis using True pre q by simp
  next
    case False
    obtain mp p where d0: "recv_deliver (last pre) (g2, s2) = (mp, p)" by (meson surj_pair)
    then have d: "recv_deliver (last pre) (g2, s2) = (mp, g', s')" "r = Some mp"
      using assms Some g pre(2) False by (auto simp: recv_media_def)
    then show ?thesis using recv_deliver_packet [OF d(1)] False pre q by auto
  qed
qed

text \<open>What a query of the application leaves alone.\<close>

definition rest_of :: "RtpSession \<Rightarrow> rtp_mblk list \<times> u64 \<times> u64 \<times> nat \<times> int \<times> u32 \<times> int \<times> int \<times> bool" where
  "rest_of s = (tev_rq (rstream s), st_bad (stats (rstream s)), st_discarded (stats (rstream s)), length (filter is_stun (events s)),
     max_rq_size (rstream s), ts_jump (rstream s), hw_recv_pt s, telephone_events_pt (rcv_dir s), ssrc_set s)"

abbreviation delivered_one :: "RtpSession \<Rightarrow> bool" where
  "delivered_one s \<equiv> has_flag s RTP_SESSION_FIRST_PACKET_DELIVERED"

abbreviation last_ts :: "RtpSession \<Rightarrow> u32" where
  "last_ts s \<equiv> rcv_last_ts (rstate (rstream s))"

lemma delivered_unset_sync [simp]: "delivered_one (rtp_session_unset_flag s RTP_SESSION_RECV_SYNC) = delivered_one s"
proof -
  have "NOT (1 :: u32) AND 2 = 2" by simp
  then have "(f AND NOT 1) AND 2 = f AND (2 :: u32)" for f by (simp only: and.assoc)
  then show ?thesis
    by (simp add: has_flag_def rtp_session_unset_flag_def RTP_SESSION_RECV_SYNC_def RTP_SESSION_FIRST_PACKET_DELIVERED_def)
qed

lemma delivered_set [simp]: "delivered_one (rtp_session_set_flag s RTP_SESSION_FIRST_PACKET_DELIVERED)"
proof -
  have "(f OR 2) AND 2 = (2 :: u32)" for f by (simp add: bit_eq_iff bit_simps)
  then show ?thesis by (simp add: has_flag_def rtp_session_set_flag_def RTP_SESSION_FIRST_PACKET_DELIVERED_def)
qed

lemma recv_sync_rest:
  assumes "recv_sync ts s = Some s'"
  shows "rest_of s' = rest_of s \<and> delivered_one s' = delivered_one s \<and> last_ts s' = last_ts s
    \<and> (dir_ssrc (rcv_dir s') = dir_ssrc (rcv_dir s) \<or> (\<exists>m \<in> set (rq (rstream s)). dir_ssrc (rcv_dir s') = ssrc (rtp m)))"
proof (cases "has_flag s RTP_SESSION_RECV_SYNC")
  case True
  then obtain m q where q: "rq (rstream s) = m # q" using assms by (auto simp: recv_sync_def split: list.splits)
  define s1 where "s1 = s\<lparr>rstream := (rstream s)\<lparr>rstate := (rstate (rstream s))\<lparr>rcv_ts_offset := timestamp (rtp m), rcv_last_ret_ts := ts\<rparr>\<rparr>,
                     rcv_dir := (rcv_dir s)\<lparr>dir_ssrc := ssrc (rtp m)\<rparr>\<rparr>"
  have s': "s' = rtp_session_unset_flag s1 RTP_SESSION_RECV_SYNC" using assms True by (simp add: recv_sync_def q Let_def s1_def)
  have "delivered_one s1 = delivered_one s" by (simp add: has_flag_def s1_def)
  moreover have "rest_of s' = rest_of s" "last_ts s' = last_ts s" "dir_ssrc (rcv_dir s') = ssrc (rtp m)"
    by (simp_all add: s' rest_of_def rtp_session_unset_flag_def s1_def)
  ultimately show ?thesis by (simp add: s' q)
qed (use assms in \<open>simp add: recv_sync_def\<close>)

lemma recv_get_rest:
  assumes "recv_get ts (g, s) = (r, g', s')"
  shows "rest_of s' = rest_of s \<and> delivered_one s' = delivered_one s \<and> last_ts s' = last_ts s
    \<and> dir_ssrc (rcv_dir s') = dir_ssrc (rcv_dir s)"
  using assms by (auto simp: recv_get_def Let_def on_stats_def count_late_def rest_of_def has_flag_def split: prod.splits)

lemma notify_rest:
  "rest_of (payload_type_changed_notify s pt) = rest_of s" "delivered_one (payload_type_changed_notify s pt) = delivered_one s"
  "dir_ssrc (rcv_dir (payload_type_changed_notify s pt)) = dir_ssrc (rcv_dir s)"
  by (simp_all add: payload_type_changed_notify_def emit_def rest_of_def has_flag_def split: option.splits)

lemma recv_deliver_rest:
  assumes "recv_deliver m (g, s) = (mp, g', s')"
  shows "rest_of s' = rest_of s \<and> delivered_one s' \<and> last_ts s' = timestamp (rtp m) \<and> dir_ssrc (rcv_dir s') = dir_ssrc (rcv_dir s)"
proof -
  let ?p = "snd (snd (recv_deliver m (g, s)))"
  have "rest_of ?p = rest_of s" "last_ts ?p = timestamp (rtp m)" "dir_ssrc (rcv_dir ?p) = dir_ssrc (rcv_dir s)"
    by (simp_all add: recv_deliver_def Let_def on_stats_def count_recv_def rtp_session_set_flag_def split_beta rest_of_def
        payload_type_changed_notify_def emit_def split: option.splits)
  moreover have "delivered_one ?p" unfolding recv_deliver_def Let_def split_beta by simp
  ultimately show ?thesis using assms by simp
qed

lemma recv_media_rest:
  assumes "recv_media ts (g, s) = (r, g', s')"
  shows "rest_of s' = rest_of s"
    and "dir_ssrc (rcv_dir s') = dir_ssrc (rcv_dir s) \<or> (\<exists>m \<in> set (rq (rstream s)). dir_ssrc (rcv_dir s') = ssrc (rtp m))"
    and "\<exists>pre. rq (rstream s) = pre @ rq (rstream s') \<and> late s' = late s + of_nat (length pre - 1)
       \<and> (case r of None \<Rightarrow> pre = [] \<and> delivered_one s' = delivered_one s \<and> last_ts s' = last_ts s
          | Some mp \<Rightarrow> pre \<noteq> [] \<and> (\<exists>t. mp = corrected (last pre) t) \<and> delivered_one s' \<and> last_ts s' = timestamp (rtp (last pre)))"
proof -
  have "rest_of s' = rest_of s
    \<and> (dir_ssrc (rcv_dir s') = dir_ssrc (rcv_dir s) \<or> (\<exists>m \<in> set (rq (rstream s)). dir_ssrc (rcv_dir s') = ssrc (rtp m)))
    \<and> (\<exists>pre. rq (rstream s) = pre @ rq (rstream s') \<and> late s' = late s + of_nat (length pre - 1)
       \<and> (case r of None \<Rightarrow> pre = [] \<and> delivered_one s' = delivered_one s \<and> last_ts s' = last_ts s
          | Some mp \<Rightarrow> pre \<noteq> [] \<and> (\<exists>t. mp = corrected (last pre) t) \<and> delivered_one s' \<and> last_ts s' = timestamp (rtp (last pre))))"
  proof (cases "recv_sync ts s")
    case None
    then show ?thesis using assms by (simp add: recv_media_def)
  next
    case (Some s1)
    obtain r1 g2 s2 where g: "recv_get ts (g, s1) = (r1, g2, s2)" by (metis prod_cases3)
    obtain pre where pre: "rq (rstream s1) = pre @ rq (rstream s2)" "r1 = (if pre = [] then None else Some (last pre))"
        "late s2 = late s1 + of_nat (length pre - 1)" using recv_get_prefix [OF g] by blast
    note q = recv_sync_queue [OF Some] and u = recv_sync_rest [OF Some] recv_get_rest [OF g]
    show ?thesis
    proof (cases "pre = []")
      case True
      then have "r = None" "s' = s2" using assms Some g pre(2) by (simp_all add: recv_media_def)
      then show ?thesis using True pre q u by simp
    next
      case False
      obtain mp p where d0: "recv_deliver (last pre) (g2, s2) = (mp, p)" by (meson surj_pair)
      then have d: "recv_deliver (last pre) (g2, s2) = (mp, g', s')" "r = Some mp"
        using assms Some g pre(2) False by (auto simp: recv_media_def)
      then show ?thesis using recv_deliver_packet [OF d(1)] recv_deliver_rest [OF d(1)] False pre q u by simp
    qed
  qed
  then show "rest_of s' = rest_of s"
    and "dir_ssrc (rcv_dir s') = dir_ssrc (rcv_dir s) \<or> (\<exists>m \<in> set (rq (rstream s)). dir_ssrc (rcv_dir s') = ssrc (rtp m))"
    and "\<exists>pre. rq (rstream s) = pre @ rq (rstream s') \<and> late s' = late s + of_nat (length pre - 1)
       \<and> (case r of None \<Rightarrow> pre = [] \<and> delivered_one s' = delivered_one s \<and> last_ts s' = last_ts s
          | Some mp \<Rightarrow> pre \<noteq> [] \<and> (\<exists>t. mp = corrected (last pre) t) \<and> delivered_one s' \<and> last_ts s' = timestamp (rtp (last pre)))"
    by blast+
qed

text \<open>A query delivers or counts every packet that it takes from the buffer.\<close>

lemma recv_media_accounted:
  assumes "recv_media ts (g, s) = (r, g', s')"
  shows "accounted s' + (case r of None \<Rightarrow> 0 | Some _ \<Rightarrow> 1) = accounted s"
proof -
  obtain pre where pre: "rq (rstream s) = pre @ rq (rstream s')" "late s' = late s + of_nat (length pre - 1)" "(r = None) = (pre = [])"
    using recv_media_rest(3) [OF assms] by (cases r) auto
  have "of_nat (length pre) = of_nat (length pre - 1) + (if pre = [] then 0 else 1 :: u64)" by (cases pre) simp_all
  then show ?thesis using recv_media_rest(1) [OF assms] pre by (auto simp: accounted_def rest_of_def late_def split: option.splits)
qed

text \<open>What a datagram of the stream leaves alone, and when its packet gets into the buffer.\<close>

definition fixed_of :: "RtpSession \<Rightarrow> int \<times> u32 \<times> int \<times> int \<times> bool \<times> u32" where
  "fixed_of s = (max_rq_size (rstream s), ts_jump (rstream s), hw_recv_pt s, telephone_events_pt (rcv_dir s), delivered_one s, last_ts s)"

definition rtp_header_ok :: "bytes \<Rightarrow> bool" where
  "rtp_header_ok bs \<longleftrightarrow> RTP_FIXED_HEADER_SIZE \<le> length bs \<and> version (rtp_header_of bs) = 2
     \<and> cc (rtp_header_of bs) * 4 \<le> length bs - RTP_FIXED_HEADER_SIZE"

definition in_time :: "u32 \<Rightarrow> RtpSession \<Rightarrow> bool" where
  "in_time ts s \<longleftrightarrow> (delivered_one s \<longrightarrow> RTP_TIMESTAMP_IS_NEWER_THAN ts (last_ts s + ts_jump (rstream s))
     \<or> \<not> RTP_TIMESTAMP_IS_STRICTLY_NEWER_THAN (last_ts s) ts)"

lemma fixed_steps [simp]:
  "fixed_of (emit s e) = fixed_of s" "fixed_of (store_sender addr s) = fixed_of s" "fixed_of (seq_check h s) = fixed_of s"
  "fixed_of (s\<lparr>last_recv_time := now\<rparr>) = fixed_of s"
  "fixed_of (s\<lparr>rstream := (rstream s)\<lparr>jittctl := j\<rparr>\<rparr>) = fixed_of s" "fixed_of (s\<lparr>rstream := (rstream s)\<lparr>tev_rq := q\<rparr>\<rparr>) = fixed_of s"
  "fixed_of (s\<lparr>rstream := (rstream s)\<lparr>rstate := (rstate (rstream s))\<lparr>hwrcv_since_last_SR := n\<rparr>\<rparr>\<rparr>) = fixed_of s"
  "fixed_of (s\<lparr>rstream := (rstream s)\<lparr>rq := q\<rparr>\<rparr>) = fixed_of s" "fixed_of (s\<lparr>rstream := (rstream s)\<lparr>rq := q, jittctl := j\<rparr>\<rparr>) = fixed_of s"
  by (simp_all add: fixed_of_def has_flag_def emit_def store_sender_def seq_check_def Let_def)

lemma fixed_on_stats: "on_stats f (g, s) = (g', s') \<Longrightarrow> fixed_of s' = fixed_of s \<and> ssrc_set s' = ssrc_set s \<and> rcv_dir s' = rcv_dir s \<and> rq (rstream s') = rq (rstream s)"
  by (auto simp: on_stats_def fixed_of_def has_flag_def)

lemma source_steps [simp]:
  "ssrc_set (emit s e) = ssrc_set s" "rcv_dir (emit s e) = rcv_dir s" "rstream (emit s e) = rstream s"
  "ssrc_set (store_sender addr s) = ssrc_set s" "rcv_dir (store_sender addr s) = rcv_dir s" "rq (rstream (store_sender addr s)) = rq (rstream s)"
  "ssrc_set (seq_check h s) = ssrc_set s" "rcv_dir (seq_check h s) = rcv_dir s" "rq (rstream (seq_check h s)) = rq (rstream s)"
  by (simp_all add: emit_def store_sender_def seq_check_def Let_def)

lemma ssrc_check_same:
  assumes "ssrc_set s \<Longrightarrow> dir_ssrc (rcv_dir s) = ssrc h"
  shows "\<exists>s'. ssrc_check h addr s = (True, s') \<and> fixed_of s' = fixed_of s \<and> dir_ssrc (rcv_dir s') = ssrc h \<and> rq (rstream s') = rq (rstream s)"
proof (cases "ssrc_set s")
  case True
  then show ?thesis using assms by (simp add: ssrc_check_def fixed_of_def has_flag_def)
next
  case False
  have "fixed_of (s\<lparr>ssrc_set := True, rcv_dir := (rcv_dir s)\<lparr>dir_ssrc := ssrc h\<rparr>\<rparr>) = fixed_of s"
    by (simp add: fixed_of_def has_flag_def)
  then show ?thesis using False by (simp add: ssrc_check_def)
qed

lemma jump_check_in_time: "jump_check h s = (ok, s') \<Longrightarrow> ok = in_time (timestamp h) s \<and> fixed_of s' = fixed_of s
    \<and> ssrc_set s' = ssrc_set s \<and> rcv_dir s' = rcv_dir s \<and> rq (rstream s') = rq (rstream s)"
  by (auto simp: jump_check_def in_time_def Let_def split: if_splits)

lemma in_time_fixed: "fixed_of s' = fixed_of s \<Longrightarrow> in_time ts s' = in_time ts s"
  by (simp add: in_time_def fixed_of_def)

lemma queue_packet_queue: "0 \<le> mx \<Longrightarrow> queue_packet q mx m = Some (b, d, q') \<Longrightarrow> q' = q \<or> (\<exists>k. q' = drop k (rtp_putq q m))"
  by (auto simp: queue_packet_ok split: if_splits)

lemma queue_media_stream:
  assumes "0 \<le> max_rq_size (rstream s)" "hw_recv_pt s = int (paytype (rtp m))" "queue_media m ts (g, s) = Some (g', s')"
  shows "fixed_of s' = fixed_of s \<and> ssrc_set s' = ssrc_set s \<and> rcv_dir s' = rcv_dir s
    \<and> (rq (rstream s') = rq (rstream s) \<or> in_time (timestamp (rtp m)) s \<and> (\<exists>k. rq (rstream s') = drop k (rtp_putq (rq (rstream s)) m)))"
proof -
  define s2 where "s2 = s\<lparr>rstream := (rstream s)\<lparr>jittctl := jitter_control_new_packet (jittctl (rstream s)) (timestamp (rtp m)) ts\<rparr>\<rparr>"
  obtain ok s3 where j: "jump_check (rtp m) s2 = (ok, s3)" by force
  have s2: "fixed_of s2 = fixed_of s" "ssrc_set s2 = ssrc_set s" "rcv_dir s2 = rcv_dir s" "rq (rstream s2) = rq (rstream s)"
    unfolding s2_def by simp_all
  note s3 = jump_check_in_time [OF j]
  have mx: "max_rq_size (rstream s3) = max_rq_size (rstream s)" using s2(1) s3 by (simp add: fixed_of_def)
  have e: "queue_media m ts (g, s) = (if \<not> ok then Some (on_stats count_outoftime (g, s3))
       else map_option (\<lambda>(queued, d, q).
              let st = (rstream s3)\<lparr>rq := q\<rparr>;
                  st' = (if queued then st\<lparr>jittctl := jitter_control_update_size (jittctl st) q\<rparr> else st)
              in on_stats (count_discarded d) (g, s3\<lparr>rstream := st'\<rparr>))
            (queue_packet (rq (rstream s3)) (max_rq_size (rstream s3)) m))"
    using assms(2) j by (simp add: queue_media_def Let_def s2_def)
  show ?thesis
  proof (cases ok)
    case False
    then have "on_stats count_outoftime (g, s3) = (g', s')" using assms(3) e by simp
    from fixed_on_stats [OF this] show ?thesis using s2 s3 by simp
  next
    case True
    obtain b d q where q: "queue_packet (rq (rstream s3)) (max_rq_size (rstream s3)) m = Some (b, d, q)"
      using assms(3) e True by (auto simp: Let_def)
    define s4 where "s4 = s3\<lparr>rstream := (if b then (rstream s3)\<lparr>rq := q, jittctl := jitter_control_update_size (jittctl (rstream s3)) q\<rparr>
        else (rstream s3)\<lparr>rq := q\<rparr>)\<rparr>"
    have "on_stats (count_discarded d) (g, s4) = (g', s')" using assms(3) e True q by (cases b) (simp_all add: Let_def s4_def)
    moreover have "fixed_of s4 = fixed_of s3" "ssrc_set s4 = ssrc_set s3" "rcv_dir s4 = rcv_dir s3" "rq (rstream s4) = q"
      by (cases b; simp add: s4_def)+
    moreover have "in_time (timestamp (rtp m)) s2" using s3 True by simp
    then have "in_time (timestamp (rtp m)) s" using in_time_fixed [OF s2(1)] by simp
    moreover have "q = rq (rstream s) \<or> (\<exists>k. q = drop k (rtp_putq (rq (rstream s)) m))"
      using queue_packet_queue [OF _ q] assms(1) mx s2 s3 by simp
    ultimately show ?thesis using fixed_on_stats [of "count_discarded d" g s4 g' s'] s2 s3 by auto
  qed
qed

lemma queue_tev_stream:
  assumes "queue_tev m (g, s) = Some (g', s')"
  shows "fixed_of s' = fixed_of s \<and> ssrc_set s' = ssrc_set s \<and> rcv_dir s' = rcv_dir s \<and> rq (rstream s') = rq (rstream s)"
proof -
  obtain q d where "on_stats (count_discarded d) (g, s\<lparr>rstream := (rstream s)\<lparr>tev_rq := q\<rparr>\<rparr>) = (g', s')"
    using assms by (auto simp: queue_tev_def)
  from fixed_on_stats [OF this] show ?thesis by simp
qed

lemma parse_stream:
  assumes "0 \<le> max_rq_size (rstream s)" "rtp_header_ok mp \<Longrightarrow> ssrc (rtp_header_of mp) = S" "ssrc_set s \<Longrightarrow> dir_ssrc (rcv_dir s) = S"
    and "rtp_header_ok mp \<Longrightarrow> int (paytype (rtp_header_of mp)) \<noteq> telephone_events_pt (rcv_dir s) \<Longrightarrow> int (paytype (rtp_header_of mp)) = hw_recv_pt s"
    and "rtp_session_rtp_parse now mp ts addr (g, s) = Some (g', s')"
  shows "fixed_of s' = fixed_of s \<and> (ssrc_set s' \<longrightarrow> dir_ssrc (rcv_dir s') = S)
    \<and> (rq (rstream s') = rq (rstream s) \<or> rtp_header_ok mp \<and> int (paytype (rtp_header_of mp)) \<noteq> telephone_events_pt (rcv_dir s)
        \<and> in_time (timestamp (rtp_header_of mp)) s \<and> (\<exists>k. rq (rstream s') = drop k (rtp_putq (rq (rstream s)) (rtp_mblk_of mp))))"
proof -
  let ?h = "rtp_header_of mp"
  obtain g1 s1 where s1: "on_stats (count_received (of_nat (length mp))) (g, s) = (g1, s1)" by force
  define s2 where "s2 = s1\<lparr>rstream := (rstream s1)\<lparr>rstate := (rstate (rstream s1))\<lparr>hwrcv_since_last_SR := hwrcv_since_last_SR (rstate (rstream s1)) + 1\<rparr>\<rparr>\<rparr>"
  obtain ok s4 where s4: "ssrc_check ?h addr (s2\<lparr>last_recv_time := now\<rparr>) = (ok, s4)" by force
  have unf: "rtp_session_rtp_parse now mp ts addr (g, s) =
    (if length mp < RTP_FIXED_HEADER_SIZE then Some (on_stats count_bad (g, s))
     else if version ?h \<noteq> 2 then
      (if unat (read16 mp 2) + 20 = length mp \<and> eventqs s \<noteq> 0 then Some (g, emit s (Stun_packet mp addr))
       else Some (on_stats count_bad (g, s)))
     else if cc ?h * 4 > length mp - RTP_FIXED_HEADER_SIZE then Some (on_stats count_bad (g1, s2))
     else if \<not> ok then Some (on_stats count_bad (g1, s4))
     else if int (paytype ?h) = telephone_events_pt (rcv_dir (seq_check ?h s4)) then queue_tev (rtp_mblk_of mp) (g1, seq_check ?h s4)
     else queue_media (rtp_mblk_of mp) ts (g1, seq_check ?h s4))"
    using s1 s4 by (simp add: rtp_session_rtp_parse_def s2_def Let_def)
  have f2: "fixed_of s2 = fixed_of s" "ssrc_set s2 = ssrc_set s" "rcv_dir s2 = rcv_dir s" "rq (rstream s2) = rq (rstream s)"
    using fixed_on_stats [OF s1] unfolding s2_def by simp_all
  show ?thesis
  proof (cases "rtp_header_ok mp")
    case False
    then have "g' = g \<and> s' = emit s (Stun_packet mp addr) \<or> on_stats count_bad (g, s) = (g', s') \<or> on_stats count_bad (g1, s2) = (g', s')"
      using assms(5) unfolding unf rtp_header_ok_def by (auto split: if_splits)
    then show ?thesis using fixed_on_stats [of count_bad g s g' s'] fixed_on_stats [of count_bad g1 s2 g' s'] f2 assms(3) by auto
  next
    case True
    obtain s5 where s5: "ssrc_check ?h addr (s2\<lparr>last_recv_time := now\<rparr>) = (True, s5)" "fixed_of s5 = fixed_of s" "dir_ssrc (rcv_dir s5) = S"
        "rq (rstream s5) = rq (rstream s)"
      using ssrc_check_same [of "s2\<lparr>last_recv_time := now\<rparr>" ?h addr] assms(2) [OF True] assms(3) f2 by auto
    let ?s6 = "seq_check ?h s5"
    have f6: "fixed_of ?s6 = fixed_of s" using s5 by simp
    have par: "(if int (paytype ?h) = telephone_events_pt (rcv_dir ?s6) then queue_tev (rtp_mblk_of mp) (g1, ?s6)
        else queue_media (rtp_mblk_of mp) ts (g1, ?s6)) = Some (g', s')"
      using assms(5) True s4 s5(1) unfolding unf rtp_header_ok_def by auto
    have tp: "telephone_events_pt (rcv_dir ?s6) = telephone_events_pt (rcv_dir s)" "hw_recv_pt ?s6 = hw_recv_pt s"
        "max_rq_size (rstream ?s6) = max_rq_size (rstream s)"
      using f6 by (simp_all only: fixed_of_def prod.inject)
    show ?thesis
    proof (cases "int (paytype ?h) = telephone_events_pt (rcv_dir s)")
      case t: True
      then have "queue_tev (rtp_mblk_of mp) (g1, ?s6) = Some (g', s')" using par tp by simp
      from queue_tev_stream [OF this] show ?thesis using s5 by simp
    next
      case t: False
      then have m: "queue_media (rtp_mblk_of mp) ts (g1, ?s6) = Some (g', s')" using par tp by simp
      have h: "rtp (rtp_mblk_of mp) = ?h" by (simp add: rtp_mblk_of_def)
      have "hw_recv_pt ?s6 = int (paytype (rtp (rtp_mblk_of mp)))" using assms(4) [OF True t] tp h by simp
      from queue_media_stream [OF _ this m] assms(1) tp(3) have "fixed_of s' = fixed_of ?s6 \<and> rcv_dir s' = rcv_dir ?s6
          \<and> (rq (rstream s') = rq (rstream ?s6) \<or> in_time (timestamp ?h) ?s6 \<and> (\<exists>k. rq (rstream s') = drop k (rtp_putq (rq (rstream ?s6)) (rtp_mblk_of mp))))"
        unfolding h by simp
      then show ?thesis using True t s5 f6 in_time_fixed [OF f6] by auto
    qed
  qed
qed

lemma bad_datagram_accounted:
  assumes "\<not> rtp_header_ok mp" "rtp_session_rtp_parse now mp ts addr (g, s) = Some (g', s')"
  shows "accounted s' = accounted s + 1 \<and> rq (rstream s') = rq (rstream s) \<and> tev_rq (rstream s') = tev_rq (rstream s)"
proof -
  define s2 where "s2 = (let s1 = snd (on_stats (count_received (of_nat (length mp))) (g, s)) in
    s1\<lparr>rstream := (rstream s1)\<lparr>rstate := (rstate (rstream s1))\<lparr>hwrcv_since_last_SR := hwrcv_since_last_SR (rstate (rstream s1)) + 1\<rparr>\<rparr>\<rparr>)"
  have "s' = emit s (Stun_packet mp addr) \<or> s' = snd (on_stats count_bad (g, s)) \<or> s' = snd (on_stats count_bad (g, s2))"
    using assms unfolding rtp_session_rtp_parse_def rtp_header_ok_def Let_def s2_def split_beta
    by (auto simp: on_stats_def split: if_splits)
  moreover have "accounted s2 = accounted s" "rq (rstream s2) = rq (rstream s)" "tev_rq (rstream s2) = tev_rq (rstream s)"
    by (simp_all add: s2_def on_stats_def Let_def accounted_def count_received_def)
  moreover have "accounted (snd (on_stats count_bad (g, x))) = accounted x + 1" for x
    by (simp add: on_stats_def accounted_def count_bad_def)
  moreover have "accounted (emit s (Stun_packet mp addr)) = accounted s + 1" by (simp add: accounted_def emit_def)
  moreover have "rq (rstream (snd (on_stats count_bad (g, x)))) = rq (rstream x)" "tev_rq (rstream (snd (on_stats count_bad (g, x)))) = tev_rq (rstream x)" for x
    by (simp_all add: on_stats_def)
  ultimately show ?thesis by (elim disjE) simp_all
qed

section \<open>A stream of packets and queries\<close>

text \<open>What happens to a receiving session: a datagram arrives, or the application asks for the packet of a timestamp.\<close>

datatype rx_event = Datagram timeval bytes u32 bytes | Query u32

fun rx_run :: "rx_event list \<Rightarrow> pstate \<Rightarrow> (rtp_mblk list \<times> pstate) option" where
  "rx_run [] p = Some ([], p)"
| "rx_run (Datagram now mp ts addr # es) p = Option.bind (rtp_session_rtp_parse now mp ts addr p) (rx_run es)"
| "rx_run (Query ts # es) p = (case recv_media ts p of (r, p1) \<Rightarrow>
     map_option (\<lambda>(ms, p2). (case r of None \<Rightarrow> ms | Some m \<Rightarrow> m # ms, p2)) (rx_run es p1))"

fun datagrams :: "rx_event list \<Rightarrow> bytes list" where
  "datagrams [] = []"
| "datagrams (Datagram now mp ts addr # es) = mp # datagrams es"
| "datagrams (Query ts # es) = datagrams es"

text \<open>How many of them carry a sequence number that has been seen.\<close>

fun repeats :: "u16 set \<Rightarrow> bytes list \<Rightarrow> nat" where
  "repeats K [] = 0"
| "repeats K (mp # bs) = (if rtp_header_ok mp
     then (if seq_number (rtp_header_of mp) \<in> K then 1 else 0) + repeats (insert (seq_number (rtp_header_of mp)) K) bs
     else repeats K bs)"

definition ts_key :: "u32 \<Rightarrow> rtp_mblk \<Rightarrow> nat" where
  "ts_key t m = unat (timestamp (rtp m) - t)"

text \<open>The packets of one stream within half a circle of sequence numbers and a quarter of a circle of timestamps; the timestamps
  do not decrease with the sequence numbers.\<close>

definition stream_ok :: "u32 \<Rightarrow> int \<Rightarrow> u16 \<Rightarrow> u32 \<Rightarrow> rtp_mblk set \<Rightarrow> bool" where
  "stream_ok S P b t A \<longleftrightarrow>
     (\<forall>m \<in> A. ssrc (rtp m) = S \<and> int (paytype (rtp m)) = P \<and> seq_key b m < 2 ^ 15 \<and> ts_key t m < 2 ^ 30)
     \<and> (\<forall>x \<in> A. \<forall>y \<in> A. seq_key b x \<le> seq_key b y \<longrightarrow> ts_key t x \<le> ts_key t y)"

text \<open>The jitter buffer is in order and holds nothing older than the last packet delivered.\<close>

definition delivery_inv :: "u32 \<Rightarrow> u16 \<Rightarrow> u32 \<Rightarrow> rtp_mblk set \<Rightarrow> RtpSession \<Rightarrow> bool" where
  "delivery_inv S b t A s \<longleftrightarrow> 0 \<le> max_rq_size (rstream s) \<and> unat (ts_jump (rstream s)) \<le> 2 ^ 30 \<and> set (rq (rstream s)) \<subseteq> A
     \<and> sorted_wrt (<) (map (seq_key b) (rq (rstream s))) \<and> (ssrc_set s \<longrightarrow> dir_ssrc (rcv_dir s) = S)
     \<and> (delivered_one s \<longrightarrow> unat (last_ts s - t) < 2 ^ 30 \<and> (\<forall>m \<in> set (rq (rstream s)). unat (last_ts s - t) \<le> ts_key t m))"

lemma quarter_circle_in_time:
  fixes x y j :: u32
  assumes "unat x < 2 ^ 30" "unat y < 2 ^ 30" "unat j \<le> 2 ^ 30" "x - y - j < 0x80000000 \<or> \<not> (y - x < 0x80000000 \<and> y \<noteq> x)"
  shows "unat y \<le> unat x"
proof (rule ccontr)
  assume a: "\<not> unat y \<le> unat x"
  then have "unat (y - x) = unat y - unat x" by (simp add: unat_sub word_le_nat_alt)
  then have n: "y - x < 0x80000000" "y \<noteq> x" using assms(1,2) a by (auto simp: word_less_nat_alt)
  have "unat (x - y) = 2 ^ 32 + unat x - unat y" using unat_sub_if' [of x y] a by (simp add: word_le_nat_alt)
  then have "unat (x - y - j) = 2 ^ 32 + unat x - unat y - unat j"
    using assms(1-3) a unat_sub_if' [of "x - y" j] by (simp add: word_le_nat_alt)
  then have "\<not> x - y - j < 0x80000000" using assms(1-3) a by (simp add: word_less_nat_alt)
  with n assms(4) show False by blast
qed

lemma in_time_key:
  assumes "in_time (timestamp (rtp m)) s" "delivered_one s" "unat (last_ts s - t) < 2 ^ 30" "ts_key t m < 2 ^ 30"
    and "unat (ts_jump (rstream s)) \<le> 2 ^ 30"
  shows "unat (last_ts s - t) \<le> ts_key t m"
  unfolding ts_key_def
  by (rule quarter_circle_in_time [OF assms(4) [unfolded ts_key_def] assms(3,5)])
     (use assms(1,2) in \<open>auto simp: in_time_def RTP_TIMESTAMP_IS_NEWER_THAN_def RTP_TIMESTAMP_IS_STRICTLY_NEWER_THAN_def algebra_simps\<close>)

lemma putq_drop_sorted:
  assumes "seq_window b (m # q)" "sorted_wrt (<) (map (seq_key b) q)"
  shows "sorted_wrt (<) (map (seq_key b) (drop k (rtp_putq q m)))" "set (drop k (rtp_putq q m)) \<subseteq> insert m (set q)"
proof -
  have p: "rtp_putq q m = ins_by_key (seq_key b) m q" by (rule rtp_putq_ins [OF assms])
  show "sorted_wrt (<) (map (seq_key b) (drop k (rtp_putq q m)))"
    unfolding p drop_map [symmetric] by (rule sorted_wrt_drop [OF ins_by_key_sorted [OF assms(2)]])
  show "set (drop k (rtp_putq q m)) \<subseteq> insert m (set q)"
    unfolding p using ins_by_key_set(1) set_drop_subset by fastforce
qed

text \<open>A datagram of the stream keeps the order.\<close>

lemma datagram_step:
  assumes inv: "delivery_inv S b t A s" and st: "stream_ok S (hw_recv_pt s) b t A"
    and mp: "rtp_header_ok mp \<Longrightarrow> ssrc (rtp_header_of mp) = S
      \<and> (int (paytype (rtp_header_of mp)) = telephone_events_pt (rcv_dir s) \<or> rtp_mblk_of mp \<in> A)"
    and r: "rtp_session_rtp_parse now mp ts addr (g, s) = Some (g', s')"
  shows "delivery_inv S b t A s' \<and> fixed_of s' = fixed_of s"
proof -
  have h: "rtp (rtp_mblk_of mp) = rtp_header_of mp" by (simp add: rtp_mblk_of_def)
  have "int (paytype (rtp_header_of mp)) = hw_recv_pt s"
    if "rtp_header_ok mp" "int (paytype (rtp_header_of mp)) \<noteq> telephone_events_pt (rcv_dir s)"
    using mp [OF that(1)] that(2) st h unfolding stream_ok_def by fastforce
  then have p: "fixed_of s' = fixed_of s \<and> (ssrc_set s' \<longrightarrow> dir_ssrc (rcv_dir s') = S)
    \<and> (rq (rstream s') = rq (rstream s) \<or> rtp_header_ok mp \<and> int (paytype (rtp_header_of mp)) \<noteq> telephone_events_pt (rcv_dir s)
        \<and> in_time (timestamp (rtp_header_of mp)) s \<and> (\<exists>k. rq (rstream s') = drop k (rtp_putq (rq (rstream s)) (rtp_mblk_of mp))))"
    using inv mp unfolding delivery_inv_def by (intro parse_stream [OF _ _ _ _ r]) auto
  have f: "max_rq_size (rstream s') = max_rq_size (rstream s)" "ts_jump (rstream s') = ts_jump (rstream s)"
      "delivered_one s' = delivered_one s" "last_ts s' = last_ts s"
    using p by (simp_all add: fixed_of_def)
  show ?thesis
  proof (cases "rq (rstream s') = rq (rstream s)")
    case True
    then show ?thesis using inv p f by (simp add: delivery_inv_def)
  next
    case False
    let ?m = "rtp_mblk_of mp"
    obtain k where k: "rq (rstream s') = drop k (rtp_putq (rq (rstream s)) ?m)" and it: "in_time (timestamp (rtp ?m)) s" and A: "?m \<in> A"
      using p False mp h by auto
    have w: "seq_window b (?m # rq (rstream s))" and ts: "ts_key t ?m < 2 ^ 30"
      using st A inv by (auto simp: seq_window_def stream_ok_def delivery_inv_def)
    have "sorted_wrt (<) (map (seq_key b) (rq (rstream s)))" using inv by (simp add: delivery_inv_def)
    note q = putq_drop_sorted [OF w this, of k, folded k]
    have "unat (last_ts s - t) \<le> ts_key t ?m" if "delivered_one s"
      using in_time_key [OF it that _ ts] inv that by (auto simp: delivery_inv_def)
    then have "\<forall>m \<in> set (rq (rstream s')). unat (last_ts s - t) \<le> ts_key t m" if "delivered_one s"
      using inv q(2) that by (auto simp: delivery_inv_def)
    moreover have "set (rq (rstream s')) \<subseteq> A" using inv q(2) A by (auto simp: delivery_inv_def)
    ultimately show ?thesis using inv p f q(1) unfolding delivery_inv_def by simp
  qed
qed

text \<open>So does a query, and what it delivers is not older than what was delivered before.\<close>

lemma query_step:
  assumes inv: "delivery_inv S b t A s" and st: "stream_ok S (hw_recv_pt s) b t A" and r: "recv_media ts (g, s) = (r, g', s')"
  shows "delivery_inv S b t A s' \<and> (case r of None \<Rightarrow> delivered_one s' = delivered_one s \<and> last_ts s' = last_ts s
     | Some mp \<Rightarrow> \<exists>d \<in> A. (\<exists>u. mp = corrected d u) \<and> delivered_one s' \<and> last_ts s' = timestamp (rtp d)
         \<and> (delivered_one s \<longrightarrow> unat (last_ts s - t) \<le> ts_key t d))"
proof -
  obtain pre where pre: "rq (rstream s) = pre @ rq (rstream s')" and c: "case r of None \<Rightarrow> pre = [] \<and> delivered_one s' = delivered_one s \<and> last_ts s' = last_ts s
      | Some mp \<Rightarrow> pre \<noteq> [] \<and> (\<exists>t. mp = corrected (last pre) t) \<and> delivered_one s' \<and> last_ts s' = timestamp (rtp (last pre))"
    using recv_media_rest(3) [OF r] by blast
  have sub: "set (rq (rstream s')) \<subseteq> A" "set pre \<subseteq> A" and sorted: "sorted_wrt (<) (map (seq_key b) (rq (rstream s')))"
    using inv unfolding delivery_inv_def pre by (auto simp: sorted_wrt_append)
  have src: "ssrc_set s' \<longrightarrow> dir_ssrc (rcv_dir s') = S"
    using recv_media_rest(1,2) [OF r] inv st unfolding delivery_inv_def stream_ok_def rest_of_def by auto
  have same: "max_rq_size (rstream s') = max_rq_size (rstream s)" "ts_jump (rstream s') = ts_jump (rstream s)"
    using recv_media_rest(1) [OF r] by (simp_all add: rest_of_def)
  show ?thesis
  proof (cases r)
    case None
    then show ?thesis using c inv sub sorted src same pre by (auto simp: delivery_inv_def)
  next
    case (Some mp)
    then have pc: "pre \<noteq> []" "\<exists>u. mp = corrected (last pre) u" "delivered_one s'" "last_ts s' = timestamp (rtp (last pre))" using c by simp_all
    have d: "last pre \<in> A" "last pre \<in> set pre" using pc(1) sub(2) by auto
    have "seq_key b (last pre) \<le> seq_key b m" if "m \<in> set (rq (rstream s'))" for m
    proof -
      have "\<forall>x \<in> set pre. \<forall>y \<in> set (rq (rstream s')). seq_key b x < seq_key b y"
        using inv unfolding delivery_inv_def pre by (simp add: sorted_wrt_append)
      then show ?thesis using that d(2) by (simp add: less_imp_le)
    qed
    then have later: "ts_key t (last pre) \<le> ts_key t m" if "m \<in> set (rq (rstream s'))" for m
      using that st d(1) sub(1) unfolding stream_ok_def by blast
    have "ts_key t (last pre) < 2 ^ 30" using st d(1) by (simp add: stream_ok_def)
    moreover have "unat (last_ts s' - t) = ts_key t (last pre)" using pc(4) by (simp add: ts_key_def)
    ultimately have "delivery_inv S b t A s'"
      using inv same sub(1) sorted src later unfolding delivery_inv_def by auto
    moreover have "delivered_one s \<longrightarrow> unat (last_ts s - t) \<le> ts_key t (last pre)"
      using inv d(2) pre by (auto simp: delivery_inv_def)
    ultimately show ?thesis using Some pc d(1) by auto
  qed
qed

definition queued_seqs :: "RtpSession \<Rightarrow> u16 set" where
  "queued_seqs s = (\<lambda>m. seq_number (rtp m)) ` (set (rq (rstream s)) \<union> set (tev_rq (rstream s)))"

lemma putq_drop_set: "set (drop k (rtp_putq q m)) \<subseteq> insert m (set q)"
  using rtp_putq_cases [of q m] set_drop_subset [of k "rtp_putq q m"] by auto

lemma outcome_queues:
  assumes "outcome m s s'"
  shows "set (rq (rstream s')) \<subseteq> insert m (set (rq (rstream s)))" "set (tev_rq (rstream s')) \<subseteq> insert m (set (tev_rq (rstream s)))"
proof -
  have "rq (rstream s') = rq (rstream s) \<or> (\<exists>k. rq (rstream s') = drop k (rtp_putq (rq (rstream s)) m))"
    "tev_rq (rstream s') = tev_rq (rstream s) \<or> (\<exists>k. tev_rq (rstream s') = drop k (rtp_putq (tev_rq (rstream s)) m))"
    using assms unfolding outcome_def view_def by auto
  then show "set (rq (rstream s')) \<subseteq> insert m (set (rq (rstream s)))" "set (tev_rq (rstream s')) \<subseteq> insert m (set (tev_rq (rstream s)))"
    using putq_drop_set by (metis subset_insertI)+
qed

lemma outcome_seqs:
  assumes "outcome m s s'"
  shows "queued_seqs s' \<subseteq> insert (seq_number (rtp m)) (queued_seqs s)"
  using outcome_queues [OF assms] unfolding queued_seqs_def by fast

text \<open>What a datagram adds to the account, and the sequence numbers seen so far.\<close>

lemma datagram_account:
  assumes "0 \<le> max_rq_size (rstream s)" "queued_seqs s \<subseteq> K" "rtp_session_rtp_parse now mp ts addr (g, s) = Some (g', s')"
  shows "\<exists>d \<le> repeats K [mp]. accounted s' + of_nat d = accounted s + 1"
    and "queued_seqs s' \<subseteq> (if rtp_header_ok mp then insert (seq_number (rtp_header_of mp)) K else K)"
proof -
  have o: "outcome (rtp_mblk_of mp) s s'" using rtp_parse_outcome [OF assms(1), of now mp ts addr g] assms(3) by auto
  have h: "rtp (rtp_mblk_of mp) = rtp_header_of mp" by (simp add: rtp_mblk_of_def)
  note bad = bad_datagram_accounted [OF _ assms(3)]
  show "\<exists>d \<le> repeats K [mp]. accounted s' + of_nat d = accounted s + 1"
  proof (cases "accounted s' = accounted s + 1")
    case False
    then have ok: "rtp_header_ok mp" using bad by blast
    have "accounted s' = accounted s" "seq_number (rtp_header_of mp) \<in> queued_seqs s"
      using outcome_accounted [OF o] False h by (auto simp: queued_seqs_def intro: rev_image_eqI)
    then show ?thesis using ok assms(2) by (intro exI [of _ 1]) auto
  qed (intro exI [of _ 0], simp)
  show "queued_seqs s' \<subseteq> (if rtp_header_ok mp then insert (seq_number (rtp_header_of mp)) K else K)"
  proof (cases "rtp_header_ok mp")
    case True
    then show ?thesis using outcome_seqs [OF o] assms(2) h by auto
  next
    case False
    then show ?thesis using bad [OF False] assms(2) by (simp add: queued_seqs_def)
  qed
qed

lemma repeats_cons: "repeats K (mp # bs) = repeats K [mp] + repeats (if rtp_header_ok mp then insert (seq_number (rtp_header_of mp)) K else K) bs"
  by simp

lemma rx_run_ok:
  assumes "delivery_inv S b t A s" "stream_ok S (hw_recv_pt s) b t A" "queued_seqs s \<subseteq> K"
    and "\<forall>mp \<in> set (datagrams es). rtp_header_ok mp \<longrightarrow> ssrc (rtp_header_of mp) = S
      \<and> (int (paytype (rtp_header_of mp)) = telephone_events_pt (rcv_dir s) \<or> rtp_mblk_of mp \<in> A)"
  shows "\<exists>ms g' s' ds us dups. rx_run es (g, s) = Some (ms, g', s') \<and> ms = map2 corrected ds us \<and> length us = length ds \<and> set ds \<subseteq> A
    \<and> sorted_wrt (\<lambda>x y. ts_key t x \<le> ts_key t y) ds \<and> (delivered_one s \<longrightarrow> (\<forall>m \<in> set ds. unat (last_ts s - t) \<le> ts_key t m))
    \<and> dups \<le> repeats K (datagrams es) \<and> accounted s' + of_nat (length ms + dups) = accounted s + of_nat (length (datagrams es))"
  using assms
proof (induction es arbitrary: g s K)
  case Nil
  then show ?case by (intro exI [of _ "[]"] exI [of _ g] exI [of _ s] exI [of _ 0]) simp
next
  case (Cons e es)
  show ?case
  proof (cases e)
    case (Datagram now mp ts addr)
    have mx: "0 \<le> max_rq_size (rstream s)" using Cons.prems(1) by (simp add: delivery_inv_def)
    obtain g1 s1 where r: "rtp_session_rtp_parse now mp ts addr (g, s) = Some (g1, s1)" using rtp_parse_outcome [OF mx] by blast
    have st: "delivery_inv S b t A s1" "fixed_of s1 = fixed_of s"
      using datagram_step [OF Cons.prems(1,2) _ r] Cons.prems(4) Datagram by auto
    then have f: "hw_recv_pt s1 = hw_recv_pt s" "telephone_events_pt (rcv_dir s1) = telephone_events_pt (rcv_dir s)"
        "delivered_one s1 = delivered_one s" "last_ts s1 = last_ts s"
      by (simp_all add: fixed_of_def)
    obtain d where d: "d \<le> repeats K [mp]" "accounted s1 + of_nat d = accounted s + 1"
      using datagram_account(1) [OF mx Cons.prems(3) r] by blast
    let ?K = "if rtp_header_ok mp then insert (seq_number (rtp_header_of mp)) K else K"
    obtain ms g' s' ds us dups where ih: "rx_run es (g1, s1) = Some (ms, g', s')" "ms = map2 corrected ds us" "length us = length ds" "set ds \<subseteq> A"
        "sorted_wrt (\<lambda>x y. ts_key t x \<le> ts_key t y) ds" "delivered_one s1 \<longrightarrow> (\<forall>m \<in> set ds. unat (last_ts s1 - t) \<le> ts_key t m)"
        "dups \<le> repeats ?K (datagrams es)" "accounted s' + of_nat (length ms + dups) = accounted s1 + of_nat (length (datagrams es))"
      using Cons.IH [OF st(1) _ datagram_account(2) [OF mx Cons.prems(3) r], of g1] Cons.prems(2,4) f Datagram by auto
    have "accounted s' + of_nat (length ms + (d + dups)) = accounted s + of_nat (length (datagrams (e # es)))"
      using ih(8) d(2) Datagram by (simp add: algebra_simps)
    moreover have "d + dups \<le> repeats K (datagrams (e # es))"
      unfolding Datagram datagrams.simps by (subst repeats_cons) (use d(1) ih(7) in simp)
    moreover have "rx_run (e # es) (g, s) = Some (ms, g', s')" using ih(1) r Datagram by simp
    ultimately show ?thesis using ih f by metis
  next
    case (Query ts)
    obtain r g1 s1 where r: "recv_media ts (g, s) = (r, g1, s1)" by (metis prod_cases3)
    note q = query_step [OF Cons.prems(1,2) r] and rest = recv_media_rest(1) [OF r]
    have f: "hw_recv_pt s1 = hw_recv_pt s" "telephone_events_pt (rcv_dir s1) = telephone_events_pt (rcv_dir s)" "tev_rq (rstream s1) = tev_rq (rstream s)"
      using rest by (simp_all add: rest_of_def)
    have "set (rq (rstream s1)) \<subseteq> set (rq (rstream s))" using recv_media_rest(3) [OF r] by auto
    then have K: "queued_seqs s1 \<subseteq> K" using Cons.prems(3) f(3) by (auto simp: queued_seqs_def)
    obtain ms g' s' ds us dups where ih: "rx_run es (g1, s1) = Some (ms, g', s')" "ms = map2 corrected ds us" "length us = length ds" "set ds \<subseteq> A"
        "sorted_wrt (\<lambda>x y. ts_key t x \<le> ts_key t y) ds" "delivered_one s1 \<longrightarrow> (\<forall>m \<in> set ds. unat (last_ts s1 - t) \<le> ts_key t m)"
        "dups \<le> repeats K (datagrams es)" "accounted s' + of_nat (length ms + dups) = accounted s1 + of_nat (length (datagrams es))"
      using Cons.IH [OF _ _ K, of g1] q Cons.prems(2,4) f Query by auto
    note acc = recv_media_accounted [OF r]
    show ?thesis
    proof (cases r)
      case None
      then have "rx_run (e # es) (g, s) = Some (ms, g', s')" using ih(1) r Query by simp
      moreover have "delivered_one s1 = delivered_one s" "last_ts s1 = last_ts s" using q None by simp_all
      moreover have "accounted s1 = accounted s" using acc None by simp
      ultimately show ?thesis using ih Query by (intro exI conjI) (assumption | simp)+
    next
      case (Some mp)
      obtain d u where d: "d \<in> A" "mp = corrected d u" "delivered_one s1" "last_ts s1 = timestamp (rtp d)"
          "delivered_one s \<longrightarrow> unat (last_ts s - t) \<le> ts_key t d" using q Some by auto
      have k: "unat (last_ts s1 - t) = ts_key t d" using d(4) by (simp add: ts_key_def)
      have later: "\<forall>m \<in> set ds. ts_key t d \<le> ts_key t m" using ih(6) d(3) unfolding k by blast
      have run: "rx_run (e # es) (g, s) = Some (mp # ms, g', s')" using ih(1) r Query Some by simp
      have "sorted_wrt (\<lambda>x y. ts_key t x \<le> ts_key t y) (d # ds)" using later ih(5) by simp
      moreover have "mp # ms = map2 corrected (d # ds) (u # us)" "length (u # us) = length (d # ds)" "set (d # ds) \<subseteq> A"
        using d(1,2) ih by simp_all
      moreover have "delivered_one s \<longrightarrow> (\<forall>m \<in> set (d # ds). unat (last_ts s - t) \<le> ts_key t m)" using d(5) later by auto
      moreover have "accounted s' + of_nat (length (mp # ms) + dups) = accounted s + of_nat (length (datagrams (e # es)))"
        using ih(8) acc Some Query by (simp add: algebra_simps)
      moreover have "dups \<le> repeats K (datagrams (e # es))" using ih(7) Query by simp
      ultimately show ?thesis using run
        by - (rule exI [of _ "mp # ms"], rule exI [of _ g'], rule exI [of _ s'], rule exI [of _ "d # ds"], rule exI [of _ "u # us"],
              rule exI [of _ dups], intro conjI; assumption)
    qed
  qed
qed

lemma stream_same_time:
  assumes "stream_ok S P b t A" "x \<in> A" "y \<in> A" "ts_key t x \<le> ts_key t y"
  shows "seq_key b x < seq_key b y \<or> timestamp (rtp x) = timestamp (rtp y)"
proof (cases "seq_key b x < seq_key b y")
  case False
  then have "ts_key t y \<le> ts_key t x" using assms(1-3) by (simp add: stream_ok_def)
  then show ?thesis using assms(4) by (simp add: ts_key_def word_unat_eq_iff [symmetric])
qed simp


definition demo_media :: "u8 \<Rightarrow> u8 \<Rightarrow> bytes" where
  "demo_media q ts = [0x80, 0, 0, q, 0, 0, 0, ts, 0, 0, 0, 7, 1, 2, 3, 4]"

lemma demo_media_header:
  "rtp_header_of (demo_media q ts) = \<lparr>version = 2, padbit = False, extbit = False, cc = 0, markbit = False, paytype = 0,
     seq_number = ucast q, timestamp = ucast ts, ssrc = 7, csrc = []\<rparr>"
  by (simp add: rtp_header_of_def demo_media_def read16_def be16_def read32_def be32_def)

text \<open>The third packet overtakes the second and has its timestamp; it is delivered first. The last datagram is no RTP packet.\<close>

definition demo_events :: "rx_event list" where
  "demo_events = [Datagram (0, 0) (demo_media 1 100) 0 [], Query 100, Datagram (0, 0) (demo_media 3 200) 0 [], Query 200,
     Datagram (0, 0) (demo_media 2 200) 0 [], Query 200, Datagram (0, 0) [1, 2] 0 [], Query 300]"


section \<open>Reading the socket always ends\<close>

text \<open>Parsing leaves the simulator and the overhead of a packet alone.\<close>

definition sim_view :: "RtpSession \<Rightarrow> NetworkSimulatorCtx option \<times> bool" where
  "sim_view s = (net_sim_ctx s, sockfamily6 (rstream s))"

lemma sim_view_steps [simp]:
  "sim_view (s\<lparr>last_recv_time := t\<rparr>) = sim_view s" "sim_view (s\<lparr>hw_recv_pt := i\<rparr>) = sim_view s" "sim_view (s\<lparr>permissive := b\<rparr>) = sim_view s"
  "sim_view (s\<lparr>rtcp := rc\<rparr>) = sim_view s" "sim_view (s\<lparr>rcv_dir := d\<rparr>) = sim_view s" "sim_view (s\<lparr>inc_same_ssrc_count := i\<rparr>) = sim_view s"
  "sim_view (s\<lparr>inc_ssrc_candidate := u\<rparr>) = sim_view s" "sim_view (s\<lparr>ssrc_set := b\<rparr>) = sim_view s" "sim_view (emit s e) = sim_view s"
  "sim_view (s\<lparr>flags := w\<rparr>) = sim_view s"
  by (simp_all add: sim_view_def emit_def)

lemma sim_view_stream [simp]:
  "sim_view (s\<lparr>rstream := (rstream s)\<lparr>rstate := r\<rparr>\<rparr>) = sim_view s" "sim_view (s\<lparr>rstream := (rstream s)\<lparr>jittctl := j\<rparr>\<rparr>) = sim_view s"
  "sim_view (s\<lparr>rstream := (rstream s)\<lparr>time_jump := t\<rparr>\<rparr>) = sim_view s" "sim_view (s\<lparr>rstream := (rstream s)\<lparr>ts_jump := u\<rparr>\<rparr>) = sim_view s"
  "sim_view (s\<lparr>rstream := (rstream s)\<lparr>rem_addr := a\<rparr>\<rparr>) = sim_view s" "sim_view (s\<lparr>rstream := (rstream s)\<lparr>tev_rq := q\<rparr>\<rparr>) = sim_view s"
  "sim_view (s\<lparr>rstream := (rstream s)\<lparr>rq := q\<rparr>\<rparr>) = sim_view s" "sim_view (s\<lparr>rstream := (rstream s)\<lparr>rq := q, jittctl := j\<rparr>\<rparr>) = sim_view s"
  "sim_view (snd (on_stats f (g, s))) = sim_view s" "sim_view (update_recv_bytes now s n) = sim_view s"
  by (simp_all add: sim_view_def on_stats_def update_recv_bytes_def Let_def)

lemma sim_view_ssrc_check: "ssrc_check h addr s = (ok, s') \<Longrightarrow> sim_view s' = sim_view s"
  by (auto simp: ssrc_check_def store_sender_def Let_def sim_view_def emit_def split: if_splits)

lemma sim_view_seq_check [simp]: "sim_view (seq_check h s) = sim_view s"
  by (simp add: seq_check_def Let_def)

lemma sim_view_jump_check: "jump_check h s = (ok, s') \<Longrightarrow> sim_view s' = sim_view s"
  by (auto simp: jump_check_def Let_def split: if_splits)

lemma sim_view_update_payload_type [simp]: "sim_view (rtp_session_update_payload_type s i) = sim_view s"
  by (simp add: rtp_session_update_payload_type_def payload_type_changed_def rtp_session_set_time_jump_limit_def
      rtp_session_set_rtcp_report_interval_def Let_def sim_view_def split: option.splits)

lemma sim_view_queue_tev: "queue_tev m (g, s) = Some (g', s') \<Longrightarrow> sim_view s' = sim_view s"
  by (auto simp: queue_tev_def on_stats_def sim_view_def)

lemma sim_view_queue_media:
  assumes "queue_media m ts (g, s) = Some (g', s')"
  shows "sim_view s' = sim_view s"
proof -
  define s1 where "s1 = (if hw_recv_pt s \<noteq> int (paytype (rtp m)) then rtp_session_update_payload_type s (int (paytype (rtp m))) else s)"
  define s2 where "s2 = s1\<lparr>rstream := (rstream s1)\<lparr>jittctl := jitter_control_new_packet (jittctl (rstream s1)) (timestamp (rtp m)) ts\<rparr>\<rparr>"
  obtain ok s3 where s3: "jump_check (rtp m) s2 = (ok, s3)" by (cases "jump_check (rtp m) s2")
  have v: "sim_view s3 = sim_view s" using sim_view_jump_check [OF s3] by (simp add: s2_def s1_def)
  have "sim_view s' = sim_view s3"
    using assms s3 unfolding queue_media_def Let_def split s1_def [symmetric] s2_def [symmetric]
    by (auto simp: on_stats_def sim_view_def split: if_splits)
  with v show ?thesis by simp
qed

lemma sim_view_parse:
  assumes "rtp_session_rtp_parse now mp ts addr (g, s) = Some (g', s')"
  shows "sim_view s' = sim_view s"
proof -
  let ?h = "rtp_header_of mp"
  obtain g1 s1 where s1: "on_stats (count_received (of_nat (length mp))) (g, s) = (g1, s1)" by force
  define s2 where "s2 = s1\<lparr>rstream := (rstream s1)\<lparr>rstate := (rstate (rstream s1))\<lparr>hwrcv_since_last_SR := hwrcv_since_last_SR (rstate (rstream s1)) + 1\<rparr>\<rparr>\<rparr>"
  obtain ok s4 where s4: "ssrc_check ?h addr (s2\<lparr>last_recv_time := now\<rparr>) = (ok, s4)" by force
  have "sim_view s1 = sim_view s" using sim_view_stream(9) [of "count_received (of_nat (length mp))" g s] s1 by simp
  then have v: "sim_view s2 = sim_view s" "sim_view s4 = sim_view s" using sim_view_ssrc_check [OF s4] by (simp_all add: s2_def)
  have bad: "sim_view x' = sim_view x" if "on_stats f (y, x) = (y', x')" for f y x y' x' using sim_view_stream(9) [of f y x] that by simp
  show ?thesis
    using assms v bad sim_view_queue_tev [of "rtp_mblk_of mp" g1 "seq_check ?h s4" g' s'] sim_view_queue_media [of "rtp_mblk_of mp" ts g1 "seq_check ?h s4" g' s']
    unfolding rtp_session_rtp_parse_def Let_def split s1 s2_def [symmetric] s4 by (auto split: if_splits)
qed

text \<open>The queues within their limit, and the size that the simulator has recorded is the size of its queue.\<close>

definition recv_ok :: "RtpSession \<Rightarrow> bool" where
  "recv_ok s \<longleftrightarrow> 0 \<le> max_rq_size (rstream s) \<and> int (length (rq (rstream s))) \<le> max_rq_size (rstream s)
     \<and> int (length (tev_rq (rstream s))) \<le> max_rq_size (rstream s) \<and> (\<forall>sim. net_sim_ctx s = Some sim \<longrightarrow> sim_inv (ip_overhead s) sim)"

lemma recv_ok_view: "view s' = view s \<Longrightarrow> sim_view s' = sim_view s \<Longrightarrow> recv_ok s' = recv_ok s"
  by (auto simp: view_def sim_view_def recv_ok_def ip_overhead_def)

lemma recv_ok_parse:
  assumes "recv_ok s"
  shows "\<exists>g' s'. rtp_session_rtp_parse now mp ts addr (g, s) = Some (g', s') \<and> recv_ok s'"
proof -
  have "0 \<le> max_rq_size (rstream s)" using assms by (simp add: recv_ok_def)
  then obtain g' s' where r: "rtp_session_rtp_parse now mp ts addr (g, s) = Some (g', s')" "outcome (rtp_mblk_of mp) s s'"
    using rtp_parse_outcome by blast
  obtain q t mx q' t' where v: "rq (rstream s) = q" "tev_rq (rstream s) = t" "max_rq_size (rstream s) = mx"
      "rq (rstream s') = q'" "tev_rq (rstream s') = t'" "max_rq_size (rstream s') = mx"
      and d: "q' = q \<or> q' = drop (length (rtp_putq q (rtp_mblk_of mp)) - nat mx) (rtp_putq q (rtp_mblk_of mp))"
        "t' = t \<or> t' = drop (length (rtp_putq t (rtp_mblk_of mp)) - nat mx) (rtp_putq t (rtp_mblk_of mp))"
    using r(2) unfolding outcome_def view_def by blast
  have "int (length q') \<le> mx" "int (length t') \<le> mx" using d assms by (auto simp: recv_ok_def v)
  moreover have "net_sim_ctx s' = net_sim_ctx s" "ip_overhead s' = ip_overhead s"
    using sim_view_parse [OF r(1)] by (simp_all add: sim_view_def ip_overhead_def)
  ultimately have "recv_ok s'" using assms by (simp add: recv_ok_def v)
  with r(1) show ?thesis by blast
qed

lemma recv_ok_recv_parse: "recv_ok s \<Longrightarrow> \<exists>g' s'. recv_parse now ts addr m (g, s) = Some (g', s') \<and> recv_ok s'"
proof -
  assume ok: "recv_ok s"
  have "view (update_recv_bytes now s n) = view s" for n by (simp add: update_recv_bytes_def view_def Let_def)
  then have "recv_ok (update_recv_bytes now s (int (length m)))"
    by (rule recv_ok_view [THEN iffD2, OF _ _ ok]) simp
  from recv_ok_parse [OF this] show ?thesis by (simp add: recv_parse_def)
qed

lemma network_simulate_ok:
  assumes "recv_ok s" and "net_sim_ctx s \<noteq> None"
  shows "\<exists>om s'. rtp_session_network_simulate now rnd s input = Some (om, s') \<and> recv_ok s'"
proof -
  obtain sim where sim: "net_sim_ctx s = Some sim" "sim_inv (ip_overhead s) sim" using assms by (auto simp: recv_ok_def)
  show ?thesis
  proof (cases "0 < sim_max_bandwidth sim")
    case True
    obtain out sim' where b: "simulate_bandwidth_limit now (ip_overhead s) sim input = Some (out, sim')" "sim_inv (ip_overhead s) sim'"
      using simulate_bandwidth_ok [OF sim(2) True, of now input] by blast
    have "recv_ok (s\<lparr>net_sim_ctx := Some sim'\<rparr>)" using assms(1) b(2) by (simp add: recv_ok_def ip_overhead_def)
    then show ?thesis using b sim True by (simp add: rtp_session_network_simulate_def Let_def)
  next
    case False
    then show ?thesis using sim assms(1) by (simp add: rtp_session_network_simulate_def Let_def)
  qed
qed

lemma recv_simulated_ok:
  assumes "recv_ok s" and "net_sim_ctx s \<noteq> None"
  shows "\<exists>g' s'. recv_simulated now rnd ts addr input (g, s) = Some (g', s') \<and> recv_ok s'"
proof -
  obtain om s1 where r: "rtp_session_network_simulate now rnd s input = Some (om, s1)" "recv_ok s1" using network_simulate_ok [OF assms] by blast
  then show ?thesis
    by (cases om) (simp_all add: recv_simulated_def recv_ok_recv_parse [OF r(2)])
qed

lemma rtp_recv_one_ok: "recv_ok s \<Longrightarrow> \<exists>g' s'. rtp_recv_one env ts d (g, s) = Some (g', s') \<and> recv_ok s'"
proof -
  assume ok: "recv_ok s"
  obtain b addr rnd where d: "d = (b, addr, rnd)" by (metis prod_cases3)
  define s1 where "s1 = (if use_connect s \<and> symmetric_rtp s \<and> \<not> has_flag s RTP_SOCKET_CONNECTED
       then let s' = s\<lparr>rstream := (rstream s)\<lparr>rem_addr := addr\<rparr>\<rparr>
            in if env_connect env then s'\<lparr>flags := flags s' OR RTP_SOCKET_CONNECTED\<rparr> else s'
       else s)"
  have "view s1 = view s" "sim_view s1 = sim_view s" by (simp_all add: s1_def view_def sim_view_def Let_def)
  then have ok1: "recv_ok s1" by (rule recv_ok_view [THEN iffD2, OF _ _ ok])
  have "rtp_recv_one env ts d (g, s) = (if net_sim_ctx s1 = None then recv_parse (env_now env) ts addr b (g, s1)
      else recv_simulated (env_now env) rnd ts addr (Some b) (g, s1))"
    unfolding rtp_recv_one_def d Let_def split s1_def ..
  then show ?thesis using recv_ok_recv_parse [OF ok1, of "env_now env" ts addr b g] recv_simulated_ok [OF ok1, of "env_now env" rnd ts addr "Some b" g]
    by auto
qed

lemma rtp_recv_drain_ok: "recv_ok s \<Longrightarrow> \<exists>g' s'. rtp_recv_drain env ts (g, s) = Some (g', s') \<and> recv_ok s'"
  using recv_simulated_ok by (simp add: rtp_recv_drain_def)

lemma rtp_recv_loop_ok: "recv_ok s \<Longrightarrow> \<exists>g' s'. rtp_recv_loop env ts ds (g, s) = Some (g', s') \<and> recv_ok s'"
proof (induction ds arbitrary: g s)
  case Nil
  have "recv_ok (emit s (Network_error x)) = recv_ok s" for x by (rule recv_ok_view) simp_all
  then show ?case using Nil rtp_recv_drain_ok [OF Nil] by simp
next
  case (Cons d ds)
  obtain g1 s1 where "rtp_recv_one env ts d (g, s) = Some (g1, s1)" "recv_ok s1" using rtp_recv_one_ok [OF Cons.prems] by blast
  with Cons.IH [of s1 g1] rtp_recv_drain_ok [OF Cons.prems] show ?case by simp
qed



end
