(* ===== verification/Rtp_Scheduler.thy ===== *)
theory Rtp_Scheduler
  imports Rtp_Io
begin

text \<open>
  The scheduler of \<open>ortp/src/scheduler.c\<close> and the sets of sessions of \<open>ortp/src/sessionset.c\<close>. A \<open>SessionSet\<close> is the array of 32
  words of 32 bits that \<open>session_set_and\<close> reads. Sessions are addresses in a store that gives the session and its position
  in the masks. \<open>ortp_cond_wait\<close> lets the other threads run: what they do to the scheduler until the wait ends is an
  argument of the functions that wait, one function per wait.
\<close>

unbundle bit_operations_syntax

section \<open>Sets of sessions\<close>

type_synonym SessionSet = "u32 list"

definition session_set_init :: SessionSet where
  "session_set_init = replicate 32 0"

definition ORTP_FD_SET :: "nat \<Rightarrow> SessionSet \<Rightarrow> SessionSet" where
  "ORTP_FD_SET d s = s[d div 32 := s ! (d div 32) OR push_bit (d mod 32) 1]"

definition ORTP_FD_CLR :: "nat \<Rightarrow> SessionSet \<Rightarrow> SessionSet" where
  "ORTP_FD_CLR d s = s[d div 32 := s ! (d div 32) AND NOT (push_bit (d mod 32) 1)]"

definition ORTP_FD_ISSET :: "nat \<Rightarrow> SessionSet \<Rightarrow> bool" where
  "ORTP_FD_ISSET d s = bit (s ! (d div 32)) (d mod 32)"

text \<open>\<open>count_power_items_simple\<close> looks at each of the 32 bits. \<open>count_power_items_fast\<close> shifts an \<open>int\<close> to the right, sign included,
  until it is 0.\<close>

fun count_bits :: "nat \<Rightarrow> u32 \<Rightarrow> int \<Rightarrow> int" where
  "count_bits 0 v c = c"
| "count_bits (Suc k) v c = count_bits k v (if signed_drop_bit (31 - k) v AND 1 \<noteq> 0 then c + 1 else c)"

definition count_power_items_simple :: "u32 \<Rightarrow> int" where
  "count_power_items_simple v = count_bits 32 v 0"

partial_function (option) count_fast_loop :: "u32 \<Rightarrow> int \<Rightarrow> int option" where
  "count_fast_loop v c = (if v = 0 then Some c else count_fast_loop (signed_drop_bit 1 v) (c + uint (v AND 1)))"

definition count_power_items_fast :: "u32 \<Rightarrow> int option" where
  "count_power_items_fast v = count_fast_loop v 0"

text \<open>The words from \<open>w\<close> on, \<open>k\<close> of them: the number of sessions found, the mask of the scheduler and the result.\<close>

fun and_loop :: "nat \<Rightarrow> nat \<Rightarrow> SessionSet \<Rightarrow> SessionSet \<Rightarrow> SessionSet \<Rightarrow> int \<Rightarrow> (int \<times> SessionSet \<times> SessionSet) option" where
  "and_loop 0 w sched_set user_set result_set ret = Some (ret, sched_set, result_set)"
| "and_loop (Suc k) w sched_set user_set result_set ret =
    (let m3 = sched_set ! w AND user_set ! w
     in case count_power_items_fast m3 of None \<Rightarrow> None
        | Some c \<Rightarrow> and_loop k (Suc w) (sched_set[w := sched_set ! w AND NOT m3]) user_set (result_set[w := m3]) (ret + c))"

definition session_set_and :: "SessionSet \<Rightarrow> nat \<Rightarrow> SessionSet \<Rightarrow> SessionSet \<Rightarrow> (int \<times> SessionSet \<times> SessionSet) option" where
  "session_set_and sched_set maxs user_set result_set = and_loop (maxs div 32 + 1) 0 sched_set user_set result_set 0"

section \<open>The scheduler\<close>

record SchedSession =
  sess :: RtpSession
  mask_pos :: nat

record RtpScheduler =
  sched_list :: "nat list"
  all_sessions :: SessionSet
  all_max :: nat
  r_sessions :: SessionSet
  w_sessions :: SessionSet
  e_sessions :: SessionSet
  max_sessions :: nat
  thread_running :: bool
  sched_time :: u32
  timer_inc :: u32
  store :: "nat \<Rightarrow> SchedSession"

definition rtp_scheduler_set_timer :: "RtpScheduler \<Rightarrow> timeval \<Rightarrow> RtpScheduler" where
  "rtp_scheduler_set_timer sched interval =
    (if thread_running sched then sched
     else sched\<lparr>timer_inc := word_of_int (c_div (snd interval) 1000 + fst interval * 1000)\<rparr>)"

text \<open>\<open>mem\<close> is the memory in which the sessions are; the interval is that of \<open>posix_timer\<close>.\<close>

definition rtp_scheduler_new :: "timeval \<Rightarrow> (nat \<Rightarrow> SchedSession) \<Rightarrow> RtpScheduler" where
  "rtp_scheduler_new interval mem = rtp_scheduler_set_timer
     \<lparr>sched_list = [], all_sessions = session_set_init, all_max = 0, r_sessions = session_set_init, w_sessions = session_set_init,
      e_sessions = session_set_init, max_sessions = 1024, thread_running = False, sched_time = 0, timer_inc = 0, store = mem\<rparr> interval"

definition RTP_SESSION_IN_SCHEDULER :: u32 where
  "RTP_SESSION_IN_SCHEDULER = 64"

definition in_scheduler :: "RtpScheduler \<Rightarrow> nat \<Rightarrow> bool" where
  "in_scheduler sched a = has_flag (sess (store sched a)) RTP_SESSION_IN_SCHEDULER"

definition set_sess :: "nat \<Rightarrow> RtpSession \<Rightarrow> RtpScheduler \<Rightarrow> RtpScheduler" where
  "set_sess a s sched = sched\<lparr>store := (store sched)(a := (store sched a)\<lparr>sess := s\<rparr>)\<rparr>"

text \<open>The search for a free position, from position \<open>i\<close> on.\<close>

definition take_position :: "nat \<Rightarrow> nat \<Rightarrow> RtpScheduler \<Rightarrow> RtpScheduler" where
  "take_position a i sched =
    (let s = sess (store sched a);
         sc1 = sched\<lparr>store := (store sched)(a := (store sched a)\<lparr>mask_pos := i\<rparr>), all_sessions := ORTP_FD_SET i (all_sessions sched)\<rparr>;
         sc2 = (if has_flag s RTP_SESSION_RECV_NOT_STARTED then sc1\<lparr>r_sessions := ORTP_FD_SET i (r_sessions sc1)\<rparr> else sc1);
         sc3 = (if has_flag s RTP_SESSION_SEND_NOT_STARTED then sc2\<lparr>w_sessions := ORTP_FD_SET i (w_sessions sc2)\<rparr> else sc2)
     in if all_max sc3 < i then sc3\<lparr>all_max := i\<rparr> else sc3)"

fun find_position :: "nat \<Rightarrow> nat list \<Rightarrow> RtpScheduler \<Rightarrow> RtpScheduler" where
  "find_position a [] sched = sched"
| "find_position a (i # is) sched = (if \<not> ORTP_FD_ISSET i (all_sessions sched) then take_position a i sched else find_position a is sched)"

definition rtp_scheduler_add_session :: "RtpScheduler \<Rightarrow> nat \<Rightarrow> RtpScheduler" where
  "rtp_scheduler_add_session sched a =
    (if in_scheduler sched a then sched
     else let sc1 = find_position a [0..<max_sessions sched] (sched\<lparr>sched_list := a # sched_list sched\<rparr>)
          in set_sess a (rtp_session_set_flag (sess (store sc1 a)) RTP_SESSION_IN_SCHEDULER) sc1)"

text \<open>The scan for the predecessor of the session removes its first occurrence; the head is handled before.\<close>

definition rtp_scheduler_remove_session :: "RtpScheduler \<Rightarrow> nat \<Rightarrow> RtpScheduler" where
  "rtp_scheduler_remove_session sched a =
    (if \<not> in_scheduler sched a then sched
     else let sc1 = sched\<lparr>sched_list := remove1 a (sched_list sched)\<rparr>;
              sc2 = set_sess a (rtp_session_unset_flag (sess (store sc1 a)) RTP_SESSION_IN_SCHEDULER) sc1
          in sc2\<lparr>all_sessions := ORTP_FD_CLR (mask_pos (store sc2 a)) (all_sessions sc2)\<rparr>)"

definition sched_process :: "nat \<Rightarrow> RtpScheduler \<Rightarrow> RtpScheduler" where
  "sched_process a sched =
    (let s = sess (store sched a); p = mask_pos (store sched a);
         (w, wp) = wait_point_check (dir_wp (snd_dir s)) (sched_time sched);
         sc1 = (if w then sched\<lparr>w_sessions := ORTP_FD_SET p (w_sessions sched)\<rparr> else sched);
         (r, rp) = wait_point_check (dir_wp (rcv_dir s)) (sched_time sched);
         sc2 = (if r then sc1\<lparr>r_sessions := ORTP_FD_SET p (r_sessions sc1)\<rparr> else sc1)
     in set_sess a (s\<lparr>snd_dir := (snd_dir s)\<lparr>dir_wp := wp\<rparr>, rcv_dir := (rcv_dir s)\<lparr>dir_wp := rp\<rparr>\<rparr>) sc2)"

text \<open>One turn of the thread: every session is processed, then the time moves on.\<close>

definition scheduler_turn :: "RtpScheduler \<Rightarrow> RtpScheduler" where
  "scheduler_turn sched = (let sc1 = fold sched_process (sched_list sched) sched in sc1\<lparr>sched_time := sched_time sc1 + timer_inc sc1\<rparr>)"

definition rtp_scheduler_schedule :: "nat \<Rightarrow> RtpScheduler \<Rightarrow> RtpScheduler" where
  "rtp_scheduler_schedule turns sched = (scheduler_turn ^^ turns) sched"

text \<open>\<open>running\<close> tells whether there is a scheduler, what \<open>ortp_get_scheduler\<close> returns; taking the session out of scheduled mode leaves it in the list.\<close>

definition rtp_session_set_scheduling_mode :: "RtpScheduler \<Rightarrow> bool \<Rightarrow> nat \<Rightarrow> bool \<Rightarrow> RtpScheduler" where
  "rtp_session_set_scheduling_mode sched running a yesno =
    (let s = sess (store sched a) in
     if yesno then if running then rtp_scheduler_add_session (set_sess a (rtp_session_set_flag s RTP_SESSION_SCHEDULED) sched) a else sched
     else set_sess a (rtp_session_unset_flag s RTP_SESSION_SCHEDULED) sched)"

definition rtp_session_set_blocking_mode :: "RtpScheduler \<Rightarrow> bool \<Rightarrow> nat \<Rightarrow> bool \<Rightarrow> RtpScheduler" where
  "rtp_session_set_blocking_mode sched running a yesno =
    (if yesno
     then let sc = rtp_session_set_scheduling_mode sched running a True
          in set_sess a (rtp_session_set_flag (sess (store sc a)) RTP_SESSION_BLOCKING_MODE) sc
     else set_sess a (rtp_session_unset_flag (sess (store sched a)) RTP_SESSION_BLOCKING_MODE) sched)"

section \<open>Select\<close>

text \<open>One of the three sets: the number found so far, the mask of the scheduler and the set of the caller.\<close>

definition select_set :: "nat \<Rightarrow> SessionSet \<Rightarrow> SessionSet option \<Rightarrow> int \<Rightarrow> (int \<times> SessionSet \<times> SessionSet option) option" where
  "select_set maxs smask user ret = (case user of None \<Rightarrow> Some (ret, smask, None)
     | Some u \<Rightarrow> map_option (\<lambda>(bits, smask', temp). (ret + bits, smask', Some (if 0 < ret + bits then temp else u)))
         (session_set_and smask maxs u session_set_init))"

definition select_pass :: "RtpScheduler \<Rightarrow> SessionSet option \<times> SessionSet option \<times> SessionSet option
    \<Rightarrow> (int \<times> RtpScheduler \<times> SessionSet option \<times> SessionSet option \<times> SessionSet option) option" where
  "select_pass sched = (\<lambda>(recvs, sends, errors).
     case select_set (all_max sched) (r_sessions sched) recvs 0 of None \<Rightarrow> None
     | Some (n1, rm, recvs') \<Rightarrow>
         (case select_set (all_max sched) (w_sessions sched) sends n1 of None \<Rightarrow> None
          | Some (n2, wm, sends') \<Rightarrow>
              (case select_set (all_max sched) (e_sessions sched) errors n2 of None \<Rightarrow> None
               | Some (n3, em, errors') \<Rightarrow> Some (n3, sched\<lparr>r_sessions := rm, w_sessions := wm, e_sessions := em\<rparr>, recvs', sends', errors'))))"

text \<open>The list says what happens to the scheduler during each wait; when it ends the caller is still waiting.\<close>

fun session_set_select :: "(RtpScheduler \<Rightarrow> RtpScheduler) list \<Rightarrow> RtpScheduler \<Rightarrow> SessionSet option \<times> SessionSet option \<times> SessionSet option
    \<Rightarrow> (int \<times> RtpScheduler \<times> SessionSet option \<times> SessionSet option \<times> SessionSet option) option" where
  "session_set_select waits sched sets = (case select_pass sched sets of None \<Rightarrow> None
     | Some (ret, sched1, sets1) \<Rightarrow>
         if 0 < ret then Some (ret, sched1, sets1)
         else (case waits of [] \<Rightarrow> None | f # fs \<Rightarrow> session_set_select fs (f sched1) sets1))"

fun timedselect_loop :: "(RtpScheduler \<Rightarrow> RtpScheduler) list \<Rightarrow> int \<Rightarrow> RtpScheduler \<Rightarrow> SessionSet option \<times> SessionSet option \<times> SessionSet option
    \<Rightarrow> (int \<times> RtpScheduler \<times> SessionSet option \<times> SessionSet option \<times> SessionSet option) option" where
  "timedselect_loop waits remaining sched sets = (case select_pass sched sets of None \<Rightarrow> None
     | Some (ret, sched1, sets1) \<Rightarrow>
         if 0 < ret then Some (ret, sched1, sets1)
         else (case waits of [] \<Rightarrow> None
           | f # fs \<Rightarrow> let sched2 = f sched1; remaining' = s32 (remaining - uint (timer_inc sched2))
               in if 0 < remaining' then timedselect_loop fs remaining' sched2 sets1 else Some (-1, sched2, sets1)))"

definition session_set_timedselect :: "(RtpScheduler \<Rightarrow> RtpScheduler) list \<Rightarrow> timeval option \<Rightarrow> RtpScheduler
    \<Rightarrow> SessionSet option \<times> SessionSet option \<times> SessionSet option
    \<Rightarrow> (int \<times> RtpScheduler \<times> SessionSet option \<times> SessionSet option \<times> SessionSet option) option" where
  "session_set_timedselect waits timeout sched sets = (case timeout of None \<Rightarrow> session_set_select waits sched sets
     | Some tv \<Rightarrow> timedselect_loop waits (s32 (c_div (snd tv) 1000 + fst tv * 1000)) sched sets)"

declare session_set_select.simps [simp del] timedselect_loop.simps [simp del]

section \<open>Counting bits\<close>

definition bits :: "u32 \<Rightarrow> nat set" where
  "bits v = {i. bit v i}"

lemma bits_finite [simp]: "finite (bits v)"
  by (rule finite_subset [of _ "{..<32}"]) (auto simp: bits_def dest: bit_imp_le_length)

lemma bits_split: "bits v = (if bit v 0 then {0} else {}) \<union> Suc ` bits (drop_bit 1 v)"
proof (rule set_eqI)
  fix i show "i \<in> bits v \<longleftrightarrow> i \<in> (if bit v 0 then {0} else {}) \<union> Suc ` bits (drop_bit 1 v)"
    by (cases i) (auto simp: bits_def bit_simps)
qed

lemma card_bits: "int (card (bits v)) = of_bool (bit v 0) + int (card (bits (drop_bit 1 v)))"
  by (subst bits_split) (simp add: card_image)

lemma unsigned_shift: "\<not> bit v 31 \<Longrightarrow> signed_drop_bit 1 v = drop_bit 1 (v :: u32)"
  by (rule bit_word_eqI) (auto simp: bit_simps dest: bit_imp_le_length)

lemma count_fast_positive: "\<not> bit v 31 \<Longrightarrow> count_fast_loop v c = Some (c + int (card (bits v)))"
proof (induction "unat v" arbitrary: v c rule: less_induct)
  case less
  show ?case
  proof (cases "v = 0")
    case True
    then show ?thesis by (subst count_fast_loop.simps) (simp add: bits_def)
  next
    case False
    have "unat (drop_bit 1 v) < unat v" using False by (simp add: drop_bit_Suc unat_div unat_gt_0)
    moreover have "\<not> bit (drop_bit 1 v) 31" by (simp add: bit_simps) (auto dest: bit_imp_le_length)
    ultimately have "count_fast_loop (drop_bit 1 v) (c + uint (v AND 1)) = Some (c + uint (v AND 1) + int (card (bits (drop_bit 1 v))))"
      by (rule less.hyps)
    moreover have "uint (v AND 1) = of_bool (bit v 0)" by (simp add: and_one_eq bit_0 odd_iff_mod_2_eq_one)
    moreover have "count_fast_loop v c = count_fast_loop (drop_bit 1 v) (c + uint (v AND 1))"
      using False by (subst count_fast_loop.simps) (simp only: unsigned_shift [OF less.prems] if_False)
    ultimately show ?thesis by (simp add: card_bits [of v])
  qed
qed

lemma sign_kept: "bit v 31 \<Longrightarrow> bit (signed_drop_bit (Suc 0) (v :: u32)) 31"
  by (simp add: bit_simps)

lemma count_fast_negative: "bit v 31 \<Longrightarrow> count_fast_loop v c = None"
proof -
  assume v: "bit v 31"
  have "\<not> bit w 31" if "count_fast_loop w d = Some r" for w d r
    using that by (induction rule: count_fast_loop.raw_induct [rotated, consumes 1]) (auto dest: sign_kept split: if_splits)
  with v show ?thesis by (cases "count_fast_loop v c") auto
qed

lemma count_bits_ok: "k \<le> 32 \<Longrightarrow> count_bits k v c = c + int (card {i \<in> bits v. 32 - k \<le> i})"
proof (induction k arbitrary: c)
  case 0
  have "{i \<in> bits v. 32 \<le> i} = {}" by (auto simp: bits_def dest: bit_imp_le_length)
  then show ?case by simp
next
  case (Suc k)
  have eq: "{i \<in> bits v. 32 - Suc k \<le> i} = (if bit v (31 - k) then {31 - k} else {}) \<union> {i \<in> bits v. 32 - k \<le> i}"
  proof (rule set_eqI)
    fix i have "32 - Suc k \<le> i \<longleftrightarrow> i = 31 - k \<or> 32 - k \<le> i" using Suc.prems by linarith
    then show "i \<in> {i \<in> bits v. 32 - Suc k \<le> i} \<longleftrightarrow> i \<in> (if bit v (31 - k) then {31 - k} else {}) \<union> {i \<in> bits v. 32 - k \<le> i}"
      by (auto simp: bits_def)
  qed
  have new: "31 - k \<notin> {i \<in> bits v. 32 - k \<le> i}" using Suc.prems by auto
  have "signed_drop_bit (31 - k) v AND 1 \<noteq> 0 \<longleftrightarrow> bit v (31 - k)"
    using Suc.prems by (simp add: and_one_eq odd_iff_mod_2_eq_one [symmetric] bit_0 [symmetric] bit_simps)
  then show ?case unfolding count_bits.simps eq using Suc.IH Suc.prems new by simp
qed

lemma count_simple: "count_power_items_simple v = int (card (bits v))"
  by (simp add: count_power_items_simple_def count_bits_ok)

lemma count_fast: "count_power_items_fast v = (if bit v 31 then None else Some (int (card (bits v))))"
  by (simp add: count_power_items_fast_def count_fast_positive count_fast_negative)

section \<open>Sets as sets of positions\<close>

definition members :: "SessionSet \<Rightarrow> nat set" where
  "members s = {d. d < 32 * length s \<and> ORTP_FD_ISSET d s}"

lemma word_index: "j < 32 \<Longrightarrow> (32 * i + j) div 32 = i" "j < 32 \<Longrightarrow> (32 * i + j) mod 32 = (j :: nat)"
  by simp_all

lemma members_init [simp]: "members session_set_init = {}"
  by (auto simp: members_def session_set_init_def ORTP_FD_ISSET_def)

lemma length_fd [simp]: "length (ORTP_FD_SET d s) = length s" "length (ORTP_FD_CLR d s) = length s" "length session_set_init = 32"
  by (simp_all add: ORTP_FD_SET_def ORTP_FD_CLR_def session_set_init_def)

lemma bit_one_shift: "j < 32 \<Longrightarrow> k < 32 \<Longrightarrow> bit ((2 :: u32) ^ j) k \<longleftrightarrow> j = k"
  by (auto simp: bit_simps)

lemma same_position: "d = e \<longleftrightarrow> d div 32 = e div 32 \<and> d mod 32 = e mod (32 :: nat)"
  by (metis div_mod_decomp)

lemma members_set [simp]: "d < 32 * length s \<Longrightarrow> members (ORTP_FD_SET d s) = insert d (members s)"
proof (rule set_eqI)
  fix e assume d: "d < 32 * length s"
  then have "d div 32 < length s" by auto
  then show "e \<in> members (ORTP_FD_SET d s) \<longleftrightarrow> e \<in> insert d (members s)"
    using d same_position [of e d]
    by (cases "e div 32 = d div 32") (auto simp: members_def ORTP_FD_ISSET_def ORTP_FD_SET_def bit_or_iff bit_one_shift)
qed

lemma members_clr [simp]: "members (ORTP_FD_CLR d s) = members s - {d}"
proof (rule set_eqI)
  fix e show "e \<in> members (ORTP_FD_CLR d s) \<longleftrightarrow> e \<in> members s - {d}"
    using same_position [of e d]
    by (cases "e div 32 = d div 32"; cases "d div 32 < length s")
      (auto simp: members_def ORTP_FD_ISSET_def ORTP_FD_CLR_def bit_and_iff bit_not_iff bit_one_shift)
qed

lemma isset_members: "d < 32 * length s \<Longrightarrow> ORTP_FD_ISSET d s \<longleftrightarrow> d \<in> members s"
  by (simp add: members_def)

lemma members_words: "members s = (\<Union>i < length s. (\<lambda>j. 32 * i + j) ` bits (s ! i))"
proof (rule set_eqI)
  fix d show "d \<in> members s \<longleftrightarrow> d \<in> (\<Union>i < length s. (\<lambda>j. 32 * i + j) ` bits (s ! i))"
  proof
    assume "d \<in> members s"
    then have "d div 32 < length s" "d mod 32 \<in> bits (s ! (d div 32))" "d = 32 * (d div 32) + d mod 32"
      by (auto simp: members_def ORTP_FD_ISSET_def bits_def)
    then show "d \<in> (\<Union>i < length s. (\<lambda>j. 32 * i + j) ` bits (s ! i))" by blast
  next
    assume "d \<in> (\<Union>i < length s. (\<lambda>j. 32 * i + j) ` bits (s ! i))"
    then obtain i j where "i < length s" "bit (s ! i) j" "d = 32 * i + j" by (auto simp: bits_def)
    moreover have "j < 32" using \<open>bit (s ! i) j\<close> bit_imp_le_length by force
    ultimately show "d \<in> members s" by (simp add: members_def ORTP_FD_ISSET_def)
  qed
qed

lemma card_members: "card (members s) = (\<Sum>i < length s. card (bits (s ! i)))"
proof -
  have b: "j < 32" if "j \<in> bits v" for j v using that bit_imp_le_length [of v j] by (simp add: bits_def)
  have "card (members s) = (\<Sum>i < length s. card ((\<lambda>j. 32 * i + j) ` bits (s ! i)))"
    unfolding members_words by (rule card_UN_disjoint) (auto dest!: b)
  then show ?thesis by (simp add: card_image)
qed

section \<open>The intersection with the scheduler's mask\<close>

definition common :: "SessionSet \<Rightarrow> SessionSet \<Rightarrow> nat \<Rightarrow> u32" where
  "common s u i = s ! i AND u ! i"

lemma and_loop_None: "w \<le> i \<Longrightarrow> i < w + k \<Longrightarrow> i < length s \<Longrightarrow> bit (common s u i) 31 \<Longrightarrow> and_loop k w s u r ret = None"
proof (induction k arbitrary: w s r ret)
  case (Suc k)
  show ?case
  proof (cases "i = w")
    case True
    then show ?thesis using Suc.prems(4) by (simp add: common_def count_fast)
  next
    case False
    have "common (s[w := x]) u i = common s u i" for x using False by (simp add: common_def)
    then show ?thesis using Suc.IH [of "Suc w"] Suc.prems False by (simp add: Let_def split: option.split)
  qed
qed simp

lemma and_loop_Some:
  "(\<forall>i. w \<le> i \<longrightarrow> i < w + k \<longrightarrow> \<not> bit (common s u i) 31) \<Longrightarrow> w + k \<le> length s \<Longrightarrow> length r = length s \<Longrightarrow>
     \<exists>s' r'. and_loop k w s u r ret = Some (ret + (\<Sum>i = w..<w + k. int (card (bits (common s u i)))), s', r')
      \<and> length s' = length s \<and> length r' = length s
      \<and> (\<forall>i < length s. s' ! i = (if w \<le> i \<and> i < w + k then s ! i AND NOT (common s u i) else s ! i)
           \<and> r' ! i = (if w \<le> i \<and> i < w + k then common s u i else r ! i))"
proof (induction k arbitrary: w s r ret)
  case 0
  then show ?case by auto
next
  case (Suc k)
  let ?c = "common s u w" let ?s = "s[w := s ! w AND NOT ?c]" and ?r = "r[w := ?c]"
  have nb: "\<not> bit ?c 31" using Suc.prems(1) by simp
  have same: "common ?s u i = common s u i" if "Suc w \<le> i" for i using that by (simp add: common_def)
  obtain s' r' where ih: "and_loop k (Suc w) ?s u ?r (ret + int (card (bits ?c))) =
        Some (ret + int (card (bits ?c)) + (\<Sum>i = Suc w..<Suc w + k. int (card (bits (common ?s u i)))), s', r')"
      "length s' = length s" "length r' = length s"
      "\<forall>i < length s. s' ! i = (if Suc w \<le> i \<and> i < Suc w + k then ?s ! i AND NOT (common ?s u i) else ?s ! i)
           \<and> r' ! i = (if Suc w \<le> i \<and> i < Suc w + k then common ?s u i else ?r ! i)"
    using Suc.IH [of "Suc w" ?s ?r "ret + int (card (bits ?c))"] Suc.prems same by auto
  have "(\<Sum>i = w..<w + Suc k. int (card (bits (common s u i)))) = int (card (bits ?c)) + (\<Sum>i = Suc w..<Suc w + k. int (card (bits (common ?s u i))))"
    using same by (simp add: sum.atLeast_Suc_lessThan)
  then have "and_loop (Suc k) w s u r ret = Some (ret + (\<Sum>i = w..<w + Suc k. int (card (bits (common s u i)))), s', r')"
    using ih(1) nb by (simp add: common_def [symmetric] count_fast Let_def algebra_simps)
  moreover have "s' ! i = (if w \<le> i \<and> i < w + Suc k then s ! i AND NOT (common s u i) else s ! i)
      \<and> r' ! i = (if w \<le> i \<and> i < w + Suc k then common s u i else r ! i)" if i: "i < length s" for i
    using ih(4) i same [of i] Suc.prems(2,3) by (cases "i = w") auto
  ultimately show ?case using ih(2,3) by blast
qed

text \<open>The sessions found: those of both sets in the words that are looked at.\<close>

definition found :: "nat \<Rightarrow> SessionSet \<Rightarrow> SessionSet \<Rightarrow> nat set" where
  "found maxs s u = {d \<in> members s \<inter> members u. d div 32 \<le> maxs div 32}"

lemma common_members:
  assumes "length s = 32" "length u = 32" "i < 32" "j < 32"
  shows "bit (common s u i) j \<longleftrightarrow> 32 * i + j \<in> members s \<inter> members u"
  using assms by (simp add: common_def members_def ORTP_FD_ISSET_def bit_and_iff)

lemma members_by_word:
  assumes "length r = 32" and "\<And>i j. i < 32 \<Longrightarrow> j < 32 \<Longrightarrow> bit (r ! i) j \<longleftrightarrow> 32 * i + j \<in> A" and "A \<subseteq> {..<1024}"
  shows "members r = A"
proof (rule set_eqI)
  fix d
  have "d \<in> members r \<longleftrightarrow> d < 1024 \<and> bit (r ! (d div 32)) (d mod 32)" using assms(1) by (simp add: members_def ORTP_FD_ISSET_def)
  also have "\<dots> \<longleftrightarrow> d < 1024 \<and> 32 * (d div 32) + d mod 32 \<in> A" using assms(2) [of "d div 32" "d mod 32"] by auto
  also have "\<dots> \<longleftrightarrow> d \<in> A" using assms(3) by auto
  finally show "d \<in> members r \<longleftrightarrow> d \<in> A" .
qed

lemma session_set_and_None:
  assumes "length s = 32" "length u = 32" and "d \<in> found maxs s u" "d mod 32 = 31"
  shows "session_set_and s maxs u r = None"
proof -
  have d: "d div 32 < 32" "d div 32 < maxs div 32 + 1" "32 * (d div 32) + 31 = d"
    using assms by (auto simp: found_def members_def) (metis div_mult_mod_eq mult.commute)
  then have "bit (common s u (d div 32)) 31" using assms common_members [of s u "d div 32" 31] by (simp add: found_def)
  then show ?thesis unfolding session_set_and_def using d assms(1) by (intro and_loop_None [of _ "d div 32"]) simp_all
qed

lemma session_set_and_Some:
  assumes "length s = 32" "length u = 32" and "maxs < 1024" and "\<forall>d \<in> found maxs s u. d mod 32 \<noteq> 31"
  shows "\<exists>s' r. session_set_and s maxs u session_set_init = Some (int (card (found maxs s u)), s', r)
    \<and> length s' = 32 \<and> length r = 32 \<and> members r = found maxs s u \<and> members s' = members s - found maxs s u"
proof -
  let ?k = "maxs div 32 + 1" let ?F = "found maxs s u"
  have k: "?k \<le> 32" using assms(3) by auto
  have nb: "\<not> bit (common s u i) 31" if "i < ?k" for i
    using assms(4) common_members [OF assms(1,2), of i 31] that k by (auto simp: found_def)
  obtain s' r where r: "and_loop ?k 0 s u session_set_init 0 = Some (0 + (\<Sum>i = 0..<0 + ?k. int (card (bits (common s u i)))), s', r)"
      "length s' = 32" "length r = 32"
      "\<forall>i < 32. s' ! i = (if i < ?k then s ! i AND NOT (common s u i) else s ! i) \<and> r ! i = (if i < ?k then common s u i else session_set_init ! i)"
    using and_loop_Some [of 0 ?k s u session_set_init 0] nb k assms(1) by auto
  have mr: "members r = ?F"
  proof (rule members_by_word [OF r(3)])
    show "bit (r ! i) j \<longleftrightarrow> 32 * i + j \<in> ?F" if "i < 32" "j < 32" for i j
      using that r(4) common_members [OF assms(1,2) that] by (auto simp: found_def session_set_init_def)
    show "?F \<subseteq> {..<1024}" using assms(1) by (auto simp: found_def members_def)
  qed
  have "members s' = members s - ?F"
  proof (rule members_by_word [OF r(2)])
    show "bit (s' ! i) j \<longleftrightarrow> 32 * i + j \<in> members s - ?F" if "i < 32" "j < 32" for i j
      using that r(4) common_members [OF assms(1,2) that] assms(1,2)
      by (auto simp: found_def bit_and_iff bit_not_iff members_def ORTP_FD_ISSET_def)
    show "members s - ?F \<subseteq> {..<1024}" using assms(1) by (auto simp: members_def)
  qed
  moreover have "(\<Sum>i = 0..<0 + ?k. int (card (bits (common s u i)))) = int (card ?F)"
  proof -
    have "card (members r) = (\<Sum>i < 32. card (bits (r ! i)))" using card_members [of r] r(3) by simp
    also have "\<dots> = (\<Sum>i < ?k. card (bits (r ! i)))"
      using k r(4) by (intro sum.mono_neutral_right) (auto simp: session_set_init_def bits_def)
    also have "\<dots> = (\<Sum>i < ?k. card (bits (common s u i)))" using k r(4) by (intro sum.cong) auto
    finally show ?thesis by (simp add: mr atLeast0LessThan)
  qed
  ultimately show ?thesis using r(1-3) mr by (auto simp: session_set_and_def)
qed

text \<open>C24: \<open>session_set_and\<close> returns exactly when no session found has one of the positions 31, 63, 95 and so on. Then the result
  is the intersection of the two sets, in the words up to the highest position in use, the sessions found are taken out of the
  scheduler's set, and the number returned is how many they are. Otherwise the count of a word with its top bit set
  shifts a negative number to the right for ever.\<close>

theorem session_set_and_intersects:
  assumes "length s = 32" "length u = 32" and "maxs < 1024"
  shows "(\<exists>d \<in> found maxs s u. d mod 32 = 31) \<and> session_set_and s maxs u session_set_init = None
    \<or> (\<forall>d \<in> found maxs s u. d mod 32 \<noteq> 31) \<and> (\<exists>s' r. session_set_and s maxs u session_set_init = Some (int (card (found maxs s u)), s', r)
         \<and> members r = found maxs s u \<and> members s' = members s - found maxs s u)"
  using session_set_and_Some [OF assms] session_set_and_None [OF assms(1,2)] by blast

theorem session_set_and_intersects_witness:
  "(let s = ORTP_FD_SET 31 session_set_init in session_set_and s 31 s session_set_init = None)
   \<and> (let s = ORTP_FD_SET 40 (ORTP_FD_SET 7 session_set_init) in \<exists>s' r. session_set_and s 40 s session_set_init = Some (2, s', r) \<and> members r = {7, 40})"
proof -
  have a: "found 31 (ORTP_FD_SET 31 session_set_init) (ORTP_FD_SET 31 session_set_init) = {31}" by (auto simp: found_def)
  have b: "found 40 (ORTP_FD_SET 40 (ORTP_FD_SET 7 session_set_init)) (ORTP_FD_SET 40 (ORTP_FD_SET 7 session_set_init)) = {7, 40}"
    by (auto simp: found_def)
  show ?thesis
    using session_set_and_intersects [of "ORTP_FD_SET 31 session_set_init" "ORTP_FD_SET 31 session_set_init" 31]
      session_set_and_intersects [of "ORTP_FD_SET 40 (ORTP_FD_SET 7 session_set_init)" "ORTP_FD_SET 40 (ORTP_FD_SET 7 session_set_init)" 40]
    by (simp add: a b Let_def) blast
qed

section \<open>Select\<close>

text \<open>Three masks of 32 words, and no session at a position that cannot be counted.\<close>

definition select_ok :: "RtpScheduler \<Rightarrow> bool" where
  "select_ok sc \<longleftrightarrow> all_max sc < 1024 \<and> (\<forall>m \<in> {r_sessions sc, w_sessions sc, e_sessions sc}. length m = 32 \<and> (\<forall>d \<in> members m. d mod 32 \<noteq> 31))"

lemma select_set_ok:
  assumes "length m = 32" and "\<forall>d \<in> members m. d mod 32 \<noteq> 31" and "maxs < 1024" and "\<forall>u'. u = Some u' \<longrightarrow> length u' = 32" and "0 \<le> ret"
  shows "\<exists>m' u''. select_set maxs m u ret = Some (ret + (case u of None \<Rightarrow> 0 | Some u' \<Rightarrow> int (card (found maxs m u'))), m', u'')
    \<and> (case u of None \<Rightarrow> u'' = None \<and> m' = m
       | Some u' \<Rightarrow> members m' = members m - found maxs m u' \<and> (\<exists>v. u'' = Some v
            \<and> (if 0 < ret + int (card (found maxs m u')) then members v = found maxs m u' else v = u')))"
proof (cases u)
  case None
  then show ?thesis by (simp add: select_set_def)
next
  case (Some u')
  obtain s' r where "session_set_and m maxs u' session_set_init = Some (int (card (found maxs m u')), s', r)"
      "members r = found maxs m u'" "members s' = members m - found maxs m u'"
    using session_set_and_Some [of m u' maxs] assms Some by (auto simp: found_def)
  then show ?thesis using Some by (simp add: select_set_def)
qed

text \<open>One look of \<open>session_set_select\<close> at the masks finds the sessions of the receive and send sets that have an event, takes
  them out of the masks and counts them. Both sets are reduced to these sessions if a receive event was found. If only send
  events were found the receive set comes back as it was given, as if all its sessions had an event.\<close>

theorem select_keeps_receivers_without_events:
  assumes "select_ok sc" and "length R = 32" and "length W = 32"
    and "F = found (all_max sc) (r_sessions sc) R" and "G = found (all_max sc) (w_sessions sc) W"
  shows "\<exists>sc' R' W'. select_pass sc (Some R, Some W, None) = Some (int (card F) + int (card G), sc', Some R', Some W', None)
    \<and> members (r_sessions sc') = members (r_sessions sc) - F \<and> members (w_sessions sc') = members (w_sessions sc) - G
    \<and> (F \<noteq> {} \<longrightarrow> members R' = F \<and> members W' = G) \<and> (F = {} \<longrightarrow> R' = R) \<and> (F = {} \<longrightarrow> G \<noteq> {} \<longrightarrow> members W' = G)"
proof -
  have m: "length (r_sessions sc) = 32" "\<forall>d \<in> members (r_sessions sc). d mod 32 \<noteq> 31" "length (w_sessions sc) = 32"
    "\<forall>d \<in> members (w_sessions sc). d mod 32 \<noteq> 31" "all_max sc < 1024" using assms(1) by (auto simp: select_ok_def)
  have fin: "finite F" "finite G" by (rule finite_subset [of _ "{..<1024}"]; use m assms(4,5) in \<open>auto simp: found_def members_def\<close>)+
  obtain rm R' where r: "select_set (all_max sc) (r_sessions sc) (Some R) 0 = Some (int (card F), rm, Some R')"
      "members rm = members (r_sessions sc) - F" "if 0 < int (card F) then members R' = F else R' = R"
    using select_set_ok [OF m(1,2,5), of "Some R" 0] assms(2) by (auto simp: assms(4))
  obtain wm W' where w: "select_set (all_max sc) (w_sessions sc) (Some W) (int (card F)) = Some (int (card F) + int (card G), wm, Some W')"
      "members wm = members (w_sessions sc) - G" "if 0 < int (card F) + int (card G) then members W' = G else W' = W"
    using select_set_ok [OF m(3,4,5), of "Some W" "int (card F)"] assms(3) by (auto simp: assms(5))
  have "select_pass sc (Some R, Some W, None) = Some (int (card F) + int (card G), sc\<lparr>r_sessions := rm, w_sessions := wm\<rparr>, Some R', Some W', None)"
    by (simp add: select_pass_def r(1) w(1)) (simp add: select_set_def)
  moreover have "F \<noteq> {} \<longrightarrow> members R' = F" "F = {} \<longrightarrow> R' = R" using r(3) fin(1) by (simp_all add: card_gt_0_iff)
  moreover have "F \<noteq> {} \<or> G \<noteq> {} \<Longrightarrow> 0 < int (card F) + int (card G)" using fin by (auto simp: zero_less_iff_neq_zero simp flip: of_nat_add)
  then have "F \<noteq> {} \<or> G \<noteq> {} \<Longrightarrow> members W' = G" using w(3) by simp
  ultimately show ?thesis using r(2) w(2) by auto
qed

definition demo_scheduler :: RtpScheduler where
  "demo_scheduler = (rtp_scheduler_new (0, 10000) (\<lambda>_. undefined))\<lparr>all_max := 3, w_sessions := ORTP_FD_SET 2 session_set_init\<rparr>"

theorem select_keeps_receivers_without_events_witness:
  "let R = ORTP_FD_SET 1 (ORTP_FD_SET 3 session_set_init); W = ORTP_FD_SET 2 session_set_init in
   \<exists>sc' W'. select_pass demo_scheduler (Some R, Some W, None) = Some (1, sc', Some R, Some W', None) \<and> members R = {1, 3} \<and> members W' = {2}"
proof -
  have f: "found 3 session_set_init R = {}" "found 3 (ORTP_FD_SET 2 session_set_init) (ORTP_FD_SET 2 session_set_init) = {2}" for R
    by (auto simp: found_def)
  have "select_ok demo_scheduler" by (auto simp: select_ok_def demo_scheduler_def rtp_scheduler_new_def rtp_scheduler_set_timer_def)
  from select_keeps_receivers_without_events [OF this, of "ORTP_FD_SET 1 (ORTP_FD_SET 3 session_set_init)" "ORTP_FD_SET 2 session_set_init" "{}" "{2}"]
  show ?thesis by (auto simp: f Let_def demo_scheduler_def rtp_scheduler_new_def rtp_scheduler_set_timer_def)
qed

section \<open>A turn of the scheduler\<close>

definition woken :: "WaitPoint \<Rightarrow> u32 \<Rightarrow> bool" where
  "woken wp t \<longleftrightarrow> fst (wait_point_check wp t)"

definition processed :: "RtpSession \<Rightarrow> u32 \<Rightarrow> RtpSession" where
  "processed s t = s\<lparr>snd_dir := (snd_dir s)\<lparr>dir_wp := snd (wait_point_check (dir_wp (snd_dir s)) t)\<rparr>,
     rcv_dir := (rcv_dir s)\<lparr>dir_wp := snd (wait_point_check (dir_wp (rcv_dir s)) t)\<rparr>\<rparr>"

definition turn_frame :: "RtpScheduler \<Rightarrow> nat list \<times> SessionSet \<times> nat \<times> nat \<times> nat \<times> nat \<times> SessionSet \<times> u32 \<times> u32" where
  "turn_frame sc = (sched_list sc, all_sessions sc, all_max sc, max_sessions sc, length (r_sessions sc), length (w_sessions sc), e_sessions sc,
     sched_time sc, timer_inc sc)"

lemma process_frame [simp]: "turn_frame (sched_process a sc) = turn_frame sc"
  by (simp add: sched_process_def turn_frame_def set_sess_def Let_def split_beta)

lemma process_store:
  "store (sched_process a sc) = (store sc)(a := (store sc a)\<lparr>sess := processed (sess (store sc a)) (sched_time sc)\<rparr>)"
  by (simp add: sched_process_def set_sess_def processed_def Let_def split_beta)

lemma process_masks:
  assumes "length (r_sessions sc) = 32" "length (w_sessions sc) = 32" "mask_pos (store sc a) < 1024"
  shows "members (w_sessions (sched_process a sc)) = members (w_sessions sc)
      \<union> (if woken (dir_wp (snd_dir (sess (store sc a)))) (sched_time sc) then {mask_pos (store sc a)} else {})"
    and "members (r_sessions (sched_process a sc)) = members (r_sessions sc)
      \<union> (if woken (dir_wp (rcv_dir (sess (store sc a)))) (sched_time sc) then {mask_pos (store sc a)} else {})"
  using assms by (simp_all add: sched_process_def woken_def set_sess_def Let_def split_beta)

lemma fold_frame [simp]: "turn_frame (fold sched_process xs sc) = turn_frame sc"
  by (induction xs arbitrary: sc) simp_all

lemma frame_fields:
  assumes "turn_frame sc' = turn_frame sc"
  shows "sched_list sc' = sched_list sc" "all_sessions sc' = all_sessions sc" "all_max sc' = all_max sc" "max_sessions sc' = max_sessions sc"
    "length (r_sessions sc') = length (r_sessions sc)" "length (w_sessions sc') = length (w_sessions sc)" "e_sessions sc' = e_sessions sc"
    "sched_time sc' = sched_time sc" "timer_inc sc' = timer_inc sc"
  using assms by (simp_all add: turn_frame_def)

lemmas process_fields [simp] = frame_fields [OF process_frame]
lemmas fold_fields [simp] = frame_fields [OF fold_frame]

lemma fold_store:
  "distinct xs \<Longrightarrow> store (fold sched_process xs sc) b
     = (if b \<in> set xs then (store sc b)\<lparr>sess := processed (sess (store sc b)) (sched_time sc)\<rparr> else store sc b)"
  by (induction xs arbitrary: sc) (auto simp: process_store)

lemma fold_masks:
  assumes "distinct xs" "length (r_sessions sc) = 32" "length (w_sessions sc) = 32" "\<forall>b \<in> set xs. mask_pos (store sc b) < 1024"
  shows "members (w_sessions (fold sched_process xs sc)) = members (w_sessions sc)
      \<union> {mask_pos (store sc b) | b. b \<in> set xs \<and> woken (dir_wp (snd_dir (sess (store sc b)))) (sched_time sc)}
    \<and> members (r_sessions (fold sched_process xs sc)) = members (r_sessions sc)
      \<union> {mask_pos (store sc b) | b. b \<in> set xs \<and> woken (dir_wp (rcv_dir (sess (store sc b)))) (sched_time sc)}"
  using assms
proof (induction xs arbitrary: sc)
  case (Cons a xs)
  have st: "store (sched_process a sc) b = store sc b" if "b \<in> set xs" for b using Cons.prems that by (auto simp: process_store)
  show ?case using Cons.IH [of "sched_process a sc"] Cons.prems st process_masks [of sc a] by auto
qed simp_all

section \<open>The scheduler is well formed\<close>

definition sched_ok :: "RtpScheduler \<Rightarrow> bool" where
  "sched_ok sc \<longleftrightarrow> distinct (sched_list sc) \<and> length (all_sessions sc) = 32 \<and> length (r_sessions sc) = 32 \<and> length (w_sessions sc) = 32
     \<and> max_sessions sc = 1024 \<and> all_max sc < 1024 \<and> (\<forall>a. in_scheduler sc a \<longleftrightarrow> a \<in> set (sched_list sc))
     \<and> inj_on (\<lambda>a. mask_pos (store sc a)) (set (sched_list sc)) \<and> members (all_sessions sc) = (\<lambda>a. mask_pos (store sc a)) ` set (sched_list sc)
     \<and> (\<forall>d \<in> members (all_sessions sc). d \<le> all_max sc)"

lemma sched_ok_position: "sched_ok sc \<Longrightarrow> a \<in> set (sched_list sc) \<Longrightarrow> mask_pos (store sc a) < 1024"
  by (fastforce simp: sched_ok_def)

lemma turn_fields [simp]:
  "sched_list (scheduler_turn sc) = sched_list sc" "timer_inc (scheduler_turn sc) = timer_inc sc"
  "sched_time (scheduler_turn sc) = sched_time sc + timer_inc sc"
  by (simp_all add: scheduler_turn_def Let_def)

lemma turn_store:
  assumes "sched_ok sc"
  shows "store (scheduler_turn sc) b = (if b \<in> set (sched_list sc)
     then (store sc b)\<lparr>sess := processed (sess (store sc b)) (sched_time sc)\<rparr> else store sc b)"
  using assms by (simp add: scheduler_turn_def Let_def fold_store sched_ok_def)

lemma turn_masks:
  assumes "sched_ok sc"
  shows "members (w_sessions (scheduler_turn sc)) = members (w_sessions sc)
      \<union> {mask_pos (store sc b) | b. b \<in> set (sched_list sc) \<and> woken (dir_wp (snd_dir (sess (store sc b)))) (sched_time sc)}"
  using fold_masks [of "sched_list sc" sc] sched_ok_position [OF assms] assms by (simp add: scheduler_turn_def Let_def sched_ok_def)

lemma processed_flags [simp]: "has_flag (processed s t) f = has_flag s f"
  by (simp add: processed_def has_flag_def)

lemma turn_ok: "sched_ok sc \<Longrightarrow> sched_ok (scheduler_turn sc)"
proof -
  assume ok: "sched_ok sc"
  have f: "all_sessions (scheduler_turn sc) = all_sessions sc" "all_max (scheduler_turn sc) = all_max sc" "max_sessions (scheduler_turn sc) = max_sessions sc"
    "length (r_sessions (scheduler_turn sc)) = length (r_sessions sc)" "length (w_sessions (scheduler_turn sc)) = length (w_sessions sc)"
    by (simp_all add: scheduler_turn_def Let_def)
  have "mask_pos (store (scheduler_turn sc) a) = mask_pos (store sc a)" "in_scheduler (scheduler_turn sc) a = in_scheduler sc a" for a
    by (simp_all add: turn_store [OF ok] in_scheduler_def)
  then show ?thesis using ok by (simp add: sched_ok_def f)
qed

lemma remove_ok: "sched_ok sc \<Longrightarrow> sched_ok (rtp_scheduler_remove_session sc a)"
proof (cases "in_scheduler sc a")
  case True
  assume ok: "sched_ok sc"
  let ?sc = "rtp_scheduler_remove_session sc a"
  have f: "sched_list ?sc = remove1 a (sched_list sc)" "all_sessions ?sc = ORTP_FD_CLR (mask_pos (store sc a)) (all_sessions sc)"
    "all_max ?sc = all_max sc" "max_sessions ?sc = max_sessions sc" "r_sessions ?sc = r_sessions sc" "w_sessions ?sc = w_sessions sc"
    "\<And>b. mask_pos (store ?sc b) = mask_pos (store sc b)"
    using True by (simp_all add: rtp_scheduler_remove_session_def set_sess_def Let_def)
  have fl: "in_scheduler ?sc b \<longleftrightarrow> b \<noteq> a \<and> in_scheduler sc b" for b
    using True by (simp add: rtp_scheduler_remove_session_def set_sess_def Let_def in_scheduler_def has_flag_def rtp_session_unset_flag_def
        RTP_SESSION_IN_SCHEDULER_def and.assoc)
  have d: "distinct (sched_list sc)" "a \<in> set (sched_list sc)" and inj: "inj_on (\<lambda>a. mask_pos (store sc a)) (set (sched_list sc))"
    using ok True by (auto simp: sched_ok_def)
  have "(\<lambda>a. mask_pos (store sc a)) ` set (sched_list sc) - {mask_pos (store sc a)} = (\<lambda>a. mask_pos (store sc a)) ` (set (sched_list sc) - {a})"
    using inj d(2) by (auto dest: inj_onD)
  then show ?thesis using ok d(1) inj_on_subset [OF inj] fl unfolding sched_ok_def f by (auto simp: f)
qed (simp add: rtp_scheduler_remove_session_def)

lemma find_position_free:
  "\<exists>i \<in> set is. \<not> ORTP_FD_ISSET i (all_sessions sc) \<Longrightarrow>
     \<exists>i \<in> set is. \<not> ORTP_FD_ISSET i (all_sessions sc) \<and> find_position a is sc = take_position a i sc"
  by (induction "is") auto

lemma take_position_fields:
  "sched_list (take_position a i sc) = sched_list sc" "all_sessions (take_position a i sc) = ORTP_FD_SET i (all_sessions sc)"
  "all_max (take_position a i sc) = max (all_max sc) i" "max_sessions (take_position a i sc) = max_sessions sc"
  "length (r_sessions (take_position a i sc)) = length (r_sessions sc)" "length (w_sessions (take_position a i sc)) = length (w_sessions sc)"
  "store (take_position a i sc) = (store sc)(a := (store sc a)\<lparr>mask_pos := i\<rparr>)"
  by (simp_all add: take_position_def Let_def)

lemma free_position:
  assumes "sched_ok sc" and "length (sched_list sc) < 1024"
  shows "\<exists>i \<in> set [0..<1024]. \<not> ORTP_FD_ISSET i (all_sessions sc)"
proof (rule ccontr)
  assume "\<not> ?thesis"
  moreover have "length (all_sessions sc) = 32" using assms(1) by (simp add: sched_ok_def)
  ultimately have "{..<1024} \<subseteq> members (all_sessions sc)" by (auto simp: isset_members)
  moreover have "card (members (all_sessions sc)) = length (sched_list sc)" "finite (members (all_sessions sc))"
    using assms(1) by (auto simp: sched_ok_def card_image distinct_card)
  ultimately show False using card_mono [of "members (all_sessions sc)" "{..<1024}"] assms(2) by simp
qed

lemma add_ok:
  assumes "sched_ok sc" and "length (sched_list sc) < 1024"
  shows "sched_ok (rtp_scheduler_add_session sc a)"
proof (cases "in_scheduler sc a")
  case False
  let ?pre = "sc\<lparr>sched_list := a # sched_list sc\<rparr>" and ?sc = "rtp_scheduler_add_session sc a" let ?m = "\<lambda>b. mask_pos (store sc b)"
  obtain i where i: "i < 1024" "\<not> ORTP_FD_ISSET i (all_sessions sc)" "find_position a [0..<1024] ?pre = take_position a i ?pre"
    using find_position_free [of "[0..<1024]" ?pre a] free_position [OF assms] by auto
  have mx: "max_sessions sc = 1024" "length (all_sessions sc) = 32" "a \<notin> set (sched_list sc)" using assms(1) False by (auto simp: sched_ok_def)
  have f: "sched_list ?sc = a # sched_list sc" "all_sessions ?sc = ORTP_FD_SET i (all_sessions sc)" "all_max ?sc = max (all_max sc) i"
    "max_sessions ?sc = 1024" "length (r_sessions ?sc) = length (r_sessions sc)" "length (w_sessions ?sc) = length (w_sessions sc)"
    "\<And>b. mask_pos (store ?sc b) = (if b = a then i else ?m b)"
    using False i(3) mx(1) by (simp_all add: rtp_scheduler_add_session_def set_sess_def Let_def take_position_fields)
  have fl: "in_scheduler ?sc b \<longleftrightarrow> b = a \<or> in_scheduler sc b" for b
    using False i(3) mx(1)
    by (simp add: rtp_scheduler_add_session_def set_sess_def Let_def take_position_fields in_scheduler_def has_flag_def rtp_session_set_flag_def
        RTP_SESSION_IN_SCHEDULER_def bit.conj_disj_distrib2)
  have "i \<notin> members (all_sessions sc)" using i mx(2) by (simp add: isset_members)
  then have new: "i \<notin> ?m ` set (sched_list sc)" using assms(1) by (simp add: sched_ok_def)
  have img: "(\<lambda>b. if b = a then i else ?m b) ` set (sched_list sc) = ?m ` set (sched_list sc)" using mx(3) by (auto intro!: image_cong)
  have inj: "inj_on (\<lambda>b. if b = a then i else ?m b) (set (sched_list sc))" using assms(1) mx(3) by (auto simp: sched_ok_def inj_on_def)
  show ?thesis using assms(1) i(1) mx(2,3) new img inj unfolding sched_ok_def f(1-6) by (auto simp: f(7) fl image_iff intro: max.coboundedI1)
qed (use assms in \<open>simp add: rtp_scheduler_add_session_def\<close>)

text \<open>C27: the scheduler stays well formed: no session is twice in the list, the sessions of the list are those that have the flag, they
  have different positions, the mask of all sessions has exactly their positions and \<open>all_max\<close> bounds them. This holds of a new
  scheduler and is kept when a session is added, while there are fewer than 1024, when one is removed, and by every turn.\<close>

theorem scheduler_stays_well_formed:
  assumes "sched_ok sc" and "\<forall>b. \<not> has_flag (sess (mem b)) RTP_SESSION_IN_SCHEDULER"
  shows "sched_ok (rtp_scheduler_new interval mem) \<and> (length (sched_list sc) < 1024 \<longrightarrow> sched_ok (rtp_scheduler_add_session sc a))
    \<and> sched_ok (rtp_scheduler_remove_session sc a) \<and> sched_ok (rtp_scheduler_schedule n sc)"
proof -
  have "sched_ok (rtp_scheduler_schedule n sc)"
    by (induction n) (use assms(1) turn_ok in \<open>simp_all add: rtp_scheduler_schedule_def\<close>)
  moreover have "sched_ok (rtp_scheduler_new interval mem)"
    using assms(2) by (simp add: sched_ok_def rtp_scheduler_new_def rtp_scheduler_set_timer_def in_scheduler_def)
  ultimately show ?thesis using add_ok [OF assms(1)] remove_ok [OF assms(1)] by blast
qed

section \<open>A waiting session is woken in time\<close>

lemma ceiling_turns: "0 < i \<Longrightarrow> k < (d + i - 1) div i \<longleftrightarrow> k * i < (d :: nat)"
proof -
  assume i: "0 < i"
  have "k < (d + i - 1) div i \<longleftrightarrow> Suc k * i \<le> d + i - 1" by (metis Suc_le_eq i less_eq_div_iff_mult_less_eq)
  then show ?thesis using i by auto
qed

lemma newer_after:
  fixes t0 inc T :: u32
  assumes "T - t0 = of_nat d" "d < 2 ^ 31" "inc = of_nat i" "i \<le> 2 ^ 31" "k * i < d + i"
  shows "RTP_TIMESTAMP_IS_NEWER_THAN (t0 + of_nat k * inc) T \<longleftrightarrow> d \<le> k * i"
proof -
  have eq: "t0 + of_nat k * inc - T = of_nat (k * i) - of_nat d" using assms(1,3) by (simp add: algebra_simps)
  show ?thesis
  proof (cases "d \<le> k * i")
    case True
    then have "t0 + of_nat k * inc - T = of_nat (k * i - d)" using eq by simp
    moreover have b: "k * i - d < 2 ^ 31" using assms(4,5) by simp
    ultimately have "unat (t0 + of_nat k * inc - T) = k * i - d" by (simp only: unat_of_nat) (simp add: take_bit_nat_eq_self)
    then show ?thesis using True b by (simp add: RTP_TIMESTAMP_IS_NEWER_THAN_def word_less_nat_alt)
  next
    case False
    then have "t0 + of_nat k * inc - T = - of_nat (d - k * i)" using eq by simp
    moreover have "0 < d - k * i" "d - k * i < 2 ^ 31" using False assms(2) by simp_all
    moreover have "unat (- (of_nat m :: u32)) = 2 ^ 32 - m" if "0 < m" "m < 2 ^ 31" for m
      using that unat_sub_if' [of 0 "of_nat m :: u32"] by (simp add: unat_of_nat take_bit_nat_eq_self)
    ultimately have "unat (t0 + of_nat k * inc - T) = 2 ^ 32 - (d - k * i)" by metis
    then show ?thesis using False \<open>d - k * i < 2 ^ 31\<close> by (simp add: RTP_TIMESTAMP_IS_NEWER_THAN_def word_less_nat_alt)
  qed
qed

text \<open>With the masks at its position as its bits, a session is processed as \<open>rtp_session_process\<close> says.\<close>

definition session_at :: "RtpScheduler \<Rightarrow> nat \<Rightarrow> RtpSession" where
  "session_at sc a = (sess (store sc a))\<lparr>w_session_bit := mask_pos (store sc a) \<in> members (w_sessions sc),
     r_session_bit := mask_pos (store sc a) \<in> members (r_sessions sc)\<rparr>"

lemma sched_process_refines:
  assumes "length (r_sessions sc) = 32" "length (w_sessions sc) = 32" "mask_pos (store sc a) < 1024"
  shows "session_at (sched_process a sc) a = rtp_session_process (session_at sc a) (sched_time sc)"
proof -
  have "mask_pos (store (sched_process a sc) a) = mask_pos (store sc a)"
    "sess (store (sched_process a sc) a) = processed (sess (store sc a)) (sched_time sc)" by (simp_all add: process_store)
  then show ?thesis
    unfolding session_at_def process_masks [OF assms]
    by (simp add: rtp_session_process_def processed_def woken_def Let_def split_beta disj_commute)
qed

text \<open>The wait point for sending of a session that waits for \<open>T\<close>, until it is woken.\<close>

definition waits_for :: "RtpScheduler \<Rightarrow> nat \<Rightarrow> u32 \<Rightarrow> bool" where
  "waits_for sc a T \<longleftrightarrow> wp_wakeup (dir_wp (snd_dir (sess (store sc a)))) \<and> wp_time (dir_wp (snd_dir (sess (store sc a)))) = T"

lemma turn_waiting:
  assumes "sched_ok sc" and "a \<in> set (sched_list sc)" and "waits_for sc a T" and "mask_pos (store sc a) \<notin> members (w_sessions sc)"
  shows "if RTP_TIMESTAMP_IS_NEWER_THAN (sched_time sc) T
    then \<not> wp_wakeup (dir_wp (snd_dir (sess (store (scheduler_turn sc) a)))) \<and> mask_pos (store sc a) \<in> members (w_sessions (scheduler_turn sc))
    else waits_for (scheduler_turn sc) a T \<and> mask_pos (store sc a) \<notin> members (w_sessions (scheduler_turn sc))"
proof -
  let ?wp = "dir_wp (snd_dir (sess (store sc a)))"
  have wk: "woken ?wp (sched_time sc) \<longleftrightarrow> RTP_TIMESTAMP_IS_NEWER_THAN (sched_time sc) T"
    using assms(3) by (simp add: woken_def wait_point_check_def waits_for_def)
  have st: "dir_wp (snd_dir (sess (store (scheduler_turn sc) a))) = snd (wait_point_check ?wp (sched_time sc))"
    using assms(2) by (simp add: turn_store [OF assms(1)] processed_def)
  have mm: "mask_pos (store sc a) \<in> members (w_sessions (scheduler_turn sc)) \<longleftrightarrow> woken ?wp (sched_time sc)"
  proof -
    have "b = a" if "b \<in> set (sched_list sc)" "mask_pos (store sc a) = mask_pos (store sc b)" for b
      using assms(1,2) that by (auto simp: sched_ok_def dest: inj_onD)
    then show ?thesis using assms(2,4) unfolding turn_masks [OF assms(1)] by blast
  qed
  show ?thesis using assms(3) by (simp add: mm wk waits_for_def st) (simp add: wait_point_check_def)
qed

lemma turn_frame_pos: "sched_ok sc \<Longrightarrow> mask_pos (store (scheduler_turn sc) a) = mask_pos (store sc a)"
  by (simp add: turn_store)

lemma turns_fields:
  assumes "sched_ok sc"
  shows "sched_ok ((scheduler_turn ^^ k) sc)" "sched_list ((scheduler_turn ^^ k) sc) = sched_list sc" "timer_inc ((scheduler_turn ^^ k) sc) = timer_inc sc"
    "sched_time ((scheduler_turn ^^ k) sc) = sched_time sc + of_nat k * timer_inc sc" "mask_pos (store ((scheduler_turn ^^ k) sc) a) = mask_pos (store sc a)"
  by (induction k) (simp_all add: assms turn_ok turn_frame_pos algebra_simps)

lemma turn_keeps_bits: "sched_ok sc \<Longrightarrow> members (w_sessions sc) \<subseteq> members (w_sessions (scheduler_turn sc))"
  by (auto simp: turn_masks)

lemma turns_waiting:
  assumes "sched_ok sc" and "a \<in> set (sched_list sc)" and "waits_for sc a T" and "mask_pos (store sc a) \<notin> members (w_sessions sc)"
    and "\<forall>j < k. \<not> RTP_TIMESTAMP_IS_NEWER_THAN (sched_time sc + of_nat j * timer_inc sc) T"
  shows "waits_for ((scheduler_turn ^^ k) sc) a T \<and> mask_pos (store sc a) \<notin> members (w_sessions ((scheduler_turn ^^ k) sc))"
  using assms(5)
proof (induction k)
  case 0
  then show ?case using assms by simp
next
  case (Suc k)
  let ?s = "(scheduler_turn ^^ k) sc"
  note f = turns_fields [OF assms(1), of k]
  have "\<not> RTP_TIMESTAMP_IS_NEWER_THAN (sched_time ?s) T" using Suc.prems f(4) by simp
  then show ?case using turn_waiting [of ?s a T] Suc.IH Suc.prems f assms(2) by simp
qed

text \<open>C17: a session that waits to send until the time \<open>T\<close>, less than half the circle ahead, is woken by the first turn of the
  scheduler at or after \<open>T\<close>, across the wrap-around of the clock, and not before: with steps of \<open>i\<close> milliseconds and a delay of
  \<open>d\<close>, its bit is set in the mask of writable sessions after \<open>k\<close> turns exactly when \<open>k\<close> exceeds \<open>d\<close> divided by \<open>i\<close>, rounded up.\<close>

theorem waiting_session_is_woken:
  assumes "sched_ok sc" and "a \<in> set (sched_list sc)" and "waits_for sc a T" and "mask_pos (store sc a) \<notin> members (w_sessions sc)"
    and "i = unat (timer_inc sc)" and "0 < i" and "i \<le> 2 ^ 31" and "d = unat (T - sched_time sc)" and "d < 2 ^ 31"
  shows "mask_pos (store sc a) \<in> members (w_sessions (rtp_scheduler_schedule k sc)) \<longleftrightarrow> (d + i - 1) div i < k"
proof -
  let ?n = "(d + i - 1) div i" and ?p = "mask_pos (store sc a)"
  have newer: "RTP_TIMESTAMP_IS_NEWER_THAN (sched_time sc + of_nat j * timer_inc sc) T \<longleftrightarrow> d \<le> j * i" if "j * i < d + i" for j
    using newer_after [of T "sched_time sc" d "timer_inc sc" i j] assms(5,7-9) that by simp
  have before: "\<not> RTP_TIMESTAMP_IS_NEWER_THAN (sched_time sc + of_nat j * timer_inc sc) T" if "j < ?n" for j
    using newer [of j] ceiling_turns [OF assms(6), of j d] that by auto
  show ?thesis
  proof (cases "?n < k")
    case False
    then show ?thesis using turns_waiting [OF assms(1-4), of k] before by (simp add: rtp_scheduler_schedule_def)
  next
    case True
    let ?s = "(scheduler_turn ^^ ?n) sc"
    note f = turns_fields [OF assms(1), of ?n]
    have n: "d \<le> ?n * i" using ceiling_turns [OF assms(6), of ?n d] by simp
    have "?n * i < d + i" using assms(6) div_times_less_eq_dividend [of "d + i - 1" i] by linarith
    then have "RTP_TIMESTAMP_IS_NEWER_THAN (sched_time ?s) T" using newer n f(4) by simp
    then have "?p \<in> members (w_sessions ((scheduler_turn ^^ Suc ?n) sc))"
      using turn_waiting [of ?s a T] turns_waiting [OF assms(1-4), of ?n] before f assms(2) by simp
    moreover have "members (w_sessions ((scheduler_turn ^^ Suc ?n) sc)) \<subseteq> members (w_sessions ((scheduler_turn ^^ (j + Suc ?n)) sc))" for j
    proof (induction j)
      case (Suc j)
      show ?case using Suc turn_keeps_bits [OF turns_fields(1) [OF assms(1)], of "j + Suc ?n"] by auto
    qed simp
    moreover obtain j where "k = j + Suc ?n" using True less_iff_Suc_add [of ?n k] by (metis add.commute add_Suc_right)
    ultimately show ?thesis using True by (auto simp: rtp_scheduler_schedule_def)
  qed
qed

definition demo_memory :: "nat \<Rightarrow> SchedSession" where
  "demo_memory a = \<lparr>sess = demo_session\<lparr>snd_dir := demo_dir\<lparr>dir_wp := wait_point_wakeup_at wait_point_init (of_nat (20 + a))\<rparr>\<rparr>, mask_pos = 0\<rparr>"

definition demo_scheduled :: RtpScheduler where
  "demo_scheduled = rtp_scheduler_add_session (rtp_scheduler_new (0, 10000) demo_memory) 5"

lemma demo_flags: "\<not> has_flag (sess (demo_memory a)) f"
  by (simp add: demo_memory_def demo_session_def has_flag_def)

lemma demo_new_ok: "sched_ok (rtp_scheduler_new (0, 10000) demo_memory)"
  by (simp add: sched_ok_def rtp_scheduler_new_def rtp_scheduler_set_timer_def in_scheduler_def demo_flags)

theorem scheduler_stays_well_formed_witness:
  "sched_ok demo_scheduled \<and> sched_ok (rtp_scheduler_schedule 7 (rtp_scheduler_new (0, 10000) demo_memory))"
  using scheduler_stays_well_formed [OF demo_new_ok, of demo_memory "(0, 10000)" 5 7] demo_flags
  by (simp add: demo_scheduled_def rtp_scheduler_new_def rtp_scheduler_set_timer_def)

lemma add_first:
  assumes "\<not> in_scheduler sc a" "0 < max_sessions sc" "\<not> ORTP_FD_ISSET 0 (all_sessions sc)"
  shows "rtp_scheduler_add_session sc a = set_sess a (rtp_session_set_flag (sess (store sc a)) RTP_SESSION_IN_SCHEDULER)
     (take_position a 0 (sc\<lparr>sched_list := a # sched_list sc\<rparr>))"
  using assms by (simp add: rtp_scheduler_add_session_def upt_conv_Cons take_position_fields Let_def)

lemma demo_scheduled_facts:
  "sched_ok demo_scheduled" "sched_list demo_scheduled = [5]" "waits_for demo_scheduled 5 25" "sched_time demo_scheduled = 0"
  "members (w_sessions demo_scheduled) = {}" "unat (timer_inc demo_scheduled) = 10" "mask_pos (store demo_scheduled 5) = 0"
proof -
  show "sched_ok demo_scheduled" unfolding demo_scheduled_def
    by (rule add_ok [OF demo_new_ok]) (simp add: rtp_scheduler_new_def rtp_scheduler_set_timer_def)
  have d: "demo_scheduled = set_sess 5 (rtp_session_set_flag (sess (demo_memory 5)) RTP_SESSION_IN_SCHEDULER)
      (take_position 5 0 ((rtp_scheduler_new (0, 10000) demo_memory)\<lparr>sched_list := [5]\<rparr>))"
    unfolding demo_scheduled_def
    by (subst add_first) (simp_all add: in_scheduler_def rtp_scheduler_new_def rtp_scheduler_set_timer_def demo_flags ORTP_FD_ISSET_def session_set_init_def)
  show "sched_list demo_scheduled = [5]" "waits_for demo_scheduled 5 25" "sched_time demo_scheduled = 0" "members (w_sessions demo_scheduled) = {}"
    "unat (timer_inc demo_scheduled) = 10" "mask_pos (store demo_scheduled 5) = 0"
    unfolding d by (simp_all add: set_sess_def take_position_def Let_def waits_for_def rtp_scheduler_new_def rtp_scheduler_set_timer_def demo_flags
        rtp_session_set_flag_def c_div_def)
      (simp_all add: demo_memory_def wait_point_wakeup_at_def)
qed

theorem waiting_session_is_woken_witness:
  "0 \<in> members (w_sessions (rtp_scheduler_schedule 4 demo_scheduled)) \<and> 0 \<notin> members (w_sessions (rtp_scheduler_schedule 3 demo_scheduled))"
  using waiting_session_is_woken [of demo_scheduled 5 25 10 25 4] waiting_session_is_woken [of demo_scheduled 5 25 10 25 3] demo_scheduled_facts
  by simp

end
