(* ===== verification/Ms_G711.thy ===== *)
theory Ms_G711
  imports Ms_Queue Rtp_Profile
begin

text \<open>
  The G.711 codecs: the conversions of \<open>mediastreamer2/src/utils/g711common.h\<close> and the encoder and decoder filters of
  \<open>mediastreamer2/src/audiofilters/alaw.c\<close> and \<open>ulaw.c\<close>. A buffer of samples is a list of bytes, two per sample, low byte first.
\<close>

unbundle bit_operations_syntax

section \<open>Conversions\<close>

definition val_seg :: "int \<Rightarrow> int" where
  "val_seg val =
    (let v0 = drop_bit 7 val;
         (v1, r1) = (if v0 AND 0xF0 \<noteq> 0 then (drop_bit 4 v0, 4) else (v0, 0));
         (v2, r2) = (if v1 AND 0x0C \<noteq> 0 then (drop_bit 2 v1, r1 + 2) else (v1, r1))
     in if v2 AND 2 \<noteq> 0 then r2 + 1 else r2)"

definition s16_to_alaw :: "int \<Rightarrow> u8" where
  "s16_to_alaw pcm_val =
    (let (msk, v) = (if 0 \<le> pcm_val then (0xD5, pcm_val) else (0x55, if 0x7FFF < - pcm_val then 0x7FFF else - pcm_val));
         aval = (if v < 256 then drop_bit 4 v
                 else let seg = val_seg v in push_bit 4 seg OR (drop_bit (nat (seg + 3)) v AND 0x0F))
     in word_of_int aval XOR msk)"

definition alaw_to_s16 :: "u8 \<Rightarrow> int" where
  "alaw_to_s16 a_val =
    (let a = a_val XOR 0x55;
         t = uint (a AND 0x7F);
         t1 = (if t < 16 then push_bit 4 t + 8
               else push_bit (nat ((drop_bit 4 t AND 7) - 1)) (push_bit 4 (t AND 0x0F) + 0x108))
     in if a AND 0x80 \<noteq> 0 then t1 else - t1)"

definition s16_to_ulaw :: "int \<Rightarrow> u8" where
  "s16_to_ulaw pcm_val =
    (let (msk, v0) = (if pcm_val < 0 then (0x7F, 0x84 - pcm_val) else (0xFF, pcm_val + 0x84));
         v = (if 0x7FFF < v0 then 0x7FFF else v0);
         seg = val_seg v
     in word_of_int (push_bit 4 seg OR (drop_bit (nat (seg + 3)) v AND 0x0F)) XOR msk)"

definition ulaw_to_s16 :: "u8 \<Rightarrow> int" where
  "ulaw_to_s16 u_val =
    (let u = NOT u_val;
         t = push_bit (unat (drop_bit 4 (u AND 0x70))) (push_bit 3 (uint (u AND 0x0F)) + 0x84)
     in if u AND 0x80 \<noteq> 0 then 0x84 - t else t - 0x84)"

section \<open>The filters\<close>

record G711EncData =
  enc_bz :: MSBufferizer
  enc_ptime :: int
  enc_ts :: u32

definition enc_data_new :: G711EncData where
  "enc_data_new = \<lparr>enc_bz = ms_bufferizer_init, enc_ptime = 0, enc_ts = 0\<rparr>"

fun samples :: "bytes \<Rightarrow> int list" where
  "samples (lo # hi # r) = sint (push_bit 8 (ucast hi) OR ucast lo :: u16) # samples r"
| "samples _ = []"

definition sample_bytes :: "int \<Rightarrow> bytes" where
  "sample_bytes s = (let w = word_of_int s :: u16 in [ucast w, ucast (drop_bit 8 w)])"

definition size_of_pcm :: "int \<Rightarrow> int" where
  "size_of_pcm ptime =
    (let f0 = (if 10 \<le> ptime then c_div ptime 10 else 2);
         f1 = (if f0 \<le> 0 then 1 else f0)
     in 160 * (if 14 < f1 then 14 else f1))"

text \<open>The loop that reads frames, encodes them and queues them with their timestamps.\<close>

partial_function (option) enc_loop :: "(int \<Rightarrow> u8) \<Rightarrow> int \<Rightarrow> G711EncData \<Rightarrow> MSQueue \<Rightarrow> (G711EncData \<times> MSQueue) option" where
  "enc_loop code pcm dt outq =
    Option.bind (ms_bufferizer_read (enc_bz dt) pcm) (\<lambda>(buffer, n, bz).
      if n = pcm
      then enc_loop code pcm (dt\<lparr>enc_bz := bz, enc_ts := enc_ts dt + word_of_int (c_div pcm 2)\<rparr>)
             (ms_queue_put outq (mblk_set_timestamp_info (msg_of (map code (samples buffer))) (enc_ts dt)))
      else Some (dt\<lparr>enc_bz := bz\<rparr>, outq))"

definition enc_process :: "(int \<Rightarrow> u8) \<Rightarrow> G711EncData \<Rightarrow> MSQueue \<Rightarrow> MSQueue \<Rightarrow> (G711EncData \<times> MSQueue \<times> MSQueue) option" where
  "enc_process code dt inq outq =
    (let (bz, inq') = ms_bufferizer_put_from_queue (enc_bz dt) inq
     in map_option (\<lambda>(dt', outq'). (dt', inq', outq')) (enc_loop code (size_of_pcm (enc_ptime dt)) (dt\<lparr>enc_bz := bz\<rparr>) outq))"

definition alaw_enc_process :: "G711EncData \<Rightarrow> MSQueue \<Rightarrow> MSQueue \<Rightarrow> (G711EncData \<times> MSQueue \<times> MSQueue) option" where
  "alaw_enc_process = enc_process s16_to_alaw"

definition ulaw_enc_process :: "G711EncData \<Rightarrow> MSQueue \<Rightarrow> MSQueue \<Rightarrow> (G711EncData \<times> MSQueue \<times> MSQueue) option" where
  "ulaw_enc_process = enc_process s16_to_ulaw"

text \<open>\<open>msgpullup\<close>, a new block with the metadata of the message, one sample of two bytes per byte.\<close>

definition dec_one :: "(u8 \<Rightarrow> int) \<Rightarrow> msg \<Rightarrow> msg" where
  "dec_one decode m = m\<lparr>m_blocks := [concat (map (sample_bytes \<circ> decode) (msg_data m))]\<rparr>"

definition alaw_dec_process :: "MSQueue \<Rightarrow> MSQueue \<Rightarrow> MSQueue \<times> MSQueue" where
  "alaw_dec_process inq outq = (inq\<lparr>ms_q := []\<rparr>, foldl (\<lambda>q m. ms_queue_put q (dec_one alaw_to_s16 m)) outq (ms_q inq))"

definition ulaw_dec_process :: "MSQueue \<Rightarrow> MSQueue \<Rightarrow> MSQueue \<times> MSQueue" where
  "ulaw_dec_process inq outq = (inq\<lparr>ms_q := []\<rparr>, foldl (\<lambda>q m. ms_queue_put q (dec_one ulaw_to_s16 m)) outq (ms_q inq))"

text \<open>The packet time from an fmtp line or an attribute; the attributes are tried in this order.\<close>

definition enc_add_fmtp :: "G711EncData \<Rightarrow> string \<Rightarrow> G711EncData" where
  "enc_add_fmtp dt fmtp = (case fmtp_get_value fmtp ''ptime'' 30 of Some (True, tmp) \<Rightarrow> dt\<lparr>enc_ptime := atoi tmp\<rparr> | _ \<Rightarrow> dt)"

definition enc_add_attr :: "G711EncData \<Rightarrow> string \<Rightarrow> G711EncData" where
  "enc_add_attr dt fmtp =
    (case find (\<lambda>v. strstr fmtp (''ptime:'' @ show_int v) \<noteq> None) [10, 20, 30, 40, 50, 60, 70, 80, 90, 100, 110, 120, 130, 140] of
       Some v \<Rightarrow> dt\<lparr>enc_ptime := v\<rparr> | None \<Rightarrow> dt)"

section \<open>All codes\<close>

text \<open>The attribute for 100 ms begins like the one for 10 ms, which is found first.\<close>

lemma ptime_100_is_10: "enc_ptime (enc_add_attr dt ''ptime:100'') = 10"
proof -
  have "show_int 10 = ''10''" by code_simp
  then show ?thesis by (simp add: enc_add_attr_def)
qed

lemma alaw_all_codes: "list_all (\<lambda>i. s16_to_alaw (alaw_to_s16 (of_nat i)) = of_nat i) [0..<256]"
  by code_simp

lemma ulaw_all_codes: "list_all (\<lambda>i. s16_to_ulaw (ulaw_to_s16 (of_nat i)) = (if i = 127 then 255 else of_nat i)) [0..<256]"
  by code_simp

section \<open>The error of a conversion\<close>

lemma val_seg_all: "list_all (\<lambda>k. list_all (\<lambda>w. val_seg (128 * int w) = int k) [2 ^ k..<2 ^ Suc k]) [0..<8]"
  by code_simp

lemma val_seg_high: "val_seg v = val_seg (128 * (v div 128))"
  by (simp add: val_seg_def drop_bit_eq_div)

lemma val_seg_range:
  assumes "k < 8" "128 * 2 ^ k \<le> v" "v < 256 * 2 ^ k"
  shows "val_seg v = int k"
proof -
  let ?w = "nat (v div 128)"
  have v: "0 \<le> v" using assms(2) by (meson order_trans zero_le_numeral zero_le_power mult_nonneg_nonneg)
  have "2 ^ k \<le> v div 128" "v div 128 < 2 ^ Suc k" using assms(2,3) by simp_all
  then have "?w \<in> set [2 ^ k..<2 ^ Suc k]" using v by (auto simp: nat_less_iff le_nat_iff)
  moreover have "\<forall>w \<in> set [2 ^ k..<2 ^ Suc k]. val_seg (128 * int w) = int k"
    using val_seg_all assms(1) unfolding list_all_iff by (metis atLeastLessThan_iff set_upt zero_le)
  ultimately have "val_seg (128 * int ?w) = int k" by blast
  moreover have "0 \<le> v div 128" using v by (simp add: pos_imp_zdiv_nonneg_iff)
  ultimately show ?thesis by (simp add: val_seg_high [of v])
qed

lemma int_div_bounds: "0 < (b :: int) \<Longrightarrow> c * b \<le> v \<Longrightarrow> c \<le> v div b" "0 < b \<Longrightarrow> v < c * b \<Longrightarrow> v div b < c"
proof -
  show "c \<le> v div b" if "0 < b" "c * b \<le> v" using zdiv_mono1 [OF that(2,1)] that(1) by simp
  show "v div b < c" if "0 < b" "v < c * b"
  proof (rule ccontr)
    assume "\<not> v div b < c"
    then have "c * b \<le> v div b * b" using that(1) by (intro mult_right_mono) simp_all
    then show False using that div_mult_mod_eq [of v b] pos_mod_sign [OF that(1), of v] by linarith
  qed
qed

text \<open>A magnitude in segment \<open>k\<close>: its leading bit, four bits, the rest.\<close>

lemma segment_parts:
  assumes "128 * 2 ^ k \<le> v" "v < 256 * 2 ^ k" "(v :: int) \<le> 32767"
  obtains q r where "v = 2 ^ (k + 7) + q * 2 ^ (k + 3) + r" "0 \<le> q" "q < 16" "0 \<le> r" "r < 2 ^ (k + 3)"
    "drop_bit (k + 3) v AND 15 = q"
proof -
  let ?b = "2 ^ (k + 3) :: int" let ?d = "v div ?b"
  have b: "128 * 2 ^ k = 16 * ?b" "256 * 2 ^ k = 32 * ?b" "2 ^ (k + 7) = 16 * ?b" by (simp_all add: power_add)
  have "0 < ?b" by simp
  then have d: "16 \<le> ?d" "?d < 32" using assms(1,2) unfolding b by (simp_all add: int_div_bounds)
  have and15: "x AND 15 = x mod 16" for x :: int using take_bit_eq_mod [of 4 x] take_bit_eq_mask [of 4 x] by (simp add: mask_eq_exp_minus_1)
  have "x mod 16 = x - 16" if "16 \<le> x" "x < 32" for x :: int using that by presburger
  then have "?d mod 16 = ?d - 16" using d by blast
  then have "drop_bit (k + 3) v AND 15 = ?d - 16" by (simp add: and15 drop_bit_eq_div)
  moreover have "v = 2 ^ (k + 7) + (?d - 16) * ?b + v mod ?b" unfolding b by (simp add: algebra_simps)
  ultimately show thesis using d that [of "?d - 16" "v mod ?b"] by simp
qed

lemma alaw_decode_all:
  "list_all (\<lambda>k. list_all (\<lambda>q. alaw_to_s16 (word_of_int (push_bit 4 k OR q) XOR 0xD5) = (16 * q + 264) * 2 ^ nat (k - 1)
     \<and> alaw_to_s16 (word_of_int (push_bit 4 k OR q) XOR 0x55) = - ((16 * q + 264) * 2 ^ nat (k - 1))) [0..15]) [1..7]"
  "list_all (\<lambda>q. alaw_to_s16 (word_of_int q XOR 0xD5) = 16 * q + 8 \<and> alaw_to_s16 (word_of_int q XOR 0x55) = - (16 * q + 8)) [0..15]"
  by code_simp+

lemma ulaw_decode_all:
  "list_all (\<lambda>k. list_all (\<lambda>q. ulaw_to_s16 (word_of_int (push_bit 4 k OR q) XOR 0xFF) = (8 * q + 132) * 2 ^ nat k - 132
     \<and> ulaw_to_s16 (word_of_int (push_bit 4 k OR q) XOR 0x7F) = 132 - (8 * q + 132) * 2 ^ nat k) [0..15]) [0..7]"
  by code_simp

lemma find_segment:
  assumes "(128 :: int) \<le> v" "v \<le> 32767"
  obtains k where "k < 8" "128 * 2 ^ k \<le> v" "v < 256 * 2 ^ k"
proof -
  consider "v < 256" | "256 \<le> v" "v < 512" | "512 \<le> v" "v < 1024" | "1024 \<le> v" "v < 2048" | "2048 \<le> v" "v < 4096"
    | "4096 \<le> v" "v < 8192" | "8192 \<le> v" "v < 16384" | "16384 \<le> v" by linarith
  then show thesis using assms
    by cases (rule that [of 0] that [of 1] that [of 2] that [of 3] that [of 4] that [of 5] that [of 6] that [of 7]; simp)+
qed

lemma alaw_decode:
  "1 \<le> k \<Longrightarrow> k < 8 \<Longrightarrow> 0 \<le> q \<Longrightarrow> q < 16 \<Longrightarrow> alaw_to_s16 (word_of_int (push_bit 4 (int k) OR q) XOR 0xD5) = (16 * q + 264) * 2 ^ (k - 1)"
  "1 \<le> k \<Longrightarrow> k < 8 \<Longrightarrow> 0 \<le> q \<Longrightarrow> q < 16 \<Longrightarrow> alaw_to_s16 (word_of_int (push_bit 4 (int k) OR q) XOR 0x55) = - ((16 * q + 264) * 2 ^ (k - 1))"
  "0 \<le> q \<Longrightarrow> q < 16 \<Longrightarrow> alaw_to_s16 (word_of_int q XOR 0xD5) = 16 * q + 8"
  "0 \<le> q \<Longrightarrow> q < 16 \<Longrightarrow> alaw_to_s16 (word_of_int q XOR 0x55) = - (16 * q + 8)"
proof -
  have "int k \<in> set [1..7]" if "1 \<le> k" "k < 8" using that unfolding set_upto by simp
  moreover have "q \<in> set [0..15]" if "0 \<le> q" "q < 16" using that unfolding set_upto by simp
  moreover have "nat (int k - 1) = k - 1" by simp
  ultimately show "1 \<le> k \<Longrightarrow> k < 8 \<Longrightarrow> 0 \<le> q \<Longrightarrow> q < 16 \<Longrightarrow> alaw_to_s16 (word_of_int (push_bit 4 (int k) OR q) XOR 0xD5) = (16 * q + 264) * 2 ^ (k - 1)"
    "1 \<le> k \<Longrightarrow> k < 8 \<Longrightarrow> 0 \<le> q \<Longrightarrow> q < 16 \<Longrightarrow> alaw_to_s16 (word_of_int (push_bit 4 (int k) OR q) XOR 0x55) = - ((16 * q + 264) * 2 ^ (k - 1))"
    "0 \<le> q \<Longrightarrow> q < 16 \<Longrightarrow> alaw_to_s16 (word_of_int q XOR 0xD5) = 16 * q + 8"
    "0 \<le> q \<Longrightarrow> q < 16 \<Longrightarrow> alaw_to_s16 (word_of_int q XOR 0x55) = - (16 * q + 8)"
    using alaw_decode_all unfolding list_all_iff by metis+
qed

lemma ulaw_decode:
  "k < 8 \<Longrightarrow> 0 \<le> q \<Longrightarrow> q < 16 \<Longrightarrow> ulaw_to_s16 (word_of_int (push_bit 4 (int k) OR q) XOR 0xFF) = (8 * q + 132) * 2 ^ k - 132"
  "k < 8 \<Longrightarrow> 0 \<le> q \<Longrightarrow> q < 16 \<Longrightarrow> ulaw_to_s16 (word_of_int (push_bit 4 (int k) OR q) XOR 0x7F) = 132 - (8 * q + 132) * 2 ^ k"
proof -
  have "int k \<in> set [0..7]" if "k < 8" using that unfolding set_upto by simp
  moreover have "q \<in> set [0..15]" if "0 \<le> q" "q < 16" using that unfolding set_upto by simp
  ultimately show "k < 8 \<Longrightarrow> 0 \<le> q \<Longrightarrow> q < 16 \<Longrightarrow> ulaw_to_s16 (word_of_int (push_bit 4 (int k) OR q) XOR 0xFF) = (8 * q + 132) * 2 ^ k - 132"
    "k < 8 \<Longrightarrow> 0 \<le> q \<Longrightarrow> q < 16 \<Longrightarrow> ulaw_to_s16 (word_of_int (push_bit 4 (int k) OR q) XOR 0x7F) = 132 - (8 * q + 132) * 2 ^ k"
    using ulaw_decode_all unfolding list_all_iff by (metis nat_int)+
qed

text \<open>The magnitude that A-law keeps of a magnitude \<open>v\<close>, and how far off it is.\<close>

lemma alaw_magnitude:
  assumes "0 \<le> v" "v \<le> 32767"
  obtains d where "alaw_to_s16 (s16_to_alaw v) = d" "v \<noteq> 0 \<Longrightarrow> alaw_to_s16 (s16_to_alaw (- v)) = - d" "\<bar>d - v\<bar> \<le> 8 \<or> 32 * \<bar>d - v\<bar> \<le> v"
proof (cases "v < 256")
  case True
  have q: "drop_bit 4 v = v div 16" "0 \<le> v div 16" "v div 16 < 16" using assms(1) True by (auto simp: drop_bit_eq_div pos_imp_zdiv_nonneg_iff)
  have e: "s16_to_alaw v = word_of_int (v div 16) XOR 0xD5" "v \<noteq> 0 \<Longrightarrow> s16_to_alaw (- v) = word_of_int (v div 16) XOR 0x55"
    using assms True by (simp_all add: s16_to_alaw_def q(1))
  have "\<bar>16 * (v div 16) + 8 - v\<bar> \<le> 8" by presburger
  then show ?thesis using that [of "16 * (v div 16) + 8"] e alaw_decode(3,4) [OF q(2,3)] by simp
next
  case False
  then have "128 \<le> v" by simp
  then obtain k where k: "k < 8" "128 * 2 ^ k \<le> v" "v < 256 * 2 ^ k" by (rule find_segment [OF _ assms(2)])
  have k1: "1 \<le> k" using k(3) False by (cases k) auto
  obtain q r where v: "v = 2 ^ (k + 7) + q * 2 ^ (k + 3) + r" "0 \<le> q" "q < 16" "0 \<le> r" "r < 2 ^ (k + 3)" "drop_bit (k + 3) v AND 15 = q"
    using segment_parts [OF k(2,3) assms(2)] .
  have seg: "val_seg v = int k" "nat (int k + 3) = k + 3" using val_seg_range [OF k] by simp_all
  have e: "s16_to_alaw v = word_of_int (push_bit 4 (int k) OR q) XOR 0xD5" "s16_to_alaw (- v) = word_of_int (push_bit 4 (int k) OR q) XOR 0x55"
    using assms False by (simp_all add: s16_to_alaw_def seg v(6) Let_def)
  have p: "(16 * q + 264) * 2 ^ (k - 1) = 2 ^ (k + 7) + q * 2 ^ (k + 3) + 2 ^ (k + 2)"
    using k1 by (cases k) (simp_all add: power_add algebra_simps)
  have "32 * \<bar>(16 * q + 264) * 2 ^ (k - 1) - v\<bar> \<le> 2 ^ (k + 7)" unfolding p using v(1,4,5) by (simp add: power_add abs_le_iff)
  moreover have "2 ^ (k + 7) \<le> v" using k(2) by (simp add: power_add)
  ultimately show ?thesis using that [of "(16 * q + 264) * 2 ^ (k - 1)"] e alaw_decode(1,2) [OF k1 k(1) v(2,3)] by simp
qed

lemma ulaw_magnitude:
  assumes "0 \<le> s" "s \<le> 32768"
  obtains d where "ulaw_to_s16 (s16_to_ulaw s) = d" "s \<noteq> 0 \<Longrightarrow> ulaw_to_s16 (s16_to_ulaw (- s)) = - d" "32 * \<bar>d - s\<bar> \<le> s + 132"
proof -
  define v where "v = (if 32767 < s + 132 then 32767 else s + 132)"
  have vb: "128 \<le> v" "v \<le> 32767" using assms by (auto simp: v_def)
  obtain k where k: "k < 8" "128 * 2 ^ k \<le> v" "v < 256 * 2 ^ k" by (rule find_segment [OF vb])
  obtain q r where v: "v = 2 ^ (k + 7) + q * 2 ^ (k + 3) + r" "0 \<le> q" "q < 16" "0 \<le> r" "r < 2 ^ (k + 3)" "drop_bit (k + 3) v AND 15 = q"
    using segment_parts [OF k(2,3) vb(2)] .
  have seg: "val_seg v = int k" "nat (int k + 3) = k + 3" using val_seg_range [OF k] by simp_all
  have e: "s16_to_ulaw s = word_of_int (push_bit 4 (int k) OR q) XOR 0xFF" "s \<noteq> 0 \<Longrightarrow> s16_to_ulaw (- s) = word_of_int (push_bit 4 (int k) OR q) XOR 0x7F"
    using assms v_def seg v(6) unfolding s16_to_ulaw_def Let_def by (simp_all add: add.commute)
  let ?d = "(8 * q + 132) * 2 ^ k - 132"
  have p: "(8 * q + 132) * 2 ^ k = 2 ^ (k + 7) + q * 2 ^ (k + 3) + 2 ^ (k + 2)" by (simp add: power_add algebra_simps)
  define D where "D = (8 * q + 132) * 2 ^ k"
  have "32 * \<bar>D - v\<bar> \<le> 2 ^ (k + 7)" unfolding D_def p using v(1,4,5) by (simp add: power_add abs_le_iff)
  moreover have "(2 :: int) ^ (k + 7) \<le> v" "(2 :: int) ^ (k + 7) \<le> 16384" using k power_increasing [of "k + 7" 14 "2 :: int"] by (simp_all add: power_add)
  ultimately have "32 * \<bar>D - v\<bar> \<le> v" "32 * \<bar>D - v\<bar> \<le> 16384" by linarith+
  then have "32 * \<bar>D - 132 - s\<bar> \<le> s + 132" using assms unfolding v_def abs_if by (simp split: if_splits)
  then have "32 * \<bar>?d - s\<bar> \<le> s + 132" by (simp add: D_def)
  then show ?thesis using that [of ?d] e ulaw_decode [OF k(1) v(2,3)] by simp
qed

section \<open>Streams of samples\<close>

lemma samples_append: "even (length xs) \<Longrightarrow> samples (xs @ ys) = samples xs @ samples ys"
  by (induction xs rule: samples.induct) auto

lemma length_samples: "length (samples xs) = length xs div 2"
  by (induction xs rule: samples.induct) auto

lemma sample_range: "s \<in> set (samples xs) \<Longrightarrow> - 32768 \<le> s \<and> s \<le> 32767"
proof (induction xs rule: samples.induct)
  case (1 lo hi r)
  have "- 32768 \<le> sint w \<and> sint w \<le> 32767" for w :: u16 using sint_range_size [of w] by (simp add: word_size)
  then show ?case using 1 by auto
qed auto

lemma sample_roundtrip: "- 32768 \<le> s \<Longrightarrow> s \<le> 32767 \<Longrightarrow> samples (sample_bytes s @ r) = s # samples r"
proof -
  assume s: "- 32768 \<le> s" "s \<le> 32767"
  have w: "push_bit 8 (ucast (ucast (drop_bit 8 w) :: u8)) OR ucast (ucast w :: u8) = w" for w :: u16
    by (rule bit_word_eqI) (auto simp: bit_simps)
  have "sint (word_of_int s :: u16) = s" using s by (simp add: signed_of_int signed_take_bit_int_eq_self)
  then show ?thesis by (simp add: sample_bytes_def Let_def w)
qed

lemma samples_of_bytes: "\<forall>s \<in> set ss. - 32768 \<le> s \<and> s \<le> 32767 \<Longrightarrow> samples (concat (map sample_bytes ss)) = ss"
  by (induction ss) (auto simp: sample_roundtrip)

section \<open>Encoding\<close>

text \<open>The frames that come out of \<open>k\<close> turns of the loop.\<close>

definition frames :: "(int \<Rightarrow> u8) \<Rightarrow> nat \<Rightarrow> u32 \<Rightarrow> nat \<Rightarrow> bytes \<Rightarrow> msg list" where
  "frames code n ts k data = map (\<lambda>i. mblk_set_timestamp_info (msg_of (map code (samples (take n (drop (i * n) data))))) (ts + of_nat (i * (n div 2)))) [0..<k]"

lemma frames_Suc:
  "frames code n ts (Suc k) data = mblk_set_timestamp_info (msg_of (map code (samples (take n data)))) ts
     # frames code n (ts + of_nat (n div 2)) k (drop n data)"
  unfolding frames_def upt_conv_Cons [OF zero_less_Suc] map_Suc_upt [symmetric] list.map map_map
  by (simp add: comp_def add.commute algebra_simps)

lemma enc_loop_ok:
  assumes "buf_ok (enc_bz dt)" and "0 < n"
  shows "\<exists>bz. enc_loop code (int n) dt outq = Some (dt\<lparr>enc_bz := bz, enc_ts := enc_ts dt + of_nat (length (stream (buf_q (enc_bz dt))) div n * (n div 2))\<rparr>,
      outq\<lparr>ms_q := ms_q outq @ frames code n (enc_ts dt) (length (stream (buf_q (enc_bz dt))) div n) (stream (buf_q (enc_bz dt)))\<rparr>)
    \<and> buf_ok bz \<and> stream (buf_q bz) = drop (length (stream (buf_q (enc_bz dt))) div n * n) (stream (buf_q (enc_bz dt)))"
  using assms(1)
proof (induction "length (stream (buf_q (enc_bz dt)))" arbitrary: dt outq rule: less_induct)
  case less
  let ?data = "stream (buf_q (enc_bz dt))"
  show ?case
  proof (cases "n \<le> length ?data")
    case False
    then have "ms_bufferizer_read (enc_bz dt) (int n) = Some ([], 0, enc_bz dt)" using less.prems by (simp add: ms_bufferizer_read_def buf_ok_def)
    then show ?thesis using False assms(2) less.prems
      by (intro exI [of _ "enc_bz dt"]) (subst enc_loop.simps, simp add: frames_def)
  next
    case True
    obtain bz where bz: "ms_bufferizer_read (enc_bz dt) (int n) = Some (take n ?data, int n, bz)" "buf_ok bz" "stream (buf_q bz) = drop n ?data"
      using bufferizer.read_law [of "enc_bz dt" "int n"] less.prems True by auto
    let ?dt = "dt\<lparr>enc_bz := bz, enc_ts := enc_ts dt + of_nat (n div 2)\<rparr>"
    let ?m = "mblk_set_timestamp_info (msg_of (map code (samples (take n ?data)))) (enc_ts dt)"
    have half: "word_of_int (c_div (int n) 2) = (of_nat (n div 2) :: u32)"
    proof -
      have "c_div (int n) 2 = int (n div 2)" by (simp add: c_div_nonneg zdiv_int)
      then show ?thesis by simp
    qed
    have step: "enc_loop code (int n) dt outq = enc_loop code (int n) ?dt (ms_queue_put outq ?m)"
      by (subst enc_loop.simps) (simp add: bz(1) half)
    have k: "length ?data div n = Suc ((length ?data - n) div n)" using True assms(2) by (simp add: le_div_geq)
    have fr: "frames code n (enc_ts dt) (length ?data div n) ?data = ?m # frames code n (enc_ts dt + of_nat (n div 2)) ((length ?data - n) div n) (drop n ?data)"
      unfolding k by (rule frames_Suc)
    have "length (stream (buf_q (enc_bz ?dt))) < length ?data" "buf_ok (enc_bz ?dt)" using bz(2,3) True assms(2) by simp_all
    from less.hyps [OF this, of "ms_queue_put outq ?m"] show ?thesis unfolding step fr
      by (simp add: bz(3) ms_queue_put_def k) (simp add: algebra_simps drop_drop)
  qed
qed

lemma size_of_pcm_facts: "\<exists>f. size_of_pcm p = int (160 * f) \<and> 0 < f \<and> f \<le> 14"
proof -
  have "size_of_pcm p = 160 * (if 14 < (if (if 10 \<le> p then c_div p 10 else 2) \<le> 0 then 1 else (if 10 \<le> p then c_div p 10 else 2)) then 14
      else (if (if 10 \<le> p then c_div p 10 else 2) \<le> 0 then 1 else (if 10 \<le> p then c_div p 10 else 2)))" by (simp only: size_of_pcm_def Let_def)
  then show ?thesis by (intro exI [of _ "nat (size_of_pcm p div 160)"]) auto
qed

section \<open>Properties\<close>

lemma byte_code: "\<exists>i. i < 256 \<and> b = (of_nat i :: u8)"
  by (rule exI [of _ "unat b"]) (use unsigned_less [of b] in simp)

text \<open>Decoding and encoding again gives back every A-law code, and every mu-law code but 0x7F, the negative zero, which becomes
  the positive one.\<close>

theorem g711_codes_recoded:
  "s16_to_alaw (alaw_to_s16 a) = a \<and> s16_to_ulaw (ulaw_to_s16 u) = (if u = 0x7F then 0xFF else u)"
proof -
  obtain i j where i: "i \<in> set [0..<256]" "a = of_nat i" and j: "j \<in> set [0..<256]" "u = of_nat j"
    using byte_code [of a] byte_code [of u] unfolding set_upt by (metis atLeast0LessThan lessThan_iff)
  have "s16_to_alaw (alaw_to_s16 a) = a" using alaw_all_codes i unfolding list_all_iff by blast
  moreover have "s16_to_ulaw (ulaw_to_s16 u) = (if j = 127 then 255 else u)" using ulaw_all_codes j unfolding list_all_iff by blast
  moreover have "unat u = j" using j unfolding set_upt by (simp add: unat_of_nat take_bit_nat_eq_self)
  then have "u = 0x7F \<longleftrightarrow> j = 127" by (auto simp: word_unat_eq_iff)
  ultimately show ?thesis by simp
qed

lemma alaw_error:
  assumes "- 32768 \<le> s" "s \<le> 32767"
  shows "\<bar>alaw_to_s16 (s16_to_alaw s) - s\<bar> \<le> 8 \<or> 32 * \<bar>alaw_to_s16 (s16_to_alaw s) - s\<bar> \<le> \<bar>s\<bar>"
proof -
  consider "0 \<le> s" | "s < 0" "- 32767 \<le> s" | "s = - 32768" using assms by linarith
  then show ?thesis
  proof cases
    case 1
    then show ?thesis using alaw_magnitude [of s] assms by (metis abs_of_nonneg)
  next
    case 2
    obtain d where d: "alaw_to_s16 (s16_to_alaw s) = - d" "\<bar>d - (- s)\<bar> \<le> 8 \<or> 32 * \<bar>d - (- s)\<bar> \<le> - s"
      using alaw_magnitude [of "- s"] 2 by (metis add.inverse_inverse less_le neg_0_le_iff_le neg_le_iff_le neg_equal_0_iff_equal order.strict_iff_not)
    then show ?thesis using 2 by (simp add: abs_minus_commute add.commute)
  next
    case 3
    have "alaw_to_s16 (s16_to_alaw (- 32768)) = - 32256" by code_simp
    then show ?thesis using 3 by simp
  qed
qed

lemma ulaw_error:
  assumes "- 32768 \<le> s" "s \<le> 32767"
  shows "32 * \<bar>ulaw_to_s16 (s16_to_ulaw s) - s\<bar> \<le> \<bar>s\<bar> + 132"
proof (cases "0 \<le> s")
  case True
  obtain d where "ulaw_to_s16 (s16_to_ulaw s) = d" "32 * \<bar>d - s\<bar> \<le> s + 132" by (rule ulaw_magnitude [of s]) (use True assms in auto)
  then show ?thesis using True by simp
next
  case False
  obtain d where "ulaw_to_s16 (s16_to_ulaw (- (- s))) = - d" "32 * \<bar>d - (- s)\<bar> \<le> - s + 132" by (rule ulaw_magnitude [of "- s"]) (use False assms in auto)
  then show ?thesis using False by (simp add: abs_minus_commute add.commute)
qed

lemma alaw_range_all: "list_all (\<lambda>i. - 32768 \<le> alaw_to_s16 (of_nat i) \<and> alaw_to_s16 (of_nat i) \<le> 32767) [0..<256]"
  by code_simp

lemma alaw_range: "- 32768 \<le> alaw_to_s16 a \<and> alaw_to_s16 a \<le> 32767"
proof -
  obtain i where "i \<in> set [0..<256]" "a = of_nat i" using byte_code [of a] unfolding set_upt by (metis atLeast0LessThan lessThan_iff)
  then show ?thesis using alaw_range_all unfolding list_all_iff by blast
qed

lemma even_take_frames:
  assumes "even n" and "k * n \<le> length data"
  shows "concat (map (\<lambda>i. samples (take n (drop (i * n) data))) [0..<k]) = samples (take (k * n) data)"
  using assms(2)
proof (induction k)
  case (Suc k)
  have "take (Suc k * n) data = take (k * n) data @ take n (drop (k * n) data)" by (simp add: take_add add.commute [of n])
  moreover have "even (length (take (k * n) data))" using Suc.prems assms(1) by simp
  ultimately show ?case using Suc by (simp add: samples_append)
qed simp

lemma dec_process_stream: "stream (ms_q (snd (alaw_dec_process inq ms_queue_init))) = concat (map (sample_bytes \<circ> alaw_to_s16) (stream (ms_q inq)))"
proof -
  have "ms_q (foldl (\<lambda>q m. ms_queue_put q (dec_one alaw_to_s16 m)) outq ms) = ms_q outq @ map (dec_one alaw_to_s16) ms" for outq ms
    by (induction ms arbitrary: outq) (simp_all add: ms_queue_put_def)
  moreover have "stream (map (dec_one alaw_to_s16) ms) = concat (map (sample_bytes \<circ> alaw_to_s16) (stream ms))" for ms
    by (induction ms) (simp_all add: dec_one_def comp_def msg_data_def [of "_\<lparr>m_blocks := _\<rparr>"])
  ultimately show ?thesis by (simp add: alaw_dec_process_def ms_queue_init_def)
qed

text \<open>C30: the A-law path from encoder to decoder: of the samples that wait in the encoder and arrive at it, those that fill whole frames
  come out of the decoder, in order, each off by at most 8 or one 32nd of its value, whatever the sizes of the messages and
  their blocks; the frames carry consecutive timestamps and the rest waits in the encoder.\<close>

theorem alaw_path_error:
  assumes "buf_ok (enc_bz dt)" and "\<forall>m \<in> set ms. m_blocks m \<noteq> []"
    and "data = stream (buf_q (enc_bz dt)) @ stream ms" and "n = nat (size_of_pcm (enc_ptime dt))" and "k = length data div n"
  shows "\<exists>dt' inq' outq. alaw_enc_process dt (ms_queue_init\<lparr>ms_q := ms\<rparr>) ms_queue_init = Some (dt', inq', outq)
    \<and> map mblk_get_timestamp_info (ms_q outq) = map (\<lambda>i. enc_ts dt + of_nat (i * (n div 2))) [0..<k]
    \<and> buf_ok (enc_bz dt') \<and> stream (buf_q (enc_bz dt')) = drop (k * n) data
    \<and> list_all2 (\<lambda>s s'. \<bar>s' - s\<bar> \<le> 8 \<or> 32 * \<bar>s' - s\<bar> \<le> \<bar>s\<bar>)
        (samples (take (k * n) data)) (samples (stream (ms_q (snd (alaw_dec_process outq ms_queue_init)))))"
proof -
  obtain f where f: "size_of_pcm (enc_ptime dt) = int (160 * f)" "0 < f" using size_of_pcm_facts by blast
  have "n = 160 * f" using assms(4) unfolding f(1) nat_int .
  then have n: "size_of_pcm (enc_ptime dt) = int n" "0 < n" "even n" using f by simp_all
  let ?bz = "foldl ms_bufferizer_put (enc_bz dt) ms"
  have p: "buf_ok ?bz" "stream (buf_q ?bz) = data" using bufferizer.put_all_law [OF assms(1,2)] assms(3) by auto
  let ?out = "frames s16_to_alaw n (enc_ts dt) k data"
  obtain bz where e: "enc_loop s16_to_alaw (int n) (dt\<lparr>enc_bz := ?bz\<rparr>) ms_queue_init
      = Some (dt\<lparr>enc_bz := bz, enc_ts := enc_ts dt + of_nat (k * (n div 2))\<rparr>, ms_queue_init\<lparr>ms_q := ?out\<rparr>)"
      "buf_ok bz" "stream (buf_q bz) = drop (k * n) data"
    using enc_loop_ok [of "dt\<lparr>enc_bz := ?bz\<rparr>" n s16_to_alaw ms_queue_init] p n(2) by (auto simp: assms(5) ms_queue_init_def)
  have kn: "k * n \<le> length data" unfolding assms(5) by simp
  have st: "stream ?out = map s16_to_alaw (samples (take (k * n) data))"
    unfolding even_take_frames [OF n(3) kn, symmetric] by (simp add: frames_def stream_def msg_data_def msg_of_def comp_def map_concat)
  let ?dec = "samples (stream (ms_q (snd (alaw_dec_process (ms_queue_init\<lparr>ms_q := ?out\<rparr>) ms_queue_init))))"
  have "?dec = samples (concat (map sample_bytes (map alaw_to_s16 (stream ?out))))" by (simp add: dec_process_stream comp_def)
  also have "\<dots> = map alaw_to_s16 (stream ?out)" by (rule samples_of_bytes) (auto simp: alaw_range)
  finally have dec: "?dec = map (\<lambda>s. alaw_to_s16 (s16_to_alaw s)) (samples (take (k * n) data))" by (simp add: st comp_def)
  have "list_all2 (\<lambda>s s'. \<bar>s' - s\<bar> \<le> 8 \<or> 32 * \<bar>s' - s\<bar> \<le> \<bar>s\<bar>) (samples (take (k * n) data)) ?dec"
    unfolding dec by (simp add: list_all2_conv_all_nth) (use alaw_error sample_range nth_mem in blast)
  moreover have "map mblk_get_timestamp_info ?out = map (\<lambda>i. enc_ts dt + of_nat (i * (n div 2))) [0..<k]" by (simp add: frames_def)
  moreover have "alaw_enc_process dt (ms_queue_init\<lparr>ms_q := ms\<rparr>) ms_queue_init
      = Some (dt\<lparr>enc_bz := bz, enc_ts := enc_ts dt + of_nat (k * (n div 2))\<rparr>, ms_queue_init\<lparr>ms_q := []\<rparr>, ms_queue_init\<lparr>ms_q := ?out\<rparr>)"
    unfolding alaw_enc_process_def enc_process_def ms_bufferizer_put_from_queue_def Let_def split n(1) using e(1) by simp
  ultimately show ?thesis using e(2,3)
    by (intro exI [of _ "dt\<lparr>enc_bz := bz, enc_ts := enc_ts dt + of_nat (k * (n div 2))\<rparr>"] exI [of _ "ms_queue_init\<lparr>ms_q := []\<rparr>"]
        exI [of _ "ms_queue_init\<lparr>ms_q := ?out\<rparr>"]) simp
qed

theorem alaw_path_error_witness:
  "\<exists>dt' inq' outq. alaw_enc_process enc_data_new (ms_queue_init\<lparr>ms_q := [msg_of (replicate 500 7), msg_of (replicate 500 9)]\<rparr>) ms_queue_init
       = Some (dt', inq', outq)
    \<and> map mblk_get_timestamp_info (ms_q outq) = [0, 160, 320] \<and> length (samples (stream (ms_q (snd (alaw_dec_process outq ms_queue_init))))) = 480"
proof -
  let ?ms = "[msg_of (replicate 500 7), msg_of (replicate 500 9)]"
  have n: "nat (size_of_pcm (enc_ptime enc_data_new)) = 320" by (simp add: size_of_pcm_def enc_data_new_def)
  have d: "length (stream (buf_q (enc_bz enc_data_new)) @ stream ?ms) = 1000"
    by (simp add: enc_data_new_def ms_bufferizer_init_def msg_of_def msg_data_def)
  have ok: "buf_ok (enc_bz enc_data_new)" "\<forall>m \<in> set ?ms. m_blocks m \<noteq> []" "enc_ts enc_data_new = 0" by (simp_all add: enc_data_new_def msg_of_def)
  from alaw_path_error [OF ok(1,2) refl refl refl] obtain dt' inq' outq where
    r: "alaw_enc_process enc_data_new (ms_queue_init\<lparr>ms_q := ?ms\<rparr>) ms_queue_init = Some (dt', inq', outq)"
      "map mblk_get_timestamp_info (ms_q outq) = map (\<lambda>i. of_nat (i * 160)) [0..<3]"
      "length (samples (stream (ms_q (snd (alaw_dec_process outq ms_queue_init))))) = length (samples (take 960 (stream (buf_q (enc_bz enc_data_new)) @ stream ?ms)))"
    unfolding n d ok(3) by (auto dest!: list_all2_lengthD)
  have "map (\<lambda>i. of_nat (i * 160) :: u32) [0..<3] = [0, 160, 320]" by (simp add: upt_rec)
  moreover have "length (samples (take 960 (stream (buf_q (enc_bz enc_data_new)) @ stream ?ms))) = 480" unfolding length_samples length_take d by simp
  ultimately show ?thesis using r by (intro exI conjI) auto
qed

end
