(* ===== verification/Ms_Mixer.thy ===== *)
theory Ms_Mixer
  imports Ms_G711 C_Float
begin

text \<open>
  The audio mixer of \<open>mediastreamer2/src/audiofilters/audiomixer.c\<close>: in each tick it reads one frame from the bufferizer of every
  connected input, sums them, and gives every output the sum, in conference mode without the part of the same pin. A frame
  is the list of its 16-bit samples; the sum of 20 frames fits an \<open>int32_t\<close>. The pins of the filter are lists of 20
  queues, \<open>None\<close> where nothing is connected.
\<close>

section \<open>Channels\<close>

definition MIXER_MAX_CHANNELS :: nat where
  "MIXER_MAX_CHANNELS = 20"

definition accumulate :: "int list \<Rightarrow> int list \<Rightarrow> int list" where
  "accumulate acc contrib = map2 (+) acc contrib"

definition saturate :: "int \<Rightarrow> int" where
  "saturate s = (if 32767 < s then 32767 else if s < - 32767 then - 32767 else s)"

definition apply_gain :: "int list \<Rightarrow> rat \<Rightarrow> int list" where
  "apply_gain xs gain = map (\<lambda>x. saturate (cast_int (f32 (gain * of_int x)))) xs"

record Channel =
  ch_bufferizer :: MSBufferizer
  ch_input :: "int list"
  ch_gain :: rat
  ch_active :: bool

definition channel_init :: Channel where
  "channel_init = \<lparr>ch_bufferizer = ms_bufferizer_init, ch_input = [], ch_gain = 1, ch_active = True\<rparr>"

definition channel_prepare :: "Channel \<Rightarrow> int \<Rightarrow> Channel" where
  "channel_prepare chan bytes_per_tick = chan\<lparr>ch_input := replicate (nat bytes_per_tick div 2) 0\<rparr>"

text \<open>The number returned, the channel, the queue and the sum.\<close>

definition channel_process_in :: "Channel \<Rightarrow> MSQueue \<Rightarrow> int list \<Rightarrow> nat \<Rightarrow> (int \<times> Channel \<times> MSQueue \<times> int list) option" where
  "channel_process_in chan q acc nsamples =
    (let (bz, q') = ms_bufferizer_put_from_queue (ch_bufferizer chan) q
     in map_option (\<lambda>(data, r, bz').
          if r \<noteq> 0
          then let raw = samples data;
                   inp = (if ch_active chan \<and> ch_gain chan \<noteq> 1 then apply_gain raw (ch_gain chan) else raw)
               in (int nsamples, chan\<lparr>ch_bufferizer := bz', ch_input := inp\<rparr>, q', if ch_active chan then accumulate acc inp else acc)
          else (0, chan\<lparr>ch_bufferizer := bz', ch_input := replicate nsamples 0\<rparr>, q', acc))
        (ms_bufferizer_read bz (int (2 * nsamples))))"

definition frame_msg :: "int list \<Rightarrow> msg" where
  "frame_msg xs = msg_of (concat (map sample_bytes xs))"

definition channel_process_out :: "Channel \<Rightarrow> int list \<Rightarrow> msg" where
  "channel_process_out chan acc = frame_msg
     (if ch_active chan then map2 (\<lambda>s x. saturate (s - x)) acc (ch_input chan) else map saturate acc)"

definition channel_unprepare :: "Channel \<Rightarrow> Channel" where
  "channel_unprepare chan = chan\<lparr>ch_input := []\<rparr>"

section \<open>The filter\<close>

record MixerState =
  mx_nchannels :: int
  mx_rate :: int
  mx_purgeoffset :: int
  mx_bytespertick :: int
  mx_channels :: "Channel list"
  mx_sum :: "int list"
  mx_conf_mode :: int

definition mixer_init :: MixerState where
  "mixer_init = \<lparr>mx_nchannels = 1, mx_rate = 44100, mx_purgeoffset = 0, mx_bytespertick = 0,
     mx_channels = replicate MIXER_MAX_CHANNELS channel_init, mx_sum = [], mx_conf_mode = 0\<rparr>"

definition mixer_preprocess :: "int \<Rightarrow> MixerState \<Rightarrow> MixerState" where
  "mixer_preprocess interval s =
    (let bpt = c_div (2 * mx_nchannels s * mx_rate s * interval) 1000
     in s\<lparr>mx_purgeoffset := cast_int (f64 (f64 (8 / 100) * f32 (of_int (2 * mx_nchannels s * mx_rate s)))), mx_bytespertick := bpt,
          mx_sum := replicate (nat bpt div 2) 0, mx_channels := map (\<lambda>c. channel_prepare c bpt) (mx_channels s)\<rparr>)"

definition mixer_postprocess :: "MixerState \<Rightarrow> MixerState" where
  "mixer_postprocess s = s\<lparr>mx_sum := [], mx_channels := map channel_unprepare (mx_channels s)\<rparr>"

definition make_output :: "int list \<Rightarrow> msg" where
  "make_output acc = frame_msg (map saturate acc)"

text \<open>A channel that holds more than the latency allows is emptied.\<close>

definition purge :: "int \<Rightarrow> Channel \<Rightarrow> Channel" where
  "purge offset chan = (if offset < buf_size (ch_bufferizer chan) then chan\<lparr>ch_bufferizer := ms_bufferizer_flush (ch_bufferizer chan)\<rparr> else chan)"

fun mixer_inputs :: "nat \<Rightarrow> nat list \<Rightarrow> MixerState \<times> MSQueue option list \<Rightarrow> (MixerState \<times> MSQueue option list) option" where
  "mixer_inputs nwords [] st = Some st"
| "mixer_inputs nwords (i # is) (s, ins) =
    (case ins ! i of None \<Rightarrow> mixer_inputs nwords is (s, ins)
     | Some q \<Rightarrow> (case channel_process_in (mx_channels s ! i) q (mx_sum s) nwords of None \<Rightarrow> None
         | Some (_, chan, q', acc) \<Rightarrow>
             mixer_inputs nwords is (s\<lparr>mx_channels := (mx_channels s)[i := purge (mx_purgeoffset s) chan], mx_sum := acc\<rparr>, ins[i := Some q'])))"

text \<open>In both modes something is always sent (\<open>ALWAYS_STREAMOUT\<close>); without conference mode all outputs share one block.\<close>

definition mixer_outputs :: "MixerState \<Rightarrow> MSQueue option list \<Rightarrow> MSQueue option list" where
  "mixer_outputs s outs = map2 (\<lambda>i. map_option (\<lambda>q. ms_queue_put q
     (if mx_conf_mode s = 0 then make_output (mx_sum s) else channel_process_out (mx_channels s ! i) (mx_sum s)))) [0..<MIXER_MAX_CHANNELS] outs"

definition mixer_process :: "MixerState \<Rightarrow> MSQueue option list \<Rightarrow> MSQueue option list
    \<Rightarrow> (MixerState \<times> MSQueue option list \<times> MSQueue option list) option" where
  "mixer_process s ins outs =
    (let nwords = nat (mx_bytespertick s) div 2
     in map_option (\<lambda>(s1, ins1). (s1, ins1, mixer_outputs s1 outs))
          (mixer_inputs nwords [0..<MIXER_MAX_CHANNELS] (s\<lparr>mx_sum := replicate nwords 0\<rparr>, ins)))"

definition mixer_set_rate :: "MixerState \<Rightarrow> int \<Rightarrow> MixerState" where
  "mixer_set_rate s data = s\<lparr>mx_rate := data\<rparr>"

definition mixer_set_nchannels :: "MixerState \<Rightarrow> int \<Rightarrow> MixerState" where
  "mixer_set_nchannels s data = s\<lparr>mx_nchannels := data\<rparr>"

definition mixer_set_input_gain :: "MixerState \<Rightarrow> int \<Rightarrow> rat \<Rightarrow> int \<times> MixerState" where
  "mixer_set_input_gain s pin gain = (if pin < 0 \<or> int MIXER_MAX_CHANNELS \<le> pin then (-1, s)
     else (0, s\<lparr>mx_channels := (mx_channels s)[nat pin := (mx_channels s ! nat pin)\<lparr>ch_gain := gain\<rparr>]\<rparr>))"

definition mixer_set_active :: "MixerState \<Rightarrow> int \<Rightarrow> bool \<Rightarrow> int \<times> MixerState" where
  "mixer_set_active s pin active = (if pin < 0 \<or> int MIXER_MAX_CHANNELS \<le> pin then (-1, s)
     else (0, s\<lparr>mx_channels := (mx_channels s)[nat pin := (mx_channels s ! nat pin)\<lparr>ch_active := active\<rparr>]\<rparr>))"

definition mixer_set_conference_mode :: "MixerState \<Rightarrow> int \<Rightarrow> MixerState" where
  "mixer_set_conference_mode s data = s\<lparr>mx_conf_mode := data\<rparr>"

section \<open>What a channel contributes\<close>

definition channel_data :: "Channel \<Rightarrow> MSQueue \<Rightarrow> bytes" where
  "channel_data chan q = stream (buf_q (ch_bufferizer chan)) @ stream (ms_q q)"

text \<open>The frame of a channel in a tick: its next \<open>n\<close> samples, with its gain when it is active, or silence when they are not there yet.\<close>

definition heard :: "Channel \<Rightarrow> MSQueue \<Rightarrow> nat \<Rightarrow> int list" where
  "heard chan q n = (if 2 * n \<le> length (channel_data chan q)
     then let raw = samples (take (2 * n) (channel_data chan q)) in if ch_active chan \<and> ch_gain chan \<noteq> 1 then apply_gain raw (ch_gain chan) else raw
     else replicate n 0)"

definition queue_ok :: "MSQueue \<Rightarrow> bool" where
  "queue_ok q \<longleftrightarrow> (\<forall>m \<in> set (ms_q q). m_blocks m \<noteq> [])"

lemma length_heard [simp]: "length (heard chan q n) = n"
  by (simp add: heard_def apply_gain_def length_samples Let_def)

lemma accumulate_zero: "length acc = n \<Longrightarrow> accumulate acc (replicate n 0) = acc"
  by (intro nth_equalityI) (simp_all add: accumulate_def)

lemma process_in_ok:
  assumes "buf_ok (ch_bufferizer chan)" and "queue_ok q" and "length acc = n"
  shows "\<exists>r bz. channel_process_in chan q acc n = Some (r, chan\<lparr>ch_bufferizer := bz, ch_input := heard chan q n\<rparr>, q\<lparr>ms_q := []\<rparr>,
      if ch_active chan then accumulate acc (heard chan q n) else acc)
    \<and> buf_ok bz"
proof -
  let ?bz = "foldl ms_bufferizer_put (ch_bufferizer chan) (ms_q q)"
  have b: "buf_ok ?bz" "stream (buf_q ?bz) = channel_data chan q"
    using bufferizer.put_all_law [OF assms(1)] assms(2) by (auto simp: queue_ok_def channel_data_def)
  show ?thesis
  proof (cases "2 * n \<le> length (channel_data chan q)")
    case True
    obtain bz where bz: "ms_bufferizer_read ?bz (int (2 * n)) = Some (take (2 * n) (channel_data chan q), int (2 * n), bz)" "buf_ok bz"
      using bufferizer.read_law [OF b(1), of "int (2 * n)"] True unfolding b(2) nat_int by auto
    show ?thesis
    proof (cases "n = 0")
      case True
      then have "acc = []" "heard chan q n = []" using assms(3) length_heard [of chan q n] by (simp, metis length_0_conv)
      then show ?thesis using bz True by (auto simp: channel_process_in_def ms_bufferizer_put_from_queue_def accumulate_def)
    next
      case False
      then show ?thesis using bz True by (auto simp: channel_process_in_def ms_bufferizer_put_from_queue_def heard_def Let_def)
    qed
  next
    case False
    then have "ms_bufferizer_read ?bz (int (2 * n)) = Some ([], 0, ?bz)" using b by (simp add: ms_bufferizer_read_def buf_ok_def)
    then show ?thesis using False b(1) accumulate_zero [OF assms(3)]
      by (auto simp: channel_process_in_def ms_bufferizer_put_from_queue_def heard_def Let_def)
  qed
qed

section \<open>All inputs\<close>

text \<open>The sum of the active channels among \<open>is\<close> that are connected, sample by sample.\<close>

definition mix :: "MixerState \<Rightarrow> MSQueue option list \<Rightarrow> nat \<Rightarrow> nat list \<Rightarrow> nat \<Rightarrow> int" where
  "mix s ins n is t = (\<Sum>i \<leftarrow> is. case ins ! i of None \<Rightarrow> 0 | Some q \<Rightarrow> if ch_active (mx_channels s ! i) then heard (mx_channels s ! i) q n ! t else 0)"

definition mixer_ok :: "MixerState \<Rightarrow> MSQueue option list \<Rightarrow> bool" where
  "mixer_ok s ins \<longleftrightarrow> length (mx_channels s) = MIXER_MAX_CHANNELS \<and> length ins = MIXER_MAX_CHANNELS
     \<and> (\<forall>i < MIXER_MAX_CHANNELS. buf_ok (ch_bufferizer (mx_channels s ! i)) \<and> (\<forall>q. ins ! i = Some q \<longrightarrow> queue_ok q))"

definition purged :: "int \<Rightarrow> Channel \<Rightarrow> bool" where
  "purged offset chan \<longleftrightarrow> buf_ok (ch_bufferizer chan) \<and> buf_size (ch_bufferizer chan) \<le> max 0 offset"

lemma purge_ok: "buf_ok (ch_bufferizer chan) \<Longrightarrow> purged offset (purge offset chan)"
  by (auto simp: purge_def purged_def) (auto simp: ms_bufferizer_flush_def)

lemma purge_fields [simp]: "ch_input (purge offset chan) = ch_input chan" "ch_active (purge offset chan) = ch_active chan"
  by (simp_all add: purge_def)

lemma mixer_inputs_ok:
  assumes "mixer_ok s ins" and "distinct is" and "\<forall>i \<in> set is. i < MIXER_MAX_CHANNELS" and "length (mx_sum s) = n"
  shows "\<exists>s' ins'. mixer_inputs n is (s, ins) = Some (s', ins') \<and> mixer_ok s' ins' \<and> mx_conf_mode s' = mx_conf_mode s
    \<and> mx_purgeoffset s' = mx_purgeoffset s \<and> length (mx_sum s') = n \<and> (\<forall>t < n. mx_sum s' ! t = mx_sum s ! t + mix s ins n is t)
    \<and> (\<forall>i < MIXER_MAX_CHANNELS. ch_active (mx_channels s' ! i) = ch_active (mx_channels s ! i)
        \<and> (if i \<in> set is \<and> ins ! i \<noteq> None
           then ch_input (mx_channels s' ! i) = heard (mx_channels s ! i) (the (ins ! i)) n \<and> purged (mx_purgeoffset s) (mx_channels s' ! i)
           else mx_channels s' ! i = mx_channels s ! i))"
  using assms
proof (induction "is" arbitrary: s ins)
  case Nil
  then show ?case by (simp add: mix_def)
next
  case (Cons j js)
  show ?case
  proof (cases "ins ! j")
    case None
    have m: "mix s ins n (j # js) t = mix s ins n js t" for t using None by (simp add: mix_def)
    have iff: "i \<in> set (j # js) \<and> ins ! i \<noteq> None \<longleftrightarrow> i \<in> set js \<and> ins ! i \<noteq> None" for i using None by auto
    have "mixer_inputs n (j # js) (s, ins) = mixer_inputs n js (s, ins)" using None by simp
    then show ?thesis unfolding m iff using Cons.IH [of s ins] Cons.prems by simp
  next
    case (Some q)
    let ?c = "mx_channels s ! j"
    have j: "j < MIXER_MAX_CHANNELS" "buf_ok (ch_bufferizer ?c)" "queue_ok q" using Cons.prems Some by (auto simp: mixer_ok_def)
    obtain r bz where p: "channel_process_in ?c q (mx_sum s) n = Some (r, ?c\<lparr>ch_bufferizer := bz, ch_input := heard ?c q n\<rparr>, q\<lparr>ms_q := []\<rparr>,
        if ch_active ?c then accumulate (mx_sum s) (heard ?c q n) else mx_sum s)" "buf_ok bz" using process_in_ok [OF j(2,3) Cons.prems(4)] by blast
    define c where "c = purge (mx_purgeoffset s) (?c\<lparr>ch_bufferizer := bz, ch_input := heard ?c q n\<rparr>)"
    define s1 where "s1 = s\<lparr>mx_channels := (mx_channels s)[j := c], mx_sum := (if ch_active ?c then accumulate (mx_sum s) (heard ?c q n) else mx_sum s)\<rparr>"
    define ins1 where "ins1 = ins[j := Some (q\<lparr>ms_q := []\<rparr>)]"
    have c: "ch_input c = heard ?c q n" "ch_active c = ch_active ?c" "purged (mx_purgeoffset s) c" using purge_ok p(2) by (simp_all add: c_def)
    have step: "mixer_inputs n (j # js) (s, ins) = mixer_inputs n js (s1, ins1)" using p(1) Some by (simp add: s1_def ins1_def c_def)
    have ok1: "mixer_ok s1 ins1" using Cons.prems(1) c(3) j(1)
      by (auto simp: mixer_ok_def s1_def ins1_def nth_list_update queue_ok_def purged_def)
    have len: "length (mx_sum s1) = n" using Cons.prems(4) by (simp add: s1_def accumulate_def)
    have same: "mx_channels s1 ! i = mx_channels s ! i" "ins1 ! i = ins ! i" if "i \<noteq> j" for i using that by (simp_all add: s1_def ins1_def)
    have at: "mx_channels s1 ! j = c" using Cons.prems(1) j(1) by (simp add: s1_def mixer_ok_def)
    obtain s' ins' where ih: "mixer_inputs n js (s1, ins1) = Some (s', ins')" "mixer_ok s' ins'" "mx_conf_mode s' = mx_conf_mode s1"
        "mx_purgeoffset s' = mx_purgeoffset s1" "length (mx_sum s') = n" "\<forall>t < n. mx_sum s' ! t = mx_sum s1 ! t + mix s1 ins1 n js t"
        "\<forall>i < MIXER_MAX_CHANNELS. ch_active (mx_channels s' ! i) = ch_active (mx_channels s1 ! i)
        \<and> (if i \<in> set js \<and> ins1 ! i \<noteq> None
           then ch_input (mx_channels s' ! i) = heard (mx_channels s1 ! i) (the (ins1 ! i)) n \<and> purged (mx_purgeoffset s1) (mx_channels s' ! i)
           else mx_channels s' ! i = mx_channels s1 ! i)"
      using Cons.IH [OF ok1 _ _ len] Cons.prems(2,3) by auto
    have nj: "j \<notin> set js" using Cons.prems(2) by simp
    have m: "mix s1 ins1 n js t = mix s ins n js t" for t
    proof -
      have "mx_channels s1 ! i = mx_channels s ! i \<and> ins1 ! i = ins ! i" if "i \<in> set js" for i using same nj that by metis
      then show ?thesis unfolding mix_def by (intro arg_cong [where f = sum_list] map_cong refl) (simp split: option.split)
    qed
    have a: "\<forall>t < n. mx_sum s' ! t = mx_sum s ! t + mix s ins n (j # js) t"
    proof (intro allI impI)
      fix t assume t: "t < n"
      have "mix s ins n (j # js) t = (if ch_active ?c then heard ?c q n ! t else 0) + mix s ins n js t" using Some by (simp add: mix_def)
      moreover have "mx_sum s1 ! t = mx_sum s ! t + (if ch_active ?c then heard ?c q n ! t else 0)"
        using t Cons.prems(4) by (simp add: s1_def accumulate_def)
      ultimately show "mx_sum s' ! t = mx_sum s ! t + mix s ins n (j # js) t" using ih(6) t m by simp
    qed
    have b: "\<forall>i < MIXER_MAX_CHANNELS. ch_active (mx_channels s' ! i) = ch_active (mx_channels s ! i)
        \<and> (if i \<in> set (j # js) \<and> ins ! i \<noteq> None
           then ch_input (mx_channels s' ! i) = heard (mx_channels s ! i) (the (ins ! i)) n \<and> purged (mx_purgeoffset s) (mx_channels s' ! i)
           else mx_channels s' ! i = mx_channels s ! i)"
    proof (intro allI impI)
      fix i assume i: "i < MIXER_MAX_CHANNELS"
      have po: "mx_purgeoffset s1 = mx_purgeoffset s" by (simp add: s1_def)
      note h = ih(7) [rule_format, OF i, unfolded po]
      show "ch_active (mx_channels s' ! i) = ch_active (mx_channels s ! i) \<and> (if i \<in> set (j # js) \<and> ins ! i \<noteq> None
           then ch_input (mx_channels s' ! i) = heard (mx_channels s ! i) (the (ins ! i)) n \<and> purged (mx_purgeoffset s) (mx_channels s' ! i)
           else mx_channels s' ! i = mx_channels s ! i)"
      proof (cases "i = j")
        case True
        then have "mx_channels s' ! i = c" using h nj at by simp
        then show ?thesis using c Some True by simp
      next
        case False
        then show ?thesis using h same [OF False] by simp
      qed
    qed
    have f: "mx_conf_mode s' = mx_conf_mode s" "mx_purgeoffset s' = mx_purgeoffset s" using ih(3,4) by (simp_all add: s1_def)
    have "mixer_inputs n (j # js) (s, ins) = Some (s', ins')" using step ih(1) by simp
    then show ?thesis using ih(2) f ih(5) a b by (intro exI [of _ s'] exI [of _ ins'] conjI)
  qed
qed

section \<open>Properties\<close>

lemma saturate_range: "- 32767 \<le> saturate x" "saturate x \<le> 32767"
  by (simp_all add: saturate_def)

lemma frame_samples: "samples (msg_data (frame_msg (map saturate xs))) = map saturate xs"
proof -
  have "\<forall>x \<in> set (map saturate xs). - 32768 \<le> x \<and> x \<le> 32767" by (auto simp: saturate_def)
  from samples_of_bytes [OF this] show ?thesis by (simp add: frame_msg_def msg_of_def msg_data_def)
qed

lemma mix_Cons: "mix s ins n (j # js) t = mix s ins n [j] t + mix s ins n js t"
  by (simp add: mix_def)

lemma mix_without:
  assumes "distinct is"
  shows "mix s ins n is t = (if i \<in> set is then mix s ins n [i] t else 0) + mix s ins n (filter (\<lambda>j. j \<noteq> i) is) t"
  using assms
proof (induction "is")
  case Nil
  show ?case by (simp add: mix_def)
next
  case (Cons j js)
  show ?case
  proof (cases "j = i")
    case True
    then have "filter (\<lambda>j. j \<noteq> i) (j # js) = js" using Cons.prems by (auto intro: filter_True)
    then show ?thesis using True mix_Cons [of s ins n j js t] by simp
  next
    case False
    then have "filter (\<lambda>j. j \<noteq> i) (j # js) = j # filter (\<lambda>j. j \<noteq> i) js" by simp
    then show ?thesis using False Cons mix_Cons [of s ins n j js t] mix_Cons [of s ins n j "filter (\<lambda>j. j \<noteq> i) js" t] by simp
  qed
qed

text \<open>C29: in conference mode a tick of the mixer ends without a fault, and every connected output gets one frame: sample by sample the
  saturated sum of what the other pins contribute, that is the next samples of each connected active channel with its gain,
  or silence where a channel has not enough of them. The participant of the pin is not heard in it. No channel keeps more
  than the latency allows.\<close>

theorem conference_hears_the_others:
  assumes "mixer_ok s ins" and "mx_conf_mode s \<noteq> 0" and "length outs = MIXER_MAX_CHANNELS" and "n = nat (mx_bytespertick s) div 2"
    and "\<forall>i < MIXER_MAX_CHANNELS. ins ! i = None \<longrightarrow> ch_input (mx_channels s ! i) = replicate n 0"
  shows "\<exists>s' ins' outs'. mixer_process s ins outs = Some (s', ins', outs') \<and> mixer_ok s' ins'
    \<and> (\<forall>i < MIXER_MAX_CHANNELS. ins ! i \<noteq> None \<longrightarrow> buf_size (ch_bufferizer (mx_channels s' ! i)) \<le> max 0 (mx_purgeoffset s))
    \<and> (\<forall>i < MIXER_MAX_CHANNELS. \<forall>q. outs ! i = Some q \<longrightarrow> (\<exists>m. outs' ! i = Some (ms_queue_put q m)
         \<and> samples (msg_data m) = map (\<lambda>t. saturate (mix s ins n (filter (\<lambda>j. j \<noteq> i) [0..<MIXER_MAX_CHANNELS]) t)) [0..<n]))"
proof -
  let ?s = "s\<lparr>mx_sum := replicate n 0\<rparr>" and ?all = "[0..<MIXER_MAX_CHANNELS]"
  have ok: "mixer_ok ?s ins" using assms(1) by (simp add: mixer_ok_def)
  have same: "mx_channels ?s = mx_channels s" "mx_conf_mode ?s = mx_conf_mode s" "mx_purgeoffset ?s = mx_purgeoffset s" "mx_sum ?s = replicate n 0"
    by simp_all
  have all: "\<forall>i \<in> set ?all. i < MIXER_MAX_CHANNELS" "length (replicate n (0 :: int)) = n" by simp_all
  obtain s' ins' where r: "mixer_inputs n ?all (?s, ins) = Some (s', ins')" "mixer_ok s' ins'" "mx_conf_mode s' = mx_conf_mode s"
      "length (mx_sum s') = n" "\<forall>t < n. mx_sum s' ! t = replicate n 0 ! t + mix ?s ins n ?all t"
      "\<forall>i < MIXER_MAX_CHANNELS. ch_active (mx_channels s' ! i) = ch_active (mx_channels s ! i)
        \<and> (if i \<in> set ?all \<and> ins ! i \<noteq> None
           then ch_input (mx_channels s' ! i) = heard (mx_channels s ! i) (the (ins ! i)) n \<and> purged (mx_purgeoffset s) (mx_channels s' ! i)
           else mx_channels s' ! i = mx_channels s ! i)"
    using mixer_inputs_ok [OF ok distinct_upt, of 0 MIXER_MAX_CHANNELS n, unfolded same] all by blast
  have mx: "mix ?s ins n = mix s ins n" by (intro ext) (simp only: mix_def same)
  have sm: "mx_sum s' ! t = mix s ins n ?all t" if "t < n" for t using r(5) that by (simp add: mx)
  have out: "(if ch_active (mx_channels s' ! i) then map2 (\<lambda>s x. saturate (s - x)) (mx_sum s') (ch_input (mx_channels s' ! i)) else map saturate (mx_sum s'))
      = map (\<lambda>t. saturate (mix s ins n (filter (\<lambda>j. j \<noteq> i) ?all) t)) [0..<n]" if i: "i < MIXER_MAX_CHANNELS" for i
  proof -
    let ?c = "mx_channels s' ! i"
    have h: "length (ch_input ?c) = n" "t < n \<Longrightarrow> mix s ins n [i] t = (if ch_active ?c then ch_input ?c ! t else 0)" for t
      using r(6) [rule_format, OF i] assms(5) i by (cases "ins ! i"; simp add: mix_def)+
    have "mix s ins n ?all t = mix s ins n [i] t + mix s ins n (filter (\<lambda>j. j \<noteq> i) ?all) t" for t using mix_without [of ?all s ins n t i] i by simp
    then have m: "mix s ins n (filter (\<lambda>j. j \<noteq> i) ?all) t = mx_sum s' ! t - (if ch_active ?c then ch_input ?c ! t else 0)" if "t < n" for t
      using sm [OF that] h(2) [OF that] by simp
    show ?thesis
    proof (cases "ch_active ?c")
      case True
      show ?thesis unfolding if_P [OF True] by (rule nth_equalityI) (simp_all add: m True h(1) r(4))
    next
      case False
      show ?thesis unfolding if_not_P [OF False] by (rule nth_equalityI) (simp_all add: m False r(4))
    qed
  qed
  have o: "mixer_outputs s' outs ! i = Some (ms_queue_put q (channel_process_out (mx_channels s' ! i) (mx_sum s')))"
    if "i < MIXER_MAX_CHANNELS" "outs ! i = Some q" for i q
    using that assms(2,3) r(3) by (simp add: mixer_outputs_def)
  have "samples (msg_data (channel_process_out (mx_channels s' ! i) (mx_sum s'))) = map (\<lambda>t. saturate (mix s ins n (filter (\<lambda>j. j \<noteq> i) ?all) t)) [0..<n]"
    if "i < MIXER_MAX_CHANNELS" for i
    unfolding channel_process_out_def out [OF that] using frame_samples [of "map (\<lambda>t. mix s ins n (filter (\<lambda>j. j \<noteq> i) ?all) t) [0..<n]"] by (simp add: comp_def)
  moreover have "mixer_process s ins outs = Some (s', ins', mixer_outputs s' outs)" using r(1) by (simp add: mixer_process_def assms(4) Let_def)
  moreover have "buf_size (ch_bufferizer (mx_channels s' ! i)) \<le> max 0 (mx_purgeoffset s)" if "i < MIXER_MAX_CHANNELS" "ins ! i \<noteq> None" for i
    using r(6) [rule_format, OF that(1)] that by (simp add: purged_def)
  ultimately show ?thesis using r(2) o by (intro exI [of _ s'] exI [of _ ins'] exI [of _ "mixer_outputs s' outs"]) blast
qed

definition demo_mixer :: MixerState where
  "demo_mixer = mixer_set_conference_mode (mixer_preprocess 10 (mixer_set_rate mixer_init 100)) 1"

definition demo_pins :: "MSQueue option list" where
  "demo_pins = [Some (ms_queue_init\<lparr>ms_q := [msg_of (sample_bytes 30000)]\<rparr>), Some (ms_queue_init\<lparr>ms_q := [msg_of (sample_bytes 7000)]\<rparr>),
     Some (ms_queue_init\<lparr>ms_q := [msg_of (sample_bytes 100)]\<rparr>)] @ replicate 17 None"

lemma demo_mixer_facts:
  "mixer_ok demo_mixer demo_pins" "mx_conf_mode demo_mixer \<noteq> 0" "nat (mx_bytespertick demo_mixer) div 2 = 1" "length demo_pins = MIXER_MAX_CHANNELS"
  "\<forall>i < MIXER_MAX_CHANNELS. ch_input (mx_channels demo_mixer ! i) = [0]"
  "\<forall>i < MIXER_MAX_CHANNELS. mx_channels demo_mixer ! i = channel_init\<lparr>ch_input := [0]\<rparr>"
proof -
  have c: "mx_channels demo_mixer = replicate 20 (channel_init\<lparr>ch_input := [0]\<rparr>)" "mx_conf_mode demo_mixer \<noteq> 0" "mx_bytespertick demo_mixer = 2"
    by (simp_all add: demo_mixer_def mixer_set_conference_mode_def mixer_preprocess_def mixer_set_rate_def mixer_init_def channel_prepare_def
        MIXER_MAX_CHANNELS_def c_div_def Let_def)
  show "mx_conf_mode demo_mixer \<noteq> 0" "nat (mx_bytespertick demo_mixer) div 2 = 1" "length demo_pins = MIXER_MAX_CHANNELS" using c
    by (simp_all add: demo_pins_def MIXER_MAX_CHANNELS_def)
  show "\<forall>i < MIXER_MAX_CHANNELS. ch_input (mx_channels demo_mixer ! i) = [0]" "\<forall>i < MIXER_MAX_CHANNELS. mx_channels demo_mixer ! i = channel_init\<lparr>ch_input := [0]\<rparr>"
    by (simp_all add: c MIXER_MAX_CHANNELS_def)
  have "q \<in> {ms_queue_init\<lparr>ms_q := [msg_of (sample_bytes x)]\<rparr> | x. True}" if "i < 20" "demo_pins ! i = Some q" for i q
    using that nth_mem [of i demo_pins] by (auto simp: demo_pins_def)
  then show "mixer_ok demo_mixer demo_pins"
    by (fastforce simp: mixer_ok_def c MIXER_MAX_CHANNELS_def channel_init_def queue_ok_def msg_of_def demo_pins_def)
qed

theorem conference_hears_the_others_witness:
  "\<exists>s' ins' outs' m. mixer_process demo_mixer demo_pins (Some ms_queue_init # replicate 19 None) = Some (s', ins', outs')
    \<and> outs' ! 0 = Some (ms_queue_put ms_queue_init m) \<and> samples (msg_data m) = [saturate (mix demo_mixer demo_pins 1 [1..<20] 0)]"
proof -
  let ?o = "Some ms_queue_init # replicate 19 None"
  have "length ?o = MIXER_MAX_CHANNELS" "0 < MIXER_MAX_CHANNELS" by (simp_all add: MIXER_MAX_CHANNELS_def)
  moreover have "filter (\<lambda>j. j \<noteq> 0) [0..<MIXER_MAX_CHANNELS] = [1..<20]" by (simp add: MIXER_MAX_CHANNELS_def upt_conv_Cons)
  ultimately show ?thesis
    using conference_hears_the_others [OF demo_mixer_facts(1,2), of ?o 1] demo_mixer_facts(3,5) by fastforce
qed

end
