(* ===== verification/Ms_Event.thy ===== *)
theory Ms_Event
  imports Conf_Prelude
begin

unbundle bit_operations_syntax

text \<open>
  The event queue of \<open>mediastreamer2/src/base/eventqueue.c\<close>: notifications of filters are written into a ring of 8192 bytes, each as
  the filter pointer and the event id in 8 bytes each (a \<open>long\<close>, low byte first) and the argument, whose size is the low byte of
  the id; the application reads them and calls the callback of the filter. Pointers into the ring are offsets. Filters
  are known to the model by \<open>cb\<close>: \<open>None\<close> for a pointer that is no filter, \<open>Some b\<close> where \<open>b\<close> says that the filter has a
  callback. A callback is recorded in the list of notifications; it does not itself use the queue. \<open>None\<close> as a result is a fault:
  a pointer that is no filter, an argument that is missing or a write outside the ring.
\<close>

section \<open>The ring\<close>

definition MS_EVENT_BUF_SIZE :: nat where
  "MS_EVENT_BUF_SIZE = 8192"

record MSEventQueue =
  eq_rptr :: nat
  eq_wptr :: nat
  eq_endptr :: nat
  eq_lim :: nat
  eq_freeroom :: int
  eq_size :: int
  eq_buffer :: bytes

type_synonym event = "u64 \<times> u32 \<times> bytes option"

definition long_bytes :: "u64 \<Rightarrow> bytes" where
  "long_bytes w = map (\<lambda>i. ucast (drop_bit (8 * i) w)) [0, 1, 2, 3, 4, 5, 6, 7]"

definition long_at :: "bytes \<Rightarrow> nat \<Rightarrow> u64" where
  "long_at bs p = foldr (\<lambda>i w. ucast (bs ! (p + i)) OR push_bit 8 w) [0, 1, 2, 3, 4, 5, 6, 7] 0"

definition ev_argsize :: "u32 \<Rightarrow> nat" where
  "ev_argsize ev_id = unat (ev_id AND 0xff)"

definition event_bytes :: "event \<Rightarrow> bytes" where
  "event_bytes e = (case e of (f, ev_id, arg) \<Rightarrow>
     long_bytes f @ long_bytes (ucast ev_id) @ (case arg of None \<Rightarrow> [] | Some a \<Rightarrow> take (ev_argsize ev_id) a))"

definition put_bytes :: "bytes \<Rightarrow> nat \<Rightarrow> bytes \<Rightarrow> bytes" where
  "put_bytes buf p bs = take p buf @ bs @ drop (p + length bs) buf"

definition write_event :: "MSEventQueue \<Rightarrow> event \<Rightarrow> MSEventQueue option" where
  "write_event q e = (case e of (f, ev_id, arg) \<Rightarrow>
    let argsize = ev_argsize ev_id; sz = argsize + 16
    in if eq_freeroom q < int sz then Some q
       else let q1 = (if eq_lim q < eq_wptr q + sz then q\<lparr>eq_endptr := eq_wptr q, eq_wptr := 0\<rparr> else q)
            in if 0 < argsize \<and> (case arg of None \<Rightarrow> True | Some a \<Rightarrow> length a < argsize) then None
               else if length (eq_buffer q1) < eq_wptr q1 + sz then None
               else Some (q1\<lparr>eq_buffer := put_bytes (eq_buffer q1) (eq_wptr q1) (event_bytes (f, ev_id, if 0 < argsize then arg else None)),
                      eq_wptr := eq_wptr q1 + sz, eq_freeroom := eq_freeroom q1 - int sz\<rparr>))"

definition read_event :: "(u64 \<Rightarrow> bool option) \<Rightarrow> MSEventQueue \<Rightarrow> (bool \<times> event list \<times> MSEventQueue) option" where
  "read_event cb q =
    (let available = eq_size q - eq_freeroom q
     in if 0 < available
        then if length (eq_buffer q) < eq_rptr q + 16 then None
        else let f = long_at (eq_buffer q) (eq_rptr q);
                 ev_id = ucast (long_at (eq_buffer q) (eq_rptr q + 8)) :: u32;
                 argsize = ev_argsize ev_id;
                 evsize = argsize + 16;
                 data = take argsize (drop (eq_rptr q + 16) (eq_buffer q));
                 rptr = eq_rptr q + evsize
             in (case cb f of None \<Rightarrow> None
                 | Some has \<Rightarrow> Some (True, if has then [(f, ev_id, if 0 < argsize then Some data else None)] else [],
                     q\<lparr>eq_rptr := (if eq_endptr q \<le> rptr then 0 else rptr), eq_freeroom := eq_freeroom q + int evsize\<rparr>))
        else Some (False, [], q))"

definition ms_event_queue_new :: MSEventQueue where
  "ms_event_queue_new = \<lparr>eq_rptr = 0, eq_wptr = 0, eq_endptr = MS_EVENT_BUF_SIZE, eq_lim = MS_EVENT_BUF_SIZE,
     eq_freeroom = int MS_EVENT_BUF_SIZE, eq_size = int MS_EVENT_BUF_SIZE, eq_buffer = replicate MS_EVENT_BUF_SIZE 0\<rparr>"

definition ms_event_queue_skip :: "MSEventQueue \<Rightarrow> MSEventQueue" where
  "ms_event_queue_skip q = q\<lparr>eq_lim := nat (eq_size q), eq_freeroom := eq_size q, eq_wptr := 0, eq_rptr := 0, eq_endptr := nat (eq_size q)\<rparr>"

lemma read_event_takes_room:
  "read_event cb q = Some (True, es, q') \<Longrightarrow> eq_freeroom q < eq_size q \<and> eq_size q' - eq_freeroom q' < eq_size q - eq_freeroom q"
  by (auto simp: read_event_def Let_def split: if_splits option.splits)

function ms_event_queue_pump :: "(u64 \<Rightarrow> bool option) \<Rightarrow> MSEventQueue \<Rightarrow> (event list \<times> MSEventQueue) option" where
  "ms_event_queue_pump cb q =
    (case read_event cb q of None \<Rightarrow> None
     | Some (got, es, q') \<Rightarrow> if got then map_option (\<lambda>(es', q''). (es @ es', q'')) (ms_event_queue_pump cb q') else Some ([], q'))"
  by pat_completeness auto
termination
  by (relation "measure (\<lambda>(cb, q). nat (eq_size q - eq_freeroom q))") (auto dest: read_event_takes_room)

declare ms_event_queue_pump.simps [simp del]

section \<open>Notifications\<close>

text \<open>The global queue is an argument: \<open>None\<close> while \<open>ms_set_global_event_queue\<close> has set none. The result has the callbacks made at once.\<close>

definition ms_filter_notify :: "(u64 \<Rightarrow> bool option) \<Rightarrow> MSEventQueue option \<Rightarrow> event \<Rightarrow> (event list \<times> MSEventQueue option) option" where
  "ms_filter_notify cb gq e =
    (case cb (fst e) of None \<Rightarrow> None
     | Some has \<Rightarrow> if \<not> has then Some ([], gq)
         else (case gq of None \<Rightarrow> Some ([e], None) | Some q \<Rightarrow> map_option (\<lambda>q'. ([], Some q')) (write_event q e)))"

definition ms_filter_notify_synchronous :: "(u64 \<Rightarrow> bool option) \<Rightarrow> event \<Rightarrow> event list option" where
  "ms_filter_notify_synchronous cb e = map_option (\<lambda>has. if has then [e] else []) (cb (fst e))"

definition ms_filter_notify_no_arg :: "(u64 \<Rightarrow> bool option) \<Rightarrow> MSEventQueue option \<Rightarrow> u64 \<Rightarrow> u32 \<Rightarrow> (event list \<times> MSEventQueue option) option" where
  "ms_filter_notify_no_arg cb gq f ev_id = ms_filter_notify cb gq (f, ev_id, None)"

section \<open>Bytes of events\<close>

lemma length_long_bytes [simp]: "length (long_bytes w) = 8"
  by (simp add: long_bytes_def)

lemma low_byte_or: "ucast (ucast (drop_bit k w) :: u8) OR push_bit 8 (drop_bit (k + 8) w) = (drop_bit k w :: u64)"
proof (rule bit_word_eqI)
  fix n assume "n < LENGTH(64)"
  then show "bit (ucast (ucast (drop_bit k w) :: u8) OR push_bit 8 (drop_bit (k + 8) w) :: u64) n = bit (drop_bit k w) n"
    by (cases "8 \<le> n") (auto simp: bit_simps add.assoc)
qed

lemma long_at_bytes: "take 8 (drop p bs) = long_bytes w \<Longrightarrow> long_at bs p = w"
proof -
  assume a: "take 8 (drop p bs) = long_bytes w"
  have "bs ! (p + i) = ucast (drop_bit (8 * i) w)" if "i \<in> {0, 1, 2, 3, 4, 5, 6, 7}" for i
  proof -
    have "length (take 8 (drop p bs)) = 8" unfolding a by simp
    then have "p + 8 \<le> length bs" by simp
    moreover from that have "i < 8" by auto
    ultimately have "bs ! (p + i) = long_bytes w ! i" unfolding a [symmetric] by simp
    also have "\<dots> = ucast (drop_bit (8 * i) w)" using that by (auto simp: long_bytes_def)
    finally show ?thesis .
  qed
  then have "long_at bs p = foldr (\<lambda>i v. ucast (ucast (drop_bit (8 * i) w) :: u8) OR push_bit 8 v) [0, 1, 2, 3, 4, 5, 6, 7] 0"
    unfolding long_at_def by (intro foldr_cong) auto
  also have "\<dots> = w"
  proof -
    have "drop_bit 64 w = 0" by (rule bit_word_eqI) (simp add: bit_simps)
    then show ?thesis using low_byte_or [of 56 w] low_byte_or [of 48 w] low_byte_or [of 40 w] low_byte_or [of 32 w] low_byte_or [of 24 w]
        low_byte_or [of 16 w] low_byte_or [of 8 w] low_byte_or [of 0 w] by simp
  qed
  finally show ?thesis .
qed

definition ev_valid :: "(u64 \<Rightarrow> bool option) \<Rightarrow> nat \<Rightarrow> event \<Rightarrow> bool" where
  "ev_valid cb sz e = (case e of (f, ev_id, arg) \<Rightarrow> cb f = Some True \<and> ev_argsize ev_id + 16 = sz
     \<and> (case arg of None \<Rightarrow> ev_argsize ev_id = 0 | Some a \<Rightarrow> 0 < ev_argsize ev_id \<and> length a = ev_argsize ev_id))"

lemma length_event_bytes: "ev_valid cb sz e \<Longrightarrow> length (event_bytes e) = sz"
  by (auto simp: ev_valid_def event_bytes_def split: option.splits)

lemma take_drop_append3:
  assumes "take n (drop p bs) = x @ y @ z" and "length x = 8" and "length y = 8" and "n = 16 + length z"
  shows "take 8 (drop p bs) = x \<and> take 8 (drop (p + 8) bs) = y \<and> take (length z) (drop (p + 16) bs) = z \<and> p + 16 \<le> length bs"
proof -
  have "length (take n (drop p bs)) = n" unfolding assms(1) using assms(2-4) by simp
  then have l: "p + n \<le> length bs" using assms(4) by auto
  have "take 8 (take n (drop p bs)) = x" "take 8 (drop 8 (take n (drop p bs))) = y" "drop 16 (take n (drop p bs)) = z"
    unfolding assms(1) using assms(2-3) by simp_all
  then show ?thesis using assms(4) l by (simp add: drop_take add.commute min_def)
qed

lemma event_at:
  assumes "take sz (drop p buf) = event_bytes (f, ev_id, arg)" and "ev_valid cb sz (f, ev_id, arg)"
  shows "long_at buf p = f" and "ucast (long_at buf (p + 8)) = ev_id" and "p + 16 \<le> length buf"
    and "(if 0 < ev_argsize ev_id then Some (take (ev_argsize ev_id) (drop (p + 16) buf)) else None) = arg"
proof -
  let ?a = "case arg of None \<Rightarrow> [] | Some a \<Rightarrow> take (ev_argsize ev_id) a"
  have a: "length ?a = ev_argsize ev_id" "(if 0 < ev_argsize ev_id then Some ?a else None) = arg" "sz = 16 + length ?a"
    using assms(2) by (auto simp: ev_valid_def split: option.splits)
  have t: "take sz (drop p buf) = long_bytes f @ long_bytes (ucast ev_id) @ ?a" using assms(1) by (simp add: event_bytes_def)
  note w = take_drop_append3 [OF t length_long_bytes length_long_bytes a(3)]
  show "long_at buf p = f" "p + 16 \<le> length buf" using long_at_bytes w by blast+
  have "long_at buf (p + 8) = ucast ev_id" using long_at_bytes w by blast
  moreover have "ucast (ucast ev_id :: u64) = ev_id" by (rule bit_word_eqI) (simp add: bit_simps)
  ultimately show "ucast (long_at buf (p + 8)) = ev_id" by simp
  have d: "take (ev_argsize ev_id) (drop (p + 16) buf) = ?a" using w a(1) by simp
  show "(if 0 < ev_argsize ev_id then Some (take (ev_argsize ev_id) (drop (p + 16) buf)) else None) = arg" unfolding d by (rule a(2))
qed

lemma length_put_bytes [simp]: "p + length bs \<le> length buf \<Longrightarrow> length (put_bytes buf p bs) = length buf"
  by (simp add: put_bytes_def)

lemma put_bytes_same: "p + length bs \<le> length buf \<Longrightarrow> take (length bs) (drop p (put_bytes buf p bs)) = bs"
  by (simp add: put_bytes_def)

lemma put_bytes_other:
  assumes "p + length bs \<le> length buf" and "a + n \<le> p \<or> p + length bs \<le> a"
  shows "take n (drop a (put_bytes buf p bs)) = take n (drop a buf)"
proof (cases "a + n \<le> p")
  case True
  then have "take (n + a) (put_bytes buf p bs) = take (n + a) buf" using assms(1) by (simp add: put_bytes_def)
  then show ?thesis by (simp add: take_drop)
next
  case False
  then have "drop a (put_bytes buf p bs) = drop a buf" using assms by (simp add: put_bytes_def)
  then show ?thesis by simp
qed

lemma write_event_ok:
  assumes "ev_valid cb sz e" and "int sz \<le> eq_freeroom q" and "p = (if eq_lim q < eq_wptr q + sz then 0 else eq_wptr q)"
    and "p + sz \<le> length (eq_buffer q)"
  shows "write_event q e = Some (q\<lparr>eq_endptr := (if eq_lim q < eq_wptr q + sz then eq_wptr q else eq_endptr q), eq_wptr := p + sz,
      eq_freeroom := eq_freeroom q - int sz, eq_buffer := put_bytes (eq_buffer q) p (event_bytes e)\<rparr>)"
  using assms by (cases e) (auto simp: write_event_def ev_valid_def Let_def split: option.splits)

lemma write_event_full: "ev_valid cb sz e \<Longrightarrow> eq_freeroom q < int sz \<Longrightarrow> write_event q e = Some q"
  by (cases e) (auto simp: write_event_def ev_valid_def)

lemma read_event_ok:
  assumes "ev_valid cb sz e" and "take sz (drop (eq_rptr q) (eq_buffer q)) = event_bytes e" and "eq_freeroom q < eq_size q"
  shows "read_event cb q = Some (True, [e], q\<lparr>eq_rptr := (if eq_endptr q \<le> eq_rptr q + sz then 0 else eq_rptr q + sz),
     eq_freeroom := eq_freeroom q + int sz\<rparr>)"
proof -
  obtain f ev_id arg where e: "e = (f, ev_id, arg)" by (cases e)
  note at = event_at [OF assms(2,1) [unfolded e]]
  have "cb f = Some True" "sz = ev_argsize ev_id + 16" using assms(1) by (simp_all add: e ev_valid_def)
  then show ?thesis unfolding read_event_def Let_def at(1,2,4) e using at(3) assms(3) by simp
qed

section \<open>A bounded queue\<close>

text \<open>What the users of the queue rely on: writes are kept in order while there is room and dropped otherwise, reads take the oldest.\<close>

datatype 'e qop = Put 'e | Get

fun spec_run :: "nat \<Rightarrow> 'e qop list \<Rightarrow> 'e list \<Rightarrow> 'e list \<times> 'e list" where
  "spec_run cap [] c = ([], c)"
| "spec_run cap (Put e # ops) c = spec_run cap ops (if length c < cap then c @ [e] else c)"
| "spec_run cap (Get # ops) [] = spec_run cap ops []"
| "spec_run cap (Get # ops) (x # c) = (let (out, c') = spec_run cap ops c in (x # out, c'))"

locale bounded_fifo =
  fixes holds :: "'s \<Rightarrow> 'e list \<Rightarrow> bool" and valid :: "'e \<Rightarrow> bool" and cap :: nat
    and put :: "'s \<Rightarrow> 'e \<Rightarrow> 's option" and get :: "'s \<Rightarrow> (bool \<times> 'e list \<times> 's) option"
  assumes put_ok: "holds q c \<Longrightarrow> valid e \<Longrightarrow> \<exists>q'. put q e = Some q' \<and> holds q' (if length c < cap then c @ [e] else c)"
    and get_some: "holds q (e # c) \<Longrightarrow> \<exists>q'. get q = Some (True, [e], q') \<and> holds q' c"
    and get_none: "holds q [] \<Longrightarrow> get q = Some (False, [], q)"

fun queue_run :: "('s \<Rightarrow> 'e \<Rightarrow> 's option) \<Rightarrow> ('s \<Rightarrow> (bool \<times> 'e list \<times> 's) option) \<Rightarrow> 'e qop list \<Rightarrow> 's \<Rightarrow> ('e list \<times> 's) option" where
  "queue_run put get [] q = Some ([], q)"
| "queue_run put get (Put e # ops) q = Option.bind (put q e) (queue_run put get ops)"
| "queue_run put get (Get # ops) q = Option.bind (get q) (\<lambda>(_, es, q'). map_option (\<lambda>(es', q''). (es @ es', q'')) (queue_run put get ops q'))"

context bounded_fifo
begin

lemma run_refines:
  "holds q c \<Longrightarrow> (\<forall>e. Put e \<in> set ops \<longrightarrow> valid e) \<Longrightarrow>
    \<exists>q'. queue_run put get ops q = Some (fst (spec_run cap ops c), q') \<and> holds q' (snd (spec_run cap ops c))"
proof (induction ops arbitrary: q c)
  case (Cons x ops)
  show ?case
  proof (cases x)
    case (Put e)
    with put_ok [OF Cons.prems(1), of e] Cons.prems(2) obtain q' where
      q: "put q e = Some q'" "holds q' (if length c < cap then c @ [e] else c)" by auto
    then show ?thesis using Cons.IH [OF q(2)] Cons.prems(2) Put by simp
  next
    case Get
    show ?thesis
    proof (cases c)
      case Nil
      then show ?thesis using get_none [of q] Cons.IH [of q "[]"] Cons.prems Get by auto
    next
      case (Cons e r)
      obtain q' where q: "get q = Some (True, [e], q')" "holds q' r" using get_some Cons.prems(1) Cons by blast
      then show ?thesis using Cons.IH [OF q(2)] Cons.prems(2) Get Cons by (auto simp: split_def Let_def)
    qed
  qed
qed simp

end

section \<open>Events of one size\<close>

lemma slots_disjoint:
  fixes a p sz :: nat
  assumes "sz dvd a" and "sz dvd p" and "a \<noteq> p"
  shows "a + sz \<le> p \<or> p + sz \<le> a"
proof -
  obtain k l where kl: "a = sz * k" "p = sz * l" using assms(1,2) by (auto elim!: dvdE)
  then consider "Suc k \<le> l" | "Suc l \<le> k" using assms(3) by (metis linorder_neqE_nat Suc_leI)
  then show ?thesis
  proof cases
    case 1
    have "sz * Suc k \<le> sz * l" using 1 by (intro mult_le_mono) simp_all
    then show ?thesis using kl by simp
  next
    case 2
    have "sz * Suc l \<le> sz * k" using 2 by (intro mult_le_mono) simp_all
    then show ?thesis using kl by simp
  qed
qed

lemma slot_fits:
  fixes a n sz :: nat
  assumes "sz dvd a" and "sz dvd n" and "a < n"
  shows "a + sz \<le> n"
  using slots_disjoint [OF assms(1,2)] assms(3) by linarith

lemma slots_distinct:
  fixes r i n sz m :: nat
  assumes "i < n" and "Suc n * sz \<le> m" and "0 < sz"
  shows "(r + i * sz) mod m \<noteq> (r + n * sz) mod m"
proof
  assume a: "(r + i * sz) mod m = (r + n * sz) mod m"
  have le: "r + i * sz \<le> r + n * sz" using assms(1) by simp
  have "m dvd (r + n * sz) - (r + i * sz)" using mod_eq_dvd_iff_nat [OF le] a by metis
  then have d: "m dvd (n - i) * sz" by (simp add: diff_mult_distrib)
  have "(n - i) * sz \<le> n * sz" "0 < (n - i) * sz" using assms(1,3) by simp_all
  moreover have "m \<le> (n - i) * sz" using d calculation(2) by (rule dvd_imp_le)
  ultimately have "m \<le> n * sz" by linarith
  then show False using assms(2,3) by simp
qed

definition ring :: "(u64 \<Rightarrow> bool option) \<Rightarrow> nat \<Rightarrow> MSEventQueue \<Rightarrow> event list \<Rightarrow> bool" where
  "ring cb sz q es \<longleftrightarrow> (let m = MS_EVENT_BUF_SIZE in
     sz dvd m \<and> 0 < sz \<and> length (eq_buffer q) = m \<and> eq_lim q = m \<and> eq_endptr q = m \<and> eq_size q = int m
     \<and> eq_rptr q < m \<and> sz dvd eq_rptr q \<and> eq_wptr q \<le> m \<and> sz dvd eq_wptr q \<and> (eq_rptr q + length es * sz) mod m = eq_wptr q mod m
     \<and> length es * sz \<le> m \<and> eq_freeroom q = int m - int (length es * sz)
     \<and> (\<forall>i < length es. ev_valid cb sz (es ! i) \<and> take sz (drop ((eq_rptr q + i * sz) mod m) (eq_buffer q)) = event_bytes (es ! i)))"

lemma ring_write:
  assumes r: "ring cb sz q es" and v: "ev_valid cb sz e" and room: "Suc (length es) * sz \<le> MS_EVENT_BUF_SIZE"
  shows "\<exists>q'. write_event q e = Some q' \<and> ring cb sz q' (es @ [e])"
proof -
  define m where "m = MS_EVENT_BUF_SIZE"
  note f = r [unfolded ring_def Let_def, folded m_def]
  define p where "p = (eq_rptr q + length es * sz) mod m"
  have m0: "0 < m" by (simp add: m_def MS_EVENT_BUF_SIZE_def)
  have pw: "p = (if eq_lim q < eq_wptr q + sz then 0 else eq_wptr q)" "eq_wptr q + sz > m \<longleftrightarrow> eq_wptr q = m"
  proof -
    have "eq_wptr q + sz \<le> m" if "eq_wptr q < m" using slot_fits f that by blast
    moreover have "eq_wptr q \<le> m" "0 < sz" using f by simp_all
    ultimately show w: "eq_wptr q + sz > m \<longleftrightarrow> eq_wptr q = m" by linarith
    show "p = (if eq_lim q < eq_wptr q + sz then 0 else eq_wptr q)"
      using f w by (cases "eq_wptr q = m") (simp_all add: p_def)
  qed
  have pm: "p < m" "sz dvd p" using m0 f by (simp_all add: p_def dvd_mod)
  then have ps: "p + sz \<le> m" using slot_fits f by blast
  let ?q = "q\<lparr>eq_endptr := (if eq_lim q < eq_wptr q + sz then eq_wptr q else eq_endptr q), eq_wptr := p + sz,
      eq_freeroom := eq_freeroom q - int sz, eq_buffer := put_bytes (eq_buffer q) p (event_bytes e)\<rparr>"
  have lb: "length (event_bytes e) = sz" using v by (rule length_event_bytes)
  have "int (Suc (length es) * sz) \<le> int m" using room unfolding m_def by (simp only: of_nat_le_iff)
  then have fr: "int sz \<le> eq_freeroom q" using f by (simp add: algebra_simps)
  have w: "write_event q e = Some ?q" using f ps by (intro write_event_ok [OF v fr pw(1)]) simp
  have other: "take sz (drop ((eq_rptr q + i * sz) mod m) (eq_buffer ?q)) = event_bytes (es ! i)" if "i < length es" for i
  proof -
    let ?a = "(eq_rptr q + i * sz) mod m"
    have "?a \<noteq> p" unfolding p_def by (rule slots_distinct [OF that room [folded m_def]]) (use f in simp)
    moreover have "sz dvd ?a" using f by (simp add: dvd_mod)
    ultimately have "?a + sz \<le> p \<or> p + sz \<le> ?a" using slots_disjoint pm(2) by blast
    then show ?thesis using put_bytes_other [of p "event_bytes e" "eq_buffer q" ?a sz] f ps lb that by simp
  qed
  have same: "take sz (drop p (eq_buffer ?q)) = event_bytes e" using put_bytes_same [of p "event_bytes e" "eq_buffer q"] f ps lb by simp
  have "ring cb sz ?q (es @ [e])"
    unfolding ring_def Let_def m_def [symmetric]
  proof (intro conjI allI impI)
    show "(eq_rptr ?q + length (es @ [e]) * sz) mod m = eq_wptr ?q mod m"
      by (simp add: p_def mod_add_left_eq) (simp add: ac_simps)
    show "take sz (drop ((eq_rptr ?q + i * sz) mod m) (eq_buffer ?q)) = event_bytes ((es @ [e]) ! i)" if "i < length (es @ [e])" for i
      using that other [of i] same by (cases "i = length es") (simp_all add: p_def nth_append)
    show "ev_valid cb sz ((es @ [e]) ! i)" if "i < length (es @ [e])" for i
      using that f v by (cases "i = length es") (simp_all add: nth_append)
  qed (use f ps pm lb pw(2) room in \<open>auto simp: m_def\<close>)
  then show ?thesis using w by blast
qed

lemma ring_read:
  assumes r: "ring cb sz q (e # es)"
  shows "\<exists>q'. read_event cb q = Some (True, [e], q') \<and> ring cb sz q' es"
proof -
  define m where "m = MS_EVENT_BUF_SIZE"
  note f = r [unfolded ring_def Let_def, folded m_def]
  have m0: "0 < m" by (simp add: m_def MS_EVENT_BUF_SIZE_def)
  have e: "ev_valid cb sz e" "take sz (drop (eq_rptr q) (eq_buffer q)) = event_bytes e" using f by force+
  have "0 < length (e # es) * sz" "eq_freeroom q = eq_size q - int (length (e # es) * sz)" using f by simp_all
  then have free: "eq_freeroom q < eq_size q" by linarith
  have rs: "eq_rptr q + sz \<le> m" using slot_fits f by blast
  define p where "p = (eq_rptr q + sz) mod m"
  have p: "(if eq_endptr q \<le> eq_rptr q + sz then 0 else eq_rptr q + sz) = p" using f rs by (auto simp: p_def)
  let ?q = "q\<lparr>eq_rptr := p, eq_freeroom := eq_freeroom q + int sz\<rparr>"
  have re: "read_event cb q = Some (True, [e], ?q)" using read_event_ok [OF e free] unfolding p .
  have pos: "(p + i * sz) mod m = (eq_rptr q + Suc i * sz) mod m" for i by (simp add: p_def mod_add_left_eq add.assoc)
  have "ring cb sz ?q es"
    unfolding ring_def Let_def m_def [symmetric]
  proof (intro conjI allI impI)
    show "sz dvd eq_rptr ?q" using f by (simp add: p_def dvd_mod)
    show "(eq_rptr ?q + length es * sz) mod m = eq_wptr ?q mod m" using pos [of "length es"] f by simp
    show "take sz (drop ((eq_rptr ?q + i * sz) mod m) (eq_buffer ?q)) = event_bytes (es ! i)" if "i < length es" for i
      using f that pos [of i] by force
    show "ev_valid cb sz (es ! i)" if "i < length es" for i using f that by force
  qed (use f m0 in \<open>auto simp: p_def\<close>)
  then show ?thesis using re by blast
qed

interpretation events: bounded_fifo "ring cb sz" "ev_valid cb sz" "MS_EVENT_BUF_SIZE div sz" write_event "read_event cb"
proof
  fix q c e
  assume r: "ring cb sz q c" and v: "ev_valid cb sz e"
  have sz: "0 < sz" "eq_freeroom q = int MS_EVENT_BUF_SIZE - int (length c * sz)" using r by (simp_all add: ring_def Let_def)
  have lt: "length c < MS_EVENT_BUF_SIZE div sz \<longleftrightarrow> Suc (length c) * sz \<le> MS_EVENT_BUF_SIZE"
    using less_eq_div_iff_mult_less_eq [OF sz(1), of "Suc (length c)" MS_EVENT_BUF_SIZE] by (simp add: Suc_le_eq)
  show "\<exists>q'. write_event q e = Some q' \<and> ring cb sz q' (if length c < MS_EVENT_BUF_SIZE div sz then c @ [e] else c)"
  proof (cases "length c < MS_EVENT_BUF_SIZE div sz")
    case True
    then show ?thesis using ring_write [OF r v] lt by simp
  next
    case False
    then have "int MS_EVENT_BUF_SIZE < int (Suc (length c) * sz)" using lt by (simp only: of_nat_less_iff not_le)
    then have "eq_freeroom q < int sz" unfolding sz(2) by (simp add: algebra_simps)
    then show ?thesis using write_event_full [OF v] r False by simp
  qed
next
  fix q e c assume "ring cb sz q (e # c)"
  then show "\<exists>q'. read_event cb q = Some (True, [e], q') \<and> ring cb sz q' c" by (rule ring_read)
next
  fix q assume "ring cb sz q []"
  then show "read_event cb q = Some (False, [], q)" by (simp add: ring_def Let_def read_event_def)
qed

section \<open>Properties\<close>

lemma ring_new: "sz dvd MS_EVENT_BUF_SIZE \<Longrightarrow> 0 < sz \<Longrightarrow> ring cb sz ms_event_queue_new []"
  by (simp add: ring_def Let_def ms_event_queue_new_def MS_EVENT_BUF_SIZE_def)

text \<open>C31: for events of one size that divides the size of the ring (16 bytes for events without argument, 32, 64, 128 or 256), the
  queue is a bounded FIFO: in any interleaving of writes and reads, the events read are those of the abstract
  queue that keeps up to 8192 / size events in order and drops those that come when it is full.\<close>

theorem event_queue_is_fifo:
  assumes "sz dvd MS_EVENT_BUF_SIZE" and "\<forall>e. Put e \<in> set ops \<longrightarrow> ev_valid cb sz e" and "0 < sz"
  shows "\<exists>q. queue_run write_event (read_event cb) ops ms_event_queue_new = Some (fst (spec_run (MS_EVENT_BUF_SIZE div sz) ops []), q)
    \<and> ring cb sz q (snd (spec_run (MS_EVENT_BUF_SIZE div sz) ops []))"
  by (rule events.run_refines [OF ring_new [OF assms(1,3)] assms(2)])

definition all_filters :: "u64 \<Rightarrow> bool option" where
  "all_filters f = (if f = 0 then None else Some True)"

theorem event_queue_is_fifo_witness:
  "\<exists>q. queue_run write_event (read_event all_filters)
      [Put (5, 0x10000, None), Put (6, 0x20000, None), Get, Put (7, 0x10000, None), Get, Get, Get] ms_event_queue_new
    = Some ([(5, 0x10000, None), (6, 0x20000, None), (7, 0x10000, None)], q)"
proof -
  let ?ops = "[Put (5, 0x10000, None), Put (6, 0x20000, None), Get, Put (7, 0x10000, None), Get, Get, Get] :: event qop list"
  have "(16 :: nat) dvd MS_EVENT_BUF_SIZE" "(0 :: nat) < 16" by (simp_all add: MS_EVENT_BUF_SIZE_def)
  moreover have "\<forall>e. Put e \<in> set ?ops \<longrightarrow> ev_valid all_filters 16 e" by (auto simp: ev_valid_def all_filters_def ev_argsize_def)
  ultimately have "\<exists>q. queue_run write_event (read_event all_filters) ?ops ms_event_queue_new = Some (fst (spec_run (MS_EVENT_BUF_SIZE div 16) ?ops []), q)"
    using event_queue_is_fifo [of 16 ?ops all_filters] by blast
  moreover have "fst (spec_run (MS_EVENT_BUF_SIZE div 16) ?ops []) = [(5, 0x10000, None), (6, 0x20000, None), (7, 0x10000, None)]"
    by (simp add: MS_EVENT_BUF_SIZE_def)
  ultimately show ?thesis by metis
qed

section \<open>The end of the ring\<close>

text \<open>Before the first wrap-around: the events between the pointers, zeros behind.\<close>

definition ev_size :: "event \<Rightarrow> nat" where
  "ev_size e = ev_argsize (fst (snd e)) + 16"

definition ev_good :: "(u64 \<Rightarrow> bool option) \<Rightarrow> event \<Rightarrow> bool" where
  "ev_good cb e \<longleftrightarrow> ev_valid cb (ev_size e) e"

definition first_lap :: "MSEventQueue \<Rightarrow> event list \<Rightarrow> bool" where
  "first_lap q es \<longleftrightarrow> (let m = MS_EVENT_BUF_SIZE in
     length (eq_buffer q) = m \<and> eq_lim q = m \<and> eq_endptr q = m \<and> eq_size q = int m \<and> eq_wptr q < m
     \<and> eq_rptr q + sum_list (map ev_size es) = eq_wptr q \<and> eq_freeroom q = int m - int (sum_list (map ev_size es))
     \<and> take (sum_list (map ev_size es)) (drop (eq_rptr q) (eq_buffer q)) = concat (map event_bytes es)
     \<and> drop (eq_wptr q) (eq_buffer q) = replicate (m - eq_wptr q) 0)"

lemma first_lap_write:
  assumes l: "first_lap q es" and g: "ev_good cb e" and r: "eq_wptr q + ev_size e < MS_EVENT_BUF_SIZE"
  shows "\<exists>q'. write_event q e = Some q' \<and> first_lap q' (es @ [e]) \<and> eq_wptr q' = eq_wptr q + ev_size e"
proof -
  define m where "m = MS_EVENT_BUF_SIZE"
  let ?s = "sum_list (map ev_size es)"
  note f = l [unfolded first_lap_def Let_def, folded m_def]
  note v = g [unfolded ev_good_def] and lb = length_event_bytes [OF g [unfolded ev_good_def]]
  let ?q = "q\<lparr>eq_wptr := eq_wptr q + ev_size e, eq_freeroom := eq_freeroom q - int (ev_size e), eq_buffer := put_bytes (eq_buffer q) (eq_wptr q) (event_bytes e)\<rparr>"
  have r': "eq_wptr q + ev_size e < m" using r by (simp add: m_def)
  have "int (ev_size e) \<le> eq_freeroom q" using f r' by linarith
  then have w: "write_event q e = Some ?q" using write_event_ok [OF v, of q "eq_wptr q"] f r' by simp
  have "first_lap ?q (es @ [e])"
    unfolding first_lap_def Let_def m_def [symmetric]
  proof (intro conjI)
    have "take (?s + ev_size e) (drop (eq_rptr q) (put_bytes (eq_buffer q) (eq_wptr q) (event_bytes e)))
        = take ?s (drop (eq_rptr q) (eq_buffer q)) @ event_bytes e"
      using f r' lb unfolding take_add drop_drop
      by (simp add: put_bytes_other put_bytes_same [of "eq_wptr q" "event_bytes e" "eq_buffer q", unfolded lb] add.commute)
    then show "take (sum_list (map ev_size (es @ [e]))) (drop (eq_rptr ?q) (eq_buffer ?q)) = concat (map event_bytes (es @ [e]))" using f by simp
    have "drop (eq_wptr ?q) (eq_buffer ?q) = drop (ev_size e) (drop (eq_wptr q) (eq_buffer q))"
      using conjunct1 [OF f] r' lb by (simp add: put_bytes_def add.commute)
    also have "drop (eq_wptr q) (eq_buffer q) = replicate (m - eq_wptr q) 0" using f by blast
    finally show "drop (eq_wptr ?q) (eq_buffer ?q) = replicate (m - eq_wptr ?q) 0" by simp
  qed (use f r' lb in simp_all)
  then show ?thesis using w by auto
qed

lemma first_lap_read:
  assumes l: "first_lap q (e # es)" and g: "ev_good cb e"
  shows "\<exists>q'. read_event cb q = Some (True, [e], q') \<and> first_lap q' es \<and> eq_wptr q' = eq_wptr q"
proof -
  define m where "m = MS_EVENT_BUF_SIZE"
  let ?s = "sum_list (map ev_size es)"
  note f = l [unfolded first_lap_def Let_def, folded m_def]
  note v = g [unfolded ev_good_def] and lb = length_event_bytes [OF g [unfolded ev_good_def]]
  have z: "0 < ev_size e" by (simp add: ev_size_def)
  have t: "take (ev_size e + ?s) (drop (eq_rptr q) (eq_buffer q)) = event_bytes e @ concat (map event_bytes es)" using f by simp
  have "take (ev_size e) (take (ev_size e + ?s) (drop (eq_rptr q) (eq_buffer q))) = event_bytes e" unfolding t using lb by simp
  then have e: "take (ev_size e) (drop (eq_rptr q) (eq_buffer q)) = event_bytes e" by (simp add: min_def)
  have "drop (ev_size e) (take (ev_size e + ?s) (drop (eq_rptr q) (eq_buffer q))) = concat (map event_bytes es)" unfolding t using lb by simp
  then have d: "take ?s (drop (eq_rptr q + ev_size e) (eq_buffer q)) = concat (map event_bytes es)" by (simp add: drop_take add.commute)
  let ?q = "q\<lparr>eq_rptr := eq_rptr q + ev_size e, eq_freeroom := eq_freeroom q + int (ev_size e)\<rparr>"
  have "read_event cb q = Some (True, [e], ?q)" using read_event_ok [OF v e] f z by simp
  moreover have "first_lap ?q es" unfolding first_lap_def Let_def m_def [symmetric] using f d by simp
  ultimately show ?thesis by auto
qed

lemma first_lap_pump:
  "first_lap q es \<Longrightarrow> \<forall>e \<in> set es. ev_good cb e \<Longrightarrow>
    \<exists>q'. ms_event_queue_pump cb q = Some (es, q') \<and> first_lap q' [] \<and> eq_wptr q' = eq_wptr q"
proof (induction es arbitrary: q)
  case Nil
  then have "read_event cb q = Some (False, [], q)" by (simp add: first_lap_def Let_def read_event_def)
  then show ?case using Nil by (simp add: ms_event_queue_pump.simps [of cb q])
next
  case (Cons e es)
  then obtain q' where q: "read_event cb q = Some (True, [e], q')" "first_lap q' es" "eq_wptr q' = eq_wptr q"
    using first_lap_read by (metis list.set_intros(1))
  then show ?case using Cons.IH [OF q(2)] Cons.prems(2) by (auto simp: ms_event_queue_pump.simps [of cb q])
qed

fun write_events :: "event list \<Rightarrow> MSEventQueue \<Rightarrow> MSEventQueue option" where
  "write_events [] q = Some q"
| "write_events (e # es) q = Option.bind (write_event q e) (write_events es)"

lemma first_lap_writes:
  "first_lap q es \<Longrightarrow> \<forall>e \<in> set es'. ev_good cb e \<Longrightarrow> eq_wptr q + sum_list (map ev_size es') < MS_EVENT_BUF_SIZE \<Longrightarrow>
    \<exists>q'. write_events es' q = Some q' \<and> first_lap q' (es @ es') \<and> eq_wptr q' = eq_wptr q + sum_list (map ev_size es')"
proof (induction es' arbitrary: q es)
  case (Cons e es')
  then obtain q' where q: "write_event q e = Some q'" "first_lap q' (es @ [e])" "eq_wptr q' = eq_wptr q + ev_size e"
    using first_lap_write [of q es cb e] by auto
  then show ?case using Cons.IH [OF q(2)] Cons.prems(2,3) by (auto simp: add.assoc)
qed simp

text \<open>Events of any sizes are delivered in order before the first wrap-around; but if the application has read all of them and the
  next event does not fit in the rest of the ring, it is written at the start while the reader still points behind the old
  events, and the next read takes its filter from bytes never written: a NULL filter is dereferenced.\<close>

theorem drained_queue_reads_null:
  assumes "\<forall>e \<in> set es. ev_good cb e" and "ev_good cb e" and "cb 0 = None"
    and "p = sum_list (map ev_size es)" and "p + 16 \<le> MS_EVENT_BUF_SIZE" and "MS_EVENT_BUF_SIZE < p + ev_size e"
  shows "\<exists>q q1 q2. write_events es ms_event_queue_new = Some q \<and> ms_event_queue_pump cb q = Some (es, q1)
    \<and> write_event q1 e = Some q2 \<and> read_event cb q2 = None \<and> ms_event_queue_pump cb q2 = None"
proof -
  define m where "m = MS_EVENT_BUF_SIZE"
  have "first_lap ms_event_queue_new []" by (simp add: first_lap_def ms_event_queue_new_def Let_def MS_EVENT_BUF_SIZE_def)
  then obtain q where q: "write_events es ms_event_queue_new = Some q" "first_lap q es" "eq_wptr q = p"
    using first_lap_writes [of ms_event_queue_new "[]" es cb] assms(1,4,5) by (auto simp: ms_event_queue_new_def)
  then obtain q1 where q1: "ms_event_queue_pump cb q = Some (es, q1)" "first_lap q1 []" "eq_wptr q1 = p"
    using first_lap_pump assms(1) by blast
  note f = q1(2) [unfolded first_lap_def Let_def, folded m_def]
  note v = assms(2) [unfolded ev_good_def] and lb = length_event_bytes [OF assms(2) [unfolded ev_good_def]]
  have s: "ev_size e \<le> 271"
  proof -
    have "ev_argsize i \<le> 255" for i using word_and_le1 [of i 255] by (simp add: ev_argsize_def word_le_nat_alt)
    then show ?thesis by (simp add: ev_size_def)
  qed
  then have big: "271 < p" "271 < m" using assms(6) by (simp_all add: m_def MS_EVENT_BUF_SIZE_def)
  let ?b = "put_bytes (eq_buffer q1) 0 (event_bytes e)"
  let ?q2 = "q1\<lparr>eq_endptr := p, eq_wptr := ev_size e, eq_freeroom := eq_freeroom q1 - int (ev_size e), eq_buffer := ?b\<rparr>"
  have w: "write_event q1 e = Some ?q2"
    using write_event_ok [OF v, of q1 0] f q1(3) assms(6) s big by (simp add: m_def)
  have "drop p ?b = replicate (m - p) 0" using f q1(3) lb s big by (simp add: put_bytes_def)
  then have "take 8 (drop p ?b) = long_bytes 0" using assms(5) by (simp add: m_def [symmetric] long_bytes_def numeral_eq_Suc min_def)
  then have z: "long_at ?b p = 0" by (rule long_at_bytes)
  have "eq_rptr q1 = p" "0 < ev_size e" using f q1(3) by (simp_all add: ev_size_def)
  then have n: "read_event cb ?q2 = None" using z assms(3) f by (simp add: read_event_def Let_def)
  then show ?thesis using q(1) q1(1) w by (auto simp: ms_event_queue_pump.simps [of cb ?q2])
qed

theorem drained_queue_reads_null_witness:
  "\<exists>q q1 q2. write_events (replicate 30 (5, 0xFF, Some (replicate 255 1))) ms_event_queue_new = Some q
    \<and> ms_event_queue_pump all_filters q = Some (replicate 30 (5, 0xFF, Some (replicate 255 1)), q1)
    \<and> write_event q1 (6, 0xFF, Some (replicate 255 2)) = Some q2 \<and> ms_event_queue_pump all_filters q2 = None"
proof -
  let ?e = "(5, 0xFF, Some (replicate 255 1)) :: event" and ?x = "(6, 0xFF, Some (replicate 255 2)) :: event"
  have sz: "ev_size ?e = 271" "ev_size ?x = 271" "ev_argsize 0xFF = 255" by (simp_all add: ev_size_def ev_argsize_def)
  then have g: "ev_good all_filters ?e" "ev_good all_filters ?x" unfolding ev_good_def sz by (simp_all add: ev_valid_def all_filters_def ev_argsize_def)
  have "\<forall>e \<in> set (replicate 30 ?e). ev_good all_filters e" using g(1) by simp
  moreover have "sum_list (map ev_size (replicate 30 ?e)) = 8130" unfolding map_replicate sz(1) by (simp add: sum_list_replicate)
  moreover have "all_filters 0 = None" by (simp add: all_filters_def)
  ultimately show ?thesis using drained_queue_reads_null [of "replicate 30 ?e" all_filters ?x 8130] g(2) sz(2)
    by (simp add: MS_EVENT_BUF_SIZE_def) blast
qed

end
