(* ===== verification/Ms_Filter.thy ===== *)
theory Ms_Filter
  imports Ms_Queue Rtp_Profile
begin

text \<open>
  Filters and their graph (\<open>mediastreamer2/src/base/msfilter.c\<close>). Filters and the queues between them are entries of two lists, a
  pointer is an index. An entry of the list of queues has the two ends of the queue; its messages are part of the media state
  that the filters' own code works on (\<open>Ms_Ticker\<close>). A destroyed queue keeps its entry, which no pin refers to. \<open>ms_fatal\<close>
  aborts the program: the result is \<open>None\<close>, as for an access outside an array. Statistics and locks are left out.
\<close>

section \<open>Descriptions\<close>

datatype MSFilterCategory = MS_FILTER_OTHER | MS_FILTER_ENCODER | MS_FILTER_DECODER

definition MS_FILTER_NOT_SET_ID :: nat where "MS_FILTER_NOT_SET_ID = 0"

definition MS_FILTER_PLUGIN_ID :: nat where "MS_FILTER_PLUGIN_ID = 1"

definition MS_FILTER_BASE_ID :: nat where "MS_FILTER_BASE_ID = 2"

definition MSFilterInterfaceBegin :: nat where "MSFilterInterfaceBegin = 16384"

definition MS_FILTER_IS_PUMP :: u32 where "MS_FILTER_IS_PUMP = 1"

text \<open>The method table is the list of method ids; the methods themselves are the filters' own code.\<close>

record MSFilterDesc =
  fd_id :: nat
  fd_name :: string
  fd_category :: MSFilterCategory
  fd_enc_fmt :: string
  fd_ninputs :: nat
  fd_noutputs :: nat
  fd_methods :: "u32 list"
  fd_flags :: u32

definition ms_filter_register :: "MSFilterDesc \<Rightarrow> MSFilterDesc list \<Rightarrow> MSFilterDesc list option" where
  "ms_filter_register desc desc_list = (if fd_id desc = MS_FILTER_NOT_SET_ID then None else Some (desc # desc_list))"

definition ms_filter_get_encoder :: "MSFilterDesc list \<Rightarrow> string \<Rightarrow> MSFilterDesc option" where
  "ms_filter_get_encoder desc_list mime = find (\<lambda>d. fd_category d = MS_FILTER_ENCODER \<and> strcasecmp_eq (fd_enc_fmt d) mime) desc_list"

definition ms_filter_get_decoder :: "MSFilterDesc list \<Rightarrow> string \<Rightarrow> MSFilterDesc option" where
  "ms_filter_get_decoder desc_list mime = find (\<lambda>d. fd_category d = MS_FILTER_DECODER \<and> strcasecmp_eq (fd_enc_fmt d) mime) desc_list"

definition ms_filter_codec_supported :: "MSFilterDesc list \<Rightarrow> string \<Rightarrow> bool" where
  "ms_filter_codec_supported desc_list mime \<longleftrightarrow> ms_filter_get_encoder desc_list mime \<noteq> None \<and> ms_filter_get_decoder desc_list mime \<noteq> None"

definition ms_filter_lookup_by_name :: "MSFilterDesc list \<Rightarrow> string \<Rightarrow> MSFilterDesc option" where
  "ms_filter_lookup_by_name desc_list filter_name = find (\<lambda>d. fd_name d = filter_name) desc_list"

section \<open>Filters and queues\<close>

record MSFilter =
  ft_desc :: MSFilterDesc
  ft_inputs :: "nat option list"
  ft_outputs :: "nat option list"
  ft_ticker :: bool
  ft_last_tick :: u32
  ft_postponed_task :: int
  ft_seen :: bool

record MSLink =
  lk_prev :: "nat \<times> nat"
  lk_next :: "nat \<times> nat"

record Graph =
  gr_filters :: "MSFilter list"
  gr_links :: "MSLink list"

definition ft :: "Graph \<Rightarrow> nat \<Rightarrow> MSFilter" where
  "ft g f = gr_filters g ! f"

definition upd_ft :: "nat \<Rightarrow> (MSFilter \<Rightarrow> MSFilter) \<Rightarrow> Graph \<Rightarrow> Graph" where
  "upd_ft f u g = g\<lparr>gr_filters := (gr_filters g)[f := u (ft g f)]\<rparr>"

definition ms_filter_new_from_desc :: "MSFilterDesc \<Rightarrow> Graph \<Rightarrow> nat \<times> Graph" where
  "ms_filter_new_from_desc desc g = (length (gr_filters g), g\<lparr>gr_filters := gr_filters g @
     [\<lparr>ft_desc = desc, ft_inputs = replicate (fd_ninputs desc) None, ft_outputs = replicate (fd_noutputs desc) None,
       ft_ticker = False, ft_last_tick = 0, ft_postponed_task = 0, ft_seen = False\<rparr>]\<rparr>)"

definition ms_filter_new :: "MSFilterDesc list \<Rightarrow> nat \<Rightarrow> Graph \<Rightarrow> nat option \<times> Graph" where
  "ms_filter_new desc_list fid g =
    (if fid = MS_FILTER_PLUGIN_ID then (None, g)
     else (case find (\<lambda>d. fd_id d = fid) desc_list of None \<Rightarrow> (None, g)
           | Some d \<Rightarrow> let (f, g') = ms_filter_new_from_desc d g in (Some f, g')))"

definition ms_filter_create_encoder :: "MSFilterDesc list \<Rightarrow> string \<Rightarrow> Graph \<Rightarrow> nat option \<times> Graph" where
  "ms_filter_create_encoder desc_list mime g = (case ms_filter_get_encoder desc_list mime of None \<Rightarrow> (None, g)
     | Some d \<Rightarrow> let (f, g') = ms_filter_new_from_desc d g in (Some f, g'))"

definition ms_filter_create_decoder :: "MSFilterDesc list \<Rightarrow> string \<Rightarrow> Graph \<Rightarrow> nat option \<times> Graph" where
  "ms_filter_create_decoder desc_list mime g = (case ms_filter_get_decoder desc_list mime of None \<Rightarrow> (None, g)
     | Some d \<Rightarrow> let (f, g') = ms_filter_new_from_desc d g in (Some f, g'))"

text \<open>Only the upper bound of a pin is checked; a negative pin is an access outside the table.\<close>

definition ms_filter_link :: "nat \<Rightarrow> int \<Rightarrow> nat \<Rightarrow> int \<Rightarrow> Graph \<Rightarrow> (int \<times> Graph) option" where
  "ms_filter_link f1 pin1 f2 pin2 g =
    (if int (fd_noutputs (ft_desc (ft g f1))) \<le> pin1 then Some (-1, g)
     else if int (fd_ninputs (ft_desc (ft g f2))) \<le> pin2 then Some (-1, g)
     else if pin1 < 0 then None
     else if ft_outputs (ft g f1) ! nat pin1 \<noteq> None then Some (-1, g)
     else if pin2 < 0 then None
     else if ft_inputs (ft g f2) ! nat pin2 \<noteq> None then Some (-1, g)
     else let q = length (gr_links g);
              g1 = g\<lparr>gr_links := gr_links g @ [\<lparr>lk_prev = (f1, nat pin1), lk_next = (f2, nat pin2)\<rparr>]\<rparr>;
              g2 = upd_ft f1 (\<lambda>x. x\<lparr>ft_outputs := (ft_outputs x)[nat pin1 := Some q]\<rparr>) g1
          in Some (0, upd_ft f2 (\<lambda>x. x\<lparr>ft_inputs := (ft_inputs x)[nat pin2 := Some q]\<rparr>) g2))"

definition ms_filter_unlink :: "nat \<Rightarrow> int \<Rightarrow> nat \<Rightarrow> int \<Rightarrow> Graph \<Rightarrow> (int \<times> Graph) option" where
  "ms_filter_unlink f1 pin1 f2 pin2 g =
    (if int (fd_noutputs (ft_desc (ft g f1))) \<le> pin1 then Some (-1, g)
     else if int (fd_ninputs (ft_desc (ft g f2))) \<le> pin2 then Some (-1, g)
     else if pin1 < 0 then None
     else if ft_outputs (ft g f1) ! nat pin1 = None then Some (-1, g)
     else if pin2 < 0 then None
     else if ft_inputs (ft g f2) ! nat pin2 = None then Some (-1, g)
     else if ft_outputs (ft g f1) ! nat pin1 \<noteq> ft_inputs (ft g f2) ! nat pin2 then Some (-1, g)
     else let g2 = upd_ft f1 (\<lambda>x. x\<lparr>ft_outputs := (ft_outputs x)[nat pin1 := None]\<rparr>) g
          in Some (0, upd_ft f2 (\<lambda>x. x\<lparr>ft_inputs := (ft_inputs x)[nat pin2 := None]\<rparr>) g2))"

section \<open>Methods\<close>

definition MS_FILTER_METHOD_GET_FID :: "u32 \<Rightarrow> nat" where
  "MS_FILTER_METHOD_GET_FID mid = unat (drop_bit 16 mid AND 0xFFFF)"

definition is_interface_method :: "nat \<Rightarrow> bool" where
  "is_interface_method magic \<longleftrightarrow> magic = MS_FILTER_BASE_ID \<or> MSFilterInterfaceBegin < magic"

text \<open>The search through the method table: the position of the method to call, \<open>-1\<close> if there is none.\<close>

fun find_method :: "MSFilterDesc \<Rightarrow> u32 \<Rightarrow> nat \<Rightarrow> u32 list \<Rightarrow> int option" where
  "find_method desc mid i [] = Some (-1)"
| "find_method desc mid i (m # ms) =
    (let mm = MS_FILTER_METHOD_GET_FID m
     in if mm \<noteq> fd_id desc \<and> \<not> is_interface_method mm then None
        else if m = mid then Some (int i) else find_method desc mid (Suc i) ms)"

definition ms_filter_call_method :: "(nat \<Rightarrow> int) \<Rightarrow> MSFilterDesc \<Rightarrow> u32 \<Rightarrow> int option" where
  "ms_filter_call_method method desc mid =
    (let magic = MS_FILTER_METHOD_GET_FID mid
     in if \<not> is_interface_method magic \<and> magic \<noteq> fd_id desc then None
        else map_option (\<lambda>i. if i < 0 then -1 else method (nat i)) (find_method desc mid 0 (fd_methods desc)))"

definition ms_filter_has_method :: "MSFilterDesc \<Rightarrow> u32 \<Rightarrow> bool" where
  "ms_filter_has_method desc mid \<longleftrightarrow> mid \<in> set (fd_methods desc)"

section \<open>Neighbours\<close>

text \<open>The filters at the other ends of the connected inputs and outputs, in the order of the pins.\<close>

definition upstream :: "Graph \<Rightarrow> nat \<Rightarrow> nat list" where
  "upstream g f = map (\<lambda>l. fst (lk_prev (gr_links g ! l))) (concat (map (case_option [] (\<lambda>l. [l])) (ft_inputs (ft g f))))"

definition downstream :: "Graph \<Rightarrow> nat \<Rightarrow> nat list" where
  "downstream g f = map (\<lambda>l. fst (lk_next (gr_links g ! l))) (concat (map (case_option [] (\<lambda>l. [l])) (ft_outputs (ft g f))))"

text \<open>
  The recursive search, with the pending calls as a list: \<open>Visit f\<close> is a call, \<open>Check f\<close> what a call does after its two loops. The
  filters found are appended to \<open>acc\<close>.
\<close>

datatype visit = Visit nat | Check nat

lemma length_filter_update:
  "f < length xs \<Longrightarrow> P (xs ! f) \<Longrightarrow> \<not> P y \<Longrightarrow> length (filter P (xs[f := y])) < length (filter P xs)"
proof (induction xs arbitrary: f)
  case (Cons a xs)
  then show ?case by (cases f) auto
qed simp

function find_filters :: "visit list \<Rightarrow> nat list \<Rightarrow> Graph \<Rightarrow> (nat list \<times> Graph) option" where
  "find_filters [] acc g = Some (acc, g)"
| "find_filters (Check f # st) acc g =
    (if 1 \<le> fd_noutputs (ft_desc (ft g f)) \<and> downstream g f = [] then None else find_filters st acc g)"
| "find_filters (Visit f # st) acc g =
    (if length (gr_filters g) \<le> f then None
     else if ft_seen (ft g f) then find_filters st acc g
     else find_filters (map Visit (upstream g f) @ map Visit (downstream g f) @ Check f # st) (acc @ [f]) (upd_ft f (\<lambda>x. x\<lparr>ft_seen := True\<rparr>) g))"
  by pat_completeness auto
termination
  by (relation "measures [\<lambda>(st, acc, g). length (filter (\<lambda>x. \<not> ft_seen x) (gr_filters g)), \<lambda>(st, acc, g). length st]")
     (auto simp: upd_ft_def ft_def intro!: length_filter_update)

definition ms_filter_find_neighbours :: "nat \<Rightarrow> Graph \<Rightarrow> (nat list \<times> Graph) option" where
  "ms_filter_find_neighbours me g =
    map_option (\<lambda>(l, g'). (l, foldl (\<lambda>h f. upd_ft f (\<lambda>x. x\<lparr>ft_seen := False\<rparr>) h) g' l)) (find_filters [Visit me] [] g)"

section \<open>The connection helper\<close>

type_synonym helper = "(nat \<times> int) option"

definition ms_connection_helper_link :: "helper \<Rightarrow> nat \<Rightarrow> int \<Rightarrow> int \<Rightarrow> Graph \<Rightarrow> (int \<times> helper \<times> Graph) option" where
  "ms_connection_helper_link h f inpin outpin g = (case h of None \<Rightarrow> Some (0, Some (f, outpin), g)
     | Some (l, p) \<Rightarrow> map_option (\<lambda>(err, g'). (err, if err = 0 then Some (f, outpin) else h, g')) (ms_filter_link l p f inpin g))"

definition ms_connection_helper_unlink :: "helper \<Rightarrow> nat \<Rightarrow> int \<Rightarrow> int \<Rightarrow> Graph \<Rightarrow> (int \<times> helper \<times> Graph) option" where
  "ms_connection_helper_unlink h f inpin outpin g = (case h of None \<Rightarrow> Some (0, Some (f, outpin), g)
     | Some (l, p) \<Rightarrow> map_option (\<lambda>(err, g'). (err, if err = 0 then Some (f, outpin) else h, g')) (ms_filter_unlink l p f inpin g))"

section \<open>Well-formed graphs\<close>

definition at_output :: "Graph \<Rightarrow> nat \<Rightarrow> bool" where
  "at_output g l \<longleftrightarrow> (case lk_prev (gr_links g ! l) of (f, i) \<Rightarrow>
     f < length (gr_filters g) \<and> i < length (ft_outputs (ft g f)) \<and> ft_outputs (ft g f) ! i = Some l)"

definition at_input :: "Graph \<Rightarrow> nat \<Rightarrow> bool" where
  "at_input g l \<longleftrightarrow> (case lk_next (gr_links g ! l) of (f, i) \<Rightarrow>
     f < length (gr_filters g) \<and> i < length (ft_inputs (ft g f)) \<and> ft_inputs (ft g f) ! i = Some l)"

text \<open>Every connected pin has a queue whose end it is, and the other end of the queue is connected to it too.\<close>

definition graph_ok :: "Graph \<Rightarrow> bool" where
  "graph_ok g \<longleftrightarrow> (\<forall>f < length (gr_filters g).
      length (ft_inputs (ft g f)) = fd_ninputs (ft_desc (ft g f)) \<and> length (ft_outputs (ft g f)) = fd_noutputs (ft_desc (ft g f))
    \<and> (\<forall>i l. i < length (ft_inputs (ft g f)) \<longrightarrow> ft_inputs (ft g f) ! i = Some l \<longrightarrow>
         l < length (gr_links g) \<and> lk_next (gr_links g ! l) = (f, i) \<and> at_output g l)
    \<and> (\<forall>i l. i < length (ft_outputs (ft g f)) \<longrightarrow> ft_outputs (ft g f) ! i = Some l \<longrightarrow>
         l < length (gr_links g) \<and> lk_prev (gr_links g ! l) = (f, i) \<and> at_input g l))"

lemma graph_okD:
  assumes "graph_ok g" and "f < length (gr_filters g)"
  shows "length (ft_inputs (ft g f)) = fd_ninputs (ft_desc (ft g f))" and "length (ft_outputs (ft g f)) = fd_noutputs (ft_desc (ft g f))"
    and "i < length (ft_inputs (ft g f)) \<Longrightarrow> ft_inputs (ft g f) ! i = Some l \<Longrightarrow>
         l < length (gr_links g) \<and> lk_next (gr_links g ! l) = (f, i) \<and> at_output g l"
    and "i < length (ft_outputs (ft g f)) \<Longrightarrow> ft_outputs (ft g f) ! i = Some l \<Longrightarrow>
         l < length (gr_links g) \<and> lk_prev (gr_links g ! l) = (f, i) \<and> at_input g l"
  using assms unfolding graph_ok_def by blast+

lemma length_upd_ft [simp]: "length (gr_filters (upd_ft f u g)) = length (gr_filters g)"
  by (simp add: upd_ft_def)

lemma links_upd_ft [simp]: "gr_links (upd_ft f u g) = gr_links g"
  by (simp add: upd_ft_def)

lemma ft_upd_ft: "f < length (gr_filters g) \<Longrightarrow> ft (upd_ft f u g) x = (if x = f then u (ft g f) else ft g x)"
  by (auto simp: upd_ft_def ft_def nth_list_update)

text \<open>The ends of the graph that an operation on last tick, tasks, ticker and marks leaves alone.\<close>

definition same_links :: "Graph \<Rightarrow> Graph \<Rightarrow> bool" where
  "same_links g h \<longleftrightarrow> gr_links h = gr_links g \<and> length (gr_filters h) = length (gr_filters g)
    \<and> (\<forall>f < length (gr_filters g). ft_desc (ft h f) = ft_desc (ft g f) \<and> ft_inputs (ft h f) = ft_inputs (ft g f) \<and> ft_outputs (ft h f) = ft_outputs (ft g f))"

lemma same_links_refl [simp]: "same_links g g"
  by (simp add: same_links_def)

lemma same_links_trans: "same_links g h \<Longrightarrow> same_links h k \<Longrightarrow> same_links g k"
  by (auto simp: same_links_def)

lemma same_links_ok:
  assumes "same_links g h" and "graph_ok g"
  shows "graph_ok h"
proof -
  have "at_output h l = at_output g l" "at_input h l = at_input g l" for l
    using assms(1) by (auto simp: at_output_def at_input_def same_links_def split: prod.splits)
  then show ?thesis using assms unfolding graph_ok_def same_links_def by simp
qed

lemma same_links_streams: "same_links g h \<Longrightarrow> f < length (gr_filters g) \<Longrightarrow> upstream h f = upstream g f \<and> downstream h f = downstream g f"
  by (simp add: same_links_def upstream_def downstream_def)

lemma set_upstream: "set (upstream g f) = {fst (lk_prev (gr_links g ! l)) | l. Some l \<in> set (ft_inputs (ft g f))}"
  by (auto simp: upstream_def split: option.splits)

lemma set_downstream: "set (downstream g f) = {fst (lk_next (gr_links g ! l)) | l. Some l \<in> set (ft_outputs (ft g f))}"
  by (auto simp: downstream_def split: option.splits)

lemma in_upstream:
  assumes ok: "graph_ok g" and f: "f < length (gr_filters g)" and u: "u \<in> set (upstream g f)"
  shows "u < length (gr_filters g) \<and> f \<in> set (downstream g u)"
proof -
  obtain i l where l: "i < length (ft_inputs (ft g f))" "ft_inputs (ft g f) ! i = Some l" "u = fst (lk_prev (gr_links g ! l))"
    using u unfolding set_upstream by (auto simp: in_set_conv_nth)
  then have "lk_next (gr_links g ! l) = (f, i)" "at_output g l" using graph_okD(3) [OF ok f] by blast+
  then show ?thesis using l(3) unfolding set_downstream at_output_def by (auto split: prod.splits simp: in_set_conv_nth) force
qed

lemma in_downstream:
  assumes ok: "graph_ok g" and f: "f < length (gr_filters g)" and d: "d \<in> set (downstream g f)"
  shows "d < length (gr_filters g) \<and> f \<in> set (upstream g d)"
proof -
  obtain i l where l: "i < length (ft_outputs (ft g f))" "ft_outputs (ft g f) ! i = Some l" "d = fst (lk_next (gr_links g ! l))"
    using d unfolding set_downstream by (auto simp: in_set_conv_nth)
  then have "lk_prev (gr_links g ! l) = (f, i)" "at_input g l" using graph_okD(4) [OF ok f] by blast+
  then show ?thesis using l(3) unfolding set_upstream at_input_def by (auto split: prod.splits simp: in_set_conv_nth) force
qed

section \<open>Linking and unlinking\<close>

lemma graph_ok_new:
  assumes ok: "graph_ok g"
  shows "graph_ok (snd (ms_filter_new_from_desc d g))" (is "graph_ok ?h")
proof -
  have h: "gr_links ?h = gr_links g" "length (gr_filters ?h) = Suc (length (gr_filters g))" by (simp_all add: ms_filter_new_from_desc_def)
  have old: "ft ?h f = ft g f" if "f < length (gr_filters g)" for f using that by (simp add: ms_filter_new_from_desc_def ft_def nth_append)
  have new: "ft_inputs (ft ?h (length (gr_filters g))) = replicate (fd_ninputs d) None" "ft_outputs (ft ?h (length (gr_filters g))) = replicate (fd_noutputs d) None"
    "ft_desc (ft ?h (length (gr_filters g))) = d" by (simp_all add: ms_filter_new_from_desc_def ft_def nth_append)
  have "at_output g l \<Longrightarrow> at_output ?h l" "at_input g l \<Longrightarrow> at_input ?h l" for l
    by (auto simp: at_output_def at_input_def h old split: prod.splits)
  then show ?thesis using ok unfolding graph_ok_def h less_Suc_eq by (auto simp: old new)
qed

definition set_pins :: "nat \<Rightarrow> nat \<Rightarrow> nat \<Rightarrow> nat \<Rightarrow> nat option \<Rightarrow> Graph \<Rightarrow> Graph" where
  "set_pins f1 i f2 j q g = upd_ft f2 (\<lambda>x. x\<lparr>ft_inputs := (ft_inputs x)[j := q]\<rparr>) (upd_ft f1 (\<lambda>x. x\<lparr>ft_outputs := (ft_outputs x)[i := q]\<rparr>) g)"

lemma set_pins_simps:
  assumes "f1 < length (gr_filters g)" and "f2 < length (gr_filters g)"
  shows "ft_desc (ft (set_pins f1 i f2 j q g) x) = ft_desc (ft g x)"
    and "ft_outputs (ft (set_pins f1 i f2 j q g) x) = (if x = f1 then (ft_outputs (ft g x))[i := q] else ft_outputs (ft g x))"
    and "ft_inputs (ft (set_pins f1 i f2 j q g) x) = (if x = f2 then (ft_inputs (ft g x))[j := q] else ft_inputs (ft g x))"
  using assms unfolding set_pins_def by (auto simp: ft_upd_ft)

lemma set_pins_links [simp]: "length (gr_filters (set_pins f1 i f2 j q g)) = length (gr_filters g)" "gr_links (set_pins f1 i f2 j q g) = gr_links g"
  by (simp_all add: set_pins_def)

definition add_link :: "nat \<Rightarrow> nat \<Rightarrow> nat \<Rightarrow> nat \<Rightarrow> Graph \<Rightarrow> Graph" where
  "add_link f1 i f2 j g = g\<lparr>gr_links := gr_links g @ [\<lparr>lk_prev = (f1, i), lk_next = (f2, j)\<rparr>]\<rparr>"

lemma link_cases:
  assumes "ms_filter_link f1 pin1 f2 pin2 g = Some (r, g')" and "f1 < length (gr_filters g)" and "f2 < length (gr_filters g)" and "graph_ok g"
  obtains "r = -1" "g' = g"
  | i j where "r = 0" "pin1 = int i" "pin2 = int j" "i < length (ft_outputs (ft g f1))" "j < length (ft_inputs (ft g f2))"
      "ft_outputs (ft g f1) ! i = None" "ft_inputs (ft g f2) ! j = None"
      "g' = set_pins f1 i f2 j (Some (length (gr_links g))) (add_link f1 i f2 j g)"
proof (cases "r = -1")
  case True
  then show ?thesis using assms(1) that(1) by (auto simp: ms_filter_link_def Let_def split: if_splits)
next
  case False
  then have "0 \<le> pin1" "0 \<le> pin2" "nat pin1 < length (ft_outputs (ft g f1))" "nat pin2 < length (ft_inputs (ft g f2))"
    using assms(1) graph_okD(1) [OF assms(4,3)] graph_okD(2) [OF assms(4,2)] by (auto simp: ms_filter_link_def split: if_splits)
  then show ?thesis using False assms(1)
    by (intro that(2) [of "nat pin1" "nat pin2"]) (auto simp: ms_filter_link_def set_pins_def add_link_def Let_def split: if_splits)
qed

lemma graph_ok_link:
  assumes ok: "graph_ok g" and f: "f1 < length (gr_filters g)" "f2 < length (gr_filters g)"
    and i: "i < length (ft_outputs (ft g f1))" "ft_outputs (ft g f1) ! i = None" and j: "j < length (ft_inputs (ft g f2))" "ft_inputs (ft g f2) ! j = None"
  shows "graph_ok (set_pins f1 i f2 j (Some (length (gr_links g))) (add_link f1 i f2 j g))" (is "graph_ok ?h")
proof -
  have f': "f1 < length (gr_filters (add_link f1 i f2 j g))" "f2 < length (gr_filters (add_link f1 i f2 j g))" using f by (simp_all add: add_link_def)
  note sp = set_pins_simps [OF f', where i = i and j = j] 
  have ft: "ft (add_link f1 i f2 j g) x = ft g x" for x by (simp add: add_link_def ft_def)
  have lk: "gr_links ?h = gr_links g @ [\<lparr>lk_prev = (f1, i), lk_next = (f2, j)\<rparr>]" "length (gr_filters ?h) = length (gr_filters g)"
    by (simp_all add: add_link_def)
  have old_out: "at_output ?h l" if "at_output g l" "l < length (gr_links g)" for l
    using that i unfolding at_output_def lk sp ft by (auto simp: nth_append nth_list_update split: prod.splits)
  have old_in: "at_input ?h l" if "at_input g l" "l < length (gr_links g)" for l
    using that j unfolding at_input_def lk sp ft by (auto simp: nth_append nth_list_update split: prod.splits)
  have new: "at_output ?h (length (gr_links g))" "at_input ?h (length (gr_links g))"
    using f i j unfolding at_output_def at_input_def lk sp ft by simp_all
  show ?thesis
    unfolding graph_ok_def lk(2)
  proof (intro allI impI conjI)
    fix f assume f: "f < length (gr_filters g)"
    show "length (ft_inputs (ft ?h f)) = fd_ninputs (ft_desc (ft ?h f))" "length (ft_outputs (ft ?h f)) = fd_noutputs (ft_desc (ft ?h f))"
      using graph_okD(1,2) [OF ok f] unfolding sp ft by auto
    fix k l
    show "l < length (gr_links ?h)" "lk_next (gr_links ?h ! l) = (f, k)" "at_output ?h l"
      if a: "k < length (ft_inputs (ft ?h f))" "ft_inputs (ft ?h f) ! k = Some l"
    proof -
      have "l < length (gr_links ?h) \<and> lk_next (gr_links ?h ! l) = (f, k) \<and> at_output ?h l"
      proof (cases "f = f2 \<and> k = j")
        case True
        then have "l = length (gr_links g)" using a j(1) unfolding sp ft by simp
        then show ?thesis using new(1) True unfolding lk by simp
      next
        case False
        then have "k < length (ft_inputs (ft g f))" "ft_inputs (ft g f) ! k = Some l" using a unfolding sp ft by (cases "f = f2"; simp)+
        then show ?thesis using graph_okD(3) [OF ok f, of k l] old_out [of l] unfolding lk by (simp add: nth_append)
      qed
      then show "l < length (gr_links ?h)" "lk_next (gr_links ?h ! l) = (f, k)" "at_output ?h l" by blast+
    qed
    show "l < length (gr_links ?h)" "lk_prev (gr_links ?h ! l) = (f, k)" "at_input ?h l"
      if a: "k < length (ft_outputs (ft ?h f))" "ft_outputs (ft ?h f) ! k = Some l"
    proof -
      have "l < length (gr_links ?h) \<and> lk_prev (gr_links ?h ! l) = (f, k) \<and> at_input ?h l"
      proof (cases "f = f1 \<and> k = i")
        case True
        then have "l = length (gr_links g)" using a i(1) unfolding sp ft by simp
        then show ?thesis using new(2) True unfolding lk by simp
      next
        case False
        then have "k < length (ft_outputs (ft g f))" "ft_outputs (ft g f) ! k = Some l" using a unfolding sp ft by (cases "f = f1"; simp)+
        then show ?thesis using graph_okD(4) [OF ok f, of k l] old_in [of l] unfolding lk by (simp add: nth_append)
      qed
      then show "l < length (gr_links ?h)" "lk_prev (gr_links ?h ! l) = (f, k)" "at_input ?h l" by blast+
    qed
  qed
qed

lemma unlink_cases:
  assumes "ms_filter_unlink f1 pin1 f2 pin2 g = Some (r, g')" and "f1 < length (gr_filters g)" and "f2 < length (gr_filters g)" and "graph_ok g"
  obtains "r = -1" "g' = g"
  | i j l where "r = 0" "pin1 = int i" "pin2 = int j" "i < length (ft_outputs (ft g f1))" "j < length (ft_inputs (ft g f2))"
      "ft_outputs (ft g f1) ! i = Some l" "ft_inputs (ft g f2) ! j = Some l" "g' = set_pins f1 i f2 j None g"
proof (cases "r = -1")
  case True
  then show ?thesis using assms(1) that(1) by (auto simp: ms_filter_unlink_def Let_def split: if_splits)
next
  case False
  then have "0 \<le> pin1" "0 \<le> pin2" "nat pin1 < length (ft_outputs (ft g f1))" "nat pin2 < length (ft_inputs (ft g f2))"
    using assms(1) graph_okD(1) [OF assms(4,3)] graph_okD(2) [OF assms(4,2)] by (auto simp: ms_filter_unlink_def split: if_splits)
  then show ?thesis using False assms(1)
    by (intro that(2) [of "nat pin1" "nat pin2" "the (ft_inputs (ft g f2) ! nat pin2)"]) (auto simp: ms_filter_unlink_def set_pins_def Let_def split: if_splits)
qed

lemma graph_ok_unlink:
  assumes ok: "graph_ok g" and f: "f1 < length (gr_filters g)" "f2 < length (gr_filters g)"
    and i: "i < length (ft_outputs (ft g f1))" "ft_outputs (ft g f1) ! i = Some q" and j: "j < length (ft_inputs (ft g f2))" "ft_inputs (ft g f2) ! j = Some q"
  shows "graph_ok (set_pins f1 i f2 j None g)" (is "graph_ok ?h")
proof -
  note sp = set_pins_simps [OF f, where i = i and j = j]
  have q: "lk_prev (gr_links g ! q) = (f1, i)" "lk_next (gr_links g ! q) = (f2, j)"
    using graph_okD(4) [OF ok f(1) i] graph_okD(3) [OF ok f(2) j] by simp_all
  have keep: "at_output g l \<Longrightarrow> l \<noteq> q \<Longrightarrow> at_output ?h l" "at_input g l \<Longrightarrow> l \<noteq> q \<Longrightarrow> at_input ?h l" for l
    using i j unfolding at_output_def at_input_def sp by (auto simp: nth_list_update split: prod.splits)
  have "k < length (ft_inputs (ft ?h f)) \<Longrightarrow> ft_inputs (ft ?h f) ! k = Some l \<Longrightarrow> k < length (ft_inputs (ft g f)) \<and> ft_inputs (ft g f) ! k = Some l \<and> (f, k) \<noteq> (f2, j)"
    "k < length (ft_outputs (ft ?h f)) \<Longrightarrow> ft_outputs (ft ?h f) ! k = Some l \<Longrightarrow> k < length (ft_outputs (ft g f)) \<and> ft_outputs (ft g f) ! k = Some l \<and> (f, k) \<noteq> (f1, i)"
    for f k l using i(1) j(1) unfolding sp by (auto simp: nth_list_update split: if_splits)
  then have "k < length (ft_inputs (ft ?h f)) \<Longrightarrow> ft_inputs (ft ?h f) ! k = Some l \<Longrightarrow> l < length (gr_links ?h) \<and> lk_next (gr_links ?h ! l) = (f, k) \<and> at_output ?h l"
    "k < length (ft_outputs (ft ?h f)) \<Longrightarrow> ft_outputs (ft ?h f) ! k = Some l \<Longrightarrow> l < length (gr_links ?h) \<and> lk_prev (gr_links ?h ! l) = (f, k) \<and> at_input ?h l"
    if "f < length (gr_filters g)" for f k l
    using graph_okD(3,4) [OF ok that, of k l] keep [of l] q by fastforce+
  moreover have "length (ft_inputs (ft ?h f)) = fd_ninputs (ft_desc (ft ?h f))" "length (ft_outputs (ft ?h f)) = fd_noutputs (ft_desc (ft ?h f))"
    if "f < length (gr_filters g)" for f using graph_okD(1,2) [OF ok that] unfolding sp by auto
  ultimately show ?thesis unfolding graph_ok_def by simp
qed

lemma graph_ext: "gr_filters g = gr_filters h \<Longrightarrow> gr_links g = gr_links h \<Longrightarrow> g = (h :: Graph)"
  by (cases g, cases h) simp

text \<open>Linking two filters keeps the graph well-formed and unlinking the same pins restores every filter; a call that fails changes
  nothing, and linking fails exactly when a pin does not exist or is taken.\<close>

theorem link_unlink_restores:
  assumes "graph_ok g" and "f1 < length (gr_filters g)" and "f2 < length (gr_filters g)" and "0 \<le> pin1" and "0 \<le> pin2"
  shows "\<exists>r g'. ms_filter_link f1 pin1 f2 pin2 g = Some (r, g') \<and> graph_ok g'
    \<and> (r = 0 \<longleftrightarrow> nat pin1 < length (ft_outputs (ft g f1)) \<and> ft_outputs (ft g f1) ! nat pin1 = None
         \<and> nat pin2 < length (ft_inputs (ft g f2)) \<and> ft_inputs (ft g f2) ! nat pin2 = None)
    \<and> (if r = 0 then f2 \<in> set (downstream g' f1) \<and> (\<exists>g''. ms_filter_unlink f1 pin1 f2 pin2 g' = Some (0, g'') \<and> graph_ok g'' \<and> gr_filters g'' = gr_filters g)
       else g' = g)"
proof -
  obtain i j where p: "pin1 = int i" "pin2 = int j" using assms(4,5) by (metis nonneg_int_cases)
  have l: "fd_noutputs (ft_desc (ft g f1)) = length (ft_outputs (ft g f1))" "fd_ninputs (ft_desc (ft g f2)) = length (ft_inputs (ft g f2))"
    using graph_okD(1) [OF assms(1,3)] graph_okD(2) [OF assms(1,2)] by simp_all
  let ?free = "i < length (ft_outputs (ft g f1)) \<and> ft_outputs (ft g f1) ! i = None \<and> j < length (ft_inputs (ft g f2)) \<and> ft_inputs (ft g f2) ! j = None"
  show ?thesis
  proof (cases ?free)
    case False
    then have "ms_filter_link f1 pin1 f2 pin2 g = Some (-1, g)" using l by (auto simp: ms_filter_link_def p)
    then show ?thesis using False assms(1) by (auto simp: p)
  next
    case True
    let ?q = "length (gr_links g)"
    let ?a = "add_link f1 i f2 j g" let ?h = "set_pins f1 i f2 j (Some ?q) ?a"
    have link: "ms_filter_link f1 pin1 f2 pin2 g = Some (0, ?h)" using True l by (simp add: ms_filter_link_def p set_pins_def add_link_def Let_def)
    have ok: "graph_ok ?h" using graph_ok_link [OF assms(1-3)] True by blast
    have f: "f1 < length (gr_filters ?a)" "f2 < length (gr_filters ?a)" "ft ?a = ft g" using assms(2,3) by (simp_all add: add_link_def ft_def fun_eq_iff)
    note sp = set_pins_simps [OF f(1,2), where i = i and j = j]
    have pins: "ft_outputs (ft ?h f1) ! i = Some ?q" "ft_inputs (ft ?h f2) ! j = Some ?q" using True unfolding sp f(3) by simp_all
    have unlink: "ms_filter_unlink f1 pin1 f2 pin2 ?h = Some (0, set_pins f1 i f2 j None ?h)"
      using True l pins unfolding ms_filter_unlink_def p sp(1) f(3) by (simp add: set_pins_def Let_def)
    have f': "f1 < length (gr_filters ?h)" "f2 < length (gr_filters ?h)" using f(1,2) by simp_all
    have i': "i < length (ft_outputs (ft ?h f1))" "j < length (ft_inputs (ft ?h f2))" using True unfolding sp f(3) by simp_all
    have ok2: "graph_ok (set_pins f1 i f2 j None ?h)" by (rule graph_ok_unlink [OF ok f' i'(1) pins(1) i'(2) pins(2)])
    have "lk_next (gr_links ?h ! ?q) = (f2, j)" by (simp add: add_link_def)
    then have down: "f2 \<in> set (downstream ?h f1)" using pins(1) i'(1) unfolding set_downstream by (force simp: in_set_conv_nth)
    have "gr_filters (set_pins f1 i f2 j None ?h) ! x = gr_filters g ! x" for x
    proof -
      have "(ft_outputs (ft g f1))[i := None] = ft_outputs (ft g f1)" "(ft_inputs (ft g f2))[j := None] = ft_inputs (ft g f2)"
        using True by (metis list_update_id)+
      then show ?thesis using f unfolding ft_def [symmetric] set_pins_def by (cases "f1 = f2") (auto simp: ft_upd_ft)
    qed
    then have "gr_filters (set_pins f1 i f2 j None ?h) = gr_filters g" by (intro nth_equalityI) (simp_all add: add_link_def)
    then show ?thesis using link ok unlink ok2 down True by (auto simp: p)
  qed
qed

section \<open>The component of a filter\<close>

definition arcs :: "Graph \<Rightarrow> (nat \<times> nat) set" where
  "arcs g = {(f, x). f < length (gr_filters g) \<and> x \<in> set (upstream g f) \<union> set (downstream g f)}"

definition component :: "Graph \<Rightarrow> nat \<Rightarrow> nat set" where
  "component g f = (arcs g)\<^sup>* `` {f}"

definition good_outputs :: "Graph \<Rightarrow> nat \<Rightarrow> bool" where
  "good_outputs g f \<longleftrightarrow> (1 \<le> fd_noutputs (ft_desc (ft g f)) \<longrightarrow> downstream g f \<noteq> [])"

lemma arcs_valid: "graph_ok g \<Longrightarrow> (f, x) \<in> arcs g \<Longrightarrow> f < length (gr_filters g) \<and> x < length (gr_filters g) \<and> (x, f) \<in> arcs g"
  using in_upstream [of g f x] in_downstream [of g f x] unfolding arcs_def by blast

lemma component_valid:
  assumes "graph_ok g" and "f < length (gr_filters g)" and "x \<in> component g f"
  shows "x < length (gr_filters g)"
proof -
  have "(f, x) \<in> (arcs g)\<^sup>*" using assms(3) by (simp add: component_def)
  then show ?thesis using assms(1,2) by (induction rule: rtrancl_induct) (auto dest: arcs_valid)
qed

definition mark :: "bool \<Rightarrow> nat \<Rightarrow> Graph \<Rightarrow> Graph" where
  "mark b f g = upd_ft f (\<lambda>x. x\<lparr>ft_seen := b\<rparr>) g"

lemma mark_simps:
  assumes "f < length (gr_filters g)"
  shows "upstream (mark b f g) x = upstream g x" and "downstream (mark b f g) x = downstream g x"
    and "ft_desc (ft (mark b f g) x) = ft_desc (ft g x)" and "length (gr_filters (mark b f g)) = length (gr_filters g)"
    and "ft (mark b f g) x = (if x = f then (ft g f)\<lparr>ft_seen := b\<rparr> else ft g x)"
  using assms by (auto simp: mark_def upstream_def downstream_def ft_upd_ft)

lemma mark_same_links: "f < length (gr_filters g) \<Longrightarrow> same_links g (mark b f g)"
  by (simp add: same_links_def mark_def ft_upd_ft)

lemma mark_arcs: "f < length (gr_filters g) \<Longrightarrow> arcs (mark b f g) = arcs g"
  by (simp add: arcs_def mark_simps)

definition found :: "visit list \<Rightarrow> Graph \<Rightarrow> nat list \<Rightarrow> Graph \<Rightarrow> bool" where
  "found st g new g' \<longleftrightarrow> distinct new \<and> same_links g g'
      \<and> (\<forall>x. ft g' x = (if x \<in> set new then (ft g x)\<lparr>ft_seen := True\<rparr> else ft g x))
      \<and> (\<forall>x \<in> set new. x < length (gr_filters g) \<and> \<not> ft_seen (ft g x) \<and> (\<exists>f. Visit f \<in> set st \<and> (f, x) \<in> (arcs g)\<^sup>*))
      \<and> (\<forall>x \<in> set new. \<forall>y. (x, y) \<in> arcs g \<longrightarrow> ft_seen (ft g y) \<or> y \<in> set new)
      \<and> (\<forall>f. Visit f \<in> set st \<longrightarrow> ft_seen (ft g f) \<or> f \<in> set new)"

lemma find_filters_spec:
  "graph_ok g \<Longrightarrow> \<forall>f. Visit f \<in> set st \<longrightarrow> f < length (gr_filters g) \<Longrightarrow> \<forall>f. Check f \<in> set st \<longrightarrow> good_outputs g f \<Longrightarrow>
    \<forall>f x. Visit f \<in> set st \<longrightarrow> (f, x) \<in> (arcs g)\<^sup>* \<longrightarrow> good_outputs g x \<Longrightarrow>
    \<exists>new g'. find_filters st acc g = Some (acc @ new, g') \<and> found st g new g'"
proof (induction st acc g rule: find_filters.induct)
  case (1 acc g)
  then show ?case by (intro exI [of _ "[]"] exI [of _ g]) (simp add: found_def)
next
  case (2 f st acc g)
  then have "\<not> (1 \<le> fd_noutputs (ft_desc (ft g f)) \<and> downstream g f = [])" by (auto simp: good_outputs_def)
  moreover have "found (Check f # st) g new g' = found st g new g'" for new g' by (simp add: found_def)
  ultimately show ?case using 2 by simp
next
  case (3 f st acc g)
  then have f: "f < length (gr_filters g)" by simp
  show ?case
  proof (cases "ft_seen (ft g f)")
    case True
    have "\<forall>f. Visit f \<in> set st \<longrightarrow> f < length (gr_filters g)" "\<forall>f. Check f \<in> set st \<longrightarrow> good_outputs g f"
      "\<forall>f x. Visit f \<in> set st \<longrightarrow> (f, x) \<in> (arcs g)\<^sup>* \<longrightarrow> good_outputs g x" using "3.prems"(2-4) by simp_all
    then obtain new g' where n: "find_filters st acc g = Some (acc @ new, g')" "found st g new g'"
      using "3.IH"(1) [OF _ True "3.prems"(1)] f by (meson not_le)
    have "find_filters (Visit f # st) acc g = Some (acc @ new, g')" using n(1) f True by simp
    moreover have "found (Visit f # st) g new g'" using n(2) True unfolding found_def by simp blast
    ultimately show ?thesis by blast
  next
    case False
    let ?h = "mark True f g"
    let ?st = "map Visit (upstream g f) @ map Visit (downstream g f) @ Check f # st"
    have h: "upd_ft f (\<lambda>x. x\<lparr>ft_seen := True\<rparr>) g = ?h" by (simp add: mark_def)
    have sl: "same_links g ?h" "graph_ok ?h" using mark_same_links [OF f] same_links_ok "3.prems"(1) by blast+
    have adj: "(f, y) \<in> arcs g" if "Visit y \<in> set (map Visit (upstream g f) @ map Visit (downstream g f))" for y
      using that f by (auto simp: arcs_def)
    have good: "good_outputs ?h x \<longleftrightarrow> good_outputs g x" for x by (simp add: good_outputs_def mark_simps f)
    have p1: "\<forall>y. Visit y \<in> set ?st \<longrightarrow> y < length (gr_filters ?h)"
      using "3.prems"(2) adj arcs_valid [OF "3.prems"(1)] by (auto simp: mark_simps f)
    have p2: "\<forall>y. Check y \<in> set ?st \<longrightarrow> good_outputs ?h y" using "3.prems"(3,4) unfolding good by auto
    have p3: "\<forall>y x. Visit y \<in> set ?st \<longrightarrow> (y, x) \<in> (arcs ?h)\<^sup>* \<longrightarrow> good_outputs ?h x"
    proof (intro allI impI)
      fix y x assume y: "Visit y \<in> set ?st" "(y, x) \<in> (arcs ?h)\<^sup>*"
      then have r: "(y, x) \<in> (arcs g)\<^sup>*" unfolding mark_arcs [OF f] by blast
      consider "Visit y \<in> set st" | "(f, y) \<in> arcs g" using y(1) adj by auto
      then show "good_outputs ?h x" unfolding good using "3.prems"(4) r
        by cases (auto dest: converse_rtrancl_into_rtrancl)
    qed
    have p0: "\<not> length (gr_filters g) \<le> f" using f by simp
    obtain new g' where n0: "find_filters ?st (acc @ [f]) ?h = Some ((acc @ [f]) @ new, g')" "found ?st ?h new g'"
      using "3.IH"(2) [OF p0 False, unfolded h, OF sl(2) p1 p2 p3] by blast
    note n = n0(1) n0(2) [unfolded found_def mark_arcs [OF f] mark_simps(4) [OF f], THEN conjunct1]
      n0(2) [unfolded found_def mark_arcs [OF f] mark_simps(4) [OF f], THEN conjunct2, THEN conjunct1]
      n0(2) [unfolded found_def mark_arcs [OF f] mark_simps(4) [OF f], THEN conjunct2, THEN conjunct2, THEN conjunct1]
      n0(2) [unfolded found_def mark_arcs [OF f] mark_simps(4) [OF f], THEN conjunct2, THEN conjunct2, THEN conjunct2, THEN conjunct1]
      n0(2) [unfolded found_def mark_arcs [OF f] mark_simps(4) [OF f], THEN conjunct2, THEN conjunct2, THEN conjunct2, THEN conjunct2, THEN conjunct1]
      n0(2) [unfolded found_def mark_arcs [OF f] mark_simps(4) [OF f], THEN conjunct2, THEN conjunct2, THEN conjunct2, THEN conjunct2, THEN conjunct2]
    have seen: "ft_seen (ft ?h x) \<longleftrightarrow> x = f \<or> ft_seen (ft g x)" for x by (simp add: mark_simps f)
    have fn: "f \<notin> set new" using n(5) seen by blast
    have "find_filters (Visit f # st) acc g = Some (acc @ (f # new), g')" using n(1) f False h by simp
    moreover have from_st: "\<exists>y. Visit y \<in> set (Visit f # st) \<and> (y, x) \<in> (arcs g)\<^sup>*" if xn: "x \<in> set new" for x
    proof -
      obtain y where y: "Visit y \<in> set ?st" "(y, x) \<in> (arcs g)\<^sup>*" using bspec [OF n(5) xn] by blast
      then consider "Visit y \<in> set st" | "(f, y) \<in> arcs g" using adj by auto
      then show ?thesis using y(2) by cases (auto dest: converse_rtrancl_into_rtrancl)
    qed
    have "\<forall>x \<in> set (f # new). x < length (gr_filters g) \<and> \<not> ft_seen (ft g x) \<and> (\<exists>y. Visit y \<in> set (Visit f # st) \<and> (y, x) \<in> (arcs g)\<^sup>*)"
    proof
      fix x assume "x \<in> set (f # new)"
      then consider "x = f" | "x \<in> set new" by auto
      then show "x < length (gr_filters g) \<and> \<not> ft_seen (ft g x) \<and> (\<exists>y. Visit y \<in> set (Visit f # st) \<and> (y, x) \<in> (arcs g)\<^sup>*)"
      proof cases
        case 1
        then show ?thesis using f False by auto
      next
        case 2
        then show ?thesis using n(5) seen from_st by blast
      qed
    qed
    moreover have "\<forall>x \<in> set (f # new). \<forall>y. (x, y) \<in> arcs g \<longrightarrow> ft_seen (ft g y) \<or> y \<in> set (f # new)"
    proof (intro ballI allI impI)
      fix x y assume that: "x \<in> set (f # new)" "(x, y) \<in> arcs g"
      have "ft_seen (ft ?h y) \<or> y \<in> set new"
      proof (cases "x = f")
        case True
        then have "Visit y \<in> set ?st" using that(2) by (auto simp: arcs_def)
        then show ?thesis using n(7) by blast
      next
        case False
        then have "x \<in> set new" using that(1) by simp
        then show ?thesis using n(6) that(2) by blast
      qed
      then show "ft_seen (ft g y) \<or> y \<in> set (f # new)" unfolding seen by auto
    qed
    moreover have "\<forall>y. Visit y \<in> set (Visit f # st) \<longrightarrow> ft_seen (ft g y) \<or> y \<in> set (f # new)"
    proof (intro allI impI)
      fix y assume "Visit y \<in> set (Visit f # st)"
      then have "y = f \<or> Visit y \<in> set ?st" by auto
      then show "ft_seen (ft g y) \<or> y \<in> set (f # new)" using n(7) seen by auto
    qed
    moreover have "\<forall>x. ft g' x = (if x \<in> set (f # new) then (ft g x)\<lparr>ft_seen := True\<rparr> else ft g x)"
      using n(4) fn by (simp add: mark_simps f)
    moreover have "distinct (f # new)" using n(2) fn by simp
    moreover have "same_links g g'" using n(3) sl(1) by (metis same_links_trans)
    ultimately show ?thesis unfolding found_def by (intro exI [of _ "f # new"] exI [of _ g'] conjI) assumption+
  qed
qed

lemma ft_foldl_upd:
  "\<forall>f \<in> set l. f < length (gr_filters g) \<Longrightarrow> distinct l \<Longrightarrow>
    ft (foldl (\<lambda>h f. upd_ft f u h) g l) x = (if x \<in> set l then u (ft g x) else ft g x)
    \<and> length (gr_filters (foldl (\<lambda>h f. upd_ft f u h) g l)) = length (gr_filters g) \<and> gr_links (foldl (\<lambda>h f. upd_ft f u h) g l) = gr_links g"
proof (induction l arbitrary: g)
  case (Cons a l)
  then show ?case using Cons.IH [of "upd_ft a u g"] by (auto simp: ft_upd_ft)
qed simp

lemma find_neighbours_ok:
  assumes "graph_ok g" and "f < length (gr_filters g)" and "\<forall>x < length (gr_filters g). \<not> ft_seen (ft g x)"
    and "\<forall>x \<in> component g f. good_outputs g x"
  shows "\<exists>l. ms_filter_find_neighbours f g = Some (l, g) \<and> distinct l \<and> set l = component g f"
proof -
  obtain new g' where n: "find_filters [Visit f] [] g = Some (new, g')" "distinct new" "same_links g g'"
      "\<forall>x. ft g' x = (if x \<in> set new then (ft g x)\<lparr>ft_seen := True\<rparr> else ft g x)"
      "\<forall>x \<in> set new. x < length (gr_filters g) \<and> (f, x) \<in> (arcs g)\<^sup>*"
      "\<forall>x \<in> set new. \<forall>y. (x, y) \<in> arcs g \<longrightarrow> ft_seen (ft g y) \<or> y \<in> set new" "ft_seen (ft g f) \<or> f \<in> set new"
    using find_filters_spec [OF assms(1), of "[Visit f]" "[]"] assms(2,4) by (auto simp: component_def found_def)
  have closed: "y \<in> set new" if "(f, y) \<in> (arcs g)\<^sup>*" for y
    using that
  proof (induction rule: rtrancl_induct)
    case base
    then show ?case using n(7) assms(2,3) by blast
  next
    case (step y z)
    then show ?case using n(6) assms(3) arcs_valid [OF assms(1) step.hyps(2)] by blast
  qed
  then have set: "set new = component g f" using n(5) by (auto simp: component_def)
  have len: "length (gr_filters g') = length (gr_filters g)" "gr_links g' = gr_links g" using n(3) by (simp_all add: same_links_def)
  let ?r = "foldl (\<lambda>h f. upd_ft f (\<lambda>x. x\<lparr>ft_seen := False\<rparr>) h) g' new"
  have r: "ft ?r x = (if x \<in> set new then (ft g' x)\<lparr>ft_seen := False\<rparr> else ft g' x)" "length (gr_filters ?r) = length (gr_filters g)" "gr_links ?r = gr_links g" for x
    using ft_foldl_upd [of new g'] n(2,5) len by simp_all
  have "(ft g x)\<lparr>ft_seen := False\<rparr> = ft g x" if "x < length (gr_filters g)" for x using assms(3) that by simp
  then have "ft ?r x = ft g x" if "x < length (gr_filters g)" for x using r(1) n(4,5) that by auto
  then have "gr_filters ?r = gr_filters g" using r(2) by (intro nth_equalityI) (simp_all add: ft_def)
  then have "?r = g" using r(3) by (intro graph_ext)
  then show ?thesis using n(1,2) set by (simp add: ms_filter_find_neighbours_def)
qed

text \<open>The filters found around a filter are those of its connected component, each once, and the marks of the search are gone
  afterwards; the search ends for every graph and aborts only for a filter that has outputs and none connected.\<close>

theorem neighbours_are_the_component:
  assumes "graph_ok g" and "f < length (gr_filters g)" and "\<forall>x < length (gr_filters g). \<not> ft_seen (ft g x)"
    and "\<forall>x \<in> component g f. good_outputs g x"
  shows "\<exists>l. ms_filter_find_neighbours f g = Some (l, g) \<and> distinct l \<and> set l = component g f"
  using find_neighbours_ok [OF assms] .

section \<open>An example\<close>

text \<open>A source, a filter behind it and a sink.\<close>

definition demo_filter :: "string \<Rightarrow> nat option list \<Rightarrow> nat option list \<Rightarrow> MSFilter" where
  "demo_filter nm ins outs = \<lparr>ft_desc = \<lparr>fd_id = 3, fd_name = nm, fd_category = MS_FILTER_OTHER, fd_enc_fmt = '''', fd_ninputs = length ins,
     fd_noutputs = length outs, fd_methods = [], fd_flags = 0\<rparr>, ft_inputs = ins, ft_outputs = outs, ft_ticker = False, ft_last_tick = 0,
     ft_postponed_task = 0, ft_seen = False\<rparr>"

definition demo_graph :: Graph where
  "demo_graph = \<lparr>gr_filters = [demo_filter ''source'' [] [Some 0], demo_filter ''invert'' [Some 0] [Some 1], demo_filter ''sink'' [Some 1] []],
     gr_links = [\<lparr>lk_prev = (0, 0), lk_next = (1, 0)\<rparr>, \<lparr>lk_prev = (1, 0), lk_next = (2, 0)\<rparr>]\<rparr>"

lemma less3: "(x :: nat) < 3 \<longleftrightarrow> x = 0 \<or> x = 1 \<or> x = 2"
  by auto

lemma demo_ft: "ft demo_graph 0 = demo_filter ''source'' [] [Some 0]" "ft demo_graph (Suc 0) = demo_filter ''invert'' [Some 0] [Some 1]"
  "ft demo_graph 2 = demo_filter ''sink'' [Some 1] []" "length (gr_filters demo_graph) = 3" "length (gr_links demo_graph) = 2"
  by (simp_all add: ft_def demo_graph_def)

lemma demo_streams: "upstream demo_graph 0 = []" "upstream demo_graph (Suc 0) = [0]" "upstream demo_graph 2 = [1]"
  "downstream demo_graph 0 = [1]" "downstream demo_graph (Suc 0) = [2]" "downstream demo_graph 2 = []"
  by (simp_all add: upstream_def downstream_def demo_ft demo_filter_def demo_graph_def [THEN arg_cong, of gr_links])

lemma demo_ok: "graph_ok demo_graph"
  unfolding graph_ok_def demo_ft(4) less3
  by (auto simp: demo_ft demo_filter_def at_output_def at_input_def demo_graph_def [THEN arg_cong, of gr_links])

theorem neighbours_are_the_component_witness:
  "\<exists>l. ms_filter_find_neighbours 1 demo_graph = Some (l, demo_graph) \<and> distinct l \<and> set l = component demo_graph 1"
proof -
  have v: "component demo_graph 1 \<subseteq> {0, 1, 2}" using component_valid [OF demo_ok, of 1] by (auto simp: demo_ft less3)
  have g: "\<forall>x \<in> {0, 1, 2}. good_outputs demo_graph x" by (auto simp: good_outputs_def demo_ft demo_filter_def demo_streams)
  have s: "\<forall>x < length (gr_filters demo_graph). \<not> ft_seen (ft demo_graph x)" unfolding demo_ft(4) less3 by (auto simp: demo_ft demo_filter_def)
  have n: "1 < length (gr_filters demo_graph)" by (simp add: demo_ft)
  show ?thesis by (rule neighbours_are_the_component [OF demo_ok n s]) (use v g in blast)
qed

theorem link_unlink_restores_witness:
  "\<exists>g' g''. ms_filter_link 0 0 1 0 (demo_graph\<lparr>gr_filters := [demo_filter ''a'' [] [None], demo_filter ''b'' [None] []]\<rparr>) = Some (0, g')
    \<and> ms_filter_unlink 0 0 1 0 g' = Some (0, g'') \<and> gr_filters g'' = [demo_filter ''a'' [] [None], demo_filter ''b'' [None] []]"
proof -
  let ?g = "demo_graph\<lparr>gr_filters := [demo_filter ''a'' [] [None], demo_filter ''b'' [None] []]\<rparr>"
  have ft: "ft ?g 0 = demo_filter ''a'' [] [None]" "ft ?g (Suc 0) = demo_filter ''b'' [None] []" "length (gr_filters ?g) = 2" by (simp_all add: ft_def)
  have "f = 0 \<or> f = Suc 0" if "f < length (gr_filters ?g)" for f using that ft(3) by linarith
  then have ok: "graph_ok ?g" unfolding graph_ok_def
  proof (intro allI impI)
    fix f assume "f < length (gr_filters ?g)" "\<And>f. f < length (gr_filters ?g) \<Longrightarrow> f = 0 \<or> f = Suc 0"
    then consider "f = 0" | "f = Suc 0" by blast
    then show "length (ft_inputs (ft ?g f)) = fd_ninputs (ft_desc (ft ?g f)) \<and> length (ft_outputs (ft ?g f)) = fd_noutputs (ft_desc (ft ?g f))
      \<and> (\<forall>i l. i < length (ft_inputs (ft ?g f)) \<longrightarrow> ft_inputs (ft ?g f) ! i = Some l \<longrightarrow>
           l < length (gr_links ?g) \<and> lk_next (gr_links ?g ! l) = (f, i) \<and> at_output ?g l)
      \<and> (\<forall>i l. i < length (ft_outputs (ft ?g f)) \<longrightarrow> ft_outputs (ft ?g f) ! i = Some l \<longrightarrow>
           l < length (gr_links ?g) \<and> lk_prev (gr_links ?g ! l) = (f, i) \<and> at_input ?g l)"
      by cases (simp_all only: ft, simp_all add: demo_filter_def)
  qed
  have z: "(0 :: int) \<le> 0" by simp
  have len: "0 < length (gr_filters ?g)" "1 < length (gr_filters ?g)" by simp_all
  obtain r g' where r: "ms_filter_link 0 0 1 0 ?g = Some (r, g')"
    "r = 0 \<longleftrightarrow> nat 0 < length (ft_outputs (ft ?g 0)) \<and> ft_outputs (ft ?g 0) ! nat 0 = None \<and> nat 0 < length (ft_inputs (ft ?g 1)) \<and> ft_inputs (ft ?g 1) ! nat 0 = None"
    "if r = 0 then 1 \<in> set (downstream g' 0) \<and> (\<exists>g''. ms_filter_unlink 0 0 1 0 g' = Some (0, g'') \<and> graph_ok g'' \<and> gr_filters g'' = gr_filters ?g) else g' = ?g"
    using link_unlink_restores [OF ok len z z] by blast
  have "r = 0" using r(2) unfolding One_nat_def ft by (simp add: demo_filter_def)
  then show ?thesis using r(1,3) by auto
qed

end
