(* ===== verification/Ms_Ticker.thy ===== *)
theory Ms_Ticker
  imports Ms_Filter
begin

text \<open>
  The ticker (\<open>mediastreamer2/src/base/msticker.c\<close>, with the process and task functions of \<open>msfilter.c\<close>): it calls the source filters
  of the graphs attached to it in every tick, and from each filter goes on to those behind it. What the filters do is the
  argument \<open>code\<close>: functions on the media state, that is the messages in every queue and the filters' private data. A filter's code can put
  off work (\<open>ms_filter_postpone_task\<close>), which the model sees as the list of task functions that a call returns. Filters are given to one
  ticker; \<open>tk_order\<close> records the filters in the order in which they get their turn. The recursion of \<open>run_graph\<close> is the
  list of filters still to be visited.
\<close>

section \<open>State\<close>

type_synonym 'd media = "(nat \<Rightarrow> msg list) \<times> 'd"

record 'd Code =
  c_preprocess :: "nat \<Rightarrow> 'd media \<Rightarrow> 'd media"
  c_process :: "nat \<Rightarrow> 'd media \<Rightarrow> 'd media \<times> nat list"
  c_postprocess :: "nat \<Rightarrow> 'd media \<Rightarrow> 'd media"
  c_task :: "nat \<Rightarrow> nat \<Rightarrow> 'd media \<Rightarrow> 'd media \<times> nat list"

record 'd MSTicker =
  tk_graph :: Graph
  tk_media :: "'d media"
  tk_execution_list :: "nat list"
  tk_task_list :: "(nat \<times> nat) list"
  tk_ticks :: u32
  tk_time :: u64
  tk_interval :: int
  tk_order :: "nat list"

definition TICKER_INTERVAL :: int where
  "TICKER_INTERVAL = 10"

definition ms_ticker_init :: "Graph \<Rightarrow> 'd media \<Rightarrow> 'd MSTicker" where
  "ms_ticker_init g m = \<lparr>tk_graph = g, tk_media = m, tk_execution_list = [], tk_task_list = [], tk_ticks = 1, tk_time = 0,
     tk_interval = TICKER_INTERVAL, tk_order = []\<rparr>"

section \<open>Filters\<close>

definition on_graph :: "(Graph \<Rightarrow> Graph) \<Rightarrow> 'd MSTicker \<Rightarrow> 'd MSTicker" where
  "on_graph u s = s\<lparr>tk_graph := u (tk_graph s)\<rparr>"

definition ms_filter_postpone_task :: "nat \<Rightarrow> 'd MSTicker \<Rightarrow> nat \<Rightarrow> 'd MSTicker" where
  "ms_filter_postpone_task f s taskfunc =
    (if \<not> ft_ticker (ft (tk_graph s) f) then s
     else (on_graph (upd_ft f (\<lambda>x. x\<lparr>ft_postponed_task := ft_postponed_task x + 1\<rparr>)) s)\<lparr>tk_task_list := (f, taskfunc) # tk_task_list s\<rparr>)"

definition ms_filter_process :: "'d Code \<Rightarrow> nat \<Rightarrow> 'd MSTicker \<Rightarrow> 'd MSTicker" where
  "ms_filter_process code f s =
    (let (m, ts) = c_process code f (tk_media s) in foldl (ms_filter_postpone_task f) (s\<lparr>tk_media := m\<rparr>) ts)"

definition ms_filter_task_process :: "'d Code \<Rightarrow> 'd MSTicker \<Rightarrow> nat \<times> nat \<Rightarrow> 'd MSTicker" where
  "ms_filter_task_process code s task =
    (let (f, t) = task; (m, ts) = c_task code t f (tk_media s)
     in on_graph (upd_ft f (\<lambda>x. x\<lparr>ft_postponed_task := ft_postponed_task x - 1\<rparr>)) (foldl (ms_filter_postpone_task f) (s\<lparr>tk_media := m\<rparr>) ts))"

definition ms_filter_preprocess :: "'d Code \<Rightarrow> 'd MSTicker \<Rightarrow> nat \<Rightarrow> 'd MSTicker" where
  "ms_filter_preprocess code s f =
    (on_graph (upd_ft f (\<lambda>x. x\<lparr>ft_last_tick := 0, ft_ticker := True\<rparr>)) s)\<lparr>tk_media := c_preprocess code f (tk_media s)\<rparr>"

definition ms_filter_postprocess :: "'d Code \<Rightarrow> 'd MSTicker \<Rightarrow> nat \<Rightarrow> 'd MSTicker" where
  "ms_filter_postprocess code s f =
    on_graph (upd_ft f (\<lambda>x. x\<lparr>ft_ticker := False\<rparr>)) (s\<lparr>tk_media := c_postprocess code f (tk_media s)\<rparr>)"

definition ms_filter_inputs_have_data :: "nat \<Rightarrow> 'd MSTicker \<Rightarrow> bool" where
  "ms_filter_inputs_have_data f s \<longleftrightarrow>
     list_ex (\<lambda>i. case i of None \<Rightarrow> False | Some q \<Rightarrow> fst (tk_media s) q \<noteq> []) (ft_inputs (ft (tk_graph s) f))"

section \<open>Attaching and detaching\<close>

definition get_sources :: "Graph \<Rightarrow> nat list \<Rightarrow> nat list" where
  "get_sources g fs = filter (\<lambda>f. fd_ninputs (ft_desc (ft g f)) = 0) fs"

text \<open>The loop over the arguments, with the sources found so far.\<close>

fun attach_loop :: "'d Code \<Rightarrow> nat list \<Rightarrow> nat list \<Rightarrow> 'd MSTicker \<Rightarrow> (nat list \<times> 'd MSTicker) option" where
  "attach_loop code [] tot s = Some (tot, s)"
| "attach_loop code (f # fs) tot s =
    (if ft_ticker (ft (tk_graph s) f) then attach_loop code fs tot s
     else (case ms_filter_find_neighbours f (tk_graph s) of None \<Rightarrow> None
       | Some (filters, g) \<Rightarrow>
           let sources = get_sources g filters
           in if sources = [] then None
              else attach_loop code fs (tot @ sources) (foldl (ms_filter_preprocess code) (s\<lparr>tk_graph := g\<rparr>) filters)))"

definition ms_ticker_attach_multiple :: "'d Code \<Rightarrow> nat list \<Rightarrow> 'd MSTicker \<Rightarrow> 'd MSTicker option" where
  "ms_ticker_attach_multiple code fs s =
    map_option (\<lambda>(tot, s'). s'\<lparr>tk_execution_list := tk_execution_list s' @ tot\<rparr>) (attach_loop code fs [] s)"

definition ms_ticker_attach :: "'d Code \<Rightarrow> nat \<Rightarrow> 'd MSTicker \<Rightarrow> 'd MSTicker option" where
  "ms_ticker_attach code f s = ms_ticker_attach_multiple code [f] s"

definition remove_tasks_for_filter :: "nat \<Rightarrow> 'd MSTicker \<Rightarrow> 'd MSTicker" where
  "remove_tasks_for_filter f s = s\<lparr>tk_task_list := filter (\<lambda>t. fst t \<noteq> f) (tk_task_list s)\<rparr>"

definition call_postprocess :: "'d Code \<Rightarrow> 'd MSTicker \<Rightarrow> nat \<Rightarrow> 'd MSTicker" where
  "call_postprocess code s f = ms_filter_postprocess code
     (if ft_postponed_task (ft (tk_graph s) f) \<noteq> 0 then remove_tasks_for_filter f s else s) f"

definition ms_ticker_detach :: "'d Code \<Rightarrow> nat \<Rightarrow> 'd MSTicker \<Rightarrow> (int \<times> 'd MSTicker) option" where
  "ms_ticker_detach code f s =
    (if \<not> ft_ticker (ft (tk_graph s) f) then Some (0, s)
     else (case ms_filter_find_neighbours f (tk_graph s) of None \<Rightarrow> None
       | Some (filters, g) \<Rightarrow>
           let sources = get_sources g filters
           in if sources = [] then None
              else Some (0, foldl (call_postprocess code)
                     (s\<lparr>tk_graph := g, tk_execution_list := foldl (\<lambda>l x. remove1 x l) (tk_execution_list s) sources\<rparr>) filters)))"

section \<open>A tick\<close>

definition filter_can_process :: "Graph \<Rightarrow> nat \<Rightarrow> u32 \<Rightarrow> bool" where
  "filter_can_process g f tick \<longleftrightarrow> list_all (\<lambda>u. ft_last_tick (ft g u) = tick) (upstream g f)"

partial_function (option) process_loop :: "'d Code \<Rightarrow> nat \<Rightarrow> 'd MSTicker \<Rightarrow> 'd MSTicker option" where
  "process_loop code f s =
    (if ms_filter_inputs_have_data f s
     then let s' = ms_filter_process code f s
          in if ft_postponed_task (ft (tk_graph s') f) \<noteq> 0 then Some s' else process_loop code f s'
     else Some s)"

definition call_process :: "'d Code \<Rightarrow> nat \<Rightarrow> 'd MSTicker \<Rightarrow> 'd MSTicker option" where
  "call_process code f s =
    (let d = ft_desc (ft (tk_graph s) f)
     in if fd_ninputs d = 0 \<or> fd_flags d AND MS_FILTER_IS_PUMP \<noteq> 0 then Some (ms_filter_process code f s)
        else process_loop code f s)"

definition take_turn :: "nat \<Rightarrow> 'd MSTicker \<Rightarrow> 'd MSTicker" where
  "take_turn f s = (on_graph (upd_ft f (\<lambda>x. x\<lparr>ft_last_tick := tk_ticks s\<rparr>)) s)\<lparr>tk_order := tk_order s @ [f]\<rparr>"

partial_function (option) run_graph :: "'d Code \<Rightarrow> bool \<Rightarrow> nat list \<Rightarrow> nat list \<Rightarrow> 'd MSTicker \<Rightarrow> (nat list \<times> 'd MSTicker) option" where
  "run_graph code force st unschedulable s =
    (case st of [] \<Rightarrow> Some (unschedulable, s)
     | f # st' \<Rightarrow>
         if ft_last_tick (ft (tk_graph s) f) = tk_ticks s then run_graph code force st' unschedulable s
         else if filter_can_process (tk_graph s) f (tk_ticks s) \<or> force
         then Option.bind (call_process code f (take_turn f s))
                (\<lambda>s'. run_graph code force (downstream (tk_graph s') f @ st') unschedulable s')
         else run_graph code force st' (f # unschedulable) s)"

partial_function (option) run_graphs :: "'d Code \<Rightarrow> nat list \<Rightarrow> bool \<Rightarrow> 'd MSTicker \<Rightarrow> 'd MSTicker option" where
  "run_graphs code execution_list force s =
    Option.bind (run_graph code force execution_list [] s)
      (\<lambda>(unschedulable, s'). if unschedulable \<noteq> [] then run_graphs code unschedulable True s' else Some s')"

definition run_tasks :: "'d Code \<Rightarrow> 'd MSTicker \<Rightarrow> 'd MSTicker" where
  "run_tasks code s = (foldl (ms_filter_task_process code) s (tk_task_list s))\<lparr>tk_task_list := []\<rparr>"

text \<open>One turn of the loop of the thread, up to the wait for the next tick.\<close>

definition ms_ticker_tick :: "'d Code \<Rightarrow> 'd MSTicker \<Rightarrow> 'd MSTicker option" where
  "ms_ticker_tick code s0 =
    (let s = s0\<lparr>tk_ticks := tk_ticks s0 + 1\<rparr>; s1 = run_tasks code s
     in map_option (\<lambda>s2. s2\<lparr>tk_time := tk_time s2 + word_of_int (tk_interval s2)\<rparr>) (run_graphs code (tk_execution_list s1) False s1))"

text \<open>
  The wait for the next tick: \<open>readings\<close> are the values that the clock has at each look at it, \<open>orig\<close> the clock at the start. The
  result is the delay in milliseconds.
\<close>

fun wait_next_tick :: "u64 \<Rightarrow> u64 \<Rightarrow> u64 list \<Rightarrow> int option" where
  "wait_next_tick tm orig [] = None"
| "wait_next_tick tm orig (r # readings) =
    (let diff = sint (tm - (r - orig)) in if 0 < diff then wait_next_tick tm orig readings else Some (sint (word_of_int (- diff) :: u32)))"

section \<open>What the code of the filters leaves alone\<close>

abbreviation n_filters :: "'d MSTicker \<Rightarrow> nat" where
  "n_filters s \<equiv> length (gr_filters (tk_graph s))"

definition frame :: "'d MSTicker \<Rightarrow> 'd MSTicker \<Rightarrow> bool" where
  "frame s s' \<longleftrightarrow> same_links (tk_graph s) (tk_graph s') \<and> tk_ticks s' = tk_ticks s \<and> tk_execution_list s' = tk_execution_list s
    \<and> tk_interval s' = tk_interval s \<and> tk_time s' = tk_time s \<and> tk_order s' = tk_order s
    \<and> (\<forall>x < n_filters s. ft_last_tick (ft (tk_graph s') x) = ft_last_tick (ft (tk_graph s) x)
         \<and> ft_ticker (ft (tk_graph s') x) = ft_ticker (ft (tk_graph s) x) \<and> ft_seen (ft (tk_graph s') x) = ft_seen (ft (tk_graph s) x))"

lemma frame_refl [simp]: "frame s s"
  by (simp add: frame_def)

lemma frame_trans: "frame s t \<Longrightarrow> frame t u \<Longrightarrow> frame s u"
  unfolding frame_def by (auto intro: same_links_trans simp: same_links_def)

lemma frame_n: "frame s s' \<Longrightarrow> n_filters s' = n_filters s"
  by (simp add: frame_def same_links_def)

lemma frame_media [simp]: "frame s (s'\<lparr>tk_media := m\<rparr>) = frame s s'" "frame s (s'\<lparr>tk_task_list := t\<rparr>) = frame s s'"
  by (simp_all add: frame_def)

lemma frame_upd:
  assumes "f < n_filters s" and "\<And>x. ft_desc (u x) = ft_desc x \<and> ft_inputs (u x) = ft_inputs x \<and> ft_outputs (u x) = ft_outputs x
      \<and> ft_last_tick (u x) = ft_last_tick x \<and> ft_ticker (u x) = ft_ticker x \<and> ft_seen (u x) = ft_seen x"
  shows "frame s (on_graph (upd_ft f u) s)"
  using assms by (auto simp: frame_def on_graph_def same_links_def ft_upd_ft)

lemma frame_postpone: "f < n_filters s \<Longrightarrow> frame s (ms_filter_postpone_task f s t)"
  by (simp add: ms_filter_postpone_task_def frame_upd)

lemma frame_postpones: "f < n_filters s \<Longrightarrow> frame s (foldl (ms_filter_postpone_task f) s ts)"
proof (induction ts arbitrary: s)
  case (Cons t ts)
  have "frame s (ms_filter_postpone_task f s t)" using Cons.prems by (rule frame_postpone)
  then show ?case using Cons.IH [of "ms_filter_postpone_task f s t"] Cons.prems frame_n by (metis foldl_Cons frame_trans)
qed simp

lemma frame_process:
  assumes "f < n_filters s"
  shows "frame s (ms_filter_process code f s)"
proof -
  obtain m ts where c: "c_process code f (tk_media s) = (m, ts)" by fastforce
  have "frame (s\<lparr>tk_media := m\<rparr>) (ms_filter_process code f s)"
    unfolding ms_filter_process_def c split Let_def using assms by (intro frame_postpones) simp
  moreover have "frame s (s\<lparr>tk_media := m\<rparr>)" by simp
  ultimately show ?thesis using frame_trans by blast
qed

lemma media_postpones: "tk_media (foldl (ms_filter_postpone_task f) s ts) = tk_media s"
  by (induction ts arbitrary: s) (simp_all add: ms_filter_postpone_task_def on_graph_def)

lemma media_process: "tk_media (ms_filter_process code f s) = fst (c_process code f (tk_media s))"
  by (simp add: ms_filter_process_def split_def Let_def media_postpones)

text \<open>The code of a filter takes every message from its inputs.\<close>

definition consumes :: "'d Code \<Rightarrow> Graph \<Rightarrow> bool" where
  "consumes code g \<longleftrightarrow> (\<forall>f < length (gr_filters g). \<forall>m l. Some l \<in> set (ft_inputs (ft g f)) \<longrightarrow> fst (fst (c_process code f m)) l = [])"

lemma consumes_frame: "same_links g h \<Longrightarrow> consumes code g \<Longrightarrow> consumes code h"
  by (simp add: consumes_def same_links_def)

lemma call_process_ok:
  assumes "consumes code (tk_graph s)" and f: "f < n_filters s"
  shows "\<exists>s'. call_process code f s = Some s' \<and> frame s s'"
proof -
  let ?s = "ms_filter_process code f s"
  have fr: "frame s ?s" using f by (rule frame_process)
  have "ft_inputs (ft (tk_graph ?s) f) = ft_inputs (ft (tk_graph s) f)" using fr f by (simp add: frame_def same_links_def)
  moreover have "\<forall>l. Some l \<in> set (ft_inputs (ft (tk_graph s) f)) \<longrightarrow> fst (fst (c_process code f (tk_media s))) l = []"
    using assms unfolding consumes_def by blast
  ultimately have "\<not> ms_filter_inputs_have_data f ?s"
    unfolding ms_filter_inputs_have_data_def media_process list_ex_iff by (auto split: option.splits)
  then have "process_loop code f ?s = Some ?s" by (simp add: process_loop.simps [of code f ?s])
  then have "process_loop code f s = Some (if ms_filter_inputs_have_data f s then ?s else s)"
    by (simp add: process_loop.simps [of code f s] Let_def)
  then show ?thesis using fr by (auto simp: call_process_def Let_def)
qed

section \<open>Turns\<close>

definition had_turn :: "'d MSTicker \<Rightarrow> nat set" where
  "had_turn s = {f. f < n_filters s \<and> ft_last_tick (ft (tk_graph s) f) = tk_ticks s}"

lemma ran_frame: "frame s s' \<Longrightarrow> had_turn s' = had_turn s"
  by (auto simp: had_turn_def frame_def same_links_def)

lemma take_turn_facts:
  assumes "f < n_filters s"
  shows "same_links (tk_graph s) (tk_graph (take_turn f s))" and "had_turn (take_turn f s) = insert f (had_turn s)" and "tk_order (take_turn f s) = tk_order s @ [f]"
    and "tk_ticks (take_turn f s) = tk_ticks s" and "n_filters (take_turn f s) = n_filters s"
  using assms by (auto simp: take_turn_def on_graph_def same_links_def had_turn_def ft_upd_ft)

fun in_order :: "Graph \<Rightarrow> nat set \<Rightarrow> nat list \<Rightarrow> bool" where
  "in_order g S [] = True"
| "in_order g S (x # xs) \<longleftrightarrow> set (upstream g x) \<subseteq> S \<and> in_order g (insert x S) xs"

lemma in_order_nth: "in_order g S xs \<Longrightarrow> i < length xs \<Longrightarrow> set (upstream g (xs ! i)) \<subseteq> S \<union> set (take i xs)"
proof (induction xs arbitrary: S i)
  case (Cons x xs)
  then show ?case using Cons.IH [of "insert x S"] by (cases i) auto
qed simp

definition arrows :: "Graph \<Rightarrow> (nat \<times> nat) set" where
  "arrows g = {(f, x). f < length (gr_filters g) \<and> x \<in> set (downstream g f)}"

text \<open>What a run over the list \<open>st\<close> has done: the filters \<open>new\<close> had their turn, \<open>u'\<close> are put off.\<close>

definition turns :: "Graph \<Rightarrow> nat set \<Rightarrow> bool \<Rightarrow> nat list \<Rightarrow> nat list \<Rightarrow> nat list \<Rightarrow> nat list \<Rightarrow> bool" where
  "turns g R force st u u' new \<longleftrightarrow> distinct new \<and> set new \<inter> R = {}
    \<and> set new \<union> set u' \<subseteq> set u \<union> (arrows g)\<^sup>* `` set st
    \<and> set st \<union> (\<Union>x \<in> set new. set (downstream g x)) \<subseteq> R \<union> set new \<union> set u' \<and> set u \<subseteq> set u'
    \<and> (if force then u' = u else in_order g R new)"

definition ready_in :: "Graph \<Rightarrow> nat set \<Rightarrow> nat list \<Rightarrow> bool" where
  "ready_in g R st \<longleftrightarrow> (\<forall>x < length (gr_filters g). x \<notin> R \<longrightarrow> upstream g x \<noteq> [] \<longrightarrow> set (upstream g x) \<subseteq> R \<longrightarrow> x \<in> set st)"

definition all_ready_ran :: "Graph \<Rightarrow> nat set \<Rightarrow> nat list \<Rightarrow> nat list \<Rightarrow> bool" where
  "all_ready_ran g R st new \<longleftrightarrow> (\<forall>x < length (gr_filters g). upstream g x \<noteq> [] \<or> x \<in> set st \<longrightarrow> set (upstream g x) \<subseteq> R \<union> set new \<longrightarrow> x \<in> R \<union> set new)"

lemma turns_nil: "turns g R force [] u u []"
  by (simp add: turns_def)

lemma turns_skip: "f \<in> R \<Longrightarrow> turns g R force st u u' new \<Longrightarrow> turns g R force (f # st) u u' new"
  unfolding turns_def by auto

lemma turns_defer: "turns g R False st (f # u) u' new \<Longrightarrow> turns g R False (f # st) u u' new"
  unfolding turns_def by auto

lemma turns_take:
  assumes "f < length (gr_filters g)" and "f \<notin> R" and "force \<or> set (upstream g f) \<subseteq> R"
    and t: "turns g (insert f R) force (downstream g f @ st) u u' new"
  shows "turns g R force (f # st) u u' (f # new)"
proof -
  have "(f, y) \<in> arrows g" if "y \<in> set (downstream g f)" for y using that assms(1) by (simp add: arrows_def)
  then have sub: "(arrows g)\<^sup>* `` set (downstream g f @ st) \<subseteq> (arrows g)\<^sup>* `` set (f # st)"
    by (auto intro: converse_rtrancl_into_rtrancl)
  have "set new \<union> set u' \<subseteq> set u \<union> (arrows g)\<^sup>* `` set (downstream g f @ st)" using t unfolding turns_def by blast
  also have "\<dots> \<subseteq> set u \<union> (arrows g)\<^sup>* `` set (f # st)" by (rule Un_mono [OF subset_refl sub])
  finally have "set new \<union> set u' \<subseteq> set u \<union> (arrows g)\<^sup>* `` set (f # st)" .
  moreover have "f \<in> (arrows g)\<^sup>* `` set (f # st)" by auto
  ultimately have "set (f # new) \<union> set u' \<subseteq> set u \<union> (arrows g)\<^sup>* `` set (f # st)" by simp
  then show ?thesis using t assms(2,3) unfolding turns_def by (cases force) auto
qed

lemma ready_skip: "f \<in> R \<Longrightarrow> ready_in g R (f # st) \<Longrightarrow> ready_in g R st"
  unfolding ready_in_def by auto

lemma ready_defer: "\<not> set (upstream g f) \<subseteq> R \<Longrightarrow> ready_in g R (f # st) \<Longrightarrow> ready_in g R st"
  unfolding ready_in_def by auto

lemma ready_take:
  assumes ok: "graph_ok g" and f: "f < length (gr_filters g)" and r: "ready_in g R (f # st)"
  shows "ready_in g (insert f R) (downstream g f @ st)"
  unfolding ready_in_def
proof (intro allI impI)
  fix x assume x: "x < length (gr_filters g)" "x \<notin> insert f R" "upstream g x \<noteq> []" "set (upstream g x) \<subseteq> insert f R"
  show "x \<in> set (downstream g f @ st)"
  proof (cases "f \<in> set (upstream g x)")
    case True
    then show ?thesis using in_upstream [OF ok x(1)] by simp
  next
    case False
    then have "set (upstream g x) \<subseteq> R" using x(4) by blast
    then show ?thesis using r x(1-3) unfolding ready_in_def by auto
  qed
qed

lemma ran_skip: "f \<in> R \<Longrightarrow> all_ready_ran g R st new \<Longrightarrow> all_ready_ran g R (f # st) new"
  unfolding all_ready_ran_def by auto

lemma ran_defer: "upstream g f \<noteq> [] \<Longrightarrow> all_ready_ran g R st new \<Longrightarrow> all_ready_ran g R (f # st) new"
  unfolding all_ready_ran_def by auto

lemma ran_take: "all_ready_ran g (insert f R) (downstream g f @ st) new \<Longrightarrow> all_ready_ran g R (f # st) (f # new)"
  unfolding all_ready_ran_def by auto

definition turn_frame :: "'d MSTicker \<Rightarrow> 'd MSTicker \<Rightarrow> bool" where
  "turn_frame s s' \<longleftrightarrow> same_links (tk_graph s) (tk_graph s') \<and> tk_ticks s' = tk_ticks s \<and> tk_execution_list s' = tk_execution_list s
    \<and> tk_interval s' = tk_interval s \<and> tk_time s' = tk_time s
    \<and> (\<forall>x < n_filters s. ft_ticker (ft (tk_graph s') x) = ft_ticker (ft (tk_graph s) x) \<and> ft_seen (ft (tk_graph s') x) = ft_seen (ft (tk_graph s) x))"

lemma turn_frame_refl [simp]: "turn_frame s s"
  by (simp add: turn_frame_def)

lemma turn_frame_trans: "turn_frame s t \<Longrightarrow> turn_frame t u \<Longrightarrow> turn_frame s u"
  unfolding turn_frame_def by (auto intro: same_links_trans simp: same_links_def)

lemma frame_turn: "frame s s' \<Longrightarrow> turn_frame s s'"
  by (simp add: frame_def turn_frame_def)

lemma turn_frame_take: "f < n_filters s \<Longrightarrow> turn_frame s (take_turn f s)"
  by (auto simp: turn_frame_def take_turn_def on_graph_def same_links_def ft_upd_ft)

lemma can_process_ran:
  assumes "graph_ok (tk_graph s)" and "f < n_filters s"
  shows "filter_can_process (tk_graph s) f (tk_ticks s) \<longleftrightarrow> set (upstream (tk_graph s) f) \<subseteq> had_turn s"
  using in_upstream [OF assms] by (auto simp: filter_can_process_def list_all_iff had_turn_def)

definition run_done :: "'d MSTicker \<Rightarrow> bool \<Rightarrow> nat list \<Rightarrow> nat list \<Rightarrow> nat list \<Rightarrow> 'd MSTicker \<Rightarrow> nat list \<Rightarrow> bool" where
  "run_done s force st u u' s' new \<longleftrightarrow> turn_frame s s' \<and> had_turn s' = had_turn s \<union> set new \<and> tk_order s' = tk_order s @ new
     \<and> turns (tk_graph s) (had_turn s) force st u u' new
     \<and> (\<not> force \<longrightarrow> ready_in (tk_graph s) (had_turn s) st \<longrightarrow> all_ready_ran (tk_graph s) (had_turn s) st new)"

lemma same_links_all:
  assumes "same_links g h" and "graph_ok g"
  shows "f < length (gr_filters g) \<Longrightarrow> upstream h f = upstream g f" and "f < length (gr_filters g) \<Longrightarrow> downstream h f = downstream g f"
    and "length (gr_filters h) = length (gr_filters g)" and "graph_ok h" and "arrows h = arrows g"
proof -
  show "f < length (gr_filters g) \<Longrightarrow> upstream h f = upstream g f" "f < length (gr_filters g) \<Longrightarrow> downstream h f = downstream g f"
    using same_links_streams [OF assms(1)] by simp_all
  show l: "length (gr_filters h) = length (gr_filters g)" using assms(1) by (simp add: same_links_def)
  show "graph_ok h" using same_links_ok [OF assms] .
  show "arrows h = arrows g" using same_links_streams [OF assms(1)] by (auto simp: arrows_def l)
qed

lemma in_order_cong: "same_links g h \<Longrightarrow> set new \<subseteq> {..< length (gr_filters g)} \<Longrightarrow> in_order h S new = in_order g S new"
  by (induction new arbitrary: S) (auto simp: same_links_streams)

lemma run_done_skip:
  assumes "f \<in> had_turn s" and "run_done s force st u u' s' new"
  shows "run_done s force (f # st) u u' s' new"
  using assms(2) turns_skip [OF assms(1), of "tk_graph s" force st u u' new] ready_skip [OF assms(1), of "tk_graph s" st] ran_skip [OF assms(1), of "tk_graph s" st new]
  unfolding run_done_def by satx

lemma run_done_defer:
  assumes "\<not> set (upstream (tk_graph s) f) \<subseteq> had_turn s" and "run_done s False st (f # u) u' s' new"
  shows "run_done s False (f # st) u u' s' new"
proof -
  have "upstream (tk_graph s) f \<noteq> []" using assms(1) by auto
  then show ?thesis
    using assms(2) turns_defer [of "tk_graph s" "had_turn s" st f u u' new] ready_defer [OF assms(1), of st] ran_defer [of "tk_graph s" f "had_turn s" st new]
    unfolding run_done_def by satx
qed

lemma run_graph_ok:
  assumes "graph_ok (tk_graph s)" and "consumes code (tk_graph s)" and "set st \<subseteq> {..< n_filters s}" and "set u \<subseteq> {..< n_filters s}"
  shows "\<exists>u' s' new. run_graph code force st u s = Some (u', s') \<and> run_done s force st u u' s' new \<and> set u' \<union> set new \<subseteq> {..< n_filters s}"
  using assms
proof (induction "card ({..< n_filters s} - had_turn s)" arbitrary: st u s rule: less_induct)
  case less
  note outer = less.hyps and ok = less.prems(1) and cons = less.prems(2)
  show ?case using less.prems(3,4)
  proof (induction st arbitrary: u)
    case Nil
    show ?case using Nil by - (rule exI [of _ u], rule exI [of _ s], rule exI [of _ "[]"],
      auto simp add: run_graph.simps [of code force "[]" u s] run_done_def turns_nil all_ready_ran_def ready_in_def)
  next
    case (Cons f st)
    let ?g = "tk_graph s"
    have f: "f < n_filters s" and st: "set st \<subseteq> {..< n_filters s}" using Cons.prems by simp_all
    note step = run_graph.simps [of code force "f # st" u s, unfolded list.case]
    have is_ran: "ft_last_tick (ft ?g f) = tk_ticks s \<longleftrightarrow> f \<in> had_turn s" using f by (simp add: had_turn_def)
    consider "f \<in> had_turn s" | "f \<notin> had_turn s" "force \<or> set (upstream ?g f) \<subseteq> had_turn s" | "f \<notin> had_turn s" "\<not> force" "\<not> set (upstream ?g f) \<subseteq> had_turn s" by blast
    then show ?case
    proof cases
      case 1
      then have "run_graph code force (f # st) u s = run_graph code force st u s" using step is_ran by simp
      moreover have "run_done s force (f # st) u u' s' new" if "run_done s force st u u' s' new" for u' s' new
        by (rule run_done_skip [OF 1 that])
      moreover obtain u' s' new where "run_graph code force st u s = Some (u', s')" "run_done s force st u u' s' new" "set u' \<union> set new \<subseteq> {..< n_filters s}"
        using Cons.IH [OF st Cons.prems(2)] by blast
      ultimately show ?thesis by (intro exI [of _ u'] exI [of _ s'] exI [of _ new]) simp
    next
      case 3
      have "run_graph code force (f # st) u s = run_graph code force st (f # u) s"
        using step is_ran 3 can_process_ran [OF ok f] by simp
      moreover have "run_done s force (f # st) u u' s' new" if "run_done s force st (f # u) u' s' new" for u' s' new
        using run_done_defer [OF 3(3)] that 3(2) by simp
      moreover have "set (f # u) \<subseteq> {..< n_filters s}" using f Cons.prems(2) by simp
      then obtain u' s' new where "run_graph code force st (f # u) s = Some (u', s')" "run_done s force st (f # u) u' s' new" "set u' \<union> set new \<subseteq> {..< n_filters s}"
        using Cons.IH [OF st] by blast
      ultimately show ?thesis by (intro exI [of _ u'] exI [of _ s'] exI [of _ new]) simp
    next
      case 2
      note tt = take_turn_facts [OF f]
      let ?t = "take_turn f s"
      have cons': "consumes code (tk_graph ?t)" and f': "f < n_filters ?t" using consumes_frame tt(1,5) cons f by simp_all
      obtain s1 where s1: "call_process code f ?t = Some s1" "frame ?t s1" using call_process_ok [OF cons' f'] by blast
      have fr: "turn_frame s s1" using turn_frame_take [OF f] frame_turn [OF s1(2)] turn_frame_trans by blast
      then have sl: "same_links ?g (tk_graph s1)" by (simp add: turn_frame_def)
      note sa = same_links_all [OF sl ok]
      have r1: "had_turn s1 = insert f (had_turn s)" using ran_frame [OF s1(2)] tt(2) by simp
      have call: "run_graph code force (f # st) u s = run_graph code force (downstream ?g f @ st) u s1"
        using step is_ran 2 can_process_ran [OF ok f] s1(1) sa(2) [OF f] by auto
      have "had_turn s \<subseteq> {..< n_filters s}" by (auto simp: had_turn_def)
      then have "{..< n_filters s1} - had_turn s1 \<subset> {..< n_filters s} - had_turn s" using r1 sa(3) f 2(1) by auto
      then have lt: "card ({..< n_filters s1} - had_turn s1) < card ({..< n_filters s} - had_turn s)" by (intro psubset_card_mono) simp_all
      have st1: "set (downstream ?g f @ st) \<subseteq> {..< n_filters s1}" "set u \<subseteq> {..< n_filters s1}"
        using in_downstream [OF ok f] st sa(3) Cons.prems(2) by auto
      obtain u' s' new where d: "run_graph code force (downstream ?g f @ st) u s1 = Some (u', s')"
        "run_done s1 force (downstream ?g f @ st) u u' s' new" "set u' \<union> set new \<subseteq> {..< n_filters s}"
        using outer [OF lt sa(4) consumes_frame [OF sl cons] st1] sa(3) by metis
      have nv: "set new \<subseteq> {..< n_filters s}" using d(3) by blast
      have eq: "turns (tk_graph s1) R force xs u u' new = turns ?g R force xs u u' new" for R xs
        using nv sa(2) in_order_cong [OF sl nv] unfolding turns_def sa(5) by (auto simp: subset_iff)
      have eq2: "ready_in (tk_graph s1) = ready_in ?g" "all_ready_ran (tk_graph s1) = all_ready_ran ?g"
        using sa(1) by (auto simp: fun_eq_iff ready_in_def all_ready_ran_def sa(3))
      have "turns ?g (had_turn s) force (f # st) u u' (f # new)"
        using d(2) turns_take [OF f 2] eq unfolding run_done_def r1 by blast
      moreover have "all_ready_ran ?g (had_turn s) (f # st) (f # new)" if "\<not> force" "ready_in ?g (had_turn s) (f # st)"
        using d(2) ready_take [OF ok f that(2)] ran_take that(1) unfolding run_done_def r1 eq2 by blast
      moreover have "turn_frame s s'" using d(2) fr turn_frame_trans unfolding run_done_def by blast
      moreover have "had_turn s' = had_turn s \<union> set (f # new)" using d(2) r1 unfolding run_done_def by auto
      moreover have "tk_order s' = tk_order s @ (f # new)" using d(2) tt(3) s1(2) unfolding run_done_def frame_def by simp
      ultimately have "run_done s force (f # st) u u' s' (f # new)" unfolding run_done_def by blast
      then show ?thesis using call d(1,3) f by (intro exI [of _ u'] exI [of _ s'] exI [of _ "f # new"]) simp
    qed
  qed
qed

section \<open>Whole ticks\<close>

definition reached :: "Graph \<Rightarrow> nat list \<Rightarrow> nat set" where
  "reached g st = (arrows g)\<^sup>* `` set st"

lemma reached_least:
  assumes "set st \<subseteq> T" and "\<And>x. x \<in> T \<Longrightarrow> set (downstream g x) \<subseteq> T"
  shows "reached g st \<subseteq> T"
proof
  fix y assume "y \<in> reached g st"
  then obtain x where x: "x \<in> set st" "(x, y) \<in> (arrows g)\<^sup>*" by (auto simp: reached_def)
  from x(2) show "y \<in> T"
  proof (induction rule: rtrancl_induct)
    case base
    then show ?case using x(1) assms(1) by blast
  next
    case (step y z)
    then show ?case using assms(2) by (auto simp: arrows_def)
  qed
qed

lemma reached_reached: "set u \<subseteq> reached g st \<Longrightarrow> reached g u \<subseteq> reached g st"
  unfolding reached_def by (auto intro: rtrancl_trans)

text \<open>Data comes to the filters of \<open>X\<close> from filters of \<open>X\<close>, and in the end from sources.\<close>

definition fed_by :: "Graph \<Rightarrow> nat list \<Rightarrow> nat set \<Rightarrow> bool" where
  "fed_by g srcs X \<longleftrightarrow> acyclic (arrows g) \<and> (\<forall>x \<in> X. x < length (gr_filters g) \<and> set (upstream g x) \<subseteq> X \<and> (upstream g x = [] \<longrightarrow> x \<in> set srcs))"

lemma arrows_wf:
  assumes "graph_ok g" and "acyclic (arrows g)"
  shows "wf (arrows g)"
proof -
  have "arrows g \<subseteq> {..< length (gr_filters g)} \<times> {..< length (gr_filters g)}" using in_downstream [OF assms(1)] by (auto simp: arrows_def)
  then have "finite (arrows g)" by (rule finite_subset) simp
  then show ?thesis using assms(2) by (rule finite_acyclic_wf)
qed

lemma fed_all_run:
  assumes ok: "graph_ok g" and fed: "fed_by g st X" and r: "all_ready_ran g {} st new"
  shows "X \<subseteq> set new"
proof
  fix x assume x: "x \<in> X"
  have "wf (arrows g)" using arrows_wf [OF ok] fed by (simp add: fed_by_def)
  then show "x \<in> set new" using x
  proof (induction x rule: wf_induct_rule)
    case (less x)
    have x: "x < length (gr_filters g)" "set (upstream g x) \<subseteq> X" "upstream g x \<noteq> [] \<or> x \<in> set st" using fed less.prems by (auto simp: fed_by_def)
    have "u \<in> set new" if "u \<in> set (upstream g x)" for u
      using less.IH [of u] in_upstream [OF ok x(1) that] x(2) that by (auto simp: arrows_def)
    then show ?case using r x unfolding all_ready_ran_def by blast
  qed
qed

lemma run_graphs_ok:
  assumes ok: "graph_ok (tk_graph s)" and cons: "consumes code (tk_graph s)" and st: "set st \<subseteq> {..< n_filters s}" and fresh: "had_turn s = {}"
  shows "\<exists>s' l. run_graphs code st False s = Some s' \<and> turn_frame s s' \<and> tk_order s' = tk_order s @ l \<and> distinct l \<and> set l = reached (tk_graph s) st
    \<and> had_turn s' = set l \<and> (fed_by (tk_graph s) st (set l) \<longrightarrow> in_order (tk_graph s) {} l)"
proof -
  let ?g = "tk_graph s"
  obtain u s1 new where r: "run_graph code False st [] s = Some (u, s1)" "run_done s False st [] u s1 new" "set u \<union> set new \<subseteq> {..< n_filters s}"
    using run_graph_ok [OF ok cons st, of "[]" False] by auto
  note d = r(2) [unfolded run_done_def fresh turns_def]
  have f1: "turn_frame s s1" and h1: "had_turn s1 = set new" and o1: "tk_order s1 = tk_order s @ new" and dn: "distinct new" and io: "in_order ?g {} new"
    and rch: "set new \<union> set u \<subseteq> reached ?g st" and clo: "set st \<subseteq> set new \<union> set u" "\<And>x. x \<in> set new \<Longrightarrow> set (downstream ?g x) \<subseteq> set new \<union> set u"
    using d by (auto simp: reached_def)
  have "ready_in ?g {} st" by (simp add: ready_in_def)
  then have ready: "all_ready_ran ?g {} st new" using d by simp
  show ?thesis
  proof (cases "u = []")
    case True
    have "set new = reached ?g st" using rch clo reached_least [of st "set new" ?g] True by auto
    moreover have "run_graphs code st False s = Some s1" using r(1) True by (simp add: run_graphs.simps [of code st False s])
    ultimately show ?thesis using f1 h1 o1 dn io by auto
  next
    case False
    have sl: "same_links ?g (tk_graph s1)" using f1 by (simp add: turn_frame_def)
    note sa = same_links_all [OF sl ok]
    have u: "set u \<subseteq> {..< n_filters s1}" using r(3) sa(3) by simp
    obtain u2 s2 new2 where r2: "run_graph code True u [] s1 = Some (u2, s2)" "run_done s1 True u [] u2 s2 new2" "set u2 \<union> set new2 \<subseteq> {..< n_filters s1}"
      using run_graph_ok [OF sa(4) consumes_frame [OF sl cons] u, of "[]" True] by auto
    note d2 = r2(2) [unfolded run_done_def h1 turns_def sa(5)]
    have f2: "turn_frame s1 s2" and h2: "had_turn s2 = set new \<union> set new2" and o2: "tk_order s2 = tk_order s1 @ new2" and dn2: "distinct new2" "set new2 \<inter> set new = {}"
      and u2: "u2 = []" and rch2: "set new2 \<subseteq> reached ?g u" and clo2: "set u \<subseteq> set new \<union> set new2" "\<And>x. x \<in> set new2 \<Longrightarrow> set (downstream ?g x) \<subseteq> set new \<union> set new2"
      using d2 r2(3) sa(2,3) by (auto simp: reached_def subset_iff)
    have "set (new @ new2) = reached ?g st"
    proof (rule equalityI)
      show "set (new @ new2) \<subseteq> reached ?g st" using rch rch2 reached_reached [of u ?g st] by auto
      have "set (downstream ?g x) \<subseteq> set (new @ new2)" if "x \<in> set (new @ new2)" for x
        using that clo(2) [of x] clo2(1) clo2(2) [of x] by auto
      then show "reached ?g st \<subseteq> set (new @ new2)" using clo(1) clo2(1) by (intro reached_least) auto
    qed
    moreover have "run_graphs code st False s = Some s2"
      using r(1) r2(1) False u2 by (simp add: run_graphs.simps [of code st False s] run_graphs.simps [of code u True s1])
    moreover have "in_order ?g {} (new @ new2)" if "fed_by ?g st (set (new @ new2))"
    proof -
      have "new2 = []" using fed_all_run [OF ok that ready] dn2(2) by (cases new2) auto
      then show ?thesis using io by simp
    qed
    ultimately show ?thesis using turn_frame_trans [OF f1 f2] h2 o1 o2 dn dn2 by (intro exI [of _ s2] exI [of _ "new @ new2"]) auto
  qed
qed

lemma frame_task:
  assumes "fst t < n_filters s"
  shows "frame s (ms_filter_task_process code s t)"
proof -
  obtain f k where t: "t = (f, k)" by (cases t)
  obtain m ts where c: "c_task code k f (tk_media s) = (m, ts)" by fastforce
  let ?s = "foldl (ms_filter_postpone_task f) (s\<lparr>tk_media := m\<rparr>) ts"
  have 1: "frame (s\<lparr>tk_media := m\<rparr>) ?s" using assms t by (intro frame_postpones) simp
  have 2: "frame s (s\<lparr>tk_media := m\<rparr>)" by simp
  have 3: "frame ?s (ms_filter_task_process code s t)"
    unfolding ms_filter_task_process_def t c split Let_def using assms t frame_n [OF 1] by (intro frame_upd) simp_all
  show ?thesis using frame_trans [OF frame_trans [OF 2 1] 3] .
qed

lemma frame_tasks: "\<forall>t \<in> set ts. fst t < n_filters s \<Longrightarrow> frame s (foldl (ms_filter_task_process code) s ts)"
proof (induction ts arbitrary: s)
  case (Cons t ts)
  have "frame s (ms_filter_task_process code s t)" using Cons.prems by (intro frame_task) simp
  then show ?case using Cons.IH [of "ms_filter_task_process code s t"] Cons.prems frame_n by (metis foldl_Cons frame_trans list.set_intros(2))
qed simp

lemma frame_run_tasks: "\<forall>t \<in> set (tk_task_list s). fst t < n_filters s \<Longrightarrow> frame s (run_tasks code s)"
  by (simp add: run_tasks_def frame_tasks)

definition tick_ready :: "'d Code \<Rightarrow> 'd MSTicker \<Rightarrow> bool" where
  "tick_ready code s \<longleftrightarrow> graph_ok (tk_graph s) \<and> consumes code (tk_graph s) \<and> set (tk_execution_list s) \<subseteq> {..< n_filters s}
    \<and> (\<forall>t \<in> set (tk_task_list s). fst t < n_filters s) \<and> (\<forall>x < n_filters s. ft_last_tick (ft (tk_graph s) x) \<noteq> tk_ticks s + 1)"

lemma tick_ok:
  assumes "tick_ready code s"
  shows "\<exists>s' l. ms_ticker_tick code s = Some s' \<and> tk_order s' = tk_order s @ l \<and> distinct l \<and> set l = reached (tk_graph s) (tk_execution_list s)
    \<and> same_links (tk_graph s) (tk_graph s') \<and> tk_ticks s' = tk_ticks s + 1 \<and> tk_time s' = tk_time s + word_of_int (tk_interval s)
    \<and> tk_execution_list s' = tk_execution_list s
    \<and> (\<forall>x < n_filters s. ft_ticker (ft (tk_graph s') x) = ft_ticker (ft (tk_graph s) x) \<and> ft_seen (ft (tk_graph s') x) = ft_seen (ft (tk_graph s) x))
    \<and> (fed_by (tk_graph s) (tk_execution_list s) (set l) \<longrightarrow> (\<forall>i < length l. set (upstream (tk_graph s) (l ! i)) \<subseteq> set (take i l)))"
proof -
  note a = assms [unfolded tick_ready_def]
  let ?s = "s\<lparr>tk_ticks := tk_ticks s + 1\<rparr>"
  let ?s1 = "run_tasks code ?s"
  have fr: "frame ?s ?s1" using a by (intro frame_run_tasks) simp
  have sl: "same_links (tk_graph s) (tk_graph ?s1)" using fr by (simp add: frame_def)
  note sa = same_links_all [OF sl conjunct1 [OF a]]
  have e: "tk_execution_list ?s1 = tk_execution_list s" "tk_ticks ?s1 = tk_ticks s + 1" "tk_time ?s1 = tk_time s" "tk_interval ?s1 = tk_interval s"
    "tk_order ?s1 = tk_order s" using fr by (simp_all add: frame_def)
  have "had_turn ?s = {}" using a by (auto simp: had_turn_def)
  then have fresh: "had_turn ?s1 = {}" using ran_frame [OF fr] by simp
  have st: "set (tk_execution_list s) \<subseteq> {..< n_filters ?s1}" using a sa(3) by simp
  obtain s' l where r: "run_graphs code (tk_execution_list s) False ?s1 = Some s'" "turn_frame ?s1 s'" "tk_order s' = tk_order ?s1 @ l" "distinct l"
    "set l = reached (tk_graph ?s1) (tk_execution_list s)" "had_turn s' = set l" "fed_by (tk_graph ?s1) (tk_execution_list s) (set l) \<longrightarrow> in_order (tk_graph ?s1) {} l"
    using run_graphs_ok [OF sa(4) consumes_frame [OF sl] st fresh] a by blast
  have reach: "reached (tk_graph ?s1) = reached (tk_graph s)" by (simp add: reached_def fun_eq_iff sa(5))
  have lv: "set l \<subseteq> {..< n_filters s}"
  proof -
    have "had_turn s' \<subseteq> {..< n_filters s'}" by (auto simp: had_turn_def)
    then show ?thesis using r(2,6) sa(3) by (auto simp: turn_frame_def same_links_def)
  qed
  have fed: "fed_by (tk_graph ?s1) srcs (set l) = fed_by (tk_graph s) srcs (set l)" for srcs
    using lv sa(1,3) unfolding fed_by_def sa(5) by (auto simp: subset_iff)
  have ord: "set (upstream (tk_graph s) (l ! i)) \<subseteq> set (take i l)" if "in_order (tk_graph ?s1) {} l" "i < length l" for i
    using in_order_nth [of "tk_graph s" "{}" l i] in_order_cong [OF sl lv] that by simp
  let ?s2 = "s'\<lparr>tk_time := tk_time s' + word_of_int (tk_interval s')\<rparr>"
  have "ms_ticker_tick code s = Some ?s2" using r(1) by (simp add: ms_ticker_tick_def Let_def e)
  moreover have "same_links (tk_graph s) (tk_graph s')" using sl r(2) same_links_trans unfolding turn_frame_def by blast
  moreover have "\<forall>x < n_filters s. ft_ticker (ft (tk_graph s') x) = ft_ticker (ft (tk_graph s) x) \<and> ft_seen (ft (tk_graph s') x) = ft_seen (ft (tk_graph s) x)"
    using fr r(2) sa(3) by (simp add: frame_def turn_frame_def)
  ultimately show ?thesis using r e reach fed ord
    by (intro exI [of _ ?s2] exI [of _ l]) (simp add: turn_frame_def)
qed

text \<open>C32: in one tick every filter that can be reached from the sources gets exactly one turn, whatever the graph looks like, loops
  included; where the graph has no loop and all data comes from those sources, each filter gets its turn after all the
  filters that feed it. The tick ends when the filters take what is in their input queues.\<close>

theorem tick_gives_every_filter_its_turn:
  assumes "tick_ready code s"
  shows "\<exists>s' l. ms_ticker_tick code s = Some s' \<and> tk_order s' = tk_order s @ l \<and> distinct l \<and> set l = reached (tk_graph s) (tk_execution_list s)
    \<and> same_links (tk_graph s) (tk_graph s') \<and> tk_ticks s' = tk_ticks s + 1 \<and> tk_time s' = tk_time s + word_of_int (tk_interval s)
    \<and> (fed_by (tk_graph s) (tk_execution_list s) (set l) \<longrightarrow> (\<forall>i < length l. set (upstream (tk_graph s) (l ! i)) \<subseteq> set (take i l)))"
  using tick_ok [OF assms] by blast

section \<open>The life of a graph\<close>

lemma preprocess_graph:
  "tk_graph (foldl (ms_filter_preprocess code) s l) = foldl (\<lambda>h f. upd_ft f (\<lambda>x. x\<lparr>ft_last_tick := 0, ft_ticker := True\<rparr>) h) (tk_graph s) l
    \<and> tk_execution_list (foldl (ms_filter_preprocess code) s l) = tk_execution_list s \<and> tk_task_list (foldl (ms_filter_preprocess code) s l) = tk_task_list s
    \<and> tk_ticks (foldl (ms_filter_preprocess code) s l) = tk_ticks s \<and> tk_order (foldl (ms_filter_preprocess code) s l) = tk_order s"
  by (induction l arbitrary: s) (simp_all add: ms_filter_preprocess_def on_graph_def)

lemma postprocess_graph:
  "tk_graph (foldl (call_postprocess code) s l) = foldl (\<lambda>h f. upd_ft f (\<lambda>x. x\<lparr>ft_ticker := False\<rparr>) h) (tk_graph s) l
    \<and> tk_execution_list (foldl (call_postprocess code) s l) = tk_execution_list s \<and> tk_order (foldl (call_postprocess code) s l) = tk_order s"
  by (induction l arbitrary: s) (simp_all add: call_postprocess_def ms_filter_postprocess_def remove_tasks_for_filter_def on_graph_def)

lemma foldl_remove1: "distinct l \<Longrightarrow> foldl (\<lambda>l x. remove1 x l) l xs = filter (\<lambda>x. x \<notin> set xs) l"
proof (induction xs arbitrary: l)
  case (Cons x xs)
  then have "foldl (\<lambda>l x. remove1 x l) (remove1 x l) xs = filter (\<lambda>x. x \<notin> set xs) (remove1 x l)" by simp
  also have "\<dots> = filter (\<lambda>y. y \<notin> set (x # xs)) l" using Cons.prems by (auto simp: distinct_remove1_removeAll removeAll_filter_not_eq intro!: filter_cong)
  finally show ?case by simp
qed simp

lemma get_sources_set: "set (get_sources g l) = {x \<in> set l. fd_ninputs (ft_desc (ft g x)) = 0}" "distinct l \<Longrightarrow> distinct (get_sources g l)"
  by (auto simp: get_sources_def)

definition sources_of :: "Graph \<Rightarrow> nat \<Rightarrow> nat set" where
  "sources_of g f = {x \<in> component g f. fd_ninputs (ft_desc (ft g x)) = 0}"

lemma same_links_component:
  assumes "same_links g h" and "graph_ok g" and "f < length (gr_filters g)"
  shows "component h f = component g f" and "sources_of h f = sources_of g f" and "x \<in> component g f \<Longrightarrow> good_outputs h x = good_outputs g x"
proof -
  note sa = same_links_all [OF assms(1,2)]
  have "arcs h = arcs g" using sa by (auto simp: arcs_def)
  then show c: "component h f = component g f" by (simp add: component_def)
  have d: "x \<in> component g f \<Longrightarrow> ft_desc (ft h x) = ft_desc (ft g x) \<and> downstream h x = downstream g x" for x
    using component_valid [OF assms(2,3)] assms(1) sa(2) by (simp add: same_links_def)
  show "sources_of h f = sources_of g f" using d by (auto simp: sources_of_def c)
  show "x \<in> component g f \<Longrightarrow> good_outputs h x = good_outputs g x" using d by (simp add: good_outputs_def)
qed

lemma foldl_same_links:
  assumes "\<And>x. ft_desc (u x) = ft_desc x \<and> ft_inputs (u x) = ft_inputs x \<and> ft_outputs (u x) = ft_outputs x"
    and "\<forall>f \<in> set l. f < length (gr_filters g)" and "distinct l"
  shows "same_links g (foldl (\<lambda>h f. upd_ft f u h) g l)"
  using ft_foldl_upd [OF assms(2,3), of u] assms(1) by (simp add: same_links_def)

lemma attach_ok:
  assumes ok: "graph_ok (tk_graph s)" and f: "f < n_filters s" and "\<not> ft_ticker (ft (tk_graph s) f)"
    and unseen: "\<forall>x < n_filters s. \<not> ft_seen (ft (tk_graph s) x)"
    and good: "\<forall>x \<in> component (tk_graph s) f. good_outputs (tk_graph s) x" and src: "sources_of (tk_graph s) f \<noteq> {}"
  shows "\<exists>s' srcs. ms_ticker_attach code f s = Some s' \<and> same_links (tk_graph s) (tk_graph s') \<and> tk_execution_list s' = tk_execution_list s @ srcs
    \<and> distinct srcs \<and> set srcs = sources_of (tk_graph s) f \<and> tk_task_list s' = tk_task_list s \<and> tk_ticks s' = tk_ticks s \<and> tk_order s' = tk_order s
    \<and> (\<forall>x. ft (tk_graph s') x = (if x \<in> component (tk_graph s) f then (ft (tk_graph s) x)\<lparr>ft_last_tick := 0, ft_ticker := True\<rparr> else ft (tk_graph s) x))"
proof -
  let ?g = "tk_graph s"
  obtain l where l: "ms_filter_find_neighbours f ?g = Some (l, ?g)" "distinct l" "set l = component ?g f"
    using find_neighbours_ok [OF ok f unseen good] by blast
  have lv: "\<forall>x \<in> set l. x < length (gr_filters ?g)" using component_valid [OF ok f] l(3) by blast
  let ?srcs = "get_sources ?g l"
  have ss: "set ?srcs = sources_of ?g f" by (simp add: get_sources_set l(3) sources_of_def)
  then have ne: "?srcs \<noteq> []" using src by auto
  let ?s = "foldl (ms_filter_preprocess code) (s\<lparr>tk_graph := ?g\<rparr>) l"
  let ?s' = "?s\<lparr>tk_execution_list := tk_execution_list ?s @ ?srcs\<rparr>"
  note pg = preprocess_graph [of code "s\<lparr>tk_graph := ?g\<rparr>" l]
  have "ms_ticker_attach code f s = Some ?s'"
    using assms(3) l(1) ne by (simp add: ms_ticker_attach_def ms_ticker_attach_multiple_def Let_def)
  moreover have "same_links ?g (tk_graph ?s')" using pg foldl_same_links [OF _ lv l(2)] by simp
  moreover have "ft (tk_graph ?s') x = (if x \<in> component ?g f then (ft ?g x)\<lparr>ft_last_tick := 0, ft_ticker := True\<rparr> else ft ?g x)" for x
    using pg ft_foldl_upd [OF lv l(2)] l(3) by simp
  ultimately show ?thesis using pg ss get_sources_set(2) [OF l(2)] by (intro exI [of _ ?s'] exI [of _ ?srcs]) simp
qed

lemma detach_ok:
  assumes ok: "graph_ok (tk_graph s)" and f: "f < n_filters s" and "ft_ticker (ft (tk_graph s) f)"
    and unseen: "\<forall>x < n_filters s. \<not> ft_seen (ft (tk_graph s) x)"
    and good: "\<forall>x \<in> component (tk_graph s) f. good_outputs (tk_graph s) x" and src: "sources_of (tk_graph s) f \<noteq> {}"
    and "distinct (tk_execution_list s)"
  shows "\<exists>s'. ms_ticker_detach code f s = Some (0, s') \<and> same_links (tk_graph s) (tk_graph s')
    \<and> tk_execution_list s' = filter (\<lambda>x. x \<notin> sources_of (tk_graph s) f) (tk_execution_list s)
    \<and> (\<forall>x. ft (tk_graph s') x = (if x \<in> component (tk_graph s) f then (ft (tk_graph s) x)\<lparr>ft_ticker := False\<rparr> else ft (tk_graph s) x))"
proof -
  let ?g = "tk_graph s"
  obtain l where l: "ms_filter_find_neighbours f ?g = Some (l, ?g)" "distinct l" "set l = component ?g f"
    using find_neighbours_ok [OF ok f unseen good] by blast
  have lv: "\<forall>x \<in> set l. x < length (gr_filters ?g)" using component_valid [OF ok f] l(3) by blast
  let ?srcs = "get_sources ?g l"
  have ss: "set ?srcs = sources_of ?g f" by (simp add: get_sources_set l(3) sources_of_def)
  then have ne: "?srcs \<noteq> []" using src by auto
  let ?t = "s\<lparr>tk_graph := ?g, tk_execution_list := foldl (\<lambda>l x. remove1 x l) (tk_execution_list s) ?srcs\<rparr>"
  let ?s' = "foldl (call_postprocess code) ?t l"
  note pg = postprocess_graph [of code ?t l]
  have "ms_ticker_detach code f s = Some (0, ?s')" using assms(3) l(1) ne by (simp add: ms_ticker_detach_def Let_def)
  moreover have "same_links ?g (tk_graph ?s')" using pg foldl_same_links [OF _ lv l(2)] by simp
  moreover have "ft (tk_graph ?s') x = (if x \<in> component ?g f then (ft ?g x)\<lparr>ft_ticker := False\<rparr> else ft ?g x)" for x
    using pg ft_foldl_upd [OF lv l(2)] l(3) by simp
  moreover have "tk_execution_list ?s' = filter (\<lambda>x. x \<notin> sources_of ?g f) (tk_execution_list s)"
    using pg foldl_remove1 [OF assms(7)] ss by simp
  ultimately show ?thesis by blast
qed

lemma component_reached:
  assumes ok: "graph_ok g" and f: "f < length (gr_filters g)" and acyc: "acyclic (arrows g)"
    and fed: "\<forall>x \<in> component g f. upstream g x = [] \<longrightarrow> x \<in> set srcs" and srcs: "set srcs \<subseteq> component g f"
  shows "reached g srcs = component g f"
proof (rule equalityI)
  have step: "y \<in> component g f" if "x \<in> component g f" "(x, y) \<in> arcs g" for x y
    using that unfolding component_def by (auto intro: rtrancl_into_rtrancl)
  show "reached g srcs \<subseteq> component g f"
  proof (rule reached_least [OF srcs])
    fix x assume "x \<in> component g f"
    then show "set (downstream g x) \<subseteq> component g f" using step component_valid [OF ok f] by (auto simp: arcs_def)
  qed
  show "component g f \<subseteq> reached g srcs"
  proof
    fix x assume x: "x \<in> component g f"
    have "wf (arrows g)" by (rule arrows_wf [OF ok acyc])
    then show "x \<in> reached g srcs" using x
    proof (induction x rule: wf_induct_rule)
      case (less x)
      have v: "x < length (gr_filters g)" using component_valid [OF ok f less.prems] .
      show ?case
      proof (cases "upstream g x = []")
        case True
        then show ?thesis using fed less.prems by (auto simp: reached_def)
      next
        case False
        then obtain u where u: "u \<in> set (upstream g x)" by (cases "upstream g x") auto
        then have a: "(u, x) \<in> arrows g" using in_upstream [OF ok v u] by (simp add: arrows_def)
        have "u \<in> component g f" using step [OF less.prems] u v by (simp add: arcs_def)
        then have "u \<in> reached g srcs" using less.IH a by blast
        then show ?thesis using a unfolding reached_def by (auto intro: rtrancl_into_rtrancl)
      qed
    qed
  qed
qed

lemma reached_append: "reached g (a @ b) = reached g a \<union> reached g b"
  by (auto simp: reached_def)

lemma component_refl: "f \<in> component g f"
  by (simp add: component_def)

lemma component_step: "x \<in> component g f \<Longrightarrow> (x, y) \<in> arcs g \<Longrightarrow> y \<in> component g f"
  unfolding component_def by (auto intro: rtrancl_into_rtrancl)

text \<open>A graph is ready to be attached: its marks are clear, its filters that have outputs use one, it has no loops, and only sources get
  no data.\<close>

definition attachable :: "Graph \<Rightarrow> nat \<Rightarrow> bool" where
  "attachable g f \<longleftrightarrow> f < length (gr_filters g) \<and> (\<forall>x < length (gr_filters g). \<not> ft_seen (ft g x)) \<and> acyclic (arrows g)
     \<and> (\<forall>x \<in> component g f. good_outputs g x \<and> (upstream g x = [] \<longrightarrow> fd_ninputs (ft_desc (ft g x)) = 0))"

lemma attachable_sources:
  assumes ok: "graph_ok g" and a: "attachable g f" and srcs: "set srcs = sources_of g f"
  shows "reached g srcs = component g f" and "srcs \<noteq> []"
proof -
  note d = a [unfolded attachable_def]
  have "\<forall>x \<in> component g f. upstream g x = [] \<longrightarrow> x \<in> set srcs" "set srcs \<subseteq> component g f" using d srcs by (auto simp: sources_of_def)
  then show r: "reached g srcs = component g f" using d by (intro component_reached [OF ok]) auto
  show "srcs \<noteq> []" using r component_refl [of f g] by (auto simp: reached_def)
qed

text \<open>C3: the life of a graph. Attaching one filter of a loop-free graph to a ticker that already runs other graphs starts exactly the
  filters connected to it; the next tick gives every one of them, and of the other graphs, one turn, each after those that feed
  it; detaching the filter stops exactly these filters and leaves the ticker with the sources it had before.\<close>

theorem attached_graph_runs_until_detached:
  assumes ready: "tick_ready code s" and att: "attachable (tk_graph s) f" and "\<forall>x \<in> component (tk_graph s) f. \<not> ft_ticker (ft (tk_graph s) x)"
    and old: "fed_by (tk_graph s) (tk_execution_list s) (reached (tk_graph s) (tk_execution_list s))"
    and ex: "distinct (tk_execution_list s)" "set (tk_execution_list s) \<inter> component (tk_graph s) f = {}" and "tk_ticks s + 1 \<noteq> 0"
  shows "\<exists>s1 s2 s3 l. ms_ticker_attach code f s = Some s1 \<and> ms_ticker_tick code s1 = Some s2 \<and> ms_ticker_detach code f s2 = Some (0, s3)
    \<and> tk_order s2 = tk_order s @ l \<and> distinct l \<and> set l = reached (tk_graph s) (tk_execution_list s) \<union> component (tk_graph s) f
    \<and> (\<forall>i < length l. set (upstream (tk_graph s) (l ! i)) \<subseteq> set (take i l))
    \<and> tk_execution_list s3 = tk_execution_list s \<and> same_links (tk_graph s) (tk_graph s3)
    \<and> (\<forall>x < n_filters s. (ft_ticker (ft (tk_graph s2) x) \<longleftrightarrow> ft_ticker (ft (tk_graph s) x) \<or> x \<in> component (tk_graph s) f)
         \<and> ft_ticker (ft (tk_graph s3) x) = ft_ticker (ft (tk_graph s) x))"
proof -
  let ?g = "tk_graph s" and ?C = "component (tk_graph s) f" and ?E = "tk_execution_list s"
  note r = ready [unfolded tick_ready_def] and a = att [unfolded attachable_def]
  have ok: "graph_ok ?g" and f: "f < n_filters s" using r a by blast+
  obtain srcs0 where s0: "set srcs0 = sources_of ?g f"
    using component_valid [OF ok f] finite_subset [of "sources_of ?g f" "{..< n_filters s}"] finite_list by (force simp: sources_of_def)
  then have ne: "sources_of ?g f \<noteq> {}" using attachable_sources(2) [OF ok att s0] by auto
  obtain s1 srcs where s1: "ms_ticker_attach code f s = Some s1" "same_links ?g (tk_graph s1)" "tk_execution_list s1 = ?E @ srcs" "distinct srcs"
    "set srcs = sources_of ?g f" "tk_task_list s1 = tk_task_list s" "tk_ticks s1 = tk_ticks s" "tk_order s1 = tk_order s"
    "\<forall>x. ft (tk_graph s1) x = (if x \<in> ?C then (ft ?g x)\<lparr>ft_last_tick := 0, ft_ticker := True\<rparr> else ft ?g x)"
    using attach_ok [OF ok f _ _ _ ne] a assms(3) component_refl [of f ?g] by blast
  note sa = same_links_all [OF s1(2) ok] and sc = same_links_component [OF s1(2) ok f]
  have sub: "set srcs \<subseteq> ?C" using s1(5) by (auto simp: sources_of_def)
  have reach: "reached (tk_graph s1) (?E @ srcs) = reached ?g ?E \<union> ?C"
    using attachable_sources(1) [OF ok att s1(5)] by (simp add: reached_append) (simp add: reached_def sa(5))
  have valid: "x < n_filters s" if "x \<in> reached ?g ?E \<union> ?C" for x using that old component_valid [OF ok f] by (auto simp: fed_by_def)
  have "tick_ready code s1"
    using r consumes_frame [OF s1(2)] sa(3,4) s1(3,6,7,9) sub component_valid [OF ok f] assms(7) unfolding tick_ready_def by auto
  then obtain s2 l where s2: "ms_ticker_tick code s1 = Some s2" "tk_order s2 = tk_order s1 @ l" "distinct l" "set l = reached (tk_graph s1) (tk_execution_list s1)"
    "same_links (tk_graph s1) (tk_graph s2)" "tk_execution_list s2 = tk_execution_list s1"
    "\<forall>x < n_filters s1. ft_ticker (ft (tk_graph s2) x) = ft_ticker (ft (tk_graph s1) x) \<and> ft_seen (ft (tk_graph s2) x) = ft_seen (ft (tk_graph s1) x)"
    "fed_by (tk_graph s1) (tk_execution_list s1) (set l) \<longrightarrow> (\<forall>i < length l. set (upstream (tk_graph s1) (l ! i)) \<subseteq> set (take i l))"
    using tick_ok by blast
  have l: "set l = reached ?g ?E \<union> ?C" using s2(4) s1(3) reach by simp
  have up: "upstream (tk_graph s1) x = upstream ?g x" if "x \<in> set l" for x using sa(1) valid that l by blast
  have upC: "set (upstream ?g x) \<subseteq> ?C" if "x \<in> ?C" for x using component_step [OF that] component_valid [OF ok f that] by (auto simp: arcs_def)
  have "x \<in> set srcs" if "x \<in> ?C" "upstream ?g x = []" for x using that a s1(5) by (simp add: sources_of_def)
  then have "fed_by (tk_graph s1) (?E @ srcs) (set l)"
    using old a upC valid l up unfolding fed_by_def sa(3,5) by (auto simp: subset_iff)
  then have ord: "\<forall>i < length l. set (upstream ?g (l ! i)) \<subseteq> set (take i l)" using s2(8) s1(3) up by simp
  have sl2: "same_links ?g (tk_graph s2)" using s1(2) s2(5) same_links_trans by blast
  note sa2 = same_links_all [OF sl2 ok] and sc2 = same_links_component [OF sl2 ok f]
  have f2: "f < n_filters s2" using f sa2(3) by simp
  have t2: "ft_ticker (ft (tk_graph s2) x) \<longleftrightarrow> ft_ticker (ft ?g x) \<or> x \<in> ?C" "ft_seen (ft (tk_graph s2) x) = ft_seen (ft ?g x)" if "x < n_filters s" for x
    using s2(7) s1(9) sa(3) that by auto
  have d: "distinct (?E @ srcs)" using ex s1(4) sub by auto
  obtain s3 where s3: "ms_ticker_detach code f s2 = Some (0, s3)" "same_links (tk_graph s2) (tk_graph s3)"
    "tk_execution_list s3 = filter (\<lambda>x. x \<notin> sources_of ?g f) (?E @ srcs)"
    "\<forall>x. ft (tk_graph s3) x = (if x \<in> ?C then (ft (tk_graph s2) x)\<lparr>ft_ticker := False\<rparr> else ft (tk_graph s2) x)"
  proof -
    have "ft_ticker (ft (tk_graph s2) f)" using t2 f component_refl by blast
    moreover have "\<forall>x < n_filters s2. \<not> ft_seen (ft (tk_graph s2) x)" using t2(2) a sa2(3) by simp
    moreover have "\<forall>x \<in> component (tk_graph s2) f. good_outputs (tk_graph s2) x" using sc2 a by simp
    moreover have "sources_of (tk_graph s2) f \<noteq> {}" "distinct (tk_execution_list s2)" using sc2 ne s2(6) s1(3) d by simp_all
    ultimately show ?thesis using detach_ok [OF sa2(4) f2, of code] that sc2 s2(6) s1(3) by auto
  qed
  have "filter (\<lambda>x. x \<notin> sources_of ?g f) ?E = ?E" using ex(2) by (auto simp: filter_id_conv sources_of_def)
  moreover have "filter (\<lambda>x. x \<notin> sources_of ?g f) srcs = []" using s1(5) by (simp add: filter_empty_conv)
  ultimately have "tk_execution_list s3 = ?E" using s3(3) by simp
  moreover have "same_links ?g (tk_graph s3)" using sl2 s3(2) same_links_trans by blast
  moreover have "ft_ticker (ft (tk_graph s3) x) = ft_ticker (ft ?g x)" if "x < n_filters s" for x using s3(4) t2(1) [OF that] assms(3) by auto
  ultimately show ?thesis using s1(1,8) s2(1,2,3) s3(1) l ord t2(1)
    by (intro exI [of _ s1] exI [of _ s2] exI [of _ s3] exI [of _ l]) simp
qed

section \<open>An example\<close>

text \<open>The source emits a block in every tick, the filter inverts the bytes, the sink collects the blocks.\<close>

definition demo_code :: "msg list Code" where
  "demo_code = \<lparr>c_preprocess = (\<lambda>f m. m),
     c_process = (\<lambda>f (q, d). (if f = 0 then (q(0 := q 0 @ [msg_of [0x55]]), d)
        else if f = 1 then (q(0 := [], 1 := q 1 @ map (\<lambda>m. msg_of (map NOT (msg_data m))) (q 0)), d) else (q(1 := []), d @ q 1), [])),
     c_postprocess = (\<lambda>f m. m), c_task = (\<lambda>t f m. (m, []))\<rparr>"

definition demo_ticker :: "msg list MSTicker" where
  "demo_ticker = ms_ticker_init demo_graph (\<lambda>_. [], [])"

lemma demo_arrows: "arrows demo_graph = {(0, 1), (1, 2)}"
  unfolding arrows_def demo_ft(4) less3 by (auto simp: demo_streams)

lemma demo_acyclic: "acyclic (arrows demo_graph)"
  by (rule acyclic_subset [OF wf_acyclic [OF wf_less_than]]) (auto simp: demo_arrows)

lemma demo_component: "component demo_graph 0 = {0, 1, 2}"
proof -
  have a: "(0, 1) \<in> arcs demo_graph" "(1, 2) \<in> arcs demo_graph" by (simp_all add: arcs_def demo_ft demo_streams)
  have "1 \<in> component demo_graph 0" using component_step [OF component_refl a(1)] .
  then have "{0, 1, 2} \<subseteq> component demo_graph 0" using component_step [OF _ a(2)] component_refl by auto
  moreover have "component demo_graph 0 \<subseteq> {0, 1, 2}" using component_valid [OF demo_ok, of 0] by (auto simp: demo_ft less3)
  ultimately show ?thesis by blast
qed

lemma demo_attachable: "attachable demo_graph 0"
  unfolding attachable_def demo_component demo_ft(4) less3 using demo_acyclic
  by (auto simp: demo_ft demo_filter_def demo_streams good_outputs_def)

lemma demo_ready: "tick_ready demo_code demo_ticker"
  unfolding tick_ready_def demo_ticker_def ms_ticker_init_def
  by (auto simp: demo_ok consumes_def demo_ft less3 demo_filter_def demo_code_def)

theorem tick_gives_every_filter_its_turn_witness:
  "\<exists>s' l. ms_ticker_tick demo_code (demo_ticker\<lparr>tk_execution_list := [0]\<rparr>) = Some s' \<and> tk_order s' = l \<and> distinct l \<and> set l = {0, 1, 2}"
proof -
  let ?s = "demo_ticker\<lparr>tk_execution_list := [0]\<rparr>"
  have "tick_ready demo_code ?s" using demo_ready by (auto simp: tick_ready_def demo_ticker_def ms_ticker_init_def demo_ft)
  moreover have "reached demo_graph [0] = {0, 1, 2}"
  proof -
    have "(0, 1) \<in> (arrows demo_graph)\<^sup>*" "(1, 2) \<in> (arrows demo_graph)\<^sup>*" using demo_arrows by auto
    then have "{0, 1, 2} \<subseteq> reached demo_graph [0]" by (auto simp: reached_def intro: rtrancl_trans)
    moreover have "reached demo_graph [0] \<subseteq> {0, 1, 2}" by (rule reached_least) (auto simp: demo_streams)
    ultimately show ?thesis by blast
  qed
  ultimately show ?thesis using tick_gives_every_filter_its_turn [of demo_code ?s] by (auto simp: demo_ticker_def ms_ticker_init_def)
qed

theorem attached_graph_runs_until_detached_witness:
  "\<exists>s1 s2 s3. ms_ticker_attach demo_code 0 demo_ticker = Some s1 \<and> ms_ticker_tick demo_code s1 = Some s2 \<and> ms_ticker_detach demo_code 0 s2 = Some (0, s3)
    \<and> distinct (tk_order s2) \<and> set (tk_order s2) = {0, 1, 2} \<and> tk_execution_list s3 = []"
proof -
  have s: "tk_graph demo_ticker = demo_graph" "tk_execution_list demo_ticker = []" "tk_order demo_ticker = []" "tk_ticks demo_ticker = 1"
    by (simp_all add: demo_ticker_def ms_ticker_init_def)
  have "\<forall>x \<in> component (tk_graph demo_ticker) 0. \<not> ft_ticker (ft (tk_graph demo_ticker) x)" unfolding s demo_component by (auto simp: demo_ft demo_filter_def)
  moreover have "fed_by (tk_graph demo_ticker) (tk_execution_list demo_ticker) (reached (tk_graph demo_ticker) (tk_execution_list demo_ticker))"
    unfolding s using demo_acyclic by (simp add: fed_by_def reached_def)
  ultimately show ?thesis
    using attached_graph_runs_until_detached [OF demo_ready, of 0] demo_attachable unfolding s demo_component by (auto simp: reached_def)
qed

end
