(* ===== verification/Stun_Msg.thy ===== *)
theory Stun_Msg
  imports Conf_Prelude
begin

text \<open>
  STUN messages (\<open>stun.h\<close>, \<open>stun.c\<close>): the message structure, the parser \<open>stunParseMessage\<close> with one
  function per attribute, the encoder \<open>stunEncodeMessage\<close>, the CRC-32 of the FINGERPRINT attribute. A pair of a
  \<open>has\<close> flag and its value is an option: every message is cleared by \<open>memset\<close> before it is filled, so
  the value of an absent attribute is zero. The text or data of an attribute is the list of its bytes. \<open>None\<close> as the
  result of a parsing function is a read behind the bytes of the packet. The host is little endian. MD5 and
  HMAC-SHA1 belong to OpenSSL: they are parameters.
\<close>

section \<open>Data\<close>

record StunAddress4 =
  port :: u16
  addr :: u32

record StunAtrAddress4 =
  pad :: u8
  family :: u8
  ipv4 :: StunAddress4

record StunAtrError =
  err_pad :: u16
  errorClass :: u8
  number :: u8
  reason :: bytes
  sizeReason :: u16

record TurnAtrChannelNumber =
  channelNumber :: u16
  rffu :: u16

record TurnAtrRequestedTransport =
  proto :: u8
  pad1 :: u8
  pad2 :: u8
  pad3 :: u8

text \<open>\<open>StunMessage\<close>, with its \<open>msgHdr\<close> inlined.\<close>

record StunMessage =
  msgType :: u16
  msgLength :: u16
  magic_cookie :: u32
  tr_id :: bytes
  mappedAddress :: "StunAtrAddress4 option"
  responseAddress :: "StunAtrAddress4 option"
  changeRequest :: "u32 option"
  sourceAddress :: "StunAtrAddress4 option"
  changedAddress :: "StunAtrAddress4 option"
  username :: "bytes option"
  password :: "bytes option"
  messageIntegrity :: "bytes option"
  errorCode :: "StunAtrError option"
  unknownAttributes :: "u16 list option"
  reflectedFrom :: "StunAtrAddress4 option"
  realmName :: "bytes option"
  nonceName :: "bytes option"
  xorMappedAddress :: "StunAtrAddress4 option"
  softwareName :: "bytes option"
  xorPeerAddress :: "StunAtrAddress4 option"
  xorRelayedAddress :: "StunAtrAddress4 option"
  fingerprint :: "u32 option"
  channelNumberAttributes :: "TurnAtrChannelNumber option"
  lifetimeAttributes :: "u32 option"
  data :: "bytes option"
  requestedTransport :: "TurnAtrRequestedTransport option"
  dontFragment :: bool
  reservationToken :: "u64 option"
  priority :: "u32 option"
  useCandidate :: bool
  iceControlled :: "u64 option"
  iceControlling :: "u64 option"

text \<open>The values that \<open>memset(..., 0, ...)\<close> leaves.\<close>

definition zero_addr :: StunAddress4 where
  "zero_addr = \<lparr>port = 0, addr = 0\<rparr>"

definition zero_atr_addr :: StunAtrAddress4 where
  "zero_atr_addr = \<lparr>pad = 0, family = 0, ipv4 = zero_addr\<rparr>"

definition zero_error :: StunAtrError where
  "zero_error = \<lparr>err_pad = 0, errorClass = 0, number = 0, reason = [], sizeReason = 0\<rparr>"

definition zero_channel :: TurnAtrChannelNumber where
  "zero_channel = \<lparr>channelNumber = 0, rffu = 0\<rparr>"

definition zero_transport :: TurnAtrRequestedTransport where
  "zero_transport = \<lparr>proto = 0, pad1 = 0, pad2 = 0, pad3 = 0\<rparr>"

definition zero_msg :: StunMessage where
  "zero_msg = \<lparr>msgType = 0, msgLength = 0, magic_cookie = 0, tr_id = replicate 12 0,
     mappedAddress = None, responseAddress = None, changeRequest = None, sourceAddress = None, changedAddress = None,
     username = None, password = None, messageIntegrity = None, errorCode = None, unknownAttributes = None,
     reflectedFrom = None, realmName = None, nonceName = None, xorMappedAddress = None, softwareName = None,
     xorPeerAddress = None, xorRelayedAddress = None, fingerprint = None, channelNumberAttributes = None,
     lifetimeAttributes = None, data = None, requestedTransport = None, dontFragment = False,
     reservationToken = None, priority = None, useCandidate = False, iceControlled = None, iceControlling = None\<rparr>"

text \<open>The C string that starts in a buffer of zero-terminated text.\<close>

definition c_str :: "bytes \<Rightarrow> bytes" where
  "c_str s = takeWhile (\<lambda>b. b \<noteq> 0) s"

definition text_of :: "bytes option \<Rightarrow> bytes" where
  "text_of s = (case s of None \<Rightarrow> [] | Some t \<Rightarrow> t)"

definition ipv4_of :: "StunAtrAddress4 option \<Rightarrow> StunAddress4" where
  "ipv4_of a = (case a of None \<Rightarrow> zero_addr | Some x \<Rightarrow> ipv4 x)"

section \<open>Constants\<close>

abbreviation IPv4Family :: u8 where "IPv4Family \<equiv> 1"
abbreviation IPv6Family :: u8 where "IPv6Family \<equiv> 2"
abbreviation ChangeIpFlag :: u32 where "ChangeIpFlag \<equiv> 4"
abbreviation ChangePortFlag :: u32 where "ChangePortFlag \<equiv> 2"
abbreviation STUN_MAX_STRING :: nat where "STUN_MAX_STRING \<equiv> 514"
abbreviation STUN_MAX_MESSAGE_SIZE :: nat where "STUN_MAX_MESSAGE_SIZE \<equiv> 2048"

abbreviation SA_MAPPEDADDRESS :: u16 where "SA_MAPPEDADDRESS \<equiv> 0x0001"
abbreviation SA_RESPONSEADDRESS :: u16 where "SA_RESPONSEADDRESS \<equiv> 0x0002"
abbreviation SA_CHANGEREQUEST :: u16 where "SA_CHANGEREQUEST \<equiv> 0x0003"
abbreviation SA_SOURCEADDRESS :: u16 where "SA_SOURCEADDRESS \<equiv> 0x0004"
abbreviation SA_CHANGEDADDRESS :: u16 where "SA_CHANGEDADDRESS \<equiv> 0x0005"
abbreviation SA_USERNAME :: u16 where "SA_USERNAME \<equiv> 0x0006"
abbreviation SA_PASSWORD :: u16 where "SA_PASSWORD \<equiv> 0x0007"
abbreviation SA_MESSAGEINTEGRITY :: u16 where "SA_MESSAGEINTEGRITY \<equiv> 0x0008"
abbreviation SA_ERRORCODE :: u16 where "SA_ERRORCODE \<equiv> 0x0009"
abbreviation SA_UNKNOWNATTRIBUTE :: u16 where "SA_UNKNOWNATTRIBUTE \<equiv> 0x000A"
abbreviation SA_REFLECTEDFROM :: u16 where "SA_REFLECTEDFROM \<equiv> 0x000B"
abbreviation SA_REALM :: u16 where "SA_REALM \<equiv> 0x0014"
abbreviation SA_NONCE :: u16 where "SA_NONCE \<equiv> 0x0015"
abbreviation SA_XORMAPPEDADDRESS :: u16 where "SA_XORMAPPEDADDRESS \<equiv> 0x0020"
abbreviation SA_XORMAPPEDADDRESS2 :: u16 where "SA_XORMAPPEDADDRESS2 \<equiv> 0x8020"
abbreviation SA_XORONLY :: u16 where "SA_XORONLY \<equiv> 0x0021"
abbreviation SA_SECONDARYADDRESS :: u16 where "SA_SECONDARYADDRESS \<equiv> 0x0050"
abbreviation SA_SOFTWARE :: u16 where "SA_SOFTWARE \<equiv> 0x8022"
abbreviation SA_FINGERPRINT :: u16 where "SA_FINGERPRINT \<equiv> 0x8028"
abbreviation TA_CHANNELNUMBER :: u16 where "TA_CHANNELNUMBER \<equiv> 0x000C"
abbreviation TA_LIFETIME :: u16 where "TA_LIFETIME \<equiv> 0x000D"
abbreviation TA_DEPRECATEDBANDWIDTH :: u16 where "TA_DEPRECATEDBANDWIDTH \<equiv> 0x0010"
abbreviation TA_XORPEERADDRESS :: u16 where "TA_XORPEERADDRESS \<equiv> 0x0012"
abbreviation TA_DATA :: u16 where "TA_DATA \<equiv> 0x0013"
abbreviation TA_XORRELAYEDADDRESS :: u16 where "TA_XORRELAYEDADDRESS \<equiv> 0x0016"
abbreviation TA_EVENPORT :: u16 where "TA_EVENPORT \<equiv> 0x0018"
abbreviation TA_REQUESTEDTRANSPORT :: u16 where "TA_REQUESTEDTRANSPORT \<equiv> 0x0019"
abbreviation TA_DONTFRAGMENT :: u16 where "TA_DONTFRAGMENT \<equiv> 0x001A"
abbreviation TA_DEPRECATEDTIMERVAL :: u16 where "TA_DEPRECATEDTIMERVAL \<equiv> 0x0021"
abbreviation TA_RESERVATIONTOKEN :: u16 where "TA_RESERVATIONTOKEN \<equiv> 0x0022"
abbreviation ICEA_PRIORITY :: u16 where "ICEA_PRIORITY \<equiv> 0x0024"
abbreviation ICEA_USECANDIDATE :: u16 where "ICEA_USECANDIDATE \<equiv> 0x0025"
abbreviation ICEA_ICECONTROLLED :: u16 where "ICEA_ICECONTROLLED \<equiv> 0x8029"
abbreviation ICEA_ICECONTROLLING :: u16 where "ICEA_ICECONTROLLING \<equiv> 0x802a"

definition STUN_IS_REQUEST :: "u16 \<Rightarrow> bool" where "STUN_IS_REQUEST t = (t AND 0x0110 = 0x0000)"
definition STUN_IS_INDICATION :: "u16 \<Rightarrow> bool" where "STUN_IS_INDICATION t = (t AND 0x0110 = 0x0010)"
definition STUN_IS_SUCCESS_RESP :: "u16 \<Rightarrow> bool" where "STUN_IS_SUCCESS_RESP t = (t AND 0x0110 = 0x0100)"
definition STUN_IS_ERR_RESP :: "u16 \<Rightarrow> bool" where "STUN_IS_ERR_RESP t = (t AND 0x0110 = 0x0110)"

abbreviation STUN_METHOD_BINDING :: u16 where "STUN_METHOD_BINDING \<equiv> 1"
abbreviation STUN_REQUEST :: u16 where "STUN_REQUEST \<equiv> 0"
abbreviation STUN_INDICATION :: u16 where "STUN_INDICATION \<equiv> 0x0010"
abbreviation STUN_SUCCESS_RESP :: u16 where "STUN_SUCCESS_RESP \<equiv> 0x0100"
abbreviation STUN_ERR_RESP :: u16 where "STUN_ERR_RESP \<equiv> 0x0110"

section \<open>Reading the packet\<close>

text \<open>Reads with their bounds; \<open>ntohs\<close>, \<open>ntohl\<close>, \<open>ntohq\<close> of the bytes copied, and the 32 bits of the magic cookie, which
  the parser copies without \<open>ntohl\<close>.\<close>

definition get16 :: "bytes \<Rightarrow> nat \<Rightarrow> u16 option" where
  "get16 bs i = (if i + 2 \<le> length bs then Some (read16 bs i) else None)"

definition get32 :: "bytes \<Rightarrow> nat \<Rightarrow> u32 option" where
  "get32 bs i = (if i + 4 \<le> length bs then Some (read32 bs i) else None)"

definition get64 :: "bytes \<Rightarrow> nat \<Rightarrow> u64 option" where
  "get64 bs i = (if i + 8 \<le> length bs
     then Some (push_bit 32 (ucast (read32 bs i)) OR ucast (read32 bs (i + 4))) else None)"

definition get_bytes :: "bytes \<Rightarrow> nat \<Rightarrow> nat \<Rightarrow> bytes option" where
  "get_bytes bs i n = (if i + n \<le> length bs then Some (take n (drop i bs)) else None)"

definition ntohl :: "u32 \<Rightarrow> u32" where
  "ntohl w = be32 (ucast w) (ucast (drop_bit 8 w)) (ucast (drop_bit 16 w)) (ucast (drop_bit 24 w))"

section \<open>One attribute\<close>

text \<open>Each function gives the C function's result and the structure it fills, which keeps what was written before a failure.\<close>

type_synonym 'a filled = "(bool \<times> 'a) option"

definition stunParseAtrAddress :: "bytes \<Rightarrow> nat \<Rightarrow> StunAtrAddress4 \<Rightarrow> StunAtrAddress4 filled" where
  "stunParseAtrAddress body hdrLen result = (if hdrLen \<noteq> 8 then Some (False, result) else do {
     p \<leftarrow> byte_at body 0;
     f \<leftarrow> byte_at body 1;
     let r = result\<lparr>pad := p, family := f\<rparr>;
     if f = IPv4Family then do {
       nport \<leftarrow> get16 body 2;
       naddr \<leftarrow> get32 body 4;
       Some (True, r\<lparr>ipv4 := \<lparr>port = nport, addr = naddr\<rparr>\<rparr>)
     } else Some (False, r) })"

definition stunParseAtrChangeRequest :: "bytes \<Rightarrow> nat \<Rightarrow> u32 \<Rightarrow> u32 filled" where
  "stunParseAtrChangeRequest body hdrLen result = (if hdrLen \<noteq> 4 then Some (False, result)
     else do { v \<leftarrow> get32 body 0; Some (True, v) })"

definition stunParseAtrError :: "bytes \<Rightarrow> nat \<Rightarrow> StunAtrError \<Rightarrow> StunAtrError filled" where
  "stunParseAtrError body hdrLen result = (if hdrLen < 4 \<or> 128 + 4 \<le> hdrLen then Some (False, result) else do {
     p \<leftarrow> get16 body 0;
     c \<leftarrow> byte_at body 2;
     n \<leftarrow> byte_at body 3;
     r \<leftarrow> get_bytes body 4 (hdrLen - 4);
     Some (True, \<lparr>err_pad = p, errorClass = c, number = n, reason = r, sizeReason = of_nat (hdrLen - 4)\<rparr>) })"

text \<open>\<open>sizeof(StunAtrUnknown)\<close> is 18: eight attribute types and their number.\<close>

fun unknown_types :: "bytes \<Rightarrow> nat \<Rightarrow> nat \<Rightarrow> u16 list option" where
  "unknown_types body i 0 = Some []"
| "unknown_types body i (Suc n) = do { t \<leftarrow> get16 body i; ts \<leftarrow> unknown_types body (i + 2) n; Some (t # ts) }"

definition stunParseAtrUnknown :: "bytes \<Rightarrow> nat \<Rightarrow> u16 list \<Rightarrow> u16 list filled" where
  "stunParseAtrUnknown body hdrLen result = (if 18 \<le> hdrLen then Some (False, result)
     else if hdrLen mod 4 \<noteq> 0 then Some (False, result)
     else do { ts \<leftarrow> unknown_types body 0 (hdrLen div 4); Some (True, ts) })"

definition stunParseAtrString :: "bytes \<Rightarrow> nat \<Rightarrow> bytes \<Rightarrow> bytes filled" where
  "stunParseAtrString body hdrLen result = (if STUN_MAX_STRING \<le> hdrLen then Some (False, result)
     else do { s \<leftarrow> get_bytes body 0 hdrLen; Some (True, s) })"

definition stunParseAtrIntegrity :: "bytes \<Rightarrow> nat \<Rightarrow> bytes \<Rightarrow> bytes filled" where
  "stunParseAtrIntegrity body hdrLen result = (if hdrLen \<noteq> 20 then Some (False, result)
     else do { h \<leftarrow> get_bytes body 0 20; Some (True, h) })"

text \<open>\<open>sizeof(TurnAtrChannelNumber)\<close> is 4: the test lets only an empty attribute through.\<close>

definition turnParseAtrChannelNumber :: "bytes \<Rightarrow> nat \<Rightarrow> TurnAtrChannelNumber \<Rightarrow> TurnAtrChannelNumber filled" where
  "turnParseAtrChannelNumber body hdrLen result = (if 4 \<le> hdrLen then Some (False, result)
     else if hdrLen mod 4 \<noteq> 0 then Some (False, result)
     else do { c \<leftarrow> get16 body 0; r \<leftarrow> get16 body 2; Some (True, \<lparr>channelNumber = c, rffu = r\<rparr>) })"

definition turnParseAtrLifetime :: "bytes \<Rightarrow> nat \<Rightarrow> u32 \<Rightarrow> u32 filled" where
  "turnParseAtrLifetime body hdrLen result = (if hdrLen \<noteq> 4 then Some (False, result)
     else do { v \<leftarrow> get32 body 0; Some (True, v) })"

definition turnParseAtrData :: "bytes \<Rightarrow> nat \<Rightarrow> bytes \<Rightarrow> bytes filled" where
  "turnParseAtrData body hdrLen result = (if 1500 \<le> hdrLen then Some (False, result)
     else do { s \<leftarrow> get_bytes body 0 hdrLen; Some (True, s) })"

definition turnParseAtrRequestedTransport :: "bytes \<Rightarrow> nat \<Rightarrow> TurnAtrRequestedTransport \<Rightarrow> TurnAtrRequestedTransport filled" where
  "turnParseAtrRequestedTransport body hdrLen result = (if hdrLen \<noteq> 4 then Some (False, result) else do {
     a \<leftarrow> byte_at body 0; b \<leftarrow> byte_at body 1; c \<leftarrow> byte_at body 2; d \<leftarrow> byte_at body 3;
     Some (True, \<lparr>proto = a, pad1 = b, pad2 = c, pad3 = d\<rparr>) })"

definition turnParseAtrReservationToken :: "bytes \<Rightarrow> nat \<Rightarrow> u64 \<Rightarrow> u64 filled" where
  "turnParseAtrReservationToken body hdrLen result = (if hdrLen \<noteq> 8 then Some (False, result)
     else do { v \<leftarrow> get64 body 0; Some (True, v) })"

definition stunParseAtrFingerprint :: "bytes \<Rightarrow> nat \<Rightarrow> u32 \<Rightarrow> u32 filled" where
  "stunParseAtrFingerprint body hdrLen result = (if hdrLen \<noteq> 4 then Some (False, result)
     else do { v \<leftarrow> get32 body 0; Some (True, v) })"

definition iceParseAtrPriority :: "bytes \<Rightarrow> nat \<Rightarrow> u32 \<Rightarrow> u32 filled" where
  "iceParseAtrPriority body hdrLen result = (if hdrLen \<noteq> 4 then Some (False, result)
     else do { v \<leftarrow> get32 body 0; Some (True, v) })"

definition iceParseAtrIceControll :: "bytes \<Rightarrow> nat \<Rightarrow> u64 \<Rightarrow> u64 filled" where
  "iceParseAtrIceControll body hdrLen result = (if hdrLen \<noteq> 8 then Some (False, result)
     else do { v \<leftarrow> get64 body 0; Some (True, v) })"

section \<open>The parser\<close>

text \<open>\<open>fill\<close> sets a has flag and parses into the structure it stands for. The chain of \<open>else if\<close> over the attribute type is cut
  into three: the attributes of STUN, those of TURN, those of ICE with the unknown ones.\<close>

definition fill :: "('a \<Rightarrow> 'a filled) \<Rightarrow> 'a \<Rightarrow> 'a option \<Rightarrow> ('a \<Rightarrow> StunMessage) \<Rightarrow> StunMessage filled" where
  "fill parse zero cur put = (case parse (case cur of None \<Rightarrow> zero | Some a \<Rightarrow> a) of
     None \<Rightarrow> None | Some (ok, a) \<Rightarrow> Some (ok, put a))"

definition xor_address :: "StunAddress4 \<Rightarrow> StunAddress4" where
  "xor_address a = \<lparr>port = port a XOR 0x2112, addr = addr a XOR 0x2112A442\<rparr>"

definition stun_parse_xor_mapped :: "bytes \<Rightarrow> nat \<Rightarrow> StunAtrAddress4 \<Rightarrow> StunAtrAddress4 filled" where
  "stun_parse_xor_mapped body len cur = (case stunParseAtrAddress body len cur of
     Some (True, a) \<Rightarrow> Some (True, a\<lparr>ipv4 := xor_address (ipv4 a)\<rparr>) | r \<Rightarrow> r)"

definition parse_ice_attribute :: "u16 \<Rightarrow> bytes \<Rightarrow> nat \<Rightarrow> StunMessage \<Rightarrow> StunMessage filled" where
  "parse_ice_attribute t body len m =
    (if t = SA_FINGERPRINT then fill (stunParseAtrFingerprint body len) 0 (fingerprint m) (\<lambda>v. m\<lparr>fingerprint := Some v\<rparr>)
     else if t = ICEA_PRIORITY then fill (iceParseAtrPriority body len) 0 (priority m) (\<lambda>v. m\<lparr>priority := Some v\<rparr>)
     else if t = ICEA_USECANDIDATE then Some (True, m\<lparr>useCandidate := True\<rparr>)
     else if t = ICEA_ICECONTROLLED then fill (iceParseAtrIceControll body len) 0 (iceControlled m) (\<lambda>v. m\<lparr>iceControlled := Some v\<rparr>)
     else if t = ICEA_ICECONTROLLING then fill (iceParseAtrIceControll body len) 0 (iceControlling m) (\<lambda>v. m\<lparr>iceControlling := Some v\<rparr>)
     else Some (\<not> t \<le> 0x7FFF, m))"

definition parse_turn_attribute :: "u16 \<Rightarrow> bytes \<Rightarrow> nat \<Rightarrow> StunMessage \<Rightarrow> StunMessage filled" where
  "parse_turn_attribute t body len m =
    (if t = TA_CHANNELNUMBER then fill (turnParseAtrChannelNumber body len) zero_channel (channelNumberAttributes m)
       (\<lambda>v. m\<lparr>channelNumberAttributes := Some v\<rparr>)
     else if t = TA_LIFETIME then fill (turnParseAtrLifetime body len) 0 (lifetimeAttributes m) (\<lambda>v. m\<lparr>lifetimeAttributes := Some v\<rparr>)
     else if t = TA_DEPRECATEDBANDWIDTH then Some (True, m)
     else if t = TA_XORPEERADDRESS then fill (stunParseAtrAddress body len) zero_atr_addr (xorPeerAddress m)
       (\<lambda>v. m\<lparr>xorPeerAddress := Some v\<rparr>)
     else if t = TA_DATA then fill (turnParseAtrData body len) [] (data m) (\<lambda>v. m\<lparr>data := Some v\<rparr>)
     else if t = TA_XORRELAYEDADDRESS then fill (stunParseAtrAddress body len) zero_atr_addr (xorRelayedAddress m)
       (\<lambda>v. m\<lparr>xorRelayedAddress := Some v\<rparr>)
     else if t = TA_EVENPORT then Some (True, m)
     else if t = TA_REQUESTEDTRANSPORT then fill (turnParseAtrRequestedTransport body len) zero_transport (requestedTransport m)
       (\<lambda>v. m\<lparr>requestedTransport := Some v\<rparr>)
     else if t = TA_DONTFRAGMENT then Some (True, m\<lparr>dontFragment := True\<rparr>)
     else if t = TA_DEPRECATEDTIMERVAL then Some (True, m)
     else if t = TA_RESERVATIONTOKEN then fill (turnParseAtrReservationToken body len) 0 (reservationToken m)
       (\<lambda>v. m\<lparr>reservationToken := Some v\<rparr>)
     else parse_ice_attribute t body len m)"

definition parse_attribute :: "u16 \<Rightarrow> bytes \<Rightarrow> nat \<Rightarrow> StunMessage \<Rightarrow> StunMessage filled" where
  "parse_attribute t body len m =
    (if t = SA_MAPPEDADDRESS then fill (stunParseAtrAddress body len) zero_atr_addr (mappedAddress m) (\<lambda>v. m\<lparr>mappedAddress := Some v\<rparr>)
     else if t = SA_RESPONSEADDRESS then fill (stunParseAtrAddress body len) zero_atr_addr (responseAddress m)
       (\<lambda>v. m\<lparr>responseAddress := Some v\<rparr>)
     else if t = SA_CHANGEREQUEST then fill (stunParseAtrChangeRequest body len) 0 (changeRequest m) (\<lambda>v. m\<lparr>changeRequest := Some v\<rparr>)
     else if t = SA_SOURCEADDRESS then fill (stunParseAtrAddress body len) zero_atr_addr (sourceAddress m) (\<lambda>v. m\<lparr>sourceAddress := Some v\<rparr>)
     else if t = SA_CHANGEDADDRESS then fill (stunParseAtrAddress body len) zero_atr_addr (changedAddress m) (\<lambda>v. m\<lparr>changedAddress := Some v\<rparr>)
     else if t = SA_USERNAME then fill (stunParseAtrString body len) [] (username m) (\<lambda>v. m\<lparr>username := Some v\<rparr>)
     else if t = SA_PASSWORD then fill (stunParseAtrString body len) [] (password m) (\<lambda>v. m\<lparr>password := Some v\<rparr>)
     else if t = SA_MESSAGEINTEGRITY then fill (stunParseAtrIntegrity body len) (replicate 20 0) (messageIntegrity m)
       (\<lambda>v. m\<lparr>messageIntegrity := Some v\<rparr>)
     else if t = SA_ERRORCODE then fill (stunParseAtrError body len) zero_error (errorCode m) (\<lambda>v. m\<lparr>errorCode := Some v\<rparr>)
     else if t = SA_UNKNOWNATTRIBUTE then fill (stunParseAtrUnknown body len) [] (unknownAttributes m) (\<lambda>v. m\<lparr>unknownAttributes := Some v\<rparr>)
     else if t = SA_REFLECTEDFROM then fill (stunParseAtrAddress body len) zero_atr_addr (reflectedFrom m) (\<lambda>v. m\<lparr>reflectedFrom := Some v\<rparr>)
     else if t = SA_REALM then fill (stunParseAtrString body len) [] (realmName m) (\<lambda>v. m\<lparr>realmName := Some v\<rparr>)
     else if t = SA_NONCE then fill (stunParseAtrString body len) [] (nonceName m) (\<lambda>v. m\<lparr>nonceName := Some v\<rparr>)
     else if t = SA_XORMAPPEDADDRESS \<or> t = SA_XORMAPPEDADDRESS2
     then fill (stun_parse_xor_mapped body len) zero_atr_addr (xorMappedAddress m) (\<lambda>v. m\<lparr>xorMappedAddress := Some v\<rparr>)
     else if t = SA_XORONLY then Some (True, m)
     else if t = SA_SECONDARYADDRESS then Some (True, m)
     else if t = SA_SOFTWARE then fill (stunParseAtrString body len) [] (softwareName m) (\<lambda>v. m\<lparr>softwareName := Some v\<rparr>)
     else parse_turn_attribute t body len m)"

text \<open>The attribute loop: \<open>body\<close> is the rest of the packet, \<open>sz\<close> the C variable \<open>size\<close>, which wraps around when the
  padding of the last attribute is missing.\<close>

definition padded :: "nat \<Rightarrow> nat" where
  "padded n = (if 0 < n mod 4 then n + (4 - n mod 4) else n)"

function parse_loop :: "bytes \<Rightarrow> u32 \<Rightarrow> StunMessage \<Rightarrow> StunMessage filled" where
  "parse_loop body sz m = (if sz = 0 then Some (True, m) else if length body < 4 then None
     else let attrLen = unat (read16 body 2); atrType = read16 body 0 in
       if unat sz < attrLen + 4 then Some (False, m)
       else case parse_attribute atrType (drop 4 body) attrLen m of
         None \<Rightarrow> None
       | Some (False, m') \<Rightarrow> Some (False, m')
       | Some (True, m') \<Rightarrow> parse_loop (drop (4 + padded attrLen) body) (sz - 4 - of_nat (padded attrLen)) m')"
  by pat_completeness auto
termination by (relation "measure (\<lambda>(body, sz, m). length body)") auto

declare parse_loop.simps [simp del]

text \<open>The header is 20 bytes.\<close>

definition stunParseMessage :: "bytes \<Rightarrow> StunMessage filled" where
  "stunParseMessage buf = (if length buf < 20 then Some (False, zero_msg)
     else let m = zero_msg\<lparr>msgType := read16 buf 0, msgLength := read16 buf 2, magic_cookie := ntohl (read32 buf 4),
                tr_id := take 12 (drop 8 buf)\<rparr> in
       if unat (msgLength m) + 20 \<noteq> length buf then Some (False, m)
       else parse_loop (drop 20 buf) (ucast (msgLength m)) m)"

section \<open>The fingerprint\<close>

definition crc32_tab :: "u32 list" where
  "crc32_tab = [
     0x00000000, 0x77073096, 0xee0e612c, 0x990951ba, 0x076dc419, 0x706af48f,
     0xe963a535, 0x9e6495a3, 0x0edb8832, 0x79dcb8a4, 0xe0d5e91e, 0x97d2d988,
     0x09b64c2b, 0x7eb17cbd, 0xe7b82d07, 0x90bf1d91, 0x1db71064, 0x6ab020f2,
     0xf3b97148, 0x84be41de, 0x1adad47d, 0x6ddde4eb, 0xf4d4b551, 0x83d385c7,
     0x136c9856, 0x646ba8c0, 0xfd62f97a, 0x8a65c9ec, 0x14015c4f, 0x63066cd9,
     0xfa0f3d63, 0x8d080df5, 0x3b6e20c8, 0x4c69105e, 0xd56041e4, 0xa2677172,
     0x3c03e4d1, 0x4b04d447, 0xd20d85fd, 0xa50ab56b, 0x35b5a8fa, 0x42b2986c,
     0xdbbbc9d6, 0xacbcf940, 0x32d86ce3, 0x45df5c75, 0xdcd60dcf, 0xabd13d59,
     0x26d930ac, 0x51de003a, 0xc8d75180, 0xbfd06116, 0x21b4f4b5, 0x56b3c423,
     0xcfba9599, 0xb8bda50f, 0x2802b89e, 0x5f058808, 0xc60cd9b2, 0xb10be924,
     0x2f6f7c87, 0x58684c11, 0xc1611dab, 0xb6662d3d, 0x76dc4190, 0x01db7106,
     0x98d220bc, 0xefd5102a, 0x71b18589, 0x06b6b51f, 0x9fbfe4a5, 0xe8b8d433,
     0x7807c9a2, 0x0f00f934, 0x9609a88e, 0xe10e9818, 0x7f6a0dbb, 0x086d3d2d,
     0x91646c97, 0xe6635c01, 0x6b6b51f4, 0x1c6c6162, 0x856530d8, 0xf262004e,
     0x6c0695ed, 0x1b01a57b, 0x8208f4c1, 0xf50fc457, 0x65b0d9c6, 0x12b7e950,
     0x8bbeb8ea, 0xfcb9887c, 0x62dd1ddf, 0x15da2d49, 0x8cd37cf3, 0xfbd44c65,
     0x4db26158, 0x3ab551ce, 0xa3bc0074, 0xd4bb30e2, 0x4adfa541, 0x3dd895d7,
     0xa4d1c46d, 0xd3d6f4fb, 0x4369e96a, 0x346ed9fc, 0xad678846, 0xda60b8d0,
     0x44042d73, 0x33031de5, 0xaa0a4c5f, 0xdd0d7cc9, 0x5005713c, 0x270241aa,
     0xbe0b1010, 0xc90c2086, 0x5768b525, 0x206f85b3, 0xb966d409, 0xce61e49f,
     0x5edef90e, 0x29d9c998, 0xb0d09822, 0xc7d7a8b4, 0x59b33d17, 0x2eb40d81,
     0xb7bd5c3b, 0xc0ba6cad, 0xedb88320, 0x9abfb3b6, 0x03b6e20c, 0x74b1d29a,
     0xead54739, 0x9dd277af, 0x04db2615, 0x73dc1683, 0xe3630b12, 0x94643b84,
     0x0d6d6a3e, 0x7a6a5aa8, 0xe40ecf0b, 0x9309ff9d, 0x0a00ae27, 0x7d079eb1,
     0xf00f9344, 0x8708a3d2, 0x1e01f268, 0x6906c2fe, 0xf762575d, 0x806567cb,
     0x196c3671, 0x6e6b06e7, 0xfed41b76, 0x89d32be0, 0x10da7a5a, 0x67dd4acc,
     0xf9b9df6f, 0x8ebeeff9, 0x17b7be43, 0x60b08ed5, 0xd6d6a3e8, 0xa1d1937e,
     0x38d8c2c4, 0x4fdff252, 0xd1bb67f1, 0xa6bc5767, 0x3fb506dd, 0x48b2364b,
     0xd80d2bda, 0xaf0a1b4c, 0x36034af6, 0x41047a60, 0xdf60efc3, 0xa867df55,
     0x316e8eef, 0x4669be79, 0xcb61b38c, 0xbc66831a, 0x256fd2a0, 0x5268e236,
     0xcc0c7795, 0xbb0b4703, 0x220216b9, 0x5505262f, 0xc5ba3bbe, 0xb2bd0b28,
     0x2bb45a92, 0x5cb36a04, 0xc2d7ffa7, 0xb5d0cf31, 0x2cd99e8b, 0x5bdeae1d,
     0x9b64c2b0, 0xec63f226, 0x756aa39c, 0x026d930a, 0x9c0906a9, 0xeb0e363f,
     0x72076785, 0x05005713, 0x95bf4a82, 0xe2b87a14, 0x7bb12bae, 0x0cb61b38,
     0x92d28e9b, 0xe5d5be0d, 0x7cdcefb7, 0x0bdbdf21, 0x86d3d2d4, 0xf1d4e242,
     0x68ddb3f8, 0x1fda836e, 0x81be16cd, 0xf6b9265b, 0x6fb077e1, 0x18b74777,
     0x88085ae6, 0xff0f6a70, 0x66063bca, 0x11010b5c, 0x8f659eff, 0xf862ae69,
     0x616bffd3, 0x166ccf45, 0xa00ae278, 0xd70dd2ee, 0x4e048354, 0x3903b3c2,
     0xa7672661, 0xd06016f7, 0x4969474d, 0x3e6e77db, 0xaed16a4a, 0xd9d65adc,
     0x40df0b66, 0x37d83bf0, 0xa9bcae53, 0xdebb9ec5, 0x47b2cf7f, 0x30b5ffe9,
     0xbdbdf21c, 0xcabac28a, 0x53b39330, 0x24b4a3a6, 0xbad03605, 0xcdd70693,
     0x54de5729, 0x23d967bf, 0xb3667a2e, 0xc4614ab8, 0x5d681b02, 0x2a6f2b94,
     0xb40bbe37, 0xc30c8ea1, 0x5a05df1b, 0x2d02ef8d
   ]"

definition crc32_step :: "u32 \<Rightarrow> u8 \<Rightarrow> u32" where
  "crc32_step crc b = crc32_tab ! unat ((crc XOR ucast b) AND 0xFF) XOR drop_bit 8 crc"

definition stunCalculateFingerprint :: "bytes \<Rightarrow> u32" where
  "stunCalculateFingerprint input = foldl crc32_step 0xFFFFFFFF input XOR 0xFFFFFFFF"

section \<open>The encoder\<close>

definition be64_bytes :: "u64 \<Rightarrow> bytes" where
  "be64_bytes v = be32_bytes (ucast (drop_bit 32 v)) @ be32_bytes (ucast v)"

text \<open>\<open>encode\<close> copies a number of bytes of an array that holds a text and zeros behind it.\<close>

definition encode :: "bytes \<Rightarrow> nat \<Rightarrow> bytes" where
  "encode s n = take n (s @ replicate n 0)"

definition encodeAtrAddress4 :: "u16 \<Rightarrow> StunAtrAddress4 \<Rightarrow> bytes" where
  "encodeAtrAddress4 t a = be16_bytes t @ be16_bytes 8 @ [pad a, IPv4Family]
     @ be16_bytes (port (ipv4 a)) @ be32_bytes (addr (ipv4 a))"

definition encodeAtrChangeRequest :: "u32 \<Rightarrow> bytes" where
  "encodeAtrChangeRequest v = be16_bytes SA_CHANGEREQUEST @ be16_bytes 4 @ be32_bytes v"

definition encodeAtrError :: "StunAtrError \<Rightarrow> bytes" where
  "encodeAtrError a = (let n = unat (sizeReason a); padding = (n + 4) mod 4 in
     be16_bytes SA_ERRORCODE @ be16_bytes (4 + sizeReason a) @ be16_bytes (err_pad a) @ [errorClass a, number a]
     @ encode (reason a) n @ (if 0 < padding then replicate (4 - padding) 0 else []))"

definition encodeAtrUnknown :: "u16 list \<Rightarrow> bytes" where
  "encodeAtrUnknown ts = be16_bytes SA_UNKNOWNATTRIBUTE @ be16_bytes (of_nat (2 + 2 * length ts)) @ concat (map be16_bytes ts)"

definition encodeAtrString :: "u16 \<Rightarrow> bytes \<Rightarrow> bytes" where
  "encodeAtrString t s = (let padding = length s mod 4 in
     be16_bytes t @ be16_bytes (of_nat (length s)) @ s @ (if 0 < padding then replicate (4 - padding) 0 else []))"

definition encodeAtrIntegrity :: "bytes \<Rightarrow> bytes" where
  "encodeAtrIntegrity h = be16_bytes SA_MESSAGEINTEGRITY @ be16_bytes 20 @ encode h 20"

definition encodeAtrFingerprint :: "u32 \<Rightarrow> bytes" where
  "encodeAtrFingerprint v = be16_bytes SA_FINGERPRINT @ be16_bytes 4 @ be32_bytes (v XOR 0x5354554E)"

definition encodeAtrRequestedTransport :: "TurnAtrRequestedTransport \<Rightarrow> bytes" where
  "encodeAtrRequestedTransport a = be16_bytes TA_REQUESTEDTRANSPORT @ be16_bytes 4 @ [proto a, pad1 a, pad2 a, pad3 a]"

definition encodeAtrLifeTime :: "u32 \<Rightarrow> bytes" where
  "encodeAtrLifeTime v = be16_bytes TA_LIFETIME @ be16_bytes 4 @ be32_bytes v"

definition encodeAtrDontFragment :: bytes where
  "encodeAtrDontFragment = be16_bytes TA_DONTFRAGMENT @ be16_bytes 0"

definition encodeAtrUseCandidate :: bytes where
  "encodeAtrUseCandidate = be16_bytes ICEA_USECANDIDATE @ be16_bytes 0"

definition encodeAtrPriority :: "u32 \<Rightarrow> bytes" where
  "encodeAtrPriority v = be16_bytes ICEA_PRIORITY @ be16_bytes 4 @ be32_bytes v"

definition encodeAtrIceControll :: "u16 \<Rightarrow> u64 \<Rightarrow> bytes" where
  "encodeAtrIceControll t v = be16_bytes t @ be16_bytes 8 @ be64_bytes v"

text \<open>MD5 and HMAC-SHA1 with its key, of OpenSSL.\<close>

record crypto =
  MD5 :: "bytes \<Rightarrow> bytes"
  HMAC_sha1 :: "bytes \<Rightarrow> bytes \<Rightarrow> bytes"

definition stunCalculateIntegrity_longterm :: "crypto \<Rightarrow> bytes \<Rightarrow> bytes \<Rightarrow> bytes \<Rightarrow> bytes \<Rightarrow> bytes" where
  "stunCalculateIntegrity_longterm cr input uname realm pw =
     (let HA1_text = take 1023 (c_str uname @ [0x3A] @ c_str realm @ [0x3A] @ c_str pw)
      in HMAC_sha1 cr (MD5 cr HA1_text) input)"

definition stunCalculateIntegrity_shortterm :: "crypto \<Rightarrow> bytes \<Rightarrow> bytes \<Rightarrow> bytes" where
  "stunCalculateIntegrity_shortterm cr input key = HMAC_sha1 cr (c_str key) input"

definition opt_atr :: "('a \<Rightarrow> bytes) \<Rightarrow> 'a option \<Rightarrow> bytes" where
  "opt_atr enc a = (case a of None \<Rightarrow> [] | Some v \<Rightarrow> enc v)"

text \<open>The attributes up to SOFTWARE, in the order of the code; PASSWORD is commented out there.\<close>

definition encode_attributes :: "StunMessage \<Rightarrow> bytes" where
  "encode_attributes msg =
     opt_atr encodeAtrRequestedTransport (requestedTransport msg)
   @ opt_atr encodeAtrLifeTime (lifetimeAttributes msg)
   @ (if dontFragment msg then encodeAtrDontFragment else [])
   @ opt_atr (encodeAtrAddress4 SA_MAPPEDADDRESS) (mappedAddress msg)
   @ opt_atr (encodeAtrAddress4 SA_RESPONSEADDRESS) (responseAddress msg)
   @ opt_atr encodeAtrChangeRequest (changeRequest msg)
   @ opt_atr (encodeAtrAddress4 SA_SOURCEADDRESS) (sourceAddress msg)
   @ opt_atr (encodeAtrAddress4 SA_CHANGEDADDRESS) (changedAddress msg)
   @ opt_atr (encodeAtrString SA_USERNAME) (username msg)
   @ opt_atr encodeAtrError (errorCode msg)
   @ opt_atr encodeAtrUnknown (unknownAttributes msg)
   @ opt_atr (encodeAtrAddress4 SA_REFLECTEDFROM) (reflectedFrom msg)
   @ opt_atr (encodeAtrString SA_NONCE) (nonceName msg)
   @ opt_atr (encodeAtrString SA_REALM) (realmName msg)
   @ opt_atr (encodeAtrAddress4 SA_XORMAPPEDADDRESS) (xorMappedAddress msg)
   @ opt_atr encodeAtrPriority (priority msg)
   @ (if useCandidate msg then encodeAtrUseCandidate else [])
   @ opt_atr (encodeAtrIceControll ICEA_ICECONTROLLED) (iceControlled msg)
   @ opt_atr (encodeAtrIceControll ICEA_ICECONTROLLING) (iceControlling msg)
   @ opt_atr (encodeAtrString SA_SOFTWARE) (softwareName msg)"

text \<open>\<open>encode16(lengthp, n)\<close>.\<close>

definition put_length :: "bytes \<Rightarrow> nat \<Rightarrow> bytes" where
  "put_length buf n = take 2 buf @ be16_bytes (of_nat n) @ drop 4 buf"

definition add_integrity :: "crypto \<Rightarrow> StunMessage \<Rightarrow> bytes option \<Rightarrow> bytes \<Rightarrow> bytes" where
  "add_integrity cr msg pw buf =
     (if messageIntegrity msg \<noteq> None \<and> text_of pw \<noteq> [] \<and> text_of (username msg) \<noteq> [] \<and> text_of (realmName msg) \<noteq> []
      then let b = put_length buf (length buf - 20 + 24) in
        b @ encodeAtrIntegrity (stunCalculateIntegrity_longterm cr b (text_of (username msg)) (text_of (realmName msg)) (text_of pw))
      else if messageIntegrity msg \<noteq> None \<and> text_of pw \<noteq> [] \<and> text_of (username msg) \<noteq> []
      then let b = put_length buf (length buf - 20 + 24) in
        b @ encodeAtrIntegrity (stunCalculateIntegrity_shortterm cr b (text_of pw))
      else buf)"

definition add_fingerprint :: "StunMessage \<Rightarrow> bytes \<Rightarrow> bytes" where
  "add_fingerprint msg buf = (if fingerprint msg \<noteq> None
     then let b = put_length buf (length buf - 20 + 8) in b @ encodeAtrFingerprint (stunCalculateFingerprint b)
     else buf)"

definition stunEncodeMessage :: "crypto \<Rightarrow> StunMessage \<Rightarrow> bytes option \<Rightarrow> bytes" where
  "stunEncodeMessage cr msg pw =
     (let buf = be16_bytes (msgType msg) @ be16_bytes 0 @ be32_bytes (magic_cookie msg) @ tr_id msg @ encode_attributes msg;
          buf' = add_fingerprint msg (add_integrity cr msg pw buf)
      in put_length buf' (length buf' - 20))"

end
