(* ===== verification/Stun_Codec.thy ===== *)
theory Stun_Codec
  imports Stun_Msg
begin

text \<open>
  What the coding of STUN messages guarantees: the table driven fingerprint is the CRC-32 and changes with
  every byte; a message that is encoded and parsed comes back; the length of an encoded message; the parser reads inside the packet
  when every attribute is padded, and behind it when the padding of the last one is missing.
\<close>

section \<open>CRC-32\<close>

text \<open>The reference: the division by the reversed polynomial EDB88320, one bit at a time.\<close>

definition crc_bit :: "u32 \<Rightarrow> u32" where
  "crc_bit x = (if bit x 0 then drop_bit 1 x XOR 0xEDB88320 else drop_bit 1 x)"

definition crc32_reference :: "bytes \<Rightarrow> u32" where
  "crc32_reference bs = foldl (\<lambda>crc b. (crc_bit ^^ 8) (crc XOR ucast b)) 0xFFFFFFFF bs XOR 0xFFFFFFFF"

lemma crc_bit_xor: "crc_bit (x XOR y) = crc_bit x XOR crc_bit y"
  by (auto simp: crc_bit_def bit_xor_iff drop_bit_xor ac_simps)

lemma crc_bit_pow_xor: "(crc_bit ^^ n) (x XOR y) = (crc_bit ^^ n) x XOR (crc_bit ^^ n) y"
  by (induction n arbitrary: x y) (simp_all add: crc_bit_xor)

lemma crc_bit_shift: "\<forall>k<n. \<not> bit x k \<Longrightarrow> (crc_bit ^^ n) x = drop_bit n x"
proof (induction n)
  case (Suc n)
  have "\<not> bit (drop_bit n x) 0"
    using Suc.prems by (simp add: bit_drop_bit_eq)
  then show ?case
    using Suc by (simp add: crc_bit_def)
qed simp

lemma crc8: "(crc_bit ^^ 8) x = crc_bit (crc_bit (crc_bit (crc_bit (crc_bit (crc_bit (crc_bit (crc_bit x)))))))"
  by (simp add: eval_nat_numeral)


definition crc_lo :: "u32 list" where
  "crc_lo = [0x00000000, 0x77073096, 0xee0e612c, 0x990951ba, 0x076dc419, 0x706af48f, 0xe963a535, 0x9e6495a3, 0x0edb8832, 0x79dcb8a4, 0xe0d5e91e, 0x97d2d988, 0x09b64c2b, 0x7eb17cbd, 0xe7b82d07, 0x90bf1d91]"

definition crc_hi :: "u32 list" where
  "crc_hi = [0x00000000, 0x1db71064, 0x3b6e20c8, 0x26d930ac, 0x76dc4190, 0x6b6b51f4, 0x4db26158, 0x5005713c, 0xedb88320, 0xf00f9344, 0xd6d6a3e8, 0xcb61b38c, 0x9b64c2b0, 0x86d3d2d4, 0xa00ae278, 0xbdbdf21c]"

lemma upt_16: "[0..<16] = ([0, 1, 2, 3, 4, 5, 6, 7, 8, 9, 10, 11, 12, 13, 14, 15] :: nat list)"
  by code_simp

lemma crc_lo: "crc_lo = map (\<lambda>i. (crc_bit ^^ 8) (of_nat i)) [0..<16]"
  unfolding upt_16 list.map by (simp add: crc_lo_def crc8 crc_bit_def)

lemma crc_hi: "crc_hi = map (\<lambda>i. (crc_bit ^^ 8) (of_nat (16 * i))) [0..<16]"
  unfolding upt_16 list.map by (simp add: crc_hi_def crc8 crc_bit_def)

lemma crc32_tab_split: "crc32_tab = concat (map (\<lambda>h. map (\<lambda>l. h XOR l) crc_lo) crc_hi)"
  by (simp add: crc32_tab_def crc_lo_def crc_hi_def)

lemma nibbles: "x < 256 \<Longrightarrow> (of_nat x :: u32) = of_nat (16 * (x div 16)) XOR of_nat (x mod 16)"
proof -
  assume "x < 256"
  have "(of_nat (16 * (x div 16)) :: u32) AND of_nat (x mod 16) = 0"
  proof -
    have "(of_nat (16 * (x div 16)) :: u32) = push_bit 4 (of_nat (x div 16))"
      by (simp add: push_bit_eq_mult)
    moreover have "(of_nat (x mod 16) :: u32) = take_bit 4 (of_nat x)"
      using \<open>x < 256\<close> by (simp only: word_unat_eq_iff unsigned_take_bit_eq) (simp add: unat_of_nat take_bit_eq_mod)
    ultimately show ?thesis
      by (simp only:) (rule bit_word_eqI, auto simp: bit_simps)
  qed
  then have "(of_nat (16 * (x div 16)) :: u32) XOR of_nat (x mod 16) = of_nat (16 * (x div 16)) + of_nat (x mod 16)"
    by (simp only: disjunctive_add_eq_xor)
  also have "\<dots> = of_nat x"
    by (simp only: flip: of_nat_add) simp
  finally show ?thesis
    by simp
qed

lemma concat_rows: "length r = 16 \<Longrightarrow> a < length h \<Longrightarrow> b < 16 \<Longrightarrow> concat (map (\<lambda>h. map (f h) r) h) ! (16 * a + b) = f (h ! a) (r ! b)"
  by (induction h arbitrary: a) (auto simp: nth_append nth_Cons split: nat.splits)

lemma crc32_tab_nth: "i < 256 \<Longrightarrow> crc32_tab ! i = (crc_bit ^^ 8) (of_nat i)"
proof -
  assume i: "i < 256"
  then have "i div 16 < 16"
    by simp
  then have n: "crc_hi ! (i div 16) = (crc_bit ^^ 8) (of_nat (16 * (i div 16)))"
    unfolding crc_hi by (subst nth_map) (simp_all add: nth_upt[of 0, simplified])
  have "crc32_tab ! (16 * (i div 16) + i mod 16) = crc_hi ! (i div 16) XOR crc_lo ! (i mod 16)"
    unfolding crc32_tab_split using i by (intro concat_rows) (auto simp: crc_lo crc_hi)
  also have "\<dots> = (crc_bit ^^ 8) (of_nat (16 * (i div 16)) XOR of_nat (i mod 16))"
    by (simp add: crc_lo crc_bit_pow_xor n del: of_nat_mult)
  finally show ?thesis
    using nibbles[OF i] by simp
qed

lemma ff_mask: "(0xFF :: u32) = mask 8"
  by (simp add: mask_eq_exp_minus_1)

lemma crc_low_byte: "(crc_bit ^^ 8) x = (crc_bit ^^ 8) (x AND 0xFF) XOR drop_bit 8 x"
proof -
  have x: "x = (x AND 0xFF) XOR (x AND NOT 0xFF)"
    unfolding ff_mask by (rule bit_word_eqI) (auto simp: bit_simps)
  have "\<forall>k<8. \<not> bit (x AND NOT 0xFF) k"
    unfolding ff_mask by (simp add: bit_simps)
  then have "(crc_bit ^^ 8) (x AND NOT 0xFF) = drop_bit 8 (x AND NOT 0xFF)"
    by (rule crc_bit_shift)
  also have "\<dots> = drop_bit 8 x"
    unfolding ff_mask by (rule bit_word_eqI) (auto simp: bit_simps dest: bit_imp_le_length)
  finally show ?thesis
    by (subst x, subst crc_bit_pow_xor) simp
qed

lemma crc32_step_eq: "crc32_step crc b = (crc_bit ^^ 8) (crc XOR ucast b)"
proof -
  have "unat ((crc XOR ucast b) AND 0xFF) < 256"
    
    unfolding ff_mask using take_bit_nat_less_exp[of 8 "unat (crc XOR ucast b)"]
    by (simp only: unsigned_take_bit_eq flip: take_bit_eq_mask) simp
  moreover have "drop_bit 8 (crc XOR ucast b) = drop_bit 8 crc"
    by (rule bit_word_eqI) (auto simp: bit_simps dest: bit_imp_le_length)
  ultimately show ?thesis
    unfolding crc32_step_def using crc_low_byte[of "crc XOR ucast b"] by (simp add: crc32_tab_nth)
qed

text \<open>C13: the table driven loop computes the CRC-32 of its input, bit by bit.\<close>

theorem fingerprint_is_crc32: "stunCalculateFingerprint input = crc32_reference input"
  by (simp add: stunCalculateFingerprint_def crc32_reference_def crc32_step_eq[abs_def])

section \<open>Error detection\<close>

lemma xor_cancel [simp]: "x XOR z = y XOR z \<longleftrightarrow> x = y" "z XOR x = z XOR y \<longleftrightarrow> x = y" for x y z :: "'a :: len word"
  by (metis xor.assoc xor.commute xor.left_neutral xor_self_eq)+

lemma crc_bit_inj: "inj crc_bit"
proof (rule injI)
  fix x y assume eq: "crc_bit x = crc_bit y"
  have top: "bit (crc_bit z) 31 = bit z 0" for z
    by (auto simp: crc_bit_def bit_simps dest: bit_imp_le_length)
  have low: "drop_bit 1 z = (if bit z 0 then crc_bit z XOR 0xEDB88320 else crc_bit z)" for z
    by (simp add: crc_bit_def xor.assoc)
  have b: "bit x 0 = bit y 0"
    using top[of x] top[of y] eq by simp
  have d: "drop_bit 1 x = drop_bit 1 y"
    unfolding low[of x] low[of y] using eq b by simp
  show "x = y"
  proof (rule bit_word_eqI)
    fix n
    have suc: "bit z (Suc k) = bit (drop_bit 1 z) k" for z :: u32 and k
      by (simp add: bit_drop_bit_eq)
    show "bit x n = bit y n"
      by (cases n) (simp_all only: b suc d)
  qed
qed

lemma crc_pow_inj: "inj (crc_bit ^^ n)"
  using crc_bit_inj by (rule inj_fn)

lemma crc32_step_state: "crc32_step x b = crc32_step y b \<longleftrightarrow> x = y"
  by (simp add: crc32_step_eq inj_eq[OF crc_pow_inj])

lemma crc32_step_byte: "crc32_step x b = crc32_step x c \<longleftrightarrow> b = c"
proof -
  have "(ucast b :: u32) = ucast c \<longleftrightarrow> b = c"
  proof
    have "ucast (ucast x :: u32) = x" for x :: u8
      by (rule bit_word_eqI) (simp add: bit_simps)
    then show "(ucast b :: u32) = ucast c \<Longrightarrow> b = c"
      by metis
  qed simp
  then show ?thesis
    by (simp add: crc32_step_eq inj_eq[OF crc_pow_inj])
qed

lemma crc32_state: "foldl crc32_step x bs = foldl crc32_step y bs \<longleftrightarrow> x = y"
  by (induction bs arbitrary: x y) (simp_all add: crc32_step_state)

text \<open>C36: the fingerprint changes when one byte of the input is changed.\<close>

theorem fingerprint_detects_changed_byte:
  "stunCalculateFingerprint (p @ b # r) = stunCalculateFingerprint (p @ c # r) \<longleftrightarrow> b = c"
  by (simp add: stunCalculateFingerprint_def crc32_state crc32_step_byte)

section \<open>One attribute of an encoded message\<close>

text \<open>A chunk of attributes is read as \<open>f\<close> when the attribute loop consumes it and goes on behind it with the message changed by \<open>f\<close>.\<close>

definition reads_as :: "bytes \<Rightarrow> (StunMessage \<Rightarrow> StunMessage) \<Rightarrow> bool" where
  "reads_as bs f \<longleftrightarrow> (\<forall>rest m. length (bs @ rest) < 2 ^ 32 \<longrightarrow>
     parse_loop (bs @ rest) (of_nat (length (bs @ rest))) m = parse_loop rest (of_nat (length rest)) (f m))"

named_theorems reads

lemma reads_nil [reads]: "reads_as [] id"
  by (simp add: reads_as_def)

lemma reads_append: "reads_as a f \<Longrightarrow> reads_as b g \<Longrightarrow> reads_as (a @ b) (g \<circ> f)"
  unfolding reads_as_def
proof (intro allI impI)
  fix rest m
  assume a: "\<forall>rest m. length (a @ rest) < 2 ^ 32 \<longrightarrow>
      parse_loop (a @ rest) (of_nat (length (a @ rest))) m = parse_loop rest (of_nat (length rest)) (f m)"
    and b: "\<forall>rest m. length (b @ rest) < 2 ^ 32 \<longrightarrow>
      parse_loop (b @ rest) (of_nat (length (b @ rest))) m = parse_loop rest (of_nat (length rest)) (g m)"
    and small: "length ((a @ b) @ rest) < 2 ^ 32"
  have "length (a @ (b @ rest)) < 2 ^ 32" "length (b @ rest) < 2 ^ 32"
    using small by simp_all
  then show "parse_loop ((a @ b) @ rest) (of_nat (length ((a @ b) @ rest))) m
      = parse_loop rest (of_nat (length rest)) ((g \<circ> f) m)"
    using a[rule_format, of "b @ rest" m] b[rule_format, of rest "f m"] by (simp only: append_assoc o_apply)
qed

lemma padded_ge: "n \<le> padded n"
  using mod_less_divisor[of 4 n] by (auto simp: padded_def simp del: mod_less_divisor)

lemma reads_tlv:
  assumes "length v = padded (unat l)"
    and "\<And>rest m. parse_attribute t (v @ rest) (unat l) m = Some (True, f m)"
  shows "reads_as (be16_bytes t @ be16_bytes l @ v) f"
  unfolding reads_as_def
proof (intro allI impI)
  fix rest m
  let ?all = "(be16_bytes t @ be16_bytes l @ v) @ rest"
  assume small: "length ?all < 2 ^ 32"
  have len: "length ?all = 4 + (padded (unat l) + length rest)"
    by (simp add: assms(1))
  have hd: "read16 ?all 0 = t" "read16 ?all 2 = l" "drop 4 ?all = v @ rest"
    by (auto simp: be16_bytes_def read16_def)
  have sz: "unat (of_nat (length ?all) :: u32) = length ?all"
    using small by (simp only: unat_of_nat) simp
  have nz: "(of_nat (length ?all) :: u32) \<noteq> 0"
    using sz len by (metis add_is_0 unat_0 zero_neq_numeral)
  have step: "(of_nat (length ?all) :: u32) - 4 - of_nat (padded (unat l)) = of_nat (length rest)"
    by (simp add: len assms(1))
  have dr: "drop (4 + padded (unat l)) ?all = rest"
    using assms(1) hd(3) by (metis add.commute append_eq_conv_conj drop_drop)
  have bounds: "\<not> length ?all < 4" "\<not> unat (of_nat (length ?all) :: u32) < unat l + 4"
    unfolding sz using padded_ge[of "unat l"] len by linarith+
  show "parse_loop ?all (of_nat (length ?all)) m = parse_loop rest (of_nat (length rest)) (f m)"
    by (subst parse_loop.simps)
      (simp only: Let_def hd step dr assms(2) bounds nz if_False option.case prod.case bool.case)
qed

text \<open>An attribute that may be absent.\<close>

definition opt_set :: "('a \<Rightarrow> StunMessage \<Rightarrow> StunMessage) \<Rightarrow> 'a option \<Rightarrow> StunMessage \<Rightarrow> StunMessage" where
  "opt_set f a m = (case a of None \<Rightarrow> m | Some v \<Rightarrow> f v m)"

definition flag_set :: "(StunMessage \<Rightarrow> StunMessage) \<Rightarrow> bool \<Rightarrow> StunMessage \<Rightarrow> StunMessage" where
  "flag_set f b m = (if b then f m else m)"

lemma reads_opt: "(\<And>v. a = Some v \<Longrightarrow> reads_as (enc v) (f v)) \<Longrightarrow> reads_as (opt_atr enc a) (opt_set f a)"
  by (cases a) (simp_all add: opt_atr_def opt_set_def reads_as_def)

lemma reads_if: "reads_as bs f \<Longrightarrow> reads_as (if b then bs else []) (flag_set f b)"
  by (simp add: reads_as_def flag_set_def)

text \<open>The attributes one by one.\<close>

lemmas bytes_defs = be16_bytes_def be32_bytes_def be64_bytes_def byte_at_def get16_def get32_def get64_def read16_def read32_def

lemma get32_of_bytes: "get32 (be32_bytes w @ rest) 0 = Some w"
  by (simp add: bytes_defs)

lemma parse_address_of: "stunParseAtrAddress (pad a # IPv4Family # be16_bytes (port (ipv4 a)) @ be32_bytes (addr (ipv4 a)) @ rest) 8 cur
    = Some (True, a\<lparr>family := IPv4Family\<rparr>)"
  by (cases a; cases "ipv4 a") (simp add: stunParseAtrAddress_def bytes_defs)

lemma reads_address:
  assumes "\<And>rest m. parse_attribute t rest 8 m = fill (stunParseAtrAddress rest 8) zero_atr_addr (g m) (h m)"
  shows "reads_as (encodeAtrAddress4 t a) (\<lambda>m. h m (a\<lparr>family := IPv4Family\<rparr>))"
  unfolding encodeAtrAddress4_def
  by (rule reads_tlv) (simp_all add: padded_def assms fill_def parse_address_of)

lemma reads_mapped [reads]: "reads_as (encodeAtrAddress4 SA_MAPPEDADDRESS a) (\<lambda>m. m\<lparr>mappedAddress := Some (a\<lparr>family := IPv4Family\<rparr>)\<rparr>)"
  by (rule reads_address) (simp add: parse_attribute_def)

lemma reads_response [reads]: "reads_as (encodeAtrAddress4 SA_RESPONSEADDRESS a) (\<lambda>m. m\<lparr>responseAddress := Some (a\<lparr>family := IPv4Family\<rparr>)\<rparr>)"
  by (rule reads_address) (simp add: parse_attribute_def)

lemma reads_source [reads]: "reads_as (encodeAtrAddress4 SA_SOURCEADDRESS a) (\<lambda>m. m\<lparr>sourceAddress := Some (a\<lparr>family := IPv4Family\<rparr>)\<rparr>)"
  by (rule reads_address) (simp add: parse_attribute_def)

lemma reads_changed [reads]: "reads_as (encodeAtrAddress4 SA_CHANGEDADDRESS a) (\<lambda>m. m\<lparr>changedAddress := Some (a\<lparr>family := IPv4Family\<rparr>)\<rparr>)"
  by (rule reads_address) (simp add: parse_attribute_def)

lemma reads_reflected [reads]: "reads_as (encodeAtrAddress4 SA_REFLECTEDFROM a) (\<lambda>m. m\<lparr>reflectedFrom := Some (a\<lparr>family := IPv4Family\<rparr>)\<rparr>)"
  by (rule reads_address) (simp add: parse_attribute_def)

lemma reads_xor_mapped [reads]: "reads_as (encodeAtrAddress4 SA_XORMAPPEDADDRESS a)
    (\<lambda>m. m\<lparr>xorMappedAddress := Some (a\<lparr>family := IPv4Family, ipv4 := xor_address (ipv4 a)\<rparr>)\<rparr>)"
  unfolding encodeAtrAddress4_def
  by (rule reads_tlv) (simp_all add: padded_def parse_attribute_def fill_def stun_parse_xor_mapped_def parse_address_of)

lemma reads_change_request [reads]: "reads_as (encodeAtrChangeRequest v) (\<lambda>m. m\<lparr>changeRequest := Some v\<rparr>)"
  unfolding encodeAtrChangeRequest_def
  by (rule reads_tlv) (simp_all add: padded_def parse_attribute_def fill_def stunParseAtrChangeRequest_def bytes_defs)

lemma reads_transport [reads]: "reads_as (encodeAtrRequestedTransport v) (\<lambda>m. m\<lparr>requestedTransport := Some v\<rparr>)"
  unfolding encodeAtrRequestedTransport_def
  by (rule reads_tlv) (simp_all add: padded_def parse_attribute_def parse_turn_attribute_def fill_def turnParseAtrRequestedTransport_def bytes_defs)

lemma reads_lifetime [reads]: "reads_as (encodeAtrLifeTime v) (\<lambda>m. m\<lparr>lifetimeAttributes := Some v\<rparr>)"
  unfolding encodeAtrLifeTime_def
  by (rule reads_tlv) (simp_all add: padded_def parse_attribute_def parse_turn_attribute_def fill_def turnParseAtrLifetime_def bytes_defs)

lemma reads_dont_fragment [reads]: "reads_as encodeAtrDontFragment (\<lambda>m. m\<lparr>dontFragment := True\<rparr>)"
  unfolding encodeAtrDontFragment_def
  using reads_tlv[of "[]" 0 TA_DONTFRAGMENT "\<lambda>m. m\<lparr>dontFragment := True\<rparr>"]
  by (simp add: padded_def parse_attribute_def parse_turn_attribute_def)

lemmas ice_attribute_defs = parse_attribute_def parse_turn_attribute_def parse_ice_attribute_def fill_def

lemma reads_use_candidate [reads]: "reads_as encodeAtrUseCandidate (\<lambda>m. m\<lparr>useCandidate := True\<rparr>)"
  unfolding encodeAtrUseCandidate_def
  using reads_tlv[of "[]" 0 ICEA_USECANDIDATE "\<lambda>m. m\<lparr>useCandidate := True\<rparr>"]
  by (simp add: padded_def ice_attribute_defs)

lemma reads_priority [reads]: "reads_as (encodeAtrPriority v) (\<lambda>m. m\<lparr>priority := Some v\<rparr>)"
  unfolding encodeAtrPriority_def
  by (rule reads_tlv) (simp_all add: padded_def ice_attribute_defs iceParseAtrPriority_def bytes_defs)

lemma be64_of_bytes: "push_bit 32 (ucast (ucast (drop_bit 32 v) :: u32)) OR ucast (ucast v :: u32) = (v :: u64)"
  by (rule bit_word_eqI) (auto simp: bit_simps)

lemma reads_controlled [reads]: "reads_as (encodeAtrIceControll ICEA_ICECONTROLLED v) (\<lambda>m. m\<lparr>iceControlled := Some v\<rparr>)"
  unfolding encodeAtrIceControll_def
  by (rule reads_tlv) (simp_all add: padded_def ice_attribute_defs iceParseAtrIceControll_def bytes_defs be64_of_bytes)

lemma reads_controlling [reads]: "reads_as (encodeAtrIceControll ICEA_ICECONTROLLING v) (\<lambda>m. m\<lparr>iceControlling := Some v\<rparr>)"
  unfolding encodeAtrIceControll_def
  by (rule reads_tlv) (simp_all add: padded_def ice_attribute_defs iceParseAtrIceControll_def bytes_defs be64_of_bytes)

lemma reads_fingerprint [reads]: "reads_as (encodeAtrFingerprint v) (\<lambda>m. m\<lparr>fingerprint := Some (v XOR 0x5354554E)\<rparr>)"
  unfolding encodeAtrFingerprint_def
  by (rule reads_tlv) (simp_all add: padded_def ice_attribute_defs stunParseAtrFingerprint_def get32_of_bytes)

lemma length_encode [simp]: "length (encode s n) = n"
  by (simp add: encode_def)

lemma reads_integrity [reads]: "reads_as (encodeAtrIntegrity h) (\<lambda>m. m\<lparr>messageIntegrity := Some (encode h 20)\<rparr>)"
  unfolding encodeAtrIntegrity_def
  by (rule reads_tlv) (simp_all add: padded_def parse_attribute_def fill_def stunParseAtrIntegrity_def get_bytes_def)

lemma reads_string:
  assumes "\<And>rest m len. parse_attribute t rest len m = fill (stunParseAtrString rest len) [] (g m) (h m)" "length s < STUN_MAX_STRING"
  shows "reads_as (encodeAtrString t s) (\<lambda>m. h m s)"
  unfolding encodeAtrString_def Let_def
  using assms(2)
  by (intro reads_tlv) (auto simp: padded_def unat_of_nat assms(1) fill_def stunParseAtrString_def get_bytes_def)

lemma reads_username [reads]: "length s < STUN_MAX_STRING \<Longrightarrow> reads_as (encodeAtrString SA_USERNAME s) (\<lambda>m. m\<lparr>username := Some s\<rparr>)"
  by (rule reads_string) (simp_all add: parse_attribute_def)

lemma reads_nonce [reads]: "length s < STUN_MAX_STRING \<Longrightarrow> reads_as (encodeAtrString SA_NONCE s) (\<lambda>m. m\<lparr>nonceName := Some s\<rparr>)"
  by (rule reads_string) (simp_all add: parse_attribute_def)

lemma reads_realm [reads]: "length s < STUN_MAX_STRING \<Longrightarrow> reads_as (encodeAtrString SA_REALM s) (\<lambda>m. m\<lparr>realmName := Some s\<rparr>)"
  by (rule reads_string) (simp_all add: parse_attribute_def)

lemma reads_software [reads]: "length s < STUN_MAX_STRING \<Longrightarrow> reads_as (encodeAtrString SA_SOFTWARE s) (\<lambda>m. m\<lparr>softwareName := Some s\<rparr>)"
  by (rule reads_string) (simp_all add: parse_attribute_def)

lemma reads_error [reads]:
  assumes "unat (sizeReason a) < 128"
  shows "reads_as (encodeAtrError a) (\<lambda>m. m\<lparr>errorCode := Some (a\<lparr>reason := encode (reason a) (unat (sizeReason a))\<rparr>)\<rparr>)"
proof -
  let ?n = "unat (sizeReason a)"
  let ?pad = "if 0 < (?n + 4) mod 4 then replicate (4 - (?n + 4) mod 4) 0 else []"
  let ?v = "be16_bytes (err_pad a) @ [errorClass a, number a] @ encode (reason a) ?n @ ?pad"
  have n: "unat (4 + sizeReason a) = 4 + ?n"
    using assms by (simp add: unat_word_ariths)
  have "reads_as (be16_bytes SA_ERRORCODE @ be16_bytes (4 + sizeReason a) @ ?v)
      (\<lambda>m. m\<lparr>errorCode := Some (a\<lparr>reason := encode (reason a) ?n\<rparr>)\<rparr>)"
  proof (rule reads_tlv)
    show "length ?v = padded (unat (4 + sizeReason a))"
      unfolding n by (auto simp: padded_def)
    fix rest m
    have "stunParseAtrError (?v @ rest) (4 + ?n) cur = Some (True, a\<lparr>reason := encode (reason a) ?n\<rparr>)" for cur
      using assms by (cases a) (simp add: stunParseAtrError_def be16_bytes_def get16_def byte_at_def get_bytes_def read16_def)
    then show "parse_attribute SA_ERRORCODE (?v @ rest) (unat (4 + sizeReason a)) m
        = Some (True, m\<lparr>errorCode := Some (a\<lparr>reason := encode (reason a) ?n\<rparr>)\<rparr>)"
      unfolding n by (simp add: parse_attribute_def fill_def)
  qed
  then show ?thesis
    by (simp only: encodeAtrError_def Let_def append_assoc)
qed

section \<open>The whole message\<close>

text \<open>What a receiver gets of a message: addresses of family IPv4, the XOR address taken back, the text of the error as long as
  its size says; PASSWORD and the attributes of TURN that are only parsed are not sent.\<close>

definition as_ipv4 :: "StunAtrAddress4 \<Rightarrow> StunAtrAddress4" where
  "as_ipv4 a = a\<lparr>family := IPv4Family\<rparr>"

definition received_attributes :: "StunMessage \<Rightarrow> StunMessage \<Rightarrow> StunMessage" where
  "received_attributes msg m = m\<lparr>
     requestedTransport := requestedTransport msg, lifetimeAttributes := lifetimeAttributes msg, dontFragment := dontFragment msg,
     mappedAddress := map_option as_ipv4 (mappedAddress msg), responseAddress := map_option as_ipv4 (responseAddress msg),
     changeRequest := changeRequest msg,
     sourceAddress := map_option as_ipv4 (sourceAddress msg), changedAddress := map_option as_ipv4 (changedAddress msg),
     username := username msg,
     errorCode := map_option (\<lambda>a. a\<lparr>reason := encode (reason a) (unat (sizeReason a))\<rparr>) (errorCode msg),
     reflectedFrom := map_option as_ipv4 (reflectedFrom msg), nonceName := nonceName msg, realmName := realmName msg,
     xorMappedAddress := map_option (\<lambda>a. (as_ipv4 a)\<lparr>ipv4 := xor_address (ipv4 a)\<rparr>) (xorMappedAddress msg),
     priority := priority msg, useCandidate := useCandidate msg, iceControlled := iceControlled msg,
     iceControlling := iceControlling msg, softwareName := softwareName msg\<rparr>"

text \<open>The texts fit their arrays, the reason phrase the limit of the parser, and there is no UNKNOWN-ATTRIBUTES, which the
  encoder writes in a form that the parser does not take.\<close>

definition sendable :: "StunMessage \<Rightarrow> bool" where
  "sendable msg \<longleftrightarrow> length (tr_id msg) = 12 \<and> unknownAttributes msg = None
     \<and> (\<forall>s \<in> {username msg, nonceName msg, realmName msg, softwareName msg}. length (text_of s) < STUN_MAX_STRING)
     \<and> (case errorCode msg of None \<Rightarrow> True | Some e \<Rightarrow> unat (sizeReason e) < 128)"

definition clear_attributes :: "StunMessage \<Rightarrow> bool" where
  "clear_attributes m \<longleftrightarrow> mappedAddress m = None \<and> responseAddress m = None \<and> changeRequest m = None \<and> sourceAddress m = None
     \<and> changedAddress m = None \<and> username m = None \<and> errorCode m = None \<and> reflectedFrom m = None \<and> realmName m = None
     \<and> nonceName m = None \<and> xorMappedAddress m = None \<and> softwareName m = None \<and> lifetimeAttributes m = None
     \<and> requestedTransport m = None \<and> \<not> dontFragment m \<and> priority m = None \<and> \<not> useCandidate m
     \<and> iceControlled m = None \<and> iceControlling m = None"

text \<open>Setting a field that is still clear.\<close>

lemma opt_set_clear:
  "requestedTransport m = None \<Longrightarrow> opt_set (\<lambda>v m. m\<lparr>requestedTransport := Some v\<rparr>) a0 m = m\<lparr>requestedTransport := a0\<rparr>"
  "lifetimeAttributes m = None \<Longrightarrow> opt_set (\<lambda>v m. m\<lparr>lifetimeAttributes := Some v\<rparr>) a1 m = m\<lparr>lifetimeAttributes := a1\<rparr>"
  "mappedAddress m = None \<Longrightarrow> opt_set (\<lambda>v m. m\<lparr>mappedAddress := Some (k0 v)\<rparr>) a2 m = m\<lparr>mappedAddress := map_option k0 a2\<rparr>"
  "responseAddress m = None \<Longrightarrow> opt_set (\<lambda>v m. m\<lparr>responseAddress := Some (k1 v)\<rparr>) a3 m = m\<lparr>responseAddress := map_option k1 a3\<rparr>"
  "changeRequest m = None \<Longrightarrow> opt_set (\<lambda>v m. m\<lparr>changeRequest := Some v\<rparr>) a4 m = m\<lparr>changeRequest := a4\<rparr>"
  "sourceAddress m = None \<Longrightarrow> opt_set (\<lambda>v m. m\<lparr>sourceAddress := Some (k2 v)\<rparr>) a5 m = m\<lparr>sourceAddress := map_option k2 a5\<rparr>"
  "changedAddress m = None \<Longrightarrow> opt_set (\<lambda>v m. m\<lparr>changedAddress := Some (k3 v)\<rparr>) a6 m = m\<lparr>changedAddress := map_option k3 a6\<rparr>"
  "username m = None \<Longrightarrow> opt_set (\<lambda>v m. m\<lparr>username := Some v\<rparr>) a7 m = m\<lparr>username := a7\<rparr>"
  "errorCode m = None \<Longrightarrow> opt_set (\<lambda>v m. m\<lparr>errorCode := Some (k4 v)\<rparr>) a8 m = m\<lparr>errorCode := map_option k4 a8\<rparr>"
  "reflectedFrom m = None \<Longrightarrow> opt_set (\<lambda>v m. m\<lparr>reflectedFrom := Some (k5 v)\<rparr>) a9 m = m\<lparr>reflectedFrom := map_option k5 a9\<rparr>"
  "nonceName m = None \<Longrightarrow> opt_set (\<lambda>v m. m\<lparr>nonceName := Some v\<rparr>) a10 m = m\<lparr>nonceName := a10\<rparr>"
  "realmName m = None \<Longrightarrow> opt_set (\<lambda>v m. m\<lparr>realmName := Some v\<rparr>) a11 m = m\<lparr>realmName := a11\<rparr>"
  "xorMappedAddress m = None \<Longrightarrow> opt_set (\<lambda>v m. m\<lparr>xorMappedAddress := Some (k6 v)\<rparr>) a12 m = m\<lparr>xorMappedAddress := map_option k6 a12\<rparr>"
  "priority m = None \<Longrightarrow> opt_set (\<lambda>v m. m\<lparr>priority := Some v\<rparr>) a13 m = m\<lparr>priority := a13\<rparr>"
  "iceControlled m = None \<Longrightarrow> opt_set (\<lambda>v m. m\<lparr>iceControlled := Some v\<rparr>) a14 m = m\<lparr>iceControlled := a14\<rparr>"
  "iceControlling m = None \<Longrightarrow> opt_set (\<lambda>v m. m\<lparr>iceControlling := Some v\<rparr>) a15 m = m\<lparr>iceControlling := a15\<rparr>"
  "softwareName m = None \<Longrightarrow> opt_set (\<lambda>v m. m\<lparr>softwareName := Some v\<rparr>) a16 m = m\<lparr>softwareName := a16\<rparr>"
  "messageIntegrity m = None \<Longrightarrow> opt_set (\<lambda>v m. m\<lparr>messageIntegrity := Some (k7 v)\<rparr>) a17 m = m\<lparr>messageIntegrity := map_option k7 a17\<rparr>"
  "fingerprint m = None \<Longrightarrow> opt_set (\<lambda>v m. m\<lparr>fingerprint := Some (k8 v)\<rparr>) a18 m = m\<lparr>fingerprint := map_option k8 a18\<rparr>"
  by (cases m; simp add: opt_set_def split: option.split)+

lemma flag_set_clear:
  "\<not> dontFragment m \<Longrightarrow> flag_set (\<lambda>m. m\<lparr>dontFragment := True\<rparr>) b m = m\<lparr>dontFragment := b\<rparr>"
  "\<not> useCandidate m \<Longrightarrow> flag_set (\<lambda>m. m\<lparr>useCandidate := True\<rparr>) b m = m\<lparr>useCandidate := b\<rparr>"
  by (cases m; simp add: flag_set_def)+

lemma reads_attributes:
  assumes "sendable msg"
  shows "\<exists>f. reads_as (encode_attributes msg) f \<and> (\<forall>m. clear_attributes m \<longrightarrow> f m = received_attributes msg m)"
proof -
  have u: "opt_atr encodeAtrUnknown (unknownAttributes msg) = []"
    using assms by (simp add: sendable_def opt_atr_def)
  have str: "username msg = Some s \<Longrightarrow> length s < STUN_MAX_STRING" "nonceName msg = Some s \<Longrightarrow> length s < STUN_MAX_STRING"
    "realmName msg = Some s \<Longrightarrow> length s < STUN_MAX_STRING" "softwareName msg = Some s \<Longrightarrow> length s < STUN_MAX_STRING" for s
    using assms unfolding sendable_def by (auto simp: text_of_def)
  have err: "unat (sizeReason e) < 128" if "errorCode msg = Some e" for e
    using assms that by (simp add: sendable_def)
  show ?thesis
    unfolding encode_attributes_def u append_Nil
    apply (intro exI conjI)
     apply (rule reads_append reads_opt reads_if reads | erule str err)+
    apply (simp add: clear_attributes_def opt_set_clear flag_set_clear received_attributes_def as_ipv4_def[abs_def])
    done
qed

section \<open>Lengths\<close>

lemma length_encodeAtr [simp]:
  "length (encodeAtrAddress4 t a) = 12" "length (encodeAtrChangeRequest v) = 8" "length (encodeAtrIntegrity h) = 24"
  "length (encodeAtrFingerprint v) = 8" "length (encodeAtrRequestedTransport x) = 8" "length (encodeAtrLifeTime v) = 8"
  "length encodeAtrDontFragment = 4" "length encodeAtrUseCandidate = 4" "length (encodeAtrPriority v) = 8"
  "length (encodeAtrIceControll t w) = 12"
  by (simp_all add: encodeAtrAddress4_def encodeAtrChangeRequest_def encodeAtrIntegrity_def encodeAtrFingerprint_def
      encodeAtrRequestedTransport_def encodeAtrLifeTime_def encodeAtrDontFragment_def encodeAtrUseCandidate_def
      encodeAtrPriority_def encodeAtrIceControll_def be64_bytes_def)

lemma length_encodeAtrString: "length (encodeAtrString t s) = 4 + padded (length s)"
  by (simp add: encodeAtrString_def padded_def Let_def)

lemma length_encodeAtrError: "length (encodeAtrError a) = 4 + padded (4 + unat (sizeReason a))"
  by (auto simp: encodeAtrError_def padded_def Let_def)

lemma padded_less: "padded n < n + 4"
  by (simp add: padded_def)

lemma length_opt_atr: "(\<And>v. a = Some v \<Longrightarrow> length (enc v) \<le> n) \<Longrightarrow> length (opt_atr enc a) \<le> n"
  by (cases a) (simp_all add: opt_atr_def)

lemma length_opt_string: "length (opt_atr (encodeAtrString t) a) \<le> 8 + length (text_of a)"
  using padded_less[of "length (text_of a)"] by (cases a) (auto simp: opt_atr_def length_encodeAtrString text_of_def)

lemma length_opt_fixed: "(\<And>v. length (enc v) = n) \<Longrightarrow> length (opt_atr enc a) \<le> n"
  by (cases a) (simp_all add: opt_atr_def)

text \<open>The attributes take 300 bytes at most, the texts put aside.\<close>

definition texts_length :: "StunMessage \<Rightarrow> nat" where
  "texts_length msg = length (text_of (username msg)) + length (text_of (nonceName msg)) + length (text_of (realmName msg))
     + length (text_of (softwareName msg)) + (case errorCode msg of None \<Rightarrow> 0 | Some e \<Rightarrow> unat (sizeReason e))"

lemma length_attributes:
  assumes "unknownAttributes msg = None"
  shows "length (encode_attributes msg) \<le> 300 + texts_length msg"
proof -
  have err: "length (opt_atr encodeAtrError (errorCode msg)) \<le> 12 + (case errorCode msg of None \<Rightarrow> 0 | Some e \<Rightarrow> unat (sizeReason e))"
    using padded_less[of "4 + unat (sizeReason (the (errorCode msg)))"]
    by (cases "errorCode msg") (auto simp: opt_atr_def length_encodeAtrError)
  have unk: "opt_atr encodeAtrUnknown (unknownAttributes msg) = []"
    using assms by (simp add: opt_atr_def)
  note f = length_opt_fixed
  have "length (opt_atr encodeAtrRequestedTransport (requestedTransport msg)) \<le> 8"
    "length (opt_atr encodeAtrLifeTime (lifetimeAttributes msg)) \<le> 8"
    "length (opt_atr encodeAtrChangeRequest (changeRequest msg)) \<le> 8"
    "length (opt_atr encodeAtrPriority (priority msg)) \<le> 8"
    by (rule f, simp)+
  moreover have "length (opt_atr (encodeAtrAddress4 t) a) \<le> 12" for t a
    by (rule f) simp
  note adr = this[of SA_MAPPEDADDRESS "mappedAddress msg"] this[of SA_RESPONSEADDRESS "responseAddress msg"]
    this[of SA_SOURCEADDRESS "sourceAddress msg"] this[of SA_CHANGEDADDRESS "changedAddress msg"]
    this[of SA_REFLECTEDFROM "reflectedFrom msg"] this[of SA_XORMAPPEDADDRESS "xorMappedAddress msg"]
  moreover have "length (opt_atr (encodeAtrIceControll t) a) \<le> 12" for t a
    by (rule f) simp
  note this[of ICEA_ICECONTROLLED "iceControlled msg"] this[of ICEA_ICECONTROLLING "iceControlling msg"]
  ultimately show ?thesis
    unfolding encode_attributes_def texts_length_def length_append unk
    using err length_opt_string[of SA_USERNAME "username msg"] length_opt_string[of SA_NONCE "nonceName msg"]
      length_opt_string[of SA_REALM "realmName msg"] length_opt_string[of SA_SOFTWARE "softwareName msg"]
    by (simp split: if_splits)
qed

lemma sendable_texts: "sendable msg \<Longrightarrow> texts_length msg \<le> 4 * 513 + 127"
  unfolding sendable_def texts_length_def by (auto split: option.splits)

section \<open>The parts of an encoded message\<close>

definition header :: "StunMessage \<Rightarrow> nat \<Rightarrow> bytes" where
  "header msg n = be16_bytes (msgType msg) @ be16_bytes (of_nat n) @ be32_bytes (magic_cookie msg) @ tr_id msg"

definition is_signed :: "StunMessage \<Rightarrow> bytes option \<Rightarrow> bool" where
  "is_signed msg pw \<longleftrightarrow> messageIntegrity msg \<noteq> None \<and> text_of pw \<noteq> [] \<and> text_of (username msg) \<noteq> []"

definition message_hash :: "crypto \<Rightarrow> StunMessage \<Rightarrow> bytes option \<Rightarrow> bytes" where
  "message_hash cr msg pw = (let input = header msg (length (encode_attributes msg) + 24) @ encode_attributes msg in
     if text_of (realmName msg) \<noteq> []
     then stunCalculateIntegrity_longterm cr input (text_of (username msg)) (text_of (realmName msg)) (text_of pw)
     else stunCalculateIntegrity_shortterm cr input (text_of pw))"

definition signed_attributes :: "crypto \<Rightarrow> StunMessage \<Rightarrow> bytes option \<Rightarrow> bytes" where
  "signed_attributes cr msg pw = encode_attributes msg
     @ (if is_signed msg pw then encodeAtrIntegrity (message_hash cr msg pw) else [])"

definition message_crc :: "crypto \<Rightarrow> StunMessage \<Rightarrow> bytes option \<Rightarrow> u32" where
  "message_crc cr msg pw = stunCalculateFingerprint
     (header msg (length (signed_attributes cr msg pw) + 8) @ signed_attributes cr msg pw)"

definition all_attributes :: "crypto \<Rightarrow> StunMessage \<Rightarrow> bytes option \<Rightarrow> bytes" where
  "all_attributes cr msg pw = signed_attributes cr msg pw
     @ (if fingerprint msg \<noteq> None then encodeAtrFingerprint (message_crc cr msg pw) else [])"

lemma put_length_header: "put_length (header msg k @ r) n = header msg n @ r"
  by (simp add: put_length_def header_def be16_bytes_def)

lemma length_header: "length (tr_id msg) = 12 \<Longrightarrow> length (header msg n) = 20"
  by (simp add: header_def)

lemma encode_parts:
  assumes "length (tr_id msg) = 12"
  shows "stunEncodeMessage cr msg pw = header msg (length (all_attributes cr msg pw)) @ all_attributes cr msg pw"
proof -
  have start: "be16_bytes (msgType msg) @ be16_bytes 0 @ be32_bytes (magic_cookie msg) @ tr_id msg @ encode_attributes msg
      = header msg 0 @ encode_attributes msg"
    by (simp add: header_def)
  have int: "\<exists>k. add_integrity cr msg pw (header msg 0 @ encode_attributes msg) = header msg k @ signed_attributes cr msg pw"
    unfolding add_integrity_def signed_attributes_def is_signed_def message_hash_def Let_def put_length_header
    using assms by (auto simp: length_header)
  then obtain k where k: "add_integrity cr msg pw (header msg 0 @ encode_attributes msg) = header msg k @ signed_attributes cr msg pw"
    by blast
  have "\<exists>k'. add_fingerprint msg (header msg k @ signed_attributes cr msg pw) = header msg k' @ all_attributes cr msg pw"
    unfolding add_fingerprint_def all_attributes_def message_crc_def Let_def put_length_header
    using assms by (auto simp: length_header)
  then show ?thesis
    unfolding stunEncodeMessage_def Let_def start k using assms by (auto simp: put_length_header length_header)
qed

section \<open>Round trip\<close>

text \<open>The message that a receiver reads: the header with its length, the cookie in the byte order of the receiver, the hash and
  the masked CRC that the encoder computed.\<close>

definition received :: "crypto \<Rightarrow> StunMessage \<Rightarrow> bytes option \<Rightarrow> StunMessage" where
  "received cr msg pw = (received_attributes msg zero_msg)\<lparr>
     msgType := msgType msg, msgLength := of_nat (length (all_attributes cr msg pw)),
     magic_cookie := ntohl (magic_cookie msg), tr_id := tr_id msg,
     messageIntegrity := (if is_signed msg pw then Some (encode (message_hash cr msg pw) 20) else None),
     fingerprint := (if fingerprint msg \<noteq> None then Some (message_crc cr msg pw XOR 0x5354554E) else None)\<rparr>"

lemma length_all_attributes:
  "length (all_attributes cr msg pw) \<le> length (encode_attributes msg) + 32"
  by (simp add: all_attributes_def signed_attributes_def)

lemma attributes_16_bit: "sendable msg \<Longrightarrow> length (all_attributes cr msg pw) < 65536"
  using length_all_attributes[of cr msg pw] length_attributes[of msg] sendable_texts[of msg] by (simp add: sendable_def)

lemma parse_header:
  assumes "length (tr_id msg) = 12" "length r < 65536"
  shows "stunParseMessage (header msg (length r) @ r) = parse_loop r (of_nat (length r))
    (zero_msg\<lparr>msgType := msgType msg, msgLength := of_nat (length r), magic_cookie := ntohl (magic_cookie msg), tr_id := tr_id msg\<rparr>)"
proof -
  let ?buf = "header msg (length r) @ r"
  have "length ?buf = 20 + length r"
    by (simp add: length_header assms(1))
  moreover have "read16 ?buf 0 = msgType msg" "read16 ?buf 2 = of_nat (length r)" "read32 ?buf 4 = magic_cookie msg"
    by (simp_all add: header_def be16_bytes_def be32_bytes_def read16_def read32_def)
  moreover have "take 12 (drop 8 ?buf) = tr_id msg" "drop 20 ?buf = r"
    using assms(1) by (simp_all add: header_def be16_bytes_def be32_bytes_def)
  moreover have "unat (of_nat (length r) :: u16) = length r"
    using assms(2) by (simp add: unat_of_nat)
  moreover have "(ucast (of_nat (length r) :: u16) :: u32) = of_nat (length r)"
    using assms(2) by (simp add: word_unat_eq_iff unsigned_ucast_eq unat_of_nat take_bit_eq_mod)
  ultimately show ?thesis
    by (simp add: stunParseMessage_def Let_def assms(1))
qed

lemma parse_read: "reads_as bs f \<Longrightarrow> length bs < 2 ^ 32 \<Longrightarrow> parse_loop bs (of_nat (length bs)) m = Some (True, f m)"
  unfolding reads_as_def by (erule allE[of _ "[]"]) (simp add: parse_loop.simps[of "[]"])

lemma reads_all_attributes:
  assumes "sendable msg"
  obtains f where "reads_as (all_attributes cr msg pw) f"
    "\<And>m. clear_attributes m \<Longrightarrow> f m = flag_set (\<lambda>m. m\<lparr>fingerprint := Some (message_crc cr msg pw XOR 0x5354554E)\<rparr>) (fingerprint msg \<noteq> None)
       (flag_set (\<lambda>m. m\<lparr>messageIntegrity := Some (encode (message_hash cr msg pw) 20)\<rparr>) (is_signed msg pw) (received_attributes msg m))"
proof -
  obtain f where f: "reads_as (encode_attributes msg) f" "\<And>m. clear_attributes m \<Longrightarrow> f m = received_attributes msg m"
    using reads_attributes[OF assms] by blast
  show thesis
    by (rule that, unfold all_attributes_def signed_attributes_def, (rule reads_append reads_if reads f)+) (simp add: f)
qed

lemma clear_header: "clear_attributes (zero_msg\<lparr>msgType := a, msgLength := b, magic_cookie := c, tr_id := d\<rparr>)"
  by (simp add: clear_attributes_def zero_msg_def)

lemma parse_encoded:
  assumes "sendable msg"
  shows "stunParseMessage (stunEncodeMessage cr msg pw) = Some (True, received cr msg pw)"
proof -
  have tid: "length (tr_id msg) = 12"
    using assms by (simp add: sendable_def)
  have small: "length (all_attributes cr msg pw) < 65536"
    using assms by (rule attributes_16_bit)
  obtain f where f: "reads_as (all_attributes cr msg pw) f"
    "\<And>m. clear_attributes m \<Longrightarrow> f m = flag_set (\<lambda>m. m\<lparr>fingerprint := Some (message_crc cr msg pw XOR 0x5354554E)\<rparr>) (fingerprint msg \<noteq> None)
       (flag_set (\<lambda>m. m\<lparr>messageIntegrity := Some (encode (message_hash cr msg pw) 20)\<rparr>) (is_signed msg pw) (received_attributes msg m))"
    using reads_all_attributes[OF assms, of cr pw] by blast
  show ?thesis
    unfolding encode_parts[OF tid] parse_header[OF tid small]
    using small by (simp add: parse_read[OF f(1)] f(2)[OF clear_header] received_def)
      (simp add: zero_msg_def flag_set_def received_attributes_def)
qed

text \<open>C5: encoding a message and parsing the packet gives the message back.\<close>

theorem stun_message_roundtrip:
  assumes "sendable msg"
  shows "stunParseMessage (stunEncodeMessage cr msg pw) = Some (True, received cr msg pw)"
  using assms by (rule parse_encoded)

definition every_attribute :: StunMessage where
  "every_attribute = zero_msg\<lparr>msgType := 1, magic_cookie := 0x2112A442, tr_id := [1, 2, 3, 4, 5, 6, 7, 8, 9, 10, 11, 12],
     username := Some [0x61, 0x3A, 0x62], priority := Some 0x6E0001FF, useCandidate := True, iceControlling := Some 7,
     xorMappedAddress := Some \<lparr>pad = 0, family = 0, ipv4 = \<lparr>port = 4000, addr = 0x0A000001\<rparr>\<rparr>,
     messageIntegrity := Some [], fingerprint := Some 0\<rparr>"

text \<open>A keyed function in the place of HMAC-SHA1.\<close>

definition toy_crypto :: crypto where
  "toy_crypto = \<lparr>MD5 = take 16, HMAC_sha1 = (\<lambda>k d. take 20 (k @ rev d))\<rparr>"

theorem stun_message_roundtrip_witness:
  "stunParseMessage (stunEncodeMessage toy_crypto every_attribute (Some [0x70])) = Some (True, received toy_crypto every_attribute (Some [0x70]))"
  by (rule stun_message_roundtrip) (simp add: sendable_def every_attribute_def zero_msg_def text_of_def)

text \<open>An encoded message is at most 352 bytes longer than its texts.\<close>

theorem stun_message_length:
  assumes "length (tr_id msg) = 12" "unknownAttributes msg = None"
  shows "length (stunEncodeMessage cr msg pw) \<le> 352 + texts_length msg"
  using length_all_attributes[of cr msg pw] length_attributes[OF assms(2)]
  by (simp add: encode_parts[OF assms(1)] length_header[OF assms(1)])

theorem stun_message_length_witness:
  "length (stunEncodeMessage toy_crypto every_attribute (Some [0x70])) \<le> 355"
  using stun_message_length[of every_attribute toy_crypto "Some [0x70]"]
  by (simp add: every_attribute_def zero_msg_def texts_length_def text_of_def)

section \<open>Reads inside the packet\<close>

lemma unknown_types_in: "i + 2 * n \<le> length body \<Longrightarrow> \<exists>ts. unknown_types body i n = Some ts"
proof (induction n arbitrary: i)
  case (Suc n)
  then obtain ts where "unknown_types body (i + 2) n = Some ts"
    by (metis add_Suc_right add_2_eq_Suc add.assoc mult_Suc_right)
  then show ?case
    using Suc.prems by (simp add: get16_def)
qed simp

lemma fill_in: "(\<And>c. parse c \<noteq> None) \<Longrightarrow> fill parse z cur put \<noteq> None"
  by (auto simp: fill_def split: option.splits)

lemmas atr_in_defs = byte_at_def get16_def get32_def get64_def get_bytes_def Let_def

lemma address_in: "len \<le> length body \<Longrightarrow> stunParseAtrAddress body len c \<noteq> None"
  by (cases "len = 8") (auto simp: stunParseAtrAddress_def atr_in_defs)

lemma attribute_in:
  assumes "len \<le> length body" "t = TA_CHANNELNUMBER \<longrightarrow> len \<noteq> 0 \<or> 4 \<le> length body"
  shows "parse_attribute t body len m \<noteq> None"
proof -
  have "stun_parse_xor_mapped body len c \<noteq> None" for c
    using address_in[OF assms(1), of c] by (auto simp: stun_parse_xor_mapped_def split: option.splits bool.splits)
  moreover have "stunParseAtrUnknown body len c \<noteq> None" for c
  proof -
    have "\<exists>ts. unknown_types body 0 (len div 4) = Some ts"
      using assms(1) by (intro unknown_types_in) simp
    then show ?thesis
      by (auto simp: stunParseAtrUnknown_def)
  qed
  moreover have "turnParseAtrChannelNumber body len c \<noteq> None" if "t = TA_CHANNELNUMBER" for c
    using assms(2) that by (auto simp: turnParseAtrChannelNumber_def atr_in_defs)
  ultimately show ?thesis
    using assms(1) unfolding parse_attribute_def parse_turn_attribute_def parse_ice_attribute_def
    by (auto simp del: not_None_eq intro!: fill_in address_in simp: stunParseAtrChangeRequest_def stunParseAtrError_def
        stunParseAtrString_def stunParseAtrIntegrity_def turnParseAtrLifetime_def turnParseAtrData_def
        turnParseAtrRequestedTransport_def turnParseAtrReservationToken_def stunParseAtrFingerprint_def
        iceParseAtrPriority_def iceParseAtrIceControll_def atr_in_defs)
qed

lemma padded_dvd: "4 dvd padded n"
  unfolding padded_def by presburger

text \<open>Between the bytes of an aligned packet the padding of an attribute that passes the length test is in the packet, too.\<close>

lemma padded_fits:
  assumes "n + 4 \<le> len" "4 dvd len"
  shows "4 + padded n \<le> len"
proof (rule ccontr)
  assume a: "\<not> 4 + padded n \<le> len"
  have "padded n < n + 4" by (simp add: padded_def) 
  with a assms(1) padded_ge[of n] have "len < 4 + padded n" "4 + padded n < len + 4" by auto
  moreover have "4 dvd 4 + padded n" using padded_dvd by (rule dvd_add[OF dvd_refl])
  ultimately show False using assms(2) by presburger
qed

definition ends_in_channel :: "bytes \<Rightarrow> bool" where
  "ends_in_channel buf \<longleftrightarrow> drop (length buf - 4) buf = [0x00, 0x0C, 0x00, 0x00]"

lemma ends_in_channel_drop: "k + 4 \<le> length body \<Longrightarrow> ends_in_channel (drop k body) = ends_in_channel body"
  by (simp add: ends_in_channel_def)

lemma channel_header:
  assumes "length body = 4" "read16 body 0 = TA_CHANNELNUMBER" "read16 body 2 = 0"
  shows "ends_in_channel body"
proof -
  obtain a b c d where "body = [a, b, c, d]"
    using assms(1) by (auto simp: numeral_eq_Suc length_Suc_conv)
  moreover from this have "be16 a b = 0x000C" "be16 c d = 0"
    using assms(2,3) by (simp_all add: read16_def)
  then have "a = 0x00 \<and> b = 0x0C" "c = 0 \<and> d = 0"
    unfolding atomize_conj using be16_fst[of a b] be16_snd[of a b] be16_fst[of c d] be16_snd[of c d]
    by (simp only:) simp
  ultimately show ?thesis
    by (simp add: ends_in_channel_def)
qed

lemma parse_loop_in:
  "4 dvd length body \<Longrightarrow> length body < 2 ^ 32 \<Longrightarrow> \<not> ends_in_channel body \<Longrightarrow> parse_loop body (of_nat (length body)) m \<noteq> None"
proof (induction "length body" arbitrary: body m rule: less_induct)
  case less
  let ?n = "unat (read16 body 2)" and ?t = "read16 body 0"
  have u: "unat (of_nat (length body) :: u32) = length body"
    using less.prems(2) by (simp add: unat_of_nat)
  show ?case
  proof (cases "length body = 0 \<or> length body < ?n + 4")
    case True
    then show ?thesis
      using less.prems(1) u by (subst parse_loop.simps) (auto simp: Let_def dvd_imp_le)
  next
    case False
    then have fit: "4 + padded ?n \<le> length body"
      using less.prems(1) by (intro padded_fits) simp_all
    have step: "(of_nat (length body) :: u32) - 4 - of_nat (padded ?n) = of_nat (length (drop (4 + padded ?n) body))"
      using fit by (simp add: of_nat_diff)
    have "?n \<noteq> 0 \<or> 4 \<le> length (drop 4 body)" if "?t = TA_CHANNELNUMBER"
    proof (rule ccontr)
      assume "\<not> ?thesis"
      then have "length body = 4" "read16 body 2 = 0"
        using False less.prems(1) by (auto simp: unat_eq_0 elim!: dvdE)
      then show False
        using channel_header[OF _ that] less.prems(3) by blast
    qed
    then have at: "parse_attribute ?t (drop 4 body) ?n m \<noteq> None"
      using fit padded_ge[of ?n] by (intro attribute_in) auto
    have rec: "parse_loop (drop (4 + padded ?n) body) (of_nat (length body) - 4 - of_nat (padded ?n)) m' \<noteq> None" for m'
    proof (cases "length (drop (4 + padded ?n) body) = 0")
      case True
      then show ?thesis unfolding step by (simp add: parse_loop.simps)
    next
      case rest: False
      have al: "4 dvd length (drop (4 + padded ?n) body)"
        using less.prems(1) padded_dvd[of ?n] by (simp add: dvd_diff_nat)
      then have "4 \<le> length (drop (4 + padded ?n) body)" using rest by (intro dvd_imp_le) auto
      then have "\<not> ends_in_channel (drop (4 + padded ?n) body)"
        using less.prems(3) ends_in_channel_drop[of "4 + padded ?n" body] by simp
      then show ?thesis
        unfolding step using less.prems(2) fit al by (intro less.hyps) auto
    qed
    show ?thesis
      using False at rec by (subst parse_loop.simps) (auto simp: Let_def u split: option.split bool.split simp del: drop_drop)
  qed
qed

lemma parse_message_loop:
  assumes "20 \<le> length buf" "unat (read16 buf 2) + 20 = length buf"
  obtains m where "stunParseMessage buf = parse_loop (drop 20 buf) (of_nat (length (drop 20 buf))) m"
    "length (drop 20 buf) < 65536"
proof -
  have len: "length (drop 20 buf) = unat (read16 buf 2)"
    using assms(2) by (metis add_diff_cancel_right' length_drop)
  have "(ucast (read16 buf 2) :: u32) = of_nat (length (drop 20 buf))"
    unfolding len by (simp add: word_unat_eq_iff unsigned_ucast_eq unat_of_nat take_bit_eq_mod)
  moreover have "length (drop 20 buf) < 65536"
    unfolding len by (rule less_le_trans[OF unsigned_less]) simp
  ultimately show thesis
    using assms by (intro that) (auto simp: stunParseMessage_def Let_def simp del: length_drop)
qed

text \<open>C37: the parser reads no byte behind any packet whose length is a multiple of 4, whatever its attributes and the lengths they
  claim, unless the packet ends in the header of an empty CHANNEL-NUMBER.\<close>

theorem stun_parse_in_bounds:
  assumes "4 dvd length buf" "\<not> ends_in_channel buf"
  shows "stunParseMessage buf \<noteq> None"
proof (cases "length buf < 20 \<or> unat (read16 buf 2) + 20 \<noteq> length buf")
  case True
  then show ?thesis
    by (auto simp: stunParseMessage_def Let_def)
next
  case False
  then obtain m where m: "stunParseMessage buf = parse_loop (drop 20 buf) (of_nat (length (drop 20 buf))) m"
      "length (drop 20 buf) < 65536"
    using parse_message_loop[of buf] by auto
  show ?thesis
  proof (cases "length buf = 20")
    case True
    then show ?thesis unfolding m(1) by (simp add: parse_loop.simps)
  next
    case len: False
    then have "24 \<le> length buf" using False assms(1) by presburger
    then have "\<not> ends_in_channel (drop 20 buf)" using ends_in_channel_drop[of 20 buf] assms(2) by simp
    moreover have "4 dvd length (drop 20 buf)" using assms(1) by (simp add: dvd_diff_nat)
    ultimately show ?thesis unfolding m(1) using m(2) by (intro parse_loop_in) auto
  qed
qed

text \<open>The size loses a multiple of 4 with every attribute, so it reaches 0 only from a multiple of 4, also when it wraps around.\<close>

lemma parse_loop_accepts: "parse_loop body sz m = Some (True, m') \<Longrightarrow> 4 dvd unat sz"
proof (induction body sz m rule: parse_loop.induct)
  case (1 body sz m)
  let ?n = "unat (read16 body 2)"
  show ?case
  proof (cases "sz = 0")
    case False
    with 1(2) obtain m1 where a: "\<not> length body < 4" "\<not> unat sz < ?n + 4"
        "parse_attribute (read16 body 0) (drop 4 body) ?n m = Some (True, m1)"
        "parse_loop (drop (4 + padded ?n) body) (sz - 4 - of_nat (padded ?n)) m1 = Some (True, m')"
      by (subst (asm) parse_loop.simps) (auto simp: Let_def split: if_splits option.splits bool.splits simp del: drop_drop)
    have "4 dvd unat (sz - 4 - of_nat (padded ?n))"
      using 1(1)[OF False a(1) refl refl a(2,3) refl refl a(4)] .
    moreover have "unat (sz - 4 - of_nat (padded ?n)) mod 4 = unat sz mod 4"
    proof -
      obtain k where k: "padded ?n = 4 * k" using padded_dvd[of ?n] by blast
      define x where "x = sz - 4 - of_nat (padded ?n)"
      have "sz = x + of_nat (4 * (k + 1))" by (simp add: x_def k)
      then have "unat sz = (unat x + 4 * (k + 1)) mod 2 ^ 32"
        by (simp add: unat_word_ariths unat_of_nat mod_simps del: of_nat_mult of_nat_add)
      then have "unat sz mod 4 = (unat x + 4 * (k + 1)) mod 4" by (simp add: mod_mod_cancel)
      also have "\<dots> = unat x mod 4" by (rule mod_mult_self2)
      finally show ?thesis unfolding x_def by simp
    qed
    ultimately show ?thesis by (simp add: dvd_eq_mod_eq_0)
  qed simp
qed

lemma last_username:
  assumes "length s < STUN_MAX_STRING"
  shows "parse_loop (be16_bytes SA_USERNAME @ be16_bytes (of_nat (length s)) @ s) (of_nat (4 + length s)) m = None \<longleftrightarrow> \<not> 4 dvd length s"
proof (cases "length s mod 4 = 0")
  let ?b = "be16_bytes SA_USERNAME @ be16_bytes (of_nat (length s)) @ s"
  have len: "length ?b = 4 + length s"
    by simp
  case True
  then have "?b = encodeAtrString SA_USERNAME s"
    by (simp add: encodeAtrString_def)
  moreover have "length ?b < 2 ^ 32"
    unfolding len using assms(1) by simp
  ultimately have "parse_loop ?b (of_nat (length ?b)) m = Some (True, m\<lparr>username := Some s\<rparr>)"
    using parse_read[OF reads_username[OF assms(1)]] by simp
  then show ?thesis
    unfolding len using True by (simp add: dvd_eq_mod_eq_0 del: of_nat_add)
next
  let ?b = "be16_bytes SA_USERNAME @ be16_bytes (of_nat (length s)) @ s"
  have len: "length ?b = 4 + length s"
    by simp
  case False
  then have n: "padded (length s) = length s + (4 - length s mod 4)"
    by (simp add: padded_def)
  have gt: "length s < padded (length s)" "padded (length s) < 1000"
    using False assms(1) padded_less[of "length s"] unfolding n by auto
  have sz: "(of_nat (4 + length s) :: u32) - 4 - of_nat (padded (length s)) \<noteq> 0"
  proof
    assume "(of_nat (4 + length s) :: u32) - 4 - of_nat (padded (length s)) = 0"
    then have "(of_nat (length s) :: u32) = of_nat (padded (length s))"
      by simp
    then have "unat (of_nat (length s) :: u32) = unat (of_nat (padded (length s)) :: u32)"
      by simp
    then show False
      using gt assms(1) by (simp add: unat_of_nat)
  qed
  have "read16 ?b 0 = SA_USERNAME" "unat (read16 ?b 2) = length s" "drop 4 ?b = s"
    using assms(1) by (simp_all add: bytes_defs unat_of_nat) (simp add: be16_def)
  moreover have "parse_attribute SA_USERNAME s (length s) m = Some (True, m\<lparr>username := Some s\<rparr>)" for m
    using assms(1) by (simp add: parse_attribute_def fill_def stunParseAtrString_def get_bytes_def)
  moreover have "drop (4 + padded (length s)) ?b = []"
    using gt by simp
  moreover have "parse_loop [] (of_nat (4 + length s) - 4 - of_nat (padded (length s))) m = None" for m
    using sz by (simp only: parse_loop.simps[of "[]"]) simp
  moreover have "(of_nat (4 + length s) :: u32) \<noteq> 0" "\<not> unat (of_nat (4 + length s) :: u32) < length s + 4"
    using assms(1) by (simp_all only: word_unat_eq_iff unat_of_nat) simp_all
  ultimately show ?thesis
    using False by (subst parse_loop.simps, unfold dvd_eq_mod_eq_0) (simp only: Let_def len option.case prod.case bool.case if_False, simp)
  qed

text \<open>C38: a packet whose length is not a multiple of 4 is never accepted; and when, behind any attributes that the parser takes, the
  last one is a user name, the parser reads behind the packet exactly when the padding of the name is missing.\<close>

theorem stun_unpadded_attribute:
  assumes "reads_as pre f" "length s < STUN_MAX_STRING" "length (tr_id msg) = 12" "length pre + (4 + length s) < 65536"
  shows "(stunParseMessage (header msg (length pre + (4 + length s)) @ pre @ be16_bytes SA_USERNAME @ be16_bytes (of_nat (length s)) @ s) = None
      \<longleftrightarrow> \<not> 4 dvd length s) \<and> (\<forall>buf m. stunParseMessage buf = Some (True, m) \<longrightarrow> 4 dvd length buf)"
proof
  let ?b = "be16_bytes SA_USERNAME @ be16_bytes (of_nat (length s)) @ s"
  have len: "length ?b = 4 + length s" "length (pre @ ?b) = length pre + (4 + length s)"
    by simp_all
  obtain m0 where "stunParseMessage (header msg (length (pre @ ?b)) @ pre @ ?b) = parse_loop (pre @ ?b) (of_nat (length (pre @ ?b))) m0"
    using parse_header[OF assms(3), of "pre @ ?b"] assms(4) unfolding len by blast
  also have "\<dots> = parse_loop ?b (of_nat (4 + length s)) (f m0)"
  proof -
    have "length (pre @ ?b) < 2 ^ 32" using assms(4) unfolding len(2) by (rule less_trans) simp
    then show ?thesis using assms(1) unfolding reads_as_def len(1)[symmetric] by blast
  qed
  finally show "stunParseMessage (header msg (length pre + (4 + length s)) @ pre @ ?b) = None \<longleftrightarrow> \<not> 4 dvd length s"
    unfolding len(2) using last_username[OF assms(2), of "f m0"] by simp
  show "\<forall>buf m. stunParseMessage buf = Some (True, m) \<longrightarrow> 4 dvd length buf"
  proof (intro allI impI)
    fix buf m
    assume a: "stunParseMessage buf = Some (True, m)"
    then have b: "20 \<le> length buf" "unat (read16 buf 2) + 20 = length buf"
      by (auto simp: stunParseMessage_def Let_def split: if_splits)
    obtain m' where "parse_loop (drop 20 buf) (of_nat (length (drop 20 buf))) m' = Some (True, m)" and l: "length (drop 20 buf) < 65536"
      using parse_message_loop[OF b] a by metis
    from parse_loop_accepts[OF this(1)] l have "4 dvd length (drop 20 buf)" by (simp add: unat_of_nat del: length_drop)
    then show "4 dvd length buf" using b(1) by (simp add: dvd_eq_mod_eq_0) presburger
  qed
qed

definition padded_packet :: bytes where
  "padded_packet = [0, 1, 0, 8, 0x21, 0x12, 0xA4, 0x42, 1, 2, 3, 4, 5, 6, 7, 8, 9, 10, 11, 12, 0, 6, 0, 3, 0x61, 0x3A, 0x62, 0]"

theorem stun_parse_in_bounds_witness: "stunParseMessage padded_packet \<noteq> None"
  by (rule stun_parse_in_bounds) (simp_all add: padded_packet_def ends_in_channel_def dvd_eq_mod_eq_0)

text \<open>A priority and a user name of three bytes without its padding.\<close>

theorem stun_unpadded_attribute_witness:
  "stunParseMessage (header every_attribute 15 @ encodeAtrPriority 7 @ be16_bytes SA_USERNAME @ be16_bytes 3 @ [0x61, 0x3A, 0x62]) = None"
  using stun_unpadded_attribute[OF reads_priority, of "[0x61, 0x3A, 0x62]" every_attribute 7]
  by (simp add: every_attribute_def zero_msg_def encodeAtrPriority_def dvd_eq_mod_eq_0)

end
