(* ===== verification/Stun_Server.thy ===== *)
theory Stun_Server
  imports Stun_Codec
begin

text \<open>
  Requests and the server (\<open>stun.c\<close>): \<open>stunBuildReqSimple\<close>, the answer of \<open>stunServerProcessMsg\<close>, the error response, and the
  address a client takes from the answer. The random numbers of \<open>stunRand\<close> are an argument, HMAC-SHA1 is a parameter.
\<close>

section \<open>Requests\<close>

definition random_octets :: "u32 \<Rightarrow> bytes" where
  "random_octets r = [ucast r, ucast (drop_bit 8 r), ucast (drop_bit 16 r), ucast (drop_bit 24 r)]"

definition stunBuildReqSimple :: "u32 \<Rightarrow> u32 \<Rightarrow> u32 \<Rightarrow> bytes option \<Rightarrow> bool \<Rightarrow> bool \<Rightarrow> u32 \<Rightarrow> StunMessage" where
  "stunBuildReqSimple r0 r1 r2 uname changePort changeIp id_no =
    (let m = zero_msg\<lparr>msgType := STUN_METHOD_BINDING OR STUN_REQUEST, magic_cookie := 0x2112A442,
               tr_id := random_octets r0 @ random_octets r1 @ random_octets r2\<rparr>;
         m = (if id_no \<noteq> 0 then m\<lparr>tr_id := (tr_id m)[0 := ucast id_no]\<rparr> else m);
         m = (if changePort \<or> changeIp
              then m\<lparr>changeRequest := Some ((if changeIp then ChangeIpFlag else 0) OR (if changePort then ChangePortFlag else 0))\<rparr> else m)
     in if text_of uname \<noteq> [] then m\<lparr>username := uname\<rparr> else m)"

section \<open>The server\<close>

text \<open>\<open>strcpy\<close> puts the text of the error into the array; \<open>sizeReason\<close> is not set.\<close>

definition stunCreateErrorResponse :: "u8 \<Rightarrow> u8 \<Rightarrow> bytes \<Rightarrow> StunMessage \<Rightarrow> StunMessage" where
  "stunCreateErrorResponse cl num text response = response\<lparr>msgType := STUN_METHOD_BINDING OR STUN_ERR_RESP,
     errorCode := Some ((case errorCode response of None \<Rightarrow> zero_error | Some e \<Rightarrow> e)\<lparr>errorClass := cl, number := num, reason := text\<rparr>)\<rparr>"

definition bytes_of :: "string \<Rightarrow> bytes" where
  "bytes_of s = map of_char s"

text \<open>\<open>sscanf(..., "%x", ...)\<close>: white space, a sign, \<open>0x\<close>, the digits; the value as \<open>strtoul\<close> clips it, cut to 32 bits.
  \<open>None\<close> when there is no digit and the variable stays without a value.\<close>

definition scan_space :: "u8 \<Rightarrow> bool" where
  "scan_space b \<longleftrightarrow> b = 0x20 \<or> 9 \<le> b \<and> b \<le> 13"

definition hex_digit :: "u8 \<Rightarrow> nat option" where
  "hex_digit b = (if 0x30 \<le> b \<and> b \<le> 0x39 then Some (unat b - 0x30)
     else if 0x41 \<le> b \<and> b \<le> 0x46 then Some (unat b - 0x41 + 10)
     else if 0x61 \<le> b \<and> b \<le> 0x66 then Some (unat b - 0x61 + 10) else None)"

fun hex_value :: "nat \<Rightarrow> bytes \<Rightarrow> nat" where
  "hex_value acc [] = acc"
| "hex_value acc (b # bs) = (case hex_digit b of None \<Rightarrow> acc | Some d \<Rightarrow> hex_value (16 * acc + d) bs)"

definition scan_hex :: "bytes \<Rightarrow> u32 option" where
  "scan_hex s = (let s = dropWhile scan_space s;
       neg = (s \<noteq> [] \<and> hd s = 0x2D);
       s = (if s \<noteq> [] \<and> hd s \<in> {0x2B, 0x2D} then tl s else s);
       s = (if 2 \<le> length s \<and> s ! 0 = 0x30 \<and> s ! 1 \<in> {0x58, 0x78} then drop 2 s else s)
     in if s = [] \<or> hex_digit (hd s) = None then None
        else let v = hex_value 0 s in
          if 2 ^ 64 \<le> v then Some (of_nat (2 ^ 64 - 1)) else Some (if neg then - of_nat v else of_nat v))"

text \<open>The result of the function, the response, the destination and the two flags.\<close>

record server_result =
  ok_flag :: bool
  resp :: StunMessage
  destination :: "StunAddress4 option"
  changePort :: bool
  changeIp :: bool

definition server_fail :: "bool \<Rightarrow> StunMessage \<Rightarrow> server_result" where
  "server_fail b r = \<lparr>ok_flag = b, resp = r, destination = None, changePort = False, changeIp = False\<rparr>"

text \<open>\<open>"oRTP   " STUN_VERSION\<close> with its final zero.\<close>

definition serverName :: bytes where
  "serverName = bytes_of ''oRTP   0.99'' @ [0]"

definition plain_atr :: "StunAddress4 \<Rightarrow> StunAtrAddress4" where
  "plain_atr a = zero_atr_addr\<lparr>ipv4 := a\<rparr>"

text \<open>The authentication of a request: \<open>Inl\<close> is an error response that is sent at once, \<open>Inr\<close> the response so far. The HMAC is that
  of the packet up to the attribute when MESSAGE-INTEGRITY is the last one, and it is compared with the start of the packet.\<close>

definition server_authenticate :: "crypto \<Rightarrow> bytes \<Rightarrow> StunMessage \<Rightarrow> StunMessage + StunMessage" where
  "server_authenticate cr buf req =
    (if messageIntegrity req = None then Inr zero_msg
     else if username req = None
     then Inl (stunCreateErrorResponse 4 32 (bytes_of ''No UserName and contains SA_MESSAGEINTEGRITY'') zero_msg)
     else if c_str (text_of (username req)) = bytes_of ''test'' then
       (let hmac = HMAC_sha1 cr (bytes_of ''1234'') (take (length buf - 20 - 4) buf)
        in if take 20 buf \<noteq> hmac
           then Inl (stunCreateErrorResponse 4 3 (bytes_of ''Unknown username. Try test with password 1234'') zero_msg)
           else Inr (zero_msg\<lparr>messageIntegrity := Some (replicate 20 0), username := username req\<rparr>))
     else Inr zero_msg)"

text \<open>The body of the success response; \<open>None\<close> is a USERNAME of more than 64 bytes without a hexadecimal number.\<close>

definition server_answer :: "StunMessage \<Rightarrow> StunAddress4 \<Rightarrow> StunAddress4 \<Rightarrow> StunAddress4 \<Rightarrow> StunMessage \<Rightarrow> server_result option" where
  "server_answer req from myAddr altAddr r0 =
    (let respondTo = ipv4_of (responseAddress req); respondTo = (if port respondTo = 0 then from else respondTo);
         mapped = ipv4_of (mappedAddress req); mapped = (if port mapped = 0 then from else mapped);
         flags = (case changeRequest req of None \<Rightarrow> 0 | Some v \<Rightarrow> v);
         cip = (flags AND ChangeIpFlag \<noteq> 0); cport = (flags AND ChangePortFlag \<noteq> 0);
         r = r0\<lparr>msgType := STUN_METHOD_BINDING OR STUN_SUCCESS_RESP, magic_cookie := ntohl (magic_cookie req), tr_id := tr_id req,
                xorMappedAddress := Some (plain_atr (xor_address mapped)),
                mappedAddress := Some (plain_atr mapped),
                sourceAddress := Some (plain_atr \<lparr>port = (if cport then port altAddr else port myAddr),
                                                  addr = (if cip then addr altAddr else addr myAddr)\<rparr>),
                changedAddress := Some (plain_atr altAddr)\<rparr>;
         r = (if text_of (username req) \<noteq> [] then r\<lparr>username := username req\<rparr> else r);
         r = r\<lparr>softwareName := Some serverName\<rparr>;
         result = (\<lambda>r. \<lparr>ok_flag = True, resp = r, destination = Some respondTo, changePort = cport, changeIp = cip\<rparr>)
     in if 64 < length (text_of (username req))
        then map_option (\<lambda>source. result (r\<lparr>reflectedFrom := Some (plain_atr \<lparr>port = 0, addr = source\<rparr>)\<rparr>))
               (scan_hex (c_str (text_of (username req))))
        else Some (result r))"

definition stunServerProcessMsg :: "crypto \<Rightarrow> bytes \<Rightarrow> StunAddress4 \<Rightarrow> StunAddress4 \<Rightarrow> StunAddress4 \<Rightarrow> server_result option" where
  "stunServerProcessMsg cr buf from myAddr altAddr = (case stunParseMessage buf of
     None \<Rightarrow> None
   | Some (False, _) \<Rightarrow> Some (server_fail False zero_msg)
   | Some (True, req) \<Rightarrow>
       if msgType req = STUN_METHOD_BINDING OR STUN_REQUEST then (case server_authenticate cr buf req of
           Inl r \<Rightarrow> Some (server_fail True r)
         | Inr r \<Rightarrow> server_answer req from myAddr altAddr r)
       else Some (server_fail False zero_msg))"

section \<open>The client\<close>

text \<open>The address that \<open>stunOpenSocket\<close> takes from the answer, and the addresses that \<open>stunTest\<close> gives.\<close>

definition client_mapped_address :: "StunMessage \<Rightarrow> StunAddress4" where
  "client_mapped_address m = (if xorMappedAddress m \<noteq> None then ipv4_of (xorMappedAddress m) else ipv4_of (mappedAddress m))"

text \<open>\<open>stunTest\<close>: the port that is used, the result, and the source, mapped and changed addresses that are handed back; the answer is
  used whether or not it parsed. \<open>reply\<close> is the packet that \<open>getMessage\<close> delivers, if any.\<close>

record test_result =
  test_ok :: bool
  src_addr :: "StunAddress4 option"
  mapped_addr :: "StunAddress4 option"
  changed_addr :: "StunAddress4 option"

definition stunTest :: "(u16 \<Rightarrow> bool) \<Rightarrow> u16 \<Rightarrow> bytes option \<Rightarrow> StunAddress4 option \<Rightarrow> test_result option" where
  "stunTest can_open random_port reply src =
    (let p = (case src of Some a \<Rightarrow> if port a \<noteq> 0 then port a else random_port | None \<Rightarrow> random_port);
         fail = \<lparr>test_ok = False, src_addr = src, mapped_addr = None, changed_addr = None\<rparr>
     in if \<not> can_open p then Some fail
        else case reply of None \<Rightarrow> Some fail
        | Some bs \<Rightarrow> map_option (\<lambda>(ok, m). \<lparr>test_ok = ok, src_addr = map_option (\<lambda>a. a\<lparr>port := p\<rparr>) src,
             mapped_addr = Some (ipv4_of (mappedAddress m)), changed_addr = Some (ipv4_of (changedAddress m))\<rparr>) (stunParseMessage bs))"

text \<open>\<open>randomPort\<close>: the random number put into the range from 4000 to 7FFF, in hexadecimal.\<close>

definition randomPort :: "u32 \<Rightarrow> u32" where
  "randomPort r = (r OR 0x4000) AND 0x7FFF"

lemma randomPort_range: "0x4000 \<le> randomPort r \<and> randomPort r \<le> 0x7FFF"
proof -
  have "(randomPort r) AND 0x4000 = 0x4000"
    unfolding randomPort_def by (simp add: and.assoc bit.conj_disj_distrib2 flip: word_bw_assocs)
  then have "0x4000 \<le> randomPort r"
    by (metis word_and_le2)
  moreover have "randomPort r \<le> 0x7FFF"
    unfolding randomPort_def by (rule word_and_le1)
  ultimately show ?thesis
    by simp
qed

text \<open>The request that \<open>stunSendTest\<close> sends in a test; \<open>None\<close> is an unknown test.\<close>

definition stunSendTest :: "crypto \<Rightarrow> u32 \<Rightarrow> u32 \<Rightarrow> u32 \<Rightarrow> bytes option \<Rightarrow> bytes option \<Rightarrow> nat \<Rightarrow> bytes option" where
  "stunSendTest cr r0 r1 r2 uname pw testNum = map_option
     (\<lambda>(cport, cip). stunEncodeMessage cr (stunBuildReqSimple r0 r1 r2 uname cport cip (of_nat testNum)) pw)
     (if testNum \<in> {1, 10, 11} then Some (False, False) else if testNum = 2 then Some (False, True)
      else if testNum = 3 then Some (True, False) else if testNum = 4 then Some (False, True) else None)"

section \<open>A transaction\<close>

lemma xor_address_twice [simp]: "xor_address (xor_address a) = a"
  by (cases a) (simp add: xor_address_def xor.assoc)

lemma ntohl_twice [simp]: "ntohl (ntohl w) = w"
  by (simp add: ntohl_def be32_nth)

lemma length_random_octets [simp]: "length (random_octets r) = 4"
  by (simp add: random_octets_def)

definition request_of_test :: "u32 \<Rightarrow> u32 \<Rightarrow> u32 \<Rightarrow> nat \<Rightarrow> StunMessage" where
  "request_of_test r0 r1 r2 n = stunBuildReqSimple r0 r1 r2 None (n = 3) (n = 2 \<or> n = 4) (of_nat n)"

lemma stunSendTest_request:
  "n \<in> {1, 2, 3, 4, 10, 11} \<Longrightarrow> stunSendTest cr r0 r1 r2 None pw n = Some (stunEncodeMessage cr (request_of_test r0 r1 r2 n) pw)"
  unfolding insert_iff by (elim disjE) (simp_all add: stunSendTest_def request_of_test_def)

lemma request_fields:
  "length (tr_id (request_of_test r0 r1 r2 n)) = 12"
  "msgType (request_of_test r0 r1 r2 n) = STUN_METHOD_BINDING OR STUN_REQUEST"
  "magic_cookie (request_of_test r0 r1 r2 n) = 0x2112A442"
  "username (request_of_test r0 r1 r2 n) = None" "messageIntegrity (request_of_test r0 r1 r2 n) = None"
  "mappedAddress (request_of_test r0 r1 r2 n) = None" "responseAddress (request_of_test r0 r1 r2 n) = None"
  "changeRequest (request_of_test r0 r1 r2 n) = (if n = 3 then Some ChangePortFlag else if n = 2 \<or> n = 4 then Some ChangeIpFlag else None)"
  "sendable (request_of_test r0 r1 r2 n)"
  by (auto simp: request_of_test_def stunBuildReqSimple_def Let_def zero_msg_def text_of_def sendable_def)

lemma request_id: "0 < n \<Longrightarrow> n < 256 \<Longrightarrow> tr_id (request_of_test r0 r1 r2 n) ! 0 = of_nat n"
proof -
  assume n: "0 < n" "n < 256"
  then have "(of_nat n :: u32) \<noteq> 0"
    by (simp add: word_unat_eq_iff unat_of_nat)
  moreover have "take_bit 32 n = n"
    using n by (intro take_bit_nat_eq_self) simp
  ultimately show ?thesis
    by (simp add: request_of_test_def stunBuildReqSimple_def Let_def zero_msg_def text_of_def random_octets_def unsigned_of_nat)
qed

text \<open>The answer to a request without USERNAME, MESSAGE-INTEGRITY, MAPPED-ADDRESS and RESPONSE-ADDRESS.\<close>

definition plain_response :: "StunMessage \<Rightarrow> StunAddress4 \<Rightarrow> StunAddress4 \<Rightarrow> StunAddress4 \<Rightarrow> StunMessage" where
  "plain_response req peer src alt = zero_msg\<lparr>msgType := STUN_METHOD_BINDING OR STUN_SUCCESS_RESP, magic_cookie := ntohl (magic_cookie req),
     tr_id := tr_id req, xorMappedAddress := Some (plain_atr (xor_address peer)), mappedAddress := Some (plain_atr peer),
     sourceAddress := Some (plain_atr src), changedAddress := Some (plain_atr alt), softwareName := Some serverName\<rparr>"

definition asks :: "StunMessage \<Rightarrow> u32 \<Rightarrow> bool" where
  "asks req flag \<longleftrightarrow> (case changeRequest req of None \<Rightarrow> 0 | Some v \<Rightarrow> v) AND flag \<noteq> 0"

definition answer_source :: "StunMessage \<Rightarrow> StunAddress4 \<Rightarrow> StunAddress4 \<Rightarrow> StunAddress4" where
  "answer_source req my alt = \<lparr>port = (if asks req ChangePortFlag then port alt else port my),
                              addr = (if asks req ChangeIpFlag then addr alt else addr my)\<rparr>"

lemma server_answers_plain:
  assumes "stunParseMessage buf = Some (True, req)" "msgType req = STUN_METHOD_BINDING OR STUN_REQUEST"
    "messageIntegrity req = None" "username req = None" "mappedAddress req = None" "responseAddress req = None"
  shows "stunServerProcessMsg cr buf peer my alt = Some \<lparr>ok_flag = True, resp = plain_response req peer (answer_source req my alt) alt,
     destination = Some peer, changePort = asks req ChangePortFlag, changeIp = asks req ChangeIpFlag\<rparr>"
  using assms by (simp add: stunServerProcessMsg_def server_authenticate_def server_answer_def Let_def text_of_def ipv4_of_def
      zero_addr_def plain_response_def answer_source_def asks_def zero_msg_def)

lemma sendable_plain_response: "length (tr_id req) = 12 \<Longrightarrow> sendable (plain_response req peer src alt)"
  by (simp add: sendable_def plain_response_def zero_msg_def text_of_def serverName_def bytes_of_def)

lemma received_plain_response:
  "xorMappedAddress (received cr (plain_response req peer src alt) pw) \<noteq> None"
  "ipv4_of (xorMappedAddress (received cr (plain_response req peer src alt) pw)) = peer"
  "ipv4_of (mappedAddress (received cr (plain_response req peer src alt) pw)) = peer"
  "ipv4_of (sourceAddress (received cr (plain_response req peer src alt) pw)) = src"
  "ipv4_of (changedAddress (received cr (plain_response req peer src alt) pw)) = alt"
  "tr_id (received cr (plain_response req peer src alt) pw) = tr_id req"
  "magic_cookie (received cr (plain_response req peer src alt) pw) = magic_cookie req"
  "STUN_IS_SUCCESS_RESP (msgType (received cr (plain_response req peer src alt) pw))"
  by (simp_all add: received_def received_attributes_def plain_response_def ipv4_of_def plain_atr_def as_ipv4_def zero_msg_def
      STUN_IS_SUCCESS_RESP_def)

lemma received_request:
  "msgType (received cr (request_of_test r0 r1 r2 n) pw) = STUN_METHOD_BINDING OR STUN_REQUEST"
  "messageIntegrity (received cr (request_of_test r0 r1 r2 n) pw) = None"
  "username (received cr (request_of_test r0 r1 r2 n) pw) = None"
  "mappedAddress (received cr (request_of_test r0 r1 r2 n) pw) = None"
  "responseAddress (received cr (request_of_test r0 r1 r2 n) pw) = None"
  "tr_id (received cr (request_of_test r0 r1 r2 n) pw) = tr_id (request_of_test r0 r1 r2 n)"
  "magic_cookie (received cr (request_of_test r0 r1 r2 n) pw) = ntohl 0x2112A442"
  "asks (received cr (request_of_test r0 r1 r2 n) pw) ChangePortFlag \<longleftrightarrow> n = 3"
  "asks (received cr (request_of_test r0 r1 r2 n) pw) ChangeIpFlag \<longleftrightarrow> n = 2 \<or> n = 4"
  by (simp_all add: received_def received_attributes_def request_fields is_signed_def asks_def)

text \<open>The source a server answers a test from: its second port for test 3, its second address for tests 2 and 4.\<close>

definition test_source :: "nat \<Rightarrow> StunAddress4 \<Rightarrow> StunAddress4 \<Rightarrow> StunAddress4" where
  "test_source n my alt = \<lparr>port = (if n = 3 then port alt else port my), addr = (if n = 2 \<or> n = 4 then addr alt else addr my)\<rparr>"

lemma transaction:
  assumes "n \<in> {1, 2, 3, 4, 10, 11}"
    and "stunSendTest cr r0 r1 r2 None pw n = Some request"
  shows "\<exists>res answer. stunServerProcessMsg cr request peer my alt = Some res \<and> ok_flag res \<and> destination res = Some peer
     \<and> stunParseMessage (stunEncodeMessage cr (resp res) spw) = Some (True, answer)
     \<and> STUN_IS_SUCCESS_RESP (msgType answer)
     \<and> client_mapped_address answer = peer \<and> ipv4_of (mappedAddress answer) = peer
     \<and> ipv4_of (sourceAddress answer) = test_source n my alt \<and> ipv4_of (changedAddress answer) = alt
     \<and> tr_id answer = tr_id (request_of_test r0 r1 r2 n) \<and> tr_id answer ! 0 = of_nat n"
proof -
  let ?req = "received cr (request_of_test r0 r1 r2 n) pw"
  let ?resp = "plain_response ?req peer (answer_source ?req my alt) alt"
  have "request = stunEncodeMessage cr (request_of_test r0 r1 r2 n) pw"
    using assms stunSendTest_request[OF assms(1)] by simp
  then have "stunParseMessage request = Some (True, ?req)"
    using parse_encoded[OF request_fields(9)] by simp
  from server_answers_plain[OF this received_request(1-5), of cr peer my alt]
  have served: "stunServerProcessMsg cr request peer my alt = Some \<lparr>ok_flag = True, resp = ?resp, destination = Some peer,
      changePort = asks ?req ChangePortFlag, changeIp = asks ?req ChangeIpFlag\<rparr>" .
  have "sendable ?resp"
    by (rule sendable_plain_response) (simp add: received_request request_fields)
  note answered = parse_encoded[OF this, of cr spw]
  have "answer_source ?req my alt = test_source n my alt"
    by (simp add: answer_source_def test_source_def received_request)
  moreover have "tr_id (request_of_test r0 r1 r2 n) ! 0 = of_nat n"
    using assms(1) by (intro request_id) auto
  ultimately show ?thesis
    using served answered received_request(6) received_plain_response[where cr = cr and req = ?req and peer = peer
        and src = "answer_source ?req my alt" and alt = alt and pw = spw]
    by (intro exI[of _ "\<lparr>ok_flag = True, resp = ?resp, destination = Some peer,
          changePort = asks ?req ChangePortFlag, changeIp = asks ?req ChangeIpFlag\<rparr>"] exI[of _ "received cr ?resp spw"])
      (simp add: client_mapped_address_def)
qed

text \<open>C8: a client that sends a test and parses the server's answer learns the address the server saw it at.\<close>

theorem stun_transaction:
  assumes "n \<in> {1, 2, 3, 4, 10, 11}"
    and "stunSendTest cr r0 r1 r2 None pw n = Some request"
  shows "\<exists>res answer. stunServerProcessMsg cr request peer my alt = Some res \<and> ok_flag res \<and> destination res = Some peer
     \<and> stunParseMessage (stunEncodeMessage cr (resp res) spw) = Some (True, answer)
     \<and> STUN_IS_SUCCESS_RESP (msgType answer)
     \<and> client_mapped_address answer = peer \<and> ipv4_of (mappedAddress answer) = peer
     \<and> ipv4_of (sourceAddress answer) = test_source n my alt \<and> ipv4_of (changedAddress answer) = alt
     \<and> tr_id answer = tr_id (request_of_test r0 r1 r2 n) \<and> tr_id answer ! 0 = of_nat n"
  using assms by (rule transaction)

theorem stun_transaction_witness:
  "\<exists>request res answer. stunSendTest toy_crypto 11 12 13 None None 3 = Some request
     \<and> stunServerProcessMsg toy_crypto request \<lparr>port = 5000, addr = 9\<rparr> \<lparr>port = 3478, addr = 1\<rparr> \<lparr>port = 3479, addr = 2\<rparr> = Some res
     \<and> stunParseMessage (stunEncodeMessage toy_crypto (resp res) None) = Some (True, answer)
     \<and> client_mapped_address answer = \<lparr>port = 5000, addr = 9\<rparr> \<and> ipv4_of (sourceAddress answer) = \<lparr>port = 3479, addr = 1\<rparr>"
proof -
  have "stunSendTest toy_crypto 11 12 13 None None 3 = Some (stunEncodeMessage toy_crypto (request_of_test 11 12 13 3) None)"
    by (simp add: stunSendTest_request)
  from stun_transaction[OF _ this, of "\<lparr>port = 5000, addr = 9\<rparr>" "\<lparr>port = 3478, addr = 1\<rparr>" "\<lparr>port = 3479, addr = 2\<rparr>" None] this
  show ?thesis
    by (fastforce simp: test_source_def)
qed

end
