(* ===== verification/Stun_Nat.thy ===== *)
theory Stun_Nat
  imports Stun_Server
begin

text \<open>
  The discovery of the kind of NAT (\<open>stunNatType\<close> in \<open>stun.c\<close>): two sockets, the tests that are sent again at each timeout, the answers
  told apart by the first octet of their transaction id, and the decision at the end. The results of \<open>select\<close> and the
  seconds elapsed are the events of a run; \<open>openPort\<close> on the mapped address is a function of that address.
\<close>

section \<open>State\<close>

datatype NatType = StunTypeUnknown | StunTypeOpen | StunTypeConeNat | StunTypeRestrictedNat | StunTypePortRestrictedNat
  | StunTypeSymNat | StunTypeSymFirewall | StunTypeBlocked | StunTypeFailure

datatype nat_socket = Fd1 | Fd2

record nat_state =
  respTestI :: bool
  respTestI2 :: bool
  respTestII :: bool
  respTestIII :: bool
  respTestHairpin :: bool
  mappedIpSame :: bool
  testImappedAddr :: StunAddress4
  testI2mappedAddr :: StunAddress4
  testI2dest :: StunAddress4
  tries :: nat
  preservePort :: "bool option"
  hairpin :: bool
  sAddr :: "StunAddress4 option"
  sent :: "(nat_socket \<times> StunAddress4 \<times> nat) list"

datatype select_result = Select_Error | Select_Timeout | Select_Ready "bytes option" "bytes option"

definition nat_start :: "StunAddress4 \<Rightarrow> StunAddress4 option \<Rightarrow> nat_state" where
  "nat_start dest src = \<lparr>respTestI = False, respTestI2 = False, respTestII = False, respTestIII = False, respTestHairpin = False,
     mappedIpSame = True, testImappedAddr = zero_addr, testI2mappedAddr = zero_addr, testI2dest = dest, tries = 0,
     preservePort = None, hairpin = False, sAddr = src, sent = []\<rparr>"

section \<open>One round of the loop\<close>

definition usable :: "StunAddress4 \<Rightarrow> bool" where
  "usable a \<longleftrightarrow> addr a \<noteq> 0 \<and> port a \<noteq> 0"

definition send_test :: "bool \<Rightarrow> nat_socket \<Rightarrow> StunAddress4 \<Rightarrow> nat \<Rightarrow> nat_state \<Rightarrow> nat_state" where
  "send_test b s d n st = (if b then st\<lparr>sent := sent st @ [(s, d, n)]\<rparr> else st)"

definition on_timeout :: "StunAddress4 \<Rightarrow> nat_state \<Rightarrow> nat_state" where
  "on_timeout dest st =
     send_test (respTestI st \<and> \<not> respTestHairpin st \<and> usable (testImappedAddr st)) Fd1 (testImappedAddr st) 11
    (send_test (\<not> respTestIII st) Fd2 dest 3
    (send_test (\<not> respTestII st) Fd2 dest 2
    (send_test (\<not> respTestI2 st \<and> respTestI st \<and> usable (testI2dest st)) Fd1 (testI2dest st) 10
    (send_test (\<not> respTestI st) Fd1 dest 1
    (st\<lparr>tries := tries st + 1\<rparr>)))))"

text \<open>The \<open>switch\<close> on the first octet of the transaction id; the message is used whether or not it parsed.\<close>

definition on_message :: "int \<Rightarrow> StunMessage \<Rightarrow> nat_state \<Rightarrow> nat_state" where
  "on_message local_port m st =
    (let t = tr_id m ! 0; mapped = ipv4_of (mappedAddress m) in
     if t = 1 then
       (if \<not> respTestI st
        then st\<lparr>testImappedAddr := mapped, preservePort := Some (uint (port mapped) = local_port),
                testI2dest := (testI2dest st)\<lparr>addr := addr (ipv4_of (changedAddress m))\<rparr>,
                sAddr := map_option (\<lambda>_. mapped) (sAddr st), tries := 0, respTestI := True\<rparr>
        else st\<lparr>respTestI := True\<rparr>)
     else if t = 2 then st\<lparr>respTestII := True\<rparr>
     else if t = 3 then st\<lparr>respTestIII := True\<rparr>
     else if t = 10 then
       (if \<not> respTestI2 st
        then st\<lparr>testI2mappedAddr := mapped, mappedIpSame := (mapped = testImappedAddr st), respTestI2 := True\<rparr>
        else st\<lparr>respTestI2 := True\<rparr>)
     else if t = 11 then st\<lparr>hairpin := True, respTestHairpin := True\<rparr>
     else st)"

definition on_packet :: "int \<Rightarrow> bytes option \<Rightarrow> nat_state \<Rightarrow> nat_state option" where
  "on_packet local_port p st = (case p of None \<Rightarrow> Some st
   | Some bs \<Rightarrow> map_option (\<lambda>(_, m). on_message local_port m st) (stunParseMessage bs))"

definition on_ready :: "int \<Rightarrow> bytes option \<Rightarrow> bytes option \<Rightarrow> nat_state \<Rightarrow> nat_state option" where
  "on_ready local_port p1 p2 st = do { st1 \<leftarrow> on_packet local_port p1 st; on_packet local_port p2 st1 }"

section \<open>The loop and the decision\<close>

text \<open>\<open>Loop_Waiting\<close>: the events are used up and the loop goes on; \<open>Loop_Fault\<close>: a packet was read behind its end.\<close>

datatype loop_result = Loop_Done nat_state | Loop_Waiting nat_state | Loop_Error nat_state | Loop_Fault

definition loop_on :: "u64 \<Rightarrow> nat_state \<Rightarrow> bool" where
  "loop_on elapsed st \<longleftrightarrow> tries st < 3 \<and> elapsed < 5"

fun nat_loop :: "int \<Rightarrow> StunAddress4 \<Rightarrow> (u64 \<times> select_result) list \<Rightarrow> u64 \<Rightarrow> nat_state \<Rightarrow> loop_result" where
  "nat_loop p dest [] elapsed st = (if loop_on elapsed st then Loop_Waiting st else Loop_Done st)"
| "nat_loop p dest ((now, r) # evs) elapsed st = (if \<not> loop_on elapsed st then Loop_Done st else case r of
      Select_Error \<Rightarrow> Loop_Error st
    | Select_Timeout \<Rightarrow> nat_loop p dest evs now (on_timeout dest st)
    | Select_Ready p1 p2 \<Rightarrow> (case on_ready p p1 p2 st of None \<Rightarrow> Loop_Fault | Some st' \<Rightarrow> nat_loop p dest evs now st'))"

definition nat_decision :: "bool \<Rightarrow> nat_state \<Rightarrow> NatType" where
  "nat_decision isNat st =
    (if respTestI st then
       (if isNat then
          (if respTestII st then StunTypeConeNat
           else if mappedIpSame st then (if respTestIII st then StunTypeRestrictedNat else StunTypePortRestrictedNat)
           else StunTypeSymNat)
        else (if respTestII st then StunTypeOpen else StunTypeSymFirewall))
     else StunTypeBlocked)"

text \<open>The function: \<open>opened\<close> says whether both ports could be opened, \<open>can_bind\<close> whether \<open>openPort\<close> succeeds on an address of the host.
  \<open>None\<close> is a run whose events end inside the loop, or a read behind a packet.\<close>

definition stunNatType :: "StunAddress4 \<Rightarrow> int \<Rightarrow> StunAddress4 option \<Rightarrow> bool \<Rightarrow> (u32 \<Rightarrow> bool) \<Rightarrow> (u64 \<times> select_result) list \<Rightarrow> (NatType \<times> nat_state) option" where
  "stunNatType dest p src opened can_bind evs = (if \<not> opened then Some (StunTypeFailure, nat_start dest src)
     else case nat_loop p dest evs 1 (nat_start dest src) of
       Loop_Done st \<Rightarrow> Some (nat_decision (\<not> can_bind (addr (testImappedAddr st))) st, st)
     | Loop_Error st \<Rightarrow> Some (StunTypeFailure, st)
     | _ \<Rightarrow> None)"

section \<open>NATs\<close>

text \<open>What lies between the client and the server: whether UDP passes at all, the address that a packet from a socket to a
  destination shows, and the sources that may answer when some destinations were contacted.\<close>

record nat_box =
  reach :: bool
  nat_map :: "nat_socket \<Rightarrow> StunAddress4 \<Rightarrow> StunAddress4"
  nat_pass :: "StunAddress4 set \<Rightarrow> StunAddress4 \<Rightarrow> bool"

datatype nat_kind = No_Nat | Firewall | Full_Cone | Restricted_Cone | Port_Restricted_Cone | Symmetric | Udp_Blocked

text \<open>The kinds of NAT of RFC 3489, by their behaviour; \<open>own\<close> are the addresses of the host.\<close>

fun of_kind :: "nat_kind \<Rightarrow> u32 set \<Rightarrow> nat_box \<Rightarrow> bool" where
  "of_kind No_Nat own b \<longleftrightarrow> reach b \<and> (\<forall>s d. addr (nat_map b s d) \<in> own) \<and> (\<forall>C a. nat_pass b C a)"
| "of_kind Firewall own b \<longleftrightarrow> reach b \<and> (\<forall>s d. addr (nat_map b s d) \<in> own) \<and> (\<forall>C a. nat_pass b C a \<longleftrightarrow> a \<in> C)"
| "of_kind Full_Cone own b \<longleftrightarrow> reach b \<and> (\<forall>s d. addr (nat_map b s d) \<notin> own) \<and> (\<forall>s d d'. nat_map b s d = nat_map b s d')
     \<and> (\<forall>C a. nat_pass b C a)"
| "of_kind Restricted_Cone own b \<longleftrightarrow> reach b \<and> (\<forall>s d. addr (nat_map b s d) \<notin> own) \<and> (\<forall>s d d'. nat_map b s d = nat_map b s d')
     \<and> (\<forall>C a. nat_pass b C a \<longleftrightarrow> addr a \<in> addr ` C)"
| "of_kind Port_Restricted_Cone own b \<longleftrightarrow> reach b \<and> (\<forall>s d. addr (nat_map b s d) \<notin> own) \<and> (\<forall>s d d'. nat_map b s d = nat_map b s d')
     \<and> (\<forall>C a. nat_pass b C a \<longleftrightarrow> a \<in> C)"
| "of_kind Symmetric own b \<longleftrightarrow> reach b \<and> (\<forall>s d. addr (nat_map b s d) \<notin> own) \<and> (\<forall>s d d'. nat_map b s d = nat_map b s d' \<longrightarrow> d = d')
     \<and> (\<forall>C a. nat_pass b C a \<longleftrightarrow> a \<in> C)"
| "of_kind Udp_Blocked own b \<longleftrightarrow> \<not> reach b"

fun type_of_kind :: "nat_kind \<Rightarrow> NatType" where
  "type_of_kind No_Nat = StunTypeOpen"
| "type_of_kind Firewall = StunTypeSymFirewall"
| "type_of_kind Full_Cone = StunTypeConeNat"
| "type_of_kind Restricted_Cone = StunTypeRestrictedNat"
| "type_of_kind Port_Restricted_Cone = StunTypePortRestrictedNat"
| "type_of_kind Symmetric = StunTypeSymNat"
| "type_of_kind Udp_Blocked = StunTypeBlocked"

section \<open>The answers that can arrive\<close>

definition contacted :: "nat_state \<Rightarrow> nat_socket \<Rightarrow> StunAddress4 set" where
  "contacted st s = {d. \<exists>n. (s, d, n) \<in> set (sent st)}"

text \<open>A packet that can arrive on a socket: the answer of the server to a test that was sent from it, which shows the address the
  server saw and comes from a source the NAT lets through; or the client's own test 11.\<close>

definition can_arrive :: "nat_box \<Rightarrow> StunAddress4 \<Rightarrow> nat_state \<Rightarrow> nat_socket \<Rightarrow> StunMessage \<Rightarrow> bool" where
  "can_arrive b alt st s m \<longleftrightarrow> reach b \<and> (tr_id m ! 0 = 11 \<or>
     (\<exists>d n. (s, d, n) \<in> set (sent st) \<and> n \<in> {1, 2, 3, 10} \<and> tr_id m ! 0 = of_nat n \<and> ipv4_of (mappedAddress m) = nat_map b s d
        \<and> ipv4_of (changedAddress m) = alt \<and> nat_pass b (contacted st s) (test_source n d alt)))"

lemma server_answer_can_arrive:
  assumes "reach b" "(s, d, n) \<in> set (sent st)" "n \<in> {1, 2, 3, 10}" "nat_pass b (contacted st s) (test_source n d alt)"
    and "stunSendTest cr r0 r1 r2 None pw n = Some request"
    and "stunServerProcessMsg cr request (nat_map b s d) d alt = Some res"
    and "stunParseMessage (stunEncodeMessage cr (resp res) spw) = Some (ok, m)"
  shows "can_arrive b alt st s m" "ipv4_of (sourceAddress m) = test_source n d alt"
proof -
  have "n \<in> {1, 2, 3, 4, 10, 11}"
    using assms(3) by auto
  from transaction[OF this assms(5), of "nat_map b s d" d alt spw]
  have m: "ipv4_of (mappedAddress m) = nat_map b s d" "ipv4_of (changedAddress m) = alt" "tr_id m ! 0 = of_nat n"
    "ipv4_of (sourceAddress m) = test_source n d alt"
    using assms(6,7) by auto
  show "ipv4_of (sourceAddress m) = test_source n d alt"
    by (rule m)
  show "can_arrive b alt st s m"
    unfolding can_arrive_def using assms(1-4) m by blast
qed

definition packet_ok :: "nat_box \<Rightarrow> StunAddress4 \<Rightarrow> nat_state \<Rightarrow> nat_socket \<Rightarrow> bytes option \<Rightarrow> bool" where
  "packet_ok b alt st s p \<longleftrightarrow> (case p of None \<Rightarrow> True
     | Some bs \<Rightarrow> (case stunParseMessage bs of None \<Rightarrow> False | Some (_, m) \<Rightarrow> can_arrive b alt st s m))"

fun possible_run :: "nat_box \<Rightarrow> StunAddress4 \<Rightarrow> int \<Rightarrow> StunAddress4 \<Rightarrow> (u64 \<times> select_result) list \<Rightarrow> nat_state \<Rightarrow> bool" where
  "possible_run b alt p dest [] st = True"
| "possible_run b alt p dest ((now, r) # evs) st = (case r of
      Select_Error \<Rightarrow> False
    | Select_Timeout \<Rightarrow> possible_run b alt p dest evs (on_timeout dest st)
    | Select_Ready p1 p2 \<Rightarrow> packet_ok b alt st Fd1 p1 \<and> packet_ok b alt st Fd2 p2
        \<and> (case on_ready p p1 p2 st of None \<Rightarrow> True | Some st' \<Rightarrow> possible_run b alt p dest evs st'))"

text \<open>No answer is lost: what the NAT lets through has arrived when the loop ends.\<close>

definition all_answered :: "nat_box \<Rightarrow> StunAddress4 \<Rightarrow> StunAddress4 \<Rightarrow> nat_state \<Rightarrow> bool" where
  "all_answered b dest alt st \<longleftrightarrow> (reach b \<longrightarrow> respTestI st \<and> respTestI2 st
     \<and> (nat_pass b {dest} (test_source 2 dest alt) \<longrightarrow> respTestII st) \<and> (nat_pass b {dest} (test_source 3 dest alt) \<longrightarrow> respTestIII st))"

section \<open>The invariant of the loop\<close>

definition second_dest :: "StunAddress4 \<Rightarrow> StunAddress4 \<Rightarrow> StunAddress4" where
  "second_dest dest alt = \<lparr>port = port dest, addr = addr alt\<rparr>"

definition sent_ok :: "StunAddress4 \<Rightarrow> nat_state \<Rightarrow> nat_socket \<times> StunAddress4 \<times> nat \<Rightarrow> bool" where
  "sent_ok dest st x \<longleftrightarrow> (\<exists>d. x = (Fd1, d, 11)) \<or> x = (Fd1, dest, 1) \<or> x = (Fd2, dest, 2) \<or> x = (Fd2, dest, 3)
     \<or> (respTestI st \<and> x = (Fd1, testI2dest st, 10))"

definition nat_inv :: "nat_box \<Rightarrow> StunAddress4 \<Rightarrow> StunAddress4 \<Rightarrow> nat_state \<Rightarrow> bool" where
  "nat_inv b dest alt st \<longleftrightarrow> (\<forall>x \<in> set (sent st). sent_ok dest st x)
     \<and> (respTestI st \<longrightarrow> reach b \<and> testImappedAddr st = nat_map b Fd1 dest \<and> testI2dest st = second_dest dest alt)
     \<and> (\<not> respTestI st \<longrightarrow> testI2dest st = dest)
     \<and> (respTestI2 st \<longrightarrow> respTestI st \<and> mappedIpSame st = (nat_map b Fd1 (second_dest dest alt) = nat_map b Fd1 dest))
     \<and> (respTestII st \<longrightarrow> reach b \<and> nat_pass b {dest} (test_source 2 dest alt))
     \<and> (respTestIII st \<longrightarrow> reach b \<and> nat_pass b {dest} (test_source 3 dest alt))"

lemma nat_inv_start: "nat_inv b dest alt (nat_start dest src)"
  by (simp add: nat_inv_def nat_start_def)

lemma send_test_fields [simp]:
  "respTestI (send_test b s d n st) = respTestI st" "respTestI2 (send_test b s d n st) = respTestI2 st"
  "respTestII (send_test b s d n st) = respTestII st" "respTestIII (send_test b s d n st) = respTestIII st"
  "testI2dest (send_test b s d n st) = testI2dest st" "testImappedAddr (send_test b s d n st) = testImappedAddr st"
  "mappedIpSame (send_test b s d n st) = mappedIpSame st" "tries (send_test b s d n st) = tries st"
  "sent (send_test b s d n st) = sent st @ (if b then [(s, d, n)] else [])"
  by (simp_all add: send_test_def)

lemma sent_ok_cong: "respTestI st' = respTestI st \<Longrightarrow> testI2dest st' = testI2dest st \<Longrightarrow> sent_ok dest st' = sent_ok dest st"
  by (simp add: sent_ok_def fun_eq_iff)

lemma nat_inv_send: "nat_inv bx dest alt st \<Longrightarrow> (b \<Longrightarrow> sent_ok dest st (s, d, n)) \<Longrightarrow> nat_inv bx dest alt (send_test b s d n st)"
  by (auto simp: nat_inv_def sent_ok_cong[of "send_test b s d n st" st])

lemma nat_inv_tries: "nat_inv b dest alt (st\<lparr>tries := k\<rparr>) = nat_inv b dest alt st"
  by (simp add: nat_inv_def sent_ok_cong[of "st\<lparr>tries := k\<rparr>" st])

lemma nat_inv_timeout: "nat_inv b dest alt st \<Longrightarrow> nat_inv b dest alt (on_timeout dest st)"
  unfolding on_timeout_def by (intro nat_inv_send) (simp_all add: nat_inv_tries sent_ok_def)

lemma contacted_fd2: "nat_inv b dest alt st \<Longrightarrow> (Fd2, d, n) \<in> set (sent st) \<Longrightarrow> d = dest \<and> n \<in> {2, 3} \<and> contacted st Fd2 = {dest}"
  unfolding nat_inv_def contacted_def sent_ok_def by fastforce

text \<open>What an answer says, by its test.\<close>

lemma arrival:
  assumes "nat_inv b dest alt st" "can_arrive b alt st0 s m" "sent st0 = sent st"
  shows "tr_id m ! 0 = 1 \<Longrightarrow> reach b \<and> ipv4_of (mappedAddress m) = nat_map b Fd1 dest \<and> ipv4_of (changedAddress m) = alt"
    and "tr_id m ! 0 = 2 \<Longrightarrow> reach b \<and> nat_pass b {dest} (test_source 2 dest alt)"
    and "tr_id m ! 0 = 3 \<Longrightarrow> reach b \<and> nat_pass b {dest} (test_source 3 dest alt)"
    and "tr_id m ! 0 = 10 \<Longrightarrow> respTestI st \<and> ipv4_of (mappedAddress m) = nat_map b Fd1 (second_dest dest alt)"
proof -
  have c: "contacted st0 = contacted st"
    using assms(3) by (simp add: contacted_def fun_eq_iff)
  have ok: "sent_ok dest st x" if "x \<in> set (sent st)" for x
    using assms(1) that by (simp add: nat_inv_def)
  have dest2: "respTestI st \<Longrightarrow> testI2dest st = second_dest dest alt"
    using assms(1) by (simp add: nat_inv_def)
  have ex: "\<exists>d n. (s, d, n) \<in> set (sent st) \<and> n \<in> {1, 2, 3, 10} \<and> tr_id m ! 0 = of_nat n \<and> ipv4_of (mappedAddress m) = nat_map b s d
      \<and> ipv4_of (changedAddress m) = alt \<and> nat_pass b (contacted st s) (test_source n d alt)" if "tr_id m ! 0 \<noteq> 11"
    using assms(2,3) that unfolding can_arrive_def c by auto
  have r: "reach b"
    using assms(2) by (simp add: can_arrive_def)
  show "tr_id m ! 0 = 1 \<Longrightarrow> reach b \<and> ipv4_of (mappedAddress m) = nat_map b Fd1 dest \<and> ipv4_of (changedAddress m) = alt"
    using ex r ok by (fastforce simp: sent_ok_def)
  show "tr_id m ! 0 = 2 \<Longrightarrow> reach b \<and> nat_pass b {dest} (test_source 2 dest alt)"
    using ex r ok contacted_fd2[OF assms(1)] by (fastforce simp: sent_ok_def)
  show "tr_id m ! 0 = 3 \<Longrightarrow> reach b \<and> nat_pass b {dest} (test_source 3 dest alt)"
    using ex r ok contacted_fd2[OF assms(1)] by (fastforce simp: sent_ok_def)
  show "tr_id m ! 0 = 10 \<Longrightarrow> respTestI st \<and> ipv4_of (mappedAddress m) = nat_map b Fd1 (second_dest dest alt)"
    using ex ok dest2 by (fastforce simp: sent_ok_def)
qed

lemma sent_ok_early: "\<not> respTestI st \<Longrightarrow> sent_ok dest st x \<Longrightarrow> sent_ok dest st' x"
  by (auto simp: sent_ok_def)

lemma nat_inv_first:
  assumes "nat_inv b dest alt st" "\<not> respTestI st" "reach b"
    and "respTestI st'" "testImappedAddr st' = nat_map b Fd1 dest" "testI2dest st' = second_dest dest alt"
    and "sent st' = sent st" "respTestI2 st' = respTestI2 st" "respTestII st' = respTestII st" "respTestIII st' = respTestIII st"
  shows "nat_inv b dest alt st'"
  unfolding nat_inv_def using assms by (simp add: nat_inv_def sent_ok_early[OF assms(2)])

lemma nat_inv_later:
  assumes "nat_inv b dest alt st" "respTestI st' = respTestI st" "testImappedAddr st' = testImappedAddr st" "testI2dest st' = testI2dest st"
    and "sent st' = sent st"
    and "respTestI2 st' \<Longrightarrow> respTestI st \<and> mappedIpSame st' = (nat_map b Fd1 (second_dest dest alt) = nat_map b Fd1 dest)"
    and "respTestII st' \<Longrightarrow> reach b \<and> nat_pass b {dest} (test_source 2 dest alt)"
    and "respTestIII st' \<Longrightarrow> reach b \<and> nat_pass b {dest} (test_source 3 dest alt)"
  shows "nat_inv b dest alt st'"
  unfolding nat_inv_def using assms by (simp add: nat_inv_def sent_ok_cong[of st' st])

lemma nat_inv_message:
  assumes "nat_inv b dest alt st" "can_arrive b alt st0 s m" "sent st0 = sent st"
  shows "nat_inv b dest alt (on_message p m st) \<and> sent (on_message p m st) = sent st"
proof
  note a = arrival[OF assms]
  have two: "respTestI2 st \<Longrightarrow> respTestI st \<and> mappedIpSame st = (nat_map b Fd1 (second_dest dest alt) = nat_map b Fd1 dest)"
    and tested: "respTestII st \<Longrightarrow> reach b \<and> nat_pass b {dest} (test_source 2 dest alt)"
      "respTestIII st \<Longrightarrow> reach b \<and> nat_pass b {dest} (test_source 3 dest alt)"
    and first: "respTestI st \<Longrightarrow> testImappedAddr st = nat_map b Fd1 dest"
    and start: "\<not> respTestI st \<Longrightarrow> testI2dest st = dest"
    using assms(1) by (simp_all add: nat_inv_def)
  show "sent (on_message p m st) = sent st"
    by (simp add: on_message_def Let_def)
  consider "tr_id m ! 0 = 1" "respTestI st" | "tr_id m ! 0 = 1" "\<not> respTestI st" | "tr_id m ! 0 \<noteq> 1"
    by blast
  then show "nat_inv b dest alt (on_message p m st)"
  proof cases
    case 1
    then have "on_message p m st = st"
      by (simp add: on_message_def)
    then show ?thesis
      using assms(1) by simp
  next
    case 2
    then show ?thesis
      using assms(1) a(1)[OF 2(1)] start[OF 2(2)]
      by (intro nat_inv_first[OF assms(1) 2(2)]) (simp_all add: on_message_def Let_def second_dest_def)
  next
    case 3
    show ?thesis
    proof (rule nat_inv_later[OF assms(1)])
      show "respTestI2 (on_message p m st) \<Longrightarrow> respTestI st \<and>
          mappedIpSame (on_message p m st) = (nat_map b Fd1 (second_dest dest alt) = nat_map b Fd1 dest)"
        using 3 a(4) two first by (auto simp: on_message_def Let_def split: if_splits)
      show "respTestII (on_message p m st) \<Longrightarrow> reach b \<and> nat_pass b {dest} (test_source 2 dest alt)"
        using 3 a(2) tested by (auto simp: on_message_def Let_def split: if_splits)
      show "respTestIII (on_message p m st) \<Longrightarrow> reach b \<and> nat_pass b {dest} (test_source 3 dest alt)"
        using 3 a(3) tested by (auto simp: on_message_def Let_def split: if_splits)
    qed (use 3 in \<open>simp_all add: on_message_def Let_def\<close>)
  qed
qed

lemma nat_inv_packet:
  assumes "nat_inv b dest alt st" "packet_ok b alt st0 s pk" "sent st0 = sent st" "on_packet p pk st = Some st'"
  shows "nat_inv b dest alt st' \<and> sent st' = sent st"
  using assms nat_inv_message[OF assms(1) _ assms(3)]
  by (cases pk) (auto simp: packet_ok_def on_packet_def split: option.splits)

lemma nat_inv_ready:
  assumes "nat_inv b dest alt st" "packet_ok b alt st Fd1 p1" "packet_ok b alt st Fd2 p2" "on_ready p p1 p2 st = Some st'"
  shows "nat_inv b dest alt st'"
proof -
  obtain st1 where st1: "on_packet p p1 st = Some st1" "on_packet p p2 st1 = Some st'"
    using assms(4) by (auto simp: on_ready_def bind_eq_Some_conv)
  then have "nat_inv b dest alt st1 \<and> sent st1 = sent st"
    using nat_inv_packet[OF assms(1,2) refl st1(1)] by simp
  then show ?thesis
    using nat_inv_packet[OF _ assms(3) _ st1(2)] by auto
qed

lemma nat_inv_loop:
  "nat_inv b dest alt st \<Longrightarrow> possible_run b alt p dest evs st \<Longrightarrow> nat_loop p dest evs e st = Loop_Done st' \<Longrightarrow> nat_inv b dest alt st'"
proof (induction p dest evs e st rule: nat_loop.induct)
  case (2 p dest now r evs elapsed st)
  show ?case
  proof (cases "loop_on elapsed st")
    case False
    then show ?thesis
      using 2 by simp
  next
    case True
    show ?thesis
    proof (cases r)
      case Select_Timeout
      then show ?thesis
        using 2 True nat_inv_timeout by simp
    next
      case (Select_Ready p1 p2)
      then show ?thesis
        using 2 True nat_inv_ready by (auto split: option.splits)
    qed (use 2 True in simp)
  qed
qed (simp split: if_splits)

lemma possible_no_error: "possible_run b alt p dest evs st \<Longrightarrow> nat_loop p dest evs e st \<noteq> Loop_Error st'"
  by (induction p dest evs e st rule: nat_loop.induct) (auto split: select_result.splits option.splits)

section \<open>The decision is right\<close>

lemma decision_of_kind:
  assumes kind: "of_kind k own b" and "addr alt \<noteq> addr dest" "port alt \<noteq> port dest"
    and inv: "nat_inv b dest alt st" and all: "all_answered b dest alt st"
  shows "nat_decision (addr (testImappedAddr st) \<notin> own) st = type_of_kind k"
proof -
  have s2: "test_source 2 dest alt \<noteq> dest" "addr (test_source 2 dest alt) \<noteq> addr dest"
    and s3: "test_source 3 dest alt \<noteq> dest" "addr (test_source 3 dest alt) = addr dest"
    and d: "second_dest dest alt \<noteq> dest"
    using assms(2,3) by (cases dest; auto simp: test_source_def second_dest_def)+
  have t1: "respTestI st \<longleftrightarrow> reach b" "respTestI st \<Longrightarrow> testImappedAddr st = nat_map b Fd1 dest"
    using inv all unfolding nat_inv_def all_answered_def by blast+
  have t2: "reach b \<Longrightarrow> mappedIpSame st \<longleftrightarrow> nat_map b Fd1 (second_dest dest alt) = nat_map b Fd1 dest"
    using inv all unfolding nat_inv_def all_answered_def by blast
  have t3: "reach b \<Longrightarrow> respTestII st \<longleftrightarrow> nat_pass b {dest} (test_source 2 dest alt)"
    using inv all unfolding nat_inv_def all_answered_def by blast
  have t4: "reach b \<Longrightarrow> respTestIII st \<longleftrightarrow> nat_pass b {dest} (test_source 3 dest alt)"
    using inv all unfolding nat_inv_def all_answered_def by blast
  show ?thesis
  proof (cases "reach b")
    case False
    then show ?thesis
      using kind t1(1) by (cases k) (simp_all add: nat_decision_def)
  next
    case True
    then show ?thesis
      using kind t1 t2[OF True] t3[OF True] t4[OF True] s2 s3 d
      by (cases k) (auto simp: nat_decision_def)
  qed
qed

text \<open>C6: the discovery finds the kind of NAT that lies in front of the client.\<close>

theorem nat_type_correct:
  assumes "of_kind k own b" "addr alt \<noteq> addr dest" "port alt \<noteq> port dest"
    and "possible_run b alt p dest evs (nat_start dest src)"
    and "stunNatType dest p src True (\<lambda>a. a \<in> own) evs = Some (t, st)"
    and "all_answered b dest alt st"
  shows "t = type_of_kind k"
proof -
  have "nat_loop p dest evs 1 (nat_start dest src) = Loop_Done st" and t: "t = nat_decision (addr (testImappedAddr st) \<notin> own) st"
    using assms(5) possible_no_error[OF assms(4), of 1] by (auto simp: stunNatType_def split: loop_result.splits)
  then have "nat_inv b dest alt st"
    using nat_inv_loop[OF nat_inv_start assms(4)] by blast
  then show ?thesis
    unfolding t using decision_of_kind[OF assms(1-3)] assms(6) by blast
qed

section \<open>The discovery ends\<close>

text \<open>Timeouts left before the loop ends, and packets left to send.\<close>

definition rounds_left :: "nat_state \<Rightarrow> nat" where
  "rounds_left st = (if respTestI st then 3 - tries st else 6 - tries st)"

definition sends_left :: "nat_state \<Rightarrow> nat" where
  "sends_left st = (if respTestI st then 4 * (3 - tries st) else 12 + 3 * (3 - tries st))"

lemma timeout_left:
  assumes "tries st < 3"
  shows "rounds_left (on_timeout dest st) < rounds_left st"
    and "length (sent (on_timeout dest st)) + sends_left (on_timeout dest st) \<le> length (sent st) + sends_left st"
  using assms by (auto simp: rounds_left_def sends_left_def on_timeout_def)

lemma message_left:
  "tries st < 3 \<Longrightarrow> rounds_left (on_message p m st) \<le> rounds_left st"
  "tries st < 3 \<Longrightarrow> length (sent (on_message p m st)) + sends_left (on_message p m st) \<le> length (sent st) + sends_left st"
  "tries st < 3 \<Longrightarrow> tries (on_message p m st) < 3"
  by (auto simp: rounds_left_def sends_left_def on_message_def Let_def)

lemma packet_left:
  assumes "on_packet p pk st = Some st'" "tries st < 3"
  shows "rounds_left st' \<le> rounds_left st \<and> length (sent st') + sends_left st' \<le> length (sent st) + sends_left st \<and> tries st' < 3"
  using assms message_left[OF assms(2)] by (auto simp: on_packet_def split: option.splits)

lemma ready_left:
  assumes "on_ready p p1 p2 st = Some st'" "tries st < 3"
  shows "rounds_left st' \<le> rounds_left st \<and> length (sent st') + sends_left st' \<le> length (sent st) + sends_left st \<and> tries st' < 3"
proof -
  obtain st1 where st1: "on_packet p p1 st = Some st1" "on_packet p p2 st1 = Some st'"
    using assms(1) by (auto simp: on_ready_def bind_eq_Some_conv)
  then show ?thesis
    using packet_left[OF st1(1) assms(2)] packet_left[OF st1(2)] by auto
qed

definition timeouts :: "(u64 \<times> select_result) list \<Rightarrow> nat" where
  "timeouts evs = length (filter (\<lambda>x. snd x = Select_Timeout) evs)"

definition final_states :: "loop_result \<Rightarrow> nat_state set" where
  "final_states r = (case r of Loop_Done st \<Rightarrow> {st} | Loop_Waiting st \<Rightarrow> {st} | Loop_Error st \<Rightarrow> {st} | Loop_Fault \<Rightarrow> {})"

lemma loop_left:
  "(case nat_loop p dest evs e st of Loop_Waiting st' \<Rightarrow> timeouts evs < rounds_left st | _ \<Rightarrow> True)
   \<and> (\<forall>st' \<in> final_states (nat_loop p dest evs e st). length (sent st') \<le> length (sent st) + sends_left st)"
proof (induction p dest evs e st rule: nat_loop.induct)
  case (1 p dest elapsed st)
  then show ?case
    by (simp add: final_states_def timeouts_def rounds_left_def loop_on_def)
next
  case (2 p dest now r evs elapsed st)
  show ?case
  proof (cases "loop_on elapsed st")
    case False
    then show ?thesis
      by (simp add: final_states_def)
  next
    case True
    then have n: "tries st < 3"
      by (simp add: loop_on_def)
    show ?thesis
    proof (cases r)
      case Select_Error
      then show ?thesis
        using True by (simp add: final_states_def)
    next
      case Select_Timeout
      then show ?thesis
        using 2(1)[of] True timeout_left[OF n, of dest] by (fastforce simp: timeouts_def split: loop_result.splits)
    next
      case (Select_Ready p1 p2)
      show ?thesis
      proof (cases "on_ready p p1 p2 st")
        case None
        then show ?thesis
          using True Select_Ready by (simp add: final_states_def)
      next
        case (Some st')
        then show ?thesis
          using 2(2)[OF _ Select_Ready Some] True Select_Ready ready_left[OF Some n] by (fastforce simp: timeouts_def split: loop_result.splits)
      qed
    qed
  qed
qed

text \<open>C39: whatever arrives, the sixth timeout ends the discovery, and it has sent at most 21 packets.\<close>

theorem nat_discovery_ends:
  "(6 \<le> timeouts evs \<longrightarrow> (\<forall>st. nat_loop p dest evs 1 (nat_start dest src) \<noteq> Loop_Waiting st))
   \<and> (\<forall>st \<in> final_states (nat_loop p dest evs 1 (nat_start dest src)). length (sent st) \<le> 21)"
  using loop_left[where p = p and dest = dest and evs = evs and e = 1 and st = "nat_start dest src"]
  by (auto simp: rounds_left_def sends_left_def nat_start_def split: loop_result.splits)

section \<open>A run behind a restricted cone\<close>

definition nat_answer :: "nat \<Rightarrow> StunAddress4 \<Rightarrow> StunAddress4 \<Rightarrow> bytes" where
  "nat_answer n mapped alt = stunEncodeMessage toy_crypto (zero_msg\<lparr>msgType := STUN_METHOD_BINDING OR STUN_SUCCESS_RESP,
     tr_id := of_nat n # replicate 11 0, mappedAddress := Some (plain_atr mapped), changedAddress := Some (plain_atr alt)\<rparr>) None"

definition answer_msg :: "nat \<Rightarrow> StunAddress4 \<Rightarrow> StunAddress4 \<Rightarrow> StunMessage" where
  "answer_msg n mapped alt = received toy_crypto (zero_msg\<lparr>msgType := STUN_METHOD_BINDING OR STUN_SUCCESS_RESP,
     tr_id := of_nat n # replicate 11 0, mappedAddress := Some (plain_atr mapped), changedAddress := Some (plain_atr alt)\<rparr>) None"

lemma parse_nat_answer: "stunParseMessage (nat_answer n mapped alt) = Some (True, answer_msg n mapped alt)"
  unfolding nat_answer_def answer_msg_def
  by (rule parse_encoded) (simp add: sendable_def zero_msg_def text_of_def)

lemma answer_msg_fields [simp]: "tr_id (answer_msg n mapped alt) ! 0 = of_nat n" "ipv4_of (mappedAddress (answer_msg n mapped alt)) = mapped"
  "ipv4_of (changedAddress (answer_msg n mapped alt)) = alt"
  by (simp_all add: answer_msg_def received_def received_attributes_def ipv4_of_def plain_atr_def as_ipv4_def)

definition demo_dest :: StunAddress4 where "demo_dest = \<lparr>port = 3478, addr = 1\<rparr>"
definition demo_alt :: StunAddress4 where "demo_alt = \<lparr>port = 3479, addr = 2\<rparr>"
definition demo_mapped :: StunAddress4 where "demo_mapped = \<lparr>port = 5000, addr = 100\<rparr>"

definition demo_box :: nat_box where
  "demo_box = \<lparr>reach = True, nat_map = (\<lambda>s d. demo_mapped), nat_pass = (\<lambda>C a. addr a \<in> addr ` C)\<rparr>"

definition demo_events :: "(u64 \<times> select_result) list" where
  "demo_events = [(0, Select_Timeout),
     (0, Select_Ready (Some (nat_answer 1 demo_mapped demo_alt)) (Some (nat_answer 3 demo_mapped demo_alt))),
     (1, Select_Timeout), (1, Select_Ready (Some (nat_answer 10 demo_mapped demo_alt)) None),
     (2, Select_Timeout), (3, Select_Timeout)]"

lemmas demo_run_defs = nat_start_def on_timeout_def send_test_def usable_def on_ready_def on_packet_def on_message_def Let_def
  parse_nat_answer demo_mapped_def demo_dest_def demo_alt_def zero_addr_def loop_on_def

lemma demo_result: "\<exists>st. stunNatType demo_dest 4000 None True (\<lambda>a. a \<in> {7}) demo_events = Some (StunTypeRestrictedNat, st)
   \<and> respTestI st \<and> respTestI2 st \<and> respTestIII st"
  by (simp add: stunNatType_def demo_events_def demo_run_defs nat_decision_def)

lemma demo_possible: "possible_run demo_box demo_alt 4000 demo_dest demo_events (nat_start demo_dest None)"
  by (simp add: demo_events_def demo_run_defs packet_ok_def can_arrive_def demo_box_def contacted_def test_source_def)
    (intro conjI, rule exI[of _ "\<lparr>port = 3478, addr = 1\<rparr>"], rule exI[of _ 3], simp,
     rule image_eqI[of _ _ "\<lparr>port = 3478, addr = 1\<rparr>"], simp, simp, rule exI[of _ 2], simp,
     rule exI[of _ "\<lparr>port = 3478, addr = 2\<rparr>"], rule exI[of _ 10], simp,
     rule image_eqI[of _ _ "\<lparr>port = 3478, addr = 2\<rparr>"], simp, simp)

theorem nat_type_correct_witness:
  "\<exists>t st. stunNatType demo_dest 4000 None True (\<lambda>a. a \<in> {7}) demo_events = Some (t, st) \<and> t = type_of_kind Restricted_Cone"
proof -
  obtain t st where run: "stunNatType demo_dest 4000 None True (\<lambda>a. a \<in> {7}) demo_events = Some (t, st)"
    and st: "respTestI st" "respTestI2 st" "respTestIII st"
    using demo_result by blast
  have "t = type_of_kind Restricted_Cone"
  proof (rule nat_type_correct[OF _ _ _ demo_possible run])
    show "of_kind Restricted_Cone {7} demo_box"
      by (simp add: demo_box_def demo_mapped_def)
    show "addr demo_alt \<noteq> addr demo_dest" "port demo_alt \<noteq> port demo_dest"
      by (simp_all add: demo_alt_def demo_dest_def)
    show "all_answered demo_box demo_dest demo_alt st"
      using st by (simp add: all_answered_def demo_box_def test_source_def demo_alt_def demo_dest_def)
  qed
  then show ?thesis
    using run by blast
qed

theorem nat_discovery_ends_witness:
  "\<forall>st. nat_loop 4000 demo_dest (replicate 6 (0, Select_Timeout)) 1 (nat_start demo_dest None) \<noteq> Loop_Waiting st"
  using nat_discovery_ends[of "replicate 6 (0, Select_Timeout)"] by (simp add: timeouts_def)

end
