(* ===== verification/Ms_List.thy ===== *)
theory Ms_List
  imports Conf_Prelude "HOL-Library.Multiset"
begin

text \<open>
  The doubly linked lists of \<open>mediastreamer2/src/base/mscommon.c\<close> (\<open>MSList\<close>), with their nodes in an explicit
  store: an operation that follows a missing link or touches a freed node is \<open>None\<close>. \<open>is_list h l xs\<close> says that
  the list \<open>l\<close> runs through the nodes \<open>xs\<close>; every operation is shown to act on the data in the nodes like the
  list operation of its name. The theories of the ICE agent use the list operations, which this theory justifies.
\<close>

section \<open>Operations\<close>

type_synonym link = nat

record 'a ms_node =
  n_next :: "link option"
  n_prev :: "link option"
  n_data :: 'a

record 'a list_heap =
  nodes :: "link \<Rightarrow> 'a ms_node option"
  node_brk :: link

definition set_n_next :: "link option \<Rightarrow> link \<Rightarrow> 'a list_heap \<Rightarrow> 'a list_heap option" where
  "set_n_next v a h = map_option (\<lambda>n. h\<lparr>nodes := (nodes h)(a \<mapsto> n\<lparr>n_next := v\<rparr>)\<rparr>) (nodes h a)"

definition set_n_prev :: "link option \<Rightarrow> link \<Rightarrow> 'a list_heap \<Rightarrow> 'a list_heap option" where
  "set_n_prev v a h = map_option (\<lambda>n. h\<lparr>nodes := (nodes h)(a \<mapsto> n\<lparr>n_prev := v\<rparr>)\<rparr>) (nodes h a)"

definition ms_list_new :: "'a \<Rightarrow> 'a list_heap \<Rightarrow> link \<times> 'a list_heap" where
  "ms_list_new d h =
     (node_brk h, h\<lparr>nodes := (nodes h)(node_brk h \<mapsto> \<lparr>n_next = None, n_prev = None, n_data = d\<rparr>),
                    node_brk := node_brk h + 1\<rparr>)"

text \<open>The loop that walks to the last node of a list.\<close>

partial_function (option) walk_to_end :: "'a list_heap \<Rightarrow> link \<Rightarrow> link option" where
  "walk_to_end h it = Option.bind (nodes h it) (\<lambda>n.
     (case n_next n of None \<Rightarrow> Some it | Some j \<Rightarrow> walk_to_end h j))"

definition ms_list_append_link :: "link option \<Rightarrow> link \<Rightarrow> 'a list_heap \<Rightarrow> (link option \<times> 'a list_heap) option" where
  "ms_list_append_link elem new_elem h = (case elem of None \<Rightarrow> Some (Some new_elem, h)
     | Some e \<Rightarrow> do {
         it \<leftarrow> walk_to_end h e;
         h1 \<leftarrow> set_n_next (Some new_elem) it h;
         h2 \<leftarrow> set_n_prev (Some it) new_elem h1;
         Some (elem, h2) })"

definition ms_list_append :: "link option \<Rightarrow> 'a \<Rightarrow> 'a list_heap \<Rightarrow> (link option \<times> 'a list_heap) option" where
  "ms_list_append elem d h = (let (new_elem, h1) = ms_list_new d h in ms_list_append_link elem new_elem h1)"

definition ms_list_prepend :: "link option \<Rightarrow> 'a \<Rightarrow> 'a list_heap \<Rightarrow> (link option \<times> 'a list_heap) option" where
  "ms_list_prepend elem d h = (let (new_elem, h1) = ms_list_new d h in
     (case elem of None \<Rightarrow> Some (Some new_elem, h1)
      | Some e \<Rightarrow> do {
          h2 \<leftarrow> set_n_next (Some e) new_elem h1;
          h3 \<leftarrow> set_n_prev (Some new_elem) e h2;
          Some (Some new_elem, h3) }))"

definition ms_list_concat :: "link option \<Rightarrow> link option \<Rightarrow> 'a list_heap \<Rightarrow> (link option \<times> 'a list_heap) option" where
  "ms_list_concat fst_l snd_l h = (case fst_l of None \<Rightarrow> Some (snd_l, h)
     | Some f \<Rightarrow> do {
         it \<leftarrow> walk_to_end h f;
         h1 \<leftarrow> set_n_next snd_l it h;
         s \<leftarrow> snd_l;
         h2 \<leftarrow> set_n_prev (Some it) s h1;
         Some (fst_l, h2) })"

definition free_node :: "link \<Rightarrow> 'a list_heap \<Rightarrow> 'a list_heap option" where
  "free_node a h = map_option (\<lambda>_. h\<lparr>nodes := (nodes h)(a := None)\<rparr>) (nodes h a)"

partial_function (option) free_from :: "link \<Rightarrow> 'a list_heap \<Rightarrow> 'a list_heap option" where
  "free_from elem h = Option.bind (nodes h elem) (\<lambda>n.
     (case n_next n of None \<Rightarrow> free_node elem h
      | Some j \<Rightarrow> Option.bind (free_node elem h) (free_from j)))"

definition ms_list_free :: "link option \<Rightarrow> 'a list_heap \<Rightarrow> (link option \<times> 'a list_heap) option" where
  "ms_list_free l h = (case l of None \<Rightarrow> Some (None, h)
     | Some e \<Rightarrow> map_option (\<lambda>h1. (None, h1)) (free_from e h))"

partial_function (option) size_loop :: "'a list_heap \<Rightarrow> link option \<Rightarrow> int \<Rightarrow> int option" where
  "size_loop h l n = (case l of None \<Rightarrow> Some n
     | Some e \<Rightarrow> Option.bind (nodes h e) (\<lambda>nd. size_loop h (n_next nd) (n + 1)))"

definition ms_list_size :: "link option \<Rightarrow> 'a list_heap \<Rightarrow> int option" where
  "ms_list_size l h = size_loop h l 0"

text \<open>The callbacks of the two iterators act on a state of their caller.\<close>

partial_function (option) ms_list_for_each2 :: "'a list_heap \<Rightarrow> link option \<Rightarrow> ('a \<Rightarrow> 's \<Rightarrow> 's) \<Rightarrow> 's \<Rightarrow> 's option" where
  "ms_list_for_each2 h l func s = (case l of None \<Rightarrow> Some s
     | Some e \<Rightarrow> Option.bind (nodes h e) (\<lambda>n. ms_list_for_each2 h (n_next n) func (func (n_data n) s)))"

definition ms_list_for_each :: "'a list_heap \<Rightarrow> link option \<Rightarrow> ('a \<Rightarrow> 's \<Rightarrow> 's) \<Rightarrow> 's \<Rightarrow> 's option" where
  "ms_list_for_each h l func s = ms_list_for_each2 h l func s"

definition ms_list_remove_link :: "link option \<Rightarrow> link \<Rightarrow> 'a list_heap \<Rightarrow> (link option \<times> 'a list_heap) option" where
  "ms_list_remove_link l elem h = do {
     n \<leftarrow> nodes h elem;
     if l = Some elem then do {
       h1 \<leftarrow> (case n_next n of None \<Rightarrow> Some h | Some r \<Rightarrow> set_n_prev None r h);
       h2 \<leftarrow> free_node elem h1;
       Some (n_next n, h2) }
     else do {
       p \<leftarrow> n_prev n;
       h1 \<leftarrow> set_n_next (n_next n) p h;
       h2 \<leftarrow> (case n_next n of None \<Rightarrow> Some h1 | Some r \<Rightarrow> set_n_prev (n_prev n) r h1);
       h3 \<leftarrow> free_node elem h2;
       Some (l, h3) } }"

text \<open>\<open>ms_list_find_custom\<close> looks for the first node whose data the comparison calls equal (its result is 0).\<close>

partial_function (option) ms_list_find_custom :: "'a list_heap \<Rightarrow> link option \<Rightarrow> ('a \<Rightarrow> bool) \<Rightarrow> (link option) option" where
  "ms_list_find_custom h l eq0 = (case l of None \<Rightarrow> Some None
     | Some e \<Rightarrow> Option.bind (nodes h e) (\<lambda>n.
         if eq0 (n_data n) then Some (Some e) else ms_list_find_custom h (n_next n) eq0))"

definition ms_list_find :: "'a list_heap \<Rightarrow> link option \<Rightarrow> 'a \<Rightarrow> (link option) option" where
  "ms_list_find h l d = ms_list_find_custom h l (\<lambda>x. x = d)"

definition ms_list_remove :: "link option \<Rightarrow> 'a \<Rightarrow> 'a list_heap \<Rightarrow> (link option \<times> 'a list_heap) option" where
  "ms_list_remove l d h = do {
     it \<leftarrow> ms_list_find h l d;
     (case it of Some e \<Rightarrow> ms_list_remove_link l e h | None \<Rightarrow> Some (l, h)) }"

partial_function (option) nth_loop :: "'a list_heap \<Rightarrow> link option \<Rightarrow> int \<Rightarrow> int \<Rightarrow> ('a option) option" where
  "nth_loop h l i index = (case l of None \<Rightarrow> Some None
     | Some e \<Rightarrow> Option.bind (nodes h e) (\<lambda>n.
         if i = index then Some (Some (n_data n)) else nth_loop h (n_next n) (i + 1) index))"

definition ms_list_nth_data :: "'a list_heap \<Rightarrow> link option \<Rightarrow> int \<Rightarrow> ('a option) option" where
  "ms_list_nth_data h l index = nth_loop h l 0 index"

partial_function (option) position_loop :: "'a list_heap \<Rightarrow> link option \<Rightarrow> (link \<Rightarrow> 'a \<Rightarrow> bool) \<Rightarrow> int \<Rightarrow> int option" where
  "position_loop h l hit i = (case l of None \<Rightarrow> Some (- 1)
     | Some e \<Rightarrow> Option.bind (nodes h e) (\<lambda>n.
         if hit e (n_data n) then Some i else position_loop h (n_next n) hit (i + 1)))"

definition ms_list_position :: "'a list_heap \<Rightarrow> link option \<Rightarrow> link \<Rightarrow> int option" where
  "ms_list_position h l elem = position_loop h l (\<lambda>e _. e = elem) 0"

definition ms_list_index :: "'a list_heap \<Rightarrow> link option \<Rightarrow> 'a \<Rightarrow> int option" where
  "ms_list_index h l d = position_loop h l (\<lambda>_ x. x = d) 0"

text \<open>The new node is put before the first node that the comparison (\<open>compare_func(data, it->data) <= 0\<close>, here
  \<open>leq d\<close>) does not place before it.\<close>

partial_function (option) insert_loop ::
    "('a \<Rightarrow> bool) \<Rightarrow> link option \<Rightarrow> link \<Rightarrow> link option \<Rightarrow> link option \<Rightarrow> 'a list_heap \<Rightarrow> (link option \<times> 'a list_heap) option" where
  "insert_loop leq_d ret nelem previt it h = (case it of
       None \<Rightarrow> do {
         p \<leftarrow> previt;
         h1 \<leftarrow> set_n_next (Some nelem) p h;
         h2 \<leftarrow> set_n_prev (Some p) nelem h1;
         Some (ret, h2) }
     | Some e \<Rightarrow> do {
         n \<leftarrow> nodes h e;
         if leq_d (n_data n) then do {
           h1 \<leftarrow> set_n_prev (n_prev n) nelem h;
           h2 \<leftarrow> set_n_next (Some e) nelem h1;
           (ret', h3) \<leftarrow> (case n_prev n of
                Some p \<Rightarrow> map_option (\<lambda>h'. (ret, h')) (set_n_next (Some nelem) p h2)
              | None \<Rightarrow> Some (Some nelem, h2));
           h4 \<leftarrow> set_n_prev (Some nelem) e h3;
           Some (ret', h4) }
         else insert_loop leq_d ret nelem (Some e) (n_next n) h })"

definition ms_list_insert_sorted :: "('a \<Rightarrow> 'a \<Rightarrow> bool) \<Rightarrow> link option \<Rightarrow> 'a \<Rightarrow> 'a list_heap \<Rightarrow> (link option \<times> 'a list_heap) option" where
  "ms_list_insert_sorted leq l d h = (case l of None \<Rightarrow> ms_list_append l d h
     | Some _ \<Rightarrow> (let (nelem, h1) = ms_list_new d h in insert_loop (leq d) l nelem None l h1))"

partial_function (option) insert_before_loop ::
    "link option \<Rightarrow> link \<Rightarrow> 'a \<Rightarrow> link option \<Rightarrow> 'a list_heap \<Rightarrow> (link option \<times> 'a list_heap) option" where
  "insert_before_loop l before d elem h = (case elem of None \<Rightarrow> Some (l, h)
     | Some e \<Rightarrow> do {
         n \<leftarrow> nodes h e;
         if e = before then
           (case n_prev n of
              None \<Rightarrow> ms_list_prepend l d h
            | Some p \<Rightarrow> do {
                let (nelem, h1) = ms_list_new d h;
                h2 \<leftarrow> set_n_prev (Some p) nelem h1;
                h3 \<leftarrow> set_n_next (Some e) nelem h2;
                h4 \<leftarrow> set_n_next (Some nelem) p h3;
                h5 \<leftarrow> set_n_prev (Some nelem) e h4;
                insert_before_loop l before d (n_next n) h5 })
         else insert_before_loop l before d (n_next n) h })"

definition ms_list_insert :: "link option \<Rightarrow> link option \<Rightarrow> 'a \<Rightarrow> 'a list_heap \<Rightarrow> (link option \<times> 'a list_heap) option" where
  "ms_list_insert l before d h = (case before of None \<Rightarrow> ms_list_append l d h
     | Some b \<Rightarrow> if l = None then ms_list_append l d h else insert_before_loop l b d l h)"

text \<open>The copy is built by appending, which walks from the front each time.\<close>

partial_function (option) copy_loop :: "link option \<Rightarrow> link option \<Rightarrow> 'a list_heap \<Rightarrow> (link option \<times> 'a list_heap) option" where
  "copy_loop iter copy h = (case iter of None \<Rightarrow> Some (copy, h)
     | Some e \<Rightarrow> do {
         n \<leftarrow> nodes h e;
         (copy', h1) \<leftarrow> ms_list_append copy (n_data n) h;
         n' \<leftarrow> nodes h1 e;
         copy_loop (n_next n') copy' h1 })"

definition ms_list_copy :: "link option \<Rightarrow> 'a list_heap \<Rightarrow> (link option \<times> 'a list_heap) option" where
  "ms_list_copy l h = copy_loop l None h"

section \<open>Lists in the store\<close>

text \<open>\<open>seg h p a xs b q\<close>: from the link \<open>a\<close>, whose node points back to \<open>p\<close>, the nodes \<open>xs\<close> are linked in both
  directions up to the link \<open>b\<close>, and \<open>q\<close> is what a node there points back to.\<close>

fun seg :: "'a list_heap \<Rightarrow> link option \<Rightarrow> link option \<Rightarrow> link list \<Rightarrow> link option \<Rightarrow> link option \<Rightarrow> bool" where
  "seg h p a [] b q \<longleftrightarrow> a = b \<and> p = q"
| "seg h p a (x # xs) b q \<longleftrightarrow> a = Some x
     \<and> (\<exists>n. nodes h x = Some n \<and> n_prev n = p \<and> seg h (Some x) (n_next n) xs b q)"

definition last_link :: "link list \<Rightarrow> link option" where
  "last_link xs = (if xs = [] then None else Some (last xs))"

definition is_list :: "'a list_heap \<Rightarrow> link option \<Rightarrow> link list \<Rightarrow> bool" where
  "is_list h l xs \<longleftrightarrow> seg h None l xs None (last_link xs) \<and> distinct xs"

definition data_of :: "'a list_heap \<Rightarrow> link list \<Rightarrow> 'a list" where
  "data_of h xs = map (\<lambda>x. n_data (the (nodes h x))) xs"

text \<open>Node addresses at or above \<open>node_brk\<close> are free.\<close>

definition heap_ok :: "'a list_heap \<Rightarrow> bool" where
  "heap_ok h \<longleftrightarrow> (\<forall>a. node_brk h \<le> a \<longrightarrow> nodes h a = None)"

definition same_outside :: "link set \<Rightarrow> 'a list_heap \<Rightarrow> 'a list_heap \<Rightarrow> bool" where
  "same_outside S h h' \<longleftrightarrow> (\<forall>a. a \<notin> S \<longrightarrow> nodes h' a = nodes h a)"

lemma seg_append: "seg h p a (xs @ ys) b q \<longleftrightarrow> (\<exists>c r. seg h p a xs c r \<and> seg h r c ys b q)"
  by (induction xs arbitrary: p a) auto

lemma seg_frame: "seg h p a xs b q \<Longrightarrow> \<forall>x\<in>set xs. nodes h' x = nodes h x \<Longrightarrow> seg h' p a xs b q"
  by (induction xs arbitrary: p a) auto

lemma seg_alloc: "seg h p a xs b q \<Longrightarrow> x \<in> set xs \<Longrightarrow> nodes h x \<noteq> None"
  by (induction xs arbitrary: p a) auto

lemma seg_first: "seg h p a xs b q \<Longrightarrow> xs \<noteq> [] \<Longrightarrow> a = Some (hd xs)"
  by (cases xs) auto

lemma last_link_Nil [simp]: "last_link [] = None"
  by (simp add: last_link_def)

lemma last_link_Cons [simp]: "xs \<noteq> [] \<Longrightarrow> last_link (x # xs) = last_link xs" "last_link [x] = Some x"
  by (simp_all add: last_link_def)

lemma last_link_snoc [simp]: "last_link (xs @ [x]) = Some x"
  by (simp add: last_link_def)

lemma seg_back: "seg h p a xs b q \<Longrightarrow> q = (if xs = [] then p else Some (last xs))"
  by (induction xs arbitrary: p a) auto

lemma is_list_iff: "is_list h l xs \<longleftrightarrow> (\<exists>q. seg h None l xs None q) \<and> distinct xs"
  by (auto simp: is_list_def last_link_def) (metis seg_back)

lemma is_listI: "seg h None l xs None q \<Longrightarrow> distinct xs \<Longrightarrow> is_list h l xs"
  by (auto simp: is_list_iff)

lemma is_list_None [simp]: "is_list h None xs \<longleftrightarrow> xs = []"
  by (cases xs) (auto simp: is_list_def)

lemma is_list_Nil [simp]: "is_list h l [] \<longleftrightarrow> l = None"
  by (auto simp: is_list_def)

lemma data_of_simps [simp]: "data_of h [] = []" "data_of h (x # xs) = n_data (the (nodes h x)) # data_of h xs"
  "data_of h (xs @ ys) = data_of h xs @ data_of h ys" "length (data_of h xs) = length xs"
  by (simp_all add: data_of_def)

lemma data_of_frame: "\<forall>x\<in>set xs. map_option n_data (nodes h' x) = map_option n_data (nodes h x) \<Longrightarrow>
    \<forall>x\<in>set xs. nodes h x \<noteq> None \<Longrightarrow> data_of h' xs = data_of h xs"
  unfolding data_of_def by (rule map_cong) force+

lemma set_n_next_nodes: "set_n_next v a h = Some h' \<Longrightarrow>
    \<exists>n. nodes h a = Some n \<and> h' = h\<lparr>nodes := (nodes h)(a \<mapsto> n\<lparr>n_next := v\<rparr>)\<rparr>"
  by (auto simp: set_n_next_def)

lemma set_n_next_eq [simp]: "nodes h a = Some n \<Longrightarrow>
    set_n_next v a h = Some (h\<lparr>nodes := (nodes h)(a \<mapsto> n\<lparr>n_next := v\<rparr>)\<rparr>)"
  by (simp add: set_n_next_def)

lemma set_n_prev_eq [simp]: "nodes h a = Some n \<Longrightarrow>
    set_n_prev v a h = Some (h\<lparr>nodes := (nodes h)(a \<mapsto> n\<lparr>n_prev := v\<rparr>)\<rparr>)"
  by (simp add: set_n_prev_def)

lemma free_node_eq [simp]: "nodes h a = Some n \<Longrightarrow> free_node a h = Some (h\<lparr>nodes := (nodes h)(a := None)\<rparr>)"
  by (simp add: free_node_def)

lemma heap_okD: "heap_ok h \<Longrightarrow> nodes h (node_brk h) = None"
  by (simp add: heap_ok_def)

lemma heap_ok_above: "heap_ok h \<Longrightarrow> nodes h x \<noteq> None \<Longrightarrow> x < node_brk h"
  unfolding heap_ok_def by (meson leI)

lemma is_list_fresh: "is_list h l xs \<Longrightarrow> heap_ok h \<Longrightarrow> node_brk h \<notin> set xs"
  using seg_alloc[of h None l xs None _ "node_brk h"] heap_okD[of h] by (auto simp: is_list_def)

section \<open>Searching\<close>

lemma size_loop_seg: "seg h p l xs None q \<Longrightarrow> size_loop h l n = Some (n + int (length xs))"
  by (induction xs arbitrary: p l n) (auto simp: size_loop.simps)

lemma ms_list_size_is: "is_list h l xs \<Longrightarrow> ms_list_size l h = Some (int (length xs))"
  by (auto simp: ms_list_size_def is_list_def size_loop_seg)

lemma for_each2_seg: "seg h p l xs None q \<Longrightarrow> ms_list_for_each2 h l f s = Some (fold f (data_of h xs) s)"
  by (induction xs arbitrary: p l s) (auto simp: ms_list_for_each2.simps)

lemma ms_list_for_each2_is: "is_list h l xs \<Longrightarrow> ms_list_for_each2 h l f s = Some (fold f (data_of h xs) s)"
  by (auto simp: is_list_def for_each2_seg)

text \<open>The first node with the wanted data, with the nodes before and behind it.\<close>

lemma find_custom_seg: "seg h p l xs None q \<Longrightarrow>
    ms_list_find_custom h l eq0 = Some (find (\<lambda>x. eq0 (n_data (the (nodes h x)))) xs)"
  by (induction xs arbitrary: p l) (auto simp: ms_list_find_custom.simps)

lemma ms_list_find_custom_is: "is_list h l xs \<Longrightarrow>
    ms_list_find_custom h l eq0 = Some (find (\<lambda>x. eq0 (n_data (the (nodes h x)))) xs)"
  by (auto simp: is_list_def find_custom_seg)

lemma find_node_split: "find (\<lambda>x. eq0 (n_data (the (nodes h x)))) xs = Some e \<Longrightarrow>
    \<exists>us vs. xs = us @ e # vs \<and> (\<forall>u\<in>set us. \<not> eq0 (n_data (the (nodes h u)))) \<and> eq0 (n_data (the (nodes h e)))"
proof (induction xs)
  case (Cons x xs)
  show ?case
  proof (cases "eq0 (n_data (the (nodes h x)))")
    case True
    with Cons.prems have "x # xs = [] @ e # xs" "eq0 (n_data (the (nodes h e)))" by auto
    then show ?thesis by (metis empty_iff list.set(1))
  next
    case False
    with Cons.prems Cons.IH obtain us vs where "xs = us @ e # vs"
        "\<forall>u\<in>set us. \<not> eq0 (n_data (the (nodes h u)))" "eq0 (n_data (the (nodes h e)))" by auto
    with False have "x # xs = (x # us) @ e # vs" "\<forall>u\<in>set (x # us). \<not> eq0 (n_data (the (nodes h u)))"
        "eq0 (n_data (the (nodes h e)))" by auto
    then show ?thesis by blast
  qed
qed simp

lemma find_data: "find P (data_of h xs) = map_option (\<lambda>x. n_data (the (nodes h x))) (find (\<lambda>x. P (n_data (the (nodes h x)))) xs)"
  by (induction xs) auto

lemma nth_loop_seg: "seg h p l xs None q \<Longrightarrow>
    nth_loop h l i (i + int k) = Some (if k < length xs then Some (data_of h xs ! k) else None)"
proof (induction xs arbitrary: p l i k)
  case (Cons x xs)
  then obtain n where n: "l = Some x" "nodes h x = Some n" "seg h (Some x) (n_next n) xs None q" by auto
  show ?case
  proof (cases k)
    case (Suc j)
    with Cons.IH[OF n(3), of "i + 1" j] n show ?thesis
      by (simp add: nth_loop.simps[of h "Some x"] add.assoc)
  qed (simp add: nth_loop.simps[of h "Some x"] n)
qed (simp add: nth_loop.simps)

lemma nth_loop_neg: "seg h p l xs None q \<Longrightarrow> index < i \<Longrightarrow> nth_loop h l i index = Some None"
  by (induction xs arbitrary: p l i) (auto simp: nth_loop.simps)

lemma ms_list_nth_data_is: "is_list h l xs \<Longrightarrow> ms_list_nth_data h l index =
    Some (if 0 \<le> index \<and> nat index < length xs then Some (data_of h xs ! nat index) else None)"
  using nth_loop_seg[of h None l xs _ 0 "nat index"] nth_loop_neg[of h None l xs _ index 0]
  by (cases "0 \<le> index") (auto simp: ms_list_nth_data_def is_list_def)

section \<open>Changing lists\<close>

definition set_link :: "link \<Rightarrow> 'a ms_node \<Rightarrow> 'a list_heap \<Rightarrow> 'a list_heap" where
  "set_link a n h = h\<lparr>nodes := (nodes h)(a \<mapsto> n)\<rparr>"

lemma nodes_set_link [simp]: "nodes (set_link a n h) = (nodes h)(a \<mapsto> n)" "node_brk (set_link a n h) = node_brk h"
  by (simp_all add: set_link_def)

lemma set_n_next_link: "nodes h a = Some n \<Longrightarrow> set_n_next v a h = Some (set_link a (n\<lparr>n_next := v\<rparr>) h)"
  by (simp add: set_link_def)

lemma set_n_prev_link: "nodes h a = Some n \<Longrightarrow> set_n_prev v a h = Some (set_link a (n\<lparr>n_prev := v\<rparr>) h)"
  by (simp add: set_link_def)

lemma seg_other: "seg h p a xs b q \<Longrightarrow> x \<notin> set xs \<Longrightarrow> seg (set_link x n h) p a xs b q"
  by (erule seg_frame) auto

lemma seg_set_next_last: "seg h p a (xs @ [x]) b q \<Longrightarrow> x \<notin> set xs \<Longrightarrow> nodes h x = Some n \<Longrightarrow>
    seg (set_link x (n\<lparr>n_next := v\<rparr>) h) p a (xs @ [x]) v q"
  by (auto simp: seg_append intro!: seg_other)

lemma seg_set_prev_hd: "seg h p a (x # xs) b q \<Longrightarrow> x \<notin> set xs \<Longrightarrow> nodes h x = Some n \<Longrightarrow>
    seg (set_link x (n\<lparr>n_prev := v\<rparr>) h) v a (x # xs) b q"
  by (auto intro: seg_other)

lemma data_of_set_link [simp]: "nodes h a = Some n \<Longrightarrow> n_data n' = n_data n \<Longrightarrow> data_of (set_link a n' h) xs = data_of h xs"
  by (auto simp: data_of_def)

lemma data_of_other: "a \<notin> set xs \<Longrightarrow> data_of (h\<lparr>nodes := (nodes h)(a := v), node_brk := b\<rparr>) xs = data_of h xs"
  "a \<notin> set xs \<Longrightarrow> data_of (h\<lparr>nodes := (nodes h)(a := v)\<rparr>) xs = data_of h xs"
  "a \<notin> set xs \<Longrightarrow> data_of (set_link a n h) xs = data_of h xs"
  by (auto simp: data_of_def)

text \<open>\<open>yields h xs res ds\<close>: an operation on the list of the nodes \<open>xs\<close> returns a list with the data \<open>ds\<close>, and touches
  only nodes of \<open>xs\<close> and nodes that were free.\<close>

definition yields :: "'a list_heap \<Rightarrow> link list \<Rightarrow> (link option \<times> 'a list_heap) option \<Rightarrow> 'a list \<Rightarrow> bool" where
  "yields h xs res ds \<longleftrightarrow> (\<exists>l' h' ys. res = Some (l', h') \<and> is_list h' l' ys \<and> data_of h' ys = ds \<and> heap_ok h'
     \<and> set ys \<subseteq> set xs \<union> {a. nodes h a = None} \<and> same_outside (set xs \<union> {a. nodes h a = None}) h h')"

lemma yieldsI: "res = Some (l', h') \<Longrightarrow> is_list h' l' ys \<Longrightarrow> data_of h' ys = ds \<Longrightarrow> heap_ok h' \<Longrightarrow>
    set ys \<subseteq> set xs \<union> {a. nodes h a = None} \<Longrightarrow> same_outside (set xs \<union> {a. nodes h a = None}) h h' \<Longrightarrow> yields h xs res ds"
  unfolding yields_def by blast

lemma walk_to_end_seg: "seg h p l (xs @ [x]) None q \<Longrightarrow> l = Some e \<Longrightarrow> walk_to_end h e = Some x"
proof (induction xs arbitrary: p l e)
  case (Cons y ys)
  then obtain n where n: "nodes h e = Some n" "seg h (Some y) (n_next n) (ys @ [x]) None q" by auto
  have "n_next n \<noteq> None" using n(2) by (cases ys) auto
  then obtain j where j: "n_next n = Some j" by auto
  have "walk_to_end h j = Some x" by (rule Cons.IH[OF n(2) j])
  then show ?case by (subst walk_to_end.simps) (simp add: n(1) j)
next
  case Nil
  then obtain n where "nodes h e = Some n" "n_next n = None" "e = x" by auto
  then show ?case by (subst walk_to_end.simps) simp
qed

lemma new_node_ok: "heap_ok h \<Longrightarrow> heap_ok (snd (ms_list_new d h))"
  by (auto simp: heap_ok_def ms_list_new_def)

lemma seg_new: "is_list h l xs \<Longrightarrow> heap_ok h \<Longrightarrow> seg (snd (ms_list_new d h)) None l xs None (last_link xs)"
  using is_list_fresh[of h l xs] by (auto simp: is_list_def ms_list_new_def intro: seg_frame)

lemma heap_ok_set_link: "heap_ok h \<Longrightarrow> nodes h a \<noteq> None \<Longrightarrow> heap_ok (set_link a n h)"
  by (auto simp: heap_ok_def)

lemma ms_list_append_is:
  assumes l: "is_list h l xs" and ok: "heap_ok h"
  shows "yields h xs (ms_list_append l d h) (data_of h xs @ [d])"
proof -
  define b where "b = node_brk h"
  define h1 where "h1 = snd (ms_list_new d h)"
  have new: "ms_list_new d h = (b, h1)" "nodes h1 = (nodes h)(b \<mapsto> \<lparr>n_next = None, n_prev = None, n_data = d\<rparr>)"
    by (auto simp: ms_list_new_def b_def h1_def)
  have fr: "b \<notin> set xs" "nodes h b = None" using is_list_fresh[OF l ok] heap_okD[OF ok] by (auto simp: b_def)
  have ok1: "heap_ok h1" using new_node_ok[OF ok] by (simp add: h1_def)
  have s1: "seg h1 None l xs None (last_link xs)" using seg_new[OF l ok] by (simp add: h1_def)
  have d1: "data_of h1 xs = data_of h xs" using fr by (auto simp: data_of_def new)
  have dis: "distinct xs" using l by (simp add: is_list_def)
  show ?thesis
  proof (cases xs rule: rev_cases)
    case Nil
    then have "l = None" using s1 by simp
    then show ?thesis using Nil ok1 fr
      by (intro yieldsI[of _ "Some b" h1 "[b]"])
         (auto simp: ms_list_append_def ms_list_append_link_def new is_list_def same_outside_def)
  next
    case (snoc ys x)
    then obtain e where e: "l = Some e" using s1 seg_first[OF s1] by auto
    have w: "walk_to_end h1 e = Some x" using walk_to_end_seg[of h1 None l ys x _ e] s1 snoc e by simp
    obtain n where n: "nodes h1 x = Some n" using seg_alloc[OF s1, of x] snoc by auto
    define h2 where "h2 = set_link x (n\<lparr>n_next := Some b\<rparr>) h1"
    define h3 where "h3 = set_link b \<lparr>n_next = None, n_prev = Some x, n_data = d\<rparr> h2"
    have xb: "x \<noteq> b" "x \<notin> set ys" using fr snoc dis by auto
    have nb: "nodes h2 b = Some \<lparr>n_next = None, n_prev = None, n_data = d\<rparr>" using xb by (simp add: h2_def new)
    have r: "ms_list_append l d h = Some (l, h3)"
      by (simp add: ms_list_append_def ms_list_append_link_def new e w set_n_next_link[OF n] flip: h2_def)
         (simp add: set_n_prev_link[OF nb] h3_def)
    have "seg h2 None l (ys @ [x]) (Some b) (Some x)"
      unfolding h2_def using s1 snoc by (intro seg_set_next_last[OF _ xb(2) n]) auto
    then have "seg h3 None l xs (Some b) (Some x)"
      unfolding h3_def using snoc fr by (intro seg_other) auto
    then have "seg h3 None l (xs @ [b]) None (Some b)"
      by (auto simp: seg_append h3_def)
    then have "is_list h3 l (xs @ [b])" using dis fr by (auto simp: is_list_iff)
    moreover have "data_of h3 (xs @ [b]) = data_of h xs @ [d]"
    proof -
      have "data_of h2 xs = data_of h1 xs" unfolding h2_def by (rule data_of_set_link[OF n]) simp
      moreover have "data_of h3 xs = data_of h2 xs" unfolding h3_def using fr by (intro data_of_other) auto
      ultimately show ?thesis using d1 by (simp add: h3_def)
    qed
    moreover have "heap_ok h3" unfolding h3_def h2_def using ok1 n nb by (intro heap_ok_set_link) (auto simp: h2_def)
    moreover have "same_outside (set xs \<union> {a. nodes h a = None}) h h3"
      using snoc fr by (auto simp: same_outside_def h3_def h2_def new)
    ultimately show ?thesis using r fr by (intro yieldsI[OF r]) auto
  qed
qed

text \<open>The link back of the first of the nodes \<open>vs\<close>, if there is one.\<close>

definition link_prev :: "link option \<Rightarrow> link list \<Rightarrow> 'a list_heap \<Rightarrow> 'a list_heap" where
  "link_prev p vs h = (case vs of [] \<Rightarrow> h | v # _ \<Rightarrow> set_link v ((the (nodes h v))\<lparr>n_prev := p\<rparr>) h)"

lemma link_prev_is:
  assumes s: "vs \<noteq> [] \<Longrightarrow> seg h p0 c vs None q" and c: "c = (case vs of [] \<Rightarrow> None | v # _ \<Rightarrow> Some v)"
    and q: "vs = [] \<Longrightarrow> q = p" and d: "distinct vs"
  shows "seg (link_prev p vs h) p c vs None q" "data_of (link_prev p vs h) zs = data_of h zs"
    "heap_ok h \<Longrightarrow> heap_ok (link_prev p vs h)" "a \<notin> set vs \<Longrightarrow> nodes (link_prev p vs h) a = nodes h a"
    "(case c of None \<Rightarrow> Some h | Some v \<Rightarrow> set_n_prev p v h) = Some (link_prev p vs h)"
proof -
  have "seg (link_prev p vs h) p c vs None q \<and> data_of (link_prev p vs h) zs = data_of h zs
      \<and> (heap_ok h \<longrightarrow> heap_ok (link_prev p vs h)) \<and> (\<forall>a. a \<notin> set vs \<longrightarrow> nodes (link_prev p vs h) a = nodes h a)
      \<and> (case c of None \<Rightarrow> Some h | Some v \<Rightarrow> set_n_prev p v h) = Some (link_prev p vs h)"
  proof (cases vs)
    case (Cons v ws)
    have s: "seg h p0 c vs None q" using s Cons by simp
    obtain nv where nv: "nodes h v = Some nv" using s Cons by auto
    have dv: "v \<notin> set ws" using d Cons by auto
    have "link_prev p vs h = set_link v (nv\<lparr>n_prev := p\<rparr>) h" using Cons nv by (simp add: link_prev_def)
    with seg_set_prev_hd[OF s[unfolded Cons] dv nv, of p] nv Cons c show ?thesis
      by (auto simp: set_n_prev_link intro: heap_ok_set_link)
  qed (use c q in \<open>simp add: link_prev_def\<close>)
  then show "seg (link_prev p vs h) p c vs None q" "data_of (link_prev p vs h) zs = data_of h zs"
    "heap_ok h \<Longrightarrow> heap_ok (link_prev p vs h)" "a \<notin> set vs \<Longrightarrow> nodes (link_prev p vs h) a = nodes h a"
    "(case c of None \<Rightarrow> Some h | Some v \<Rightarrow> set_n_prev p v h) = Some (link_prev p vs h)" by blast+
qed

lemma seg_next: "seg h p c vs None q \<Longrightarrow> c = (case vs of [] \<Rightarrow> None | v # _ \<Rightarrow> Some v)"
  by (cases vs) auto

text \<open>A list is cut open in front of a node.\<close>

lemma is_list_split: "is_list h l (us @ vs) \<Longrightarrow> \<exists>c. seg h None l us c (last_link us)
    \<and> seg h (last_link us) c vs None (last_link (us @ vs)) \<and> c = (case vs of [] \<Rightarrow> None | v # _ \<Rightarrow> Some v)
    \<and> distinct us \<and> distinct vs \<and> set us \<inter> set vs = {}"
proof -
  assume l: "is_list h l (us @ vs)"
  then obtain c r where s: "seg h None l us c r" "seg h r c vs None (last_link (us @ vs))"
    by (auto simp: is_list_def seg_append)
  moreover have "r = last_link us" using seg_back[OF s(1)] by (simp add: last_link_def)
  ultimately show ?thesis using l seg_next[OF s(2)] by (auto simp: is_list_def)
qed

text \<open>A node is taken out of the front or out of the middle of a list.\<close>

lemma remove_head_is:
  assumes l: "is_list h l (e # vs)" and ok: "heap_ok h"
  shows "\<exists>l' h'. ms_list_remove_link l e h = Some (l', h') \<and> is_list h' l' vs
           \<and> data_of h' vs = data_of h vs \<and> heap_ok h' \<and> nodes h' e = None \<and> same_outside (set (e # vs)) h h'"
proof -
  obtain n where n: "l = Some e" "nodes h e = Some n" "seg h (Some e) (n_next n) vs None (last_link (e # vs))"
      and d: "e \<notin> set vs" "distinct vs" using l by (auto simp: is_list_def)
  define q where "q = (if vs = [] then None else last_link (e # vs))"
  note H = link_prev_is[of vs h "Some e" "n_next n" q None, OF _ seg_next[OF n(3)] _ d(2)]
  have sq: "vs \<noteq> [] \<Longrightarrow> seg h (Some e) (n_next n) vs None q" "vs = [] \<Longrightarrow> q = None"
    using n(3) by (simp_all add: q_def)
  let ?h1 = "link_prev None vs h" let ?h2 = "?h1\<lparr>nodes := (nodes ?h1)(e := None)\<rparr>"
  have ne: "nodes ?h1 e = Some n" using H(4)[OF sq d(1)] n by simp
  have "ms_list_remove_link l e h = Some (n_next n, ?h2)"
    using H(5)[OF sq] by (simp add: ms_list_remove_link_def n ne)
  moreover have "seg ?h2 None (n_next n) vs None q" by (rule seg_frame[OF H(1)[OF sq]]) (use d in auto)
  moreover have "data_of ?h2 vs = data_of h vs" using H(2)[OF sq] d by (simp add: data_of_other)
  moreover have "heap_ok ?h2" using H(3)[OF sq ok] by (simp add: heap_ok_def)
  moreover have "same_outside (set (e # vs)) h ?h2" using H(4)[OF sq] by (auto simp: same_outside_def)
  ultimately show ?thesis using d by (auto simp: is_list_iff)
qed

lemma remove_inner_is:
  assumes l: "is_list h l (us @ e # vs)" and ok: "heap_ok h" and us: "us \<noteq> []"
  shows "\<exists>l' h'. ms_list_remove_link l e h = Some (l', h') \<and> is_list h' l' (us @ vs)
           \<and> data_of h' (us @ vs) = data_of h us @ data_of h vs \<and> heap_ok h' \<and> nodes h' e = None
           \<and> same_outside (set (us @ e # vs)) h h'"
proof -
  obtain ts p where ts: "us = ts @ [p]" using us by (cases us rule: rev_cases) auto
  from is_list_split[OF l] obtain n where s1: "seg h None l us (Some e) (Some p)" and n: "nodes h e = Some n" "n_prev n = Some p"
      and s2: "seg h (Some e) (n_next n) vs None (last_link (us @ e # vs))" by (auto simp: ts)
  have dis: "distinct (us @ e # vs)" using l by (simp add: is_list_def)
  have d: "p \<notin> set ts" "p \<notin> set vs" "p \<noteq> e" "e \<notin> set us" "e \<notin> set vs" "distinct vs" "set us \<inter> set vs = {}"
    using dis by (auto simp: ts)
  have l_ne: "l \<noteq> Some e" using seg_first[OF s1] d by (cases ts) (auto simp: ts)
  obtain np where np: "nodes h p = Some np" using seg_alloc[OF s1, of p] by (auto simp: ts)
  define h1 where "h1 = set_link p (np\<lparr>n_next := n_next n\<rparr>) h"
  have s1': "seg h1 None l us (n_next n) (Some p)"
    using seg_set_next_last[of h None l ts p "Some e" "Some p" np "n_next n"] s1 np d by (simp add: h1_def ts)
  have ok1: "heap_ok h1" unfolding h1_def using np by (intro heap_ok_set_link[OF ok]) simp
  define q where "q = (if vs = [] then Some p else last_link (us @ e # vs))"
  note H = link_prev_is[of vs h1 "Some e" "n_next n" q "Some p", OF _ seg_next[OF s2] _ d(6)]
  have sq: "vs \<noteq> [] \<Longrightarrow> seg h1 (Some e) (n_next n) vs None q" "vs = [] \<Longrightarrow> q = Some p"
    unfolding h1_def using s2 d by (auto simp: q_def intro!: seg_other)
  let ?h2 = "link_prev (Some p) vs h1" let ?h3 = "?h2\<lparr>nodes := (nodes ?h2)(e := None)\<rparr>"
  note Ho = H(4)[OF sq]
  have ne: "nodes ?h2 e = Some n" using Ho d n by (simp add: h1_def)
  have "ms_list_remove_link l e h = Some (l, ?h3)"
    using H(5)[OF sq] by (simp add: ms_list_remove_link_def l_ne n ne set_n_next_link[OF np] cong: option.case_cong flip: h1_def)
  moreover have "is_list ?h3 l (us @ vs)"
  proof -
    have "seg ?h3 None l us (n_next n) (Some p)" by (rule seg_frame[OF s1']) (use d Ho in auto)
    moreover have "seg ?h3 (Some p) (n_next n) vs None q" by (rule seg_frame[OF H(1)[OF sq]]) (use d in auto)
    ultimately show ?thesis using dis by (auto simp: is_list_iff seg_append)
  qed
  moreover have "data_of ?h3 (us @ vs) = data_of h us @ data_of h vs"
  proof -
    have "data_of ?h3 (us @ vs) = data_of ?h2 (us @ vs)" using d by (intro data_of_other) auto
    also have "\<dots> = data_of h1 (us @ vs)" by (rule H(2)[OF sq])
    also have "\<dots> = data_of h (us @ vs)" unfolding h1_def by (rule data_of_set_link[OF np]) simp
    finally show ?thesis by simp
  qed
  moreover have "heap_ok ?h3" using H(3)[OF sq ok1] by (simp add: heap_ok_def)
  moreover have "same_outside (set (us @ e # vs)) h ?h3" using Ho by (auto simp: same_outside_def h1_def ts)
  ultimately show ?thesis by auto
qed

lemma ms_list_remove_link_is:
  assumes l: "is_list h l (us @ e # vs)" and ok: "heap_ok h"
  shows "\<exists>l' h'. ms_list_remove_link l e h = Some (l', h') \<and> is_list h' l' (us @ vs)
           \<and> data_of h' (us @ vs) = data_of h us @ data_of h vs \<and> heap_ok h'
           \<and> nodes h' e = None \<and> same_outside (set (us @ e # vs)) h h'"
proof (cases us)
  case Nil
  then show ?thesis using remove_head_is[of h l e vs] l ok by auto
next
  case Cons
  then show ?thesis using remove_inner_is[OF l ok] by simp
qed

lemma remove1_data: "\<forall>u\<in>set us. n_data (the (nodes h u)) \<noteq> d \<Longrightarrow> n_data (the (nodes h e)) = d \<Longrightarrow>
    remove1 d (data_of h (us @ e # vs)) = data_of h us @ data_of h vs"
  by (auto simp: remove1_append data_of_def)

lemma ms_list_remove_is:
  assumes l: "is_list h l xs" and ok: "heap_ok h"
  shows "yields h xs (ms_list_remove l d h) (remove1 d (data_of h xs))"
proof (cases "find (\<lambda>x. n_data (the (nodes h x)) = d) xs")
  case None
  then have "d \<notin> set (data_of h xs)" by (auto simp: find_None_iff data_of_def)
  then show ?thesis using None l ok
    by (intro yieldsI[of _ l h xs]) (auto simp: ms_list_remove_def ms_list_find_def ms_list_find_custom_is remove1_idem same_outside_def)
next
  case (Some e)
  from find_node_split[OF this] obtain us vs where xs: "xs = us @ e # vs"
      "\<forall>u\<in>set us. n_data (the (nodes h u)) \<noteq> d" "n_data (the (nodes h e)) = d" by auto
  from ms_list_remove_link_is[OF l[unfolded xs(1)] ok] obtain l' h' where r: "ms_list_remove_link l e h = Some (l', h')"
      "is_list h' l' (us @ vs)" "data_of h' (us @ vs) = data_of h us @ data_of h vs" "heap_ok h'"
      "same_outside (set xs) h h'" unfolding xs(1) by blast
  have "ms_list_remove l d h = Some (l', h')"
    using l Some r(1) by (simp add: ms_list_remove_def ms_list_find_def ms_list_find_custom_is)
  then show ?thesis using r remove1_data[OF xs(2,3), of vs] xs(1)
    by (intro yieldsI[of _ l' h' "us @ vs"]) (auto simp: same_outside_def)
qed

text \<open>Insertion in order, on lists.\<close>

fun ms_insort :: "('a \<Rightarrow> 'a \<Rightarrow> bool) \<Rightarrow> 'a \<Rightarrow> 'a list \<Rightarrow> 'a list" where
  "ms_insort leq d [] = [d]"
| "ms_insort leq d (x # xs) = (if leq d x then d # x # xs else x # ms_insort leq d xs)"

text \<open>A list \<open>l'\<close> made of the nodes \<open>ys\<close> with the data \<open>ds\<close>, after changes to nodes of \<open>S\<close> only.\<close>

definition leads_to :: "'a list_heap \<Rightarrow> link set \<Rightarrow> (link option \<times> 'a list_heap) option \<Rightarrow> link list \<Rightarrow> 'a list \<Rightarrow> bool" where
  "leads_to h S res ys ds \<longleftrightarrow> (\<exists>l' h'. res = Some (l', h') \<and> is_list h' l' ys \<and> data_of h' ys = ds \<and> heap_ok h'
     \<and> same_outside S h h')"

lemma link_at_front:
  assumes l: "is_list h (Some e) (e # vs)" and b: "nodes h b = Some nb" "b \<notin> set (e # vs)" and ok: "heap_ok h"
  shows "\<exists>h1 h2 h3. set_n_prev None b h = Some h1 \<and> set_n_next (Some e) b h1 = Some h2 \<and> set_n_prev (Some b) e h2 = Some h3
           \<and> is_list h3 (Some b) (b # e # vs) \<and> data_of h3 (b # e # vs) = n_data nb # data_of h (e # vs) \<and> heap_ok h3
           \<and> same_outside (set (b # e # vs)) h h3"
proof -
  obtain n where n: "nodes h e = Some n" using l by (auto simp: is_list_def)
  define h2 where "h2 = set_link b (nb\<lparr>n_prev := None, n_next := Some e\<rparr>) h"
  define h3 where "h3 = set_link e (n\<lparr>n_prev := Some b\<rparr>) h2"
  have s: "seg h None (Some e) (e # vs) None (last_link (e # vs))" and d: "distinct (e # vs)" using l by (auto simp: is_list_def)
  have ne: "nodes h2 e = Some n" using n b by (simp add: h2_def)
  have steps: "\<exists>h1. set_n_prev None b h = Some h1 \<and> set_n_next (Some e) b h1 = Some h2 \<and> set_n_prev (Some b) e h2 = Some h3"
    by (simp add: set_n_prev_link[OF b(1)] set_n_next_def set_n_prev_link[OF ne] h3_def) (simp add: set_link_def h2_def)
  have "seg h2 None (Some e) (e # vs) None (last_link (e # vs))" unfolding h2_def using s b by (intro seg_other) auto
  then have "seg h3 (Some b) (Some e) (e # vs) None (last_link (e # vs))"
    unfolding h3_def using d ne by (intro seg_set_prev_hd) auto
  then have "is_list h3 (Some b) (b # e # vs)" using d b by (auto simp: is_list_iff h3_def h2_def)
  moreover have "data_of h3 (b # e # vs) = n_data nb # data_of h (e # vs)"
  proof -
    have "data_of h3 xs = data_of h xs" for xs
      unfolding h3_def h2_def using ne b(1) by (simp add: h2_def)
    from this[of "b # e # vs"] show ?thesis using b by simp
  qed
  moreover have "heap_ok h3" unfolding h3_def h2_def using ok b n by (intro heap_ok_set_link) auto
  moreover have "same_outside (set (b # e # vs)) h h3" by (auto simp: same_outside_def h3_def h2_def)
  ultimately show ?thesis using steps by blast
qed

lemma link_in_the_middle:
  assumes l: "is_list h l (us @ e # vs)" and us: "us = ts @ [p]" and b: "nodes h b = Some nb" "b \<notin> set (us @ e # vs)" and ok: "heap_ok h"
  shows "\<exists>h1 h2 h3 h4. set_n_prev (Some p) b h = Some h1 \<and> set_n_next (Some e) b h1 = Some h2 \<and> set_n_next (Some b) p h2 = Some h3
           \<and> set_n_prev (Some b) e h3 = Some h4
           \<and> is_list h4 l (us @ b # e # vs) \<and> data_of h4 (us @ b # e # vs) = data_of h us @ n_data nb # data_of h (e # vs) \<and> heap_ok h4
           \<and> same_outside (set (us @ b # e # vs)) h h4"
proof -
  from is_list_split[OF l] obtain n where s1: "seg h None l us (Some e) (Some p)" and n: "nodes h e = Some n"
      and s2: "seg h (Some p) (Some e) (e # vs) None (last_link (us @ e # vs))" by (auto simp: us)
  have dis: "distinct (us @ e # vs)" using l by (simp add: is_list_def)
  have d: "p \<notin> set ts" "p \<notin> set vs" "p \<noteq> e" "e \<notin> set us" "e \<notin> set vs" "set us \<inter> set vs = {}" "b \<noteq> p" "b \<noteq> e" "b \<notin> set us"
    using dis b by (auto simp: us)
  obtain np where np: "nodes h p = Some np" using seg_alloc[OF s1, of p] by (auto simp: us)
  define h2 where "h2 = set_link b (nb\<lparr>n_prev := Some p, n_next := Some e\<rparr>) h"
  define h3 where "h3 = set_link p (np\<lparr>n_next := Some b\<rparr>) h2"
  define h4 where "h4 = set_link e (n\<lparr>n_prev := Some b\<rparr>) h3"
  have np2: "nodes h2 p = Some np" using np d by (simp add: h2_def)
  have ne: "nodes h3 e = Some n" using n d by (simp add: h3_def h2_def)
  have steps: "\<exists>h1. set_n_prev (Some p) b h = Some h1 \<and> set_n_next (Some e) b h1 = Some h2 \<and> set_n_next (Some b) p h2 = Some h3
      \<and> set_n_prev (Some b) e h3 = Some h4"
    by (simp add: set_n_prev_link[OF b(1)] set_n_next_def np2 set_n_prev_link[OF ne] h4_def)
       (simp add: set_link_def h2_def h3_def)
  have "seg h2 None l (ts @ [p]) (Some e) (Some p)" unfolding h2_def using s1 d by (intro seg_other) (auto simp: us)
  then have "seg h3 None l us (Some b) (Some p)" unfolding h3_def us using d np2 by (intro seg_set_next_last) auto
  then have s1': "seg h4 None l us (Some b) (Some p)" unfolding h4_def using d by (intro seg_other)
  have "seg h3 (Some p) (Some e) (e # vs) None (last_link (us @ e # vs))"
    unfolding h3_def h2_def using s2 d b by (intro seg_other) auto
  then have "seg h4 (Some b) (Some e) (e # vs) None (last_link (us @ e # vs))"
    unfolding h4_def using d ne by (intro seg_set_prev_hd) auto
  with s1' have "is_list h4 l (us @ b # e # vs)"
    using dis b d by (auto simp: is_list_iff seg_append h4_def h3_def h2_def)
  moreover have "data_of h4 (us @ b # e # vs) = data_of h us @ n_data nb # data_of h (e # vs)"
  proof -
    have "data_of h4 xs = data_of h xs" for xs
      unfolding h4_def h3_def h2_def using b(1) np2 ne by (simp add: h3_def h2_def)
    from this[of "us @ b # e # vs"] show ?thesis using b by simp
  qed
  moreover have "heap_ok h4" unfolding h4_def h3_def h2_def using ok b n np by (intro heap_ok_set_link) auto
  moreover have "same_outside (set (us @ b # e # vs)) h h4" by (auto simp: same_outside_def h4_def h3_def h2_def us)
  ultimately show ?thesis using steps by blast
qed

lemma link_at_end:
  assumes l: "is_list h l (ts @ [p])" and b: "nodes h b = Some nb" "n_next nb = None" "b \<notin> set (ts @ [p])" and ok: "heap_ok h"
  shows "\<exists>h1 h2. set_n_next (Some b) p h = Some h1 \<and> set_n_prev (Some p) b h1 = Some h2 \<and> is_list h2 l (ts @ [p, b])
           \<and> data_of h2 (ts @ [p, b]) = data_of h (ts @ [p]) @ [n_data nb] \<and> heap_ok h2 \<and> same_outside (set (ts @ [p, b])) h h2"
proof -
  have s: "seg h None l (ts @ [p]) None (Some p)" and d: "distinct (ts @ [p])" using l by (simp_all add: is_list_def)
  obtain np where np: "nodes h p = Some np" using seg_alloc[OF s, of p] by auto
  define h1 where "h1 = set_link p (np\<lparr>n_next := Some b\<rparr>) h"
  define h2 where "h2 = set_link b (nb\<lparr>n_prev := Some p\<rparr>) h1"
  have nb: "nodes h1 b = Some nb" using b by (auto simp: h1_def)
  have steps: "set_n_next (Some b) p h = Some h1" "set_n_prev (Some p) b h1 = Some h2"
    using set_n_next_link[OF np] set_n_prev_link[OF nb] by (simp_all add: h1_def h2_def)
  have "seg h1 None l (ts @ [p]) (Some b) (Some p)" unfolding h1_def using s d np by (intro seg_set_next_last) auto
  then have "seg h2 None l (ts @ [p]) (Some b) (Some p)" unfolding h2_def using b by (intro seg_other) auto
  then have "seg h2 None l ((ts @ [p]) @ [b]) None (Some b)" unfolding seg_append[of h2 None l "ts @ [p]"] using b by (auto simp: h2_def)
  then have "is_list h2 l (ts @ [p, b])" using d b by (auto simp: is_list_iff)
  moreover have "data_of h2 (ts @ [p, b]) = data_of h (ts @ [p]) @ [n_data nb]"
  proof -
    have "data_of h2 xs = data_of h xs" for xs unfolding h2_def h1_def using nb np by (simp add: h1_def)
    from this[of "ts @ [p, b]"] show ?thesis using b by simp
  qed
  moreover have "heap_ok h2" unfolding h2_def h1_def using ok b np by (intro heap_ok_set_link) auto
  moreover have "same_outside (set (ts @ [p, b])) h h2" by (auto simp: same_outside_def h2_def h1_def)
  ultimately show ?thesis using steps by blast
qed

lemma leads_toI: "is_list h' l' ys \<Longrightarrow> data_of h' ys = ds \<Longrightarrow> heap_ok h' \<Longrightarrow> same_outside S h h' \<Longrightarrow> leads_to h S (Some (l', h')) ys ds"
  by (simp add: leads_to_def)

lemma insert_loop_found:
  assumes l: "is_list h l (us @ e # vs)" and b: "nodes h b = Some nb" "b \<notin> set (us @ e # vs)" and ok: "heap_ok h"
    and hit: "leq (n_data (the (nodes h e)))"
  shows "leads_to h (set (us @ b # e # vs)) (insert_loop leq l b previt (Some e) h) (us @ b # e # vs)
           (data_of h us @ n_data nb # data_of h (e # vs))"
proof (cases us rule: rev_cases)
  case Nil
  then obtain n where e: "l = Some e" "nodes h e = Some n" "n_prev n = None" using l by (auto simp: is_list_def)
  from link_at_front[of h e vs b nb] l b ok e(1) Nil obtain h1 h2 h3 where
      "set_n_prev None b h = Some h1" "set_n_next (Some e) b h1 = Some h2" "set_n_prev (Some b) e h2 = Some h3"
      "is_list h3 (Some b) (b # e # vs)" "data_of h3 (b # e # vs) = n_data nb # data_of h (e # vs)" "heap_ok h3"
      "same_outside (set (b # e # vs)) h h3" by auto
  with e hit Nil show ?thesis by (simp add: insert_loop.simps[of leq "Some e" b previt "Some e"] leads_to_def)
next
  case (snoc ts p)
  obtain n where e: "nodes h e = Some n" "n_prev n = Some p"
    using is_list_split[OF l] snoc by auto
  from link_in_the_middle[OF l snoc b ok] obtain h1 h2 h3 h4 where
      "set_n_prev (Some p) b h = Some h1" "set_n_next (Some e) b h1 = Some h2" "set_n_next (Some b) p h2 = Some h3"
      "set_n_prev (Some b) e h3 = Some h4" "is_list h4 l (us @ b # e # vs)"
      "data_of h4 (us @ b # e # vs) = data_of h us @ n_data nb # data_of h (e # vs)" "heap_ok h4"
      "same_outside (set (us @ b # e # vs)) h h4" by blast
  with e hit show ?thesis by (simp add: insert_loop.simps[of leq l b previt "Some e"] leads_to_def)
qed

lemma insert_loop_is:
  assumes "is_list h l (us @ vs)" "us @ vs \<noteq> []" "nodes h b = Some nb" "n_next nb = None" "n_data nb = d" "b \<notin> set (us @ vs)" "heap_ok h"
    "it = (case vs of [] \<Rightarrow> None | v # _ \<Rightarrow> Some v)" "previt = last_link us"
  shows "\<exists>ys. leads_to h (set (b # us @ vs)) (insert_loop (leq d) l b previt it h) ys (data_of h us @ ms_insort leq d (data_of h vs))
           \<and> set ys = set (b # us @ vs)"
  using assms
proof (induction vs arbitrary: us it previt)
  case Nil
  then obtain ts p where us: "us = ts @ [p]" by (cases us rule: rev_cases) auto
  from link_at_end[of h l ts p b nb] Nil us obtain h1 h2 where "set_n_next (Some b) p h = Some h1" "set_n_prev (Some p) b h1 = Some h2"
      "is_list h2 l (ts @ [p, b])" "data_of h2 (ts @ [p, b]) = data_of h (ts @ [p]) @ [d]" "heap_ok h2" "same_outside (set (ts @ [p, b])) h h2"
    by auto
  then have "leads_to h (set (ts @ [p, b])) (insert_loop (leq d) l b previt it h) (ts @ [p, b]) (data_of h us @ ms_insort leq d (data_of h []))"
    using Nil us by (simp add: insert_loop.simps[of "leq d" l b "Some p" None] leads_to_def)
  moreover have "set (ts @ [p, b]) = set (b # us @ [])" using us by auto
  ultimately show ?case by (metis (no_types))
next
  case (Cons e ws)
  obtain n where n: "nodes h e = Some n" using is_list_split[OF Cons.prems(1)] by auto
  show ?case
  proof (cases "leq d (n_data n)")
    case True
    have "leads_to h (set (us @ b # e # ws)) (insert_loop (leq d) l b previt (Some e) h) (us @ b # e # ws)
           (data_of h us @ n_data nb # data_of h (e # ws))"
      using Cons.prems n True by (intro insert_loop_found) auto
    then have "leads_to h (set (b # us @ e # ws)) (insert_loop (leq d) l b previt it h) (us @ b # e # ws)
           (data_of h us @ ms_insort leq d (data_of h (e # ws)))"
      using Cons.prems n True by (simp add: insert_commute)
    then show ?thesis by (intro exI[of _ "us @ b # e # ws"]) auto
  next
    case False
    have "n_next n = (case ws of [] \<Rightarrow> None | v # _ \<Rightarrow> Some v)"
      using is_list_split[OF Cons.prems(1)] n seg_next by fastforce
    with Cons.IH[of "us @ [e]" "n_next n" "Some e"] Cons.prems False n show ?thesis
      by (simp add: insert_loop.simps[of "leq d" l b "last_link us" "Some e"])
  qed
qed

lemma leads_to_yields: "leads_to h1 S res ys ds \<Longrightarrow> same_outside T h h1 \<Longrightarrow> S \<union> T \<subseteq> set xs \<union> {a. nodes h a = None} \<Longrightarrow>
    set ys \<subseteq> S \<Longrightarrow> yields h xs res ds"
proof -
  assume a: "leads_to h1 S res ys ds" "same_outside T h h1" "S \<union> T \<subseteq> set xs \<union> {a. nodes h a = None}" "set ys \<subseteq> S"
  then obtain l' h' where r: "res = Some (l', h')" "is_list h' l' ys" "data_of h' ys = ds" "heap_ok h'" "same_outside S h1 h'"
    by (auto simp: leads_to_def)
  have "same_outside (set xs \<union> {a. nodes h a = None}) h h'"
    unfolding same_outside_def
  proof (intro allI impI)
    fix x assume "x \<notin> set xs \<union> {a. nodes h a = None}"
    then have "x \<notin> S" "x \<notin> T" using a(3) by blast+
    then show "nodes h' x = nodes h x" using a(2) r(5) by (simp add: same_outside_def)
  qed
  then show ?thesis using r a(3,4) by (intro yieldsI[OF r(1,2,3,4)]) blast+
qed

lemma ms_list_new_nodes: "nodes (snd (ms_list_new d h)) = (nodes h)(node_brk h \<mapsto> \<lparr>n_next = None, n_prev = None, n_data = d\<rparr>)"
  by (simp_all add: ms_list_new_def)

lemma is_list_new: "is_list h l xs \<Longrightarrow> heap_ok h \<Longrightarrow> is_list (snd (ms_list_new d h)) l xs \<and> data_of (snd (ms_list_new d h)) xs = data_of h xs"
  using seg_new[of h l xs d] is_list_fresh[of h l xs] by (auto simp: is_list_def data_of_def ms_list_new_nodes)

lemma ms_list_insert_sorted_is:
  assumes l: "is_list h l xs" and ok: "heap_ok h"
  shows "yields h xs (ms_list_insert_sorted leq l d h) (ms_insort leq d (data_of h xs))"
proof (cases xs)
  case Nil
  then show ?thesis using ms_list_append_is[OF l ok, of d] l by (simp add: ms_list_insert_sorted_def)
next
  case (Cons x ys)
  define b where "b = node_brk h"
  define h1 where "h1 = snd (ms_list_new d h)"
  have lx: "l = Some x" using l Cons by (auto simp: is_list_def)
  have l1: "is_list h1 l ([] @ xs)" "data_of h1 xs = data_of h xs" using is_list_new[OF l ok] by (simp_all add: h1_def)
  have b: "nodes h1 b = Some \<lparr>n_next = None, n_prev = None, n_data = d\<rparr>" "b \<notin> set xs" "nodes h b = None"
    using is_list_fresh[OF l ok] heap_okD[OF ok] by (simp_all add: h1_def b_def ms_list_new_nodes)
  have eq: "ms_list_insert_sorted leq l d h = insert_loop (leq d) l b None l h1"
    using lx by (simp add: ms_list_insert_sorted_def ms_list_new_def h1_def b_def)
  have ok1: "heap_ok h1" using new_node_ok[OF ok, of d] by (simp add: h1_def)
  have "\<exists>zs. leads_to h1 (set (b # [] @ xs)) (insert_loop (leq d) l b None l h1) zs (data_of h1 [] @ ms_insort leq d (data_of h1 xs))
      \<and> set zs = set (b # [] @ xs)"
    by (rule insert_loop_is[OF l1(1) _ b(1)]) (use Cons lx b(2) ok1 in simp_all)
  then obtain zs where "leads_to h1 (set (b # xs)) (insert_loop (leq d) l b None l h1) zs (ms_insort leq d (data_of h xs))"
      "set zs = set (b # xs)" unfolding l1(2) by auto
  then show ?thesis unfolding eq using b
    by (intro leads_to_yields[of h1 "set (b # xs)" _ _ _ "{b}"])
       (auto simp: same_outside_def h1_def ms_list_new_nodes b_def)
qed

lemma ms_list_prepend_is:
  assumes l: "is_list h l xs" and ok: "heap_ok h"
  shows "yields h xs (ms_list_prepend l d h) (d # data_of h xs)"
proof -
  define b where "b = node_brk h"
  define h1 where "h1 = snd (ms_list_new d h)"
  have new: "ms_list_new d h = (b, h1)" by (simp add: h1_def b_def ms_list_new_def)
  have b: "nodes h1 b = Some \<lparr>n_next = None, n_prev = None, n_data = d\<rparr>" "b \<notin> set xs" "nodes h b = None"
    using is_list_fresh[OF l ok] heap_okD[OF ok] by (simp_all add: h1_def b_def ms_list_new_nodes)
  have l1: "is_list h1 l xs" "data_of h1 xs = data_of h xs" "heap_ok h1"
    using is_list_new[OF l ok] new_node_ok[OF ok, of d] by (simp_all add: h1_def)
  have out: "same_outside {b} h h1" by (auto simp: same_outside_def h1_def ms_list_new_nodes b_def)
  show ?thesis
  proof (cases xs)
    case Nil
    then have "leads_to h1 {b} (ms_list_prepend l d h) [b] (d # data_of h xs)"
      using l l1 b by (simp add: ms_list_prepend_def new leads_to_def is_list_def same_outside_def)
    then show ?thesis using out b by (intro leads_to_yields[of h1]) auto
  next
    case (Cons e vs)
    then have lx: "l = Some e" using l by (auto simp: is_list_def)
    from link_at_front[of h1 e vs b] l1 b Cons lx obtain g1 g2 g3 where g: "set_n_prev None b h1 = Some g1"
        "set_n_next (Some e) b g1 = Some g2" "set_n_prev (Some b) e g2 = Some g3"
        "is_list g3 (Some b) (b # xs)" "data_of g3 (b # xs) = d # data_of h xs" "heap_ok g3" "same_outside (set (b # xs)) h1 g3"
      by auto
    have "set_n_prev None b h1 = Some h1" using b by (simp add: set_n_prev_def fun_upd_idem)
    with g have "leads_to h1 (set (b # xs)) (ms_list_prepend l d h) (b # xs) (d # data_of h xs)"
      by (simp add: ms_list_prepend_def new lx leads_to_def)
    then show ?thesis using out b by (intro leads_to_yields[of h1]) auto
  qed
qed

section \<open>Sorted lists\<close>

lemma mset_ms_insort [simp]: "mset (ms_insort leq d xs) = add_mset d (mset xs)"
  by (induction xs) auto

lemma set_ms_insort [simp]: "set (ms_insort leq d xs) = insert d (set xs)"
  by (induction xs) auto

lemma length_ms_insort [simp]: "length (ms_insort leq d xs) = Suc (length xs)"
  by (induction xs) auto

lemma distinct_ms_insort [simp]: "distinct (ms_insort leq d xs) \<longleftrightarrow> d \<notin> set xs \<and> distinct xs"
  by (induction xs) auto

text \<open>What a caller of \<open>ms_list_insert_sorted\<close> promises: the comparison it passes (\<open>leq\<close>) refines a transitive order \<open>weak\<close>.
  Then the list stays sorted by \<open>weak\<close>.\<close>

locale ms_order =
  fixes leq weak :: "'a \<Rightarrow> 'a \<Rightarrow> bool"
  assumes leq_weak: "leq a b \<Longrightarrow> weak a b"
    and not_leq_weak: "\<not> leq a b \<Longrightarrow> weak b a"
    and weak_trans: "weak a b \<Longrightarrow> weak b c \<Longrightarrow> weak a c"
begin

lemma insort_sorted: "sorted_wrt weak xs \<Longrightarrow> sorted_wrt weak (ms_insort leq d xs)"
proof (induction xs)
  case (Cons x xs)
  show ?case
  proof (cases "leq d x")
    case True
    then have "weak d y" if "y \<in> set (x # xs)" for y
      using Cons.prems that leq_weak[OF True] weak_trans[OF leq_weak[OF True], of y] by auto
    with True Cons.prems show ?thesis by auto
  qed (use Cons not_leq_weak in auto)
qed simp

lemma foldr_insort_sorted: "sorted_wrt weak xs \<Longrightarrow> sorted_wrt weak (fold (ms_insort leq) ds xs)"
  by (induction ds arbitrary: xs) (simp_all add: insort_sorted)

end

section \<open>Freeing, joining and copying\<close>

lemma free_from_seg: "seg h p (Some e) xs None q \<Longrightarrow> distinct xs \<Longrightarrow>
    \<exists>h'. free_from e h = Some h' \<and> (\<forall>a. nodes h' a = (if a \<in> set xs then None else nodes h a)) \<and> node_brk h' = node_brk h"
proof (induction xs arbitrary: p e h)
  case (Cons x ys)
  then obtain n where n: "x = e" "nodes h e = Some n" "seg h (Some x) (n_next n) ys None q" by auto
  let ?h1 = "h\<lparr>nodes := (nodes h)(e := None)\<rparr>"
  show ?case
  proof (cases ys)
    case Nil
    then show ?thesis using n by (simp add: free_from.simps[of e])
  next
    case (Cons y zs)
    then have y: "n_next n = Some y" using n by simp
    have "seg ?h1 (Some x) (Some y) ys None q"
      using n Cons.prems(2) y by (intro seg_frame[OF n(3)[unfolded y]]) auto
    from Cons.IH[OF this] Cons.prems(2) n y show ?thesis by (auto simp: free_from.simps[of e])
  qed
qed simp

lemma ms_list_free_is: "is_list h l xs \<Longrightarrow> heap_ok h \<Longrightarrow>
    \<exists>h'. ms_list_free l h = Some (None, h') \<and> (\<forall>a. nodes h' a = (if a \<in> set xs then None else nodes h a)) \<and> heap_ok h'"
proof (cases l)
  case (Some e)
  assume a: "is_list h l xs" "heap_ok h"
  with Some free_from_seg[of h None e xs "last_link xs"] obtain h' where
      "free_from e h = Some h'" "\<forall>a. nodes h' a = (if a \<in> set xs then None else nodes h a)" "node_brk h' = node_brk h"
    by (auto simp: is_list_def)
  then show ?thesis using a Some by (auto simp: ms_list_free_def heap_ok_def)
qed (auto simp: ms_list_free_def)

lemma ms_list_concat_is:
  assumes f: "is_list h l xs" and s: "is_list h m ys" and dis: "set xs \<inter> set ys = {}" and ok: "heap_ok h"
    and ne: "xs = [] \<or> ys \<noteq> []"
  shows "\<exists>r h'. ms_list_concat l m h = Some (r, h') \<and> is_list h' r (xs @ ys) \<and> data_of h' (xs @ ys) = data_of h (xs @ ys)
           \<and> heap_ok h' \<and> same_outside (set (xs @ ys)) h h'"
proof (cases xs rule: rev_cases)
  case Nil
  then show ?thesis using f s ok by (auto simp: ms_list_concat_def same_outside_def)
next
  case (snoc ts x)
  then obtain y zs where ys: "ys = y # zs" using ne by (cases ys) auto
  have sx: "seg h None l (ts @ [x]) None (Some x)" and dx: "distinct (ts @ [x])" using f snoc by (auto simp: is_list_def)
  have sy: "seg h None m (y # zs) None (last_link ys)" and dy: "distinct (y # zs)" using s ys by (auto simp: is_list_def)
  have m: "m = Some y" using sy by simp
  obtain e where e: "l = Some e" using seg_first[OF sx] by auto
  have w: "walk_to_end h e = Some x" using walk_to_end_seg[OF sx e] .
  obtain n where n: "nodes h x = Some n" using seg_alloc[OF sx, of x] by auto
  obtain k where k: "nodes h y = Some k" using sy by auto
  define h1 where "h1 = set_link x (n\<lparr>n_next := Some y\<rparr>) h"
  define h2 where "h2 = set_link y (k\<lparr>n_prev := Some x\<rparr>) h1"
  have xy: "x \<noteq> y" "y \<notin> set (ts @ [x])" "x \<notin> set (y # zs)" using dis snoc ys by auto
  have k1: "nodes h1 y = Some k" using k xy by (simp add: h1_def)
  have "ms_list_concat l m h = Some (l, h2)"
    by (simp add: ms_list_concat_def e m w set_n_next_link[OF n] flip: h1_def) (simp add: set_n_prev_link[OF k1] h2_def)
  moreover have "is_list h2 l (xs @ ys)"
  proof -
    have "seg h1 None l (ts @ [x]) (Some y) (Some x)" unfolding h1_def using sx dx n by (intro seg_set_next_last) auto
    then have "seg h2 None l xs (Some y) (Some x)" unfolding h2_def snoc using xy by (intro seg_other) auto
    moreover have "seg h1 None (Some y) (y # zs) None (last_link ys)"
      unfolding h1_def using sy m xy by (intro seg_other) auto
    then have "seg h2 (Some x) (Some y) ys None (last_link ys)"
      unfolding h2_def ys using dy k1 by (intro seg_set_prev_hd) auto
    ultimately show ?thesis using dis f s by (auto simp: is_list_iff seg_append)
  qed
  moreover have "data_of h2 (xs @ ys) = data_of h (xs @ ys)" unfolding h2_def h1_def using n k1 by (simp add: h1_def)
  moreover have "heap_ok h2" unfolding h2_def h1_def using ok n k by (intro heap_ok_set_link) auto
  moreover have "same_outside (set (xs @ ys)) h h2" using snoc ys by (auto simp: same_outside_def h2_def h1_def)
  ultimately show ?thesis by blast
qed

text \<open>Joining a list and the empty list dereferences the missing second list.\<close>

lemma ms_list_concat_null: "is_list h (Some e) xs \<Longrightarrow> ms_list_concat (Some e) None h = None"
  by (cases "walk_to_end h e") (auto simp: ms_list_concat_def)

text \<open>The copy has the same data in nodes of its own.\<close>

lemma copy_loop_is:
  assumes "seg h p iter vs None q" "is_list h c zs" "heap_ok h" "distinct vs" "set vs \<inter> set zs = {}"
  shows "\<exists>c' h' zs'. copy_loop iter c h = Some (c', h') \<and> is_list h' c' zs' \<and> data_of h' zs' = data_of h zs @ data_of h vs
           \<and> heap_ok h' \<and> set zs' \<subseteq> set zs \<union> {a. nodes h a = None} \<and> same_outside (set zs \<union> {a. nodes h a = None}) h h'"
  using assms
proof (induction vs arbitrary: p iter c h zs)
  case Nil
  then show ?case by (auto simp: copy_loop.simps same_outside_def)
next
  case (Cons e vs)
  then obtain n where n: "iter = Some e" "nodes h e = Some n" "seg h (Some e) (n_next n) vs None q" by auto
  from ms_list_append_is[OF Cons.prems(2,3), of "n_data n"] obtain c1 h1 z1 where
      a: "ms_list_append c (n_data n) h = Some (c1, h1)" "is_list h1 c1 z1" "data_of h1 z1 = data_of h zs @ [n_data n]" "heap_ok h1"
      "set z1 \<subseteq> set zs \<union> {a. nodes h a = None}" "same_outside (set zs \<union> {a. nodes h a = None}) h h1"
    by (auto simp: yields_def)
  have same: "\<forall>x\<in>set (e # vs). nodes h1 x = nodes h x"
    using a(6) Cons.prems(5) seg_alloc[OF Cons.prems(1)] by (auto simp: same_outside_def)
  have s1: "seg h1 (Some e) (n_next n) vs None q" using same by (intro seg_frame[OF n(3)]) auto
  have "nodes h x \<noteq> None" "x \<notin> set zs" if "x \<in> set vs" for x
    using seg_alloc[OF Cons.prems(1), of x] Cons.prems(5) that by auto
  then have "set vs \<inter> set z1 = {}" using a(5) by blast
  from Cons.IH[OF s1 a(2,4) _ this] Cons.prems(4) obtain c' h' zs' where
      r: "copy_loop (n_next n) c1 h1 = Some (c', h')" "is_list h' c' zs'" "data_of h' zs' = data_of h1 z1 @ data_of h1 vs" "heap_ok h'"
      "set zs' \<subseteq> set z1 \<union> {a. nodes h1 a = None}" "same_outside (set z1 \<union> {a. nodes h1 a = None}) h1 h'" by auto
  have free1: "{a. nodes h1 a = None} \<subseteq> set zs \<union> {a. nodes h a = None}"
    using a(6) by (force simp: same_outside_def)
  have "copy_loop iter c h = Some (c', h')" using n a(1) same r(1) by (simp add: copy_loop.simps[of "Some e"])
  moreover have "data_of h' zs' = data_of h zs @ data_of h (e # vs)"
  proof -
    have "data_of h1 vs = data_of h vs" using same by (auto simp: data_of_def)
    then show ?thesis using r(3) a(3) n by simp
  qed
  moreover have "set zs' \<subseteq> set zs \<union> {a. nodes h a = None}" using r(5) a(5) free1 by blast
  moreover have "same_outside (set zs \<union> {a. nodes h a = None}) h h'"
    unfolding same_outside_def
  proof (intro allI impI)
    fix x assume x: "x \<notin> set zs \<union> {a. nodes h a = None}"
    then have "x \<notin> set z1 \<union> {a. nodes h1 a = None}" using a(5) free1 by blast
    then show "nodes h' x = nodes h x" using r(6) a(6) x by (simp add: same_outside_def)
  qed
  ultimately show ?case using r(2,4) by blast
qed

lemma ms_list_copy_is:
  assumes "is_list h l xs" "heap_ok h"
  shows "\<exists>c h' zs. ms_list_copy l h = Some (c, h') \<and> is_list h' c zs \<and> data_of h' zs = data_of h xs \<and> heap_ok h'
           \<and> is_list h' l xs \<and> data_of h' xs = data_of h xs \<and> set zs \<inter> set xs = {}"
proof -
  from assms copy_loop_is[of h None l xs "last_link xs" None "[]"] obtain c h' zs where
      r: "ms_list_copy l h = Some (c, h')" "is_list h' c zs" "data_of h' zs = data_of h xs" "heap_ok h'"
      "set zs \<subseteq> {a. nodes h a = None}" "same_outside {a. nodes h a = None} h h'"
    by (auto simp: is_list_def ms_list_copy_def)
  have al: "nodes h x \<noteq> None" if "x \<in> set xs" for x using seg_alloc[of h None l xs None _ x] assms(1) that by (auto simp: is_list_def)
  have same: "\<forall>x\<in>set xs. nodes h' x = nodes h x" using r(6) al by (auto simp: same_outside_def)
  then have "is_list h' l xs" "data_of h' xs = data_of h xs" using assms(1)
    by (auto simp: is_list_def data_of_def intro: seg_frame)
  then show ?thesis using r al by blast
qed

section \<open>Positions and insertion\<close>

definition first_at :: "('a \<Rightarrow> bool) \<Rightarrow> 'a list \<Rightarrow> int" where
  "first_at P xs = (if \<exists>x\<in>set xs. P x then int (length (takeWhile (\<lambda>x. \<not> P x) xs)) else - 1)"

lemma position_loop_seg: "seg h p l xs None q \<Longrightarrow> position_loop h l hit i =
    Some (let k = first_at (\<lambda>x. hit x (n_data (the (nodes h x)))) xs in if k = - 1 then - 1 else i + k)"
proof (induction xs arbitrary: p l i)
  case (Cons x xs)
  then obtain n where n: "l = Some x" "nodes h x = Some n" "seg h (Some x) (n_next n) xs None q" by auto
  show ?case
    using Cons.IH[OF n(3), of "i + 1"] n by (subst position_loop.simps) (auto simp: first_at_def Let_def)
qed (simp add: position_loop.simps first_at_def)

lemma ms_list_index_is: "is_list h l xs \<Longrightarrow> ms_list_index h l d = Some (first_at (\<lambda>x. x = d) (data_of h xs))"
proof -
  have "first_at (\<lambda>x. n_data (the (nodes h x)) = d) xs = first_at (\<lambda>x. x = d) (data_of h xs)"
    by (auto simp: first_at_def data_of_def takeWhile_map comp_def)
  then show "is_list h l xs \<Longrightarrow> ?thesis"
    using position_loop_seg[of h None l xs _ "\<lambda>_ x. x = d" 0] by (auto simp: ms_list_index_def is_list_def Let_def)
qed

lemma ms_list_position_is: "is_list h l xs \<Longrightarrow> ms_list_position h l e = Some (first_at (\<lambda>x. x = e) xs)"
  using position_loop_seg[of h None l xs _ "\<lambda>x _. x = e" 0] by (auto simp: ms_list_position_def is_list_def Let_def)

lemma insert_before_loop_skip:
  "seg h p elem us c q \<Longrightarrow> before \<notin> set us \<Longrightarrow> insert_before_loop l before d elem h = insert_before_loop l before d c h"
  by (induction us arbitrary: p elem) (auto simp: insert_before_loop.simps[of _ _ _ "Some _"])

lemma ms_list_insert_is:
  assumes l: "is_list h l (us @ e # vs)" and ok: "heap_ok h"
  shows "yields h (us @ e # vs) (ms_list_insert l (Some e) d h) (data_of h us @ d # data_of h (e # vs))"
proof -
  from is_list_split[OF l] obtain n where s1: "seg h None l us (Some e) (last_link us)" and n: "nodes h e = Some n" "n_prev n = last_link us"
      and s2: "seg h (Some e) (n_next n) vs None (last_link (us @ e # vs))" by auto
  have dis: "distinct (us @ e # vs)" using l by (simp add: is_list_def)
  obtain f where ne: "l = Some f" using l by (cases l) simp_all
  have eq: "ms_list_insert l (Some e) d h = insert_before_loop l e d (Some e) h"
    using insert_before_loop_skip[OF s1, of e l d] dis unfolding ne by (simp add: ms_list_insert_def)
  show ?thesis
  proof (cases us rule: rev_cases)
    case Nil
    then have "insert_before_loop l e d (Some e) h = ms_list_prepend l d h"
      by (subst insert_before_loop.simps) (simp add: n last_link_def)
    then show ?thesis using ms_list_prepend_is[OF l ok, of d] Nil unfolding eq by simp
  next
    case (snoc ts p)
    define b where "b = node_brk h"
    define h1 where "h1 = snd (ms_list_new d h)"
    have new: "ms_list_new d h = (b, h1)" by (simp add: h1_def b_def ms_list_new_def)
    have b: "nodes h1 b = Some \<lparr>n_next = None, n_prev = None, n_data = d\<rparr>" "b \<notin> set (us @ e # vs)" "nodes h b = None"
      using is_list_fresh[OF l ok] heap_okD[OF ok] by (simp_all add: h1_def b_def ms_list_new_nodes)
    have l1: "is_list h1 l (us @ e # vs)" "data_of h1 (us @ e # vs) = data_of h (us @ e # vs)" "heap_ok h1"
      using is_list_new[OF l ok] new_node_ok[OF ok, of d] by (simp_all add: h1_def)
    have dd: "data_of h1 us = data_of h us" "data_of h1 (e # vs) = data_of h (e # vs)"
      using l1(2) by (simp_all only: data_of_simps(3)) (simp_all add: append_eq_append_conv)
    obtain g1 g2 g3 g4 where g: "set_n_prev (Some p) b h1 = Some g1" "set_n_next (Some e) b g1 = Some g2" "set_n_next (Some b) p g2 = Some g3"
        "set_n_prev (Some b) e g3 = Some g4" "is_list g4 l (us @ b # e # vs)"
        "data_of g4 (us @ b # e # vs) = data_of h us @ d # data_of h (e # vs)" "heap_ok g4" "same_outside (set (us @ b # e # vs)) h1 g4"
      using link_in_the_middle[OF l1(1) snoc b(1,2) l1(3)] unfolding dd by auto
    have "seg g4 None l ((us @ [b, e]) @ vs) None (last_link (us @ b # e # vs))" using g(5) by (simp add: is_list_def)
    then obtain c where c: "seg g4 (Some e) c vs None (last_link (us @ b # e # vs))"
      unfolding seg_append[of g4 None l "us @ [b, e]"] by (auto simp: seg_append)
    have "n_next n = c"
      using seg_next[OF c] seg_next[OF s2] by (simp split: list.splits)
    then have skip: "insert_before_loop l e d (n_next n) g4 = insert_before_loop l e d None g4"
      using insert_before_loop_skip[OF c, of e l d] dis by simp
    have "insert_before_loop l e d (Some e) h = insert_before_loop l e d (n_next n) g4"
      by (subst insert_before_loop.simps) (simp add: n snoc new g(1-4))
    also have "\<dots> = Some (l, g4)" unfolding skip by (simp add: insert_before_loop.simps)
    finally have "leads_to h1 (set (us @ b # e # vs)) (ms_list_insert l (Some e) d h) (us @ b # e # vs) (data_of h us @ d # data_of h (e # vs))"
      unfolding eq using g(5-8) by (simp add: leads_to_def)
    then show ?thesis
      using b by (intro leads_to_yields[of h1 _ _ _ _ "{b}"]) (auto simp: same_outside_def h1_def ms_list_new_nodes b_def)
  qed
qed

text \<open>Without a place, or with a place that is not in the list.\<close>

lemma ms_list_insert_no_place:
  assumes "is_list h l xs" "heap_ok h"
  shows "yields h xs (ms_list_insert l None d h) (data_of h xs @ [d])"
    and "xs \<noteq> [] \<Longrightarrow> e \<notin> set xs \<Longrightarrow> ms_list_insert l (Some e) d h = Some (l, h)"
proof -
  show "yields h xs (ms_list_insert l None d h) (data_of h xs @ [d])"
    using ms_list_append_is[OF assms, of d] by (simp add: ms_list_insert_def)
  assume a: "xs \<noteq> []" "e \<notin> set xs"
  then have "l \<noteq> None" using assms(1) by (cases l) simp_all
  with a show "ms_list_insert l (Some e) d h = Some (l, h)"
    using assms insert_before_loop_skip[of h None l xs None _ e l d]
    by (auto simp: ms_list_insert_def is_list_def insert_before_loop.simps)
qed

section \<open>Property\<close>

text \<open>C33: the operations of \<open>MSList\<close> on a well-linked list. append, prepend, remove, insert_sorted and insert
  end without a fault, return a well-linked list with the data that the list operation of the name gives, and write no node outside the
  list and the free nodes; remove_link takes out its node and frees it; free frees exactly the nodes of the list; copy builds a list of
  its own with the same data; concat joins two disjoint lists, but faults when the second is empty and the first is not; size, nth_data,
  index, position, find and for_each2 compute what their names say.\<close>

theorem ms_lists_act_like_lists:
  assumes "is_list h l xs" "heap_ok h"
  shows "yields h xs (ms_list_append l d h) (data_of h xs @ [d])
    \<and> yields h xs (ms_list_prepend l d h) (d # data_of h xs)
    \<and> yields h xs (ms_list_remove l d h) (remove1 d (data_of h xs))
    \<and> yields h xs (ms_list_insert_sorted leq l d h) (ms_insort leq d (data_of h xs))
    \<and> yields h xs (ms_list_insert l None d h) (data_of h xs @ [d])
    \<and> (\<forall>us e vs. xs = us @ e # vs \<longrightarrow> yields h xs (ms_list_insert l (Some e) d h) (data_of h us @ d # data_of h (e # vs)))
    \<and> (\<forall>e. xs \<noteq> [] \<and> e \<notin> set xs \<longrightarrow> ms_list_insert l (Some e) d h = Some (l, h))
    \<and> (\<forall>us e vs. xs = us @ e # vs \<longrightarrow> (\<exists>l' h'. ms_list_remove_link l e h = Some (l', h') \<and> is_list h' l' (us @ vs)
           \<and> data_of h' (us @ vs) = data_of h us @ data_of h vs \<and> nodes h' e = None \<and> same_outside (set xs) h h'))
    \<and> (\<exists>h'. ms_list_free l h = Some (None, h') \<and> (\<forall>a. nodes h' a = (if a \<in> set xs then None else nodes h a)))
    \<and> (\<exists>c h' zs. ms_list_copy l h = Some (c, h') \<and> is_list h' c zs \<and> data_of h' zs = data_of h xs
           \<and> is_list h' l xs \<and> data_of h' xs = data_of h xs \<and> set zs \<inter> set xs = {})
    \<and> (\<forall>m ys. is_list h m ys \<and> set xs \<inter> set ys = {} \<and> (xs = [] \<or> ys \<noteq> []) \<longrightarrow> (\<exists>r h'. ms_list_concat l m h = Some (r, h')
           \<and> is_list h' r (xs @ ys) \<and> data_of h' (xs @ ys) = data_of h (xs @ ys) \<and> same_outside (set (xs @ ys)) h h'))
    \<and> (xs \<noteq> [] \<longrightarrow> ms_list_concat l None h = None)
    \<and> ms_list_size l h = Some (int (length xs))
    \<and> ms_list_nth_data h l i = Some (if 0 \<le> i \<and> nat i < length xs then Some (data_of h xs ! nat i) else None)
    \<and> ms_list_index h l d = Some (first_at (\<lambda>x. x = d) (data_of h xs))
    \<and> ms_list_position h l e0 = Some (first_at (\<lambda>x. x = e0) xs)
    \<and> ms_list_find h l d = Some (find (\<lambda>x. n_data (the (nodes h x)) = d) xs)
    \<and> ms_list_for_each2 h l f s = Some (fold f (data_of h xs) s)"
proof (intro conjI allI impI)
  show "yields h xs (ms_list_append l d h) (data_of h xs @ [d])" by (rule ms_list_append_is[OF assms])
  show "yields h xs (ms_list_prepend l d h) (d # data_of h xs)" by (rule ms_list_prepend_is[OF assms])
  show "yields h xs (ms_list_remove l d h) (remove1 d (data_of h xs))" by (rule ms_list_remove_is[OF assms])
  show "yields h xs (ms_list_insert_sorted leq l d h) (ms_insort leq d (data_of h xs))" by (rule ms_list_insert_sorted_is[OF assms])
  show "yields h xs (ms_list_insert l None d h) (data_of h xs @ [d])" by (rule ms_list_insert_no_place(1)[OF assms])
  show "yields h xs (ms_list_insert l (Some e) d h) (data_of h us @ d # data_of h (e # vs))" if "xs = us @ e # vs" for us e vs
    using ms_list_insert_is[of h l us e vs d] assms unfolding that by blast
  show "ms_list_insert l (Some e) d h = Some (l, h)" if "xs \<noteq> [] \<and> e \<notin> set xs" for e
    using ms_list_insert_no_place(2)[OF assms] that by blast
  show "\<exists>l' h'. ms_list_remove_link l e h = Some (l', h') \<and> is_list h' l' (us @ vs) \<and> data_of h' (us @ vs) = data_of h us @ data_of h vs
      \<and> nodes h' e = None \<and> same_outside (set xs) h h'" if "xs = us @ e # vs" for us e vs
    using ms_list_remove_link_is[of h l us e vs] assms unfolding that by blast
  show "\<exists>h'. ms_list_free l h = Some (None, h') \<and> (\<forall>a. nodes h' a = (if a \<in> set xs then None else nodes h a))"
    using ms_list_free_is[OF assms] by blast
  show "\<exists>c h' zs. ms_list_copy l h = Some (c, h') \<and> is_list h' c zs \<and> data_of h' zs = data_of h xs
      \<and> is_list h' l xs \<and> data_of h' xs = data_of h xs \<and> set zs \<inter> set xs = {}"
    using ms_list_copy_is[OF assms] by blast
  show "\<exists>r h'. ms_list_concat l m h = Some (r, h') \<and> is_list h' r (xs @ ys) \<and> data_of h' (xs @ ys) = data_of h (xs @ ys)
      \<and> same_outside (set (xs @ ys)) h h'" if "is_list h m ys \<and> set xs \<inter> set ys = {} \<and> (xs = [] \<or> ys \<noteq> [])" for m ys
    using ms_list_concat_is[OF assms(1) _ _ assms(2), of m ys] that by blast
  show "ms_list_concat l None h = None" if "xs \<noteq> []"
    using assms(1) that ms_list_concat_null[of h _ xs] by (cases l) simp_all
  show "ms_list_size l h = Some (int (length xs))" by (rule ms_list_size_is[OF assms(1)])
  show "ms_list_nth_data h l i = Some (if 0 \<le> i \<and> nat i < length xs then Some (data_of h xs ! nat i) else None)"
    by (rule ms_list_nth_data_is[OF assms(1)])
  show "ms_list_index h l d = Some (first_at (\<lambda>x. x = d) (data_of h xs))" by (rule ms_list_index_is[OF assms(1)])
  show "ms_list_position h l e0 = Some (first_at (\<lambda>x. x = e0) xs)" by (rule ms_list_position_is[OF assms(1)])
  show "ms_list_find h l d = Some (find (\<lambda>x. n_data (the (nodes h x)) = d) xs)"
    unfolding ms_list_find_def by (rule ms_list_find_custom_is[OF assms(1)])
  show "ms_list_for_each2 h l f s = Some (fold f (data_of h xs) s)" by (rule ms_list_for_each2_is[OF assms(1)])
qed

definition two_nodes :: "nat list_heap" where
  "two_nodes = \<lparr>nodes = [0 \<mapsto> \<lparr>n_next = Some 1, n_prev = None, n_data = 9\<rparr>, 1 \<mapsto> \<lparr>n_next = None, n_prev = Some 0, n_data = 4\<rparr>],
     node_brk = 2\<rparr>"

theorem ms_lists_act_like_lists_witness:
  "yields two_nodes [0, 1] (ms_list_append (Some 0) 7 two_nodes) [9, 4, 7]
   \<and> yields two_nodes [0, 1] (ms_list_insert_sorted (\<lambda>x y. y \<le> x) (Some 0) 7 two_nodes) [9, 7, 4]
   \<and> yields two_nodes [0, 1] (ms_list_insert (Some 0) (Some 1) 7 two_nodes) [9, 7, 4]
   \<and> (\<exists>l' h'. ms_list_remove_link (Some 0) 0 two_nodes = Some (l', h') \<and> is_list h' l' [1] \<and> data_of h' [1] = [4]
        \<and> nodes h' 0 = None \<and> same_outside {0, 1} two_nodes h')
   \<and> ms_list_concat (Some 0) None two_nodes = None \<and> ms_list_size (Some 0) two_nodes = Some 2"
proof -
  have w: "is_list two_nodes (Some 0) [0, 1]" "heap_ok two_nodes" "data_of two_nodes [0, 1] = [9, 4]"
    by (simp_all add: is_list_def two_nodes_def heap_ok_def)
  note t = ms_lists_act_like_lists[OF w(1,2), where d = 7 and leq = "\<lambda>x y. y \<le> x" and i = 0 and ?e0.0 = 0 and f = "\<lambda>x s. s + x" and s = 0]
  have r: "\<exists>l' h'. ms_list_remove_link (Some 0) 0 two_nodes = Some (l', h') \<and> is_list h' l' ([] @ [1])
      \<and> data_of h' ([] @ [1]) = data_of two_nodes [] @ data_of two_nodes [1] \<and> nodes h' 0 = None \<and> same_outside (set [0, 1]) two_nodes h'"
    using t by blast
  have i: "yields two_nodes [0, 1] (ms_list_insert (Some 0) (Some 1) 7 two_nodes) (data_of two_nodes [0] @ 7 # data_of two_nodes [1])"
    using t by (metis append_Cons append_Nil)
  show ?thesis
    using t r i w(3) by (simp add: data_of_def)
qed

end
