(* ===== verification/Ice_Model.thy ===== *)
theory Ice_Model
  imports Ms_List Rtp_Profile
begin

text \<open>
  The data of the ICE agent (\<open>mediastreamer2/src/voip/ice.c\<close>): candidates, candidate pairs, check lists and the session,
  and the operations that build a check list from the candidates of both sides: foundations, redundant and default
  candidates, pairing, pruning and the first states of the pairs. Candidates and pairs are shared by several lists and
  compared by address, so they live in a memory (\<open>cand\<close>, \<open>pair\<close>) that is indexed by addresses; lists hold addresses.
  The lists behave as shown in \<open>Ms_List\<close>. A step that dereferences NULL or a freed object is \<open>None\<close>.
\<close>

section \<open>Types\<close>

datatype IceRole = IR_Controlling | IR_Controlled

datatype IceCandidateType = ICT_HostCandidate | ICT_ServerReflexiveCandidate | ICT_PeerReflexiveCandidate | ICT_RelayedCandidate

datatype IceCandidatePairState = ICP_Waiting | ICP_InProgress | ICP_Succeeded | ICP_Failed | ICP_Frozen

datatype IceCheckListState = ICL_Running | ICL_Completed | ICL_Failed

datatype IceSessionState = IS_Stopped | IS_Running | IS_Completed | IS_Failed

record MSTimeSpec =
  tv_sec :: int
  tv_nsec :: int

record IceTransportAddress =
  ta_ip :: string
  ta_port :: int

record IceCandidate =
  c_foundation :: string
  c_taddr :: IceTransportAddress
  c_type :: IceCandidateType
  c_priority :: u32
  c_componentID :: u16
  c_base :: "nat option"
  c_is_default :: bool

record IceCandidatePair =
  p_local :: nat
  p_remote :: nat
  p_state :: IceCandidatePairState
  p_priority :: u64
  p_transmission_time :: MSTimeSpec
  p_rto :: u32
  p_retransmissions :: u8
  p_role :: IceRole
  p_is_default :: bool
  p_use_candidate :: bool
  p_is_nominated :: bool
  p_wait_transaction_timeout :: bool

type_synonym IcePairFoundation = "string \<times> string"

record IceValidCandidatePair =
  v_valid :: nat
  v_generated_from :: nat
  v_selected :: bool

record IceTransaction =
  t_transactionID :: "96 word"
  t_pair :: nat

text \<open>Of an \<open>RtpSession\<close> the agent uses the two sockets and the local port.\<close>

record ice_ports =
  rtp_socket :: int
  rtcp_socket :: int
  loc_port :: int

record IceStunServerCheckTransaction =
  st_transactionID :: "96 word"
  st_request_time :: MSTimeSpec
  st_response_time :: MSTimeSpec

record IceStunServerCheck =
  k_sock :: int
  k_srcport :: int
  k_transactions :: "IceStunServerCheckTransaction list"
  k_next_transmission_time :: MSTimeSpec
  k_responded :: bool

record IceCheckList =
  cl_rtp_session :: "ice_ports option"
  cl_remote_ufrag :: "string option"
  cl_remote_pwd :: "string option"
  cl_stun_server_checks :: "IceStunServerCheck list"
  cl_local_candidates :: "nat list"
  cl_remote_candidates :: "nat list"
  cl_pairs :: "nat list"
  cl_losing_pairs :: "nat list"
  cl_triggered_checks_queue :: "nat list"
  cl_check_list :: "nat list"
  cl_valid_list :: "IceValidCandidatePair list"
  cl_foundations :: "IcePairFoundation list"
  cl_local_componentIDs :: "u16 list"
  cl_remote_componentIDs :: "u16 list"
  cl_transaction_list :: "IceTransaction list"
  cl_state :: IceCheckListState
  cl_ta_time :: MSTimeSpec
  cl_keepalive_time :: MSTimeSpec
  cl_foundation_generator :: u32
  cl_mismatch :: bool
  cl_gathering_candidates :: bool
  cl_gathering_finished :: bool
  cl_nomination_delay_running :: bool
  cl_gathering_start_time :: MSTimeSpec
  cl_nomination_delay_start_time :: MSTimeSpec

record IceSession =
  s_streams :: "nat list"
  s_local_ufrag :: string
  s_local_pwd :: string
  s_remote_ufrag :: "string option"
  s_remote_pwd :: "string option"
  s_role :: IceRole
  s_state :: IceSessionState
  s_tie_breaker :: u64
  s_ta :: u32
  s_max_connectivity_checks :: u8
  s_keepalive_timeout :: u8
  s_event_time :: MSTimeSpec
  s_event_value :: int
  s_send_event :: bool
  s_ss :: "u32 \<times> u16"
  s_gathering_start_ts :: MSTimeSpec
  s_gathering_end_ts :: MSTimeSpec

text \<open>What the agent sends to the network and dispatches to the application.\<close>

datatype ice_output =
    Binding_Request nat u32 bool IceRole u64 "96 word"  \<comment> \<open>pair, PRIORITY, USE-CANDIDATE, role attribute, tie breaker, transaction\<close>
  | Binding_Response "96 word" string
  | Error_Response "96 word" nat nat
  | Indication nat
  | Check_List_Processing_Finished bool
  | Losing_Pairs_Completed bool
  | Gathering_Finished bool
  | Session_Event int bool
  | Stun_Server_Request int "96 word"

record ice =
  ses :: IceSession
  cls :: "nat \<Rightarrow> IceCheckList"
  cand :: "nat \<Rightarrow> IceCandidate"
  pair :: "nat \<Rightarrow> IceCandidatePair"
  cand_brk :: nat
  pair_brk :: nat
  outputs :: "ice_output list"
  tr_supply :: "nat \<Rightarrow> 96 word"  \<comment> \<open>the random transaction identifiers\<close>
  tr_count :: nat

abbreviation upd_cl :: "nat \<Rightarrow> (IceCheckList \<Rightarrow> IceCheckList) \<Rightarrow> ice \<Rightarrow> ice" where
  "upd_cl c f w \<equiv> w\<lparr>cls := (cls w)(c := f (cls w c))\<rparr>"

abbreviation upd_pair :: "nat \<Rightarrow> (IceCandidatePair \<Rightarrow> IceCandidatePair) \<Rightarrow> ice \<Rightarrow> ice" where
  "upd_pair p f w \<equiv> w\<lparr>pair := (pair w)(p := f (pair w p))\<rparr>"

abbreviation upd_cand :: "nat \<Rightarrow> (IceCandidate \<Rightarrow> IceCandidate) \<Rightarrow> ice \<Rightarrow> ice" where
  "upd_cand a f w \<equiv> w\<lparr>cand := (cand w)(a := f (cand w a))\<rparr>"

section \<open>Constants\<close>

definition ICE_MAX_NB_CANDIDATES :: nat where "ICE_MAX_NB_CANDIDATES = 10"
definition ICE_MAX_NB_CANDIDATE_PAIRS :: nat where "ICE_MAX_NB_CANDIDATE_PAIRS = ICE_MAX_NB_CANDIDATES * ICE_MAX_NB_CANDIDATES"
definition ICE_MIN_COMPONENTID :: nat where "ICE_MIN_COMPONENTID = 1"
definition ICE_MAX_COMPONENTID :: nat where "ICE_MAX_COMPONENTID = 256"
definition ICE_INVALID_COMPONENTID :: u16 where "ICE_INVALID_COMPONENTID = 0"
definition ICE_MAX_UFRAG_LEN :: nat where "ICE_MAX_UFRAG_LEN = 256"
definition ICE_MAX_PWD_LEN :: nat where "ICE_MAX_PWD_LEN = 256"
definition ICE_DEFAULT_TA_DURATION :: u32 where "ICE_DEFAULT_TA_DURATION = 40"
definition ICE_DEFAULT_RTO_DURATION :: u32 where "ICE_DEFAULT_RTO_DURATION = 200"
definition ICE_DEFAULT_KEEPALIVE_TIMEOUT :: u8 where "ICE_DEFAULT_KEEPALIVE_TIMEOUT = 15"
definition ICE_GATHERING_CANDIDATES_TIMEOUT :: int where "ICE_GATHERING_CANDIDATES_TIMEOUT = 5000"
definition ICE_MAX_STUN_REQUEST_RETRANSMISSIONS :: nat where "ICE_MAX_STUN_REQUEST_RETRANSMISSIONS = 7"
definition ICE_NOMINATION_DELAY :: int where "ICE_NOMINATION_DELAY = 1000"
definition ICE_MAX_RETRANSMISSIONS :: u8 where "ICE_MAX_RETRANSMISSIONS = 7"

primrec candidate_type_values :: "IceCandidateType \<Rightarrow> string" where
  "candidate_type_values ICT_HostCandidate = ''host''"
| "candidate_type_values ICT_ServerReflexiveCandidate = ''srflx''"
| "candidate_type_values ICT_PeerReflexiveCandidate = ''prflx''"
| "candidate_type_values ICT_RelayedCandidate = ''relay''"

primrec type_preference_values :: "IceCandidateType \<Rightarrow> u8" where
  "type_preference_values ICT_HostCandidate = 126"
| "type_preference_values ICT_ServerReflexiveCandidate = 100"
| "type_preference_values ICT_PeerReflexiveCandidate = 110"
| "type_preference_values ICT_RelayedCandidate = 0"

definition ice_candidate_type :: "IceCandidate \<Rightarrow> string" where
  "ice_candidate_type c = candidate_type_values (c_type c)"

section \<open>Initialisation\<close>

definition no_time :: MSTimeSpec where "no_time = \<lparr>tv_sec = 0, tv_nsec = 0\<rparr>"

text \<open>The random tie breaker and credentials are arguments.\<close>

definition ice_session_init :: "u64 \<Rightarrow> string \<Rightarrow> string \<Rightarrow> IceSession" where
  "ice_session_init tie_breaker ufrag pwd = \<lparr>s_streams = [], s_local_ufrag = ufrag, s_local_pwd = pwd,
     s_remote_ufrag = None, s_remote_pwd = None, s_role = IR_Controlling, s_state = IS_Stopped, s_tie_breaker = tie_breaker,
     s_ta = ICE_DEFAULT_TA_DURATION, s_max_connectivity_checks = of_nat ICE_MAX_NB_CANDIDATE_PAIRS,
     s_keepalive_timeout = ICE_DEFAULT_KEEPALIVE_TIMEOUT, s_event_time = no_time, s_event_value = 0, s_send_event = False,
     s_ss = (0, 0), s_gathering_start_ts = \<lparr>tv_sec = -1, tv_nsec = -1\<rparr>, s_gathering_end_ts = \<lparr>tv_sec = -1, tv_nsec = -1\<rparr>\<rparr>"

definition ice_check_list_init :: IceCheckList where
  "ice_check_list_init = \<lparr>cl_rtp_session = None, cl_remote_ufrag = None, cl_remote_pwd = None, cl_stun_server_checks = [], cl_local_candidates = [], cl_remote_candidates = [],
     cl_pairs = [], cl_losing_pairs = [], cl_triggered_checks_queue = [], cl_check_list = [], cl_valid_list = [],
     cl_foundations = [], cl_local_componentIDs = [], cl_remote_componentIDs = [], cl_transaction_list = [],
     cl_state = ICL_Running, cl_ta_time = no_time, cl_keepalive_time = no_time, cl_foundation_generator = 1,
     cl_mismatch = False,
     cl_gathering_candidates = False, cl_gathering_finished = False, cl_nomination_delay_running = False,
     cl_gathering_start_time = no_time, cl_nomination_delay_start_time = no_time\<rparr>"

definition ice_session_add_check_list :: "nat \<Rightarrow> ice \<Rightarrow> ice" where
  "ice_session_add_check_list c w = w\<lparr>ses := (ses w)\<lparr>s_streams := s_streams (ses w) @ [c],
      s_state := (if cl_state (cls w c) = ICL_Running then IS_Running else s_state (ses w))\<rparr>\<rparr>"

definition ice_session_remove_check_list :: "nat \<Rightarrow> ice \<Rightarrow> ice" where
  "ice_session_remove_check_list c w = w\<lparr>ses := (ses w)\<lparr>s_streams := remove1 c (s_streams (ses w))\<rparr>\<rparr>"

section \<open>Comparisons\<close>

definition ice_compare_transport_addresses :: "IceTransportAddress \<Rightarrow> IceTransportAddress \<Rightarrow> bool" where
  "ice_compare_transport_addresses ta1 ta2 \<longleftrightarrow>
     \<not> (ta_port ta1 = ta_port ta2 \<and> length (ta_ip ta1) = length (ta_ip ta2) \<and> ta_ip ta1 = ta_ip ta2)"

definition ice_compare_candidates :: "IceCandidate \<Rightarrow> IceCandidate \<Rightarrow> bool" where
  "ice_compare_candidates c1 c2 \<longleftrightarrow> \<not> (c_type c1 = c_type c2 \<and> \<not> ice_compare_transport_addresses (c_taddr c1) (c_taddr c2)
     \<and> c_componentID c1 = c_componentID c2 \<and> c_priority c1 = c_priority c2)"

definition ice_compare_pairs :: "(nat \<Rightarrow> IceCandidate) \<Rightarrow> IceCandidatePair \<Rightarrow> IceCandidatePair \<Rightarrow> bool" where
  "ice_compare_pairs cd p1 p2 \<longleftrightarrow> \<not> (\<not> ice_compare_candidates (cd (p_local p1)) (cd (p_local p2))
     \<and> \<not> ice_compare_candidates (cd (p_remote p1)) (cd (p_remote p2)))"

definition ice_compare_pair_priorities :: "IceCandidatePair \<Rightarrow> IceCandidatePair \<Rightarrow> int" where
  "ice_compare_pair_priorities p1 p2 = of_bool (p_priority p1 < p_priority p2)"

text \<open>The order that \<open>ms_list_insert_sorted\<close> derives from a comparison: \<open>compare_func(data, it->data) <= 0\<close>.\<close>

definition pair_leq :: "(nat \<Rightarrow> IceCandidatePair) \<Rightarrow> nat \<Rightarrow> nat \<Rightarrow> bool" where
  "pair_leq pr p q \<longleftrightarrow> ice_compare_pair_priorities (pr p) (pr q) \<le> 0"

section \<open>Pairs\<close>

definition ice_compute_pair_priority :: "(nat \<Rightarrow> IceCandidate) \<Rightarrow> IceRole \<Rightarrow> IceCandidatePair \<Rightarrow> IceCandidatePair" where
  "ice_compute_pair_priority cd role pr = (
     let G :: u64 = ucast (case role of IR_Controlling \<Rightarrow> c_priority (cd (p_local pr)) | IR_Controlled \<Rightarrow> c_priority (cd (p_remote pr)));
         D :: u64 = ucast (case role of IR_Controlling \<Rightarrow> c_priority (cd (p_remote pr)) | IR_Controlled \<Rightarrow> c_priority (cd (p_local pr)))
     in pr\<lparr>p_priority := push_bit 32 (min G D) OR push_bit 1 (max G D) OR (if D < G then 1 else 0)\<rparr>)"

definition ice_pair_init :: "ice \<Rightarrow> nat \<Rightarrow> nat \<Rightarrow> IceCandidatePair" where
  "ice_pair_init w l r = ice_compute_pair_priority (cand w) (s_role (ses w))
     \<lparr>p_local = l, p_remote = r, p_state = ICP_Frozen, p_priority = 0, p_transmission_time = no_time,
      p_rto = ICE_DEFAULT_RTO_DURATION, p_retransmissions = 0, p_role = s_role (ses w),
      p_is_default = (c_is_default (cand w l) \<and> c_is_default (cand w r)),
      p_use_candidate = False, p_is_nominated = False, p_wait_transaction_timeout = False\<rparr>"

definition ice_pair_new :: "nat \<Rightarrow> nat \<Rightarrow> ice \<Rightarrow> nat \<times> ice" where
  "ice_pair_new l r w = (pair_brk w, w\<lparr>pair := (pair w)(pair_brk w := ice_pair_init w l r), pair_brk := pair_brk w + 1\<rparr>)"

definition ice_pair_set_state :: "nat \<Rightarrow> IceCandidatePairState \<Rightarrow> ice \<Rightarrow> ice" where
  "ice_pair_set_state p s w = (if p_state (pair w p) \<noteq> s then upd_pair p (p_state_update (\<lambda>_. s)) w else w)"

definition ice_check_list_compute_pair_priorities :: "nat \<Rightarrow> ice \<Rightarrow> ice" where
  "ice_check_list_compute_pair_priorities c w =
     fold (\<lambda>p w'. upd_pair p (ice_compute_pair_priority (cand w') (s_role (ses w'))) w') (cl_pairs (cls w c)) w"

definition ice_session_compute_pair_priorities :: "ice \<Rightarrow> ice" where
  "ice_session_compute_pair_priorities w = fold ice_check_list_compute_pair_priorities (s_streams (ses w)) w"

definition ice_session_set_role :: "IceRole \<Rightarrow> ice \<Rightarrow> ice" where
  "ice_session_set_role role w = (if s_role (ses w) \<noteq> role
     then ice_session_compute_pair_priorities (w\<lparr>ses := (ses w)\<lparr>s_role := role\<rparr>\<rparr>) else w)"

section \<open>Adding candidates\<close>

definition candidate_type_of :: "string \<Rightarrow> IceCandidateType option" where
  "candidate_type_of t = (if t = ''host'' then Some ICT_HostCandidate
     else if t = ''srflx'' then Some ICT_ServerReflexiveCandidate
     else if t = ''prflx'' then Some ICT_PeerReflexiveCandidate
     else if t = ''relay'' then Some ICT_RelayedCandidate else None)"

text \<open>The new candidate gets the address \<open>a\<close>; the host and relayed ones are their own base. The buffer for the
  address has 64 characters.\<close>

definition ice_candidate_new :: "nat \<Rightarrow> string \<Rightarrow> string \<Rightarrow> int \<Rightarrow> u16 \<Rightarrow> IceCandidate option" where
  "ice_candidate_new a type_str ip port componentID = map_option (\<lambda>ty.
     \<lparr>c_foundation = [], c_taddr = \<lparr>ta_ip = take (min (length ip) 64) ip, ta_port = port\<rparr>, c_type = ty, c_priority = 0,
      c_componentID = componentID,
      c_base = (case ty of ICT_HostCandidate \<Rightarrow> Some a | ICT_RelayedCandidate \<Rightarrow> Some a | _ \<Rightarrow> None),
      c_is_default = False\<rparr>) (candidate_type_of type_str)"

definition ice_compute_candidate_priority :: "IceCandidate \<Rightarrow> IceCandidate" where
  "ice_compute_candidate_priority c = c\<lparr>c_priority := push_bit 24 (ucast (type_preference_values (c_type c)))
     OR push_bit 8 65535 OR (256 - ucast (c_componentID c))\<rparr>"

definition ice_add_componentID :: "u16 \<Rightarrow> u16 list \<Rightarrow> u16 list" where
  "ice_add_componentID cid xs = (case find (\<lambda>x. x = cid) xs of None \<Rightarrow> xs @ [cid] | Some _ \<Rightarrow> xs)"

text \<open>The outer option is the fault of a NULL candidate, the inner one is the pointer returned.\<close>

definition ice_add_local_candidate ::
    "nat \<Rightarrow> string \<Rightarrow> string \<Rightarrow> int \<Rightarrow> u16 \<Rightarrow> nat option \<Rightarrow> ice \<Rightarrow> (nat option \<times> ice) option" where
  "ice_add_local_candidate c type_str ip port componentID b w = (
     if ICE_MAX_NB_CANDIDATES \<le> length (cl_local_candidates (cls w c)) then Some (None, w)
     else do {
       let a = cand_brk w;
       new \<leftarrow> ice_candidate_new a type_str ip port componentID;
       let new = ice_compute_candidate_priority (if c_base new = None then new\<lparr>c_base := b\<rparr> else new);
       (case find (\<lambda>x. \<not> ice_compare_candidates (cand w x) new) (cl_local_candidates (cls w c)) of
          Some _ \<Rightarrow> Some (None, w)
        | None \<Rightarrow> Some (Some a, upd_cl c (\<lambda>cl. cl\<lparr>
              cl_local_componentIDs := ice_add_componentID (c_componentID new) (cl_local_componentIDs cl),
              cl_local_candidates := cl_local_candidates cl @ [a]\<rparr>)
            (w\<lparr>cand := (cand w)(a := new), cand_brk := a + 1\<rparr>))) })"

text \<open>The limit that is checked is the one of the local candidates.\<close>

definition ice_add_remote_candidate ::
    "nat \<Rightarrow> string \<Rightarrow> string \<Rightarrow> int \<Rightarrow> u16 \<Rightarrow> u32 \<Rightarrow> string \<Rightarrow> bool \<Rightarrow> ice \<Rightarrow> (nat option \<times> ice) option" where
  "ice_add_remote_candidate c type_str ip port componentID priority foundation is_default w = (
     if ICE_MAX_NB_CANDIDATES \<le> length (cl_local_candidates (cls w c)) then Some (None, w)
     else do {
       let a = cand_brk w;
       new \<leftarrow> ice_candidate_new a type_str ip port componentID;
       let new = (if priority = 0 then ice_compute_candidate_priority new else new\<lparr>c_priority := priority\<rparr>);
       (case find (\<lambda>x. \<not> ice_compare_candidates (cand w x) new) (cl_remote_candidates (cls w c)) of
          Some _ \<Rightarrow> Some (None, w)
        | None \<Rightarrow> Some (Some a, upd_cl c (\<lambda>cl. cl\<lparr>
              cl_remote_componentIDs := ice_add_componentID (c_componentID new) (cl_remote_componentIDs cl),
              cl_remote_candidates := cl_remote_candidates cl @ [a]\<rparr>)
            (w\<lparr>cand := (cand w)(a := new\<lparr>c_foundation := take 31 foundation, c_is_default := is_default\<rparr>), cand_brk := a + 1\<rparr>))) })"

section \<open>Foundations\<close>

definition same_foundation :: "(nat \<Rightarrow> IceCandidate) \<Rightarrow> nat \<Rightarrow> nat \<Rightarrow> bool" where
  "same_foundation cd a b \<longleftrightarrow> a \<noteq> b \<and> c_type (cd a) = c_type (cd b)
     \<and> (case (c_base (cd a), c_base (cd b)) of (Some x, Some y) \<Rightarrow> ta_ip (c_taddr (cd x)) = ta_ip (c_taddr (cd y)) | _ \<Rightarrow> False)"

definition ice_compute_candidate_foundation :: "nat \<Rightarrow> nat \<Rightarrow> ice \<Rightarrow> ice" where
  "ice_compute_candidate_foundation a c w = (
     let assign = upd_cl c (\<lambda>cl. cl\<lparr>cl_foundation_generator := cl_foundation_generator cl + 1\<rparr>)
           (upd_cand a (\<lambda>cd. cd\<lparr>c_foundation := take 30 (show_nat (unat (cl_foundation_generator (cls w c))))\<rparr>) w)
     in (case find (\<lambda>x. same_foundation (cand w) x a) (cl_local_candidates (cls w c)) of
           Some other \<Rightarrow> (if c_foundation (cand w other) \<noteq> []
              then upd_cand a (\<lambda>cd. cd\<lparr>c_foundation := take 31 (c_foundation (cand w other))\<rparr>) w else assign)
         | None \<Rightarrow> assign))"

definition ice_check_list_compute_candidates_foundations :: "nat \<Rightarrow> ice \<Rightarrow> ice" where
  "ice_check_list_compute_candidates_foundations c w = (if cl_state (cls w c) = ICL_Running
     then fold (\<lambda>a. ice_compute_candidate_foundation a c) (cl_local_candidates (cls w c)) w else w)"

definition ice_session_compute_candidates_foundations :: "ice \<Rightarrow> ice" where
  "ice_session_compute_candidates_foundations w = fold ice_check_list_compute_candidates_foundations (s_streams (ses w)) w"

section \<open>Redundant candidates\<close>

definition redundant :: "(nat \<Rightarrow> IceCandidate) \<Rightarrow> nat \<Rightarrow> nat \<Rightarrow> bool" where
  "redundant cd a b \<longleftrightarrow> a \<noteq> b \<and> \<not> ice_compare_transport_addresses (c_taddr (cd a)) (c_taddr (cd b))
     \<and> c_base (cd a) = c_base (cd b)"

text \<open>One turn of the outer loop removes a candidate, the last one none.\<close>

function eliminate_redundant :: "(nat \<Rightarrow> IceCandidate) \<Rightarrow> nat list \<Rightarrow> nat list" where
  "eliminate_redundant cd xs = (case find (\<lambda>a. find (\<lambda>b. redundant cd b a) xs \<noteq> None) xs of
       None \<Rightarrow> xs
     | Some a \<Rightarrow> (case find (\<lambda>b. redundant cd b a) xs of
           None \<Rightarrow> xs
         | Some b \<Rightarrow> eliminate_redundant cd (remove1 (if c_priority (cd b) < c_priority (cd a) then b else a) xs)))"
  by auto
termination
proof (relation "measure (\<lambda>(cd, xs). length xs)", goal_cases)
  case (2 cd xs a b)
  then have "a \<in> set xs" "b \<in> set xs" by (auto simp: find_Some_iff)
  moreover from this have "0 < length xs" by (auto intro: length_pos_if_in_set)
  ultimately show ?case by (simp add: length_remove1)
qed simp

declare eliminate_redundant.simps [simp del]

definition ice_check_list_eliminate_redundant_candidates :: "nat \<Rightarrow> ice \<Rightarrow> ice" where
  "ice_check_list_eliminate_redundant_candidates c w = (if cl_state (cls w c) = ICL_Running
     then upd_cl c (\<lambda>cl. cl\<lparr>cl_local_candidates := eliminate_redundant (cand w) (cl_local_candidates cl)\<rparr>) w else w)"

definition ice_session_eliminate_redundant_candidates :: "ice \<Rightarrow> ice" where
  "ice_session_eliminate_redundant_candidates w = fold ice_check_list_eliminate_redundant_candidates (s_streams (ses w)) w"

section \<open>Default candidates and bases\<close>

definition find_type_component :: "(nat \<Rightarrow> IceCandidate) \<Rightarrow> IceCandidateType \<Rightarrow> u16 \<Rightarrow> nat list \<Rightarrow> nat option" where
  "find_type_component cd ty cid xs = find (\<lambda>a. c_type (cd a) = ty \<and> c_componentID (cd a) = cid) xs"

definition choose_default :: "(nat \<Rightarrow> IceCandidate) \<Rightarrow> nat list \<Rightarrow> u16 \<Rightarrow> nat option" where
  "choose_default cd xs cid = (case find_type_component cd ICT_RelayedCandidate cid xs of Some a \<Rightarrow> Some a
     | None \<Rightarrow> (case find_type_component cd ICT_ServerReflexiveCandidate cid xs of Some a \<Rightarrow> Some a
     | None \<Rightarrow> find_type_component cd ICT_HostCandidate cid xs))"

definition ice_choose_local_or_remote_default_candidates :: "nat list \<Rightarrow> ice \<Rightarrow> ice" where
  "ice_choose_local_or_remote_default_candidates xs w = fold (\<lambda>i w'.
     (case choose_default (cand w') xs (of_nat i) of None \<Rightarrow> w'
      | Some a \<Rightarrow> upd_cand a (\<lambda>cd. cd\<lparr>c_is_default := True\<rparr>) w')) [ICE_MIN_COMPONENTID..<Suc ICE_MAX_COMPONENTID] w"

definition ice_check_list_choose_default_candidates :: "nat \<Rightarrow> ice \<Rightarrow> ice" where
  "ice_check_list_choose_default_candidates c w = (if cl_state (cls w c) = ICL_Running
     then ice_choose_local_or_remote_default_candidates (cl_local_candidates (cls w c)) w else w)"

definition ice_session_choose_default_candidates :: "ice \<Rightarrow> ice" where
  "ice_session_choose_default_candidates w = fold ice_check_list_choose_default_candidates (s_streams (ses w)) w"

definition ice_check_list_choose_default_remote_candidates :: "nat \<Rightarrow> ice \<Rightarrow> ice" where
  "ice_check_list_choose_default_remote_candidates c w =
     ice_choose_local_or_remote_default_candidates (cl_remote_candidates (cls w c)) w"

definition ice_session_choose_default_remote_candidates :: "ice \<Rightarrow> ice" where
  "ice_session_choose_default_remote_candidates w = fold ice_check_list_choose_default_remote_candidates (s_streams (ses w)) w"

definition ice_set_base_for_srflx_candidate :: "nat \<Rightarrow> nat \<Rightarrow> ice \<Rightarrow> ice" where
  "ice_set_base_for_srflx_candidate b a w = (if c_type (cand w a) = ICT_ServerReflexiveCandidate \<and> c_base (cand w a) = None
       \<and> c_componentID (cand w a) = c_componentID (cand w b)
     then upd_cand a (\<lambda>cd. cd\<lparr>c_base := Some b\<rparr>) w else w)"

definition ice_set_base_for_srflx_candidate_with_componentID :: "nat \<Rightarrow> u16 \<Rightarrow> ice \<Rightarrow> ice" where
  "ice_set_base_for_srflx_candidate_with_componentID c cid w =
     (case find (\<lambda>a. c_type (cand w a) = ICT_HostCandidate \<and> c_componentID (cand w a) = cid) (cl_local_candidates (cls w c)) of
        None \<Rightarrow> w
      | Some b \<Rightarrow> fold (ice_set_base_for_srflx_candidate b) (cl_local_candidates (cls w c)) w)"

definition ice_check_list_set_base_for_srflx_candidates :: "nat \<Rightarrow> ice \<Rightarrow> ice" where
  "ice_check_list_set_base_for_srflx_candidates c w =
     fold (ice_set_base_for_srflx_candidate_with_componentID c) (cl_local_componentIDs (cls w c)) w"

definition ice_session_set_base_for_srflx_candidates :: "ice \<Rightarrow> ice" where
  "ice_session_set_base_for_srflx_candidates w = fold ice_check_list_set_base_for_srflx_candidates (s_streams (ses w)) w"

text \<open>Every component that the remote side has candidates for needs a default one.\<close>

definition ice_check_list_check_mismatch :: "nat \<Rightarrow> ice \<Rightarrow> ice" where
  "ice_check_list_check_mismatch c w = fold (\<lambda>cid w'.
     (case find (\<lambda>a. c_is_default (cand w' a) \<and> c_componentID (cand w' a) = cid) (cl_remote_candidates (cls w' c)) of
        None \<Rightarrow> upd_cl c (\<lambda>cl. cl\<lparr>cl_mismatch := True, cl_state := ICL_Failed\<rparr>) w'
      | Some _ \<Rightarrow> w')) (cl_remote_componentIDs (cls w c)) w"

definition ice_session_check_mismatch :: "ice \<Rightarrow> ice" where
  "ice_session_check_mismatch w = fold ice_check_list_check_mismatch (s_streams (ses w)) w"

section \<open>Forming and pruning pairs\<close>

definition ice_form_candidate_pairs :: "nat \<Rightarrow> ice \<Rightarrow> ice" where
  "ice_form_candidate_pairs c w =
     fold (\<lambda>l. fold (\<lambda>r w'. if c_componentID (cand w' l) = c_componentID (cand w' r)
         then (let (p, w2) = ice_pair_new l r w' in upd_cl c (\<lambda>cl. cl\<lparr>cl_pairs := cl_pairs cl @ [p]\<rparr>) w2)
         else w') (cl_remote_candidates (cls w c))) (cl_local_candidates (cls w c)) w"

definition ice_replace_srflx_by_base_in_pair :: "nat \<Rightarrow> ice \<Rightarrow> ice option" where
  "ice_replace_srflx_by_base_in_pair p w = (if c_type (cand w (p_local (pair w p))) = ICT_ServerReflexiveCandidate
     then map_option (\<lambda>b. upd_pair p (p_local_update (\<lambda>_. b)) w) (c_base (cand w (p_local (pair w p)))) else Some w)"

definition ice_free_candidate_pair :: "nat \<Rightarrow> IceCheckList \<Rightarrow> IceCheckList" where
  "ice_free_candidate_pair p cl = cl\<lparr>cl_check_list := filter (\<lambda>q. q \<noteq> p) (cl_check_list cl),
     cl_valid_list := filter (\<lambda>v. v_valid v \<noteq> p) (cl_valid_list cl)\<rparr>"

text \<open>Whether the pair at the position of the loop is removed: only the first equal pair of the list is compared with it.\<close>

definition ice_prune_duplicate_pair :: "ice \<Rightarrow> nat \<Rightarrow> nat list \<Rightarrow> bool" where
  "ice_prune_duplicate_pair w p ps = (case find (\<lambda>q. \<not> ice_compare_pairs (cand w) (pair w q) (pair w p)) ps of
     None \<Rightarrow> False | Some q \<Rightarrow> p_priority (pair w p) < p_priority (pair w q))"

text \<open>\<open>kept\<close> are the pairs in front of the position of the loop. A removal in front of the last pair continues at the
  link behind it only when there is a link before it.\<close>

fun prune_loop :: "ice \<Rightarrow> nat list \<Rightarrow> nat list \<Rightarrow> IceCheckList \<Rightarrow> IceCheckList" where
  "prune_loop w kept [] cl = cl\<lparr>cl_pairs := kept\<rparr>"
| "prune_loop w kept (p # ps) cl = (if ice_prune_duplicate_pair w p (kept @ p # ps)
     then (if ps \<noteq> [] \<and> kept \<noteq> [] then prune_loop w kept ps (ice_free_candidate_pair p cl)
           else (ice_free_candidate_pair p cl)\<lparr>cl_pairs := kept @ ps\<rparr>)
     else prune_loop w (kept @ [p]) ps cl)"

fun fold_option :: "('a \<Rightarrow> 's \<Rightarrow> 's option) \<Rightarrow> 'a list \<Rightarrow> 's \<Rightarrow> 's option" where
  "fold_option f [] s = Some s"
| "fold_option f (x # xs) s = Option.bind (f x s) (fold_option f xs)"

text \<open>When the check list is longer than the limit, the first turn of the last loop frees the link that it goes on with.\<close>

definition ice_prune_candidate_pairs :: "nat \<Rightarrow> ice \<Rightarrow> ice option" where
  "ice_prune_candidate_pairs c w = do {
     w1 \<leftarrow> fold_option ice_replace_srflx_by_base_in_pair (cl_pairs (cls w c)) w;
     let w2 = upd_cl c (prune_loop w1 [] (cl_pairs (cls w1 c))) w1;
     let w3 = upd_cl c (\<lambda>cl. cl\<lparr>cl_check_list := fold (ms_insort (pair_leq (pair w2))) (cl_pairs cl) []\<rparr>) w2;
     (if unat (s_max_connectivity_checks (ses w3)) < length (cl_check_list (cls w3 c)) then None else Some w3) }"

section \<open>First states of the pairs\<close>

definition pair_foundation :: "ice \<Rightarrow> nat \<Rightarrow> IcePairFoundation" where
  "pair_foundation w p = (c_foundation (cand w (p_local (pair w p))), c_foundation (cand w (p_remote (pair w p))))"

definition ice_generate_pair_foundations_list :: "ice \<Rightarrow> nat \<Rightarrow> IcePairFoundation list \<Rightarrow> IcePairFoundation list" where
  "ice_generate_pair_foundations_list w p fs = (
     let f = (take 31 (fst (pair_foundation w p)), take 31 (snd (pair_foundation w p)))
     in (case find (\<lambda>g. g = f) fs of None \<Rightarrow> fs @ [f] | Some _ \<Rightarrow> fs))"

record lowest_pair =
  fc_pair :: "nat option"
  fc_priority :: u64
  fc_componentID :: u16

definition ice_find_lowest_componentid_pair_with_specified_foundation ::
    "ice \<Rightarrow> IcePairFoundation \<Rightarrow> nat \<Rightarrow> lowest_pair \<Rightarrow> lowest_pair" where
  "ice_find_lowest_componentid_pair_with_specified_foundation w f p fc = (
     let cid = c_componentID (cand w (p_local (pair w p)))
     in if pair_foundation w p = f \<and> (fc_componentID fc = ICE_INVALID_COMPONENTID
            \<or> cid < fc_componentID fc \<and> fc_priority fc < p_priority (pair w p))
        then \<lparr>fc_pair = Some p, fc_priority = p_priority (pair w p), fc_componentID = cid\<rparr> else fc)"

definition ice_set_lowest_componentid_pair_with_foundation_to_waiting_state :: "nat \<Rightarrow> IcePairFoundation \<Rightarrow> ice \<Rightarrow> ice" where
  "ice_set_lowest_componentid_pair_with_foundation_to_waiting_state c f w = (
     let fc = fold (ice_find_lowest_componentid_pair_with_specified_foundation w f) (cl_check_list (cls w c))
                \<lparr>fc_pair = None, fc_priority = 0, fc_componentID = ICE_INVALID_COMPONENTID\<rparr>
     in (case fc_pair fc of None \<Rightarrow> w | Some p \<Rightarrow> ice_pair_set_state p ICP_Waiting w))"

definition ice_compute_pairs_states :: "nat \<Rightarrow> ice \<Rightarrow> ice" where
  "ice_compute_pairs_states c w =
     fold (ice_set_lowest_componentid_pair_with_foundation_to_waiting_state c) (cl_foundations (cls w c)) w"

definition ice_check_list_pair_candidates :: "nat \<Rightarrow> ice \<Rightarrow> ice option" where
  "ice_check_list_pair_candidates c w = (if cl_state (cls w c) = ICL_Running then do {
     w1 \<leftarrow> ice_prune_candidate_pairs c (ice_form_candidate_pairs c w);
     Some (upd_cl c (\<lambda>cl. cl\<lparr>cl_foundations := fold (ice_generate_pair_foundations_list w1) (cl_check_list cl) (cl_foundations cl)\<rparr>) w1) }
     else Some w)"

definition ice_session_pair_candidates :: "ice \<Rightarrow> ice option" where
  "ice_session_pair_candidates w = (case find (\<lambda>c. cl_state (cls w c) = ICL_Running) (s_streams (ses w)) of
     None \<Rightarrow> Some w
   | Some c \<Rightarrow> map_option (ice_compute_pairs_states c) (fold_option ice_check_list_pair_candidates (s_streams (ses w)) w))"

definition ice_session_start_connectivity_checks :: "ice \<Rightarrow> ice option" where
  "ice_session_start_connectivity_checks w =
     map_option (\<lambda>w'. w'\<lparr>ses := (ses w')\<lparr>s_state := IS_Running\<rparr>\<rparr>) (ice_session_pair_candidates w)"

end
