(* ===== verification/Ice_List.thy ===== *)
theory Ice_List
  imports Ice_Model "HOL-Library.Sublist"
begin

text \<open>
  How the ICE agent builds a check list: priorities against the formulas of RFC 5245, redundant candidates, foundations,
  pairing and pruning, and the first states of the pairs. The order of the check list is that of the locale \<open>ms_order\<close>.
\<close>

section \<open>Priorities\<close>

text \<open>The formula of RFC 5245, 5.7.2, for the priorities \<open>G\<close> of the controlling and \<open>D\<close> of the controlled agent.\<close>

definition rfc_pair_priority :: "nat \<Rightarrow> nat \<Rightarrow> nat" where
  "rfc_pair_priority G D = 2 ^ 32 * min G D + 2 * max G D + (if D < G then 1 else 0)"

definition pair_priority_of :: "u32 \<Rightarrow> u32 \<Rightarrow> u64" where
  "pair_priority_of G D = push_bit 32 (min (ucast G) (ucast D)) OR push_bit 1 (max (ucast G) (ucast D))
     OR (if (ucast D :: u64) < ucast G then 1 else 0)"

lemma ucast_less_u64: "(ucast (a :: u32) :: u64) < ucast b \<longleftrightarrow> a < b"
  by transfer (simp add: take_bit_eq_mod)

lemma unat_ucast_u64: "unat (ucast (a :: u32) :: u64) = unat a"
proof -
  have "unat a < 2 ^ LENGTH(32)" by (rule unsigned_less)
  then show ?thesis by (simp add: unsigned_ucast_eq take_bit_eq_mod)
qed

lemma pair_priority_formula:
  assumes "unat G < 2 ^ 31" "unat D < 2 ^ 31"
  shows "unat (pair_priority_of G D) = rfc_pair_priority (unat G) (unat D)"
proof -
  define m M :: u64 where "m = min (ucast G) (ucast D)" and "M = max (ucast G) (ucast D)"
  define z :: u64 where "z = (if (ucast D :: u64) < ucast G then 1 else 0)"
  have un: "unat m = min (unat G) (unat D)" "unat M = max (unat G) (unat D)"
    unfolding m_def M_def min_def max_def word_le_nat_alt by (simp_all add: unat_ucast_u64)
  have bounds: "unat m < 2 ^ 31" "unat M < 2 ^ 31" using assms by (simp_all add: un)
  have M: "take_bit 31 M = M" using bounds(2)
    by (simp add: word_unat_eq_iff unsigned_take_bit_eq take_bit_nat_eq_self)
  have Mb: "n < 31" if "bit M n" for n using that arg_cong[OF M, of "\<lambda>w. bit w n"] by (simp add: bit_take_bit_iff)
  have yb: "1 \<le> n \<and> n < 32" if "bit (push_bit 1 M) n" for n
    using that Mb[of "n - 1"] unfolding bit_push_bit_iff by auto
  have xb: "32 \<le> n" if "bit (push_bit 32 m) n" for n using that unfolding bit_push_bit_iff by simp
  have zb: "n = 0" if "bit z n" for n using that by (auto simp: z_def bit_1_iff split: if_splits)
  have "push_bit 32 m OR push_bit 1 M = push_bit 32 m + push_bit 1 M"
    by (rule disjunctive_add[symmetric]) (use xb yb in force)
  moreover have "(push_bit 32 m OR push_bit 1 M) OR z = (push_bit 32 m OR push_bit 1 M) + z"
    by (rule disjunctive_add[symmetric]) (unfold bit_or_iff, use xb yb zb in force)
  ultimately have "pair_priority_of G D = push_bit 32 m + push_bit 1 M + z"
    unfolding pair_priority_of_def m_def[symmetric] M_def[symmetric] z_def[symmetric] by (simp only: or.assoc[symmetric])
  also have "\<dots> = of_nat (2 ^ 32 * unat m + 2 * unat M + unat z)"
    by (simp add: push_bit_eq_mult mult.commute)
  finally have "unat (pair_priority_of G D) = unat (of_nat (2 ^ 32 * unat m + 2 * unat M + unat z) :: u64)" by (rule arg_cong)
  also have "\<dots> = (2 ^ 32 * unat m + 2 * unat M + unat z) mod 2 ^ 64" by (simp only: unat_of_nat) simp
  finally have "unat (pair_priority_of G D) = (2 ^ 32 * unat m + 2 * unat M + unat z) mod 2 ^ 64" .
  also have "\<dots> = 2 ^ 32 * unat m + 2 * unat M + unat z"
    using bounds by (intro mod_less) (auto simp: z_def)
  finally show ?thesis
    by (simp add: rfc_pair_priority_def un z_def word_less_nat_alt unat_ucast_u64)
qed

text \<open>What \<open>ice_compute_pair_priority\<close> stores, by role.\<close>

lemma pair_priority_by_role:
  "p_priority (ice_compute_pair_priority cd IR_Controlling pr) = pair_priority_of (c_priority (cd (p_local pr))) (c_priority (cd (p_remote pr)))"
  "p_priority (ice_compute_pair_priority cd IR_Controlled pr) = pair_priority_of (c_priority (cd (p_remote pr))) (c_priority (cd (p_local pr)))"
  by (simp_all add: ice_compute_pair_priority_def pair_priority_of_def Let_def)

lemma pair_priority_swap: "drop_bit 1 (pair_priority_of G D) = drop_bit 1 (pair_priority_of D G)"
proof (rule bit_word_eqI)
  fix n assume "n < LENGTH(64)"
  have "\<not> bit (if b then 1 else 0 :: u64) (Suc n)" for b by (simp add: bit_1_iff)
  then show "bit (drop_bit 1 (pair_priority_of G D)) n = bit (drop_bit 1 (pair_priority_of D G)) n"
    unfolding pair_priority_of_def bit_drop_bit_eq o_def bit_or_iff by (simp add: min.commute max.commute)
qed

lemma unat_drop_bit_1: "unat (drop_bit 1 (w :: u64)) = unat w div 2"
  by (simp add: drop_bit_eq_div unat_div del: One_nat_def)

text \<open>Candidate priorities, RFC 5245, 4.1.2.1, for a component between 1 and 256.\<close>

lemma candidate_priority_formula:
  assumes "1 \<le> unat (c_componentID c)" "unat (c_componentID c) \<le> 256"
  shows "unat (c_priority (ice_compute_candidate_priority c))
      = 2 ^ 24 * unat (type_preference_values (c_type c)) + 2 ^ 8 * 65535 + (256 - unat (c_componentID c))"
proof -
  define k where "k = 256 - unat (c_componentID c)"
  have k: "k < 256" using assms by (simp add: k_def)
  have cid: "unat (ucast (c_componentID c) :: u32) = unat (c_componentID c)"
  proof -
    have "unat (c_componentID c) < 2 ^ LENGTH(16)" by (rule unsigned_less)
    then show ?thesis by (simp add: unsigned_ucast_eq take_bit_eq_mod)
  qed
  have w: "(256 - ucast (c_componentID c) :: u32) = of_nat k"
    using assms cid by (simp add: word_unat_eq_iff unat_sub word_le_nat_alt unat_of_nat k_def)
  define A B C :: u32 where "A = push_bit 24 (ucast (type_preference_values (c_type c)))" and "B = push_bit 8 65535" and "C = of_nat k"
  have A: "24 \<le> n" if "bit A n" for n using that unfolding A_def bit_push_bit_iff by simp
  have "B = push_bit 8 (mask 16)" by (simp add: B_def mask_eq_exp_minus_1)
  note Bm = this
  have B: "8 \<le> n \<and> n < 24" if "bit B n" for n using that unfolding Bm bit_push_bit_iff by (auto simp: bit_mask_iff)
  have C: "n < 8" if "bit C n" for n
  proof -
    have "take_bit 8 k = k" using k by (simp add: take_bit_nat_eq_self)
    with that show "n < 8" unfolding C_def by (metis bit_of_nat_iff bit_take_bit_iff)
  qed
  have "B OR C = B + C" by (rule disjunctive_add[symmetric]) (use B C in force)
  moreover have "A OR (B OR C) = A + (B OR C)" by (rule disjunctive_add[symmetric]) (unfold bit_or_iff, use A B C in force)
  ultimately have "c_priority (ice_compute_candidate_priority c) = A + (B + C)"
    by (simp add: ice_compute_candidate_priority_def A_def B_def C_def w)
  also have "\<dots> = of_nat (2 ^ 24 * unat (type_preference_values (c_type c)) + 2 ^ 8 * 65535 + k)"
    by (cases "c_type c") (simp_all add: A_def B_def C_def push_bit_eq_mult)
  finally have "unat (c_priority (ice_compute_candidate_priority c))
      = unat (of_nat (2 ^ 24 * unat (type_preference_values (c_type c)) + 2 ^ 8 * 65535 + k) :: u32)" by (rule arg_cong)
  also have "\<dots> = (2 ^ 24 * unat (type_preference_values (c_type c)) + 2 ^ 8 * 65535 + k) mod 2 ^ 32" by (simp only: unat_of_nat) simp
  finally have "unat (c_priority (ice_compute_candidate_priority c))
      = (2 ^ 24 * unat (type_preference_values (c_type c)) + 2 ^ 8 * 65535 + k) mod 2 ^ 32" .
  then show ?thesis using k by (cases "c_type c") (simp_all add: k_def)
qed

section \<open>Elimination of redundant candidates\<close>

definition same_place :: "(nat \<Rightarrow> IceCandidate) \<Rightarrow> nat \<Rightarrow> nat \<Rightarrow> bool" where
  "same_place cd a b \<longleftrightarrow> ta_port (c_taddr (cd a)) = ta_port (c_taddr (cd b)) \<and> ta_ip (c_taddr (cd a)) = ta_ip (c_taddr (cd b))
     \<and> c_base (cd a) = c_base (cd b)"

lemma redundant_iff: "redundant cd a b \<longleftrightarrow> a \<noteq> b \<and> same_place cd a b"
  by (auto simp: redundant_def same_place_def ice_compare_transport_addresses_def)

lemma same_place_eq: "same_place cd a a" "same_place cd a b \<Longrightarrow> same_place cd b a"
  "same_place cd a b \<Longrightarrow> same_place cd b d \<Longrightarrow> same_place cd a d"
  by (auto simp: same_place_def)

lemma eliminate_redundant_facts:
  assumes "distinct xs"
  shows "subseq (eliminate_redundant cd xs) xs
    \<and> (\<forall>a\<in>set (eliminate_redundant cd xs). \<forall>b\<in>set (eliminate_redundant cd xs). \<not> redundant cd a b)
    \<and> (\<forall>x\<in>set xs. \<exists>y\<in>set (eliminate_redundant cd xs). same_place cd y x \<and> c_priority (cd x) \<le> c_priority (cd y))"
  using assms
proof (induction cd xs rule: eliminate_redundant.induct)
  case (1 cd xs)
  show ?case
  proof (cases "find (\<lambda>a. find (\<lambda>b. redundant cd b a) xs \<noteq> None) xs")
    case None
    then have "eliminate_redundant cd xs = xs" by (simp add: eliminate_redundant.simps)
    with None show ?thesis using same_place_eq(1)[of cd] by (fastforce simp: find_None_iff)
  next
    case (Some a)
    then have a: "a \<in> set xs" "find (\<lambda>b. redundant cd b a) xs \<noteq> None" by (auto simp: find_Some_iff)
    then obtain b where b: "find (\<lambda>b. redundant cd b a) xs = Some b" by auto
    then have rb: "b \<in> set xs" "redundant cd b a" by (auto simp: find_Some_iff)
    define g where "g = (if c_priority (cd b) < c_priority (cd a) then b else a)"
    define s where "s = (if c_priority (cd b) < c_priority (cd a) then a else b)"
    define ys where "ys = eliminate_redundant cd (remove1 g xs)"
    have e: "eliminate_redundant cd xs = ys"
      unfolding ys_def g_def by (subst eliminate_redundant.simps) (unfold Some b option.case, rule refl)
    have IH: "subseq ys (remove1 g xs)" "\<forall>a\<in>set ys. \<forall>b\<in>set ys. \<not> redundant cd a b"
        "\<forall>x\<in>set (remove1 g xs). \<exists>y\<in>set ys. same_place cd y x \<and> c_priority (cd x) \<le> c_priority (cd y)"
      using "1.IH"[OF Some b] "1.prems" by (simp_all add: ys_def g_def)
    have s: "s \<in> set (remove1 g xs)" "same_place cd s g" "c_priority (cd g) \<le> c_priority (cd s)"
      using a(1) rb "1.prems" by (auto simp: s_def g_def redundant_iff in_set_remove1 dest: same_place_eq(2))
    have "subseq (remove1 g xs) xs"
      by (metis distinct_remove1_removeAll removeAll_filter_not_eq subseq_filter_left "1.prems")
    then have "subseq ys xs" using IH(1) by (rule subseq_order.trans[rotated])
    moreover have "\<exists>y\<in>set ys. same_place cd y x \<and> c_priority (cd x) \<le> c_priority (cd y)" if "x \<in> set xs" for x
    proof (cases "x = g")
      case False
      then show ?thesis using IH(3) that by (simp add: in_set_remove1)
    next
      case True
      from IH(3) s(1) obtain y where "y \<in> set ys" "same_place cd y s" "c_priority (cd s) \<le> c_priority (cd y)" by blast
      with s True show ?thesis by (meson order.trans same_place_eq(3))
    qed
    ultimately show ?thesis using IH(2) e by simp
  qed
qed

section \<open>Foundations\<close>

lemma show_nat_bound: "n < 10 ^ k \<Longrightarrow> 0 < k \<Longrightarrow> length (show_nat n) \<le> k"
proof (induction n arbitrary: k rule: show_nat.induct)
  case (1 n)
  then have "length (show_nat (n div 10)) \<le> k - 1" if "\<not> n < 10"
    using that "1.IH"[of "k - 1"] by (cases k; cases "k - 1") (auto simp: less_mult_imp_div_less mult.commute)
  then show ?case using "1.prems" by (subst show_nat.simps) auto
qed

lemma show_u32_take: "take 30 (show_nat (unat (g :: u32))) = show_nat (unat g)" "take 31 (show_nat (unat (g :: u32))) = show_nat (unat g)"
proof -
  have "unat g < 2 ^ LENGTH(32)" by (rule unsigned_less)
  then have "length (show_nat (unat g)) \<le> 10" by (intro show_nat_bound) simp_all
  then show "take 30 (show_nat (unat g)) = show_nat (unat g)" "take 31 (show_nat (unat g)) = show_nat (unat g)" by simp_all
qed

lemma read_show_nat: "read_digits 0 (show_nat n) = n"
  using read_digits_show[of 0 n "[]"] by simp

lemma show_nat_inj: "show_nat m = show_nat n \<longleftrightarrow> m = n"
  by (metis read_show_nat)

text \<open>The effect of a step on the data of the candidates, apart from their foundations.\<close>

definition same_but_foundations :: "(nat \<Rightarrow> IceCandidate) \<Rightarrow> (nat \<Rightarrow> IceCandidate) \<Rightarrow> bool" where
  "same_but_foundations cd cd' \<longleftrightarrow> (\<forall>a. cd' a\<lparr>c_foundation := []\<rparr> = cd a\<lparr>c_foundation := []\<rparr>)"

lemma same_but_foundationsD: "same_but_foundations cd cd' \<Longrightarrow> same_foundation cd' a b = same_foundation cd a b"
proof -
  assume "same_but_foundations cd cd'"
  then have "cd' x\<lparr>c_foundation := []\<rparr> = cd x\<lparr>c_foundation := []\<rparr>" for x by (simp add: same_but_foundations_def)
  then have "c_type (cd' x) = c_type (cd x) \<and> c_base (cd' x) = c_base (cd x) \<and> c_taddr (cd' x) = c_taddr (cd x)" for x
    by (metis IceCandidate.select_convs(2,3,6) IceCandidate.surjective IceCandidate.update_convs(1))
  then show ?thesis by (auto simp: same_foundation_def split: option.splits)
qed

lemma same_foundation_sym: "same_foundation cd a b \<Longrightarrow> same_foundation cd b a"
  by (auto simp: same_foundation_def split: option.splits)

lemma same_foundation_trans: "same_foundation cd a b \<Longrightarrow> same_foundation cd b d \<Longrightarrow> a \<noteq> d \<Longrightarrow> same_foundation cd a d"
  by (auto simp: same_foundation_def split: option.splits)

text \<open>While the candidates \<open>pre\<close> of the list have their foundations and the others none.\<close>

definition founded :: "(nat \<Rightarrow> IceCandidate) \<Rightarrow> nat \<Rightarrow> nat \<Rightarrow> nat list \<Rightarrow> ice \<Rightarrow> bool" where
  "founded cd c g pre w \<longleftrightarrow> same_but_foundations cd (cand w)
     \<and> (\<forall>a\<in>set pre. \<exists>n<g. c_foundation (cand w a) = show_nat n)
     \<and> (\<forall>a\<in>set pre. \<forall>b\<in>set pre. c_foundation (cand w a) = c_foundation (cand w b) \<longleftrightarrow> a = b \<or> same_foundation cd a b)
     \<and> (\<forall>a\<in>set (cl_local_candidates (cls w c)) - set pre. c_foundation (cand w a) = [])
     \<and> unat (cl_foundation_generator (cls w c)) = g"

lemma find_append: "find P (xs @ ys) = (case find P xs of None \<Rightarrow> find P ys | Some x \<Rightarrow> Some x)"
  by (induction xs) auto

lemma same_but_foundations_upd: "same_but_foundations cd (cand w) \<Longrightarrow>
    same_but_foundations cd (cand (upd_cand a (\<lambda>k. k\<lparr>c_foundation := f\<rparr>) w))"
  by (simp add: same_but_foundations_def)

lemma extend_eqs:
  fixes F :: "nat \<Rightarrow> string"
  assumes p: "\<forall>x\<in>set pre. \<forall>y\<in>set pre. F x = F y \<longleftrightarrow> x = y \<or> same_foundation cd x y"
    and one: "\<forall>x\<in>set pre. F x = F a \<longleftrightarrow> same_foundation cd x a" and a: "a \<notin> set pre"
  shows "\<forall>x\<in>set (pre @ [a]). \<forall>y\<in>set (pre @ [a]). F x = F y \<longleftrightarrow> x = y \<or> same_foundation cd x y"
proof (intro ballI)
  fix x y assume "x \<in> set (pre @ [a])" "y \<in> set (pre @ [a])"
  then consider "x = a" "y = a" | "x = a" "y \<in> set pre" | "x \<in> set pre" "y = a" | "x \<in> set pre" "y \<in> set pre" by auto
  then show "F x = F y \<longleftrightarrow> x = y \<or> same_foundation cd x y"
  proof cases
    case 2
    then show ?thesis using one a same_foundation_sym by (metis (no_types))
  next
    case 3
    then show ?thesis using one a by (metis (no_types))
  qed (use p in auto)
qed

text \<open>A candidate gets a new number, and is then told apart from all before it.\<close>

lemma founded_assign:
  assumes f: "founded cd c g pre w" and a: "a \<notin> set pre" "\<forall>b\<in>set pre. \<not> same_foundation cd a b"
    and g: "g + 1 < 2 ^ 32"
  shows "founded cd c (g + 1) (pre @ [a]) (upd_cl c (\<lambda>cl. cl\<lparr>cl_foundation_generator := cl_foundation_generator cl + 1\<rparr>)
           (upd_cand a (\<lambda>k. k\<lparr>c_foundation := take 30 (show_nat (unat (cl_foundation_generator (cls w c))))\<rparr>) w))"
    (is "founded cd c _ _ ?w")
proof -
  have gen: "unat (cl_foundation_generator (cls w c)) = g" using f by (simp add: founded_def)
  have new: "c_foundation (cand ?w a) = show_nat g" and old: "\<And>b. b \<in> set pre \<Longrightarrow> c_foundation (cand ?w b) = c_foundation (cand w b)"
    using a(1) gen show_u32_take(1)[of "cl_foundation_generator (cls w c)"] by auto
  have num: "\<And>b. b \<in> set pre \<Longrightarrow> \<exists>n<g. c_foundation (cand w b) = show_nat n" using f by (simp add: founded_def)
  have "\<forall>b\<in>set pre. c_foundation (cand ?w b) \<noteq> show_nat g" using num old by (metis less_irrefl show_nat_inj)
  moreover have "\<forall>b\<in>set pre. \<not> same_foundation cd b a" using a(2) same_foundation_sym by blast
  ultimately have one: "\<forall>x\<in>set pre. c_foundation (cand ?w x) = c_foundation (cand ?w a) \<longleftrightarrow> same_foundation cd x a"
    unfolding new by blast
  have "\<forall>x\<in>set pre. \<forall>y\<in>set pre. c_foundation (cand ?w x) = c_foundation (cand ?w y) \<longleftrightarrow> x = y \<or> same_foundation cd x y"
    using f old unfolding founded_def by (metis (no_types, lifting))
  note eqs = extend_eqs[OF this one a(1)]
  have nums: "\<forall>x\<in>set (pre @ [a]). \<exists>n<g + 1. c_foundation (cand ?w x) = show_nat n"
  proof
    fix x assume "x \<in> set (pre @ [a])"
    then consider "x = a" | "x \<in> set pre" by auto
    then show "\<exists>n<g + 1. c_foundation (cand ?w x) = show_nat n"
    proof cases
      case 1
      then show ?thesis using new by (intro exI[of _ g]) simp
    next
      case 2
      then obtain n where "n < g" "c_foundation (cand w x) = show_nat n" using num by blast
      then show ?thesis using old[OF 2] by (intro exI[of _ n]) (simp only: trans_less_add1)
    qed
  qed
  have "same_but_foundations cd (cand w)" using f by (simp add: founded_def)
  then have "same_but_foundations cd (cand ?w)" by (simp add: same_but_foundations_def)
  moreover have "\<forall>x\<in>set (cl_local_candidates (cls ?w c)) - set (pre @ [a]). c_foundation (cand ?w x) = []"
    using f by (auto simp: founded_def)
  moreover have "unat (cl_foundation_generator (cls ?w c)) = g + 1"
  proof -
    have "unat (cl_foundation_generator (cls w c) + 1) = (g + 1) mod 2 ^ 32" using gen by (simp add: unat_word_ariths)
    then show ?thesis using g by simp
  qed
  ultimately show ?thesis using eqs nums unfolding founded_def by blast
qed

text \<open>A candidate takes over the number of an earlier one.\<close>

lemma founded_copy:
  assumes f: "founded cd c g pre w" and a: "a \<notin> set pre" and b: "b \<in> set pre" "same_foundation cd b a"
  shows "founded cd c g (pre @ [a]) (upd_cand a (\<lambda>k. k\<lparr>c_foundation := take 31 (c_foundation (cand w b))\<rparr>) w)"
    (is "founded cd c _ _ ?w")
proof -
  obtain n where n: "n < g" "c_foundation (cand w b) = show_nat n" using f b(1) by (auto simp: founded_def)
  have gen: "unat (cl_foundation_generator (cls w c)) = g" using f by (simp add: founded_def)
  have "g < 2 ^ LENGTH(32)" unfolding gen[symmetric] by (rule unsigned_less)
  then have tk: "take 31 (show_nat n) = show_nat n" using show_u32_take(2)[of "of_nat n"] n(1) by (simp add: unat_of_nat)
  have new: "c_foundation (cand ?w a) = c_foundation (cand w b)" and old: "\<And>x. x \<in> set pre \<Longrightarrow> c_foundation (cand ?w x) = c_foundation (cand w x)"
    using a n tk by auto
  have rel: "same_foundation cd x a \<longleftrightarrow> x = b \<or> same_foundation cd x b" if "x \<in> set pre" for x
    using that a b same_foundation_trans[of cd x b a] same_foundation_trans[of cd x a b] same_foundation_sym by blast
  have p: "c_foundation (cand w x) = c_foundation (cand w y) \<longleftrightarrow> x = y \<or> same_foundation cd x y" if "x \<in> set pre" "y \<in> set pre" for x y
    using f that by (auto simp: founded_def)
  have one: "\<forall>x\<in>set pre. c_foundation (cand ?w x) = c_foundation (cand ?w a) \<longleftrightarrow> same_foundation cd x a"
    using new old p[OF _ b(1)] rel by (metis (no_types, lifting))
  have "\<forall>x\<in>set pre. \<forall>y\<in>set pre. c_foundation (cand ?w x) = c_foundation (cand ?w y) \<longleftrightarrow> x = y \<or> same_foundation cd x y"
    using p old by (metis (no_types, lifting))
  note eqs = extend_eqs[OF this one a]
  have nums: "\<forall>x\<in>set (pre @ [a]). \<exists>n<g. c_foundation (cand ?w x) = show_nat n"
    using f n old new by (auto simp: founded_def)
  have "same_but_foundations cd (cand w)" using f by (simp add: founded_def)
  then have "same_but_foundations cd (cand ?w)" by (simp add: same_but_foundations_def)
  moreover have "\<forall>x\<in>set (cl_local_candidates (cls ?w c)) - set (pre @ [a]). c_foundation (cand ?w x) = []"
    using f by (auto simp: founded_def)
  ultimately show ?thesis using eqs nums gen unfolding founded_def by simp
qed

lemma founded_step:
  assumes f: "founded cd c g pre w" and l: "cl_local_candidates (cls w c) = pre @ a # post" and d: "distinct (pre @ a # post)"
    and g: "g + 1 < 2 ^ 32"
  shows "\<exists>g'\<le>g + 1. founded cd c g' (pre @ [a]) (ice_compute_candidate_foundation a c w)"
proof -
  have sf: "same_foundation (cand w) = same_foundation cd"
    using f same_but_foundationsD[of cd "cand w"] by (simp add: founded_def fun_eq_iff)
  have a: "a \<notin> set pre" using d by simp
  show ?thesis
  proof (cases "find (\<lambda>x. same_foundation cd x a) pre")
    case (Some b)
    then have b: "b \<in> set pre" "same_foundation cd b a" by (auto simp: find_Some_iff)
    then have "c_foundation (cand w b) \<noteq> []" using f show_nat_ne by (fastforce simp: founded_def)
    then have "ice_compute_candidate_foundation a c w = upd_cand a (\<lambda>k. k\<lparr>c_foundation := take 31 (c_foundation (cand w b))\<rparr>) w"
      using Some by (simp add: ice_compute_candidate_foundation_def sf l find_append)
    with founded_copy[OF f a b] show ?thesis by (intro exI[of _ g]) simp
  next
    case None
    then have n: "\<forall>b\<in>set pre. \<not> same_foundation cd a b" using same_foundation_sym by (auto simp: find_None_iff)
    have "ice_compute_candidate_foundation a c w = upd_cl c (\<lambda>cl. cl\<lparr>cl_foundation_generator := cl_foundation_generator cl + 1\<rparr>)
           (upd_cand a (\<lambda>k. k\<lparr>c_foundation := take 30 (show_nat (unat (cl_foundation_generator (cls w c))))\<rparr>) w)"
    proof (cases "find (\<lambda>x. same_foundation cd x a) (a # post)")
      case None2: None
      then show ?thesis using None by (simp add: ice_compute_candidate_foundation_def sf l find_append)
    next
      case (Some b)
      then have "b \<in> set post" by (auto simp: find_Some_iff same_foundation_def nth_Cons split: nat.splits)
      moreover from this have "c_foundation (cand w b) = []" using f d l by (auto simp: founded_def)
      ultimately show ?thesis using None Some by (simp add: ice_compute_candidate_foundation_def sf l find_append)
    qed
    with founded_assign[OF f a n g] show ?thesis by auto
  qed
qed

lemma compute_foundation_frame: "cl_local_candidates (cls (ice_compute_candidate_foundation a c w) c) = cl_local_candidates (cls w c)"
  by (simp add: ice_compute_candidate_foundation_def Let_def split: option.splits)

lemma founded_fold:
  assumes "founded cd c g pre w" "cl_local_candidates (cls w c) = pre @ post" "distinct (pre @ post)" "g + length post < 2 ^ 32"
  shows "\<exists>g'. founded cd c g' (pre @ post) (fold (\<lambda>a. ice_compute_candidate_foundation a c) post w)"
  using assms
proof (induction post arbitrary: g pre w)
  case (Cons a post)
  from founded_step[of cd c g pre w a post] Cons.prems obtain g' where g': "g' \<le> g + 1"
      "founded cd c g' (pre @ [a]) (ice_compute_candidate_foundation a c w)" by auto
  from Cons.IH[OF g'(2)] Cons.prems g'(1) show ?case by (simp add: compute_foundation_frame)
qed auto

section \<open>Pairing\<close>

lemma pair_leq_iff: "pair_leq pr p q \<longleftrightarrow> p_priority (pr q) \<le> p_priority (pr p)"
  unfolding pair_leq_def ice_compare_pair_priorities_def by (cases "p_priority (pr p) < p_priority (pr q)") auto

interpretation by_priority: ms_order "pair_leq pr" "\<lambda>p q. p_priority (pr q) \<le> p_priority (pr p)" for pr
  by unfold_locales (auto simp: pair_leq_iff)

text \<open>The order of the check list when the low bit of the priorities, which depends on the role, is left aside.\<close>

interpretation by_half_priority: ms_order "pair_leq pr" "\<lambda>p q. unat (p_priority (pr q)) div 2 \<le> unat (p_priority (pr p)) div 2" for pr
  by unfold_locales (auto simp: pair_leq_iff word_le_nat_alt intro: div_le_mono)

definition combos :: "ice \<Rightarrow> nat \<Rightarrow> (nat \<times> nat) list" where
  "combos w c = [(l, r). l \<leftarrow> cl_local_candidates (cls w c), r \<leftarrow> cl_remote_candidates (cls w c),
     c_componentID (cand w l) = c_componentID (cand w r)]"

text \<open>The memory after the pairs \<open>ps\<close> have been made.\<close>

definition add_pairs :: "nat \<Rightarrow> (nat \<times> nat) list \<Rightarrow> ice \<Rightarrow> ice" where
  "add_pairs c ps w = w\<lparr>pair := (\<lambda>i. if pair_brk w \<le> i \<and> i < pair_brk w + length ps
        then ice_pair_init w (fst (ps ! (i - pair_brk w))) (snd (ps ! (i - pair_brk w))) else pair w i),
     pair_brk := pair_brk w + length ps,
     cls := (cls w)(c := (cls w c)\<lparr>cl_pairs := cl_pairs (cls w c) @ [pair_brk w..<pair_brk w + length ps]\<rparr>)\<rparr>"

lemma add_pairs_Nil [simp]: "add_pairs c [] w = w"
  by (intro ice.equality) (auto simp: add_pairs_def fun_eq_iff)

lemma ice_pair_init_frame: "cand w' = cand w \<Longrightarrow> s_role (ses w') = s_role (ses w) \<Longrightarrow> ice_pair_init w' = ice_pair_init w"
  by (intro ext) (simp add: ice_pair_init_def)

lemma add_pairs_frame [simp]: "cand (add_pairs c ps w) = cand w" "ses (add_pairs c ps w) = ses w"
  "pair_brk (add_pairs c ps w) = pair_brk w + length ps" "cand_brk (add_pairs c ps w) = cand_brk w"
  by (simp_all add: add_pairs_def)

lemma add_pairs_snoc: "(let (p, w2) = ice_pair_new l r (add_pairs c ps w) in upd_cl c (\<lambda>cl. cl\<lparr>cl_pairs := cl_pairs cl @ [p]\<rparr>) w2)
    = add_pairs c (ps @ [(l, r)]) w"
proof -
  define n where "n = pair_brk w"
  have init: "ice_pair_init (add_pairs c ps w) = ice_pair_init w" by (rule ice_pair_init_frame) simp_all
  have "ice_pair_new l r (add_pairs c ps w) = (n + length ps,
      (add_pairs c ps w)\<lparr>pair := (pair (add_pairs c ps w))(n + length ps := ice_pair_init w l r), pair_brk := n + length ps + 1\<rparr>)"
    by (simp add: ice_pair_new_def init n_def)
  then show ?thesis
    by (intro ice.equality) (auto simp: add_pairs_def nth_append fun_eq_iff n_def less_Suc_eq)
qed

lemma form_inner: "fold (\<lambda>r w'. if c_componentID (cand w' l) = c_componentID (cand w' r)
         then (let (p, w2) = ice_pair_new l r w' in upd_cl c (\<lambda>cl. cl\<lparr>cl_pairs := cl_pairs cl @ [p]\<rparr>) w2)
         else w') rs (add_pairs c ps w)
    = add_pairs c (ps @ [(l, r). r \<leftarrow> rs, c_componentID (cand w l) = c_componentID (cand w r)]) w"
  by (induction rs arbitrary: ps) (simp_all add: add_pairs_snoc del: Let_def split: if_splits)

lemma form_pairs: "ice_form_candidate_pairs c w = add_pairs c (combos w c) w"
proof -
  have "fold (\<lambda>l. fold (\<lambda>r w'. if c_componentID (cand w' l) = c_componentID (cand w' r)
         then (let (p, w2) = ice_pair_new l r w' in upd_cl c (\<lambda>cl. cl\<lparr>cl_pairs := cl_pairs cl @ [p]\<rparr>) w2)
         else w') rs) ls (add_pairs c ps w)
    = add_pairs c (ps @ [(l, r). l \<leftarrow> ls, r \<leftarrow> rs, c_componentID (cand w l) = c_componentID (cand w r)]) w" for ls rs ps
    by (induction ls arbitrary: ps) (simp_all add: form_inner)
  from this[where ps = "[]"] show ?thesis by (simp add: ice_form_candidate_pairs_def combos_def)
qed

section \<open>Pruning\<close>

lemma pair_equal_refl: "\<not> ice_compare_pairs cd p p"
  by (simp add: ice_compare_pairs_def ice_compare_candidates_def ice_compare_transport_addresses_def)

lemma pair_equal_trans: "\<not> ice_compare_pairs cd p q \<Longrightarrow> \<not> ice_compare_pairs cd q r \<Longrightarrow> \<not> ice_compare_pairs cd p r"
  "\<not> ice_compare_pairs cd p q \<Longrightarrow> \<not> ice_compare_pairs cd q p"
  by (auto simp: ice_compare_pairs_def ice_compare_candidates_def ice_compare_transport_addresses_def)

text \<open>A pair is removed for an equal pair of higher priority in front of it, which stays.\<close>

lemma prune_duplicate_in_front:
  "ice_prune_duplicate_pair w p (kept @ p # ps) \<Longrightarrow> \<exists>q\<in>set kept. \<not> ice_compare_pairs (cand w) (pair w q) (pair w p)
     \<and> p_priority (pair w p) < p_priority (pair w q)"
  using pair_equal_refl[of "cand w" "pair w p"]
  by (auto simp: ice_prune_duplicate_pair_def find_append find_Some_iff split: option.splits)

fun prune_result :: "ice \<Rightarrow> nat list \<Rightarrow> nat list \<Rightarrow> nat list" where
  "prune_result w kept [] = kept"
| "prune_result w kept (p # ps) = (if ice_prune_duplicate_pair w p (kept @ p # ps)
     then prune_result w kept ps else prune_result w (kept @ [p]) ps)"

lemma prune_loop_pairs: "cl_pairs (prune_loop w kept ps cl) = prune_result w kept ps"
proof (induction w kept ps arbitrary: cl rule: prune_result.induct)
  case (2 w kept p ps)
  then show ?case using prune_duplicate_in_front[of w p kept ps]
    by (cases "ps = []") auto
qed simp

lemma prune_result_facts:
  assumes "distinct (kept @ ps)"
  shows "distinct (prune_result w kept ps) \<and> set kept \<subseteq> set (prune_result w kept ps) \<and> set (prune_result w kept ps) \<subseteq> set (kept @ ps)
    \<and> (\<forall>p\<in>set ps. \<exists>q\<in>set (prune_result w kept ps). \<not> ice_compare_pairs (cand w) (pair w q) (pair w p)
         \<and> p_priority (pair w p) \<le> p_priority (pair w q))"
  using assms
proof (induction w kept ps rule: prune_result.induct)
  case (2 w kept p ps)
  show ?case
  proof (cases "ice_prune_duplicate_pair w p (kept @ p # ps)")
    case True
    then obtain q where "q \<in> set kept" "\<not> ice_compare_pairs (cand w) (pair w q) (pair w p)" "p_priority (pair w p) \<le> p_priority (pair w q)"
      using prune_duplicate_in_front[OF True] by (meson less_imp_le)
    with True "2.IH"(1)[OF True] "2.prems" show ?thesis by auto
  next
    case False
    with "2.IH"(2)[OF False] "2.prems" pair_equal_refl[of "cand w" "pair w p"] show ?thesis by auto
  qed
qed auto

lemma prune_loop_frame: "cl_local_candidates (prune_loop w kept ps cl) = cl_local_candidates cl"
  "cl_remote_candidates (prune_loop w kept ps cl) = cl_remote_candidates cl"
  "cl_state (prune_loop w kept ps cl) = cl_state cl" "cl_foundations (prune_loop w kept ps cl) = cl_foundations cl"
  by (induction w kept ps cl rule: prune_loop.induct) (auto simp: ice_free_candidate_pair_def)

text \<open>A pair whose local server reflexive candidate is replaced by its base.\<close>

definition based :: "(nat \<Rightarrow> IceCandidate) \<Rightarrow> IceCandidatePair \<Rightarrow> IceCandidatePair" where
  "based cd pr = (if c_type (cd (p_local pr)) = ICT_ServerReflexiveCandidate
     then (case c_base (cd (p_local pr)) of Some b \<Rightarrow> pr\<lparr>p_local := b\<rparr> | None \<Rightarrow> pr) else pr)"

lemma based_simps [simp]: "p_remote (based cd pr) = p_remote pr" "p_state (based cd pr) = p_state pr"
  "p_priority (based cd pr) = p_priority pr"
  by (simp_all add: based_def split: option.splits)

lemma replace_all:
  assumes "distinct ps" "\<forall>p\<in>set ps. c_type (cand w (p_local (pair w p))) = ICT_ServerReflexiveCandidate
      \<longrightarrow> c_base (cand w (p_local (pair w p))) \<noteq> None"
  shows "fold_option ice_replace_srflx_by_base_in_pair ps w
      = Some (w\<lparr>pair := (\<lambda>i. if i \<in> set ps then based (cand w) (pair w i) else pair w i)\<rparr>)"
  using assms
proof (induction ps arbitrary: w)
  case (Cons p ps)
  define w1 where "w1 = upd_pair p (based (cand w)) w"
  have s: "ice_replace_srflx_by_base_in_pair p w = Some w1"
    using Cons.prems(2) by (auto simp: ice_replace_srflx_by_base_in_pair_def w1_def based_def fun_upd_idem split: option.splits)
  have IH: "fold_option ice_replace_srflx_by_base_in_pair ps w1
      = Some (w1\<lparr>pair := (\<lambda>i. if i \<in> set ps then based (cand w1) (pair w1 i) else pair w1 i)\<rparr>)"
    using Cons.prems by (intro Cons.IH) (auto simp: w1_def)
  have "w1\<lparr>pair := (\<lambda>i. if i \<in> set ps then based (cand w1) (pair w1 i) else pair w1 i)\<rparr>
      = w\<lparr>pair := (\<lambda>i. if i \<in> set (p # ps) then based (cand w) (pair w i) else pair w i)\<rparr>"
    using Cons.prems(1) by (intro ice.equality) (auto simp: w1_def fun_eq_iff)
  then show ?case using s IH by simp
qed simp

text \<open>The memory in which a check list is pruned: every pair of candidates of one component, with its base.\<close>

definition formed :: "nat \<Rightarrow> ice \<Rightarrow> ice" where
  "formed c w = (add_pairs c (combos w c) w)\<lparr>pair := (\<lambda>i. if i \<in> set (cl_pairs (cls (add_pairs c (combos w c) w) c))
     then based (cand w) (pair (add_pairs c (combos w c) w) i) else pair w i)\<rparr>"

definition fresh_list :: "nat \<Rightarrow> ice \<Rightarrow> bool" where
  "fresh_list c w \<longleftrightarrow> cl_state (cls w c) = ICL_Running \<and> cl_pairs (cls w c) = [] \<and> cl_foundations (cls w c) = []
     \<and> (\<forall>l\<in>set (cl_local_candidates (cls w c)). c_type (cand w l) = ICT_ServerReflexiveCandidate \<longrightarrow> c_base (cand w l) \<noteq> None)"

definition pairs_left :: "nat \<Rightarrow> ice \<Rightarrow> nat list" where
  "pairs_left c w = prune_result (formed c w) [] (cl_pairs (cls (formed c w) c))"

lemma formed_pairs: "fresh_list c w \<Longrightarrow> cl_pairs (cls (formed c w) c) = [pair_brk w..<pair_brk w + length (combos w c)]"
  by (simp add: formed_def add_pairs_def fresh_list_def)

lemma formed_frame [simp]: "cand (formed c w) = cand w" "ses (formed c w) = ses w"
  by (simp_all add: formed_def)

lemma formed_pair: "fresh_list c w \<Longrightarrow> k < length (combos w c) \<Longrightarrow>
    pair (formed c w) (pair_brk w + k) = based (cand w) (ice_pair_init w (fst (combos w c ! k)) (snd (combos w c ! k)))"
  by (simp add: formed_def add_pairs_def fresh_list_def)

lemma formed_is: 
  assumes "fresh_list c w"
  shows "fold_option ice_replace_srflx_by_base_in_pair (cl_pairs (cls (ice_form_candidate_pairs c w) c)) (ice_form_candidate_pairs c w)
      = Some (formed c w)"
proof -
  define w1 where "w1 = add_pairs c (combos w c) w"
  have ps: "cl_pairs (cls w1 c) = [pair_brk w..<pair_brk w + length (combos w c)]"
    using assms by (simp add: w1_def add_pairs_def fresh_list_def)
  have loc: "p_local (pair w1 p) \<in> set (cl_local_candidates (cls w c))" if "p \<in> set (cl_pairs (cls w1 c))" for p
  proof -
    have "combos w c ! (p - pair_brk w) \<in> set (combos w c)" using that ps by auto
    then have "fst (combos w c ! (p - pair_brk w)) \<in> set (cl_local_candidates (cls w c))" by (auto simp: combos_def)
    then show ?thesis using that ps by (simp add: w1_def add_pairs_def ice_pair_init_def ice_compute_pair_priority_def Let_def)
  qed
  have "fold_option ice_replace_srflx_by_base_in_pair (cl_pairs (cls w1 c)) w1
      = Some (w1\<lparr>pair := (\<lambda>i. if i \<in> set (cl_pairs (cls w1 c)) then based (cand w1) (pair w1 i) else pair w1 i)\<rparr>)"
    using loc assms ps by (intro replace_all) (auto simp: fresh_list_def w1_def)
  also have "\<dots> = Some (formed c w)"
    using ps by (auto simp: formed_def w1_def[symmetric] intro!: ice.equality) (auto simp: w1_def add_pairs_def fun_eq_iff)
  finally show ?thesis by (simp add: form_pairs w1_def)
qed

lemma mset_fold_insort: "mset (fold (ms_insort leq) ps xs) = mset ps + mset xs"
  by (induction ps arbitrary: xs) simp_all

lemma fold_insort_simps:
  "set (fold (ms_insort leq) ps xs) = set ps \<union> set xs"
  "length (fold (ms_insort leq) ps xs) = length ps + length xs"
  "distinct (fold (ms_insort leq) ps xs) \<longleftrightarrow> distinct (ps @ xs)"
proof -
  show "set (fold (ms_insort leq) ps xs) = set ps \<union> set xs"
    using arg_cong[OF mset_fold_insort[of leq ps xs], of set_mset] by simp
  show "length (fold (ms_insort leq) ps xs) = length ps + length xs"
    using arg_cong[OF mset_fold_insort[of leq ps xs], of size] by simp
  show "distinct (fold (ms_insort leq) ps xs) \<longleftrightarrow> distinct (ps @ xs)"
    using mset_fold_insort[of leq ps xs] by (metis mset_append mset_eq_imp_distinct_iff)
qed

definition checked :: "nat \<Rightarrow> ice \<Rightarrow> nat list" where
  "checked c w = fold (ms_insort (pair_leq (pair (formed c w)))) (pairs_left c w) []"

lemma pairs_left_facts:
  assumes "fresh_list c w"
  shows "distinct (pairs_left c w)" "set (pairs_left c w) \<subseteq> {pair_brk w..<pair_brk w + length (combos w c)}"
    "\<forall>k<length (combos w c). \<exists>q\<in>set (pairs_left c w). \<not> ice_compare_pairs (cand w) (pair (formed c w) q) (pair (formed c w) (pair_brk w + k))
       \<and> p_priority (pair (formed c w) (pair_brk w + k)) \<le> p_priority (pair (formed c w) q)"
  using prune_result_facts[of "[]" "cl_pairs (cls (formed c w) c)" "formed c w"] formed_pairs[OF assms]
  by (auto simp: pairs_left_def)

lemma prune_is:
  assumes "fresh_list c w"
  shows "ice_prune_candidate_pairs c (ice_form_candidate_pairs c w)
    = (if unat (s_max_connectivity_checks (ses w)) < length (pairs_left c w) then None
       else Some (upd_cl c (\<lambda>cl. (prune_loop (formed c w) [] (cl_pairs cl) cl)\<lparr>cl_check_list := checked c w\<rparr>) (formed c w)))"
  unfolding ice_prune_candidate_pairs_def formed_is[OF assms]
  by (simp add: Let_def prune_loop_pairs checked_def fold_insort_simps flip: pairs_left_def)

lemma foundations_fold:
  "set (fold (ice_generate_pair_foundations_list w) ps fs)
     = set fs \<union> (\<lambda>p. (take 31 (fst (pair_foundation w p)), take 31 (snd (pair_foundation w p)))) ` set ps
   \<and> (distinct fs \<longrightarrow> distinct (fold (ice_generate_pair_foundations_list w) ps fs))"
proof (induction ps arbitrary: fs)
  case (Cons p ps)
  have "set (ice_generate_pair_foundations_list w p fs)
      = insert (take 31 (fst (pair_foundation w p)), take 31 (snd (pair_foundation w p))) (set fs)
    \<and> (distinct fs \<longrightarrow> distinct (ice_generate_pair_foundations_list w p fs))"
    by (auto simp: ice_generate_pair_foundations_list_def Let_def find_None_iff find_Some_iff in_set_conv_nth split: option.splits)
  then show ?case using Cons[of "ice_generate_pair_foundations_list w p fs"] by auto
qed simp

text \<open>What the pairs of a new check list are.\<close>

definition pair_of :: "nat \<Rightarrow> ice \<Rightarrow> nat \<times> nat \<Rightarrow> IceCandidatePair" where
  "pair_of c w lr = based (cand w) (ice_pair_init w (fst lr) (snd lr))"

definition good_check_list :: "nat \<Rightarrow> ice \<Rightarrow> ice \<Rightarrow> bool" where
  "good_check_list c w w' \<longleftrightarrow> (let C = cl_check_list (cls w' c) in
       sorted_wrt (\<lambda>p q. p_priority (pair w' q) \<le> p_priority (pair w' p)) C \<and> distinct C \<and> set C = set (cl_pairs (cls w' c))
     \<and> length C \<le> unat (s_max_connectivity_checks (ses w'))
     \<and> (\<forall>p\<in>set C. \<exists>lr\<in>set (combos w c). pair w' p = pair_of c w lr)
     \<and> (\<forall>lr\<in>set (combos w c). \<exists>p\<in>set C. \<not> ice_compare_pairs (cand w) (pair w' p) (pair_of c w lr)
          \<and> p_priority (pair_of c w lr) \<le> p_priority (pair w' p))
     \<and> distinct (cl_foundations (cls w' c)) \<and> set (cl_foundations (cls w' c))
          = (\<lambda>p. (take 31 (fst (pair_foundation w' p)), take 31 (snd (pair_foundation w' p)))) ` set C)"

lemma pair_candidates_is:
  assumes f: "fresh_list c w"
  shows "(case ice_check_list_pair_candidates c w of
      None \<Rightarrow> unat (s_max_connectivity_checks (ses w)) < length (pairs_left c w)
    | Some w' \<Rightarrow> good_check_list c w w' \<and> (\<forall>p\<in>set (cl_check_list (cls w' c)). p_state (pair w' p) = ICP_Frozen))"
proof (cases "unat (s_max_connectivity_checks (ses w)) < length (pairs_left c w)")
  case True
  then show ?thesis using f prune_is[OF f] by (simp add: ice_check_list_pair_candidates_def fresh_list_def)
next
  case False
  define w1 where "w1 = upd_cl c (\<lambda>cl. (prune_loop (formed c w) [] (cl_pairs cl) cl)\<lparr>cl_check_list := checked c w\<rparr>) (formed c w)"
  define w2 where "w2 = upd_cl c (\<lambda>cl. cl\<lparr>cl_foundations := fold (ice_generate_pair_foundations_list w1) (cl_check_list cl) (cl_foundations cl)\<rparr>) w1"
  have r: "ice_check_list_pair_candidates c w = Some w2"
    using False f prune_is[OF f] by (simp add: ice_check_list_pair_candidates_def fresh_list_def w1_def w2_def)
  have C: "cl_check_list (cls w2 c) = checked c w" and P: "cl_pairs (cls w2 c) = pairs_left c w" and pr: "pair w2 = pair (formed c w)"
    and ses2: "ses w2 = ses w"
    by (simp_all add: w2_def w1_def prune_loop_pairs pairs_left_def)
  have F: "cl_foundations (cls w2 c) = fold (ice_generate_pair_foundations_list w1) (checked c w) []"
    using f by (simp add: w2_def w1_def prune_loop_frame formed_def add_pairs_def fresh_list_def)
  have pf: "pair_foundation w1 = pair_foundation w2" by (simp add: pair_foundation_def w1_def w2_def fun_eq_iff)
  have sC: "set (checked c w) = set (pairs_left c w)" "length (checked c w) = length (pairs_left c w)" "distinct (checked c w)"
    using pairs_left_facts(1)[OF f] by (simp_all add: checked_def fold_insort_simps)
  have new: "\<exists>lr\<in>set (combos w c). pair w2 p = pair_of c w lr" if "p \<in> set (pairs_left c w)" for p
  proof -
    from that pairs_left_facts(2)[OF f] obtain k where "p = pair_brk w + k" "k < length (combos w c)"
      by (auto simp: subset_iff) (metis add_diff_inverse_nat add_less_cancel_left not_less)
    then show ?thesis using formed_pair[OF f, of k] by (auto simp: pr pair_of_def intro!: bexI[of _ "combos w c ! k"])
  qed
  have all: "\<exists>p\<in>set (pairs_left c w). \<not> ice_compare_pairs (cand w) (pair w2 p) (pair_of c w lr)
       \<and> p_priority (pair_of c w lr) \<le> p_priority (pair w2 p)" if lr: "lr \<in> set (combos w c)" for lr
  proof -
    from lr obtain k where k: "k < length (combos w c)" "combos w c ! k = lr" by (auto simp: in_set_conv_nth)
    then have "pair (formed c w) (pair_brk w + k) = pair_of c w lr" using formed_pair[OF f k(1)] by (simp add: pair_of_def)
    then show ?thesis using pairs_left_facts(3)[OF f] k(1) by (metis (no_types) pr)
  qed
  have sorted: "sorted_wrt (\<lambda>p q. p_priority (pair w2 q) \<le> p_priority (pair w2 p)) (checked c w)"
    unfolding checked_def pr by (rule by_priority.foldr_insort_sorted) simp
  have "good_check_list c w w2"
    unfolding good_check_list_def Let_def C P F ses2
    using sorted sC new all False foundations_fold[of w1 "checked c w" "[]"] by (auto simp: pf)
  moreover have "\<forall>p\<in>set (cl_check_list (cls w2 c)). p_state (pair w2 p) = ICP_Frozen"
    using new by (fastforce simp: C sC pair_of_def ice_pair_init_def ice_compute_pair_priority_def Let_def)
  ultimately show ?thesis by (simp add: r)
qed

section \<open>The first states\<close>

lemma lowest_fold:
  assumes "sorted_wrt (\<lambda>p q. p_priority (pair w q) \<le> p_priority (pair w p)) C"
    and "\<forall>p\<in>set C. c_componentID (cand w (p_local (pair w p))) \<noteq> 0"
  shows "fc_pair (fold (ice_find_lowest_componentid_pair_with_specified_foundation w f) C
      \<lparr>fc_pair = None, fc_priority = 0, fc_componentID = ICE_INVALID_COMPONENTID\<rparr>) = find (\<lambda>p. pair_foundation w p = f) C"
proof -
  have stay: "fold (ice_find_lowest_componentid_pair_with_specified_foundation w f) C fc = fc"
    if "fc_componentID fc \<noteq> 0" "\<forall>p\<in>set C. p_priority (pair w p) \<le> fc_priority fc" for C fc
    using that by (induction C) (auto simp: ice_find_lowest_componentid_pair_with_specified_foundation_def Let_def ICE_INVALID_COMPONENTID_def)
  show ?thesis
    using assms
  proof (induction C)
    case (Cons p C)
    show ?case
    proof (cases "pair_foundation w p = f")
      case True
      then show ?thesis using Cons.prems
        by (simp add: ice_find_lowest_componentid_pair_with_specified_foundation_def[of w f p] Let_def ICE_INVALID_COMPONENTID_def stay)
    next
      case False
      then show ?thesis using Cons
        by (simp add: ice_find_lowest_componentid_pair_with_specified_foundation_def[of w f p] Let_def)
    qed
  qed simp
qed

lemma states_fold:
  assumes "sorted_wrt (\<lambda>p q. p_priority (pair w q) \<le> p_priority (pair w p)) (cl_check_list (cls w c))"
    and "\<forall>p\<in>set (cl_check_list (cls w c)). c_componentID (cand w (p_local (pair w p))) \<noteq> 0"
  shows "fold (ice_set_lowest_componentid_pair_with_foundation_to_waiting_state c) fs w
    = w\<lparr>pair := (\<lambda>i. if \<exists>f\<in>set fs. find (\<lambda>p. pair_foundation w p = f) (cl_check_list (cls w c)) = Some i
         then (pair w i)\<lparr>p_state := ICP_Waiting\<rparr> else pair w i)\<rparr>"
  using assms
proof (induction fs arbitrary: w)
  case (Cons f fs)
  let ?C = "cl_check_list (cls w c)"
  define w1 where "w1 = ice_set_lowest_componentid_pair_with_foundation_to_waiting_state c f w"
  have w1: "w1 = w\<lparr>pair := (\<lambda>i. if find (\<lambda>p. pair_foundation w p = f) ?C = Some i then (pair w i)\<lparr>p_state := ICP_Waiting\<rparr> else pair w i)\<rparr>"
    using lowest_fold[OF Cons.prems, of f]
    by (intro ice.equality) (auto simp: w1_def ice_set_lowest_componentid_pair_with_foundation_to_waiting_state_def Let_def
        ice_pair_set_state_def fun_eq_iff split: option.splits)
  have pf: "pair_foundation w1 = pair_foundation w" by (auto simp: w1 pair_foundation_def fun_eq_iff)
  have "sorted_wrt (\<lambda>p q. p_priority (pair w1 q) \<le> p_priority (pair w1 p)) (cl_check_list (cls w1 c))"
    "\<forall>p\<in>set (cl_check_list (cls w1 c)). c_componentID (cand w1 (p_local (pair w1 p))) \<noteq> 0"
    using Cons.prems by (auto simp: w1 elim!: sorted_wrt_mono_rel[rotated])
  note IH = Cons.IH[OF this]
  show ?case
    unfolding fold.simps o_apply w1_def[symmetric] IH pf
    by (intro ice.equality) (auto simp: w1 fun_eq_iff)
qed simp

section \<open>Properties\<close>

text \<open>C34: the priority of a pair is the one of RFC 5245, and both agents compute the same one for the pair seen from their sides, as
  long as the candidate priorities are below \<open>2 ^ 31\<close>, which holds for every priority the agent gives to its own candidates of
  components 1 to 256. (The three terms are joined with \<open>|\<close>: from \<open>2 ^ 31\<close> on they overlap, and the value is not that of the formula.)\<close>

theorem pair_priority_agreed:
  assumes "unat (c_priority (cd (p_local pr))) < 2 ^ 31" "unat (c_priority (cd (p_remote pr))) < 2 ^ 31"
    and "p_local mirrored = p_remote pr" "p_remote mirrored = p_local pr"
    and "1 \<le> unat (c_componentID own)" "unat (c_componentID own) \<le> 256"
  shows "unat (p_priority (ice_compute_pair_priority cd IR_Controlling pr))
        = rfc_pair_priority (unat (c_priority (cd (p_local pr)))) (unat (c_priority (cd (p_remote pr))))
    \<and> p_priority (ice_compute_pair_priority cd IR_Controlled mirrored) = p_priority (ice_compute_pair_priority cd IR_Controlling pr)
    \<and> unat (c_priority (ice_compute_candidate_priority own))
        = 2 ^ 24 * unat (type_preference_values (c_type own)) + 2 ^ 8 * 65535 + (256 - unat (c_componentID own))
    \<and> unat (c_priority (ice_compute_candidate_priority own)) < 2 ^ 31
    \<and> unat (pair_priority_of (2 ^ 31) 1) \<noteq> rfc_pair_priority (unat (2 ^ 31 :: u32)) 1"
proof -
  have "unat (pair_priority_of (2 ^ 31) 1) \<noteq> rfc_pair_priority (unat (2 ^ 31 :: u32)) 1"
    by (simp add: pair_priority_of_def rfc_pair_priority_def)
  moreover have "unat (c_priority (ice_compute_candidate_priority own)) < 2 ^ 31"
    unfolding candidate_priority_formula[OF assms(5,6)] by (cases "c_type own") simp_all
  ultimately show ?thesis
    using pair_priority_formula[OF assms(1,2)] candidate_priority_formula[OF assms(5,6)] assms(3,4)
    by (simp add: pair_priority_by_role)
qed

definition demo_candidate :: "IceCandidateType \<Rightarrow> nat \<Rightarrow> u16 \<Rightarrow> int \<Rightarrow> IceCandidate" where
  "demo_candidate ty a cid port = ice_compute_candidate_priority \<lparr>c_foundation = ''1'', c_taddr = \<lparr>ta_ip = ''10.0.0.1'', ta_port = port\<rparr>,
     c_type = ty, c_priority = 0, c_componentID = cid, c_base = Some a, c_is_default = False\<rparr>"

definition demo_cand :: "nat \<Rightarrow> IceCandidate" where
  "demo_cand = (\<lambda>a. [demo_candidate ICT_HostCandidate 0 1 7078, demo_candidate ICT_ServerReflexiveCandidate 0 1 7078,
     demo_candidate ICT_HostCandidate 2 2 7079, demo_candidate ICT_HostCandidate 3 1 9078, demo_candidate ICT_RelayedCandidate 4 2 9079] ! a)"

definition demo_pair :: "nat \<Rightarrow> nat \<Rightarrow> IceCandidatePair" where
  "demo_pair l r = \<lparr>p_local = l, p_remote = r, p_state = ICP_Frozen, p_priority = 0, p_transmission_time = no_time,
      p_rto = ICE_DEFAULT_RTO_DURATION, p_retransmissions = 0, p_role = IR_Controlling,
      p_is_default = False, p_use_candidate = False, p_is_nominated = False, p_wait_transaction_timeout = False\<rparr>"

theorem pair_priority_agreed_witness:
  "unat (p_priority (ice_compute_pair_priority demo_cand IR_Controlling (demo_pair 0 3))) = 2 ^ 32 * 2130706431 + 2 * 2130706431
    \<and> p_priority (ice_compute_pair_priority demo_cand IR_Controlled (demo_pair 3 0))
       = p_priority (ice_compute_pair_priority demo_cand IR_Controlling (demo_pair 0 3))"
proof -
  have "unat (c_priority (demo_cand 0)) = 2130706431" "unat (c_priority (demo_cand 3)) = 2130706431"
      "unat (c_componentID (demo_cand 0)) = 1"
    by (simp_all add: demo_cand_def demo_candidate_def ice_compute_candidate_priority_def)
  then show ?thesis using pair_priority_agreed[of demo_cand "demo_pair 0 3" "demo_pair 3 0" "demo_cand 0"]
    by (simp add: demo_pair_def rfc_pair_priority_def)
qed

text \<open>The elimination of redundant candidates ends for every list; it leaves no two candidates with the same transport address and
  base, in their order, and each eliminated candidate has a survivor with its address and base and at least its priority.\<close>

theorem redundant_candidates_eliminated:
  assumes "distinct (cl_local_candidates (cls w c))" "cl_state (cls w c) = ICL_Running"
  shows "let ys = cl_local_candidates (cls (ice_check_list_eliminate_redundant_candidates c w) c) in
    subseq ys (cl_local_candidates (cls w c)) \<and> (\<forall>a\<in>set ys. \<forall>b\<in>set ys. \<not> redundant (cand w) a b)
    \<and> (\<forall>x\<in>set (cl_local_candidates (cls w c)). \<exists>y\<in>set ys. same_place (cand w) y x \<and> c_priority (cand w x) \<le> c_priority (cand w y))"
  using eliminate_redundant_facts[OF assms(1), of "cand w"] assms(2)
  by (simp add: ice_check_list_eliminate_redundant_candidates_def)

definition demo_ice :: ice where
  "demo_ice = \<lparr>ses = ice_session_init 5 ''uf'' ''pw'' \<lparr>s_streams := [0]\<rparr>,
     cls = (\<lambda>_. ice_check_list_init\<lparr>cl_local_candidates := [1, 0, 2], cl_remote_candidates := [3, 4]\<rparr>),
     cand = demo_cand, pair = (\<lambda>_. demo_pair 0 0), cand_brk = 5, pair_brk = 0, outputs = [], tr_supply = of_nat, tr_count = 0\<rparr>"

theorem redundant_candidates_eliminated_witness:
  "let ys = cl_local_candidates (cls (ice_check_list_eliminate_redundant_candidates 0 demo_ice) 0) in
    subseq ys [1, 0, 2] \<and> (\<forall>a\<in>set ys. \<forall>b\<in>set ys. \<not> redundant demo_cand a b)
    \<and> (\<forall>x\<in>set [1, 0, 2]. \<exists>y\<in>set ys. same_place demo_cand y x \<and> c_priority (demo_cand x) \<le> c_priority (demo_cand y))"
  using redundant_candidates_eliminated[of demo_ice 0] by (simp add: demo_ice_def ice_check_list_init_def)

text \<open>After the foundations of a new check list have been computed, two local candidates have the same foundation exactly when
  they are of the same type and their bases have the same IP address.\<close>

theorem foundations_tell_candidates_apart:
  assumes "cl_state (cls w c) = ICL_Running" "distinct (cl_local_candidates (cls w c))"
    and "\<forall>a\<in>set (cl_local_candidates (cls w c)). c_foundation (cand w a) = []"
    and "unat (cl_foundation_generator (cls w c)) + length (cl_local_candidates (cls w c)) < 2 ^ 32"
    and "a \<in> set (cl_local_candidates (cls w c))" "b \<in> set (cl_local_candidates (cls w c))"
  shows "c_foundation (cand (ice_check_list_compute_candidates_foundations c w) a)
          = c_foundation (cand (ice_check_list_compute_candidates_foundations c w) b)
         \<longleftrightarrow> a = b \<or> same_foundation (cand w) a b"
proof -
  have "founded (cand w) c (unat (cl_foundation_generator (cls w c))) [] w"
    using assms(3) by (simp add: founded_def same_but_foundations_def)
  from founded_fold[OF this, of "cl_local_candidates (cls w c)"] assms obtain g' where
      "founded (cand w) c g' (cl_local_candidates (cls w c)) (ice_check_list_compute_candidates_foundations c w)"
    by (auto simp: ice_check_list_compute_candidates_foundations_def)
  then show ?thesis using assms(5,6) by (simp add: founded_def)
qed

definition demo_unfounded :: ice where
  "demo_unfounded = demo_ice\<lparr>cand := (\<lambda>a. (demo_cand a)\<lparr>c_foundation := []\<rparr>)\<rparr>"

theorem foundations_tell_candidates_apart_witness:
  "c_foundation (cand (ice_check_list_compute_candidates_foundations 0 demo_unfounded) 0)
     = c_foundation (cand (ice_check_list_compute_candidates_foundations 0 demo_unfounded) 2)
   \<and> c_foundation (cand (ice_check_list_compute_candidates_foundations 0 demo_unfounded) 0)
     \<noteq> c_foundation (cand (ice_check_list_compute_candidates_foundations 0 demo_unfounded) 1)"
proof -
  have h: "cl_local_candidates (cls demo_unfounded 0) = [1, 0, 2]" "cl_state (cls demo_unfounded 0) = ICL_Running"
      "cl_foundation_generator (cls demo_unfounded 0) = 1" "\<And>a. c_foundation (cand demo_unfounded a) = []"
    by (simp_all add: demo_unfounded_def demo_ice_def ice_check_list_init_def)
  have "same_foundation (cand demo_unfounded) 0 2" "\<not> same_foundation (cand demo_unfounded) 0 1"
    by (simp_all add: same_foundation_def demo_unfounded_def demo_cand_def demo_candidate_def ice_compute_candidate_priority_def)
  then show ?thesis
    using foundations_tell_candidates_apart[of demo_unfounded 0 0 2] foundations_tell_candidates_apart[of demo_unfounded 0 0 1] h
    by simp
qed

text \<open>C35: starting the checks of a session with one new check list pairs every local candidate with every remote one of its
  component, replaces server reflexive candidates by their bases and leaves, for every such pair, one that is equal to it and of
  at least its priority; the check list is sorted by decreasing priority without repetitions, and of every foundation exactly the
  first pair in that order is Waiting, all others are Frozen. The one other outcome, for more pairs than the limit, is the use of
  a freed list link.\<close>

theorem connectivity_checks_start:
  assumes f: "fresh_list c w" and s: "s_streams (ses w) = [c]"
    and cid: "\<forall>a. c_componentID (cand w a) \<noteq> 0" and len: "\<forall>a. length (c_foundation (cand w a)) \<le> 31"
  shows "(case ice_session_start_connectivity_checks w of
      None \<Rightarrow> unat (s_max_connectivity_checks (ses w)) < length (pairs_left c w)
    | Some w' \<Rightarrow> s_state (ses w') = IS_Running \<and> (\<exists>w1. good_check_list c w w1 \<and> cls w' = cls w1 \<and> cand w' = cand w1
        \<and> (\<forall>p\<in>set (cl_check_list (cls w' c)). pair w' p = (pair w1 p)\<lparr>p_state :=
            (if find (\<lambda>q. pair_foundation w1 q = pair_foundation w1 p) (cl_check_list (cls w' c)) = Some p
             then ICP_Waiting else ICP_Frozen)\<rparr>)))"
proof (cases "ice_check_list_pair_candidates c w")
  case None
  then show ?thesis using pair_candidates_is[OF f] f s
    by (simp add: ice_session_start_connectivity_checks_def ice_session_pair_candidates_def fresh_list_def)
next
  case (Some w1)
  let ?C = "cl_check_list (cls w1 c)"
  have g: "good_check_list c w w1" "\<forall>p\<in>set ?C. p_state (pair w1 p) = ICP_Frozen"
    using pair_candidates_is[OF f] Some by simp_all
  have c1: "cand w1 = cand w"
    using Some f prune_is[OF f] by (auto simp: ice_check_list_pair_candidates_def fresh_list_def split: if_splits)
  have st: "ice_session_start_connectivity_checks w
      = Some ((ice_compute_pairs_states c w1)\<lparr>ses := (ses (ice_compute_pairs_states c w1))\<lparr>s_state := IS_Running\<rparr>\<rparr>)"
    using Some f s by (simp add: ice_session_start_connectivity_checks_def ice_session_pair_candidates_def fresh_list_def)
  have fs: "set (cl_foundations (cls w1 c)) = pair_foundation w1 ` set ?C"
    using g(1) len by (simp add: good_check_list_def Let_def pair_foundation_def c1)
  have sf: "ice_compute_pairs_states c w1 = w1\<lparr>pair := (\<lambda>i. if \<exists>f\<in>set (cl_foundations (cls w1 c)). find (\<lambda>p. pair_foundation w1 p = f) ?C = Some i
         then (pair w1 i)\<lparr>p_state := ICP_Waiting\<rparr> else pair w1 i)\<rparr>"
    unfolding ice_compute_pairs_states_def using g(1) cid by (intro states_fold) (auto simp: good_check_list_def Let_def c1)
  have "(\<exists>f\<in>set (cl_foundations (cls w1 c)). find (\<lambda>q. pair_foundation w1 q = f) ?C = Some p)
      \<longleftrightarrow> find (\<lambda>q. pair_foundation w1 q = pair_foundation w1 p) ?C = Some p" if p: "p \<in> set ?C" for p
  proof
    assume "\<exists>f\<in>set (cl_foundations (cls w1 c)). find (\<lambda>q. pair_foundation w1 q = f) ?C = Some p"
    then obtain f where "find (\<lambda>q. pair_foundation w1 q = f) ?C = Some p" by blast
    moreover from this have "pair_foundation w1 p = f" by (auto simp: find_Some_iff)
    ultimately show "find (\<lambda>q. pair_foundation w1 q = pair_foundation w1 p) ?C = Some p" by simp
  qed (use fs p in blast)
  then have "\<forall>p\<in>set ?C. pair (ice_compute_pairs_states c w1) p = (pair w1 p)\<lparr>p_state :=
            (if find (\<lambda>q. pair_foundation w1 q = pair_foundation w1 p) ?C = Some p then ICP_Waiting else ICP_Frozen)\<rparr>"
    using g(2) by (simp add: sf)
  moreover have "cls (ice_compute_pairs_states c w1) = cls w1" "cand (ice_compute_pairs_states c w1) = cand w1"
    by (simp_all add: sf)
  ultimately show ?thesis unfolding st by (simp del: find_Some_iff) (use g(1) in blast)
qed

theorem connectivity_checks_start_witness:
  "(case ice_session_start_connectivity_checks (demo_ice\<lparr>cand := (\<lambda>a. demo_cand (a mod 5))\<rparr>) of
      None \<Rightarrow> 100 < length (pairs_left 0 (demo_ice\<lparr>cand := (\<lambda>a. demo_cand (a mod 5))\<rparr>))
    | Some w' \<Rightarrow> s_state (ses w') = IS_Running)"
proof -
  let ?w = "demo_ice\<lparr>cand := (\<lambda>a. demo_cand (a mod 5))\<rparr>"
  have all: "c_componentID (demo_cand k) \<noteq> 0 \<and> c_foundation (demo_cand k) = ''1'' \<and> c_base (demo_cand k) \<noteq> None" if "k < 5" for k
  proof -
    from that have "k \<in> {0, 1, 2, 3, 4}" by auto
    then show ?thesis by (auto simp: demo_cand_def demo_candidate_def ice_compute_candidate_priority_def)
  qed
  have "\<forall>a. c_componentID (cand ?w a) \<noteq> 0" "\<forall>a. length (c_foundation (cand ?w a)) \<le> 31"
      "\<forall>a. c_base (cand ?w a) \<noteq> None" using all[of "a mod 5" for a] by simp_all
  moreover have "fresh_list 0 ?w" using \<open>\<forall>a. c_base (cand ?w a) \<noteq> None\<close>
    by (simp add: fresh_list_def demo_ice_def ice_check_list_init_def)
  moreover have "s_streams (ses ?w) = [0]" "unat (s_max_connectivity_checks (ses ?w)) = 100"
    by (simp_all add: demo_ice_def ice_session_init_def ICE_MAX_NB_CANDIDATE_PAIRS_def ICE_MAX_NB_CANDIDATES_def)
  ultimately show ?thesis using connectivity_checks_start[of 0 ?w] by (auto split: option.splits)
qed

end
