(* ===== verification/Ice_Check.thy ===== *)
theory Ice_Check
  imports Ice_List
begin

text \<open>
  The running ICE agent (\<open>ice.c\<close>): sending checks and their retransmission, the handling of binding requests, responses and
  error responses, nomination, the conclusion of a check list, losing pairs, restart and the periodic processing. A handler is a
  function of the memory \<open>ice\<close>, the packet and the current time; the messages and events it sends are appended to
  \<open>outputs\<close>. \<open>None\<close> is a fault, or the search for an unused random foundation that does not end.
\<close>

section \<open>Time and credentials\<close>

definition s32_of :: "int \<Rightarrow> int" where
  "s32_of i = (i + 2 ^ 31) mod 2 ^ 32 - 2 ^ 31"

definition ice_add_ms :: "MSTimeSpec \<Rightarrow> u32 \<Rightarrow> MSTimeSpec" where
  "ice_add_ms orig ms = (if ms = 0 then orig
     else \<lparr>tv_sec = tv_sec orig + uint (ms div 1000), tv_nsec = tv_nsec orig + uint ((ms mod 1000) * 1000000)\<rparr>)"

text \<open>The difference in milliseconds is computed with 64 bits and stored in 32.\<close>

definition ice_compare_time :: "MSTimeSpec \<Rightarrow> MSTimeSpec \<Rightarrow> int" where
  "ice_compare_time ts1 ts2 = (let ms = s32_of ((tv_sec ts1 - tv_sec ts2) * 1000)
     in s32_of (ms + c_div (tv_nsec ts1 - tv_nsec ts2) 1000000))"

definition ice_set_credentials :: "string \<Rightarrow> string \<Rightarrow> string \<times> string" where
  "ice_set_credentials ufrag_str pwd_str = (take ICE_MAX_UFRAG_LEN ufrag_str, take ICE_MAX_PWD_LEN pwd_str)"

definition ice_session_set_local_credentials :: "string \<Rightarrow> string \<Rightarrow> ice \<Rightarrow> ice" where
  "ice_session_set_local_credentials u p w = (let (u', p') = ice_set_credentials u p in
     w\<lparr>ses := (ses w)\<lparr>s_local_ufrag := u', s_local_pwd := p'\<rparr>\<rparr>)"

definition ice_session_set_remote_credentials :: "string \<Rightarrow> string \<Rightarrow> ice \<Rightarrow> ice" where
  "ice_session_set_remote_credentials u p w = (let (u', p') = ice_set_credentials u p in
     w\<lparr>ses := (ses w)\<lparr>s_remote_ufrag := Some u', s_remote_pwd := Some p'\<rparr>\<rparr>)"

definition ice_check_list_set_remote_credentials :: "nat \<Rightarrow> string \<Rightarrow> string \<Rightarrow> ice \<Rightarrow> ice" where
  "ice_check_list_set_remote_credentials c u p w = (let (u', p') = ice_set_credentials u p in
     upd_cl c (\<lambda>cl. cl\<lparr>cl_remote_ufrag := Some u', cl_remote_pwd := Some p'\<rparr>) w)"

definition differs :: "string \<Rightarrow> string \<Rightarrow> bool" where
  "differs a b \<longleftrightarrow> length a \<noteq> length b \<or> a \<noteq> b"

definition ice_session_remote_credentials_changed :: "string \<Rightarrow> string \<Rightarrow> ice \<Rightarrow> bool" where
  "ice_session_remote_credentials_changed u p w = (case (s_remote_ufrag (ses w), s_remote_pwd (ses w)) of
     (Some ou, Some op) \<Rightarrow> differs u ou \<or> differs p op | _ \<Rightarrow> True)"

text \<open>Credentials missing in the check list are those of the session; when those are missing too, NULL is dereferenced.\<close>

definition ice_check_list_remote_credentials_changed :: "nat \<Rightarrow> string \<Rightarrow> string \<Rightarrow> ice \<Rightarrow> bool option" where
  "ice_check_list_remote_credentials_changed c u p w = (case (cl_remote_ufrag (cls w c), cl_remote_pwd (cls w c)) of
       (Some ou, Some op) \<Rightarrow> Some (differs u ou \<or> differs p op)
     | (ou, op) \<Rightarrow> do {
         old_ufrag \<leftarrow> (case ou of None \<Rightarrow> s_remote_ufrag (ses w) | Some x \<Rightarrow> Some x);
         if differs u old_ufrag then Some True
         else do {
           old_pwd \<leftarrow> (case op of None \<Rightarrow> s_remote_pwd (ses w) | Some x \<Rightarrow> Some x);
           Some (differs p old_pwd) } })"

definition ice_check_list_remote_ufrag :: "nat \<Rightarrow> ice \<Rightarrow> string option" where
  "ice_check_list_remote_ufrag c w = (case cl_remote_ufrag (cls w c) of Some u \<Rightarrow> Some u | None \<Rightarrow> s_remote_ufrag (ses w))"

definition ice_check_list_remote_pwd :: "nat \<Rightarrow> ice \<Rightarrow> string option" where
  "ice_check_list_remote_pwd c w = (case cl_remote_pwd (cls w c) of Some u \<Rightarrow> Some u | None \<Rightarrow> s_remote_pwd (ses w))"

definition ice_session_set_keepalive_timeout :: "u8 \<Rightarrow> ice \<Rightarrow> ice" where
  "ice_session_set_keepalive_timeout timeout w = w\<lparr>ses := (ses w)\<lparr>s_keepalive_timeout :=
     (if timeout < ICE_DEFAULT_KEEPALIVE_TIMEOUT then ICE_DEFAULT_KEEPALIVE_TIMEOUT else timeout)\<rparr>\<rparr>"

definition ice_session_set_max_connectivity_checks :: "u8 \<Rightarrow> ice \<Rightarrow> ice" where
  "ice_session_set_max_connectivity_checks n w = w\<lparr>ses := (ses w)\<lparr>s_max_connectivity_checks := n\<rparr>\<rparr>"

definition ice_check_list_set_rtp_session :: "nat \<Rightarrow> ice_ports \<Rightarrow> ice \<Rightarrow> ice" where
  "ice_check_list_set_rtp_session c rs w = upd_cl c (\<lambda>cl. cl\<lparr>cl_rtp_session := Some rs\<rparr>) w"

definition ice_session_has_completed_check_list :: "ice \<Rightarrow> bool" where
  "ice_session_has_completed_check_list w \<longleftrightarrow> find (\<lambda>c. cl_state (cls w c) = ICL_Completed) (s_streams (ses w)) \<noteq> None"

text \<open>The round trips to the STUN server: the number of responses and the sum of their times.\<close>

definition ice_transaction_sum_gathering_round_trip_time :: "IceStunServerCheckTransaction \<Rightarrow> int \<times> int \<Rightarrow> int \<times> int" where
  "ice_transaction_sum_gathering_round_trip_time t = (\<lambda>(nb, s). if tv_sec (st_response_time t) \<noteq> 0 \<and> tv_nsec (st_response_time t) \<noteq> 0
     then (nb + 1, s + ice_compare_time (st_response_time t) (st_request_time t)) else (nb, s))"

definition ice_stun_server_check_sum_gathering_round_trip_time :: "IceStunServerCheck \<Rightarrow> int \<times> int \<Rightarrow> int \<times> int" where
  "ice_stun_server_check_sum_gathering_round_trip_time k = fold ice_transaction_sum_gathering_round_trip_time (k_transactions k)"

definition ice_session_average_gathering_round_trip_time :: "ice \<Rightarrow> int" where
  "ice_session_average_gathering_round_trip_time w = (
     if tv_sec (s_gathering_start_ts (ses w)) = -1 \<or> tv_sec (s_gathering_end_ts (ses w)) = -1 then -1
     else let (nb, s) = fold (\<lambda>c. fold ice_stun_server_check_sum_gathering_round_trip_time (cl_stun_server_checks (cls w c))) (s_streams (ses w)) (0, 0)
       in if nb = 0 then -1 else c_div s nb)"

section \<open>Valid pairs\<close>

definition nominated_for :: "ice \<Rightarrow> u16 \<Rightarrow> IceValidCandidatePair \<Rightarrow> bool" where
  "nominated_for w cid v \<longleftrightarrow> p_is_nominated (pair w (v_valid v)) \<and> c_componentID (cand w (p_local (pair w (v_valid v)))) = cid"

definition selected_for :: "ice \<Rightarrow> u16 \<Rightarrow> IceValidCandidatePair \<Rightarrow> bool" where
  "selected_for w cid v \<longleftrightarrow> v_selected v \<and> c_componentID (cand w (p_local (pair w (v_valid v)))) = cid"

definition use_candidate_for :: "ice \<Rightarrow> u16 \<Rightarrow> IceValidCandidatePair \<Rightarrow> bool" where
  "use_candidate_for w cid v \<longleftrightarrow> p_use_candidate (pair w (v_generated_from v))
     \<and> c_componentID (cand w (p_local (pair w (v_generated_from v)))) = cid"

definition all_components :: "(IceValidCandidatePair \<Rightarrow> bool) list \<Rightarrow> IceValidCandidatePair list \<Rightarrow> bool" where
  "all_components ps vs \<longleftrightarrow> list_all (\<lambda>p. find p vs \<noteq> None) ps"

definition ice_check_list_default_local_candidate :: "nat \<Rightarrow> ice \<Rightarrow> IceTransportAddress option \<times> IceTransportAddress option" where
  "ice_check_list_default_local_candidate c w = (let dflt = \<lambda>cid :: u16. map_option (\<lambda>a. c_taddr (cand w a))
       (find (\<lambda>a. c_componentID (cand w a) = cid \<and> c_is_default (cand w a)) (cl_local_candidates (cls w c)))
     in (dflt 1, dflt 2))"

definition ice_check_list_selected_valid_local_candidate :: "nat \<Rightarrow> ice \<Rightarrow> IceTransportAddress option \<times> IceTransportAddress option" where
  "ice_check_list_selected_valid_local_candidate c w = (let sel = \<lambda>cid :: u16. map_option (\<lambda>v. c_taddr (cand w (p_local (pair w (v_valid v)))))
       (find (selected_for w cid) (cl_valid_list (cls w c)))
     in (sel 1, sel 2))"

definition ice_check_list_selected_valid_remote_candidate :: "nat \<Rightarrow> ice \<Rightarrow> IceTransportAddress option \<times> IceTransportAddress option" where
  "ice_check_list_selected_valid_remote_candidate c w = (let sel = \<lambda>cid :: u16. map_option (\<lambda>v. c_taddr (cand w (p_remote (pair w (v_valid v)))))
       (find (selected_for w cid) (cl_valid_list (cls w c)))
     in (sel 1, sel 2))"

definition ice_check_list_selected_valid_candidate_type :: "nat \<Rightarrow> ice \<Rightarrow> IceCandidateType" where
  "ice_check_list_selected_valid_candidate_type c w = (case find (selected_for w 1) (cl_valid_list (cls w c)) of
     None \<Rightarrow> ICT_RelayedCandidate | Some v \<Rightarrow> c_type (cand w (p_remote (pair w (v_valid v)))))"

fun select_first :: "(IceValidCandidatePair \<Rightarrow> bool) \<Rightarrow> IceValidCandidatePair list \<Rightarrow> IceValidCandidatePair list" where
  "select_first P [] = []"
| "select_first P (v # vs) = (if P v then v\<lparr>v_selected := True\<rparr> # vs else v # select_first P vs)"

definition ice_check_list_unselect_valid_pairs :: "nat \<Rightarrow> ice \<Rightarrow> ice" where
  "ice_check_list_unselect_valid_pairs c w = upd_cl c (\<lambda>cl. cl\<lparr>cl_valid_list := map (\<lambda>v. v\<lparr>v_selected := False\<rparr>) (cl_valid_list cl)\<rparr>) w"

definition ice_check_list_select_candidates :: "nat \<Rightarrow> ice \<Rightarrow> ice" where
  "ice_check_list_select_candidates c w = (if cl_state (cls w c) \<noteq> ICL_Completed then w
     else upd_cl c (\<lambda>cl. cl\<lparr>cl_valid_list := select_first (nominated_for w 2) (select_first (nominated_for w 1)
            (map (\<lambda>v. v\<lparr>v_selected := False\<rparr>) (cl_valid_list cl)))\<rparr>) w)"

definition ice_session_select_candidates :: "ice \<Rightarrow> ice" where
  "ice_session_select_candidates w = fold ice_check_list_select_candidates (s_streams (ses w)) w"

definition ice_check_list_set_state :: "nat \<Rightarrow> IceCheckListState \<Rightarrow> ice \<Rightarrow> ice" where
  "ice_check_list_set_state c st w = (if cl_state (cls w c) \<noteq> st then
     (let w1 = upd_cl c (\<lambda>cl. cl\<lparr>cl_state := st\<rparr>) w
      in if find (\<lambda>d. cl_state (cls w1 d) = ICL_Running) (s_streams (ses w1)) = None
         then w1\<lparr>ses := (ses w1)\<lparr>s_state := (if find (\<lambda>d. cl_state (cls w1 d) = ICL_Failed) (s_streams (ses w1)) \<noteq> None
                then IS_Failed else IS_Completed)\<rparr>\<rparr>
         else w1)
     else w)"

definition ice_check_list_check_completed :: "nat \<Rightarrow> ice \<Rightarrow> ice" where
  "ice_check_list_check_completed c w = (if cl_state (cls w c) \<noteq> ICL_Completed
       \<and> all_components (map (selected_for w) (cl_local_componentIDs (cls w c))) (cl_valid_list (cls w c))
     then ice_check_list_set_state c ICL_Completed w else w)"

definition ice_session_nb_losing_pairs :: "ice \<Rightarrow> nat" where
  "ice_session_nb_losing_pairs w = sum_list (map (\<lambda>c. length (cl_losing_pairs (cls w c))) (s_streams (ses w)))"

text \<open>The pairs that the result accessors take the addresses of: the first nominated valid pair of each local component.\<close>

definition ice_get_valid_pairs :: "nat \<Rightarrow> ice \<Rightarrow> nat list" where
  "ice_get_valid_pairs c w = List.map_filter (\<lambda>cid. map_option v_valid (find (nominated_for w cid) (cl_valid_list (cls w c))))
     (cl_local_componentIDs (cls w c))"

definition ice_get_remote_addr_and_ports_from_valid_pairs :: "nat \<Rightarrow> ice \<Rightarrow> IceTransportAddress option \<times> IceTransportAddress option" where
  "ice_get_remote_addr_and_ports_from_valid_pairs c w = fold (\<lambda>p (rtp, rtcp).
     (let a = c_taddr (cand w (p_remote (pair w p))); cid = c_componentID (cand w (p_local (pair w p)))
      in if cid = 1 then (Some a, rtcp) else if cid = 2 then (rtp, Some a) else (rtp, rtcp))) (ice_get_valid_pairs c w) (None, None)"

definition ice_get_local_addr_and_ports_from_valid_pairs :: "nat \<Rightarrow> ice \<Rightarrow> IceTransportAddress option \<times> IceTransportAddress option" where
  "ice_get_local_addr_and_ports_from_valid_pairs c w = fold (\<lambda>p (rtp, rtcp).
     (let a = c_taddr (cand w (p_local (pair w p))); cid = c_componentID (cand w (p_local (pair w p)))
      in if cid = 1 then (Some a, rtcp) else if cid = 2 then (rtp, Some a) else (rtp, rtcp))) (ice_get_valid_pairs c w) (None, None)"

section \<open>Triggered checks and nomination\<close>

definition ice_check_list_queue_triggered_check :: "nat \<Rightarrow> nat \<Rightarrow> ice \<Rightarrow> ice" where
  "ice_check_list_queue_triggered_check c p w = (case find (\<lambda>q. q = p) (cl_triggered_checks_queue (cls w c)) of
     Some _ \<Rightarrow> w
   | None \<Rightarrow> upd_cl c (\<lambda>cl. cl\<lparr>cl_triggered_checks_queue := cl_triggered_checks_queue cl @ [p]\<rparr>) w)"

definition ice_check_list_pop_triggered_check :: "nat \<Rightarrow> ice \<Rightarrow> nat option \<times> ice" where
  "ice_check_list_pop_triggered_check c w = (case cl_triggered_checks_queue (cls w c) of
     [] \<Rightarrow> (None, w)
   | p # ps \<Rightarrow> (Some p, upd_cl c (\<lambda>cl. cl\<lparr>cl_triggered_checks_queue := ps\<rparr>) w))"

definition ice_check_list_is_frozen :: "nat \<Rightarrow> ice \<Rightarrow> bool" where
  "ice_check_list_is_frozen c w \<longleftrightarrow> find (\<lambda>p. p_state (pair w p) \<noteq> ICP_Frozen) (cl_check_list (cls w c)) = None"

definition ice_perform_regular_nomination :: "MSTimeSpec \<Rightarrow> nat \<Rightarrow> IceValidCandidatePair \<Rightarrow> ice \<Rightarrow> ice" where
  "ice_perform_regular_nomination now c v w = (
     let g = v_generated_from v;
         nominate = \<lambda>w'. ice_check_list_queue_triggered_check c g
            (upd_pair g (p_use_candidate_update (\<lambda>_. True)) (upd_cl c (cl_nomination_delay_running_update (\<lambda>_. False)) w'))
     in if p_use_candidate (pair w g) then w
        else if find (use_candidate_for w (c_componentID (cand w (p_local (pair w g))))) (cl_valid_list (cls w c)) \<noteq> None then w
        else if c_type (cand w (p_remote (pair w (v_valid v)))) = ICT_RelayedCandidate then
          (if \<not> cl_nomination_delay_running (cls w c)
           then upd_cl c (\<lambda>cl. cl\<lparr>cl_nomination_delay_running := True, cl_nomination_delay_start_time := now\<rparr>) w
           else if ICE_NOMINATION_DELAY \<le> ice_compare_time now (cl_nomination_delay_start_time (cls w c)) then nominate w
           else w)
        else nominate w)"

text \<open>\<open>kept\<close> are the links in front of the position: when the first link of the list is removed the loop ends.\<close>

fun remove_waiting_loop :: "(nat \<Rightarrow> bool) \<Rightarrow> nat list \<Rightarrow> nat list \<Rightarrow> nat list" where
  "remove_waiting_loop P kept [] = kept"
| "remove_waiting_loop P kept (p # ps) = (if P p
     then (if ps \<noteq> [] \<and> kept \<noteq> [] then remove_waiting_loop P kept ps else kept @ ps)
     else remove_waiting_loop P (kept @ [p]) ps)"

definition waiting_or_frozen :: "ice \<Rightarrow> u16 \<Rightarrow> nat \<Rightarrow> bool" where
  "waiting_or_frozen w cid p \<longleftrightarrow> (p_state (pair w p) = ICP_Waiting \<or> p_state (pair w p) = ICP_Frozen)
     \<and> c_componentID (cand w (p_local (pair w p))) = cid"

definition ice_remove_waiting_and_frozen_pairs_from_list :: "ice \<Rightarrow> u16 \<Rightarrow> nat list \<Rightarrow> nat list" where
  "ice_remove_waiting_and_frozen_pairs_from_list w cid ps = remove_waiting_loop (waiting_or_frozen w cid) [] ps"

definition ice_stop_retransmission_for_in_progress_pair :: "u16 \<Rightarrow> nat \<Rightarrow> ice \<Rightarrow> ice" where
  "ice_stop_retransmission_for_in_progress_pair cid p w =
     (if p_state (pair w p) = ICP_InProgress \<and> c_componentID (cand w (p_local (pair w p))) = cid
      then upd_pair p (p_retransmissions_update (\<lambda>_. ICE_MAX_RETRANSMISSIONS)) w else w)"

definition ice_conclude_waiting_frozen_and_inprogress_pairs :: "nat \<Rightarrow> IceValidCandidatePair \<Rightarrow> ice \<Rightarrow> ice" where
  "ice_conclude_waiting_frozen_and_inprogress_pairs c v w = (if p_is_nominated (pair w (v_valid v)) then
     (let cid = c_componentID (cand w (p_local (pair w (v_valid v))));
          w1 = upd_cl c (\<lambda>cl. cl\<lparr>cl_check_list := ice_remove_waiting_and_frozen_pairs_from_list w cid (cl_check_list cl),
                 cl_triggered_checks_queue := ice_remove_waiting_and_frozen_pairs_from_list w cid (cl_triggered_checks_queue cl)\<rparr>) w
      in fold (ice_stop_retransmission_for_in_progress_pair cid) (cl_check_list (cls w1 c)) w1)
     else w)"

definition ice_pair_stop_retransmissions :: "nat \<Rightarrow> nat \<Rightarrow> ice \<Rightarrow> ice" where
  "ice_pair_stop_retransmissions c p w = (if p_state (pair w p) = ICP_InProgress
     then upd_cl c (\<lambda>cl. cl\<lparr>cl_triggered_checks_queue := remove1 p (cl_triggered_checks_queue cl)\<rparr>) (ice_pair_set_state p ICP_Failed w)
     else w)"

definition ice_check_list_stop_retransmissions :: "nat \<Rightarrow> ice \<Rightarrow> ice" where
  "ice_check_list_stop_retransmissions c w = fold (ice_pair_stop_retransmissions c) (cl_check_list (cls w c)) w"

definition ICE_SESSION_PROCESSING_FINISHED :: int where "ICE_SESSION_PROCESSING_FINISHED = 9"
definition ICE_RESTART_NEEDED :: int where "ICE_RESTART_NEEDED = 12"

definition schedule_event :: "MSTimeSpec \<Rightarrow> int \<Rightarrow> ice \<Rightarrow> ice" where
  "schedule_event now v w = w\<lparr>ses := (ses w)\<lparr>s_event_time := ice_add_ms now 1000, s_event_value := v, s_send_event := True\<rparr>\<rparr>"

definition ice_continue_processing_on_next_check_list :: "MSTimeSpec \<Rightarrow> nat \<Rightarrow> ice \<Rightarrow> ice" where
  "ice_continue_processing_on_next_check_list now c w = (if find (\<lambda>d. d = c) (s_streams (ses w)) = None then w
     else (case find (\<lambda>d. cl_state (cls w d) = ICL_Running) (s_streams (ses w)) of
         None \<Rightarrow> schedule_event now ICE_SESSION_PROCESSING_FINISHED (w\<lparr>ses := (ses w)\<lparr>s_state :=
             (if find (\<lambda>d. cl_state (cls w d) \<noteq> ICL_Completed) (s_streams (ses w)) = None then IS_Completed else IS_Failed)\<rparr>\<rparr>)
       | Some d \<Rightarrow> ice_compute_pairs_states d w))"

definition emit :: "ice_output \<Rightarrow> ice \<Rightarrow> ice" where
  "emit x w = w\<lparr>outputs := outputs w @ [x]\<rparr>"

definition ice_conclude_processing :: "MSTimeSpec \<Rightarrow> nat \<Rightarrow> ice \<Rightarrow> ice" where
  "ice_conclude_processing now c w = (if cl_state (cls w c) \<noteq> ICL_Running then w else
     let w1 = (if s_role (ses w) = IR_Controlling
               then fold (ice_perform_regular_nomination now c) (cl_valid_list (cls w c)) w else w);
         w2 = fold (ice_conclude_waiting_frozen_and_inprogress_pairs c) (cl_valid_list (cls w1 c)) w1
     in if all_components (map (nominated_for w2) (cl_local_componentIDs (cls w2 c))) (cl_valid_list (cls w2 c)) then
          (if cl_losing_pairs (cls w2 c) = [] then
             (let w3 = upd_cl c (\<lambda>cl. cl\<lparr>cl_state := ICL_Completed, cl_nomination_delay_running := False, cl_keepalive_time := now\<rparr>) w2;
                  w4 = ice_check_list_stop_retransmissions c w3
              in ice_continue_processing_on_next_check_list now c (emit (Check_List_Processing_Finished True) w4))
           else w2)
        else if list_all (\<lambda>p. p_state (pair w2 p) = ICP_Failed \<or> p_state (pair w2 p) = ICP_Succeeded) (cl_check_list (cls w2 c)) then
          ice_continue_processing_on_next_check_list now c (emit (Check_List_Processing_Finished False)
            (upd_cl c (\<lambda>cl. cl\<lparr>cl_state := ICL_Failed\<rparr>) w2))
        else w2)"

section \<open>Messages\<close>

datatype stun_type = Stun_Request | Stun_Success | Stun_Error | Stun_Indication | Stun_Other

text \<open>What the handlers read of a parsed STUN message (\<open>StunMessage\<close> of \<open>stun.h\<close>); the texts are characters.\<close>

record IceStunView =
  msgType :: stun_type
  tr_id :: "96 word"
  hasMessageIntegrity :: bool
  hasUsername :: bool
  username :: string
  hasFingerprint :: bool
  hasPriority :: bool
  msg_priority :: u32
  hasUseCandidate :: bool
  hasIceControlling :: bool
  iceControlling :: u64
  hasIceControlled :: bool
  iceControlled :: u64
  hasXorMappedAddress :: bool
  xorMappedAddress :: "u32 \<times> u16"
  hasMappedAddress :: bool
  mappedAddress :: "u32 \<times> u16"
  hasErrorCode :: bool
  errorClass :: nat
  errorNumber :: nat

datatype ice_socket = OrtpRTPSocket | OrtpRTCPSocket | Other_Socket

text \<open>The packet around the message: the socket it came from, the address it was sent to, its source, its time of arrival;
  \<open>e_hmac_ok\<close> says whether its hash is the HMAC of the packet under a password, \<open>e_host\<close> is the resolution of host
  names, \<open>e_random\<close> the random foundations.\<close>

record OrtpEventData =
  e_socket :: ice_socket
  e_local_addr :: u32
  e_remote_addr :: u32
  e_remote_port :: u16
  e_ts :: MSTimeSpec
  e_hmac_ok :: "string \<Rightarrow> bool"
  e_host :: "string \<Rightarrow> u32"
  e_random :: "nat \<Rightarrow> string"

text \<open>The dotted form of an IPv4 address, as \<open>getnameinfo\<close> writes it.\<close>

definition octet :: "u32 \<Rightarrow> nat \<Rightarrow> string" where
  "octet a k = show_nat (unat (drop_bit k a AND 255))"

definition ice_inet_ntoa :: "u32 \<Rightarrow> string" where
  "ice_inet_ntoa a = octet a 24 @ ''.'' @ octet a 16 @ ''.'' @ octet a 8 @ ''.'' @ octet a 0"

definition ice_get_componentID_from_rtp_session :: "OrtpEventData \<Rightarrow> int" where
  "ice_get_componentID_from_rtp_session e = (case e_socket e of OrtpRTPSocket \<Rightarrow> 1 | OrtpRTCPSocket \<Rightarrow> 2 | Other_Socket \<Rightarrow> - 1)"

definition ice_get_socket_from_rtp_session :: "ice_ports \<Rightarrow> OrtpEventData \<Rightarrow> int" where
  "ice_get_socket_from_rtp_session rs e = (case e_socket e of OrtpRTPSocket \<Rightarrow> rtp_socket rs | OrtpRTCPSocket \<Rightarrow> rtcp_socket rs | Other_Socket \<Rightarrow> - 1)"

definition ice_get_recv_port_from_rtp_session :: "ice_ports \<Rightarrow> OrtpEventData \<Rightarrow> int" where
  "ice_get_recv_port_from_rtp_session rs e = (case e_socket e of OrtpRTPSocket \<Rightarrow> loc_port rs | OrtpRTCPSocket \<Rightarrow> loc_port rs + 1 | Other_Socket \<Rightarrow> - 1)"

definition ice_send_binding_response :: "ice_ports \<Rightarrow> OrtpEventData \<Rightarrow> IceStunView \<Rightarrow> ice \<Rightarrow> ice" where
  "ice_send_binding_response rs e msg w = (if ice_get_socket_from_rtp_session rs e < 0 then w
     else emit (Binding_Response (tr_id msg) (username msg)) w)"

definition ice_send_error_response :: "ice_ports \<Rightarrow> OrtpEventData \<Rightarrow> IceStunView \<Rightarrow> nat \<Rightarrow> nat \<Rightarrow> ice \<Rightarrow> ice" where
  "ice_send_error_response rs e msg err_class err_num w = (if ice_get_socket_from_rtp_session rs e < 0 then w
     else emit (Error_Response (tr_id msg) err_class err_num) w)"

definition ice_send_indication :: "nat \<Rightarrow> ice \<Rightarrow> ice" where
  "ice_send_indication p w = (let cid = c_componentID (cand w (p_local (pair w p)))
     in if cid = 1 \<or> cid = 2 then emit (Indication p) w else w)"

definition ice_send_keepalive_packets :: "nat \<Rightarrow> ice \<Rightarrow> ice" where
  "ice_send_keepalive_packets c w = fold (\<lambda>cid w'. (case find (selected_for w' cid) (cl_valid_list (cls w' c)) of
     None \<Rightarrow> w' | Some v \<Rightarrow> ice_send_indication (v_valid v) w')) (cl_local_componentIDs (cls w c)) w"

section \<open>Sending a check\<close>

definition ice_create_transaction :: "nat \<Rightarrow> nat \<Rightarrow> 96 word \<Rightarrow> ice \<Rightarrow> ice" where
  "ice_create_transaction c p tid w =
     upd_cl c (\<lambda>cl. cl\<lparr>cl_transaction_list := \<lparr>t_transactionID = tid, t_pair = p\<rparr> # cl_transaction_list cl\<rparr>) w"

definition ice_find_transaction :: "nat \<Rightarrow> nat \<Rightarrow> ice \<Rightarrow> IceTransaction option" where
  "ice_find_transaction c p w = find (\<lambda>t. t_pair t = p) (cl_transaction_list (cls w c))"

definition request_of :: "nat \<Rightarrow> 96 word \<Rightarrow> ice \<Rightarrow> ice_output" where
  "request_of p tid w = Binding_Request p
     ((c_priority (cand w (p_local (pair w p))) AND 0x00ffffff) OR push_bit 24 (ucast (type_preference_values ICT_PeerReflexiveCandidate)))
     (s_role (ses w) = IR_Controlling \<and> p_use_candidate (pair w p)) (s_role (ses w)) (s_tie_breaker (ses w)) tid"

text \<open>The part behind the checks for a retransmission: the request is built (which takes a new random identifier), sent, and for
  a first transmission the timer is set up. Encoding the message does not fail.\<close>

definition transmit :: "MSTimeSpec \<Rightarrow> nat \<Rightarrow> nat \<Rightarrow> 96 word \<Rightarrow> ice \<Rightarrow> ice" where
  "transmit now c p old_id w = (
     let w1 = upd_pair p (p_transmission_time_update (\<lambda>_. now)) w; cid = c_componentID (cand w (p_local (pair w p)))
     in if cid \<noteq> 1 \<and> cid \<noteq> 2 then w1
        else let tid = tr_supply w1 (tr_count w1); w2 = w1\<lparr>tr_count := tr_count w1 + 1\<rparr>
          in if p_state (pair w2 p) = ICP_InProgress then emit (request_of p old_id w2) w2
             else let w3 = emit (request_of p tid w2) (ice_create_transaction c p tid w2)
               in ice_pair_set_state p ICP_InProgress
                    (upd_pair p (\<lambda>pr. pr\<lparr>p_rto := ICE_DEFAULT_RTO_DURATION, p_retransmissions := 0, p_role := s_role (ses w3)\<rparr>) w3))"

definition ice_send_binding_request :: "MSTimeSpec \<Rightarrow> nat \<Rightarrow> nat \<Rightarrow> ice \<Rightarrow> ice" where
  "ice_send_binding_request now c p w = (case p_state (pair w p) of
     ICP_InProgress \<Rightarrow> (case ice_find_transaction c p w of
         None \<Rightarrow> w
       | Some t \<Rightarrow>
          if p_wait_transaction_timeout (pair w p) then
            (let w1 = upd_pair p (p_wait_transaction_timeout_update (\<lambda>_. False)) w
             in if \<not> p_use_candidate (pair w1 p) then ice_check_list_queue_triggered_check c p (ice_pair_set_state p ICP_Waiting w1) else w1)
          else
            (let w1 = upd_pair p (\<lambda>pr. pr\<lparr>p_retransmissions := p_retransmissions pr + 1\<rparr>) w
             in if ICE_MAX_RETRANSMISSIONS < p_retransmissions (pair w1 p) then ice_pair_set_state p ICP_Failed w1
                else transmit now c p (t_transactionID t) (upd_pair p (\<lambda>pr. pr\<lparr>p_rto := push_bit 1 (p_rto pr)\<rparr>) w1)))
   | _ \<Rightarrow> transmit now c p 0 w)"

section \<open>Receiving a binding request\<close>

text \<open>A check of a request that was received: \<open>False\<close> ends its handling.\<close>

definition ice_check_received_binding_request_attributes :: "ice_ports \<Rightarrow> OrtpEventData \<Rightarrow> IceStunView \<Rightarrow> ice \<Rightarrow> bool \<times> ice" where
  "ice_check_received_binding_request_attributes rs e msg w = (
     if \<not> hasMessageIntegrity msg \<or> \<not> hasUsername msg \<or> \<not> hasFingerprint msg \<or> \<not> hasPriority msg
        \<or> (\<not> hasIceControlling msg \<and> \<not> hasIceControlled msg)
     then (False, ice_send_error_response rs e msg 4 0 w) else (True, w))"

definition ice_check_received_binding_request_integrity :: "ice_ports \<Rightarrow> OrtpEventData \<Rightarrow> IceStunView \<Rightarrow> ice \<Rightarrow> bool \<times> ice" where
  "ice_check_received_binding_request_integrity rs e msg w =
     (if e_hmac_ok e (s_local_pwd (ses w)) then (True, w) else (False, ice_send_error_response rs e msg 4 1 w))"

text \<open>\<open>strncmp\<close> on the characters in front of the colon.\<close>

definition strncmp_eq :: "string \<Rightarrow> string \<Rightarrow> nat \<Rightarrow> bool" where
  "strncmp_eq a b n \<longleftrightarrow> take n a = take n b"

text \<open>The username is copied into 256 zero bytes and searched as a C string; \<open>None\<close> is a copy behind their end, or a search
  that finds neither the colon nor a zero in them.\<close>

definition c_string :: "string \<Rightarrow> string" where
  "c_string s = takeWhile (\<lambda>x. x \<noteq> CHR 0x00) s"

definition ice_check_received_binding_request_username :: "ice_ports \<Rightarrow> OrtpEventData \<Rightarrow> IceStunView \<Rightarrow> ice \<Rightarrow> (bool \<times> ice) option" where
  "ice_check_received_binding_request_username rs e msg w = (let u = c_string (username msg) in
     if 256 < length (username msg) \<or> (length u = 256 \<and> CHR '':'' \<notin> set u) then None
     else if CHR '':'' \<in> set u \<and> strncmp_eq u (s_local_ufrag (ses w)) (length (takeWhile (\<lambda>x. x \<noteq> CHR '':'') u))
     then Some (True, w) else Some (False, ice_send_error_response rs e msg 4 1 w))"

definition ice_check_received_binding_request_role_conflict :: "ice_ports \<Rightarrow> OrtpEventData \<Rightarrow> IceStunView \<Rightarrow> ice \<Rightarrow> bool \<times> ice" where
  "ice_check_received_binding_request_role_conflict rs e msg w = (
     if s_role (ses w) = IR_Controlling \<and> hasIceControlling msg then
       (if iceControlling msg \<le> s_tie_breaker (ses w) then (False, ice_send_error_response rs e msg 4 87 w)
        else (True, ice_session_set_role IR_Controlled w))
     else if s_role (ses w) = IR_Controlled \<and> hasIceControlled msg then
       (if iceControlled msg \<le> s_tie_breaker (ses w) then (True, ice_session_set_role IR_Controlling w)
        else (False, ice_send_error_response rs e msg 4 87 w))
     else (True, w))"

definition ice_fill_transport_address :: "string \<Rightarrow> int \<Rightarrow> IceTransportAddress" where
  "ice_fill_transport_address ip port = \<lparr>ta_ip = take 64 ip, ta_port = port\<rparr>"

definition find_address :: "ice \<Rightarrow> IceTransportAddress \<Rightarrow> nat list \<Rightarrow> nat option" where
  "find_address w ta xs = find (\<lambda>a. \<not> ice_compare_transport_addresses (c_taddr (cand w a)) ta) xs"

partial_function (option) ice_generate_arbitrary_foundation :: "(nat \<Rightarrow> string) \<Rightarrow> nat \<Rightarrow> string list \<Rightarrow> string option" where
  "ice_generate_arbitrary_foundation rnd i used = (if rnd i \<in> set used then ice_generate_arbitrary_foundation rnd (i + 1) used else Some (rnd i))"

declare ice_generate_arbitrary_foundation.simps [code]

definition ice_learn_peer_reflexive_candidate :: "nat \<Rightarrow> OrtpEventData \<Rightarrow> IceStunView \<Rightarrow> IceTransportAddress \<Rightarrow> ice \<Rightarrow> (nat option \<times> ice) option" where
  "ice_learn_peer_reflexive_candidate c e msg ta w = (
     let componentID = ice_get_componentID_from_rtp_session e
     in if componentID < 0 then Some (None, w)
        else if find_address w ta (cl_remote_candidates (cls w c)) \<noteq> None then Some (None, w)
        else do {
          f \<leftarrow> ice_generate_arbitrary_foundation (e_random e) 0 (map (\<lambda>a. c_foundation (cand w a)) (cl_remote_candidates (cls w c)));
          ice_add_remote_candidate c ''prflx'' (ta_ip ta) (ta_port ta) (word_of_int componentID) (msg_priority msg) f False w })"

definition find_pair :: "ice \<Rightarrow> nat \<Rightarrow> nat \<Rightarrow> nat list \<Rightarrow> nat option" where
  "find_pair w l r ps = find (\<lambda>p. p_local (pair w p) = l \<and> p_remote (pair w p) = r) ps"

text \<open>The pair of the two candidates, made if there is none.\<close>

definition pair_for :: "nat \<Rightarrow> nat \<Rightarrow> nat \<Rightarrow> ice \<Rightarrow> nat \<times> ice" where
  "pair_for c l r w = (case find_pair w l r (cl_pairs (cls w c)) of
     Some p \<Rightarrow> (p, w)
   | None \<Rightarrow> (let (p, w1) = ice_pair_new l r w in (p, upd_cl c (\<lambda>cl. cl\<lparr>cl_pairs := cl_pairs cl @ [p]\<rparr>) w1)))"

definition insert_check :: "nat \<Rightarrow> nat \<Rightarrow> ice \<Rightarrow> ice" where
  "insert_check c p w = (case find (\<lambda>q. q = p) (cl_check_list (cls w c)) of
     Some _ \<Rightarrow> w
   | None \<Rightarrow> upd_cl c (\<lambda>cl. cl\<lparr>cl_check_list := ms_insort (pair_leq (pair w)) p (cl_check_list cl)\<rparr>) w)"

definition trigger_known :: "nat \<Rightarrow> nat \<Rightarrow> ice \<Rightarrow> ice" where
  "trigger_known c p w = (case p_state (pair w p) of
       ICP_InProgress \<Rightarrow> upd_pair p (p_wait_transaction_timeout_update (\<lambda>_. True)) w
     | ICP_Succeeded \<Rightarrow> w
     | _ \<Rightarrow> ice_check_list_queue_triggered_check c p (ice_pair_set_state p ICP_Waiting w))"

definition ice_trigger_connectivity_check_on_binding_request ::
    "nat \<Rightarrow> ice_ports \<Rightarrow> OrtpEventData \<Rightarrow> nat option \<Rightarrow> IceTransportAddress \<Rightarrow> ice \<Rightarrow> nat option \<times> ice" where
  "ice_trigger_connectivity_check_on_binding_request c rs e prflx remote_ta w = (
     let recvport = ice_get_recv_port_from_rtp_session rs e
     in if recvport < 0 then (None, w)
        else (case find_address w (ice_fill_transport_address (ice_inet_ntoa (e_local_addr e)) recvport) (cl_local_candidates (cls w c)) of
            None \<Rightarrow> (None, w)
          | Some l \<Rightarrow> (case (case prflx of Some r \<Rightarrow> Some r | None \<Rightarrow> find_address w remote_ta (cl_remote_candidates (cls w c))) of
              None \<Rightarrow> (None, w)
            | Some r \<Rightarrow> (case find_pair w l r (cl_check_list (cls w c)) of
                None \<Rightarrow> (let (p, w1) = pair_for c l r w
                  in (Some p, ice_check_list_queue_triggered_check c p (ice_pair_set_state p ICP_Waiting (insert_check c p w1))))
              | Some p \<Rightarrow> (Some p, trigger_known c p w)))))"

definition ice_update_nominated_flag_on_binding_request :: "IceStunView \<Rightarrow> nat \<Rightarrow> ice \<Rightarrow> ice" where
  "ice_update_nominated_flag_on_binding_request msg p w = (if hasUseCandidate msg \<and> s_role (ses w) = IR_Controlled
       \<and> p_state (pair w p) = ICP_Succeeded
     then upd_pair p (p_is_nominated_update (\<lambda>_. True)) w else w)"

definition ice_handle_received_binding_request :: "MSTimeSpec \<Rightarrow> nat \<Rightarrow> ice_ports \<Rightarrow> OrtpEventData \<Rightarrow> IceStunView \<Rightarrow> ice \<Rightarrow> ice option" where
  "ice_handle_received_binding_request now c rs e msg w = (
     let (ok1, w1) = ice_check_received_binding_request_attributes rs e msg w in if \<not> ok1 then Some w1 else
     let (ok2, w2) = ice_check_received_binding_request_integrity rs e msg w1 in if \<not> ok2 then Some w2 else
     do { (ok3, w3) \<leftarrow> ice_check_received_binding_request_username rs e msg w2; if \<not> ok3 then Some w3 else
     let (ok4, w4) = ice_check_received_binding_request_role_conflict rs e msg w3 in if \<not> ok4 then Some w4 else do {
       let ta = ice_fill_transport_address (ice_inet_ntoa (e_remote_addr e)) (uint (e_remote_port e));
       (prflx, w5) \<leftarrow> ice_learn_peer_reflexive_candidate c e msg ta w4;
       let (p, w6) = ice_trigger_connectivity_check_on_binding_request c rs e prflx ta w5;
       let w7 = (case p of None \<Rightarrow> w6 | Some p \<Rightarrow> ice_update_nominated_flag_on_binding_request msg p w6);
       Some (ice_conclude_processing now c (ice_send_binding_response rs e msg w7)) } })"

section \<open>Gathering candidates from a STUN server\<close>

definition ice_session_candidates_gathered :: "ice \<Rightarrow> bool" where
  "ice_session_candidates_gathered w \<longleftrightarrow> list_all (\<lambda>c. cl_gathering_finished (cls w c)) (s_streams (ses w))"

definition new_stun_check :: "int \<Rightarrow> int \<Rightarrow> MSTimeSpec \<Rightarrow> IceStunServerCheck" where
  "new_stun_check sock port time = \<lparr>k_sock = sock, k_srcport = port, k_transactions = [], k_next_transmission_time = time, k_responded = False\<rparr>"

text \<open>The index counts the check lists that gather, to spread their requests over time.\<close>

definition ice_check_list_gather_candidates :: "MSTimeSpec \<Rightarrow> nat \<Rightarrow> ice \<times> u32 \<Rightarrow> ice \<times> u32" where
  "ice_check_list_gather_candidates now c = (\<lambda>(w, index). (case cl_rtp_session (cls w c) of
       None \<Rightarrow> (w, index)
     | Some rs \<Rightarrow>
        if cl_gathering_candidates (cls w c) \<or> cl_state (cls w c) = ICL_Completed \<or> cl_gathering_finished (cls w c) then (w, index)
        else (let first = (if 0 < rtp_socket rs then [new_stun_check (rtp_socket rs) (loc_port rs)
                    (ice_add_ms now (if index = 0 then ICE_DEFAULT_RTO_DURATION else 2 * index * ICE_DEFAULT_TA_DURATION))] else []);
                  second = (if 0 < rtcp_socket rs then [new_stun_check (rtcp_socket rs) (loc_port rs + 1)
                    (ice_add_ms now (2 * index * ICE_DEFAULT_TA_DURATION + ICE_DEFAULT_TA_DURATION))] else [])
              in (upd_cl c (\<lambda>cl. cl\<lparr>cl_gathering_candidates := True, cl_gathering_start_time := now,
                    cl_stun_server_checks := cl_stun_server_checks cl @ first @ second\<rparr>) w, index + 1))))"

text \<open>With no check list in the session the notification goes through a NULL pointer.\<close>

definition ice_session_gather_candidates :: "MSTimeSpec \<Rightarrow> u32 \<times> u16 \<Rightarrow> ice \<Rightarrow> ice option" where
  "ice_session_gather_candidates now server w = (
     let w1 = w\<lparr>ses := (ses w)\<lparr>s_ss := server, s_gathering_start_ts := now\<rparr>\<rparr>
     in if list_ex (\<lambda>c. \<not> cl_gathering_finished (cls w1 c)) (s_streams (ses w1))
        then Some (fst (fold (ice_check_list_gather_candidates now) (s_streams (ses w1)) (w1, 0)))
        else if s_streams (ses w1) = [] then None
        else Some (emit (Gathering_Finished True) (w1\<lparr>ses := (ses w1)\<lparr>s_gathering_end_ts := now\<rparr>\<rparr>)))"

definition ice_send_stun_server_binding_request :: "MSTimeSpec \<Rightarrow> IceStunServerCheck \<Rightarrow> ice \<Rightarrow> IceStunServerCheck \<times> ice" where
  "ice_send_stun_server_binding_request now k w = (let tid = tr_supply w (tr_count w) in
     (k\<lparr>k_transactions := k_transactions k @ [\<lparr>st_transactionID = tid, st_request_time = now, st_response_time = no_time\<rparr>]\<rparr>,
      emit (Stun_Server_Request (k_sock k) tid) (w\<lparr>tr_count := tr_count w + 1\<rparr>)))"

definition ice_send_stun_server_checks :: "MSTimeSpec \<Rightarrow> IceStunServerCheck \<Rightarrow> ice \<Rightarrow> IceStunServerCheck \<times> ice" where
  "ice_send_stun_server_checks now k w = (if 0 \<le> ice_compare_time now (k_next_transmission_time k)
       \<and> length (k_transactions k) < ICE_MAX_STUN_REQUEST_RETRANSMISSIONS
     then ice_send_stun_server_binding_request now
            (k\<lparr>k_next_transmission_time := ice_add_ms now (ICE_DEFAULT_RTO_DURATION * 2 ^ length (k_transactions k))\<rparr>) w
     else (k, w))"

fun send_stun_checks :: "MSTimeSpec \<Rightarrow> IceStunServerCheck list \<Rightarrow> ice \<Rightarrow> IceStunServerCheck list \<times> ice" where
  "send_stun_checks now [] w = ([], w)"
| "send_stun_checks now (k # ks) w = (let (k', w1) = ice_send_stun_server_checks now k w;
     (ks', w2) = send_stun_checks now ks w1 in (k' # ks', w2))"

definition ice_check_gathering_timeout :: "MSTimeSpec \<Rightarrow> ice \<Rightarrow> bool \<times> ice" where
  "ice_check_gathering_timeout now w = (if list_ex (\<lambda>c. cl_gathering_candidates (cls w c)
         \<and> ICE_GATHERING_CANDIDATES_TIMEOUT \<le> ice_compare_time now (cl_gathering_start_time (cls w c))) (s_streams (ses w))
     then (True, emit (Gathering_Finished False) (fold (\<lambda>c. upd_cl c (\<lambda>cl. cl\<lparr>cl_gathering_candidates := False,
            cl_gathering_finished := True\<rparr>)) (s_streams (ses w)) w))
     else (False, w))"

definition ice_parse_stun_server_binding_response :: "IceStunView \<Rightarrow> (string \<times> int) option" where
  "ice_parse_stun_server_binding_response msg = (
     if hasXorMappedAddress msg then Some (ice_inet_ntoa (fst (xorMappedAddress msg)), uint (snd (xorMappedAddress msg)))
     else if hasMappedAddress msg then Some (ice_inet_ntoa (fst (mappedAddress msg)), uint (snd (mappedAddress msg)))
     else None)"

fun update_first :: "('a \<Rightarrow> bool) \<Rightarrow> ('a \<Rightarrow> 'a) \<Rightarrow> 'a list \<Rightarrow> 'a list" where
  "update_first P f [] = []"
| "update_first P f (x # xs) = (if P x then f x # xs else x # update_first P f xs)"

text \<open>The part of the response handler for answers of the STUN server: whether the handler ends here, and the memory.\<close>

definition stun_server_response :: "nat \<Rightarrow> ice_ports \<Rightarrow> OrtpEventData \<Rightarrow> IceStunView \<Rightarrow> ice \<Rightarrow> (bool \<times> ice) option" where
  "stun_server_response c rs e msg w = (
     let sock = ice_get_socket_from_rtp_session rs e; has = \<lambda>t. st_transactionID t = tr_id msg
     in do {
       (hit, w1) \<leftarrow> (case find (\<lambda>k. k_sock k = sock) (cl_stun_server_checks (cls w c)) of
           None \<Rightarrow> Some (False, w)
         | Some k \<Rightarrow> (if find has (k_transactions k) = None then Some (False, w)
             else (case ice_parse_stun_server_binding_response msg of
                 Some (addr, port) \<Rightarrow> if ice_get_componentID_from_rtp_session e \<le> 0 then Some (True, w) else do {
                     let cid = word_of_int (ice_get_componentID_from_rtp_session e);
                     w' \<leftarrow> (case find (\<lambda>a. c_type (cand w a) = ICT_HostCandidate \<and> c_componentID (cand w a) = cid) (cl_local_candidates (cls w c)) of
                         None \<Rightarrow> Some w
                       | Some b \<Rightarrow> map_option snd (ice_add_local_candidate c ''srflx'' addr port cid (Some b) w));
                     Some (True, upd_cl c (\<lambda>cl. cl\<lparr>cl_stun_server_checks := update_first (\<lambda>k. k_sock k = sock)
                        (\<lambda>k. k\<lparr>k_transactions := update_first has (\<lambda>t. t\<lparr>st_response_time := e_ts e\<rparr>) (k_transactions k), k_responded := True\<rparr>)
                        (cl_stun_server_checks cl)\<rparr>) w') }
               | None \<Rightarrow> Some (True, w))));
       let w2 = (if list_all k_responded (cl_stun_server_checks (cls w1 c)) then
           (let w' = upd_cl c (\<lambda>cl. cl\<lparr>cl_gathering_candidates := False, cl_gathering_finished := True\<rparr>) w1
            in if list_ex (\<lambda>d. cl_gathering_candidates (cls w' d)) (s_streams (ses w')) then w'
               else emit (Gathering_Finished True) (w'\<lparr>ses := (ses w')\<lparr>s_gathering_end_ts := e_ts e\<rparr>\<rparr>))
         else w1);
       Some (hit, w2) })"

section \<open>Receiving a binding response\<close>

definition ice_check_received_binding_response_addresses :: "ice_ports \<Rightarrow> OrtpEventData \<Rightarrow> nat \<Rightarrow> ice \<Rightarrow> bool \<times> ice" where
  "ice_check_received_binding_response_addresses rs e p w = (
     let recvport = ice_get_recv_port_from_rtp_session rs e;
         l = c_taddr (cand w (p_local (pair w p))); r = c_taddr (cand w (p_remote (pair w p)))
     in if recvport < 0 then (False, w)
        else if e_remote_addr e \<noteq> e_host e (ta_ip r) \<or> e_remote_port e \<noteq> word_of_int (ta_port r)
             \<or> e_local_addr e \<noteq> e_host e (ta_ip l) \<or> uint (word_of_int recvport :: u16) \<noteq> ta_port l
        then (False, ice_pair_set_state p ICP_Failed w) else (True, w))"

definition ice_check_received_binding_response_attributes :: "IceStunView \<Rightarrow> bool" where
  "ice_check_received_binding_response_attributes msg \<longleftrightarrow> hasUsername msg \<and> hasFingerprint msg \<and> hasXorMappedAddress msg"

text \<open>When the candidate cannot be added, NULL is passed on and dereferenced.\<close>

definition ice_discover_peer_reflexive_candidate :: "nat \<Rightarrow> nat \<Rightarrow> IceStunView \<Rightarrow> ice \<Rightarrow> (nat \<times> ice) option" where
  "ice_discover_peer_reflexive_candidate c p msg w = (
     let ta = \<lparr>ta_ip = ice_inet_ntoa (fst (xorMappedAddress msg)), ta_port = uint (snd (xorMappedAddress msg))\<rparr>
     in (case find_address w ta (cl_local_candidates (cls w c)) of
           Some a \<Rightarrow> Some (a, w)
         | None \<Rightarrow> do {
             (r, w1) \<leftarrow> ice_add_local_candidate c ''prflx'' (ta_ip ta) (ta_port ta)
                (c_componentID (cand w (p_local (pair w p)))) (Some (p_local (pair w p))) w;
             a \<leftarrow> r;
             Some (a, ice_compute_candidate_foundation a c w1) }))"

definition valid_leq :: "(nat \<Rightarrow> IceCandidatePair) \<Rightarrow> IceValidCandidatePair \<Rightarrow> IceValidCandidatePair \<Rightarrow> bool" where
  "valid_leq pr v1 v2 \<longleftrightarrow> pair_leq pr (v_valid v1) (v_valid v2)"

definition ice_construct_valid_pair :: "nat \<Rightarrow> nat \<Rightarrow> nat \<Rightarrow> ice \<Rightarrow> nat \<times> ice" where
  "ice_construct_valid_pair c a g w = (
     let r = p_remote (pair w g);
         (p, w1) = (case find_pair w a r (cl_check_list (cls w c)) of
            Some p \<Rightarrow> (p, w)
          | None \<Rightarrow> (let (p, w') = ice_pair_new a r w in (p, upd_cl c (\<lambda>cl. cl\<lparr>cl_pairs := cl_pairs cl @ [p]\<rparr>) w')))
     in if find (\<lambda>v. v_valid v = p \<and> v_generated_from v = g) (cl_valid_list (cls w1 c)) \<noteq> None then (p, w1)
        else (let losing = find_pair w1 a r (cl_losing_pairs (cls w1 c));
                  v = \<lparr>v_valid = p, v_generated_from = g, v_selected = (losing \<noteq> None)\<rparr>;
                  w2 = upd_cl c (\<lambda>cl. cl\<lparr>cl_valid_list := ms_insort (valid_leq (pair w1)) v (cl_valid_list cl)\<rparr>) w1
              in (case losing of
                    None \<Rightarrow> (p, w2)
                  | Some q \<Rightarrow> (let w3 = upd_cl c (\<lambda>cl. cl\<lparr>cl_losing_pairs := remove1 q (cl_losing_pairs cl)\<rparr>) w2
                      in (p, if ice_session_nb_losing_pairs w3 = 0
                             then emit (Losing_Pairs_Completed True) (ice_check_list_set_state c ICL_Completed w3) else w3)))))"

definition ice_compare_pair_foundations :: "ice \<Rightarrow> nat \<Rightarrow> nat \<Rightarrow> bool" where
  "ice_compare_pair_foundations w p q \<longleftrightarrow> pair_foundation w p \<noteq> pair_foundation w q"

definition ice_change_state_of_frozen_pairs_to_waiting :: "nat \<Rightarrow> nat \<Rightarrow> ice \<Rightarrow> ice" where
  "ice_change_state_of_frozen_pairs_to_waiting g p w = (if p \<noteq> g \<and> p_state (pair w p) = ICP_Frozen \<and> \<not> ice_compare_pair_foundations w p g
     then ice_pair_set_state p ICP_Waiting w else w)"

definition ice_update_pair_states_on_binding_response :: "nat \<Rightarrow> nat \<Rightarrow> ice \<Rightarrow> ice" where
  "ice_update_pair_states_on_binding_response c g w =
     fold (ice_change_state_of_frozen_pairs_to_waiting g) (cl_check_list (cls w c)) (ice_pair_set_state g ICP_Succeeded w)"

definition ice_update_nominated_flag_on_binding_response :: "nat \<Rightarrow> nat \<Rightarrow> IceCandidatePairState \<Rightarrow> ice \<Rightarrow> ice" where
  "ice_update_nominated_flag_on_binding_response v g prev w = (
     if (case s_role (ses w) of IR_Controlling \<Rightarrow> p_use_candidate (pair w g) | IR_Controlled \<Rightarrow> prev = ICP_InProgress)
     then upd_pair v (p_is_nominated_update (\<lambda>_. True)) w else w)"

definition connectivity_response :: "MSTimeSpec \<Rightarrow> nat \<Rightarrow> ice_ports \<Rightarrow> OrtpEventData \<Rightarrow> IceStunView \<Rightarrow> ice \<Rightarrow> ice option" where
  "connectivity_response now c rs e msg w = (case find (\<lambda>t. t_transactionID t = tr_id msg) (cl_transaction_list (cls w c)) of
     None \<Rightarrow> Some w
   | Some t \<Rightarrow> (let g = t_pair t; (ok, w1) = ice_check_received_binding_response_addresses rs e g w
       in if \<not> ok then Some w1
          else if \<not> ice_check_received_binding_response_attributes msg then Some w1
          else do {
            let prev = p_state (pair w1 g);
            (a, w2) \<leftarrow> ice_discover_peer_reflexive_candidate c g msg w1;
            let (v, w3) = ice_construct_valid_pair c a g w2;
            let w4 = ice_update_pair_states_on_binding_response c g w3;
            let w5 = ice_update_nominated_flag_on_binding_response v g prev w4;
            Some (ice_conclude_processing now c w5) }))"

definition ice_handle_received_binding_response :: "MSTimeSpec \<Rightarrow> nat \<Rightarrow> ice_ports \<Rightarrow> OrtpEventData \<Rightarrow> IceStunView \<Rightarrow> ice \<Rightarrow> ice option" where
  "ice_handle_received_binding_response now c rs e msg w = do {
     (hit, w1) \<leftarrow> (if cl_gathering_candidates (cls w c) \<and> e_remote_addr e = fst (s_ss (ses w)) \<and> e_remote_port e = snd (s_ss (ses w))
                  then stun_server_response c rs e msg w else Some (False, w));
     if hit then Some w1 else connectivity_response now c rs e msg w1 }"

definition ice_handle_received_error_response :: "MSTimeSpec \<Rightarrow> nat \<Rightarrow> IceStunView \<Rightarrow> ice \<Rightarrow> ice" where
  "ice_handle_received_error_response now c msg w = (case find (\<lambda>t. t_transactionID t = tr_id msg) (cl_transaction_list (cls w c)) of
     None \<Rightarrow> w
   | Some t \<Rightarrow> (let p = t_pair t; w1 = ice_pair_set_state p ICP_Failed w;
         w2 = (if hasErrorCode msg \<and> errorClass msg = 4 \<and> errorNumber msg = 87 then
             ice_check_list_queue_triggered_check c p (ice_pair_set_state p ICP_Waiting
               (ice_session_set_role (case p_role (pair w1 p) of IR_Controlling \<Rightarrow> IR_Controlled | IR_Controlled \<Rightarrow> IR_Controlling) w1))
           else w1)
       in ice_conclude_processing now c w2))"

text \<open>A parsed packet over IPv4; others are ignored before.\<close>

definition ice_handle_stun_packet :: "MSTimeSpec \<Rightarrow> nat \<Rightarrow> ice_ports \<Rightarrow> OrtpEventData \<Rightarrow> IceStunView option \<Rightarrow> ice \<Rightarrow> ice option" where
  "ice_handle_stun_packet now c rs e parsed w = (if c \<notin> set (s_streams (ses w)) then Some w else (case parsed of
     None \<Rightarrow> Some w
   | Some msg \<Rightarrow> (case msgType msg of
        Stun_Request \<Rightarrow> ice_handle_received_binding_request now c rs e msg w
      | Stun_Success \<Rightarrow> ice_handle_received_binding_response now c rs e msg w
      | Stun_Error \<Rightarrow> Some (ice_handle_received_error_response now c msg w)
      | Stun_Indication \<Rightarrow> Some w
      | Stun_Other \<Rightarrow> Some w)))"

section \<open>Losing pairs and restart\<close>

definition losing_remote_states :: "ice \<Rightarrow> nat \<Rightarrow> nat list \<Rightarrow> bool \<times> bool" where
  "losing_remote_states w r ps = (let same = filter (\<lambda>p. \<not> ice_compare_candidates (cand w (p_remote (pair w p))) (cand w r)) ps
     in (list_ex (\<lambda>p. p_state (pair w p) = ICP_InProgress) same, list_ex (\<lambda>p. p_state (pair w p) = ICP_Failed) same))"

text \<open>The pair of the two addresses: either selected, or awaited, or the reason for a restart.\<close>

definition settle_losing_pair :: "MSTimeSpec \<Rightarrow> nat \<Rightarrow> nat \<Rightarrow> ice \<Rightarrow> ice" where
  "settle_losing_pair now c p w = (if find (\<lambda>v. v_valid v = p) (cl_valid_list (cls w c)) \<noteq> None
     then upd_cl c (\<lambda>cl. cl\<lparr>cl_valid_list := update_first (\<lambda>v. v_valid v = p) (\<lambda>v. v\<lparr>v_selected := True\<rparr>) (cl_valid_list cl)\<rparr>) w
     else (let (in_progress, failed) = losing_remote_states w (p_remote (pair w p)) (cl_check_list (cls w c))
       in if \<not> in_progress \<and> failed then schedule_event now ICE_RESTART_NEEDED w
          else if in_progress \<and> p \<notin> set (cl_losing_pairs (cls w c))
          then upd_cl c (\<lambda>cl. cl\<lparr>cl_losing_pairs := cl_losing_pairs cl @ [p]\<rparr>) w else w))"

definition ice_add_losing_pair ::
    "MSTimeSpec \<Rightarrow> nat \<Rightarrow> u16 \<Rightarrow> string \<Rightarrow> int \<Rightarrow> string \<Rightarrow> int \<Rightarrow> ice \<Rightarrow> ice option" where
  "ice_add_losing_pair now c componentID local_addr local_port remote_addr remote_port w = do {
     (l, added, w1) \<leftarrow> (case find_address w \<lparr>ta_ip = take 63 local_addr, ta_port = local_port\<rparr> (cl_local_candidates (cls w c)) of
         Some a \<Rightarrow> Some (Some a, False, w)
       | None \<Rightarrow> (let known = find (\<lambda>a. ta_ip (c_taddr (cand w a)) = local_addr) (cl_remote_candidates (cls w c));
              srflx = (if known = None then None else find_type_component (cand w) ICT_ServerReflexiveCandidate componentID (cl_remote_candidates (cls w c)))
            in (case srflx of
                  None \<Rightarrow> Some (None, False, w)
                | Some s \<Rightarrow> do {
                    (r, w') \<leftarrow> ice_add_local_candidate c ''relay'' local_addr local_port componentID (Some s) w;
                    a \<leftarrow> r;
                    Some (Some a, True, ice_compute_candidate_foundation a c w') })));
     (case l of None \<Rightarrow> Some w1 | Some l \<Rightarrow>
       (case find_address w1 \<lparr>ta_ip = take 63 remote_addr, ta_port = remote_port\<rparr> (cl_remote_candidates (cls w1 c)) of
          None \<Rightarrow> Some w1
        | Some r \<Rightarrow> (let w2 = (if added then (let (p, w') = ice_pair_new l r w1 in upd_cl c (\<lambda>cl. cl\<lparr>cl_pairs := cl_pairs cl @ [p]\<rparr>) w') else w1);
               (p, w3) = pair_for c l r w2
            in Some (settle_losing_pair now c p w3)))) }"

text \<open>The memory of pairs and remote candidates is released; the local candidates stay.\<close>

definition ice_check_list_restart :: "nat \<Rightarrow> ice \<Rightarrow> ice" where
  "ice_check_list_restart c w = upd_cl c (\<lambda>cl. ice_check_list_init\<lparr>cl_rtp_session := cl_rtp_session cl,
     cl_local_candidates := cl_local_candidates cl, cl_local_componentIDs := cl_local_componentIDs cl,
     cl_foundation_generator := cl_foundation_generator cl\<rparr>) w"

definition ice_session_restart :: "u64 \<Rightarrow> string \<Rightarrow> string \<Rightarrow> ice \<Rightarrow> ice" where
  "ice_session_restart tie_breaker ufrag pwd w = fold ice_check_list_restart (s_streams (ses w))
     (w\<lparr>ses := (ses w)\<lparr>s_state := IS_Stopped, s_tie_breaker := tie_breaker, s_local_ufrag := ufrag, s_local_pwd := pwd,
        s_remote_ufrag := None, s_remote_pwd := None, s_event_time := no_time, s_send_event := False\<rparr>\<rparr>)"

section \<open>Periodic processing\<close>

definition ice_handle_connectivity_check_retransmission :: "MSTimeSpec \<Rightarrow> nat \<Rightarrow> nat \<Rightarrow> ice \<Rightarrow> ice" where
  "ice_handle_connectivity_check_retransmission now c p w = (if p_state (pair w p) = ICP_InProgress
       \<and> uint (p_rto (pair w p)) \<le> uint (word_of_int (ice_compare_time now (p_transmission_time (pair w p))) :: u32)
     then ice_send_binding_request now c p w else w)"

definition ice_check_list_retransmit_connectivity_checks :: "MSTimeSpec \<Rightarrow> nat \<Rightarrow> ice \<Rightarrow> ice" where
  "ice_check_list_retransmit_connectivity_checks now c w =
     fold (ice_handle_connectivity_check_retransmission now c) (cl_check_list (cls w c)) w"

definition ice_check_list_send_triggered_check :: "MSTimeSpec \<Rightarrow> nat \<Rightarrow> ice \<Rightarrow> nat option \<times> ice" where
  "ice_check_list_send_triggered_check now c w = (let (p, w1) = ice_check_list_pop_triggered_check c w
     in (p, case p of None \<Rightarrow> w1 | Some q \<Rightarrow> ice_send_binding_request now c q w1))"

text \<open>The timer Ta: \<open>uint32_t\<close> on one side makes the comparison unsigned.\<close>

definition ta_elapsed :: "MSTimeSpec \<Rightarrow> nat \<Rightarrow> ice \<Rightarrow> bool" where
  "ta_elapsed now c w \<longleftrightarrow> uint (s_ta (ses w)) \<le> uint (word_of_int (ice_compare_time now (cl_ta_time (cls w c))) :: u32)"

definition ordinary_check :: "MSTimeSpec \<Rightarrow> nat \<Rightarrow> ice \<Rightarrow> ice" where
  "ordinary_check now c w = (if ice_check_list_is_frozen c w then w
     else (case find (\<lambda>p. p_state (pair w p) = ICP_Waiting) (cl_check_list (cls w c)) of
         Some p \<Rightarrow> ice_send_binding_request now c p w
       | None \<Rightarrow> (case find (\<lambda>p. p_state (pair w p) = ICP_Frozen) (cl_check_list (cls w c)) of
           Some p \<Rightarrow> ice_send_binding_request now c p w
         | None \<Rightarrow> if list_ex (\<lambda>p. p_state (pair w p) = ICP_InProgress \<and> p_retransmissions (pair w p) \<le> ICE_MAX_RETRANSMISSIONS) (cl_check_list (cls w c))
             then w else ice_conclude_processing now c w)))"

definition process_checks :: "MSTimeSpec \<Rightarrow> nat \<Rightarrow> bool \<Rightarrow> ice \<Rightarrow> ice" where
  "process_checks now c running w = (let w1 = ice_check_list_retransmit_connectivity_checks now c w
     in if \<not> ta_elapsed now c w1 then w1
        else (let (p, w2) = ice_check_list_send_triggered_check now c (upd_cl c (\<lambda>cl. cl\<lparr>cl_ta_time := now\<rparr>) w1)
          in if p \<noteq> None \<or> \<not> running then w2 else ordinary_check now c w2))"

definition process_completed :: "MSTimeSpec \<Rightarrow> nat \<Rightarrow> ice \<Rightarrow> ice" where
  "process_completed now c w = process_checks now c False
     (if uint (s_keepalive_timeout (ses w)) * 1000 \<le> ice_compare_time now (cl_keepalive_time (cls w c))
      then upd_cl c (\<lambda>cl. cl\<lparr>cl_keepalive_time := now\<rparr>) (ice_send_keepalive_packets c w) else w)"

definition process_running :: "MSTimeSpec \<Rightarrow> nat \<Rightarrow> ice \<Rightarrow> ice" where
  "process_running now c w = (if cl_nomination_delay_running (cls w c)
       \<and> ICE_NOMINATION_DELAY \<le> ice_compare_time now (cl_nomination_delay_start_time (cls w c))
     then (let w1 = ice_conclude_processing now c w
           in if s_state (ses w1) = IS_Completed then w1 else process_checks now c True w1)
     else process_checks now c True w)"

definition process_gathering :: "MSTimeSpec \<Rightarrow> nat \<Rightarrow> ice \<Rightarrow> ice" where
  "process_gathering now c w = (if cl_gathering_candidates (cls w c) then
       (let (out, w1) = ice_check_gathering_timeout now w
        in if out then w1 else (let (ks, w2) = send_stun_checks now (cl_stun_server_checks (cls w1 c)) w1
             in upd_cl c (\<lambda>cl. cl\<lparr>cl_stun_server_checks := ks\<rparr>) w2))
     else w)"

definition process_event :: "MSTimeSpec \<Rightarrow> ice \<Rightarrow> ice" where
  "process_event now w = (if s_send_event (ses w) \<and> 0 \<le> ice_compare_time now (s_event_time (ses w))
     then emit (Session_Event (s_event_value (ses w)) (s_state (ses w) = IS_Completed)) (w\<lparr>ses := (ses w)\<lparr>s_send_event := False\<rparr>\<rparr>)
     else w)"

definition ice_check_list_process :: "MSTimeSpec \<Rightarrow> nat \<Rightarrow> ice \<Rightarrow> ice" where
  "ice_check_list_process now c w = (if c \<notin> set (s_streams (ses w)) then w else (
     let w1 = process_event now (process_gathering now c w)
     in if s_state (ses w1) = IS_Stopped \<or> s_state (ses w1) = IS_Failed then w1
        else (case cl_state (cls w1 c) of
            ICL_Completed \<Rightarrow> process_completed now c w1
          | ICL_Running \<Rightarrow> process_running now c w1
          | ICL_Failed \<Rightarrow> w1)))"

end
