(* ===== verification/Ice_Inv.thy ===== *)
theory Ice_Inv
  imports Ice_Check
begin

text \<open>
  An invariant of the running ICE agent: the lists of a check list name its own pairs without repetitions, at most one pair of a
  component is nominated, and, when \<open>ordered\<close> is set, the check list stays sorted up to the bit of the priority that depends on the
  role. It holds in every state that packets, errors and the passing of time lead to; the order is claimed for agents that start
  without server reflexive candidates, whose pairs would keep a priority that is not the one of their base.
\<close>

section \<open>The invariant\<close>

definition component_of :: "ice \<Rightarrow> nat \<Rightarrow> u16" where
  "component_of w p = c_componentID (cand w (p_local (pair w p)))"

definition priority_now :: "ice \<Rightarrow> nat \<Rightarrow> u64" where
  "priority_now w p = p_priority (ice_compute_pair_priority (cand w) (s_role (ses w)) (pair w p))"

definition lists_ok :: "nat \<Rightarrow> ice \<Rightarrow> bool" where
  "lists_ok c w \<longleftrightarrow> distinct (cl_pairs (cls w c)) \<and> distinct (cl_check_list (cls w c)) \<and> distinct (cl_triggered_checks_queue (cls w c))
     \<and> set (cl_check_list (cls w c)) \<subseteq> set (cl_pairs (cls w c)) \<and> set (cl_triggered_checks_queue (cls w c)) \<subseteq> set (cl_pairs (cls w c))
     \<and> set (cl_losing_pairs (cls w c)) \<subseteq> set (cl_pairs (cls w c)) \<and> t_pair ` set (cl_transaction_list (cls w c)) \<subseteq> set (cl_pairs (cls w c))
     \<and> (\<forall>v\<in>set (cl_valid_list (cls w c)). v_valid v \<in> set (cl_pairs (cls w c)) \<and> v_generated_from v \<in> set (cl_pairs (cls w c)))
     \<and> (\<forall>p\<in>set (cl_pairs (cls w c)). p < pair_brk w \<and> p_local (pair w p) < cand_brk w \<and> p_remote (pair w p) < cand_brk w)
     \<and> (\<forall>a\<in>set (cl_local_candidates (cls w c)) \<union> set (cl_remote_candidates (cls w c)). a < cand_brk w)"

definition order_ok :: "nat \<Rightarrow> ice \<Rightarrow> bool" where
  "order_ok c w \<longleftrightarrow> (\<forall>p\<in>set (cl_pairs (cls w c)). p_priority (pair w p) = priority_now w p)
     \<and> sorted_wrt (\<lambda>p q. unat (p_priority (pair w q)) div 2 \<le> unat (p_priority (pair w p)) div 2) (cl_check_list (cls w c))"

definition nominations_ok :: "nat \<Rightarrow> ice \<Rightarrow> bool" where
  "nominations_ok c w \<longleftrightarrow> (\<forall>p\<in>set (cl_pairs (cls w c)). p_use_candidate (pair w p) \<longrightarrow>
        (\<exists>v\<in>set (cl_valid_list (cls w c)). v_generated_from v = p)
      \<and> (\<forall>q\<in>set (cl_pairs (cls w c)). p_use_candidate (pair w q) \<and> component_of w p = component_of w q \<longrightarrow> p = q))"

fun nominating :: "ice_output \<Rightarrow> nat option" where
  "nominating (Binding_Request p _ use_candidate _ _ _) = (if use_candidate then Some p else None)"
| "nominating _ = None"

definition requests_ok :: "ice \<Rightarrow> bool" where
  "requests_ok w \<longleftrightarrow> (\<forall>x\<in>set (outputs w). \<forall>p. nominating x = Some p \<longrightarrow> p < pair_brk w \<and> p_use_candidate (pair w p))"

definition disjoint_lists :: "ice \<Rightarrow> bool" where
  "disjoint_lists w \<longleftrightarrow> (\<forall>c\<in>set (s_streams (ses w)). \<forall>d\<in>set (s_streams (ses w)). \<forall>p.
     p \<in> set (cl_pairs (cls w c)) \<longrightarrow> p \<in> set (cl_pairs (cls w d)) \<longrightarrow> c = d)"

definition agent_ok :: "ice \<Rightarrow> bool \<Rightarrow> bool" where
  "agent_ok w ordered \<longleftrightarrow> (\<forall>c\<in>set (s_streams (ses w)). lists_ok c w \<and> (ordered \<longrightarrow> order_ok c w) \<and> nominations_ok c w) \<and> disjoint_lists w \<and> requests_ok w"

section \<open>Steps that the invariant does not see\<close>

definition static_pair :: "IceCandidatePair \<Rightarrow> nat \<times> nat \<times> u64 \<times> bool" where
  "static_pair pr = (p_local pr, p_remote pr, p_priority pr, p_use_candidate pr)"

definition static_lists :: "IceCheckList \<Rightarrow> nat list \<times> nat list \<times> nat list \<times> nat list \<times> nat set \<times> (nat \<times> nat) set \<times> nat set" where
  "static_lists cl = (cl_pairs cl, cl_check_list cl, cl_triggered_checks_queue cl, cl_losing_pairs cl, t_pair ` set (cl_transaction_list cl),
     (\<lambda>v. (v_valid v, v_generated_from v)) ` set (cl_valid_list cl), set (cl_local_candidates cl) \<union> set (cl_remote_candidates cl))"

definition static_cand :: "IceCandidate \<Rightarrow> u32 \<times> u16" where
  "static_cand a = (c_priority a, c_componentID a)"

definition quiet :: "ice \<Rightarrow> ice \<Rightarrow> bool" where
  "quiet w w' \<longleftrightarrow> s_role (ses w') = s_role (ses w) \<and> s_streams (ses w') = s_streams (ses w)
     \<and> cand_brk w' = cand_brk w \<and> pair_brk w' = pair_brk w \<and> (\<forall>a. static_cand (cand w' a) = static_cand (cand w a))
     \<and> (\<forall>p. static_pair (pair w' p) = static_pair (pair w p)) \<and> (\<forall>c. static_lists (cls w' c) = static_lists (cls w c))
     \<and> (requests_ok w \<longrightarrow> requests_ok w')"

lemma quiet_refl [simp]: "quiet w w"
  by (simp add: quiet_def)

lemma quiet_trans: "quiet w w1 \<Longrightarrow> quiet w1 w2 \<Longrightarrow> quiet w w2"
  by (simp add: quiet_def)

lemma quiet_pairD: "quiet w w' \<Longrightarrow> p_local (pair w' p) = p_local (pair w p) \<and> p_remote (pair w' p) = p_remote (pair w p)
    \<and> p_priority (pair w' p) = p_priority (pair w p) \<and> p_use_candidate (pair w' p) = p_use_candidate (pair w p)"
  by (simp add: quiet_def static_pair_def)

lemma quiet_candD: "quiet w w' \<Longrightarrow> c_priority (cand w' a) = c_priority (cand w a) \<and> c_componentID (cand w' a) = c_componentID (cand w a)"
  by (simp add: quiet_def static_cand_def)

lemma quiet_listsD: "quiet w w' \<Longrightarrow> cl_pairs (cls w' c) = cl_pairs (cls w c) \<and> cl_check_list (cls w' c) = cl_check_list (cls w c)
    \<and> cl_triggered_checks_queue (cls w' c) = cl_triggered_checks_queue (cls w c) \<and> cl_losing_pairs (cls w' c) = cl_losing_pairs (cls w c)
    \<and> t_pair ` set (cl_transaction_list (cls w' c)) = t_pair ` set (cl_transaction_list (cls w c))
    \<and> (\<lambda>v. (v_valid v, v_generated_from v)) ` set (cl_valid_list (cls w' c)) = (\<lambda>v. (v_valid v, v_generated_from v)) ` set (cl_valid_list (cls w c))
    \<and> set (cl_local_candidates (cls w' c)) \<union> set (cl_remote_candidates (cls w' c)) = set (cl_local_candidates (cls w c)) \<union> set (cl_remote_candidates (cls w c))"
  by (simp add: quiet_def static_lists_def)

lemma quiet_sesD: "quiet w w' \<Longrightarrow> s_role (ses w') = s_role (ses w) \<and> s_streams (ses w') = s_streams (ses w)
    \<and> cand_brk w' = cand_brk w \<and> pair_brk w' = pair_brk w"
  by (simp add: quiet_def)

lemma priority_now_by_role: "priority_now w p = (case s_role (ses w) of
     IR_Controlling \<Rightarrow> pair_priority_of (c_priority (cand w (p_local (pair w p)))) (c_priority (cand w (p_remote (pair w p))))
   | IR_Controlled \<Rightarrow> pair_priority_of (c_priority (cand w (p_remote (pair w p)))) (c_priority (cand w (p_local (pair w p)))))"
  by (cases "s_role (ses w)") (simp_all add: priority_now_def pair_priority_by_role)

lemma quiet_priority_now: "quiet w w' \<Longrightarrow> priority_now w' p = priority_now w p"
  using quiet_pairD[of w w' p] quiet_candD[of w w' "p_local (pair w p)"] quiet_candD[of w w' "p_remote (pair w p)"] quiet_sesD[of w w']
  by (cases "s_role (ses w)") (simp_all add: priority_now_by_role)

lemma quiet_component: "quiet w w' \<Longrightarrow> component_of w' p = component_of w p"
  using quiet_pairD[of w w' p] quiet_candD[of w w' "p_local (pair w p)"] by (simp add: component_of_def)

lemma valid_members: "(\<forall>v\<in>set vs. v_valid v \<in> P \<and> v_generated_from v \<in> P) \<longleftrightarrow> (\<lambda>v. (v_valid v, v_generated_from v)) ` set vs \<subseteq> P \<times> P"
  "(\<exists>v\<in>set vs. v_generated_from v = p) \<longleftrightarrow> p \<in> snd ` ((\<lambda>v. (v_valid v, v_generated_from v)) ` set vs)"
  by (auto simp: image_iff)

lemma quiet_lists_ok: "quiet w w' \<Longrightarrow> lists_ok c w' = lists_ok c w"
  unfolding lists_ok_def valid_members
  using quiet_listsD[of w w' c] quiet_pairD[of w w'] quiet_sesD[of w w'] by simp

lemma quiet_order_ok: "quiet w w' \<Longrightarrow> order_ok c w' = order_ok c w"
  unfolding order_ok_def
  using quiet_listsD[of w w' c] quiet_pairD[of w w'] quiet_priority_now[of w w'] by simp

lemma quiet_nominations_ok: "quiet w w' \<Longrightarrow> nominations_ok c w' = nominations_ok c w"
  unfolding nominations_ok_def valid_members
  using quiet_listsD[of w w' c] quiet_pairD[of w w'] quiet_component[of w w'] by simp

lemma quiet_agent_ok: "quiet w w' \<Longrightarrow> agent_ok w ordered \<Longrightarrow> agent_ok w' ordered"
  using quiet_sesD[of w w'] quiet_listsD[of w w']
  by (auto simp: agent_ok_def quiet_lists_ok quiet_order_ok quiet_nominations_ok disjoint_lists_def) (simp add: quiet_def)

named_theorems quiets

lemma quiet_fold: "(\<And>x w. quiet w (f x w)) \<Longrightarrow> quiet w (fold f xs w)"
  by (induction xs arbitrary: w) (simp, metis fold_simps(2) quiet_trans)

lemma quiet_upd_pair: "(\<And>pr. static_pair (f pr) = static_pair pr) \<Longrightarrow> quiet w (upd_pair p f w)"
  by (auto simp: quiet_def requests_ok_def static_pair_def) 

lemma quiet_upd_cl: "static_lists (f (cls w c)) = static_lists (cls w c) \<Longrightarrow> quiet w (upd_cl c f w)"
  by (auto simp: quiet_def requests_ok_def)

lemma quiet_ses: "s_role s = s_role (ses w) \<Longrightarrow> s_streams s = s_streams (ses w) \<Longrightarrow> quiet w (w\<lparr>ses := s\<rparr>)"
  by (auto simp: quiet_def requests_ok_def)

lemma quiet_count: "quiet w (w\<lparr>tr_count := n\<rparr>)"
  by (auto simp: quiet_def requests_ok_def)

lemma quiet_emit: "(\<forall>p. nominating x = Some p \<longrightarrow> p < pair_brk w \<and> p_use_candidate (pair w p)) \<Longrightarrow> quiet w (emit x w)"
  by (auto simp: quiet_def requests_ok_def emit_def)

lemma quiet_pair_set_state [quiets]: "quiet w (ice_pair_set_state p s w)"
  unfolding ice_pair_set_state_def by (simp add: quiet_upd_pair static_pair_def)

lemma quiet_compute_pairs_states [quiets]: "quiet w (ice_compute_pairs_states c w)"
  unfolding ice_compute_pairs_states_def
  by (rule quiet_fold) (auto simp: ice_set_lowest_componentid_pair_with_foundation_to_waiting_state_def Let_def quiets split: option.split)

lemma quiet_schedule_event [quiets]: "quiet w (schedule_event now v w)"
  unfolding schedule_event_def by (rule quiet_ses) simp_all

lemma quiet_continue [quiets]: "quiet w (ice_continue_processing_on_next_check_list now c w)"
  unfolding ice_continue_processing_on_next_check_list_def
  by (auto split: option.split intro: quiets quiet_trans[OF quiet_ses quiet_schedule_event])

lemma quiet_stop_retransmission [quiets]: "quiet w (ice_stop_retransmission_for_in_progress_pair cid p w)"
  unfolding ice_stop_retransmission_for_in_progress_pair_def by (simp add: quiet_upd_pair static_pair_def)

lemma quiet_binding_response [quiets]: "quiet w (ice_send_binding_response rs e msg w)"
  "quiet w (ice_send_error_response rs e msg a b w)"
  unfolding ice_send_binding_response_def ice_send_error_response_def by (simp_all add: quiet_emit)

lemma quiet_keepalive [quiets]: "quiet w (ice_send_keepalive_packets c w)"
  unfolding ice_send_keepalive_packets_def
  by (rule quiet_fold) (auto simp: ice_send_indication_def Let_def quiet_emit split: option.split)

lemma quiet_set_state [quiets]: "quiet w (ice_check_list_set_state c st w)"
proof -
  have "quiet w (upd_cl c (\<lambda>cl. cl\<lparr>cl_state := st\<rparr>) w)" by (rule quiet_upd_cl) (simp add: static_lists_def)
  then show ?thesis unfolding ice_check_list_set_state_def Let_def by (auto intro: quiet_trans[OF _ quiet_ses])
qed

lemma quiet_nominated_flags [quiets]: "quiet w (ice_update_nominated_flag_on_binding_request msg p w)"
  "quiet w (ice_update_nominated_flag_on_binding_response v g b w)"
  unfolding ice_update_nominated_flag_on_binding_request_def ice_update_nominated_flag_on_binding_response_def
  by (simp_all add: quiet_upd_pair static_pair_def)

lemma quiet_pair_states [quiets]: "quiet w (ice_update_pair_states_on_binding_response c g w)"
  unfolding ice_update_pair_states_on_binding_response_def
  by (rule quiet_trans[OF quiet_pair_set_state quiet_fold]) (auto simp: ice_change_state_of_frozen_pairs_to_waiting_def quiets)

lemma quiet_send_stun: "quiet w (snd (send_stun_checks now ks w))"
proof (induction ks arbitrary: w)
  case (Cons k ks)
  have "quiet w (snd (ice_send_stun_server_checks now k w))"
    by (auto simp: ice_send_stun_server_checks_def ice_send_stun_server_binding_request_def Let_def
        intro: quiet_trans[OF quiet_count quiet_emit])
  then show ?case using Cons quiet_trans by (fastforce simp: split: prod.split)
qed simp

lemma quiet_gathering [quiets]: "quiet w (process_gathering now c w)"
proof -
  have a: "quiet w (snd (ice_check_gathering_timeout now w))"
  proof -
    have "quiet w (fold (\<lambda>c. upd_cl c (\<lambda>cl. cl\<lparr>cl_gathering_candidates := False, cl_gathering_finished := True\<rparr>)) cs w)" for cs
      by (rule quiet_fold, rule quiet_upd_cl) (simp add: static_lists_def)
    then show ?thesis by (auto simp: ice_check_gathering_timeout_def intro: quiet_trans[OF _ quiet_emit])
  qed
  have b: "quiet w' (upd_cl c (\<lambda>cl. cl\<lparr>cl_stun_server_checks := ks\<rparr>) w')" for w' ks
    by (rule quiet_upd_cl) (simp add: static_lists_def)
  show ?thesis unfolding process_gathering_def
    using a quiet_trans[OF quiet_trans[OF a quiet_send_stun] b] by (auto simp: Let_def split: prod.splits)
      (metis snd_conv quiet_trans quiet_send_stun a b)
qed

lemma quiet_process_event [quiets]: "quiet w (process_event now w)"
  unfolding process_event_def by (auto intro: quiet_trans[OF quiet_ses quiet_emit])

section \<open>Steps that change the lists\<close>

lemma agent_okD: "agent_ok w ordered \<Longrightarrow> c \<in> set (s_streams (ses w)) \<Longrightarrow> lists_ok c w \<and> (ordered \<longrightarrow> order_ok c w) \<and> nominations_ok c w"
  by (simp add: agent_ok_def)

lemma other_list: "d \<noteq> c \<Longrightarrow> lists_ok d (upd_cl c f w) = lists_ok d w" "d \<noteq> c \<Longrightarrow> order_ok d (upd_cl c f w) = order_ok d w"
  "d \<noteq> c \<Longrightarrow> nominations_ok d (upd_cl c f w) = nominations_ok d w"
  by (simp_all add: lists_ok_def order_ok_def nominations_ok_def priority_now_def component_of_def)

lemma agent_ok_upd_cl:
  assumes a: "agent_ok w ordered" "cl_pairs (f (cls w c)) = cl_pairs (cls w c)"
    and l: "lists_ok c (upd_cl c f w)" "ordered \<longrightarrow> order_ok c (upd_cl c f w)" "nominations_ok c (upd_cl c f w)"
  shows "agent_ok (upd_cl c f w) ordered"
proof -
  have "disjoint_lists (upd_cl c f w)" using a by (auto simp: agent_ok_def disjoint_lists_def)
  moreover have "requests_ok (upd_cl c f w)" using a(1) by (simp add: agent_ok_def requests_ok_def)
  moreover have "lists_ok d (upd_cl c f w) \<and> (ordered \<longrightarrow> order_ok d (upd_cl c f w)) \<and> nominations_ok d (upd_cl c f w)"
    if "d \<in> set (s_streams (ses w))" for d
    using agent_okD[OF a(1) that] l other_list[of d c w f] by (cases "d = c") auto
  ultimately show ?thesis by (simp add: agent_ok_def)
qed

lemma subseq_sorted_wrt: "subseq xs ys \<Longrightarrow> sorted_wrt P ys \<Longrightarrow> sorted_wrt P xs"
proof (induction rule: list_emb.induct)
  case (list_emb_Cons2 x y xs ys)
  then show ?case using list_emb_set[of "(=)" xs ys] by auto
qed auto

lemma subseq_set: "subseq xs ys \<Longrightarrow> set xs \<subseteq> set ys"
  by (auto dest: list_emb_set)

lemma subseq_distinct_list: "subseq xs ys \<Longrightarrow> distinct ys \<Longrightarrow> distinct xs"
proof (induction rule: list_emb.induct)
  case (list_emb_Cons2 x y xs ys)
  then show ?case using subseq_set[of xs ys] by auto
qed auto

lemma ok_queue_triggered:
  assumes a: "agent_ok w ordered" "c \<in> set (s_streams (ses w))" "p \<in> set (cl_pairs (cls w c))"
  shows "agent_ok (ice_check_list_queue_triggered_check c p w) ordered"
proof (cases "find (\<lambda>q. q = p) (cl_triggered_checks_queue (cls w c))")
  case None
  then have n: "p \<notin> set (cl_triggered_checks_queue (cls w c))" by (auto simp: find_None_iff)
  have "agent_ok (upd_cl c (\<lambda>cl. cl\<lparr>cl_triggered_checks_queue := cl_triggered_checks_queue cl @ [p]\<rparr>) w) ordered"
    using agent_okD[OF a(1,2)] a(3) n
    by (intro agent_ok_upd_cl[OF a(1)])
       (auto simp: lists_ok_def order_ok_def nominations_ok_def priority_now_def component_of_def)
  with None show ?thesis by (simp add: ice_check_list_queue_triggered_check_def)
qed (simp add: ice_check_list_queue_triggered_check_def a)

lemma ok_shrink:
  assumes a: "agent_ok w ordered" "c \<in> set (s_streams (ses w))"
    and s: "subseq xs (cl_check_list (cls w c))" "subseq ys (cl_triggered_checks_queue (cls w c))"
  shows "agent_ok (upd_cl c (\<lambda>cl. cl\<lparr>cl_check_list := xs, cl_triggered_checks_queue := ys\<rparr>) w) ordered"
  using agent_okD[OF a] subseq_set[OF s(1)] subseq_set[OF s(2)] subseq_distinct_list[OF s(1)] subseq_distinct_list[OF s(2)] subseq_sorted_wrt[OF s(1)]
  by (intro agent_ok_upd_cl[OF a(1)])
     (auto simp: lists_ok_def order_ok_def nominations_ok_def priority_now_def component_of_def)

lemma ok_transaction:
  assumes a: "agent_ok w ordered" "c \<in> set (s_streams (ses w))" "p \<in> set (cl_pairs (cls w c))"
  shows "agent_ok (ice_create_transaction c p tid w) ordered"
  unfolding ice_create_transaction_def
  using agent_okD[OF a(1,2)] a(3)
  by (intro agent_ok_upd_cl[OF a(1)]) (auto simp: lists_ok_def order_ok_def nominations_ok_def priority_now_def component_of_def)

lemma ok_insert_check:
  assumes a: "agent_ok w ordered" "c \<in> set (s_streams (ses w))" "p \<in> set (cl_pairs (cls w c))"
  shows "agent_ok (insert_check c p w) ordered"
proof (cases "find (\<lambda>q. q = p) (cl_check_list (cls w c))")
  case None
  then have n: "p \<notin> set (cl_check_list (cls w c))" by (auto simp: find_None_iff)
  have "sorted_wrt (\<lambda>p q. unat (p_priority (pair w q)) div 2 \<le> unat (p_priority (pair w p)) div 2)
      (ms_insort (pair_leq (pair w)) p (cl_check_list (cls w c)))" if ordered
    using that agent_okD[OF a(1,2)] by (intro by_half_priority.insort_sorted) (simp add: order_ok_def)
  then have "agent_ok (upd_cl c (\<lambda>cl. cl\<lparr>cl_check_list := ms_insort (pair_leq (pair w)) p (cl_check_list cl)\<rparr>) w) ordered"
    using agent_okD[OF a(1,2)] a(3) n
    by (intro agent_ok_upd_cl[OF a(1)])
       (auto simp: lists_ok_def order_ok_def nominations_ok_def priority_now_def component_of_def)
  with None show ?thesis by (simp add: insert_check_def)
qed (simp add: insert_check_def a)

lemma ok_valid_insert:
  assumes a: "agent_ok w ordered" "c \<in> set (s_streams (ses w))" "v_valid v \<in> set (cl_pairs (cls w c))" "v_generated_from v \<in> set (cl_pairs (cls w c))"
  shows "agent_ok (upd_cl c (\<lambda>cl. cl\<lparr>cl_valid_list := ms_insort leq v (cl_valid_list cl)\<rparr>) w) ordered"
  using agent_okD[OF a(1,2)] a(3,4)
  by (intro agent_ok_upd_cl[OF a(1)])
     (auto simp: lists_ok_def order_ok_def nominations_ok_def priority_now_def component_of_def)

lemma ok_losing:
  assumes a: "agent_ok w ordered" "c \<in> set (s_streams (ses w))" "set qs \<subseteq> set (cl_pairs (cls w c))"
  shows "agent_ok (upd_cl c (\<lambda>cl. cl\<lparr>cl_losing_pairs := qs\<rparr>) w) ordered"
  using agent_okD[OF a(1,2)] a(3)
  by (intro agent_ok_upd_cl[OF a(1)])
     (auto simp: lists_ok_def order_ok_def nominations_ok_def priority_now_def component_of_def)

section \<open>New pairs, new candidates, another role\<close>

lemma priority_compute [simp]: "p_priority (ice_compute_pair_priority cd r (pr\<lparr>p_priority := x\<rparr>)) = p_priority (ice_compute_pair_priority cd r pr)"
  by (cases r) (simp_all add: pair_priority_by_role)

lemma compute_static: "p_local (ice_compute_pair_priority cd r pr) = p_local pr" "p_remote (ice_compute_pair_priority cd r pr) = p_remote pr"
  "p_use_candidate (ice_compute_pair_priority cd r pr) = p_use_candidate pr"
  "ice_compute_pair_priority cd r pr = pr\<lparr>p_priority := p_priority (ice_compute_pair_priority cd r pr)\<rparr>"
  by (simp_all add: ice_compute_pair_priority_def Let_def)

lemma pair_init_static: "p_local (ice_pair_init w l r) = l" "p_remote (ice_pair_init w l r) = r" "\<not> p_use_candidate (ice_pair_init w l r)"
  unfolding ice_pair_init_def by (simp_all add: compute_static(1-3))

lemma pair_init_priority:
  "p_priority (ice_compute_pair_priority (cand w) (s_role (ses w)) (ice_pair_init w l r)) = p_priority (ice_pair_init w l r)"
  by (cases "s_role (ses w)") (simp_all add: pair_priority_by_role pair_init_static, simp_all add: ice_pair_init_def pair_priority_by_role)

definition with_pair :: "nat \<Rightarrow> nat \<Rightarrow> nat \<Rightarrow> ice \<Rightarrow> ice" where
  "with_pair c l r w = (let (p, w') = ice_pair_new l r w in upd_cl c (\<lambda>cl. cl\<lparr>cl_pairs := cl_pairs cl @ [p]\<rparr>) w')"

lemma with_pair_simps: "pair (with_pair c l r w) = (pair w)(pair_brk w := ice_pair_init w l r)" "cand (with_pair c l r w) = cand w"
  "ses (with_pair c l r w) = ses w" "cls (with_pair c l r w) = (cls w)(c := (cls w c)\<lparr>cl_pairs := cl_pairs (cls w c) @ [pair_brk w]\<rparr>)"
  "pair_brk (with_pair c l r w) = pair_brk w + 1" "cand_brk (with_pair c l r w) = cand_brk w" "outputs (with_pair c l r w) = outputs w"
  by (simp_all add: with_pair_def ice_pair_new_def)

lemma ok_with_pair:
  assumes a: "agent_ok w ordered" "c \<in> set (s_streams (ses w))" and lr: "l < cand_brk w" "r < cand_brk w"
  shows "agent_ok (with_pair c l r w) ordered"
proof -
  let ?w = "with_pair c l r w" and ?b = "pair_brk w"
  have low: "p < ?b" if "d \<in> set (s_streams (ses w))" "p \<in> set (cl_pairs (cls w d))" for d p
    using agent_okD[OF a(1) that(1)] that(2) by (auto simp: lists_ok_def)
  have old: "pair ?w p = pair w p" "priority_now ?w p = priority_now w p" "component_of ?w p = component_of w p" if "p \<noteq> ?b" for p
    using that by (simp_all add: with_pair_simps priority_now_def component_of_def)
  have new: "priority_now ?w ?b = p_priority (pair ?w ?b)" "\<not> p_use_candidate (pair ?w ?b)" "p_local (pair ?w ?b) = l" "p_remote (pair ?w ?b) = r"
    by (simp_all add: priority_now_def with_pair_simps pair_init_static pair_init_priority)
  have "lists_ok d ?w \<and> (ordered \<longrightarrow> order_ok d ?w) \<and> nominations_ok d ?w" if d: "d \<in> set (s_streams (ses w))" for d
  proof -
    have ps: "set (cl_pairs (cls ?w d)) = (if d = c then insert ?b (set (cl_pairs (cls w d))) else set (cl_pairs (cls w d)))"
      by (simp add: with_pair_simps)
    have ls: "cl_check_list (cls ?w d) = cl_check_list (cls w d)" "cl_triggered_checks_queue (cls ?w d) = cl_triggered_checks_queue (cls w d)"
        "cl_losing_pairs (cls ?w d) = cl_losing_pairs (cls w d)" "cl_transaction_list (cls ?w d) = cl_transaction_list (cls w d)"
        "cl_valid_list (cls ?w d) = cl_valid_list (cls w d)" "cl_local_candidates (cls ?w d) = cl_local_candidates (cls w d)"
        "cl_remote_candidates (cls ?w d) = cl_remote_candidates (cls w d)"
      by (simp_all add: with_pair_simps)
    have ne: "p \<noteq> ?b" if "p \<in> set (cl_pairs (cls w d))" for p using low[OF d that] by simp
    have ok: "lists_ok d w" "ordered \<longrightarrow> order_ok d w" "nominations_ok d w" using agent_okD[OF a(1) d] by simp_all
    have dp: "distinct (cl_pairs (cls ?w d))" using ok(1) ne by (auto simp: with_pair_simps lists_ok_def)
    have mem: "\<forall>p\<in>set (cl_pairs (cls ?w d)). p < pair_brk ?w \<and> p_local (pair ?w p) < cand_brk ?w \<and> p_remote (pair ?w p) < cand_brk ?w"
      using ok(1) lr low[OF d] by (auto simp: ps lists_ok_def with_pair_simps pair_init_static less_Suc_eq)
    have "lists_ok d ?w"
      using ok(1) dp mem unfolding lists_ok_def ls by (auto simp: ps with_pair_simps(6))
    moreover have "order_ok d ?w" if ordered
    proof -
      have "set (cl_check_list (cls w d)) \<subseteq> set (cl_pairs (cls w d))" using ok(1) by (simp add: lists_ok_def)
      then have "\<forall>p\<in>set (cl_check_list (cls w d)). pair ?w p = pair w p" using ne old(1) by blast
      then have "sorted_wrt (\<lambda>p q. unat (p_priority (pair ?w q)) div 2 \<le> unat (p_priority (pair ?w p)) div 2) (cl_check_list (cls w d))"
        using ok(2) that unfolding order_ok_def by (simp only: simp_thms, elim conjE sorted_wrt_mono_rel[rotated]) simp
      moreover have "\<forall>p\<in>set (cl_pairs (cls ?w d)). p_priority (pair ?w p) = priority_now ?w p"
        using ok(2) that ne old new by (auto simp: ps order_ok_def)
      ultimately show ?thesis by (simp add: order_ok_def ls)
    qed
    moreover have "nominations_ok d ?w"
      using ok(3) ne old new unfolding nominations_ok_def ls by (auto simp: ps)
    ultimately show ?thesis by blast
  qed
  moreover have "disjoint_lists ?w"
    using a(1) low by (auto simp: agent_ok_def disjoint_lists_def with_pair_simps)
  moreover have "requests_ok ?w"
    using a(1) by (auto simp: agent_ok_def requests_ok_def with_pair_simps)
  ultimately show ?thesis by (simp add: agent_ok_def with_pair_simps)
qed

text \<open>A new candidate is seen by none of the pairs.\<close>

lemma ok_new_candidate:
  assumes a: "agent_ok w ordered" and w': "w' = upd_cl c (\<lambda>cl. f cl) (w\<lparr>cand := (cand w)(cand_brk w := x), cand_brk := cand_brk w + 1\<rparr>)"
    and f: "\<And>cl. cl_pairs (f cl) = cl_pairs cl \<and> cl_check_list (f cl) = cl_check_list cl \<and> cl_triggered_checks_queue (f cl) = cl_triggered_checks_queue cl
      \<and> cl_losing_pairs (f cl) = cl_losing_pairs cl \<and> cl_transaction_list (f cl) = cl_transaction_list cl \<and> cl_valid_list (f cl) = cl_valid_list cl
      \<and> set (cl_local_candidates (f cl)) \<union> set (cl_remote_candidates (f cl)) \<subseteq> insert (cand_brk w) (set (cl_local_candidates cl) \<union> set (cl_remote_candidates cl))"
  shows "agent_ok w' ordered"
proof -
  have "lists_ok d w' \<and> (ordered \<longrightarrow> order_ok d w') \<and> nominations_ok d w'" if d: "d \<in> set (s_streams (ses w))" for d
  proof -
    have ok: "lists_ok d w" "ordered \<longrightarrow> order_ok d w" "nominations_ok d w" using agent_okD[OF a d] by simp_all
    have ls: "cl_pairs (cls w' d) = cl_pairs (cls w d)" "cl_check_list (cls w' d) = cl_check_list (cls w d)"
        "cl_triggered_checks_queue (cls w' d) = cl_triggered_checks_queue (cls w d)"
        "cl_losing_pairs (cls w' d) = cl_losing_pairs (cls w d)" "cl_transaction_list (cls w' d) = cl_transaction_list (cls w d)"
        "cl_valid_list (cls w' d) = cl_valid_list (cls w d)"
        "set (cl_local_candidates (cls w' d)) \<union> set (cl_remote_candidates (cls w' d))
           \<subseteq> insert (cand_brk w) (set (cl_local_candidates (cls w d)) \<union> set (cl_remote_candidates (cls w d)))"
      using f[of "cls w d"] by (auto simp: w')
    have pr: "pair w' = pair w" "pair_brk w' = pair_brk w" "cand_brk w' = cand_brk w + 1" "ses w' = ses w" by (simp_all add: w')
    have cd: "cand w' (p_local (pair w p)) = cand w (p_local (pair w p))" "cand w' (p_remote (pair w p)) = cand w (p_remote (pair w p))"
      if "p \<in> set (cl_pairs (cls w d))" for p
      using ok(1) that by (auto simp: lists_ok_def w')
    then have now: "priority_now w' p = priority_now w p" "component_of w' p = component_of w p" if "p \<in> set (cl_pairs (cls w d))" for p
      using that by (cases "s_role (ses w)"; simp add: priority_now_by_role component_of_def pr)+
    have less: "\<forall>p\<in>set (cl_pairs (cls w d)). p < pair_brk w \<and> p_local (pair w p) < cand_brk w + 1 \<and> p_remote (pair w p) < cand_brk w + 1"
    proof -
      have "\<forall>p\<in>set (cl_pairs (cls w d)). p < pair_brk w \<and> p_local (pair w p) < cand_brk w \<and> p_remote (pair w p) < cand_brk w"
        using ok(1) by (simp add: lists_ok_def)
      then show ?thesis by (auto simp: less_Suc_eq)
    qed
    have cands: "\<forall>a\<in>set (cl_local_candidates (cls w' d)) \<union> set (cl_remote_candidates (cls w' d)). a < cand_brk w + 1"
    proof
      fix x assume "x \<in> set (cl_local_candidates (cls w' d)) \<union> set (cl_remote_candidates (cls w' d))"
      then have "x = cand_brk w \<or> x \<in> set (cl_local_candidates (cls w d)) \<union> set (cl_remote_candidates (cls w d))"
        using ls(7) by blast
      moreover have "\<forall>y\<in>set (cl_local_candidates (cls w d)) \<union> set (cl_remote_candidates (cls w d)). y < cand_brk w"
        using ok(1) by (simp add: lists_ok_def)
      ultimately show "x < cand_brk w + 1" by (auto simp: less_Suc_eq)
    qed
    have "lists_ok d w'" using ok(1) less cands unfolding lists_ok_def ls(1-6) pr by (elim conjE, intro conjI) assumption+
    moreover have "order_ok d w'" if ordered using ok(2) that now unfolding order_ok_def ls(1-6) pr by simp
    moreover have "nominations_ok d w'" using ok(3) now unfolding nominations_ok_def ls(1-6) pr by auto
    ultimately show ?thesis by blast
  qed
  moreover have "disjoint_lists w'" using a f by (auto simp: agent_ok_def disjoint_lists_def w')
  moreover have "requests_ok w'" using a by (auto simp: agent_ok_def requests_ok_def w')
  ultimately show ?thesis by (simp add: agent_ok_def w')
qed

text \<open>The recomputation of all priorities.\<close>

lemma compute_idem: "ice_compute_pair_priority cd r (ice_compute_pair_priority cd r pr) = ice_compute_pair_priority cd r pr"
proof -
  have "ice_compute_pair_priority cd r (ice_compute_pair_priority cd r pr)
      = (ice_compute_pair_priority cd r pr)\<lparr>p_priority := p_priority (ice_compute_pair_priority cd r (ice_compute_pair_priority cd r pr))\<rparr>"
    by (rule compute_static(4))
  also have "p_priority (ice_compute_pair_priority cd r (ice_compute_pair_priority cd r pr)) = p_priority (ice_compute_pair_priority cd r pr)"
    by (subst (2) compute_static(4)) (rule priority_compute)
  finally show ?thesis by simp
qed

lemma recompute_pairs: "fold (\<lambda>p w'. upd_pair p (ice_compute_pair_priority (cand w') (s_role (ses w'))) w') ps w
    = w\<lparr>pair := (\<lambda>p. if p \<in> set ps then ice_compute_pair_priority (cand w) (s_role (ses w)) (pair w p) else pair w p)\<rparr>"
proof (induction ps arbitrary: w)
  case (Cons q ps)
  show ?case unfolding fold.simps o_apply Cons.IH
    by (intro ice.equality) (auto simp: fun_eq_iff compute_idem)
qed (intro ice.equality, auto)

lemma recompute_list: "ice_check_list_compute_pair_priorities c w
    = w\<lparr>pair := (\<lambda>p. if p \<in> set (cl_pairs (cls w c)) then ice_compute_pair_priority (cand w) (s_role (ses w)) (pair w p) else pair w p)\<rparr>"
  unfolding ice_check_list_compute_pair_priorities_def by (rule recompute_pairs)

lemma recompute_all: "fold ice_check_list_compute_pair_priorities cs w
    = w\<lparr>pair := (\<lambda>p. if \<exists>c\<in>set cs. p \<in> set (cl_pairs (cls w c)) then ice_compute_pair_priority (cand w) (s_role (ses w)) (pair w p) else pair w p)\<rparr>"
proof (induction cs arbitrary: w)
  case (Cons c cs)
  show ?case unfolding fold.simps o_apply recompute_list[of c w] Cons.IH
    by (intro ice.equality) (auto simp: fun_eq_iff compute_idem)
qed (intro ice.equality, auto)

definition other_role :: "IceRole \<Rightarrow> IceRole" where
  "other_role r = (case r of IR_Controlling \<Rightarrow> IR_Controlled | IR_Controlled \<Rightarrow> IR_Controlling)"

lemma half_priority_of_other_role:
  "drop_bit 1 (p_priority (ice_compute_pair_priority cd r pr)) = drop_bit 1 (p_priority (ice_compute_pair_priority cd r' pr))"
  by (cases r; cases r') (simp_all only: pair_priority_by_role IceRole.case pair_priority_swap)

lemma ok_set_role:
  assumes a: "agent_ok w ordered"
  shows "agent_ok (ice_session_set_role r w) ordered"
proof (cases "s_role (ses w) = r")
  case False
  let ?w = "ice_session_set_role r w"
  define P where "P = {p. \<exists>c\<in>set (s_streams (ses w)). p \<in> set (cl_pairs (cls w c))}"
  have w: "?w = w\<lparr>ses := (ses w)\<lparr>s_role := r\<rparr>, pair := (\<lambda>p. if p \<in> P then ice_compute_pair_priority (cand w) r (pair w p) else pair w p)\<rparr>"
    unfolding ice_session_set_role_def ice_session_compute_pair_priorities_def recompute_all if_P[OF False] P_def
    by (intro ice.equality) (simp_all add: fun_eq_iff)
  have st: "p_local (pair ?w p) = p_local (pair w p)" "p_remote (pair ?w p) = p_remote (pair w p)"
      "p_use_candidate (pair ?w p) = p_use_candidate (pair w p)" for p
    by (simp_all add: w compute_static(1-3))
  have "lists_ok c ?w \<and> (ordered \<longrightarrow> order_ok c ?w) \<and> nominations_ok c ?w" if c: "c \<in> set (s_streams (ses w))" for c
  proof -
    have ok: "lists_ok c w" "ordered \<longrightarrow> order_ok c w" "nominations_ok c w" using agent_okD[OF a c] by simp_all
    have cl: "cls ?w = cls w" "cand ?w = cand w" "cand_brk ?w = cand_brk w" "pair_brk ?w = pair_brk w" by (simp_all add: w)
    have inP: "p \<in> P" if "p \<in> set (cl_pairs (cls w c))" for p using that c by (auto simp: P_def)
    have new: "p_priority (pair ?w p) = priority_now ?w p" if "p \<in> set (cl_pairs (cls w c))" for p
    proof -
      have "pair ?w p = ice_compute_pair_priority (cand w) r (pair w p)" "s_role (ses ?w) = r" using inP[OF that] by (simp_all add: w)
      then show ?thesis unfolding priority_now_def cl by (simp only: compute_idem)
    qed
    have half: "unat (p_priority (pair ?w p)) div 2 = unat (p_priority (pair w p)) div 2" if ordered "p \<in> set (cl_pairs (cls w c))" for p
    proof -
      have "p_priority (pair w p) = p_priority (ice_compute_pair_priority (cand w) (s_role (ses w)) (pair w p))"
        using ok(2) that by (simp add: order_ok_def priority_now_def)
      moreover have "p_priority (pair ?w p) = p_priority (ice_compute_pair_priority (cand w) r (pair w p))"
        using inP[OF that(2)] by (simp add: w)
      ultimately show ?thesis
        using half_priority_of_other_role[of "cand w" r "pair w p" "s_role (ses w)"] unat_drop_bit_1 by metis
    qed
    have sub: "set (cl_check_list (cls w c)) \<subseteq> set (cl_pairs (cls w c))" using ok(1) by (simp add: lists_ok_def)
    have "lists_ok c ?w" using ok(1) unfolding lists_ok_def cl st .
    moreover have "sorted_wrt (\<lambda>p q. unat (p_priority (pair ?w q)) div 2 \<le> unat (p_priority (pair ?w p)) div 2) (cl_check_list (cls w c))" if ordered
      using ok(2) that sub half unfolding order_ok_def by (simp only: simp_thms, elim conjE sorted_wrt_mono_rel[rotated]) (auto simp: subset_iff)
    then have "order_ok c ?w" if ordered using that new unfolding order_ok_def cl by blast
    moreover have "nominations_ok c ?w" using ok(3) unfolding nominations_ok_def component_of_def cl st .
    ultimately show ?thesis by blast
  qed
  moreover have "disjoint_lists ?w" using a by (simp add: agent_ok_def disjoint_lists_def w)
  moreover have "requests_ok ?w" using a st by (simp add: agent_ok_def requests_ok_def w compute_static)
  moreover have "s_streams (ses ?w) = s_streams (ses w)" by (simp add: w)
  ultimately show ?thesis by (simp add: agent_ok_def)
qed (simp add: ice_session_set_role_def a)

section \<open>Nomination\<close>

lemma ok_nominate:
  assumes a: "agent_ok w ordered" "c \<in> set (s_streams (ses w))" and v: "v \<in> set (cl_valid_list (cls w c))" "v_generated_from v = g"
    and none: "find (use_candidate_for w (component_of w g)) (cl_valid_list (cls w c)) = None"
  shows "agent_ok (upd_pair g (p_use_candidate_update (\<lambda>_. True)) w) ordered"
proof -
  let ?w = "upd_pair g (p_use_candidate_update (\<lambda>_. True)) w"
  have okc: "lists_ok c w" "nominations_ok c w" using agent_okD[OF a] by simp_all
  have g: "g \<in> set (cl_pairs (cls w c))" using okc(1) v by (auto simp: lists_ok_def)
  have no: "\<not> p_use_candidate (pair w q)" if mem: "q \<in> set (cl_pairs (cls w c))" "component_of w q = component_of w g" for q
  proof
    assume "p_use_candidate (pair w q)"
    then obtain u where "u \<in> set (cl_valid_list (cls w c))" "v_generated_from u = q" using okc(2) mem(1) unfolding nominations_ok_def by blast
    with \<open>p_use_candidate (pair w q)\<close> mem(2) none show False
      by (auto simp: find_None_iff use_candidate_for_def component_of_def)
  qed
  have st: "p_local (pair ?w p) = p_local (pair w p)" "p_remote (pair ?w p) = p_remote (pair w p)" "p_priority (pair ?w p) = p_priority (pair w p)" for p
    by simp_all
  have now: "priority_now ?w p = priority_now w p" "component_of ?w p = component_of w p" for p
    by (cases "s_role (ses w)"; simp add: priority_now_by_role component_of_def)+
  have "lists_ok d ?w \<and> (ordered \<longrightarrow> order_ok d ?w) \<and> nominations_ok d ?w" if d: "d \<in> set (s_streams (ses w))" for d
  proof -
    have ok: "lists_ok d w" "ordered \<longrightarrow> order_ok d w" "nominations_ok d w" using agent_okD[OF a(1) d] by simp_all
    have "lists_ok d ?w" using ok(1) by (simp add: lists_ok_def)
    moreover have "order_ok d ?w" if ordered using ok(2) that unfolding order_ok_def now st by simp
    moreover have "nominations_ok d ?w"
    proof (cases "d = c")
      case True
      then show ?thesis using ok(3) no v unfolding nominations_ok_def now by (auto split: if_splits)
    next
      case False
      then have "g \<notin> set (cl_pairs (cls w d))" using a(1,2) d g by (auto simp: agent_ok_def disjoint_lists_def)
      then show ?thesis using ok(3) unfolding nominations_ok_def now by auto
    qed
    ultimately show ?thesis by blast
  qed
  moreover have "disjoint_lists ?w" "requests_ok ?w" using a(1) by (auto simp: agent_ok_def disjoint_lists_def requests_ok_def)
  ultimately show ?thesis by (simp add: agent_ok_def)
qed

section \<open>Conclusion of a check list\<close>

definition leads :: "ice \<Rightarrow> ice \<Rightarrow> bool \<Rightarrow> bool" where
  "leads w w' ordered \<longleftrightarrow> agent_ok w' ordered \<and> s_streams (ses w') = s_streams (ses w)
     \<and> (\<forall>c. set (cl_pairs (cls w c)) \<subseteq> set (cl_pairs (cls w' c))) \<and> cand_brk w \<le> cand_brk w'"

lemma leads_refl: "agent_ok w ordered \<Longrightarrow> leads w w ordered"
  by (simp add: leads_def)

lemma leads_trans: "leads w w1 ordered \<Longrightarrow> leads w1 w2 ordered \<Longrightarrow> leads w w2 ordered"
  unfolding leads_def by (elim conjE, intro conjI) (assumption, simp, blast, simp)

lemma leads_quiet: "agent_ok w ordered \<Longrightarrow> quiet w w' \<Longrightarrow> leads w w' ordered"
  using quiet_agent_ok[of w w'] quiet_sesD[of w w'] quiet_listsD[of w w'] by (simp add: leads_def)

lemma leads_then_quiet: "leads w w1 ordered \<Longrightarrow> quiet w1 w2 \<Longrightarrow> leads w w2 ordered"
  by (meson leads_quiet leads_trans leads_def)

lemma leadsD: "leads w w' ordered \<Longrightarrow> agent_ok w' ordered" "leads w w' ordered \<Longrightarrow> s_streams (ses w') = s_streams (ses w)"
  "leads w w' ordered \<Longrightarrow> p \<in> set (cl_pairs (cls w c)) \<Longrightarrow> p \<in> set (cl_pairs (cls w' c))"
  by (auto simp: leads_def)

lemma fold_invariant_on: "(\<And>x w. x \<in> set xs \<Longrightarrow> P w \<Longrightarrow> P (f x w)) \<Longrightarrow> P w \<Longrightarrow> P (fold f xs w)"
  by (induction xs arbitrary: w) auto

lemma leads_fold:
  assumes "agent_ok w ordered" "c \<in> set (s_streams (ses w))" "set xs \<subseteq> set (cl_pairs (cls w c))"
    and f: "\<And>x w. agent_ok w ordered \<Longrightarrow> c \<in> set (s_streams (ses w)) \<Longrightarrow> x \<in> set (cl_pairs (cls w c)) \<Longrightarrow> leads w (f x w) ordered"
  shows "leads w (fold f xs w) ordered"
proof (rule fold_invariant_on[of xs "\<lambda>w'. leads w w' ordered"])
  fix x w' assume x: "x \<in> set xs" and l: "leads w w' ordered"
  from x assms(3) have "x \<in> set (cl_pairs (cls w' c))" using leadsD(3)[OF l] by blast
  then show "leads w (f x w') ordered" using f leadsD(1,2)[OF l] assms(2) leads_trans[OF l] by simp
qed (simp add: leads_refl assms(1))

definition kept_valid :: "nat \<Rightarrow> ice \<Rightarrow> ice \<Rightarrow> bool \<Rightarrow> bool" where
  "kept_valid c w w' ordered \<longleftrightarrow> leads w w' ordered \<and> cl_valid_list (cls w' c) = cl_valid_list (cls w c)"

lemma kept_valid_trans: "kept_valid c w w1 ordered \<Longrightarrow> kept_valid c w1 w2 ordered \<Longrightarrow> kept_valid c w w2 ordered"
  by (auto simp: kept_valid_def intro: leads_trans)

lemma leads_queue_triggered:
  assumes "agent_ok w ordered" "c \<in> set (s_streams (ses w))" "p \<in> set (cl_pairs (cls w c))"
  shows "leads w (ice_check_list_queue_triggered_check c p w) ordered"
  using ok_queue_triggered[OF assms] by (auto simp: leads_def ice_check_list_queue_triggered_check_def split: option.split)

lemma quiet_flag: "quiet w (upd_cl c (cl_nomination_delay_running_update g) w)" "quiet w (upd_cl c (\<lambda>cl. cl\<lparr>cl_nomination_delay_running := b, cl_nomination_delay_start_time := t\<rparr>) w)"
  by (rule quiet_upd_cl, simp add: static_lists_def)+

lemma kept_regular_nomination:
  assumes a: "agent_ok w ordered" "c \<in> set (s_streams (ses w))" and v: "v \<in> set (cl_valid_list (cls w c))"
  shows "kept_valid c w (ice_perform_regular_nomination now c v w) ordered"
proof -
  let ?g = "v_generated_from v"
  let ?w1 = "upd_cl c (cl_nomination_delay_running_update (\<lambda>_. False)) w"
  let ?w2 = "upd_pair ?g (p_use_candidate_update (\<lambda>_. True)) ?w1"
  let ?nom = "ice_check_list_queue_triggered_check c ?g ?w2"
  have g: "?g \<in> set (cl_pairs (cls w c))" using agent_okD[OF a] v by (auto simp: lists_ok_def)
  have nominate: "kept_valid c w ?nom ordered" if n: "find (use_candidate_for w (component_of w ?g)) (cl_valid_list (cls w c)) = None"
  proof -
    have ok1: "agent_ok ?w1 ordered" using quiet_agent_ok[OF quiet_flag(1) a(1)] .
    have "use_candidate_for ?w1 (component_of ?w1 ?g) = use_candidate_for w (component_of w ?g)"
      by (simp add: use_candidate_for_def component_of_def fun_eq_iff)
    then have "agent_ok ?w2 ordered" using a(2) v n by (intro ok_nominate[OF ok1, of c v ?g]) simp_all
    then have "agent_ok ?nom ordered" using a(2) g by (intro ok_queue_triggered) simp_all
    then show ?thesis by (auto simp: kept_valid_def leads_def ice_check_list_queue_triggered_check_def split: option.split)
  qed
  have refl: "kept_valid c w w ordered" by (simp add: kept_valid_def leads_refl a)
  have flag: "kept_valid c w (upd_cl c (\<lambda>cl. cl\<lparr>cl_nomination_delay_running := True, cl_nomination_delay_start_time := now\<rparr>) w) ordered"
    using leads_quiet[OF a(1) quiet_flag(2)] by (simp add: kept_valid_def)
  show ?thesis
    unfolding ice_perform_regular_nomination_def Let_def
    using nominate refl flag by (simp add: component_of_def)
qed

lemma subseq_append_drop: "subseq (xs @ ys) (xs @ y # ys)"
  by (induction xs) auto

lemma subseq_remove1: "subseq (remove1 p xs) xs"
  by (induction xs) auto

lemma remove_waiting_subseq: "subseq (remove_waiting_loop P kept ps) (kept @ ps)"
proof (induction P kept ps rule: remove_waiting_loop.induct)
  case (2 P kept p ps)
  then show ?case using subseq_append_drop[of kept ps p] by (auto intro: subseq_order.trans)
qed simp

lemma kept_conclude_pairs:
  assumes a: "agent_ok w ordered" "c \<in> set (s_streams (ses w))"
  shows "kept_valid c w (ice_conclude_waiting_frozen_and_inprogress_pairs c v w) ordered"
proof (cases "p_is_nominated (pair w (v_valid v))")
  case True
  let ?cid = "c_componentID (cand w (p_local (pair w (v_valid v))))"
  let ?r = "ice_remove_waiting_and_frozen_pairs_from_list w ?cid"
  define w1 where "w1 = upd_cl c (\<lambda>cl. cl\<lparr>cl_check_list := ?r (cl_check_list (cls w c)), cl_triggered_checks_queue := ?r (cl_triggered_checks_queue (cls w c))\<rparr>) w"
  define w2 where "w2 = fold (ice_stop_retransmission_for_in_progress_pair ?cid) (cl_check_list (cls w1 c)) w1"
  have s: "subseq (?r xs) xs" for xs
    using remove_waiting_subseq[of _ "[]" xs] by (simp add: ice_remove_waiting_and_frozen_pairs_from_list_def)
  have "agent_ok w1 ordered" unfolding w1_def by (rule ok_shrink[OF a s s])
  then have "leads w w1 ordered" by (simp add: leads_def w1_def)
  moreover have "quiet w1 w2" unfolding w2_def by (rule quiet_fold) (rule quiets)
  moreover have "cls w2 = cls w1"
    unfolding w2_def by (rule fold_invariant_on[of _ "\<lambda>w. cls w = cls w1"]) (auto simp: ice_stop_retransmission_for_in_progress_pair_def)
  moreover have "ice_conclude_waiting_frozen_and_inprogress_pairs c v w = w2"
    using True by (simp add: ice_conclude_waiting_frozen_and_inprogress_pairs_def Let_def w1_def w2_def)
  ultimately show ?thesis by (auto simp: kept_valid_def w1_def intro: leads_then_quiet)
qed (simp add: ice_conclude_waiting_frozen_and_inprogress_pairs_def kept_valid_def leads_refl a)

lemma leads_pair_stop:
  assumes a: "agent_ok w ordered" "c \<in> set (s_streams (ses w))"
  shows "leads w (ice_pair_stop_retransmissions c p w) ordered"
proof (cases "p_state (pair w p) = ICP_InProgress")
  case True
  let ?w1 = "ice_pair_set_state p ICP_Failed w"
  let ?f = "\<lambda>cl. cl\<lparr>cl_check_list := cl_check_list (cls ?w1 c), cl_triggered_checks_queue := remove1 p (cl_triggered_checks_queue (cls ?w1 c))\<rparr>"
  have l: "leads w ?w1 ordered" using leads_quiet[OF a(1) quiet_pair_set_state] .
  have "agent_ok (upd_cl c ?f ?w1) ordered"
    using leadsD(1,2)[OF l] a(2) by (intro ok_shrink) (simp_all add: subseq_remove1)
  moreover have "upd_cl c ?f ?w1 = ice_pair_stop_retransmissions c p w"
    using True by (simp add: ice_pair_stop_retransmissions_def ice_pair_set_state_def fun_eq_iff)
  ultimately show ?thesis using l by (simp add: leads_def ice_pair_stop_retransmissions_def)
qed (simp add: ice_pair_stop_retransmissions_def leads_refl a)

lemma check_list_pairs: "agent_ok w ordered \<Longrightarrow> c \<in> set (s_streams (ses w)) \<Longrightarrow> set (cl_check_list (cls w c)) \<subseteq> set (cl_pairs (cls w c))"
  using agent_okD[of w _ c] by (simp add: lists_ok_def)

lemma leads_conclude_valid:
  assumes a: "agent_ok w ordered" "c \<in> set (s_streams (ses w))"
  shows "leads w (fold (ice_conclude_waiting_frozen_and_inprogress_pairs c) vs w) ordered"
  using a leads_refl by (intro fold_invariant_on[of _ "\<lambda>w'. leads w w' ordered"]) (metis kept_conclude_pairs kept_valid_def leadsD(1,2) leads_trans)+

lemma leads_conclude_processing:
  assumes a: "agent_ok w ordered" "c \<in> set (s_streams (ses w))"
  shows "leads w (ice_conclude_processing now c w) ordered"
proof (cases "cl_state (cls w c) = ICL_Running")
  case True
  define w1 where "w1 = (if s_role (ses w) = IR_Controlling
               then fold (ice_perform_regular_nomination now c) (cl_valid_list (cls w c)) w else w)"
  define w2 where "w2 = fold (ice_conclude_waiting_frozen_and_inprogress_pairs c) (cl_valid_list (cls w1 c)) w1"
  have l1: "leads w w1 ordered"
  proof (cases "s_role (ses w) = IR_Controlling")
    case True
    have "kept_valid c w (fold (ice_perform_regular_nomination now c) (cl_valid_list (cls w c)) w) ordered"
    proof (rule fold_invariant_on[of _ "\<lambda>w'. kept_valid c w w' ordered"])
      fix v w' assume v: "v \<in> set (cl_valid_list (cls w c))" and k: "kept_valid c w w' ordered"
      then have "agent_ok w' ordered" "c \<in> set (s_streams (ses w'))" "v \<in> set (cl_valid_list (cls w' c))"
        using a(2) by (auto simp: kept_valid_def leads_def)
      then show "kept_valid c w (ice_perform_regular_nomination now c v w') ordered" using kept_valid_trans[OF k kept_regular_nomination] by blast
    qed (simp add: kept_valid_def leads_refl a)
    then show ?thesis using True by (simp add: kept_valid_def w1_def)
  qed (simp add: w1_def leads_refl a)
  have l2: "leads w w2 ordered"
    unfolding w2_def using l1 a(2) by (intro leads_trans[OF l1] leads_conclude_valid) (simp_all add: leads_def)
  have a2: "agent_ok w2 ordered" "c \<in> set (s_streams (ses w2))" using l2 a(2) by (simp_all add: leads_def)
  define w3 where "w3 = upd_cl c (\<lambda>cl. cl\<lparr>cl_state := ICL_Completed, cl_nomination_delay_running := False, cl_keepalive_time := now\<rparr>) w2"
  have q: "quiet w2 w3" unfolding w3_def by (rule quiet_upd_cl) (simp add: static_lists_def)
  then have a3: "agent_ok w3 ordered" "c \<in> set (s_streams (ses w3))" using a2 quiet_agent_ok quiet_sesD[OF q] by auto
  have l3: "leads w w3 ordered" using leads_then_quiet[OF l2 q] .
  have l4: "leads w (ice_check_list_stop_retransmissions c w3) ordered"
    unfolding ice_check_list_stop_retransmissions_def
    using a3 check_list_pairs[OF a3] by (intro leads_trans[OF l3] leads_fold[of w3 _ c]) (auto intro: leads_pair_stop)
  have q5: "quiet w' (ice_continue_processing_on_next_check_list now c (emit (Check_List_Processing_Finished b) w'))" for w' b
    by (rule quiet_trans[OF quiet_emit quiet_continue]) simp
  have q6: "quiet w2 (upd_cl c (\<lambda>cl. cl\<lparr>cl_state := ICL_Failed\<rparr>) w2)" by (rule quiet_upd_cl) (simp add: static_lists_def)
  have l7: "leads w (ice_continue_processing_on_next_check_list now c (emit (Check_List_Processing_Finished False)
            (upd_cl c (\<lambda>cl. cl\<lparr>cl_state := ICL_Failed\<rparr>) w2))) ordered"
    by (rule leads_then_quiet[OF l2 quiet_trans[OF q6 q5]])
  show ?thesis
    unfolding ice_conclude_processing_def Let_def w1_def[symmetric] w2_def[symmetric] w3_def[symmetric]
    using True l2 leads_then_quiet[OF l4 q5] l7 by simp
qed (simp add: ice_conclude_processing_def leads_refl a)

section \<open>Sending checks\<close>

lemma pair_below: "agent_ok w ordered \<Longrightarrow> c \<in> set (s_streams (ses w)) \<Longrightarrow> p \<in> set (cl_pairs (cls w c)) \<Longrightarrow> p < pair_brk w"
  using agent_okD[of w _ c] by (simp add: lists_ok_def)

lemma pair_ends: "agent_ok w ordered \<Longrightarrow> c \<in> set (s_streams (ses w)) \<Longrightarrow> p \<in> set (cl_pairs (cls w c))
    \<Longrightarrow> p_local (pair w p) < cand_brk w \<and> p_remote (pair w p) < cand_brk w"
  using agent_okD[of w _ c] by (simp add: lists_ok_def)

lemma quiet_request: "p < pair_brk w \<Longrightarrow> quiet w (emit (request_of p tid w') w)" if "p_use_candidate (pair w' p) = p_use_candidate (pair w p)"
  using that by (intro quiet_emit) (simp add: request_of_def)

lemma leads_create_transaction:
  assumes "agent_ok w ordered" "c \<in> set (s_streams (ses w))" "p \<in> set (cl_pairs (cls w c))"
  shows "leads w (ice_create_transaction c p tid w) ordered"
  using ok_transaction[OF assms] by (simp add: leads_def ice_create_transaction_def)

lemma leads_transmit:
  assumes a: "agent_ok w ordered" "c \<in> set (s_streams (ses w))" "p \<in> set (cl_pairs (cls w c))"
  shows "leads w (transmit now c p old_id w) ordered"
proof -
  define w1 where "w1 = upd_pair p (p_transmission_time_update (\<lambda>_. now)) w"
  define tid where "tid = tr_supply w1 (tr_count w1)"
  define w2 where "w2 = w1\<lparr>tr_count := tr_count w1 + 1\<rparr>"
  define w3 where "w3 = ice_create_transaction c p tid w2"
  have l1: "leads w w1 ordered" unfolding w1_def by (rule leads_quiet[OF a(1) quiet_upd_pair]) (simp add: static_pair_def)
  have l2: "leads w w2 ordered" unfolding w2_def by (rule leads_then_quiet[OF l1 quiet_count])
  have a2: "agent_ok w2 ordered" "c \<in> set (s_streams (ses w2))" "p \<in> set (cl_pairs (cls w2 c))"
    using leadsD[OF l2] a by auto
  have l3: "leads w w3 ordered" unfolding w3_def using leads_create_transaction[OF a2] leads_trans[OF l2] by blast
  have a3: "agent_ok w3 ordered" "c \<in> set (s_streams (ses w3))" "p \<in> set (cl_pairs (cls w3 c))"
    using leadsD[OF l3] a by auto
  have u: "p_use_candidate (pair w2 p) = p_use_candidate (pair w3 p)" by (simp add: w3_def ice_create_transaction_def)
  have l4: "leads w (emit (request_of p old_id w2) w2) ordered"
    by (rule leads_then_quiet[OF l2 quiet_request[OF refl pair_below[OF a2]]])
  define w4 where "w4 = emit (request_of p tid w2) w3"
  have l5: "leads w w4 ordered"
    unfolding w4_def by (rule leads_then_quiet[OF l3 quiet_request[OF u pair_below[OF a3]]])
  have q: "quiet w4 (upd_pair p (\<lambda>pr. pr\<lparr>p_rto := ICE_DEFAULT_RTO_DURATION, p_retransmissions := 0, p_role := r\<rparr>) w4)" for r
    by (rule quiet_upd_pair) (simp add: static_pair_def)
  have l6: "leads w (ice_pair_set_state p s (upd_pair p (\<lambda>pr. pr\<lparr>p_rto := ICE_DEFAULT_RTO_DURATION, p_retransmissions := 0, p_role := r\<rparr>) w4)) ordered" for s r
    by (rule leads_then_quiet[OF leads_then_quiet[OF l5 q] quiet_pair_set_state])
  show ?thesis
    unfolding transmit_def Let_def w1_def[symmetric] tid_def[symmetric] w2_def[symmetric] w3_def[symmetric] w4_def[symmetric]
    using l1 l4 l6 by simp
qed

lemma leads_step:
  assumes "leads w w1 ordered" "agent_ok w1 ordered \<Longrightarrow> c \<in> set (s_streams (ses w1)) \<Longrightarrow> leads w1 w2 ordered" "c \<in> set (s_streams (ses w))"
  shows "leads w w2 ordered"
  using assms leadsD(1,2)[OF assms(1)] leads_trans by simp

lemma leads_send_binding_request:
  assumes a: "agent_ok w ordered" "c \<in> set (s_streams (ses w))" "p \<in> set (cl_pairs (cls w c))"
  shows "leads w (ice_send_binding_request now c p w) ordered"
proof -
  have after_wait: "leads w (ice_check_list_queue_triggered_check c p (ice_pair_set_state p s (upd_pair p (p_wait_transaction_timeout_update g) w))) ordered"
    and wait: "leads w (upd_pair p (p_wait_transaction_timeout_update g) w) ordered" for s g
  proof -
    have q: "quiet w (upd_pair p (p_wait_transaction_timeout_update g) w)" by (rule quiet_upd_pair) (simp add: static_pair_def)
    then show w: "leads w (upd_pair p (p_wait_transaction_timeout_update g) w) ordered" by (rule leads_quiet[OF a(1)])
    then have l: "leads w (ice_pair_set_state p s (upd_pair p (p_wait_transaction_timeout_update g) w)) ordered"
      by (rule leads_then_quiet) (rule quiets)
    show "leads w (ice_check_list_queue_triggered_check c p (ice_pair_set_state p s (upd_pair p (p_wait_transaction_timeout_update g) w))) ordered"
      by (rule leads_trans[OF l], rule leads_queue_triggered) (use leadsD[OF l] a in auto)
  qed
  define w1 where "w1 = upd_pair p (\<lambda>pr. pr\<lparr>p_retransmissions := p_retransmissions pr + 1\<rparr>) w"
  have q1: "quiet w w1" unfolding w1_def by (rule quiet_upd_pair) (simp add: static_pair_def)
  define w2 where "w2 = upd_pair p (\<lambda>pr. pr\<lparr>p_rto := push_bit 1 (p_rto pr)\<rparr>) w1"
  have q2: "quiet w w2" unfolding w2_def by (rule quiet_trans[OF q1 quiet_upd_pair]) (simp add: static_pair_def)
  have again: "leads w (transmit now c p i w2) ordered" for i
    by (rule leads_trans[OF leads_quiet[OF a(1) q2]], rule leads_transmit)
       (use leadsD[OF leads_quiet[OF a(1) q2]] a in auto)
  have failed: "leads w (ice_pair_set_state p ICP_Failed w1) ordered" by (rule leads_quiet[OF a(1) quiet_trans[OF q1]]) (rule quiets)
  show ?thesis
    unfolding ice_send_binding_request_def Let_def w1_def[symmetric] w2_def[symmetric]
    using after_wait wait again failed leads_transmit[OF a] leads_refl[OF a(1)]
    by (auto split: IceCandidatePairState.split option.split)
qed

lemma leads_retransmit:
  assumes a: "agent_ok w ordered" "c \<in> set (s_streams (ses w))"
  shows "leads w (ice_check_list_retransmit_connectivity_checks now c w) ordered"
  unfolding ice_check_list_retransmit_connectivity_checks_def
  by (rule leads_fold[OF a check_list_pairs[OF a]])
     (simp add: ice_handle_connectivity_check_retransmission_def leads_send_binding_request leads_refl)

lemma leads_triggered:
  assumes a: "agent_ok w ordered" "c \<in> set (s_streams (ses w))"
  shows "leads w (snd (ice_check_list_send_triggered_check now c w)) ordered"
proof (cases "cl_triggered_checks_queue (cls w c)")
  case (Cons p ps)
  let ?f = "\<lambda>cl. cl\<lparr>cl_check_list := cl_check_list (cls w c), cl_triggered_checks_queue := ps\<rparr>"
  have "agent_ok (upd_cl c ?f w) ordered" using Cons by (intro ok_shrink[OF a]) (auto intro: subseq_order.order_refl)
  moreover have "upd_cl c ?f w = upd_cl c (\<lambda>cl. cl\<lparr>cl_triggered_checks_queue := ps\<rparr>) w" by (simp add: fun_eq_iff)
  ultimately have l: "leads w (upd_cl c (\<lambda>cl. cl\<lparr>cl_triggered_checks_queue := ps\<rparr>) w) ordered" by (simp add: leads_def)
  have "p \<in> set (cl_pairs (cls w c))" using agent_okD[OF a] Cons by (auto simp: lists_ok_def)
  then have "leads w (ice_send_binding_request now c p (upd_cl c (\<lambda>cl. cl\<lparr>cl_triggered_checks_queue := ps\<rparr>) w)) ordered"
    using leadsD[OF l] a(2) by (intro leads_trans[OF l leads_send_binding_request]) auto
  then show ?thesis using Cons by (simp add: ice_check_list_send_triggered_check_def ice_check_list_pop_triggered_check_def)
qed (simp add: ice_check_list_send_triggered_check_def ice_check_list_pop_triggered_check_def leads_refl a)

section \<open>Periodic processing\<close>

lemma leads_ordinary:
  assumes a: "agent_ok w ordered" "c \<in> set (s_streams (ses w))"
  shows "leads w (ordinary_check now c w) ordered"
proof -
  have "leads w (ice_send_binding_request now c p w) ordered" if "find P (cl_check_list (cls w c)) = Some p" for P p
  proof (rule leads_send_binding_request[OF a])
    have "p \<in> set (cl_check_list (cls w c))" using that by (auto simp: find_Some_iff)
    then show "p \<in> set (cl_pairs (cls w c))" using check_list_pairs[OF a] by blast
  qed
  then show ?thesis using leads_refl[OF a(1)] leads_conclude_processing[OF a]
    by (auto simp: ordinary_check_def split: option.split)
qed

lemma leads_process_checks:
  assumes a: "agent_ok w ordered" "c \<in> set (s_streams (ses w))"
  shows "leads w (process_checks now c running w) ordered"
proof -
  define w1 where "w1 = ice_check_list_retransmit_connectivity_checks now c w"
  have l1: "leads w w1 ordered" unfolding w1_def by (rule leads_retransmit[OF a])
  have "quiet w1 (upd_cl c (\<lambda>cl. cl\<lparr>cl_ta_time := now\<rparr>) w1)" by (rule quiet_upd_cl) (simp add: static_lists_def)
  then have l2: "leads w (upd_cl c (\<lambda>cl. cl\<lparr>cl_ta_time := now\<rparr>) w1) ordered" by (rule leads_then_quiet[OF l1])
  obtain p w2 where p: "ice_check_list_send_triggered_check now c (upd_cl c (\<lambda>cl. cl\<lparr>cl_ta_time := now\<rparr>) w1) = (p, w2)" by force
  have l3: "leads w w2 ordered" using leads_step[OF l2 leads_triggered[of _ _ c now] a(2)] p by simp
  have l4: "leads w (ordinary_check now c w2) ordered" by (rule leads_step[OF l3 leads_ordinary a(2)])
  show ?thesis
    unfolding process_checks_def Let_def w1_def[symmetric] p prod.case using l1 l3 l4 by simp
qed

lemma leads_process:
  assumes a: "agent_ok w ordered"
  shows "leads w (ice_check_list_process now c w) ordered"
proof (cases "c \<in> set (s_streams (ses w))")
  case True
  define w1 where "w1 = process_event now (process_gathering now c w)"
  have l1: "leads w w1 ordered" unfolding w1_def by (rule leads_quiet[OF a quiet_trans]) (rule quiets)+
  have a1: "agent_ok w1 ordered" "c \<in> set (s_streams (ses w1))" using leadsD[OF l1] True by auto
  have completed: "leads w1 (process_completed now c w1) ordered"
  proof -
    let ?k = "if uint (s_keepalive_timeout (ses w1)) * 1000 \<le> ice_compare_time now (cl_keepalive_time (cls w1 c))
      then upd_cl c (\<lambda>cl. cl\<lparr>cl_keepalive_time := now\<rparr>) (ice_send_keepalive_packets c w1) else w1"
    have "quiet w' (upd_cl c (\<lambda>cl. cl\<lparr>cl_keepalive_time := now\<rparr>) w')" for w' by (rule quiet_upd_cl) (simp add: static_lists_def)
    then have "quiet w1 ?k" using quiet_trans[OF quiet_keepalive[of w1 c]] by (cases "uint (s_keepalive_timeout (ses w1)) * 1000 \<le> ice_compare_time now (cl_keepalive_time (cls w1 c))") simp_all
    then have l: "leads w1 ?k ordered" by (rule leads_quiet[OF a1(1)])
    show ?thesis unfolding process_completed_def by (rule leads_step[OF l leads_process_checks a1(2)])
  qed
  have running: "leads w1 (process_running now c w1) ordered"
  proof -
    let ?w = "ice_conclude_processing now c w1"
    have l: "leads w1 ?w ordered" by (rule leads_conclude_processing[OF a1])
    have "leads w1 (process_checks now c True ?w) ordered" by (rule leads_step[OF l leads_process_checks a1(2)])
    then show ?thesis using l leads_process_checks[OF a1] by (simp add: process_running_def Let_def)
  qed
  have "leads w w1 ordered" "leads w (process_completed now c w1) ordered" "leads w (process_running now c w1) ordered"
    using l1 leads_trans[OF l1 completed] leads_trans[OF l1 running] by blast+
  then show ?thesis
    using True unfolding ice_check_list_process_def Let_def w1_def[symmetric] by (cases "cl_state (cls w1 c)") simp_all
qed (simp add: ice_check_list_process_def leads_refl a)

section \<open>New candidates and pairs in a handler\<close>

lemma leads_set_role: "agent_ok w ordered \<Longrightarrow> leads w (ice_session_set_role r w) ordered"
  using ok_set_role[of w _ r]
  by (auto simp: leads_def ice_session_set_role_def ice_session_compute_pair_priorities_def recompute_all)

lemma leads_new_candidate:
  assumes "agent_ok w ordered" "w' = upd_cl c (\<lambda>cl. f cl) (w\<lparr>cand := (cand w)(cand_brk w := x), cand_brk := cand_brk w + 1\<rparr>)"
    "\<And>cl. cl_pairs (f cl) = cl_pairs cl \<and> cl_check_list (f cl) = cl_check_list cl \<and> cl_triggered_checks_queue (f cl) = cl_triggered_checks_queue cl
      \<and> cl_losing_pairs (f cl) = cl_losing_pairs cl \<and> cl_transaction_list (f cl) = cl_transaction_list cl \<and> cl_valid_list (f cl) = cl_valid_list cl
      \<and> set (cl_local_candidates (f cl)) \<union> set (cl_remote_candidates (f cl)) \<subseteq> insert (cand_brk w) (set (cl_local_candidates cl) \<union> set (cl_remote_candidates cl))"
  shows "leads w w' ordered \<and> cand_brk w < cand_brk w'"
  using ok_new_candidate[OF assms] assms(3)[of "cls w c"] by (simp add: leads_def assms(2))

lemma leads_add_local:
  assumes "ice_add_local_candidate c ty ip port cid b w = Some (r, w')" "agent_ok w ordered"
  shows "leads w w' ordered \<and> (\<forall>a. r = Some a \<longrightarrow> a < cand_brk w')"
proof -
  have new: "leads w (upd_cl c (\<lambda>cl. cl\<lparr>cl_local_componentIDs := ice_add_componentID k (cl_local_componentIDs cl),
        cl_local_candidates := cl_local_candidates cl @ [cand_brk w]\<rparr>) (w\<lparr>cand := (cand w)(cand_brk w := x), cand_brk := cand_brk w + 1\<rparr>)) ordered" for x k
    using leads_new_candidate[where f="\<lambda>cl. cl\<lparr>cl_local_componentIDs := ice_add_componentID k (cl_local_componentIDs cl),
        cl_local_candidates := cl_local_candidates cl @ [cand_brk w]\<rparr>" and c=c and x=x, OF assms(2) refl] by simp
  show ?thesis
    using assms(1) new leads_refl[OF assms(2)]
    by (auto simp: ice_add_local_candidate_def Let_def bind_eq_Some_conv split: if_splits option.splits)
qed

lemma leads_add_remote:
  assumes "ice_add_remote_candidate c ty ip port cid pri f d w = Some (r, w')" "agent_ok w ordered"
  shows "leads w w' ordered \<and> (\<forall>a. r = Some a \<longrightarrow> a < cand_brk w')"
proof -
  have new: "leads w (upd_cl c (\<lambda>cl. cl\<lparr>cl_remote_componentIDs := ice_add_componentID k (cl_remote_componentIDs cl),
        cl_remote_candidates := cl_remote_candidates cl @ [cand_brk w]\<rparr>) (w\<lparr>cand := (cand w)(cand_brk w := x), cand_brk := cand_brk w + 1\<rparr>)) ordered" for x k
    using leads_new_candidate[where f="\<lambda>cl. cl\<lparr>cl_remote_componentIDs := ice_add_componentID k (cl_remote_componentIDs cl),
        cl_remote_candidates := cl_remote_candidates cl @ [cand_brk w]\<rparr>" and c=c and x=x, OF assms(2) refl] by simp
  show ?thesis
    using assms(1) new leads_refl[OF assms(2)]
    by (auto simp: ice_add_remote_candidate_def Let_def bind_eq_Some_conv split: if_splits option.splits)
qed

lemma quiet_upd_cand: "(\<And>x. static_cand (f x) = static_cand x) \<Longrightarrow> quiet w (upd_cand a f w)"
  by (auto simp: quiet_def requests_ok_def)

lemma quiet_foundation [quiets]: "quiet w (ice_compute_candidate_foundation a c w)"
proof -
  have f: "quiet w (upd_cand a (\<lambda>cd. cd\<lparr>c_foundation := x\<rparr>) w)" for x by (rule quiet_upd_cand) (simp add: static_cand_def)
  have g: "quiet w' (upd_cl c (\<lambda>cl. cl\<lparr>cl_foundation_generator := cl_foundation_generator cl + 1\<rparr>) w')" for w'
    by (rule quiet_upd_cl) (simp add: static_lists_def)
  show ?thesis
    unfolding ice_compute_candidate_foundation_def Let_def
    using f quiet_trans[OF f g] by (auto split: option.split)
qed

lemma with_pair_leads:
  assumes "agent_ok w ordered" "c \<in> set (s_streams (ses w))" "l < cand_brk w" "r < cand_brk w"
  shows "leads w (with_pair c l r w) ordered \<and> pair_brk w \<in> set (cl_pairs (cls (with_pair c l r w) c))"
  using ok_with_pair[OF assms] by (auto simp: leads_def with_pair_simps)

lemma with_pair_new: "upd_cl c (\<lambda>cl. cl\<lparr>cl_pairs := cl_pairs cl @ [fst (ice_pair_new l r w)]\<rparr>) (snd (ice_pair_new l r w)) = with_pair c l r w"
  by (simp add: with_pair_def split_beta)

lemma leads_pair_for:
  assumes "agent_ok w ordered" "c \<in> set (s_streams (ses w))" "l < cand_brk w" "r < cand_brk w" and p: "pair_for c l r w = (p, w')"
  shows "leads w w' ordered \<and> p \<in> set (cl_pairs (cls w' c))"
proof (cases "find_pair w l r (cl_pairs (cls w c))")
  case None
  then have "p = pair_brk w" "w' = with_pair c l r w"
    using p with_pair_new[where c=c and l=l and r=r and w=w] by (auto simp: pair_for_def split_beta ice_pair_new_def)
  then show ?thesis using with_pair_leads[OF assms(1-4)] by simp
next
  case (Some q)
  then have "p = q" "w' = w" using p by (simp_all add: pair_for_def)
  then show ?thesis using Some leads_refl[OF assms(1)] by (auto simp: find_pair_def find_Some_iff)
qed

lemma candidates_below:
  assumes "agent_ok w ordered" "c \<in> set (s_streams (ses w))" "a \<in> set (cl_local_candidates (cls w c)) \<union> set (cl_remote_candidates (cls w c))"
  shows "a < cand_brk w"
  using agent_okD[OF assms(1,2)] assms(3) by (auto simp: lists_ok_def)

lemma found_in: "find P xs = Some x \<Longrightarrow> x \<in> set xs"
  by (auto simp: find_Some_iff)

lemma leads_insert_check:
  assumes "agent_ok w ordered" "c \<in> set (s_streams (ses w))" "p \<in> set (cl_pairs (cls w c))"
  shows "leads w (insert_check c p w) ordered"
  using ok_insert_check[OF assms] by (auto simp: leads_def insert_check_def split: option.split)

lemma leads_wait_and_queue:
  assumes a: "agent_ok w ordered" "c \<in> set (s_streams (ses w))" "p \<in> set (cl_pairs (cls w c))"
  shows "leads w (ice_check_list_queue_triggered_check c p (ice_pair_set_state p s w)) ordered"
proof -
  have l: "leads w (ice_pair_set_state p s w) ordered" by (rule leads_quiet[OF a(1) quiet_pair_set_state])
  show ?thesis by (rule leads_trans[OF l], rule leads_queue_triggered) (use leadsD[OF l] a in auto)
qed

section \<open>Binding requests\<close>

lemma leads_learn:
  assumes "ice_learn_peer_reflexive_candidate c e msg ta w = Some (r, w')" "agent_ok w ordered"
  shows "leads w w' ordered \<and> (\<forall>a. r = Some a \<longrightarrow> a < cand_brk w')"
  using assms leads_refl[OF assms(2)]
  by (auto simp: ice_learn_peer_reflexive_candidate_def Let_def bind_eq_Some_conv split: if_splits dest!: leads_add_remote)

lemma leads_trigger_known:
  assumes a: "agent_ok w ordered" "c \<in> set (s_streams (ses w))" "p \<in> set (cl_pairs (cls w c))"
  shows "leads w (trigger_known c p w) ordered"
proof -
  have "leads w (upd_pair p (p_wait_transaction_timeout_update (\<lambda>_. True)) w) ordered"
    by (rule leads_quiet[OF a(1) quiet_upd_pair]) (simp add: static_pair_def)
  then show ?thesis using leads_wait_and_queue[OF a] leads_refl[OF a(1)]
    by (auto simp: trigger_known_def split: IceCandidatePairState.split)
qed

lemma leads_trigger:
  assumes a: "agent_ok w ordered" "c \<in> set (s_streams (ses w))" and r: "\<forall>a. prflx = Some a \<longrightarrow> a < cand_brk w"
  shows "leads w (snd (ice_trigger_connectivity_check_on_binding_request c rs e prflx ta w)) ordered"
proof -
  define R where "R l r = (case find_pair w l r (cl_check_list (cls w c)) of
                None \<Rightarrow> (let (p, w1) = pair_for c l r w
                  in (Some p, ice_check_list_queue_triggered_check c p (ice_pair_set_state p ICP_Waiting (insert_check c p w1))))
              | Some p \<Rightarrow> (Some p, trigger_known c p w))" for l r
  have rest: "leads w (snd (R l r)) ordered" if lr: "l < cand_brk w" "r < cand_brk w" for l r
  proof (cases "find_pair w l r (cl_check_list (cls w c))")
    case None
    obtain p w1 where p: "pair_for c l r w = (p, w1)" by force
    have l1: "leads w w1 ordered" "p \<in> set (cl_pairs (cls w1 c))" using leads_pair_for[OF a lr p] by simp_all
    have l2: "leads w1 (insert_check c p w1) ordered" using leads_insert_check[OF leadsD(1)[OF l1(1)] _ l1(2)] leadsD(2)[OF l1(1)] a(2) by simp
    have "leads w1 (ice_check_list_queue_triggered_check c p (ice_pair_set_state p ICP_Waiting (insert_check c p w1))) ordered"
      by (rule leads_trans[OF l2], rule leads_wait_and_queue) (use leadsD[OF l2] leadsD(2)[OF l1(1)] l1(2) a(2) in auto)
    then show ?thesis using None p leads_trans[OF l1(1)] by (simp add: R_def)
  next
    case (Some p)
    then have "p \<in> set (cl_pairs (cls w c))" using check_list_pairs[OF a] found_in unfolding find_pair_def by (metis subsetD)
    then show ?thesis using Some leads_trigger_known[OF a] by (simp add: R_def)
  qed
  have below: "x < cand_brk w" if "find_address w t xs = Some x" "xs = cl_local_candidates (cls w c) \<or> xs = cl_remote_candidates (cls w c)" for x t xs
    using candidates_below[OF a, of x] found_in[OF that(1)[unfolded find_address_def]] that(2) by auto
  show ?thesis
    unfolding ice_trigger_connectivity_check_on_binding_request_def
    unfolding R_def[symmetric]
    using rest below r leads_refl[OF a(1)] by (auto simp: Let_def split: option.split)
qed

lemma guards:
  assumes a: "agent_ok w ordered"
  shows "leads w (snd (ice_check_received_binding_request_attributes rs e msg w)) ordered"
    "leads w (snd (ice_check_received_binding_request_integrity rs e msg w)) ordered"
    "ice_check_received_binding_request_username rs e msg w = Some r \<Longrightarrow> leads w (snd r) ordered"
    "leads w (snd (ice_check_received_binding_request_role_conflict rs e msg w)) ordered"
proof -
  have err: "leads w (ice_send_error_response rs e msg x y w) ordered" for x y by (rule leads_quiet[OF a]) (rule quiets)
  show "leads w (snd (ice_check_received_binding_request_attributes rs e msg w)) ordered"
    "leads w (snd (ice_check_received_binding_request_integrity rs e msg w)) ordered"
    using err leads_refl[OF a]
    by (simp_all add: ice_check_received_binding_request_attributes_def ice_check_received_binding_request_integrity_def)
  show "ice_check_received_binding_request_username rs e msg w = Some r \<Longrightarrow> leads w (snd r) ordered"
    using err leads_refl[OF a]
    by (auto simp: ice_check_received_binding_request_username_def Let_def split: if_splits)
  show "leads w (snd (ice_check_received_binding_request_role_conflict rs e msg w)) ordered"
    using err leads_refl[OF a] leads_set_role[OF a]
    by (simp add: ice_check_received_binding_request_role_conflict_def)
qed

text \<open>The request after all its checks.\<close>

definition accept_request :: "MSTimeSpec \<Rightarrow> nat \<Rightarrow> ice_ports \<Rightarrow> OrtpEventData \<Rightarrow> IceStunView \<Rightarrow> ice \<Rightarrow> ice option" where
  "accept_request now c rs e msg w4 = do {
       let ta = ice_fill_transport_address (ice_inet_ntoa (e_remote_addr e)) (uint (e_remote_port e));
       (prflx, w5) \<leftarrow> ice_learn_peer_reflexive_candidate c e msg ta w4;
       let (p, w6) = ice_trigger_connectivity_check_on_binding_request c rs e prflx ta w5;
       let w7 = (case p of None \<Rightarrow> w6 | Some p \<Rightarrow> ice_update_nominated_flag_on_binding_request msg p w6);
       Some (ice_conclude_processing now c (ice_send_binding_response rs e msg w7)) }"

lemma leads_accept:
  assumes a: "agent_ok w ordered" "c \<in> set (s_streams (ses w))" and s: "accept_request now c rs e msg w = Some w'"
  shows "leads w w' ordered"
proof -
  let ?ta = "ice_fill_transport_address (ice_inet_ntoa (e_remote_addr e)) (uint (e_remote_port e))"
  obtain prflx w5 where w5: "ice_learn_peer_reflexive_candidate c e msg ?ta w = Some (prflx, w5)"
    using s by (auto simp: accept_request_def Let_def bind_eq_Some_conv)
  obtain p w6 where w6: "ice_trigger_connectivity_check_on_binding_request c rs e prflx ?ta w5 = (p, w6)" by force
  define w7 where "w7 = (case p of None \<Rightarrow> w6 | Some p \<Rightarrow> ice_update_nominated_flag_on_binding_request msg p w6)"
  have w': "w' = ice_conclude_processing now c (ice_send_binding_response rs e msg w7)"
    using s w5 w6 by (simp add: accept_request_def Let_def w7_def)
  have l5: "leads w w5 ordered" "\<forall>a. prflx = Some a \<longrightarrow> a < cand_brk w5" using leads_learn[OF w5 a(1)] by simp_all
  have l6: "leads w w6 ordered"
    using leads_step[OF l5(1) leads_trigger[where c=c and rs=rs and e=e and ta="?ta" and prflx=prflx] a(2)] l5(2) w6 by simp
  have "quiet w6 w7" unfolding w7_def by (auto intro: quiets split: option.split)
  then have "quiet w6 (ice_send_binding_response rs e msg w7)" by (rule quiet_trans) (rule quiets)
  then have l7: "leads w (ice_send_binding_response rs e msg w7) ordered" by (rule leads_then_quiet[OF l6])
  show ?thesis unfolding w' by (rule leads_step[OF l7 leads_conclude_processing a(2)])
qed

lemma leads_request:
  assumes a: "agent_ok w ordered" "c \<in> set (s_streams (ses w))" and s: "ice_handle_received_binding_request now c rs e msg w = Some w'"
  shows "leads w w' ordered"
proof -
  obtain ok1 w1 where g1: "ice_check_received_binding_request_attributes rs e msg w = (ok1, w1)" by force
  obtain ok2 w2 where g2: "ice_check_received_binding_request_integrity rs e msg w1 = (ok2, w2)" by force
  define g3 where "g3 = ice_check_received_binding_request_username rs e msg w2"
  have l1: "leads w w1 ordered" using guards(1)[OF a(1), of rs e msg] g1 by simp
  have l2: "leads w w2 ordered" using leads_trans[OF l1] guards(2)[OF leadsD(1)[OF l1], of rs e msg] g2 by simp
  have eq: "ice_handle_received_binding_request now c rs e msg w =
      (if \<not> ok1 then Some w1 else if \<not> ok2 then Some w2 else do { (ok3, w3) \<leftarrow> g3;
         if \<not> ok3 then Some w3 else let (ok4, w4) = ice_check_received_binding_request_role_conflict rs e msg w3
         in if \<not> ok4 then Some w4 else accept_request now c rs e msg w4 })"
    unfolding ice_handle_received_binding_request_def accept_request_def g3_def by (simp only: g1 g2 Let_def prod.case)
  show ?thesis
  proof (cases "ok1 \<and> ok2")
    case False
    then show ?thesis
      using s l1 l2 unfolding eq by (auto split: if_splits)
  next
    case True
    then obtain ok3 w3 where w3: "g3 = Some (ok3, w3)"
      using s unfolding eq by (cases g3) auto
    obtain ok4 w4 where g4: "ice_check_received_binding_request_role_conflict rs e msg w3 = (ok4, w4)" by force
    have l3: "leads w w3 ordered" using leads_trans[OF l2] guards(3)[OF leadsD(1)[OF l2] w3[unfolded g3_def]] by simp
    have l4: "leads w w4 ordered" using leads_trans[OF l3] guards(4)[OF leadsD(1)[OF l3], of rs e msg] g4 by simp
    show ?thesis
      using s True l3 l4 leads_step[OF l4 leads_accept[where now=now and rs=rs and e=e and msg=msg] a(2)]
      unfolding eq by (auto simp: w3 g4 split: if_splits)
  qed
qed

section \<open>Binding responses and error responses\<close>

lemma leads_stun_server_response:
  assumes a: "agent_ok w ordered" and s: "stun_server_response c rs e msg w = Some (h, w')"
  shows "leads w w' ordered"
proof -
  have q: "quiet x (upd_cl c (cl_stun_server_checks_update g) x)" for x g
    by (rule quiet_upd_cl) (simp add: static_lists_def)
  have q2: "quiet x (upd_cl c (\<lambda>cl. cl\<lparr>cl_gathering_candidates := False, cl_gathering_finished := True\<rparr>) x)" for x
    by (rule quiet_upd_cl) (simp add: static_lists_def)
  have q3: "quiet x (emit (Gathering_Finished True) (x\<lparr>ses := (ses x)\<lparr>s_gathering_end_ts := t\<rparr>\<rparr>))" for x t
    by (rule quiet_trans[OF quiet_ses quiet_emit]) simp_all
  have after: "quiet x (if list_all k_responded (cl_stun_server_checks (cls x c)) then
           (let w' = upd_cl c (\<lambda>cl. cl\<lparr>cl_gathering_candidates := False, cl_gathering_finished := True\<rparr>) x
            in if list_ex (\<lambda>d. cl_gathering_candidates (cls w' d)) (s_streams (ses w')) then w'
               else emit (Gathering_Finished True) (w'\<lparr>ses := (ses w')\<lparr>s_gathering_end_ts := e_ts e\<rparr>\<rparr>))
         else x)" for x
    using q2[of x] quiet_trans[OF q2[of x] q3] by (simp add: Let_def)
  have answered: "leads w (upd_cl c (cl_stun_server_checks_update g) x) ordered" if "leads w x ordered" for x g
    by (rule leads_then_quiet[OF that q])
  have add: "leads w x ordered" if "ice_add_local_candidate c ty ip port cid b w = Some (r, x)" for ty ip port cid b r x
    using leads_add_local[OF that a] by simp
  define asked where "asked = (case find (\<lambda>k. k_sock k = ice_get_socket_from_rtp_session rs e) (cl_stun_server_checks (cls w c)) of
           None \<Rightarrow> Some (False, w)
         | Some k \<Rightarrow> (if find (\<lambda>t. st_transactionID t = tr_id msg) (k_transactions k) = None then Some (False, w)
             else (case ice_parse_stun_server_binding_response msg of
                 Some (addr, port) \<Rightarrow> if ice_get_componentID_from_rtp_session e \<le> 0 then Some (True, w) else do {
                     let cid = word_of_int (ice_get_componentID_from_rtp_session e);
                     w' \<leftarrow> (case find (\<lambda>a. c_type (cand w a) = ICT_HostCandidate \<and> c_componentID (cand w a) = cid) (cl_local_candidates (cls w c)) of
                         None \<Rightarrow> Some w
                       | Some b \<Rightarrow> map_option snd (ice_add_local_candidate c ''srflx'' addr port cid (Some b) w));
                     Some (True, upd_cl c (\<lambda>cl. cl\<lparr>cl_stun_server_checks := update_first (\<lambda>k. k_sock k = ice_get_socket_from_rtp_session rs e)
                        (\<lambda>k. k\<lparr>k_transactions := update_first (\<lambda>t. st_transactionID t = tr_id msg) (\<lambda>t. t\<lparr>st_response_time := e_ts e\<rparr>) (k_transactions k), k_responded := True\<rparr>)
                        (cl_stun_server_checks cl)\<rparr>) w') }
               | None \<Rightarrow> Some (True, w))))"
  obtain w1 where r: "asked = Some (h, w1)" and w': "w' = (if list_all k_responded (cl_stun_server_checks (cls w1 c)) then
           (let w' = upd_cl c (\<lambda>cl. cl\<lparr>cl_gathering_candidates := False, cl_gathering_finished := True\<rparr>) w1
            in if list_ex (\<lambda>d. cl_gathering_candidates (cls w' d)) (s_streams (ses w')) then w'
               else emit (Gathering_Finished True) (w'\<lparr>ses := (ses w')\<lparr>s_gathering_end_ts := e_ts e\<rparr>\<rparr>))
         else w1)"
    using s unfolding stun_server_response_def Let_def asked_def[symmetric, unfolded Let_def] by (cases asked) auto
  have w1: "leads w w1 ordered"
  proof (cases "find (\<lambda>k. k_sock k = ice_get_socket_from_rtp_session rs e) (cl_stun_server_checks (cls w c))")
    case None
    then show ?thesis using r leads_refl[OF a] by (simp add: asked_def)
  next
    case (Some k)
    show ?thesis
    proof (cases "ice_parse_stun_server_binding_response msg")
      case None
      then show ?thesis using r Some leads_refl[OF a] by (simp add: asked_def split: if_splits)
    next
      case p: (Some ap)
      obtain addr port where ap: "ap = (addr, port)" by force
      let ?cid = "word_of_int (ice_get_componentID_from_rtp_session e)"
      show ?thesis
      proof (cases "find (\<lambda>a. c_type (cand w a) = ICT_HostCandidate \<and> c_componentID (cand w a) = ?cid) (cl_local_candidates (cls w c))")
        case None
        then show ?thesis using r Some p ap leads_refl[OF a]
          by (auto simp: asked_def Let_def split: if_splits intro: answered)
      next
        case (Some b)
        then show ?thesis
          using r \<open>find _ (cl_stun_server_checks (cls w c)) = Some k\<close> p ap leads_refl[OF a]
          by (auto simp: asked_def Let_def bind_eq_Some_conv split: if_splits dest!: add intro: answered)
      qed
    qed
  qed
  show ?thesis unfolding w' by (rule leads_then_quiet[OF w1 after])
qed

lemma leads_discover:
  assumes a: "agent_ok w ordered" "c \<in> set (s_streams (ses w))" and s: "ice_discover_peer_reflexive_candidate c p msg w = Some (x, w')"
  shows "leads w w' ordered \<and> x < cand_brk w'"
proof -
  let ?ta = "\<lparr>ta_ip = ice_inet_ntoa (fst (xorMappedAddress msg)), ta_port = uint (snd (xorMappedAddress msg))\<rparr>"
  show ?thesis
  proof (cases "find_address w ?ta (cl_local_candidates (cls w c))")
    case None
    obtain r w1 where r: "ice_add_local_candidate c ''prflx'' (ta_ip ?ta) (ta_port ?ta)
                (c_componentID (cand w (p_local (pair w p)))) (Some (p_local (pair w p))) w = Some (r, w1)"
        and x: "r = Some x" "w' = ice_compute_candidate_foundation x c w1"
      using s None by (auto simp: ice_discover_peer_reflexive_candidate_def Let_def bind_eq_Some_conv)
    have "leads w w1 ordered" "x < cand_brk w1" using leads_add_local[OF r a(1)] x(1) by simp_all
    moreover have q: "quiet w1 w'" unfolding x(2) by (rule quiets)
    ultimately show ?thesis using leads_then_quiet quiet_sesD[OF q] by simp
  next
    case (Some y)
    then have "x = y" "w' = w" using s by (simp_all add: ice_discover_peer_reflexive_candidate_def Let_def)
    then show ?thesis
      using leads_refl[OF a(1)] candidates_below[OF a, of y] found_in[OF Some[unfolded find_address_def]] by simp
  qed
qed

lemma leads_construct:
  assumes a: "agent_ok w ordered" "c \<in> set (s_streams (ses w))" and x: "x < cand_brk w" and g: "g \<in> set (cl_pairs (cls w c))"
  shows "leads w (snd (ice_construct_valid_pair c x g w)) ordered"
proof -
  let ?r = "p_remote (pair w g)"
  obtain p w1 where p: "(case find_pair w x ?r (cl_check_list (cls w c)) of Some p \<Rightarrow> (p, w)
      | None \<Rightarrow> (let (p, w') = ice_pair_new x ?r w in (p, upd_cl c (\<lambda>cl. cl\<lparr>cl_pairs := cl_pairs cl @ [p]\<rparr>) w'))) = (p, w1)" by force
  have l1': "leads w w1 ordered \<and> p \<in> set (cl_pairs (cls w1 c))"
  proof (cases "find_pair w x ?r (cl_check_list (cls w c))")
    case None
    then have "p = pair_brk w" "w1 = with_pair c x ?r w"
      using p with_pair_new[where c=c and l=x and r="?r" and w=w] by (auto simp: split_beta ice_pair_new_def)
    then show ?thesis using with_pair_leads[OF a x] pair_ends[OF a g] by auto
  next
    case (Some q)
    then have q: "q = p" "w1 = w" using p by simp_all
    have "q \<in> set (cl_check_list (cls w c))" using Some found_in unfolding find_pair_def by metis
    then show ?thesis using q leads_refl[OF a(1)] check_list_pairs[OF a] by auto
  qed
  then have l1: "leads w w1 ordered" "p \<in> set (cl_pairs (cls w1 c))" by simp_all
  have g1: "g \<in> set (cl_pairs (cls w1 c))" using leadsD(3)[OF l1(1) g] .
  have a1: "agent_ok w1 ordered" "c \<in> set (s_streams (ses w1))" using leadsD(1,2)[OF l1(1)] a(2) by simp_all
  define losing where "losing = find_pair w1 x ?r (cl_losing_pairs (cls w1 c))"
  define v where "v = \<lparr>v_valid = p, v_generated_from = g, v_selected = (losing \<noteq> None)\<rparr>"
  define w2 where "w2 = upd_cl c (\<lambda>cl. cl\<lparr>cl_valid_list := ms_insort (valid_leq (pair w1)) v (cl_valid_list cl)\<rparr>) w1"
  have "agent_ok w2 ordered" unfolding w2_def by (rule ok_valid_insert[OF a1]) (simp_all add: v_def l1(2) g1)
  then have "leads w1 w2 ordered" by (simp add: leads_def w2_def)
  then have l2: "leads w w2 ordered" by (rule leads_trans[OF l1(1)])
  have a2: "agent_ok w2 ordered" "c \<in> set (s_streams (ses w2))" using leadsD(1,2)[OF l2] a(2) by simp_all
  define w3 where "w3 q = upd_cl c (\<lambda>cl. cl\<lparr>cl_losing_pairs := remove1 q (cl_losing_pairs cl)\<rparr>) w2" for q
  have l3: "leads w (w3 q) ordered" for q
  proof -
    have "set (cl_losing_pairs (cls w2 c)) \<subseteq> set (cl_pairs (cls w2 c))" using agent_okD[OF a2] by (simp add: lists_ok_def)
    then have "set (remove1 q (cl_losing_pairs (cls w2 c))) \<subseteq> set (cl_pairs (cls w2 c))" using set_remove1_subset by fastforce
    from ok_losing[OF a2 this] have "agent_ok (w3 q) ordered" by (simp add: w3_def)
    then have "leads w2 (w3 q) ordered" by (simp add: leads_def w3_def)
    then show ?thesis by (rule leads_trans[OF l2])
  qed
  have l4: "leads w (emit (Losing_Pairs_Completed True) (ice_check_list_set_state c ICL_Completed (w3 q))) ordered" for q
    by (rule leads_then_quiet[OF leads_then_quiet[OF l3 quiet_set_state] quiet_emit]) simp
  have "ice_construct_valid_pair c x g w = (if find (\<lambda>v. v_valid v = p \<and> v_generated_from v = g) (cl_valid_list (cls w1 c)) \<noteq> None then (p, w1)
      else (case losing of None \<Rightarrow> (p, w2)
        | Some q \<Rightarrow> (p, if ice_session_nb_losing_pairs (w3 q) = 0
             then emit (Losing_Pairs_Completed True) (ice_check_list_set_state c ICL_Completed (w3 q)) else w3 q)))"
    unfolding ice_construct_valid_pair_def Let_def p[unfolded Let_def] prod.case losing_def w2_def w3_def v_def by simp
  then show ?thesis using l1(1) l2 l3 l4 by (simp split: option.split)
qed

lemma transaction_pair:
  assumes "agent_ok w ordered" "c \<in> set (s_streams (ses w))" "find P (cl_transaction_list (cls w c)) = Some t"
  shows "t_pair t \<in> set (cl_pairs (cls w c))"
proof -
  have "t_pair ` set (cl_transaction_list (cls w c)) \<subseteq> set (cl_pairs (cls w c))" using agent_okD[OF assms(1,2)] by (simp add: lists_ok_def)
  then show ?thesis using found_in[OF assms(3)] by blast
qed

lemma leads_connectivity_response:
  assumes a: "agent_ok w ordered" "c \<in> set (s_streams (ses w))" and s: "connectivity_response now c rs e msg w = Some w'"
  shows "leads w w' ordered"
proof (cases "find (\<lambda>t. t_transactionID t = tr_id msg) (cl_transaction_list (cls w c))")
  case None
  then show ?thesis using s leads_refl[OF a(1)] by (simp add: connectivity_response_def)
next
  case (Some t)
  let ?g = "t_pair t"
  obtain ok w1 where w1: "ice_check_received_binding_response_addresses rs e ?g w = (ok, w1)" by force
  have q1: "quiet w (snd (ice_check_received_binding_response_addresses rs e ?g w))"
    by (simp add: ice_check_received_binding_response_addresses_def Let_def quiet_pair_set_state)
  have l1: "leads w w1 ordered" using leads_quiet[OF a(1) q1] w1 by simp
  have a1: "agent_ok w1 ordered" "c \<in> set (s_streams (ses w1))" "?g \<in> set (cl_pairs (cls w1 c))"
    using leadsD[OF l1] a(2) transaction_pair[OF a Some] by auto
  show ?thesis
  proof (cases "ok \<and> ice_check_received_binding_response_attributes msg")
    case False
    then show ?thesis using s Some w1 l1 by (auto simp: connectivity_response_def Let_def split: if_splits)
  next
    case True
    obtain x w2 where w2: "ice_discover_peer_reflexive_candidate c ?g msg w1 = Some (x, w2)"
      using s Some w1 True by (auto simp: connectivity_response_def Let_def bind_eq_Some_conv)
    have l2: "leads w1 w2 ordered" "x < cand_brk w2" using leads_discover[OF a1(1,2) w2] by simp_all
    obtain v w3 where w3: "ice_construct_valid_pair c x ?g w2 = (v, w3)" by force
    have l3: "leads w2 w3 ordered"
      using leads_construct[OF leadsD(1)[OF l2(1)] _ l2(2) leadsD(3)[OF l2(1) a1(3)]] leadsD(2)[OF l2(1)] a1(2) w3 by simp
    define w5 where "w5 = ice_update_nominated_flag_on_binding_response v ?g (p_state (pair w1 ?g)) (ice_update_pair_states_on_binding_response c ?g w3)"
    have "quiet w3 w5" unfolding w5_def by (rule quiet_trans) (rule quiets)+
    then have l5: "leads w w5 ordered" by (rule leads_then_quiet[OF leads_trans[OF leads_trans[OF l1 l2(1)] l3]])
    have "w' = ice_conclude_processing now c w5"
      using s Some w1 True w2 w3 by (simp add: connectivity_response_def w5_def Let_def)
    then show ?thesis using leads_step[OF l5 leads_conclude_processing a(2)] by simp
  qed
qed

lemma leads_response:
  assumes a: "agent_ok w ordered" "c \<in> set (s_streams (ses w))" and s: "ice_handle_received_binding_response now c rs e msg w = Some w'"
  shows "leads w w' ordered"
proof -
  obtain h w1 where h: "(if cl_gathering_candidates (cls w c) \<and> e_remote_addr e = fst (s_ss (ses w)) \<and> e_remote_port e = snd (s_ss (ses w))
      then stun_server_response c rs e msg w else Some (False, w)) = Some (h, w1)"
    and w': "(if h then Some w1 else connectivity_response now c rs e msg w1) = Some w'"
    using s unfolding ice_handle_received_binding_response_def bind_eq_Some_conv by auto
  have l1: "leads w w1 ordered" using h leads_stun_server_response[OF a(1)] leads_refl[OF a(1)] by (auto split: if_splits)
  show ?thesis
    using w' l1 leads_step[OF l1 leads_connectivity_response a(2)] by (cases h) auto
qed

lemma leads_error_response:
  assumes a: "agent_ok w ordered" "c \<in> set (s_streams (ses w))"
  shows "leads w (ice_handle_received_error_response now c msg w) ordered"
proof (cases "find (\<lambda>t. t_transactionID t = tr_id msg) (cl_transaction_list (cls w c))")
  case None
  then show ?thesis using leads_refl[OF a(1)] by (simp add: ice_handle_received_error_response_def)
next
  case (Some t)
  let ?p = "t_pair t"
  define w1 where "w1 = ice_pair_set_state ?p ICP_Failed w"
  have l1: "leads w w1 ordered" unfolding w1_def by (rule leads_quiet[OF a(1)]) (rule quiets)
  have l2: "leads w (ice_session_set_role r w1) ordered" for r by (rule leads_trans[OF l1 leads_set_role]) (rule leadsD(1)[OF l1])
  have l3: "leads w (ice_check_list_queue_triggered_check c ?p (ice_pair_set_state ?p ICP_Waiting (ice_session_set_role r w1))) ordered" for r
    by (rule leads_trans[OF l2], rule leads_wait_and_queue)
       (use leadsD[OF l2] a(2) transaction_pair[OF a Some] in auto)
  have "leads w (ice_conclude_processing now c x) ordered" if "leads w x ordered" for x by (rule leads_step[OF that leads_conclude_processing a(2)])
  then show ?thesis using Some l1 l3 by (simp add: ice_handle_received_error_response_def Let_def w1_def)
qed

lemma leads_packet:
  assumes a: "agent_ok w ordered" and s: "ice_handle_stun_packet now c rs e parsed w = Some w'"
  shows "leads w w' ordered"
proof (cases "c \<in> set (s_streams (ses w))")
  case True
  then show ?thesis
    using s leads_refl[OF a] leads_request[OF a True] leads_response[OF a True] leads_error_response[OF a True]
    by (auto simp: ice_handle_stun_packet_def split: option.splits stun_type.splits)
qed (use s leads_refl[OF a] in \<open>simp add: ice_handle_stun_packet_def\<close>)

section \<open>Losing pairs and restart\<close>

lemma leads_settle:
  assumes a: "agent_ok w ordered" "c \<in> set (s_streams (ses w))" "p \<in> set (cl_pairs (cls w c))"
  shows "leads w (settle_losing_pair now c p w) ordered"
proof -
  have v: "(\<lambda>v. (v_valid v, v_generated_from v)) ` set (update_first P (\<lambda>v. v\<lparr>v_selected := True\<rparr>) vs) = (\<lambda>v. (v_valid v, v_generated_from v)) ` set vs" for P vs
    by (induction vs) auto
  have "quiet w (upd_cl c (\<lambda>cl. cl\<lparr>cl_valid_list := update_first P (\<lambda>v. v\<lparr>v_selected := True\<rparr>) (cl_valid_list cl)\<rparr>) w)" for P
    by (rule quiet_upd_cl) (simp add: static_lists_def v)
  then have sel: "leads w (upd_cl c (\<lambda>cl. cl\<lparr>cl_valid_list := update_first P (\<lambda>v. v\<lparr>v_selected := True\<rparr>) (cl_valid_list cl)\<rparr>) w) ordered" for P
    by (rule leads_quiet[OF a(1)])
  have "set (cl_losing_pairs (cls w c) @ [p]) \<subseteq> set (cl_pairs (cls w c))" using agent_okD[OF a(1,2)] a(3) by (simp add: lists_ok_def)
  from ok_losing[OF a(1,2) this] have los: "leads w (upd_cl c (\<lambda>cl. cl\<lparr>cl_losing_pairs := cl_losing_pairs cl @ [p]\<rparr>) w) ordered"
    by (simp add: leads_def)
  show ?thesis
    using sel los leads_quiet[OF a(1) quiet_schedule_event] leads_refl[OF a(1)]
    by (simp add: settle_losing_pair_def split: prod.split)
qed

lemma leads_add_losing_pair:
  assumes a: "agent_ok w ordered" "c \<in> set (s_streams (ses w))"
    and s: "ice_add_losing_pair now c cid la lp ra rp w = Some w'"
  shows "leads w w' ordered"
proof -
  define found where "found = (case find_address w \<lparr>ta_ip = take 63 la, ta_port = lp\<rparr> (cl_local_candidates (cls w c)) of
         Some a \<Rightarrow> Some (Some a, False, w)
       | None \<Rightarrow> (let known = find (\<lambda>a. ta_ip (c_taddr (cand w a)) = la) (cl_remote_candidates (cls w c));
              srflx = (if known = None then None else find_type_component (cand w) ICT_ServerReflexiveCandidate cid (cl_remote_candidates (cls w c)))
            in (case srflx of
                  None \<Rightarrow> Some (None, False, w)
                | Some s \<Rightarrow> do {
                    (r, w') \<leftarrow> ice_add_local_candidate c ''relay'' la lp cid (Some s) w;
                    a \<leftarrow> r;
                    Some (Some a, True, ice_compute_candidate_foundation a c w') })))"
  obtain l b w1 where f: "found = Some (l, b, w1)" and rest: "(case l of None \<Rightarrow> Some w1 | Some l \<Rightarrow>
       (case find_address w1 \<lparr>ta_ip = take 63 ra, ta_port = rp\<rparr> (cl_remote_candidates (cls w1 c)) of
          None \<Rightarrow> Some w1
        | Some r \<Rightarrow> (let w2 = (if b then (let (p, w') = ice_pair_new l r w1 in upd_cl c (\<lambda>cl. cl\<lparr>cl_pairs := cl_pairs cl @ [p]\<rparr>) w') else w1);
               (p, w3) = pair_for c l r w2
            in Some (settle_losing_pair now c p w3)))) = Some w'"
    using s unfolding ice_add_losing_pair_def found_def[symmetric] by (cases found) auto
  have l1: "leads w w1 ordered \<and> (\<forall>x. l = Some x \<longrightarrow> x < cand_brk w1)"
  proof (cases "find_address w \<lparr>ta_ip = take 63 la, ta_port = lp\<rparr> (cl_local_candidates (cls w c))")
    case (Some x)
    then show ?thesis
      using f leads_refl[OF a(1)] candidates_below[OF a, of x] found_in[OF Some[unfolded find_address_def]] by (auto simp: found_def)
  next
    case None
    have add: "leads w (ice_compute_candidate_foundation x c y) ordered \<and> x < cand_brk (ice_compute_candidate_foundation x c y)"
      if "ice_add_local_candidate c ty ip port i bs w = Some (Some x, y)" for ty ip port i bs x y
    proof -
      have "leads w y ordered" "x < cand_brk y" using leads_add_local[OF that a(1)] by simp_all
      then show ?thesis using leads_then_quiet[OF _ quiet_foundation] quiet_sesD[OF quiet_foundation[of y x c]] by simp
    qed
    from None f leads_refl[OF a(1)] show ?thesis
      by (auto simp: found_def Let_def bind_eq_Some_conv split: if_splits option.splits dest: add)
  qed
  show ?thesis
  proof (cases "l = None \<or> find_address w1 \<lparr>ta_ip = take 63 ra, ta_port = rp\<rparr> (cl_remote_candidates (cls w1 c)) = None")
    case True
    then show ?thesis using rest l1 by (auto split: option.splits)
  next
    case False
    then obtain x r where x: "l = Some x" and r: "find_address w1 \<lparr>ta_ip = take 63 ra, ta_port = rp\<rparr> (cl_remote_candidates (cls w1 c)) = Some r" by auto
    have a1: "agent_ok w1 ordered" "c \<in> set (s_streams (ses w1))" using l1 leadsD(1,2)[of w w1 ordered] a(2) by simp_all
    have below: "x < cand_brk w1" "r < cand_brk w1"
      using l1 x candidates_below[OF a1, of r] found_in[OF r[unfolded find_address_def]] by auto
    define w2 where "w2 = (if b then with_pair c x r w1 else w1)"
    have l2: "leads w1 w2 ordered" using with_pair_leads[OF a1 below] leads_refl[OF a1(1)] by (simp add: w2_def)
    have b2: "x < cand_brk w2" "r < cand_brk w2" using below l2 by (simp_all add: leads_def)
    obtain p w3 where p: "pair_for c x r w2 = (p, w3)" by force
    have l3: "leads w2 w3 ordered" "p \<in> set (cl_pairs (cls w3 c))"
      using leads_pair_for[OF leadsD(1)[OF l2] _ b2 p] leadsD(2)[OF l2] a1(2) by auto
    have "w' = settle_losing_pair now c p w3"
      using rest x r p with_pair_new[where c=c and l=x and r=r and w=w1] by (simp add: w2_def split_beta split: if_splits)
    moreover have "leads w3 (settle_losing_pair now c p w3) ordered"
      using leads_settle[OF leadsD(1)[OF l3(1)] _ l3(2)] leadsD(2)[OF l3(1)] leadsD(2)[OF l2] a1(2) by simp
    ultimately show ?thesis using l1 leads_trans l2 l3(1) by blast
  qed
qed

section \<open>Restart and selection\<close>

lemma ok_restart_list:
  assumes a: "agent_ok w ordered"
  shows "agent_ok (ice_check_list_restart c w) ordered"
proof -
  let ?f = "\<lambda>cl. ice_check_list_init\<lparr>cl_rtp_session := cl_rtp_session cl,
     cl_local_candidates := cl_local_candidates cl, cl_local_componentIDs := cl_local_componentIDs cl,
     cl_foundation_generator := cl_foundation_generator cl\<rparr>"
  have "lists_ok d (upd_cl c ?f w) \<and> (ordered \<longrightarrow> order_ok d (upd_cl c ?f w)) \<and> nominations_ok d (upd_cl c ?f w)"
    if d: "d \<in> set (s_streams (ses w))" for d
  proof (cases "d = c")
    case True
    then show ?thesis using agent_okD[OF a d] by (simp add: lists_ok_def order_ok_def nominations_ok_def ice_check_list_init_def)
  next
    case False
    then show ?thesis using agent_okD[OF a d] other_list[where d=d and c=c and f="?f" and w=w] by simp
  qed
  moreover have "disjoint_lists (upd_cl c ?f w)" using a by (auto simp: agent_ok_def disjoint_lists_def ice_check_list_init_def)
  moreover have "requests_ok (upd_cl c ?f w)" using a by (simp add: agent_ok_def requests_ok_def)
  ultimately show ?thesis by (simp add: ice_check_list_restart_def agent_ok_def)
qed

lemma ok_restart:
  assumes a: "agent_ok w ordered"
  shows "agent_ok (ice_session_restart tb u p w) ordered"
proof -
  have "quiet w (w\<lparr>ses := (ses w)\<lparr>s_state := IS_Stopped, s_tie_breaker := tb, s_local_ufrag := u, s_local_pwd := p,
        s_remote_ufrag := None, s_remote_pwd := None, s_event_time := no_time, s_send_event := False\<rparr>\<rparr>)"
    by (rule quiet_ses) simp_all
  then show ?thesis unfolding ice_session_restart_def
    by (intro fold_invariant_on[of _ "\<lambda>w. agent_ok w ordered"]) (auto intro: ok_restart_list quiet_agent_ok[OF _ a])
qed

lemma quiet_select [quiets]: "quiet w (ice_session_select_candidates w)"
proof -
  let ?img = "\<lambda>vs. (\<lambda>v. (v_valid v, v_generated_from v)) ` set vs"
  have s: "?img (select_first P vs) = ?img vs" for P vs
    by (induction vs) auto
  have m: "?img (map (\<lambda>v. v\<lparr>v_selected := False\<rparr>) vs) = ?img vs" for vs
    by (induction vs) auto
  have u: "quiet w (upd_cl c (\<lambda>cl. cl\<lparr>cl_valid_list := vs\<rparr>) w)" if "?img vs = ?img (cl_valid_list (cls w c))" for c w vs
    using that by (intro quiet_upd_cl) (simp add: static_lists_def)
  have "quiet w (ice_check_list_select_candidates c w)" for c w
  proof -
    have "quiet w (upd_cl c (\<lambda>cl. cl\<lparr>cl_valid_list := select_first (nominated_for w 2) (select_first (nominated_for w 1)
            (map (\<lambda>v. v\<lparr>v_selected := False\<rparr>) (cl_valid_list (cls w c))))\<rparr>) w)"
      by (rule u) (simp only: s m)
    then show ?thesis by (simp add: ice_check_list_select_candidates_def)
  qed
  then show ?thesis unfolding ice_session_select_candidates_def by (rule quiet_fold)
qed

section \<open>Steps of the agent\<close>

inductive ice_step :: "ice \<Rightarrow> ice \<Rightarrow> bool" where
  packet: "ice_handle_stun_packet now c rs e parsed w = Some w' \<Longrightarrow> ice_step w w'"
| tick: "ice_step w (ice_check_list_process now c w)"
| losing: "ice_add_losing_pair now c cid la lp ra rp w = Some w' \<Longrightarrow> c \<in> set (s_streams (ses w)) \<Longrightarrow> ice_step w w'"
| local_candidate: "ice_add_local_candidate c ty ip port cid b w = Some (r, w') \<Longrightarrow> ice_step w w'"
| remote_candidate: "ice_add_remote_candidate c ty ip port cid pri f d w = Some (r, w') \<Longrightarrow> ice_step w w'"
| role: "ice_step w (ice_session_set_role r w)"
| select: "ice_step w (ice_session_select_candidates w)"
| restart: "ice_step w (ice_session_restart tb u p w)"

lemma ok_step: "ice_step w w' \<Longrightarrow> agent_ok w ordered \<Longrightarrow> agent_ok w' ordered"
proof (induction rule: ice_step.induct)
  case packet then show ?case using leads_packet leadsD(1) by blast
next
  case tick then show ?case using leads_process leadsD(1) by blast
next
  case losing then show ?case using leads_add_losing_pair leadsD(1) by blast
next
  case local_candidate then show ?case using leads_add_local leadsD(1) by blast
next
  case remote_candidate then show ?case using leads_add_remote leadsD(1) by blast
next
  case role then show ?case by (rule ok_set_role)
next
  case (select w) then show ?case by (rule quiet_agent_ok[OF quiet_select])
next
  case restart then show ?case by (rule ok_restart)
qed

lemma ok_steps: "ice_step\<^sup>*\<^sup>* w w' \<Longrightarrow> agent_ok w ordered \<Longrightarrow> agent_ok w' ordered"
  by (induction rule: rtranclp_induct) (auto intro: ok_step)

section \<open>The start\<close>

definition bases_below :: "ice \<Rightarrow> bool" where
  "bases_below w \<longleftrightarrow> (\<forall>a<cand_brk w. \<forall>b. c_base (cand w a) = Some b \<longrightarrow> b < cand_brk w)"

definition fresh_agent :: "ice \<Rightarrow> bool" where
  "fresh_agent w \<longleftrightarrow> outputs w = [] \<and> distinct (s_streams (ses w)) \<and> (\<forall>c\<in>set (s_streams (ses w)).
     cl_pairs (cls w c) = [] \<and> cl_check_list (cls w c) = [] \<and> cl_triggered_checks_queue (cls w c) = [] \<and> cl_losing_pairs (cls w c) = []
     \<and> cl_transaction_list (cls w c) = [] \<and> cl_valid_list (cls w c) = []
     \<and> (\<forall>a\<in>set (cl_local_candidates (cls w c)) \<union> set (cl_remote_candidates (cls w c)). a < cand_brk w))
     \<and> bases_below w"

text \<open>A pair with a server reflexive local candidate keeps its priority when the candidate is replaced by its base.\<close>

definition no_srflx :: "ice \<Rightarrow> bool" where
  "no_srflx w \<longleftrightarrow> (\<forall>c\<in>set (s_streams (ses w)). \<forall>a\<in>set (cl_local_candidates (cls w c)).
     c_type (cand w a) \<noteq> ICT_ServerReflexiveCandidate)"

lemma ok_fresh: "fresh_agent w \<Longrightarrow> agent_ok w ordered"
  by (auto simp: fresh_agent_def agent_ok_def lists_ok_def order_ok_def nominations_ok_def disjoint_lists_def requests_ok_def)

text \<open>The state between the lists: the candidates of the session are those of the start, and pairs have local candidates of their list.\<close>

definition starting :: "ice \<Rightarrow> ice \<Rightarrow> bool \<Rightarrow> bool" where
  "starting w w' ordered \<longleftrightarrow> agent_ok w' ordered \<and> s_streams (ses w') = s_streams (ses w) \<and> cand w' = cand w \<and> cand_brk w' = cand_brk w
     \<and> (\<forall>c. cl_local_candidates (cls w' c) = cl_local_candidates (cls w c) \<and> cl_remote_candidates (cls w' c) = cl_remote_candidates (cls w c))
     \<and> (ordered \<longrightarrow> (\<forall>c\<in>set (s_streams (ses w)). \<forall>p\<in>set (cl_pairs (cls w' c)). p_local (pair w' p) \<in> set (cl_local_candidates (cls w c))))
     \<and> (\<forall>c. cl_triggered_checks_queue (cls w' c) = cl_triggered_checks_queue (cls w c) \<and> cl_losing_pairs (cls w' c) = cl_losing_pairs (cls w c)
        \<and> cl_transaction_list (cls w' c) = cl_transaction_list (cls w c) \<and> cl_valid_list (cls w' c) = cl_valid_list (cls w c))"

lemma starting_with_pair:
  assumes s: "starting w0 w ordered" and c: "c \<in> set (s_streams (ses w0))" and lr: "l \<in> set (cl_local_candidates (cls w0 c))" "r \<in> set (cl_remote_candidates (cls w0 c))"
  shows "starting w0 (with_pair c l r w) ordered"
proof -
  have ok: "agent_ok w ordered" "s_streams (ses w) = s_streams (ses w0)" using s by (simp_all add: starting_def)
  have "l < cand_brk w" "r < cand_brk w"
    using candidates_below[OF ok(1), of c] c lr s by (auto simp: starting_def)
  then have "agent_ok (with_pair c l r w) ordered" using c ok by (intro ok_with_pair) simp_all
  moreover have "p_local (pair (with_pair c l r w) p) \<in> set (cl_local_candidates (cls w0 d))"
    if ordered and d: "d \<in> set (s_streams (ses w0))" "p \<in> set (cl_pairs (cls (with_pair c l r w) d))" for d p
  proof (cases "p = pair_brk w")
    case True
    then have "d = c"
      using d pair_below[OF ok(1), of d p] ok(2) by (auto simp: with_pair_simps split: if_splits)
    then show ?thesis using True lr by (simp add: with_pair_simps pair_init_static)
  next
    case False
    then have "p \<in> set (cl_pairs (cls w d))" using d(2) by (auto simp: with_pair_simps split: if_splits)
    then show ?thesis using False s d(1) \<open>ordered\<close> by (auto simp: starting_def with_pair_simps)
  qed
  ultimately show ?thesis using s by (auto simp: starting_def with_pair_simps)
qed

lemma starting_form:
  assumes s: "starting w0 w ordered" and c: "c \<in> set (s_streams (ses w0))"
  shows "starting w0 (ice_form_candidate_pairs c w) ordered"
proof -
  have ls: "cl_local_candidates (cls w c) = cl_local_candidates (cls w0 c)" "cl_remote_candidates (cls w c) = cl_remote_candidates (cls w0 c)"
    using s by (simp_all add: starting_def)
  have step: "starting w0 (if c_componentID (cand w' l) = c_componentID (cand w' r)
      then (let (p, w2) = ice_pair_new l r w' in upd_cl c (\<lambda>cl. cl\<lparr>cl_pairs := cl_pairs cl @ [p]\<rparr>) w2) else w') ordered"
    if "starting w0 w' ordered" "l \<in> set (cl_local_candidates (cls w0 c))" "r \<in> set (cl_remote_candidates (cls w0 c))" for l r w'
    using that starting_with_pair[OF that(1) c that(2,3)] unfolding with_pair_def by simp
  show ?thesis
    unfolding ice_form_candidate_pairs_def ls
    by (intro fold_invariant_on[of _ "\<lambda>w. starting w0 w ordered"] step s)
qed

lemma replace_nothing:
  assumes "\<forall>p\<in>set ps. c_type (cand w (p_local (pair w p))) \<noteq> ICT_ServerReflexiveCandidate"
  shows "fold_option ice_replace_srflx_by_base_in_pair ps w = Some w"
  using assms by (induction ps) (auto simp: ice_replace_srflx_by_base_in_pair_def)

definition replaced :: "ice \<Rightarrow> ice \<Rightarrow> bool" where
  "replaced w w1 \<longleftrightarrow> (\<exists>P. w1 = w\<lparr>pair := P\<rparr>) \<and> (\<forall>p. p_remote (pair w1 p) = p_remote (pair w p)
     \<and> p_use_candidate (pair w1 p) = p_use_candidate (pair w p)
     \<and> (bases_below w \<longrightarrow> p_local (pair w p) < cand_brk w \<longrightarrow> p_local (pair w1 p) < cand_brk w))"

lemma replace_facts: "fold_option ice_replace_srflx_by_base_in_pair ps w = Some w1 \<Longrightarrow> replaced w w1"
proof (induction ps arbitrary: w)
  case Nil
  then show ?case unfolding replaced_def by (intro conjI exI[of _ "pair w"]) simp_all
next
  case (Cons p ps)
  then obtain w2 where w2: "ice_replace_srflx_by_base_in_pair p w = Some w2" "replaced w2 w1"
    by (auto simp: bind_eq_Some_conv)
  have "replaced w w2"
  proof (cases "w2 = w")
    case True
    then show ?thesis unfolding replaced_def by (intro conjI exI[of _ "pair w"]) simp_all
  next
    case False
    then obtain b where "w2 = upd_pair p (p_local_update (\<lambda>_. b)) w" "c_base (cand w (p_local (pair w p))) = Some b"
      using w2(1) by (auto simp: ice_replace_srflx_by_base_in_pair_def split: if_splits)
    moreover have "\<exists>P. upd_pair p f w = w\<lparr>pair := P\<rparr>" for f by blast
    ultimately show ?thesis unfolding replaced_def bases_below_def by auto
  qed
  then have c: "cand w2 = cand w" "cand_brk w2 = cand_brk w" and P: "\<exists>P. w2 = w\<lparr>pair := P\<rparr>" by (auto simp: replaced_def)
  then have "\<exists>P. w1 = w\<lparr>pair := P\<rparr>" "bases_below w2 = bases_below w" using w2(2) by (auto simp: replaced_def bases_below_def)
  with \<open>replaced w w2\<close> w2(2) c show ?case unfolding replaced_def by simp
qed

text \<open>At the start nothing is nominated, so replacing candidates by their bases concerns the priorities only.\<close>

lemma starting_replace:
  assumes fr: "fresh_agent w0" "ordered \<longrightarrow> no_srflx w0" and s: "starting w0 w ordered" and c: "c \<in> set (s_streams (ses w0))"
    and r: "fold_option ice_replace_srflx_by_base_in_pair (cl_pairs (cls w c)) w = Some w1"
  shows "starting w0 w1 ordered"
proof (cases ordered)
  case True
  then have "\<forall>p\<in>set (cl_pairs (cls w c)). c_type (cand w (p_local (pair w p))) \<noteq> ICT_ServerReflexiveCandidate"
    using fr s c by (auto simp: starting_def no_srflx_def)
  then have "w1 = w" using r replace_nothing by (metis option.inject)
  then show ?thesis using s by simp
next
  case False
  have rep: "replaced w w1" by (rule replace_facts[OF r])
  then obtain P where P: "w1 = w\<lparr>pair := P\<rparr>" by (auto simp: replaced_def)
  have ok: "agent_ok w False" "s_streams (ses w) = s_streams (ses w0)" "cand w = cand w0" "cand_brk w = cand_brk w0"
      "cl_valid_list (cls w d) = cl_valid_list (cls w0 d)" for d
    using s False by (simp_all add: starting_def)
  have base: "bases_below w" using fr(1) ok(3,4) by (simp add: fresh_agent_def bases_below_def)
  have new: "p_remote (P p) = p_remote (pair w p)" "p_use_candidate (P p) = p_use_candidate (pair w p)"
      "p_local (pair w p) < cand_brk w \<Longrightarrow> p_local (P p) < cand_brk w" for p
    using rep base unfolding replaced_def P by simp_all
  have "lists_ok d w1 \<and> nominations_ok d w1" if d: "d \<in> set (s_streams (ses w))" for d
  proof
    have l: "lists_ok d w" "nominations_ok d w" using agent_okD[OF ok(1) d] by simp_all
    then show "lists_ok d w1" by (simp add: lists_ok_def P new)
    have "cl_valid_list (cls w d) = []" using fr(1) d ok(2,5) by (simp add: fresh_agent_def)
    then have "\<not> p_use_candidate (pair w p)" if "p \<in> set (cl_pairs (cls w d))" for p
      using l(2) that by (auto simp: nominations_ok_def)
    then show "nominations_ok d w1" by (simp add: nominations_ok_def P new)
  qed
  moreover have "disjoint_lists w1" "requests_ok w1"
    using ok(1) by (simp_all add: agent_ok_def disjoint_lists_def requests_ok_def P new)
  ultimately have "agent_ok w1 False" by (simp add: agent_ok_def P)
  then show ?thesis using s False by (simp add: starting_def P)
qed

lemma prune_loop_lists:
  "cl_check_list cl = [] \<Longrightarrow> cl_check_list (prune_loop w kept ps cl) = []"
  "cl_valid_list cl = [] \<Longrightarrow> cl_valid_list (prune_loop w kept ps cl) = []"
  "cl_triggered_checks_queue (prune_loop w kept ps cl) = cl_triggered_checks_queue cl"
  "cl_losing_pairs (prune_loop w kept ps cl) = cl_losing_pairs cl" "cl_transaction_list (prune_loop w kept ps cl) = cl_transaction_list cl"
  by (induction w kept ps cl rule: prune_loop.induct) (auto simp: ice_free_candidate_pair_def)

lemma ok_pruned:
  assumes a: "agent_ok w ordered" "c \<in> set (s_streams (ses w))"
    and e: "cl_triggered_checks_queue (cls w c) = []" "cl_losing_pairs (cls w c) = []" "cl_transaction_list (cls w c) = []" "cl_valid_list (cls w c) = []"
    and f: "cl_triggered_checks_queue (f (cls w c)) = []" "cl_losing_pairs (f (cls w c)) = []" "cl_transaction_list (f (cls w c)) = []" "cl_valid_list (f (cls w c)) = []"
      "cl_local_candidates (f (cls w c)) = cl_local_candidates (cls w c)" "cl_remote_candidates (f (cls w c)) = cl_remote_candidates (cls w c)"
      "distinct (cl_pairs (f (cls w c)))" "set (cl_pairs (f (cls w c))) \<subseteq> set (cl_pairs (cls w c))"
      "cl_check_list (f (cls w c)) = fold (ms_insort (pair_leq (pair w))) (cl_pairs (f (cls w c))) []"
  shows "agent_ok (upd_cl c f w) ordered"
proof -
  let ?ps = "cl_pairs (f (cls w c))" and ?cs = "cl_check_list (f (cls w c))"
  have ok: "lists_ok c w" "ordered \<longrightarrow> order_ok c w" "nominations_ok c w" using agent_okD[OF a] by simp_all
  have m: "mset ?cs = mset ?ps" unfolding f(9) by (simp add: mset_fold_insort)
  have ds: "distinct ?cs" "set ?cs = set ?ps" using m f(7) by (metis mset_eq_imp_distinct_iff, metis mset_eq_setD)
  have srt: "sorted_wrt (\<lambda>p q. unat (p_priority (pair w q)) div 2 \<le> unat (p_priority (pair w p)) div 2) ?cs"
    unfolding f(9) by (rule by_half_priority.foldr_insort_sorted) simp
  have "lists_ok c (upd_cl c f w)" using ok(1) f ds by (auto simp: lists_ok_def)
  moreover have "ordered \<longrightarrow> order_ok c (upd_cl c f w)" using ok(2) f(8) srt by (auto simp: order_ok_def priority_now_def)
  moreover have "nominations_ok c (upd_cl c f w)"
  proof -
    have "\<not> p_use_candidate (pair w p)" if "p \<in> set (cl_pairs (cls w c))" for p
      using ok(3) that e(4) by (auto simp: nominations_ok_def)
    then show ?thesis using f(8) by (auto simp: nominations_ok_def)
  qed
  ultimately have "lists_ok d (upd_cl c f w) \<and> (ordered \<longrightarrow> order_ok d (upd_cl c f w)) \<and> nominations_ok d (upd_cl c f w)"
    if "d \<in> set (s_streams (ses w))" for d
    using agent_okD[OF a(1) that] other_list[where d=d and c=c and f=f and w=w] by (cases "d = c") auto
  moreover have "disjoint_lists (upd_cl c f w)"
    using a f(8) by (auto simp: agent_ok_def disjoint_lists_def split: if_splits)
  moreover have "requests_ok (upd_cl c f w)" using a(1) by (simp add: agent_ok_def requests_ok_def)
  ultimately show ?thesis by (simp add: agent_ok_def)
qed

lemma starting_prune:
  assumes fr: "fresh_agent w0" "ordered \<longrightarrow> no_srflx w0" and s0: "starting w0 w ordered" and c: "c \<in> set (s_streams (ses w0))"
    and p: "ice_prune_candidate_pairs c w = Some w'"
  shows "starting w0 w' ordered"
proof -
  obtain w1 where r: "fold_option ice_replace_srflx_by_base_in_pair (cl_pairs (cls w c)) w = Some w1"
    using p by (auto simp: ice_prune_candidate_pairs_def bind_eq_Some_conv)
  have s: "starting w0 w1 ordered" by (rule starting_replace[OF fr s0 c r])
  define ps where "ps = cl_pairs (cls w1 c)"
  define f where "f = (\<lambda>cl. (prune_loop w1 [] ps cl)\<lparr>cl_check_list := fold (ms_insort (pair_leq (pair w1))) (cl_pairs (prune_loop w1 [] ps cl)) []\<rparr>)"
  have ok: "agent_ok w1 ordered" "c \<in> set (s_streams (ses w1))" "cand w1 = cand w0" using s c by (simp_all add: starting_def)
  have w': "w' = upd_cl c f w1"
    using p r by (auto simp: ice_prune_candidate_pairs_def Let_def ps_def[symmetric] f_def split: if_splits)
  have d: "distinct ps" using agent_okD[OF ok(1,2)] by (simp add: ps_def lists_ok_def)
  have qs: "distinct (prune_result w1 [] ps)" "set (prune_result w1 [] ps) \<subseteq> set ps"
    using prune_result_facts[of "[]" ps w1] d by auto
  have e: "cl_triggered_checks_queue (cls w1 c) = []" "cl_losing_pairs (cls w1 c) = []" "cl_transaction_list (cls w1 c) = []" "cl_valid_list (cls w1 c) = []"
    using fr(1) s c by (auto simp: starting_def fresh_agent_def)
  have fv: "cl_triggered_checks_queue (f (cls w1 c)) = []" "cl_losing_pairs (f (cls w1 c)) = []" "cl_transaction_list (f (cls w1 c)) = []" "cl_valid_list (f (cls w1 c)) = []"
      "cl_local_candidates (f (cls w1 c)) = cl_local_candidates (cls w1 c)" "cl_remote_candidates (f (cls w1 c)) = cl_remote_candidates (cls w1 c)"
      "cl_pairs (f (cls w1 c)) = prune_result w1 [] ps"
      "cl_check_list (f (cls w1 c)) = fold (ms_insort (pair_leq (pair w1))) (cl_pairs (f (cls w1 c))) []"
    using e by (simp_all add: f_def prune_loop_lists prune_loop_frame prune_loop_pairs)
  have "agent_ok w' ordered"
    unfolding w' using qs by (intro ok_pruned[OF ok(1,2) e] fv(1-6,8)) (simp_all add: fv(7) ps_def)
  then show ?thesis
    using s fv e qs(2) by (auto simp: starting_def w' ps_def)
qed

lemma starting_quiet:
  assumes "starting w0 w ordered" "quiet w w'" "cand w' = cand w"
    "\<And>c. cl_local_candidates (cls w' c) = cl_local_candidates (cls w c) \<and> cl_remote_candidates (cls w' c) = cl_remote_candidates (cls w c)
      \<and> cl_transaction_list (cls w' c) = cl_transaction_list (cls w c) \<and> cl_valid_list (cls w' c) = cl_valid_list (cls w c)"
  shows "starting w0 w' ordered"
  using assms quiet_sesD[OF assms(2)] quiet_listsD[OF assms(2)] quiet_pairD[OF assms(2)] quiet_agent_ok[OF assms(2)]
  by (simp add: starting_def)

lemma starting_list:
  assumes fr: "fresh_agent w0" "ordered \<longrightarrow> no_srflx w0" and s: "starting w0 w ordered" and c: "c \<in> set (s_streams (ses w0))"
    and p: "ice_check_list_pair_candidates c w = Some w'"
  shows "starting w0 w' ordered"
proof (cases "cl_state (cls w c) = ICL_Running")
  case True
  obtain w1 where w1: "ice_prune_candidate_pairs c (ice_form_candidate_pairs c w) = Some w1"
    and w': "w' = upd_cl c (\<lambda>cl. cl\<lparr>cl_foundations := fold (ice_generate_pair_foundations_list w1) (cl_check_list cl) (cl_foundations cl)\<rparr>) w1"
    using p True by (auto simp: ice_check_list_pair_candidates_def bind_eq_Some_conv)
  have "starting w0 w1 ordered" by (rule starting_prune[OF fr starting_form[OF s c] c w1])
  then show ?thesis
    unfolding w' by (rule starting_quiet) (rule quiet_upd_cl, simp_all add: static_lists_def)
qed (use p s in \<open>simp add: ice_check_list_pair_candidates_def\<close>)

lemma starting_lists:
  assumes "fresh_agent w0" "ordered \<longrightarrow> no_srflx w0" "starting w0 w ordered" "set cs \<subseteq> set (s_streams (ses w0))" "fold_option ice_check_list_pair_candidates cs w = Some w'"
  shows "starting w0 w' ordered"
  using assms(3-)
proof (induction cs arbitrary: w)
  case (Cons c cs)
  then obtain w1 where "ice_check_list_pair_candidates c w = Some w1" "fold_option ice_check_list_pair_candidates cs w1 = Some w'"
    by (auto simp: bind_eq_Some_conv)
  with Cons starting_list[OF assms(1,2) Cons.prems(1), of c w1] show ?case by auto
qed simp

lemma ok_start:
  assumes fr: "fresh_agent w0" "ordered \<longrightarrow> no_srflx w0" and s: "ice_session_start_connectivity_checks w0 = Some w"
  shows "agent_ok w ordered"
proof -
  obtain w1 where w1: "ice_session_pair_candidates w0 = Some w1" and w: "w = w1\<lparr>ses := (ses w1)\<lparr>s_state := IS_Running\<rparr>\<rparr>"
    using s by (auto simp: ice_session_start_connectivity_checks_def)
  have s0: "starting w0 w0 ordered"
  proof -
    have "\<forall>c\<in>set (s_streams (ses w0)). cl_pairs (cls w0 c) = []" using fr(1) by (simp add: fresh_agent_def)
    then show ?thesis using ok_fresh[OF fr(1)] by (simp add: starting_def)
  qed
  have "agent_ok w1 ordered"
  proof (cases "find (\<lambda>c. cl_state (cls w0 c) = ICL_Running) (s_streams (ses w0))")
    case None
    then show ?thesis using w1 ok_fresh[OF fr(1)] by (simp add: ice_session_pair_candidates_def)
  next
    case (Some c)
    then obtain w2 where w2: "fold_option ice_check_list_pair_candidates (s_streams (ses w0)) w0 = Some w2"
        and w1': "w1 = ice_compute_pairs_states c w2"
      using w1 by (auto simp: ice_session_pair_candidates_def)
    have "agent_ok w2 ordered" using starting_lists[OF fr s0 _ w2] by (simp add: starting_def)
    then show ?thesis unfolding w1' by (rule quiet_agent_ok[OF quiet_compute_pairs_states])
  qed
  moreover have "quiet w1 w" unfolding w by (rule quiet_ses) simp_all
  ultimately show ?thesis using quiet_agent_ok by blast
qed

end
