(* ===== verification/Ice_Run.thy ===== *)
theory Ice_Run
  imports Ice_Inv
begin

section \<open>A run of the agent\<close>

definition demo_agent :: ice where
  "demo_agent = demo_ice\<lparr>cls := (\<lambda>_. ice_check_list_init\<lparr>cl_local_candidates := [0], cl_remote_candidates := [3, 5],
     cl_local_componentIDs := [1], cl_remote_componentIDs := [1], cl_remote_ufrag := Some ''ru'', cl_remote_pwd := Some ''rp''\<rparr>),
     cand := demo_cand(5 := demo_candidate ICT_HostCandidate 5 1 9080), cand_brk := 6\<rparr>"

definition demo_packet :: OrtpEventData where
  "demo_packet = \<lparr>e_socket = OrtpRTPSocket, e_local_addr = 0x0a000001, e_remote_addr = 0x0a000001, e_remote_port = 9080,
     e_ts = no_time, e_hmac_ok = (\<lambda>_. True), e_host = (\<lambda>_. 0x0a000001), e_random = show_nat\<rparr>"

definition demo_response :: "96 word \<Rightarrow> IceStunView" where
  "demo_response t = \<lparr>msgType = Stun_Success, tr_id = t, hasMessageIntegrity = True, hasUsername = True, username = ''uf:ru'',
     hasFingerprint = True, hasPriority = False, msg_priority = 0, hasUseCandidate = False, hasIceControlling = False, iceControlling = 0,
     hasIceControlled = False, iceControlled = 0, hasXorMappedAddress = True, xorMappedAddress = (0x0a000001, 7078),
     hasMappedAddress = False, mappedAddress = (0, 0), hasErrorCode = False, errorClass = 0, errorNumber = 0\<rparr>"

definition demo_ports :: ice_ports where
  "demo_ports = \<lparr>rtp_socket = 5, rtcp_socket = 6, loc_port = 7078\<rparr>"

definition at_ms :: "int \<Rightarrow> MSTimeSpec" where
  "at_ms t = \<lparr>tv_sec = 0, tv_nsec = t * 1000000\<rparr>"

text \<open>A check, its response, and the check that nominates.\<close>

definition demo_run :: "ice option" where
  "demo_run = do {
     w1 \<leftarrow> ice_session_start_connectivity_checks demo_agent;
     let w2 = ice_check_list_process (at_ms 100) 0 w1;
     w3 \<leftarrow> ice_handle_stun_packet (at_ms 150) 0 demo_ports demo_packet (Some (demo_response 0)) w2;
     Some (ice_check_list_process (at_ms 200) 0 w3) }"

lemma fresh_demo: "fresh_agent demo_agent"
proof -
  have "{a. a < (6 :: nat)} = {0, 1, 2, 3, 4, 5}" by auto
  then have "\<forall>a\<in>{a. a < cand_brk demo_agent}. \<forall>b. c_base (cand demo_agent a) = Some b \<longrightarrow> b < cand_brk demo_agent"
    by (simp add: demo_agent_def demo_cand_def demo_candidate_def ice_compute_candidate_priority_def)
  then have "bases_below demo_agent" by (simp add: bases_below_def)
  then show ?thesis
    by (simp add: fresh_agent_def demo_agent_def demo_ice_def ice_session_init_def ice_check_list_init_def demo_cand_def demo_candidate_def ice_compute_candidate_priority_def)
qed

lemma demo_run_sends: "map_option (\<lambda>w. (outputs w, cl_pairs (cls w 0), s_streams (ses w))) demo_run =
   Some ([Binding_Request 1 0x6effffff False IR_Controlling 5 0, Binding_Request 1 0x6effffff True IR_Controlling 5 1], [0, 1], [0])"
  by code_simp

lemma demo_reach: "demo_run = Some w \<Longrightarrow> \<exists>w1. ice_session_start_connectivity_checks demo_agent = Some w1 \<and> ice_step\<^sup>*\<^sup>* w1 w"
proof -
  assume run: "demo_run = Some w"
  obtain w1 where w1: "ice_session_start_connectivity_checks demo_agent = Some w1"
    using run unfolding demo_run_def by (cases "ice_session_start_connectivity_checks demo_agent") simp_all
  define w2 where "w2 = ice_check_list_process (at_ms 100) 0 w1"
  define got where "got = ice_handle_stun_packet (at_ms 150) 0 demo_ports demo_packet (Some (demo_response 0)) w2"
  have r: "Option.bind got (\<lambda>w3. Some (ice_check_list_process (at_ms 200) 0 w3)) = Some w"
    using run unfolding demo_run_def w1 got_def w2_def Let_def bind.bind_lunit .
  obtain w3 where w3: "got = Some w3" "w = ice_check_list_process (at_ms 200) 0 w3" using r by (cases got) simp_all
  have t: "ice_step w1 w2" "ice_step w3 w" unfolding w3(2) w2_def by (rule tick)+
  have s: "ice_step w2 w3" by (rule packet[OF w3(1)[unfolded got_def]])
  have "ice_step\<^sup>*\<^sup>* w1 w" 
    by (rule rtranclp.rtrancl_into_rtrancl[OF rtranclp.rtrancl_into_rtrancl[OF r_into_rtranclp[where r=ice_step, OF t(1)] s] t(2)])
  with w1 show ?thesis by blast
qed

section \<open>Properties of the running agent\<close>


lemma no_srflx_demo: "no_srflx demo_agent"
  by (simp add: no_srflx_def demo_agent_def demo_ice_def ice_session_init_def demo_cand_def demo_candidate_def ice_compute_candidate_priority_def)


text \<open>C10: all checks with USE-CANDIDATE that an agent has sent for one component of a check list since its last restart are for the same
  pair, and that pair has been found valid. The agent may have any candidates, also server reflexive ones.\<close>

theorem one_nomination_per_component:
  assumes "fresh_agent w0" "ice_session_start_connectivity_checks w0 = Some w1" "ice_step\<^sup>*\<^sup>* w1 w"
    and "c \<in> set (s_streams (ses w))" "p \<in> set (cl_pairs (cls w c))" "q \<in> set (cl_pairs (cls w c))" "component_of w p = component_of w q"
    and "Binding_Request p prio1 True role1 tb1 id1 \<in> set (outputs w)" "Binding_Request q prio2 True role2 tb2 id2 \<in> set (outputs w)"
  shows "p = q \<and> (\<exists>v\<in>set (cl_valid_list (cls w c)). v_generated_from v = p)"
proof -
  have ok: "agent_ok w False" by (rule ok_steps[OF assms(3) ok_start[OF assms(1) _ assms(2)]]) simp
  have "p_use_candidate (pair w p)" "p_use_candidate (pair w q)"
    using ok assms(8,9) unfolding agent_ok_def requests_ok_def by (metis nominating.simps(1))+
  then show ?thesis using agent_okD[OF ok assms(4)] assms(5-7) unfolding nominations_ok_def by blast
qed

theorem one_nomination_per_component_witness:
  "\<exists>w. demo_run = Some w \<and> (\<exists>v\<in>set (cl_valid_list (cls w 0)). v_generated_from v = 1)"
proof -
  obtain w where w: "demo_run = Some w" "cl_pairs (cls w 0) = [0, 1]" "s_streams (ses w) = [0]"
      "Binding_Request 1 0x6effffff True IR_Controlling 5 1 \<in> set (outputs w)"
    using demo_run_sends by (cases demo_run) auto
  obtain w1 where "ice_session_start_connectivity_checks demo_agent = Some w1" "ice_step\<^sup>*\<^sup>* w1 w" using demo_reach[OF w(1)] by blast
  from one_nomination_per_component[OF fresh_demo this, of 0 1 1] w show ?thesis by auto
qed

section \<open>The outcome of a check list\<close>

text \<open>What the verdict of a check list depends on.\<close>

definition same_verdict :: "nat \<Rightarrow> ice \<Rightarrow> ice \<Rightarrow> bool" where
  "same_verdict c w w' \<longleftrightarrow> cl_state (cls w' c) = cl_state (cls w c) \<and> cl_valid_list (cls w' c) = cl_valid_list (cls w c)
     \<and> cl_local_componentIDs (cls w' c) = cl_local_componentIDs (cls w c) \<and> cl_losing_pairs (cls w' c) = cl_losing_pairs (cls w c)
     \<and> cand w' = cand w \<and> outputs w' = outputs w
     \<and> (\<forall>p. p_state (pair w' p) = p_state (pair w p) \<and> p_is_nominated (pair w' p) = p_is_nominated (pair w p) \<and> p_local (pair w' p) = p_local (pair w p))
     \<and> set (cl_check_list (cls w' c)) \<subseteq> set (cl_check_list (cls w c))
     \<and> (\<forall>p\<in>set (cl_check_list (cls w c)). p_state (pair w p) \<notin> {ICP_Waiting, ICP_Frozen} \<longrightarrow> p \<in> set (cl_check_list (cls w' c)))"

lemma same_verdict_refl [simp]: "same_verdict c w w"
  by (simp add: same_verdict_def)

lemma same_verdict_trans: "same_verdict c w w1 \<Longrightarrow> same_verdict c w1 w2 \<Longrightarrow> same_verdict c w w2"
proof -
  assume a: "same_verdict c w w1" "same_verdict c w1 w2"
  then have "set (cl_check_list (cls w2 c)) \<subseteq> set (cl_check_list (cls w c))" unfolding same_verdict_def by blast
  moreover have "p \<in> set (cl_check_list (cls w2 c))" if "p \<in> set (cl_check_list (cls w c))" "p_state (pair w p) \<notin> {ICP_Waiting, ICP_Frozen}" for p
  proof -
    have "p \<in> set (cl_check_list (cls w1 c))" using a(1) that unfolding same_verdict_def by blast
    moreover have "p_state (pair w1 p) = p_state (pair w p)" using a(1) unfolding same_verdict_def by blast
    ultimately show ?thesis using a(2) that(2) unfolding same_verdict_def by simp
  qed
  ultimately show "same_verdict c w w2" using a unfolding same_verdict_def by simp
qed

lemma same_verdict_fold: "(\<And>x w. same_verdict c w (f x w)) \<Longrightarrow> same_verdict c w (fold f xs w)"
  by (rule fold_invariant_on[of xs "same_verdict c w"]) (auto intro: same_verdict_trans)

lemma same_verdict_nomination: "same_verdict c w (ice_perform_regular_nomination now c v w)"
  by (simp add: ice_perform_regular_nomination_def Let_def same_verdict_def ice_check_list_queue_triggered_check_def split: option.split)

lemma remove_waiting_keeps: "x \<in> set ps \<Longrightarrow> \<not> P x \<Longrightarrow> x \<in> set (remove_waiting_loop P kept ps)"
proof -
  have *: "set kept \<subseteq> set (remove_waiting_loop P kept ps) \<and> (\<forall>x\<in>set ps. \<not> P x \<longrightarrow> x \<in> set (remove_waiting_loop P kept ps))" for kept
    by (induction P kept ps rule: remove_waiting_loop.induct) auto
  show "x \<in> set ps \<Longrightarrow> \<not> P x \<Longrightarrow> x \<in> set (remove_waiting_loop P kept ps)" using * by blast
qed

lemma same_verdict_conclude: "same_verdict c w (ice_conclude_waiting_frozen_and_inprogress_pairs c v w)"
proof (cases "p_is_nominated (pair w (v_valid v))")
  case True
  let ?cid = "c_componentID (cand w (p_local (pair w (v_valid v))))"
  let ?r = "ice_remove_waiting_and_frozen_pairs_from_list w ?cid"
  define w1 where "w1 = upd_cl c (\<lambda>cl. cl\<lparr>cl_check_list := ?r (cl_check_list (cls w c)), cl_triggered_checks_queue := ?r (cl_triggered_checks_queue (cls w c))\<rparr>) w"
  have "set (?r xs) \<subseteq> set xs" for xs
    using subseq_set[OF remove_waiting_subseq[of _ "[]" xs]] by (simp add: ice_remove_waiting_and_frozen_pairs_from_list_def)
  moreover have "x \<in> set (?r xs)" if "x \<in> set xs" "p_state (pair w x) \<notin> {ICP_Waiting, ICP_Frozen}" for x xs
    unfolding ice_remove_waiting_and_frozen_pairs_from_list_def
    using that by (intro remove_waiting_keeps) (auto simp: waiting_or_frozen_def)
  ultimately have s1: "same_verdict c w w1" by (simp add: same_verdict_def w1_def)
  have "same_verdict c w1 (fold (ice_stop_retransmission_for_in_progress_pair ?cid) (cl_check_list (cls w1 c)) w1)"
    by (rule same_verdict_fold) (simp add: ice_stop_retransmission_for_in_progress_pair_def same_verdict_def)
  from same_verdict_trans[OF s1 this] show ?thesis
    using True by (simp add: ice_conclude_waiting_frozen_and_inprogress_pairs_def Let_def w1_def)
qed (simp add: ice_conclude_waiting_frozen_and_inprogress_pairs_def)

lemma nominated_for_cong: "same_verdict c w w' \<Longrightarrow> nominated_for w' = nominated_for w"
  by (simp add: same_verdict_def nominated_for_def fun_eq_iff)

lemma compute_states_cls: "cls (ice_compute_pairs_states d w) = cls w \<and> outputs (ice_compute_pairs_states d w) = outputs w"
  unfolding ice_compute_pairs_states_def
  by (rule fold_invariant_on[of _ "\<lambda>x. cls x = cls w \<and> outputs x = outputs w"])
     (auto simp: ice_set_lowest_componentid_pair_with_foundation_to_waiting_state_def Let_def ice_pair_set_state_def split: option.splits)

lemma continue_cls: "cls (ice_continue_processing_on_next_check_list now c w) = cls w"
  "outputs (ice_continue_processing_on_next_check_list now c w) = outputs w"
  by (simp_all add: ice_continue_processing_on_next_check_list_def schedule_event_def compute_states_cls split: option.split)

lemma stop_retransmissions_frame:
  "cl_state (cls (ice_check_list_stop_retransmissions c w) c) = cl_state (cls w c) \<and> outputs (ice_check_list_stop_retransmissions c w) = outputs w"
  unfolding ice_check_list_stop_retransmissions_def
  by (rule fold_invariant_on[of _ "\<lambda>x. cl_state (cls x c) = cl_state (cls w c) \<and> outputs x = outputs w"])
     (auto simp: ice_pair_stop_retransmissions_def ice_pair_set_state_def)

text \<open>C11: the conclusion of a running check list. When every component has a nominated valid pair, the list is completed and this is
  reported, unless losing pairs are awaited. Otherwise it fails, with a report, as soon as all pairs of the check list have
  succeeded or failed - also when each component has a valid pair whose nomination has just begun - and it goes on while a
  check is in progress.\<close>

theorem check_list_outcome:
  assumes "cl_state (cls w c) = ICL_Running"
  shows "let w' = ice_conclude_processing now c w;
      nominated = (\<forall>cid\<in>set (cl_local_componentIDs (cls w c)). \<exists>v\<in>set (cl_valid_list (cls w c)). nominated_for w cid v)
    in (nominated \<and> cl_losing_pairs (cls w c) = [] \<longrightarrow>
          cl_state (cls w' c) = ICL_Completed \<and> outputs w' = outputs w @ [Check_List_Processing_Finished True])
     \<and> (nominated \<and> cl_losing_pairs (cls w c) \<noteq> [] \<longrightarrow> cl_state (cls w' c) = ICL_Running \<and> outputs w' = outputs w)
     \<and> (\<not> nominated \<and> (\<forall>p\<in>set (cl_check_list (cls w c)). p_state (pair w p) \<in> {ICP_Failed, ICP_Succeeded}) \<longrightarrow>
          cl_state (cls w' c) = ICL_Failed \<and> outputs w' = outputs w @ [Check_List_Processing_Finished False])
     \<and> (\<not> nominated \<and> (\<exists>p\<in>set (cl_check_list (cls w c)). p_state (pair w p) = ICP_InProgress) \<longrightarrow>
          cl_state (cls w' c) = ICL_Running \<and> outputs w' = outputs w)"
proof -
  define w1 where "w1 = (if s_role (ses w) = IR_Controlling
               then fold (ice_perform_regular_nomination now c) (cl_valid_list (cls w c)) w else w)"
  define w2 where "w2 = fold (ice_conclude_waiting_frozen_and_inprogress_pairs c) (cl_valid_list (cls w1 c)) w1"
  have "same_verdict c w w1" unfolding w1_def by (auto intro: same_verdict_fold same_verdict_nomination)
  then have s: "same_verdict c w w2" unfolding w2_def by (rule same_verdict_trans[OF _ same_verdict_fold[OF same_verdict_conclude]])
  note e = nominated_for_cong[OF s]
  have nom: "all_components (map (nominated_for w2) (cl_local_componentIDs (cls w2 c))) (cl_valid_list (cls w2 c))
      \<longleftrightarrow> (\<forall>cid\<in>set (cl_local_componentIDs (cls w c)). \<exists>v\<in>set (cl_valid_list (cls w c)). nominated_for w cid v)"
    using s by (auto simp: all_components_def list_all_iff e find_None_iff same_verdict_def)
  have done1: "list_all (\<lambda>p. p_state (pair w2 p) = ICP_Failed \<or> p_state (pair w2 p) = ICP_Succeeded) (cl_check_list (cls w2 c))"
    if "\<forall>p\<in>set (cl_check_list (cls w c)). p_state (pair w p) \<in> {ICP_Failed, ICP_Succeeded}"
    using that s by (auto simp: list_all_iff same_verdict_def)
  have done2: "\<not> list_all (\<lambda>p. p_state (pair w2 p) = ICP_Failed \<or> p_state (pair w2 p) = ICP_Succeeded) (cl_check_list (cls w2 c))"
    if "p \<in> set (cl_check_list (cls w c))" "p_state (pair w p) = ICP_InProgress" for p
    using that s unfolding list_all_iff same_verdict_def by (metis IceCandidatePairState.distinct insertE singletonD)
  have frames: "outputs w2 = outputs w" "cl_losing_pairs (cls w2 c) = cl_losing_pairs (cls w c)" "cl_state (cls w2 c) = ICL_Running"
    using s assms by (simp_all add: same_verdict_def)
  have "ice_conclude_processing now c w = (if all_components (map (nominated_for w2) (cl_local_componentIDs (cls w2 c))) (cl_valid_list (cls w2 c)) then
          (if cl_losing_pairs (cls w2 c) = [] then
             ice_continue_processing_on_next_check_list now c (emit (Check_List_Processing_Finished True) (ice_check_list_stop_retransmissions c
                (upd_cl c (\<lambda>cl. cl\<lparr>cl_state := ICL_Completed, cl_nomination_delay_running := False, cl_keepalive_time := now\<rparr>) w2)))
           else w2)
        else if list_all (\<lambda>p. p_state (pair w2 p) = ICP_Failed \<or> p_state (pair w2 p) = ICP_Succeeded) (cl_check_list (cls w2 c)) then
          ice_continue_processing_on_next_check_list now c (emit (Check_List_Processing_Finished False) (upd_cl c (\<lambda>cl. cl\<lparr>cl_state := ICL_Failed\<rparr>) w2))
        else w2)"
    using assms by (simp add: ice_conclude_processing_def Let_def w1_def w2_def)
  then show ?thesis
    unfolding Let_def nom[symmetric]
    using done1 done2 frames by (auto simp: continue_cls emit_def stop_retransmissions_frame)
qed

definition demo_lone :: ice where
  "demo_lone = demo_agent\<lparr>pair := (\<lambda>_. (demo_pair 0 3)\<lparr>p_state := ICP_Succeeded\<rparr>), pair_brk := 1,
     cls := (\<lambda>_. (cls demo_agent 0)\<lparr>cl_pairs := [0], cl_check_list := [0],
        cl_valid_list := [\<lparr>v_valid = 0, v_generated_from = 0, v_selected = False\<rparr>]\<rparr>)\<rparr>"

text \<open>The only check succeeds and its nomination has begun: the list fails.\<close>

theorem check_list_outcome_witness:
  "cl_state (cls (ice_conclude_processing (at_ms 0) 0 demo_lone) 0) = ICL_Failed
    \<and> outputs (ice_conclude_processing (at_ms 0) 0 demo_lone) = [Check_List_Processing_Finished False]"
  using check_list_outcome[of demo_lone 0 "at_ms 0"]
  by (simp add: Let_def demo_lone_def demo_agent_def demo_ice_def ice_check_list_init_def nominated_for_def demo_pair_def)

section \<open>Retransmission\<close>

fun timer_expires :: "MSTimeSpec \<Rightarrow> u32 \<Rightarrow> MSTimeSpec list \<Rightarrow> bool" where
  "timer_expires t rto [] = True"
| "timer_expires t rto (s # ss) \<longleftrightarrow> uint rto \<le> uint (word_of_int (ice_compare_time s t) :: u32) \<and> timer_expires s (push_bit 1 rto) ss"

definition retransmitting :: "nat \<Rightarrow> nat \<Rightarrow> IceTransaction \<Rightarrow> MSTimeSpec \<Rightarrow> nat \<Rightarrow> u32 \<Rightarrow> ice \<Rightarrow> bool" where
  "retransmitting c p t sent k rto w \<longleftrightarrow> p_state (pair w p) = ICP_InProgress \<and> \<not> p_wait_transaction_timeout (pair w p)
     \<and> component_of w p \<in> {1, 2} \<and> ice_find_transaction c p w = Some t
     \<and> p_retransmissions (pair w p) = of_nat k \<and> p_rto (pair w p) = rto \<and> p_transmission_time (pair w p) = sent"

lemma retransmit_step:
  assumes r: "retransmitting c p t sent k rto w" and k: "k < 7" and s: "uint rto \<le> uint (word_of_int (ice_compare_time s sent) :: u32)"
  defines "w' \<equiv> ice_handle_connectivity_check_retransmission s c p w"
  shows "retransmitting c p t s (Suc k) (push_bit 1 rto) w' \<and> outputs w' = outputs w @ [request_of p (t_transactionID t) w]
    \<and> request_of p (t_transactionID t) w' = request_of p (t_transactionID t) w"
proof -
  have "k = 0 \<or> k = 1 \<or> k = 2 \<or> k = 3 \<or> k = 4 \<or> k = 5 \<or> k = 6" using k by arith
  then have b: "\<not> ICE_MAX_RETRANSMISSIONS < of_nat k + 1" "of_nat k + 1 = (of_nat (Suc k) :: u8)"
    by (auto simp: ICE_MAX_RETRANSMISSIONS_def)
  have cid: "\<not> (c_componentID (cand w (p_local (pair w p))) \<noteq> 1 \<and> c_componentID (cand w (p_local (pair w p))) \<noteq> 2)"
    using r by (auto simp: retransmitting_def component_of_def)
  have st: "p_state (pair w p) = ICP_InProgress" "\<not> p_wait_transaction_timeout (pair w p)" "ice_find_transaction c p w = Some t"
      "p_retransmissions (pair w p) = of_nat k" "p_rto (pair w p) = rto" "p_transmission_time (pair w p) = sent"
    using r by (simp_all add: retransmitting_def)
  define w1 where "w1 = upd_pair p (\<lambda>pr. pr\<lparr>p_rto := push_bit 1 (p_rto pr)\<rparr>) (upd_pair p (\<lambda>pr. pr\<lparr>p_retransmissions := p_retransmissions pr + 1\<rparr>) w)"
  have "w' = transmit s c p (t_transactionID t) w1"
    unfolding w'_def ice_handle_connectivity_check_retransmission_def ice_send_binding_request_def w1_def
    using st s b(1) by simp
  also have "\<dots> = emit (request_of p (t_transactionID t) w)
      ((upd_pair p (p_transmission_time_update (\<lambda>_. s)) w1)\<lparr>tr_count := tr_count w + 1\<rparr>)"
    using st(1) cid by (auto simp: transmit_def Let_def w1_def request_of_def)
  finally have w': "w' = emit (request_of p (t_transactionID t) w) ((upd_pair p (p_transmission_time_update (\<lambda>_. s)) w1)\<lparr>tr_count := tr_count w + 1\<rparr>)" .
  have "retransmitting c p t s (Suc k) (push_bit 1 rto) w'"
    using r st b(2) unfolding w' by (auto simp: retransmitting_def w1_def emit_def component_of_def ice_find_transaction_def)
  moreover have "outputs w' = outputs w @ [request_of p (t_transactionID t) w]" unfolding w' by (simp add: emit_def w1_def)
  moreover have "request_of p (t_transactionID t) w' = request_of p (t_transactionID t) w" unfolding w' by (simp add: emit_def w1_def request_of_def)
  ultimately show ?thesis by blast
qed

lemma retransmit_steps:
  "retransmitting c p t sent k rto w \<Longrightarrow> timer_expires sent rto ss \<Longrightarrow> k + length ss \<le> 7 \<Longrightarrow>
    (\<exists>s. retransmitting c p t s (k + length ss) (push_bit (length ss) rto) (fold (\<lambda>s. ice_handle_connectivity_check_retransmission s c p) ss w)
      \<and> (ss \<noteq> [] \<longrightarrow> s = last ss) \<and> (ss = [] \<longrightarrow> s = sent))
    \<and> outputs (fold (\<lambda>s. ice_handle_connectivity_check_retransmission s c p) ss w) = outputs w @ replicate (length ss) (request_of p (t_transactionID t) w)"
proof (induction ss arbitrary: sent k rto w)
  case (Cons s ss)
  let ?w = "ice_handle_connectivity_check_retransmission s c p w"
  have st: "retransmitting c p t s (Suc k) (push_bit 1 rto) ?w" "outputs ?w = outputs w @ [request_of p (t_transactionID t) w]"
      "request_of p (t_transactionID t) ?w = request_of p (t_transactionID t) w"
    using retransmit_step[OF Cons.prems(1)] Cons.prems(2,3) by simp_all
  have "push_bit (length ss) (push_bit 1 rto) = push_bit (Suc (length ss)) rto" by (simp only: push_bit_push_bit) simp
  then show ?case using Cons.IH[OF st(1)] Cons.prems(2,3) st(2,3) by (auto simp: replicate_app_Cons_same)
qed simp

lemma timer_expires_append: "timer_expires t rto (ss @ [s]) \<Longrightarrow> timer_expires t rto ss
    \<and> uint (push_bit (length ss) rto) \<le> uint (word_of_int (ice_compare_time s (if ss = [] then t else last ss)) :: u32)"
proof (induction ss arbitrary: t rto)
  case (Cons x ss)
  have "push_bit (length ss) (push_bit 1 rto) = push_bit (Suc (length ss)) rto" by (simp only: push_bit_push_bit) simp
  then show ?case using Cons.IH[of x "push_bit 1 rto"] Cons.prems by auto
qed simp

text \<open>C16: a check that is never answered is sent again, with the same transaction identifier, at each of the first seven expirations of
  its timer, which doubles each time from 200 ms on; at the eighth its pair fails and nothing is sent.\<close>

theorem unanswered_check_given_up:
  assumes "p_state (pair w p) = ICP_InProgress" "\<not> p_wait_transaction_timeout (pair w p)" "component_of w p \<in> {1, 2}"
    "ice_find_transaction c p w = Some t" "p_retransmissions (pair w p) = 0" "p_rto (pair w p) = ICE_DEFAULT_RTO_DURATION"
    "timer_expires (p_transmission_time (pair w p)) ICE_DEFAULT_RTO_DURATION (ss @ [s])" "length ss = 7"
  shows "let retry = fold (\<lambda>s. ice_handle_connectivity_check_retransmission s c p) in
      p_state (pair (retry ss w) p) = ICP_InProgress \<and> p_rto (pair (retry ss w) p) = 25600
    \<and> p_state (pair (retry (ss @ [s]) w) p) = ICP_Failed
    \<and> outputs (retry (ss @ [s]) w) = outputs w @ replicate 7 (request_of p (t_transactionID t) w)"
proof -
  let ?w = "fold (\<lambda>s. ice_handle_connectivity_check_retransmission s c p) ss w"
  have r: "retransmitting c p t (p_transmission_time (pair w p)) 0 ICE_DEFAULT_RTO_DURATION w"
    using assms(1-6) by (simp add: retransmitting_def)
  note t = timer_expires_append[OF assms(7)]
  have ne: "ss \<noteq> []" using assms(8) by auto
  have e: "retransmitting c p t (last ss) 7 (push_bit 7 ICE_DEFAULT_RTO_DURATION) ?w"
      "outputs ?w = outputs w @ replicate 7 (request_of p (t_transactionID t) w)"
    using retransmit_steps[OF r conjunct1[OF t]] assms(8) ne by auto
  have rto: "push_bit 7 ICE_DEFAULT_RTO_DURATION = 25600" by (simp add: ICE_DEFAULT_RTO_DURATION_def push_bit_eq_mult)
  have "uint (push_bit 7 ICE_DEFAULT_RTO_DURATION) \<le> uint (word_of_int (ice_compare_time s (last ss)) :: u32)" using t ne assms(8) by simp
  then have f: "ice_handle_connectivity_check_retransmission s c p ?w
      = ice_pair_set_state p ICP_Failed (upd_pair p (\<lambda>pr. pr\<lparr>p_retransmissions := p_retransmissions pr + 1\<rparr>) ?w)"
    using e(1) unfolding ice_handle_connectivity_check_retransmission_def ice_send_binding_request_def
    by (simp add: retransmitting_def ICE_MAX_RETRANSMISSIONS_def Let_def)
  have "p_state (pair (ice_handle_connectivity_check_retransmission s c p ?w) p) = ICP_Failed"
      "outputs (ice_handle_connectivity_check_retransmission s c p ?w) = outputs ?w"
    unfolding f by (simp_all add: ice_pair_set_state_def)
  then show ?thesis using e rto by (simp add: Let_def retransmitting_def)
qed

definition demo_waiting :: ice where
  "demo_waiting = demo_lone\<lparr>pair := (\<lambda>_. (demo_pair 0 3)\<lparr>p_state := ICP_InProgress\<rparr>),
     cls := (\<lambda>_. (cls demo_lone 0)\<lparr>cl_transaction_list := [\<lparr>t_transactionID = 9, t_pair = 0\<rparr>]\<rparr>)\<rparr>"

theorem unanswered_check_given_up_witness:
  "p_state (pair (fold (\<lambda>s. ice_handle_connectivity_check_retransmission s 0 0) (map at_ms [200, 600, 1400, 3000, 6200, 12600, 25400, 51000]) demo_waiting) 0) = ICP_Failed"
proof -
  have "timer_expires (p_transmission_time (pair demo_waiting 0)) ICE_DEFAULT_RTO_DURATION (map at_ms [200, 600, 1400, 3000, 6200, 12600, 25400] @ [at_ms 51000])"
    by code_simp
  moreover have "component_of demo_waiting 0 = 1" by code_simp
  moreover have "p_state (pair demo_waiting 0) = ICP_InProgress" "\<not> p_wait_transaction_timeout (pair demo_waiting 0)"
      "ice_find_transaction 0 0 demo_waiting = Some \<lparr>t_transactionID = 9, t_pair = 0\<rparr>" "p_retransmissions (pair demo_waiting 0) = 0"
      "p_rto (pair demo_waiting 0) = ICE_DEFAULT_RTO_DURATION"
    by (simp_all add: demo_waiting_def demo_pair_def ice_find_transaction_def)
  ultimately show ?thesis
    using unanswered_check_given_up[of demo_waiting 0 0 "\<lparr>t_transactionID = 9, t_pair = 0\<rparr>" "map at_ms [200, 600, 1400, 3000, 6200, 12600, 25400]" "at_ms 51000"]
    by (simp add: Let_def)
qed

section \<open>Role conflicts and credentials\<close>

lemma role_nomination: "s_role (ses (ice_perform_regular_nomination now c v w)) = s_role (ses w)"
  by (simp add: ice_perform_regular_nomination_def Let_def ice_check_list_queue_triggered_check_def split: option.split)

lemma role_conclude_pairs: "s_role (ses (ice_conclude_waiting_frozen_and_inprogress_pairs c v w)) = s_role (ses w)"
proof -
  have "ses (fold (ice_stop_retransmission_for_in_progress_pair cid) ps w') = ses w'" for cid ps w'
    by (rule fold_invariant_on[of _ "\<lambda>x. ses x = ses w'"]) (auto simp: ice_stop_retransmission_for_in_progress_pair_def)
  then show ?thesis by (simp add: ice_conclude_waiting_frozen_and_inprogress_pairs_def Let_def)
qed

lemma role_conclude: "s_role (ses (ice_conclude_processing now c w)) = s_role (ses w)"
proof -
  have f: "s_role (ses (fold g xs w')) = s_role (ses w')" if "\<And>x w. s_role (ses (g x w)) = s_role (ses w)" for g :: "'a \<Rightarrow> ice \<Rightarrow> ice" and xs w'
    by (rule fold_invariant_on[of _ "\<lambda>x. s_role (ses x) = s_role (ses w')"]) (auto simp: that)
  have s: "s_role (ses (ice_check_list_stop_retransmissions c w')) = s_role (ses w')" for w'
    unfolding ice_check_list_stop_retransmissions_def
    by (rule f) (simp add: ice_pair_stop_retransmissions_def ice_pair_set_state_def)
  have q: "s_role (ses (ice_continue_processing_on_next_check_list now c w')) = s_role (ses w')" for w'
    using quiet_sesD[OF quiet_continue] by blast
  show ?thesis
    unfolding ice_conclude_processing_def Let_def by (simp add: f role_nomination role_conclude_pairs s q emit_def)
qed

definition other_than :: "IceRole \<Rightarrow> IceRole" where
  "other_than r = (case r of IR_Controlling \<Rightarrow> IR_Controlled | IR_Controlled \<Rightarrow> IR_Controlling)"

text \<open>The attributes of a check that an agent of role \<open>r\<close> and tie breaker \<open>tb\<close> sends.\<close>

definition role_attributes :: "IceRole \<Rightarrow> u64 \<Rightarrow> IceStunView \<Rightarrow> bool" where
  "role_attributes r tb msg \<longleftrightarrow> (hasIceControlling msg \<longleftrightarrow> r = IR_Controlling) \<and> (hasIceControlled msg \<longleftrightarrow> r = IR_Controlled)
     \<and> iceControlling msg = tb \<and> iceControlled msg = tb"

lemma role_set [simp]: "s_role (ses (ice_session_set_role r w)) = r"
  by (auto simp: ice_session_set_role_def ice_session_compute_pair_priorities_def recompute_all)

lemma pair_role_set_state [simp]: "p_role (pair (ice_pair_set_state p s w) q) = p_role (pair w q)" "ses (ice_pair_set_state p s w) = ses w"
  by (simp_all add: ice_pair_set_state_def)

lemma role_error_response:
  assumes "find (\<lambda>t. t_transactionID t = tr_id msg) (cl_transaction_list (cls w c)) = Some t" "p_role (pair w (t_pair t)) = r"
    "hasErrorCode msg" "errorClass msg = 4" "errorNumber msg = 87"
  shows "s_role (ses (ice_handle_received_error_response now c msg w)) = other_than r"
  using assms by (cases r) (simp_all add: ice_handle_received_error_response_def Let_def role_conclude other_than_def
      ice_check_list_queue_triggered_check_def split: option.split)

text \<open>C15: when two agents with different tie breakers have taken the same role, the one with the greater tie breaker becomes controlling
  and the other one controlled, whether an agent learns of the conflict from a check of its peer or from the error response to
  a check of its own.\<close>

theorem role_conflict_resolved:
  assumes "s_role (ses wa) = r" "s_role (ses wb) = r" "s_tie_breaker (ses wa) = a" "s_tie_breaker (ses wb) = b" "a \<noteq> b"
    and "role_attributes r b from_b" "role_attributes r a from_a"
    and "find (\<lambda>t. t_transactionID t = tr_id rejection) (cl_transaction_list (cls wb c)) = Some t" "p_role (pair wb (t_pair t)) = r"
      "hasErrorCode rejection" "errorClass rejection = 4" "errorNumber rejection = 87"
  shows "let (accepted, wa') = ice_check_received_binding_request_role_conflict rsa ea from_b wa;
      (_, wb') = ice_check_received_binding_request_role_conflict rsb eb from_a wb in
    s_role (ses wa') = (if b < a then IR_Controlling else IR_Controlled)
    \<and> s_role (ses wb') = (if b < a then IR_Controlled else IR_Controlling)
    \<and> (\<not> accepted \<longrightarrow> s_role (ses (ice_handle_received_error_response now c rejection wb)) = s_role (ses wb'))"
proof -
  have e: "ses (ice_send_error_response rs ev msg x y w) = ses w" for rs ev msg x y w
    by (simp add: ice_send_error_response_def emit_def)
  show ?thesis
    using assms(1-7) role_error_response[OF assms(8-12), of now]
    by (cases r) (auto simp: ice_check_received_binding_request_role_conflict_def role_attributes_def other_than_def e not_le not_less_iff_gr_or_eq)
qed

definition demo_request :: "u64 \<Rightarrow> IceStunView" where
  "demo_request tb = (demo_response 3)\<lparr>msgType := Stun_Request, hasIceControlling := True, iceControlling := tb, iceControlled := tb\<rparr>"

definition demo_rejection :: IceStunView where
  "demo_rejection = (demo_response 9)\<lparr>msgType := Stun_Error, hasErrorCode := True, errorClass := 4, errorNumber := 87\<rparr>"

definition demo_rival :: ice where
  "demo_rival = demo_waiting\<lparr>ses := (ses demo_waiting)\<lparr>s_tie_breaker := 3\<rparr>\<rparr>"

theorem role_conflict_resolved_witness:
  "s_role (ses (ice_handle_received_error_response (at_ms 0) 0 demo_rejection demo_rival)) = IR_Controlled"
proof -
  have w: "s_role (ses demo_waiting) = IR_Controlling" "s_tie_breaker (ses demo_waiting) = 5" "s_role (ses demo_rival) = IR_Controlling"
      "s_tie_breaker (ses demo_rival) = 3" "p_role (pair demo_rival 0) = IR_Controlling"
      "cl_transaction_list (cls demo_rival 0) = [\<lparr>t_transactionID = 9, t_pair = 0\<rparr>]"
    by (simp_all add: demo_rival_def demo_waiting_def demo_lone_def demo_agent_def demo_ice_def ice_session_init_def demo_pair_def)
  have m: "role_attributes IR_Controlling 3 (demo_request 3)" "role_attributes IR_Controlling 5 (demo_request 5)"
      "tr_id demo_rejection = 9" "hasErrorCode demo_rejection" "errorClass demo_rejection = 4" "errorNumber demo_rejection = 87"
      "hasIceControlling (demo_request 3)" "iceControlling (demo_request 3) = 3" "hasIceControlling (demo_request 5)" "iceControlling (demo_request 5) = 5"
    by (simp_all add: role_attributes_def demo_request_def demo_rejection_def demo_response_def)
  have f: "find (\<lambda>t. t_transactionID t = tr_id demo_rejection) (cl_transaction_list (cls demo_rival 0)) = Some \<lparr>t_transactionID = 9, t_pair = 0\<rparr>"
    by (simp add: w m(3))
  have "\<not> fst (ice_check_received_binding_request_role_conflict demo_ports demo_packet (demo_request 3) demo_waiting)"
    "s_role (ses (snd (ice_check_received_binding_request_role_conflict demo_ports demo_packet (demo_request 5) demo_rival))) = IR_Controlled"
    unfolding ice_check_received_binding_request_role_conflict_def w(1-4) m(8,10) by (simp_all add: m(7,9))
  moreover note role_conflict_resolved[OF w(1,3,2,4) _ m(1,2) f _ m(4-6), where rsa=demo_ports and ea=demo_packet and rsb=demo_ports and eb=demo_packet and now="at_ms 0"]
  ultimately show ?thesis using w(5) by (simp add: Let_def split_beta)
qed

text \<open>A binding request passes the check of its user name exactly when the part in front of the colon is some prefix of the local
  fragment (the empty one included); otherwise it is answered with error 401.\<close>

theorem username_prefix_accepted:
  assumes "length (username msg) < 256"
  shows "\<exists>ok w'. ice_check_received_binding_request_username rs e msg w = Some (ok, w')
     \<and> ok = (\<exists>u rest. c_string (username msg) = u @ CHR '':'' # rest \<and> CHR '':'' \<notin> set u \<and> prefix u (s_local_ufrag (ses w)))
     \<and> outputs w' = outputs w @ (if ok \<or> ice_get_socket_from_rtp_session rs e < 0 then [] else [Error_Response (tr_id msg) 4 1])"
proof -
  let ?un = "c_string (username msg)" and ?fr = "s_local_ufrag (ses w)"
  let ?u = "takeWhile (\<lambda>x. x \<noteq> CHR '':'') ?un"
  have small: "length ?un < 256"
    using assms length_takeWhile_le le_less_trans unfolding c_string_def by blast
  have tw: "takeWhile (\<lambda>x. x \<noteq> CHR '':'') (u @ CHR '':'' # rest) = u" if "CHR '':'' \<notin> set u" for u rest
    using that by (induction u) auto
  have p: "take (length ?u) ?un = ?u" by (rule takeWhile_eq_take[symmetric])
  have "CHR '':'' \<in> set ?un \<and> strncmp_eq ?un ?fr (length ?u)
      \<longleftrightarrow> (\<exists>u rest. ?un = u @ CHR '':'' # rest \<and> CHR '':'' \<notin> set u \<and> prefix u ?fr)" (is "?a = ?b")
  proof
    assume a: ?a
    then obtain u rest where s: "?un = u @ CHR '':'' # rest" "CHR '':'' \<notin> set u" by (meson split_list_first)
    then have "?u = u" using tw by simp
    moreover from a have "take (length ?u) ?fr = ?u" using p by (simp add: strncmp_eq_def)
    ultimately have "prefix u ?fr" by (metis take_is_prefix)
    with s show ?b by blast
  next
    assume ?b
    then obtain u rest where s: "?un = u @ CHR '':'' # rest" "CHR '':'' \<notin> set u" "prefix u ?fr" by blast
    then have "?u = u" using tw by simp
    moreover have "take (length u) ?fr = u" using s(3) by (auto simp: prefix_def)
    ultimately show ?a using s(1) p by (simp add: strncmp_eq_def)
  qed
  then show ?thesis
    using assms small by (simp add: ice_check_received_binding_request_username_def Let_def ice_send_error_response_def emit_def)
qed

theorem username_prefix_accepted_witness:
  "\<exists>ok w'. ice_check_received_binding_request_username demo_ports demo_packet (demo_response 0) demo_agent = Some (ok, w')
     \<and> outputs w' = outputs demo_agent @ (if ok then [] else [Error_Response 0 4 1])"
  using username_prefix_accepted[of "demo_response 0" demo_ports demo_packet demo_agent]
  by (auto simp: demo_response_def demo_ports_def demo_packet_def ice_get_socket_from_rtp_session_def)

end
