(* ===== verification/Ice_Stun.thy ===== *)
theory Ice_Stun
  imports Ice_Run Stun_Server
begin

text \<open>
  The ICE agent on the wire (\<open>ice.c\<close>): the packets that its outputs stand for, coded by \<open>stunEncodeMessage\<close>, and the handler that
  parses a received packet, checks its MESSAGE-INTEGRITY and hands it to the handlers of \<open>Ice_Check\<close>.
\<close>

section \<open>Texts and transaction identifiers\<close>

definition string_of :: "bytes \<Rightarrow> string" where
  "string_of s = map (\<lambda>b. char_of (unat b)) s"

definition tid_bytes :: "96 word \<Rightarrow> bytes" where
  "tid_bytes t = map (\<lambda>k. ucast (drop_bit (8 * k) t)) [0..<12]"

definition tid_word :: "bytes \<Rightarrow> 96 word" where
  "tid_word bs = foldr (\<lambda>b acc. push_bit 8 acc OR ucast b) bs 0"

lemma string_of_bytes_of [simp]: "string_of (bytes_of s) = s"
proof -
  have "char_of (unat (of_char c :: u8)) = c" for c
  proof -
    have "unat (of_char c :: u8) = of_char c"
      by (subst of_nat_of_char[symmetric]) (simp add: unat_of_nat)
    then show ?thesis
      by simp
  qed
  then show ?thesis
    by (simp add: string_of_def bytes_of_def o_def)
qed

lemma tid_word_part: "foldr (\<lambda>b acc. push_bit 8 acc OR ucast b) (map (\<lambda>k. ucast (drop_bit (8 * k) t) :: u8) [k..<k + n]) 0
    = take_bit (8 * n) (drop_bit (8 * k) (t :: 96 word))"
proof (induction n arbitrary: k)
  case (Suc n)
  have "[k..<k + Suc n] = k # [k + 1..<(k + 1) + n]"
    by (simp add: upt_conv_Cons)
  then have "foldr (\<lambda>b acc. push_bit 8 acc OR ucast b) (map (\<lambda>k. ucast (drop_bit (8 * k) t) :: u8) [k..<k + Suc n]) 0
      = push_bit 8 (take_bit (8 * n) (drop_bit (8 * (k + 1)) t)) OR ucast (ucast (drop_bit (8 * k) t) :: u8)"
    by (simp only: list.map foldr.simps o_apply Suc.IH)
  also have "\<dots> = take_bit (8 * Suc n) (drop_bit (8 * k) t)"
    by (rule bit_word_eqI) (auto simp: bit_simps)
  finally show ?case .
qed simp

lemma tid_word_bytes [simp]: "tid_word (tid_bytes t) = t"
  using tid_word_part[of t 0 12] by (simp add: tid_word_def tid_bytes_def take_bit_word_eq_self)

lemma length_tid_bytes [simp]: "length (tid_bytes t) = 12"
  by (simp add: tid_bytes_def)

section \<open>Sending\<close>

text \<open>\<open>snprintf\<close> into the value of a \<open>StunAtrString\<close>: at most 512 characters.\<close>

definition atr_text :: "string \<Rightarrow> bytes" where
  "atr_text s = take 512 (bytes_of s)"

text \<open>The message of a connectivity check and the password it is signed with.\<close>

definition check_message :: "string \<Rightarrow> u32 \<Rightarrow> bool \<Rightarrow> IceRole \<Rightarrow> u64 \<Rightarrow> 96 word \<Rightarrow> StunMessage" where
  "check_message uname prio use_candidate role tie_breaker tid =
    (let m = stunBuildReqSimple 0 0 0 (Some (atr_text uname)) False False 1;
         m = m\<lparr>messageIntegrity := Some (replicate 20 0), fingerprint := Some 0, priority := Some prio, useCandidate := use_candidate\<rparr>;
         m = (case role of IR_Controlling \<Rightarrow> m\<lparr>iceControlling := Some tie_breaker\<rparr> | IR_Controlled \<Rightarrow> m\<lparr>iceControlled := Some tie_breaker\<rparr>)
     in m\<lparr>tr_id := tid_bytes tid\<rparr>)"

text \<open>The packet of a check that the agent sends for the pairs of a check list.\<close>

definition check_packet :: "crypto \<Rightarrow> nat \<Rightarrow> ice \<Rightarrow> ice_output \<Rightarrow> bytes option" where
  "check_packet cr c w out = (case out of
     Binding_Request p prio use_candidate role tie_breaker tid \<Rightarrow> do {
       ru \<leftarrow> ice_check_list_remote_ufrag c w;
       rp \<leftarrow> ice_check_list_remote_pwd c w;
       Some (stunEncodeMessage cr (check_message (ru @ '':'' @ s_local_ufrag (ses w)) prio use_candidate role tie_breaker tid)
         (Some (atr_text rp))) }
   | _ \<Rightarrow> None)"

text \<open>The answer to the request \<open>msg\<close>, sent to \<open>dest\<close>: MESSAGE-INTEGRITY is asked for, but the password is empty.\<close>

definition response_packet :: "crypto \<Rightarrow> StunMessage \<Rightarrow> StunAddress4 \<Rightarrow> bytes" where
  "response_packet cr msg dest = stunEncodeMessage cr
     (zero_msg\<lparr>magic_cookie := ntohl (magic_cookie msg), tr_id := StunMessage.tr_id msg,
        msgType := STUN_METHOD_BINDING OR STUN_SUCCESS_RESP, messageIntegrity := Some (replicate 20 0), fingerprint := Some 0,
        username := Some (text_of (StunMessage.username msg)), xorMappedAddress := Some (plain_atr (xor_address dest))\<rparr>)
     (Some [])"

definition error_packet :: "crypto \<Rightarrow> StunMessage \<Rightarrow> u8 \<Rightarrow> u8 \<Rightarrow> string \<Rightarrow> bytes" where
  "error_packet cr msg err_class err_num text = stunEncodeMessage cr
     (zero_msg\<lparr>magic_cookie := ntohl (magic_cookie msg), tr_id := StunMessage.tr_id msg,
        msgType := STUN_METHOD_BINDING OR STUN_ERR_RESP,
        errorCode := Some \<lparr>err_pad = 0, errorClass = err_class, number = err_num, reason = bytes_of text,
          sizeReason = of_nat (length text)\<rparr>, fingerprint := Some 0\<rparr>) None"

definition indication_packet :: "crypto \<Rightarrow> u32 \<Rightarrow> u32 \<Rightarrow> u32 \<Rightarrow> bytes" where
  "indication_packet cr r0 r1 r2 = stunEncodeMessage cr
     ((stunBuildReqSimple r0 r1 r2 None False False 1)\<lparr>msgType := STUN_METHOD_BINDING OR STUN_INDICATION, fingerprint := Some 0\<rparr>) None"

definition stun_server_packet :: "crypto \<Rightarrow> u32 \<Rightarrow> u32 \<Rightarrow> u32 \<Rightarrow> u32 \<Rightarrow> bytes" where
  "stun_server_packet cr r0 r1 r2 sock = stunEncodeMessage cr (stunBuildReqSimple r0 r1 r2 (Some []) False False sock) (Some [])"

section \<open>Host names\<close>

text \<open>\<open>strtol\<close> in base 10, with the text behind the number; without a digit this is the whole text.\<close>

definition strtol10 :: "string \<Rightarrow> int \<times> string" where
  "strtol10 s = (let t = dropWhile is_space s;
       neg = (t \<noteq> [] \<and> hd t = CHR ''-'');
       t = (if t \<noteq> [] \<and> (hd t = CHR ''-'' \<or> hd t = CHR ''+'') then tl t else t);
       v = int (read_digits 0 t)
     in if takeWhile is_digit t = [] then (0, s)
        else (max (- (2 ^ 63)) (min (2 ^ 63 - 1) (if neg then - v else v)), dropWhile is_digit t))"

text \<open>The result, the address and the port that are written; \<open>resolve\<close> is \<open>gethostbyname\<close> with the address in host order.\<close>

definition stunParseHostName :: "(string \<Rightarrow> u32 option) \<Rightarrow> string \<Rightarrow> u16 \<Rightarrow> bool \<times> u32 option \<times> u16 option" where
  "stunParseHostName resolve peerName defaultPort =
    (let host = take 511 peerName;
         portNum = (case strchr host CHR '':'' of None \<Rightarrow> uint defaultPort
           | Some rest \<Rightarrow> (case strtol10 (tl rest) of (v, end_ptr) \<Rightarrow> if end_ptr \<noteq> [] then uint defaultPort else signed_take_bit 31 v))
     in if portNum < 1024 then (False, None, None)
        else if 0xFFFF \<le> portNum then (False, None, None)
        else (case resolve (takeWhile (\<lambda>x. x \<noteq> CHR '':'') host) of
             None \<Rightarrow> (False, Some (ntohl 0x7F000001), None)
           | Some ip \<Rightarrow> (True, Some ip, Some (word_of_int portNum))))"

definition stunParseServerName :: "(string \<Rightarrow> u32 option) \<Rightarrow> string \<Rightarrow> bool \<times> u32 option \<times> u16 option" where
  "stunParseServerName resolve name = (case stunParseHostName resolve name 3478 of
     (ok, ip, p) \<Rightarrow> (ok, ip, if ok then p else Some 0xFFFF))"

lemma takeWhile_colon: "CHR '':'' \<notin> set h \<Longrightarrow> takeWhile (\<lambda>x. x \<noteq> CHR '':'') (h @ CHR '':'' # r) = h"
  by (subst takeWhile_append2) auto

lemma strchr_colon: "CHR '':'' \<notin> set h \<Longrightarrow> strchr (h @ CHR '':'' # r) CHR '':'' = Some (CHR '':'' # r)"
  unfolding strchr_def by (subst dropWhile_append2) auto

lemma strtol10_show: "strtol10 (show_nat n) = (min (2 ^ 63 - 1) (int n), [])"
proof -
  obtain c cs where s: "show_nat n = c # cs"
    using show_nat_ne by (meson list.exhaust)
  have d: "is_digit c"
    using show_nat_digits[of c n] s by simp
  have all: "takeWhile is_digit (show_nat n) = show_nat n" "dropWhile is_digit (show_nat n) = []"
    using show_nat_digits by (simp_all add: takeWhile_eq_all_conv dropWhile_eq_Nil_conv)
  have skip: "dropWhile is_space (show_nat n) = show_nat n"
    using digit_not[OF d] s by simp
  show ?thesis
    unfolding strtol10_def Let_def skip using all digit_not[OF d] read_digits_show[of 0 n "[]"] s by simp
qed

text \<open>An address with its port is taken apart.\<close>

lemma host_port_parsed:
  assumes "CHR '':'' \<notin> set h" "length h < 500" "1024 \<le> n" "n < 65535" "resolve h = Some ip"
  shows "stunParseHostName resolve (h @ '':'' @ show_nat n) def = (True, Some ip, Some (of_nat n))"
proof -
  have "length (show_nat n) \<le> 5"
    using assms(4) by (intro show_nat_bound) simp_all
  then have "take 511 (h @ CHR '':'' # show_nat n) = h @ CHR '':'' # show_nat n"
    using assms(2) by simp
  moreover have "signed_take_bit 31 (int n) = int n"
    using assms(4) by (simp add: signed_take_bit_int_eq_self_iff)
  ultimately show ?thesis
    using assms by (simp add: stunParseHostName_def takeWhile_colon strchr_colon strtol10_show)
qed

section \<open>Receiving\<close>

text \<open>The length field is set back by the FINGERPRINT while the hash of the packet in front of MESSAGE-INTEGRITY is computed.\<close>

definition ice_integrity_ok :: "crypto \<Rightarrow> bytes \<Rightarrow> StunMessage \<Rightarrow> string \<Rightarrow> bool" where
  "ice_integrity_ok cr buf m pwd =
    (let b = take 2 buf @ be16_bytes (msgLength m - 8) @ drop 4 buf
     in encode (stunCalculateIntegrity_shortterm cr (take (length b - 24 - 8) b) (bytes_of pwd)) 20
        = (case messageIntegrity m of None \<Rightarrow> replicate 20 0 | Some h \<Rightarrow> h))"

definition ice_type :: "u16 \<Rightarrow> stun_type" where
  "ice_type t = (if STUN_IS_REQUEST t then Stun_Request else if STUN_IS_SUCCESS_RESP t then Stun_Success
     else if STUN_IS_ERR_RESP t then Stun_Error else if STUN_IS_INDICATION t then Stun_Indication else Stun_Other)"

definition number_of :: "'a::zero option \<Rightarrow> 'a" where
  "number_of v = (case v of None \<Rightarrow> 0 | Some x \<Rightarrow> x)"

definition address_of :: "StunAtrAddress4 option \<Rightarrow> u32 \<times> u16" where
  "address_of a = (addr (ipv4_of a), port (ipv4_of a))"

definition ice_view :: "StunMessage \<Rightarrow> IceStunView" where
  "ice_view m = \<lparr>IceStunView.msgType = ice_type (StunMessage.msgType m), tr_id = tid_word (StunMessage.tr_id m),
     hasMessageIntegrity = (messageIntegrity m \<noteq> None),
     hasUsername = (StunMessage.username m \<noteq> None), username = string_of (text_of (StunMessage.username m)),
     hasFingerprint = (fingerprint m \<noteq> None), hasPriority = (priority m \<noteq> None), msg_priority = number_of (priority m),
     hasUseCandidate = useCandidate m,
     hasIceControlling = (StunMessage.iceControlling m \<noteq> None), iceControlling = number_of (StunMessage.iceControlling m),
     hasIceControlled = (StunMessage.iceControlled m \<noteq> None), iceControlled = number_of (StunMessage.iceControlled m),
     hasXorMappedAddress = (StunMessage.xorMappedAddress m \<noteq> None), xorMappedAddress = address_of (StunMessage.xorMappedAddress m),
     hasMappedAddress = (StunMessage.mappedAddress m \<noteq> None), mappedAddress = address_of (StunMessage.mappedAddress m),
     hasErrorCode = (errorCode m \<noteq> None),
     errorClass = (case errorCode m of None \<Rightarrow> 0 | Some x \<Rightarrow> unat (StunAtrError.errorClass x)),
     errorNumber = (case errorCode m of None \<Rightarrow> 0 | Some x \<Rightarrow> unat (number x))\<rparr>"

text \<open>\<open>ice_handle_stun_packet\<close> from the bytes of the packet; \<open>None\<close> also stands for a read behind them.\<close>

definition ice_receive :: "MSTimeSpec \<Rightarrow> nat \<Rightarrow> ice_ports \<Rightarrow> OrtpEventData \<Rightarrow> crypto \<Rightarrow> bytes \<Rightarrow> ice \<Rightarrow> ice option" where
  "ice_receive now c rs e cr buf w = (if c \<notin> set (s_streams (ses w)) then Some w
     else case stunParseMessage buf of
       None \<Rightarrow> None
     | Some (ok, m) \<Rightarrow> ice_handle_stun_packet now c rs (e\<lparr>e_hmac_ok := ice_integrity_ok cr buf m\<rparr>) (if ok then Some (ice_view m) else None) w)"

section \<open>A check reaches the peer\<close>

lemma length_bytes_of [simp]: "length (bytes_of s) = length s"
  by (simp add: bytes_of_def)

lemma check_message_fields:
  assumes "uname \<noteq> []"
  shows "StunMessage.msgType (check_message uname prio uc role tb tid) = STUN_METHOD_BINDING OR STUN_REQUEST"
    "StunMessage.tr_id (check_message uname prio uc role tb tid) = tid_bytes tid"
    "StunMessage.username (check_message uname prio uc role tb tid) = Some (atr_text uname)"
    "messageIntegrity (check_message uname prio uc role tb tid) = Some (replicate 20 0)"
    "fingerprint (check_message uname prio uc role tb tid) = Some 0"
    "priority (check_message uname prio uc role tb tid) = Some prio"
    "useCandidate (check_message uname prio uc role tb tid) = uc"
    "StunMessage.iceControlling (check_message uname prio uc role tb tid) = (if role = IR_Controlling then Some tb else None)"
    "StunMessage.iceControlled (check_message uname prio uc role tb tid) = (if role = IR_Controlled then Some tb else None)"
    "realmName (check_message uname prio uc role tb tid) = None"
    "sendable (check_message uname prio uc role tb tid)"
  using assms by (auto simp: check_message_def stunBuildReqSimple_def Let_def zero_msg_def text_of_def atr_text_def sendable_def bytes_of_def
      split: IceRole.split)

text \<open>The packet without its last two attributes is what the sender has hashed.\<close>

lemma integrity_of_received:
  assumes "sendable msg" "fingerprint msg \<noteq> None" "is_signed msg (Some (atr_text pw))" "text_of (realmName msg) = []" "length pw \<le> 512"
  shows "ice_integrity_ok cr (stunEncodeMessage cr msg (Some (atr_text pw))) (received cr msg (Some (atr_text pw))) pw"
proof -
  let ?pw = "Some (atr_text pw)" and ?at = "encode_attributes msg"
  let ?buf = "stunEncodeMessage cr msg ?pw" and ?all = "all_attributes cr msg ?pw"
  define tail where "tail = encodeAtrIntegrity (message_hash cr msg ?pw) @ encodeAtrFingerprint (message_crc cr msg ?pw)"
  have tid: "length (StunMessage.tr_id msg) = 12"
    using assms(1) by (simp add: sendable_def)
  have all: "?all = ?at @ tail"
    using assms(2,3) by (simp add: all_attributes_def signed_attributes_def tail_def)
  have tail: "length tail = 32"
    by (simp add: tail_def)
  have len: "msgLength (received cr msg ?pw) - 8 = of_nat (length ?at + 24)"
    by (simp add: received_def all tail)
  have "take 2 ?buf @ be16_bytes (msgLength (received cr msg ?pw) - 8) @ drop 4 ?buf = header msg (length ?at + 24) @ ?at @ tail"
    unfolding len put_length_def[symmetric] encode_parts[OF tid] put_length_header all ..
  moreover have "take (length (header msg (length ?at + 24) @ ?at @ tail) - 24 - 8) (header msg (length ?at + 24) @ ?at @ tail)
      = header msg (length ?at + 24) @ ?at"
    by (simp add: tail)
  moreover have "atr_text pw = bytes_of pw"
    using assms(5) by (simp add: atr_text_def)
  ultimately show ?thesis
    using assms(3,4) by (simp add: ice_integrity_ok_def Let_def received_def message_hash_def text_of_def)
qed

lemma c_string_id: "CHR 0x00 \<notin> set s \<Longrightarrow> c_string s = s"
  unfolding c_string_def by (rule takeWhile_eq_all_conv[THEN iffD2]) auto

text \<open>C7: the packet of a connectivity check passes the checks of the peer that shares the fragments and the password, and its handler
  goes on with the priority, the nomination and the transaction that the sender meant.\<close>

theorem check_reaches_peer:
  assumes "check_packet cr c wa (Binding_Request p prio uc role tb tid) = Some pkt"
    and "ice_check_list_remote_ufrag c wa = Some (s_local_ufrag (ses wb))" "ice_check_list_remote_pwd c wa = Some (s_local_pwd (ses wb))"
    and "CHR '':'' \<notin> set (s_local_ufrag (ses wb))" "CHR 0x00 \<notin> set (s_local_ufrag (ses wb) @ s_local_ufrag (ses wa))"
    and "length (s_local_ufrag (ses wb)) + length (s_local_ufrag (ses wa)) < 255"
    and "s_local_pwd (ses wb) \<noteq> []" "length (s_local_pwd (ses wb)) \<le> 512"
    and "role \<noteq> s_role (ses wb)" "d \<in> set (s_streams (ses wb))"
  shows "\<exists>m e'. ice_receive now d rs e cr pkt wb = accept_request now d rs e' (ice_view m) wb
     \<and> IceStunView.tr_id (ice_view m) = tid \<and> msg_priority (ice_view m) = prio \<and> hasUseCandidate (ice_view m) = uc
     \<and> IceStunView.username (ice_view m) = s_local_ufrag (ses wb) @ '':'' @ s_local_ufrag (ses wa)
     \<and> (if role = IR_Controlling then hasIceControlling (ice_view m) \<and> IceStunView.iceControlling (ice_view m) = tb
        else hasIceControlled (ice_view m) \<and> IceStunView.iceControlled (ice_view m) = tb)"
proof -
  define un where "un = s_local_ufrag (ses wb) @ '':'' @ s_local_ufrag (ses wa)"
  let ?pwd = "s_local_pwd (ses wb)"
  let ?msg = "check_message un prio uc role tb tid" and ?pw = "Some (atr_text ?pwd)"
  define m where "m = received cr ?msg ?pw"
  have size_un: "un \<noteq> []" "length un \<le> 255"
    using assms(6) by (simp_all add: un_def)
  note f = check_message_fields[OF size_un(1), of prio uc role tb tid]
  have asc: "atr_text un = bytes_of un"
    using size_un(2) by (simp add: atr_text_def)
  have sg: "is_signed ?msg ?pw"
    using f(3,4) assms(7) size_un(1) unfolding asc by (simp add: is_signed_def text_of_def atr_text_def bytes_of_def)
  have pkt: "pkt = stunEncodeMessage cr ?msg ?pw"
    using assms(1-3) by (simp add: check_packet_def un_def)
  have parsed: "stunParseMessage pkt = Some (True, m)"
    unfolding pkt m_def by (rule parse_encoded) (rule f)
  have hash: "ice_integrity_ok cr pkt m ?pwd"
    unfolding pkt m_def by (rule integrity_of_received[OF f(11) _ sg _ assms(8)]) (simp_all add: f text_of_def)
  have view: "IceStunView.tr_id (ice_view m) = tid" "msg_priority (ice_view m) = prio" "hasUseCandidate (ice_view m) = uc"
    "IceStunView.username (ice_view m) = un" "IceStunView.msgType (ice_view m) = Stun_Request"
    "hasMessageIntegrity (ice_view m)" "hasUsername (ice_view m)" "hasFingerprint (ice_view m)" "hasPriority (ice_view m)"
    "hasIceControlling (ice_view m) = (role = IR_Controlling)" "hasIceControlled (ice_view m) = (role = IR_Controlled)"
    "IceStunView.iceControlling (ice_view m) = (if role = IR_Controlling then tb else 0)"
    "IceStunView.iceControlled (ice_view m) = (if role = IR_Controlled then tb else 0)"
    using sg by (simp_all add: ice_view_def m_def received_def received_attributes_def f asc text_of_def number_of_def ice_type_def
        STUN_IS_REQUEST_def)
  define e' where "e' = e\<lparr>e_hmac_ok := ice_integrity_ok cr pkt m\<rparr>"
  have roles: "hasIceControlling (ice_view m) \<or> hasIceControlled (ice_view m)"
    using view(10,11) by (cases role) auto
  have c: "c_string un = un"
    using assms(5) by (intro c_string_id) (auto simp: un_def)
  have tw: "takeWhile (\<lambda>x. x \<noteq> CHR '':'') un = s_local_ufrag (ses wb)"
    unfolding un_def using assms(4) by (subst takeWhile_append2) auto
  have "ice_check_received_binding_request_attributes rs e' (ice_view m) wb = (True, wb)"
    using view roles by (simp add: ice_check_received_binding_request_attributes_def)
  moreover have "ice_check_received_binding_request_integrity rs e' (ice_view m) wb = (True, wb)"
    using hash by (simp add: ice_check_received_binding_request_integrity_def e'_def)
  moreover have "ice_check_received_binding_request_username rs e' (ice_view m) wb = Some (True, wb)"
    unfolding ice_check_received_binding_request_username_def Let_def view(4) c tw
    using size_un(2) by (simp add: strncmp_eq_def un_def)
  moreover have "ice_check_received_binding_request_role_conflict rs e' (ice_view m) wb = (True, wb)"
    using assms(9) view(10,11)
    by (cases role; cases "s_role (ses wb)") (simp_all add: ice_check_received_binding_request_role_conflict_def)
  ultimately have "ice_handle_received_binding_request now d rs e' (ice_view m) wb = accept_request now d rs e' (ice_view m) wb"
    by (simp add: ice_handle_received_binding_request_def accept_request_def Let_def)
  then have "ice_receive now d rs e cr pkt wb = accept_request now d rs e' (ice_view m) wb"
    using assms(10) view(5) by (simp add: ice_receive_def parsed ice_handle_stun_packet_def e'_def)
  then show ?thesis
    using view roles unfolding un_def by (intro exI[of _ m] exI[of _ e']) (cases role; simp)
qed

definition peer_agent :: ice where
  "peer_agent = demo_agent\<lparr>ses := (ses demo_agent)\<lparr>s_role := IR_Controlled, s_local_ufrag := ''ru'', s_local_pwd := ''rp''\<rparr>\<rparr>"

theorem check_reaches_peer_witness:
  "\<exists>pkt m e'. check_packet toy_crypto 0 demo_agent (Binding_Request 1 0x6effffff True IR_Controlling 5 1) = Some pkt
     \<and> ice_receive (at_ms 150) 0 demo_ports demo_packet toy_crypto pkt peer_agent = accept_request (at_ms 150) 0 demo_ports e' (ice_view m) peer_agent
     \<and> hasUseCandidate (ice_view m) \<and> IceStunView.tr_id (ice_view m) = 1"
proof -
  let ?out = "Binding_Request 1 0x6effffff True IR_Controlling 5 1"
  have peer: "s_local_ufrag (ses peer_agent) = ''ru''" "s_local_pwd (ses peer_agent) = ''rp''" "s_role (ses peer_agent) = IR_Controlled"
    "s_streams (ses peer_agent) = [0]"
    by (simp_all add: peer_agent_def demo_agent_def demo_ice_def ice_session_init_def)
  have own: "ice_check_list_remote_ufrag 0 demo_agent = Some ''ru''" "ice_check_list_remote_pwd 0 demo_agent = Some ''rp''"
    "s_local_ufrag (ses demo_agent) = ''uf''"
    by (simp_all add: ice_check_list_remote_ufrag_def ice_check_list_remote_pwd_def demo_agent_def demo_ice_def ice_session_init_def)
  obtain pkt where pkt: "check_packet toy_crypto 0 demo_agent ?out = Some pkt"
    by (simp add: check_packet_def own)
  have "\<exists>m e'. ice_receive (at_ms 150) 0 demo_ports demo_packet toy_crypto pkt peer_agent
        = accept_request (at_ms 150) 0 demo_ports e' (ice_view m) peer_agent
     \<and> IceStunView.tr_id (ice_view m) = 1 \<and> msg_priority (ice_view m) = 0x6effffff \<and> hasUseCandidate (ice_view m) = True
     \<and> IceStunView.username (ice_view m) = s_local_ufrag (ses peer_agent) @ '':'' @ s_local_ufrag (ses demo_agent)
     \<and> (if IR_Controlling = IR_Controlling then hasIceControlling (ice_view m) \<and> IceStunView.iceControlling (ice_view m) = 5
        else hasIceControlled (ice_view m) \<and> IceStunView.iceControlled (ice_view m) = 5)"
    by (rule check_reaches_peer[OF pkt]) (simp_all add: peer own)
  then show ?thesis
    using pkt by blast
qed

text \<open>C40: the response to a request is read by its sender with the transaction of the request and the address the request came from, and
  it carries no MESSAGE-INTEGRITY.\<close>

theorem response_answers_check:
  assumes "length (StunMessage.tr_id req) = 12" "length (text_of (StunMessage.username req)) < STUN_MAX_STRING"
  shows "\<exists>m. stunParseMessage (response_packet cr req dest) = Some (True, m)
     \<and> IceStunView.msgType (ice_view m) = Stun_Success \<and> IceStunView.tr_id (ice_view m) = tid_word (StunMessage.tr_id req)
     \<and> ice_check_received_binding_response_attributes (ice_view m)
     \<and> IceStunView.xorMappedAddress (ice_view m) = (addr dest, port dest)
     \<and> ice_parse_stun_server_binding_response (ice_view m) = Some (ice_inet_ntoa (addr dest), uint (port dest))
     \<and> \<not> hasMessageIntegrity (ice_view m)"
proof -
  let ?msg = "zero_msg\<lparr>magic_cookie := ntohl (magic_cookie req), tr_id := StunMessage.tr_id req,
        msgType := STUN_METHOD_BINDING OR STUN_SUCCESS_RESP, messageIntegrity := Some (replicate 20 0), fingerprint := Some 0,
        username := Some (text_of (StunMessage.username req)), xorMappedAddress := Some (plain_atr (xor_address dest))\<rparr>"
  have "sendable ?msg"
    using assms by (simp add: sendable_def zero_msg_def text_of_def)
  note parsed = parse_encoded[OF this, of cr "Some []"]
  have "\<not> is_signed ?msg (Some [])"
    by (simp add: is_signed_def text_of_def)
  then show ?thesis
    unfolding response_packet_def parsed
    by (intro exI[of _ "received cr ?msg (Some [])"])
      (simp add: ice_view_def received_def received_attributes_def ice_type_def STUN_IS_REQUEST_def STUN_IS_SUCCESS_RESP_def
        ice_check_received_binding_response_attributes_def ice_parse_stun_server_binding_response_def address_of_def ipv4_of_def
        plain_atr_def as_ipv4_def zero_msg_def)
qed

theorem response_answers_check_witness:
  "\<exists>m. stunParseMessage (response_packet toy_crypto every_attribute \<lparr>port = 9080, addr = 0x0a000001\<rparr>) = Some (True, m)
     \<and> IceStunView.xorMappedAddress (ice_view m) = (0x0a000001, 9080)"
proof -
  have "length (StunMessage.tr_id every_attribute) = 12" "length (text_of (StunMessage.username every_attribute)) < STUN_MAX_STRING"
    by (simp_all add: every_attribute_def zero_msg_def text_of_def)
  from response_answers_check[OF this, of toy_crypto "\<lparr>port = 9080, addr = 0x0a000001\<rparr>"] show ?thesis
    by auto
qed

end
