(* ===== verification/Spec2Isabelle.thy ===== *)
theory Spec2Isabelle
  imports Msg_Properties Av_Profile Rtp_Queue Rfc3984 Rtp_Scheduler Ms_Mixer Ms_Event Ms_Ticker Stun_Nat Ice_Stun
begin

text \<open>
  The verification of the core of the conference program: the RTP stack oRTP (\<open>src/ortp\<close>) and the parts of the
  media library mediastreamer2 (\<open>src/mediastreamer2\<close>) that handle its packets.

  \<^bold>\<open>The program.\<close> An application creates an \<open>RtpSession\<close>, gives it buffers to send and asks it for packets at a timestamp.
  Packets are chains of message blocks (\<open>str_utils.c\<close>). Sending (\<open>rtpsession.c\<close>, \<open>rtpsession_inet.c\<close>) stamps a packet and puts
  it on the wire; reception reads the socket, passes the datagram through a network simulator (\<open>netsim.c\<close>), checks it
  (\<open>rtpparse.c\<close>) and queues it by sequence number; the jitter control (\<open>jitterctl.c\<close>) decides which packet is due. Reports
  about the stream travel as RTCP (\<open>rtcp.c\<close>, \<open>rtcpparse.c\<close>). DTMF digits are telephone events (\<open>telephonyevents.c\<close>). A scheduler
  thread (\<open>scheduler.c\<close>, \<open>sessionset.c\<close>) wakes the threads that wait for a time. mediastreamer2 cuts streams of bytes into
  frames (\<open>msqueue.c\<close>) and H.264 access units into packets (\<open>rfc3984.c\<close>).

  \<^bold>\<open>The theories.\<close>
  \<^item> \<open>Conf_Prelude\<close>: words, big-endian fields, C division and truncation, the lemma collections that the others use.
  \<^item> \<open>Str_Utils\<close>, \<open>Str_Utils_Inv\<close>, \<open>Str_Queue\<close>, \<open>Msg_Properties\<close> (\<open>str_utils.c\<close>): blocks, data blocks and reference counts in an
    explicit store, the doubly linked queue with its stopper, the block allocator. A fault (a dangling or NULL pointer, a write
    behind a block) is \<open>None\<close>. The invariant says that every count is the number of references; the locales
    \<open>msg_copier\<close> and \<open>fifo\<close> state what copying and queueing promise and are interpreted on the code's operations.
  \<^item> \<open>Rtp_Profile\<close>, \<open>Av_Profile\<close> (\<open>payloadtype.c\<close>, \<open>rtpprofile.c\<close>, \<open>avprofile.c\<close>): payload types, searches, rtpmap and fmtp strings.
  \<^item> \<open>Rtp_Queue\<close> (\<open>rtp_putq\<close>, \<open>rtp_getq\<close>): the jitter buffer; the order is that of distances from a base in the circle of
    sequence numbers.
  \<^item> \<open>C_Float\<close>, \<open>Jitter_Ctl\<close> (\<open>jitterctl.c\<close>): float and double as rationals rounded after every operation to 24 and 53 bits
    (no overflow and no denormals: the values are far from both); a conversion to int outside its range gives \<open>- (2 ^ 31)\<close>, as
    the machines do that the program runs on, and int sums wrap (\<open>s32\<close>, \<open>s64\<close>). The estimator and its bounds.
  \<^item> \<open>Rtp_Session\<close>, \<open>Rtp_Parse\<close>, \<open>Rtp_Api\<close> (\<open>rtpsession.h\<close>, \<open>rtpsession.c\<close>, \<open>rtpparse.c\<close>, \<open>telephonyevents.c\<close>): the session record,
    its settings, the reception of a datagram byte by byte, the wire format and telephone events. Callbacks and events are
    appended to a list in the session.
  \<^item> \<open>Rtcp_Packet\<close>, \<open>Rtcp_Session\<close>, \<open>Net_Sim\<close> (\<open>rtcp.c\<close>, \<open>rtcpparse.c\<close>, \<open>rtpsession_inet.c\<close>, \<open>netsim.c\<close>): RTCP packets on bytes, reports
    and source descriptions of a session, the round trip time, the simulator.
  \<^item> \<open>Rtp_Io\<close> (\<open>rtpsession.c\<close>, \<open>rtpsession_inet.c\<close>, \<open>telephonyevents.c\<close>): creation, sending and receiving. The sockets, the clock, the
    scheduler's time and random numbers are the record \<open>Env\<close>; what was sent is recorded in the session.
  \<^item> \<open>Rtp_Scheduler\<close> (\<open>scheduler.c\<close>, \<open>sessionset.c\<close>): the masks as words, the list of sessions, the turns of the thread, select.
    Waiting is modelled by the functions that the other threads apply to the scheduler meanwhile. The bits that \<open>Rtp_Io\<close>
    keeps in the session are those at its position in the masks (\<open>sched_process_refines\<close>).
  \<^item> \<open>Ms_Queue\<close>, \<open>Rfc3984\<close> (\<open>msqueue.c\<close>, \<open>rfc3984.c\<close>): the bufferizer as a pipe of bytes (locale \<open>byte_pipe\<close>), packing and unpacking
    of NAL units.

  \<^item> \<open>Ms_G711\<close>, \<open>Ms_Mixer\<close> (\<open>g711common.h\<close>, \<open>alaw.c\<close>, \<open>ulaw.c\<close>, \<open>audiomixer.c\<close>): the codecs on samples, the encoder and decoder
    filters, the mixer with its channels.
  \<^item> \<open>Ms_Event\<close> (\<open>eventqueue.c\<close>): the ring of bytes that carries notifications to the application, with the locale
    \<open>bounded_fifo\<close> interpreted on its operations.

  \<^item> \<open>Ms_Filter\<close>, \<open>Ms_Ticker\<close> (\<open>msfilter.c\<close>, \<open>msticker.c\<close>): the graph of filters and queues, the search for the filters connected to
    one, the ticker that gives each filter its turn. The code of the filters is an argument: functions on the messages in the queues and
    the private data. The hypothesis \<open>consumes\<close> says what the ticker's own warning asks for: a filter takes all its input in one call.

  \<^item> \<open>Ms_List\<close>, \<open>Ice_Model\<close>, \<open>Ice_List\<close>, \<open>Ice_Check\<close>, \<open>Ice_Inv\<close>, \<open>Ice_Run\<close> (\<open>mscommon.c\<close>, \<open>ice.c\<close>): linked lists on a store of nodes; the ICE agent from its
    candidates to its check lists, and the handlers of packets and of the passing of time. What is sent and dispatched is
    appended to a list. \<open>Ice_Inv\<close> has the step relation of the agent and its invariant, \<open>Ice_Run\<close> the properties of its runs.

  \<^item> \<open>Stun_Msg\<close>, \<open>Stun_Codec\<close>, \<open>Stun_Server\<close>, \<open>Stun_Nat\<close> (\<open>stun.c\<close>): STUN messages with their parser and encoder on bytes, the
    fingerprint, requests and the answers of the server, the discovery of the kind of NAT as a loop over the results of \<open>select\<close>.
    A flag \<open>has...\<close> and its value are an option; a read behind the packet is \<open>None\<close>. MD5 and HMAC-SHA1 of OpenSSL are the record
    \<open>crypto\<close>, about which nothing is assumed. \<open>nat_box\<close> says what a NAT does to packets, \<open>of_kind\<close> names the kinds of RFC 3489.
  \<^item> \<open>Ice_Stun\<close> (\<open>ice.c\<close>, \<open>stun.c\<close>): the packets that the outputs of the agent stand for, and \<open>ice_handle_stun_packet\<close> from the bytes
    that arrive: the parsed message is seen by the handlers of \<open>Ice_Check\<close> as \<open>IceStunView\<close>.

  \<^bold>\<open>What is shown.\<close> Memory: freeing, copying and queueing of messages keep the counts right and touch nothing else. Order:
  the jitter buffer stays sorted, packets are delivered in the order of their numbers within what the timestamps tell, the simulator and the bufferizer keep
  order. Accounting: each datagram is queued, counted or reported. Round trips: packets, RTCP reports, source descriptions,
  rtpmap lines, NAL units, digits, STUN messages, G.711 codes. Media: in a conference everybody hears the others; the error of a G.711 path. Connectivity: one nominated pair per component, the outcome of a check list, the resolution of role conflicts; a check
  that one agent sends is accepted by the other; a client learns its address and the kind of its NAT. Timing: the round trip time, retransmission, the wake up of waiting sessions, the turn of every filter in every tick. Totality: reception ends on every
  input. Where the code is wrong the theorem says exactly when: which lengths are read behind the end, which loops do not end,
  which sets come back unchanged.

  \<^bold>\<open>Loops.\<close> A loop that may not end is a \<open>partial_function (option)\<close>; that it ends, or when it does not, is a theorem. The others are
  structural or have a termination proof; no definition uses fuel.

  \<^bold>\<open>Not modelled.\<close> Threads, locks and condition variables (the functions run under their locks), sockets and clocks, SRTP and
  ZRTP (bindings of libraries), device drivers and the other codecs, the release of ICE sessions, TURN allocation, the conference
  servers (C++), generated bindings and vendored code. Allocation does not fail. Message blocks inside a session are lists of bytes: the
  store of \<open>Str_Utils\<close> is not threaded through the session. The calls of the event queue are atomic. \<open>ice.c\<close> ignores that
  \<open>stunParseHostName\<close> leaves its destination unset for ports below 1024 and for 65535; the ICE theories take the candidate's port.

  \<^bold>\<open>Plan.\<close> Left: base64, the bitrate driver, the assembly of streams.
\<close>

end
